(* ===== verification/Prelude.thy ===== *)
theory Prelude
  imports Main "HOL-Library.Word" "HOL-Library.Code_Target_Nat"
begin

text \<open>
  What every component of the network crate shares: the machine integer types, big-endian
  byte encodings (\<open>to_be_bytes\<close>, \<open>from_be_bytes\<close>), the shape of a Rust \<open>Result\<close>
  (\<open>'e + 'a\<close>, \<open>Inl\<close> the error), checked and saturating arithmetic on \<open>usize\<close> and
  \<open>u64\<close>, the pieces of Rust's formatting and string functions the code calls, and
  generic list lemmas. A Rust string is the list of its UTF-8 bytes (a HOL \<open>string\<close>).
\<close>

unbundle bit_operations_syntax

named_theorems wire_simps "equations that evaluate the byte layout of a message"
named_theorems frame_rules "facts on which parts of a state an operation leaves unchanged"

text \<open>
  A fallible operation on a state, \<open>None\<close> a panic, and the \<open>?\<close> operator: stop at the first error
  and at a panic.
\<close>

type_synonym ('e, 'a, 's) step_result = "(('e + 'a) \<times> 's) option"

definition step_then :: "('e, 'a, 's) step_result \<Rightarrow> ('a \<Rightarrow> 's \<Rightarrow> ('e, 'b, 's) step_result) \<Rightarrow> ('e, 'b, 's) step_result" where
  "step_then r k =
     (case r of
        None \<Rightarrow> None
      | Some (Inl e, s) \<Rightarrow> Some (Inl e, s)
      | Some (Inr x, s) \<Rightarrow> k x s)"

lemma step_then_simps [simp]:
  "step_then None k = None" "step_then (Some (Inl e, s)) k = Some (Inl e, s)"
  "step_then (Some (Inr x, s)) k = k x s"
  by (simp_all add: step_then_def)

text \<open>\<open>?\<close> on a value without state.\<close>

definition bind_res :: "'e + 'a \<Rightarrow> ('a \<Rightarrow> 'e + 'b) \<Rightarrow> 'e + 'b" where
  "bind_res r k = (case r of Inl e \<Rightarrow> Inl e | Inr x \<Rightarrow> k x)"

lemma bind_res_simps [simp]: "bind_res (Inl e) k = Inl e" "bind_res (Inr x) k = k x"
  by (simp_all add: bind_res_def)

lemma bind_res_ok: "bind_res r k = Inr y \<longleftrightarrow> (\<exists>x. r = Inr x \<and> k x = Inr y)"
  by (cases r) simp_all

section \<open>Machine integers\<close>

type_synonym u8 = "8 word"
type_synonym u16 = "16 word"
type_synonym u32 = "32 word"
type_synonym u64 = "64 word"
type_synonym bytes = "u8 list"

abbreviation ok_res :: "'a \<Rightarrow> 'e + 'a" where "ok_res \<equiv> Inr"
abbreviation err_res :: "'e \<Rightarrow> 'e + 'a" where "err_res \<equiv> Inl"

definition is_ok :: "'e + 'a \<Rightarrow> bool" where
  "is_ok r = (case r of Inl _ \<Rightarrow> False | Inr _ \<Rightarrow> True)"

lemma is_ok_simps [simp]: "is_ok (Inr a)" "\<not> is_ok (Inl e)"
  by (simp_all add: is_ok_def)

lemma is_ok_iff: "is_ok r \<longleftrightarrow> (\<exists>a. r = Inr a)"
  by (cases r) simp_all

text \<open>The largest \<open>usize\<close> of the 64-bit targets the crate is built for.\<close>

definition usize_max :: nat where
  "usize_max = 2 ^ 64 - 1"

definition checked_add_usize :: "nat \<Rightarrow> nat \<Rightarrow> nat option" where
  "checked_add_usize a b = (if a + b \<le> usize_max then Some (a + b) else None)"

definition saturating_succ_u64 :: "u64 \<Rightarrow> u64" where
  "saturating_succ_u64 c = (if c = - 1 then c else c + 1)"

lemma unat_saturating_succ:
  "unat (saturating_succ_u64 c) = min (unat c + 1) (2 ^ 64 - 1)"
proof (cases "c = - 1")
  case True
  then show ?thesis by (simp add: saturating_succ_u64_def unsigned_minus_1_eq_mask mask_eq_exp_minus_1)
next
  case False
  then have "1 + c \<noteq> 0"
    by (metis add_eq_0_iff)
  then have suc: "unat (c + 1) = unat c + 1"
    by (metis add.commute Suc_eq_plus1 unatSuc)
  moreover have "unat (c + 1) < 2 ^ 64"
    using unsigned_less [of "c + 1"] by simp
  ultimately show ?thesis
    using False by (simp add: saturating_succ_u64_def)
qed

lemma unat_u8_lt [simp]: "unat (b :: u8) < 256"
  using unsigned_less [of b] by simp

lemma unat_u16_lt [simp]: "unat (b :: u16) < 65536"
  using unsigned_less [of b] by simp

lemma unat_u32_lt [simp]: "unat (b :: u32) < 4294967296"
  using unsigned_less [of b] by simp

lemma u32_of_nat_inject: "m < 2 ^ 32 \<Longrightarrow> n < 2 ^ 32 \<Longrightarrow> (of_nat m :: u32) = of_nat n \<longleftrightarrow> m = n"
  by (auto simp: word_of_nat_eq_iff take_bit_nat_eq_self)

section \<open>Big-endian byte encodings\<close>

fun be_bytes :: "nat \<Rightarrow> nat \<Rightarrow> bytes" where
  "be_bytes 0 v = []"
| "be_bytes (Suc n) v = be_bytes n (v div 256) @ [of_nat (v mod 256)]"

definition be_nat :: "bytes \<Rightarrow> nat" where
  "be_nat bs = foldl (\<lambda>acc b. acc * 256 + unat b) 0 bs"

lemma length_be_bytes [simp]: "length (be_bytes n v) = n"
  by (induction n arbitrary: v) simp_all

lemma be_nat_Nil [simp]: "be_nat [] = 0"
  by (simp add: be_nat_def)

lemma be_nat_snoc [simp]: "be_nat (bs @ [b]) = be_nat bs * 256 + unat b"
  by (simp add: be_nat_def)

lemma be_nat_bound: "be_nat bs < 256 ^ length bs"
proof (induction bs rule: rev_induct)
  case Nil
  then show ?case by simp
next
  case (snoc b bs)
  have "be_nat bs * 256 + unat b < (be_nat bs + 1) * 256" by simp
  also have "\<dots> \<le> 256 ^ length bs * 256"
    using snoc by (intro mult_le_mono1) simp
  finally show ?case by (simp add: mult.commute)
qed

lemma be_nat_be_bytes: "be_nat (be_bytes n v) = v mod 256 ^ n"
proof (induction n arbitrary: v)
  case 0
  then show ?case by simp
next
  case (Suc n)
  have "unat (of_nat (v mod 256) :: u8) = v mod 256"
    by (simp add: unat_of_nat)
  with Suc have "be_nat (be_bytes (Suc n) v) = (v div 256) mod 256 ^ n * 256 + v mod 256"
    by simp
  also have "\<dots> = v mod 256 ^ Suc n"
    by (simp add: mod_mult2_eq mult.commute)
  finally show ?case .
qed

lemma be_bytes_be_nat: "be_bytes (length bs) (be_nat bs) = bs"
proof (induction bs rule: rev_induct)
  case Nil
  then show ?case by simp
next
  case (snoc b bs)
  have "(be_nat bs * 256 + unat b) div 256 = be_nat bs" by simp
  moreover have "(of_nat ((be_nat bs * 256 + unat b) mod 256) :: u8) = b" by simp
  ultimately show ?case using snoc by simp
qed

definition u16_to_be_bytes :: "u16 \<Rightarrow> bytes" where
  "u16_to_be_bytes v = be_bytes 2 (unat v)"

definition u32_to_be_bytes :: "u32 \<Rightarrow> bytes" where
  "u32_to_be_bytes v = be_bytes 4 (unat v)"

definition u16_from_be_bytes :: "bytes \<Rightarrow> u16" where
  "u16_from_be_bytes bs = of_nat (be_nat bs)"

definition u32_from_be_bytes :: "bytes \<Rightarrow> u32" where
  "u32_from_be_bytes bs = of_nat (be_nat bs)"

lemma length_u16_to_be_bytes [simp, wire_simps]: "length (u16_to_be_bytes v) = 2"
  by (simp add: u16_to_be_bytes_def)

lemma length_u32_to_be_bytes [simp, wire_simps]: "length (u32_to_be_bytes v) = 4"
  by (simp add: u32_to_be_bytes_def)

lemma u16_from_to_be [simp, wire_simps]: "u16_from_be_bytes (u16_to_be_bytes v) = v"
  by (simp add: u16_from_be_bytes_def u16_to_be_bytes_def be_nat_be_bytes)

lemma u32_from_to_be [simp, wire_simps]: "u32_from_be_bytes (u32_to_be_bytes v) = v"
  by (simp add: u32_from_be_bytes_def u32_to_be_bytes_def be_nat_be_bytes)

lemma unat_u32_from_be:
  assumes "length bs = 4"
  shows "unat (u32_from_be_bytes bs) = be_nat bs"
  using be_nat_bound [of bs] assms by (simp add: u32_from_be_bytes_def unat_of_nat)

lemma u16_to_from_be:
  assumes "length bs = 2"
  shows "u16_to_be_bytes (u16_from_be_bytes bs) = bs"
proof -
  have "unat (u16_from_be_bytes bs) = be_nat bs"
    using be_nat_bound [of bs] assms by (simp add: u16_from_be_bytes_def unat_of_nat)
  then show ?thesis
    using be_bytes_be_nat [of bs] assms by (simp add: u16_to_be_bytes_def)
qed

lemma u32_to_from_be:
  assumes "length bs = 4"
  shows "u32_to_be_bytes (u32_from_be_bytes bs) = bs"
  using be_bytes_be_nat [of bs] assms
  by (simp add: u32_to_be_bytes_def unat_u32_from_be)

section \<open>Slices\<close>

text \<open>\<open>&data[a..b]\<close>, for bounds the code has checked.\<close>

definition slice_of :: "nat \<Rightarrow> nat \<Rightarrow> 'a list \<Rightarrow> 'a list" where
  "slice_of a b xs = take (b - a) (drop a xs)"

lemma length_slice_of [simp]: "b \<le> length xs \<Longrightarrow> length (slice_of a b xs) = b - a"
  by (simp add: slice_of_def)

lemma slice_of_append_drop:
  "a \<le> b \<Longrightarrow> b \<le> length xs \<Longrightarrow> slice_of a b xs @ drop b xs = drop a xs"
  by (metis append_take_drop_id drop_drop le_add_diff_inverse2 slice_of_def)

lemma six_elements: "6 \<le> length p \<Longrightarrow> \<exists>a b c d e f q. p = a # b # c # d # e # f # q"
  by (simp only: eval_nat_numeral BitM.simps One_nat_def Suc_le_length_iff) blast

lemma take_slice_of: "a \<le> b \<Longrightarrow> take a xs @ slice_of a b xs = take b xs"
  by (metis le_add_diff_inverse slice_of_def take_add)

section \<open>Formatting\<close>

text \<open>Decimal digits of \<open>{}\<close> on an unsigned integer, and \<open>{}\<close> on a \<open>bool\<close>.\<close>

fun show_nat :: "nat \<Rightarrow> string" where
  "show_nat n = (if n < 10 then [char_of (48 + n)] else show_nat (n div 10) @ [char_of (48 + n mod 10)])"

declare show_nat.simps [simp del]

definition show_bool :: "bool \<Rightarrow> string" where
  "show_bool b = (if b then ''true'' else ''false'')"

definition newline :: string where
  "newline = [char_of (10 :: nat)]"

text \<open>\<open>writeln!\<close>\<close>

definition writeln :: "string \<Rightarrow> string" where
  "writeln s = s @ newline"

fun digits_value :: "nat \<Rightarrow> string \<Rightarrow> nat" where
  "digits_value acc [] = acc"
| "digits_value acc (c # cs) = digits_value (acc * 10 + (of_char c - 48)) cs"

lemma digits_value_append: "digits_value acc (xs @ ys) = digits_value (digits_value acc xs) ys"
  by (induction xs arbitrary: acc) simp_all

lemma digits_value_show: "digits_value 0 (show_nat n) = n"
proof (induction n rule: show_nat.induct)
  case (1 n)
  show ?case
  proof (cases "n < 10")
    case True
    then show ?thesis by (simp add: show_nat.simps [of n])
  next
    case False
    have m: "n mod 10 < 10" by simp
    from False 1 show ?thesis
      using m by (simp add: show_nat.simps [of n] digits_value_append)
  qed
qed

lemma show_nat_inject: "show_nat m = show_nat n \<longleftrightarrow> m = n"
  using digits_value_show by metis

text \<open>Lower-case hex of fixed width: \<open>{:02x}\<close> of a byte, \<open>{:04x}\<close> of a \<open>u16\<close>.\<close>

definition hex_char :: "nat \<Rightarrow> char" where
  "hex_char k = char_of (if k < 10 then 48 + k else 87 + k)"

fun hex_digits :: "nat \<Rightarrow> nat \<Rightarrow> string" where
  "hex_digits 0 n = []"
| "hex_digits (Suc w) n = hex_digits w (n div 16) @ [hex_char (n mod 16)]"

definition show_hex_u8 :: "u8 \<Rightarrow> string" where
  "show_hex_u8 b = hex_digits 2 (unat b)"

definition show_hex_u16 :: "u16 \<Rightarrow> string" where
  "show_hex_u16 v = hex_digits 4 (unat v)"

definition hex_id :: "u16 \<Rightarrow> string" where
  "hex_id v = ''0x'' @ show_hex_u16 v"

text \<open>The arrow U+2192 of logs and sequence keys, three bytes in UTF-8.\<close>

definition right_arrow :: string where
  "right_arrow = map char_of [226 :: nat, 134, 146]"

text \<open>\<open>join\<close> of a list of strings, and \<open>{:x}\<close> of a number below 2^16.\<close>

fun join_with :: "string \<Rightarrow> string list \<Rightarrow> string" where
  "join_with sep [] = []"
| "join_with sep [x] = x"
| "join_with sep (x # y # xs) = x @ sep @ join_with sep (y # xs)"

definition hex_lower :: "nat \<Rightarrow> string" where
  "hex_lower n = map hex_char (if n < 16 then [n]
     else if n < 256 then [n div 16, n mod 16]
     else if n < 4096 then [n div 256, n div 16 mod 16, n mod 16]
     else [n div 4096, n div 256 mod 16, n div 16 mod 16, n mod 16])"

lemma length_hex_digits [simp]: "length (hex_digits w n) = w"
  by (induction w arbitrary: n) simp_all

lemma of_char_hex_char: "k < 16 \<Longrightarrow> of_char (hex_char k) = (if k < 10 then 48 + k else 87 + k)"
  by (simp add: hex_char_def)

lemma hex_char_inject: "j < 16 \<Longrightarrow> k < 16 \<Longrightarrow> hex_char j = hex_char k \<longleftrightarrow> j = k"
proof
  assume a: "j < 16" "k < 16" "hex_char j = hex_char k"
  then have "(if j < 10 then 48 + j else 87 + j) = (if k < 10 then 48 + k else 87 + k)"
    using of_char_hex_char [of j] of_char_hex_char [of k] by metis
  then show "j = k" using a(1,2) by (simp split: if_splits)
qed simp

section \<open>Trimming\<close>

text \<open>The UTF-8 encodings of the characters \<open>str::trim\<close> removes (Unicode \<open>White_Space\<close>).\<close>

definition whitespace_codes :: "nat list list" where
  "whitespace_codes =
     [[9], [10], [11], [12], [13], [32], [194, 133], [194, 160], [225, 154, 128]]
     @ map (\<lambda>k. [226, 128, k]) ([128, 129, 130, 131, 132, 133, 134, 135, 136, 137, 138, 168, 169, 175])
     @ [[226, 129, 159], [227, 128, 128]]"

definition whitespace_encodings :: "string list" where
  "whitespace_encodings = map (map char_of) whitespace_codes"

fun is_prefix :: "string \<Rightarrow> string \<Rightarrow> bool" where
  "is_prefix [] ys = True"
| "is_prefix (x # xs) [] = False"
| "is_prefix (x # xs) (y # ys) = (x = y \<and> is_prefix xs ys)"

lemma is_prefix_append [simp]: "is_prefix xs (xs @ ys)"
  by (induction xs) simp_all

lemma is_prefix_iff: "is_prefix xs ys \<longleftrightarrow> (\<exists>zs. ys = xs @ zs)"
  by (induction xs ys rule: is_prefix.induct) auto

function strip_leading :: "string list \<Rightarrow> string \<Rightarrow> string" where
  "strip_leading encs s =
     (case List.find (\<lambda>e. e \<noteq> [] \<and> is_prefix e s) encs of
        None \<Rightarrow> s
      | Some e \<Rightarrow> strip_leading encs (drop (length e) s))"
  by pat_completeness auto
termination
  by (relation "measure (\<lambda>(encs, s). length s)") (auto simp: find_Some_iff is_prefix_iff)

declare strip_leading.simps [simp del]

definition str_trim :: "string \<Rightarrow> string" where
  "str_trim s =
     rev (strip_leading (map rev whitespace_encodings) (rev (strip_leading whitespace_encodings s)))"

text \<open>Text without spaces or non-ASCII bytes is its own trim.\<close>

definition visible_ascii :: "string \<Rightarrow> bool" where
  "visible_ascii s = list_all (\<lambda>c. 33 \<le> (of_char c :: nat) \<and> (of_char c :: nat) < 127) s"

lemma visible_ascii_simps [simp]:
  "visible_ascii []" "visible_ascii (xs @ ys) \<longleftrightarrow> visible_ascii xs \<and> visible_ascii ys"
  "visible_ascii (rev xs) \<longleftrightarrow> visible_ascii xs"
  by (auto simp: visible_ascii_def list_all_iff)

lemma strip_leading_id:
  assumes "\<forall>e \<in> set encs. e \<noteq> [] \<longrightarrow> \<not> visible_ascii [hd e]" and "visible_ascii s"
  shows "strip_leading encs s = s"
proof -
  have "List.find (\<lambda>e. e \<noteq> [] \<and> is_prefix e s) encs = None"
    using assms by (fastforce simp: find_None_iff is_prefix_iff visible_ascii_def neq_Nil_conv)
  then show ?thesis by (simp add: strip_leading.simps)
qed

lemma whitespace_ends:
  "\<forall>e \<in> set whitespace_encodings. e \<noteq> [] \<longrightarrow> \<not> visible_ascii [hd e]"
  "\<forall>e \<in> set (map rev whitespace_encodings). e \<noteq> [] \<longrightarrow> \<not> visible_ascii [hd e]"
  by (simp_all add: whitespace_encodings_def whitespace_codes_def visible_ascii_def)

lemma str_trim_visible [simp]: "visible_ascii s \<Longrightarrow> str_trim s = s"
  by (simp add: str_trim_def strip_leading_id [OF whitespace_ends(1)] strip_leading_id [OF whitespace_ends(2)])

section \<open>Parsing integers and characters\<close>

text \<open>
  \<open>from_str_radix\<close> of an unsigned type with largest value \<open>m\<close>: an empty text, a lone sign and
  a bad digit are errors, a leading \<open>+\<close> is accepted, and overflow is an error of its own.
\<close>

datatype parse_int_error = EmptyInt | InvalidDigit | PosOverflow

fun show_parse_int_error :: "parse_int_error \<Rightarrow> string" where
  "show_parse_int_error EmptyInt = ''cannot parse integer from empty string''"
| "show_parse_int_error InvalidDigit = ''invalid digit found in string''"
| "show_parse_int_error PosOverflow = ''number too large to fit in target type''"

definition to_digit :: "nat \<Rightarrow> char \<Rightarrow> nat option" where
  "to_digit radix c =
     (let k = of_char c :: nat;
          v = (if 48 \<le> k \<and> k \<le> 57 then k - 48
               else if 97 \<le> k \<and> k \<le> 122 then k - 87
               else if 65 \<le> k \<and> k \<le> 90 then k - 55 else 36)
      in if v < radix then Some v else None)"

fun parse_digits :: "nat \<Rightarrow> nat \<Rightarrow> nat \<Rightarrow> string \<Rightarrow> parse_int_error + nat" where
  "parse_digits radix m acc [] = Inr acc"
| "parse_digits radix m acc (c # cs) =
     (case to_digit radix c of
        None \<Rightarrow> Inl InvalidDigit
      | Some v \<Rightarrow> if acc * radix + v > m then Inl PosOverflow
                  else parse_digits radix m (acc * radix + v) cs)"

definition parse_uint :: "nat \<Rightarrow> nat \<Rightarrow> string \<Rightarrow> parse_int_error + nat" where
  "parse_uint radix m s =
     (if s = [] then Inl EmptyInt
      else if s = ''+'' \<or> s = ''-'' then Inl InvalidDigit
      else if hd s = CHR ''+'' then parse_digits radix m 0 (tl s)
      else parse_digits radix m 0 s)"

text \<open>\<open>str::chars\<close>: a leading byte and its continuation bytes.\<close>

definition is_continuation :: "char \<Rightarrow> bool" where
  "is_continuation c \<longleftrightarrow> 128 \<le> (of_char c :: nat) \<and> (of_char c :: nat) < 192"

function str_chars :: "string \<Rightarrow> string list" where
  "str_chars [] = []"
| "str_chars (c # cs) = (c # takeWhile is_continuation cs) # str_chars (dropWhile is_continuation cs)"
  by pat_completeness auto
termination
  by (relation "measure length") (auto simp: length_dropWhile_le le_imp_less_Suc)

lemma str_chars_visible: "visible_ascii s \<Longrightarrow> str_chars s = map (\<lambda>c. [c]) s"
proof (induction s)
  case (Cons c s)
  then have "takeWhile is_continuation s = []" "dropWhile is_continuation s = s"
    by (cases s; simp add: is_continuation_def visible_ascii_def)+
  with Cons show ?case by (simp add: visible_ascii_def)
qed simp

text \<open>\<open>{b:02x}\<close> of every byte.\<close>

definition hex_encode :: "bytes \<Rightarrow> string" where
  "hex_encode bs = concat (map show_hex_u8 bs)"

lemma visible_hex_char: "k < 16 \<Longrightarrow> visible_ascii [hex_char k]"
  by (simp add: visible_ascii_def of_char_hex_char)

lemma visible_hex_digits: "visible_ascii (hex_digits w n)"
  by (induction w arbitrary: n) (simp_all add: visible_hex_char)

lemma visible_hex_encode: "visible_ascii (hex_encode bs)"
  by (induction bs) (simp_all add: hex_encode_def show_hex_u8_def visible_hex_digits)

lemma length_hex_encode [simp]: "length (hex_encode bs) = 2 * length bs"
  by (induction bs) (simp_all add: hex_encode_def show_hex_u8_def)

lemma to_digit_hex_char: "k < 16 \<Longrightarrow> to_digit 16 (hex_char k) = Some k"
  by (simp add: to_digit_def Let_def of_char_hex_char)

lemma hex_char_not_sign: "k < 16 \<Longrightarrow> hex_char k \<noteq> CHR ''+'' \<and> hex_char k \<noteq> CHR ''-''"
  using of_char_hex_char [of k] by (auto split: if_splits)

lemma show_hex_u8_eq: "show_hex_u8 b = [hex_char (unat b div 16), hex_char (unat b mod 16)]"
  using unat_u8_lt [of b] by (simp add: show_hex_u8_def numeral_2_eq_2 del: unat_u8_lt)

lemma parse_uint_hex_u8: "parse_uint 16 255 (show_hex_u8 b) = Inr (unat b)"
proof -
  have k: "unat b div 16 < 16" "unat b mod 16 < 16"
    using unat_u8_lt [of b] by (auto simp del: unat_u8_lt)
  have le: "unat b \<le> 255" using unat_u8_lt [of b] by linarith
  have "unat b div 16 * 16 + unat b mod 16 = unat b" by simp
  then show ?thesis
    using k le hex_char_not_sign [OF k(1)]
    by (simp add: show_hex_u8_eq parse_uint_def to_digit_hex_char)
qed

end
