(* ===== verification/Cbc_Hmac.thy ===== *)
theory Cbc_Hmac
  imports Prelude
begin

text \<open>
  \<open>network/src/crypto/cbc_hmac.rs\<close>: the offline check of a session record,
  HMAC-SHA256 over \<open>u32_be(record_len) || iv || ciphertext\<close>, then AES-128-CBC, then PKCS#7
  and the length of the candidate nonce and key regions. HMAC and CBC are parameters
  (crates \<open>hmac\<close>, \<open>sha2\<close>, \<open>aes\<close>, \<open>cbc\<close>); \<open>cbc_ok\<close> is their documented behaviour.
\<close>

section \<open>The primitives\<close>

record cbc_prims =
  cp_hmac :: "bytes \<Rightarrow> bytes \<Rightarrow> bytes option"
  cp_cbc_encrypt_pkcs7 :: "bytes \<Rightarrow> bytes \<Rightarrow> bytes \<Rightarrow> bytes option"
  cp_cbc_decrypt :: "bytes \<Rightarrow> bytes \<Rightarrow> bytes \<Rightarrow> bytes option"

definition pad_len :: "bytes \<Rightarrow> nat" where
  "pad_len p = 16 - length p mod 16"

text \<open>PKCS#7 on a 16-byte block: \<open>n\<close> bytes of value \<open>n\<close>, \<open>1 \<le> n \<le> 16\<close>.\<close>

definition pkcs7_pad :: "bytes \<Rightarrow> bytes" where
  "pkcs7_pad p = p @ replicate (pad_len p) (of_nat (pad_len p))"

definition cbc_ok :: "cbc_prims \<Rightarrow> bool" where
  "cbc_ok P \<longleftrightarrow>
     (\<forall>key msg. key \<noteq> [] \<longrightarrow> (\<exists>tag. cp_hmac P key msg = Some tag \<and> length tag = 32))
   \<and> (\<forall>key iv pt. length key = 16 \<longrightarrow> length iv = 16 \<longrightarrow>
        (\<exists>ct. cp_cbc_encrypt_pkcs7 P key iv pt = Some ct \<and> length ct = length (pkcs7_pad pt)
           \<and> cp_cbc_decrypt P key iv ct = Some (pkcs7_pad pt)))"

text \<open>
  Concrete primitives for evaluating the definitions (not secure): a constant-length mix of
  key and message for the HMAC, and the padded plaintext combined with the key for CBC.
\<close>

definition demo_cbc :: cbc_prims where
  "demo_cbc =
     \<lparr>cp_hmac = (\<lambda>key msg. if key = [] then None
        else Some (replicate 32 (foldl (\<lambda>a b. a * 3 + b) (hd key) msg))),
      cp_cbc_encrypt_pkcs7 = (\<lambda>key iv pt. Some (map (\<lambda>b. b XOR hd key) (pkcs7_pad pt))),
      cp_cbc_decrypt = (\<lambda>key iv ct. Some (map (\<lambda>b. b XOR hd key) ct))\<rparr>"

lemma demo_cbc_ok: "cbc_ok demo_cbc"
  by (auto simp: cbc_ok_def demo_cbc_def xor.assoc map_idI)

section \<open>Data\<close>

definition AES128_KEY_LEN :: nat where "AES128_KEY_LEN = 16"
definition IV_LEN :: nat where "IV_LEN = 16"
definition HMAC_SHA256_LEN :: nat where "HMAC_SHA256_LEN = 32"
definition SESSION_NONCE_LEN :: nat where "SESSION_NONCE_LEN = 12"
definition SESSION_KEY_LEN :: nat where "SESSION_KEY_LEN = 16"
definition MIN_SESSION_PLAINTEXT :: nat where
  "MIN_SESSION_PLAINTEXT = SESSION_NONCE_LEN + SESSION_KEY_LEN"

lemmas cbc_consts = AES128_KEY_LEN_def IV_LEN_def HMAC_SHA256_LEN_def SESSION_NONCE_LEN_def
  SESSION_KEY_LEN_def MIN_SESSION_PLAINTEXT_def

datatype cbc_hmac_error =
    BadAesKeyLength nat
  | BadIvLength nat
  | BadHmacLength nat
  | EmptyHmacKey
  | BadCiphertextLength nat
  | CbcDecryptFailed
  | InvalidPadding

datatype hmac_message_kind = LengthIvCiphertext

record verify_report =
  vr_kind :: string
  vr_hmac_valid :: bool
  vr_decrypt_ok :: bool
  vr_plaintext_len :: "nat option"
  vr_pkcs7_valid :: "bool option"
  vr_pkcs7_unpadded_len :: "nat option"
  vr_nonce_region_len_ok :: bool
  vr_session_key_region_len_ok :: bool
  vr_candidate_nonce_offset :: "nat option"
  vr_candidate_session_key_offset :: "nat option"
  vr_structure_length_compatible :: bool

datatype verify_class = VVerified | VPartial | VFailed

section \<open>Operations\<close>

definition build_hmac_message ::
  "hmac_message_kind \<Rightarrow> u32 \<Rightarrow> bytes \<Rightarrow> bytes \<Rightarrow> cbc_hmac_error + bytes" where
  "build_hmac_message kind record_len_be iv ciphertext =
     (if length iv \<noteq> IV_LEN then Inl (BadIvLength (length iv))
      else (case kind of
          LengthIvCiphertext \<Rightarrow> Inr (u32_to_be_bytes record_len_be @ iv @ ciphertext)))"

definition verify_hmac_sha256 ::
  "cbc_prims \<Rightarrow> bytes \<Rightarrow> bytes \<Rightarrow> bytes \<Rightarrow> cbc_hmac_error + bool" where
  "verify_hmac_sha256 P hmac_key message tag =
     (if hmac_key = [] then Inl EmptyHmacKey
      else if length tag \<noteq> HMAC_SHA256_LEN then Inl (BadHmacLength (length tag))
      else (case cp_hmac P hmac_key message of
          None \<Rightarrow> Inl EmptyHmacKey
        | Some computed \<Rightarrow> Inr (computed = tag)))"

definition compute_hmac_sha256 :: "cbc_prims \<Rightarrow> bytes \<Rightarrow> bytes \<Rightarrow> cbc_hmac_error + bytes" where
  "compute_hmac_sha256 P hmac_key message =
     (if hmac_key = [] then Inl EmptyHmacKey
      else (case cp_hmac P hmac_key message of
          None \<Rightarrow> Inl EmptyHmacKey
        | Some computed \<Rightarrow> Inr computed))"

definition encrypt_aes128_cbc_pkcs7 ::
  "cbc_prims \<Rightarrow> bytes \<Rightarrow> bytes \<Rightarrow> bytes \<Rightarrow> cbc_hmac_error + bytes" where
  "encrypt_aes128_cbc_pkcs7 P aes_key iv plaintext =
     (if length aes_key \<noteq> AES128_KEY_LEN then Inl (BadAesKeyLength (length aes_key))
      else if length iv \<noteq> IV_LEN then Inl (BadIvLength (length iv))
      else (case cp_cbc_encrypt_pkcs7 P aes_key iv plaintext of
          None \<Rightarrow> Inl CbcDecryptFailed
        | Some ct \<Rightarrow> Inr ct))"

definition decrypt_aes128_cbc_raw ::
  "cbc_prims \<Rightarrow> bytes \<Rightarrow> bytes \<Rightarrow> bytes \<Rightarrow> cbc_hmac_error + bytes" where
  "decrypt_aes128_cbc_raw P aes_key iv ciphertext =
     (if length aes_key \<noteq> AES128_KEY_LEN then Inl (BadAesKeyLength (length aes_key))
      else if length iv \<noteq> IV_LEN then Inl (BadIvLength (length iv))
      else if ciphertext = [] \<or> length ciphertext mod 16 \<noteq> 0
        then Inl (BadCiphertextLength (length ciphertext))
      else (case cp_cbc_decrypt P aes_key iv ciphertext of
          None \<Rightarrow> Inl CbcDecryptFailed
        | Some pt \<Rightarrow> Inr pt))"

definition validate_pkcs7 :: "bytes \<Rightarrow> cbc_hmac_error + nat" where
  "validate_pkcs7 plaintext =
     (if plaintext = [] then Inl InvalidPadding
      else let pad = unat (plaintext ! (length plaintext - 1)) in
        if pad = 0 \<or> pad > 16 \<or> pad > length plaintext then Inl InvalidPadding
        else let start = length plaintext - pad in
          if (\<exists>b \<in> set (drop start plaintext). unat b \<noteq> pad) then Inl InvalidPadding
          else Inr (length plaintext - pad))"

definition classification :: "verify_report \<Rightarrow> verify_class" where
  "classification r =
     (if \<not> vr_hmac_valid r then VFailed
      else if \<not> vr_decrypt_ok r \<or> vr_pkcs7_valid r \<noteq> Some True then VFailed
      else if vr_structure_length_compatible r then VVerified else VPartial)"

definition report_success :: "verify_report \<Rightarrow> bool" where
  "report_success r = (classification r = VVerified)"

fun show_verify_class :: "verify_class \<Rightarrow> string" where
  "show_verify_class VVerified = ''VERIFIED''"
| "show_verify_class VPartial = ''PARTIAL''"
| "show_verify_class VFailed = ''FAILED''"

definition show_opt_nat :: "nat option \<Rightarrow> string" where
  "show_opt_nat n = (case n of Some k \<Rightarrow> show_nat k | None \<Rightarrow> ''n/a'')"

definition show_verify_report :: "verify_report \<Rightarrow> string list" where
  "show_verify_report r =
     [''hmac_message_kind: '' @ vr_kind r,
      ''hmac_valid: '' @ show_bool (vr_hmac_valid r),
      ''aes_cbc_decrypt: '' @
        (if vr_decrypt_ok r then ''success'' else if vr_hmac_valid r then ''failed'' else ''n/a''),
      ''plaintext_length: '' @ show_opt_nat (vr_plaintext_len r)]
     @ (case vr_pkcs7_valid r of
          Some True \<Rightarrow> ''padding_valid: true'' #
            (case vr_pkcs7_unpadded_len r of
               Some n \<Rightarrow> [''pkcs7_unpadded_length: '' @ show_nat n] | None \<Rightarrow> [])
        | Some False \<Rightarrow> [''padding_valid: false'']
        | None \<Rightarrow> [''padding_valid: n/a''])
     @ [''candidate_nonce_length: '' @ show_nat SESSION_NONCE_LEN,
        ''candidate_session_key_length: '' @ show_nat SESSION_KEY_LEN,
        ''candidate_nonce_offset: '' @ show_opt_nat (vr_candidate_nonce_offset r),
        ''candidate_session_key_offset: '' @ show_opt_nat (vr_candidate_session_key_offset r),
        ''structure_length_compatible: '' @ show_bool (vr_structure_length_compatible r),
        ''note: offsets/lengths are structural candidates only; not semantic proof'',
        ''result: '' @ show_verify_class (classification r)]"

definition verify_session_record ::
  "cbc_prims \<Rightarrow> hmac_message_kind \<Rightarrow> u32 \<Rightarrow> bytes \<Rightarrow> bytes \<Rightarrow> bytes \<Rightarrow> bytes \<Rightarrow> bytes \<Rightarrow>
   cbc_hmac_error + verify_report" where
  "verify_session_record P kind record_len_be iv ciphertext hmac_tag aes_key hmac_key =
     (case build_hmac_message kind record_len_be iv ciphertext of
        Inl e \<Rightarrow> Inl e
      | Inr message \<Rightarrow>
     (case verify_hmac_sha256 P hmac_key message hmac_tag of
        Inl e \<Rightarrow> Inl e
      | Inr hmac_valid \<Rightarrow>
          let report = \<lparr>vr_kind = ''LengthIvCiphertext (d1-re hypothesis)'',
                vr_hmac_valid = hmac_valid, vr_decrypt_ok = False, vr_plaintext_len = None,
                vr_pkcs7_valid = None, vr_pkcs7_unpadded_len = None,
                vr_nonce_region_len_ok = False, vr_session_key_region_len_ok = False,
                vr_candidate_nonce_offset = None, vr_candidate_session_key_offset = None,
                vr_structure_length_compatible = False\<rparr>
          in if \<not> hmac_valid then Inr report
             else (case decrypt_aes128_cbc_raw P aes_key iv ciphertext of
                 Inl _ \<Rightarrow> Inr (report\<lparr>vr_decrypt_ok := False\<rparr>)
               | Inr plaintext \<Rightarrow>
                   let report = report\<lparr>vr_decrypt_ok := True, vr_plaintext_len := Some (length plaintext)\<rparr>
                   in (case validate_pkcs7 plaintext of
                       Inl _ \<Rightarrow> Inr (report\<lparr>vr_pkcs7_valid := Some False\<rparr>)
                     | Inr n \<Rightarrow>
                         let report = report\<lparr>vr_pkcs7_valid := Some True, vr_pkcs7_unpadded_len := Some n,
                               vr_nonce_region_len_ok := n \<ge> SESSION_NONCE_LEN,
                               vr_session_key_region_len_ok := n \<ge> MIN_SESSION_PLAINTEXT,
                               vr_structure_length_compatible := n \<ge> MIN_SESSION_PLAINTEXT\<rparr>
                         in Inr (if vr_structure_length_compatible report
                              then report\<lparr>vr_candidate_nonce_offset := Some 0,
                                     vr_candidate_session_key_offset := Some SESSION_NONCE_LEN\<rparr>
                              else report)))))"

section \<open>Padding\<close>

lemma pad_len_bounds: "1 \<le> pad_len p" "pad_len p \<le> 16" "(length p + pad_len p) mod 16 = 0"
proof -
  have m: "length p mod 16 < 16" by simp
  then show "1 \<le> pad_len p" "pad_len p \<le> 16"
    by (simp_all add: pad_len_def del: mod_less_divisor)
  have "length p = length p div 16 * 16 + length p mod 16" by simp
  then have "length p + pad_len p = length p div 16 * 16 + 16"
    using m unfolding pad_len_def by linarith
  then show "(length p + pad_len p) mod 16 = 0" by simp
qed

lemma length_pkcs7_pad: "length (pkcs7_pad p) = length p + pad_len p"
  by (simp add: pkcs7_pad_def)

lemma unat_of_small [simp]: "n \<le> 16 \<Longrightarrow> unat (of_nat n :: u8) = n"
  by (simp add: unat_of_nat)

lemma validate_pkcs7_last:
  assumes "pt \<noteq> []" and "pad = unat (last pt)"
  shows "validate_pkcs7 pt =
    (if pad = 0 \<or> pad > 16 \<or> pad > length pt then Inl InvalidPadding
     else if \<exists>b \<in> set (drop (length pt - pad) pt). unat b \<noteq> pad then Inl InvalidPadding
     else Inr (length pt - pad))"
  unfolding validate_pkcs7_def Let_def assms(2) last_conv_nth [OF assms(1)] using assms(1)
  by (simp only: if_False)

lemma last_byte_pad:
  assumes "pt = q @ replicate pad (of_nat pad)" "1 \<le> pad" "pad \<le> 16"
  shows "unat (last pt :: u8) = pad"
  using assms by simp

lemma all_equal_replicate:
  assumes "\<forall>b \<in> set bs. unat b = k" and "length bs = k"
  shows "(bs :: bytes) = replicate k (of_nat k)"
proof -
  have "b = of_nat k" if "b \<in> set bs" for b
    using assms(1) that by (metis of_nat_unat ucast_id)
  then show ?thesis using assms(2) by (intro replicate_eqI) auto
qed

lemma validate_pkcs7_iff:
  "validate_pkcs7 pt = Inr n \<longleftrightarrow>
     (\<exists>pad. 1 \<le> pad \<and> pad \<le> 16 \<and> length pt = n + pad \<and> pt = take n pt @ replicate pad (of_nat pad))"
  (is "?l \<longleftrightarrow> ?r")
proof
  assume l: ?l
  then have ne: "pt \<noteq> []" by (auto simp: validate_pkcs7_def)
  define pad where "pad = unat (last pt)"
  from l have p: "pad \<noteq> 0" "pad \<le> 16" "pad \<le> length pt" and n: "n = length pt - pad"
      and all: "\<forall>b \<in> set (drop n pt). unat b = pad"
    unfolding validate_pkcs7_last [OF ne pad_def] by (auto split: if_splits)
  have "drop n pt = replicate pad (of_nat pad)"
    using all p n by (intro all_equal_replicate) simp_all
  then have "pt = take n pt @ replicate pad (of_nat pad)"
    by (metis append_take_drop_id)
  moreover have "1 \<le> pad" "length pt = n + pad"
    using p n by linarith+
  ultimately show ?r using p(2) by blast
next
  assume ?r
  then obtain pad where pad: "1 \<le> pad" "pad \<le> 16" "length pt = n + pad"
      and pt: "pt = take n pt @ replicate pad (of_nat pad)"
    by blast
  have ne: "pt \<noteq> []" and lu: "pad = unat (last pt)"
    using pad last_byte_pad [OF pt pad(1,2)] by auto
  have d: "drop n pt = replicate pad (of_nat pad)"
    by (subst pt) (simp add: pad)
  have u: "unat (of_nat pad :: u8) = pad"
    using pad(2) by simp
  have n: "length pt - pad = n" using pad by linarith
  show ?l
    unfolding validate_pkcs7_last [OF ne lu] n d set_replicate_conv_if using pad u by simp
qed

lemma validate_pkcs7_pad: "validate_pkcs7 (pkcs7_pad p) = Inr (length p)"
  unfolding validate_pkcs7_iff
  by (rule exI [of _ "pad_len p"]) (use pad_len_bounds [of p] in \<open>auto simp: pkcs7_pad_def\<close>)

lemma validate_pkcs7_unique:
  "validate_pkcs7 pt = Inr n \<Longrightarrow> n < length pt \<and> length pt \<le> n + 16"
  unfolding validate_pkcs7_iff by auto

section \<open>Properties\<close>

text \<open>
  PKCS#7: \<open>validate_pkcs7\<close> accepts a decrypted record with length \<open>n\<close> exactly when the
  bytes after the first \<open>n\<close> are between 1 and 16 copies of their own count, and the padded
  form of any plaintext is accepted with the plaintext's length.
\<close>

lemma pkcs7_exact:
  "(validate_pkcs7 pt = Inr n \<longleftrightarrow>
     (\<exists>pad. 1 \<le> pad \<and> pad \<le> 16 \<and> length pt = n + pad \<and> pt = take n pt @ replicate pad (of_nat pad)))
   \<and> validate_pkcs7 (pkcs7_pad p) = Inr (length p)"
  by (simp add: validate_pkcs7_iff validate_pkcs7_pad)

text \<open>
  C32. The verdict of \<open>verify_session_record\<close> on a record built by the crate's own
  \<open>encrypt_aes128_cbc_pkcs7\<close> and \<open>compute_hmac_sha256\<close>: with the right tag it is
  \<open>VERIFIED\<close> when the plaintext holds at least 28 bytes and \<open>PARTIAL\<close> below, and reports the
  plaintext's length; with any other 32-byte tag it is \<open>FAILED\<close> and nothing is decrypted.
\<close>

theorem session_record_verdict:
  assumes "cbc_ok P" "length aes_key = 16" "length iv = 16" "hmac_key \<noteq> []"
    and "encrypt_aes128_cbc_pkcs7 P aes_key iv plaintext = Inr ct"
    and "build_hmac_message LengthIvCiphertext rlen iv ct = Inr msg"
    and "compute_hmac_sha256 P hmac_key msg = Inr good" "length tag = 32"
  shows "\<exists>r. verify_session_record P LengthIvCiphertext rlen iv ct tag aes_key hmac_key = Inr r
     \<and> classification r =
         (if tag \<noteq> good then VFailed else if 28 \<le> length plaintext then VVerified else VPartial)
     \<and> vr_pkcs7_unpadded_len r = (if tag = good then Some (length plaintext) else None)
     \<and> (vr_decrypt_ok r \<longleftrightarrow> tag = good)"
proof -
  from assms(1-3) obtain ct' where c: "cp_cbc_encrypt_pkcs7 P aes_key iv plaintext = Some ct'"
      "length ct' = length (pkcs7_pad plaintext)"
      "cp_cbc_decrypt P aes_key iv ct' = Some (pkcs7_pad plaintext)"
    unfolding cbc_ok_def by blast
  have ct: "ct' = ct"
    using assms(2,3,5) c by (simp add: encrypt_aes128_cbc_pkcs7_def cbc_consts)
  have len: "ct \<noteq> []" "length ct mod 16 = 0"
    using c(2) pad_len_bounds [of plaintext] unfolding ct by (auto simp: length_pkcs7_pad)
  then have dec: "decrypt_aes128_cbc_raw P aes_key iv ct = Inr (pkcs7_pad plaintext)"
    using assms(2,3) c(3) ct by (simp add: decrypt_aes128_cbc_raw_def cbc_consts)
  have mac: "verify_hmac_sha256 P hmac_key msg tag = Inr (good = tag)"
    using assms(4,7,8)
    by (auto simp: verify_hmac_sha256_def compute_hmac_sha256_def cbc_consts split: option.splits)
  show ?thesis
    using assms(6) dec mac
    by (simp add: verify_session_record_def validate_pkcs7_pad Let_def classification_def cbc_consts)
qed

theorem session_record_verdict_witness:
  "\<exists>ct msg good r. encrypt_aes128_cbc_pkcs7 demo_cbc (replicate 16 1) (replicate 16 2) (replicate 30 3) = Inr ct
     \<and> build_hmac_message LengthIvCiphertext 5 (replicate 16 2) ct = Inr msg
     \<and> compute_hmac_sha256 demo_cbc [8] msg = Inr good
     \<and> verify_session_record demo_cbc LengthIvCiphertext 5 (replicate 16 2) ct good (replicate 16 1) [8] = Inr r
     \<and> classification r = VVerified"
proof -
  obtain ct where ct: "encrypt_aes128_cbc_pkcs7 demo_cbc (replicate 16 1) (replicate 16 2) (replicate 30 3) = Inr ct"
    by (simp add: encrypt_aes128_cbc_pkcs7_def demo_cbc_def cbc_consts)
  obtain msg where msg: "build_hmac_message LengthIvCiphertext 5 (replicate 16 2) ct = Inr msg"
    by (simp add: build_hmac_message_def cbc_consts)
  obtain good where good: "compute_hmac_sha256 demo_cbc [8] msg = Inr good" "length good = 32"
    by (simp add: compute_hmac_sha256_def demo_cbc_def)
  from session_record_verdict [OF demo_cbc_ok _ _ _ ct msg good] ct msg good
  show ?thesis by fastforce
qed

end
