(* ===== verification/Messages.thy ===== *)
theory Messages
  imports Prelude
begin

text \<open>
  \<open>network/src/messages.rs\<close>, the table of message names, and the wire direction of
  \<open>network/src/jsonl.rs\<close> that every logical message carries.
\<close>

section \<open>Directions\<close>

datatype direction = DirClientToServer | DirServerToClient

fun direction_str :: "direction \<Rightarrow> string" where
  "direction_str DirClientToServer = ''client_to_server''"
| "direction_str DirServerToClient = ''server_to_client''"

fun direction_debug :: "direction \<Rightarrow> string" where
  "direction_debug DirClientToServer = ''ClientToServer''"
| "direction_debug DirServerToClient = ''ServerToClient''"

text \<open>The derived \<open>Ord\<close>: the order of the declaration.\<close>

instantiation direction :: linorder
begin

definition less_eq_direction :: "direction \<Rightarrow> direction \<Rightarrow> bool" where
  "less_eq_direction a b = (a = DirClientToServer \<or> b = DirServerToClient)"

definition less_direction :: "direction \<Rightarrow> direction \<Rightarrow> bool" where
  "less_direction a b = (a = DirClientToServer \<and> b = DirServerToClient)"

instance
proof
  fix x y z :: direction
  show "x < y \<longleftrightarrow> x \<le> y \<and> \<not> y \<le> x"
    by (cases x; cases y) (simp_all add: less_eq_direction_def less_direction_def)
  show "x \<le> x"
    by (cases x) (simp_all add: less_eq_direction_def)
  show "x \<le> y \<Longrightarrow> y \<le> z \<Longrightarrow> x \<le> z"
    by (cases x; cases y) (simp_all add: less_eq_direction_def)
  show "x \<le> y \<Longrightarrow> y \<le> x \<Longrightarrow> x = y"
    by (cases x; cases y) (simp_all add: less_eq_direction_def)
  show "x \<le> y \<or> y \<le> x"
    by (cases x; cases y) (simp_all add: less_eq_direction_def)
qed

end

section \<open>Names\<close>

record message_info =
  mi_id :: u16
  mi_name :: string

datatype message_class = MKnown message_info | MUnknown u16

fun class_id :: "message_class \<Rightarrow> u16" where
  "class_id (MKnown info) = mi_id info"
| "class_id (MUnknown i) = i"

fun class_name :: "message_class \<Rightarrow> string option" where
  "class_name (MKnown info) = Some (mi_name info)"
| "class_name (MUnknown i) = None"

fun class_is_known :: "message_class \<Rightarrow> bool" where
  "class_is_known (MKnown info) = True"
| "class_is_known (MUnknown i) = False"

definition KNOWN :: "(u16 \<times> string) list" where
  "KNOWN =
     [(0x0A, ''generated-completion-request''),
      (0x0B, ''generated-completion-response''),
      (0x0C, ''status-like-request''),
      (0x0D, ''status-like-response''),
      (0x19, ''session-login-request''),
      (0x1A, ''session-login-response''),
      (0x1E, ''destiny-service-handshake-request''),
      (0x1F, ''destiny-service-handshake-response''),
      (0x79, ''encrypted-handshake-request''),
      (0x7A, ''encrypted-handshake-status''),
      (0xFA, ''keepalive-request''),
      (0xFB, ''keepalive-status''),
      (0x12D, ''activity-state''),
      (0x12E, ''nat-report''),
      (0x12F, ''nat-report-status'')]"

definition lookup_name :: "u16 \<Rightarrow> string option" where
  "lookup_name i = map_option snd (List.find (\<lambda>(k, _). k = i) KNOWN)"

definition classify :: "u16 \<Rightarrow> message_class" where
  "classify i =
     (case lookup_name i of
        Some name \<Rightarrow> MKnown \<lparr>mi_id = i, mi_name = name\<rparr>
      | None \<Rightarrow> MUnknown i)"

lemma class_id_classify [simp]: "class_id (classify i) = i"
  by (simp add: classify_def split: option.split)

lemma class_name_classify [simp]: "class_name (classify i) = lookup_name i"
  by (simp add: classify_def split: option.split)

lemma class_is_known_classify [simp]: "class_is_known (classify i) \<longleftrightarrow> lookup_name i \<noteq> None"
  by (simp add: classify_def split: option.split)

end
