(* ===== verification/Interfaces.thy ===== *)
theory Interfaces
  imports Prelude
begin

text \<open>
  The contracts between the layers, as locales. A component that relies on another proves
  its lemmas here once, from the laws the provider promises; the provider's theory
  interprets the locale on the model of its code.
\<close>

section \<open>A decoder fed in chunks\<close>

text \<open>
  The loop shared by every consumer of a byte stream: push each chunk, collect what comes
  out, stop at the first error.
\<close>

fun feed_all ::
  "('d \<Rightarrow> 'c list \<Rightarrow> ('e + 'f list) \<times> 'd) \<Rightarrow> 'd \<Rightarrow> 'c list list \<Rightarrow> ('e + 'f list) \<times> 'd" where
  "feed_all push d [] = (Inr [], d)"
| "feed_all push d (c # cs) =
     (case push d c of
        (Inl e, d') \<Rightarrow> (Inl e, d')
      | (Inr fs, d') \<Rightarrow>
          (case feed_all push d' cs of
             (Inl e, d'') \<Rightarrow> (Inl e, d'')
           | (Inr gs, d'') \<Rightarrow> (Inr (fs @ gs), d'')))"

text \<open>
  The contract of an incremental decoder: pushing a chunk and then another is pushing their
  concatenation, and an error found in the first chunk is the error of the concatenation.
\<close>

locale chunk_decoder =
  fixes push :: "'d \<Rightarrow> 'c list \<Rightarrow> ('e + 'f list) \<times> 'd"
    and idle :: "'d \<Rightarrow> bool"
  assumes push_Nil: "idle d \<Longrightarrow> push d [] = (Inr [], d)"
    and push_idle: "push d a = (Inr fs, d') \<Longrightarrow> idle d'"
    and push_ok: "push d a = (Inr fs, d') \<Longrightarrow> push d' b = (Inr gs, d'') \<Longrightarrow>
        push d (a @ b) = (Inr (fs @ gs), d'')"
    and push_err_later: "push d a = (Inr fs, d') \<Longrightarrow> push d' b = (Inl e, d'') \<Longrightarrow>
        fst (push d (a @ b)) = Inl e"
    and push_err_now: "push d a = (Inl e, d') \<Longrightarrow> fst (push d (a @ b)) = Inl e"
begin

lemma feed_all_concat_ok:
  assumes "idle d" and "feed_all push d cs = (Inr fs, d')"
  shows "push d (concat cs) = (Inr fs, d')"
  using assms
proof (induction cs arbitrary: d fs)
  case Nil
  then show ?case by (simp add: push_Nil)
next
  case (Cons c cs)
  from Cons.prems(2) obtain gs d1 hs where
    g: "push d c = (Inr gs, d1)" and h: "feed_all push d1 cs = (Inr hs, d')" and fs: "fs = gs @ hs"
    by (auto split: prod.splits sum.splits)
  have "push d1 (concat cs) = (Inr hs, d')"
    using Cons.IH push_idle [OF g] h by blast
  then show ?case
    using push_ok [OF g] fs by simp
qed

lemma feed_all_concat_err:
  assumes "idle d" and "feed_all push d cs = (Inl e, d')"
  shows "fst (push d (concat cs)) = Inl e"
  using assms
proof (induction cs arbitrary: d)
  case Nil
  then show ?case by simp
next
  case (Cons c cs)
  show ?case
  proof (cases "push d c")
    case (Pair r d1)
    show ?thesis
    proof (cases r)
      case (Inl x)
      then show ?thesis using Cons.prems Pair push_err_now [of d c x d1] by simp
    next
      case (Inr gs)
      then have "feed_all push d1 cs = (Inl e, d')"
        using Cons.prems Pair by (auto split: prod.splits sum.splits)
      then have "fst (push d1 (concat cs)) = Inl e"
        using Cons.IH push_idle Pair Inr by blast
      then show ?thesis
        using push_err_later [of d c gs d1 "concat cs" e] Pair Inr
        by (cases "push d1 (concat cs)") simp
    qed
  qed
qed

text \<open>How the bytes were cut into chunks does not show in the result.\<close>

lemma feed_all_chunking:
  assumes "idle d" and "concat cs = concat cs'"
  shows "fst (feed_all push d cs) = fst (feed_all push d cs')"
proof -
  have "fst (feed_all push d xs) = fst (push d (concat xs))" for xs
    using feed_all_concat_ok [OF assms(1), of xs] feed_all_concat_err [OF assms(1), of xs]
    by (cases "feed_all push d xs"; cases "fst (feed_all push d xs)") auto
  then show ?thesis using assms(2) by simp
qed

lemma feed_all_state:
  assumes "idle d" and "feed_all push d cs = (Inr fs, d1)" and "concat cs = concat cs'"
  shows "feed_all push d cs' = (Inr fs, d1)"
proof -
  have "push d (concat cs') = (Inr fs, d1)"
    using feed_all_concat_ok [OF assms(1,2)] assms(3) by simp
  moreover have "fst (feed_all push d cs') = Inr fs"
    using feed_all_chunking [OF assms(1,3)] assms(2) by simp
  ultimately show ?thesis
    using feed_all_concat_ok [OF assms(1), of cs'] by (cases "feed_all push d cs'") auto
qed

end

section \<open>A source of chunks\<close>

text \<open>
  The trait \<open>ByteSource\<close>: a read returns data, the clean end, or a failure. The script of a
  source is what its reads will return; a read consumes the first entry of the script.
\<close>

locale byte_source =
  fixes read :: "'s \<Rightarrow> ('e + 'c option) \<times> 's"
    and source_ok :: "'s \<Rightarrow> bool"
    and script :: "'s \<Rightarrow> ('e + 'c) list"
  assumes read_end: "source_ok s \<Longrightarrow> script s = [] \<Longrightarrow>
        fst (read s) = Inr None \<and> script (snd (read s)) = []"
    and read_data: "source_ok s \<Longrightarrow> script s = Inr c # xs \<Longrightarrow>
        fst (read s) = Inr (Some c) \<and> script (snd (read s)) = xs"
    and read_fail: "source_ok s \<Longrightarrow> script s = Inl e # xs \<Longrightarrow>
        fst (read s) = Inl e \<and> script (snd (read s)) = xs"
    and read_keeps: "source_ok s \<Longrightarrow> source_ok (snd (read s))"

text \<open>The data before the first failure of a script, and that failure.\<close>

fun script_data :: "('e + 'c) list \<Rightarrow> 'c list" where
  "script_data [] = []"
| "script_data (Inl e # xs) = []"
| "script_data (Inr c # xs) = c # script_data xs"

fun script_error :: "('e + 'c) list \<Rightarrow> 'e option" where
  "script_error [] = None"
| "script_error (Inl e # xs) = Some e"
| "script_error (Inr c # xs) = script_error xs"

lemma script_of_data [simp]:
  "script_data (map Inr cs) = cs" "script_error (map Inr cs) = None"
  by (induction cs) simp_all

section \<open>An exact codec\<close>

text \<open>
  Encoding and decoding are inverse in both directions: every valid value has exactly one
  encoding and nothing else decodes.
\<close>

locale exact_codec =
  fixes enc :: "'m \<Rightarrow> 'e + 'w"
    and dec :: "'w \<Rightarrow> 'f + 'm"
    and valid :: "'m \<Rightarrow> bool"
  assumes dec_enc: "valid m \<Longrightarrow> \<exists>w. enc m = Inr w \<and> dec w = Inr m"
    and enc_dec: "dec w = Inr m \<Longrightarrow> valid m \<and> enc m = Inr w"
begin

lemma decoded_iff: "dec w = Inr m \<longleftrightarrow> valid m \<and> enc m = Inr w"
  using dec_enc enc_dec by (metis sum.inject(2))

lemma encoding_unique: "dec v = Inr m \<Longrightarrow> dec w = Inr m \<Longrightarrow> v = w"
  using enc_dec by (metis sum.inject(2))

lemma encoding_injective: "valid m \<Longrightarrow> valid n \<Longrightarrow> enc m = enc n \<Longrightarrow> m = n"
  using dec_enc by (metis sum.inject(2))

lemma accepts_iff: "is_ok (dec w) \<longleftrightarrow> (\<exists>m. valid m \<and> enc m = Inr w)"
  using decoded_iff by (auto simp: is_ok_iff)

end

section \<open>A channel between two peers\<close>

text \<open>Sending, and decoding, one message after the other.\<close>

fun send_all :: "('a \<Rightarrow> 'm \<Rightarrow> ('w \<times> 'a) option) \<Rightarrow> 'a \<Rightarrow> 'm list \<Rightarrow> ('w list \<times> 'a) option" where
  "send_all send a [] = Some ([], a)"
| "send_all send a (m # ms) =
     (case send a m of
        None \<Rightarrow> None
      | Some (w, a') \<Rightarrow>
          (case send_all send a' ms of
             None \<Rightarrow> None
           | Some (ws, a'') \<Rightarrow> Some (w # ws, a'')))"

fun recv_all :: "('b \<Rightarrow> 'w \<Rightarrow> ('e + 'r) \<times> 'b) \<Rightarrow> 'b \<Rightarrow> 'w list \<Rightarrow> ('e + 'r list) \<times> 'b" where
  "recv_all recv b [] = (Inr [], b)"
| "recv_all recv b (w # ws) =
     (case recv b w of
        (Inl e, b') \<Rightarrow> (Inl e, b')
      | (Inr r, b') \<Rightarrow>
          (case recv_all recv b' ws of
             (Inl e, b'') \<Rightarrow> (Inl e, b'')
           | (Inr rs, b'') \<Rightarrow> (Inr (r # rs), b'')))"

lemma recv_all_append:
  "recv_all recv b xs = (Inr rs, b') \<Longrightarrow> recv_all recv b' ys = (Inr ss, b'') \<Longrightarrow>
   recv_all recv b (xs @ ys) = (Inr (rs @ ss), b'')"
  by (induction xs arbitrary: b rs) (auto split: prod.splits sum.splits)

text \<open>
  One peer encodes a message and advances its state, the other decodes the wire bytes and
  advances its own. The contract is one step: from synchronised states a sendable message
  arrives as its view and the states are synchronised again.
\<close>

locale secure_channel =
  fixes send :: "'a \<Rightarrow> 'm \<Rightarrow> ('w \<times> 'a) option"
    and recv :: "'b \<Rightarrow> 'w \<Rightarrow> ('e + 'r) \<times> 'b"
    and sendable :: "'m \<Rightarrow> bool"
    and view :: "'m \<Rightarrow> 'r"
    and synced :: "'a \<Rightarrow> 'b \<Rightarrow> bool"
  assumes deliver: "synced a b \<Longrightarrow> sendable m \<Longrightarrow>
     \<exists>w a' b'. send a m = Some (w, a') \<and> recv b w = (Inr (view m), b') \<and> synced a' b'"
begin

text \<open>A whole sequence is delivered in order, however far the sender runs ahead.\<close>

lemma deliver_all:
  assumes "synced a b" and "\<forall>m \<in> set ms. sendable m"
  shows "\<exists>ws a' b'. send_all send a ms = Some (ws, a')
     \<and> recv_all recv b ws = (Inr (map view ms), b') \<and> synced a' b' \<and> length ws = length ms"
  using assms
proof (induction ms arbitrary: a b)
  case Nil
  then show ?case by simp
next
  case (Cons m ms)
  from deliver [OF Cons.prems(1), of m] Cons.prems(2) obtain w a1 b1 where
    s: "send a m = Some (w, a1)" and r: "recv b w = (Inr (view m), b1)" and sy: "synced a1 b1"
    by auto
  from Cons.IH [OF sy] Cons.prems(2) obtain ws a2 b2 where "send_all send a1 ms = Some (ws, a2)"
    and "recv_all recv b1 ws = (Inr (map view ms), b2)" and "synced a2 b2" "length ws = length ms"
    by auto
  then show ?case using s r by simp
qed

end

section \<open>A machine that goes through stages\<close>

text \<open>
  A deterministic machine whose states carry a stage number: a step never goes back, and
  unless it ends the machine it goes up by at most one stage.
\<close>

locale staged_machine =
  fixes step :: "'s \<Rightarrow> 'a \<Rightarrow> 's"
    and stage :: "'s \<Rightarrow> nat"
    and ended :: "'s \<Rightarrow> bool"
  assumes step_mono: "stage s \<le> stage (step s a)"
    and step_next: "\<not> ended (step s a) \<Longrightarrow> stage (step s a) \<le> Suc (stage s)"
    and ended_stays: "ended s \<Longrightarrow> ended (step s a)"
begin

lemma run_mono: "stage s \<le> stage (foldl step s as)"
  by (induction "as" arbitrary: s) (auto intro: le_trans step_mono)

lemma run_ended: "ended s \<Longrightarrow> ended (foldl step s as)"
  by (induction "as" arbitrary: s) (auto intro: ended_stays)

text \<open>Whoever got to a stage passed every stage on the way, one step each.\<close>

lemma stage_passed:
  assumes "\<not> ended (foldl step s as)" and "stage s \<le> k" and "Suc k \<le> stage (foldl step s as)"
  shows "\<exists>xs a ys. as = xs @ a # ys \<and> stage (foldl step s xs) = k
     \<and> stage (step (foldl step s xs) a) = Suc k \<and> \<not> ended (foldl step s xs)
     \<and> \<not> ended (step (foldl step s xs) a)"
  using assms
proof (induction "as" rule: rev_induct)
  case Nil
  then show ?case by simp
next
  case (snoc a as)
  let ?t = "foldl step s as"
  have live: "\<not> ended ?t" "\<not> ended (step ?t a)"
    using snoc.prems(1) ended_stays by auto
  show ?case
  proof (cases "Suc k \<le> stage ?t")
    case True
    from snoc.IH [OF live(1) snoc.prems(2) this] show ?thesis
      by (metis append_Cons append_assoc)
  next
    case False
    have "stage (step ?t a) \<le> Suc (stage ?t)" using step_next live(2) by blast
    with False snoc.prems(3) have "stage ?t = k" "stage (step ?t a) = Suc k" by auto
    with live show ?thesis by blast
  qed
qed

end

end
