(* ===== verification/Framing.thy ===== *)
theory Framing
  imports Prelude
begin

text \<open>
  \<open>network/src/framing.rs\<close>: one complete BAP frame,
  \<open>[0x01][kind][body_len : u32 BE][body]\<close>. The frame kinds and bodies are datatypes with
  the source's constructors, \<open>parse\<close>, \<open>parse_all\<close> and \<open>serialize\<close> follow the code
  branch by branch, and every error is a value. The lemmas give both directions of the
  round trip and the exact condition of every error.
\<close>

section \<open>Data\<close>

definition BAP_MAGIC :: u8 where "BAP_MAGIC = 1"
definition KIND_CLEAR :: u8 where "KIND_CLEAR = 2"
definition KIND_ENCRYPTED :: u8 where "KIND_ENCRYPTED = 1"
definition HEADER_LEN :: nat where "HEADER_LEN = 6"
definition CLEAR_HEADER_LEN :: nat where "CLEAR_HEADER_LEN = 6"
definition ENCRYPTED_TAG_LEN :: nat where "ENCRYPTED_TAG_LEN = 16"

lemmas framing_consts = BAP_MAGIC_def KIND_CLEAR_def KIND_ENCRYPTED_def HEADER_LEN_def
  CLEAR_HEADER_LEN_def ENCRYPTED_TAG_LEN_def

datatype framing_error =
    TruncatedHeader
  | BadMagic u8
  | TruncatedBody
  | TruncatedClearBody
  | TruncatedEncryptedTag
  | LengthOverflow

datatype frame_kind = KEncrypted | KClear | KOther u8

definition kind_from_u8 :: "u8 \<Rightarrow> frame_kind" where
  "kind_from_u8 v =
     (if v = KIND_ENCRYPTED then KEncrypted
      else if v = KIND_CLEAR then KClear else KOther v)"

fun kind_as_u8 :: "frame_kind \<Rightarrow> u8" where
  "kind_as_u8 KEncrypted = KIND_ENCRYPTED"
| "kind_as_u8 KClear = KIND_CLEAR"
| "kind_as_u8 (KOther v) = v"

record clear_body =
  cb_msg_id :: u16
  cb_context :: u32
  cb_payload :: bytes

record encrypted_body =
  eb_tag :: bytes
  eb_ciphertext :: bytes

datatype frame_body =
    BClear clear_body
  | BEncrypted encrypted_body
  | BOpaque bytes

record bap_frame =
  bf_kind :: frame_kind
  bf_body :: frame_body

section \<open>Operations\<close>

definition parse_clear_body :: "bytes \<Rightarrow> framing_error + clear_body" where
  "parse_clear_body body =
     (if length body < CLEAR_HEADER_LEN then Inl TruncatedClearBody
      else Inr \<lparr>cb_msg_id = u16_from_be_bytes (slice_of 0 2 body),
                cb_context = u32_from_be_bytes (slice_of 2 6 body),
                cb_payload = drop CLEAR_HEADER_LEN body\<rparr>)"

definition parse_encrypted_body :: "bytes \<Rightarrow> framing_error + encrypted_body" where
  "parse_encrypted_body body =
     (if length body < ENCRYPTED_TAG_LEN then Inl TruncatedEncryptedTag
      else Inr \<lparr>eb_tag = take ENCRYPTED_TAG_LEN body,
                eb_ciphertext = drop ENCRYPTED_TAG_LEN body\<rparr>)"

definition parse_body :: "frame_kind \<Rightarrow> bytes \<Rightarrow> framing_error + frame_body" where
  "parse_body kind body =
     (case kind of
        KClear \<Rightarrow> (case parse_clear_body body of Inl e \<Rightarrow> Inl e | Inr c \<Rightarrow> Inr (BClear c))
      | KEncrypted \<Rightarrow>
          (case parse_encrypted_body body of Inl e \<Rightarrow> Inl e | Inr c \<Rightarrow> Inr (BEncrypted c))
      | KOther _ \<Rightarrow> Inr (BOpaque body))"

definition frame_parse :: "bytes \<Rightarrow> framing_error + bap_frame \<times> nat" where
  "frame_parse data =
     (if length data < HEADER_LEN then Inl TruncatedHeader
      else if data ! 0 \<noteq> BAP_MAGIC then Inl (BadMagic (data ! 0))
      else case checked_add_usize HEADER_LEN (unat (u32_from_be_bytes (slice_of 2 6 data))) of
          None \<Rightarrow> Inl LengthOverflow
        | Some tot \<Rightarrow>
            (if length data < tot then Inl TruncatedBody
             else case parse_body (kind_from_u8 (data ! 1)) (slice_of HEADER_LEN tot data) of
                 Inl e \<Rightarrow> Inl e
               | Inr body \<Rightarrow>
                   Inr (\<lparr>bf_kind = kind_from_u8 (data ! 1), bf_body = body\<rparr>, tot)))"

fun serialize_body :: "frame_body \<Rightarrow> framing_error + bytes" where
  "serialize_body (BClear c) =
     Inr (u16_to_be_bytes (cb_msg_id c) @ u32_to_be_bytes (cb_context c) @ cb_payload c)"
| "serialize_body (BEncrypted e) = Inr (eb_tag e @ eb_ciphertext e)"
| "serialize_body (BOpaque b) = Inr b"

definition frame_serialize :: "bap_frame \<Rightarrow> framing_error + bytes" where
  "frame_serialize f =
     (case serialize_body (bf_body f) of
        Inl e \<Rightarrow> Inl e
      | Inr body \<Rightarrow>
          (if length body < 2 ^ 32
           then Inr ([BAP_MAGIC, kind_as_u8 (bf_kind f)]
                     @ u32_to_be_bytes (of_nat (length body)) @ body)
           else Inl LengthOverflow))"

lemma frame_parse_consumed: "frame_parse data = Inr (f, n) \<Longrightarrow> 6 \<le> n \<and> n \<le> length data"
  by (auto simp: frame_parse_def checked_add_usize_def framing_consts
      split: if_splits option.splits sum.splits)

text \<open>\<open>parse_all\<close> loops while input is left; each round consumes a whole frame.\<close>

function parse_all :: "bytes \<Rightarrow> framing_error + bap_frame list" where
  "parse_all data =
     (if data = [] then Inr []
      else if data ! 0 \<noteq> BAP_MAGIC then Inr []
      else case frame_parse data of
          Inl e \<Rightarrow> Inl e
        | Inr (frame, consumed) \<Rightarrow>
            (case parse_all (drop consumed data) of
               Inl e \<Rightarrow> Inl e
             | Inr frames \<Rightarrow> Inr (frame # frames)))"
  by pat_completeness auto
termination
  by (relation "measure length") (auto dest!: frame_parse_consumed)

declare parse_all.simps [simp del]

definition frame_message_id :: "bap_frame \<Rightarrow> u16 option" where
  "frame_message_id f = (case bf_body f of BClear c \<Rightarrow> Some (cb_msg_id c) | _ \<Rightarrow> None)"

definition frame_context :: "bap_frame \<Rightarrow> u32 option" where
  "frame_context f = (case bf_body f of BClear c \<Rightarrow> Some (cb_context c) | _ \<Rightarrow> None)"

definition frame_payload_len :: "bap_frame \<Rightarrow> nat" where
  "frame_payload_len f =
     (case bf_body f of
        BClear c \<Rightarrow> length (cb_payload c)
      | BEncrypted e \<Rightarrow> ENCRYPTED_TAG_LEN + length (eb_ciphertext e)
      | BOpaque b \<Rightarrow> length b)"

definition clear_frame :: "u16 \<Rightarrow> u32 \<Rightarrow> bytes \<Rightarrow> bap_frame" where
  "clear_frame msg_id context payload =
     \<lparr>bf_kind = KClear,
      bf_body = BClear \<lparr>cb_msg_id = msg_id, cb_context = context, cb_payload = payload\<rparr>\<rparr>"

definition encrypted_frame :: "bytes \<Rightarrow> bytes \<Rightarrow> bap_frame" where
  "encrypted_frame tag ciphertext =
     \<lparr>bf_kind = KEncrypted,
      bf_body = BEncrypted \<lparr>eb_tag = tag, eb_ciphertext = ciphertext\<rparr>\<rparr>"

section \<open>Well-formed frames\<close>

text \<open>
  What the types of the code and its constructors guarantee: the kind matches the body,
  a tag has 16 bytes, and the body fits the \<open>u32\<close> length field.
\<close>

fun body_wf :: "frame_kind \<Rightarrow> frame_body \<Rightarrow> bool" where
  "body_wf KClear (BClear c) = (length (cb_payload c) + 6 < 2 ^ 32)"
| "body_wf KEncrypted (BEncrypted e) =
     (length (eb_tag e) = 16 \<and> length (eb_ciphertext e) + 16 < 2 ^ 32)"
| "body_wf (KOther k) (BOpaque b) =
     (k \<noteq> KIND_CLEAR \<and> k \<noteq> KIND_ENCRYPTED \<and> length b < 2 ^ 32)"
| "body_wf _ _ = False"

definition frame_wf :: "bap_frame \<Rightarrow> bool" where
  "frame_wf f = body_wf (bf_kind f) (bf_body f)"

lemma clear_frame_wf [simp]:
  "frame_wf (clear_frame m c p) \<longleftrightarrow> length p + 6 < 2 ^ 32"
  by (simp add: frame_wf_def clear_frame_def)

lemma encrypted_frame_wf [simp]:
  "frame_wf (encrypted_frame t c) \<longleftrightarrow> length t = 16 \<and> length c + 16 < 2 ^ 32"
  by (simp add: frame_wf_def encrypted_frame_def)

section \<open>Round trip of a body\<close>

lemma kind_from_as_u8 [simp]: "kind_as_u8 (kind_from_u8 v) = v"
  by (simp add: kind_from_u8_def)

lemma kind_as_from_u8:
  "(\<And>v. k = KOther v \<Longrightarrow> v \<noteq> KIND_CLEAR \<and> v \<noteq> KIND_ENCRYPTED) \<Longrightarrow> kind_from_u8 (kind_as_u8 k) = k"
  by (cases k) (auto simp: kind_from_u8_def framing_consts)

lemma kind_from_as_wf: "body_wf k b \<Longrightarrow> kind_from_u8 (kind_as_u8 k) = k"
  by (rule kind_as_from_u8) (cases b, auto)

lemma parse_clear_body_layout [wire_simps]:
  "parse_clear_body (u16_to_be_bytes m @ u32_to_be_bytes c @ p) =
     Inr \<lparr>cb_msg_id = m, cb_context = c, cb_payload = p\<rparr>"
  by (simp add: parse_clear_body_def slice_of_def CLEAR_HEADER_LEN_def)

lemma parse_encrypted_body_layout [wire_simps]:
  "length t = 16 \<Longrightarrow> parse_encrypted_body (t @ c) = Inr \<lparr>eb_tag = t, eb_ciphertext = c\<rparr>"
  by (simp add: parse_encrypted_body_def ENCRYPTED_TAG_LEN_def)

lemma parse_body_serialize:
  assumes "body_wf k b"
  obtains bs where "serialize_body b = Inr bs" "parse_body k bs = Inr b" "length bs < 2 ^ 32"
  using assms
  by (cases "(k, b)" rule: body_wf.cases)
     (auto simp: parse_body_def wire_simps)

lemma serialize_parse_clear_body:
  assumes "parse_clear_body bs = Inr c"
  shows "u16_to_be_bytes (cb_msg_id c) @ u32_to_be_bytes (cb_context c) @ cb_payload c = bs"
proof -
  from assms have len: "6 \<le> length bs" and c: "cb_msg_id c = u16_from_be_bytes (slice_of 0 2 bs)"
      "cb_context c = u32_from_be_bytes (slice_of 2 6 bs)" "cb_payload c = drop 6 bs"
    by (auto simp: parse_clear_body_def CLEAR_HEADER_LEN_def split: if_splits)
  then have "u16_to_be_bytes (cb_msg_id c) = take 2 bs" "u32_to_be_bytes (cb_context c) = slice_of 2 6 bs"
    by (simp_all add: u16_to_from_be u32_to_from_be slice_of_def)
  moreover have "take 2 bs @ slice_of 2 6 bs @ drop 6 bs = bs"
    using len slice_of_append_drop [of 2 6 bs] by simp
  ultimately show ?thesis using c by simp
qed

lemma length_serialize_body_clear:
  "parse_clear_body bs = Inr c \<Longrightarrow> length (cb_payload c) + 6 = length bs"
  using serialize_parse_clear_body [of bs c, THEN arg_cong [where f = length]] by simp

lemma serialize_parse_body:
  assumes "parse_body k bs = Inr b"
  shows "serialize_body b = Inr bs"
  using assms serialize_parse_clear_body
  by (auto simp: parse_body_def parse_encrypted_body_def split: frame_kind.splits sum.splits if_splits)

lemma parse_body_wf:
  assumes "parse_body (kind_from_u8 v) bs = Inr b" and "length bs < 2 ^ 32"
  shows "body_wf (kind_from_u8 v) b"
  using assms length_serialize_body_clear
  by (fastforce simp: parse_body_def parse_encrypted_body_def kind_from_u8_def framing_consts
      split: frame_kind.splits sum.splits if_splits)

section \<open>Round trip of a frame\<close>

lemma slice_header: "slice_of 2 6 ([a, b] @ u32_to_be_bytes n @ rest) = u32_to_be_bytes n"
  by (simp add: slice_of_def)

lemma checked_add_body_len [simp]:
  "checked_add_usize HEADER_LEN (unat (n :: u32)) = Some (6 + unat n)"
  using unat_u32_lt [of n]
  by (simp add: checked_add_usize_def usize_max_def HEADER_LEN_def del: unat_u32_lt)

lemma checked_add_body_len' [simp]:
  "checked_add_usize 6 (unat (n :: u32)) = Some (6 + unat n)"
  using checked_add_body_len [of n] by (simp add: HEADER_LEN_def)

lemma frame_parse_layout:
  assumes "length body < 2 ^ 32"
  shows "frame_parse ([BAP_MAGIC, k] @ u32_to_be_bytes (of_nat (length body)) @ body @ rest) =
    (case parse_body (kind_from_u8 k) body of
       Inl e \<Rightarrow> Inl e
     | Inr b \<Rightarrow> Inr (\<lparr>bf_kind = kind_from_u8 k, bf_body = b\<rparr>, 6 + length body))"
proof -
  let ?data = "[BAP_MAGIC, k] @ u32_to_be_bytes (of_nat (length body)) @ body @ rest"
  have n: "unat (of_nat (length body) :: u32) = length body"
    using assms by (simp add: unat_of_nat)
  have hdr: "checked_add_usize HEADER_LEN (unat (u32_from_be_bytes (slice_of 2 6 ?data)))
      = Some (6 + length body)"
    using checked_add_body_len [of "of_nat (length body)"]
    by (simp only: slice_header u32_from_to_be n)
  have body: "slice_of HEADER_LEN (6 + length body) ?data = body"
    by (simp add: slice_of_def HEADER_LEN_def)
  have len: "\<not> length ?data < HEADER_LEN" "\<not> length ?data < 6 + length body"
    by (simp_all add: HEADER_LEN_def)
  have byte: "?data ! 0 = BAP_MAGIC" "?data ! 1 = k"
    by simp_all
  show ?thesis
    by (simp only: frame_parse_def len if_False hdr option.case body byte simp_thms if_True)
qed

lemma frame_serialize_ok:
  assumes "frame_wf f"
  obtains body where "serialize_body (bf_body f) = Inr body"
    "parse_body (bf_kind f) body = Inr (bf_body f)" "length body < 2 ^ 32"
    "frame_serialize f = Inr ([BAP_MAGIC, kind_as_u8 (bf_kind f)]
       @ u32_to_be_bytes (of_nat (length body)) @ body)"
proof -
  from assms obtain body where b: "serialize_body (bf_body f) = Inr body"
      "parse_body (bf_kind f) body = Inr (bf_body f)" "length body < 2 ^ 32"
    by (auto simp: frame_wf_def elim: parse_body_serialize)
  then have "frame_serialize f = Inr ([BAP_MAGIC, kind_as_u8 (bf_kind f)]
       @ u32_to_be_bytes (of_nat (length body)) @ body)"
    by (simp add: frame_serialize_def)
  with b show thesis by (rule that)
qed

lemma frame_parse_serialize_append:
  assumes "frame_wf f" and "frame_serialize f = Inr bs"
  shows "frame_parse (bs @ rest) = Inr (f, length bs)"
proof -
  from assms(1) obtain body where b: "serialize_body (bf_body f) = Inr body"
      "parse_body (bf_kind f) body = Inr (bf_body f)" "length body < 2 ^ 32"
      "frame_serialize f = Inr ([BAP_MAGIC, kind_as_u8 (bf_kind f)]
         @ u32_to_be_bytes (of_nat (length body)) @ body)"
    by (rule frame_serialize_ok)
  have k: "kind_from_u8 (kind_as_u8 (bf_kind f)) = bf_kind f"
    using assms(1) by (auto simp: frame_wf_def intro: kind_from_as_wf)
  have "bs = [BAP_MAGIC, kind_as_u8 (bf_kind f)] @ u32_to_be_bytes (of_nat (length body)) @ body"
    using assms(2) b(4) by simp
  then show ?thesis
    using frame_parse_layout [OF b(3), of "kind_as_u8 (bf_kind f)" rest] k b(2)
    by simp
qed

lemma frame_parseD:
  assumes "frame_parse data = Inr (f, n)"
  shows "6 \<le> length data" "data ! 0 = BAP_MAGIC" "bf_kind f = kind_from_u8 (data ! 1)"
    "n = 6 + unat (u32_from_be_bytes (slice_of 2 6 data))" "n \<le> length data"
    "parse_body (bf_kind f) (slice_of 6 n data) = Inr (bf_body f)"
  using assms
  by (auto simp: frame_parse_def HEADER_LEN_def checked_add_usize_def
      split: if_splits option.splits sum.splits)

lemma frame_serialize_parse:
  assumes "frame_parse data = Inr (f, n)"
  shows "frame_serialize f = Inr (take n data)"
proof -
  note p = frame_parseD [OF assms]
  let ?body = "slice_of 6 n data"
  have len: "length ?body = unat (u32_from_be_bytes (slice_of 2 6 data))"
    using p by simp
  have "serialize_body (bf_body f) = Inr ?body"
    using p(6) by (rule serialize_parse_body)
  moreover have "u32_to_be_bytes (of_nat (length ?body)) = slice_of 2 6 data"
    using p(1) by (simp only: len of_nat_unat ucast_id) (simp add: u32_to_from_be)
  moreover have "[BAP_MAGIC, kind_as_u8 (bf_kind f)] = take 2 data"
    using p(1,2,3) by (cases data; cases "tl data") auto
  moreover have "take 2 data @ slice_of 2 6 data @ ?body = take n data"
    using p by (simp add: take_slice_of flip: append_assoc)
  moreover have "length ?body < 2 ^ 32"
    using unat_u32_lt [of "u32_from_be_bytes (slice_of 2 6 data)"] by (simp only: len) simp
  ultimately show ?thesis
    by (simp add: frame_serialize_def)
qed

lemma frame_parse_wf:
  assumes "frame_parse data = Inr (f, n)"
  shows "frame_wf f"
proof -
  note p = frame_parseD [OF assms]
  have "length (slice_of 6 n data) < 2 ^ 32"
    using p unat_u32_lt [of "u32_from_be_bytes (slice_of 2 6 data)"] by simp
  then show ?thesis
    using p(3,6) parse_body_wf [of "data ! 1"] by (simp add: frame_wf_def)
qed

section \<open>Properties\<close>

text \<open>
  C19. Every well-formed frame survives the wire: \<open>BapFrame::serialize\<close> succeeds on it, and
  \<open>BapFrame::parse\<close> on the bytes followed by anything else returns exactly that frame and
  the number of bytes written.
\<close>

theorem parse_serialize_roundtrip:
  assumes "frame_wf f"
  shows "\<exists>bs. frame_serialize f = Inr bs \<and> frame_parse (bs @ rest) = Inr (f, length bs)"
  using assms frame_parse_serialize_append by (metis frame_serialize_ok)

theorem parse_serialize_roundtrip_witness:
  "\<exists>bs. frame_serialize (clear_frame 0x1E 1 [83, 73, 77]) = Inr bs
     \<and> frame_parse (bs @ [1, 2]) = Inr (clear_frame 0x1E 1 [83, 73, 77], length bs)"
  by (rule parse_serialize_roundtrip) simp

text \<open>
  Parsing is canonical: what \<open>BapFrame::parse\<close> accepts is a well-formed frame whose
  serialization is byte for byte the prefix it consumed, so no two encodings of a frame exist.
\<close>

lemma serialize_parse_canonical:
  assumes "frame_parse data = Inr (f, n)"
  shows "frame_wf f \<and> n \<le> length data \<and> frame_serialize f = Inr (take n data)"
  using assms frame_parse_wf frame_serialize_parse frame_parse_consumed by blast

theorem serialize_parse_canonical_witness:
  "frame_parse [1, 7, 0, 0, 0, 2, 9, 8, 5] = Inr (\<lparr>bf_kind = KOther 7, bf_body = BOpaque [9, 8]\<rparr>, 8)
   \<and> frame_serialize \<lparr>bf_kind = KOther 7, bf_body = BOpaque [9, 8]\<rparr> = Inr [1, 7, 0, 0, 0, 2, 9, 8]"
proof -
  have p: "frame_parse [1, 7, 0, 0, 0, 2, 9, 8, 5]
      = Inr (\<lparr>bf_kind = KOther 7, bf_body = BOpaque [9, 8]\<rparr>, 8)"
    by code_simp
  show ?thesis using p serialize_parse_canonical [OF p] by simp
qed

definition declared_body_len :: "bytes \<Rightarrow> nat" where
  "declared_body_len data = unat (u32_from_be_bytes (slice_of 2 6 data))"

definition header_ok :: "bytes \<Rightarrow> bool" where
  "header_ok data \<longleftrightarrow> 6 \<le> length data \<and> data ! 0 = 1"

lemmas parse_cases = frame_parse_def parse_body_def parse_clear_body_def parse_encrypted_body_def
  kind_from_u8_def framing_consts header_ok_def declared_body_len_def

text \<open>
  C30. The error of \<open>BapFrame::parse\<close> is determined by the first failing check: the header
  length, the magic byte, the declared body length, and only then the body's own minimum
  length; \<open>LengthOverflow\<close> cannot arise from a \<open>u32\<close> length on a 64-bit target.
\<close>

theorem parse_error_branches:
  "(frame_parse data = Inl TruncatedHeader \<longleftrightarrow> length data < 6)
   \<and> (frame_parse data = Inl (BadMagic m) \<longleftrightarrow> 6 \<le> length data \<and> data ! 0 = m \<and> m \<noteq> 1)
   \<and> (frame_parse data = Inl TruncatedBody \<longleftrightarrow>
        header_ok data \<and> length data < 6 + declared_body_len data)
   \<and> (frame_parse data = Inl TruncatedClearBody \<longleftrightarrow>
        header_ok data \<and> 6 + declared_body_len data \<le> length data
        \<and> data ! 1 = 2 \<and> declared_body_len data < 6)
   \<and> (frame_parse data = Inl TruncatedEncryptedTag \<longleftrightarrow>
        header_ok data \<and> 6 + declared_body_len data \<le> length data
        \<and> data ! 1 = 1 \<and> declared_body_len data < 16)
   \<and> frame_parse data \<noteq> Inl LengthOverflow"
  by (intro conjI; (auto simp: parse_cases split: if_splits sum.splits frame_kind.splits)[1])

text \<open>
  \<open>BapFrame::parse_all\<close> recovers a whole sequence of frames from the concatenation of
  their serializations, in order, also when trailing bytes that do not start with the magic
  byte follow.
\<close>

lemma parse_all_concat:
  assumes "list_all2 (\<lambda>f bs. frame_wf f \<and> frame_serialize f = Inr bs) fs bss"
    and "rest = [] \<or> hd rest \<noteq> BAP_MAGIC"
  shows "parse_all (concat bss @ rest) = Inr fs"
  using assms(1)
proof (induction fs bss rule: list_all2_induct)
  case Nil
  then show ?case
    using assms(2) by (auto simp: parse_all.simps hd_conv_nth)
next
  case (Cons f fs bs bss)
  then have p: "frame_parse (bs @ concat bss @ rest) = Inr (f, length bs)"
    by (simp add: frame_parse_serialize_append)
  note d = frame_parseD [OF p]
  have ne: "bs @ concat bss @ rest \<noteq> []"
    using frame_parse_consumed [OF p] by auto
  show ?case
    using p Cons.IH ne d(2) by (subst parse_all.simps) (simp del: append_is_Nil_conv)
qed

theorem parse_all_concat_witness:
  "parse_all (concat [[1, 7, 0, 0, 0, 1, 9], [1, 9, 0, 0, 0, 0]] @ [5])
   = Inr [\<lparr>bf_kind = KOther 7, bf_body = BOpaque [9]\<rparr>, \<lparr>bf_kind = KOther 9, bf_body = BOpaque []\<rparr>]"
proof (rule parse_all_concat)
  show "list_all2 (\<lambda>f bs. frame_wf f \<and> frame_serialize f = Inr bs)
     [\<lparr>bf_kind = KOther 7, bf_body = BOpaque [9]\<rparr>, \<lparr>bf_kind = KOther 9, bf_body = BOpaque []\<rparr>]
     [[1, 7, 0, 0, 0, 1, 9], [1, 9, 0, 0, 0, 0]]"
    by code_simp
  show "[5 :: u8] = [] \<or> hd [5 :: u8] \<noteq> BAP_MAGIC"
    by (simp add: BAP_MAGIC_def)
qed

end
