(* ===== verification/Aead.thy ===== *)
theory Aead
  imports Prelude
begin

text \<open>
  \<open>network/src/crypto/aead.rs\<close>: AES-128-GCM with the tag in front, as in the body of an
  encrypted BAP frame. The cipher itself (crate \<open>aes-gcm\<close>) is a parameter: a record of its
  two functions. What the code relies on is \<open>aead_ok\<close>, the documented behaviour of the
  crate: sealing succeeds up to \<open>2 ^ 36\<close> bytes, appends a 16-byte tag, and opening with the
  same key, nonce and associated data returns the message.
\<close>

section \<open>The cipher\<close>

record aead_prims =
  ap_encrypt :: "bytes \<Rightarrow> bytes \<Rightarrow> bytes \<Rightarrow> bytes \<Rightarrow> bytes option"
  ap_decrypt :: "bytes \<Rightarrow> bytes \<Rightarrow> bytes \<Rightarrow> bytes \<Rightarrow> bytes option"

definition aead_ok :: "aead_prims \<Rightarrow> bool" where
  "aead_ok P \<longleftrightarrow> (\<forall>key nonce aad msg.
     length key = 16 \<longrightarrow> length nonce = 12 \<longrightarrow> length aad \<le> 2 ^ 36 \<longrightarrow> length msg \<le> 2 ^ 36 \<longrightarrow>
     (\<exists>sealed. ap_encrypt P key nonce aad msg = Some sealed
        \<and> length sealed = length msg + 16
        \<and> ap_decrypt P key nonce aad sealed = Some msg))"

lemma aead_okD:
  assumes "aead_ok P" "length key = 16" "length nonce = 12" "length aad \<le> 2 ^ 36" "length msg \<le> 2 ^ 36"
  obtains sealed where "ap_encrypt P key nonce aad msg = Some sealed"
    "length sealed = length msg + 16" "ap_decrypt P key nonce aad sealed = Some msg"
  using assms unfolding aead_ok_def by blast

text \<open>
  A concrete cipher for evaluating the definitions (not secure): each byte is combined with
  the first key byte, and the tag repeats the nonce and four key bytes.
\<close>

definition demo_tag :: "bytes \<Rightarrow> bytes \<Rightarrow> bytes" where
  "demo_tag key nonce = nonce @ take 4 key"

definition demo_aead :: aead_prims where
  "demo_aead =
     \<lparr>ap_encrypt = (\<lambda>key nonce aad msg. Some (map (\<lambda>b. b XOR hd key) msg @ demo_tag key nonce)),
      ap_decrypt = (\<lambda>key nonce aad ct.
        let n = length ct - 16 in
          if drop n ct = demo_tag key nonce then Some (map (\<lambda>b. b XOR hd key) (take n ct)) else None)\<rparr>"

lemma demo_aead_ok: "aead_ok demo_aead"
  unfolding aead_ok_def
  by (auto simp: demo_aead_def demo_tag_def Let_def xor.assoc map_idI)

section \<open>Data\<close>

definition KEY_LEN :: nat where "KEY_LEN = 16"
definition NONCE_LEN :: nat where "NONCE_LEN = 12"
definition TAG_LEN :: nat where "TAG_LEN = 16"

lemmas aead_consts = KEY_LEN_def NONCE_LEN_def TAG_LEN_def

datatype crypto_error =
    BadKeyLength nat
  | BadNonceLength nat
  | BadTagLength nat
  | CDecryptFailed
  | CEncryptFailed

record aes_gcm_blob =
  gb_tag :: bytes
  gb_ciphertext :: bytes

section \<open>Operations\<close>

definition to_body_bytes :: "aes_gcm_blob \<Rightarrow> bytes" where
  "to_body_bytes b = gb_tag b @ gb_ciphertext b"

definition from_body_bytes :: "bytes \<Rightarrow> crypto_error + aes_gcm_blob" where
  "from_body_bytes body =
     (if length body < TAG_LEN then Inl (BadTagLength (length body))
      else Inr \<lparr>gb_tag = take TAG_LEN body, gb_ciphertext = drop TAG_LEN body\<rparr>)"

definition cipher_from_key :: "bytes \<Rightarrow> crypto_error + bytes" where
  "cipher_from_key key = (if length key \<noteq> KEY_LEN then Inl (BadKeyLength (length key)) else Inr key)"

definition encrypt_aes_gcm ::
  "aead_prims \<Rightarrow> bytes \<Rightarrow> bytes \<Rightarrow> bytes \<Rightarrow> bytes \<Rightarrow> crypto_error + aes_gcm_blob" where
  "encrypt_aes_gcm P key nonce plaintext aad =
     (case cipher_from_key key of
        Inl e \<Rightarrow> Inl e
      | Inr cipher \<Rightarrow>
          if length nonce \<noteq> NONCE_LEN then Inl (BadNonceLength (length nonce))
          else (case ap_encrypt P cipher nonce aad plaintext of
              None \<Rightarrow> Inl CEncryptFailed
            | Some sealed \<Rightarrow>
                if length sealed < TAG_LEN then Inl CEncryptFailed
                else let split = length sealed - TAG_LEN in
                  Inr \<lparr>gb_tag = drop split sealed, gb_ciphertext = take split sealed\<rparr>))"

definition decrypt_aes_gcm ::
  "aead_prims \<Rightarrow> bytes \<Rightarrow> bytes \<Rightarrow> bytes \<Rightarrow> bytes \<Rightarrow> bytes \<Rightarrow> crypto_error + bytes" where
  "decrypt_aes_gcm P key nonce ciphertext tag aad =
     (if length tag \<noteq> TAG_LEN then Inl (BadTagLength (length tag))
      else case cipher_from_key key of
        Inl e \<Rightarrow> Inl e
      | Inr cipher \<Rightarrow>
          if length nonce \<noteq> NONCE_LEN then Inl (BadNonceLength (length nonce))
          else (case ap_decrypt P cipher nonce aad (ciphertext @ tag) of
              None \<Rightarrow> Inl CDecryptFailed
            | Some msg \<Rightarrow> Inr msg))"

section \<open>What a blob holds\<close>

lemma encrypt_aes_gcm_ok:
  assumes "aead_ok P" "length key = 16" "length nonce = 12" "length aad \<le> 2 ^ 36"
    "length plaintext \<le> 2 ^ 36"
  obtains b where "encrypt_aes_gcm P key nonce plaintext aad = Inr b"
    "length (gb_tag b) = 16" "length (gb_ciphertext b) = length plaintext"
    "decrypt_aes_gcm P key nonce (gb_ciphertext b) (gb_tag b) aad = Inr plaintext"
proof -
  from assms obtain s where s: "ap_encrypt P key nonce aad plaintext = Some s"
      "length s = length plaintext + 16" "ap_decrypt P key nonce aad s = Some plaintext"
    by (rule aead_okD)
  let ?b = "\<lparr>gb_tag = drop (length plaintext) s, gb_ciphertext = take (length plaintext) s\<rparr>"
  show thesis
    by (rule that [of ?b])
       (use assms s in \<open>simp_all add: encrypt_aes_gcm_def decrypt_aes_gcm_def cipher_from_key_def
          aead_consts Let_def\<close>)
qed

lemma from_to_body_bytes: "length (gb_tag b) = 16 \<Longrightarrow> from_body_bytes (to_body_bytes b) = Inr b"
  by (simp add: from_body_bytes_def to_body_bytes_def aead_consts)

section \<open>Properties\<close>

text \<open>
  A blob survives the wire: sealing any plaintext of up to \<open>2 ^ 36\<close> bytes under a
  16-byte key and a 12-byte nonce succeeds, its body bytes are 16 longer than the plaintext
  and split back into the same blob, and opening that blob with the same inputs returns the
  plaintext.
\<close>

lemma blob_roundtrip:
  assumes "aead_ok P" "length key = 16" "length nonce = 12" "length aad \<le> 2 ^ 36"
    "length plaintext \<le> 2 ^ 36"
  shows "\<exists>b. encrypt_aes_gcm P key nonce plaintext aad = Inr b
     \<and> length (to_body_bytes b) = length plaintext + 16
     \<and> from_body_bytes (to_body_bytes b) = Inr b
     \<and> decrypt_aes_gcm P key nonce (gb_ciphertext b) (gb_tag b) aad = Inr plaintext"
proof -
  from assms obtain b where "encrypt_aes_gcm P key nonce plaintext aad = Inr b"
    "length (gb_tag b) = 16" "length (gb_ciphertext b) = length plaintext"
    "decrypt_aes_gcm P key nonce (gb_ciphertext b) (gb_tag b) aad = Inr plaintext"
    by (rule encrypt_aes_gcm_ok)
  then show ?thesis by (auto simp: from_to_body_bytes) (simp add: to_body_bytes_def)
qed

theorem blob_roundtrip_witness:
  "\<exists>b. encrypt_aes_gcm demo_aead (replicate 16 7) (replicate 12 1) [1, 2, 3] [9] = Inr b
     \<and> length (to_body_bytes b) = length [1 :: u8, 2, 3] + 16
     \<and> from_body_bytes (to_body_bytes b) = Inr b
     \<and> decrypt_aes_gcm demo_aead (replicate 16 7) (replicate 12 1) (gb_ciphertext b) (gb_tag b) [9]
         = Inr [1, 2, 3]"
  by (rule blob_roundtrip) (simp_all add: demo_aead_ok)

end
