(* ===== verification/Gcm_Nonce.thy ===== *)
theory Gcm_Nonce
  imports Aead
begin

text \<open>
  \<open>network/src/crypto/gcm_nonce.rs\<close> and \<open>crypto/session_context.rs\<close>: the per-direction
  AES-GCM nonces of a session. A nonce is its 12 bytes; \<open>increment_nonce\<close> is the byte loop
  of the code, and its meaning is counting modulo \<open>2 ^ 96\<close> in little-endian order. The main
  result is the one AES-GCM depends on: one key never sees a nonce twice, across both
  directions.
\<close>

section \<open>Nonce transforms\<close>

definition GCM_NONCE_LEN :: nat where "GCM_NONCE_LEN = 12"

datatype gcm_nonce_error =
    BadSessionNonceLength nat
  | BadExpectedNonceLength nat

datatype nonce_direction = ServerToClient | ClientToServer

datatype nonce_transform = Identity | XorLastByte u8

definition transform_name :: "nonce_transform \<Rightarrow> string" where
  "transform_name t =
     (case t of Identity \<Rightarrow> ''Identity''
      | XorLastByte v \<Rightarrow> (if v = 1 then ''XorLastByte(1)'' else ''XorLastByte(n)''))"

fun default_transform_for :: "nonce_direction \<Rightarrow> nonce_transform" where
  "default_transform_for ServerToClient = Identity"
| "default_transform_for ClientToServer = XorLastByte 1"

definition apply_nonce_transform :: "bytes \<Rightarrow> nonce_transform \<Rightarrow> gcm_nonce_error + bytes" where
  "apply_nonce_transform session_nonce transform =
     (if length session_nonce \<noteq> GCM_NONCE_LEN
      then Inl (BadSessionNonceLength (length session_nonce))
      else Inr (case transform of
          Identity \<Rightarrow> session_nonce
        | XorLastByte v \<Rightarrow>
            session_nonce[GCM_NONCE_LEN - 1 := (session_nonce ! (GCM_NONCE_LEN - 1)) XOR v]))"

text \<open>The loop of \<open>increment_nonce\<close>: add one with wrap, go on only after a carry.\<close>

fun increment_nonce :: "bytes \<Rightarrow> bytes" where
  "increment_nonce [] = []"
| "increment_nonce (b # bs) =
     (let b' = b + 1 in if b' \<noteq> 0 then b' # bs else b' # increment_nonce bs)"

definition initial_direction_nonce :: "bytes \<Rightarrow> nonce_direction \<Rightarrow> gcm_nonce_error + bytes" where
  "initial_direction_nonce session_nonce direction =
     apply_nonce_transform session_nonce (default_transform_for direction)"

definition nonces_equal :: "bytes \<Rightarrow> bytes \<Rightarrow> gcm_nonce_error + bool" where
  "nonces_equal a b =
     (if length a \<noteq> GCM_NONCE_LEN then Inl (BadSessionNonceLength (length a))
      else if length b \<noteq> GCM_NONCE_LEN then Inl (BadExpectedNonceLength (length b))
      else Inr (a = b))"

record nonce_report =
  nr_direction :: string
  nr_transform :: string
  nr_session_nonce_length :: nat
  nr_derived_nonce_length :: nat
  nr_matches_expected :: "bool option"

fun direction_name :: "nonce_direction \<Rightarrow> string" where
  "direction_name ClientToServer = ''client_to_server''"
| "direction_name ServerToClient = ''server_to_client''"

definition reconstruct_first_frame_nonce ::
  "bytes \<Rightarrow> nonce_direction \<Rightarrow> nonce_transform \<Rightarrow> bytes option \<Rightarrow> gcm_nonce_error + nonce_report" where
  "reconstruct_first_frame_nonce session_nonce direction transform expected =
     (case apply_nonce_transform session_nonce transform of
        Inl e \<Rightarrow> Inl e
      | Inr derived \<Rightarrow>
          (let report = (\<lambda>m. \<lparr>nr_direction = direction_name direction,
                 nr_transform = transform_name transform,
                 nr_session_nonce_length = length session_nonce,
                 nr_derived_nonce_length = length derived,
                 nr_matches_expected = m\<rparr>)
           in case expected of
                None \<Rightarrow> Inr (report None)
              | Some exp \<Rightarrow>
                  (case nonces_equal derived exp of
                     Inl e \<Rightarrow> Inl e
                   | Inr m \<Rightarrow> Inr (report (Some m)))))"

section \<open>The session context\<close>

datatype session_context_error = BadSessionKeyLength nat | BadContextNonceLength nat

record session_context =
  sc_key :: bytes
  sc_nonce :: bytes
  sc_c2s_nonce :: bytes
  sc_s2c_nonce :: bytes
  sc_c2s_counter :: u64
  sc_s2c_counter :: u64

definition context_new :: "bytes \<Rightarrow> bytes \<Rightarrow> session_context_error + session_context" where
  "context_new session_key session_nonce =
     (if length session_key \<noteq> KEY_LEN then Inl (BadSessionKeyLength (length session_key))
      else if length session_nonce \<noteq> GCM_NONCE_LEN
        then Inl (BadContextNonceLength (length session_nonce))
      else case initial_direction_nonce session_nonce ClientToServer of
          Inl _ \<Rightarrow> Inl (BadContextNonceLength (length session_nonce))
        | Inr c2s \<Rightarrow>
            (case initial_direction_nonce session_nonce ServerToClient of
               Inl _ \<Rightarrow> Inl (BadContextNonceLength (length session_nonce))
             | Inr s2c \<Rightarrow> Inr \<lparr>sc_key = session_key, sc_nonce = session_nonce,
                               sc_c2s_nonce = c2s, sc_s2c_nonce = s2c,
                               sc_c2s_counter = 0, sc_s2c_counter = 0\<rparr>))"

text \<open>\<open>client_to_server_base\<close> and its twin: \<open>None\<close> is the \<open>expect\<close> that panics.\<close>

definition context_base :: "session_context \<Rightarrow> nonce_direction \<Rightarrow> bytes option" where
  "context_base ctx d =
     (case initial_direction_nonce (sc_nonce ctx) d of Inl _ \<Rightarrow> None | Inr n \<Rightarrow> Some n)"

fun nonce_after_increments :: "bytes \<Rightarrow> nat \<Rightarrow> bytes" where
  "nonce_after_increments base 0 = base"
| "nonce_after_increments base (Suc n) = increment_nonce (nonce_after_increments base n)"

fun next_nonce :: "session_context \<Rightarrow> nonce_direction \<Rightarrow> bytes \<times> session_context" where
  "next_nonce ctx ClientToServer =
     (sc_c2s_nonce ctx,
      ctx\<lparr>sc_c2s_nonce := increment_nonce (sc_c2s_nonce ctx),
          sc_c2s_counter := saturating_succ_u64 (sc_c2s_counter ctx)\<rparr>)"
| "next_nonce ctx ServerToClient =
     (sc_s2c_nonce ctx,
      ctx\<lparr>sc_s2c_nonce := increment_nonce (sc_s2c_nonce ctx),
          sc_s2c_counter := saturating_succ_u64 (sc_s2c_counter ctx)\<rparr>)"

fun peek_nonce :: "session_context \<Rightarrow> nonce_direction \<Rightarrow> bytes" where
  "peek_nonce ctx ClientToServer = sc_c2s_nonce ctx"
| "peek_nonce ctx ServerToClient = sc_s2c_nonce ctx"

fun direction_counter :: "session_context \<Rightarrow> nonce_direction \<Rightarrow> u64" where
  "direction_counter ctx ClientToServer = sc_c2s_counter ctx"
| "direction_counter ctx ServerToClient = sc_s2c_counter ctx"

text \<open>The nonces a session hands out when it is asked for them in a given order of directions.\<close>

fun draw_nonces :: "session_context \<Rightarrow> nonce_direction list \<Rightarrow> bytes list \<times> session_context" where
  "draw_nonces ctx [] = ([], ctx)"
| "draw_nonces ctx (d # ds) =
     (case next_nonce ctx d of (n, ctx1) \<Rightarrow>
        (case draw_nonces ctx1 ds of (ns, ctx2) \<Rightarrow> (n # ns, ctx2)))"

section \<open>Counting in little-endian order\<close>

fun le_nat :: "bytes \<Rightarrow> nat" where
  "le_nat [] = 0"
| "le_nat (b # bs) = unat b + 256 * le_nat bs"

lemma le_nat_bound: "le_nat bs < 256 ^ length bs"
proof (induction bs)
  case (Cons b bs)
  have "unat b + 256 * le_nat bs < 256 * (le_nat bs + 1)" by simp
  also have "\<dots> \<le> 256 * 256 ^ length bs"
    using Cons by (intro mult_le_mono2) simp
  finally show ?case by simp
qed simp

lemma le_nat_inj: "length a = length b \<Longrightarrow> le_nat a = le_nat b \<Longrightarrow> a = b"
proof (induction a b rule: list_induct2)
  case (Cons x xs y ys)
  have "(unat x + 256 * le_nat xs) mod 256 = (unat y + 256 * le_nat ys) mod 256"
    using Cons.prems by simp
  then have xy: "unat x = unat y" by simp
  then have "x = y" by (rule unsigned_word_eqI)
  then show ?case using Cons by simp
qed simp

lemma length_increment_nonce [simp]: "length (increment_nonce n) = length n"
  by (induction n) (auto simp: Let_def)

lemma unat_u8_succ: "unat (b + 1 :: u8) = (if b + 1 = 0 then 0 else unat b + 1)"
  by (simp add: unatSuc add.commute)

lemma u8_wrap: "(b :: u8) + 1 = 0 \<Longrightarrow> unat b = 255"
  by (simp add: eq_neg_iff_add_eq_0 [symmetric] unsigned_minus_1_eq_mask mask_eq_exp_minus_1)

lemma le_nat_increment: "le_nat (increment_nonce n) = (le_nat n + 1) mod 256 ^ length n"
proof (induction n)
  case (Cons b bs)
  show ?case
  proof (cases "b + 1 = 0")
    case True
    then have "le_nat (increment_nonce (b # bs)) = 256 * ((le_nat bs + 1) mod 256 ^ length bs)"
      using Cons by (simp add: Let_def)
    also have "\<dots> = (256 * (le_nat bs + 1)) mod (256 * 256 ^ length bs)"
      by (simp only: mult_mod_right)
    finally show ?thesis using u8_wrap [OF True] by (simp add: add.commute)
  next
    case False
    then have u: "unat (b + 1) = unat b + 1" by (simp add: unat_u8_succ)
    have "le_nat (increment_nonce (b # bs)) = le_nat ((b + 1) # bs)"
      using False by (simp add: Let_def)
    also have "\<dots> = le_nat (b # bs) + 1"
      using u by simp
    finally show ?thesis
      using le_nat_bound [of "(b + 1) # bs"] u by simp
  qed
qed simp

lemma length_nonce_after_increments [simp]: "length (nonce_after_increments n k) = length n"
  by (induction k) simp_all

lemma le_nat_after_increments:
  "le_nat (nonce_after_increments n k) = (le_nat n + k) mod 256 ^ length n"
proof (induction k)
  case 0
  then show ?case using le_nat_bound [of n] by simp
next
  case (Suc k)
  then show ?case
    by (simp add: le_nat_increment mod_Suc_eq)
qed

section \<open>The two bases\<close>

lemma le_nat_snoc: "le_nat (xs @ [b]) = le_nat xs + 256 ^ length xs * unat b"
  by (induction xs) (simp_all add: algebra_simps)

lemma unat_xor_one:
  "unat (b XOR 1 :: u8) = unat b + 1 \<or> unat b = unat (b XOR 1) + 1"
proof (cases "even b")
  case True
  then have x: "b XOR 1 = b + 1" by (simp add: xor_one_eq)
  have "b + 1 \<noteq> 0"
  proof
    assume z: "b + 1 = 0"
    have "odd (b + 1)" using True by simp
    then show False unfolding z by simp
  qed
  then show ?thesis unfolding x by (simp add: unat_u8_succ)
next
  case False
  then have "(b - 1) + 1 \<noteq> 0" by auto
  then have "unat b = unat (b - 1) + 1"
    using unat_u8_succ [of "b - 1"] by simp
  with False show ?thesis by (simp add: xor_one_eq)
qed

definition bases_apart :: "bytes \<Rightarrow> bytes \<Rightarrow> bool" where
  "bases_apart a b \<longleftrightarrow> length a = 12 \<and> length b = 12
     \<and> (le_nat a = le_nat b + 2 ^ 88 \<or> le_nat b = le_nat a + 2 ^ 88)"

lemma initial_nonces_apart:
  assumes "initial_direction_nonce n ClientToServer = Inr c"
    and "initial_direction_nonce n ServerToClient = Inr s"
  shows "bases_apart c s"
proof -
  have len: "length n = 12" and s: "s = n" and c: "c = n[11 := n ! 11 XOR 1]"
    using assms by (auto simp: initial_direction_nonce_def apply_nonce_transform_def GCM_NONCE_LEN_def
        split: if_splits)
  define xs b where "xs = take 11 n" and "b = n ! 11"
  have n: "n = xs @ [b]" and lx: "length xs = 11"
    using len id_take_nth_drop [of 11 n] by (auto simp: xs_def b_def)
  have c': "c = xs @ [b XOR 1]"
    using lx by (simp add: c n nth_append list_update_append)
  have "le_nat c = le_nat xs + 2 ^ 88 * unat (b XOR 1)" "le_nat s = le_nat xs + 2 ^ 88 * unat b"
    using lx by (simp_all add: c' s n le_nat_snoc)
  then show ?thesis
    using unat_xor_one [of b] lx by (auto simp: bases_apart_def c' s n)
qed

lemma mod_neq:
  fixes x y :: nat
  assumes "x < y" and "y < x + m"
  shows "x mod m \<noteq> y mod m"
proof
  assume "x mod m = y mod m"
  then have "m dvd y - x"
    using assms(1) by (metis less_imp_le_nat mod_eq_dvd_iff_nat)
  then have "m \<le> y - x"
    using assms(1) by (auto intro: dvd_imp_le)
  then show False using assms by simp
qed

lemma nonce_neq:
  assumes "length a = 12" "length b = 12" and "le_nat a + i < le_nat b + j"
    and "le_nat b + j < le_nat a + i + 2 ^ 96"
  shows "nonce_after_increments a i \<noteq> nonce_after_increments b j"
proof
  assume "nonce_after_increments a i = nonce_after_increments b j"
  then have "(le_nat a + i) mod 2 ^ 96 = (le_nat b + j) mod 2 ^ 96"
    using le_nat_after_increments [of a i] le_nat_after_increments [of b j] assms(1,2) by simp
  then show False using mod_neq [OF assms(3,4)] by simp
qed

lemma nonce_after_increments_inj:
  assumes "length a = 12" and "i < 2 ^ 96" "j < 2 ^ 96"
    and "nonce_after_increments a i = nonce_after_increments a j"
  shows "i = j"
  using nonce_neq [of a a i j] nonce_neq [of a a j i] assms by (cases i j rule: linorder_cases) auto

lemma bases_apart_nonces:
  assumes "bases_apart a b" and "i < 2 ^ 88" "j < 2 ^ 88"
  shows "nonce_after_increments a i \<noteq> nonce_after_increments b j"
  using assms nonce_neq [of a b i j] nonce_neq [of b a j i]
  unfolding bases_apart_def by fastforce

section \<open>What a run of \<open>next_nonce\<close> draws\<close>

lemma nonce_after_increments_Suc:
  "nonce_after_increments (increment_nonce b) n = nonce_after_increments b (Suc n)"
  by (induction n) simp_all

lemma fst_next_nonce [simp]: "fst (next_nonce ctx d) = peek_nonce ctx d"
  by (cases d) simp_all

lemma peek_after_next [frame_rules]:
  "peek_nonce (snd (next_nonce ctx d)) d' =
     (if d' = d then increment_nonce (peek_nonce ctx d) else peek_nonce ctx d')"
  by (cases d; cases d') simp_all

lemma counter_after_next [frame_rules]:
  "direction_counter (snd (next_nonce ctx d)) d' =
     (if d' = d then saturating_succ_u64 (direction_counter ctx d) else direction_counter ctx d')"
  by (cases d; cases d') simp_all

lemma context_frame_next [frame_rules, simp]:
  "sc_key (snd (next_nonce ctx d)) = sc_key ctx"
  "sc_nonce (snd (next_nonce ctx d)) = sc_nonce ctx"
  by (cases d; simp)+

lemma draw_nonces_Cons:
  "draw_nonces ctx (d # ds) =
     (peek_nonce ctx d # fst (draw_nonces (snd (next_nonce ctx d)) ds),
      snd (draw_nonces (snd (next_nonce ctx d)) ds))"
  by (cases "next_nonce ctx d"; cases "draw_nonces (snd (next_nonce ctx d)) ds")
     (use fst_next_nonce [of ctx d] in auto)

declare draw_nonces.simps(2) [simp del]

lemma length_draw_nonces [simp]: "length (fst (draw_nonces ctx ds)) = length ds"
  by (induction ds arbitrary: ctx) (simp_all add: draw_nonces_Cons)

lemma draw_nonces_nth:
  "k < length ds \<Longrightarrow> fst (draw_nonces ctx ds) ! k =
     nonce_after_increments (peek_nonce ctx (ds ! k)) (count_list (take k ds) (ds ! k))"
proof (induction ds arbitrary: ctx k)
  case (Cons d ds)
  show ?case
  proof (cases k)
    case (Suc j)
    then show ?thesis
      using Cons by (auto simp: draw_nonces_Cons frame_rules nonce_after_increments_Suc)
  qed (simp add: draw_nonces_Cons)
qed simp

lemma draw_nonces_state:
  "peek_nonce (snd (draw_nonces ctx ds)) d = nonce_after_increments (peek_nonce ctx d) (count_list ds d)
   \<and> unat (direction_counter (snd (draw_nonces ctx ds)) d)
       = min (unat (direction_counter ctx d) + count_list ds d) (2 ^ 64 - 1)
   \<and> sc_key (snd (draw_nonces ctx ds)) = sc_key ctx
   \<and> sc_nonce (snd (draw_nonces ctx ds)) = sc_nonce ctx"
proof (induction ds arbitrary: ctx)
  case Nil
  have "unat (direction_counter ctx d) < 2 ^ 64"
    using unsigned_less [of "direction_counter ctx d"] by simp
  then show ?case by simp
next
  case (Cons x ds)
  then show ?case
    by (simp add: draw_nonces_Cons frame_rules nonce_after_increments_Suc unat_saturating_succ
        flip: nonce_after_increments.simps(2)) (auto simp: min_def)
qed

lemma count_list_take_less:
  assumes "k < l" and "l < length ds" and "ds ! k = ds ! l"
  shows "count_list (take k ds) (ds ! l) < count_list (take l ds) (ds ! l)"
proof -
  obtain rest where r: "take l ds = take k ds @ ds ! k # rest"
    using assms id_take_nth_drop [of k "take l ds"] by (auto simp: min_def)
  show ?thesis unfolding r using assms(3) by simp
qed

lemma count_list_take_bound: "k < length ds \<Longrightarrow> count_list (take k ds) x < length ds"
  using count_le_length [of "take k ds" x] by simp

lemma context_newD:
  assumes "context_new key n = Inr ctx"
  shows "length key = 16" "length n = 12" "sc_key ctx = key" "sc_nonce ctx = n"
    "initial_direction_nonce n ClientToServer = Inr (peek_nonce ctx ClientToServer)"
    "initial_direction_nonce n ServerToClient = Inr (peek_nonce ctx ServerToClient)"
    "direction_counter ctx d = 0"
  using assms
  by (cases d; auto simp: context_new_def KEY_LEN_def GCM_NONCE_LEN_def split: if_splits sum.splits)+

lemma initial_direction_nonce_ok:
  "length n = 12 \<Longrightarrow> \<exists>m. initial_direction_nonce n d = Inr m"
  by (simp add: initial_direction_nonce_def apply_nonce_transform_def GCM_NONCE_LEN_def)

lemma context_new_ok: "length key = 16 \<Longrightarrow> length n = 12 \<Longrightarrow> \<exists>ctx. context_new key n = Inr ctx"
  using initial_direction_nonce_ok [of n ClientToServer] initial_direction_nonce_ok [of n ServerToClient]
  by (auto simp: context_new_def KEY_LEN_def GCM_NONCE_LEN_def)

section \<open>Properties\<close>

text \<open>
  C10. No nonce reuse: a session context, asked for up to \<open>2 ^ 88\<close> nonces in any interleaving
  of the two directions, never hands out the same 12 bytes twice, neither within a direction
  nor across the two directions that share the key.
\<close>

theorem session_nonces_distinct:
  assumes "context_new key n = Inr ctx" and "length ds \<le> 2 ^ 88"
  shows "distinct (fst (draw_nonces ctx ds))"
proof -
  let ?f = "\<lambda>k. count_list (take k ds) (ds ! k)"
  let ?N = "\<lambda>k. nonce_after_increments (peek_nonce ctx (ds ! k)) (?f k)"
  note c = context_newD [OF assms(1)]
  have apart: "bases_apart (peek_nonce ctx ClientToServer) (peek_nonce ctx ServerToClient)"
    using c(5,6) by (rule initial_nonces_apart)
  have bound: "?f k < 2 ^ 88" if "k < length ds" for k
    using count_list_take_bound [OF that, of "ds ! k"] assms(2) by simp
  have "?N k \<noteq> ?N l" if kl: "k < l" "l < length ds" for k l
  proof (cases "ds ! k = ds ! l")
    case True
    have "length (peek_nonce ctx (ds ! l)) = 12"
      using apart by (cases "ds ! l") (auto simp: bases_apart_def)
    moreover have "?f k \<noteq> ?f l"
      using count_list_take_less [OF kl True] True by simp
    moreover have "?f k < 2 ^ 96" "?f l < 2 ^ 96"
      using bound [of k] bound [of l] kl by simp_all
    ultimately show ?thesis
      using nonce_after_increments_inj True by metis
  next
    case False
    have "bases_apart (peek_nonce ctx ServerToClient) (peek_nonce ctx ClientToServer)"
      using apart by (auto simp: bases_apart_def)
    with apart False show ?thesis
      using bases_apart_nonces bound [of k] bound [of l] kl
      by (cases "ds ! k"; cases "ds ! l") auto
  qed
  then have "fst (draw_nonces ctx ds) ! k \<noteq> fst (draw_nonces ctx ds) ! l" if "k < l" "l < length ds" for k l
    using that by (simp add: draw_nonces_nth)
  then show ?thesis
    unfolding distinct_conv_nth length_draw_nonces by (metis linorder_neqE_nat)
qed

theorem session_nonces_distinct_witness:
  "\<exists>ctx. context_new (replicate 16 0) (replicate 12 0xFF) = Inr ctx
     \<and> distinct (fst (draw_nonces ctx [ClientToServer, ServerToClient, ClientToServer]))"
proof -
  obtain ctx where c: "context_new (replicate 16 0) (replicate 12 0xFF) = Inr ctx"
    using context_new_ok [of "replicate 16 0" "replicate 12 0xFF"] by auto
  from session_nonces_distinct [OF c, of "[ClientToServer, ServerToClient, ClientToServer]"] c
  show ?thesis by auto
qed

text \<open>
  \<open>increment_nonce\<close> counts: read as a little-endian number, one call adds one modulo
  \<open>2 ^ (8 * length)\<close>, keeping the length, so \<open>nonce_after_increments\<close> is \<open>base + counter\<close>
  modulo \<open>2 ^ 96\<close> on a 12-byte nonce.
\<close>

lemma increment_counts:
  "length (increment_nonce n) = length n
   \<and> le_nat (increment_nonce n) = (le_nat n + 1) mod 2 ^ (8 * length n)
   \<and> le_nat (nonce_after_increments n k) = (le_nat n + k) mod 2 ^ (8 * length n)"
proof -
  have "(2 :: nat) ^ (8 * length n) = 256 ^ length n"
    by (simp add: power_mult)
  then show ?thesis
    by (simp add: le_nat_increment le_nat_after_increments)
qed

text \<open>
  After any sequence of \<open>next_nonce\<close> calls each direction's current nonce is its base
  advanced by the number of calls for that direction, its counter is that number saturated
  at \<open>u64::MAX\<close>, and the key and the session nonce are those of the construction.
\<close>

lemma context_after_draws:
  assumes "context_new key n = Inr ctx"
  shows "\<exists>base. context_base ctx d = Some base
     \<and> peek_nonce (snd (draw_nonces ctx ds)) d = nonce_after_increments base (count_list ds d)
     \<and> unat (direction_counter (snd (draw_nonces ctx ds)) d) = min (count_list ds d) (2 ^ 64 - 1)
     \<and> sc_key (snd (draw_nonces ctx ds)) = key \<and> sc_nonce (snd (draw_nonces ctx ds)) = n"
proof -
  note c = context_newD [OF assms]
  have "context_base ctx d = Some (peek_nonce ctx d)"
    using c by (cases d) (simp_all add: context_base_def)
  then show ?thesis
    using draw_nonces_state [of ctx ds d] c(3,4,7) by simp
qed

theorem context_after_draws_witness:
  "\<exists>ctx base. context_new (replicate 16 0) (replicate 12 5) = Inr ctx
     \<and> context_base ctx ClientToServer = Some base
     \<and> peek_nonce (snd (draw_nonces ctx [ClientToServer, ServerToClient])) ClientToServer
         = nonce_after_increments base 1"
proof -
  obtain ctx where c: "context_new (replicate 16 0) (replicate 12 5) = Inr ctx"
    using context_new_ok [of "replicate 16 0" "replicate 12 5"] by auto
  from context_after_draws [OF c, of ClientToServer "[ClientToServer, ServerToClient]"] c
  show ?thesis by auto
qed

end
