(* ===== verification/Bap_Session.thy ===== *)
theory Bap_Session
  imports Framing Gcm_Nonce Aead Interfaces
begin

text \<open>
  \<open>network/src/bap_session.rs\<close>: frames with sealed bodies under one session context. The
  \<open>expect\<close> of the two serializers is an option (\<open>None\<close> panics); decoding returns the
  result and the new session. The theory interprets the channel contract for two sessions
  that hold the same context, and states exactly when a nonce is consumed.
\<close>

section \<open>Data\<close>

datatype bap_session_error =
    SFraming framing_error
  | SSession session_context_error
  | SDecryptFailed
  | SEncryptFailed
  | SEmptyCiphertext
  | STrailingBytes

datatype decoded_frame =
    DClear u16 u32 bytes
  | DDecrypted "u16 option" "u32 option" bytes nat
  | DOpaque u8 nat

fun decoded_is_clear :: "decoded_frame \<Rightarrow> bool" where
  "decoded_is_clear (DClear m c p) = True"
| "decoded_is_clear (DDecrypted m c p n) = False"
| "decoded_is_clear (DOpaque k n) = False"

fun decoded_is_decrypted :: "decoded_frame \<Rightarrow> bool" where
  "decoded_is_decrypted (DClear m c p) = False"
| "decoded_is_decrypted (DDecrypted m c p n) = True"
| "decoded_is_decrypted (DOpaque k n) = False"

fun decoded_plaintext_len :: "decoded_frame \<Rightarrow> nat option" where
  "decoded_plaintext_len (DDecrypted m c p n) = Some n"
| "decoded_plaintext_len (DClear m c p) = Some (6 + length p)"
| "decoded_plaintext_len (DOpaque k n) = None"

record bap_session =
  bs_crypto :: session_context

section \<open>Operations\<close>

definition bap_session_new :: "bytes \<Rightarrow> bytes \<Rightarrow> bap_session_error + bap_session" where
  "bap_session_new key nonce =
     (case context_new key nonce of Inl e \<Rightarrow> Inl (SSession e) | Inr c \<Rightarrow> Inr \<lparr>bs_crypto = c\<rparr>)"

definition session_from_crypto :: "session_context \<Rightarrow> bap_session" where
  "session_from_crypto c = \<lparr>bs_crypto = c\<rparr>"

definition encrypted_raw :: "bytes \<Rightarrow> bytes \<Rightarrow> bytes option" where
  "encrypted_raw tag ciphertext =
     (case frame_serialize (encrypted_frame tag ciphertext) of Inl _ \<Rightarrow> None | Inr bs \<Rightarrow> Some bs)"

definition clear_raw :: "u16 \<Rightarrow> u32 \<Rightarrow> bytes \<Rightarrow> bytes option" where
  "clear_raw msg_id context payload =
     (case frame_serialize (clear_frame msg_id context payload) of Inl _ \<Rightarrow> None | Inr bs \<Rightarrow> Some bs)"

definition encode_clear :: "u16 \<Rightarrow> u32 \<Rightarrow> bytes \<Rightarrow> bytes option" where
  "encode_clear msg_id context payload = clear_raw msg_id context payload"

definition encode_encrypted ::
  "aead_prims \<Rightarrow> bap_session \<Rightarrow> nonce_direction \<Rightarrow> u16 \<Rightarrow> u32 \<Rightarrow> bytes \<Rightarrow>
   ((bap_session_error + bytes) \<times> bap_session) option" where
  "encode_encrypted P s direction msg_id context payload =
     (let plaintext = u16_to_be_bytes msg_id @ u32_to_be_bytes context @ payload in
      case next_nonce (bs_crypto s) direction of (nonce, crypto) \<Rightarrow>
        let s = s\<lparr>bs_crypto := crypto\<rparr> in
        (case encrypt_aes_gcm P (sc_key crypto) nonce plaintext [] of
           Inl _ \<Rightarrow> Some (Inl SEncryptFailed, s)
         | Inr blob \<Rightarrow>
             (case encrypted_raw (gb_tag blob) (gb_ciphertext blob) of
                None \<Rightarrow> None
              | Some raw \<Rightarrow> Some (Inr raw, s))))"

definition decode_plaintext :: "bytes \<Rightarrow> decoded_frame" where
  "decode_plaintext plaintext =
     (let plaintext_len = length plaintext in
      if plaintext_len \<ge> 6
      then DDecrypted (Some (u16_from_be_bytes (slice_of 0 2 plaintext)))
             (Some (u32_from_be_bytes (slice_of 2 6 plaintext))) (drop 6 plaintext) plaintext_len
      else DDecrypted None None plaintext plaintext_len)"

definition decode_encrypted ::
  "aead_prims \<Rightarrow> bap_session \<Rightarrow> nonce_direction \<Rightarrow> encrypted_body \<Rightarrow>
   (bap_session_error + decoded_frame) \<times> bap_session" where
  "decode_encrypted P s direction enc =
     (if eb_ciphertext enc = [] then (Inl SEmptyCiphertext, s)
      else case next_nonce (bs_crypto s) direction of (nonce, crypto) \<Rightarrow>
        let s = s\<lparr>bs_crypto := crypto\<rparr> in
        (case decrypt_aes_gcm P (sc_key crypto) nonce (eb_ciphertext enc) (eb_tag enc) [] of
           Inr plaintext \<Rightarrow> (Inr (decode_plaintext plaintext), s)
         | Inl CDecryptFailed \<Rightarrow> (Inl SDecryptFailed, s)
         | Inl (BadKeyLength _) \<Rightarrow> (Inl SDecryptFailed, s)
         | Inl (BadNonceLength _) \<Rightarrow> (Inl SDecryptFailed, s)
         | Inl (BadTagLength _) \<Rightarrow> (Inl SDecryptFailed, s)
         | Inl CEncryptFailed \<Rightarrow> (Inl SDecryptFailed, s)))"

definition decode_parsed ::
  "aead_prims \<Rightarrow> bap_session \<Rightarrow> nonce_direction \<Rightarrow> bap_frame \<Rightarrow>
   (bap_session_error + decoded_frame) \<times> bap_session" where
  "decode_parsed P s direction frame =
     (case bf_body frame of
        BClear c \<Rightarrow> (Inr (DClear (cb_msg_id c) (cb_context c) (cb_payload c)), s)
      | BEncrypted enc \<Rightarrow> decode_encrypted P s direction enc
      | BOpaque body \<Rightarrow> (Inr (DOpaque (kind_as_u8 (bf_kind frame)) (length body)), s))"

definition decode_frame ::
  "aead_prims \<Rightarrow> bap_session \<Rightarrow> nonce_direction \<Rightarrow> bytes \<Rightarrow>
   (bap_session_error + decoded_frame) \<times> bap_session" where
  "decode_frame P s direction raw_frame =
     (case frame_parse raw_frame of
        Inl e \<Rightarrow> (Inl (SFraming e), s)
      | Inr (frame, consumed) \<Rightarrow>
          if consumed \<noteq> length raw_frame then (Inl STrailingBytes, s)
          else decode_parsed P s direction frame)"

section \<open>One frame each way\<close>

lemma decode_plaintext_layout [wire_simps]:
  "decode_plaintext (u16_to_be_bytes m @ u32_to_be_bytes c @ p) = DDecrypted (Some m) (Some c) p (6 + length p)"
  by (simp add: decode_plaintext_def slice_of_def)

lemma clear_raw_ok:
  assumes "length payload + 6 < 2 ^ 32"
  obtains bs where "clear_raw m c payload = Some bs" "frame_serialize (clear_frame m c payload) = Inr bs"
  using assms frame_serialize_ok [of "clear_frame m c payload"] by (auto simp: clear_raw_def)

lemma encrypted_raw_ok:
  assumes "length tag = 16" "length ct + 16 < 2 ^ 32"
  obtains bs where "encrypted_raw tag ct = Some bs" "frame_serialize (encrypted_frame tag ct) = Inr bs"
  using assms frame_serialize_ok [of "encrypted_frame tag ct"] by (auto simp: encrypted_raw_def)

lemma decode_frame_serialized:
  assumes "frame_wf f" "frame_serialize f = Inr bs"
  shows "decode_frame P s d bs = decode_parsed P s d f"
  using frame_parse_serialize_append [OF assms, of "[]"] by (simp add: decode_frame_def)

lemma decode_clear_raw:
  assumes "length payload + 6 < 2 ^ 32" "clear_raw m c payload = Some bs"
  shows "decode_frame P s d bs = (Inr (DClear m c payload), s)"
proof -
  have "frame_serialize (clear_frame m c payload) = Inr bs"
    using assms(2) by (auto simp: clear_raw_def split: sum.splits)
  then have "decode_frame P s d bs = decode_parsed P s d (clear_frame m c payload)"
    using assms(1) by (simp add: decode_frame_serialized)
  then show ?thesis
    by (simp add: decode_parsed_def clear_frame_def)
qed

text \<open>Two sessions are synchronised when they hold the same context.\<close>

definition context_valid :: "session_context \<Rightarrow> bool" where
  "context_valid c \<longleftrightarrow> length (sc_key c) = 16 \<and> (\<forall>d. length (peek_nonce c d) = 12)"

definition session_synced :: "aead_prims \<Rightarrow> bap_session \<Rightarrow> bap_session \<Rightarrow> bool" where
  "session_synced P a b \<longleftrightarrow> aead_ok P \<and> bs_crypto a = bs_crypto b \<and> context_valid (bs_crypto a)"

lemma context_new_valid: "context_new key nonce = Inr c \<Longrightarrow> context_valid c"
proof -
  assume n: "context_new key nonce = Inr c"
  note d = context_newD [OF n]
  have "bases_apart (peek_nonce c ClientToServer) (peek_nonce c ServerToClient)"
    using d(5,6) by (rule initial_nonces_apart)
  then have "length (peek_nonce c x) = 12" for x
    by (cases x) (auto simp: bases_apart_def)
  then show ?thesis using d by (simp add: context_valid_def)
qed

lemma context_valid_next: "context_valid c \<Longrightarrow> context_valid (snd (next_nonce c d))"
  by (auto simp: context_valid_def frame_rules)

lemma bap_session_new_valid: "bap_session_new key nonce = Inr s \<Longrightarrow> context_valid (bs_crypto s)"
  by (auto simp: bap_session_new_def context_new_valid split: sum.splits)

lemma bap_session_new_synced:
  "aead_ok P \<Longrightarrow> bap_session_new key nonce = Inr s \<Longrightarrow> session_synced P s s"
  by (auto simp: bap_session_new_def session_synced_def context_new_valid split: sum.splits)

text \<open>One \<open>next_nonce\<close> of a direction, and agreement of two sessions in one direction.\<close>

abbreviation advance :: "bap_session \<Rightarrow> nonce_direction \<Rightarrow> bap_session" where
  "advance s d \<equiv> s\<lparr>bs_crypto := snd (next_nonce (bs_crypto s) d)\<rparr>"

definition dir_synced :: "nonce_direction \<Rightarrow> bap_session \<Rightarrow> bap_session \<Rightarrow> bool" where
  "dir_synced d a b \<longleftrightarrow> sc_key (bs_crypto a) = sc_key (bs_crypto b)
     \<and> peek_nonce (bs_crypto a) d = peek_nonce (bs_crypto b) d"

lemma dir_synced_advance:
  "dir_synced d a b \<Longrightarrow> dir_synced d (advance a d) (advance b d)"
  "d \<noteq> e \<Longrightarrow> dir_synced d (advance a e) b \<longleftrightarrow> dir_synced d a b"
  "d \<noteq> e \<Longrightarrow> dir_synced d a (advance b e) \<longleftrightarrow> dir_synced d a b"
  by (auto simp: dir_synced_def frame_rules)

lemma encode_directed:
  assumes "aead_ok P" and "context_valid (bs_crypto a)" and "length payload + 22 < 2 ^ 32"
  obtains raw where
    "encode_encrypted P a d m c payload = Some (Inr raw, advance a d)"
    "\<forall>b. dir_synced d a b \<longrightarrow> decode_frame P b d raw
       = (Inr (DDecrypted (Some m) (Some c) payload (6 + length payload)), advance b d)"
    "\<exists>tag ct. length tag = 16 \<and> length ct = length payload + 6
       \<and> frame_serialize (encrypted_frame tag ct) = Inr raw"
proof -
  let ?pt = "u16_to_be_bytes m @ u32_to_be_bytes c @ payload"
  define n where "n = peek_nonce (bs_crypto a) d"
  have lens: "length (sc_key (bs_crypto a)) = 16" "length n = 12"
    using assms(2) by (simp_all add: context_valid_def n_def)
  have pt: "length ?pt \<le> 2 ^ 36" using assms(3) by simp
  from encrypt_aes_gcm_ok [OF assms(1) lens _ pt, of "[]"] obtain blob where
    blob: "encrypt_aes_gcm P (sc_key (bs_crypto a)) n ?pt [] = Inr blob"
      "length (gb_tag blob) = 16" "length (gb_ciphertext blob) = length ?pt"
      "decrypt_aes_gcm P (sc_key (bs_crypto a)) n (gb_ciphertext blob) (gb_tag blob) [] = Inr ?pt"
    by auto
  have ctlen: "length (gb_ciphertext blob) + 16 < 2 ^ 32"
    using blob(3) assms(3) by simp
  from encrypted_raw_ok [OF blob(2) this] obtain raw where
    raw: "encrypted_raw (gb_tag blob) (gb_ciphertext blob) = Some raw"
      "frame_serialize (encrypted_frame (gb_tag blob) (gb_ciphertext blob)) = Inr raw"
    by blast
  have ne: "gb_ciphertext blob \<noteq> []" using blob(3) by auto
  have wf: "frame_wf (encrypted_frame (gb_tag blob) (gb_ciphertext blob))"
    using blob(2) ctlen by simp
  have next_eq: "next_nonce x d = (peek_nonce x d, y)" "sc_key y = sc_key x"
    if "y = snd (next_nonce x d)" for x y
    using that by (simp_all add: prod_eq_iff)
  show thesis
  proof (rule that)
    define c' where "c' = snd (next_nonce (bs_crypto a) d)"
    show "encode_encrypted P a d m c payload = Some (Inr raw, a\<lparr>bs_crypto := snd (next_nonce (bs_crypto a) d)\<rparr>)"
      unfolding c'_def [symmetric]
      using blob(1) raw(1) next_eq [OF c'_def] by (simp add: encode_encrypted_def Let_def n_def)
    show "\<exists>tag ct. length tag = 16 \<and> length ct = length payload + 6
       \<and> frame_serialize (encrypted_frame tag ct) = Inr raw"
      using blob(2,3) raw(2) by (intro exI [of _ "gb_tag blob"] exI [of _ "gb_ciphertext blob"]) simp
    show "\<forall>b. dir_synced d a b \<longrightarrow> decode_frame P b d raw
       = (Inr (DDecrypted (Some m) (Some c) payload (6 + length payload)),
          b\<lparr>bs_crypto := snd (next_nonce (bs_crypto b) d)\<rparr>)"
    proof (intro allI impI)
    fix b
    assume "dir_synced d a b"
    then have b: "sc_key (bs_crypto b) = sc_key (bs_crypto a)" "peek_nonce (bs_crypto b) d = n"
      by (simp_all add: dir_synced_def n_def)
    define c' where "c' = snd (next_nonce (bs_crypto b) d)"
    show "decode_frame P b d raw = (Inr (DDecrypted (Some m) (Some c) payload (6 + length payload)),
       b\<lparr>bs_crypto := snd (next_nonce (bs_crypto b) d)\<rparr>)"
      unfolding c'_def [symmetric]
      using blob(4) ne b next_eq [OF c'_def] decode_plaintext_layout [of m c payload]
      by (simp add: decode_frame_serialized [OF wf raw(2)] decode_parsed_def encrypted_frame_def
          decode_encrypted_def Let_def)
    qed
  qed
qed

section \<open>The channel contract\<close>

text \<open>A message of either kind, in either direction; what travels is the direction and the bytes.\<close>

record bap_out =
  bo_encrypted :: bool
  bo_direction :: nonce_direction
  bo_msg_id :: u16
  bo_context :: u32
  bo_payload :: bytes

definition bap_send :: "aead_prims \<Rightarrow> bap_session \<Rightarrow> bap_out \<Rightarrow> ((nonce_direction \<times> bytes) \<times> bap_session) option" where
  "bap_send P s m =
     (if bo_encrypted m
      then (case encode_encrypted P s (bo_direction m) (bo_msg_id m) (bo_context m) (bo_payload m) of
          Some (Inr raw, s') \<Rightarrow> Some ((bo_direction m, raw), s')
        | _ \<Rightarrow> None)
      else (case encode_clear (bo_msg_id m) (bo_context m) (bo_payload m) of
          Some raw \<Rightarrow> Some ((bo_direction m, raw), s)
        | None \<Rightarrow> None))"

definition bap_recv ::
  "aead_prims \<Rightarrow> bap_session \<Rightarrow> nonce_direction \<times> bytes \<Rightarrow> (bap_session_error + decoded_frame) \<times> bap_session" where
  "bap_recv P s w = decode_frame P s (fst w) (snd w)"

definition bap_sendable :: "bap_out \<Rightarrow> bool" where
  "bap_sendable m \<longleftrightarrow> length (bo_payload m) + 22 < 2 ^ 32"

definition bap_view :: "bap_out \<Rightarrow> decoded_frame" where
  "bap_view m =
     (if bo_encrypted m
      then DDecrypted (Some (bo_msg_id m)) (Some (bo_context m)) (bo_payload m) (6 + length (bo_payload m))
      else DClear (bo_msg_id m) (bo_context m) (bo_payload m))"

text \<open>Only the sent direction of the two contexts has to agree, and only it changes.\<close>

definition dir_channel :: "aead_prims \<Rightarrow> nonce_direction \<Rightarrow> bap_session \<Rightarrow> bap_session \<Rightarrow> bool" where
  "dir_channel P d a b \<longleftrightarrow> aead_ok P \<and> context_valid (bs_crypto a) \<and> context_valid (bs_crypto b)
     \<and> dir_synced d a b"

lemma bap_step:
  assumes "aead_ok P" "context_valid (bs_crypto a)" "bap_sendable m" "bo_direction m = d"
  obtains raw where
    "bap_send P a m = Some ((d, raw), if bo_encrypted m then advance a d else a)"
    "\<forall>b. dir_synced d a b \<longrightarrow>
       decode_frame P b d raw = (Inr (bap_view m), if bo_encrypted m then advance b d else b)"
proof (cases "bo_encrypted m")
  case True
  have len: "length (bo_payload m) + 22 < 2 ^ 32" using assms(3) by (simp add: bap_sendable_def)
  obtain raw where
    "encode_encrypted P a d (bo_msg_id m) (bo_context m) (bo_payload m) = Some (Inr raw, advance a d)"
    "\<forall>b. dir_synced d a b \<longrightarrow> decode_frame P b d raw = (Inr (DDecrypted (Some (bo_msg_id m))
        (Some (bo_context m)) (bo_payload m) (6 + length (bo_payload m))), advance b d)"
    "\<exists>tag ct. length tag = 16 \<and> length ct = length (bo_payload m) + 6
       \<and> frame_serialize (encrypted_frame tag ct) = Inr raw"
    by (rule encode_directed [OF assms(1,2) len, of d "bo_msg_id m" "bo_context m"])
  with True assms(4) show thesis
    by (intro that [of raw]) (simp_all add: bap_send_def bap_view_def)
next
  case False
  have len: "length (bo_payload m) + 6 < 2 ^ 32" using assms(3) by (simp add: bap_sendable_def)
  then obtain bs where bs: "clear_raw (bo_msg_id m) (bo_context m) (bo_payload m) = Some bs"
    by (rule clear_raw_ok)
  show thesis
    using False assms(4) bs decode_clear_raw [OF len bs]
    by (intro that [of bs]) (simp_all add: bap_send_def bap_view_def encode_clear_def)
qed

lemma bap_deliver:
  assumes "session_synced P a b" "bap_sendable m"
  shows "\<exists>w a' b'. bap_send P a m = Some (w, a') \<and> bap_recv P b w = (Inr (bap_view m), b')
     \<and> session_synced P a' b'"
proof -
  have v: "aead_ok P" "bs_crypto b = bs_crypto a" "context_valid (bs_crypto a)"
    using assms(1) by (auto simp: session_synced_def)
  then have "dir_synced (bo_direction m) a b" by (simp add: dir_synced_def)
  moreover obtain raw where
    "bap_send P a m = Some ((bo_direction m, raw), if bo_encrypted m then advance a (bo_direction m) else a)"
    "\<forall>b. dir_synced (bo_direction m) a b \<longrightarrow> decode_frame P b (bo_direction m) raw
       = (Inr (bap_view m), if bo_encrypted m then advance b (bo_direction m) else b)"
    using bap_step [OF v(1,3) assms(2) refl] by metis
  ultimately show ?thesis
    using v by (auto simp: bap_recv_def session_synced_def context_valid_next)
qed

lemma bap_deliver_dir:
  assumes "dir_channel P d a b" "bap_sendable m \<and> bo_direction m = d"
  shows "\<exists>w a' b'. bap_send P a m = Some (w, a') \<and> bap_recv P b w = (Inr (bap_view m), b')
     \<and> dir_channel P d a' b'"
proof -
  have v: "aead_ok P" "context_valid (bs_crypto a)" "context_valid (bs_crypto b)" "dir_synced d a b"
    and m: "bap_sendable m" "bo_direction m = d"
    using assms by (auto simp: dir_channel_def)
  obtain raw where
    "bap_send P a m = Some ((d, raw), if bo_encrypted m then advance a d else a)"
    "\<forall>b. dir_synced d a b \<longrightarrow> decode_frame P b d raw
       = (Inr (bap_view m), if bo_encrypted m then advance b d else b)"
    using bap_step [OF v(1,2) m] by metis
  then show ?thesis
    using v dir_synced_advance(1) [OF v(4)] by (auto simp: bap_recv_def dir_channel_def context_valid_next)
qed

interpretation bap: secure_channel "bap_send P" "bap_recv P" bap_sendable bap_view "session_synced P" for P
  by unfold_locales (rule bap_deliver)

interpretation bap_dir: secure_channel "bap_send P" "bap_recv P" "\<lambda>m. bap_sendable m \<and> bo_direction m = d"
  bap_view "dir_channel P d" for P d
  by unfold_locales (rule bap_deliver_dir)

lemma bap_send_keeps:
  assumes "bap_send P s m = Some (w, s')" "context_valid (bs_crypto s)"
  shows "fst w = bo_direction m" "context_valid (bs_crypto s')" "sc_key (bs_crypto s') = sc_key (bs_crypto s)"
    "e \<noteq> bo_direction m \<Longrightarrow> peek_nonce (bs_crypto s') e = peek_nonce (bs_crypto s) e"
proof -
  have "fst w = bo_direction m \<and> (s' = s \<or> s' = advance s (bo_direction m))"
    using assms(1) by (auto simp: bap_send_def encode_encrypted_def Let_def
        split: if_splits option.splits sum.splits prod.splits)
  then show "fst w = bo_direction m" "context_valid (bs_crypto s')" "sc_key (bs_crypto s') = sc_key (bs_crypto s)"
    "e \<noteq> bo_direction m \<Longrightarrow> peek_nonce (bs_crypto s') e = peek_nonce (bs_crypto s) e"
    using assms(2) by (auto simp: context_valid_next frame_rules)
qed

text \<open>Sending in one direction keeps a channel of the other direction synchronised.\<close>

lemma send_all_other_direction:
  assumes "send_all (bap_send P) s ms = Some (ws, s')" "\<forall>m \<in> set ms. bo_direction m = d" "e \<noteq> d"
    and "context_valid (bs_crypto s)"
  shows "context_valid (bs_crypto s') \<and> sc_key (bs_crypto s') = sc_key (bs_crypto s)
     \<and> peek_nonce (bs_crypto s') e = peek_nonce (bs_crypto s) e"
  using assms
proof (induction ms arbitrary: s ws)
  case (Cons m ms)
  from Cons.prems(1) obtain w s1 vs where s: "bap_send P s m = Some (w, s1)"
      "send_all (bap_send P) s1 ms = Some (vs, s')"
    by (auto split: option.splits)
  note k = bap_send_keeps [OF s(1) Cons.prems(4)]
  show ?case
    using Cons.IH [OF s(2) _ Cons.prems(3) k(2)] k(3) k(4) [of e] Cons.prems(2,3) by auto
qed simp

lemma dir_channel_left:
  assumes "dir_channel P e s x" "send_all (bap_send P) s ms = Some (ws, s')"
    "\<forall>m \<in> set ms. bo_direction m = d" "e \<noteq> d"
  shows "dir_channel P e s' x"
  using assms send_all_other_direction [OF assms(2,3,4)] by (auto simp: dir_channel_def dir_synced_def)

lemma dir_channel_right:
  assumes "dir_channel P e x s" "send_all (bap_send P) s ms = Some (ws, s')"
    "\<forall>m \<in> set ms. bo_direction m = d" "e \<noteq> d"
  shows "dir_channel P e x s'"
  using assms send_all_other_direction [OF assms(2,3,4)] by (auto simp: dir_channel_def dir_synced_def)

lemma decode_frame_keeps_valid:
  assumes "context_valid (bs_crypto s)"
  shows "context_valid (bs_crypto (snd (decode_frame P s d raw)))"
    "sc_key (bs_crypto (snd (decode_frame P s d raw))) = sc_key (bs_crypto s)"
    "e \<noteq> d \<Longrightarrow> peek_nonce (bs_crypto (snd (decode_frame P s d raw))) e = peek_nonce (bs_crypto s) e"
proof -
  have "snd (decode_frame P s d raw) = s \<or> snd (decode_frame P s d raw) = advance s d"
    by (auto simp: decode_frame_def decode_parsed_def decode_encrypted_def Let_def
        split: sum.splits prod.splits frame_body.splits crypto_error.splits)
  then show "context_valid (bs_crypto (snd (decode_frame P s d raw)))"
    "sc_key (bs_crypto (snd (decode_frame P s d raw))) = sc_key (bs_crypto s)"
    "e \<noteq> d \<Longrightarrow> peek_nonce (bs_crypto (snd (decode_frame P s d raw))) e = peek_nonce (bs_crypto s) e"
    using assms by (auto simp: context_valid_next frame_rules)
qed

lemma dir_channel_decoded:
  assumes "dir_channel P e s x" "decode_frame P s d raw = (r, s')" "e \<noteq> d"
  shows "dir_channel P e s' x"
  using assms decode_frame_keeps_valid [where s = s and P = P and d = d and raw = raw]
  by (auto simp: dir_channel_def dir_synced_def)

section \<open>Properties\<close>

text \<open>
  C11. In-order delivery: two sessions created from the same key and nonce, one encoding and
  one decoding, deliver every sequence of clear and encrypted messages in both directions
  unchanged and in order, and end with the same context.
\<close>

theorem session_delivers:
  assumes "aead_ok P" and "bap_session_new key nonce = Inr s" and "\<forall>m \<in> set ms. bap_sendable m"
  shows "\<exists>ws a b. send_all (bap_send P) s ms = Some (ws, a)
     \<and> recv_all (bap_recv P) s ws = (Inr (map bap_view ms), b) \<and> bs_crypto a = bs_crypto b"
  using bap.deliver_all [OF bap_session_new_synced [OF assms(1,2)] assms(3)]
  by (auto simp: session_synced_def)

theorem session_delivers_witness:
  "\<exists>s ws a b. bap_session_new (replicate 16 1) (replicate 12 2) = Inr s
     \<and> send_all (bap_send demo_aead) s
         [\<lparr>bo_encrypted = True, bo_direction = ClientToServer, bo_msg_id = 30, bo_context = 1, bo_payload = [5]\<rparr>,
          \<lparr>bo_encrypted = False, bo_direction = ServerToClient, bo_msg_id = 25, bo_context = 2, bo_payload = []\<rparr>]
         = Some (ws, a)
     \<and> recv_all (bap_recv demo_aead) s ws
         = (Inr [DDecrypted (Some 30) (Some 1) [5] 7, DClear 25 2 []], b)"
proof -
  obtain s where s: "bap_session_new (replicate 16 1) (replicate 12 2) = Inr s"
    using context_new_ok [of "replicate 16 1" "replicate 12 2"] by (auto simp: bap_session_new_def)
  let ?ms = "[\<lparr>bo_encrypted = True, bo_direction = ClientToServer, bo_msg_id = 30, bo_context = 1, bo_payload = [5]\<rparr>,
          \<lparr>bo_encrypted = False, bo_direction = ServerToClient, bo_msg_id = 25, bo_context = 2, bo_payload = []\<rparr>]"
  have "\<forall>m \<in> set ?ms. bap_sendable m" by (simp add: bap_sendable_def)
  from session_delivers [OF demo_aead_ok s this] s show ?thesis
    by (auto simp: bap_view_def)
qed

text \<open>
  C33. Nonce consumption of \<open>decode_frame\<close>: the session changes exactly when the input is one
  whole encrypted frame with a non-empty ciphertext, whether or not it decrypts, and then by
  one \<open>next_nonce\<close> of the given direction; every other input, clear, opaque or rejected,
  leaves the session as it was. A failed decryption is never rolled back.
\<close>

theorem nonce_consumption:
  "snd (decode_frame P s d raw) =
     (case frame_parse raw of
        Inl _ \<Rightarrow> s
      | Inr (frame, n) \<Rightarrow>
          (case bf_body frame of
             BEncrypted enc \<Rightarrow>
               if n = length raw \<and> eb_ciphertext enc \<noteq> []
               then s\<lparr>bs_crypto := snd (next_nonce (bs_crypto s) d)\<rparr> else s
           | _ \<Rightarrow> s))"
proof -
  have "snd (decode_encrypted P s d enc) =
      (if eb_ciphertext enc = [] then s else s\<lparr>bs_crypto := snd (next_nonce (bs_crypto s) d)\<rparr>)" for enc
    by (auto simp: decode_encrypted_def Let_def split: prod.splits sum.splits crypto_error.splits)
  then show ?thesis
    by (auto simp: decode_frame_def decode_parsed_def split: sum.splits prod.splits frame_body.splits)
qed

end
