(* ===== verification/Message_Codec.thy ===== *)
theory Message_Codec
  imports Messages Interfaces Bap_Session
begin

text \<open>
  \<open>network/src/message_codec.rs\<close>: logical messages, after framing and decryption. Ten ids
  have a codec, nine of them opaque; \<open>0x1A\<close> has a structured record, kept beside the raw
  payload. The record codec interprets the exact-codec contract, and decoding a message is
  lossless for every id and every payload.
\<close>

section \<open>Data\<close>

record bap_envelope =
  en_id :: u16
  en_context :: u32
  en_direction :: direction
  en_payload :: bytes

datatype codec_error =
    InvalidPayloadLength string
  | InvalidFieldLength string
  | InvalidRecordLength string
  | UnexpectedMessageId u16
  | MalformedMessage string
  | UnsupportedMessage u16

fun show_codec_error :: "codec_error \<Rightarrow> string" where
  "show_codec_error (InvalidPayloadLength s) = ''invalid payload length: '' @ s"
| "show_codec_error (InvalidFieldLength s) = ''invalid field length: '' @ s"
| "show_codec_error (InvalidRecordLength s) = ''invalid record_len: '' @ s"
| "show_codec_error (UnexpectedMessageId i) = ''unexpected message id '' @ hex_id i"
| "show_codec_error (MalformedMessage s) = ''malformed message: '' @ s"
| "show_codec_error (UnsupportedMessage i) = ''unsupported message '' @ hex_id i"

record unknown_message =
  um_id :: u16
  um_context :: u32
  um_direction :: direction
  um_payload :: bytes

definition show_unknown_message :: "unknown_message \<Rightarrow> string" where
  "show_unknown_message u =
     ''UnknownBapMessage{id='' @ hex_id (um_id u) @ '', context='' @ show_nat (unat (um_context u))
     @ '', dir='' @ direction_debug (um_direction u) @ '', payload_len=''
     @ show_nat (length (um_payload u)) @ ''}''"

record opaque_payload =
  op_context :: u32
  op_direction :: direction
  op_payload :: bytes

record login_record =
  lr_prefix :: u16
  lr_record_len :: u32
  lr_iv :: bytes
  lr_ciphertext :: bytes
  lr_hmac :: bytes

datatype known_message =
    DestinyServiceHandshakeRequest opaque_payload
  | DestinyServiceHandshakeResponse opaque_payload
  | SessionLoginRequest opaque_payload
  | SessionLoginResponse u32 direction "login_record option" bytes
  | EncryptedHandshakeRequest opaque_payload
  | EncryptedHandshakeStatus opaque_payload
  | Message0x12E opaque_payload
  | Message0x12F opaque_payload
  | Message0xFA opaque_payload
  | Message0xFB opaque_payload

datatype bap_message = BKnown known_message | BUnknown unknown_message

section \<open>The record of \<open>0x1A\<close>\<close>

definition MIN_RECORD_LEN :: u32 where "MIN_RECORD_LEN = 0x30"

definition validate_lengths :: "login_record \<Rightarrow> codec_error + unit" where
  "validate_lengths r =
     (if lr_record_len r < MIN_RECORD_LEN
      then Inl (InvalidRecordLength (''record_len '' @ show_nat (unat (lr_record_len r)) @ '' < ''
                @ show_nat (unat MIN_RECORD_LEN)))
      else let cipher_len = unat (lr_record_len r) - 0x30 in
        if length (lr_ciphertext r) \<noteq> cipher_len
        then Inl (InvalidFieldLength (''ciphertext len '' @ show_nat (length (lr_ciphertext r))
                  @ '' != record_len-0x30 '' @ show_nat cipher_len))
        else Inr ())"

definition encode_payload :: "login_record \<Rightarrow> codec_error + bytes" where
  "encode_payload r =
     (case validate_lengths r of
        Inl e \<Rightarrow> Inl e
      | Inr _ \<Rightarrow> Inr (u16_to_be_bytes (lr_prefix r) @ u32_to_be_bytes (lr_record_len r)
                      @ lr_iv r @ lr_ciphertext r @ lr_hmac r))"

definition decode_payload :: "bytes \<Rightarrow> codec_error + login_record" where
  "decode_payload payload =
     (if length payload < 6 + unat MIN_RECORD_LEN
      then Inl (InvalidPayloadLength (''0x1A payload len '' @ show_nat (length payload) @ '' too short''))
      else let prefix = u16_from_be_bytes [payload ! 0, payload ! 1];
               record_len = u32_from_be_bytes [payload ! 2, payload ! 3, payload ! 4, payload ! 5]
      in if record_len < MIN_RECORD_LEN
         then Inl (InvalidRecordLength (''record_len '' @ show_nat (unat record_len) @ '' < ''
                   @ show_nat (unat MIN_RECORD_LEN)))
         else let need = 6 + unat record_len in
           if length payload \<noteq> need
           then Inl (InvalidPayloadLength (''payload len '' @ show_nat (length payload)
                     @ '' != 6+record_len '' @ show_nat need))
           else let material = drop 6 payload;
                    cipher_len = unat record_len - 0x30;
                    r = \<lparr>lr_prefix = prefix, lr_record_len = record_len,
                         lr_iv = slice_of 0 16 material,
                         lr_ciphertext = slice_of 16 (16 + cipher_len) material,
                         lr_hmac = slice_of (16 + cipher_len) (16 + cipher_len + 32) material\<rparr>
                in case validate_lengths r of Inl e \<Rightarrow> Inl e | Inr _ \<Rightarrow> Inr r)"

section \<open>Messages\<close>

fun opaque_of :: "known_message \<Rightarrow> opaque_payload option" where
  "opaque_of (DestinyServiceHandshakeRequest o1) = Some o1"
| "opaque_of (DestinyServiceHandshakeResponse o1) = Some o1"
| "opaque_of (SessionLoginRequest o1) = Some o1"
| "opaque_of (SessionLoginResponse c d r raw) = None"
| "opaque_of (EncryptedHandshakeRequest o1) = Some o1"
| "opaque_of (EncryptedHandshakeStatus o1) = Some o1"
| "opaque_of (Message0x12E o1) = Some o1"
| "opaque_of (Message0x12F o1) = Some o1"
| "opaque_of (Message0xFA o1) = Some o1"
| "opaque_of (Message0xFB o1) = Some o1"

fun known_id :: "known_message \<Rightarrow> u16" where
  "known_id (DestinyServiceHandshakeRequest _) = 0x1E"
| "known_id (DestinyServiceHandshakeResponse _) = 0x1F"
| "known_id (SessionLoginRequest _) = 0x19"
| "known_id (SessionLoginResponse _ _ _ _) = 0x1A"
| "known_id (EncryptedHandshakeRequest _) = 0x79"
| "known_id (EncryptedHandshakeStatus _) = 0x7A"
| "known_id (Message0x12E _) = 0x12E"
| "known_id (Message0x12F _) = 0x12F"
| "known_id (Message0xFA _) = 0xFA"
| "known_id (Message0xFB _) = 0xFB"

fun known_context :: "known_message \<Rightarrow> u32" where
  "known_context (SessionLoginResponse c _ _ _) = c"
| "known_context (DestinyServiceHandshakeRequest o1) = op_context o1"
| "known_context (DestinyServiceHandshakeResponse o1) = op_context o1"
| "known_context (SessionLoginRequest o1) = op_context o1"
| "known_context (EncryptedHandshakeRequest o1) = op_context o1"
| "known_context (EncryptedHandshakeStatus o1) = op_context o1"
| "known_context (Message0x12E o1) = op_context o1"
| "known_context (Message0x12F o1) = op_context o1"
| "known_context (Message0xFA o1) = op_context o1"
| "known_context (Message0xFB o1) = op_context o1"

fun known_direction :: "known_message \<Rightarrow> direction" where
  "known_direction (SessionLoginResponse _ d _ _) = d"
| "known_direction (DestinyServiceHandshakeRequest o1) = op_direction o1"
| "known_direction (DestinyServiceHandshakeResponse o1) = op_direction o1"
| "known_direction (SessionLoginRequest o1) = op_direction o1"
| "known_direction (EncryptedHandshakeRequest o1) = op_direction o1"
| "known_direction (EncryptedHandshakeStatus o1) = op_direction o1"
| "known_direction (Message0x12E o1) = op_direction o1"
| "known_direction (Message0x12F o1) = op_direction o1"
| "known_direction (Message0xFA o1) = op_direction o1"
| "known_direction (Message0xFB o1) = op_direction o1"

definition external_name :: "known_message \<Rightarrow> string option" where
  "external_name k = lookup_name (known_id k)"

fun msg_id :: "bap_message \<Rightarrow> u16" where
  "msg_id (BKnown k) = known_id k"
| "msg_id (BUnknown u) = um_id u"

fun msg_context :: "bap_message \<Rightarrow> u32" where
  "msg_context (BKnown k) = known_context k"
| "msg_context (BUnknown u) = um_context u"

fun msg_direction :: "bap_message \<Rightarrow> direction" where
  "msg_direction (BKnown k) = known_direction k"
| "msg_direction (BUnknown u) = um_direction u"

fun msg_is_known :: "bap_message \<Rightarrow> bool" where
  "msg_is_known (BKnown k) = True"
| "msg_is_known (BUnknown u) = False"

definition CODEC_KNOWN_IDS :: "u16 list" where
  "CODEC_KNOWN_IDS = [0x1E, 0x1F, 0x19, 0x1A, 0x79, 0x7A, 0x12E, 0x12F, 0xFA, 0xFB]"

definition has_known_codec :: "u16 \<Rightarrow> bool" where
  "has_known_codec i \<longleftrightarrow> i \<in> set CODEC_KNOWN_IDS"

definition opaque_payload_of :: "bap_envelope \<Rightarrow> opaque_payload" where
  "opaque_payload_of env =
     \<lparr>op_context = en_context env, op_direction = en_direction env, op_payload = en_payload env\<rparr>"

definition decode_message :: "bap_envelope \<Rightarrow> codec_error + bap_message" where
  "decode_message env =
     (let i = en_id env; o1 = opaque_payload_of env in
      if i = 0x1E then Inr (BKnown (DestinyServiceHandshakeRequest o1))
      else if i = 0x1F then Inr (BKnown (DestinyServiceHandshakeResponse o1))
      else if i = 0x19 then Inr (BKnown (SessionLoginRequest o1))
      else if i = 0x1A then
        Inr (BKnown (SessionLoginResponse (en_context env) (en_direction env)
               (case decode_payload (en_payload env) of Inl _ \<Rightarrow> None | Inr r \<Rightarrow> Some r)
               (en_payload env)))
      else if i = 0x79 then Inr (BKnown (EncryptedHandshakeRequest o1))
      else if i = 0x7A then Inr (BKnown (EncryptedHandshakeStatus o1))
      else if i = 0x12E then Inr (BKnown (Message0x12E o1))
      else if i = 0x12F then Inr (BKnown (Message0x12F o1))
      else if i = 0xFA then Inr (BKnown (Message0xFA o1))
      else if i = 0xFB then Inr (BKnown (Message0xFB o1))
      else Inr (BUnknown \<lparr>um_id = i, um_context = en_context env,
                          um_direction = en_direction env, um_payload = en_payload env\<rparr>))"

fun encode_known :: "known_message \<Rightarrow> codec_error + bytes" where
  "encode_known (DestinyServiceHandshakeRequest o1) = Inr (op_payload o1)"
| "encode_known (DestinyServiceHandshakeResponse o1) = Inr (op_payload o1)"
| "encode_known (SessionLoginRequest o1) = Inr (op_payload o1)"
| "encode_known (EncryptedHandshakeRequest o1) = Inr (op_payload o1)"
| "encode_known (EncryptedHandshakeStatus o1) = Inr (op_payload o1)"
| "encode_known (Message0x12E o1) = Inr (op_payload o1)"
| "encode_known (Message0x12F o1) = Inr (op_payload o1)"
| "encode_known (Message0xFA o1) = Inr (op_payload o1)"
| "encode_known (Message0xFB o1) = Inr (op_payload o1)"
| "encode_known (SessionLoginResponse c d rec raw) =
     (case rec of Some r \<Rightarrow> encode_payload r | None \<Rightarrow> Inr raw)"

fun encode_message :: "bap_message \<Rightarrow> codec_error + bytes" where
  "encode_message (BUnknown u) = Inr (um_payload u)"
| "encode_message (BKnown k) = encode_known k"

definition envelope :: "u16 \<Rightarrow> u32 \<Rightarrow> direction \<Rightarrow> bytes \<Rightarrow> bap_envelope" where
  "envelope i context direction payload =
     \<lparr>en_id = i, en_context = context, en_direction = direction, en_payload = payload\<rparr>"

fun decode_from_frame :: "decoded_frame \<Rightarrow> direction \<Rightarrow> codec_error + bap_message" where
  "decode_from_frame (DClear m c p) direction =
     decode_message \<lparr>en_id = m, en_context = c, en_direction = direction, en_payload = p\<rparr>"
| "decode_from_frame (DDecrypted mo co p n) direction =
     (case mo of
        None \<Rightarrow> Inl (MalformedMessage ''decrypted plaintext missing msg_id'')
      | Some i \<Rightarrow>
          (case co of
             None \<Rightarrow> Inl (MalformedMessage ''decrypted plaintext missing context'')
           | Some ctx \<Rightarrow>
               decode_message \<lparr>en_id = i, en_context = ctx, en_direction = direction, en_payload = p\<rparr>))"
| "decode_from_frame (DOpaque kind n) direction =
     Inl (MalformedMessage (''opaque frame kind=0x'' @ show_hex_u8 kind @ '' has no logical message''))"

definition validate_session_login_response_payload :: "bytes \<Rightarrow> codec_error + login_record" where
  "validate_session_login_response_payload payload = decode_payload payload"

definition roundtrip_ok :: "bap_message \<Rightarrow> codec_error + bool" where
  "roundtrip_ok message =
     (case encode_message message of
        Inl e \<Rightarrow> Inl e
      | Inr encoded \<Rightarrow>
     (case decode_message \<lparr>en_id = msg_id message, en_context = msg_context message,
             en_direction = msg_direction message, en_payload = encoded\<rparr> of
        Inl e \<Rightarrow> Inl e
      | Inr again \<Rightarrow>
     (case encode_message again of
        Inl e \<Rightarrow> Inl e
      | Inr a \<Rightarrow>
     (case encode_message message of
        Inl e \<Rightarrow> Inl e
      | Inr b \<Rightarrow> Inr (a = b)))))"

record safe_codec_meta =
  cm_id :: string
  cm_known_codec :: bool
  cm_matrix_name :: "string option"
  cm_matrix_class :: string

definition safe_codec_meta_of :: "u16 \<Rightarrow> safe_codec_meta" where
  "safe_codec_meta_of i =
     \<lparr>cm_id = hex_id i, cm_known_codec = has_known_codec i,
      cm_matrix_name = class_name (classify i),
      cm_matrix_class = (if class_is_known (classify i) then ''EXTERNAL_REFERENCE'' else ''UNKNOWN'')\<rparr>"

section \<open>The record codec is exact\<close>

text \<open>What the types guarantee (array fields) and what \<open>validate_lengths\<close> asks for.\<close>

definition login_record_wf :: "login_record \<Rightarrow> bool" where
  "login_record_wf r \<longleftrightarrow> length (lr_iv r) = 16 \<and> length (lr_hmac r) = 32
     \<and> 0x30 \<le> unat (lr_record_len r) \<and> length (lr_ciphertext r) + 0x30 = unat (lr_record_len r)"

lemma validate_lengths_ok:
  "validate_lengths r = Inr () \<longleftrightarrow>
     0x30 \<le> unat (lr_record_len r) \<and> length (lr_ciphertext r) + 0x30 = unat (lr_record_len r)"
  by (auto simp: validate_lengths_def MIN_RECORD_LEN_def word_less_nat_alt Let_def)

lemma encode_payload_wf:
  "login_record_wf r \<Longrightarrow> encode_payload r = Inr (u16_to_be_bytes (lr_prefix r)
     @ u32_to_be_bytes (lr_record_len r) @ lr_iv r @ lr_ciphertext r @ lr_hmac r)"
  using validate_lengths_ok [of r] by (simp add: encode_payload_def login_record_wf_def)

lemma six_bytes:
  assumes "6 \<le> length (p :: bytes)"
  shows "[p ! 0, p ! 1] = take 2 p" "[p ! 2, p ! 3, p ! 4, p ! 5] = slice_of 2 6 p"
proof -
  obtain a b c d e f q where "p = a # b # c # d # e # f # q"
    using six_elements [OF assms] by blast
  then show "[p ! 0, p ! 1] = take 2 p" "[p ! 2, p ! 3, p ! 4, p ! 5] = slice_of 2 6 p"
    by (simp_all add: slice_of_def)
qed

lemma decode_payload_eq:
  "decode_payload p = Inr r \<longleftrightarrow>
     (54 \<le> length p \<and> length p = 6 + unat (u32_from_be_bytes (slice_of 2 6 p))
      \<and> r = \<lparr>lr_prefix = u16_from_be_bytes (take 2 p), lr_record_len = u32_from_be_bytes (slice_of 2 6 p),
             lr_iv = slice_of 6 22 p, lr_ciphertext = slice_of 22 (length p - 32) p,
             lr_hmac = drop (length p - 32) p\<rparr>)"
proof -
  let ?n = "u32_from_be_bytes (slice_of 2 6 p)"
  let ?r = "\<lparr>lr_prefix = u16_from_be_bytes (take 2 p), lr_record_len = ?n,
             lr_iv = slice_of 6 22 p, lr_ciphertext = slice_of 22 (length p - 32) p,
             lr_hmac = drop (length p - 32) p\<rparr>"
  show ?thesis
  proof (cases "54 \<le> length p \<and> length p = 6 + unat ?n")
    case True
    then have six: "6 \<le> length p" and n: "48 \<le> unat ?n" by linarith+
    define k where "k = unat ?n - 48"
    have uk: "unat ?n = k + 48" using n by (simp add: k_def)
    then have len: "length p = k + 54" using True by linarith
    have ge: "\<not> ?n < MIN_RECORD_LEN"
      using n by (simp add: MIN_RECORD_LEN_def word_less_nat_alt)
    have v: "validate_lengths ?r = Inr ()"
      unfolding validate_lengths_ok using uk len by simp
    have fields: "slice_of 0 16 (drop 6 p) = slice_of 6 22 p"
      "slice_of 16 (16 + k) (drop 6 p) = slice_of 22 (length p - 32) p"
      "slice_of (16 + k) (16 + k + 32) (drop 6 p) = drop (length p - 32) p"
      using len by (simp_all add: slice_of_def add.commute)
    have "decode_payload p = Inr ?r"
      unfolding decode_payload_def Let_def six_bytes [OF six] uk add_diff_cancel_right' fields v
      using len ge by (simp add: MIN_RECORD_LEN_def)
    with True show ?thesis by auto
  next
    case False
    then have "\<not> is_ok (decode_payload p)"
      using six_bytes [of p]
      by (auto simp: decode_payload_def Let_def MIN_RECORD_LEN_def)
    with False show ?thesis by auto
  qed
qed

lemma split_record:
  assumes "54 \<le> length (p :: bytes)"
  shows "p = take 2 p @ slice_of 2 6 p @ slice_of 6 22 p @ slice_of 22 (length p - 32) p @ drop (length p - 32) p"
proof -
  have "slice_of 22 (length p - 32) p @ drop (length p - 32) p = drop 22 p"
    using assms by (intro slice_of_append_drop) simp_all
  moreover have "slice_of 6 22 p @ drop 22 p = drop 6 p" "slice_of 2 6 p @ drop 6 p = drop 2 p"
    using assms by (intro slice_of_append_drop; simp)+
  ultimately show ?thesis by simp
qed

lemma decode_payload_encode:
  assumes "decode_payload p = Inr r"
  shows "login_record_wf r \<and> encode_payload r = Inr p"
proof -
  let ?n = "u32_from_be_bytes (slice_of 2 6 p)"
  from assms have len: "54 \<le> length p" "length p = 6 + unat ?n"
    and r: "r = \<lparr>lr_prefix = u16_from_be_bytes (take 2 p), lr_record_len = ?n,
             lr_iv = slice_of 6 22 p, lr_ciphertext = slice_of 22 (length p - 32) p,
             lr_hmac = drop (length p - 32) p\<rparr>"
    by (auto simp: decode_payload_eq)
  have wf: "login_record_wf r"
    using len(1) len(2) by (simp add: login_record_wf_def r)
  have "u16_to_be_bytes (lr_prefix r) = take 2 p" "u32_to_be_bytes (lr_record_len r) = slice_of 2 6 p"
    using len(1) by (simp_all add: r u16_to_from_be u32_to_from_be)
  then have "encode_payload r = Inr p"
    using encode_payload_wf [OF wf] split_record [OF len(1)] by (simp add: r)
  with wf show ?thesis by simp
qed

lemma encode_payload_decode:
  assumes "login_record_wf r"
  shows "\<exists>p. encode_payload r = Inr p \<and> decode_payload p = Inr r"
proof -
  let ?p = "u16_to_be_bytes (lr_prefix r) @ u32_to_be_bytes (lr_record_len r)
     @ lr_iv r @ lr_ciphertext r @ lr_hmac r"
  have len: "length (lr_iv r) = 16" "length (lr_hmac r) = 32"
      "unat (lr_record_len r) = length (lr_ciphertext r) + 48"
    using assms by (auto simp: login_record_wf_def)
  then have L: "length ?p = length (lr_ciphertext r) + 54" by simp
  have s: "slice_of 2 6 ?p = u32_to_be_bytes (lr_record_len r)" "take 2 ?p = u16_to_be_bytes (lr_prefix r)"
    "slice_of 6 22 ?p = lr_iv r" "slice_of 22 (length ?p - 32) ?p = lr_ciphertext r"
    "drop (length ?p - 32) ?p = lr_hmac r"
    unfolding L using len by (simp_all add: slice_of_def)
  have "decode_payload ?p = Inr r"
    unfolding decode_payload_eq s u32_from_to_be u16_from_to_be using len(3) L by simp
  then show ?thesis using encode_payload_wf [OF assms] by simp
qed

interpretation login_codec: exact_codec encode_payload decode_payload login_record_wf
  by unfold_locales (simp_all add: encode_payload_decode decode_payload_encode)

section \<open>Messages are lossless\<close>

lemma decode_message_fields:
  "\<exists>m. decode_message env = Inr m \<and> msg_id m = en_id env \<and> msg_context m = en_context env
     \<and> msg_direction m = en_direction env \<and> encode_message m = Inr (en_payload env)
     \<and> (msg_is_known m \<longleftrightarrow> has_known_codec (en_id env))"
proof (cases "has_known_codec (en_id env)")
  case False
  then show ?thesis
    by (simp add: decode_message_def Let_def has_known_codec_def CODEC_KNOWN_IDS_def)
next
  case True
  then have "en_id env \<in> set CODEC_KNOWN_IDS" by (simp add: has_known_codec_def)
  with True show ?thesis
    unfolding CODEC_KNOWN_IDS_def
    by (auto simp: decode_message_def Let_def opaque_payload_of_def
        split: sum.split dest: decode_payload_encode)
qed

section \<open>Properties\<close>

text \<open>
  C18. Decoding a logical message never fails and loses nothing: for every id, context,
  direction and payload, well-formed or not, \<open>decode_message\<close> returns a message with that
  id, context and direction, known exactly when the id has a codec, and \<open>encode_message\<close> gives
  back the payload byte for byte, so \<open>roundtrip_ok\<close> answers \<open>true\<close>.
\<close>

theorem codec_lossless:
  "\<exists>m. decode_message (envelope i c d payload) = Inr m \<and> msg_id m = i \<and> msg_context m = c
     \<and> msg_direction m = d \<and> (msg_is_known m \<longleftrightarrow> has_known_codec i)
     \<and> encode_message m = Inr payload \<and> roundtrip_ok m = Inr True"
proof -
  let ?e = "envelope i c d payload"
  obtain m where m: "decode_message ?e = Inr m" "msg_id m = i" "msg_context m = c"
      "msg_direction m = d" "encode_message m = Inr payload" "msg_is_known m \<longleftrightarrow> has_known_codec i"
    using decode_message_fields [of ?e] by (auto simp: envelope_def)
  then have "roundtrip_ok m = Inr True"
    by (simp add: roundtrip_ok_def envelope_def)
  with m show ?thesis by blast
qed

text \<open>
  The \<open>0x1A\<close> record codec is exact: a payload decodes to a record if and only if the
  record has a 16-byte IV, a 32-byte HMAC and the declared ciphertext length, and encodes to
  that very payload; so no payload with trailing or missing bytes is ever structured.
\<close>

lemma login_record_exact:
  "decode_payload p = Inr r \<longleftrightarrow> login_record_wf r \<and> encode_payload r = Inr p"
  by (rule login_codec.decoded_iff)

end
