(* ===== verification/Message_Registry.thy ===== *)
theory Message_Registry
  imports Message_Codec
begin

text \<open>
  \<open>network/src/message_registry.rs\<close>: what the crate knows of each message id, and the list
  of the 28 expected ids (\<open>protocol_spec.rs\<close>). The registry is validated by evaluation.
\<close>

section \<open>Data\<close>

definition EXPECTED_MESSAGE_IDS :: "u16 list" where
  "EXPECTED_MESSAGE_IDS =
     [0x0A, 0x0B, 0x0C, 0x0D, 0x10, 0x11, 0x12, 0x13, 0x15, 0x16, 0x17, 0x18, 0x19, 0x1A, 0x1E,
      0x1F, 0x20, 0x21, 0x2A, 0x2B, 0x79, 0x7A, 0x7B, 0xAB, 0xFA, 0xFB, 0x12E, 0x12F]"

datatype codec_status = ConfirmedStructure | OpaqueKnown | StatusUnknown

fun codec_status_str :: "codec_status \<Rightarrow> string" where
  "codec_status_str ConfirmedStructure = ''CONFIRMED_STRUCTURE''"
| "codec_status_str OpaqueKnown = ''OPAQUE_KNOWN''"
| "codec_status_str StatusUnknown = ''UNKNOWN''"

record registry_entry =
  re_id :: u16
  re_id_hex :: string
  re_direction :: string
  re_name :: "string option"
  re_codec :: string
  re_status :: string
  re_length_constraints :: string
  re_name_source :: string

record safe_registry_entry =
  sr_id :: string
  sr_direction :: string
  sr_known :: bool
  sr_codec :: string
  sr_length_constraints :: string
  sr_status :: string
  sr_name :: "string option"
  sr_name_source :: string

record safe_registry_export =
  sx_version :: string
  sx_message_count :: nat
  sx_entries :: "safe_registry_entry list"

section \<open>Operations\<close>

definition typical_direction :: "u16 \<Rightarrow> string" where
  "typical_direction i =
     (if i \<in> set [0x1E, 0x19, 0x79, 0x12E, 0xFA, 0x0A, 0x0C, 0x12, 0x15, 0x17, 0x20, 0x7B,
                  0xAB, 0x10, 0x2A] then ''C2S''
      else if i \<in> set [0x1F, 0x1A, 0x7A, 0x12F, 0xFB, 0x0B, 0x0D, 0x13, 0x16, 0x18, 0x21, 0x11,
                  0x2B] then ''S2C''
      else ''UNKNOWN'')"

definition codec_name :: "u16 \<Rightarrow> string" where
  "codec_name i =
     (if i = 0x1E then ''DestinyServiceHandshakeRequest''
      else if i = 0x1F then ''DestinyServiceHandshakeResponse''
      else if i = 0x19 then ''SessionLoginRequest''
      else if i = 0x1A then ''SessionLoginResponse''
      else if i = 0x79 then ''EncryptedHandshakeRequest''
      else if i = 0x7A then ''EncryptedHandshakeStatus''
      else if i = 0x12E then ''Message0x12E''
      else if i = 0x12F then ''Message0x12F''
      else if i = 0xFA then ''Message0xFA''
      else if i = 0xFB then ''Message0xFB''
      else ''Unknown'')"

definition status_for :: "u16 \<Rightarrow> codec_status" where
  "status_for i =
     (if i = 0x1A then ConfirmedStructure
      else if has_known_codec i then OpaqueKnown else StatusUnknown)"

definition length_constraints :: "u16 \<Rightarrow> string" where
  "length_constraints i =
     (if i = 0x1A then ''payload_len == 6 + record_len; record_len >= 0x30; IV=16; HMAC=32''
      else if has_known_codec i then ''opaque payload (any length including empty)''
      else ''unknown / preserve raw'')"

definition registry_entry_of :: "u16 \<Rightarrow> registry_entry" where
  "registry_entry_of i =
     \<lparr>re_id = i, re_id_hex = hex_id i, re_direction = typical_direction i, re_name = lookup_name i,
      re_codec = codec_name i, re_status = codec_status_str (status_for i),
      re_length_constraints = length_constraints i,
      re_name_source = (if lookup_name i \<noteq> None then ''EXTERNAL_REFERENCE'' else ''NONE'')\<rparr>"

definition full_registry :: "registry_entry list" where
  "full_registry = map registry_entry_of EXPECTED_MESSAGE_IDS"

definition validate_registry :: "string + unit" where
  "validate_registry =
     (let ids = EXPECTED_MESSAGE_IDS in
      if length ids \<noteq> 28 then Inl (''expected 28 IDs, got '' @ show_nat (length ids))
      else if card (set ids) \<noteq> length ids then Inl ''duplicate IDs in EXPECTED_MESSAGE_IDS''
      else case List.find (\<lambda>i. i \<notin> set ids \<and> i \<noteq> 0x12D \<and> i \<notin> set ids) CODEC_KNOWN_IDS of
          Some i \<Rightarrow> Inl (''codec id '' @ hex_id i @ '' missing from expected set'')
        | None \<Rightarrow>
            (case List.find (\<lambda>i. let e = registry_entry_of i in
                 re_direction e \<noteq> ''C2S'' \<and> re_direction e \<noteq> ''S2C'' \<and> re_direction e \<noteq> ''UNKNOWN'') ids of
               Some i \<Rightarrow> Inl (''bad direction for '' @ hex_id i)
             | None \<Rightarrow> Inr ()))"

definition to_safe_export :: safe_registry_export where
  "to_safe_export =
     (let entries = map (\<lambda>e. \<lparr>sr_id = re_id_hex e, sr_direction = re_direction e,
            sr_known = (re_status e \<noteq> codec_status_str StatusUnknown), sr_codec = re_codec e,
            sr_length_constraints = re_length_constraints e, sr_status = re_status e,
            sr_name = re_name e, sr_name_source = re_name_source e\<rparr>) full_registry
      in \<lparr>sx_version = ''0.1'', sx_message_count = length entries, sx_entries = entries\<rparr>)"

definition typical_wire_direction :: "u16 \<Rightarrow> direction option" where
  "typical_wire_direction i =
     (if typical_direction i = ''C2S'' then Some DirClientToServer
      else if typical_direction i = ''S2C'' then Some DirServerToClient else None)"

section \<open>Properties\<close>

lemma codec_name_known: "codec_name i = ''Unknown'' \<longleftrightarrow> \<not> has_known_codec i"
  by (simp add: codec_name_def has_known_codec_def CODEC_KNOWN_IDS_def)

lemma status_known: "status_for i = StatusUnknown \<longleftrightarrow> \<not> has_known_codec i"
  by (simp add: status_for_def has_known_codec_def CODEC_KNOWN_IDS_def)

lemma expected_distinct: "distinct EXPECTED_MESSAGE_IDS"
  by (simp add: EXPECTED_MESSAGE_IDS_def)

lemma expected_length: "length EXPECTED_MESSAGE_IDS = 28"
  by (simp add: EXPECTED_MESSAGE_IDS_def)

lemma codec_ids_expected: "set CODEC_KNOWN_IDS \<subseteq> set EXPECTED_MESSAGE_IDS"
  by (simp add: CODEC_KNOWN_IDS_def EXPECTED_MESSAGE_IDS_def)

lemma typical_direction_values:
  "typical_direction i = ''C2S'' \<or> typical_direction i = ''S2C'' \<or> typical_direction i = ''UNKNOWN''"
  unfolding typical_direction_def by presburger

lemma validate_registry_ok: "validate_registry = Inr ()"
proof -
  have "List.find (\<lambda>i. i \<notin> set EXPECTED_MESSAGE_IDS \<and> i \<noteq> 0x12D \<and> i \<notin> set EXPECTED_MESSAGE_IDS) CODEC_KNOWN_IDS = None"
    using codec_ids_expected by (auto simp: find_None_iff)
  moreover have "List.find (\<lambda>i. let e = registry_entry_of i in
      re_direction e \<noteq> ''C2S'' \<and> re_direction e \<noteq> ''S2C'' \<and> re_direction e \<noteq> ''UNKNOWN'') EXPECTED_MESSAGE_IDS = None"
    using typical_direction_values by (simp add: find_None_iff Let_def registry_entry_of_def)
  ultimately show ?thesis
    by (simp add: validate_registry_def Let_def expected_length distinct_card [OF expected_distinct])
qed

text \<open>
  The registry is consistent: \<open>validate_registry\<close> accepts, the export has the 28 ids
  without repetition, and for every id the codec name, the status and the codec's decoder
  agree on whether the id is known.
\<close>

lemma registry_consistent:
  "validate_registry = Inr () \<and> sx_message_count to_safe_export = 28
   \<and> distinct (map re_id full_registry)
   \<and> (codec_name i = ''Unknown'' \<longleftrightarrow> re_status (registry_entry_of i) = ''UNKNOWN'')
   \<and> (re_status (registry_entry_of i) = ''UNKNOWN'' \<longleftrightarrow>
        (\<exists>u. decode_message (envelope i c d p) = Inr (BUnknown u)))"
proof -
  have s: "codec_status_str x = ''UNKNOWN'' \<longleftrightarrow> x = StatusUnknown" for x
    by (cases x) simp_all
  obtain m where m: "decode_message (envelope i c d p) = Inr m" "msg_is_known m \<longleftrightarrow> has_known_codec i"
    using decode_message_fields [of "envelope i c d p"] by (auto simp: envelope_def)
  have "(\<exists>u. decode_message (envelope i c d p) = Inr (BUnknown u)) \<longleftrightarrow> \<not> has_known_codec i"
    using m by (cases m) auto
  moreover have "re_status (registry_entry_of i) = ''UNKNOWN'' \<longleftrightarrow> \<not> has_known_codec i"
    unfolding registry_entry_of_def registry_entry.simps s status_known by simp
  moreover have "distinct (map re_id full_registry)" "sx_message_count to_safe_export = 28"
    using expected_distinct expected_length
    by (simp_all add: full_registry_def registry_entry_of_def comp_def to_safe_export_def Let_def)
  ultimately show ?thesis
    using validate_registry_ok codec_name_known [of i] by simp
qed

end
