(* ===== verification/Protocol_State.thy ===== *)
theory Protocol_State
  imports Message_Codec Interfaces
begin

text \<open>
  \<open>network/src/protocol_state.rs\<close>: the states of the local server and the only function that
  advances them on a message, with the four functions the server calls itself. The theory
  composes them into one machine, interprets the staged-machine contract on it, and shows
  that the encrypted channel is only reached through the three client messages in order.
\<close>

section \<open>Data\<close>

datatype protocol_state =
    Connected
  | WaitingForServiceHandshake
  | ServiceHandshakeComplete
  | WaitingForSessionLogin
  | SessionEstablished
  | WaitingForEncryptedHandshake
  | EncryptedChannelEstablished
  | Active
  | Closing
  | Closed

fun protocol_state_str :: "protocol_state \<Rightarrow> string" where
  "protocol_state_str Connected = ''CONNECTED''"
| "protocol_state_str WaitingForServiceHandshake = ''WAITING_FOR_SERVICE_HANDSHAKE''"
| "protocol_state_str ServiceHandshakeComplete = ''SERVICE_HANDSHAKE_COMPLETE''"
| "protocol_state_str WaitingForSessionLogin = ''WAITING_FOR_SESSION_LOGIN''"
| "protocol_state_str SessionEstablished = ''SESSION_ESTABLISHED''"
| "protocol_state_str WaitingForEncryptedHandshake = ''WAITING_FOR_ENCRYPTED_HANDSHAKE''"
| "protocol_state_str EncryptedChannelEstablished = ''ENCRYPTED_CHANNEL_ESTABLISHED''"
| "protocol_state_str Active = ''ACTIVE''"
| "protocol_state_str Closing = ''CLOSING''"
| "protocol_state_str Closed = ''CLOSED''"

definition state_is_terminal :: "protocol_state \<Rightarrow> bool" where
  "state_is_terminal s \<longleftrightarrow> s = Closed"

definition crypto_expected :: "protocol_state \<Rightarrow> bool" where
  "crypto_expected s \<longleftrightarrow>
     s = WaitingForEncryptedHandshake \<or> s = EncryptedChannelEstablished \<or> s = Active"

definition protocol_state_default :: protocol_state where
  "protocol_state_default = Connected"

datatype protocol_state_error =
    UnexpectedMessage u16
  | InvalidDirection u16
  | InvalidState string
  | InvalidMessage string
  | CryptoNotEstablished
  | HandshakeIncomplete
  | AlreadyClosed
  | InvalidTransition string

fun show_protocol_state_error :: "protocol_state_error \<Rightarrow> string" where
  "show_protocol_state_error (UnexpectedMessage i) = ''unexpected message '' @ hex_id i"
| "show_protocol_state_error (InvalidDirection i) = ''invalid direction for message '' @ hex_id i"
| "show_protocol_state_error (InvalidState s) = ''invalid state '' @ s"
| "show_protocol_state_error (InvalidMessage s) = ''invalid message: '' @ s"
| "show_protocol_state_error CryptoNotEstablished = ''crypto not established''"
| "show_protocol_state_error HandshakeIncomplete = ''handshake incomplete''"
| "show_protocol_state_error AlreadyClosed = ''already closed''"
| "show_protocol_state_error (InvalidTransition s) = ''invalid transition: '' @ s"

datatype transition_result =
    Advanced protocol_state protocol_state
  | Observed protocol_state
  | Rejected protocol_state_error

fun result_is_rejected :: "transition_result \<Rightarrow> bool" where
  "result_is_rejected (Advanced a b) = False"
| "result_is_rejected (Observed s) = False"
| "result_is_rejected (Rejected e) = True"

fun result_event_label :: "transition_result \<Rightarrow> string" where
  "result_event_label (Advanced a b) = ''StateTransition''"
| "result_event_label (Observed s) = ''MessageObserved''"
| "result_event_label (Rejected e) = ''MessageRejected''"

section \<open>Operations\<close>

definition expected_c2s :: "u16 \<Rightarrow> bool" where
  "expected_c2s i \<longleftrightarrow> i \<in> set [0x1E, 0x19, 0x79, 0x12E, 0xFA, 0x0A, 0x0C]"

definition expected_s2c :: "u16 \<Rightarrow> bool" where
  "expected_s2c i \<longleftrightarrow> i \<in> set [0x1F, 0x1A, 0x7A, 0x12F, 0xFB, 0x0B, 0x0D]"

definition is_sequenced_id :: "u16 \<Rightarrow> bool" where
  "is_sequenced_id i \<longleftrightarrow> i \<in> set [0x1E, 0x1F, 0x19, 0x1A, 0x79, 0x7A, 0x12E, 0x12F, 0xFA, 0xFB]"

definition transition :: "protocol_state \<Rightarrow> bap_message \<Rightarrow> transition_result" where
  "transition state message =
     (if state = Closed then Rejected AlreadyClosed
      else if state = Closing then Rejected AlreadyClosed
      else let i = msg_id message; dir = msg_direction message in
      if expected_c2s i \<and> dir \<noteq> DirClientToServer then Rejected (InvalidDirection i)
      else if expected_s2c i \<and> dir \<noteq> DirServerToClient then Rejected (InvalidDirection i)
      else (case state of
          Connected \<Rightarrow> Rejected (InvalidState ''use begin_waiting_for_handshake first'')
        | WaitingForServiceHandshake \<Rightarrow>
            if i = 0x1E then Advanced state ServiceHandshakeComplete
            else if is_sequenced_id i then Rejected (UnexpectedMessage i)
            else Observed state
        | ServiceHandshakeComplete \<Rightarrow>
            if i = 0x19 then Advanced state SessionEstablished
            else if is_sequenced_id i then Rejected (UnexpectedMessage i)
            else Observed state
        | WaitingForSessionLogin \<Rightarrow>
            if i = 0x19 then Advanced state SessionEstablished
            else if is_sequenced_id i then Rejected (UnexpectedMessage i)
            else Observed state
        | SessionEstablished \<Rightarrow>
            if i = 0x79 then Advanced state WaitingForEncryptedHandshake
            else if is_sequenced_id i then Rejected (UnexpectedMessage i)
            else Observed state
        | WaitingForEncryptedHandshake \<Rightarrow>
            if i = 0x7A then Rejected (UnexpectedMessage 0x7A)
            else if is_sequenced_id i then Rejected (UnexpectedMessage i)
            else Observed state
        | EncryptedChannelEstablished \<Rightarrow>
            if i \<in> set [0x12E, 0x12F, 0xFA, 0xFB, 0x0A, 0x0B, 0x0C, 0x0D] then Advanced state Active
            else Observed Active
        | Active \<Rightarrow>
            if i \<in> set [0x12E, 0x12F, 0xFA, 0xFB, 0x0A, 0x0B, 0x0C, 0x0D] then Observed state
            else Observed Active
        | _ \<Rightarrow> Rejected (UnexpectedMessage i)))"

fun begin_waiting_for_handshake :: "protocol_state \<Rightarrow> protocol_state_error + protocol_state" where
  "begin_waiting_for_handshake Connected = Inr WaitingForServiceHandshake"
| "begin_waiting_for_handshake WaitingForServiceHandshake = Inr WaitingForServiceHandshake"
| "begin_waiting_for_handshake Closed = Inl AlreadyClosed"
| "begin_waiting_for_handshake Closing = Inl AlreadyClosed"
| "begin_waiting_for_handshake _ = Inl (InvalidTransition ''handshake already started'')"

fun complete_encrypted_handshake :: "protocol_state \<Rightarrow> protocol_state_error + protocol_state" where
  "complete_encrypted_handshake WaitingForEncryptedHandshake = Inr EncryptedChannelEstablished"
| "complete_encrypted_handshake EncryptedChannelEstablished = Inr EncryptedChannelEstablished"
| "complete_encrypted_handshake Active = Inr Active"
| "complete_encrypted_handshake _ = Inl HandshakeIncomplete"

definition begin_closing :: "protocol_state \<Rightarrow> protocol_state" where
  "begin_closing state = (if state = Closed then Closed else Closing)"

definition close_state :: "protocol_state \<Rightarrow> protocol_state" where
  "close_state state = Closed"

fun apply_transition :: "protocol_state \<Rightarrow> transition_result \<Rightarrow> protocol_state_error + protocol_state" where
  "apply_transition state (Advanced from to) = Inr to"
| "apply_transition state (Observed s) = Inr s"
| "apply_transition state (Rejected reason) = Inl reason"

section \<open>The machine\<close>

text \<open>Every call that can change the state; an error leaves it as it is.\<close>

datatype proto_action = PBegin | PMessage bap_message | PComplete | PBeginClose | PClose

fun proto_step :: "protocol_state \<Rightarrow> proto_action \<Rightarrow> protocol_state" where
  "proto_step s PBegin = (case begin_waiting_for_handshake s of Inl _ \<Rightarrow> s | Inr t \<Rightarrow> t)"
| "proto_step s (PMessage m) = (case apply_transition s (transition s m) of Inl _ \<Rightarrow> s | Inr t \<Rightarrow> t)"
| "proto_step s PComplete = (case complete_encrypted_handshake s of Inl _ \<Rightarrow> s | Inr t \<Rightarrow> t)"
| "proto_step s PBeginClose = begin_closing s"
| "proto_step s PClose = close_state s"

fun proto_stage :: "protocol_state \<Rightarrow> nat" where
  "proto_stage Connected = 0"
| "proto_stage WaitingForServiceHandshake = 1"
| "proto_stage ServiceHandshakeComplete = 2"
| "proto_stage WaitingForSessionLogin = 2"
| "proto_stage SessionEstablished = 3"
| "proto_stage WaitingForEncryptedHandshake = 4"
| "proto_stage EncryptedChannelEstablished = 5"
| "proto_stage Active = 6"
| "proto_stage Closing = 7"
| "proto_stage Closed = 8"

definition proto_ended :: "protocol_state \<Rightarrow> bool" where
  "proto_ended s \<longleftrightarrow> s = Closing \<or> s = Closed"

text \<open>A message is well directed unless its id belongs to the other side.\<close>

definition well_directed :: "bap_message \<Rightarrow> bool" where
  "well_directed m \<longleftrightarrow>
     (expected_c2s (msg_id m) \<longrightarrow> msg_direction m = DirClientToServer)
   \<and> (expected_s2c (msg_id m) \<longrightarrow> msg_direction m = DirServerToClient)"

definition client_message :: "u16 \<Rightarrow> bap_message \<Rightarrow> bool" where
  "client_message i m \<longleftrightarrow> msg_id m = i \<and> msg_direction m = DirClientToServer"

text \<open>The messages that \<open>transition\<close> lists for the encrypted channel.\<close>

definition TRAFFIC_IDS :: "u16 list" where
  "TRAFFIC_IDS = [0x12E, 0x12F, 0xFA, 0xFB, 0x0A, 0x0B, 0x0C, 0x0D]"

fun unlisted_message :: "proto_action \<Rightarrow> bool" where
  "unlisted_message (PMessage m) = (msg_id m \<notin> set TRAFFIC_IDS)"
| "unlisted_message PBegin = False"
| "unlisted_message PComplete = False"
| "unlisted_message PBeginClose = False"
| "unlisted_message PClose = False"

text \<open>The intended life cycle, as a relation: which action moves which state where.\<close>

inductive lifecycle :: "protocol_state \<Rightarrow> proto_action \<Rightarrow> protocol_state \<Rightarrow> bool" where
  accept: "lifecycle Connected PBegin WaitingForServiceHandshake"
| hello: "client_message 0x1E m \<Longrightarrow>
    lifecycle WaitingForServiceHandshake (PMessage m) ServiceHandshakeComplete"
| login: "client_message 0x19 m \<Longrightarrow> s = ServiceHandshakeComplete \<or> s = WaitingForSessionLogin \<Longrightarrow>
    lifecycle s (PMessage m) SessionEstablished"
| secure: "client_message 0x79 m \<Longrightarrow>
    lifecycle SessionEstablished (PMessage m) WaitingForEncryptedHandshake"
| confirm: "lifecycle WaitingForEncryptedHandshake PComplete EncryptedChannelEstablished"
| traffic: "well_directed m \<Longrightarrow> msg_id m \<in> set TRAFFIC_IDS \<Longrightarrow>
    lifecycle EncryptedChannelEstablished (PMessage m) Active"
| begin_close: "\<not> proto_ended s \<Longrightarrow> lifecycle s PBeginClose Closing"
| finish_close: "s \<noteq> Closed \<Longrightarrow> lifecycle s PClose Closed"

inductive_cases lifecycle_begin: "lifecycle s PBegin t"
inductive_cases lifecycle_message: "lifecycle s (PMessage m) t"
inductive_cases lifecycle_complete: "lifecycle s PComplete t"
inductive_simps lifecycle_simps:
  "lifecycle s PBegin t" "lifecycle s (PMessage m) t" "lifecycle s PComplete t"
  "lifecycle s PBeginClose t" "lifecycle s PClose t"

fun_cases complete_okE: "complete_encrypted_handshake s = Inr t"

lemma msg_step_cases:
  "proto_step s (PMessage m) =
     (if s = WaitingForServiceHandshake \<and> client_message 0x1E m then ServiceHandshakeComplete
      else if (s = ServiceHandshakeComplete \<or> s = WaitingForSessionLogin) \<and> client_message 0x19 m
        then SessionEstablished
      else if s = SessionEstablished \<and> client_message 0x79 m then WaitingForEncryptedHandshake
      else if s = EncryptedChannelEstablished \<and> well_directed m then Active
      else s)"
  by (cases s)
     (simp_all add: transition_def Let_def client_message_def well_directed_def expected_c2s_def
        expected_s2c_def)

text \<open>
  The moves of the code are those of the life cycle and one more: a message without a rule, if
  it is not misdirected, takes the established channel to \<open>Active\<close> as well, although it is only
  observed.
\<close>

lemma proto_moves:
  "proto_step s a = t \<and> t \<noteq> s \<longleftrightarrow>
     lifecycle s a t
     \<or> s = EncryptedChannelEstablished \<and> t = Active \<and> (\<exists>m. a = PMessage m \<and> well_directed m \<and> unlisted_message a)"
proof (cases a)
  case PBegin
  then show ?thesis by (cases s) (auto simp: lifecycle_simps)
next
  case (PMessage m)
  show ?thesis unfolding PMessage lifecycle_simps msg_step_cases by auto
next
  case PComplete
  then show ?thesis by (cases s) (auto simp: lifecycle_simps)
next
  case PBeginClose
  then show ?thesis by (auto simp: lifecycle_simps begin_closing_def proto_ended_def)
next
  case PClose
  then show ?thesis by (auto simp: lifecycle_simps close_state_def)
qed

lemma unlisted_observed:
  "well_directed m \<Longrightarrow> unlisted_message (PMessage m) \<Longrightarrow>
     transition EncryptedChannelEstablished m = Observed Active"
  by (auto simp: transition_def Let_def well_directed_def TRAFFIC_IDS_def)

lemma proto_stage_bounds: "proto_stage s \<le> 8" "\<not> proto_ended s \<Longrightarrow> proto_stage s \<le> 6"
  by (cases s; simp add: proto_ended_def)+

lemma lifecycle_stage:
  assumes "lifecycle s a t"
  shows "proto_stage s \<le> proto_stage t \<and> (\<not> proto_ended t \<longrightarrow> proto_stage t \<le> Suc (proto_stage s))"
  using assms
proof (induction rule: lifecycle.induct)
  case (begin_close s)
  then show ?case using proto_stage_bounds(2) [of s] by (simp add: proto_ended_def)
next
  case (finish_close s)
  then show ?case using proto_stage_bounds(1) [of s] by (simp add: proto_ended_def)
qed (auto simp: proto_ended_def)

lemma move_stage:
  "proto_stage s \<le> proto_stage (proto_step s a)
   \<and> (\<not> proto_ended (proto_step s a) \<longrightarrow> proto_stage (proto_step s a) \<le> Suc (proto_stage s))"
proof (cases "proto_step s a = s")
  case False
  then have "lifecycle s a (proto_step s a) \<or> s = EncryptedChannelEstablished \<and> proto_step s a = Active"
    using proto_moves [of s a "proto_step s a"] by auto
  then show ?thesis using lifecycle_stage by auto
qed simp

interpretation proto: staged_machine proto_step proto_stage proto_ended
proof
  fix s a
  show "proto_stage s \<le> proto_stage (proto_step s a)"
    using move_stage by simp
  show "\<not> proto_ended (proto_step s a) \<Longrightarrow> proto_stage (proto_step s a) \<le> Suc (proto_stage s)"
    using move_stage by simp
  show "proto_ended s \<Longrightarrow> proto_ended (proto_step s a)"
  proof (cases a)
    case (PMessage m)
    then show "proto_ended s \<Longrightarrow> proto_ended (proto_step s a)"
      by (simp only: msg_step_cases) (auto simp: proto_ended_def)
  qed (auto simp: proto_ended_def begin_closing_def close_state_def)
qed

text \<open>The action that takes a connection from one stage to the next.\<close>

fun stage_action :: "nat \<Rightarrow> proto_action \<Rightarrow> bool" where
  "stage_action k PBegin = (k = 0)"
| "stage_action k (PMessage m) =
     (k = 1 \<and> client_message 0x1E m \<or> k = 2 \<and> client_message 0x19 m \<or> k = 3 \<and> client_message 0x79 m
      \<or> k = 5 \<and> well_directed m)"
| "stage_action k PComplete = (k = 4)"
| "stage_action k PBeginClose = False"
| "stage_action k PClose = False"

lemma stage_action_0: "stage_action 0 a \<longleftrightarrow> a = PBegin"
  by (cases a) simp_all

lemma move_action:
  assumes "proto_step s a = t" "\<not> proto_ended t" "proto_stage t = Suc (proto_stage s)"
  shows "stage_action (proto_stage s) a"
proof -
  have "lifecycle s a t \<or> s = EncryptedChannelEstablished \<and> (\<exists>m. a = PMessage m \<and> well_directed m)"
    using assms(1,3) proto_moves [of s a t] by auto
  then show ?thesis
  proof
    assume "lifecycle s a t"
    then show ?thesis using assms(2,3) by (induction rule: lifecycle.induct) (auto simp: proto_ended_def)
  qed auto
qed

lemma stage_reached:
  assumes "\<not> proto_ended (foldl proto_step Connected as)" "Suc k \<le> proto_stage (foldl proto_step Connected as)"
  shows "\<exists>xs a ys. as = xs @ a # ys \<and> \<not> proto_ended (foldl proto_step Connected xs)
     \<and> k \<le> proto_stage (foldl proto_step Connected xs) \<and> stage_action k a"
proof -
  from proto.stage_passed [OF assms(1) _ assms(2)] obtain xs a ys where s: "as = xs @ a # ys"
      "proto_stage (foldl proto_step Connected xs) = k" "\<not> proto_ended (foldl proto_step Connected xs)"
      "proto_stage (proto_step (foldl proto_step Connected xs) a) = Suc k"
      "\<not> proto_ended (proto_step (foldl proto_step Connected xs) a)"
    by auto
  from move_action [OF refl s(5)] s show ?thesis by auto
qed

lemma handshake_split:
  assumes "foldl proto_step Connected as = EncryptedChannelEstablished
    \<or> foldl proto_step Connected as = Active"
  shows "\<exists>a0 a1 a2 a3 a4 a5 m1 m2 m3.
     as = a0 @ PBegin # a1 @ PMessage m1 # a2 @ PMessage m2 # a3 @ PMessage m3 # a4 @ PComplete # a5
   \<and> client_message 0x1E m1 \<and> client_message 0x19 m2 \<and> client_message 0x79 m3"
proof -
  have live: "\<not> proto_ended (foldl proto_step Connected as)" and st: "5 \<le> proto_stage (foldl proto_step Connected as)"
    using assms by (auto simp: proto_ended_def)
  from stage_reached [of "as" 4] live st obtain x4 a5 where x4: "as = x4 @ PComplete # a5"
      "\<not> proto_ended (foldl proto_step Connected x4)" "4 \<le> proto_stage (foldl proto_step Connected x4)"
    by (auto elim!: stage_action.elims(2))
  from stage_reached [of x4 3] x4 obtain x3 m3 a4 where x3: "x4 = x3 @ PMessage m3 # a4"
      "client_message 0x79 m3"
      "\<not> proto_ended (foldl proto_step Connected x3)" "3 \<le> proto_stage (foldl proto_step Connected x3)"
    by (auto elim!: stage_action.elims(2))
  from stage_reached [of x3 2] x3 obtain x2 m2 a3 where x2: "x3 = x2 @ PMessage m2 # a3"
      "client_message 0x19 m2"
      "\<not> proto_ended (foldl proto_step Connected x2)" "2 \<le> proto_stage (foldl proto_step Connected x2)"
    by (auto elim!: stage_action.elims(2))
  from stage_reached [of x2 1] x2 obtain x1 m1 a2 where x1: "x2 = x1 @ PMessage m1 # a2"
      "client_message 0x1E m1"
      "\<not> proto_ended (foldl proto_step Connected x1)" "1 \<le> proto_stage (foldl proto_step Connected x1)"
    by (auto elim!: stage_action.elims(2))
  have "\<exists>xs a ys. x1 = xs @ a # ys \<and> stage_action 0 a"
    using stage_reached [of x1 0] x1(3,4) by auto
  then obtain x0 a1 where x0: "x1 = x0 @ PBegin # a1"
    unfolding stage_action_0 by blast
  have "as = x0 @ PBegin # a1 @ PMessage m1 # a2 @ PMessage m2 # a3 @ PMessage m3 # a4 @ PComplete # a5"
    using x4(1) x3(1) x2(1) x1(1) x0 by simp
  then show ?thesis using x3(2) x2(2) x1(2) by blast
qed

section \<open>Properties\<close>

text \<open>
  C12. The code implements the life cycle. Save for a message without a rule on the established
  channel, an action changes the state of the machine built from \<open>transition\<close>,
  \<open>apply_transition\<close> and the four server calls exactly when the life-cycle relation has a move, and
  then to that state: only \<open>0x1E\<close>, \<open>0x19\<close>, \<open>0x79\<close> from the client, in their states, advance the
  handshake, only the listed traffic activates the channel, and a rejected or a misdirected message
  never changes anything.
\<close>

theorem machine_refines_lifecycle:
  assumes "s = EncryptedChannelEstablished \<Longrightarrow> \<not> unlisted_message a"
  shows "lifecycle s a t \<longleftrightarrow> proto_step s a = t \<and> t \<noteq> s"
  using assms by (auto simp: proto_moves)

text \<open>A keep-alive activates the established channel; one that the server would send does not.\<close>

theorem machine_refines_lifecycle_witness:
  "let alive = (\<lambda>d. PMessage (BKnown (Message0xFA \<lparr>op_context = 1, op_direction = d, op_payload = []\<rparr>)))
   in lifecycle EncryptedChannelEstablished (alive DirClientToServer) Active
    \<and> \<not> lifecycle EncryptedChannelEstablished (alive DirServerToClient) Active"
proof -
  let ?alive = "\<lambda>d. PMessage (BKnown (Message0xFA \<lparr>op_context = 1, op_direction = d, op_payload = []\<rparr>))"
  have "proto_step EncryptedChannelEstablished (?alive DirClientToServer) = Active"
    "proto_step EncryptedChannelEstablished (?alive DirServerToClient) \<noteq> Active"
    "\<not> unlisted_message (?alive DirClientToServer)" "\<not> unlisted_message (?alive DirServerToClient)"
    by code_simp+
  then show ?thesis
    using machine_refines_lifecycle [of EncryptedChannelEstablished "?alive DirClientToServer" Active]
      machine_refines_lifecycle [of EncryptedChannelEstablished "?alive DirServerToClient" Active]
    unfolding Let_def by blast
qed

text \<open>
  C20. No handshake step can be skipped: if a connection is ever in
  \<open>EncryptedChannelEstablished\<close> or \<open>Active\<close>, then its history contains, in this order, the
  accept, a client \<open>0x1E\<close>, a client \<open>0x19\<close>, a client \<open>0x79\<close> and the server's completion,
  whatever other calls and messages were interleaved.
\<close>

theorem handshake_order:
  assumes "foldl proto_step Connected as = EncryptedChannelEstablished
    \<or> foldl proto_step Connected as = Active"
  shows "\<exists>a0 a1 a2 a3 a4 a5 m1 m2 m3.
     as = a0 @ PBegin # a1 @ PMessage m1 # a2 @ PMessage m2 # a3 @ PMessage m3 # a4 @ PComplete # a5
   \<and> client_message 0x1E m1 \<and> client_message 0x19 m2 \<and> client_message 0x79 m3"
  using assms by (rule handshake_split)

theorem handshake_order_witness:
  "let c = (\<lambda>i. PMessage (BUnknown \<lparr>um_id = i, um_context = 0, um_direction = DirClientToServer, um_payload = []\<rparr>));
       acts = [PBegin, c 0x10, c 0x1E, c 0x1E, c 0x19, c 0x79, PComplete, c 0xFA]
   in foldl proto_step Connected acts = Active
      \<and> (\<exists>a0 a1 a2 a3 a4 a5 m1 m2 m3.
           acts = a0 @ PBegin # a1 @ PMessage m1 # a2 @ PMessage m2 # a3 @ PMessage m3 # a4 @ PComplete # a5
         \<and> client_message 0x1E m1 \<and> client_message 0x19 m2 \<and> client_message 0x79 m3)"
proof -
  let ?c = "\<lambda>i. PMessage (BUnknown \<lparr>um_id = i, um_context = 0, um_direction = DirClientToServer, um_payload = []\<rparr>)"
  let ?acts = "[PBegin, ?c 0x10, ?c 0x1E, ?c 0x1E, ?c 0x19, ?c 0x79, PComplete, ?c 0xFA]"
  have r: "foldl proto_step Connected ?acts = Active"
    by code_simp
  show ?thesis
    unfolding Let_def by (intro conjI r handshake_order) (rule disjI2, rule r)
qed

text \<open>
  Stages only go up: along any run the stage of the connection never decreases, and
  once closing has begun every later state is \<open>Closing\<close> or \<open>Closed\<close>, in which every message
  is rejected with \<open>AlreadyClosed\<close>.
\<close>

lemma no_way_back:
  "proto_stage s \<le> proto_stage (foldl proto_step s as)
   \<and> proto_ended (foldl proto_step (begin_closing s) as)
   \<and> transition (foldl proto_step (begin_closing s) as) m = Rejected AlreadyClosed"
proof -
  have "proto_ended (begin_closing s)"
    by (simp add: proto_ended_def begin_closing_def)
  then have e: "proto_ended (foldl proto_step (begin_closing s) as)"
    by (rule proto.run_ended)
  then have "transition (foldl proto_step (begin_closing s) as) m = Rejected AlreadyClosed"
    by (auto simp: proto_ended_def transition_def)
  with e show ?thesis using proto.run_mono by blast
qed

end
