(* ===== verification/Local_Protocol.thy ===== *)
theory Local_Protocol
  imports Bap_Session
begin

text \<open>
  \<open>network/src/local_protocol.rs\<close> and \<open>test_crypto_material.rs\<close>: the constants of the
  simulated handshake, the first local dispatcher with its own small state machine, and the
  text helpers of the fixtures. \<open>hex_decode\<close> can panic on an odd number of characters, so
  it returns an option.
\<close>

section \<open>Constants\<close>

definition SYNTHETIC_SESSION_KEY :: bytes where
  "SYNTHETIC_SESSION_KEY =
     [0x00, 0x01, 0x02, 0x03, 0x04, 0x05, 0x06, 0x07, 0x08, 0x09, 0x0a, 0x0b, 0x0c, 0x0d, 0x0e, 0x0f]"

definition SYNTHETIC_SESSION_NONCE :: bytes where
  "SYNTHETIC_SESSION_NONCE =
     [0x10, 0x11, 0x12, 0x13, 0x14, 0x15, 0x16, 0x17, 0x18, 0x19, 0x1a, 0x1b]"

definition SIM_CONTEXT :: u32 where "SIM_CONTEXT = 1"
definition MSG_1E :: u16 where "MSG_1E = 0x1E"
definition MSG_1F :: u16 where "MSG_1F = 0x1F"
definition MSG_19 :: u16 where "MSG_19 = 0x19"
definition MSG_1A :: u16 where "MSG_1A = 0x1A"
definition MSG_79 :: u16 where "MSG_79 = 0x79"
definition MSG_7A :: u16 where "MSG_7A = 0x7A"
definition MSG_FA :: u16 where "MSG_FA = 0xFA"
definition MSG_FB :: u16 where "MSG_FB = 0xFB"
definition MSG_12E :: u16 where "MSG_12E = 0x12E"
definition MSG_12F :: u16 where "MSG_12F = 0x12F"
definition MSG_SYN_A :: u16 where "MSG_SYN_A = 0x0A0A"
definition MSG_SYN_A_RSP :: u16 where "MSG_SYN_A_RSP = 0x0A0B"
definition MSG_SYN_B :: u16 where "MSG_SYN_B = 0x0B0B"
definition MSG_SYN_B_RSP :: u16 where "MSG_SYN_B_RSP = 0x0B0C"

lemmas msg_consts = MSG_1E_def MSG_1F_def MSG_19_def MSG_1A_def MSG_79_def MSG_7A_def MSG_FA_def
  MSG_FB_def MSG_12E_def MSG_12F_def MSG_SYN_A_def MSG_SYN_A_RSP_def MSG_SYN_B_def MSG_SYN_B_RSP_def

text \<open>A byte string literal: the codes of its characters.\<close>

definition ascii :: "string \<Rightarrow> bytes" where
  "ascii s = map (\<lambda>c. of_nat (of_char c)) s"

definition PAYLOAD_1E :: bytes where "PAYLOAD_1E = ascii ''SIM_1E''"
definition PAYLOAD_1F :: bytes where "PAYLOAD_1F = ascii ''SIM_1F''"
definition PAYLOAD_19 :: bytes where "PAYLOAD_19 = ascii ''SIM_19''"
definition PAYLOAD_1A :: bytes where "PAYLOAD_1A = ascii ''SIM_1A''"
definition PAYLOAD_79 :: bytes where "PAYLOAD_79 = ascii ''SIM_79''"
definition PAYLOAD_7A :: bytes where "PAYLOAD_7A = ascii ''SIM_7A''"
definition PAYLOAD_FA :: bytes where "PAYLOAD_FA = ascii ''SIM_FA''"
definition PAYLOAD_FB :: bytes where "PAYLOAD_FB = ascii ''SIM_FB''"
definition PAYLOAD_SYN_A :: bytes where "PAYLOAD_SYN_A = ascii ''SYN_ENC_A''"
definition PAYLOAD_SYN_A_RSP :: bytes where "PAYLOAD_SYN_A_RSP = ascii ''SYN_RSP_A''"
definition PAYLOAD_SYN_B :: bytes where "PAYLOAD_SYN_B = ascii ''SYN_ENC_B''"
definition PAYLOAD_SYN_B_RSP :: bytes where "PAYLOAD_SYN_B_RSP = ascii ''SYN_RSP_B''"

lemmas payload_consts = PAYLOAD_1E_def PAYLOAD_1F_def PAYLOAD_19_def PAYLOAD_1A_def PAYLOAD_79_def
  PAYLOAD_7A_def PAYLOAD_FA_def PAYLOAD_FB_def PAYLOAD_SYN_A_def PAYLOAD_SYN_A_RSP_def
  PAYLOAD_SYN_B_def PAYLOAD_SYN_B_RSP_def

definition payload_for_msg :: "u16 \<Rightarrow> bytes" where
  "payload_for_msg i =
     (if i = MSG_1E then PAYLOAD_1E
      else if i = MSG_1F then PAYLOAD_1F
      else if i = MSG_19 then PAYLOAD_19
      else if i = MSG_1A then PAYLOAD_1A
      else if i = MSG_79 then PAYLOAD_79
      else if i = MSG_7A then PAYLOAD_7A
      else if i = MSG_SYN_A then PAYLOAD_SYN_A
      else if i = MSG_SYN_A_RSP then PAYLOAD_SYN_A_RSP
      else if i = MSG_SYN_B then PAYLOAD_SYN_B
      else if i = MSG_SYN_B_RSP then PAYLOAD_SYN_B_RSP
      else ascii ''SIM_UNKNOWN'')"

section \<open>The first dispatcher\<close>

datatype sim_state =
    SimStart | Sim1eSent | Sim1fSent | Sim19Sent | Sim1aSent | Sim79Sent | Sim7aSent | SimReady

fun sim_state_str :: "sim_state \<Rightarrow> string" where
  "sim_state_str SimStart = ''SIM_START''"
| "sim_state_str Sim1eSent = ''SIM_1E_SENT''"
| "sim_state_str Sim1fSent = ''SIM_1F_SENT''"
| "sim_state_str Sim19Sent = ''SIM_19_SENT''"
| "sim_state_str Sim1aSent = ''SIM_1A_SENT''"
| "sim_state_str Sim79Sent = ''SIM_79_SENT''"
| "sim_state_str Sim7aSent = ''SIM_7A_SENT''"
| "sim_state_str SimReady = ''SIM_READY''"

datatype local_direction = C2S | S2C

fun local_direction_str :: "local_direction \<Rightarrow> string" where
  "local_direction_str C2S = ''C2S''"
| "local_direction_str S2C = ''S2C''"

datatype protocol_error_kind =
    KUnexpectedMessage | KAuthCryptoError | KGcmDecryptFailure | KProtocolError | KInvalidFrame

fun error_kind_str :: "protocol_error_kind \<Rightarrow> string" where
  "error_kind_str KUnexpectedMessage = ''UNEXPECTED_MESSAGE''"
| "error_kind_str KAuthCryptoError = ''AUTH/CRYPTO ERROR''"
| "error_kind_str KGcmDecryptFailure = ''GCM DECRYPT FAILURE''"
| "error_kind_str KProtocolError = ''PROTOCOL_ERROR''"
| "error_kind_str KInvalidFrame = ''INVALID_FRAME''"

datatype server_action =
    ActSendClear u16 u32 bytes
  | ActSendEncrypted u16 u32 bytes
  | ActChangeState sim_state
  | ActCloseConnection
  | ActIgnore
  | ActProtocolError protocol_error_kind string

record server_trace_event =
  te_timestamp :: "string option"
  te_connection_id :: u64
  te_direction :: string
  te_message_id :: "u16 option"
  te_context :: "u32 option"
  te_state :: string
  te_action :: string

definition without_timestamp :: "server_trace_event \<Rightarrow> server_trace_event" where
  "without_timestamp e = e\<lparr>te_timestamp := None\<rparr>"

record local_dispatcher =
  ld_state :: sim_state
  ld_crypto_expected :: bool

definition local_dispatcher_new :: local_dispatcher where
  "local_dispatcher_new = \<lparr>ld_state = SimStart, ld_crypto_expected = False\<rparr>"

definition dispatch_clear :: "local_dispatcher \<Rightarrow> u16 \<Rightarrow> server_action list \<times> local_dispatcher" where
  "dispatch_clear d i =
     (if ld_state d = SimStart \<and> i = MSG_1E
      then ([ActChangeState Sim1eSent, ActSendClear MSG_1F SIM_CONTEXT PAYLOAD_1F,
             ActChangeState Sim1fSent], d\<lparr>ld_state := Sim1fSent\<rparr>)
      else if ld_state d = Sim1fSent \<and> i = MSG_19
      then ([ActChangeState Sim19Sent, ActSendClear MSG_1A SIM_CONTEXT PAYLOAD_1A,
             ActChangeState Sim1aSent], d\<lparr>ld_state := Sim1aSent, ld_crypto_expected := True\<rparr>)
      else ([ActProtocolError KUnexpectedMessage
              (''unexpected clear '' @ hex_id i @ '' in '' @ sim_state_str (ld_state d))], d))"

definition dispatch_encrypted :: "local_dispatcher \<Rightarrow> u16 \<Rightarrow> server_action list \<times> local_dispatcher" where
  "dispatch_encrypted d i =
     (if ld_state d = Sim1aSent \<and> i = MSG_79
      then ([ActChangeState Sim79Sent, ActSendEncrypted MSG_7A SIM_CONTEXT PAYLOAD_7A,
             ActChangeState Sim7aSent, ActChangeState SimReady], d\<lparr>ld_state := SimReady\<rparr>)
      else if ld_state d = SimReady \<and> i = MSG_SYN_A
      then ([ActSendEncrypted MSG_SYN_A_RSP SIM_CONTEXT PAYLOAD_SYN_A_RSP], d)
      else if ld_state d = SimReady \<and> i = MSG_SYN_B
      then ([ActSendEncrypted MSG_SYN_B_RSP SIM_CONTEXT PAYLOAD_SYN_B_RSP], d)
      else if i = MSG_7A
      then ([ActProtocolError KUnexpectedMessage
              (''0x7A before 0x79 (state '' @ sim_state_str (ld_state d) @ '')'')], d)
      else ([ActProtocolError KUnexpectedMessage
              (''unexpected encrypted '' @ hex_id i @ '' in '' @ sim_state_str (ld_state d))], d))"

fun dispatch_inbound :: "local_dispatcher \<Rightarrow> decoded_frame \<Rightarrow> server_action list \<times> local_dispatcher" where
  "dispatch_inbound d (DClear i c p) = dispatch_clear d i"
| "dispatch_inbound d (DDecrypted (Some i) c p n) = dispatch_encrypted d i"
| "dispatch_inbound d (DDecrypted None c p n) =
     ([ActProtocolError KProtocolError ''encrypted plaintext too short for msg_id''], d)"
| "dispatch_inbound d (DOpaque kind n) =
     ([ActProtocolError KInvalidFrame (''opaque/unsupported kind 0x'' @ show_hex_u8 kind)], d)"

section \<open>Fixtures\<close>

datatype local_protocol_error = Protocol string

record replay_step =
  rs_direction :: string
  rs_id :: string
  rs_encrypted :: bool
  rs_payload_hex :: "string option"
  rs_context :: "u32 option"

record handshake_fixture =
  hf_name :: string
  hf_protocol :: string
  hf_steps :: "replay_step list"

record crypto_fixture =
  cf_name :: string
  cf_session_key_hex :: string
  cf_session_nonce_hex :: string
  cf_note :: string

text \<open>The loop of \<open>hex_decode\<close> over pairs of characters; \<open>None\<close> is the index out of range.\<close>

fun hex_pairs :: "string list \<Rightarrow> (local_protocol_error + bytes) option" where
  "hex_pairs [] = Some (Inr [])"
| "hex_pairs [c] = None"
| "hex_pairs (c # d # cs) =
     (case parse_uint 16 255 (c @ d) of
        Inl e \<Rightarrow> Some (Inl (Protocol (show_parse_int_error e)))
      | Inr v \<Rightarrow>
          (case hex_pairs cs of
             None \<Rightarrow> None
           | Some (Inl e) \<Rightarrow> Some (Inl e)
           | Some (Inr bs) \<Rightarrow> Some (Inr (of_nat v # bs))))"

definition hex_decode :: "string \<Rightarrow> (local_protocol_error + bytes) option" where
  "hex_decode s0 =
     (let s = str_trim s0 in
      if length s mod 2 \<noteq> 0 then Some (Inl (Protocol ''odd hex length''))
      else hex_pairs (str_chars s))"

definition synthetic_default :: crypto_fixture where
  "synthetic_default =
     \<lparr>cf_name = ''synthetic-local-server'',
      cf_session_key_hex = hex_encode SYNTHETIC_SESSION_KEY,
      cf_session_nonce_hex = hex_encode SYNTHETIC_SESSION_NONCE,
      cf_note = ''SYNTHETIC ONLY '' @ map char_of [226 :: nat, 128, 148]
        @ '' not from captures; never print decoded key/nonce in logs''\<rparr>"

definition key_bytes :: "crypto_fixture \<Rightarrow> (local_protocol_error + bytes) option" where
  "key_bytes f = hex_decode (cf_session_key_hex f)"

definition nonce_bytes :: "crypto_fixture \<Rightarrow> (local_protocol_error + bytes) option" where
  "nonce_bytes f = hex_decode (cf_session_nonce_hex f)"

definition parse_msg_id :: "string \<Rightarrow> local_protocol_error + u16" where
  "parse_msg_id s =
     (let t = str_trim s;
          r = (if is_prefix ''0x'' t \<or> is_prefix ''0X'' t
               then parse_uint 16 65535 (drop 2 t) else parse_uint 10 65535 t)
      in case r of Inl e \<Rightarrow> Inl (Protocol (show_parse_int_error e)) | Inr v \<Rightarrow> Inr (of_nat v))"

section \<open>Properties\<close>

lemma hex_pairs_encode: "hex_pairs (map (\<lambda>c. [c]) (hex_encode bs)) = Some (Inr bs)"
proof (induction bs)
  case Nil
  then show ?case by (simp add: hex_encode_def)
next
  case (Cons b bs)
  have "parse_uint 16 255 [hex_char (unat b div 16), hex_char (unat b mod 16)] = Inr (unat b)"
    using parse_uint_hex_u8 [of b] by (simp add: show_hex_u8_eq)
  with Cons show ?case by (simp add: hex_encode_def show_hex_u8_eq)
qed

text \<open>
  Hex fixtures round trip: decoding the encoding of any byte string succeeds with those
  bytes, without the panic the decoder has for an odd number of characters; so the synthetic
  key and nonce read back from the default fixture create a session.
\<close>

lemma hex_roundtrip:
  "hex_decode (hex_encode bs) = Some (Inr bs)
   \<and> key_bytes synthetic_default = Some (Inr SYNTHETIC_SESSION_KEY)
   \<and> nonce_bytes synthetic_default = Some (Inr SYNTHETIC_SESSION_NONCE)
   \<and> is_ok (bap_session_new SYNTHETIC_SESSION_KEY SYNTHETIC_SESSION_NONCE)"
proof -
  have h: "hex_decode (hex_encode xs) = Some (Inr xs)" for xs
    by (simp add: hex_decode_def visible_hex_encode str_chars_visible hex_pairs_encode)
  have "\<exists>c. context_new SYNTHETIC_SESSION_KEY SYNTHETIC_SESSION_NONCE = Inr c"
    by (rule context_new_ok) (simp_all add: SYNTHETIC_SESSION_KEY_def SYNTHETIC_SESSION_NONCE_def)
  then have "is_ok (bap_session_new SYNTHETIC_SESSION_KEY SYNTHETIC_SESSION_NONCE)"
    by (auto simp: bap_session_new_def)
  then show ?thesis
    by (simp add: h key_bytes_def nonce_bytes_def synthetic_default_def)
qed

end
