(* ===== verification/Response_Policy.thy ===== *)
theory Response_Policy
  imports Protocol_State Local_Protocol
begin

text \<open>
  \<open>network/src/response_policy.rs\<close>: the reply the local server gives to a message, decided
  from the state before the transition.
\<close>

datatype unknown_policy = PolicyObserve | PolicyReject

datatype response_action =
    SendClear u16 u32 bytes
  | SendEncrypted u16 u32 bytes
  | ObserveOnly
  | RejectAction
  | NoAction

record response_policy =
  rp_unknown :: unknown_policy
  rp_keepalive_reply :: bool

definition response_policy_default :: response_policy where
  "response_policy_default = \<lparr>rp_unknown = PolicyObserve, rp_keepalive_reply = True\<rparr>"

definition decide :: "response_policy \<Rightarrow> protocol_state \<Rightarrow> bap_message \<Rightarrow> response_action" where
  "decide p state message =
     (let i = msg_id message;
          ready = (state = EncryptedChannelEstablished \<or> state = Active) in
      if state = WaitingForServiceHandshake \<and> i = 0x1E then SendClear MSG_1F SIM_CONTEXT PAYLOAD_1F
      else if (state = ServiceHandshakeComplete \<or> state = WaitingForSessionLogin) \<and> i = 0x19
        then SendClear MSG_1A SIM_CONTEXT PAYLOAD_1A
      else if state = SessionEstablished \<and> i = 0x79 then SendEncrypted MSG_7A SIM_CONTEXT PAYLOAD_7A
      else if ready \<and> i = 0xFA \<and> rp_keepalive_reply p
        then SendClear MSG_FB (msg_context message) PAYLOAD_FB
      else if ready \<and> i = MSG_SYN_A then SendEncrypted MSG_SYN_A_RSP SIM_CONTEXT PAYLOAD_SYN_A_RSP
      else if ready \<and> i = MSG_SYN_B then SendEncrypted MSG_SYN_B_RSP SIM_CONTEXT PAYLOAD_SYN_B_RSP
      else if ready \<and> (i = 0x12E \<or> i = 0x12F) then ObserveOnly
      else if ready then
        (if msg_is_known message then ObserveOnly
         else (case rp_unknown p of PolicyObserve \<Rightarrow> ObserveOnly | PolicyReject \<Rightarrow> RejectAction))
      else NoAction)"

record safe_policy_step =
  ps_state :: string
  ps_inbound_id :: string
  ps_action :: string
  ps_response_id :: "string option"

fun describe_action :: "response_action \<Rightarrow> safe_policy_step" where
  "describe_action (SendClear i c p) =
     \<lparr>ps_state = [], ps_inbound_id = [], ps_action = ''SendClear'', ps_response_id = Some (hex_id i)\<rparr>"
| "describe_action (SendEncrypted i c p) =
     \<lparr>ps_state = [], ps_inbound_id = [], ps_action = ''SendEncrypted'', ps_response_id = Some (hex_id i)\<rparr>"
| "describe_action ObserveOnly =
     \<lparr>ps_state = [], ps_inbound_id = [], ps_action = ''ObserveOnly'', ps_response_id = None\<rparr>"
| "describe_action RejectAction =
     \<lparr>ps_state = [], ps_inbound_id = [], ps_action = ''Reject'', ps_response_id = None\<rparr>"
| "describe_action NoAction =
     \<lparr>ps_state = [], ps_inbound_id = [], ps_action = ''None'', ps_response_id = None\<rparr>"

definition outbound_direction :: direction where
  "outbound_direction = DirServerToClient"

text \<open>Every reply is short, and none is larger than a frame can hold.\<close>

fun reply_payload :: "response_action \<Rightarrow> bytes" where
  "reply_payload (SendClear i c p) = p"
| "reply_payload (SendEncrypted i c p) = p"
| "reply_payload ObserveOnly = []"
| "reply_payload RejectAction = []"
| "reply_payload NoAction = []"

fun reply_sends :: "response_action \<Rightarrow> u16 option" where
  "reply_sends (SendClear i c p) = Some i"
| "reply_sends (SendEncrypted i c p) = Some i"
| "reply_sends ObserveOnly = None"
| "reply_sends RejectAction = None"
| "reply_sends NoAction = None"

lemma decide_payload_short: "length (reply_payload (decide p s m)) \<le> 9"
  by (simp add: decide_def Let_def payload_consts ascii_def split: unknown_policy.split)

lemma decide_encrypted:
  "decide p s m = SendEncrypted i c q \<Longrightarrow> s = SessionEstablished \<or> s = EncryptedChannelEstablished \<or> s = Active"
  by (auto simp: decide_def Let_def split: if_splits unknown_policy.splits)

end
