(* ===== verification/Message_Dispatcher.thy ===== *)
theory Message_Dispatcher
  imports Message_Codec
begin

text \<open>
  \<open>network/src/message_dispatcher.rs\<close>: the dispatcher that turns messages into observation
  events and flags. The invariant says that its state is a function of the messages it was
  given: the ids in order, and each flag set exactly when a message of its kind was seen.
\<close>

section \<open>Data\<close>

datatype dispatch_result = Handled | ObservedOnly | DispatchUnknown

fun dispatch_result_str :: "dispatch_result \<Rightarrow> string" where
  "dispatch_result_str Handled = ''Handled''"
| "dispatch_result_str ObservedOnly = ''Observed''"
| "dispatch_result_str DispatchUnknown = ''Unknown''"

datatype dispatch_event =
    MessageObserved u16
  | StartupMessageObserved u16
  | KeepAliveObserved u16
  | NatMessageObserved u16
  | SessionLoginObserved
  | EncryptedHandshakeObserved u16

record observation_state =
  os_startup_sequence_seen :: bool
  os_session_login_observed :: bool
  os_encrypted_handshake_observed :: bool
  os_nat_messages_observed :: bool
  os_keepalive_observed :: bool
  os_last_ids :: "u16 list"

record dispatcher =
  di_state :: observation_state
  di_events :: "dispatch_event list"

section \<open>Operations\<close>

definition observation_default :: observation_state where
  "observation_default =
     \<lparr>os_startup_sequence_seen = False, os_session_login_observed = False,
      os_encrypted_handshake_observed = False, os_nat_messages_observed = False,
      os_keepalive_observed = False, os_last_ids = []\<rparr>"

definition dispatcher_new :: dispatcher where
  "dispatcher_new = \<lparr>di_state = observation_default, di_events = []\<rparr>"

definition clear_events :: "dispatcher \<Rightarrow> dispatcher" where
  "clear_events d = d\<lparr>di_events := []\<rparr>"

definition push_event :: "dispatch_event \<Rightarrow> dispatcher \<Rightarrow> dispatcher" where
  "push_event e d = d\<lparr>di_events := di_events d @ [e]\<rparr>"

definition note_startup :: "u16 \<Rightarrow> dispatcher \<Rightarrow> dispatcher" where
  "note_startup i d =
     (let d = push_event (StartupMessageObserved i) d
      in d\<lparr>di_state := (di_state d)\<lparr>os_startup_sequence_seen := True\<rparr>\<rparr>)"

definition note_nat :: "u16 \<Rightarrow> dispatcher \<Rightarrow> dispatcher" where
  "note_nat i d =
     (let d = push_event (NatMessageObserved i) d
      in d\<lparr>di_state := (di_state d)\<lparr>os_nat_messages_observed := True\<rparr>\<rparr>)"

definition note_keepalive :: "u16 \<Rightarrow> dispatcher \<Rightarrow> dispatcher" where
  "note_keepalive i d =
     (let d = push_event (KeepAliveObserved i) d
      in d\<lparr>di_state := (di_state d)\<lparr>os_keepalive_observed := True\<rparr>\<rparr>)"

fun note_kind :: "known_message \<Rightarrow> dispatcher \<Rightarrow> dispatcher" where
  "note_kind (DestinyServiceHandshakeRequest _) d = note_startup 0x1E d"
| "note_kind (DestinyServiceHandshakeResponse _) d = note_startup 0x1F d"
| "note_kind (SessionLoginRequest _) d = note_startup 0x19 d"
| "note_kind (EncryptedHandshakeRequest _) d = note_startup 0x79 d"
| "note_kind (EncryptedHandshakeStatus _) d = note_startup 0x7A d"
| "note_kind (SessionLoginResponse _ _ _ _) d =
     (let d = push_event SessionLoginObserved (push_event (StartupMessageObserved 0x1A) d)
      in d\<lparr>di_state := (di_state d)\<lparr>os_startup_sequence_seen := True,
                                   os_session_login_observed := True\<rparr>\<rparr>)"
| "note_kind (Message0x12E _) d = note_nat 0x12E d"
| "note_kind (Message0x12F _) d = note_nat 0x12F d"
| "note_kind (Message0xFA _) d = note_keepalive 0xFA d"
| "note_kind (Message0xFB _) d = note_keepalive 0xFB d"

definition note_known :: "known_message \<Rightarrow> dispatcher \<Rightarrow> dispatcher" where
  "note_known k d =
     (let i = known_id k; d = note_kind k d in
      if i = 0x79 \<or> i = 0x7A
      then (let d = push_event (EncryptedHandshakeObserved i) d
            in d\<lparr>di_state := (di_state d)\<lparr>os_encrypted_handshake_observed := True\<rparr>\<rparr>)
      else d)"

definition note_id :: "u16 \<Rightarrow> dispatcher \<Rightarrow> dispatcher" where
  "note_id i d =
     push_event (MessageObserved i) (d\<lparr>di_state := (di_state d)\<lparr>os_last_ids := os_last_ids (di_state d) @ [i]\<rparr>\<rparr>)"

fun dispatch :: "dispatcher \<Rightarrow> bap_message \<Rightarrow> dispatch_result \<times> dispatcher" where
  "dispatch d (BUnknown u) = (DispatchUnknown, note_id (um_id u) d)"
| "dispatch d (BKnown k) = (Handled, note_known k (note_id (known_id k) d))"

definition observe :: "dispatcher \<Rightarrow> bap_message \<Rightarrow> dispatch_result \<times> dispatcher" where
  "observe d m =
     (let i = msg_id m; d = note_id i d in
      if i \<in> set [0x1E, 0x1F, 0x19, 0x1A, 0x79, 0x7A, 0x12E, 0x12F]
      then (ObservedOnly, case m of BKnown k \<Rightarrow> note_known k d | BUnknown u \<Rightarrow> d)
      else if i = 0xFA \<or> i = 0xFB
      then (ObservedOnly,
            push_event (KeepAliveObserved i) (d\<lparr>di_state := (di_state d)\<lparr>os_keepalive_observed := True\<rparr>\<rparr>))
      else (DispatchUnknown, d))"

section \<open>The state as a function of the history\<close>

fun known_ids :: "bap_message list \<Rightarrow> u16 set" where
  "known_ids [] = {}"
| "known_ids (BKnown k # ms) = insert (known_id k) (known_ids ms)"
| "known_ids (BUnknown u # ms) = known_ids ms"

definition dispatch_all :: "dispatcher \<Rightarrow> bap_message list \<Rightarrow> dispatcher" where
  "dispatch_all d ms = foldl (\<lambda>d m. snd (dispatch d m)) d ms"

lemma known_ids_append [simp]: "known_ids (xs @ ys) = known_ids xs \<union> known_ids ys"
  by (induction xs rule: known_ids.induct) auto

definition seen_ok :: "bap_message list \<Rightarrow> dispatcher \<Rightarrow> bool" where
  "seen_ok ms d \<longleftrightarrow>
     os_last_ids (di_state d) = map msg_id ms
   \<and> (os_startup_sequence_seen (di_state d) \<longleftrightarrow> known_ids ms \<inter> {0x1E, 0x1F, 0x19, 0x1A, 0x79, 0x7A} \<noteq> {})
   \<and> (os_session_login_observed (di_state d) \<longleftrightarrow> 0x1A \<in> known_ids ms)
   \<and> (os_encrypted_handshake_observed (di_state d) \<longleftrightarrow> known_ids ms \<inter> {0x79, 0x7A} \<noteq> {})
   \<and> (os_nat_messages_observed (di_state d) \<longleftrightarrow> known_ids ms \<inter> {0x12E, 0x12F} \<noteq> {})
   \<and> (os_keepalive_observed (di_state d) \<longleftrightarrow> known_ids ms \<inter> {0xFA, 0xFB} \<noteq> {})
   \<and> [i. MessageObserved i \<leftarrow> di_events d] = map msg_id ms"

lemmas note_defs = note_known_def note_startup_def note_nat_def note_keepalive_def note_id_def
  push_event_def Let_def

lemma seen_ok_dispatch:
  assumes "seen_ok ms d"
  shows "seen_ok (ms @ [m]) (snd (dispatch d m))"
proof (cases m)
  case (BUnknown u)
  then show ?thesis using assms by (simp add: seen_ok_def note_defs)
next
  case (BKnown k)
  then show ?thesis
    using assms by (cases k) (simp_all add: seen_ok_def note_defs Int_insert_right)
qed

text \<open>
  After dispatching any sequence of messages the dispatcher's state is exactly its
  history: the ids in order (in \<open>last_ids\<close> and as \<open>MessageObserved\<close> events), and each of the
  five flags set if and only if a known message of that kind was dispatched.
\<close>

lemma dispatcher_tracks_history: "seen_ok ms (dispatch_all dispatcher_new ms)"
proof (induction ms rule: rev_induct)
  case Nil
  show ?case
    by (simp add: seen_ok_def dispatch_all_def dispatcher_new_def observation_default_def)
next
  case (snoc m ms)
  then show ?case using seen_ok_dispatch [of ms _ m] by (simp add: dispatch_all_def)
qed

end
