(* ===== verification/Stateful_Session.thy ===== *)
theory Stateful_Session
  imports Response_Policy Message_Dispatcher
begin

text \<open>
  \<open>network/src/stateful_bap_session.rs\<close>: one connection of the local server. Its record holds
  the protocol state, the BAP session, the dispatcher, the policy and the event log;
  \<open>handle_message\<close> is the whole handler with its early returns. Handling messages is shown to
  be a run of the protocol machine, and the event log to be the faithful history of it.
\<close>

section \<open>Data\<close>

record session_material =
  sm_key :: bytes
  sm_nonce :: bytes

definition session_material_default :: session_material where
  "session_material_default = \<lparr>sm_key = SYNTHETIC_SESSION_KEY, sm_nonce = SYNTHETIC_SESSION_NONCE\<rparr>"

datatype protocol_event =
    EvConnected u64
  | EvMessageReceived u16 string
  | EvMessageDecoded u16 bool
  | EvStateTransition string string
  | EvMessageRejected u16 string
  | EvResponseSent u16
  | EvSessionClosed

fun safe_label :: "protocol_event \<Rightarrow> string" where
  "safe_label (EvConnected c) = ''Connected conn='' @ show_nat (unat c)"
| "safe_label (EvMessageReceived i d) = ''MessageReceived id='' @ hex_id i @ '' dir='' @ d"
| "safe_label (EvMessageDecoded i k) = ''MessageDecoded id='' @ hex_id i @ '' known='' @ show_bool k"
| "safe_label (EvStateTransition from to) = ''StateTransition '' @ from @ right_arrow @ to"
| "safe_label (EvMessageRejected i r) = ''MessageRejected id='' @ hex_id i @ '' reason='' @ r"
| "safe_label (EvResponseSent i) = ''ResponseSent id='' @ hex_id i"
| "safe_label EvSessionClosed = ''SessionClosed''"

record handle_result =
  hr_transition :: transition_result
  hr_actions :: "response_action list"
  hr_dispatch :: dispatch_result
  hr_message :: bap_message

record stateful_session =
  ss_connection_id :: u64
  ss_protocol_state :: protocol_state
  ss_session :: bap_session
  ss_material :: session_material
  ss_dispatcher :: dispatcher
  ss_policy :: response_policy
  ss_events :: "protocol_event list"

section \<open>Operations\<close>

definition log_event :: "protocol_event \<Rightarrow> stateful_session \<Rightarrow> stateful_session" where
  "log_event e s = s\<lparr>ss_events := ss_events s @ [e]\<rparr>"

definition with_material :: "u64 \<Rightarrow> session_material \<Rightarrow> bap_session_error + stateful_session" where
  "with_material connection_id material =
     (case bap_session_new (sm_key material) (sm_nonce material) of
        Inl e \<Rightarrow> Inl e
      | Inr session \<Rightarrow>
          let s = \<lparr>ss_connection_id = connection_id, ss_protocol_state = Connected,
                   ss_session = session, ss_material = material, ss_dispatcher = dispatcher_new,
                   ss_policy = response_policy_default, ss_events = []\<rparr>;
              s = log_event (EvConnected connection_id) s
          in Inr (s\<lparr>ss_protocol_state :=
               (case begin_waiting_for_handshake (ss_protocol_state s) of
                  Inl _ \<Rightarrow> WaitingForServiceHandshake | Inr t \<Rightarrow> t)\<rparr>))"

definition new_synthetic :: "u64 \<Rightarrow> bap_session_error + stateful_session" where
  "new_synthetic connection_id = with_material connection_id session_material_default"

definition set_state :: "protocol_state \<Rightarrow> stateful_session \<Rightarrow> stateful_session" where
  "set_state to s =
     (let from = ss_protocol_state s in
      if from \<noteq> to
      then (log_event (EvStateTransition (protocol_state_str from) (protocol_state_str to)) s)
             \<lparr>ss_protocol_state := to\<rparr>
      else s)"

definition set_unknown_policy :: "unknown_policy \<Rightarrow> stateful_session \<Rightarrow> stateful_session" where
  "set_unknown_policy p s = s\<lparr>ss_policy := (ss_policy s)\<lparr>rp_unknown := p\<rparr>\<rparr>"

text \<open>The \<open>ResponseSent\<close> loop.\<close>

fun log_responses :: "response_action list \<Rightarrow> stateful_session \<Rightarrow> stateful_session" where
  "log_responses [] s = s"
| "log_responses (SendClear i c p # as) s = log_responses as (log_event (EvResponseSent i) s)"
| "log_responses (SendEncrypted i c p # as) s = log_responses as (log_event (EvResponseSent i) s)"
| "log_responses (_ # as) s = log_responses as s"

definition dispatch_in :: "bap_message \<Rightarrow> stateful_session \<Rightarrow> dispatch_result \<times> stateful_session" where
  "dispatch_in m s =
     (case dispatch (ss_dispatcher s) m of (r, d) \<Rightarrow> (r, s\<lparr>ss_dispatcher := d\<rparr>))"

definition handle_message ::
  "stateful_session \<Rightarrow> bap_message \<Rightarrow> (protocol_state_error + handle_result) \<times> stateful_session" where
  "handle_message s message =
     (let i = msg_id message;
          s = log_event (EvMessageReceived i
                (case msg_direction message of DirClientToServer \<Rightarrow> ''C2S'' | DirServerToClient \<Rightarrow> ''S2C'')) s;
          s = log_event (EvMessageDecoded i (msg_is_known message)) s;
          state_before = ss_protocol_state s;
          tr = transition state_before message;
          action_pre = decide (ss_policy s) state_before message
      in case tr of
           Rejected reason \<Rightarrow>
             let s = log_event (EvMessageRejected i (show_protocol_state_error reason)) s in
             (case dispatch_in message s of (r, s) \<Rightarrow>
                (Inr \<lparr>hr_transition = tr, hr_actions = [NoAction], hr_dispatch = r, hr_message = message\<rparr>, s))
         | _ \<Rightarrow>
             (case apply_transition state_before tr of
                Inl e \<Rightarrow> (Inl e, s)
              | Inr new_state \<Rightarrow>
                  let s = set_state new_state s;
                      actions = [action_pre];
                      completed = (if state_before = SessionEstablished \<and> i = 0x79
                        then complete_encrypted_handshake (ss_protocol_state s)
                        else Inr (ss_protocol_state s))
                  in case completed of
                       Inl e \<Rightarrow> (Inl e, s)
                     | Inr next_state \<Rightarrow>
                         let s = set_state next_state s in
                         if action_pre = RejectAction then (Inl (UnexpectedMessage i), s)
                         else (case dispatch_in message s of (r, s) \<Rightarrow>
                           (Inr \<lparr>hr_transition = tr, hr_actions = actions, hr_dispatch = r,
                                 hr_message = message\<rparr>, log_responses actions s))))"

definition handle_decoded_frame ::
  "stateful_session \<Rightarrow> decoded_frame \<Rightarrow> direction \<Rightarrow>
   (protocol_state_error + handle_result) \<times> stateful_session" where
  "handle_decoded_frame s frame direction =
     (case decode_from_frame frame direction of
        Inl e \<Rightarrow> (Inl (InvalidMessage (show_codec_error e)), s)
      | Inr message \<Rightarrow> handle_message s message)"

definition stateful_encode_clear :: "stateful_session \<Rightarrow> u16 \<Rightarrow> u32 \<Rightarrow> bytes \<Rightarrow> bytes option" where
  "stateful_encode_clear s i c p = encode_clear i c p"

definition encode_encrypted_s2c ::
  "aead_prims \<Rightarrow> stateful_session \<Rightarrow> u16 \<Rightarrow> u32 \<Rightarrow> bytes \<Rightarrow>
   ((bap_session_error + bytes) \<times> stateful_session) option" where
  "encode_encrypted_s2c P s i c p =
     (case encode_encrypted P (ss_session s) ServerToClient i c p of
        None \<Rightarrow> None
      | Some (r, b) \<Rightarrow> Some (r, s\<lparr>ss_session := b\<rparr>))"

definition decode_c2s_frame ::
  "aead_prims \<Rightarrow> stateful_session \<Rightarrow> bytes \<Rightarrow> (bap_session_error + decoded_frame) \<times> stateful_session" where
  "decode_c2s_frame P s raw =
     (case decode_frame P (ss_session s) ClientToServer raw of (r, b) \<Rightarrow> (r, s\<lparr>ss_session := b\<rparr>))"

definition session_begin_close :: "stateful_session \<Rightarrow> stateful_session" where
  "session_begin_close s = set_state (begin_closing (ss_protocol_state s)) s"

definition session_finish_close :: "stateful_session \<Rightarrow> stateful_session" where
  "session_finish_close s = log_event EvSessionClosed (set_state (close_state (ss_protocol_state s)) s)"

definition safe_event_log :: "stateful_session \<Rightarrow> string list" where
  "safe_event_log s = map safe_label (ss_events s)"

section \<open>What a handler changes\<close>

lemma log_event_frame [simp]:
  "ss_protocol_state (log_event e s) = ss_protocol_state s" "ss_session (log_event e s) = ss_session s"
  "ss_dispatcher (log_event e s) = ss_dispatcher s" "ss_policy (log_event e s) = ss_policy s"
  "ss_events (log_event e s) = ss_events s @ [e]"
  by (simp_all add: log_event_def)

lemma set_state_frame [simp]:
  "ss_protocol_state (set_state t s) = t" "ss_session (set_state t s) = ss_session s"
  "ss_dispatcher (set_state t s) = ss_dispatcher s" "ss_policy (set_state t s) = ss_policy s"
  by (simp_all add: set_state_def Let_def)

lemma set_state_events:
  "ss_events (set_state t s) =
     (if ss_protocol_state s = t then ss_events s
      else ss_events s @ [EvStateTransition (protocol_state_str (ss_protocol_state s)) (protocol_state_str t)])"
  by (simp add: set_state_def Let_def)

lemma log_responses_frame [simp]:
  "ss_protocol_state (log_responses as s) = ss_protocol_state s"
  "ss_session (log_responses as s) = ss_session s"
  "ss_dispatcher (log_responses as s) = ss_dispatcher s" "ss_policy (log_responses as s) = ss_policy s"
  by (induction "as" s rule: log_responses.induct) simp_all

lemma log_responses_events:
  "ss_events (log_responses as s) = ss_events s @ map EvResponseSent (List.map_filter reply_sends as)"
  by (induction "as" s rule: log_responses.induct) (simp_all add: List.map_filter_simps)

lemma dispatch_in_simp:
  "dispatch_in m s = (fst (dispatch (ss_dispatcher s) m), s\<lparr>ss_dispatcher := snd (dispatch (ss_dispatcher s) m)\<rparr>)"
  by (simp add: dispatch_in_def split: prod.split)

text \<open>The protocol actions a handled message stands for.\<close>

definition message_actions :: "protocol_state \<Rightarrow> bap_message \<Rightarrow> proto_action list" where
  "message_actions p m =
     PMessage m # (if p = SessionEstablished \<and> client_message 0x79 m then [PComplete] else [])"

lemma established_79:
  "transition SessionEstablished m = Advanced a b \<Longrightarrow>
     client_message 0x79 m \<and> a = SessionEstablished \<and> b = WaitingForEncryptedHandshake"
  "transition SessionEstablished m = Observed t \<Longrightarrow> msg_id m \<noteq> 0x79 \<and> t = SessionEstablished"
  by (auto simp: transition_def Let_def client_message_def expected_c2s_def split: if_splits)

lemma complete_only_79:
  assumes "transition s m = Rejected e"
  shows "\<not> (s = SessionEstablished \<and> client_message 0x79 m)"
  using assms by (auto simp: transition_def Let_def client_message_def expected_s2c_def split: if_splits)

lemma handle_message_state:
  "ss_protocol_state (snd (handle_message s m)) =
     foldl proto_step (ss_protocol_state s) (message_actions (ss_protocol_state s) m)
   \<and> ss_session (snd (handle_message s m)) = ss_session s
   \<and> ss_policy (snd (handle_message s m)) = ss_policy s"
proof (cases "transition (ss_protocol_state s) m")
  case (Rejected e)
  then show ?thesis
    using complete_only_79 [OF Rejected]
    by (simp add: handle_message_def Let_def message_actions_def dispatch_in_simp)
next
  case (Advanced a b)
  then show ?thesis
    using established_79(1) [of m a b]
    by (cases "ss_protocol_state s = SessionEstablished")
       (auto simp: handle_message_def Let_def message_actions_def dispatch_in_simp client_message_def)
next
  case (Observed t)
  then show ?thesis
    using established_79(2) [of m t]
    by (cases "ss_protocol_state s = SessionEstablished")
       (auto simp: handle_message_def Let_def message_actions_def dispatch_in_simp client_message_def)
qed

section \<open>Runs of a session\<close>

datatype session_op = OpMessage bap_message | OpBeginClose | OpFinishClose

fun session_step :: "stateful_session \<Rightarrow> session_op \<Rightarrow> stateful_session" where
  "session_step s (OpMessage m) = snd (handle_message s m)"
| "session_step s OpBeginClose = session_begin_close s"
| "session_step s OpFinishClose = session_finish_close s"

definition op_messages :: "session_op list \<Rightarrow> bap_message list" where
  "op_messages ops = concat (map (\<lambda>p. case p of OpMessage m \<Rightarrow> [m] | _ \<Rightarrow> []) ops)"

definition act_messages :: "proto_action list \<Rightarrow> bap_message list" where
  "act_messages as = concat (map (\<lambda>a. case a of PMessage m \<Rightarrow> [m] | _ \<Rightarrow> []) as)"

lemma messages_append [simp]:
  "op_messages (xs @ ys) = op_messages xs @ op_messages ys"
  "act_messages (as @ bs) = act_messages as @ act_messages bs"
  by (simp_all add: op_messages_def act_messages_def)

lemma act_messages_simps [simp]:
  "act_messages [] = []" "act_messages (PMessage m # as) = m # act_messages as"
  "act_messages (PBegin # as) = act_messages as" "act_messages (PComplete # as) = act_messages as"
  "act_messages (PBeginClose # as) = act_messages as" "act_messages (PClose # as) = act_messages as"
  by (simp_all add: act_messages_def)

lemma op_messages_simps [simp]:
  "op_messages [] = []" "op_messages [OpMessage m] = [m]"
  "op_messages [OpBeginClose] = []" "op_messages [OpFinishClose] = []"
  by (simp_all add: op_messages_def)

lemma act_messages_of_message [simp]: "act_messages (message_actions p m) = [m]"
  by (simp add: message_actions_def)

lemma with_material_ok:
  assumes "with_material c mat = Inr s"
  shows "ss_protocol_state s = WaitingForServiceHandshake" "ss_events s = [EvConnected c]"
    "bap_session_new (sm_key mat) (sm_nonce mat) = Inr (ss_session s)"
    "ss_policy s = response_policy_default" "ss_dispatcher s = dispatcher_new"
  using assms by (auto simp: with_material_def Let_def log_event_def split: sum.splits)

lemma session_step_acts:
  "\<exists>as. ss_protocol_state (session_step s p) = foldl proto_step (ss_protocol_state s) as
     \<and> act_messages as = op_messages [p]"
proof (cases p)
  case (OpMessage m)
  then show ?thesis
    using handle_message_state [of s m]
    by (intro exI [of _ "message_actions (ss_protocol_state s) m"]) simp
next
  case OpBeginClose
  then show ?thesis by (intro exI [of _ "[PBeginClose]"]) (simp add: session_begin_close_def)
next
  case OpFinishClose
  then show ?thesis by (intro exI [of _ "[PClose]"]) (simp add: session_finish_close_def)
qed

lemma session_run_acts:
  "\<exists>as. ss_protocol_state (foldl session_step s ops) = foldl proto_step (ss_protocol_state s) as
     \<and> act_messages as = op_messages ops"
proof (induction ops rule: rev_induct)
  case Nil
  show ?case by (intro exI [of _ "[]"]) simp
next
  case (snoc p ops)
  then obtain as1 where a: "ss_protocol_state (foldl session_step s ops) = foldl proto_step (ss_protocol_state s) as1"
      "act_messages as1 = op_messages ops" by blast
  obtain as2 where b: "ss_protocol_state (session_step (foldl session_step s ops) p)
      = foldl proto_step (ss_protocol_state (foldl session_step s ops)) as2" "act_messages as2 = op_messages [p]"
    using session_step_acts by blast
  show ?case
    by (rule exI [of _ "as1 @ as2"]) (use a b in simp)
qed

text \<open>The log read as a path of states.\<close>

fun log_path :: "string \<Rightarrow> protocol_event list \<Rightarrow> string \<Rightarrow> bool" where
  "log_path a [] b = (a = b)"
| "log_path a (EvStateTransition x y # es) b = (x = a \<and> x \<noteq> y \<and> log_path y es b)"
| "log_path a (_ # es) b = log_path a es b"

definition received_ids :: "protocol_event list \<Rightarrow> u16 list" where
  "received_ids es = [i. EvMessageReceived i d \<leftarrow> es]"

lemma received_ids_append [simp]: "received_ids (xs @ ys) = received_ids xs @ received_ids ys"
  by (simp add: received_ids_def)

lemma received_ids_responses [simp]: "received_ids (map EvResponseSent is) = []"
  by (induction "is") (simp_all add: received_ids_def)

lemma received_ids_simps [simp]:
  "received_ids [] = []" "received_ids (EvMessageReceived i d # es) = i # received_ids es"
  "received_ids (EvMessageDecoded i k # es) = received_ids es"
  "received_ids (EvStateTransition a b # es) = received_ids es"
  "received_ids (EvMessageRejected i r # es) = received_ids es"
  "received_ids (EvResponseSent i # es) = received_ids es"
  "received_ids (EvConnected c # es) = received_ids es" "received_ids (EvSessionClosed # es) = received_ids es"
  by (simp_all add: received_ids_def)

lemma log_path_append: "log_path a xs b \<Longrightarrow> log_path b ys c \<Longrightarrow> log_path a (xs @ ys) c"
  by (induction a xs b rule: log_path.induct) auto

lemma log_path_responses [simp]: "log_path a (map EvResponseSent is) b \<longleftrightarrow> a = b"
  by (induction "is") auto

lemma protocol_state_str_inject: "protocol_state_str a = protocol_state_str b \<longleftrightarrow> a = b"
  by (cases a; cases b) simp_all

definition log_ok :: "protocol_event list \<Rightarrow> protocol_state \<Rightarrow> bool" where
  "log_ok es p \<longleftrightarrow> log_path (protocol_state_str WaitingForServiceHandshake) es (protocol_state_str p)"

lemma log_ok_plain:
  "log_ok es p \<Longrightarrow> log_path (protocol_state_str p) fs (protocol_state_str q) \<Longrightarrow> log_ok (es @ fs) q"
  by (simp add: log_ok_def log_path_append)

lemma log_ok_set_state:
  "log_ok (ss_events s) (ss_protocol_state s) \<Longrightarrow> log_ok (ss_events (set_state t s)) t"
  by (auto simp: set_state_events protocol_state_str_inject intro: log_ok_plain)

lemma log_ok_log_event:
  assumes "log_ok (ss_events s) p" and "log_path (protocol_state_str p) [e] (protocol_state_str p)"
  shows "log_ok (ss_events (log_event e s)) p"
  using assms by (simp add: log_ok_plain)

lemma handle_message_log:
  assumes "log_ok (ss_events s) (ss_protocol_state s)"
  shows "log_ok (ss_events (snd (handle_message s m))) (ss_protocol_state (snd (handle_message s m)))
     \<and> received_ids (ss_events (snd (handle_message s m))) = received_ids (ss_events s) @ [msg_id m]"
proof -
  let ?s = "log_event (EvMessageDecoded (msg_id m) (msg_is_known m)) (log_event (EvMessageReceived (msg_id m)
     (case msg_direction m of DirClientToServer \<Rightarrow> ''C2S'' | DirServerToClient \<Rightarrow> ''S2C'')) s)"
  have base: "log_ok (ss_events ?s) (ss_protocol_state s)" "ss_protocol_state ?s = ss_protocol_state s"
    using assms by (auto intro!: log_ok_plain [of _ "ss_protocol_state s"])
  have one: "log_ok (ss_events (set_state t ?s)) t" for t
    by (rule log_ok_set_state) (simp only: base)
  have two: "log_ok (ss_events (set_state u (set_state t ?s))) u" for t u
    by (rule log_ok_set_state) (simp only: set_state_frame one)
  have resp: "log_ok (es @ map EvResponseSent is) p" if "log_ok es p" for es "is" p
    using that by (rule log_ok_plain) simp
  have ids: "received_ids (ss_events (set_state t x)) = received_ids (ss_events x)" for t x
    by (simp add: set_state_events)
  show ?thesis
  proof (cases "transition (ss_protocol_state s) m")
    case (Rejected e)
    then show ?thesis
      using assms
      by (auto simp: handle_message_def Let_def dispatch_in_simp intro!: log_ok_plain [of _ "ss_protocol_state s"])
  next
    case (Advanced a b)
    then show ?thesis
      using two [of b b] two [of _ b] base
      by (simp add: handle_message_def Let_def dispatch_in_simp log_responses_events ids resp split: sum.split)
         (use log_ok_set_state [OF _] in \<open>auto simp: resp\<close>)
  next
    case (Observed b)
    then show ?thesis
      using two [of b b] two [of _ b] base
      by (simp add: handle_message_def Let_def dispatch_in_simp log_responses_events ids resp split: sum.split)
         (use log_ok_set_state [OF _] in \<open>auto simp: resp\<close>)
  qed
qed

lemma session_step_log:
  assumes "log_ok (ss_events s) (ss_protocol_state s)"
  shows "log_ok (ss_events (session_step s p)) (ss_protocol_state (session_step s p))
     \<and> received_ids (ss_events (session_step s p)) = received_ids (ss_events s) @ map msg_id (op_messages [p])"
proof (cases p)
  case (OpMessage m)
  then show ?thesis using handle_message_log [OF assms, of m] by simp
next
  case OpBeginClose
  then show ?thesis
    using log_ok_set_state [OF assms] by (simp add: session_begin_close_def) (simp add: set_state_events)
next
  case OpFinishClose
  have "log_ok (ss_events (set_state t s) @ [EvSessionClosed]) t" for t
    using log_ok_set_state [OF assms, of t] by (rule log_ok_plain) simp
  with OpFinishClose show ?thesis
    by (simp add: session_finish_close_def) (simp add: set_state_events)
qed

section \<open>Properties\<close>

text \<open>
  C17. The session implements the protocol machine: whatever messages it is given and
  whenever it is closed, the state of a connection created by \<open>with_material\<close> is the state
  of a run of the machine from \<open>Connected\<close> that begins with the accept and contains exactly
  those messages in order; a session in \<open>EncryptedChannelEstablished\<close> or \<open>Active\<close> has handled
  a client \<open>0x1E\<close>, then a client \<open>0x19\<close>, then a client \<open>0x79\<close>.
\<close>

theorem session_refines_machine:
  assumes "with_material c mat = Inr s"
  shows "\<exists>as. ss_protocol_state (foldl session_step s ops) = foldl proto_step Connected (PBegin # as)
     \<and> act_messages as = op_messages ops
     \<and> (ss_protocol_state (foldl session_step s ops) \<in> {EncryptedChannelEstablished, Active} \<longrightarrow>
         (\<exists>b0 b1 b2 b3 m1 m2 m3. op_messages ops = b0 @ m1 # b1 @ m2 # b2 @ m3 # b3
            \<and> client_message 0x1E m1 \<and> client_message 0x19 m2 \<and> client_message 0x79 m3))"
proof -
  note w = with_material_ok [OF assms]
  obtain as where r: "ss_protocol_state (foldl session_step s ops) = foldl proto_step Connected (PBegin # as)"
      and m: "act_messages as = op_messages ops"
    using session_run_acts [of s ops] w(1) by auto
  have "\<exists>b0 b1 b2 b3 m1 m2 m3. op_messages ops = b0 @ m1 # b1 @ m2 # b2 @ m3 # b3
      \<and> client_message 0x1E m1 \<and> client_message 0x19 m2 \<and> client_message 0x79 m3"
    if st: "ss_protocol_state (foldl session_step s ops) \<in> {EncryptedChannelEstablished, Active}"
  proof -
    obtain a0 a1 a2 a3 a4 a5 m1 m2 m3 where
      "PBegin # as = a0 @ PBegin # a1 @ PMessage m1 # a2 @ PMessage m2 # a3 @ PMessage m3 # a4 @ PComplete # a5"
      and c: "client_message 0x1E m1" "client_message 0x19 m2" "client_message 0x79 m3"
      using handshake_split [of "PBegin # as"] st r by auto
    then have "act_messages (PBegin # as) = act_messages (a0 @ PBegin # a1) @ m1 # act_messages a2
        @ m2 # act_messages a3 @ m3 # act_messages (a4 @ PComplete # a5)"
      by simp
    then have "op_messages ops = act_messages (a0 @ PBegin # a1) @ m1 # act_messages a2
        @ m2 # act_messages a3 @ m3 # act_messages (a4 @ PComplete # a5)"
      using m by simp
    with c show ?thesis by blast
  qed
  with r m show ?thesis by blast
qed

theorem session_refines_machine_witness:
  "let c = (\<lambda>i. OpMessage (BUnknown \<lparr>um_id = i, um_context = 0, um_direction = DirClientToServer, um_payload = []\<rparr>));
       ops = [c 0x1E, c 0x30, c 0x19, c 0x79]
   in \<exists>s as. new_synthetic 7 = Inr s
     \<and> ss_protocol_state (foldl session_step s ops) = foldl proto_step Connected (PBegin # as)
     \<and> act_messages as = op_messages ops"
proof -
  obtain s where s: "with_material 7 session_material_default = Inr s"
    using context_new_ok [of SYNTHETIC_SESSION_KEY SYNTHETIC_SESSION_NONCE]
    by (auto simp: with_material_def session_material_default_def bap_session_new_def Let_def
        SYNTHETIC_SESSION_KEY_def SYNTHETIC_SESSION_NONCE_def)
  then have "new_synthetic 7 = Inr s" by (simp add: new_synthetic_def)
  then show ?thesis
    using session_refines_machine [OF s] unfolding Let_def by blast
qed

text \<open>
  C27. The event log is the history: after any run of a session the \<open>StateTransition\<close> events
  form an unbroken path, without repetition of a state in a step, from
  \<open>WAITING_FOR_SERVICE_HANDSHAKE\<close> to the current state, and the \<open>MessageReceived\<close> events are the
  ids of the handled messages in order.
\<close>

theorem event_log_faithful:
  assumes "with_material c mat = Inr s"
  shows "log_path (protocol_state_str WaitingForServiceHandshake) (ss_events (foldl session_step s ops))
       (protocol_state_str (ss_protocol_state (foldl session_step s ops)))
     \<and> received_ids (ss_events (foldl session_step s ops)) = map msg_id (op_messages ops)"
proof -
  note w = with_material_ok [OF assms]
  have "log_ok (ss_events (foldl session_step s ops)) (ss_protocol_state (foldl session_step s ops))
     \<and> received_ids (ss_events (foldl session_step s ops)) = map msg_id (op_messages ops)"
  proof (induction ops rule: rev_induct)
    case Nil
    show ?case using w(1,2) by (simp add: log_ok_def)
  next
    case (snoc p ops)
    then show ?case using session_step_log [of "foldl session_step s ops" p] by simp
  qed
  then show ?thesis by (simp add: log_ok_def)
qed

theorem event_log_faithful_witness:
  "let c = (\<lambda>i. OpMessage (BUnknown \<lparr>um_id = i, um_context = 0, um_direction = DirClientToServer, um_payload = []\<rparr>));
       ops = [c 0x1E, c 0x30, OpBeginClose, OpFinishClose]
   in \<exists>s. new_synthetic 7 = Inr s
     \<and> received_ids (ss_events (foldl session_step s ops)) = [0x1E, 0x30]"
proof -
  obtain s where s: "with_material 7 session_material_default = Inr s"
    using context_new_ok [of SYNTHETIC_SESSION_KEY SYNTHETIC_SESSION_NONCE]
    by (auto simp: with_material_def session_material_default_def bap_session_new_def Let_def
        SYNTHETIC_SESSION_KEY_def SYNTHETIC_SESSION_NONCE_def)
  let ?c = "\<lambda>i. OpMessage (BUnknown \<lparr>um_id = i, um_context = 0, um_direction = DirClientToServer, um_payload = []\<rparr>)"
  from event_log_faithful [OF s, of "[?c 0x1E, ?c 0x30, OpBeginClose, OpFinishClose]"] s
  show ?thesis by (auto simp: new_synthetic_def op_messages_def)
qed

definition outcome_ok :: "stateful_session \<Rightarrow> bap_message \<Rightarrow> bool" where
  "outcome_ok s m =
     (let p = ss_protocol_state s; tr = transition p m; act = decide (ss_policy s) p m;
          s' = snd (handle_message s m) in
      case fst (handle_message s m) of
        Inl e \<Rightarrow> e = UnexpectedMessage (msg_id m) \<and> act = RejectAction \<and> \<not> result_is_rejected tr
      | Inr h \<Rightarrow>
          hr_transition h = tr \<and> hr_message h = m
          \<and> hr_dispatch h = fst (dispatch (ss_dispatcher s) m)
          \<and> ss_dispatcher s' = snd (dispatch (ss_dispatcher s) m)
          \<and> (if result_is_rejected tr
             then hr_actions h = [NoAction] \<and> ss_protocol_state s' = p
             else hr_actions h = [act] \<and> act \<noteq> RejectAction
               \<and> drop (length (ss_events s' ) - length (List.map_filter reply_sends [act])) (ss_events s')
                   = map EvResponseSent (List.map_filter reply_sends [act])))"

lemma handle_outcome_ok: "outcome_ok s m"
proof (cases "transition (ss_protocol_state s) m")
  case (Rejected e)
  then show ?thesis
    by (simp add: outcome_ok_def handle_message_def Let_def dispatch_in_simp)
next
  case (Advanced a b)
  then show ?thesis
    using established_79(1) [of m a b]
    by (cases "ss_protocol_state s = SessionEstablished")
       (auto simp: outcome_ok_def handle_message_def Let_def dispatch_in_simp log_responses_events
          client_message_def)
next
  case (Observed t)
  then show ?thesis
    using established_79(2) [of m t]
    by (cases "ss_protocol_state s = SessionEstablished")
       (auto simp: outcome_ok_def handle_message_def Let_def dispatch_in_simp log_responses_events)
qed

text \<open>
  The outcome of \<open>handle_message\<close>, on every branch: a rejected transition answers with no
  action and leaves state and session alone; an accepted one answers with exactly the
  action the policy chose from the state before, and logs a \<open>ResponseSent\<close> for it if it sends;
  the only error is \<open>UnexpectedMessage\<close> when the policy rejects an unknown id.
\<close>

lemma handle_outcome: "outcome_ok s m"
  by (rule handle_outcome_ok)

text \<open>
  The order of the handler has a visible effect: under \<open>UnknownPolicy::Reject\<close> an unknown
  message is answered with an error, but the state has already moved to \<open>Active\<close>, and the
  dispatcher never sees the message.
\<close>

lemma reject_policy_still_advances:
  assumes "ss_protocol_state s = EncryptedChannelEstablished" "rp_unknown (ss_policy s) = PolicyReject"
    and "msg_id m = 0x300" "\<not> msg_is_known m"
  shows "fst (handle_message s m) = Inl (UnexpectedMessage 0x300)
     \<and> ss_protocol_state (snd (handle_message s m)) = Active
     \<and> ss_dispatcher (snd (handle_message s m)) = ss_dispatcher s"
  using assms
  by (simp add: handle_message_def Let_def transition_def decide_def expected_c2s_def expected_s2c_def
      msg_consts)

end
