(* ===== verification/Stream_Framing.thy ===== *)
theory Stream_Framing
  imports Framing Interfaces
begin

text \<open>
  \<open>network/src/stream_framing.rs\<close>: the incremental decoder \<open>BapStreamDecoder\<close>. Its state
  is the buffer and the largest accepted body; \<open>push\<close> appends a chunk and carves out every
  complete frame. The theory interprets the decoder contract, shows that the decoder loses
  and invents no byte, that its buffer stays bounded, and that it undoes serialization for
  every cut of the stream into chunks.
\<close>

section \<open>Data\<close>

definition STREAM_HEADER_LEN :: nat where "STREAM_HEADER_LEN = 6"
definition MAX_BODY_LEN :: nat where "MAX_BODY_LEN = 4 * 1024 * 1024"

datatype stream_error =
    InvalidMagic u8
  | InvalidKind u8
  | FrameTooLarge u32
  | IncompleteAtEnd nat

record raw_frame =
  rf_kind :: u8
  rf_body :: bytes
  rf_raw_bytes :: bytes

definition raw_body_len :: "raw_frame \<Rightarrow> nat" where
  "raw_body_len r = length (rf_body r)"

record stream_decoder =
  sd_buf :: bytes
  sd_max_body_len :: nat

section \<open>Operations\<close>

definition decoder_new :: stream_decoder where
  "decoder_new = \<lparr>sd_buf = [], sd_max_body_len = MAX_BODY_LEN\<rparr>"

definition decoder_with_max :: "nat \<Rightarrow> stream_decoder" where
  "decoder_with_max m = \<lparr>sd_buf = [], sd_max_body_len = m\<rparr>"

text \<open>The derived \<open>Default\<close>: every field at the default of its type.\<close>

definition decoder_default :: stream_decoder where
  "decoder_default = \<lparr>sd_buf = [], sd_max_body_len = 0\<rparr>"

definition decoder_buffered_len :: "stream_decoder \<Rightarrow> nat" where
  "decoder_buffered_len d = length (sd_buf d)"

definition decoder_reset :: "stream_decoder \<Rightarrow> stream_decoder" where
  "decoder_reset d = d\<lparr>sd_buf := []\<rparr>"

text \<open>The loop of \<open>drain_complete\<close>, on the buffer; an error drops the frames already carved.\<close>

function drain_loop :: "nat \<Rightarrow> bytes \<Rightarrow> (stream_error + raw_frame list) \<times> bytes" where
  "drain_loop max_body buf =
     (if length buf < STREAM_HEADER_LEN then (Inr [], buf)
      else let magic = buf ! 0; kind = buf ! 1;
               body_len = u32_from_be_bytes (slice_of 2 6 buf);
               tot = STREAM_HEADER_LEN + unat body_len
      in if magic \<noteq> BAP_MAGIC then (Inl (InvalidMagic magic), buf)
         else if kind \<noteq> KIND_ENCRYPTED \<and> kind \<noteq> KIND_CLEAR then (Inl (InvalidKind kind), buf)
         else if max_body < unat body_len then (Inl (FrameTooLarge body_len), buf)
         else if length buf < tot then (Inr [], buf)
         else (case drain_loop max_body (drop tot buf) of
                 (Inl e, rest) \<Rightarrow> (Inl e, rest)
               | (Inr out, rest) \<Rightarrow>
                   (Inr (\<lparr>rf_kind = kind, rf_body = drop STREAM_HEADER_LEN (take tot buf),
                          rf_raw_bytes = take tot buf\<rparr> # out), rest)))"
  by pat_completeness auto
termination
  by (relation "measure (\<lambda>(m, buf). length buf)") (auto simp: STREAM_HEADER_LEN_def)

declare drain_loop.simps [simp del]

definition decoder_push ::
  "stream_decoder \<Rightarrow> bytes \<Rightarrow> (stream_error + raw_frame list) \<times> stream_decoder" where
  "decoder_push d chunk =
     (let buf = (if chunk \<noteq> [] then sd_buf d @ chunk else sd_buf d)
      in case drain_loop (sd_max_body_len d) buf of (r, rest) \<Rightarrow> (r, d\<lparr>sd_buf := rest\<rparr>))"

definition decoder_finish :: "stream_decoder \<Rightarrow> stream_error + unit" where
  "decoder_finish d =
     (if sd_buf d = [] then Inr () else Inl (IncompleteAtEnd (length (sd_buf d))))"

section \<open>The loop, one round at a time\<close>

text \<open>The three outcomes of a round: an error, waiting for bytes, or one more frame.\<close>

datatype head_view = HErr stream_error | HWait | HFrame raw_frame nat

definition head_of :: "nat \<Rightarrow> bytes \<Rightarrow> head_view" where
  "head_of m buf =
     (if length buf < 6 then HWait
      else if buf ! 0 \<noteq> BAP_MAGIC then HErr (InvalidMagic (buf ! 0))
      else if buf ! 1 \<noteq> KIND_ENCRYPTED \<and> buf ! 1 \<noteq> KIND_CLEAR then HErr (InvalidKind (buf ! 1))
      else let n = u32_from_be_bytes (slice_of 2 6 buf) in
        if m < unat n then HErr (FrameTooLarge n)
        else if length buf < 6 + unat n then HWait
        else HFrame \<lparr>rf_kind = buf ! 1, rf_body = drop 6 (take (6 + unat n) buf),
                     rf_raw_bytes = take (6 + unat n) buf\<rparr> (6 + unat n))"

lemma drain_loop_head:
  "drain_loop m buf =
     (case head_of m buf of
        HErr e \<Rightarrow> (Inl e, buf)
      | HWait \<Rightarrow> (Inr [], buf)
      | HFrame r n \<Rightarrow>
          (case drain_loop m (drop n buf) of
             (Inl e, rest) \<Rightarrow> (Inl e, rest)
           | (Inr out, rest) \<Rightarrow> (Inr (r # out), rest)))"
  unfolding head_of_def Let_def
    if_distrib [of "case_head_view (\<lambda>e. (Inl e, buf)) (Inr [], buf) g" for g] head_view.case
  by (subst drain_loop.simps) (simp only: STREAM_HEADER_LEN_def Let_def)

lemma slice_of_append_left: "b \<le> length xs \<Longrightarrow> slice_of a b (xs @ ys) = slice_of a b xs"
  by (cases "a \<le> b") (simp_all add: slice_of_def)

lemma header_append:
  assumes "6 \<le> length a"
  shows "(a @ b) ! 0 = a ! 0" "(a @ b) ! 1 = a ! 1" "slice_of 2 6 (a @ b) = slice_of 2 6 a"
  using assms by (auto simp: nth_append slice_of_append_left)

text \<open>More bytes do not change a round that did not wait.\<close>

lemma head_of_append:
  assumes "head_of m a \<noteq> HWait"
  shows "head_of m (a @ b) = head_of m a"
proof -
  have len: "\<not> length a < 6" "\<not> length (a @ b) < 6"
    using assms by (auto simp: head_of_def)
  then have h: "6 \<le> length a" by simp
  let ?n = "u32_from_be_bytes (slice_of 2 6 a)"
  show ?thesis
  proof (cases "length a < 6 + unat ?n")
    case True
    then show ?thesis
      using assms len
      by (simp add: head_of_def header_append [OF h, simplified] Let_def del: length_append split: if_split_asm)
  next
    case False
    then have "\<not> length (a @ b) < 6 + unat ?n" "take (6 + unat ?n) (a @ b) = take (6 + unat ?n) a"
      by simp_all
    with False len show ?thesis
      by (simp only: head_of_def header_append [OF h] Let_def if_False)
  qed
qed

lemma head_of_append_err: "head_of m a = HErr e \<Longrightarrow> head_of m (a @ b) = HErr e"
  by (simp add: head_of_append)

lemma head_of_append_frame: "head_of m a = HFrame r n \<Longrightarrow> head_of m (a @ b) = HFrame r n"
  by (simp add: head_of_append)

lemma head_of_frameD:
  assumes "head_of m buf = HFrame r n"
  shows "6 \<le> n" "n \<le> length buf" "rf_raw_bytes r = take n buf" "rf_body r = drop 6 (take n buf)"
    "rf_kind r = buf ! 1" "buf ! 0 = BAP_MAGIC"
    "rf_kind r = KIND_CLEAR \<or> rf_kind r = KIND_ENCRYPTED"
    "n = 6 + unat (u32_from_be_bytes (slice_of 2 6 buf))" "n \<le> 6 + m"
  using assms by (auto simp: head_of_def Let_def split: if_splits)

lemma drain_induct [case_names round]:
  assumes "\<And>buf. (\<And>r n. head_of m buf = HFrame r n \<Longrightarrow> P (drop n buf)) \<Longrightarrow> P buf"
  shows "P buf"
proof (induction buf rule: length_induct)
  case (1 buf)
  show ?case
  proof (rule assms)
    fix r n
    assume "head_of m buf = HFrame r n"
    then have "length (drop n buf) < length buf"
      using head_of_frameD [of m buf r n] by simp
    then show "P (drop n buf)" using 1 by blast
  qed
qed

section \<open>Splitting the input\<close>

lemma drain_waits: "head_of m buf = HWait \<Longrightarrow> drain_loop m buf = (Inr [], buf)"
  by (simp add: drain_loop_head [of m buf])

lemma drain_errs: "head_of m buf = HErr e \<Longrightarrow> drain_loop m buf = (Inl e, buf)"
  by (simp add: drain_loop_head [of m buf])

lemma drain_frame:
  "head_of m buf = HFrame r n \<Longrightarrow> drain_loop m buf =
     (case drain_loop m (drop n buf) of
        (Inl e, rest) \<Rightarrow> (Inl e, rest) | (Inr out, rest) \<Rightarrow> (Inr (r # out), rest))"
  by (simp add: drain_loop_head [of m buf])

lemma drain_residual_waits: "drain_loop m a = (Inr fs, r) \<Longrightarrow> head_of m r = HWait"
proof (induction a arbitrary: fs r rule: drain_induct [where m = m])
  case (round a)
  show ?case
  proof (cases "head_of m a")
    case (HFrame x n)
    with round.prems obtain gs where "drain_loop m (drop n a) = (Inr gs, r)"
      by (auto simp: drain_frame split: prod.splits sum.splits)
    then show ?thesis using round.IH [OF HFrame] by blast
  qed (use round.prems in \<open>auto simp: drain_waits drain_errs\<close>)
qed

lemma drain_append_ok:
  "drain_loop m a = (Inr fs, r) \<Longrightarrow> drain_loop m (a @ b) =
     (case drain_loop m (r @ b) of
        (Inl e, x) \<Rightarrow> (Inl e, x) | (Inr gs, x) \<Rightarrow> (Inr (fs @ gs), x))"
proof (induction a arbitrary: fs r rule: drain_induct [where m = m])
  case (round a)
  show ?case
  proof (cases "head_of m a")
    case (HErr e)
    then show ?thesis using round.prems by (simp add: drain_errs)
  next
    case HWait
    then show ?thesis using round.prems
      by (auto simp: drain_waits split: prod.splits sum.splits)
  next
    case (HFrame x n)
    with round.prems obtain gs where d: "drain_loop m (drop n a) = (Inr gs, r)" and fs: "fs = x # gs"
      by (auto simp: drain_frame split: prod.splits sum.splits)
    have "n \<le> length a" using head_of_frameD [OF HFrame] by simp
    then show ?thesis
      using round.IH [OF HFrame d] head_of_append_frame [OF HFrame]
      by (auto simp: drain_frame fs split: prod.splits sum.splits)
  qed
qed

lemma drain_append_err:
  "drain_loop m a = (Inl e, r) \<Longrightarrow> drain_loop m (a @ b) = (Inl e, r @ b)"
proof (induction a arbitrary: r rule: drain_induct [where m = m])
  case (round a)
  show ?case
  proof (cases "head_of m a")
    case (HFrame x n)
    then have "drain_loop m (drop n a) = (Inl e, r)" and "n \<le> length a"
      using round.prems head_of_frameD [OF HFrame]
      by (auto simp: drain_frame split: prod.splits sum.splits)
    then show ?thesis
      using round.IH [OF HFrame] head_of_append_frame [OF HFrame]
      by (auto simp: drain_frame)
  qed (use round.prems in \<open>auto simp: drain_waits drain_errs head_of_append_err\<close>)
qed

lemma decoder_push_eq:
  "decoder_push d c =
     (fst (drain_loop (sd_max_body_len d) (sd_buf d @ c)),
      d\<lparr>sd_buf := snd (drain_loop (sd_max_body_len d) (sd_buf d @ c))\<rparr>)"
  by (simp add: decoder_push_def Let_def split: prod.splits)

lemma decoder_push_max [frame_rules]:
  "sd_max_body_len (snd (decoder_push d c)) = sd_max_body_len d"
  by (simp add: decoder_push_eq)

section \<open>The decoder contract\<close>

text \<open>A decoder is idle when its buffer holds no complete frame and no bad header.\<close>

definition decoder_idle :: "stream_decoder \<Rightarrow> bool" where
  "decoder_idle d = (head_of (sd_max_body_len d) (sd_buf d) = HWait)"

lemma decoder_idle_new [simp]:
  "decoder_idle decoder_new" "decoder_idle (decoder_with_max m)" "decoder_idle (decoder_reset d)"
  by (simp_all add: decoder_idle_def decoder_new_def decoder_with_max_def decoder_reset_def head_of_def)

interpretation stream: chunk_decoder decoder_push decoder_idle
proof unfold_locales
  fix d :: stream_decoder and a b d' fs
  assume "decoder_push d a = (Inr fs, d')"
  then have p: "drain_loop (sd_max_body_len d) (sd_buf d @ a) = (Inr fs, sd_buf d')"
      and m: "sd_max_body_len d' = sd_max_body_len d"
    by (auto simp: decoder_push_eq prod_eq_iff)
  show "decoder_idle d'"
    using drain_residual_waits [OF p] m by (simp add: decoder_idle_def)
  note app = drain_append_ok [OF p, of b]
  {
    fix gs d''
    assume "decoder_push d' b = (Inr gs, d'')"
    then show "decoder_push d (a @ b) = (Inr (fs @ gs), d'')"
      using app m by (auto simp: decoder_push_eq prod_eq_iff split: prod.splits sum.splits)
  next
    fix e d''
    assume "decoder_push d' b = (Inl e, d'')"
    then show "fst (decoder_push d (a @ b)) = Inl e"
      using app m by (auto simp: decoder_push_eq prod_eq_iff split: prod.splits sum.splits)
  }
next
  fix d :: stream_decoder and a b e d'
  assume "decoder_push d a = (Inl e, d')"
  then have p: "drain_loop (sd_max_body_len d) (sd_buf d @ a) = (Inl e, sd_buf d')"
    by (auto simp: decoder_push_eq prod_eq_iff)
  show "fst (decoder_push d (a @ b)) = Inl e"
    using drain_append_err [OF p, of b] by (simp add: decoder_push_eq)
next
  fix d
  assume "decoder_idle d"
  then show "decoder_push d [] = (Inr [], d)"
    by (simp add: decoder_push_eq decoder_idle_def drain_waits)
qed

section \<open>Conservation, well-formed output and the bounded buffer\<close>

definition raw_wf :: "nat \<Rightarrow> raw_frame \<Rightarrow> bool" where
  "raw_wf m r \<longleftrightarrow>
     (rf_kind r = KIND_CLEAR \<or> rf_kind r = KIND_ENCRYPTED) \<and> length (rf_body r) \<le> m
     \<and> length (rf_body r) < 2 ^ 32
     \<and> rf_raw_bytes r = [BAP_MAGIC, rf_kind r] @ u32_to_be_bytes (of_nat (length (rf_body r))) @ rf_body r"

lemma split_header:
  assumes "6 \<le> length (buf :: bytes)"
  shows "buf = [buf ! 0, buf ! 1] @ slice_of 2 6 buf @ drop 6 buf"
proof -
  have "take 2 buf = [buf ! 0, buf ! 1]"
    using assms by (cases buf; cases "tl buf") (auto simp: numeral_2_eq_2)
  then show ?thesis
    using slice_of_append_drop [of 2 6 buf] assms append_take_drop_id [of 2 buf] by simp
qed

lemma head_of_frame_wf:
  assumes "head_of m buf = HFrame r n"
  shows "raw_wf m r" and "n = length (rf_raw_bytes r)"
proof -
  note h = head_of_frameD [OF assms]
  have body: "length (rf_body r) = unat (u32_from_be_bytes (slice_of 2 6 buf))"
    using h by simp
  have "length (slice_of 2 6 buf) = 4" using h by simp
  then have len: "u32_to_be_bytes (of_nat (length (rf_body r))) = slice_of 2 6 buf"
    unfolding body by (simp only: of_nat_unat ucast_id u32_to_from_be)
  have "take n buf = [take n buf ! 0, take n buf ! 1] @ slice_of 2 6 (take n buf) @ drop 6 (take n buf)"
    using h by (intro split_header) simp
  moreover have "slice_of 2 6 (take n buf) = slice_of 2 6 buf"
    using h(1) by (simp add: slice_of_def drop_take min_def)
  ultimately have "rf_raw_bytes r = [BAP_MAGIC, rf_kind r] @ slice_of 2 6 buf @ rf_body r"
    using h by simp
  moreover have "length (rf_body r) < 2 ^ 32"
    unfolding body by simp
  ultimately show "raw_wf m r"
    using h body len by (simp add: raw_wf_def)
  show "n = length (rf_raw_bytes r)"
    using h by simp
qed

lemma drain_conserves:
  "drain_loop m a = (Inr fs, r) \<Longrightarrow> concat (map rf_raw_bytes fs) @ r = a \<and> (\<forall>f \<in> set fs. raw_wf m f)"
proof (induction a arbitrary: fs r rule: drain_induct [where m = m])
  case (round a)
  show ?case
  proof (cases "head_of m a")
    case (HFrame x n)
    with round.prems obtain gs where d: "drain_loop m (drop n a) = (Inr gs, r)" and fs: "fs = x # gs"
      by (auto simp: drain_frame split: prod.splits sum.splits)
    show ?thesis
      using round.IH [OF HFrame d] head_of_frame_wf(1) [OF HFrame] head_of_frameD(3) [OF HFrame]
      by (simp add: fs)
  qed (use round.prems in \<open>auto simp: drain_waits drain_errs\<close>)
qed

lemma head_waits_bound: "head_of m buf = HWait \<Longrightarrow> length buf < 6 + m"
  by (auto simp: head_of_def Let_def split: if_splits)

section \<open>Serialized frames come back\<close>

lemma head_of_raw:
  assumes "raw_wf m r"
  shows "head_of m (rf_raw_bytes r @ rest) = HFrame r (length (rf_raw_bytes r))"
proof -
  let ?buf = "[BAP_MAGIC, rf_kind r] @ u32_to_be_bytes (of_nat (length (rf_body r))) @ rf_body r @ rest"
  have raw: "rf_raw_bytes r = [BAP_MAGIC, rf_kind r] @ u32_to_be_bytes (of_nat (length (rf_body r))) @ rf_body r"
    and k: "rf_kind r = KIND_CLEAR \<or> rf_kind r = KIND_ENCRYPTED" and le: "length (rf_body r) \<le> m"
    using assms by (auto simp: raw_wf_def)
  have buf: "rf_raw_bytes r @ rest = ?buf" by (simp add: raw)
  have n: "unat (u32_from_be_bytes (slice_of 2 6 ?buf)) = length (rf_body r)"
    using assms by (simp only: slice_header u32_from_to_be) (simp add: raw_wf_def unat_of_nat)
  have L: "length (rf_raw_bytes r) = 6 + length (rf_body r)" by (simp add: raw)
  have tk: "take (6 + length (rf_body r)) ?buf = rf_raw_bytes r"
    by (simp only: L [symmetric] buf [symmetric]) simp
  have "rf_body r = drop 6 (rf_raw_bytes r)" by (simp add: raw)
  then have r: "\<lparr>rf_kind = rf_kind r, rf_body = drop 6 (rf_raw_bytes r), rf_raw_bytes = rf_raw_bytes r\<rparr> = r"
    by simp
  have bytes: "?buf ! 0 = BAP_MAGIC" "?buf ! 1 = rf_kind r" by simp_all
  have len: "\<not> length ?buf < 6" "\<not> length ?buf < 6 + length (rf_body r)" by simp_all
  show ?thesis
    unfolding buf L head_of_def Let_def n tk bytes r using k le len by auto
qed

lemma raw_nonempty: "raw_wf m r \<Longrightarrow> 6 \<le> length (rf_raw_bytes r)"
  by (simp add: raw_wf_def)

lemma drain_raws:
  "(\<forall>r \<in> set rs. raw_wf m r) \<Longrightarrow> head_of m rest = HWait \<Longrightarrow>
   drain_loop m (concat (map rf_raw_bytes rs) @ rest) = (Inr rs, rest)"
  by (induction rs) (simp_all add: drain_waits drain_frame head_of_raw)

text \<open>The frame a session parses from the raw bytes: never a framing error of the header.\<close>

lemma frame_parse_raw:
  assumes "raw_wf m r"
  shows "frame_parse (rf_raw_bytes r) =
    (case parse_body (kind_from_u8 (rf_kind r)) (rf_body r) of
       Inl e \<Rightarrow> Inl e
     | Inr b \<Rightarrow> Inr (\<lparr>bf_kind = kind_from_u8 (rf_kind r), bf_body = b\<rparr>, length (rf_raw_bytes r)))"
  using assms frame_parse_layout [of "rf_body r" "rf_kind r" "[]"]
  by (simp add: raw_wf_def split: sum.split)

section \<open>Properties\<close>

text \<open>
  C9. Chunking is invisible: whatever way a byte stream is cut into chunks, pushing the chunks
  one after the other into \<open>BapStreamDecoder\<close> gives the same frames, or the same error, as
  any other cut of the same bytes.
\<close>

theorem stream_chunk_invariance:
  assumes "concat cs = concat cs'"
  shows "fst (feed_all decoder_push (decoder_with_max m) cs)
       = fst (feed_all decoder_push (decoder_with_max m) cs')"
  using assms by (intro stream.feed_all_chunking) simp_all

theorem stream_chunk_invariance_witness:
  "fst (feed_all decoder_push (decoder_with_max 9) [[1, 2, 0], [0, 0, 1, 7, 1]])
     = fst (feed_all decoder_push (decoder_with_max 9) [[1], [], [2, 0, 0, 0, 1, 7], [1]])
   \<and> is_ok (fst (feed_all decoder_push (decoder_with_max 9) [[1, 2, 0], [0, 0, 1, 7, 1]]))"
proof -
  have "concat [[1, 2, 0], [0, 0, 1, 7, 1]] = concat [[1], [], [2, 0, 0, 0, 1, 7], [1 :: u8]]" by simp
  note stream_chunk_invariance [OF this, of 9]
  moreover have "is_ok (fst (feed_all decoder_push (decoder_with_max 9) [[1, 2, 0], [0, 0, 1, 7, 1]]))"
    by code_simp
  ultimately show ?thesis by simp
qed

text \<open>
  Reassembly: frames of kind 1 or 2 with bodies within the limit, serialized back to back
  and cut into chunks at arbitrary places, come out of the decoder in order and unchanged,
  and \<open>finish\<close> accepts the end of the stream.
\<close>

lemma stream_reassembly:
  assumes "\<forall>r \<in> set rs. raw_wf m r" and "concat cs = concat (map rf_raw_bytes rs)"
  shows "\<exists>d. feed_all decoder_push (decoder_with_max m) cs = (Inr rs, d) \<and> decoder_finish d = Inr ()"
proof -
  let ?d = "decoder_with_max m"
  have "drain_loop m (concat (map rf_raw_bytes rs)) = (Inr rs, [])"
    using drain_raws [OF assms(1), of "[]"] by (simp add: head_of_def)
  then have "feed_all decoder_push ?d [concat cs] = (Inr rs, ?d\<lparr>sd_buf := []\<rparr>)"
    using assms(2) by (simp add: decoder_push_eq decoder_with_max_def)
  then have "feed_all decoder_push ?d cs = (Inr rs, ?d\<lparr>sd_buf := []\<rparr>)"
    by (rule stream.feed_all_state [rotated]) simp_all
  then show ?thesis by (auto simp: decoder_finish_def)
qed

theorem stream_reassembly_witness:
  "\<exists>d. feed_all decoder_push (decoder_with_max 4) [[1, 2, 0, 0], [0, 1, 9]]
        = (Inr [\<lparr>rf_kind = 2, rf_body = [9], rf_raw_bytes = [1, 2, 0, 0, 0, 1, 9]\<rparr>], d)
     \<and> decoder_finish d = Inr ()"
proof (rule stream_reassembly)
  show "\<forall>r \<in> set [\<lparr>rf_kind = 2, rf_body = [9], rf_raw_bytes = [1, 2, 0, 0, 0, 1, 9]\<rparr>]. raw_wf 4 r"
    by code_simp
  show "concat [[1, 2, 0, 0], [0, 1, 9 :: u8]]
      = concat (map rf_raw_bytes [\<lparr>rf_kind = 2, rf_body = [9], rf_raw_bytes = [1, 2, 0, 0, 0, 1, 9]\<rparr>])"
    by simp
qed

text \<open>
  C31. No byte is lost or invented: after a successful push the raw bytes of the returned
  frames followed by the new buffer are exactly the old buffer followed by the chunk, every
  returned frame has a consistent header, and what stays buffered is shorter than one
  maximal frame, whatever the input.
\<close>

theorem push_conserves_and_bounds:
  assumes "decoder_push d chunk = (Inr fs, d')"
  shows "concat (map rf_raw_bytes fs) @ sd_buf d' = sd_buf d @ chunk
       \<and> (\<forall>f \<in> set fs. raw_wf (sd_max_body_len d) f)
       \<and> decoder_buffered_len d' < STREAM_HEADER_LEN + sd_max_body_len d"
proof -
  have p: "drain_loop (sd_max_body_len d) (sd_buf d @ chunk) = (Inr fs, sd_buf d')"
    using assms by (auto simp: decoder_push_eq prod_eq_iff)
  show ?thesis
    using drain_conserves [OF p] head_waits_bound [OF drain_residual_waits [OF p]]
    by (simp add: decoder_buffered_len_def STREAM_HEADER_LEN_def)
qed

theorem push_conserves_and_bounds_witness:
  "let d = decoder_with_max 4; chunk = [1, 2, 0, 0, 0, 1, 9, 1] in
   \<exists>fs d'. decoder_push d chunk = (Inr fs, d')
     \<and> concat (map rf_raw_bytes fs) @ sd_buf d' = sd_buf d @ chunk \<and> sd_buf d' = [1]"
proof -
  let ?fs = "[\<lparr>rf_kind = 2, rf_body = [9], rf_raw_bytes = [1, 2, 0, 0, 0, 1, 9]\<rparr>]"
  let ?d' = "\<lparr>sd_buf = [1], sd_max_body_len = 4\<rparr>"
  have p: "decoder_push (decoder_with_max 4) [1, 2, 0, 0, 0, 1, 9, 1] = (Inr ?fs, ?d')"
    by code_simp
  from push_conserves_and_bounds [OF p] p show ?thesis by (auto simp: Let_def)
qed

text \<open>
  The stream decoder and the frame parser agree: a frame the decoder returned is parsed
  by \<open>BapFrame::parse\<close> as the same kind with nothing left over, or rejected only because its
  body is shorter than the clear header or the tag; a header error cannot occur any more.
\<close>

lemma pushed_frames_parse:
  assumes "decoder_push d chunk = (Inr fs, d')" and "r \<in> set fs"
  shows "(\<exists>f. frame_parse (rf_raw_bytes r) = Inr (f, length (rf_raw_bytes r))
              \<and> bf_kind f = kind_from_u8 (rf_kind r) \<and> serialize_body (bf_body f) = Inr (rf_body r))
       \<or> frame_parse (rf_raw_bytes r) = Inl TruncatedClearBody \<and> length (rf_body r) < CLEAR_HEADER_LEN
       \<or> frame_parse (rf_raw_bytes r) = Inl TruncatedEncryptedTag
          \<and> length (rf_body r) < ENCRYPTED_TAG_LEN"
proof -
  have p: "drain_loop (sd_max_body_len d) (sd_buf d @ chunk) = (Inr fs, sd_buf d')"
    using assms(1) by (auto simp: decoder_push_eq prod_eq_iff)
  then have wf: "raw_wf (sd_max_body_len d) r"
    using drain_conserves assms(2) by blast
  show ?thesis
  proof (cases "parse_body (kind_from_u8 (rf_kind r)) (rf_body r)")
    case (Inl e)
    then show ?thesis
      using frame_parse_raw [OF wf]
      by (auto simp: parse_body_def parse_clear_body_def parse_encrypted_body_def
          split: frame_kind.splits if_splits)
  next
    case (Inr b)
    then show ?thesis
      using frame_parse_raw [OF wf] serialize_parse_body [OF Inr] by simp
  qed
qed

theorem pushed_frames_parse_witness:
  "let r = \<lparr>rf_kind = 2, rf_body = [9], rf_raw_bytes = [1, 2, 0, 0, 0, 1, 9]\<rparr> in
   fst (decoder_push (decoder_with_max 4) [1, 2, 0, 0, 0, 1, 9]) = Inr [r]
   \<and> frame_parse (rf_raw_bytes r) = Inl TruncatedClearBody"
proof -
  let ?r = "\<lparr>rf_kind = 2, rf_body = [9], rf_raw_bytes = [1, 2, 0, 0, 0, 1, 9]\<rparr>"
  have p: "decoder_push (decoder_with_max 4) [1, 2, 0, 0, 0, 1, 9] = (Inr [?r], decoder_with_max 4)"
    by code_simp
  have q: "frame_parse (rf_raw_bytes ?r) = Inl TruncatedClearBody"
    by code_simp
  from pushed_frames_parse [OF p, of ?r] p q show ?thesis by (simp add: Let_def)
qed

end
