(* ===== verification/Byte_Source.thy ===== *)
theory Byte_Source
  imports Interfaces
begin

text \<open>
  \<open>network/src/byte_source.rs\<close> and \<open>tcp_byte_source.rs\<close>: where the bytes come from. The
  mock source is a queue of results; the TCP source is an optional stream, and the stream
  itself (\<open>std::net\<close>) is the list of what the operating system will report: bytes that
  arrived, or an error with its text. Both interpret the source contract.
\<close>

section \<open>The mock source\<close>

datatype byte_source_error = SourceFailed string

type_synonym mock_source = "(byte_source_error + bytes) list"

definition mock_new :: "bytes list \<Rightarrow> mock_source" where
  "mock_new chunks = map Inr chunks"

definition mock_from_results :: "(byte_source_error + bytes) list \<Rightarrow> mock_source" where
  "mock_from_results items = items"

definition mock_remaining :: "mock_source \<Rightarrow> nat" where
  "mock_remaining q = length q"

fun mock_read :: "mock_source \<Rightarrow> (byte_source_error + bytes option) \<times> mock_source" where
  "mock_read [] = (Inr None, [])"
| "mock_read (Inr bs # q) = (Inr (Some bs), q)"
| "mock_read (Inl e # q) = (Inl e, q)"

interpretation mock: byte_source mock_read "\<lambda>_. True" id
  by unfold_locales simp_all

section \<open>Cutting a stream into chunks\<close>

definition DEFAULT_PIPELINE_CHUNK_SIZES :: "nat list" where
  "DEFAULT_PIPELINE_CHUNK_SIZES = [1, 2, 3, 7, 13, 31, 64, 127, 256, 17, 5]"

text \<open>The \<open>while offset < stream.len()\<close> loop, on the bytes after \<open>offset\<close>; all sizes positive.\<close>

function chunk_loop :: "nat list \<Rightarrow> nat \<Rightarrow> bytes \<Rightarrow> bytes list" where
  "chunk_loop sizes i rest =
     (if rest = [] then []
      else let n = min (sizes ! (i mod length sizes)) (length rest) in
        if n = 0 then [] else take n rest # chunk_loop sizes (i + 1) (drop n rest))"
  by pat_completeness auto
termination
  by (relation "measure (\<lambda>(sizes, i, rest). length rest)") auto

declare chunk_loop.simps [simp del]

definition chunk_stream :: "bytes \<Rightarrow> nat list \<Rightarrow> bytes list" where
  "chunk_stream stream sizes =
     (let sizes = filter (\<lambda>n. n > 0) sizes;
          sizes = (if sizes = [] then [1] else sizes)
      in chunk_loop sizes 0 stream)"

lemma chunk_loop_step:
  assumes "\<forall>n \<in> set sizes. 0 < n" and "sizes \<noteq> []" and "rest \<noteq> []"
  obtains n where "0 < n" "n \<in> set sizes"
    "chunk_loop sizes i rest = take n rest # chunk_loop sizes (i + 1) (drop n rest)"
proof -
  define k where "k = sizes ! (i mod length sizes)"
  have k: "k \<in> set sizes" "0 < k" using assms(1,2) by (simp_all add: k_def)
  then have m: "min k (length rest) \<noteq> 0" using assms(3) by simp
  have t: "take (min k (length rest)) rest = take k rest" "drop (min k (length rest)) rest = drop k rest"
    by (simp_all add: min_def)
  have "chunk_loop sizes i rest = take k rest # chunk_loop sizes (i + 1) (drop k rest)"
    using m assms(3) t by (simp add: chunk_loop.simps [of sizes i] Let_def flip: k_def)
  with k show thesis by (intro that) auto
qed

lemma chunk_loop_concat:
  assumes "\<forall>n \<in> set sizes. 0 < n" and "sizes \<noteq> []"
  shows "concat (chunk_loop sizes i rest) = rest
     \<and> (\<forall>c \<in> set (chunk_loop sizes i rest). c \<noteq> [] \<and> (\<exists>n \<in> set sizes. length c \<le> n))"
proof (induction "length rest" arbitrary: i rest rule: less_induct)
  case less
  show ?case
  proof (cases "rest = []")
    case True
    then show ?thesis by (simp add: chunk_loop.simps)
  next
    case False
    from chunk_loop_step [OF assms False, of i] obtain n where n: "0 < n" "n \<in> set sizes"
      and step: "chunk_loop sizes i rest = take n rest # chunk_loop sizes (i + 1) (drop n rest)"
      by blast
    have "length (drop n rest) < length rest" using n(1) False by simp
    note ih = less [OF this, of "i + 1"]
    have "length (take n rest) \<le> n" "take n rest \<noteq> []"
      using n(1) False by simp_all
    with ih n(2) show ?thesis
      unfolding step by (metis append_take_drop_id concat.simps(2) set_ConsD)
  qed
qed

definition positive_sizes :: "nat list \<Rightarrow> nat list" where
  "positive_sizes sizes = (if filter (\<lambda>n. n > 0) sizes = [] then [1] else filter (\<lambda>n. n > 0) sizes)"

lemma positive_sizes: "\<forall>n \<in> set (positive_sizes sizes). 0 < n" "positive_sizes sizes \<noteq> []"
  "set (positive_sizes sizes) \<subseteq> set (1 # sizes)"
  by (auto simp: positive_sizes_def)

lemma chunk_stream_eq: "chunk_stream stream sizes = chunk_loop (positive_sizes sizes) 0 stream"
  by (simp add: chunk_stream_def positive_sizes_def)

lemma chunk_stream_concat [simp]: "concat (chunk_stream stream sizes) = stream"
  using chunk_loop_concat [OF positive_sizes(1,2)] by (simp add: chunk_stream_eq)

lemma chunk_stream_bound:
  assumes "c \<in> set (chunk_stream stream sizes)"
  shows "c \<noteq> [] \<and> (\<exists>n \<in> set (1 # sizes). length c \<le> n)"
  using chunk_loop_concat [OF positive_sizes(1,2), of sizes 0 stream] assms positive_sizes(3) [of sizes]
  unfolding chunk_stream_eq by blast

section \<open>The TCP source\<close>

datatype tcp_error =
    InvalidAddress string
  | InvalidTimeout string
  | ConnectionFailed string
  | ReadFailed string
  | TcpClosed
  | TcpTimeout string

fun show_tcp_error :: "tcp_error \<Rightarrow> string" where
  "show_tcp_error (InvalidAddress s) = ''invalid address: '' @ s"
| "show_tcp_error (InvalidTimeout s) = ''invalid timeout: '' @ s"
| "show_tcp_error (ConnectionFailed s) = ''connection failed: '' @ s"
| "show_tcp_error (ReadFailed s) = ''read failed: '' @ s"
| "show_tcp_error TcpClosed = ''connection closed''"
| "show_tcp_error (TcpTimeout s) = ''timeout: '' @ s"

definition byte_error_from_tcp :: "tcp_error \<Rightarrow> byte_source_error" where
  "byte_error_from_tcp e = SourceFailed (show_tcp_error e)"

text \<open>
  What the operating system reports on a socket: bytes that arrived (none: the peer closed),
  or an error, its \<open>ErrorKind\<close> and text. A read into a buffer of \<open>n\<close> bytes takes at most
  \<open>n\<close> of them and leaves the others for the next read; past the end every read returns 0.
\<close>

datatype io_kind = WouldBlock | TimedOut | OtherKind

datatype io_event = IoData bytes | IoError io_kind string

type_synonym tcp_stream = "io_event list"

fun stream_read :: "nat \<Rightarrow> tcp_stream \<Rightarrow> (io_kind \<times> string + bytes) \<times> tcp_stream" where
  "stream_read n [] = (Inr [], [])"
| "stream_read n (IoData bs # evs) =
     (if length bs \<le> n then (Inr bs, evs) else (Inr (take n bs), IoData (drop n bs) # evs))"
| "stream_read n (IoError k msg # evs) = (Inl (k, msg), evs)"

record tcp_source =
  ts_stream :: "tcp_stream option"
  ts_read_buf_size :: nat

definition DEFAULT_READ_BUF :: nat where "DEFAULT_READ_BUF = 8192"

definition tcp_from_stream :: "tcp_stream \<Rightarrow> tcp_source" where
  "tcp_from_stream s = \<lparr>ts_stream = Some s, ts_read_buf_size = DEFAULT_READ_BUF\<rparr>"

definition set_read_buf_size :: "tcp_source \<Rightarrow> nat \<Rightarrow> tcp_source" where
  "set_read_buf_size t n = t\<lparr>ts_read_buf_size := max n 1\<rparr>"

definition read_chunk :: "tcp_source \<Rightarrow> (tcp_error + bytes option) \<times> tcp_source" where
  "read_chunk t =
     (case ts_stream t of
        None \<Rightarrow> (Inl TcpClosed, t)
      | Some stream \<Rightarrow>
          (case stream_read (ts_read_buf_size t) stream of
             (Inr bs, stream') \<Rightarrow>
               if length bs = 0 then (Inr None, t\<lparr>ts_stream := None\<rparr>)
               else (Inr (Some bs), t\<lparr>ts_stream := Some stream'\<rparr>)
           | (Inl (kind, msg), stream') \<Rightarrow>
               (Inl (if kind = WouldBlock \<or> kind = TimedOut then TcpTimeout msg else ReadFailed msg),
                t\<lparr>ts_stream := Some stream'\<rparr>)))"

definition tcp_close :: "tcp_source \<Rightarrow> tcp_source" where
  "tcp_close t = t\<lparr>ts_stream := None\<rparr>"

definition tcp_is_open :: "tcp_source \<Rightarrow> bool" where
  "tcp_is_open t = (ts_stream t \<noteq> None)"

definition tcp_read :: "tcp_source \<Rightarrow> (byte_source_error + bytes option) \<times> tcp_source" where
  "tcp_read t =
     (if ts_stream t = None then (Inr None, t)
      else (case read_chunk t of
          (Inl e, t') \<Rightarrow> (Inl (byte_error_from_tcp e), t')
        | (Inr r, t') \<Rightarrow> (Inr r, t')))"

definition classify_connect_error :: "io_kind \<Rightarrow> string \<Rightarrow> tcp_error" where
  "classify_connect_error kind msg =
     (if kind = TimedOut \<or> kind = WouldBlock then TcpTimeout msg else ConnectionFailed msg)"

text \<open>\<open>TcpEndpoint::new\<close>; durations are in nanoseconds.\<close>

record tcp_endpoint =
  ep_host :: string
  ep_port :: u16
  ep_connect_timeout :: nat
  ep_read_timeout :: "nat option"

definition endpoint_new ::
  "string \<Rightarrow> u16 \<Rightarrow> nat \<Rightarrow> nat option \<Rightarrow> tcp_error + tcp_endpoint" where
  "endpoint_new host port connect_timeout read_timeout =
     (if str_trim host = [] then Inl (InvalidAddress ''host must be non-empty'')
      else if port = 0 then Inl (InvalidAddress ''port must be non-zero'')
      else if connect_timeout = 0 then Inl (InvalidTimeout ''connect_timeout must be non-zero'')
      else if read_timeout = Some 0 then Inl (InvalidTimeout ''read_timeout must be non-zero when set'')
      else Inr \<lparr>ep_host = host, ep_port = port, ep_connect_timeout = connect_timeout,
                ep_read_timeout = read_timeout\<rparr>)"

definition endpoint_loopback :: "u16 \<Rightarrow> nat \<Rightarrow> tcp_error + tcp_endpoint" where
  "endpoint_loopback port connect_timeout = endpoint_new ''127.0.0.1'' port connect_timeout None"

definition socket_addr_string :: "tcp_endpoint \<Rightarrow> string" where
  "socket_addr_string ep = ep_host ep @ '':'' @ show_nat (unat (ep_port ep))"

text \<open>
  The connect loop over the resolved addresses: each attempt is what \<open>connect_timeout\<close>
  returned, a stream (with the result of \<open>set_read_timeout\<close>) or an error.
\<close>

datatype connect_attempt =
    ConnectOk tcp_stream "string option"
  | ConnectError io_kind string

fun connect_loop ::
  "tcp_endpoint \<Rightarrow> tcp_error option \<Rightarrow> connect_attempt list \<Rightarrow> tcp_error + tcp_source" where
  "connect_loop ep last_err [] =
     Inl (case last_err of Some e \<Rightarrow> e
          | None \<Rightarrow> ConnectionFailed (''unable to connect to '' @ socket_addr_string ep))"
| "connect_loop ep last_err (ConnectOk stream timeout_err # as) =
     (case (ep_read_timeout ep, timeout_err) of
        (Some _, Some msg) \<Rightarrow> Inl (ConnectionFailed msg)
      | _ \<Rightarrow> Inr \<lparr>ts_stream = Some stream, ts_read_buf_size = DEFAULT_READ_BUF\<rparr>)"
| "connect_loop ep last_err (ConnectError kind msg # as) =
     connect_loop ep (Some (classify_connect_error kind msg)) as"

definition tcp_connect ::
  "tcp_endpoint \<Rightarrow> string + connect_attempt list \<Rightarrow> tcp_error + tcp_source" where
  "tcp_connect ep resolved =
     (case resolved of
        Inl msg \<Rightarrow> Inl (InvalidAddress msg)
      | Inr attempts \<Rightarrow>
          if attempts = []
          then Inl (InvalidAddress (''could not resolve '' @ socket_addr_string ep))
          else connect_loop ep None attempts)"

section \<open>The script of a TCP source\<close>

function event_script :: "nat \<Rightarrow> tcp_stream \<Rightarrow> (byte_source_error + bytes) list" where
  "event_script n [] = []"
| "event_script n (IoError k msg # evs) =
     Inl (byte_error_from_tcp (if k = WouldBlock \<or> k = TimedOut then TcpTimeout msg else ReadFailed msg))
     # event_script n evs"
| "event_script n (IoData bs # evs) =
     (if bs = [] \<or> n = 0 then []
      else if length bs \<le> n then Inr bs # event_script n evs
      else Inr (take n bs) # event_script n (IoData (drop n bs) # evs))"
  by pat_completeness auto
termination
  by (relation "measure (\<lambda>(n, evs). size_list (\<lambda>e. case e of IoData bs \<Rightarrow> length bs | _ \<Rightarrow> 0) evs)") auto

declare event_script.simps(3) [simp del]

definition tcp_script :: "tcp_source \<Rightarrow> (byte_source_error + bytes) list" where
  "tcp_script t = (case ts_stream t of None \<Rightarrow> [] | Some evs \<Rightarrow> event_script (ts_read_buf_size t) evs)"

definition tcp_ok :: "tcp_source \<Rightarrow> bool" where
  "tcp_ok t \<longleftrightarrow> 0 < ts_read_buf_size t"

lemma tcp_read_cases:
  assumes "tcp_ok t"
  shows "tcp_ok (snd (tcp_read t))
     \<and> (case tcp_script t of
          [] \<Rightarrow> fst (tcp_read t) = Inr None \<and> tcp_script (snd (tcp_read t)) = []
        | Inr c # xs \<Rightarrow> fst (tcp_read t) = Inr (Some c) \<and> tcp_script (snd (tcp_read t)) = xs
        | Inl e # xs \<Rightarrow> fst (tcp_read t) = Inl e \<and> tcp_script (snd (tcp_read t)) = xs)"
proof (cases "ts_stream t")
  case None
  then show ?thesis using assms by (simp add: tcp_read_def tcp_script_def)
next
  case (Some evs)
  with assms show ?thesis
    by (cases "(ts_read_buf_size t, evs)" rule: event_script.cases)
       (auto simp: tcp_read_def tcp_script_def read_chunk_def tcp_ok_def event_script.simps(3))
qed

interpretation tcp: byte_source tcp_read tcp_ok tcp_script
  using tcp_read_cases by unfold_locales (fastforce split: list.splits sum.splits)+

section \<open>Properties\<close>

text \<open>
  \<open>chunk_stream\<close> loses nothing: whatever the schedule of sizes, zeros and an empty
  schedule included, the chunks are non-empty and concatenate to the stream, and every
  chunk is at most as long as some size of the schedule (or as one byte).
\<close>

lemma chunk_stream_partitions:
  "concat (chunk_stream stream sizes) = stream
   \<and> list_all (\<lambda>c. c \<noteq> [] \<and> list_ex (\<lambda>n. length c \<le> n) (1 # sizes)) (chunk_stream stream sizes)"
  using chunk_stream_bound [of _ stream sizes] by (simp add: list_all_iff list_ex_iff)

end
