(* ===== verification/Bap_Pipeline.thy ===== *)
theory Bap_Pipeline
  imports Stream_Framing Byte_Source Bap_Session
begin

text \<open>
  \<open>network/src/bap_pipeline.rs\<close>: a byte source, the stream decoder and the session composed.
  The read loop may run forever on a source that never ends, so it is a partial function
  (\<open>None\<close>: it does not return); inside the source contract it is shown to return and to
  compute what feeding the script to the decoder gives. The end-to-end theorem covers the
  whole path from the encoder of a peer, over arbitrarily cut chunks, to decoded frames.
\<close>

section \<open>Operations\<close>

datatype pipeline_error =
    PSource byte_source_error
  | PStream stream_error
  | PSession bap_session_error
  | DirectionCountMismatch nat nat

record pipeline =
  pl_decoder :: stream_decoder
  pl_session :: bap_session

definition pipeline_new :: "bytes \<Rightarrow> bytes \<Rightarrow> pipeline_error + pipeline" where
  "pipeline_new key nonce =
     (case bap_session_new key nonce of
        Inl e \<Rightarrow> Inl (PSession e)
      | Inr s \<Rightarrow> Inr \<lparr>pl_decoder = decoder_new, pl_session = s\<rparr>)"

partial_function (option) collect_loop ::
  "('s \<Rightarrow> (byte_source_error + bytes option) \<times> 's) \<Rightarrow> stream_decoder \<Rightarrow> 's \<Rightarrow> raw_frame list \<Rightarrow>
   ((pipeline_error + raw_frame list) \<times> stream_decoder \<times> 's) option" where
  "collect_loop read d s out =
     (case read s of
        (Inl e, s') \<Rightarrow> Some (Inl (PSource e), d, s')
      | (Inr (Some chunk), s') \<Rightarrow>
          (case decoder_push d chunk of
             (Inl e, d') \<Rightarrow> Some (Inl (PStream e), d', s')
           | (Inr fs, d') \<Rightarrow> collect_loop read d' s' (out @ fs))
      | (Inr None, s') \<Rightarrow>
          (case decoder_finish d of
             Inl e \<Rightarrow> Some (Inl (PStream e), d, s')
           | Inr _ \<Rightarrow> Some (Inr out, d, s')))"

definition collect_raw_frames ::
  "('s \<Rightarrow> (byte_source_error + bytes option) \<times> 's) \<Rightarrow> pipeline \<Rightarrow> 's \<Rightarrow>
   ((pipeline_error + raw_frame list) \<times> pipeline \<times> 's) option" where
  "collect_raw_frames read p s =
     (case collect_loop read (pl_decoder p) s [] of
        None \<Rightarrow> None
      | Some (r, d, s') \<Rightarrow> Some (r, p\<lparr>pl_decoder := d\<rparr>, s'))"

text \<open>\<open>tcp_byte_source::collect_raw_frames_from_source\<close>: the same loop, a decoder of its own.\<close>

definition collect_raw_frames_from_source ::
  "('s \<Rightarrow> (byte_source_error + bytes option) \<times> 's) \<Rightarrow> 's \<Rightarrow>
   ((pipeline_error + raw_frame list) \<times> 's) option" where
  "collect_raw_frames_from_source read s =
     (case collect_loop read decoder_new s [] of
        None \<Rightarrow> None
      | Some (r, d, s') \<Rightarrow> Some (r, s'))"

definition decode_raw ::
  "aead_prims \<Rightarrow> pipeline \<Rightarrow> nonce_direction \<Rightarrow> raw_frame \<Rightarrow> (pipeline_error + decoded_frame) \<times> pipeline" where
  "decode_raw P p direction raw =
     (case decode_frame P (pl_session p) direction (rf_raw_bytes raw) of
        (Inl e, s) \<Rightarrow> (Inl (PSession e), p\<lparr>pl_session := s\<rparr>)
      | (Inr f, s) \<Rightarrow> (Inr f, p\<lparr>pl_session := s\<rparr>))"

text \<open>The decode loops of both runs: one frame after the other, the first error ends them.\<close>

fun decode_raws ::
  "aead_prims \<Rightarrow> pipeline \<Rightarrow> (raw_frame \<times> nonce_direction) list \<Rightarrow>
   (pipeline_error + decoded_frame list) \<times> pipeline" where
  "decode_raws P p [] = (Inr [], p)"
| "decode_raws P p ((raw, dir) # rest) =
     (case decode_raw P p dir raw of
        (Inl e, p') \<Rightarrow> (Inl e, p')
      | (Inr f, p') \<Rightarrow>
          (case decode_raws P p' rest of
             (Inl e, p'') \<Rightarrow> (Inl e, p'')
           | (Inr fs, p'') \<Rightarrow> (Inr (f # fs), p'')))"

definition run_unidirectional ::
  "aead_prims \<Rightarrow> ('s \<Rightarrow> (byte_source_error + bytes option) \<times> 's) \<Rightarrow> pipeline \<Rightarrow> 's \<Rightarrow> nonce_direction \<Rightarrow>
   ((pipeline_error + decoded_frame list) \<times> pipeline \<times> 's) option" where
  "run_unidirectional P read p s direction =
     (case collect_raw_frames read p s of
        None \<Rightarrow> None
      | Some (Inl e, p', s') \<Rightarrow> Some (Inl e, p', s')
      | Some (Inr raws, p', s') \<Rightarrow>
          (case decode_raws P p' (map (\<lambda>r. (r, direction)) raws) of
             (r, p'') \<Rightarrow> Some (r, p'', s')))"

definition run_directed ::
  "aead_prims \<Rightarrow> ('s \<Rightarrow> (byte_source_error + bytes option) \<times> 's) \<Rightarrow> pipeline \<Rightarrow> 's \<Rightarrow> nonce_direction list \<Rightarrow>
   ((pipeline_error + decoded_frame list) \<times> pipeline \<times> 's) option" where
  "run_directed P read p s directions =
     (case collect_raw_frames read p s of
        None \<Rightarrow> None
      | Some (Inl e, p', s') \<Rightarrow> Some (Inl e, p', s')
      | Some (Inr raws, p', s') \<Rightarrow>
          if length raws \<noteq> length directions
          then Some (Inl (DirectionCountMismatch (length directions) (length raws)), p', s')
          else (case decode_raws P p' (zip raws directions) of
             (r, p'') \<Rightarrow> Some (r, p'', s')))"

section \<open>The loop over any source that keeps the contract\<close>

text \<open>What the loop computes, from the script of the source alone.\<close>

fun collect_spec ::
  "stream_decoder \<Rightarrow> (byte_source_error + bytes) list \<Rightarrow> (pipeline_error + raw_frame list) \<times> stream_decoder" where
  "collect_spec d xs =
     (case feed_all decoder_push d (script_data xs) of
        (Inl e, d') \<Rightarrow> (Inl (PStream e), d')
      | (Inr fs, d') \<Rightarrow>
          (case script_error xs of
             Some e \<Rightarrow> (Inl (PSource e), d')
           | None \<Rightarrow> (case decoder_finish d' of
               Inl e \<Rightarrow> (Inl (PStream e), d') | Inr _ \<Rightarrow> (Inr fs, d'))))"

declare collect_spec.simps [simp del]

definition prepend :: "'a list \<Rightarrow> ('e + 'a list) \<times> 'd \<Rightarrow> ('e + 'a list) \<times> 'd" where
  "prepend out r = (case r of (Inl e, d) \<Rightarrow> (Inl e, d) | (Inr fs, d) \<Rightarrow> (Inr (out @ fs), d))"

lemma prepend_simps [simp]:
  "prepend out (Inl e, d) = (Inl e, d)" "prepend out (Inr fs, d) = (Inr (out @ fs), d)"
  "prepend [] r = r" "prepend out (prepend out' r) = prepend (out @ out') r"
  by (auto simp: prepend_def split: prod.splits sum.splits)

lemma collect_spec_Nil: "collect_spec d [] =
    (case decoder_finish d of Inl e \<Rightarrow> (Inl (PStream e), d) | Inr _ \<Rightarrow> (Inr [], d))"
  by (simp add: collect_spec.simps)

lemma collect_spec_Inl: "collect_spec d (Inl e # xs) = (Inl (PSource e), d)"
  by (simp add: collect_spec.simps)

lemma collect_spec_Inr: "collect_spec d (Inr c # xs) =
    (case decoder_push d c of
       (Inl e, d') \<Rightarrow> (Inl (PStream e), d')
     | (Inr fs, d') \<Rightarrow> prepend fs (collect_spec d' xs))"
  by (auto simp: collect_spec.simps prepend_def split: prod.splits sum.splits option.splits)

text \<open>The source contract at the types of the trait \<open>ByteSource\<close>.\<close>

locale frame_source = byte_source read source_ok script
  for read :: "'s \<Rightarrow> (byte_source_error + bytes option) \<times> 's"
    and source_ok :: "'s \<Rightarrow> bool"
    and script :: "'s \<Rightarrow> (byte_source_error + bytes) list"
begin

text \<open>The loop returns, for every finite script, and the result depends on the script only.\<close>

lemma collect_loop_returns:
  assumes "source_ok s"
  shows "\<exists>s'. collect_loop read d s out =
     Some (fst (prepend out (collect_spec d (script s))), snd (prepend out (collect_spec d (script s))), s')"
  using assms
proof (induction "script s" arbitrary: s d out)
  case Nil
  then have "fst (read s) = Inr None"
    using read_end by metis
  then show ?case
    using Nil by (cases "read s") (auto simp: collect_loop.simps [of read d s] collect_spec_Nil split: sum.splits)
next
  case (Cons x xs)
  show ?case
  proof (cases x)
    case (Inl e)
    then have "fst (read s) = Inl e"
      using read_fail [OF Cons.prems] Cons.hyps(2) by metis
    then show ?thesis
      using Cons.hyps(2) [symmetric] Inl
      by (cases "read s") (auto simp: collect_loop.simps [of read d s] collect_spec_Inl)
  next
    case (Inr c)
    then have rd: "fst (read s) = Inr (Some c)" "script (snd (read s)) = xs"
      using read_data [OF Cons.prems] Cons.hyps(2) by metis+
    show ?thesis
    proof (cases "decoder_push d c")
      case (Pair y d')
      have ih: "\<exists>s'. collect_loop read d' (snd (read s)) (out @ fs) =
          Some (fst (prepend (out @ fs) (collect_spec d' xs)), snd (prepend (out @ fs) (collect_spec d' xs)), s')" for fs
        using Cons.hyps(1) [OF rd(2) [symmetric] read_keeps [OF Cons.prems]] rd(2) by metis
      show ?thesis
        using rd(1) ih Pair Inr Cons.hyps(2) [symmetric]
        by (cases "read s"; cases y) (auto simp: collect_loop.simps [of read d s] collect_spec_Inr)
    qed
  qed
qed

lemma collect_returns:
  assumes "source_ok s"
  shows "\<exists>s'. collect_raw_frames read p s =
     Some (fst (collect_spec (pl_decoder p) (script s)),
           p\<lparr>pl_decoder := snd (collect_spec (pl_decoder p) (script s))\<rparr>, s')"
  using collect_loop_returns [OF assms, of "pl_decoder p" "[]"] by (auto simp: collect_raw_frames_def)

lemma collect_own_returns:
  assumes "source_ok s"
  shows "\<exists>s'. collect_raw_frames_from_source read s = Some (fst (collect_spec decoder_new (script s)), s')"
  using collect_loop_returns [OF assms, of decoder_new "[]"] by (auto simp: collect_raw_frames_from_source_def)

text \<open>Frames of a peer, cut anywhere, come out of a fresh pipeline.\<close>

lemma collect_frames:
  assumes "source_ok s" and "script_error (script s) = None"
    and "\<forall>r \<in> set rs. raw_wf MAX_BODY_LEN r"
    and "concat (script_data (script s)) = concat (map rf_raw_bytes rs)"
    and "pl_decoder p = decoder_new"
  shows "\<exists>d s'. collect_raw_frames read p s = Some (Inr rs, p\<lparr>pl_decoder := d\<rparr>, s')"
proof -
  have "drain_loop MAX_BODY_LEN (concat (map rf_raw_bytes rs)) = (Inr rs, [])"
    using drain_raws [OF assms(3), of "[]"] by (simp add: head_of_def)
  then have "feed_all decoder_push decoder_new [concat (map rf_raw_bytes rs)] = (Inr rs, decoder_new)"
    by (simp add: decoder_push_eq decoder_new_def)
  then have "feed_all decoder_push decoder_new (script_data (script s)) = (Inr rs, decoder_new)"
    by (rule stream.feed_all_state [rotated]) (use assms(4) in simp_all)
  then have "collect_spec decoder_new (script s) = (Inr rs, decoder_new)"
    using assms(2) by (simp add: collect_spec.simps decoder_finish_def) (simp add: decoder_new_def)
  then show ?thesis
    using collect_returns [OF assms(1), of p] assms(5) by auto
qed

end

interpretation mock_frames: frame_source mock_read "\<lambda>_. True" id
  by unfold_locales

interpretation tcp_frames: frame_source tcp_read tcp_ok tcp_script
  by unfold_locales

section \<open>Decoding what was collected\<close>

lemma decode_raws_recv:
  "decode_raws P p (zip raws dirs) =
     (case recv_all (bap_recv P) (pl_session p) (zip dirs (map rf_raw_bytes raws)) of
        (Inl e, s) \<Rightarrow> (Inl (PSession e), p\<lparr>pl_session := s\<rparr>)
      | (Inr fs, s) \<Rightarrow> (Inr fs, p\<lparr>pl_session := s\<rparr>))"
proof (induction raws arbitrary: dirs p)
  case Nil
  then show ?case by simp
next
  case (Cons r raws)
  then show ?case
    by (cases dirs) (auto simp: decode_raw_def bap_recv_def split: prod.splits sum.splits)
qed

text \<open>Every wire frame of \<open>bap_send\<close> is one the stream decoder accepts.\<close>

definition sent_raw :: "bytes \<Rightarrow> raw_frame" where
  "sent_raw bs = \<lparr>rf_kind = bs ! 1, rf_body = drop 6 bs, rf_raw_bytes = bs\<rparr>"

lemma serialized_raw_wf:
  assumes "frame_wf f" "frame_serialize f = Inr bs" "bf_kind f = KClear \<or> bf_kind f = KEncrypted"
    and "length bs \<le> 6 + m"
  shows "raw_wf m (sent_raw bs)"
proof -
  from assms(1) obtain body where b: "length body < 2 ^ 32"
    "frame_serialize f = Inr ([BAP_MAGIC, kind_as_u8 (bf_kind f)] @ u32_to_be_bytes (of_nat (length body)) @ body)"
    by (rule frame_serialize_ok)
  then have bs: "bs = [BAP_MAGIC, kind_as_u8 (bf_kind f)] @ u32_to_be_bytes (of_nat (length body)) @ body"
    using assms(2) by simp
  have "drop 6 bs = body" "bs ! 1 = kind_as_u8 (bf_kind f)" "length bs = 6 + length body"
    by (simp_all add: bs)
  note d = this
  have k: "kind_as_u8 (bf_kind f) = KIND_CLEAR \<or> kind_as_u8 (bf_kind f) = KIND_ENCRYPTED"
    using assms(3) by auto
  show ?thesis
    unfolding raw_wf_def sent_raw_def raw_frame.simps d
    using k b(1) assms(4) d(3) by (simp, simp add: bs)
qed

definition bap_fits :: "bap_out \<Rightarrow> bool" where
  "bap_fits m \<longleftrightarrow> length (bo_payload m) + 22 \<le> MAX_BODY_LEN"

lemma bap_fits_sendable: "bap_fits m \<Longrightarrow> bap_sendable m"
  by (simp add: bap_fits_def bap_sendable_def MAX_BODY_LEN_def)

lemma bap_send_raw_wf:
  assumes "session_synced P s s" "bap_fits m" "bap_send P s m = Some ((d, bs), s')"
  shows "raw_wf MAX_BODY_LEN (sent_raw bs) \<and> d = bo_direction m \<and> session_synced P s' s'"
proof (cases "bo_encrypted m")
  case True
  have len: "length (bo_payload m) + 22 < 2 ^ 32"
    using bap_fits_sendable [OF assms(2)] by (simp add: bap_sendable_def)
  have v: "aead_ok P" "context_valid (bs_crypto s)"
    using assms(1) by (simp_all add: session_synced_def)
  obtain raw where en:
    "encode_encrypted P s (bo_direction m) (bo_msg_id m) (bo_context m) (bo_payload m)
       = Some (Inr raw, advance s (bo_direction m))"
    and "\<forall>b. dir_synced (bo_direction m) s b \<longrightarrow> decode_frame P b (bo_direction m) raw
       = (Inr (DDecrypted (Some (bo_msg_id m)) (Some (bo_context m)) (bo_payload m)
            (6 + length (bo_payload m))), advance b (bo_direction m))"
    and sh: "\<exists>tag ct. length tag = 16 \<and> length ct = length (bo_payload m) + 6
       \<and> frame_serialize (encrypted_frame tag ct) = Inr raw"
    by (rule encode_directed [OF v len, of "bo_direction m" "bo_msg_id m" "bo_context m"])
  have raw: "d = bo_direction m" "raw = bs" "session_synced P s' s'"
    using assms(3) True en v by (auto simp: bap_send_def session_synced_def context_valid_next)
  obtain tag ct where e: "length tag = 16" "length ct = length (bo_payload m) + 6"
      "frame_serialize (encrypted_frame tag ct) = Inr bs"
    using sh raw(2) by blast
  have wf: "frame_wf (encrypted_frame tag ct)"
    using e(1,2) len by simp
  have "length bs \<le> 6 + MAX_BODY_LEN"
    using e assms(2)
    by (auto simp: frame_serialize_def encrypted_frame_def bap_fits_def split: if_splits)
  then have "raw_wf MAX_BODY_LEN (sent_raw bs)"
    by (intro serialized_raw_wf [OF wf e(3)]) (simp_all add: encrypted_frame_def)
  with raw show ?thesis by simp
next
  case False
  have len: "length (bo_payload m) + 6 < 2 ^ 32"
    using bap_fits_sendable [OF assms(2)] by (simp add: bap_sendable_def)
  have e: "d = bo_direction m" "s' = s"
      "frame_serialize (clear_frame (bo_msg_id m) (bo_context m) (bo_payload m)) = Inr bs"
    using assms(3) False
    by (auto simp: bap_send_def encode_clear_def clear_raw_def split: option.splits sum.splits)
  have "length bs \<le> 6 + MAX_BODY_LEN"
    using e(3) assms(2) by (auto simp: frame_serialize_def clear_frame_def bap_fits_def split: if_splits)
  then have "raw_wf MAX_BODY_LEN (sent_raw bs)"
    using len by (intro serialized_raw_wf [OF _ e(3)]) (simp_all, simp add: clear_frame_def)
  with e assms(1) show ?thesis by simp
qed

lemma send_all_raw_wf:
  assumes "session_synced P s s" "\<forall>m \<in> set ms. bap_fits m" "send_all (bap_send P) s ms = Some (ws, a)"
  shows "(\<forall>w \<in> set ws. raw_wf MAX_BODY_LEN (sent_raw (snd w))) \<and> map fst ws = map bo_direction ms"
  using assms
proof (induction ms arbitrary: s ws)
  case Nil
  then show ?case by simp
next
  case (Cons m ms)
  from Cons.prems(3) obtain d bs s1 vs where w: "bap_send P s m = Some ((d, bs), s1)"
      "send_all (bap_send P) s1 ms = Some (vs, a)" "ws = (d, bs) # vs"
    by (auto split: option.splits)
  note r = bap_send_raw_wf [OF Cons.prems(1) _ w(1)]
  show ?case
    using Cons.IH [OF _ _ w(2)] r Cons.prems(2) w(3) by auto
qed

text \<open>The whole path, from the messages of a peer to the frames a fresh pipeline returns.\<close>

lemma pipeline_delivers:
  assumes "aead_ok P" and "pipeline_new key nonce = Inr p"
    and "bap_session_new key nonce = Inr peer" and "\<forall>m \<in> set ms. bap_fits m"
    and "send_all (bap_send P) peer ms = Some (ws, peer')"
    and "concat chunks = concat (map snd ws)"
  shows "\<exists>p' q. run_directed P mock_read p (mock_new chunks) (map bo_direction ms)
        = Some (Inr (map bap_view ms), p', q)
     \<and> bs_crypto (pl_session p') = bs_crypto peer'"
proof -
  have p: "pl_decoder p = decoder_new" "pl_session p = peer"
    using assms(2,3) by (auto simp: pipeline_new_def)
  have sy: "session_synced P peer peer"
    using bap_session_new_synced [OF assms(1,3)] .
  note wf = send_all_raw_wf [OF sy assms(4,5)]
  let ?rs = "map (sent_raw \<circ> snd) ws"
  have raws: "map rf_raw_bytes ?rs = map snd ws"
    by (simp add: sent_raw_def)
  have "concat (script_data (id (mock_new chunks))) = concat (map rf_raw_bytes ?rs)"
    unfolding raws using assms(6) by (simp add: mock_new_def)
  from mock_frames.collect_frames [OF _ _ _ this p(1)] obtain d q where
    c: "collect_raw_frames mock_read p (mock_new chunks) = Some (Inr ?rs, p\<lparr>pl_decoder := d\<rparr>, q)"
    using wf by (auto simp: mock_new_def)
  from bap.deliver_all [OF sy, of ms] obtain ws' a b where
    "send_all (bap_send P) peer ms = Some (ws', a)" and
    r: "recv_all (bap_recv P) peer ws' = (Inr (map bap_view ms), b)" "session_synced P a b"
    using assms(4) bap_fits_sendable by auto
  then have "ws' = ws" "a = peer'" using assms(5) by simp_all
  moreover have "zip (map bo_direction ms) (map rf_raw_bytes ?rs) = ws"
    using wf raws by (metis zip_map_fst_snd)
  moreover have "length ?rs = length (map bo_direction ms)"
    using wf by (metis length_map)
  ultimately show ?thesis
    using c r p(2)
    by (auto simp: run_directed_def decode_raws_recv session_synced_def simp del: map_map)
qed

section \<open>Properties\<close>

text \<open>
  C34. The collecting loop returns on every source with a finite script, the mock queue and
  the TCP stream alike, and its result is determined by the script: the frames of the
  concatenated data before the first failure, that failure, a framing error found on the
  way, or \<open>IncompleteAtEnd\<close> for a torn tail.
\<close>

theorem collect_terminates:
  assumes "tcp_ok t"
  shows "(\<exists>t'. collect_raw_frames tcp_read p t =
            Some (fst (collect_spec (pl_decoder p) (tcp_script t)),
                  p\<lparr>pl_decoder := snd (collect_spec (pl_decoder p) (tcp_script t))\<rparr>, t'))
       \<and> (\<exists>q'. collect_raw_frames mock_read p q =
            Some (fst (collect_spec (pl_decoder p) q),
                  p\<lparr>pl_decoder := snd (collect_spec (pl_decoder p) q)\<rparr>, q'))"
  using tcp_frames.collect_returns [OF assms] mock_frames.collect_returns [of p q] by simp

theorem collect_terminates_witness:
  "\<exists>t' p. collect_raw_frames tcp_read \<lparr>pl_decoder = decoder_new, pl_session = p\<rparr>
       (tcp_from_stream [IoData [1, 2, 0], IoError TimedOut ''late''])
     = Some (Inl (PSource (SourceFailed ''timeout: late'')),
         \<lparr>pl_decoder = decoder_new\<lparr>sd_buf := [1, 2, 0]\<rparr>, pl_session = p\<rparr>, t')"
proof -
  let ?t = "tcp_from_stream [IoData [1, 2, 0], IoError TimedOut ''late'']"
  have "tcp_ok ?t"
    by (simp add: tcp_ok_def tcp_from_stream_def DEFAULT_READ_BUF_def)
  moreover have "collect_spec decoder_new (tcp_script ?t)
      = (Inl (PSource (SourceFailed ''timeout: late'')), decoder_new\<lparr>sd_buf := [1, 2, 0]\<rparr>)"
    by code_simp
  ultimately show ?thesis
    using collect_terminates [of ?t "\<lparr>pl_decoder = decoder_new, pl_session = p\<rparr>" "[]" for p] by force
qed

text \<open>
  C16. End to end: a peer encodes any sequence of clear and encrypted messages in both
  directions, each body within the decoder's limit; the bytes are cut into chunks anywhere
  and read from a source; \<open>run_directed\<close> with the matching directions returns exactly those
  messages in order, and its session ends in the peer's state.
\<close>

theorem pipeline_end_to_end:
  assumes "aead_ok P" and "pipeline_new key nonce = Inr p"
    and "bap_session_new key nonce = Inr peer" and "\<forall>m \<in> set ms. bap_fits m"
    and "send_all (bap_send P) peer ms = Some (ws, peer')"
    and "concat chunks = concat (map snd ws)"
  shows "\<exists>p' q. run_directed P mock_read p (mock_new chunks) (map bo_direction ms)
        = Some (Inr (map bap_view ms), p', q)
     \<and> bs_crypto (pl_session p') = bs_crypto peer'"
  by (rule pipeline_delivers [OF assms])

theorem pipeline_end_to_end_witness:
  "\<exists>p peer ws peer' p' q. pipeline_new (replicate 16 1) (replicate 12 2) = Inr p
     \<and> send_all (bap_send demo_aead) peer
         [\<lparr>bo_encrypted = True, bo_direction = ClientToServer, bo_msg_id = 30, bo_context = 1, bo_payload = [5]\<rparr>]
         = Some (ws, peer')
     \<and> run_directed demo_aead mock_read p (mock_new (chunk_stream (concat (map snd ws)) [3, 1])) [ClientToServer]
         = Some (Inr [DDecrypted (Some 30) (Some 1) [5] 7], p', q)"
proof -
  let ?ms = "[\<lparr>bo_encrypted = True, bo_direction = ClientToServer, bo_msg_id = 30, bo_context = 1, bo_payload = [5]\<rparr>]"
  obtain s where s: "bap_session_new (replicate 16 1) (replicate 12 2) = Inr s"
    using context_new_ok [of "replicate 16 1" "replicate 12 2"] by (auto simp: bap_session_new_def)
  then obtain p where p: "pipeline_new (replicate 16 1) (replicate 12 2) = Inr p"
    by (simp add: pipeline_new_def)
  have fits: "\<forall>m \<in> set ?ms. bap_fits m" by (simp add: bap_fits_def MAX_BODY_LEN_def)
  obtain ws s' where ws: "send_all (bap_send demo_aead) s ?ms = Some (ws, s')"
    using bap.deliver_all [OF bap_session_new_synced [OF demo_aead_ok s], of ?ms] fits bap_fits_sendable
    by blast
  from pipeline_end_to_end [OF demo_aead_ok p s fits ws, of "chunk_stream (concat (map snd ws)) [3, 1]"]
  show ?thesis using p ws by (auto simp: bap_view_def)
qed

end
