(* ===== verification/Local_Server.thy ===== *)
theory Local_Server
  imports Stateful_Session Bap_Pipeline
begin

text \<open>
  \<open>network/src/local_server.rs\<close>: the server thread of one connection, and the accept loop.
  The socket is the list of what its reads will report and the list of what its writes will
  report; the trace buffer of the server is a list. \<open>None\<close> is a panic. The theory shows that
  the whole handshake works over any cut of the client's bytes; the panics of the slices and
  conversions below are in \<open>Checked_Connection\<close>.
\<close>

section \<open>Error texts\<close>

fun show_framing_error :: "framing_error \<Rightarrow> string" where
  "show_framing_error TruncatedHeader = ''buffer too short for BAP header''"
| "show_framing_error (BadMagic m) = ''expected BAP magic 0x01, found 0x'' @ show_hex_u8 m"
| "show_framing_error TruncatedBody = ''buffer too short for declared body length''"
| "show_framing_error TruncatedClearBody =
     ''clear body shorter than msg_id+context (need '' @ show_nat CLEAR_HEADER_LEN @ '' bytes)''"
| "show_framing_error TruncatedEncryptedTag = ''encrypted body shorter than 16-byte tag''"
| "show_framing_error LengthOverflow = ''body length overflow''"

fun show_stream_error :: "stream_error \<Rightarrow> string" where
  "show_stream_error (InvalidMagic m) = ''expected BAP magic 0x01, found 0x'' @ show_hex_u8 m"
| "show_stream_error (InvalidKind k) =
     ''unsupported BAP kind 0x'' @ show_hex_u8 k @ '' (only 1 and 2 accepted by stream decoder)''"
| "show_stream_error (FrameTooLarge n) =
     ''body_len '' @ show_nat (unat n) @ '' exceeds max '' @ show_nat MAX_BODY_LEN"
| "show_stream_error (IncompleteAtEnd n) =
     ''stream ended with '' @ show_nat n @ '' buffered byte(s); frame incomplete''"

fun show_context_error :: "session_context_error \<Rightarrow> string" where
  "show_context_error (BadSessionKeyLength n) =
     ''session key must be '' @ show_nat KEY_LEN @ '' bytes, got '' @ show_nat n"
| "show_context_error (BadContextNonceLength n) =
     ''session nonce must be '' @ show_nat GCM_NONCE_LEN @ '' bytes, got '' @ show_nat n"

fun show_bap_session_error :: "bap_session_error \<Rightarrow> string" where
  "show_bap_session_error (SFraming e) = ''framing: '' @ show_framing_error e"
| "show_bap_session_error (SSession e) = ''session crypto: '' @ show_context_error e"
| "show_bap_session_error SDecryptFailed = ''AES-GCM decrypt failed''"
| "show_bap_session_error SEncryptFailed = ''AES-GCM encrypt failed''"
| "show_bap_session_error SEmptyCiphertext = ''encrypted frame has empty ciphertext''"
| "show_bap_session_error STrailingBytes = ''unexpected trailing bytes after complete frame''"

section \<open>Data\<close>

record local_server_config =
  lc_host :: string
  lc_port :: u16
  lc_read_timeout :: "nat option"
  lc_write_timeout :: "nat option"
  lc_max_connections :: nat

definition server_config_default :: local_server_config where
  "server_config_default =
     \<lparr>lc_host = ''127.0.0.1'', lc_port = 0, lc_read_timeout = Some 5000000000,
      lc_write_timeout = Some 5000000000, lc_max_connections = 8\<rparr>"

datatype local_server_error =
    LsBind string
  | LsAccept string
  | LsIo string
  | LsProtocol string
  | LsCrypto string
  | LsStopped
  | LsMaxConnections

record local_bap_session =
  lb_connection_id :: u64
  lb_stateful :: stateful_session

definition local_with_keys ::
  "u64 \<Rightarrow> bytes \<Rightarrow> bytes \<Rightarrow> local_server_error + local_bap_session" where
  "local_with_keys connection_id key nonce =
     (if length key \<noteq> 16 \<or> length nonce \<noteq> 12 then Inl (LsCrypto ''synthetic key/nonce length'')
      else case with_material connection_id \<lparr>sm_key = key, sm_nonce = nonce\<rparr> of
          Inl e \<Rightarrow> Inl (LsCrypto (show_bap_session_error e))
        | Inr stateful \<Rightarrow> Inr \<lparr>lb_connection_id = connection_id, lb_stateful = stateful\<rparr>)"

definition local_with_synthetic :: "u64 \<Rightarrow> local_server_error + local_bap_session" where
  "local_with_synthetic connection_id =
     local_with_keys connection_id SYNTHETIC_SESSION_KEY SYNTHETIC_SESSION_NONCE"

text \<open>
  The locals of \<open>handle_connection\<close> and the outside of the socket: \<open>cn_writes\<close> is what the
  next writes report (an error text, or success; success when the list is used up),
  \<open>cn_sent\<close> the byte strings written, \<open>cn_shutdown\<close> whether \<open>shutdown\<close> was called.
\<close>

record server_conn =
  cn_local :: local_bap_session
  cn_decoder :: stream_decoder
  cn_writes :: "string option list"
  cn_sent :: "bytes list"
  cn_shutdown :: bool
  cn_traces :: "server_trace_event list"

section \<open>Operations\<close>

definition conn_state_str :: "server_conn \<Rightarrow> string" where
  "conn_state_str c = protocol_state_str (ss_protocol_state (lb_stateful (cn_local c)))"

definition push_trace ::
  "string \<Rightarrow> u16 option \<Rightarrow> u32 option \<Rightarrow> string \<Rightarrow> string \<Rightarrow> server_conn \<Rightarrow> server_conn" where
  "push_trace direction mid context state action c =
     c\<lparr>cn_traces := cn_traces c @
        [\<lparr>te_timestamp = None, te_connection_id = lb_connection_id (cn_local c), te_direction = direction,
          te_message_id = mid, te_context = context, te_state = state, te_action = action\<rparr>]\<rparr>"

definition shut :: "server_conn \<Rightarrow> server_conn" where
  "shut c = c\<lparr>cn_shutdown := True\<rparr>"

definition set_stateful :: "stateful_session \<Rightarrow> server_conn \<Rightarrow> server_conn" where
  "set_stateful s c = c\<lparr>cn_local := (cn_local c)\<lparr>lb_stateful := s\<rparr>\<rparr>"

fun frame_ids :: "decoded_frame \<Rightarrow> u16 option \<times> u32 option" where
  "frame_ids (DClear i c p) = (Some i, Some c)"
| "frame_ids (DDecrypted i c p n) = (i, c)"
| "frame_ids (DOpaque k n) = (None, None)"

definition encode_via_codec :: "u16 \<Rightarrow> u32 \<Rightarrow> direction \<Rightarrow> bytes \<Rightarrow> bytes" where
  "encode_via_codec i context direction payload =
     (let o1 = \<lparr>op_context = context, op_direction = direction, op_payload = payload\<rparr>;
          msg = (if i = 0x1E then Some (DestinyServiceHandshakeRequest o1)
            else if i = 0x1F then Some (DestinyServiceHandshakeResponse o1)
            else if i = 0x19 then Some (SessionLoginRequest o1)
            else if i = 0x1A then Some (SessionLoginResponse context direction None payload)
            else if i = 0x79 then Some (EncryptedHandshakeRequest o1)
            else if i = 0x7A then Some (EncryptedHandshakeStatus o1)
            else if i = 0x12E then Some (Message0x12E o1)
            else if i = 0x12F then Some (Message0x12F o1)
            else if i = 0xFA then Some (Message0xFA o1)
            else if i = 0xFB then Some (Message0xFB o1) else None)
      in case msg of
           None \<Rightarrow> payload
         | Some k \<Rightarrow> (case encode_message (BKnown k) of Inl _ \<Rightarrow> payload | Inr b \<Rightarrow> b))"

definition write_all :: "bytes \<Rightarrow> server_conn \<Rightarrow> (local_server_error + unit) \<times> server_conn" where
  "write_all bs c =
     (case cn_writes c of
        Some msg # ws \<Rightarrow> (Inl (LsIo msg), c\<lparr>cn_writes := ws\<rparr>)
      | _ \<Rightarrow> (Inr (), c\<lparr>cn_writes := tl (cn_writes c), cn_sent := cn_sent c @ [bs]\<rparr>))"

definition send_traced ::
  "u16 \<Rightarrow> u32 \<Rightarrow> bytes \<Rightarrow> server_conn \<Rightarrow> (local_server_error + unit) \<times> server_conn" where
  "send_traced i context bs c =
     (case write_all bs c of
        (Inl e, c) \<Rightarrow> (Inl e, c)
      | (Inr _, c) \<Rightarrow> (Inr (), push_trace ''S2C'' (Some i) (Some context) (conn_state_str c) ''SendFrame'' c))"

fun perform_action ::
  "aead_prims \<Rightarrow> server_conn \<Rightarrow> response_action \<Rightarrow> ((local_server_error + unit) \<times> server_conn) option" where
  "perform_action P c (SendClear i context payload) =
     (case encode_clear i context (encode_via_codec i context DirServerToClient payload) of
        None \<Rightarrow> None
      | Some bs \<Rightarrow> Some (send_traced i context bs c))"
| "perform_action P c (SendEncrypted i context payload) =
     (case encode_encrypted P (ss_session (lb_stateful (cn_local c))) ServerToClient i context
             (encode_via_codec i context DirServerToClient payload) of
        None \<Rightarrow> None
      | Some (r, b) \<Rightarrow>
          let c = set_stateful ((lb_stateful (cn_local c))\<lparr>ss_session := b\<rparr>) c in
          (case r of
             Inl e \<Rightarrow> Some (Inl (LsCrypto (show_bap_session_error e)), c)
           | Inr bs \<Rightarrow> Some (send_traced i context bs c)))"
| "perform_action P c ObserveOnly = Some (Inr (), c)"
| "perform_action P c NoAction = Some (Inr (), c)"
| "perform_action P c RejectAction =
     Some (Inl (LsProtocol (error_kind_str KUnexpectedMessage)), shut c)"

fun perform_actions ::
  "aead_prims \<Rightarrow> server_conn \<Rightarrow> response_action list \<Rightarrow> ((local_server_error + unit) \<times> server_conn) option" where
  "perform_actions P c [] = Some (Inr (), c)"
| "perform_actions P c (a # as) =
     (case perform_action P c a of
        None \<Rightarrow> None
      | Some (Inl e, c) \<Rightarrow> Some (Inl e, c)
      | Some (Inr _, c) \<Rightarrow> perform_actions P c as)"

text \<open>One frame of the batch: decode, trace, handle, answer.\<close>

definition process_frame ::
  "aead_prims \<Rightarrow> server_conn \<Rightarrow> raw_frame \<Rightarrow> ((local_server_error + unit) \<times> server_conn) option" where
  "process_frame P c raw =
     (case decode_frame P (ss_session (lb_stateful (cn_local c))) ClientToServer (rf_raw_bytes raw) of
        (Inl SDecryptFailed, b) \<Rightarrow>
          let c = set_stateful ((lb_stateful (cn_local c))\<lparr>ss_session := b\<rparr>) c;
              c = push_trace ''C2S'' None None (conn_state_str c) (error_kind_str KGcmDecryptFailure) c
          in Some (Inl (LsCrypto (error_kind_str KGcmDecryptFailure)), shut c)
      | (Inl e, b) \<Rightarrow>
          let c = set_stateful ((lb_stateful (cn_local c))\<lparr>ss_session := b\<rparr>) c;
              c = push_trace ''C2S'' None None (conn_state_str c)
                    (''AUTH/CRYPTO ERROR '' @ show_bap_session_error e) c
          in Some (Inl (LsCrypto (error_kind_str KAuthCryptoError)), shut c)
      | (Inr decoded, b) \<Rightarrow>
          let c = set_stateful ((lb_stateful (cn_local c))\<lparr>ss_session := b\<rparr>) c;
              mid = fst (frame_ids decoded); context = snd (frame_ids decoded);
              c = push_trace ''C2S'' mid context (conn_state_str c) ''RECV'' c
          in (case handle_decoded_frame (lb_stateful (cn_local c)) decoded DirClientToServer of
                (Inl (InvalidMessage detail), s) \<Rightarrow>
                  let c = set_stateful s c;
                      c = push_trace ''C2S'' mid context (conn_state_str c) (''InvalidMessage '' @ detail) c
                  in Some (Inl (LsProtocol ''InvalidMessage''), shut c)
              | (Inl e, s) \<Rightarrow>
                  let c = set_stateful s c;
                      c = push_trace ''C2S'' mid context (conn_state_str c)
                            (''UNEXPECTED_MESSAGE '' @ show_protocol_state_error e) c
                  in Some (Inl (LsProtocol (error_kind_str KUnexpectedMessage)), shut c)
              | (Inr handled, s) \<Rightarrow>
                  let c = set_stateful s c in
                  (case hr_transition handled of
                     Rejected reason \<Rightarrow>
                       let c = push_trace ''C2S'' mid context (conn_state_str c)
                                 (''UNEXPECTED_MESSAGE '' @ show_protocol_state_error reason) c
                       in Some (Inl (LsProtocol (error_kind_str KUnexpectedMessage)), shut c)
                   | Advanced from to \<Rightarrow>
                       let c = push_trace ''SYS'' None None (protocol_state_str to)
                                 (''ChangeState '' @ protocol_state_str from @ right_arrow
                                  @ protocol_state_str to) c
                       in perform_actions P c (hr_actions handled)
                   | Observed s \<Rightarrow> perform_actions P c (hr_actions handled))))"

fun process_frames ::
  "aead_prims \<Rightarrow> server_conn \<Rightarrow> raw_frame list \<Rightarrow> ((local_server_error + unit) \<times> server_conn) option" where
  "process_frames P c [] = Some (Inr (), c)"
| "process_frames P c (raw # raws) =
     (case process_frame P c raw of
        None \<Rightarrow> None
      | Some (Inl e, c) \<Rightarrow> Some (Inl e, c)
      | Some (Inr _, c) \<Rightarrow> process_frames P c raws)"

definition stream_failure :: "stream_error \<Rightarrow> server_conn \<Rightarrow> (local_server_error + unit) \<times> server_conn" where
  "stream_failure e c =
     (case e of
        InvalidMagic m \<Rightarrow>
          (Inl (LsProtocol (error_kind_str KProtocolError)),
           shut (push_trace ''C2S'' None None (conn_state_str c)
                   (''PROTOCOL_ERROR invalid magic 0x'' @ show_hex_u8 m) c))
      | InvalidKind k \<Rightarrow>
          (Inl (LsProtocol (error_kind_str KProtocolError)),
           shut (push_trace ''C2S'' None None (conn_state_str c)
                   (''PROTOCOL_ERROR invalid kind 0x'' @ show_hex_u8 k) c))
      | e \<Rightarrow>
          (Inl (LsProtocol (show_stream_error e)),
           shut (push_trace ''C2S'' None None (conn_state_str c)
                   (''PROTOCOL_ERROR '' @ show_stream_error e) c)))"

definition READ_BUF_LEN :: nat where "READ_BUF_LEN = 4096"

definition finish_connection :: "server_conn \<Rightarrow> server_conn" where
  "finish_connection c = shut (set_stateful (session_finish_close (lb_stateful (cn_local c))) c)"

text \<open>
  The read loop with what follows it. A read of no bytes is the end of the stream; both
  \<open>break\<close>s go on to \<open>finish_close\<close> and \<open>shutdown\<close>.
\<close>

definition stream_size :: "tcp_stream \<Rightarrow> nat" where
  "stream_size evs = size_list (\<lambda>e. case e of IoData bs \<Rightarrow> length bs | _ \<Rightarrow> 0) evs"

lemma stream_read_smaller: "stream_read n evs = (Inr bs, evs') \<Longrightarrow> bs \<noteq> [] \<Longrightarrow> stream_size evs' < stream_size evs"
  by (cases "(n, evs)" rule: stream_read.cases) (auto simp: stream_size_def split: if_splits)

function connection_loop ::
  "aead_prims \<Rightarrow> tcp_stream \<Rightarrow> server_conn \<Rightarrow> ((local_server_error + unit) \<times> server_conn) option" where
  "connection_loop P stream c =
     (case stream_read READ_BUF_LEN stream of
        (Inl (kind, msg), stream') \<Rightarrow>
          if kind = WouldBlock \<or> kind = TimedOut
          then Some (Inr (), finish_connection (push_trace ''SYS'' None None (conn_state_str c) ''TIMEOUT'' c))
          else Some (Inl (LsIo msg), c)
      | (Inr bs, stream') \<Rightarrow>
          if bs = [] then
            (let c = set_stateful (session_finish_close (session_begin_close (lb_stateful (cn_local c)))) c;
                 c = push_trace ''SYS'' None None (conn_state_str c) ''EOF'' c
             in Some (Inr (), finish_connection c))
          else (case decoder_push (cn_decoder c) bs of
              (Inl e, d) \<Rightarrow> Some (stream_failure e (c\<lparr>cn_decoder := d\<rparr>))
            | (Inr frames, d) \<Rightarrow>
                (case process_frames P (c\<lparr>cn_decoder := d\<rparr>) frames of
                   None \<Rightarrow> None
                 | Some (Inl e, c) \<Rightarrow> Some (Inl e, c)
                 | Some (Inr _, c) \<Rightarrow> connection_loop P stream' c)))"
  by pat_completeness auto
termination
  by (relation "measure (\<lambda>(P, stream, c). stream_size stream)")
     (simp_all, metis stream_read_smaller)

declare connection_loop.simps [simp del]

definition handle_connection ::
  "aead_prims \<Rightarrow> u64 \<Rightarrow> tcp_stream \<Rightarrow> string option list \<Rightarrow> bytes \<Rightarrow> bytes \<Rightarrow> server_trace_event list \<Rightarrow>
   (local_server_error + (local_server_error + unit) \<times> server_conn) option" where
  "handle_connection P connection_id stream writes key nonce traces =
     (case local_with_keys connection_id key nonce of
        Inl e \<Rightarrow> Some (Inl e)
      | Inr local \<Rightarrow>
          let c = \<lparr>cn_local = local, cn_decoder = decoder_new, cn_writes = writes, cn_sent = [],
                   cn_shutdown = False, cn_traces = traces\<rparr>;
              c = push_trace ''SYS'' None None (conn_state_str c) ''ACCEPT'' c
          in (case connection_loop P stream c of None \<Rightarrow> None | Some r \<Rightarrow> Some (Inr r)))"

section \<open>A connection never panics\<close>

lemma encode_via_codec_id [simp]: "encode_via_codec i c d p = p"
  by (simp add: encode_via_codec_def Let_def)

abbreviation conn_session :: "server_conn \<Rightarrow> bap_session" where
  "conn_session c \<equiv> ss_session (lb_stateful (cn_local c))"

abbreviation conn_state :: "server_conn \<Rightarrow> protocol_state" where
  "conn_state c \<equiv> ss_protocol_state (lb_stateful (cn_local c))"

definition conn_ok :: "server_conn \<Rightarrow> bool" where
  "conn_ok c \<longleftrightarrow> context_valid (bs_crypto (conn_session c))"

lemma conn_frame [simp]:
  "cn_local (push_trace d i x s a c) = cn_local c" "cn_sent (push_trace d i x s a c) = cn_sent c"
  "cn_writes (push_trace d i x s a c) = cn_writes c" "cn_decoder (push_trace d i x s a c) = cn_decoder c"
  "cn_shutdown (push_trace d i x s a c) = cn_shutdown c"
  "lb_stateful (cn_local (set_stateful t c)) = t" "cn_sent (set_stateful t c) = cn_sent c"
  "cn_writes (set_stateful t c) = cn_writes c" "cn_decoder (set_stateful t c) = cn_decoder c"
  "cn_shutdown (set_stateful t c) = cn_shutdown c"
  "cn_local (shut c) = cn_local c" "cn_sent (shut c) = cn_sent c" "cn_writes (shut c) = cn_writes c"
  "cn_decoder (shut c) = cn_decoder c" "cn_shutdown (shut c)"
  by (simp_all add: push_trace_def set_stateful_def shut_def)

lemma send_traced_frame:
  "cn_local (snd (send_traced i x bs c)) = cn_local c"
  "cn_decoder (snd (send_traced i x bs c)) = cn_decoder c"
  by (auto simp: send_traced_def write_all_def split: list.splits option.splits)

text \<open>An action whose payload is short is performed, whatever the cipher returns.\<close>

lemma perform_action_some:
  assumes "aead_ok P" "conn_ok c" "length (reply_payload a) \<le> 9"
  shows "\<exists>r c'. perform_action P c a = Some (r, c') \<and> conn_ok c' \<and> cn_decoder c' = cn_decoder c"
proof (cases a)
  case (SendClear i x p)
  then have "length p + 6 < 2 ^ 32" using assms(3) by simp
  then obtain bs where "clear_raw i x p = Some bs" by (rule clear_raw_ok)
  with SendClear show ?thesis
    using assms(2) send_traced_frame [of i x bs c]
    by (cases "send_traced i x bs c") (simp add: encode_clear_def conn_ok_def)
next
  case (SendEncrypted i x p)
  then have len: "length p + 22 < 2 ^ 32" using assms(3) by simp
  have v: "context_valid (bs_crypto (conn_session c))" using assms(2) by (simp add: conn_ok_def)
  obtain raw where "encode_encrypted P (conn_session c) ServerToClient i x p
      = Some (Inr raw, advance (conn_session c) ServerToClient)"
    using encode_directed [OF assms(1) v len] by metis
  with SendEncrypted v show ?thesis
    using send_traced_frame [of i x raw "set_stateful ((lb_stateful (cn_local c))
        \<lparr>ss_session := advance (conn_session c) ServerToClient\<rparr>) c"]
    by (cases "send_traced i x raw (set_stateful ((lb_stateful (cn_local c))
        \<lparr>ss_session := advance (conn_session c) ServerToClient\<rparr>) c)")
       (simp add: Let_def conn_ok_def context_valid_next del: next_nonce.simps)
qed (use assms in \<open>auto simp: conn_ok_def\<close>)

lemma perform_actions_some:
  assumes "aead_ok P" "conn_ok c" "\<forall>a \<in> set as. length (reply_payload a) \<le> 9"
  shows "\<exists>r c'. perform_actions P c as = Some (r, c') \<and> conn_ok c' \<and> cn_decoder c' = cn_decoder c"
  using assms(2,3)
proof (induction "as" arbitrary: c)
  case Nil
  then show ?case by simp
next
  case (Cons a "as")
  have len: "length (reply_payload a) \<le> 9" using Cons.prems(2) by simp
  obtain r c' where p: "perform_action P c a = Some (r, c')" "conn_ok c'" "cn_decoder c' = cn_decoder c"
    using perform_action_some [OF assms(1) Cons.prems(1) len] by blast
  show ?case
  proof (cases r)
    case (Inr u)
    obtain r2 c2 where "perform_actions P c' as = Some (r2, c2)" "conn_ok c2" "cn_decoder c2 = cn_decoder c'"
      using Cons.IH [OF p(2)] Cons.prems(2) by auto
    then show ?thesis using p Inr by simp
  qed (use p in simp)
qed

lemma handled_actions:
  assumes "fst (handle_message s m) = Inr h"
  shows "hr_transition h = transition (ss_protocol_state s) m"
    "\<not> result_is_rejected (hr_transition h) \<Longrightarrow>
       hr_actions h = [decide (ss_policy s) (ss_protocol_state s) m]"
    "\<forall>a \<in> set (hr_actions h). length (reply_payload a) \<le> 9"
proof -
  have o1: "outcome_ok s m" by (rule handle_outcome_ok)
  then show "hr_transition h = transition (ss_protocol_state s) m"
    "\<not> result_is_rejected (hr_transition h) \<Longrightarrow>
       hr_actions h = [decide (ss_policy s) (ss_protocol_state s) m]"
    using assms by (auto simp: outcome_ok_def Let_def split: if_splits)
  show "\<forall>a \<in> set (hr_actions h). length (reply_payload a) \<le> 9"
    using o1 assms decide_payload_short by (auto simp: outcome_ok_def Let_def split: if_splits)
qed

lemma handled_decoded_actions:
  assumes "handle_decoded_frame s f d = (Inr h, s')"
  shows "\<forall>a \<in> set (hr_actions h). length (reply_payload a) \<le> 9"
  using assms handled_actions(3)
  by (auto simp: handle_decoded_frame_def split: sum.splits) (metis fst_conv)

lemma handle_decoded_session [simp]:
  "ss_session (snd (handle_decoded_frame s f d)) = ss_session s"
  using handle_message_state by (simp add: handle_decoded_frame_def split: sum.split)

lemma process_frame_some:
  assumes "aead_ok P" "conn_ok c"
  shows "\<exists>r c'. process_frame P c raw = Some (r, c') \<and> conn_ok c' \<and> cn_decoder c' = cn_decoder c"
proof -
  obtain r b where d: "decode_frame P (conn_session c) ClientToServer (rf_raw_bytes raw) = (r, b)"
    by (cases "decode_frame P (conn_session c) ClientToServer (rf_raw_bytes raw)")
  have b: "context_valid (bs_crypto b)"
    using decode_frame_keeps_valid(1) [of "conn_session c" P ClientToServer "rf_raw_bytes raw"] assms(2) d
    by (simp add: conn_ok_def)
  let ?s = "(lb_stateful (cn_local c))\<lparr>ss_session := b\<rparr>"
  show ?thesis
  proof (cases r)
    case (Inl e)
    with d b show ?thesis
      by (cases e) (auto simp: process_frame_def Let_def conn_ok_def)
  next
    case (Inr decoded)
    obtain r2 s2 where h: "handle_decoded_frame ?s decoded DirClientToServer = (r2, s2)"
      by (cases "handle_decoded_frame ?s decoded DirClientToServer")
    then have s2: "ss_session s2 = b"
      using handle_decoded_session [of ?s decoded DirClientToServer] by simp
    show ?thesis
    proof (cases r2)
      case e: (Inl e)
      show ?thesis
        using d b h s2 Inr e
        by (cases e) (simp_all add: process_frame_def Let_def conn_ok_def)
    next
      case hd: (Inr handled)
      have short: "\<forall>a \<in> set (hr_actions handled). length (reply_payload a) \<le> 9"
        using handled_decoded_actions h hd by blast
      have act: "\<exists>r c'. perform_actions P x (hr_actions handled) = Some (r, c') \<and> conn_ok c'
          \<and> cn_decoder c' = cn_decoder c" if "conn_session x = b" "cn_decoder x = cn_decoder c" for x
        using perform_actions_some [OF assms(1) _ short, of x] that b by (simp add: conn_ok_def)
      show ?thesis
      proof (cases "hr_transition handled")
        case (Rejected e)
        then show ?thesis
          using d b h s2 Inr hd by (simp add: process_frame_def Let_def conn_ok_def)
      next
        case (Advanced f t)
        with d h Inr hd show ?thesis
          unfolding process_frame_def Let_def by (simp) (rule act, simp_all add: s2)
      next
        case (Observed t)
        with d h Inr hd show ?thesis
          unfolding process_frame_def Let_def by (simp) (rule act, simp_all add: s2)
      qed
    qed
  qed
qed

lemma process_frames_some:
  assumes "aead_ok P" "conn_ok c"
  shows "\<exists>r c'. process_frames P c raws = Some (r, c') \<and> conn_ok c' \<and> cn_decoder c' = cn_decoder c"
  using assms(2)
proof (induction raws arbitrary: c)
  case Nil
  then show ?case by simp
next
  case (Cons raw raws)
  obtain r c' where p: "process_frame P c raw = Some (r, c')" "conn_ok c'" "cn_decoder c' = cn_decoder c"
    using process_frame_some [OF assms(1) Cons.prems] by blast
  then show ?case
    using Cons.IH [OF p(2)] by (cases r) auto
qed

lemma connection_loop_some:
  assumes "aead_ok P" "conn_ok c"
  shows "\<exists>r. connection_loop P stream c = Some r"
  using assms(2)
proof (induction "stream_size stream" arbitrary: stream c rule: less_induct)
  case less
  obtain r stream' where rd: "stream_read READ_BUF_LEN stream = (r, stream')"
    by (cases "stream_read READ_BUF_LEN stream")
  show ?case
  proof (cases r)
    case (Inl e)
    then show ?thesis using rd by (cases e) (simp add: connection_loop.simps [of P stream])
  next
    case (Inr bs)
    show ?thesis
    proof (cases "bs = []")
      case True
      then show ?thesis using rd Inr by (simp add: connection_loop.simps [of P stream] Let_def)
    next
      case False
      obtain q d where push: "decoder_push (cn_decoder c) bs = (q, d)"
        by (cases "decoder_push (cn_decoder c) bs")
      show ?thesis
      proof (cases q)
        case (Inl e)
        then show ?thesis using rd Inr False push by (simp add: connection_loop.simps [of P stream])
      next
        case fr: (Inr frames)
        have "conn_ok (c\<lparr>cn_decoder := d\<rparr>)" using less.prems by (simp add: conn_ok_def)
        then obtain r2 c2 where pf: "process_frames P (c\<lparr>cn_decoder := d\<rparr>) frames = Some (r2, c2)" "conn_ok c2"
          using process_frames_some [OF assms(1)] by blast
        have "stream_size stream' < stream_size stream"
          using stream_read_smaller rd Inr False by blast
        then have "\<exists>r. connection_loop P stream' c2 = Some r"
          using less.hyps pf(2) by blast
        then show ?thesis
          using rd Inr False push fr pf by (cases r2) (simp_all add: connection_loop.simps [of P stream])
      qed
    qed
  qed
qed

lemma local_with_keys_ok:
  assumes "local_with_keys i key nonce = Inr l"
  shows "bap_session_new key nonce = Inr (ss_session (lb_stateful l))"
    "ss_protocol_state (lb_stateful l) = WaitingForServiceHandshake"
    "ss_policy (lb_stateful l) = response_policy_default"
    "context_valid (bs_crypto (ss_session (lb_stateful l)))"
proof -
  have w: "with_material i \<lparr>sm_key = key, sm_nonce = nonce\<rparr> = Inr (lb_stateful l)"
    using assms by (auto simp: local_with_keys_def split: if_splits sum.splits)
  then show s: "bap_session_new key nonce = Inr (ss_session (lb_stateful l))"
    "ss_protocol_state (lb_stateful l) = WaitingForServiceHandshake"
    "ss_policy (lb_stateful l) = response_policy_default"
    using with_material_ok [OF w] by simp_all
  show "context_valid (bs_crypto (ss_session (lb_stateful l)))"
    by (rule bap_session_new_valid [OF s(1)])
qed

section \<open>The replies of a whole conversation\<close>

text \<open>What an action puts on the wire, as a message of the session layer.\<close>

fun reply_outs :: "response_action \<Rightarrow> bap_out list" where
  "reply_outs (SendClear i c p) =
     [\<lparr>bo_encrypted = False, bo_direction = ServerToClient, bo_msg_id = i, bo_context = c, bo_payload = p\<rparr>]"
| "reply_outs (SendEncrypted i c p) =
     [\<lparr>bo_encrypted = True, bo_direction = ServerToClient, bo_msg_id = i, bo_context = c, bo_payload = p\<rparr>]"
| "reply_outs ObserveOnly = []"
| "reply_outs RejectAction = []"
| "reply_outs NoAction = []"

text \<open>The logical message the server decodes from what a client sent.\<close>

definition logical :: "bap_out \<Rightarrow> bap_message" where
  "logical m =
     (case decode_from_frame (bap_view m) DirClientToServer of
        Inr x \<Rightarrow> x | Inl e \<Rightarrow> BUnknown \<lparr>um_id = 0, um_context = 0, um_direction = DirClientToServer, um_payload = []\<rparr>)"

lemma decode_logical: "decode_from_frame (bap_view m) DirClientToServer = Inr (logical m)"
proof -
  obtain x where "decode_from_frame (bap_view m) DirClientToServer = Inr x"
    using decode_message_fields
    by (cases "bo_encrypted m") (simp_all add: bap_view_def, metis+)
  then show ?thesis by (simp add: logical_def)
qed

text \<open>
  The abstract server: the protocol machine with the response policy. \<open>None\<close>: some message is
  rejected.
\<close>

fun policy_run ::
  "response_policy \<Rightarrow> protocol_state \<Rightarrow> bap_message list \<Rightarrow> (bap_out list \<times> protocol_state) option" where
  "policy_run p s [] = Some ([], s)"
| "policy_run p s (m # ms) =
     (if result_is_rejected (transition s m) \<or> decide p s m = RejectAction then None
      else (case policy_run p (foldl proto_step s (message_actions s m)) ms of
          None \<Rightarrow> None
        | Some (outs, t) \<Rightarrow> Some (reply_outs (decide p s m) @ outs, t)))"

definition wire_pairs :: "bytes list \<Rightarrow> (nonce_direction \<times> bytes) list" where
  "wire_pairs bss = map (Pair ServerToClient) bss"

text \<open>Performing one action is sending its reply over the channel to the client.\<close>

lemma perform_action_sends:
  assumes "aead_ok P" "conn_ok c" "cn_writes c = []" "a \<noteq> RejectAction"
    "length (reply_payload a) \<le> 9"
  shows "\<exists>c' bss. perform_action P c a = Some (Inr (), c') \<and> cn_sent c' = cn_sent c @ bss
     \<and> cn_writes c' = [] \<and> cn_decoder c' = cn_decoder c
     \<and> send_all (bap_send P) (conn_session c) (reply_outs a) = Some (wire_pairs bss, conn_session c')
     \<and> (lb_stateful (cn_local c')) = (lb_stateful (cn_local c))\<lparr>ss_session := conn_session c'\<rparr>"
proof (cases a)
  case (SendClear i x p)
  then have "length p + 6 < 2 ^ 32" using assms(5) by simp
  then obtain bs where "clear_raw i x p = Some bs" by (rule clear_raw_ok)
  with SendClear show ?thesis
    using assms(3)
    by (simp add: encode_clear_def send_traced_def write_all_def bap_send_def wire_pairs_def)
next
  case (SendEncrypted i x p)
  then have len: "length p + 22 < 2 ^ 32" using assms(5) by simp
  have v: "context_valid (bs_crypto (conn_session c))" using assms(2) by (simp add: conn_ok_def)
  obtain raw where "encode_encrypted P (conn_session c) ServerToClient i x p
      = Some (Inr raw, advance (conn_session c) ServerToClient)"
    using encode_directed [OF assms(1) v len] by metis
  with SendEncrypted show ?thesis
    using assms(3)
    by (simp add: Let_def send_traced_def write_all_def bap_send_def wire_pairs_def
        del: next_nonce.simps)
qed (use assms in \<open>auto simp: wire_pairs_def intro: exI [of _ "[]"]\<close>)

lemma handle_decoded_frame_view:
  "handle_decoded_frame s (bap_view m) DirClientToServer = handle_message s (logical m)"
  by (simp add: handle_decoded_frame_def decode_logical)

lemma handle_message_accepts:
  assumes "\<not> result_is_rejected (transition (ss_protocol_state s) m)"
    and "decide (ss_policy s) (ss_protocol_state s) m \<noteq> RejectAction"
  obtains h where "fst (handle_message s m) = Inr h"
    "hr_transition h = transition (ss_protocol_state s) m"
    "hr_actions h = [decide (ss_policy s) (ss_protocol_state s) m]"
proof (cases "fst (handle_message s m)")
  case (Inl e)
  then show thesis using handle_outcome_ok [of s m] assms(2) by (simp add: outcome_ok_def Let_def)
next
  case (Inr h)
  with handled_actions [OF Inr] assms(1) show thesis by (intro that [of h]) auto
qed

lemma reply_outs_sendable:
  assumes "length (reply_payload a) \<le> 9"
  shows "\<forall>m \<in> set (reply_outs a). bap_sendable m \<and> bo_direction m = ServerToClient"
  using assms by (cases a) (simp_all add: bap_sendable_def)

lemma reply_raw_wf:
  assumes "aead_ok P" "context_valid (bs_crypto b)"
    and "send_all (bap_send P) b (reply_outs a) = Some (wire_pairs bss, b')"
    and "length (reply_payload a) \<le> 9"
  shows "\<forall>bs \<in> set bss. raw_wf MAX_BODY_LEN (sent_raw bs)"
proof -
  have "session_synced P b b" using assms(1,2) by (simp add: session_synced_def)
  moreover have "\<forall>m \<in> set (reply_outs a). bap_fits m"
    using assms(4) by (cases a) (simp_all add: bap_fits_def MAX_BODY_LEN_def)
  ultimately show ?thesis
    using send_all_raw_wf [OF _ _ assms(3)] by (simp add: wire_pairs_def)
qed

text \<open>A client message that arrives: the frame is decoded, handled and answered.\<close>

lemma process_frame_sends:
  assumes "aead_ok P" "conn_ok c" "cn_writes c = []"
    and "decode_frame P (conn_session c) ClientToServer (rf_raw_bytes raw) = (Inr (bap_view m), b)"
    and "\<not> result_is_rejected (transition (conn_state c) (logical m))"
    and "decide (ss_policy (lb_stateful (cn_local c))) (conn_state c) (logical m) \<noteq> RejectAction"
  shows "\<exists>c' bss. process_frame P c raw = Some (Inr (), c') \<and> cn_sent c' = cn_sent c @ bss
     \<and> cn_writes c' = [] \<and> cn_decoder c' = cn_decoder c
     \<and> send_all (bap_send P) b (reply_outs (decide (ss_policy (lb_stateful (cn_local c))) (conn_state c) (logical m)))
         = Some (wire_pairs bss, conn_session c')
     \<and> conn_state c' = foldl proto_step (conn_state c) (message_actions (conn_state c) (logical m))
     \<and> ss_policy (lb_stateful (cn_local c')) = ss_policy (lb_stateful (cn_local c))"
proof -
  let ?t = "lb_stateful (cn_local c)"
  let ?s = "?t\<lparr>ss_session := b\<rparr>"
  let ?a = "decide (ss_policy ?t) (conn_state c) (logical m)"
  have b: "context_valid (bs_crypto b)"
    using decode_frame_keeps_valid(1) [of "conn_session c" P ClientToServer "rf_raw_bytes raw"] assms(2,4)
    by (simp add: conn_ok_def)
  obtain h where h: "fst (handle_message ?s (logical m)) = Inr h"
      "hr_transition h = transition (conn_state c) (logical m)" "hr_actions h = [?a]"
    using handle_message_accepts [of ?s "logical m"] assms(5,6) by auto
  obtain s2 where hm: "handle_message ?s (logical m) = (Inr h, s2)"
    using h(1) by (cases "handle_message ?s (logical m)") simp
  have s2: "ss_session s2 = b" "ss_policy s2 = ss_policy ?t"
      "ss_protocol_state s2 = foldl proto_step (conn_state c) (message_actions (conn_state c) (logical m))"
    using handle_message_state [of ?s "logical m"] hm by simp_all
  have act: "\<exists>c' bss. perform_actions P x (hr_actions h) = Some (Inr (), c') \<and> cn_sent c' = cn_sent c @ bss
     \<and> cn_writes c' = [] \<and> cn_decoder c' = cn_decoder c
     \<and> send_all (bap_send P) b (reply_outs ?a) = Some (wire_pairs bss, conn_session c')
     \<and> conn_state c' = ss_protocol_state s2 \<and> ss_policy (lb_stateful (cn_local c')) = ss_policy ?t"
    if x: "lb_stateful (cn_local x) = s2" "cn_sent x = cn_sent c" "cn_writes x = []" "cn_decoder x = cn_decoder c" for x
  proof -
    have "conn_ok x" using x(1) s2(1) b by (simp add: conn_ok_def)
    from perform_action_sends [OF assms(1) this x(3) assms(6) decide_payload_short]
    obtain c' bss where "perform_action P x ?a = Some (Inr (), c')" "cn_sent c' = cn_sent x @ bss"
       "cn_writes c' = []" "cn_decoder c' = cn_decoder x"
       "send_all (bap_send P) (conn_session x) (reply_outs ?a) = Some (wire_pairs bss, conn_session c')"
       "lb_stateful (cn_local c') = (lb_stateful (cn_local x))\<lparr>ss_session := conn_session c'\<rparr>"
      by blast
    note r = this
    have "conn_state c' = ss_protocol_state s2" "ss_policy (lb_stateful (cn_local c')) = ss_policy ?t"
      using arg_cong [OF r(6), of ss_protocol_state] arg_cong [OF r(6), of ss_policy] x(1) s2(2) by simp_all
    with r x s2(1) h(3) show ?thesis by simp
  qed
  have hv: "handle_decoded_frame ?s (bap_view m) DirClientToServer = (Inr h, s2)"
    using hm by (simp add: handle_decoded_frame_view)
  have "\<exists>x. process_frame P c raw = perform_actions P x (hr_actions h) \<and> lb_stateful (cn_local x) = s2
     \<and> cn_sent x = cn_sent c \<and> cn_writes x = [] \<and> cn_decoder x = cn_decoder c"
  proof (cases "hr_transition h")
    case (Rejected e)
    then show ?thesis using h(2) assms(5) by simp
  next
    case (Advanced f t)
    with assms(3,4) hv show ?thesis
      unfolding process_frame_def Let_def by simp (rule exI, rule conjI, rule refl, simp)
  next
    case (Observed t)
    with assms(3,4) hv show ?thesis
      unfolding process_frame_def Let_def by simp (rule exI, rule conjI, rule refl, simp)
  qed
  then obtain x where "process_frame P c raw = perform_actions P x (hr_actions h)"
    and "lb_stateful (cn_local x) = s2" "cn_sent x = cn_sent c" "cn_writes x = []" "cn_decoder x = cn_decoder c"
    by blast
  with act [of x] s2(3) show ?thesis by auto
qed

lemma process_frames_sends:
  assumes "aead_ok P" "\<forall>m \<in> set ms. bap_sendable m \<and> bo_direction m = ClientToServer"
    and "conn_ok c" "cn_writes c = []" "dir_channel P ClientToServer a (conn_session c)"
    and "dir_channel P ServerToClient (conn_session c) x"
    and "send_all (bap_send P) a ms = Some (ws, a')"
    and "policy_run (ss_policy (lb_stateful (cn_local c))) (conn_state c) (map logical ms) = Some (outs, t)"
  shows "\<exists>c' bss x'. process_frames P c (map (sent_raw \<circ> snd) ws) = Some (Inr (), c')
     \<and> cn_sent c' = cn_sent c @ bss \<and> cn_decoder c' = cn_decoder c \<and> conn_state c' = t
     \<and> recv_all (bap_recv P) x (wire_pairs bss) = (Inr (map bap_view outs), x')
     \<and> ss_policy (lb_stateful (cn_local c')) = ss_policy (lb_stateful (cn_local c))
     \<and> cn_writes c' = [] \<and> conn_ok c' \<and> (\<forall>bs \<in> set bss. raw_wf MAX_BODY_LEN (sent_raw bs))"
  using assms(2-)
proof (induction ms arbitrary: a c x ws outs)
  case Nil
  then show ?case by (auto simp: wire_pairs_def intro: exI [of _ "[]"])
next
  case (Cons m ms)
  let ?s = "conn_session c"
  let ?a = "decide (ss_policy (lb_stateful (cn_local c))) (conn_state c) (logical m)"
  have m: "bap_sendable m \<and> bo_direction m = ClientToServer" using Cons.prems(1) by simp
  from bap_dir.deliver [OF Cons.prems(4) m] obtain w a1 b1 where
    w: "bap_send P a m = Some (w, a1)" "bap_recv P ?s w = (Inr (bap_view m), b1)"
       "dir_channel P ClientToServer a1 b1"
    by blast
  have av: "context_valid (bs_crypto a)" using Cons.prems(4) by (simp add: dir_channel_def)
  have d: "decode_frame P ?s ClientToServer (snd w) = (Inr (bap_view m), b1)"
    using w(2) bap_send_keeps(1) [OF w(1) av] m by (simp add: bap_recv_def)
  from Cons.prems(6) w(1) obtain vs where vs: "send_all (bap_send P) a1 ms = Some (vs, a')" "ws = w # vs"
    by (auto split: option.splits)
  from Cons.prems(7) obtain outs' where o1: "\<not> result_is_rejected (transition (conn_state c) (logical m))"
      "?a \<noteq> RejectAction" "outs = reply_outs ?a @ outs'"
      "policy_run (ss_policy (lb_stateful (cn_local c)))
         (foldl proto_step (conn_state c) (message_actions (conn_state c) (logical m))) (map logical ms)
       = Some (outs', t)"
    by (auto split: if_splits option.splits)
  from process_frame_sends [OF assms(1) Cons.prems(2,3) _ o1(1,2), of "sent_raw (snd w)" b1] d
  obtain c1 bss1 where c1: "process_frame P c (sent_raw (snd w)) = Some (Inr (), c1)"
      "cn_sent c1 = cn_sent c @ bss1" "cn_writes c1 = []" "cn_decoder c1 = cn_decoder c"
      "send_all (bap_send P) b1 (reply_outs ?a) = Some (wire_pairs bss1, conn_session c1)"
      "conn_state c1 = foldl proto_step (conn_state c) (message_actions (conn_state c) (logical m))"
      "ss_policy (lb_stateful (cn_local c1)) = ss_policy (lb_stateful (cn_local c))"
    by (auto simp: sent_raw_def)
  have rd: "\<forall>m \<in> set (reply_outs ?a). bap_sendable m \<and> bo_direction m = ServerToClient"
    by (rule reply_outs_sendable) (rule decide_payload_short)
  have b1v: "context_valid (bs_crypto b1)" using w(3) by (simp add: dir_channel_def)
  have wf1: "\<forall>bs \<in> set bss1. raw_wf MAX_BODY_LEN (sent_raw bs)"
    by (rule reply_raw_wf [OF assms(1) b1v c1(5)]) (rule decide_payload_short)
  have s2c: "dir_channel P ServerToClient b1 x"
    by (rule dir_channel_decoded [OF Cons.prems(5) d]) simp
  from bap_dir.deliver_all [OF s2c rd] c1(5) obtain x1 where
    x1: "recv_all (bap_recv P) x (wire_pairs bss1) = (Inr (map bap_view (reply_outs ?a)), x1)"
      "dir_channel P ServerToClient (conn_session c1) x1"
    by auto
  have c2s: "dir_channel P ClientToServer a1 (conn_session c1)"
    by (rule dir_channel_right [OF w(3) c1(5)]) (use rd in auto)
  have ok1: "conn_ok c1" using c2s by (simp add: conn_ok_def dir_channel_def)
  have pr: "policy_run (ss_policy (lb_stateful (cn_local c1))) (conn_state c1) (map logical ms) = Some (outs', t)"
    using o1(4) c1(6,7) by simp
  have ms: "\<forall>m \<in> set ms. bap_sendable m \<and> bo_direction m = ClientToServer"
    using Cons.prems(1) by simp
  from Cons.IH [OF ms ok1 c1(3) c2s x1(2) vs(1) pr] obtain c' bss2 x' where
    c': "process_frames P c1 (map (sent_raw \<circ> snd) vs) = Some (Inr (), c')" "cn_sent c' = cn_sent c1 @ bss2"
      "cn_decoder c' = cn_decoder c1" "conn_state c' = t"
      "recv_all (bap_recv P) x1 (wire_pairs bss2) = (Inr (map bap_view outs'), x')"
      "ss_policy (lb_stateful (cn_local c')) = ss_policy (lb_stateful (cn_local c1))"
      "cn_writes c' = []" "conn_ok c'" "\<forall>bs \<in> set bss2. raw_wf MAX_BODY_LEN (sent_raw bs)"
    by blast
  have "recv_all (bap_recv P) x (wire_pairs (bss1 @ bss2)) = (Inr (map bap_view outs), x')"
    using recv_all_append [OF x1(1) c'(5)] o1(3) by (simp add: wire_pairs_def)
  then show ?case
    using c1 c' vs(2) wf1
    by (intro exI [of _ c'] exI [of _ "bss1 @ bss2"] exI [of _ x']) (simp add: comp_def ball_Un)
qed

section \<open>The read loop does not see the cuts\<close>

lemma process_frames_append:
  "process_frames P c (xs @ ys) =
     (case process_frames P c xs of
        None \<Rightarrow> None | Some (Inl e, c') \<Rightarrow> Some (Inl e, c') | Some (Inr u, c') \<Rightarrow> process_frames P c' ys)"
  by (induction xs arbitrary: c) (auto split: option.splits prod.splits sum.splits)

text \<open>Handling frames does not look at the decoder.\<close>

abbreviation put_decoder :: "stream_decoder \<Rightarrow> server_conn \<Rightarrow> server_conn" where
  "put_decoder d c \<equiv> c\<lparr>cn_decoder := d\<rparr>"

lemma put_decoder_commutes [simp]:
  "push_trace a i x s t (put_decoder d c) = put_decoder d (push_trace a i x s t c)"
  "set_stateful u (put_decoder d c) = put_decoder d (set_stateful u c)"
  "shut (put_decoder d c) = put_decoder d (shut c)"
  "conn_state_str (put_decoder d c) = conn_state_str c"
  by (simp_all add: push_trace_def set_stateful_def shut_def conn_state_str_def)

lemma send_traced_decoder:
  "send_traced i x bs (put_decoder d c) = map_prod id (put_decoder d) (send_traced i x bs c)"
  by (auto simp: send_traced_def write_all_def push_trace_def conn_state_str_def split: list.split option.split)

lemma perform_action_decoder:
  "perform_action P (put_decoder d c) a = map_option (map_prod id (put_decoder d)) (perform_action P c a)"
  by (cases a) (simp_all add: send_traced_decoder Let_def split: option.split prod.split sum.split)

lemma perform_actions_decoder:
  "perform_actions P (put_decoder d c) as = map_option (map_prod id (put_decoder d)) (perform_actions P c as)"
proof (induction "as" arbitrary: c)
  case (Cons a "as")
  show ?case
    by (simp add: perform_action_decoder Cons.IH split: option.split prod.split sum.split)
qed simp

lemma process_frame_decoder:
  "process_frame P (put_decoder d c) raw = map_option (map_prod id (put_decoder d)) (process_frame P c raw)"
  unfolding process_frame_def Let_def
  by (simp add: perform_actions_decoder split: prod.split sum.split bap_session_error.split
      protocol_state_error.split transition_result.split)

lemma process_frames_decoder:
  "process_frames P (put_decoder d c) raws = map_option (map_prod id (put_decoder d)) (process_frames P c raws)"
proof (induction raws arbitrary: c)
  case (Cons raw raws)
  show ?case
    by (simp add: process_frame_decoder Cons.IH split: option.split prod.split sum.split)
qed simp

text \<open>A stream of good frames, cut anywhere: all frames are handled, then the end is reached.\<close>

definition eof_connection :: "server_conn \<Rightarrow> server_conn" where
  "eof_connection c =
     (let c = set_stateful (session_finish_close (session_begin_close (lb_stateful (cn_local c)))) c
      in finish_connection (push_trace ''SYS'' None None (conn_state_str c) ''EOF'' c))"

lemma eof_connection_frame [simp]:
  "cn_sent (eof_connection c) = cn_sent c" "cn_shutdown (eof_connection c)"
  "conn_state (eof_connection c) = Closed"
  by (simp_all add: eof_connection_def finish_connection_def Let_def session_finish_close_def
      session_begin_close_def close_state_def)

lemma drain_prefix:
  assumes "\<forall>r \<in> set rs. raw_wf m r" "a @ b = concat (map rf_raw_bytes rs)"
  obtains fs gs rest where "drain_loop m a = (Inr fs, rest)" "rs = fs @ gs"
    "rest @ b = concat (map rf_raw_bytes gs)"
proof -
  have all: "drain_loop m (a @ b) = (Inr rs, [])"
    using drain_raws [OF assms(1), of "[]"] assms(2) by (simp add: head_of_def)
  obtain q rest where a: "drain_loop m a = (q, rest)" by (cases "drain_loop m a")
  show thesis
  proof (cases q)
    case (Inl e)
    then show thesis using drain_append_err [of m a e rest b] a all by simp
  next
    case (Inr fs)
    with drain_append_ok [of m a fs rest b] a all obtain gs where
      gs: "drain_loop m (rest @ b) = (Inr gs, [])" "rs = fs @ gs"
      by (auto split: prod.splits sum.splits)
    show thesis
      using that [of fs rest gs] a Inr gs drain_conserves [OF gs(1)] by simp
  qed
qed

lemma stream_read_script:
  assumes "0 < n"
  shows "event_script n evs = [] \<Longrightarrow> fst (stream_read n evs) = Inr []"
    and "event_script n evs = Inr c # xs \<Longrightarrow>
       fst (stream_read n evs) = Inr c \<and> c \<noteq> [] \<and> event_script n (snd (stream_read n evs)) = xs"
proof -
  have "(case event_script n evs of
        [] \<Rightarrow> fst (stream_read n evs) = Inr []
      | Inr c # xs \<Rightarrow> fst (stream_read n evs) = Inr c \<and> c \<noteq> [] \<and> event_script n (snd (stream_read n evs)) = xs
      | Inl _ # _ \<Rightarrow> True)"
  proof (cases evs)
    case (Cons e es)
    show ?thesis
    proof (cases e)
      case (IoData bs)
      show ?thesis
        using assms unfolding Cons IoData by (subst (1) event_script.simps(3)) (simp split: list.split)
    qed (simp add: Cons)
  qed simp
  then show "event_script n evs = [] \<Longrightarrow> fst (stream_read n evs) = Inr []"
    and "event_script n evs = Inr c # xs \<Longrightarrow>
       fst (stream_read n evs) = Inr c \<and> c \<noteq> [] \<and> event_script n (snd (stream_read n evs)) = xs"
    by simp_all
qed

lemma connection_loop_frames:
  assumes "event_script READ_BUF_LEN stream = map Inr cs"
    and "\<forall>r \<in> set rs. raw_wf MAX_BODY_LEN r" "sd_max_body_len (cn_decoder c) = MAX_BODY_LEN"
    and "sd_buf (cn_decoder c) @ concat cs = concat (map rf_raw_bytes rs)"
    and "head_of MAX_BODY_LEN (sd_buf (cn_decoder c)) = HWait"
    and "process_frames P c rs = Some (Inr (), c')"
  shows "\<exists>d. connection_loop P stream c = Some (Inr (), eof_connection (put_decoder d c'))"
  using assms
proof (induction cs arbitrary: stream c rs c')
  case Nil
  have rs: "rs = []"
  proof (rule ccontr)
    assume "rs \<noteq> []"
    then obtain r gs where "rs = r # gs" by (cases rs) auto
    with Nil.prems(2,4,5) head_of_raw [of MAX_BODY_LEN r "concat (map rf_raw_bytes gs)"] show False
      by simp
  qed
  have "fst (stream_read READ_BUF_LEN stream) = Inr []"
    using stream_read_script(1) [of READ_BUF_LEN stream] Nil.prems(1) by (simp add: READ_BUF_LEN_def)
  then have "connection_loop P stream c = Some (Inr (), eof_connection c)"
    by (cases "stream_read READ_BUF_LEN stream")
       (simp add: connection_loop.simps [of P stream] eof_connection_def Let_def)
  then show ?case
    using rs Nil.prems(6) by (intro exI [of _ "cn_decoder c"]) simp
next
  case (Cons b cs)
  let ?m = MAX_BODY_LEN
  have rd: "fst (stream_read READ_BUF_LEN stream) = Inr b" "b \<noteq> []"
      "event_script READ_BUF_LEN (snd (stream_read READ_BUF_LEN stream)) = map Inr cs"
    using stream_read_script(2) [of READ_BUF_LEN stream b "map Inr cs"] Cons.prems(1)
    by (simp_all add: READ_BUF_LEN_def)
  have "(sd_buf (cn_decoder c) @ b) @ concat cs = concat (map rf_raw_bytes rs)"
    using Cons.prems(4) by simp
  from drain_prefix [OF Cons.prems(2) this] obtain fs gs rest where
    fs: "drain_loop ?m (sd_buf (cn_decoder c) @ b) = (Inr fs, rest)" "rs = fs @ gs"
      "rest @ concat cs = concat (map rf_raw_bytes gs)"
    by blast
  define d where "d = (cn_decoder c)\<lparr>sd_buf := rest\<rparr>"
  have push: "decoder_push (cn_decoder c) b = (Inr fs, d)"
    using fs(1) Cons.prems(3) by (simp add: decoder_push_eq d_def)
  from Cons.prems(6) obtain c1 where c1: "process_frames P c fs = Some (Inr (), c1)"
      "process_frames P c1 gs = Some (Inr (), c')"
    unfolding fs(2) process_frames_append by (auto split: option.splits prod.splits sum.splits)
  have pf: "process_frames P (put_decoder d c) fs = Some (Inr (), put_decoder d c1)"
      "process_frames P (put_decoder d c1) gs = Some (Inr (), put_decoder d c')"
    using c1 by (simp_all add: process_frames_decoder)
  have "\<exists>d'. connection_loop P (snd (stream_read READ_BUF_LEN stream)) (put_decoder d c1)
      = Some (Inr (), eof_connection (put_decoder d' (put_decoder d c')))"
    using Cons.prems(2,3) fs(2,3) drain_residual_waits [OF fs(1)]
    by (intro Cons.IH [OF rd(3), of gs] pf(2)) (simp_all add: d_def)
  then show ?case
    using rd(1,2) push pf(1)
    by (cases "stream_read READ_BUF_LEN stream") (simp add: connection_loop.simps [of P stream])
qed

lemma event_script_bytewise:
  "event_script READ_BUF_LEN (map (\<lambda>b. IoData [b]) bs) = map Inr (map (\<lambda>b. [b]) bs)"
  by (induction bs) (simp_all add: event_script.simps(3) READ_BUF_LEN_def)

lemma handle_connection_some:
  assumes "aead_ok P"
  shows "\<exists>r. handle_connection P i stream writes key nonce traces = Some r"
proof (cases "local_with_keys i key nonce")
  case (Inl e)
  then show ?thesis by (simp add: handle_connection_def)
next
  case (Inr l)
  let ?c = "\<lparr>cn_local = l, cn_decoder = decoder_new, cn_writes = writes, cn_sent = [],
     cn_shutdown = False, cn_traces = traces\<rparr>"
  have "conn_ok (push_trace ''SYS'' None None (conn_state_str ?c) ''ACCEPT'' ?c)"
    using local_with_keys_ok(4) [OF Inr] by (simp add: conn_ok_def)
  from connection_loop_some [OF assms this, of stream] Inr show ?thesis
    by (auto simp: handle_connection_def Let_def)
qed

lemma handle_connection_policy:
  assumes "aead_ok P" "bap_session_new key nonce = Inr client"
    and "\<forall>m \<in> set ms. bap_fits m \<and> bo_direction m = ClientToServer"
    and "send_all (bap_send P) client ms = Some (ws, client')"
    and "event_script READ_BUF_LEN stream = map Inr cs" "concat cs = concat (map snd ws)"
    and "policy_run response_policy_default WaitingForServiceHandshake (map logical ms) = Some (outs, t)"
  shows "\<exists>c x. handle_connection P i stream [] key nonce traces = Some (Inr (Inr (), c))
     \<and> recv_all (bap_recv P) client' (wire_pairs (cn_sent c)) = (Inr (map bap_view outs), x)
     \<and> conn_state c = Closed \<and> cn_shutdown c
     \<and> (\<forall>bs \<in> set (cn_sent c). raw_wf MAX_BODY_LEN (sent_raw bs))"
proof -
  have lens: "length key = 16" "length nonce = 12"
    using assms(2) by (auto simp: bap_session_new_def dest: context_newD(1,2) split: sum.splits)
  then obtain l where l: "local_with_keys i key nonce = Inr l"
    using assms(2) by (auto simp: local_with_keys_def with_material_def Let_def)
  note lo = local_with_keys_ok [OF l]
  have sess: "ss_session (lb_stateful l) = client" using lo(1) assms(2) by simp
  let ?c0 = "\<lparr>cn_local = l, cn_decoder = decoder_new, cn_writes = [], cn_sent = [],
     cn_shutdown = False, cn_traces = traces\<rparr>"
  define c where "c = push_trace ''SYS'' None None (conn_state_str ?c0) ''ACCEPT'' ?c0"
  have c: "conn_session c = client" "cn_writes c = []" "cn_sent c = []" "cn_decoder c = decoder_new"
      "conn_state c = WaitingForServiceHandshake" "ss_policy (lb_stateful (cn_local c)) = response_policy_default"
    using sess lo(2,3) by (simp_all add: c_def)
  have v: "context_valid (bs_crypto client)" using lo(4) sess by simp
  have sy: "session_synced P client client" using assms(1) v by (simp add: session_synced_def)
  have up: "dir_channel P ClientToServer client (conn_session c)"
    using assms(1) v c(1) by (simp add: dir_channel_def dir_synced_def)
  have "dir_channel P ServerToClient (conn_session c) client"
    using assms(1) v c(1) by (simp add: dir_channel_def dir_synced_def)
  then have down: "dir_channel P ServerToClient (conn_session c) client'"
    by (rule dir_channel_right [OF _ assms(4)]) (use assms(3) in auto)
  have ms: "\<forall>m \<in> set ms. bap_sendable m \<and> bo_direction m = ClientToServer"
    using assms(3) bap_fits_sendable by blast
  have ok: "conn_ok c" using v c(1) by (simp add: conn_ok_def)
  have run: "policy_run (ss_policy (lb_stateful (cn_local c))) (conn_state c) (map logical ms) = Some (outs, t)"
    using assms(7) c(5,6) by simp
  from process_frames_sends [OF assms(1) ms ok c(2) up down assms(4) run] obtain c' bss x where
    c': "process_frames P c (map (sent_raw \<circ> snd) ws) = Some (Inr (), c')" "cn_sent c' = bss"
      "recv_all (bap_recv P) client' (wire_pairs bss) = (Inr (map bap_view outs), x)"
      "\<forall>bs \<in> set bss. raw_wf MAX_BODY_LEN (sent_raw bs)"
    using c(3) by auto
  have raws: "\<forall>r \<in> set (map (sent_raw \<circ> snd) ws). raw_wf MAX_BODY_LEN r"
    using send_all_raw_wf [OF sy _ assms(4)] assms(3) by auto
  have "\<exists>d. connection_loop P stream c = Some (Inr (), eof_connection (put_decoder d c'))"
    by (rule connection_loop_frames [OF assms(5) raws _ _ _ c'(1)])
       (use c(4) assms(6) in \<open>simp_all add: decoder_new_def head_of_def comp_def sent_raw_def\<close>)
  then obtain d where "connection_loop P stream c = Some (Inr (), eof_connection (put_decoder d c'))" ..
  then have "handle_connection P i stream [] key nonce traces
      = Some (Inr (Inr (), eof_connection (put_decoder d c')))"
    using l by (simp add: handle_connection_def Let_def flip: c_def)
  then show ?thesis
    using c'(2-4) by auto
qed

section \<open>Properties\<close>

text \<open>
  C4. The server implements the policy: a client that holds the same key and nonce sends any
  sequence of clear and encrypted messages that the protocol accepts, its bytes cut into
  chunks anywhere; \<open>handle_connection\<close> ends normally, closed and shut down, and the client
  decodes from what was sent exactly the replies of the abstract server, in order.
\<close>

theorem server_implements_policy:
  assumes "aead_ok P" "bap_session_new key nonce = Inr client"
    and "\<forall>m \<in> set ms. bap_fits m \<and> bo_direction m = ClientToServer"
    and "send_all (bap_send P) client ms = Some (ws, client')"
    and "event_script READ_BUF_LEN stream = map Inr cs" "concat cs = concat (map snd ws)"
    and "policy_run response_policy_default WaitingForServiceHandshake (map logical ms) = Some (outs, t)"
  shows "\<exists>c x. handle_connection P i stream [] key nonce traces = Some (Inr (Inr (), c))
     \<and> recv_all (bap_recv P) client' (wire_pairs (cn_sent c)) = (Inr (map bap_view outs), x)
     \<and> conn_state c = Closed \<and> cn_shutdown c"
  using handle_connection_policy [OF assms] by blast

text \<open>A handshake with one encrypted message and a keep-alive, delivered byte by byte.\<close>

theorem server_implements_policy_witness:
  "\<exists>client ws client' c x.
     bap_session_new SYNTHETIC_SESSION_KEY SYNTHETIC_SESSION_NONCE = Inr client
     \<and> send_all (bap_send demo_aead) client
        [\<lparr>bo_encrypted = False, bo_direction = ClientToServer, bo_msg_id = 0x1E, bo_context = 1, bo_payload = []\<rparr>,
         \<lparr>bo_encrypted = False, bo_direction = ClientToServer, bo_msg_id = 0x19, bo_context = 1, bo_payload = []\<rparr>,
         \<lparr>bo_encrypted = True, bo_direction = ClientToServer, bo_msg_id = 0x79, bo_context = 1, bo_payload = [7, 7]\<rparr>,
         \<lparr>bo_encrypted = True, bo_direction = ClientToServer, bo_msg_id = 0xFA, bo_context = 9, bo_payload = []\<rparr>]
        = Some (ws, client')
     \<and> handle_connection demo_aead 1 (map (\<lambda>b. IoData [b]) (concat (map snd ws))) []
         SYNTHETIC_SESSION_KEY SYNTHETIC_SESSION_NONCE [] = Some (Inr (Inr (), c))
     \<and> recv_all (bap_recv demo_aead) client' (wire_pairs (cn_sent c))
         = (Inr [DClear 0x1F 1 PAYLOAD_1F, DClear 0x1A 1 PAYLOAD_1A,
                 DDecrypted (Some 0x7A) (Some 1) PAYLOAD_7A 12, DClear 0xFB 9 PAYLOAD_FB], x)
     \<and> conn_state c = Closed \<and> cn_shutdown c"
proof -
  let ?ms = "[\<lparr>bo_encrypted = False, bo_direction = ClientToServer, bo_msg_id = 0x1E, bo_context = 1, bo_payload = []\<rparr>,
         \<lparr>bo_encrypted = False, bo_direction = ClientToServer, bo_msg_id = 0x19, bo_context = 1, bo_payload = []\<rparr>,
         \<lparr>bo_encrypted = True, bo_direction = ClientToServer, bo_msg_id = 0x79, bo_context = 1, bo_payload = [7, 7]\<rparr>,
         \<lparr>bo_encrypted = True, bo_direction = ClientToServer, bo_msg_id = 0xFA, bo_context = 9, bo_payload = []\<rparr>]"
  obtain client where s: "bap_session_new SYNTHETIC_SESSION_KEY SYNTHETIC_SESSION_NONCE = Inr client"
    using context_new_ok [of SYNTHETIC_SESSION_KEY SYNTHETIC_SESSION_NONCE]
    by (auto simp: bap_session_new_def SYNTHETIC_SESSION_KEY_def SYNTHETIC_SESSION_NONCE_def)
  have fits: "\<forall>m \<in> set ?ms. bap_fits m \<and> bo_direction m = ClientToServer"
    by (simp add: bap_fits_def MAX_BODY_LEN_def)
  then have "\<forall>m \<in> set ?ms. bap_sendable m" using bap_fits_sendable by blast
  then obtain ws client' where ws: "send_all (bap_send demo_aead) client ?ms = Some (ws, client')"
    using bap.deliver_all [OF bap_session_new_synced [OF demo_aead_ok s], of ?ms] by blast
  have "map_option (map bap_view \<circ> fst) (policy_run response_policy_default WaitingForServiceHandshake (map logical ?ms))
      = Some [DClear 0x1F 1 PAYLOAD_1F, DClear 0x1A 1 PAYLOAD_1A,
              DDecrypted (Some 0x7A) (Some 1) PAYLOAD_7A 12, DClear 0xFB 9 PAYLOAD_FB]"
    by code_simp
  then obtain outs t where run:
      "policy_run response_policy_default WaitingForServiceHandshake (map logical ?ms) = Some (outs, t)"
      "map bap_view outs = [DClear 0x1F 1 PAYLOAD_1F, DClear 0x1A 1 PAYLOAD_1A,
              DDecrypted (Some 0x7A) (Some 1) PAYLOAD_7A 12, DClear 0xFB 9 PAYLOAD_FB]"
    unfolding map_option_eq_Some comp_def by (metis prod.collapse)
  have "concat (map (\<lambda>b. [b]) bs) = bs" for bs :: bytes by (induction bs) simp_all
  from server_implements_policy [OF demo_aead_ok s fits ws event_script_bytewise this run(1), of 1 "[]"]
  show ?thesis
    using s ws unfolding run(2) by blast
qed

end
