(* ===== verification/Checked_Codec.thy ===== *)
theory Checked_Codec
  imports Stream_Framing Message_Codec "HOL-Library.Monad_Syntax"
begin

text \<open>
  The operations below a connection of the local server with every panic of Rust written out:
  an index or a range outside a slice, \<open>try_into().unwrap()\<close> and \<open>copy_from_slice\<close> on a wrong
  length, a subtraction below zero, an addition above \<open>usize::MAX\<close>, and the \<open>expect\<close>s of the
  cipher crate. \<open>None\<close> is the panic. The other theories use the total operations; the theorems
  here say that each checked one returns, with the result of the total one, for every input.
  The functions are those of \<open>framing.rs\<close>, \<open>stream_framing.rs\<close>, \<open>bap_session.rs\<close>,
  \<open>crypto/\<close> and \<open>message_codec.rs\<close>.
\<close>

named_theorems never_panics "a checked operation returns what the total one does"

section \<open>Operations of the language that can panic\<close>

definition index_at :: "'a list \<Rightarrow> nat \<Rightarrow> 'a option" where
  "index_at xs i = (if i < length xs then Some (xs ! i) else None)"

text \<open>\<open>&xs[a..b]\<close>, \<open>&xs[a..]\<close> and \<open>&xs[..b]\<close>\<close>

definition range_at :: "nat \<Rightarrow> nat \<Rightarrow> 'a list \<Rightarrow> 'a list option" where
  "range_at a b xs = (if a \<le> b \<and> b \<le> length xs then Some (slice_of a b xs) else None)"

definition range_from :: "nat \<Rightarrow> 'a list \<Rightarrow> 'a list option" where
  "range_from a xs = (if a \<le> length xs then Some (drop a xs) else None)"

definition range_to :: "nat \<Rightarrow> 'a list \<Rightarrow> 'a list option" where
  "range_to b xs = (if b \<le> length xs then Some (take b xs) else None)"

text \<open>\<open>try_into().unwrap()\<close> and \<open>copy_from_slice\<close> on an array of \<open>n\<close> bytes\<close>

definition array_of :: "nat \<Rightarrow> 'a list \<Rightarrow> 'a list option" where
  "array_of n xs = (if length xs = n then Some xs else None)"

definition usize_add :: "nat \<Rightarrow> nat \<Rightarrow> nat option" where
  "usize_add a b = (if a + b \<le> usize_max then Some (a + b) else None)"

definition usize_sub :: "nat \<Rightarrow> nat \<Rightarrow> nat option" where
  "usize_sub a b = (if b \<le> a then Some (a - b) else None)"

text \<open>The \<open>?\<close> operator where a panic is possible too.\<close>

definition and_then :: "('e + 'a) option \<Rightarrow> ('a \<Rightarrow> ('e + 'b) option) \<Rightarrow> ('e + 'b) option" where
  "and_then r k = (case r of None \<Rightarrow> None | Some (Inl e) \<Rightarrow> Some (Inl e) | Some (Inr x) \<Rightarrow> k x)"

lemma and_then_simps [simp]:
  "and_then None k = None" "and_then (Some (Inl e)) k = Some (Inl e)" "and_then (Some (Inr x)) k = k x"
  by (simp_all add: and_then_def)

lemmas panic_sites = index_at_def range_at_def range_from_def range_to_def array_of_def usize_add_def usize_sub_def

lemma usize_add_u32: "usize_add 6 (unat (n :: u32)) = Some (6 + unat n)"
proof -
  have "unat n < 4294967296" by (rule unat_u32_lt)
  moreover have "6 + 4294967296 \<le> usize_max" by (simp add: usize_max_def)
  ultimately have "6 + unat n \<le> usize_max" by linarith
  then show ?thesis by (simp add: usize_add_def)
qed

section \<open>Frames\<close>

definition checked_clear_body :: "bytes \<Rightarrow> (framing_error + clear_body) option" where
  "checked_clear_body body =
     (if length body < CLEAR_HEADER_LEN then Some (Inl TruncatedClearBody)
      else do {
        i \<leftarrow> range_at 0 2 body \<bind> array_of 2;
        c \<leftarrow> range_at 2 6 body \<bind> array_of 4;
        payload \<leftarrow> range_from CLEAR_HEADER_LEN body;
        Some (Inr \<lparr>cb_msg_id = u16_from_be_bytes i, cb_context = u32_from_be_bytes c, cb_payload = payload\<rparr>)
      })"

definition checked_encrypted_body :: "bytes \<Rightarrow> (framing_error + encrypted_body) option" where
  "checked_encrypted_body body =
     (if length body < ENCRYPTED_TAG_LEN then Some (Inl TruncatedEncryptedTag)
      else do {
        tag \<leftarrow> range_to ENCRYPTED_TAG_LEN body \<bind> array_of ENCRYPTED_TAG_LEN;
        ciphertext \<leftarrow> range_from ENCRYPTED_TAG_LEN body;
        Some (Inr \<lparr>eb_tag = tag, eb_ciphertext = ciphertext\<rparr>)
      })"

definition checked_body :: "frame_kind \<Rightarrow> bytes \<Rightarrow> (framing_error + frame_body) option" where
  "checked_body kind body =
     (case kind of
        KClear \<Rightarrow> and_then (checked_clear_body body) (\<lambda>c. Some (Inr (BClear c)))
      | KEncrypted \<Rightarrow> and_then (checked_encrypted_body body) (\<lambda>c. Some (Inr (BEncrypted c)))
      | KOther _ \<Rightarrow> Some (Inr (BOpaque body)))"

definition checked_parse :: "bytes \<Rightarrow> (framing_error + bap_frame \<times> nat) option" where
  "checked_parse data =
     (if length data < HEADER_LEN then Some (Inl TruncatedHeader)
      else do {
        magic \<leftarrow> index_at data 0;
        if magic \<noteq> BAP_MAGIC then Some (Inl (BadMagic magic))
        else do {
          kind \<leftarrow> index_at data 1;
          len \<leftarrow> range_at 2 6 data \<bind> array_of 4;
          (case checked_add_usize HEADER_LEN (unat (u32_from_be_bytes len)) of
             None \<Rightarrow> Some (Inl LengthOverflow)
           | Some tot \<Rightarrow>
               if length data < tot then Some (Inl TruncatedBody)
               else do {
                 body_bytes \<leftarrow> range_at HEADER_LEN tot data;
                 and_then (checked_body (kind_from_u8 kind) body_bytes)
                   (\<lambda>body. Some (Inr (\<lparr>bf_kind = kind_from_u8 kind, bf_body = body\<rparr>, tot)))
               })
        }
      })"

lemma checked_bodies [never_panics]:
  "checked_clear_body body = Some (parse_clear_body body)"
  "checked_encrypted_body body = Some (parse_encrypted_body body)"
  "checked_body kind body = Some (parse_body kind body)"
proof -
  show c: "checked_clear_body body = Some (parse_clear_body body)" for body
    by (simp add: checked_clear_body_def parse_clear_body_def panic_sites framing_consts)
  show e: "checked_encrypted_body body = Some (parse_encrypted_body body)" for body
    by (simp add: checked_encrypted_body_def parse_encrypted_body_def panic_sites framing_consts)
  show "checked_body kind body = Some (parse_body kind body)"
    by (cases kind) (simp_all add: checked_body_def parse_body_def c e split: sum.split)
qed

lemma checked_parse [never_panics]: "checked_parse data = Some (frame_parse data)"
proof (cases "length data < 6")
  case False
  then have h: "0 < length data" "1 < length data" "6 \<le> length data" by linarith+
  then have sites: "index_at data 0 = Some (data ! 0)" "index_at data 1 = Some (data ! 1)"
    "range_at 2 6 data \<bind> array_of 4 = Some (slice_of 2 6 data)"
    by (simp_all add: panic_sites)
  have range: "range_at 6 n data = Some (slice_of 6 n data)" if "6 \<le> n" "\<not> length data < n" for n
    using that by (simp add: panic_sites)
  have "checked_parse data = (if data ! 0 \<noteq> BAP_MAGIC then Some (Inl (BadMagic (data ! 0)))
      else (case checked_add_usize HEADER_LEN (unat (u32_from_be_bytes (slice_of 2 6 data))) of
             None \<Rightarrow> Some (Inl LengthOverflow)
           | Some tot \<Rightarrow>
               if length data < tot then Some (Inl TruncatedBody)
               else and_then (Some (parse_body (kind_from_u8 (data ! 1)) (slice_of HEADER_LEN tot data)))
                   (\<lambda>body. Some (Inr (\<lparr>bf_kind = kind_from_u8 (data ! 1), bf_body = body\<rparr>, tot)))))"
    unfolding checked_parse_def sites checked_bodies
    using False range by (auto simp: HEADER_LEN_def checked_add_usize_def split: option.split)
  with False show ?thesis
    by (simp add: frame_parse_def HEADER_LEN_def split: option.split sum.split)
qed (simp add: checked_parse_def frame_parse_def HEADER_LEN_def)

section \<open>The stream decoder\<close>

text \<open>One round of the loop of \<open>drain_complete\<close>.\<close>

definition checked_round :: "nat \<Rightarrow> bytes \<Rightarrow> head_view option" where
  "checked_round max_body buf =
     (if length buf < STREAM_HEADER_LEN then Some HWait
      else do {
        magic \<leftarrow> index_at buf 0;
        if magic \<noteq> BAP_MAGIC then Some (HErr (InvalidMagic magic))
        else do {
          kind \<leftarrow> index_at buf 1;
          if kind \<noteq> KIND_ENCRYPTED \<and> kind \<noteq> KIND_CLEAR then Some (HErr (InvalidKind kind))
          else do {
            len \<leftarrow> range_at 2 6 buf \<bind> array_of 4;
            let body_len = u32_from_be_bytes len;
            if max_body < unat body_len then Some (HErr (FrameTooLarge body_len))
            else do {
              tot \<leftarrow> usize_add STREAM_HEADER_LEN (unat body_len);
              if length buf < tot then Some HWait
              else do {
                raw \<leftarrow> range_to tot buf;
                body \<leftarrow> range_from STREAM_HEADER_LEN raw;
                Some (HFrame \<lparr>rf_kind = kind, rf_body = body, rf_raw_bytes = raw\<rparr> tot)
              }
            }
          }
        }
      })"

lemma checked_round [never_panics]: "checked_round m buf = Some (head_of m buf)"
proof (cases "length buf < 6")
  case False
  then have h: "0 < length buf" "1 < length buf" "6 \<le> length buf" by linarith+
  then have sites: "index_at buf 0 = Some (buf ! 0)" "index_at buf 1 = Some (buf ! 1)"
    "range_at 2 6 buf \<bind> array_of 4 = Some (slice_of 2 6 buf)"
    by (simp_all add: panic_sites)
  show ?thesis
    unfolding checked_round_def sites using False
    by (simp add: head_of_def STREAM_HEADER_LEN_def Let_def usize_add_u32 range_to_def range_from_def)
qed (simp add: checked_round_def head_of_def STREAM_HEADER_LEN_def)

function checked_drain :: "nat \<Rightarrow> bytes \<Rightarrow> ((stream_error + raw_frame list) \<times> bytes) option" where
  "checked_drain max_body buf =
     (case checked_round max_body buf of
        None \<Rightarrow> None
      | Some (HErr e) \<Rightarrow> Some (Inl e, buf)
      | Some HWait \<Rightarrow> Some (Inr [], buf)
      | Some (HFrame raw tot) \<Rightarrow>
          (case checked_drain max_body (drop tot buf) of
             None \<Rightarrow> None
           | Some (Inl e, rest) \<Rightarrow> Some (Inl e, rest)
           | Some (Inr out, rest) \<Rightarrow> Some (Inr (raw # out), rest)))"
  by pat_completeness auto
termination
  by (relation "measure (length \<circ> snd)")
     (auto simp: checked_round head_of_def Let_def split: if_splits)

declare checked_drain.simps [simp del]

lemma checked_drain [never_panics]: "checked_drain m buf = Some (drain_loop m buf)"
proof (induction buf rule: length_induct)
  case (1 buf)
  show ?case
  proof (cases "head_of m buf")
    case (HFrame raw tot)
    then have "length (drop tot buf) < length buf"
      by (auto simp: head_of_def Let_def split: if_splits)
    with 1 have "checked_drain m (drop tot buf) = Some (drain_loop m (drop tot buf))" by blast
    then show ?thesis
      unfolding checked_drain.simps [of m buf] checked_round drain_loop_head [of m buf] HFrame
      by (simp split: prod.split sum.split)
  qed (simp_all add: checked_drain.simps [of m buf] checked_round drain_loop_head [of m buf])
qed

definition checked_push :: "stream_decoder \<Rightarrow> bytes \<Rightarrow> ((stream_error + raw_frame list) \<times> stream_decoder) option" where
  "checked_push d chunk =
     (let buf = (if chunk \<noteq> [] then sd_buf d @ chunk else sd_buf d)
      in map_option (\<lambda>(r, rest). (r, d\<lparr>sd_buf := rest\<rparr>)) (checked_drain (sd_max_body_len d) buf))"

lemma checked_push [never_panics]: "checked_push d chunk = Some (decoder_push d chunk)"
  by (simp add: checked_push_def decoder_push_def checked_drain Let_def split: prod.split)

section \<open>The cipher\<close>

text \<open>
  \<open>Aes128Gcm::new_from_slice\<close> fails on a key that is not 16 bytes long, and \<open>Nonce::from_slice\<close>
  panics on a nonce that is not 12 bytes long.
\<close>

definition checked_cipher :: "bytes \<Rightarrow> (crypto_error + bytes) option" where
  "checked_cipher key =
     (if length key \<noteq> KEY_LEN then Some (Inl (BadKeyLength (length key)))
      else map_option Inr (array_of 16 key))"

definition checked_encrypt ::
  "aead_prims \<Rightarrow> bytes \<Rightarrow> bytes \<Rightarrow> bytes \<Rightarrow> bytes \<Rightarrow> (crypto_error + aes_gcm_blob) option" where
  "checked_encrypt P key nonce plaintext aad =
     and_then (checked_cipher key) (\<lambda>cipher.
       if length nonce \<noteq> NONCE_LEN then Some (Inl (BadNonceLength (length nonce)))
       else do {
         n \<leftarrow> array_of 12 nonce;
         (case ap_encrypt P cipher n aad plaintext of
            None \<Rightarrow> Some (Inl CEncryptFailed)
          | Some sealed \<Rightarrow>
              if length sealed < TAG_LEN then Some (Inl CEncryptFailed)
              else do {
                split \<leftarrow> usize_sub (length sealed) TAG_LEN;
                tag \<leftarrow> range_from split sealed \<bind> array_of TAG_LEN;
                ciphertext \<leftarrow> range_to split sealed;
                Some (Inr \<lparr>gb_tag = tag, gb_ciphertext = ciphertext\<rparr>)
              })
       })"

definition checked_decrypt ::
  "aead_prims \<Rightarrow> bytes \<Rightarrow> bytes \<Rightarrow> bytes \<Rightarrow> bytes \<Rightarrow> bytes \<Rightarrow> (crypto_error + bytes) option" where
  "checked_decrypt P key nonce ciphertext tag aad =
     (if length tag \<noteq> TAG_LEN then Some (Inl (BadTagLength (length tag)))
      else and_then (checked_cipher key) (\<lambda>cipher.
        if length nonce \<noteq> NONCE_LEN then Some (Inl (BadNonceLength (length nonce)))
        else do {
          n \<leftarrow> array_of 12 nonce;
          Some (case ap_decrypt P cipher n aad (ciphertext @ tag) of None \<Rightarrow> Inl CDecryptFailed | Some msg \<Rightarrow> Inr msg)
        }))"

lemma checked_cipher [never_panics]: "checked_cipher key = Some (cipher_from_key key)"
  by (simp add: checked_cipher_def cipher_from_key_def KEY_LEN_def array_of_def)

lemma checked_encrypt [never_panics]: "checked_encrypt P key nonce plaintext aad = Some (encrypt_aes_gcm P key nonce plaintext aad)"
  by (cases "cipher_from_key key")
     (auto simp: checked_encrypt_def encrypt_aes_gcm_def never_panics aead_consts panic_sites Let_def split: option.split)

lemma checked_decrypt [never_panics]:
  "checked_decrypt P key nonce ciphertext tag aad = Some (decrypt_aes_gcm P key nonce ciphertext tag aad)"
  by (cases "cipher_from_key key")
     (auto simp: checked_decrypt_def decrypt_aes_gcm_def never_panics aead_consts array_of_def split: option.split)

section \<open>The session\<close>

definition checked_nonce_transform :: "bytes \<Rightarrow> nonce_transform \<Rightarrow> (gcm_nonce_error + bytes) option" where
  "checked_nonce_transform session_nonce transform =
     (if length session_nonce \<noteq> GCM_NONCE_LEN then Some (Inl (BadSessionNonceLength (length session_nonce)))
      else do {
        out \<leftarrow> array_of GCM_NONCE_LEN session_nonce;
        (case transform of
           Identity \<Rightarrow> Some (Inr out)
         | XorLastByte v \<Rightarrow> do {
             i \<leftarrow> usize_sub GCM_NONCE_LEN 1;
             b \<leftarrow> index_at out i;
             Some (Inr (out[i := b XOR v]))
           })
      })"

definition checked_context :: "bytes \<Rightarrow> bytes \<Rightarrow> (session_context_error + session_context) option" where
  "checked_context session_key session_nonce =
     (if length session_key \<noteq> KEY_LEN then Some (Inl (BadSessionKeyLength (length session_key)))
      else if length session_nonce \<noteq> GCM_NONCE_LEN then Some (Inl (BadContextNonceLength (length session_nonce)))
      else do {
        key \<leftarrow> array_of KEY_LEN session_key;
        sn \<leftarrow> array_of GCM_NONCE_LEN session_nonce;
        first \<leftarrow> checked_nonce_transform sn (default_transform_for ClientToServer);
        second \<leftarrow> checked_nonce_transform sn (default_transform_for ServerToClient);
        Some (case (first, second) of
           (Inr c2s, Inr s2c) \<Rightarrow>
             Inr \<lparr>sc_key = key, sc_nonce = sn, sc_c2s_nonce = c2s, sc_s2c_nonce = s2c,
                  sc_c2s_counter = 0, sc_s2c_counter = 0\<rparr>
         | _ \<Rightarrow> Inl (BadContextNonceLength (length session_nonce)))
      })"

definition checked_session :: "bytes \<Rightarrow> bytes \<Rightarrow> (bap_session_error + bap_session) option" where
  "checked_session key nonce =
     map_option (\<lambda>r. case r of Inl e \<Rightarrow> Inl (SSession e) | Inr c \<Rightarrow> Inr \<lparr>bs_crypto = c\<rparr>) (checked_context key nonce)"

lemma checked_nonce_transform [never_panics]:
  "checked_nonce_transform nonce t = Some (apply_nonce_transform nonce t)"
  by (cases t) (auto simp: checked_nonce_transform_def apply_nonce_transform_def panic_sites GCM_NONCE_LEN_def)

lemma checked_context [never_panics]: "checked_context key nonce = Some (context_new key nonce)"
  by (auto simp: checked_context_def context_new_def never_panics array_of_def initial_direction_nonce_def split: sum.split)

lemma checked_session [never_panics]: "checked_session key nonce = Some (bap_session_new key nonce)"
  by (simp add: checked_session_def bap_session_new_def never_panics)

definition checked_plaintext :: "bytes \<Rightarrow> decoded_frame option" where
  "checked_plaintext plaintext =
     (let plaintext_len = length plaintext in
      if plaintext_len \<ge> 6
      then do {
        i \<leftarrow> range_at 0 2 plaintext \<bind> array_of 2;
        c \<leftarrow> range_at 2 6 plaintext \<bind> array_of 4;
        payload \<leftarrow> range_from 6 plaintext;
        Some (DDecrypted (Some (u16_from_be_bytes i)) (Some (u32_from_be_bytes c)) payload plaintext_len)
      }
      else Some (DDecrypted None None plaintext plaintext_len))"

definition checked_encrypted ::
  "aead_prims \<Rightarrow> bap_session \<Rightarrow> nonce_direction \<Rightarrow> encrypted_body \<Rightarrow>
   ((bap_session_error + decoded_frame) \<times> bap_session) option" where
  "checked_encrypted P s direction enc =
     (if eb_ciphertext enc = [] then Some (Inl SEmptyCiphertext, s)
      else case next_nonce (bs_crypto s) direction of (nonce, crypto) \<Rightarrow>
        let s = s\<lparr>bs_crypto := crypto\<rparr> in
        do {
          r \<leftarrow> checked_decrypt P (sc_key crypto) nonce (eb_ciphertext enc) (eb_tag enc) [];
          (case r of
             Inr plaintext \<Rightarrow> do { f \<leftarrow> checked_plaintext plaintext; Some (Inr f, s) }
           | Inl _ \<Rightarrow> Some (Inl SDecryptFailed, s))
        })"

definition checked_parsed ::
  "aead_prims \<Rightarrow> bap_session \<Rightarrow> nonce_direction \<Rightarrow> bap_frame \<Rightarrow>
   ((bap_session_error + decoded_frame) \<times> bap_session) option" where
  "checked_parsed P s direction frame =
     (case bf_body frame of
        BClear c \<Rightarrow> Some (Inr (DClear (cb_msg_id c) (cb_context c) (cb_payload c)), s)
      | BEncrypted enc \<Rightarrow> checked_encrypted P s direction enc
      | BOpaque body \<Rightarrow> Some (Inr (DOpaque (kind_as_u8 (bf_kind frame)) (length body)), s))"

definition checked_decode ::
  "aead_prims \<Rightarrow> bap_session \<Rightarrow> nonce_direction \<Rightarrow> bytes \<Rightarrow>
   ((bap_session_error + decoded_frame) \<times> bap_session) option" where
  "checked_decode P s direction raw_frame =
     do {
       r \<leftarrow> checked_parse raw_frame;
       (case r of
          Inl e \<Rightarrow> Some (Inl (SFraming e), s)
        | Inr (frame, consumed) \<Rightarrow>
            if consumed \<noteq> length raw_frame then Some (Inl STrailingBytes, s)
            else checked_parsed P s direction frame)
     }"

definition checked_encode ::
  "aead_prims \<Rightarrow> bap_session \<Rightarrow> nonce_direction \<Rightarrow> u16 \<Rightarrow> u32 \<Rightarrow> bytes \<Rightarrow>
   ((bap_session_error + bytes) \<times> bap_session) option" where
  "checked_encode P s direction mid context payload =
     (let plaintext = u16_to_be_bytes mid @ u32_to_be_bytes context @ payload in
      case next_nonce (bs_crypto s) direction of (nonce, crypto) \<Rightarrow>
        let s = s\<lparr>bs_crypto := crypto\<rparr> in
        do {
          r \<leftarrow> checked_encrypt P (sc_key crypto) nonce plaintext [];
          (case r of
             Inl _ \<Rightarrow> Some (Inl SEncryptFailed, s)
           | Inr blob \<Rightarrow> do { raw \<leftarrow> encrypted_raw (gb_tag blob) (gb_ciphertext blob); Some (Inr raw, s) })
        })"

lemma checked_plaintext [never_panics]: "checked_plaintext p = Some (decode_plaintext p)"
  by (simp add: checked_plaintext_def decode_plaintext_def panic_sites Let_def)

lemma checked_encrypted [never_panics]: "checked_encrypted P s d enc = Some (decode_encrypted P s d enc)"
  by (simp add: checked_encrypted_def decode_encrypted_def never_panics Let_def split: prod.split sum.split crypto_error.split)

lemma checked_parsed [never_panics]: "checked_parsed P s d frame = Some (decode_parsed P s d frame)"
  by (simp add: checked_parsed_def decode_parsed_def never_panics split: frame_body.split)

lemma checked_decode [never_panics]: "checked_decode P s d raw = Some (decode_frame P s d raw)"
  by (simp add: checked_decode_def decode_frame_def never_panics split: sum.split prod.split)

lemma checked_encode [never_panics]: "checked_encode P s d i c p = encode_encrypted P s d i c p"
  by (simp add: checked_encode_def encode_encrypted_def never_panics Let_def split: prod.split sum.split option.split)

section \<open>Messages\<close>

definition checked_lengths :: "login_record \<Rightarrow> (codec_error + unit) option" where
  "checked_lengths r =
     (if lr_record_len r < MIN_RECORD_LEN
      then Some (Inl (InvalidRecordLength (''record_len '' @ show_nat (unat (lr_record_len r)) @ '' < ''
                @ show_nat (unat MIN_RECORD_LEN))))
      else do {
        cipher_len \<leftarrow> usize_sub (unat (lr_record_len r)) 0x30;
        Some (if length (lr_ciphertext r) \<noteq> cipher_len
              then Inl (InvalidFieldLength (''ciphertext len '' @ show_nat (length (lr_ciphertext r))
                        @ '' != record_len-0x30 '' @ show_nat cipher_len))
              else Inr ())
      })"

definition checked_payload :: "bytes \<Rightarrow> (codec_error + login_record) option" where
  "checked_payload payload =
     (if length payload < 6 + unat MIN_RECORD_LEN
      then Some (Inl (InvalidPayloadLength (''0x1A payload len '' @ show_nat (length payload) @ '' too short'')))
      else do {
        p0 \<leftarrow> index_at payload 0; p1 \<leftarrow> index_at payload 1;
        p2 \<leftarrow> index_at payload 2; p3 \<leftarrow> index_at payload 3;
        p4 \<leftarrow> index_at payload 4; p5 \<leftarrow> index_at payload 5;
        let record_len = u32_from_be_bytes [p2, p3, p4, p5];
        if record_len < MIN_RECORD_LEN
        then Some (Inl (InvalidRecordLength (''record_len '' @ show_nat (unat record_len) @ '' < ''
                   @ show_nat (unat MIN_RECORD_LEN))))
        else do {
          need \<leftarrow> usize_add 6 (unat record_len);
          if length payload \<noteq> need
          then Some (Inl (InvalidPayloadLength (''payload len '' @ show_nat (length payload)
                     @ '' != 6+record_len '' @ show_nat need)))
          else do {
            material \<leftarrow> range_from 6 payload;
            iv \<leftarrow> range_at 0 16 material \<bind> array_of 16;
            cipher_len \<leftarrow> usize_sub (unat record_len) 0x30;
            ciphertext \<leftarrow> range_at 16 (16 + cipher_len) material;
            hmac \<leftarrow> range_at (16 + cipher_len) (16 + cipher_len + 32) material \<bind> array_of 32;
            let r = \<lparr>lr_prefix = u16_from_be_bytes [p0, p1], lr_record_len = record_len,
                     lr_iv = iv, lr_ciphertext = ciphertext, lr_hmac = hmac\<rparr>;
            and_then (checked_lengths r) (\<lambda>_. Some (Inr r))
          }
        }
      })"

text \<open>Of the branches of \<open>decode_message\<close> that for \<open>0x1A\<close> parses, the others only wrap the payload.\<close>

definition checked_message :: "bap_envelope \<Rightarrow> (codec_error + bap_message) option" where
  "checked_message env =
     (if en_id env = 0x1A then do {
        record \<leftarrow> checked_payload (en_payload env);
        Some (Inr (BKnown (SessionLoginResponse (en_context env) (en_direction env)
               (case record of Inl _ \<Rightarrow> None | Inr r \<Rightarrow> Some r) (en_payload env))))
      }
      else Some (decode_message env))"

fun checked_from_frame :: "decoded_frame \<Rightarrow> direction \<Rightarrow> (codec_error + bap_message) option" where
  "checked_from_frame (DClear m c p) direction =
     checked_message \<lparr>en_id = m, en_context = c, en_direction = direction, en_payload = p\<rparr>"
| "checked_from_frame (DDecrypted (Some i) (Some ctx) p n) direction =
     checked_message \<lparr>en_id = i, en_context = ctx, en_direction = direction, en_payload = p\<rparr>"
| "checked_from_frame f direction = Some (decode_from_frame f direction)"

lemma checked_lengths [never_panics]: "checked_lengths r = Some (validate_lengths r)"
proof (cases "lr_record_len r < MIN_RECORD_LEN")
  case False
  then have "0x30 \<le> unat (lr_record_len r)" by (simp add: MIN_RECORD_LEN_def word_less_nat_alt)
  with False show ?thesis by (simp add: checked_lengths_def validate_lengths_def usize_sub_def Let_def)
qed (simp add: checked_lengths_def validate_lengths_def)

lemma checked_payload [never_panics]: "checked_payload p = Some (decode_payload p)"
proof (cases "length p < 6 + unat MIN_RECORD_LEN")
  case False
  then have len: "54 \<le> length p" by (simp add: MIN_RECORD_LEN_def)
  then have idx: "index_at p 0 = Some (p ! 0)" "index_at p (Suc 0) = Some (p ! Suc 0)" "index_at p 2 = Some (p ! 2)"
    "index_at p 3 = Some (p ! 3)" "index_at p 4 = Some (p ! 4)" "index_at p 5 = Some (p ! 5)"
    by (auto simp: index_at_def)
  define n where "n = u32_from_be_bytes [p ! 2, p ! 3, p ! 4, p ! 5]"
  note need = usize_add_u32 [of n]
  consider (short) "n < MIN_RECORD_LEN" | (wrong) "\<not> n < MIN_RECORD_LEN" "length p \<noteq> 6 + unat n"
    | (ok) "\<not> n < MIN_RECORD_LEN" "length p = 6 + unat n" by blast
  then show ?thesis
  proof cases
    case ok
    then have "48 \<le> unat n" by (simp add: MIN_RECORD_LEN_def word_less_nat_alt)
    then show ?thesis
      using False ok by (simp add: checked_payload_def decode_payload_def idx need Let_def never_panics
        range_from_def range_at_def array_of_def usize_sub_def split: sum.split flip: n_def)
  qed (use False in \<open>simp_all add: checked_payload_def decode_payload_def idx need Let_def flip: n_def\<close>)
qed (simp add: checked_payload_def decode_payload_def)

lemma checked_message [never_panics]: "checked_message env = Some (decode_message env)"
  by (simp add: checked_message_def decode_message_def never_panics Let_def)

lemma checked_from_frame [never_panics]: "checked_from_frame f d = Some (decode_from_frame f d)"
  by (cases "(f, d)" rule: checked_from_frame.cases) (simp_all add: never_panics)

end
