(* ===== verification/Checked_Connection.thy ===== *)
theory Checked_Connection
  imports Local_Server Checked_Codec
begin

text \<open>
  A connection of the local server (\<open>handle_connection\<close> in \<open>network/src/local_server.rs\<close>) over the
  checked operations of \<open>Checked_Codec\<close>: every index, range, array conversion, subtraction and
  \<open>expect\<close> between the socket and the reply can panic here, and \<open>None\<close> is that panic. One pass of
  the read loop is a function of its own, so that the loop can be run one read at a time beside
  other threads. The theory shows that the checked connection is the one of \<open>Local_Server\<close> and that
  it never panics.
\<close>

section \<open>Operations\<close>

definition checked_material :: "u64 \<Rightarrow> session_material \<Rightarrow> (bap_session_error + stateful_session) option" where
  "checked_material connection_id material =
     and_then (checked_session (sm_key material) (sm_nonce material)) (\<lambda>session.
       let s = \<lparr>ss_connection_id = connection_id, ss_protocol_state = Connected,
                ss_session = session, ss_material = material, ss_dispatcher = dispatcher_new,
                ss_policy = response_policy_default, ss_events = []\<rparr>;
           s = log_event (EvConnected connection_id) s
       in Some (Inr (s\<lparr>ss_protocol_state :=
            (case begin_waiting_for_handshake (ss_protocol_state s) of
               Inl _ \<Rightarrow> WaitingForServiceHandshake | Inr t \<Rightarrow> t)\<rparr>)))"

definition checked_with_keys :: "u64 \<Rightarrow> bytes \<Rightarrow> bytes \<Rightarrow> (local_server_error + local_bap_session) option" where
  "checked_with_keys connection_id key nonce =
     (if length key \<noteq> 16 \<or> length nonce \<noteq> 12 then Some (Inl (LsCrypto ''synthetic key/nonce length''))
      else do {
        k \<leftarrow> array_of 16 key;
        n \<leftarrow> array_of 12 nonce;
        r \<leftarrow> checked_material connection_id \<lparr>sm_key = k, sm_nonce = n\<rparr>;
        Some (case r of
           Inl e \<Rightarrow> Inl (LsCrypto (show_bap_session_error e))
         | Inr stateful \<Rightarrow> Inr \<lparr>lb_connection_id = connection_id, lb_stateful = stateful\<rparr>)
      })"

definition checked_handle ::
  "stateful_session \<Rightarrow> decoded_frame \<Rightarrow> direction \<Rightarrow>
   ((protocol_state_error + handle_result) \<times> stateful_session) option" where
  "checked_handle s frame direction =
     do {
       r \<leftarrow> checked_from_frame frame direction;
       Some (case r of
          Inl e \<Rightarrow> (Inl (InvalidMessage (show_codec_error e)), s)
        | Inr message \<Rightarrow> handle_message s message)
     }"

fun checked_action ::
  "aead_prims \<Rightarrow> server_conn \<Rightarrow> response_action \<Rightarrow> ((local_server_error + unit) \<times> server_conn) option" where
  "checked_action P c (SendEncrypted i context payload) =
     do {
       (r, b) \<leftarrow> checked_encode P (ss_session (lb_stateful (cn_local c))) ServerToClient i context
                 (encode_via_codec i context DirServerToClient payload);
       let c = set_stateful ((lb_stateful (cn_local c))\<lparr>ss_session := b\<rparr>) c;
       (case r of
          Inl e \<Rightarrow> Some (Inl (LsCrypto (show_bap_session_error e)), c)
        | Inr bs \<Rightarrow> Some (send_traced i context bs c))
     }"
| "checked_action P c (SendClear i context payload) =
     do {
       bs \<leftarrow> encode_clear i context (encode_via_codec i context DirServerToClient payload);
       Some (send_traced i context bs c)
     }"
| "checked_action P c ObserveOnly = Some (Inr (), c)"
| "checked_action P c NoAction = Some (Inr (), c)"
| "checked_action P c RejectAction = Some (Inl (LsProtocol (error_kind_str KUnexpectedMessage)), shut c)"

fun checked_actions ::
  "aead_prims \<Rightarrow> server_conn \<Rightarrow> response_action list \<Rightarrow> ((local_server_error + unit) \<times> server_conn) option" where
  "checked_actions P c [] = Some (Inr (), c)"
| "checked_actions P c (a # as) = step_then (checked_action P c a) (\<lambda>_ c. checked_actions P c as)"

definition checked_frame ::
  "aead_prims \<Rightarrow> server_conn \<Rightarrow> raw_frame \<Rightarrow> ((local_server_error + unit) \<times> server_conn) option" where
  "checked_frame P c raw =
     (case checked_decode P (ss_session (lb_stateful (cn_local c))) ClientToServer (rf_raw_bytes raw) of
        None \<Rightarrow> None
      | Some (Inl SDecryptFailed, b) \<Rightarrow>
          let c = set_stateful ((lb_stateful (cn_local c))\<lparr>ss_session := b\<rparr>) c;
              c = push_trace ''C2S'' None None (conn_state_str c) (error_kind_str KGcmDecryptFailure) c
          in Some (Inl (LsCrypto (error_kind_str KGcmDecryptFailure)), shut c)
      | Some (Inl e, b) \<Rightarrow>
          let c = set_stateful ((lb_stateful (cn_local c))\<lparr>ss_session := b\<rparr>) c;
              c = push_trace ''C2S'' None None (conn_state_str c)
                    (''AUTH/CRYPTO ERROR '' @ show_bap_session_error e) c
          in Some (Inl (LsCrypto (error_kind_str KAuthCryptoError)), shut c)
      | Some (Inr decoded, b) \<Rightarrow>
          let c = set_stateful ((lb_stateful (cn_local c))\<lparr>ss_session := b\<rparr>) c;
              mid = fst (frame_ids decoded); context = snd (frame_ids decoded);
              c = push_trace ''C2S'' mid context (conn_state_str c) ''RECV'' c
          in (case checked_handle (lb_stateful (cn_local c)) decoded DirClientToServer of
                None \<Rightarrow> None
              | Some (Inl (InvalidMessage detail), s) \<Rightarrow>
                  let c = set_stateful s c;
                      c = push_trace ''C2S'' mid context (conn_state_str c) (''InvalidMessage '' @ detail) c
                  in Some (Inl (LsProtocol ''InvalidMessage''), shut c)
              | Some (Inl e, s) \<Rightarrow>
                  let c = set_stateful s c;
                      c = push_trace ''C2S'' mid context (conn_state_str c)
                            (''UNEXPECTED_MESSAGE '' @ show_protocol_state_error e) c
                  in Some (Inl (LsProtocol (error_kind_str KUnexpectedMessage)), shut c)
              | Some (Inr handled, s) \<Rightarrow>
                  let c = set_stateful s c in
                  (case hr_transition handled of
                     Rejected reason \<Rightarrow>
                       let c = push_trace ''C2S'' mid context (conn_state_str c)
                                 (''UNEXPECTED_MESSAGE '' @ show_protocol_state_error reason) c
                       in Some (Inl (LsProtocol (error_kind_str KUnexpectedMessage)), shut c)
                   | Advanced from to \<Rightarrow>
                       let c = push_trace ''SYS'' None None (protocol_state_str to)
                                 (''ChangeState '' @ protocol_state_str from @ right_arrow
                                  @ protocol_state_str to) c
                       in checked_actions P c (hr_actions handled)
                   | Observed s \<Rightarrow> checked_actions P c (hr_actions handled))))"

fun checked_frames ::
  "aead_prims \<Rightarrow> server_conn \<Rightarrow> raw_frame list \<Rightarrow> ((local_server_error + unit) \<times> server_conn) option" where
  "checked_frames P c [] = Some (Inr (), c)"
| "checked_frames P c (raw # raws) = step_then (checked_frame P c raw) (\<lambda>_ c. checked_frames P c raws)"

text \<open>
  One pass of the read loop on what \<open>read\<close> reports: it ends the function, or the loop goes on.
  \<open>&buf[..n]\<close> panics when the read reports more bytes than the buffer has.
\<close>

definition read_buffer :: "bytes \<Rightarrow> bytes" where
  "read_buffer bs = take READ_BUF_LEN bs @ replicate (READ_BUF_LEN - length bs) 0"

datatype pass_result = PassEnds "(local_server_error + unit) \<times> server_conn" | PassGoesOn server_conn

definition loop_pass ::
  "aead_prims \<Rightarrow> io_kind \<times> string + bytes \<Rightarrow> server_conn \<Rightarrow> pass_result option" where
  "loop_pass P outcome c =
     (case outcome of
        Inl (kind, msg) \<Rightarrow>
          Some (if kind = WouldBlock \<or> kind = TimedOut
            then PassEnds (Inr (), finish_connection (push_trace ''SYS'' None None (conn_state_str c) ''TIMEOUT'' c))
            else PassEnds (Inl (LsIo msg), c))
      | Inr bs \<Rightarrow>
          if bs = [] then
            (let c = set_stateful (session_finish_close (session_begin_close (lb_stateful (cn_local c)))) c;
                 c = push_trace ''SYS'' None None (conn_state_str c) ''EOF'' c
             in Some (PassEnds (Inr (), finish_connection c)))
          else do {
            data \<leftarrow> range_to (length bs) (read_buffer bs);
            (r, d) \<leftarrow> checked_push (cn_decoder c) data;
            let c = c\<lparr>cn_decoder := d\<rparr>;
            (case r of
               Inl e \<Rightarrow> Some (PassEnds (stream_failure e c))
             | Inr frames \<Rightarrow> do {
                 (r, c) \<leftarrow> checked_frames P c frames;
                 Some (case r of Inl e \<Rightarrow> PassEnds (Inl e, c) | Inr _ \<Rightarrow> PassGoesOn c)
               })
          })"

text \<open>What precedes the loop, the loop over a socket script, and the whole function.\<close>

definition start_connection ::
  "u64 \<Rightarrow> string option list \<Rightarrow> bytes \<Rightarrow> bytes \<Rightarrow> server_trace_event list \<Rightarrow>
   (local_server_error + server_conn) option" where
  "start_connection connection_id writes key nonce traces =
     and_then (checked_with_keys connection_id key nonce) (\<lambda>local.
       let c = \<lparr>cn_local = local, cn_decoder = decoder_new, cn_writes = writes, cn_sent = [],
                cn_shutdown = False, cn_traces = traces\<rparr>
       in Some (Inr (push_trace ''SYS'' None None (conn_state_str c) ''ACCEPT'' c)))"

lemma loop_pass_goes_on: "loop_pass P outcome c = Some (PassGoesOn c') \<Longrightarrow> \<exists>bs. outcome = Inr bs \<and> bs \<noteq> []"
  by (auto simp: loop_pass_def Let_def split: sum.splits prod.splits if_splits)

function checked_loop ::
  "aead_prims \<Rightarrow> tcp_stream \<Rightarrow> server_conn \<Rightarrow> ((local_server_error + unit) \<times> server_conn) option" where
  "checked_loop P stream c =
     (case stream_read READ_BUF_LEN stream of (outcome, stream') \<Rightarrow>
        case loop_pass P outcome c of
          None \<Rightarrow> None
        | Some (PassEnds r) \<Rightarrow> Some r
        | Some (PassGoesOn c) \<Rightarrow> checked_loop P stream' c)"
  by pat_completeness auto

termination
  by (relation "measure (\<lambda>(P, stream, c). stream_size stream)")
     (simp, metis in_measure loop_pass_goes_on old.prod.case stream_read_smaller)

declare checked_loop.simps [simp del]

definition checked_connection ::
  "aead_prims \<Rightarrow> u64 \<Rightarrow> tcp_stream \<Rightarrow> string option list \<Rightarrow> bytes \<Rightarrow> bytes \<Rightarrow> server_trace_event list \<Rightarrow>
   (local_server_error + (local_server_error + unit) \<times> server_conn) option" where
  "checked_connection P connection_id stream writes key nonce traces =
     and_then (start_connection connection_id writes key nonce traces)
       (\<lambda>c. map_option Inr (checked_loop P stream c))"

section \<open>The checked connection is the connection\<close>

lemma checked_material [never_panics]: "checked_material i material = Some (with_material i material)"
  by (simp add: checked_material_def with_material_def never_panics Let_def split: sum.split)

lemma checked_with_keys [never_panics]: "checked_with_keys i key nonce = Some (local_with_keys i key nonce)"
  by (simp add: checked_with_keys_def local_with_keys_def array_of_def never_panics)

lemma checked_handle [never_panics]: "checked_handle s f d = Some (handle_decoded_frame s f d)"
  by (simp add: checked_handle_def handle_decoded_frame_def never_panics split: sum.split)

lemma checked_action [never_panics]: "checked_action P c a = perform_action P c a"
  by (cases a) (simp_all add: never_panics Let_def Option.bind_def split: option.split prod.split)

lemma checked_actions [never_panics]: "checked_actions P c as = perform_actions P c as"
  by (induction "as" arbitrary: c) (simp_all add: never_panics step_then_def split: option.split prod.split sum.split)

lemma checked_frame [never_panics]: "checked_frame P c raw = process_frame P c raw"
proof -
  obtain r b where d: "decode_frame P (ss_session (lb_stateful (cn_local c))) ClientToServer (rf_raw_bytes raw) = (r, b)"
    by fastforce
  show ?thesis
  proof (cases r)
    case (Inl e)
    then show ?thesis using d by (cases e) (simp_all add: checked_frame_def process_frame_def never_panics)
  next
    case (Inr f)
    then show ?thesis using d
      by (simp add: checked_frame_def process_frame_def never_panics Let_def
        split: prod.split sum.split protocol_state_error.split transition_result.split)
  qed
qed

lemma checked_frames [never_panics]: "checked_frames P c raws = process_frames P c raws"
  by (induction raws arbitrary: c) (simp_all add: never_panics step_then_def split: option.split prod.split sum.split)

lemma read_buffer_back: "length bs \<le> READ_BUF_LEN \<Longrightarrow> range_to (length bs) (read_buffer bs) = Some bs"
  by (simp add: range_to_def read_buffer_def)

lemma stream_read_fits: "stream_read n evs = (Inr bs, evs') \<Longrightarrow> length bs \<le> n"
  by (cases "(n, evs)" rule: stream_read.cases) (auto split: if_splits)

text \<open>The loop of \<open>Local_Server\<close> is the passes in a row.\<close>

lemma checked_loop [never_panics]: "checked_loop P stream c = connection_loop P stream c"
proof (induction "stream_size stream" arbitrary: stream c rule: less_induct)
  case less
  obtain q stream' where rd: "stream_read READ_BUF_LEN stream = (q, stream')" by fastforce
  show ?case
  proof (cases q)
    case (Inl e)
    then show ?thesis
      using rd by (cases e) (simp add: checked_loop.simps [of P stream] connection_loop.simps [of P stream] loop_pass_def)
  next
    case (Inr bs)
    note read = rd [unfolded Inr]
    show ?thesis
    proof (cases "bs = []")
      case True
      then show ?thesis
        using read by (simp add: checked_loop.simps [of P stream] connection_loop.simps [of P stream] loop_pass_def Let_def)
    next
      case False
      note ih = less [OF stream_read_smaller [OF read False]]
      have "range_to (length bs) (read_buffer bs) = Some bs"
        using stream_read_fits [OF read] by (rule read_buffer_back)
      then show ?thesis
        using read False ih
        by (simp add: checked_loop.simps [of P stream] connection_loop.simps [of P stream] loop_pass_def
          never_panics Let_def split: prod.split sum.split option.split)
    qed
  qed
qed

lemma start_connection_eq:
  "start_connection i writes key nonce traces =
     Some (case local_with_keys i key nonce of
        Inl e \<Rightarrow> Inl e
      | Inr local \<Rightarrow>
          let c = \<lparr>cn_local = local, cn_decoder = decoder_new, cn_writes = writes, cn_sent = [],
                   cn_shutdown = False, cn_traces = traces\<rparr>
          in Inr (push_trace ''SYS'' None None (conn_state_str c) ''ACCEPT'' c))"
  by (cases "local_with_keys i key nonce") (simp_all add: start_connection_def never_panics Let_def)

lemma checked_connection [never_panics]:
  "checked_connection P i stream writes key nonce traces = handle_connection P i stream writes key nonce traces"
  by (cases "local_with_keys i key nonce")
     (simp_all add: checked_connection_def handle_connection_def start_connection_eq never_panics Let_def
        map_option_case)

section \<open>One pass at a time\<close>

lemma start_connection_some: "\<exists>r. start_connection i writes key nonce traces = Some r"
  by (simp add: start_connection_eq)

lemma start_connection_ok:
  "start_connection i writes key nonce traces = Some (Inr c) \<Longrightarrow> conn_ok c"
  using local_with_keys_ok(4) [of i key nonce]
  by (auto simp: start_connection_eq conn_ok_def Let_def split: sum.splits)

text \<open>A pass on a read that fits the buffer returns, and a connection that goes on can go on.\<close>

lemma loop_pass_some:
  assumes "aead_ok P" "conn_ok c" "\<And>bs. outcome = Inr bs \<Longrightarrow> length bs \<le> READ_BUF_LEN"
  shows "\<exists>r. loop_pass P outcome c = Some r \<and> (\<forall>c'. r = PassGoesOn c' \<longrightarrow> conn_ok c')"
proof (cases outcome)
  case (Inl e)
  then show ?thesis by (cases e) (simp add: loop_pass_def)
next
  case (Inr bs)
  show ?thesis
  proof (cases "bs = []")
    case False
    obtain r d where push: "decoder_push (cn_decoder c) bs = (r, d)" by fastforce
    have "conn_ok (c\<lparr>cn_decoder := d\<rparr>)" using assms(2) by (simp add: conn_ok_def)
    note frames = process_frames_some [OF assms(1) this]
    note pass = loop_pass_def read_buffer_back [OF assms(3) [OF Inr]] never_panics Let_def
    show ?thesis
    proof (cases r)
      case (Inl e)
      then show ?thesis using Inr False push by (simp add: pass \<open>outcome = Inr bs\<close>)
    next
      case (Inr fs)
      obtain r' c' where "process_frames P (c\<lparr>cn_decoder := d\<rparr>) fs = Some (r', c')" "conn_ok c'"
        using frames [of fs] by blast
      then show ?thesis
        using Inr False push by (cases r') (simp_all add: pass \<open>outcome = Inr bs\<close>)
    qed
  qed (simp add: Inr loop_pass_def Let_def)
qed

section \<open>Properties\<close>

text \<open>
  C5. No client can crash a connection. Every index, range, array conversion, subtraction and
  \<open>expect\<close> between the socket and the reply is written out with its panic; whatever bytes arrive,
  in whatever pieces, with whatever read and write failures of the socket, none of them is reached,
  and what the connection does is what the model without them does.
\<close>

theorem connection_never_panics:
  assumes "aead_ok P"
  shows "\<exists>r. checked_connection P i stream writes key nonce traces = Some r
    \<and> handle_connection P i stream writes key nonce traces = Some r"
  using handle_connection_some [OF assms] by (simp add: never_panics)

text \<open>A clear frame of two bytes where the header needs six, then a reset.\<close>

theorem connection_never_panics_witness:
  "\<exists>r. checked_connection demo_aead 1 [IoData [1, 1, 0, 0, 0, 2, 9, 9], IoError OtherKind ''reset''] [Some ''pipe'']
     SYNTHETIC_SESSION_KEY SYNTHETIC_SESSION_NONCE [] = Some r"
  using connection_never_panics [OF demo_aead_ok] by blast

end
