(* ===== verification/Accept_Loop.thy ===== *)
theory Accept_Loop
  imports Checked_Connection "HOL-Library.Sublist" "HOL-Library.Stream"
begin

text \<open>
  The accept thread of \<open>start_background\<close> (\<open>network/src/local_server.rs\<close>) beside its
  connection threads and the caller who asks it to stop. Every atomic access of the code is a
  step of its own, so a check of \<open>active\<close> and the increment that follows it are interleaved
  with the decrements of the other threads. A connection thread runs read by read, on a peer that
  may go on sending for ever. A thread that panics never reaches its decrement: the model has that
  step, and the theory shows that it does not happen; and it shows that a peer that stops sending
  loses its slot.
\<close>

section \<open>A peer without end\<close>

text \<open>
  What the reads of a socket will report, as an endless sequence: a silent peer is time-outs for
  ever, a closed one reads of no bytes for ever. A read takes at most the bytes it asks for.
\<close>

type_synonym read_source = "io_event stream"

definition source_read :: "nat \<Rightarrow> read_source \<Rightarrow> (io_kind \<times> string + bytes) \<times> read_source" where
  "source_read n src =
     (case shd src of
        IoData bs \<Rightarrow> if length bs \<le> n then (Inr bs, stl src) else (Inr (take n bs), IoData (drop n bs) ## stl src)
      | IoError k msg \<Rightarrow> (Inl (k, msg), stl src))"

section \<open>State\<close>

datatype worker_phase = WStart | WReading server_conn | WReturned | WPanicked

record worker =
  wk_id :: u64
  wk_source :: read_source
  wk_writes :: "string option list"
  wk_phase :: worker_phase

text \<open>Where the accept thread is; the socket accepted last is carried until it is spawned.\<close>

datatype accept_pc =
    PcLoop
  | PcAccept
  | PcAccepted read_source "string option list"
  | PcAdmitted read_source "string option list"
  | PcNumbered u64 read_source "string option list"
  | PcCounted u64 read_source "string option list"
  | PcEnded

record accept_state =
  ac_pc :: accept_pc
  ac_stop :: bool
  ac_next_id :: u64
  ac_active :: u64
  ac_workers :: "worker list"
  ac_started :: "u64 list"
  ac_refused :: nat

record accept_config =
  cf_prims :: aead_prims
  cf_key :: bytes
  cf_nonce :: bytes
  cf_max :: nat

definition accept_init :: "u64 \<Rightarrow> accept_state" where
  "accept_init next_id =
     \<lparr>ac_pc = PcLoop, ac_stop = False, ac_next_id = next_id, ac_active = 0, ac_workers = [],
      ac_started = [], ac_refused = 0\<rparr>"

section \<open>Steps\<close>

text \<open>What the operating system and the scheduler choose.\<close>

datatype accept_event =
    EvTop
  | EvAccept read_source "string option list"
  | EvWouldBlock
  | EvAcceptError
  | EvCheck
  | EvTakeId
  | EvCount
  | EvSpawn
  | EvRun nat
  | EvRelease nat
  | EvStop

fun accept_thread :: "nat \<Rightarrow> accept_event \<Rightarrow> accept_state \<Rightarrow> accept_state option" where
  "accept_thread max_conn EvTop s =
     (if ac_pc s = PcLoop then Some (s\<lparr>ac_pc := if ac_stop s then PcEnded else PcAccept\<rparr>) else None)"
| "accept_thread max_conn (EvAccept stream writes) s =
     (if ac_pc s = PcAccept then Some (s\<lparr>ac_pc := PcAccepted stream writes\<rparr>) else None)"
| "accept_thread max_conn EvWouldBlock s =
     (if ac_pc s = PcAccept then Some (s\<lparr>ac_pc := PcLoop\<rparr>) else None)"
| "accept_thread max_conn EvAcceptError s =
     (if ac_pc s = PcAccept then Some (s\<lparr>ac_pc := if ac_stop s then PcEnded else PcLoop\<rparr>) else None)"
| "accept_thread max_conn EvCheck s =
     (case ac_pc s of
        PcAccepted stream writes \<Rightarrow>
          Some (if unat (ac_active s) \<ge> max_conn
                then s\<lparr>ac_pc := PcLoop, ac_refused := ac_refused s + 1\<rparr>
                else s\<lparr>ac_pc := PcAdmitted stream writes\<rparr>)
      | _ \<Rightarrow> None)"
| "accept_thread max_conn EvTakeId s =
     (case ac_pc s of
        PcAdmitted stream writes \<Rightarrow>
          Some (s\<lparr>ac_pc := PcNumbered (ac_next_id s) stream writes, ac_next_id := ac_next_id s + 1\<rparr>)
      | _ \<Rightarrow> None)"
| "accept_thread max_conn EvCount s =
     (case ac_pc s of
        PcNumbered i stream writes \<Rightarrow>
          Some (s\<lparr>ac_pc := PcCounted i stream writes, ac_active := ac_active s + 1\<rparr>)
      | _ \<Rightarrow> None)"
| "accept_thread max_conn EvSpawn s =
     (case ac_pc s of
        PcCounted i stream writes \<Rightarrow>
          Some (s\<lparr>ac_pc := PcLoop,
                  ac_workers := ac_workers s @
                    [\<lparr>wk_id = i, wk_source = stream, wk_writes = writes, wk_phase = WStart\<rparr>],
                  ac_started := ac_started s @ [i]\<rparr>)
      | _ \<Rightarrow> None)"
| "accept_thread max_conn (EvRun k) s = None"
| "accept_thread max_conn (EvRelease k) s = None"
| "accept_thread max_conn EvStop s = None"

text \<open>
  A connection thread first makes its session, then every step is one read with what follows it in
  the loop. The shared trace buffer is only written there, so its content (here empty) does not
  influence the run.
\<close>

fun worker_run :: "accept_config \<Rightarrow> worker \<Rightarrow> worker" where
  "worker_run cf w =
     (case wk_phase w of
        WStart \<Rightarrow>
          w\<lparr>wk_phase :=
            (case start_connection (wk_id w) (wk_writes w) (cf_key cf) (cf_nonce cf) [] of
               None \<Rightarrow> WPanicked | Some (Inl e) \<Rightarrow> WReturned | Some (Inr c) \<Rightarrow> WReading c)\<rparr>
      | WReading c \<Rightarrow>
          (case source_read READ_BUF_LEN (wk_source w) of (outcome, src) \<Rightarrow>
             w\<lparr>wk_source := src, wk_phase :=
               (case loop_pass (cf_prims cf) outcome c of
                  None \<Rightarrow> WPanicked
                | Some (PassEnds r) \<Rightarrow> WReturned
                | Some (PassGoesOn c) \<Rightarrow> WReading c)\<rparr>)
      | WReturned \<Rightarrow> w
      | WPanicked \<Rightarrow> w)"

declare worker_run.simps [simp del]

fun still_runs :: "worker_phase \<Rightarrow> bool" where
  "still_runs WStart = True"
| "still_runs (WReading c) = True"
| "still_runs WReturned = False"
| "still_runs WPanicked = False"

definition remove_at :: "nat \<Rightarrow> 'a list \<Rightarrow> 'a list" where
  "remove_at k xs = take k xs @ drop (Suc k) xs"

fun accept_step :: "accept_config \<Rightarrow> accept_event \<Rightarrow> accept_state \<Rightarrow> accept_state option" where
  "accept_step cf (EvRun k) s =
     (if k < length (ac_workers s) \<and> still_runs (wk_phase (ac_workers s ! k))
      then Some (s\<lparr>ac_workers := (ac_workers s)[k := worker_run cf (ac_workers s ! k)]\<rparr>) else None)"
| "accept_step cf (EvRelease k) s =
     (if k < length (ac_workers s) \<and> wk_phase (ac_workers s ! k) = WReturned
      then Some (s\<lparr>ac_workers := remove_at k (ac_workers s), ac_active := ac_active s - 1\<rparr>) else None)"
| "accept_step cf EvStop s = Some (s\<lparr>ac_stop := True\<rparr>)"
| "accept_step cf e s = accept_thread (cf_max cf) e s"

inductive accept_reachable :: "accept_config \<Rightarrow> u64 \<Rightarrow> accept_state \<Rightarrow> bool" for cf n where
  accept_start: "accept_reachable cf n (accept_init n)"
| accept_next: "accept_reachable cf n s \<Longrightarrow> accept_step cf e s = Some t \<Longrightarrow> accept_reachable cf n t"

text \<open>A schedule, run event by event.\<close>

fun accept_run :: "accept_config \<Rightarrow> accept_event list \<Rightarrow> accept_state \<Rightarrow> accept_state option" where
  "accept_run cf [] s = Some s"
| "accept_run cf (e # es) s =
     (case accept_step cf e s of None \<Rightarrow> None | Some t \<Rightarrow> accept_run cf es t)"

section \<open>The accounting invariant\<close>

fun pc_pending :: "accept_pc \<Rightarrow> nat" where
  "pc_pending (PcAdmitted a b) = 1"
| "pc_pending (PcNumbered i a b) = 1"
| "pc_pending (PcCounted i a b) = 1"
| "pc_pending PcLoop = 0"
| "pc_pending PcAccept = 0"
| "pc_pending (PcAccepted a b) = 0"
| "pc_pending PcEnded = 0"

fun pc_counted :: "accept_pc \<Rightarrow> nat" where
  "pc_counted (PcCounted i a b) = 1"
| "pc_counted (PcAdmitted a b) = 0"
| "pc_counted (PcNumbered i a b) = 0"
| "pc_counted PcLoop = 0"
| "pc_counted PcAccept = 0"
| "pc_counted (PcAccepted a b) = 0"
| "pc_counted PcEnded = 0"

fun pc_ids :: "accept_pc \<Rightarrow> u64 list" where
  "pc_ids (PcNumbered i a b) = [i]"
| "pc_ids (PcCounted i a b) = [i]"
| "pc_ids (PcAdmitted a b) = []"
| "pc_ids PcLoop = []"
| "pc_ids PcAccept = []"
| "pc_ids (PcAccepted a b) = []"
| "pc_ids PcEnded = []"

text \<open>The ids given out so far, the one on its way included.\<close>

definition ids_from :: "u64 \<Rightarrow> nat \<Rightarrow> u64 list" where
  "ids_from n k = map (\<lambda>j. n + of_nat j) [0..<k]"

lemma ids_from_Suc: "ids_from n (Suc k) = ids_from n k @ [n + of_nat k]"
  by (simp add: ids_from_def)

lemma of_nat_u64_inj:
  assumes "(of_nat i :: u64) = of_nat j" "i < 2 ^ 64" "j < 2 ^ 64"
  shows "i = j"
proof -
  have "unat (of_nat i :: u64) = unat (of_nat j :: u64)" using assms(1) by simp
  then show ?thesis using assms(2,3) by (simp add: unsigned_of_nat take_bit_nat_eq_self)
qed

lemma ids_from_distinct: "k \<le> 2 ^ 64 \<Longrightarrow> distinct (ids_from n k)"
  using of_nat_u64_inj by (simp add: ids_from_def distinct_map inj_on_def)

definition worker_ok :: "worker \<Rightarrow> bool" where
  "worker_ok w \<longleftrightarrow> wk_phase w \<noteq> WPanicked \<and> (\<forall>c. wk_phase w = WReading c \<longrightarrow> conn_ok c)"

definition accept_inv :: "accept_config \<Rightarrow> u64 \<Rightarrow> accept_state \<Rightarrow> bool" where
  "accept_inv cf n s \<longleftrightarrow>
     unat (ac_active s) = length (ac_workers s) + pc_counted (ac_pc s)
     \<and> length (ac_workers s) + pc_pending (ac_pc s) \<le> cf_max cf
     \<and> list_all worker_ok (ac_workers s)
     \<and> ids_from n (length (ac_started s) + length (pc_ids (ac_pc s))) = ac_started s @ pc_ids (ac_pc s)
     \<and> ac_next_id s = n + of_nat (length (ac_started s) + length (pc_ids (ac_pc s)))
     \<and> subseq (map wk_id (ac_workers s)) (ac_started s)"

lemma accept_init_inv: "accept_inv cf n (accept_init n)"
  by (simp add: accept_inv_def accept_init_def ids_from_def)

lemma source_read_fits: "source_read n src = (Inr bs, src') \<Longrightarrow> length bs \<le> n"
  by (auto simp: source_read_def split: io_event.splits if_splits)

text \<open>A socket script followed by the end for ever is read as the script is.\<close>

lemma source_read_script:
  "stream_read n evs = (outcome, evs') \<Longrightarrow>
     source_read n (evs @- sconst (IoData [])) = (outcome, evs' @- sconst (IoData []))"
  by (cases "(n, evs)" rule: stream_read.cases) (auto simp: source_read_def split: if_splits)

lemma worker_run_id [simp]: "wk_id (worker_run cf w) = wk_id w"
  by (simp add: worker_run.simps split: worker_phase.split prod.split)

text \<open>A thread that has not panicked does not panic on its next step.\<close>

lemma worker_run_ok:
  assumes "aead_ok (cf_prims cf)" "worker_ok w"
  shows "worker_ok (worker_run cf w)"
proof (cases "wk_phase w")
  case WStart
  obtain r where "start_connection (wk_id w) (wk_writes w) (cf_key cf) (cf_nonce cf) [] = Some r"
    using start_connection_some by blast
  with WStart show ?thesis
    using start_connection_ok by (cases r) (simp_all add: worker_run.simps worker_ok_def)
next
  case (WReading c)
  obtain outcome src where rd: "source_read READ_BUF_LEN (wk_source w) = (outcome, src)" by fastforce
  have "conn_ok c" using WReading assms(2) by (simp add: worker_ok_def)
  then obtain r where "loop_pass (cf_prims cf) outcome c = Some r" "\<forall>c'. r = PassGoesOn c' \<longrightarrow> conn_ok c'"
    using loop_pass_some [OF assms(1)] source_read_fits rd by metis
  with WReading rd show ?thesis by (cases r) (simp_all add: worker_run.simps worker_ok_def)
qed (use assms(2) in \<open>simp_all add: worker_run.simps worker_ok_def\<close>)

text \<open>So a thread on such a socket runs the loop of \<open>Checked_Connection\<close>, one pass per step.\<close>

lemma worker_runs_loop:
  assumes "wk_phase w = WReading c" "wk_source w = evs @- sconst (IoData [])"
    and "checked_loop (cf_prims cf) evs c = Some r"
  shows "\<exists>k. wk_phase ((worker_run cf ^^ k) w) = WReturned"
  using assms
proof (induction "stream_size evs" arbitrary: evs c w rule: less_induct)
  case less
  obtain outcome evs' where rd: "stream_read READ_BUF_LEN evs = (outcome, evs')" by fastforce
  obtain p where p: "loop_pass (cf_prims cf) outcome c = Some p"
    using less.prems(3) rd by (auto simp: checked_loop.simps [of _ evs] split: option.splits)
  have step: "wk_source (worker_run cf w) = evs' @- sconst (IoData [])"
      "wk_phase (worker_run cf w) = (case p of PassEnds r \<Rightarrow> WReturned | PassGoesOn c \<Rightarrow> WReading c)"
    using less.prems(1,2) p source_read_script [OF rd] by (simp_all add: worker_run.simps)
  show ?case
  proof (cases p)
    case (PassEnds q)
    then show ?thesis using step(2) by (intro exI [of _ 1]) simp
  next
    case (PassGoesOn c')
    then obtain bs where "outcome = Inr bs" "bs \<noteq> []" using loop_pass_goes_on p by blast
    then have "stream_size evs' < stream_size evs" using stream_read_smaller rd by blast
    moreover have "checked_loop (cf_prims cf) evs' c' = Some r"
      using less.prems(3) rd p PassGoesOn by (simp add: checked_loop.simps [of _ evs])
    ultimately obtain k where "wk_phase ((worker_run cf ^^ k) (worker_run cf w)) = WReturned"
      using less.hyps [OF _ _ step(1)] step(2) PassGoesOn by auto
    then show ?thesis by (intro exI [of _ "Suc k"]) (simp add: funpow_swap1)
  qed
qed

lemma pending_counted: "pc_counted p \<le> pc_pending p"
  by (cases p) simp_all

lemma subseq_remove_at: "subseq (remove_at k xs) xs"
proof (cases "k < length xs")
  case True
  have "subseq (take k xs @ drop (Suc k) xs) (take k xs @ xs ! k # drop (Suc k) xs)"
    by (subst subseq_append') (rule list_emb_Cons, simp)
  then show ?thesis using True by (simp add: remove_at_def flip: id_take_nth_drop)
qed (simp add: remove_at_def)

lemma remove_at_facts:
  "k < length xs \<Longrightarrow> length (remove_at k xs) = length xs - 1"
  "set (remove_at k xs) \<subseteq> set xs"
  "map f (remove_at k xs) = remove_at k (map f xs)"
  using set_take_subset [of k xs] set_drop_subset [of "Suc k" xs]
  by (auto simp: remove_at_def take_map drop_map)

lemma accept_thread_inv:
  assumes "accept_thread (cf_max cf) e s = Some t" "accept_inv cf n s" "cf_max cf < 2 ^ 64"
  shows "accept_inv cf n t"
proof (cases e)
  case EvCheck
  then show ?thesis using assms
    by (auto simp: accept_inv_def split: accept_pc.splits if_splits)
next
  case EvTakeId
  then show ?thesis using assms
    by (auto simp: accept_inv_def ids_from_Suc split: accept_pc.splits)
next
  case EvCount
  with assms obtain i a b where pc: "ac_pc s = PcNumbered i a b"
      "t = s\<lparr>ac_pc := PcCounted i a b, ac_active := ac_active s + 1\<rparr>"
    by (auto split: accept_pc.splits)
  then have "unat (ac_active s) + 1 < 2 ^ 64" using assms(2,3) by (simp add: accept_inv_def)
  then have "unat (ac_active s + 1) = unat (ac_active s) + 1"
    by (simp add: unat_word_ariths mod_less)
  then show ?thesis using pc assms(2) by (simp add: accept_inv_def)
next
  case EvSpawn
  then show ?thesis using assms
    by (auto simp: accept_inv_def worker_ok_def split: accept_pc.splits)
qed (use assms in \<open>auto simp: accept_inv_def split: if_splits\<close>)

lemma accept_step_inv:
  assumes "accept_step cf e s = Some t" "accept_inv cf n s" "cf_max cf < 2 ^ 64" "aead_ok (cf_prims cf)"
  shows "accept_inv cf n t"
proof -
  have th: "accept_inv cf n t" if "accept_step cf e s = accept_thread (cf_max cf) e s"
    using accept_thread_inv [of cf e s t n] assms(1-3) that by simp
  show ?thesis
  proof (cases e)
    case (EvRun k)
    with assms(1) have k: "k < length (ac_workers s)"
        "t = s\<lparr>ac_workers := (ac_workers s)[k := worker_run cf (ac_workers s ! k)]\<rparr>"
      by (auto split: if_splits)
    have "map wk_id ((ac_workers s)[k := worker_run cf (ac_workers s ! k)]) = map wk_id (ac_workers s)"
      using k(1) by (simp add: map_update list_update_same_conv)
    moreover have "worker_ok (worker_run cf (ac_workers s ! k))"
      using k(1) assms(2) by (intro worker_run_ok [OF assms(4)]) (simp add: accept_inv_def list_all_length)
    then have "list_all worker_ok ((ac_workers s)[k := worker_run cf (ac_workers s ! k)])"
      using assms(2) k(1) by (simp add: accept_inv_def list_all_length nth_list_update)
    ultimately show ?thesis using k(2) assms(2) by (auto simp: accept_inv_def)
  next
    case (EvRelease k)
    with assms(1) have k: "k < length (ac_workers s)"
        "t = s\<lparr>ac_workers := remove_at k (ac_workers s), ac_active := ac_active s - 1\<rparr>"
      by (auto split: if_splits)
    have "0 < length (ac_workers s)" using k(1) by linarith
    then have "unat (ac_active s) \<noteq> 0" using assms(2) by (simp add: accept_inv_def)
    then have "unat (ac_active s - 1) = unat (ac_active s) - 1"
      by (metis unat_0 unat_minus_one)
    moreover have "subseq (map wk_id (remove_at k (ac_workers s))) (ac_started s)"
      using assms(2) subseq_remove_at [of k "map wk_id (ac_workers s)"]
      by (auto simp: accept_inv_def remove_at_facts(3) intro: subseq_order.trans)
    moreover have "list_all worker_ok (remove_at k (ac_workers s))"
      using assms(2) remove_at_facts(2) [of k "ac_workers s"] by (auto simp: accept_inv_def list_all_iff)
    ultimately show ?thesis using \<open>0 < length (ac_workers s)\<close> k assms(2) remove_at_facts(1) [of k "ac_workers s"]
      by (auto simp: accept_inv_def)
  next
    case EvStop
    then show ?thesis using assms by (auto simp: accept_inv_def)
  qed (rule th, simp)+
qed

lemma accept_reachable_inv:
  assumes "accept_reachable cf n s" "cf_max cf < 2 ^ 64" "aead_ok (cf_prims cf)"
  shows "accept_inv cf n s"
  using assms(1)
  by induction (use accept_init_inv accept_step_inv assms in blast)+

lemma accept_run_reachable:
  "accept_run cf es s = Some t \<Longrightarrow> accept_reachable cf n s \<Longrightarrow> accept_reachable cf n t"
  by (induction es arbitrary: s) (auto split: option.splits intro: accept_next)

section \<open>Threads end\<close>

fun thread_event :: "accept_event \<Rightarrow> bool" where
  "thread_event (EvRun k) = True"
| "thread_event (EvRelease k) = True"
| "thread_event EvTop = False"
| "thread_event (EvAccept a b) = False"
| "thread_event EvWouldBlock = False"
| "thread_event EvAcceptError = False"
| "thread_event EvCheck = False"
| "thread_event EvTakeId = False"
| "thread_event EvCount = False"
| "thread_event EvSpawn = False"
| "thread_event EvStop = False"

text \<open>
  A peer goes quiet when one of its next reads times out, fails or reports the end. The wait for
  that, in reads, bounds the steps of a thread.
\<close>

fun quiet_within :: "nat \<Rightarrow> read_source \<Rightarrow> bool" where
  "quiet_within 0 src = False"
| "quiet_within (Suc m) src =
     (case source_read READ_BUF_LEN src of
        (Inl e, src) \<Rightarrow> True
      | (Inr bs, src) \<Rightarrow> bs = [] \<or> quiet_within m src)"

definition wait_of :: "read_source \<Rightarrow> nat" where
  "wait_of src = (LEAST m. quiet_within m src)"

definition worker_weight :: "worker \<Rightarrow> nat" where
  "worker_weight w =
     (case wk_phase w of
        WStart \<Rightarrow> wait_of (wk_source w) + 2
      | WReading c \<Rightarrow> wait_of (wk_source w) + 1
      | WReturned \<Rightarrow> 1
      | WPanicked \<Rightarrow> 0)"

definition work_left :: "accept_state \<Rightarrow> nat" where
  "work_left s = sum_list (map worker_weight (ac_workers s))"

text \<open>A thread that still runs has a peer that goes quiet.\<close>

definition peer_quiets :: "worker \<Rightarrow> bool" where
  "peer_quiets w \<longleftrightarrow> still_runs (wk_phase w) \<longrightarrow> (\<exists>m. quiet_within m (wk_source w))"

lemma wait_of_bound: "quiet_within m src \<Longrightarrow> wait_of src \<le> m"
  unfolding wait_of_def by (rule Least_le)

lemma wait_of_read:
  assumes "quiet_within m src" "source_read READ_BUF_LEN src = (Inr bs, src')" "bs \<noteq> []"
  shows "wait_of src = Suc (wait_of src')" "\<exists>m'. quiet_within m' src'"
proof -
  have "quiet_within (Suc j) src = quiet_within j src'" for j using assms(2,3) by simp
  then show "wait_of src = Suc (wait_of src')"
    using Least_Suc [of "\<lambda>m. quiet_within m src" m] assms(1) by (simp add: wait_of_def del: quiet_within.simps(2))
  show "\<exists>m'. quiet_within m' src'" using assms by (cases m) auto
qed

lemma worker_run_weight:
  assumes "aead_ok (cf_prims cf)" "worker_ok w" "peer_quiets w" "still_runs (wk_phase w)"
  shows "worker_weight (worker_run cf w) < worker_weight w" "peer_quiets (worker_run cf w)"
proof -
  note ok = worker_run_ok [OF assms(1,2)]
  obtain m where m: "quiet_within m (wk_source w)" using assms(3,4) by (auto simp: peer_quiets_def)
  have "worker_weight (worker_run cf w) < worker_weight w \<and> peer_quiets (worker_run cf w)"
  proof (cases "wk_phase w")
    case WStart
    then show ?thesis using m
      by (auto simp: worker_run.simps worker_weight_def peer_quiets_def split: option.split sum.split)
  next
    case (WReading c)
    obtain outcome src where rd: "source_read READ_BUF_LEN (wk_source w) = (outcome, src)" by fastforce
    have wk: "worker_run cf w = w\<lparr>wk_source := src, wk_phase :=
        (case loop_pass (cf_prims cf) outcome c of None \<Rightarrow> WPanicked | Some (PassEnds r) \<Rightarrow> WReturned
          | Some (PassGoesOn c) \<Rightarrow> WReading c)\<rparr>"
      using WReading rd by (simp add: worker_run.simps)
    have waits: "0 < wait_of (wk_source w)"
      using m LeastI [of "\<lambda>m. quiet_within m (wk_source w)" m] by (cases "wait_of (wk_source w)") (simp_all add: wait_of_def)
    show ?thesis
    proof (cases "\<exists>c'. loop_pass (cf_prims cf) outcome c = Some (PassGoesOn c')")
      case True
      then obtain c' bs where goes: "loop_pass (cf_prims cf) outcome c = Some (PassGoesOn c')" "outcome = Inr bs" "bs \<noteq> []"
        using loop_pass_goes_on by blast
      then show ?thesis
        using WReading wk wait_of_read [OF m rd [unfolded goes(2)] goes(3)]
        by (simp add: worker_weight_def peer_quiets_def)
    next
      case False
      then show ?thesis
        using WReading wk waits by (auto simp: worker_weight_def peer_quiets_def split: option.split pass_result.split)
    qed
  qed (use assms(4) in simp_all)
  then show "worker_weight (worker_run cf w) < worker_weight w" "peer_quiets (worker_run cf w)" by simp_all
qed

lemma sum_remove_at:
  "k < length xs \<Longrightarrow> sum_list (map f xs) = (f (xs ! k) :: nat) + sum_list (map f (remove_at k xs))"
  by (subst (1) id_take_nth_drop [of k xs]) (simp_all add: remove_at_def)

lemma sum_update:
  "k < length xs \<Longrightarrow> sum_list (map f (xs[k := y])) = (f y :: nat) + sum_list (map f (remove_at k xs))"
  by (simp add: upd_conv_take_nth_drop remove_at_def)

lemma thread_step_weight:
  assumes "accept_step cf e s = Some t" "thread_event e" "aead_ok (cf_prims cf)"
    and "list_all worker_ok (ac_workers s)" "list_all peer_quiets (ac_workers s)"
  shows "work_left t < work_left s \<and> ac_pc t = ac_pc s \<and> list_all peer_quiets (ac_workers t)"
proof (cases e)
  case (EvRun k)
  with assms(1) have k: "k < length (ac_workers s)" "still_runs (wk_phase (ac_workers s ! k))"
      "t = s\<lparr>ac_workers := (ac_workers s)[k := worker_run cf (ac_workers s ! k)]\<rparr>"
    by (auto split: if_splits)
  have "worker_ok (ac_workers s ! k)" "peer_quiets (ac_workers s ! k)"
    using assms(4,5) k(1) by (simp_all add: list_all_length)
  note w = worker_run_weight [OF assms(3) this k(2)]
  show ?thesis
    using k w assms(5) sum_remove_at [OF k(1), of worker_weight] sum_update [OF k(1), of worker_weight]
    by (simp add: work_left_def list_all_length nth_list_update)
next
  case (EvRelease k)
  with assms(1) have k: "k < length (ac_workers s)" "wk_phase (ac_workers s ! k) = WReturned"
      "t = s\<lparr>ac_workers := remove_at k (ac_workers s), ac_active := ac_active s - 1\<rparr>"
    by (auto split: if_splits)
  then show ?thesis
    using assms(5) sum_remove_at [OF k(1), of worker_weight] remove_at_facts(2) [of k "ac_workers s"]
    by (auto simp: work_left_def worker_weight_def list_all_iff)
qed (use assms(2) in simp_all)

lemma thread_run_weight:
  assumes "accept_run cf es s = Some t" "list_all thread_event es" "aead_ok (cf_prims cf)"
    and "accept_inv cf n s" "cf_max cf < 2 ^ 64" "list_all peer_quiets (ac_workers s)"
  shows "length es + work_left t \<le> work_left s \<and> ac_pc t = ac_pc s"
  using assms(1,2,4,6)
proof (induction es arbitrary: s)
  case (Cons e es)
  then obtain u where u: "accept_step cf e s = Some u" "accept_run cf es u = Some t"
    by (auto split: option.splits)
  have ok: "list_all worker_ok (ac_workers s)" using Cons.prems(3) by (simp add: accept_inv_def)
  note step = thread_step_weight [OF u(1) _ assms(3) ok Cons.prems(4)]
  show ?case
    using Cons.IH [OF u(2) _ accept_step_inv [OF u(1) Cons.prems(3) assms(5,3)]] step Cons.prems(2) by simp
qed simp

lemma work_left_bound:
  assumes "list_all (\<lambda>w. still_runs (wk_phase w) \<longrightarrow> quiet_within pause (wk_source w)) ws"
  shows "sum_list (map worker_weight ws) \<le> (pause + 2) * length ws" "list_all peer_quiets ws"
proof -
  have "worker_weight w \<le> pause + 2" if "still_runs (wk_phase w) \<longrightarrow> quiet_within pause (wk_source w)" for w
    using that wait_of_bound [of pause "wk_source w"] by (cases "wk_phase w") (simp_all add: worker_weight_def)
  then show "sum_list (map worker_weight ws) \<le> (pause + 2) * length ws"
    using assms by (induction ws) fastforce+
  show "list_all peer_quiets ws" using assms by (auto simp: list_all_iff peer_quiets_def)
qed

lemma thread_can_step:
  assumes "w \<in> set (ac_workers s)" "wk_phase w \<noteq> WPanicked"
  shows "\<exists>e t. thread_event e \<and> accept_step cf e s = Some t"
proof -
  obtain k where k: "k < length (ac_workers s)" "ac_workers s ! k = w"
    using assms(1) by (auto simp: in_set_conv_nth)
  show ?thesis
  proof (cases "wk_phase w")
    case WStart
    then show ?thesis using k by (intro exI [of _ "EvRun k"]) simp
  next
    case (WReading c)
    then show ?thesis using k by (intro exI [of _ "EvRun k"]) simp
  next
    case WReturned
    then show ?thesis using k by (intro exI [of _ "EvRelease k"]) simp
  qed (use assms(2) in simp)
qed

lemma accept_run_inv:
  assumes "accept_run cf es s = Some t" "accept_inv cf n s" "cf_max cf < 2 ^ 64" "aead_ok (cf_prims cf)"
  shows "accept_inv cf n t"
  using assms(1,2)
proof (induction es arbitrary: s)
  case (Cons e es)
  then show ?case using accept_step_inv [OF _ _ assms(3,4)] by (auto split: option.splits)
qed simp

section \<open>Properties\<close>

text \<open>
  C15. Whatever the clients send and however the threads interleave, the counter is the number
  of live connection threads (plus the one about to be spawned), it never exceeds
  \<open>max_connections\<close>, no thread has panicked with its slot taken, and the ids of the
  connections are distinct until 2^64 of them have been started.
\<close>

theorem accept_slots:
  assumes "accept_reachable cf n s" "cf_max cf < 2 ^ 64" "aead_ok (cf_prims cf)"
    and "length (ac_started s) \<le> 2 ^ 64"
  shows "unat (ac_active s) = length (ac_workers s) + pc_counted (ac_pc s)
    \<and> unat (ac_active s) \<le> cf_max cf
    \<and> list_all (\<lambda>w. wk_phase w \<noteq> WPanicked) (ac_workers s)
    \<and> distinct (ac_started s) \<and> distinct (map wk_id (ac_workers s))"
proof -
  note inv = accept_reachable_inv [OF assms(1-3)]
  have "ac_started s = take (length (ac_started s)) (ids_from n (length (ac_started s) + length (pc_ids (ac_pc s))))"
    using inv by (simp add: accept_inv_def)
  also have "\<dots> = ids_from n (length (ac_started s))"
    by (simp add: ids_from_def take_map take_upt)
  finally have d: "distinct (ac_started s)"
    using ids_from_distinct [OF assms(4), of n] by metis
  have "distinct (map wk_id (ac_workers s))"
    using inv d by (auto simp: accept_inv_def subseq_conv_nths intro: distinct_nthsI)
  moreover have "list_all (\<lambda>w. wk_phase w \<noteq> WPanicked) (ac_workers s)"
    using inv by (auto simp: accept_inv_def list_all_iff worker_ok_def)
  ultimately show ?thesis
    using inv d pending_counted [of "ac_pc s"] by (simp add: accept_inv_def)
qed

text \<open>Two connections are taken with one slot: the second is refused.\<close>

theorem accept_slots_witness:
  "let cf = \<lparr>cf_prims = demo_aead, cf_key = SYNTHETIC_SESSION_KEY, cf_nonce = SYNTHETIC_SESSION_NONCE, cf_max = 1\<rparr>;
       t = \<lparr>ac_pc = PcLoop, ac_stop = False, ac_next_id = 2, ac_active = 1,
            ac_workers = [\<lparr>wk_id = 1, wk_source = sconst (IoData []), wk_writes = [], wk_phase = WStart\<rparr>],
            ac_started = [1], ac_refused = 1\<rparr>
   in accept_run cf [EvTop, EvAccept (sconst (IoData [])) [], EvCheck, EvTakeId, EvCount, EvSpawn, EvTop, EvAccept (sconst (IoData [])) [], EvCheck]
        (accept_init 1) = Some t
    \<and> unat (ac_active t) = length (ac_workers t) + pc_counted (ac_pc t)
    \<and> unat (ac_active t) \<le> cf_max cf
    \<and> list_all (\<lambda>w. wk_phase w \<noteq> WPanicked) (ac_workers t)
    \<and> distinct (ac_started t) \<and> distinct (map wk_id (ac_workers t))"
proof -
  let ?cf = "\<lparr>cf_prims = demo_aead, cf_key = SYNTHETIC_SESSION_KEY, cf_nonce = SYNTHETIC_SESSION_NONCE, cf_max = 1\<rparr>"
  let ?t = "\<lparr>ac_pc = PcLoop, ac_stop = False, ac_next_id = 2, ac_active = 1,
            ac_workers = [\<lparr>wk_id = 1, wk_source = sconst (IoData []), wk_writes = [], wk_phase = WStart\<rparr>],
            ac_started = [1], ac_refused = 1\<rparr>"
  have run: "accept_run ?cf [EvTop, EvAccept (sconst (IoData [])) [], EvCheck, EvTakeId, EvCount, EvSpawn, EvTop, EvAccept (sconst (IoData [])) [], EvCheck]
        (accept_init 1) = Some ?t"
    by (simp add: accept_init_def)
  have "accept_reachable ?cf 1 ?t"
    by (rule accept_run_reachable [OF run accept_start])
  from accept_slots [OF this] run show ?thesis
    by (simp only: Let_def) (simp add: demo_aead_ok)
qed

text \<open>
  C26. A peer that stops sending gives its slot back. From any reachable state, if the peer
  of every thread that still runs goes quiet (a read that times out, fails or reports the end) within its next
  \<open>pause\<close> reads, whatever the peers send before or after, then the connection threads make at most
  \<open>pause + 2\<close> steps each, and when none of them can step any more, none is left and the counter is
  back to zero (or counts the one connection about to be spawned).
\<close>

theorem slots_released:
  assumes "accept_reachable cf n s" "cf_max cf < 2 ^ 64" "aead_ok (cf_prims cf)"
    and "list_all (\<lambda>w. still_runs (wk_phase w) \<longrightarrow> quiet_within pause (wk_source w)) (ac_workers s)"
    and "accept_run cf es s = Some t" "list_all thread_event es"
  shows "length es \<le> (pause + 2) * length (ac_workers s)
    \<and> ((\<exists>e u. thread_event e \<and> accept_step cf e t = Some u)
       \<or> ac_workers t = [] \<and> unat (ac_active t) = pc_counted (ac_pc s))"
proof -
  note start = accept_reachable_inv [OF assms(1-3)]
  note inv = accept_run_inv [OF assms(5) start assms(2,3)]
  note quiet = work_left_bound [OF assms(4)]
  note w = thread_run_weight [OF assms(5,6,3) start assms(2) quiet(2)]
  have "length es \<le> (pause + 2) * length (ac_workers s)" using w quiet(1) by (simp add: work_left_def)
  moreover have "\<exists>e u. thread_event e \<and> accept_step cf e t = Some u" if "ac_workers t \<noteq> []"
  proof -
    have x: "hd (ac_workers t) \<in> set (ac_workers t)" using that by simp
    then have "wk_phase (hd (ac_workers t)) \<noteq> WPanicked"
      using inv by (simp add: accept_inv_def list_all_iff worker_ok_def)
    with x show ?thesis by (rule thread_can_step)
  qed
  ultimately show ?thesis using inv w by (auto simp: accept_inv_def)
qed

text \<open>A client that sends one byte of a frame and then idles for ever.\<close>

theorem slots_released_witness:
  "let cf = \<lparr>cf_prims = demo_aead, cf_key = SYNTHETIC_SESSION_KEY, cf_nonce = SYNTHETIC_SESSION_NONCE, cf_max = 1\<rparr>;
       idle = IoData [1] ## sconst (IoError TimedOut ''timed out'');
       up = [EvTop, EvAccept idle [], EvCheck, EvTakeId, EvCount, EvSpawn]
   in \<exists>s t. accept_run cf up (accept_init 1) = Some s
    \<and> accept_run cf [EvRun 0, EvRun 0, EvRun 0, EvRelease 0] s = Some t
    \<and> ac_workers t = [] \<and> unat (ac_active t) = 0"
proof -
  let ?cfm = "\<lambda>m. \<lparr>cf_prims = demo_aead, cf_key = SYNTHETIC_SESSION_KEY, cf_nonce = SYNTHETIC_SESSION_NONCE, cf_max = m\<rparr>"
  let ?cf = "?cfm 1"
  let ?silent = "sconst (IoError TimedOut ''timed out'')"
  let ?idle = "IoData [1] ## ?silent"
  let ?w = "\<lambda>src p. \<lparr>wk_id = 1, wk_source = src, wk_writes = [], wk_phase = p\<rparr>"
  let ?s = "\<lambda>w. \<lparr>ac_pc = PcLoop, ac_stop = False, ac_next_id = 2, ac_active = 1, ac_workers = [w],
             ac_started = [1], ac_refused = 0\<rparr>"
  let ?t = "(?s (?w ?silent WReturned))\<lparr>ac_workers := [], ac_active := 0\<rparr>"
  let ?es = "[EvRun 0, EvRun 0, EvRun 0, EvRelease 0]"
  have up: "accept_run ?cf [EvTop, EvAccept ?idle [], EvCheck, EvTakeId, EvCount, EvSpawn] (accept_init 1)
      = Some (?s (?w ?idle WStart))"
    by (simp add: accept_init_def)
  have reach: "accept_reachable ?cf 1 (?s (?w ?idle WStart))" by (rule accept_run_reachable [OF up accept_start])
  have "\<exists>l. local_with_keys 1 SYNTHETIC_SESSION_KEY SYNTHETIC_SESSION_NONCE = Inr l"
    using context_new_ok [of SYNTHETIC_SESSION_KEY SYNTHETIC_SESSION_NONCE]
    by (auto simp: local_with_keys_def with_material_def bap_session_new_def SYNTHETIC_SESSION_KEY_def
        SYNTHETIC_SESSION_NONCE_def Let_def)
  then obtain c where c: "start_connection 1 [] SYNTHETIC_SESSION_KEY SYNTHETIC_SESSION_NONCE [] = Some (Inr c)"
      "cn_decoder c = decoder_new"
    by (auto simp: start_connection_eq Let_def)
  have first: "worker_run (?cfm m) (?w ?idle WStart) = ?w ?idle (WReading c)" for m using c by (simp add: worker_run.simps)
  have "fst (decoder_push decoder_new [1]) = Inr []" by code_simp
  then obtain d where "decoder_push decoder_new [1] = (Inr [], d)" by (cases "decoder_push decoder_new [1]") simp
  moreover have "range_to (Suc 0) (read_buffer [1]) = Some [1]"
    by (simp add: range_to_def read_buffer_def READ_BUF_LEN_def)
  ultimately have "loop_pass demo_aead (Inr [1]) c = Some (PassGoesOn (c\<lparr>cn_decoder := d\<rparr>))"
    using c(2) by (simp add: loop_pass_def never_panics Let_def)
  then have second: "worker_run (?cfm m) (?w ?idle (WReading c)) = ?w ?silent (WReading (c\<lparr>cn_decoder := d\<rparr>))" for m
    by (simp add: worker_run.simps source_read_def READ_BUF_LEN_def)
  have third: "worker_run (?cfm m) (?w ?silent (WReading x)) = ?w ?silent WReturned" for m x
    by (simp add: worker_run.simps source_read_def loop_pass_def)
  have run: "accept_run ?cf ?es (?s (?w ?idle WStart)) = Some ?t"
    by (simp add: first second third remove_at_def)
  have quiet: "quiet_within 2 ?idle"
    by (simp add: numeral_2_eq_2 source_read_def READ_BUF_LEN_def)
  have "\<not> (\<exists>e u. thread_event e \<and> accept_step ?cf e ?t = Some u)"
  proof
    assume "\<exists>e u. thread_event e \<and> accept_step ?cf e ?t = Some u"
    then obtain e u where "thread_event e" "accept_step ?cf e ?t = Some u" by blast
    then show False by (cases e) simp_all
  qed
  with slots_released [OF reach _ _ _ run, of 2]
  have "ac_workers ?t = [] \<and> unat (ac_active ?t) = 0" using quiet by (simp add: demo_aead_ok)
  with up run show ?thesis unfolding Let_def by blast
qed

end
