(* ===== verification/Replay_Client.thy ===== *)
theory Replay_Client
  imports Local_Server
begin

text \<open>
  \<open>network/src/replay_client.rs\<close>: the client that drives the local server. The socket is the
  script of what its reads report, and the list of what its writes report; \<open>None\<close> is a panic.
  The theory shows that the client and the server model, connected by any two cuttings of
  their byte streams, complete the handshake and the encrypted exchange.
\<close>

section \<open>Data\<close>

datatype replay_error =
    RcConnect string
  | RcIo string
  | RcFraming string
  | RcCrypto string
  | RcProtocol string
  | RcUnexpected string
  | RcFixture local_protocol_error

record replay_client =
  rc_stream :: "tcp_stream option"
  rc_writes :: "string option list"
  rc_sent :: "bytes list"
  rc_session :: bap_session
  rc_decoder :: stream_decoder
  rc_sim_state :: sim_state
  rc_pending :: "decoded_frame list"

definition REPLAY_READ_BUF :: nat where "REPLAY_READ_BUF = 4096"

type_synonym 'a replay_result = "(replay_error, 'a, replay_client) step_result"

section \<open>Debug text of a decoded frame\<close>

definition debug_bytes :: "bytes \<Rightarrow> string" where
  "debug_bytes bs = ''['' @ join_with '', '' (map (\<lambda>b. show_nat (unat b)) bs) @ '']''"

fun debug_option_nat :: "nat option \<Rightarrow> string" where
  "debug_option_nat None = ''None''"
| "debug_option_nat (Some n) = ''Some('' @ show_nat n @ '')''"

fun debug_frame :: "decoded_frame \<Rightarrow> string" where
  "debug_frame (DClear i c p) =
     ''Clear { msg_id: '' @ show_nat (unat i) @ '', context: '' @ show_nat (unat c)
     @ '', payload: '' @ debug_bytes p @ '' }''"
| "debug_frame (DDecrypted i c p n) =
     ''Decrypted { msg_id: '' @ debug_option_nat (map_option unat i)
     @ '', context: '' @ debug_option_nat (map_option unat c)
     @ '', payload: '' @ debug_bytes p @ '', plaintext_len: '' @ show_nat n @ '' }''"
| "debug_frame (DOpaque k n) =
     ''Opaque { kind: '' @ show_nat (unat k) @ '', body_len: '' @ show_nat n @ '' }''"

section \<open>Operations\<close>

definition replay_with_keys :: "bytes \<Rightarrow> bytes \<Rightarrow> replay_error + replay_client" where
  "replay_with_keys key nonce =
     (case bap_session_new key nonce of
        Inl e \<Rightarrow> Inl (RcCrypto (show_bap_session_error e))
      | Inr s \<Rightarrow> Inr \<lparr>rc_stream = None, rc_writes = [], rc_sent = [], rc_session = s,
                      rc_decoder = decoder_new, rc_sim_state = SimStart, rc_pending = []\<rparr>)"

definition replay_with_synthetic :: "replay_error + replay_client" where
  "replay_with_synthetic = replay_with_keys SYNTHETIC_SESSION_KEY SYNTHETIC_SESSION_NONCE"

definition replay_from_fixture :: "crypto_fixture \<Rightarrow> (replay_error + replay_client) option" where
  "replay_from_fixture fx =
     (case key_bytes fx of
        None \<Rightarrow> None
      | Some (Inl e) \<Rightarrow> Some (Inl (RcFixture e))
      | Some (Inr key) \<Rightarrow>
          (case nonce_bytes fx of
             None \<Rightarrow> None
           | Some (Inl e) \<Rightarrow> Some (Inl (RcFixture e))
           | Some (Inr nonce) \<Rightarrow> Some (replay_with_keys key nonce)))"

text \<open>\<open>connect_timeout\<close>: what the operating system reports is an argument.\<close>

definition replay_connect ::
  "string + tcp_stream \<times> string option list \<Rightarrow> replay_client \<Rightarrow> (replay_error + unit) \<times> replay_client" where
  "replay_connect attempt c =
     (case attempt of
        Inl msg \<Rightarrow> (Inl (RcConnect msg), c)
      | Inr (stream, writes) \<Rightarrow> (Inr (), c\<lparr>rc_stream := Some stream, rc_writes := writes\<rparr>))"

definition replay_is_connected :: "replay_client \<Rightarrow> bool" where
  "replay_is_connected c = (rc_stream c \<noteq> None)"

definition send_raw :: "bytes \<Rightarrow> replay_client \<Rightarrow> (replay_error + unit) \<times> replay_client" where
  "send_raw bs c =
     (if rc_stream c = None then (Inl (RcConnect ''not connected''), c)
      else case rc_writes c of
          Some msg # ws \<Rightarrow> (Inl (RcIo msg), c\<lparr>rc_writes := ws\<rparr>)
        | _ \<Rightarrow> (Inr (), c\<lparr>rc_writes := tl (rc_writes c), rc_sent := rc_sent c @ [bs]\<rparr>))"

definition send_clear :: "u16 \<Rightarrow> u32 \<Rightarrow> bytes \<Rightarrow> replay_client \<Rightarrow> unit replay_result" where
  "send_clear mid context payload c =
     (case encode_clear mid context payload of
        None \<Rightarrow> None
      | Some bs \<Rightarrow> Some (send_raw bs c))"

definition send_encrypted ::
  "aead_prims \<Rightarrow> u16 \<Rightarrow> u32 \<Rightarrow> bytes \<Rightarrow> replay_client \<Rightarrow> unit replay_result" where
  "send_encrypted P mid context payload c =
     (case encode_encrypted P (rc_session c) ClientToServer mid context payload of
        None \<Rightarrow> None
      | Some (Inl e, s) \<Rightarrow> Some (Inl (RcCrypto (show_bap_session_error e)), c\<lparr>rc_session := s\<rparr>)
      | Some (Inr bs, s) \<Rightarrow> Some (send_raw bs (c\<lparr>rc_session := s\<rparr>)))"

fun map_framing :: "stream_error \<Rightarrow> replay_error" where
  "map_framing (InvalidMagic m) = RcFraming (error_kind_str KProtocolError)"
| "map_framing (InvalidKind k) = RcFraming (error_kind_str KProtocolError)"
| "map_framing (FrameTooLarge n) = RcFraming (show_stream_error (FrameTooLarge n))"
| "map_framing (IncompleteAtEnd n) = RcFraming (show_stream_error (IncompleteAtEnd n))"

text \<open>The frames of one read, decoded; the first error drops them all.\<close>

fun decode_batch ::
  "aead_prims \<Rightarrow> bap_session \<Rightarrow> raw_frame list \<Rightarrow> (replay_error + decoded_frame list) \<times> bap_session" where
  "decode_batch P s [] = (Inr [], s)"
| "decode_batch P s (raw # raws) =
     (case decode_frame P s ServerToClient (rf_raw_bytes raw) of
        (Inr d, s) \<Rightarrow>
          (case decode_batch P s raws of
             (Inl e, s) \<Rightarrow> (Inl e, s)
           | (Inr ds, s) \<Rightarrow> (Inr (d # ds), s))
      | (Inl SDecryptFailed, s) \<Rightarrow> (Inl (RcCrypto (error_kind_str KGcmDecryptFailure)), s)
      | (Inl e, s) \<Rightarrow>
          (Inl (RcCrypto (error_kind_str KAuthCryptoError @ '': '' @ show_bap_session_error e)), s))"

function read_loop ::
  "aead_prims \<Rightarrow> tcp_stream \<Rightarrow> replay_client \<Rightarrow> (replay_error + decoded_frame) \<times> replay_client" where
  "read_loop P stream c =
     (case stream_read REPLAY_READ_BUF stream of
        (Inl (kind, msg), stream') \<Rightarrow>
          (Inl (RcIo (if kind = WouldBlock \<or> kind = TimedOut then ''timeout'' else msg)),
           c\<lparr>rc_stream := Some stream'\<rparr>)
      | (Inr bs, stream') \<Rightarrow>
          let c = c\<lparr>rc_stream := Some stream'\<rparr> in
          if bs = [] then (Inl (RcIo ''EOF''), c)
          else (case decoder_push (rc_decoder c) bs of
              (Inl e, d) \<Rightarrow> (Inl (map_framing e), c\<lparr>rc_decoder := d\<rparr>)
            | (Inr frames, d) \<Rightarrow>
                (case decode_batch P (rc_session c) frames of
                   (Inl e, s) \<Rightarrow> (Inl e, c\<lparr>rc_decoder := d, rc_session := s\<rparr>)
                 | (Inr [], s) \<Rightarrow> read_loop P stream' (c\<lparr>rc_decoder := d, rc_session := s\<rparr>)
                 | (Inr (first # rest), s) \<Rightarrow>
                     (Inr first, c\<lparr>rc_decoder := d, rc_session := s,
                                    rc_pending := rc_pending c @ rev rest\<rparr>))))"
  by pat_completeness auto
termination
  by (relation "measure (\<lambda>(P, stream, c). stream_size stream)") (simp_all, metis stream_read_smaller)

declare read_loop.simps [simp del]

text \<open>\<open>pending\<close> is a stack whose top is the next frame.\<close>

definition read_frame :: "aead_prims \<Rightarrow> replay_client \<Rightarrow> (replay_error + decoded_frame) \<times> replay_client" where
  "read_frame P c =
     (if rc_pending c \<noteq> [] then (Inr (last (rc_pending c)), c\<lparr>rc_pending := butlast (rc_pending c)\<rparr>)
      else case rc_stream c of
          None \<Rightarrow> (Inl (RcConnect ''not connected''), c)
        | Some stream \<Rightarrow> read_loop P stream c)"

definition expect_clear :: "decoded_frame \<Rightarrow> u16 \<Rightarrow> replay_error + unit" where
  "expect_clear frame mid =
     (case frame of
        DClear i _ _ \<Rightarrow>
          if i = mid then Inr ()
          else Inl (RcUnexpected (''expected clear 0x'' @ show_hex_u16 mid @ '', got '' @ debug_frame frame))
      | _ \<Rightarrow> Inl (RcUnexpected (''expected clear 0x'' @ show_hex_u16 mid @ '', got '' @ debug_frame frame)))"

definition expect_decrypted :: "decoded_frame \<Rightarrow> u16 \<Rightarrow> replay_error + unit" where
  "expect_decrypted frame mid =
     (if (case frame of DDecrypted (Some i) _ _ _ \<Rightarrow> i = mid | _ \<Rightarrow> False) then Inr ()
      else Inl (RcUnexpected (''expected decrypted 0x'' @ show_hex_u16 mid @ '', got '' @ debug_frame frame)))"

definition set_sim :: "sim_state \<Rightarrow> replay_client \<Rightarrow> replay_client" where
  "set_sim s c = c\<lparr>rc_sim_state := s\<rparr>"

definition run_handshake :: "aead_prims \<Rightarrow> replay_client \<Rightarrow> unit replay_result" where
  "run_handshake P c =
     step_then (send_clear MSG_1E SIM_CONTEXT PAYLOAD_1E c) (\<lambda>_ c.
     step_then (Some (read_frame P (set_sim Sim1eSent c))) (\<lambda>f c.
     step_then (Some (expect_clear f MSG_1F, c)) (\<lambda>_ c.
     step_then (send_clear MSG_19 SIM_CONTEXT PAYLOAD_19 (set_sim Sim1fSent c)) (\<lambda>_ c.
     step_then (Some (read_frame P (set_sim Sim19Sent c))) (\<lambda>f c.
     step_then (Some (expect_clear f MSG_1A, c)) (\<lambda>_ c.
     step_then (send_encrypted P MSG_79 SIM_CONTEXT PAYLOAD_79 (set_sim Sim1aSent c)) (\<lambda>_ c.
     step_then (Some (read_frame P (set_sim Sim79Sent c))) (\<lambda>f c.
     step_then (Some (expect_decrypted f MSG_7A, c)) (\<lambda>_ c.
     Some (Inr (), set_sim SimReady (set_sim Sim7aSent c)))))))))))"

definition run_encrypted_sequence :: "aead_prims \<Rightarrow> replay_client \<Rightarrow> unit replay_result" where
  "run_encrypted_sequence P c =
     (if rc_sim_state c \<noteq> SimReady
      then Some (Inl (RcProtocol ''encrypted sequence requires SIM_READY''), c)
      else
        step_then (send_encrypted P MSG_SYN_A SIM_CONTEXT PAYLOAD_SYN_A c) (\<lambda>_ c.
        step_then (Some (read_frame P c)) (\<lambda>f c.
        step_then (Some (expect_decrypted f MSG_SYN_A_RSP, c)) (\<lambda>_ c.
        step_then (send_encrypted P MSG_SYN_B SIM_CONTEXT PAYLOAD_SYN_B c) (\<lambda>_ c.
        step_then (Some (read_frame P c)) (\<lambda>f c.
        Some (expect_decrypted f MSG_SYN_B_RSP, c)))))))"

text \<open>One step of a fixture, and all of them in order.\<close>

definition run_fixture_step :: "aead_prims \<Rightarrow> replay_step \<Rightarrow> replay_client \<Rightarrow> unit replay_result" where
  "run_fixture_step P step c =
     (case parse_msg_id (rs_id step) of
        Inl e \<Rightarrow> Some (Inl (RcFixture e), c)
      | Inr mid \<Rightarrow>
          let context = (case rs_context step of None \<Rightarrow> SIM_CONTEXT | Some x \<Rightarrow> x) in
          (case (case rs_payload_hex step of
                   Some hx \<Rightarrow> hex_decode hx
                 | None \<Rightarrow> Some (Inr (payload_for_msg mid))) of
             None \<Rightarrow> None
           | Some (Inl e) \<Rightarrow> Some (Inl (RcFixture e), c)
           | Some (Inr payload) \<Rightarrow>
               if rs_direction step = ''C2S'' then
                 (if rs_encrypted step then send_encrypted P mid context payload c
                  else send_clear mid context payload c)
               else if rs_direction step = ''S2C'' then
                 step_then (Some (read_frame P c)) (\<lambda>frame c.
                   Some (if rs_encrypted step then expect_decrypted frame mid
                         else expect_clear frame mid, c))
               else Some (Inl (RcProtocol (''bad direction '' @ rs_direction step)), c)))"

fun run_fixture_steps :: "aead_prims \<Rightarrow> replay_step list \<Rightarrow> replay_client \<Rightarrow> unit replay_result" where
  "run_fixture_steps P [] c = Some (Inr (), set_sim SimReady c)"
| "run_fixture_steps P (step # steps) c =
     step_then (run_fixture_step P step c) (\<lambda>_ c. run_fixture_steps P steps c)"

definition run_fixture :: "aead_prims \<Rightarrow> handshake_fixture \<Rightarrow> replay_client \<Rightarrow> unit replay_result" where
  "run_fixture P fx c =
     (if hf_protocol fx \<noteq> ''SIMULATED_HANDSHAKE''
      then Some (Inl (RcProtocol (''unsupported protocol label '' @ [CHR 0x27] @ hf_protocol fx @ [CHR 0x27])), c)
      else run_fixture_steps P (hf_steps fx) c)"

definition replay_close :: "replay_client \<Rightarrow> replay_client" where
  "replay_close c = c\<lparr>rc_stream := None\<rparr>"

section \<open>Sessions that agree on one direction\<close>

lemma next_nonce_peek: "fst (next_nonce x d) = peek_nonce x d" by (cases d) simp_all

lemma decode_frame_synced:
  assumes "dir_synced d a b"
  shows "fst (decode_frame P a d raw) = fst (decode_frame P b d raw)"
    "dir_synced d (snd (decode_frame P a d raw)) (snd (decode_frame P b d raw))"
proof -
  define x where "x = snd (next_nonce (bs_crypto a) d)"
  define y where "y = snd (next_nonce (bs_crypto b) d)"
  define n where "n = peek_nonce (bs_crypto a) d"
  have a: "next_nonce (bs_crypto a) d = (n, x)" "sc_key x = sc_key (bs_crypto a)"
    by (simp_all add: x_def n_def prod_eq_iff next_nonce_peek)
  have b: "next_nonce (bs_crypto b) d = (n, y)" "sc_key y = sc_key (bs_crypto a)"
    using assms by (simp_all add: y_def n_def prod_eq_iff next_nonce_peek dir_synced_def)
  have adv: "dir_synced d (a\<lparr>bs_crypto := x\<rparr>) (b\<lparr>bs_crypto := y\<rparr>)"
    using dir_synced_advance(1) [OF assms] by (simp add: x_def y_def)
  have enc: "fst (decode_encrypted P a d e) = fst (decode_encrypted P b d e)
     \<and> dir_synced d (snd (decode_encrypted P a d e)) (snd (decode_encrypted P b d e))" for e
    using a b adv assms by (simp add: decode_encrypted_def Let_def split: sum.split crypto_error.split)
  show "fst (decode_frame P a d raw) = fst (decode_frame P b d raw)"
    "dir_synced d (snd (decode_frame P a d raw)) (snd (decode_frame P b d raw))"
    using enc assms
    by (simp_all add: decode_frame_def decode_parsed_def split: sum.split prod.split frame_body.split)
qed

lemma recv_synced:
  assumes "dir_synced d a b" "\<forall>w \<in> set ws. fst w = d" "recv_all (bap_recv P) a ws = (Inr fs, a')"
  shows "\<exists>b'. recv_all (bap_recv P) b ws = (Inr fs, b')"
  using assms
proof (induction ws arbitrary: a b fs)
  case (Cons w ws)
  obtain r x where r: "decode_frame P a d (snd w) = (r, x)" by (cases "decode_frame P a d (snd w)")
  obtain q y where q: "decode_frame P b d (snd w) = (q, y)" by (cases "decode_frame P b d (snd w)")
  have "q = r" "dir_synced d x y"
    using decode_frame_synced [OF Cons.prems(1), of P "snd w"] r q by simp_all
  with Cons.prems r q Cons.IH [of x y] show ?case
    by (auto simp: bap_recv_def split: sum.splits prod.splits)
qed simp

lemma send_synced:
  assumes "dir_synced (bo_direction m) a b" "bap_send P a m = Some (w, a')"
  shows "\<exists>b'. bap_send P b m = Some (w, b') \<and> dir_synced (bo_direction m) a' b'
     \<and> (b' = b \<or> b' = advance b (bo_direction m))"
proof -
  let ?d = "bo_direction m"
  define x where "x = snd (next_nonce (bs_crypto a) ?d)"
  define y where "y = snd (next_nonce (bs_crypto b) ?d)"
  define n where "n = peek_nonce (bs_crypto a) ?d"
  have a: "next_nonce (bs_crypto a) ?d = (n, x)" "sc_key x = sc_key (bs_crypto a)"
    by (simp_all add: x_def n_def prod_eq_iff next_nonce_peek)
  have b: "next_nonce (bs_crypto b) ?d = (n, y)" "sc_key y = sc_key (bs_crypto a)"
    using assms(1) by (simp_all add: y_def n_def prod_eq_iff next_nonce_peek dir_synced_def)
  have adv: "dir_synced ?d (a\<lparr>bs_crypto := x\<rparr>) (b\<lparr>bs_crypto := y\<rparr>)"
    using dir_synced_advance(1) [OF assms(1)] by (simp add: x_def y_def)
  show ?thesis
    using assms a b adv
    by (auto simp: bap_send_def encode_encrypted_def Let_def simp flip: y_def
        split: if_splits option.splits sum.splits)
qed

lemma recv_all_appendD:
  "recv_all recv b (xs @ ys) = (Inr fs, b'') \<Longrightarrow>
   \<exists>us vs b'. recv_all recv b xs = (Inr us, b') \<and> recv_all recv b' ys = (Inr vs, b'') \<and> fs = us @ vs"
  by (induction xs arbitrary: b fs) (fastforce split: prod.splits sum.splits)+

definition raw_wires :: "raw_frame list \<Rightarrow> (nonce_direction \<times> bytes) list" where
  "raw_wires rs = map (\<lambda>r. (ServerToClient, rf_raw_bytes r)) rs"

lemma decode_batch_recv:
  "recv_all (bap_recv P) s (raw_wires rs) = (Inr fs, s') \<Longrightarrow> decode_batch P s rs = (Inr fs, s')"
  by (induction rs arbitrary: s fs) (auto simp: raw_wires_def bap_recv_def split: prod.splits sum.splits)

lemma decode_batch_keeps:
  assumes "context_valid (bs_crypto s)"
  shows "context_valid (bs_crypto (snd (decode_batch P s rs)))
     \<and> (dir_synced ClientToServer x s \<longrightarrow> dir_synced ClientToServer x (snd (decode_batch P s rs)))"
  using assms
proof (induction rs arbitrary: s)
  case (Cons r rs)
  obtain q t where q: "decode_frame P s ServerToClient (rf_raw_bytes r) = (q, t)"
    by (cases "decode_frame P s ServerToClient (rf_raw_bytes r)")
  have t: "context_valid (bs_crypto t)" "dir_synced ClientToServer x s \<longrightarrow> dir_synced ClientToServer x t"
    using decode_frame_keeps_valid [OF Cons.prems, where P = P and d = ServerToClient and raw = "rf_raw_bytes r"]
      decode_frame_keeps_valid(3) [OF Cons.prems, where P = P and d = ServerToClient and e = ClientToServer
        and raw = "rf_raw_bytes r"] q
    by (simp_all add: dir_synced_def)
  show ?case
    using Cons.IH [OF t(1)] t q by (auto split: prod.split sum.split bap_session_error.split)
qed simp

section \<open>What the client will still read\<close>

text \<open>
  \<open>client_at P c x sent fs\<close>: the client has written \<open>sent\<close>, sends like the session \<open>x\<close>, and the
  frames it will still get, pending and on their way, are \<open>fs\<close>.
\<close>

definition client_at ::
  "aead_prims \<Rightarrow> replay_client \<Rightarrow> bap_session \<Rightarrow> bytes list \<Rightarrow> decoded_frame list \<Rightarrow> bool" where
  "client_at P c x sent fs \<longleftrightarrow>
     rc_writes c = [] \<and> rc_sent c = sent \<and> dir_synced ClientToServer x (rc_session c)
     \<and> context_valid (bs_crypto (rc_session c)) \<and> sd_max_body_len (rc_decoder c) = MAX_BODY_LEN
     \<and> head_of MAX_BODY_LEN (sd_buf (rc_decoder c)) = HWait
     \<and> (\<exists>stream cs rs gs b. rc_stream c = Some stream \<and> event_script REPLAY_READ_BUF stream = map Inr cs
          \<and> (\<forall>r \<in> set rs. raw_wf MAX_BODY_LEN r)
          \<and> sd_buf (rc_decoder c) @ concat cs = concat (map rf_raw_bytes rs)
          \<and> recv_all (bap_recv P) (rc_session c) (raw_wires rs) = (Inr gs, b)
          \<and> fs = rev (rc_pending c) @ gs)"

lemma client_at_set_sim [simp]: "client_at P (set_sim s c) x sent fs = client_at P c x sent fs"
  by (simp add: client_at_def set_sim_def)

lemma read_loop_delivers:
  assumes "rc_writes c = []" "rc_sent c = sent" "dir_synced ClientToServer x (rc_session c)"
    and "context_valid (bs_crypto (rc_session c))" "sd_max_body_len (rc_decoder c) = MAX_BODY_LEN"
    and "head_of MAX_BODY_LEN (sd_buf (rc_decoder c)) = HWait" "rc_pending c = []"
    and "event_script REPLAY_READ_BUF stream = map Inr cs" "\<forall>r \<in> set rs. raw_wf MAX_BODY_LEN r"
    and "sd_buf (rc_decoder c) @ concat cs = concat (map rf_raw_bytes rs)"
    and "recv_all (bap_recv P) (rc_session c) (raw_wires rs) = (Inr (f # fs), b)"
  shows "\<exists>c'. read_loop P stream c = (Inr f, c') \<and> client_at P c' x sent fs
     \<and> rc_sim_state c' = rc_sim_state c"
  using assms
proof (induction cs arbitrary: stream c rs)
  case Nil
  have "rs \<noteq> []" using Nil.prems(11) by (auto simp: raw_wires_def)
  then obtain r gs where "rs = r # gs" by (cases rs) auto
  with Nil.prems(6,9,10) head_of_raw [of MAX_BODY_LEN r "concat (map rf_raw_bytes gs)"] show ?case
    by simp
next
  case (Cons bs cs)
  let ?m = MAX_BODY_LEN
  obtain stream' where rd: "stream_read REPLAY_READ_BUF stream = (Inr bs, stream')" "bs \<noteq> []"
      "event_script REPLAY_READ_BUF stream' = map Inr cs"
    using stream_read_script(2) [of REPLAY_READ_BUF stream bs "map Inr cs"] Cons.prems(8)
    by (cases "stream_read REPLAY_READ_BUF stream") (simp add: REPLAY_READ_BUF_def)
  have "(sd_buf (rc_decoder c) @ bs) @ concat cs = concat (map rf_raw_bytes rs)"
    using Cons.prems(10) by simp
  from drain_prefix [OF Cons.prems(9) this] obtain ks gs rest where
    ks: "drain_loop ?m (sd_buf (rc_decoder c) @ bs) = (Inr ks, rest)" "rs = ks @ gs"
      "rest @ concat cs = concat (map rf_raw_bytes gs)"
    by blast
  define d where "d = (rc_decoder c)\<lparr>sd_buf := rest\<rparr>"
  have push: "decoder_push (rc_decoder c) bs = (Inr ks, d)"
    using ks(1) Cons.prems(5) by (simp add: decoder_push_eq d_def)
  from Cons.prems(11) obtain us vs s where
    us: "recv_all (bap_recv P) (rc_session c) (raw_wires ks) = (Inr us, s)"
      "recv_all (bap_recv P) s (raw_wires gs) = (Inr vs, b)" "f # fs = us @ vs"
    using recv_all_appendD [of "bap_recv P" "rc_session c" "raw_wires ks" "raw_wires gs" "f # fs" b] ks(2)
    by (auto simp: raw_wires_def)
  note batch = decode_batch_recv [OF us(1)]
  have s: "context_valid (bs_crypto s)" "dir_synced ClientToServer x s"
    using decode_batch_keeps [OF Cons.prems(4), of P ks x] batch Cons.prems(3) by simp_all
  let ?c = "c\<lparr>rc_stream := Some stream', rc_decoder := d, rc_session := s\<rparr>"
  have wait: "head_of ?m (sd_buf d) = HWait" using drain_residual_waits [OF ks(1)] by (simp add: d_def)
  have wf: "\<forall>r \<in> set gs. raw_wf ?m r" using Cons.prems(9) ks(2) by simp
  have md: "sd_max_body_len d = ?m" "sd_buf d @ concat cs = concat (map rf_raw_bytes gs)"
    using Cons.prems(5) ks(3) by (simp_all add: d_def)
  show ?case
  proof (cases us)
    case Nil
    have "\<exists>c'. read_loop P stream' ?c = (Inr f, c') \<and> client_at P c' x sent fs
       \<and> rc_sim_state c' = rc_sim_state ?c"
      by (rule Cons.IH [where rs = gs])
         (use Cons.prems us Nil rd(3) s wait wf md in simp_all)
    then show ?thesis
      using rd(1,2) push batch Nil by (simp add: read_loop.simps [of P stream c])
  next
    case (Cons u us')
    have "client_at P (?c\<lparr>rc_pending := rev us'\<rparr>) x sent fs"
      unfolding client_at_def
      using \<open>rc_writes c = []\<close> \<open>rc_sent c = sent\<close> s wait wf md rd(3) us(2,3) Cons
      by (auto intro!: exI [of _ cs] exI [of _ gs])
    then show ?thesis
      using rd(1,2) push batch Cons us(3) \<open>rc_pending c = []\<close>
      by (simp add: read_loop.simps [of P stream c])
  qed
qed

lemma read_frame_delivers:
  assumes "client_at P c x sent (f # fs)"
  obtains c' where "read_frame P c = (Inr f, c')" "client_at P c' x sent fs" "rc_sim_state c' = rc_sim_state c"
proof (cases "rc_pending c" rule: rev_cases)
  case Nil
  with assms obtain stream cs rs b where "rc_stream c = Some stream"
      "event_script REPLAY_READ_BUF stream = map Inr cs" "\<forall>r \<in> set rs. raw_wf MAX_BODY_LEN r"
      "sd_buf (rc_decoder c) @ concat cs = concat (map rf_raw_bytes rs)"
      "recv_all (bap_recv P) (rc_session c) (raw_wires rs) = (Inr (f # fs), b)"
    by (auto simp: client_at_def)
  note st = this
  have "\<exists>c'. read_loop P stream c = (Inr f, c') \<and> client_at P c' x sent fs \<and> rc_sim_state c' = rc_sim_state c"
    by (rule read_loop_delivers [where rs = rs, OF _ _ _ _ _ _ Nil st(2-5)])
       (use assms in \<open>simp_all add: client_at_def\<close>)
  with st(1) Nil that show thesis by (auto simp: read_frame_def)
next
  case (snoc ps p)
  from assms obtain stream cs rs gs b where st: "rc_stream c = Some stream"
      "event_script REPLAY_READ_BUF stream = map Inr cs" "\<forall>r \<in> set rs. raw_wf MAX_BODY_LEN r"
      "sd_buf (rc_decoder c) @ concat cs = concat (map rf_raw_bytes rs)"
      "recv_all (bap_recv P) (rc_session c) (raw_wires rs) = (Inr gs, b)"
      "f # fs = rev (rc_pending c) @ gs"
    unfolding client_at_def by blast
  have p: "p = f" "fs = rev ps @ gs" using st(6) snoc by simp_all
  have "client_at P (c\<lparr>rc_pending := ps\<rparr>) x sent fs"
    unfolding client_at_def
    by (intro conjI exI [of _ stream] exI [of _ cs] exI [of _ rs] exI [of _ gs] exI [of _ b])
       (use assms st p in \<open>simp_all add: client_at_def\<close>)
  then show thesis using that [of "c\<lparr>rc_pending := ps\<rparr>"] snoc p(1) by (simp add: read_frame_def)
qed

section \<open>Sending\<close>

lemma client_at_sent:
  assumes "client_at P c x sent fs" "bap_send P x m = Some (w, x')" "bo_direction m = ClientToServer"
  obtains s where "bap_send P (rc_session c) m = Some (w, s)"
    "client_at P (c\<lparr>rc_session := s, rc_sent := sent @ [snd w]\<rparr>) x' (sent @ [snd w]) fs"
proof -
  from assms(1) obtain stream cs rs gs b where st: "rc_stream c = Some stream"
      "event_script REPLAY_READ_BUF stream = map Inr cs" "\<forall>r \<in> set rs. raw_wf MAX_BODY_LEN r"
      "sd_buf (rc_decoder c) @ concat cs = concat (map rf_raw_bytes rs)"
      "recv_all (bap_recv P) (rc_session c) (raw_wires rs) = (Inr gs, b)"
      "fs = rev (rc_pending c) @ gs"
    unfolding client_at_def by blast
  have c: "dir_synced ClientToServer x (rc_session c)" "context_valid (bs_crypto (rc_session c))"
    using assms(1) by (simp_all add: client_at_def)
  from send_synced [of m x "rc_session c" P w x'] assms(2,3) c(1) obtain s where
    s: "bap_send P (rc_session c) m = Some (w, s)" "dir_synced ClientToServer x' s"
       "s = rc_session c \<or> s = advance (rc_session c) ClientToServer"
    by auto
  have v: "context_valid (bs_crypto s)" using s(3) c(2) context_valid_next [OF c(2), of ClientToServer] by auto
  have "dir_synced ServerToClient (rc_session c) (rc_session c)" by (simp add: dir_synced_def)
  then have "dir_synced ServerToClient (rc_session c) s"
    using s(3) dir_synced_advance(3) [of ServerToClient ClientToServer] by auto
  from recv_synced [OF this _ st(5)] obtain b' where
    b': "recv_all (bap_recv P) s (raw_wires rs) = (Inr gs, b')"
    by (auto simp: raw_wires_def)
  have "client_at P (c\<lparr>rc_session := s, rc_sent := sent @ [snd w]\<rparr>) x' (sent @ [snd w]) fs"
    unfolding client_at_def
    by (intro conjI exI [of _ stream] exI [of _ cs] exI [of _ rs] exI [of _ gs] exI [of _ b'])
       (use assms st s(2) v b' in \<open>simp_all add: client_at_def\<close>)
  then show thesis using that s(1) by blast
qed

lemma send_raw_connected:
  "client_at P c x sent fs \<Longrightarrow> send_raw bs c = (Inr (), c\<lparr>rc_sent := sent @ [bs]\<rparr>)"
  by (auto simp: client_at_def send_raw_def)

lemma send_clear_delivers:
  assumes "client_at P c x sent fs" "bap_send P x \<lparr>bo_encrypted = False, bo_direction = ClientToServer,
      bo_msg_id = i, bo_context = k, bo_payload = p\<rparr> = Some (w, x')"
  obtains c' where "send_clear i k p c = Some (Inr (), c')" "client_at P c' x' (sent @ [snd w]) fs"
    "rc_sim_state c' = rc_sim_state c"
proof -
  obtain s where s: "bap_send P (rc_session c) \<lparr>bo_encrypted = False, bo_direction = ClientToServer,
      bo_msg_id = i, bo_context = k, bo_payload = p\<rparr> = Some (w, s)"
      "client_at P (c\<lparr>rc_session := s, rc_sent := sent @ [snd w]\<rparr>) x' (sent @ [snd w]) fs"
    using client_at_sent [OF assms] by auto
  then have "encode_clear i k p = Some (snd w)" "s = rc_session c"
    by (auto simp: bap_send_def split: option.splits)
  then show thesis
    using that [of "c\<lparr>rc_sent := sent @ [snd w]\<rparr>"] s(2) send_raw_connected [OF assms(1)]
    by (simp add: send_clear_def)
qed

lemma send_encrypted_delivers:
  assumes "client_at P c x sent fs" "bap_send P x \<lparr>bo_encrypted = True, bo_direction = ClientToServer,
      bo_msg_id = i, bo_context = k, bo_payload = p\<rparr> = Some (w, x')"
  obtains c' where "send_encrypted P i k p c = Some (Inr (), c')" "client_at P c' x' (sent @ [snd w]) fs"
    "rc_sim_state c' = rc_sim_state c"
proof -
  obtain s where s: "bap_send P (rc_session c) \<lparr>bo_encrypted = True, bo_direction = ClientToServer,
      bo_msg_id = i, bo_context = k, bo_payload = p\<rparr> = Some (w, s)"
      "client_at P (c\<lparr>rc_session := s, rc_sent := sent @ [snd w]\<rparr>) x' (sent @ [snd w]) fs"
    using client_at_sent [OF assms] by auto
  then have "encode_encrypted P (rc_session c) ClientToServer i k p = Some (Inr (snd w), s)"
    by (auto simp: bap_send_def split: option.splits sum.splits)
  moreover have "send_raw bs (c\<lparr>rc_session := s\<rparr>) = (Inr (), c\<lparr>rc_session := s, rc_sent := sent @ [bs]\<rparr>)" for bs
    using assms(1) by (auto simp: client_at_def send_raw_def)
  ultimately show thesis
    using that [of "c\<lparr>rc_session := s, rc_sent := sent @ [snd w]\<rparr>"] s(2)
    by (simp add: send_encrypted_def)
qed

section \<open>The whole exchange\<close>

text \<open>What the client sends in \<open>run_handshake\<close> and then in \<open>run_encrypted_sequence\<close>.\<close>

definition sim_out :: "bool \<Rightarrow> u16 \<Rightarrow> bytes \<Rightarrow> bap_out" where
  "sim_out enc i p =
     \<lparr>bo_encrypted = enc, bo_direction = ClientToServer, bo_msg_id = i, bo_context = SIM_CONTEXT, bo_payload = p\<rparr>"

definition sim_messages :: "bap_out list" where
  "sim_messages =
     [sim_out False MSG_1E PAYLOAD_1E, sim_out False MSG_19 PAYLOAD_19, sim_out True MSG_79 PAYLOAD_79,
      sim_out True MSG_SYN_A PAYLOAD_SYN_A, sim_out True MSG_SYN_B PAYLOAD_SYN_B]"

text \<open>What the server answers, as the client sees it.\<close>

definition sim_replies :: "decoded_frame list" where
  "sim_replies =
     [DClear MSG_1F SIM_CONTEXT PAYLOAD_1F, DClear MSG_1A SIM_CONTEXT PAYLOAD_1A,
      DDecrypted (Some MSG_7A) (Some SIM_CONTEXT) PAYLOAD_7A (6 + length PAYLOAD_7A),
      DDecrypted (Some MSG_SYN_A_RSP) (Some SIM_CONTEXT) PAYLOAD_SYN_A_RSP (6 + length PAYLOAD_SYN_A_RSP),
      DDecrypted (Some MSG_SYN_B_RSP) (Some SIM_CONTEXT) PAYLOAD_SYN_B_RSP (6 + length PAYLOAD_SYN_B_RSP)]"

lemma expect_ok [simp]:
  "expect_clear (DClear i k p) i = Inr ()" "expect_decrypted (DDecrypted (Some i) kk p n) i = Inr ()"
  by (simp_all add: expect_clear_def expect_decrypted_def)

lemma set_sim_same [simp]: "set_sim (rc_sim_state c) c = c"
  by (simp add: set_sim_def)

lemma rc_sim_set_sim [simp]: "rc_sim_state (set_sim s c) = s"
  by (simp add: set_sim_def)

text \<open>One question and its answer.\<close>

lemma ask_clear:
  assumes "client_at P c x sent (f # fs)" "bap_send P x (sim_out False i p) = Some (w, x')"
  obtains c1 c2 where "send_clear i SIM_CONTEXT p c = Some (Inr (), c1)"
    "read_frame P (set_sim st c1) = (Inr f, c2)" "client_at P c2 x' (sent @ [snd w]) fs"
proof -
  obtain c1 where c1: "send_clear i SIM_CONTEXT p c = Some (Inr (), c1)"
      "client_at P c1 x' (sent @ [snd w]) (f # fs)"
    using send_clear_delivers [OF assms(1) assms(2) [unfolded sim_out_def]] by blast
  then have "client_at P (set_sim st c1) x' (sent @ [snd w]) (f # fs)" by simp
  then obtain c2 where "read_frame P (set_sim st c1) = (Inr f, c2)" "client_at P c2 x' (sent @ [snd w]) fs"
    by (rule read_frame_delivers)
  with c1(1) show thesis by (rule that)
qed

lemma ask_encrypted:
  assumes "client_at P c x sent (f # fs)" "bap_send P x (sim_out True i p) = Some (w, x')"
  obtains c1 c2 where "send_encrypted P i SIM_CONTEXT p c = Some (Inr (), c1)"
    "read_frame P (set_sim st c1) = (Inr f, c2)" "client_at P c2 x' (sent @ [snd w]) fs"
    "rc_sim_state c1 = rc_sim_state c" "rc_sim_state c2 = st"
proof -
  obtain c1 where c1: "send_encrypted P i SIM_CONTEXT p c = Some (Inr (), c1)"
      "client_at P c1 x' (sent @ [snd w]) (f # fs)" "rc_sim_state c1 = rc_sim_state c"
    using send_encrypted_delivers [OF assms(1) assms(2) [unfolded sim_out_def]] by blast
  then have "client_at P (set_sim st c1) x' (sent @ [snd w]) (f # fs)" by simp
  then obtain c2 where "read_frame P (set_sim st c1) = (Inr f, c2)" "client_at P c2 x' (sent @ [snd w]) fs"
      "rc_sim_state c2 = rc_sim_state (set_sim st c1)"
    by (rule read_frame_delivers)
  with c1 show thesis using that by simp
qed

lemma handshake_exchange:
  assumes "client_at P c x [] (DClear MSG_1F k1 p1 # DClear MSG_1A k2 p2 # DDecrypted (Some MSG_7A) k3 p3 n # fs)"
    and "bap_send P x (sim_out False MSG_1E PAYLOAD_1E) = Some (w1, x1)"
    and "bap_send P x1 (sim_out False MSG_19 PAYLOAD_19) = Some (w2, x2)"
    and "bap_send P x2 (sim_out True MSG_79 PAYLOAD_79) = Some (w3, x3)"
  obtains c' where "run_handshake P c = Some (Inr (), c')" "rc_sim_state c' = SimReady"
    "client_at P c' x3 [snd w1, snd w2, snd w3] fs"
proof -
  from ask_clear [OF assms(1,2), of Sim1eSent] obtain a1 a2 where
    a: "send_clear MSG_1E SIM_CONTEXT PAYLOAD_1E c = Some (Inr (), a1)"
      "read_frame P (set_sim Sim1eSent a1) = (Inr (DClear MSG_1F k1 p1), a2)"
      "client_at P (set_sim Sim1fSent a2) x1 ([] @ [snd w1]) (DClear MSG_1A k2 p2 # DDecrypted (Some MSG_7A) k3 p3 n # fs)"
    by auto
  from ask_clear [OF a(3) assms(3), of Sim19Sent] obtain b1 b2 where
    b: "send_clear MSG_19 SIM_CONTEXT PAYLOAD_19 (set_sim Sim1fSent a2) = Some (Inr (), b1)"
      "read_frame P (set_sim Sim19Sent b1) = (Inr (DClear MSG_1A k2 p2), b2)"
      "client_at P (set_sim Sim1aSent b2) x2 (([] @ [snd w1]) @ [snd w2]) (DDecrypted (Some MSG_7A) k3 p3 n # fs)"
    by auto
  from ask_encrypted [OF b(3) assms(4), of Sim79Sent] obtain d1 d2 where
    d: "send_encrypted P MSG_79 SIM_CONTEXT PAYLOAD_79 (set_sim Sim1aSent b2) = Some (Inr (), d1)"
      "read_frame P (set_sim Sim79Sent d1) = (Inr (DDecrypted (Some MSG_7A) k3 p3 n), d2)"
      "client_at P d2 x3 ((([] @ [snd w1]) @ [snd w2]) @ [snd w3]) fs"
    by blast
  show thesis
    using that [of "set_sim SimReady (set_sim Sim7aSent d2)"] d(3)
    by (simp add: run_handshake_def a(1,2) b(1,2) d(1,2))
qed

lemma sequence_exchange:
  assumes "client_at P c x sent [DDecrypted (Some MSG_SYN_A_RSP) k1 p1 n1, DDecrypted (Some MSG_SYN_B_RSP) k2 p2 n2]"
    and "bap_send P x (sim_out True MSG_SYN_A PAYLOAD_SYN_A) = Some (w1, x1)"
    and "bap_send P x1 (sim_out True MSG_SYN_B PAYLOAD_SYN_B) = Some (w2, x2)"
    and "rc_sim_state c = SimReady"
  obtains c' where "run_encrypted_sequence P c = Some (Inr (), c')" "rc_sim_state c' = SimReady"
    "rc_sent c' = sent @ [snd w1, snd w2]"
proof -
  from ask_encrypted [OF assms(1,2), of SimReady] obtain a1 a2 where
    a: "send_encrypted P MSG_SYN_A SIM_CONTEXT PAYLOAD_SYN_A c = Some (Inr (), a1)"
      "read_frame P (set_sim SimReady a1) = (Inr (DDecrypted (Some MSG_SYN_A_RSP) k1 p1 n1), a2)"
      "client_at P a2 x1 (sent @ [snd w1]) [DDecrypted (Some MSG_SYN_B_RSP) k2 p2 n2]"
      "set_sim SimReady a1 = a1" "rc_sim_state a2 = SimReady"
    using assms(4) set_sim_same by metis
  from ask_encrypted [OF a(3) assms(3), of SimReady] obtain b1 b2 where
    b: "send_encrypted P MSG_SYN_B SIM_CONTEXT PAYLOAD_SYN_B a2 = Some (Inr (), b1)"
      "read_frame P (set_sim SimReady b1) = (Inr (DDecrypted (Some MSG_SYN_B_RSP) k2 p2 n2), b2)"
      "client_at P b2 x2 ((sent @ [snd w1]) @ [snd w2]) []"
      "set_sim SimReady b1 = b1" "rc_sim_state b2 = SimReady"
    using a(5) set_sim_same by metis
  have "rc_sent b2 = sent @ [snd w1, snd w2]" using b(3) by (simp add: client_at_def)
  with b(5) show thesis
    using that [of b2] a(2) b(2)
    by (simp add: run_encrypted_sequence_def assms(4) a(1,4) b(1,4))
qed

lemma client_exchange:
  assumes "client_at P c x [] sim_replies" "send_all (bap_send P) x sim_messages = Some (ws, x')"
  shows "\<exists>c1 c2. run_handshake P c = Some (Inr (), c1)
     \<and> run_encrypted_sequence P c1 = Some (Inr (), c2) \<and> rc_sim_state c2 = SimReady \<and> rc_sent c2 = map snd ws"
proof -
  from assms(2) obtain w1 x1 w2 x2 w3 x3 w4 x4 w5 where
    s: "bap_send P x (sim_out False MSG_1E PAYLOAD_1E) = Some (w1, x1)"
      "bap_send P x1 (sim_out False MSG_19 PAYLOAD_19) = Some (w2, x2)"
      "bap_send P x2 (sim_out True MSG_79 PAYLOAD_79) = Some (w3, x3)"
      "bap_send P x3 (sim_out True MSG_SYN_A PAYLOAD_SYN_A) = Some (w4, x4)"
      "bap_send P x4 (sim_out True MSG_SYN_B PAYLOAD_SYN_B) = Some (w5, x')"
    and ws: "ws = [w1, w2, w3, w4, w5]"
    by (auto simp: sim_messages_def split: option.splits)
  from handshake_exchange [OF assms(1) [unfolded sim_replies_def] s(1-3)] obtain c1 where
    c1: "run_handshake P c = Some (Inr (), c1)" "rc_sim_state c1 = SimReady"
      "client_at P c1 x3 [snd w1, snd w2, snd w3]
         [DDecrypted (Some MSG_SYN_A_RSP) (Some SIM_CONTEXT) PAYLOAD_SYN_A_RSP (6 + length PAYLOAD_SYN_A_RSP),
          DDecrypted (Some MSG_SYN_B_RSP) (Some SIM_CONTEXT) PAYLOAD_SYN_B_RSP (6 + length PAYLOAD_SYN_B_RSP)]"
    by blast
  from sequence_exchange [OF c1(3) s(4,5) c1(2)] c1(1) show ?thesis
    by (auto simp: ws)
qed

text \<open>The abstract server answers these messages with these replies.\<close>

lemma sim_policy:
  "\<exists>outs. policy_run response_policy_default WaitingForServiceHandshake (map logical sim_messages)
      = Some (outs, Active) \<and> map bap_view outs = sim_replies"
proof -
  have "map_option (\<lambda>(outs, t). (map bap_view outs, t))
      (policy_run response_policy_default WaitingForServiceHandshake (map logical sim_messages))
      = Some (sim_replies, Active)"
    by code_simp
  then show ?thesis unfolding map_option_eq_Some by auto
qed

lemma client_at_start:
  assumes "aead_ok P" "replay_with_keys key nonce = Inr c0"
    and "send_all (bap_send P) (rc_session c0) ms = Some (ws, s')" "\<forall>m \<in> set ms. bo_direction m = ClientToServer"
    and "recv_all (bap_recv P) s' (wire_pairs bss) = (Inr fs, x)"
    and "\<forall>bs \<in> set bss. raw_wf MAX_BODY_LEN (sent_raw bs)"
    and "event_script REPLAY_READ_BUF stream = map Inr ds" "concat ds = concat bss"
  shows "client_at P (snd (replay_connect (Inr (stream, [])) c0)) (rc_session c0) [] fs"
proof -
  have new: "bap_session_new key nonce = Inr (rc_session c0)" "rc_decoder c0 = decoder_new"
      "rc_pending c0 = []" "rc_sent c0 = []"
    using assms(2) by (auto simp: replay_with_keys_def split: sum.splits)
  have v: "context_valid (bs_crypto (rc_session c0))" by (rule bap_session_new_valid [OF new(1)])
  have "dir_synced ServerToClient s' (rc_session c0)"
    using send_all_other_direction [OF assms(3,4) _ v, of ServerToClient] by (simp add: dir_synced_def)
  moreover have w: "wire_pairs bss = raw_wires (map sent_raw bss)" "\<forall>w \<in> set (wire_pairs bss). fst w = ServerToClient"
    by (auto simp: wire_pairs_def raw_wires_def sent_raw_def)
  ultimately obtain b where b: "recv_all (bap_recv P) (rc_session c0) (raw_wires (map sent_raw bss)) = (Inr fs, b)"
    using recv_synced [OF _ w(2) assms(5)] by auto
  show ?thesis
    unfolding client_at_def
    by (intro conjI exI [of _ stream] exI [of _ ds] exI [of _ "map sent_raw bss"] exI [of _ fs] exI [of _ b])
       (use assms(6-8) new v b in \<open>simp_all add: replay_connect_def dir_synced_def decoder_new_def head_of_def
           sent_raw_def comp_def\<close>)
qed

lemma sim_messages_fit: "\<forall>m \<in> set sim_messages. bap_fits m \<and> bo_direction m = ClientToServer"
  by (simp add: sim_messages_def sim_out_def bap_fits_def MAX_BODY_LEN_def payload_consts ascii_def)

section \<open>Properties\<close>

text \<open>
  C1. Client and server meet: when the server reads the bytes that the client of the same key
  and nonce writes in \<open>run_handshake\<close> and \<open>run_encrypted_sequence\<close>, cut anywhere, its connection
  ends normally, and the client that reads the server's bytes, cut anywhere, completes both
  functions without an error, is in \<open>SIM_READY\<close> and has written exactly those bytes.
\<close>

theorem client_meets_server:
  assumes "aead_ok P" "replay_with_keys key nonce = Inr c0"
    and "send_all (bap_send P) (rc_session c0) sim_messages = Some (ws, s')"
    and "event_script READ_BUF_LEN srv_stream = map Inr cs" "concat cs = concat (map snd ws)"
  shows "\<exists>conn. handle_connection P i srv_stream [] key nonce traces = Some (Inr (Inr (), conn))
     \<and> (\<forall>stream ds. event_script REPLAY_READ_BUF stream = map Inr ds \<and> concat ds = concat (cn_sent conn) \<longrightarrow>
         (\<exists>c1 c2. run_handshake P (snd (replay_connect (Inr (stream, [])) c0)) = Some (Inr (), c1)
            \<and> run_encrypted_sequence P c1 = Some (Inr (), c2)
            \<and> rc_sim_state c2 = SimReady \<and> rc_sent c2 = map snd ws))"
proof -
  have new: "bap_session_new key nonce = Inr (rc_session c0)"
    using assms(2) by (auto simp: replay_with_keys_def split: sum.splits)
  obtain outs where outs: "policy_run response_policy_default WaitingForServiceHandshake (map logical sim_messages)
      = Some (outs, Active)" "map bap_view outs = sim_replies"
    using sim_policy by blast
  obtain conn x where conn: "handle_connection P i srv_stream [] key nonce traces = Some (Inr (Inr (), conn))"
      "recv_all (bap_recv P) s' (wire_pairs (cn_sent conn)) = (Inr sim_replies, x)"
      "\<forall>bs \<in> set (cn_sent conn). raw_wf MAX_BODY_LEN (sent_raw bs)"
    using handle_connection_policy [OF assms(1) new sim_messages_fit assms(3-5) outs(1), of i traces]
    unfolding outs(2) by blast
  have "client_at P (snd (replay_connect (Inr (stream, [])) c0)) (rc_session c0) [] sim_replies"
    if "event_script REPLAY_READ_BUF stream = map Inr ds" "concat ds = concat (cn_sent conn)" for stream ds
    using client_at_start [OF assms(1-3) _ conn(2,3) that] sim_messages_fit by blast
  then show ?thesis using conn(1) client_exchange [OF _ assms(3)] by blast
qed

lemma replay_script_bytewise:
  "event_script REPLAY_READ_BUF (map (\<lambda>b. IoData [b]) bs) = map Inr (map (\<lambda>b. [b]) bs)"
  by (induction bs) (simp_all add: event_script.simps(3) REPLAY_READ_BUF_def)

text \<open>Both sides read byte by byte, with the demonstration cipher.\<close>

theorem client_meets_server_witness:
  "\<exists>c0 ws s' conn c1 c2. replay_with_synthetic = Inr c0
     \<and> send_all (bap_send demo_aead) (rc_session c0) sim_messages = Some (ws, s')
     \<and> handle_connection demo_aead 1 (map (\<lambda>b. IoData [b]) (concat (map snd ws))) []
         SYNTHETIC_SESSION_KEY SYNTHETIC_SESSION_NONCE [] = Some (Inr (Inr (), conn))
     \<and> run_handshake demo_aead
         (snd (replay_connect (Inr (map (\<lambda>b. IoData [b]) (concat (cn_sent conn)), [])) c0)) = Some (Inr (), c1)
     \<and> run_encrypted_sequence demo_aead c1 = Some (Inr (), c2) \<and> rc_sim_state c2 = SimReady"
proof -
  have flat: "concat (map (\<lambda>b. [b]) bs) = bs" for bs :: bytes by (induction bs) simp_all
  obtain s where s: "bap_session_new SYNTHETIC_SESSION_KEY SYNTHETIC_SESSION_NONCE = Inr s"
    using context_new_ok [of SYNTHETIC_SESSION_KEY SYNTHETIC_SESSION_NONCE]
    by (auto simp: bap_session_new_def SYNTHETIC_SESSION_KEY_def SYNTHETIC_SESSION_NONCE_def)
  then obtain c0 where c0: "replay_with_keys SYNTHETIC_SESSION_KEY SYNTHETIC_SESSION_NONCE = Inr c0" "rc_session c0 = s"
    by (simp add: replay_with_keys_def)
  obtain ws s' where ws: "send_all (bap_send demo_aead) (rc_session c0) sim_messages = Some (ws, s')"
    using bap.deliver_all [OF bap_session_new_synced [OF demo_aead_ok s], of sim_messages]
      sim_messages_fit bap_fits_sendable c0(2) by blast
  from client_meets_server [OF demo_aead_ok c0(1) ws event_script_bytewise flat, of 1 "[]"]
  obtain conn where conn: "handle_connection demo_aead 1 (map (\<lambda>b. IoData [b]) (concat (map snd ws))) []
         SYNTHETIC_SESSION_KEY SYNTHETIC_SESSION_NONCE [] = Some (Inr (Inr (), conn))"
    and "\<exists>c1 c2. run_handshake demo_aead
         (snd (replay_connect (Inr (map (\<lambda>b. IoData [b]) (concat (cn_sent conn)), [])) c0)) = Some (Inr (), c1)
       \<and> run_encrypted_sequence demo_aead c1 = Some (Inr (), c2) \<and> rc_sim_state c2 = SimReady"
    using replay_script_bytewise flat by blast
  then show ?thesis using c0(1) ws unfolding replay_with_synthetic_def by blast
qed

end
