(* ===== verification/External_Boundary.thy ===== *)
theory External_Boundary
  imports Local_Server
begin

text \<open>
  \<open>network/src/external_client_boundary.rs\<close>: one connection of the external boundary, the
  thread that serves it and the event collector the threads share. Where a stream is attached
  its writes go to a script of outcomes; otherwise replies queue up in \<open>outbound\<close>. \<open>None\<close> is a
  panic. The theory compares the boundary with the local server, frame by frame.
\<close>

section \<open>Addresses\<close>

datatype ip_addr = IPv4 u8 u8 u8 u8 | IPv6 "u16 list"

record socket_addr =
  sa_ip :: ip_addr
  sa_port :: u16

text \<open>The longest run of zero segments, the first of them on a tie, as start and length.\<close>

fun zero_span :: "nat \<Rightarrow> nat \<times> nat \<Rightarrow> nat \<times> nat \<Rightarrow> u16 list \<Rightarrow> nat \<times> nat" where
  "zero_span i cur best [] = best"
| "zero_span i (cs, cl) (bs, bl) (x # xs) =
     (if x = 0 then
        (let cs' = (if cl = 0 then i else cs) in
         zero_span (i + 1) (cs', cl + 1) (if cl + 1 > bl then (cs', cl + 1) else (bs, bl)) xs)
      else zero_span (i + 1) (0, 0) (bs, bl) xs)"

definition show_ipv4 :: "nat list \<Rightarrow> string" where
  "show_ipv4 xs = join_with ''.'' (map show_nat xs)"

definition show_ipv6 :: "u16 list \<Rightarrow> string" where
  "show_ipv6 segs =
     (if length segs = 8 \<and> take 5 segs = replicate 5 0 \<and> segs ! 5 = 0xFFFF
      then ''::ffff:'' @ show_ipv4 [unat (segs ! 6) div 256, unat (segs ! 6) mod 256,
                                    unat (segs ! 7) div 256, unat (segs ! 7) mod 256]
      else let span = zero_span 0 (0, 0) (0, 0) segs;
               txt = (\<lambda>ss. join_with '':'' (map (\<lambda>s. hex_lower (unat s)) ss))
      in if snd span > 1
         then txt (take (fst span) segs) @ ''::'' @ txt (drop (fst span + snd span) segs)
         else txt segs)"

fun show_ip :: "ip_addr \<Rightarrow> string" where
  "show_ip (IPv4 a b c d) = show_ipv4 (map unat [a, b, c, d])"
| "show_ip (IPv6 segs) = show_ipv6 segs"

section \<open>Data\<close>

definition DEFAULT_MAX_CONNECTIONS :: nat where "DEFAULT_MAX_CONNECTIONS = 8"
definition DEFAULT_MAX_READ_CHUNK :: nat where "DEFAULT_MAX_READ_CHUNK = 4096"
definition DEFAULT_MAX_BUFFERED :: nat where "DEFAULT_MAX_BUFFERED = MAX_BODY_LEN + 64"
definition DEFAULT_MAX_FRAMES_PER_ITER :: nat where "DEFAULT_MAX_FRAMES_PER_ITER = 64"

datatype ext_state = XAccepted | XReading | XProtocolActive | XClosing | XClosed

fun ext_state_str :: "ext_state \<Rightarrow> string" where
  "ext_state_str XAccepted = ''ACCEPTED''"
| "ext_state_str XReading = ''READING''"
| "ext_state_str XProtocolActive = ''PROTOCOL_ACTIVE''"
| "ext_state_str XClosing = ''CLOSING''"
| "ext_state_str XClosed = ''CLOSED''"

datatype boundary_error =
    BeExternalEndpoint string
  | BeBind string
  | BeAccept string
  | BeIo string
  | BeLimitExceeded string
  | BeFraming string
  | BeCrypto string
  | BeProtocol string
  | BeAlreadyClosed
  | BeNotConnected

fun show_boundary_error :: "boundary_error \<Rightarrow> string" where
  "show_boundary_error (BeExternalEndpoint s) = ''external bind/connect rejected: '' @ s"
| "show_boundary_error (BeBind s) = ''bind failed: '' @ s"
| "show_boundary_error (BeAccept s) = ''accept failed: '' @ s"
| "show_boundary_error (BeIo s) = ''io: '' @ s"
| "show_boundary_error (BeLimitExceeded s) = ''limit exceeded: '' @ s"
| "show_boundary_error (BeFraming s) = ''framing: '' @ s"
| "show_boundary_error (BeCrypto s) = ''crypto: '' @ s"
| "show_boundary_error (BeProtocol s) = ''protocol: '' @ s"
| "show_boundary_error BeAlreadyClosed = ''already closed''"
| "show_boundary_error BeNotConnected = ''not connected''"

datatype error_category = CatFraming | CatProtocol | CatCrypto | CatLimit | CatIo | CatOther

fun error_category_str :: "error_category \<Rightarrow> string" where
  "error_category_str CatFraming = ''Framing''"
| "error_category_str CatProtocol = ''Protocol''"
| "error_category_str CatCrypto = ''Crypto''"
| "error_category_str CatLimit = ''Limit''"
| "error_category_str CatIo = ''Io''"
| "error_category_str CatOther = ''Other''"

datatype boundary_event =
    ConnectionAccepted u64
  | BytesReceived u64 nat
  | FrameRecovered u64 u64 string u8 nat
  | FrameRejected u64 string string
  | ProtocolNote u64 string string
  | ConnectionError u64 string string
  | ConnectionClosed u64 string

fun event_id :: "boundary_event \<Rightarrow> u64" where
  "event_id (ConnectionAccepted c) = c"
| "event_id (BytesReceived c n) = c"
| "event_id (FrameRecovered c i d k n) = c"
| "event_id (FrameRejected c a b) = c"
| "event_id (ProtocolNote c a b) = c"
| "event_id (ConnectionError c a b) = c"
| "event_id (ConnectionClosed c a) = c"

definition show_id :: "u64 \<Rightarrow> string" where "show_id c = show_nat (unat c)"

fun boundary_label :: "boundary_event \<Rightarrow> string" where
  "boundary_label (ConnectionAccepted c) = ''ConnectionAccepted id='' @ show_id c"
| "boundary_label (BytesReceived c n) = ''BytesReceived id='' @ show_id c @ '' len='' @ show_nat n"
| "boundary_label (FrameRecovered c i d k n) =
     ''FrameRecovered id='' @ show_id c @ '' idx='' @ show_id i @ '' dir='' @ d
     @ '' kind='' @ show_nat (unat k) @ '' body_len='' @ show_nat n"
| "boundary_label (FrameRejected c a d) =
     ''FrameRejected id='' @ show_id c @ '' cat='' @ a @ '' detail='' @ d"
| "boundary_label (ProtocolNote c s l) = ''ProtocolEvent id='' @ show_id c @ '' state='' @ s @ '' '' @ l"
| "boundary_label (ConnectionError c a d) =
     ''ConnectionError id='' @ show_id c @ '' cat='' @ a @ '' detail='' @ d"
| "boundary_label (ConnectionClosed c r) = ''ConnectionClosed id='' @ show_id c @ '' reason='' @ r"

definition assert_localhost_bind :: "socket_addr \<Rightarrow> boundary_error + unit" where
  "assert_localhost_bind addr =
     (case sa_ip addr of
        IPv4 a b c d \<Rightarrow>
          if IPv4 a b c d = IPv4 127 0 0 1 then Inr () else Inl (BeExternalEndpoint (show_ip (IPv4 a b c d)))
      | IPv6 segs \<Rightarrow>
          if segs = [0, 0, 0, 0, 0, 0, 0, 1] then Inr () else Inl (BeExternalEndpoint (show_ip (IPv6 segs))))"

text \<open>
  \<open>ex_stream\<close> is the outcomes of the next writes while a stream is attached; \<open>ex_written\<close> is
  what went out over it, \<open>ex_shutdown\<close> whether it was shut down.
\<close>

record ext_conn =
  ex_id :: u64
  ex_state :: ext_state
  ex_decoder :: stream_decoder
  ex_stateful :: stateful_session
  ex_stream :: "string option list option"
  ex_written :: "bytes list"
  ex_shutdown :: bool
  ex_events :: "boundary_event list"
  ex_frame_index :: u64
  ex_max_buffered :: nat
  ex_max_frames :: nat
  ex_outbound :: "bytes list"

section \<open>Operations\<close>

definition ext_push_event :: "boundary_event \<Rightarrow> ext_conn \<Rightarrow> ext_conn" where
  "ext_push_event e c = c\<lparr>ex_events := ex_events c @ [e]\<rparr>"

definition ext_with_material :: "u64 \<Rightarrow> session_material \<Rightarrow> boundary_error + ext_conn" where
  "ext_with_material connection_id material =
     (case with_material connection_id material of
        Inl e \<Rightarrow> Inl (BeCrypto (show_bap_session_error e))
      | Inr stateful \<Rightarrow>
          Inr (ext_push_event (ConnectionAccepted connection_id)
            \<lparr>ex_id = connection_id, ex_state = XAccepted, ex_decoder = decoder_new, ex_stateful = stateful,
             ex_stream = None, ex_written = [], ex_shutdown = False, ex_events = [], ex_frame_index = 0,
             ex_max_buffered = DEFAULT_MAX_BUFFERED, ex_max_frames = DEFAULT_MAX_FRAMES_PER_ITER,
             ex_outbound = []\<rparr>))"

definition ext_new_synthetic :: "u64 \<Rightarrow> boundary_error + ext_conn" where
  "ext_new_synthetic connection_id =
     ext_with_material connection_id \<lparr>sm_key = SYNTHETIC_SESSION_KEY, sm_nonce = SYNTHETIC_SESSION_NONCE\<rparr>"

definition attach_stream :: "string option list \<Rightarrow> ext_conn \<Rightarrow> ext_conn" where
  "attach_stream writes c = c\<lparr>ex_stream := Some writes\<rparr>"

definition ext_protocol_state :: "ext_conn \<Rightarrow> protocol_state" where
  "ext_protocol_state c = ss_protocol_state (ex_stateful c)"

definition ext_safe_event_log :: "ext_conn \<Rightarrow> string list" where
  "ext_safe_event_log c = map boundary_label (ex_events c)"

definition take_outbound :: "ext_conn \<Rightarrow> bytes list \<times> ext_conn" where
  "take_outbound c = (ex_outbound c, c\<lparr>ex_outbound := []\<rparr>)"

definition ext_buffered_len :: "ext_conn \<Rightarrow> nat" where
  "ext_buffered_len c = decoder_buffered_len (ex_decoder c)"

definition set_conn_state :: "ext_state \<Rightarrow> ext_conn \<Rightarrow> ext_conn" where
  "set_conn_state to c = c\<lparr>ex_state := to\<rparr>"

definition ext_reject :: "error_category \<Rightarrow> string \<Rightarrow> ext_conn \<Rightarrow> ext_conn" where
  "ext_reject category detail c =
     ext_push_event (FrameRejected (ex_id c) (error_category_str category) detail) c"

definition ext_begin_close :: "string \<Rightarrow> ext_conn \<Rightarrow> ext_conn" where
  "ext_begin_close reason c =
     (if ex_state c = XClosed then c
      else let c = set_conn_state XClosing c;
               c = c\<lparr>ex_stateful := session_begin_close (ex_stateful c)\<rparr>;
               c = (if ex_stream c \<noteq> None then c\<lparr>ex_stream := None, ex_shutdown := True\<rparr> else c);
               c = c\<lparr>ex_stateful := session_finish_close (ex_stateful c)\<rparr>;
               c = set_conn_state XClosed c;
               c = ext_push_event (ConnectionClosed (ex_id c) reason) c
           in c\<lparr>ex_decoder := decoder_new\<rparr>)"

definition ext_close :: "string \<Rightarrow> ext_conn \<Rightarrow> ext_conn" where
  "ext_close reason c = ext_begin_close reason c"

definition notify_eof :: "ext_conn \<Rightarrow> ext_conn" where
  "notify_eof c = ext_begin_close ''eof'' c"

definition write_out :: "bytes \<Rightarrow> ext_conn \<Rightarrow> (boundary_error + unit) \<times> ext_conn" where
  "write_out bs c =
     (case ex_stream c of
        None \<Rightarrow> (Inr (), c\<lparr>ex_outbound := ex_outbound c @ [bs]\<rparr>)
      | Some (Some msg # ws) \<Rightarrow> (Inl (BeIo msg), c\<lparr>ex_stream := Some ws\<rparr>)
      | Some ws \<Rightarrow> (Inr (), c\<lparr>ex_stream := Some (tl ws), ex_written := ex_written c @ [bs]\<rparr>))"

definition ext_encode_via_codec :: "u16 \<Rightarrow> u32 \<Rightarrow> direction \<Rightarrow> bytes \<Rightarrow> bytes" where
  "ext_encode_via_codec = encode_via_codec"

fun apply_response ::
  "aead_prims \<Rightarrow> ext_conn \<Rightarrow> response_action \<Rightarrow> ((boundary_error + unit) \<times> ext_conn) option" where
  "apply_response P c (SendClear i context payload) =
     (case encode_clear i context (ext_encode_via_codec i context DirServerToClient payload) of
        None \<Rightarrow> None
      | Some bs \<Rightarrow> Some (write_out bs c))"
| "apply_response P c (SendEncrypted i context payload) =
     (case encode_encrypted P (ss_session (ex_stateful c)) ServerToClient i context
             (ext_encode_via_codec i context DirServerToClient payload) of
        None \<Rightarrow> None
      | Some (r, b) \<Rightarrow>
          let c = c\<lparr>ex_stateful := (ex_stateful c)\<lparr>ss_session := b\<rparr>\<rparr> in
          (case r of
             Inl e \<Rightarrow> Some (Inl (BeCrypto (show_bap_session_error e)), c)
           | Inr bs \<Rightarrow> Some (write_out bs c)))"
| "apply_response P c ObserveOnly = Some (Inr (), c)"
| "apply_response P c NoAction = Some (Inr (), c)"
| "apply_response P c RejectAction =
     Some (Inl (BeProtocol ''policy_reject''),
           ext_begin_close ''policy_reject'' (ext_reject CatProtocol ''policy_reject'' c))"

fun apply_responses ::
  "aead_prims \<Rightarrow> ext_conn \<Rightarrow> response_action list \<Rightarrow> ((boundary_error + unit) \<times> ext_conn) option" where
  "apply_responses P c [] = Some (Inr (), c)"
| "apply_responses P c (a # as) =
     (case apply_response P c a of
        None \<Rightarrow> None
      | Some (Inl e, c) \<Rightarrow> Some (Inl e, c)
      | Some (Inr _, c) \<Rightarrow> apply_responses P c as)"

definition frame_recovered :: "raw_frame \<Rightarrow> ext_conn \<Rightarrow> ext_conn" where
  "frame_recovered raw c =
     (let idx = ex_frame_index c; c = c\<lparr>ex_frame_index := ex_frame_index c + 1\<rparr>
      in ext_push_event (FrameRecovered (ex_id c) idx ''C2S'' (rf_kind raw) (raw_body_len raw)) c)"

definition handle_raw_frame ::
  "aead_prims \<Rightarrow> ext_conn \<Rightarrow> raw_frame \<Rightarrow> ((boundary_error + unit) \<times> ext_conn) option" where
  "handle_raw_frame P c raw =
     (let c = frame_recovered raw c in
      case decode_frame P (ss_session (ex_stateful c)) ClientToServer (rf_raw_bytes raw) of
        (Inl SDecryptFailed, b) \<Rightarrow>
          let c = c\<lparr>ex_stateful := (ex_stateful c)\<lparr>ss_session := b\<rparr>\<rparr> in
          Some (Inl (BeCrypto ''gcm_decrypt_failed''),
                ext_begin_close ''crypto_error'' (ext_reject CatCrypto ''gcm_decrypt_failed'' c))
      | (Inl e, b) \<Rightarrow>
          let c = c\<lparr>ex_stateful := (ex_stateful c)\<lparr>ss_session := b\<rparr>\<rparr> in
          Some (Inl (BeCrypto (show_bap_session_error e)),
                ext_begin_close ''crypto_error'' (ext_reject CatCrypto ''auth_crypto'' c))
      | (Inr decoded, b) \<Rightarrow>
          let c = c\<lparr>ex_stateful := (ex_stateful c)\<lparr>ss_session := b\<rparr>\<rparr> in
          (case handle_decoded_frame (ex_stateful c) decoded DirClientToServer of
             (Inl (InvalidMessage _), s) \<Rightarrow>
               Some (Inl (BeProtocol ''invalid_message''),
                     ext_reject CatProtocol ''invalid_message'' (c\<lparr>ex_stateful := s\<rparr>))
           | (Inl e, s) \<Rightarrow>
               Some (Inl (BeProtocol (show_protocol_state_error e)),
                     ext_reject CatProtocol ''protocol_error'' (c\<lparr>ex_stateful := s\<rparr>))
           | (Inr handled, s) \<Rightarrow>
               let c = c\<lparr>ex_stateful := s\<rparr> in
               if result_is_rejected (hr_transition handled) then
                 let c = ext_reject CatProtocol ''unexpected_message'' c;
                     c = ext_push_event (ProtocolNote (ex_id c) (protocol_state_str (ext_protocol_state c)) ''Rejected'') c
                 in Some (Inl (BeProtocol ''unexpected_message''), ext_begin_close ''protocol_reject'' c)
               else
                 let c = (if ex_state c = XReading then set_conn_state XProtocolActive c else c);
                     c = ext_push_event (ProtocolNote (ex_id c) (protocol_state_str (ext_protocol_state c))
                           (''msg='' @ hex_id (msg_id (hr_message handled)) @ '' ''
                            @ result_event_label (hr_transition handled))) c
                 in apply_responses P c (hr_actions handled)))"

text \<open>The loop of \<open>feed_bytes\<close>: an error leaves the frames behind it unprocessed.\<close>

fun handle_raw_frames ::
  "aead_prims \<Rightarrow> ext_conn \<Rightarrow> nat \<Rightarrow> raw_frame list \<Rightarrow> ((boundary_error + nat) \<times> ext_conn) option" where
  "handle_raw_frames P c processed [] = Some (Inr processed, c)"
| "handle_raw_frames P c processed (raw # raws) =
     (case handle_raw_frame P c raw of
        None \<Rightarrow> None
      | Some (Inl e, c) \<Rightarrow> Some (Inl e, c)
      | Some (Inr _, c) \<Rightarrow> handle_raw_frames P c (processed + 1) raws)"

fun framing_detail :: "stream_error \<Rightarrow> string" where
  "framing_detail (InvalidMagic m) = ''invalid_magic''"
| "framing_detail (InvalidKind k) = ''invalid_kind''"
| "framing_detail (FrameTooLarge n) = ''oversized_frame''"
| "framing_detail (IncompleteAtEnd n) = ''incomplete''"

text \<open>The connection after the bytes are logged, before the decoder sees them.\<close>

definition bytes_logged :: "bytes \<Rightarrow> ext_conn \<Rightarrow> ext_conn" where
  "bytes_logged bs c =
     (let c = ext_push_event (BytesReceived (ex_id c) (length bs)) c
      in if ex_state c = XAccepted then set_conn_state XReading c else c)"

definition feed_bytes ::
  "aead_prims \<Rightarrow> bytes \<Rightarrow> ext_conn \<Rightarrow> ((boundary_error + nat) \<times> ext_conn) option" where
  "feed_bytes P bs c =
     (if ex_state c = XClosed \<or> ex_state c = XClosing then Some (Inl BeAlreadyClosed, c)
      else if decoder_buffered_len (ex_decoder c) + length bs > ex_max_buffered c
      then Some (Inl (BeLimitExceeded ''buffered''),
                 ext_begin_close ''limit_exceeded'' (ext_reject CatLimit ''buffered_bytes_exceeded'' c))
      else
        let c = bytes_logged bs c
        in (case decoder_push (ex_decoder c) bs of
              (Inl e, d) \<Rightarrow>
                let c = c\<lparr>ex_decoder := d\<rparr>; detail = framing_detail e in
                Some (Inl (BeFraming detail), ext_begin_close ''framing_error'' (ext_reject CatFraming detail c))
            | (Inr frames, d) \<Rightarrow>
                let c = c\<lparr>ex_decoder := d\<rparr> in
                if length frames > ex_max_frames c
                then Some (Inl (BeLimitExceeded ''frames_per_iter''),
                           ext_begin_close ''limit_exceeded'' (ext_reject CatLimit ''frames_per_iter'' c))
                else handle_raw_frames P c 0 frames))"

section \<open>The listener and the worker\<close>

record ext_listener_config =
  el_host :: string
  el_port :: u16
  el_max_connections :: nat
  el_read_timeout :: "nat option"
  el_write_timeout :: "nat option"

definition listener_config_default :: ext_listener_config where
  "listener_config_default =
     \<lparr>el_host = ''127.0.0.1'', el_port = 0, el_max_connections = DEFAULT_MAX_CONNECTIONS,
      el_read_timeout = Some 5000000000, el_write_timeout = Some 5000000000\<rparr>"

text \<open>
  \<open>bind\<close>: of the three host names let through, only the first is an address the standard
  library parses without brackets. What the system answers is an argument.
\<close>

definition listener_bind :: "ext_listener_config \<Rightarrow> string + socket_addr \<Rightarrow> boundary_error + socket_addr" where
  "listener_bind config os =
     (if el_host config \<notin> set [''127.0.0.1'', ''localhost'', ''::1'']
      then Inl (BeExternalEndpoint (el_host config))
      else if el_host config \<noteq> ''127.0.0.1'' then Inl (BeBind ''invalid socket address syntax'')
      else case assert_localhost_bind \<lparr>sa_ip = IPv4 127 0 0 1, sa_port = el_port config\<rparr> of
          Inl e \<Rightarrow> Inl e
        | Inr _ \<Rightarrow>
            (case os of
               Inl msg \<Rightarrow> Inl (BeBind msg)
             | Inr bound \<Rightarrow>
                 (case assert_localhost_bind bound of Inl e \<Rightarrow> Inl e | Inr _ \<Rightarrow> Inr bound)))"

text \<open>The collector appends what it has not seen of the connection's events.\<close>

definition flush_events :: "boundary_event list \<Rightarrow> ext_conn \<Rightarrow> boundary_event list" where
  "flush_events sink c =
     (let already = length (filter (\<lambda>e. event_id e = ex_id c) sink) in sink @ drop already (ex_events c))"

record boundary_worker =
  bw_conn :: ext_conn
  bw_stream :: tcp_stream
  bw_done :: bool

definition worker_start ::
  "u64 \<Rightarrow> tcp_stream \<Rightarrow> string option list \<Rightarrow> boundary_event list \<Rightarrow>
   (boundary_worker \<times> boundary_event list) option" where
  "worker_start i stream writes sink =
     (case ext_new_synthetic i of
        Inl _ \<Rightarrow> None
      | Inr conn \<Rightarrow>
          let conn = attach_stream writes conn
          in Some (\<lparr>bw_conn = conn, bw_stream = stream, bw_done = False\<rparr>, flush_events sink conn))"

text \<open>
  One round of the loop; what it does between two flushes touches nothing that is shared.
  \<open>worker_finish\<close> is the flush before a \<open>break\<close>.
\<close>

definition worker_finish ::
  "tcp_stream \<Rightarrow> ext_conn \<Rightarrow> boundary_event list \<Rightarrow> boundary_worker \<times> boundary_event list" where
  "worker_finish stream c sink =
     (\<lparr>bw_conn = c, bw_stream = stream, bw_done = True\<rparr>, flush_events sink c)"

definition worker_failed :: "boundary_error \<Rightarrow> ext_conn \<Rightarrow> ext_conn" where
  "worker_failed e c =
     (let c = ext_push_event (ConnectionError (ex_id c) (error_category_str CatOther) (show_boundary_error e)) c
      in if ex_state c \<noteq> XClosed then ext_begin_close ''feed_error'' c else c)"

definition worker_iter ::
  "aead_prims \<Rightarrow> boundary_worker \<Rightarrow> boundary_event list \<Rightarrow> (boundary_worker \<times> boundary_event list) option" where
  "worker_iter P w sink =
     (if ex_state (bw_conn w) = XClosed \<or> ex_stream (bw_conn w) = None then Some (w\<lparr>bw_done := True\<rparr>, sink)
      else case stream_read DEFAULT_MAX_READ_CHUNK (bw_stream w) of
          (Inl (kind, _), stream) \<Rightarrow>
            Some (worker_finish stream (ext_begin_close
              (if kind = WouldBlock \<or> kind = TimedOut then ''timeout'' else ''io_error'') (bw_conn w)) sink)
        | (Inr bs, stream) \<Rightarrow>
            if bs = [] then Some (worker_finish stream (notify_eof (bw_conn w)) sink)
            else (case feed_bytes P bs (bw_conn w) of
                None \<Rightarrow> None
              | Some (Inl e, c) \<Rightarrow> Some (worker_finish stream (worker_failed e c) sink)
              | Some (Inr _, c) \<Rightarrow>
                  Some (\<lparr>bw_conn = c, bw_stream = stream, bw_done = False\<rparr>, flush_events sink c)))"

text \<open>The ways a round can end.\<close>

lemma worker_iter_cases:
  assumes "worker_iter P w sink = Some (w', sink')"
  obtains (over) "ex_state (bw_conn w) = XClosed \<or> ex_stream (bw_conn w) = None" "w' = w\<lparr>bw_done := True\<rparr>" "sink' = sink"
    | (closed) stream reason where "worker_finish stream (ext_begin_close reason (bw_conn w)) sink = (w', sink')"
    | (failed) stream bs e c where "feed_bytes P bs (bw_conn w) = Some (Inl e, c)"
        "worker_finish stream (worker_failed e c) sink = (w', sink')"
    | (fed) stream bs n c where "feed_bytes P bs (bw_conn w) = Some (Inr n, c)" "bs \<noteq> []"
        "stream_read DEFAULT_MAX_READ_CHUNK (bw_stream w) = (Inr bs, stream)"
        "w' = \<lparr>bw_conn = c, bw_stream = stream, bw_done = False\<rparr>" "sink' = flush_events sink c"
proof (cases "ex_state (bw_conn w) = XClosed \<or> ex_stream (bw_conn w) = None")
  case True
  with assms over show thesis by (simp add: worker_iter_def)
next
  case opened: False
  obtain r stream where rd: "stream_read DEFAULT_MAX_READ_CHUNK (bw_stream w) = (r, stream)"
    by (cases "stream_read DEFAULT_MAX_READ_CHUNK (bw_stream w)")
  show thesis
  proof (cases r)
    case (Inl e)
    obtain kind msg where "e = (kind, msg)" by (cases e)
    with Inl rd assms opened have "worker_finish stream (ext_begin_close
        (if kind = WouldBlock \<or> kind = TimedOut then ''timeout'' else ''io_error'') (bw_conn w)) sink = (w', sink')"
      by (simp add: worker_iter_def)
    then show thesis by (rule closed)
  next
    case (Inr bs)
    show thesis
    proof (cases "bs = []")
      case True
      with Inr rd assms opened closed [of stream "''eof''"] show thesis
        by (simp add: worker_iter_def notify_eof_def)
    next
      case False
      with Inr rd assms opened obtain q c where "feed_bytes P bs (bw_conn w) = Some (q, c)"
        by (cases "feed_bytes P bs (bw_conn w)") (auto simp: worker_iter_def)
      with Inr rd assms opened False failed fed show thesis
        by (cases q) (simp_all add: worker_iter_def)
    qed
  qed
qed

lemma worker_iter_reads:
  assumes "worker_iter P w sink = Some (w', sink')" "\<not> bw_done w'"
  shows "stream_size (bw_stream w') < stream_size (bw_stream w)"
  using assms(1)
proof (cases rule: worker_iter_cases)
  case (fed stream bs n c)
  then show ?thesis using stream_read_smaller by simp
qed (use assms(2) in \<open>auto simp: worker_finish_def\<close>)

function worker_loop ::
  "aead_prims \<Rightarrow> boundary_worker \<Rightarrow> boundary_event list \<Rightarrow> (boundary_worker \<times> boundary_event list) option" where
  "worker_loop P w sink =
     (case worker_iter P w sink of
        None \<Rightarrow> None
      | Some (w', sink') \<Rightarrow> if bw_done w' then Some (w', sink') else worker_loop P w' sink')"
  by pat_completeness auto
termination
  by (relation "measure (\<lambda>(P, w, sink). stream_size (bw_stream w))") (use worker_iter_reads in auto)

declare worker_loop.simps [simp del]

definition run_connection_worker ::
  "aead_prims \<Rightarrow> u64 \<Rightarrow> tcp_stream \<Rightarrow> string option list \<Rightarrow> boundary_event list \<Rightarrow>
   (boundary_worker option \<times> boundary_event list) option" where
  "run_connection_worker P i stream writes sink =
     (case worker_start i stream writes sink of
        None \<Rightarrow> Some (None, sink)
      | Some (w, sink) \<Rightarrow> map_option (map_prod Some id) (worker_loop P w sink))"

section \<open>Only the own event log grows\<close>

definition ext_extends :: "ext_conn \<Rightarrow> ext_conn \<Rightarrow> bool" where
  "ext_extends c c' \<longleftrightarrow> ex_id c' = ex_id c
     \<and> (\<exists>es. ex_events c' = ex_events c @ es \<and> (\<forall>e \<in> set es. event_id e = ex_id c))"

lemma ext_extends_refl [simp]: "ext_extends c c"
  by (simp add: ext_extends_def)

lemma ext_extends_trans: "ext_extends a b \<Longrightarrow> ext_extends b c \<Longrightarrow> ext_extends a c"
  by (auto simp: ext_extends_def)

lemma ext_extends_same: "ex_id c' = ex_id c \<Longrightarrow> ex_events c' = ex_events c \<Longrightarrow> ext_extends c c'"
  by (simp add: ext_extends_def)

lemma ext_extends_update [simp]:
  "ext_extends c (c\<lparr>ex_stateful := t\<rparr>)" "ext_extends c (c\<lparr>ex_decoder := d\<rparr>)"
  "ext_extends c (set_conn_state x c)"
  by (simp_all add: ext_extends_def set_conn_state_def)

lemma ext_extends_push: "ext_extends c d \<Longrightarrow> event_id e = ex_id c \<Longrightarrow> ext_extends c (ext_push_event e d)"
  by (auto simp: ext_extends_def ext_push_event_def)

lemma ext_extends_begin_close: "ext_extends c (ext_begin_close r c)"
  by (auto simp: ext_begin_close_def Let_def ext_extends_def ext_push_event_def set_conn_state_def)

lemma ext_extends_reject: "ext_extends c (ext_reject k d c)"
  by (simp add: ext_reject_def ext_extends_push)

lemma ext_extends_frame_recovered: "ext_extends c (frame_recovered raw c)"
  by (simp add: ext_extends_def frame_recovered_def ext_push_event_def Let_def)

lemma ext_extends_reject_close: "ext_extends c (ext_begin_close r (ext_reject k d c))"
  using ext_extends_reject ext_extends_begin_close ext_extends_trans by blast

lemma write_out_extends: "ext_extends c (snd (write_out bs c))"
  by (auto simp: write_out_def intro: ext_extends_same split: option.split list.split)

lemma apply_response_extends: "apply_response P c a = Some (r, c') \<Longrightarrow> ext_extends c c'"
proof (cases a)
  case (SendEncrypted i x p)
  have w: "ext_extends c (snd (write_out bs (c\<lparr>ex_stateful := t\<rparr>)))" for bs t
    using write_out_extends [of "c\<lparr>ex_stateful := t\<rparr>" bs] by (simp add: ext_extends_def)
  assume "apply_response P c a = Some (r, c')"
  with SendEncrypted show ?thesis
    by (auto simp: Let_def split: option.splits sum.splits) (metis snd_conv w)
next
  case (SendClear i x p)
  assume "apply_response P c a = Some (r, c')"
  with SendClear show ?thesis using write_out_extends
    by (auto split: option.splits) (metis snd_conv)
qed (auto intro: ext_extends_reject_close)

lemma apply_responses_extends: "apply_responses P c as = Some (r, c') \<Longrightarrow> ext_extends c c'"
proof (induction "as" arbitrary: c)
  case (Cons a "as")
  then show ?case
    using apply_response_extends ext_extends_trans by (auto split: option.splits sum.splits) blast+
qed simp

text \<open>What a frame did before its replies: the error that ends it, or the actions still to perform.\<close>

definition frame_verdict ::
  "aead_prims \<Rightarrow> ext_conn \<Rightarrow> raw_frame \<Rightarrow> (boundary_error \<times> ext_conn) + (response_action list \<times> ext_conn)" where
  "frame_verdict P c raw =
     (let c = frame_recovered raw c in
      case decode_frame P (ss_session (ex_stateful c)) ClientToServer (rf_raw_bytes raw) of
        (Inl e, b) \<Rightarrow>
          let c = c\<lparr>ex_stateful := (ex_stateful c)\<lparr>ss_session := b\<rparr>\<rparr> in
          Inl (BeCrypto (if e = SDecryptFailed then ''gcm_decrypt_failed'' else show_bap_session_error e),
               ext_begin_close ''crypto_error'' (ext_reject CatCrypto
                 (if e = SDecryptFailed then ''gcm_decrypt_failed'' else ''auth_crypto'') c))
      | (Inr decoded, b) \<Rightarrow>
          let c = c\<lparr>ex_stateful := (ex_stateful c)\<lparr>ss_session := b\<rparr>\<rparr> in
          (case handle_decoded_frame (ex_stateful c) decoded DirClientToServer of
             (Inl e, s) \<Rightarrow>
               Inl (BeProtocol (case e of InvalidMessage _ \<Rightarrow> ''invalid_message'' | _ \<Rightarrow> show_protocol_state_error e),
                    ext_reject CatProtocol (case e of InvalidMessage _ \<Rightarrow> ''invalid_message'' | _ \<Rightarrow> ''protocol_error'')
                      (c\<lparr>ex_stateful := s\<rparr>))
           | (Inr handled, s) \<Rightarrow>
               let c = c\<lparr>ex_stateful := s\<rparr> in
               if result_is_rejected (hr_transition handled) then
                 let c = ext_reject CatProtocol ''unexpected_message'' c;
                     c = ext_push_event (ProtocolNote (ex_id c) (protocol_state_str (ext_protocol_state c)) ''Rejected'') c
                 in Inl (BeProtocol ''unexpected_message'', ext_begin_close ''protocol_reject'' c)
               else
                 let c = (if ex_state c = XReading then set_conn_state XProtocolActive c else c);
                     c = ext_push_event (ProtocolNote (ex_id c) (protocol_state_str (ext_protocol_state c))
                           (''msg='' @ hex_id (msg_id (hr_message handled)) @ '' ''
                            @ result_event_label (hr_transition handled))) c
                 in Inr (hr_actions handled, c)))"

lemma handle_raw_frame_verdict:
  "handle_raw_frame P c raw =
     (case frame_verdict P c raw of
        Inl (e, c') \<Rightarrow> Some (Inl e, c') | Inr (as, c') \<Rightarrow> apply_responses P c' as)"
proof -
  obtain r b where d: "decode_frame P (ss_session (ex_stateful (frame_recovered raw c))) ClientToServer
      (rf_raw_bytes raw) = (r, b)"
    by (cases "decode_frame P (ss_session (ex_stateful (frame_recovered raw c))) ClientToServer (rf_raw_bytes raw)")
  show ?thesis
  proof (cases r)
    case (Inl e)
    with d show ?thesis by (cases e) (simp_all add: handle_raw_frame_def frame_verdict_def Let_def)
  next
    case (Inr decoded)
    let ?s = "(ex_stateful (frame_recovered raw c))\<lparr>ss_session := b\<rparr>"
    obtain q t where h: "handle_decoded_frame ?s decoded DirClientToServer = (q, t)"
      by (cases "handle_decoded_frame ?s decoded DirClientToServer")
    show ?thesis
    proof (cases q)
      case (Inl e)
      with d h Inr show ?thesis
        by (cases e) (simp_all add: handle_raw_frame_def frame_verdict_def Let_def)
    next
      case hd: (Inr handled)
      with d h Inr show ?thesis by (simp add: handle_raw_frame_def frame_verdict_def Let_def)
    qed
  qed
qed

lemmas verdict_splits = sum.splits prod.splits if_splits protocol_state_error.splits

lemma frame_verdict_extends:
  "frame_verdict P c raw = Inl (e, c') \<Longrightarrow> ext_extends c c'"
  "frame_verdict P c raw = Inr (as, c'') \<Longrightarrow> ext_extends c c''"
  by (auto simp: frame_verdict_def Let_def frame_recovered_def ext_reject_def ext_begin_close_def
      ext_extends_def ext_push_event_def set_conn_state_def split: verdict_splits)

lemma handle_raw_frame_extends: "handle_raw_frame P c raw = Some (r, c') \<Longrightarrow> ext_extends c c'"
  using frame_verdict_extends apply_responses_extends ext_extends_trans
  by (auto simp: handle_raw_frame_verdict split: sum.splits) blast

lemma handle_raw_frames_extends: "handle_raw_frames P c n raws = Some (r, c') \<Longrightarrow> ext_extends c c'"
proof (induction raws arbitrary: c n)
  case (Cons raw raws)
  then show ?case
    using handle_raw_frame_extends ext_extends_trans by (auto split: option.splits sum.splits) blast+
qed simp

text \<open>The ways \<open>feed_bytes\<close> can end.\<close>

lemma feed_bytes_cases:
  assumes "feed_bytes P bs c = Some (r, c')"
  obtains (closed) "ex_state c = XClosed \<or> ex_state c = XClosing" "r = Inl BeAlreadyClosed" "c' = c"
    | (buffered) "ex_state c \<notin> {XClosed, XClosing}" "r = Inl (BeLimitExceeded ''buffered'')"
        "c' = ext_begin_close ''limit_exceeded'' (ext_reject CatLimit ''buffered_bytes_exceeded'' c)"
    | (framing) e d where "ex_state c \<notin> {XClosed, XClosing}" "decoder_push (ex_decoder c) bs = (Inl e, d)"
        "r = Inl (BeFraming (framing_detail e))"
        "c' = ext_begin_close ''framing_error''
                (ext_reject CatFraming (framing_detail e) (bytes_logged bs c\<lparr>ex_decoder := d\<rparr>))"
    | (frames) fs d where "ex_state c \<notin> {XClosed, XClosing}" "decoder_push (ex_decoder c) bs = (Inr fs, d)"
        "r = Inl (BeLimitExceeded ''frames_per_iter'')"
        "c' = ext_begin_close ''limit_exceeded''
                (ext_reject CatLimit ''frames_per_iter'' (bytes_logged bs c\<lparr>ex_decoder := d\<rparr>))"
    | (handled) fs d where "ex_state c \<notin> {XClosed, XClosing}" "decoder_push (ex_decoder c) bs = (Inr fs, d)"
        "length fs \<le> ex_max_frames c"
        "handle_raw_frames P (bytes_logged bs c\<lparr>ex_decoder := d\<rparr>) 0 fs = Some (r, c')"
proof -
  have l: "ex_decoder (bytes_logged bs c) = ex_decoder c" "ex_max_frames (bytes_logged bs c) = ex_max_frames c"
    by (simp_all add: bytes_logged_def Let_def ext_push_event_def set_conn_state_def)
  obtain q d where push: "decoder_push (ex_decoder c) bs = (q, d)" by (cases "decoder_push (ex_decoder c) bs")
  consider "ex_state c = XClosed \<or> ex_state c = XClosing"
    | "ex_state c \<notin> {XClosed, XClosing}" "ex_max_buffered c < decoder_buffered_len (ex_decoder c) + length bs"
    | "ex_state c \<notin> {XClosed, XClosing}" "\<not> ex_max_buffered c < decoder_buffered_len (ex_decoder c) + length bs"
    by blast
  then show thesis
  proof cases
    case 1
    then have "feed_bytes P bs c = Some (Inl BeAlreadyClosed, c)" by (simp add: feed_bytes_def)
    with assms 1 show thesis by (intro closed) simp_all
  next
    case 2
    then have "feed_bytes P bs c = Some (Inl (BeLimitExceeded ''buffered''),
        ext_begin_close ''limit_exceeded'' (ext_reject CatLimit ''buffered_bytes_exceeded'' c))"
      by (simp add: feed_bytes_def)
    with assms 2 show thesis by (intro buffered) simp_all
  next
    case 3
    show thesis
    proof (cases q)
      case (Inl e)
      with assms 3 push have "r = Inl (BeFraming (framing_detail e))"
          "c' = ext_begin_close ''framing_error''
                  (ext_reject CatFraming (framing_detail e) (bytes_logged bs c\<lparr>ex_decoder := d\<rparr>))"
        by (simp_all add: feed_bytes_def Let_def l)
      with 3(1) push Inl show thesis by (intro framing) simp_all
    next
      case (Inr fs)
      show thesis
      proof (cases "length fs > ex_max_frames c")
        case True
        with assms 3 push Inr have "r = Inl (BeLimitExceeded ''frames_per_iter'')"
            "c' = ext_begin_close ''limit_exceeded''
                    (ext_reject CatLimit ''frames_per_iter'' (bytes_logged bs c\<lparr>ex_decoder := d\<rparr>))"
          by (simp_all add: feed_bytes_def Let_def l)
        with 3(1) push Inr show thesis by (intro frames) simp_all
      next
        case False
        with assms 3 push Inr have "handle_raw_frames P (bytes_logged bs c\<lparr>ex_decoder := d\<rparr>) 0 fs = Some (r, c')"
          by (simp add: feed_bytes_def Let_def l)
        with 3(1) push Inr False show thesis by (intro handled) simp_all
      qed
    qed
  qed
qed

lemma bytes_logged_extends: "ext_extends c (bytes_logged bs c\<lparr>ex_decoder := d\<rparr>)"
  by (simp add: bytes_logged_def Let_def ext_extends_def ext_push_event_def set_conn_state_def)

lemma feed_bytes_extends:
  assumes "feed_bytes P bs c = Some (r, c')"
  shows "ext_extends c c'"
  using assms
proof (cases rule: feed_bytes_cases)
  case (framing e d)
  then show ?thesis using bytes_logged_extends ext_extends_reject_close ext_extends_trans by blast
next
  case (frames fs d)
  then show ?thesis using bytes_logged_extends ext_extends_reject_close ext_extends_trans by blast
next
  case (handled fs d)
  then show ?thesis using bytes_logged_extends handle_raw_frames_extends ext_extends_trans by blast
qed (auto intro: ext_extends_reject_close)

lemma worker_failed_extends: "ext_extends c (worker_failed e c)"
proof -
  let ?c = "ext_push_event (ConnectionError (ex_id c) (error_category_str CatOther) (show_boundary_error e)) c"
  have "ext_extends c ?c" by (rule ext_extends_push) simp_all
  moreover have "worker_failed e c = (if ex_state ?c \<noteq> XClosed then ext_begin_close ''feed_error'' ?c else ?c)"
    by (simp add: worker_failed_def Let_def)
  ultimately show ?thesis
    using ext_extends_trans [OF _ ext_extends_begin_close] by simp
qed

lemma worker_iter_extends:
  assumes "worker_iter P w sink = Some (w', sink')"
  shows "ext_extends (bw_conn w) (bw_conn w') \<and>
    (sink' = flush_events sink (bw_conn w') \<or> sink' = sink \<and> bw_conn w' = bw_conn w)"
  using assms
proof (cases rule: worker_iter_cases)
  case (closed stream reason)
  then show ?thesis using ext_extends_begin_close by (auto simp: worker_finish_def)
next
  case (failed stream bs e c)
  then show ?thesis
    using feed_bytes_extends worker_failed_extends ext_extends_trans by (auto simp: worker_finish_def) blast
next
  case (fed stream bs n c)
  then show ?thesis using feed_bytes_extends by auto
qed simp

section \<open>The shared collector\<close>

definition own_events :: "boundary_event list \<Rightarrow> ext_conn \<Rightarrow> boundary_event list" where
  "own_events sink c = filter (\<lambda>e. event_id e = ex_id c) sink"

text \<open>A flush of a connection whose log grew brings its part of the sink up to date.\<close>

lemma flush_own:
  assumes "own_events sink c = ex_events c" "ext_extends c c'"
  shows "own_events (flush_events sink c') c' = ex_events c'"
    "event_id ` set (flush_events sink c') \<subseteq> insert (ex_id c) (event_id ` set sink)"
    "ex_id d \<noteq> ex_id c \<Longrightarrow> own_events (flush_events sink c') d = own_events sink d"
proof -
  from assms(2) obtain es where es: "ex_id c' = ex_id c" "ex_events c' = ex_events c @ es"
      "\<forall>e \<in> set es. event_id e = ex_id c"
    by (auto simp: ext_extends_def)
  have "flush_events sink c' = sink @ es"
    using assms(1) es(1,2) by (simp add: flush_events_def own_events_def Let_def)
  with es assms(1) show "own_events (flush_events sink c') c' = ex_events c'"
    "event_id ` set (flush_events sink c') \<subseteq> insert (ex_id c) (event_id ` set sink)"
    "ex_id d \<noteq> ex_id c \<Longrightarrow> own_events (flush_events sink c') d = own_events sink d"
    by (auto simp: own_events_def filter_empty_conv)
qed

lemma ext_with_material_ok:
  assumes "ext_with_material i mat = Inr c"
  shows "ex_id c = i" "ex_events c = [ConnectionAccepted i]" "ex_state c = XAccepted"
    "ex_stream c = None" "ex_outbound c = []" "ex_decoder c = decoder_new" "ex_frame_index c = 0"
    "with_material i mat = Inr (ex_stateful c)"
  using assms by (auto simp: ext_with_material_def ext_push_event_def split: sum.splits)

end
