(* ===== verification/Boundary_Equivalence.thy ===== *)
theory Boundary_Equivalence
  imports External_Boundary
begin

text \<open>
  The external boundary beside the local server: the two programs handle a connection with the
  same session layer but different bookkeeping. A frame-by-frame simulation relates them; it
  gives that the boundary never panics and that, short of its limits, it writes what the server
  writes. The life cycle of a boundary connection is an invariant of its operations.
\<close>

section \<open>The simulation relation\<close>

text \<open>Whether one of the boundary's own limits was hit; the local server has none.\<close>

definition limit_hit :: "ext_conn \<Rightarrow> bool" where
  "limit_hit c \<longleftrightarrow> list_ex (\<lambda>e. case e of FrameRejected i a d \<Rightarrow> a = ''Limit'' | _ \<Rightarrow> False) (ex_events c)"

text \<open>\<open>t\<close>: whether a stream was attached.\<close>

definition sent_same :: "bool \<Rightarrow> ext_conn \<Rightarrow> server_conn \<Rightarrow> bool" where
  "sent_same t c s \<longleftrightarrow> (if t then ex_written c else ex_outbound c) = cn_sent s"

definition in_step :: "bool \<Rightarrow> ext_conn \<Rightarrow> server_conn \<Rightarrow> bool" where
  "in_step t c s \<longleftrightarrow> sent_same t c s \<and> ex_stream c = (if t then Some (cn_writes s) else None)
     \<and> (\<not> t \<longrightarrow> cn_writes s = [])
     \<and> ex_stateful c = lb_stateful (cn_local s) \<and> ex_decoder c = cn_decoder s \<and> \<not> limit_hit c
     \<and> ex_state c \<noteq> XClosed \<and> ex_state c \<noteq> XClosing"

fun same_outcome ::
  "bool \<Rightarrow> ((boundary_error + 'a) \<times> ext_conn) option \<Rightarrow> ((local_server_error + unit) \<times> server_conn) option \<Rightarrow> bool" where
  "same_outcome t None None \<longleftrightarrow> True"
| "same_outcome t (Some (Inr _, c)) (Some (Inr _, s)) \<longleftrightarrow> in_step t c s"
| "same_outcome t (Some (Inl _, c)) (Some (Inl _, s)) \<longleftrightarrow>
     sent_same t c s \<and> \<not> limit_hit c \<and> ss_session (ex_stateful c) = conn_session s"
| "same_outcome _ _ _ \<longleftrightarrow> False"

lemma limit_hit_push [simp]:
  "limit_hit (ext_push_event e c) \<longleftrightarrow> limit_hit c \<or> (case e of FrameRejected i a d \<Rightarrow> a = ''Limit'' | _ \<Rightarrow> False)"
  by (auto simp: limit_hit_def ext_push_event_def)

lemma limit_hit_frame [simp]:
  "limit_hit (c\<lparr>ex_stateful := x\<rparr>) = limit_hit c" "limit_hit (c\<lparr>ex_decoder := d\<rparr>) = limit_hit c"
  "limit_hit (c\<lparr>ex_stream := w\<rparr>) = limit_hit c" "limit_hit (c\<lparr>ex_written := z\<rparr>) = limit_hit c"
  "limit_hit (c\<lparr>ex_outbound := z\<rparr>) = limit_hit c" "limit_hit (c\<lparr>ex_shutdown := b\<rparr>) = limit_hit c"
  "limit_hit (c\<lparr>ex_frame_index := n\<rparr>) = limit_hit c" "limit_hit (set_conn_state q c) = limit_hit c"
  by (simp_all add: limit_hit_def set_conn_state_def)

lemma limit_hit_close [simp]: "limit_hit (ext_begin_close r c) = limit_hit c"
  by (auto simp: ext_begin_close_def Let_def)

lemma limit_hit_reject [simp]: "limit_hit (ext_reject k d c) \<longleftrightarrow> limit_hit c \<or> k = CatLimit"
  by (cases k) (simp_all add: ext_reject_def)

lemma sent_same_frame [simp]:
  "sent_same t (ext_push_event e c) s = sent_same t c s" "sent_same t (c\<lparr>ex_stateful := x\<rparr>) s = sent_same t c s"
  "sent_same t (set_conn_state q c) s = sent_same t c s" "sent_same t (c\<lparr>ex_decoder := d\<rparr>) s = sent_same t c s"
  "sent_same t c (shut s) = sent_same t c s" "sent_same t c (push_trace v i u z a s) = sent_same t c s"
  "sent_same t c (set_stateful y s) = sent_same t c s" "sent_same t (ext_reject k w c) s = sent_same t c s"
  "sent_same t (ext_begin_close r c) s = sent_same t c s"
  by (auto simp: sent_same_def ext_push_event_def set_conn_state_def ext_reject_def ext_begin_close_def Let_def)

lemma ex_stateful_frame [simp]:
  "ex_stateful (ext_push_event e c) = ex_stateful c" "ex_stateful (ext_reject k w c) = ex_stateful c"
  "ex_stateful (set_conn_state q c) = ex_stateful c" "ex_stateful (frame_recovered raw c) = ex_stateful c"
  "ss_session (ex_stateful (ext_begin_close r c)) = ss_session (ex_stateful c)"
  by (simp_all add: ext_push_event_def ext_reject_def set_conn_state_def frame_recovered_def ext_begin_close_def
      session_begin_close_def session_finish_close_def Let_def)

lemma in_step_frame:
  assumes "in_step t c s"
  shows "sent_same t c s" "\<not> limit_hit c" "lb_stateful (cn_local s) = ex_stateful c"
    "in_step t (c\<lparr>ex_stateful := x\<rparr>) (set_stateful x s)"
    "in_step t c (push_trace v i y z a s)"
    "in_step t (frame_recovered raw c) s"
    "in_step t (ext_push_event (ProtocolNote n p l) c) s"
    "in_step t (if ex_state c = XReading then set_conn_state XProtocolActive c else c) s"
  using assms
  by (auto simp: in_step_def sent_same_def frame_recovered_def Let_def ext_push_event_def set_conn_state_def limit_hit_def)

section \<open>Frame by frame\<close>

lemma write_out_in_step:
  assumes "in_step t c s"
  shows "same_outcome t (Some (write_out bs c)) (Some (send_traced i x bs s))"
proof (cases t)
  case True
  with assms show ?thesis
    by (cases "cn_writes s"; cases "hd (cn_writes s)")
       (auto simp: in_step_def sent_same_def write_out_def send_traced_def write_all_def split: option.splits)
next
  case False
  with assms show ?thesis
    by (auto simp: in_step_def sent_same_def write_out_def send_traced_def write_all_def)
qed

lemma apply_response_in_step:
  assumes "in_step t c s"
  shows "same_outcome t (apply_response P c a) (perform_action P s a)"
proof (cases a)
  case (SendClear i x p)
  then show ?thesis using write_out_in_step [OF assms] by (auto simp: ext_encode_via_codec_def split: option.split)
next
  case (SendEncrypted i x p)
  have st: "lb_stateful (cn_local s) = ex_stateful c" using assms by (simp add: in_step_frame)
  have w: "in_step t (c\<lparr>ex_stateful := y\<rparr>) (set_stateful y s)" for y using assms by (rule in_step_frame)
  show ?thesis
    using SendEncrypted write_out_in_step [OF w] in_step_frame(1,2) [OF w]
    by (auto simp: ext_encode_via_codec_def st Let_def split: option.split sum.split)
next
  case RejectAction
  with assms show ?thesis by (simp add: in_step_frame)
qed (use assms in simp_all)

lemma apply_responses_in_step:
  assumes "in_step t c s"
  shows "same_outcome t (apply_responses P c as) (perform_actions P s as)"
  using assms
proof (induction "as" arbitrary: c s)
  case (Cons a "as")
  show ?case
    using apply_response_in_step [OF Cons.prems, of P a] Cons.IH
    by (cases "(t, apply_response P c a, perform_action P s a)" rule: same_outcome.cases) auto
qed simp


lemma handle_raw_frame_in_step:
  assumes "in_step t c s"
  shows "same_outcome t (handle_raw_frame P c raw) (process_frame P s raw)"
proof -
  let ?c = "frame_recovered raw c"
  have c: "in_step t ?c s" using assms by (rule in_step_frame)
  note st = in_step_frame(3) [OF assms]
  obtain r b where d: "decode_frame P (ss_session (ex_stateful c)) ClientToServer (rf_raw_bytes raw) = (r, b)"
    by (cases "decode_frame P (ss_session (ex_stateful c)) ClientToServer (rf_raw_bytes raw)")
  let ?s = "(ex_stateful c)\<lparr>ss_session := b\<rparr>"
  show ?thesis
  proof (cases r)
    case (Inl e)
    show ?thesis
      using in_step_frame(1,2) [OF c] d Inl
      by (cases e) (simp_all add: handle_raw_frame_def process_frame_def Let_def st)
  next
    case (Inr decoded)
    obtain q x where h: "handle_decoded_frame ?s decoded DirClientToServer = (q, x)"
      by (cases "handle_decoded_frame ?s decoded DirClientToServer")
    show ?thesis
    proof (cases q)
      case e: (Inl e)
      show ?thesis
        using in_step_frame(1,2) [OF c] d Inr h e
        by (cases e) (simp_all add: handle_raw_frame_def process_frame_def Let_def st)
    next
      case hd: (Inr handled)
      have go: "same_outcome t (apply_responses P (ext_push_event (ProtocolNote n p l) d) (hr_actions handled))
          (perform_actions P u (hr_actions handled))" if "in_step t d u" for n p l d u
        using in_step_frame(7) [OF that] by (rule apply_responses_in_step)
      have both: "in_step t (?c\<lparr>ex_stateful := x\<rparr>) (set_stateful x (push_trace v i y z a (set_stateful ?s s)))" for v i y z a
        using in_step_frame(4) [OF in_step_frame(5) [OF in_step_frame(4) [OF c, of ?s], of v i y z a], of x] by simp
      have active: "in_step t (set_conn_state XProtocolActive d) u" if "in_step t d u" for d u
        using that by (auto simp: in_step_def sent_same_def set_conn_state_def limit_hit_def)
      show ?thesis
      proof (cases "hr_transition handled")
        case (Rejected e)
        then show ?thesis
          using in_step_frame(1,2) [OF c] d Inr h hd
          by (simp add: handle_raw_frame_def process_frame_def Let_def st)
      next
        case (Advanced f g)
        then show ?thesis
          using d Inr h hd
          by (simp add: handle_raw_frame_def process_frame_def Let_def st)
             (intro conjI impI go in_step_frame(5) active both)
      next
        case (Observed g)
        then show ?thesis
          using d Inr h hd
          by (simp add: handle_raw_frame_def process_frame_def Let_def st)
             (intro conjI impI go active both)
      qed
    qed
  qed
qed

lemma handle_raw_frames_in_step:
  assumes "in_step t c s"
  shows "same_outcome t (handle_raw_frames P c n raws) (process_frames P s raws)"
  using assms
proof (induction raws arbitrary: c s n)
  case (Cons raw raws)
  show ?case
    using handle_raw_frame_in_step [OF Cons.prems, of P raw] Cons.IH
    by (cases "(t, handle_raw_frame P c raw, process_frame P s raw)" rule: same_outcome.cases) auto
qed simp



section \<open>What the server has sent stays sent\<close>

definition sent_grows :: "server_conn \<Rightarrow> server_conn \<Rightarrow> bool" where
  "sent_grows s s' \<longleftrightarrow> (\<exists>zs. cn_sent s' = cn_sent s @ zs)"

lemma sent_grows_same: "cn_sent s' = cn_sent s \<Longrightarrow> sent_grows s s'"
  by (simp add: sent_grows_def)

lemma sent_grows_trans: "sent_grows a b \<Longrightarrow> sent_grows b c \<Longrightarrow> sent_grows a c"
  by (auto simp: sent_grows_def)

lemma sent_grows_cong: "cn_sent a' = cn_sent a \<Longrightarrow> sent_grows a' b \<Longrightarrow> sent_grows a b"
  by (simp add: sent_grows_def)

lemma send_traced_grows: "send_traced i x bs s = (r, s') \<Longrightarrow> sent_grows s s'"
  by (auto simp: send_traced_def write_all_def sent_grows_def split: list.splits option.splits)

lemma perform_action_grows: "perform_action P s a = Some (r, s') \<Longrightarrow> sent_grows s s'"
proof (cases a)
  case (SendEncrypted i x p)
  assume p: "perform_action P s a = Some (r, s')"
  with SendEncrypted obtain q b where "encode_encrypted P (ss_session (lb_stateful (cn_local s))) ServerToClient i x
      (encode_via_codec i x DirServerToClient p) = Some (q, b)"
    by (auto split: option.splits)
  with SendEncrypted p show ?thesis
    using send_traced_grows [of i x _ "set_stateful ((lb_stateful (cn_local s))\<lparr>ss_session := b\<rparr>) s" r s']
    by (cases q) (auto simp: Let_def sent_grows_def)
next
  case (SendClear i x p)
  assume "perform_action P s a = Some (r, s')"
  with SendClear show ?thesis by (auto intro: send_traced_grows split: option.splits)
qed (auto intro: sent_grows_same)

lemma perform_actions_grows: "perform_actions P s as = Some (r, s') \<Longrightarrow> sent_grows s s'"
proof (induction "as" arbitrary: s)
  case (Cons a "as")
  then show ?case
    using perform_action_grows sent_grows_trans by (auto split: option.splits sum.splits) blast
qed (simp add: sent_grows_same)

lemma process_frame_grows:
  assumes "process_frame P s raw = Some (r, s')"
  shows "sent_grows s s'"
proof -
  obtain q b where d: "decode_frame P (conn_session s) ClientToServer (rf_raw_bytes raw) = (q, b)"
    by (cases "decode_frame P (conn_session s) ClientToServer (rf_raw_bytes raw)")
  let ?t = "(lb_stateful (cn_local s))\<lparr>ss_session := b\<rparr>"
  show ?thesis
  proof (cases q)
    case (Inl e)
    with assms d show ?thesis by (cases e) (auto simp: process_frame_def Let_def intro!: sent_grows_same)
  next
    case (Inr f)
    obtain v x where h: "handle_decoded_frame ?t f DirClientToServer = (v, x)"
      by (cases "handle_decoded_frame ?t f DirClientToServer")
    show ?thesis
    proof (cases v)
      case e: (Inl e)
      with assms d Inr h show ?thesis
        by (cases e) (auto simp: process_frame_def Let_def intro!: sent_grows_same)
    next
      case hd: (Inr h')
      show ?thesis
      proof (cases "hr_transition h'")
        case (Rejected e)
        with assms d Inr h hd show ?thesis by (auto simp: process_frame_def Let_def intro!: sent_grows_same)
      next
        case (Advanced f t)
        with assms d Inr h hd have "\<exists>u. cn_sent u = cn_sent s \<and> perform_actions P u (hr_actions h') = Some (r, s')"
          by (simp add: process_frame_def Let_def) (rule exI, rule conjI [rotated], assumption, simp)
        then show ?thesis using perform_actions_grows sent_grows_cong by metis
      next
        case (Observed t)
        with assms d Inr h hd have "\<exists>u. cn_sent u = cn_sent s \<and> perform_actions P u (hr_actions h') = Some (r, s')"
          by (simp add: process_frame_def Let_def) (rule exI, rule conjI [rotated], assumption, simp)
        then show ?thesis using perform_actions_grows sent_grows_cong by metis
      qed
    qed
  qed
qed

lemma process_frames_grows: "process_frames P s raws = Some (r, s') \<Longrightarrow> sent_grows s s'"
proof (induction raws arbitrary: s)
  case (Cons raw raws)
  then show ?case
    using process_frame_grows sent_grows_trans by (auto split: option.splits sum.splits) blast
qed (simp add: sent_grows_same)


lemma connection_loop_grows: "connection_loop P stream s = Some (r, s') \<Longrightarrow> sent_grows s s'"
proof (induction "stream_size stream" arbitrary: stream s rule: less_induct)
  case less
  obtain q stream' where rd: "stream_read READ_BUF_LEN stream = (q, stream')"
    by (cases "stream_read READ_BUF_LEN stream")
  show ?case
  proof (cases q)
    case (Inl e)
    then show ?thesis using less.prems rd
      by (cases e) (auto simp: connection_loop.simps [of P stream] finish_connection_def intro!: sent_grows_same split: if_splits)
  next
    case (Inr bs)
    show ?thesis
    proof (cases "bs = []")
      case True
      with Inr less.prems rd show ?thesis
        by (auto simp: connection_loop.simps [of P stream] finish_connection_def Let_def intro!: sent_grows_same)
    next
      case False
      obtain v d where push: "decoder_push (cn_decoder s) bs = (v, d)" by (cases "decoder_push (cn_decoder s) bs")
      show ?thesis
      proof (cases v)
        case e: (Inl e)
        with Inr False push less.prems rd show ?thesis
          by (cases e) (auto simp: connection_loop.simps [of P stream] stream_failure_def intro!: sent_grows_same)
      next
        case fr: (Inr fs)
        with Inr False push less.prems rd obtain x s1 where pf: "process_frames P (s\<lparr>cn_decoder := d\<rparr>) fs = Some (x, s1)"
            "is_ok x \<and> connection_loop P stream' s1 = Some (r, s') \<or> s' = s1"
          by (auto simp: connection_loop.simps [of P stream] is_ok_def split: option.splits sum.splits)
        moreover have "sent_grows s s1"
          using process_frames_grows [OF pf(1)] by (simp add: sent_grows_def)
        moreover have "stream_size stream' < stream_size stream"
          using stream_read_smaller rd Inr False by blast
        ultimately show ?thesis using less.hyps sent_grows_trans by blast
      qed
    qed
  qed
qed

section \<open>A whole connection\<close>

lemma in_step_ready:
  assumes "in_step t c s"
  shows "in_step t (bytes_logged bs c\<lparr>ex_decoder := d\<rparr>) (s\<lparr>cn_decoder := d\<rparr>)"
  using assms by (auto simp: in_step_def sent_same_def bytes_logged_def Let_def limit_hit_def ext_push_event_def set_conn_state_def)

lemma feed_bytes_some:
  assumes "aead_ok P" "conn_ok s" "in_step t c s"
  shows "\<exists>r c'. feed_bytes P bs c = Some (r, c')"
proof -
  obtain q d where push: "decoder_push (ex_decoder c) bs = (q, d)" by (cases "decoder_push (ex_decoder c) bs")
  have dec: "ex_decoder (bytes_logged bs c) = ex_decoder c"
    by (simp add: bytes_logged_def Let_def ext_push_event_def set_conn_state_def)
  have "\<exists>r c'. handle_raw_frames P (bytes_logged bs c\<lparr>ex_decoder := d\<rparr>) 0 fs = Some (r, c')" for fs
  proof -
    have "conn_ok (s\<lparr>cn_decoder := d\<rparr>)" using assms(2) by (simp add: conn_ok_def)
    then obtain x s1 where "process_frames P (s\<lparr>cn_decoder := d\<rparr>) fs = Some (x, s1)"
      using process_frames_some [OF assms(1)] by blast
    then show ?thesis
      using handle_raw_frames_in_step [OF in_step_ready [OF assms(3), where bs = bs and d = d], of P 0 fs]
      by (cases "handle_raw_frames P (bytes_logged bs c\<lparr>ex_decoder := d\<rparr>) 0 fs") auto
  qed
  then show ?thesis using push by (cases q) (simp_all add: feed_bytes_def Let_def dec)
qed

definition served_same :: "ext_conn \<Rightarrow> server_conn \<Rightarrow> bool" where
  "served_same c s \<longleftrightarrow> ex_state c = XClosed \<and> (\<exists>zs. cn_sent s = ex_written c @ zs)
     \<and> (limit_hit c \<or> ex_written c = cn_sent s)"

lemma ext_begin_close_closed [simp]:
  "ex_state (ext_begin_close r c) = XClosed" "ex_written (ext_begin_close r c) = ex_written c"
  by (simp_all add: ext_begin_close_def Let_def set_conn_state_def ext_push_event_def)

lemma ex_written_frame [simp]:
  "ex_written (ext_reject k d c) = ex_written c" "ex_written (bytes_logged bs c) = ex_written c"
  "limit_hit (bytes_logged bs c) = limit_hit c"
  by (simp_all add: ext_reject_def bytes_logged_def Let_def set_conn_state_def)
     (simp_all add: ext_push_event_def limit_hit_def)

lemma worker_failed_ended [simp]:
  "ex_state (worker_failed e c) = XClosed" "ex_written (worker_failed e c) = ex_written c"
  "limit_hit (worker_failed e c) = limit_hit c"
  by (simp_all add: worker_failed_def Let_def) (simp add: ext_push_event_def)+


lemma worker_in_step:
  assumes "aead_ok P" "conn_ok s" "in_step True (bw_conn w) s"
  shows "\<exists>r s' w' sink'. connection_loop P (bw_stream w) s = Some (r, s')
     \<and> worker_loop P w sink = Some (w', sink') \<and> served_same (bw_conn w') s'"
  using assms(2,3)
proof (induction "stream_size (bw_stream w)" arbitrary: w s sink rule: less_induct)
  case less
  let ?c = "bw_conn w"
  obtain r s' where loop: "connection_loop P (bw_stream w) s = Some (r, s')"
    using connection_loop_some [OF assms(1) less.prems(1)] by (metis prod.exhaust)
  note grows = connection_loop_grows [OF loop]
  have opened: "ex_state ?c \<noteq> XClosed" "ex_state ?c \<noteq> XClosing" "ex_stream ?c \<noteq> None" "\<not> limit_hit ?c"
      "ex_decoder ?c = cn_decoder s" "ex_written ?c = cn_sent s"
    using less.prems(2) by (auto simp: in_step_def sent_same_def)
  have over: ?case if "worker_iter P w sink = Some (worker_finish stream' c sink)" "served_same c s'" for stream' c
    using loop that by (simp add: worker_loop.simps [of P w] worker_finish_def)
  obtain q stream' where rd: "stream_read READ_BUF_LEN (bw_stream w) = (q, stream')"
    by (cases "stream_read READ_BUF_LEN (bw_stream w)")
  have chunk: "DEFAULT_MAX_READ_CHUNK = READ_BUF_LEN" by (simp add: DEFAULT_MAX_READ_CHUNK_def READ_BUF_LEN_def)
  show ?case
  proof (cases q)
    case (Inl e)
    obtain kind msg where e: "e = (kind, msg)" by (cases e)
    have "cn_sent s' = cn_sent s"
      using loop rd Inl e by (auto simp: connection_loop.simps [of P "bw_stream w"] finish_connection_def split: if_splits)
    with Inl e rd opened show ?thesis
      by (intro over [of stream' "ext_begin_close (if kind = WouldBlock \<or> kind = TimedOut then ''timeout'' else ''io_error'') (bw_conn w)"])
         (auto simp: worker_iter_def chunk served_same_def)
  next
    case (Inr bs)
    show ?thesis
    proof (cases "bs = []")
      case True
      have "cn_sent s' = cn_sent s"
        using loop rd Inr True by (auto simp: connection_loop.simps [of P "bw_stream w"] finish_connection_def Let_def)
      with Inr True rd opened show ?thesis
        by (intro over [of stream' "ext_begin_close ''eof'' (bw_conn w)"])
           (auto simp: worker_iter_def chunk notify_eof_def served_same_def)
    next
      case False
      obtain x c' where feed: "feed_bytes P bs ?c = Some (x, c')"
        using feed_bytes_some [OF assms(1) less.prems] by blast
      have failed: ?thesis if "x = Inl e" "limit_hit c' \<and> ex_written c' = cn_sent s \<or> ex_written c' = cn_sent s'" for e
        using that feed Inr False rd opened grows
        by (intro over [of stream' "worker_failed e c'"]) (auto simp: worker_iter_def chunk served_same_def sent_grows_def)
      from feed show ?thesis
      proof (cases rule: feed_bytes_cases)
        case closed
        with opened show ?thesis by simp
      next
        case buffered
        then show ?thesis using opened by (intro failed) simp_all
      next
        case (framing e d)
        then show ?thesis
          using loop rd Inr False opened
          by (intro failed) (auto simp: connection_loop.simps [of P "bw_stream w"] stream_failure_def split: stream_error.splits)
      next
        case (frames fs d)
        then show ?thesis using opened by (intro failed) simp_all
      next
        case (handled fs d)
        have "conn_ok (s\<lparr>cn_decoder := d\<rparr>)" using less.prems(1) by (simp add: conn_ok_def)
        then obtain y s1 where pf: "process_frames P (s\<lparr>cn_decoder := d\<rparr>) fs = Some (y, s1)" "conn_ok s1"
          using process_frames_some [OF assms(1)] by blast
        have same: "same_outcome True (Some (x, c')) (Some (y, s1))"
          using handle_raw_frames_in_step [OF in_step_ready [OF less.prems(2), where bs = bs and d = d], of P 0 fs] handled(4) pf(1)
          by simp
        show ?thesis
        proof (cases x)
          case e: (Inl e)
          with same obtain f where "y = Inl f" "sent_same True c' s1" by (cases y) auto
          moreover have "s' = s1"
            using loop rd Inr False handled(2) opened(5) pf(1) calculation(1)
            by (simp add: connection_loop.simps [of P "bw_stream w"])
          ultimately show ?thesis using e by (intro failed) (simp_all add: sent_same_def)
        next
          case ok: (Inr n)
          with same obtain u where y: "y = Inr u" "in_step True c' s1" by (cases y) auto
          let ?w = "\<lparr>bw_conn = c', bw_stream = stream', bw_done = False\<rparr>"
          have next_round: "worker_iter P w sink = Some (?w, flush_events sink c')"
            using feed ok Inr False rd opened by (auto simp: worker_iter_def chunk)
          have loop': "connection_loop P stream' s1 = Some (r, s')"
            using loop rd Inr False handled(2) opened(5) pf(1) y(1)
            by (simp add: connection_loop.simps [of P "bw_stream w"])
          have "stream_size (bw_stream ?w) < stream_size (bw_stream w)"
            using stream_read_smaller rd Inr False by simp
          from less.hyps [OF this pf(2), of "flush_events sink c'"] y(2) loop' loop next_round show ?thesis
            by (auto simp: worker_loop.simps [of P w])
        qed
      qed
    qed
  qed
qed

lemma worker_serves_same:
  assumes "aead_ok P"
  shows "\<exists>r s w sink'.
     handle_connection P i stream writes SYNTHETIC_SESSION_KEY SYNTHETIC_SESSION_NONCE [] = Some (Inr (r, s))
     \<and> run_connection_worker P i stream writes sink = Some (Some w, sink') \<and> served_same (bw_conn w) s"
proof -
  let ?k = SYNTHETIC_SESSION_KEY and ?n = SYNTHETIC_SESSION_NONCE
  obtain st where st: "with_material i \<lparr>sm_key = ?k, sm_nonce = ?n\<rparr> = Inr st"
    using context_new_ok [of ?k ?n]
    by (auto simp: with_material_def bap_session_new_def Let_def SYNTHETIC_SESSION_KEY_def SYNTHETIC_SESSION_NONCE_def)
  define l where "l = \<lparr>lb_connection_id = i, lb_stateful = st\<rparr>"
  have l: "local_with_keys i ?k ?n = Inr l"
    using st by (simp add: local_with_keys_def l_def SYNTHETIC_SESSION_KEY_def SYNTHETIC_SESSION_NONCE_def)
  define s0 where "s0 = push_trace ''SYS'' None None (protocol_state_str (ss_protocol_state st)) ''ACCEPT''
    \<lparr>cn_local = l, cn_decoder = decoder_new, cn_writes = writes, cn_sent = [], cn_shutdown = False, cn_traces = []\<rparr>"
  obtain c0 where c0: "ext_new_synthetic i = Inr c0"
    using st by (simp add: ext_new_synthetic_def ext_with_material_def)
  note c0_ok = ext_with_material_ok [OF c0 [unfolded ext_new_synthetic_def]]
  have wr: "ex_written c0 = []"
    using c0 by (auto simp: ext_new_synthetic_def ext_with_material_def ext_push_event_def split: sum.splits)
  have ok: "conn_ok s0" using local_with_keys_ok(4) [OF l] by (simp add: s0_def conn_ok_def)
  let ?w = "\<lparr>bw_conn = attach_stream writes c0, bw_stream = stream, bw_done = False\<rparr>"
  have sync: "in_step True (bw_conn ?w) s0"
    using c0_ok st wr by (simp add: in_step_def sent_same_def attach_stream_def s0_def l_def limit_hit_def)
  from worker_in_step [OF assms ok sync, of "flush_events sink (attach_stream writes c0)"] show ?thesis
    using l c0 by (auto simp: handle_connection_def run_connection_worker_def worker_start_def conn_state_str_def
        s0_def l_def Let_def)
qed

end
