(* ===== verification/Boundary_Lifecycle.thy ===== *)
theory Boundary_Lifecycle
  imports Boundary_Equivalence
begin

text \<open>
  The life cycle of a boundary connection under any sequence of the calls its owner can make:
  what the event log says, that a call never panics, and that it never stays half closed.
\<close>

section \<open>The calls of the owner\<close>

datatype ext_op = FeedOp bytes | CloseOp string | EofOp | AttachOp "string option list" | TakeOp

text \<open>Errors are for the caller to see; the connection stays usable, whatever they were.\<close>

fun ext_call :: "aead_prims \<Rightarrow> ext_op \<Rightarrow> ext_conn \<Rightarrow> ext_conn option" where
  "ext_call P (FeedOp bs) c = map_option snd (feed_bytes P bs c)"
| "ext_call P (CloseOp r) c = Some (ext_close r c)"
| "ext_call P EofOp c = Some (notify_eof c)"
| "ext_call P (AttachOp ws) c = Some (attach_stream ws c)"
| "ext_call P TakeOp c = Some (snd (take_outbound c))"

fun ext_run :: "aead_prims \<Rightarrow> ext_op list \<Rightarrow> ext_conn \<Rightarrow> ext_conn option" where
  "ext_run P [] c = Some c"
| "ext_run P (op # ops) c = (case ext_call P op c of None \<Rightarrow> None | Some c \<Rightarrow> ext_run P ops c)"

fun frame_indices :: "boundary_event list \<Rightarrow> u64 list" where
  "frame_indices [] = []"
| "frame_indices (FrameRecovered c i d k n # es) = i # frame_indices es"
| "frame_indices (_ # es) = frame_indices es"

fun is_closed_event :: "boundary_event \<Rightarrow> bool" where
  "is_closed_event (ConnectionClosed c r) = True"
| "is_closed_event _ = False"

definition ext_wf :: "ext_conn \<Rightarrow> bool" where
  "ext_wf c \<longleftrightarrow> hd (ex_events c) = ConnectionAccepted (ex_id c) \<and> ex_events c \<noteq> []
     \<and> frame_indices (ex_events c) = map of_nat [0..<length (frame_indices (ex_events c))]
     \<and> ex_frame_index c = of_nat (length (frame_indices (ex_events c)))
     \<and> length (filter is_closed_event (ex_events c)) = (if ex_state c = XClosed then 1 else 0)
     \<and> ex_state c \<noteq> XClosing
     \<and> (ex_state c = XClosed \<longrightarrow> ext_protocol_state c = Closed \<and> ex_decoder c = decoder_new)
     \<and> (limit_hit c \<longrightarrow> ex_state c = XClosed)"

definition ext_live :: "ext_conn \<Rightarrow> bool" where
  "ext_live c \<longleftrightarrow> ext_wf c \<and> ex_state c \<noteq> XClosed"

lemma frame_indices_append [simp]: "frame_indices (xs @ ys) = frame_indices xs @ frame_indices ys"
  by (induction xs rule: frame_indices.induct) auto

section \<open>Every step keeps the log well formed\<close>

lemma ext_wf_push:
  assumes "ext_live c" "frame_indices [e] = []" "\<not> is_closed_event e"
    "case e of FrameRejected i a d \<Rightarrow> a \<noteq> ''Limit'' | _ \<Rightarrow> True"
  shows "ext_live (ext_push_event e c)"
proof -
  have "\<not> limit_hit (ext_push_event e c)" using assms(1,4) by (auto simp: ext_live_def ext_wf_def split: boundary_event.splits)
  with assms show ?thesis
    by (simp add: ext_live_def ext_wf_def) (auto simp: ext_push_event_def hd_append)
qed

lemma ext_wf_recovered: "ext_live c \<Longrightarrow> ext_live (frame_recovered raw c)"
  by (simp add: ext_live_def ext_wf_def frame_recovered_def Let_def) (auto simp: ext_push_event_def hd_append limit_hit_def)

lemma ext_live_frame:
  "ext_live c \<Longrightarrow> ext_live (c\<lparr>ex_stateful := x\<rparr>)"
  "ext_live c \<Longrightarrow> ext_live (c\<lparr>ex_decoder := d\<rparr>)"
  "ext_live c \<Longrightarrow> ext_live (c\<lparr>ex_stream := w\<rparr>)" "ext_live c \<Longrightarrow> ext_live (c\<lparr>ex_written := z\<rparr>)"
  "ext_live c \<Longrightarrow> ext_live (c\<lparr>ex_outbound := z\<rparr>)"
  "ext_live c \<Longrightarrow> ext_live (set_conn_state XReading c)"
  "ext_live c \<Longrightarrow> ext_live (set_conn_state XProtocolActive c)"
  by (auto simp: ext_live_def ext_wf_def set_conn_state_def limit_hit_def)

lemma ext_wf_begin_close:
  assumes "ext_live c"
  shows "ext_wf (ext_begin_close r c)"
  using assms
  by (auto simp: ext_live_def ext_wf_def ext_begin_close_def Let_def set_conn_state_def ext_push_event_def
      limit_hit_def hd_append ext_protocol_state_def session_finish_close_def session_begin_close_def close_state_def)


lemma ext_wf_reject_close:
  assumes "ext_live c"
  shows "ext_wf (ext_begin_close r (ext_reject k d c))"
  using assms
  by (auto simp: ext_live_def ext_wf_def ext_begin_close_def Let_def set_conn_state_def ext_push_event_def ext_reject_def
      limit_hit_def hd_append ext_protocol_state_def session_finish_close_def session_begin_close_def close_state_def)

lemma ext_live_reject: "ext_live c \<Longrightarrow> k \<noteq> CatLimit \<Longrightarrow> ext_live (ext_reject k d c)"
  unfolding ext_reject_def by (rule ext_wf_push) (cases k; simp)+

lemma ext_live_wf: "ext_live c \<Longrightarrow> ext_wf c"
  by (simp add: ext_live_def)

lemma ext_wf_reject: "ext_live c \<Longrightarrow> k \<noteq> CatLimit \<Longrightarrow> ext_wf (ext_reject k d c)"
  using ext_live_reject ext_live_wf by blast

text \<open>What a call leaves: well formed, and still open when it reports success.\<close>

definition left_ok :: "(boundary_error + 'a) \<times> ext_conn \<Rightarrow> bool" where
  "left_ok r \<longleftrightarrow> ext_wf (snd r) \<and> (is_ok (fst r) \<longrightarrow> ext_live (snd r))"

lemma left_ok_simps [simp]:
  "left_ok (Inr x, c) \<longleftrightarrow> ext_live c" "left_ok (Inl e, c) \<longleftrightarrow> ext_wf c"
  by (auto simp: left_ok_def ext_live_def)

lemma write_out_left: "ext_live c \<Longrightarrow> left_ok (write_out bs c)"
  using ext_live_frame(3) [of "c\<lparr>ex_written := ex_written c @ [bs]\<rparr>"] ext_live_frame(4)
  by (auto simp: write_out_def ext_live_frame ext_live_wf split: option.split list.split)

lemma apply_response_left: "ext_live c \<Longrightarrow> apply_response P c a = Some r \<Longrightarrow> left_ok r"
  by (cases a) (auto simp: Let_def ext_live_frame ext_live_wf write_out_left ext_wf_reject_close split: option.splits sum.splits)

lemma apply_responses_left: "ext_live c \<Longrightarrow> apply_responses P c as = Some r \<Longrightarrow> left_ok r"
proof (induction "as" arbitrary: c)
  case (Cons a "as")
  then show ?case
    using apply_response_left [OF Cons.prems(1), of P a] by (auto split: option.splits sum.splits)
qed auto

lemma handle_raw_frame_left:
  assumes "ext_live c" "handle_raw_frame P c raw = Some r"
  shows "left_ok r"
proof -
  have live: "ext_live (frame_recovered raw c\<lparr>ex_stateful := x\<rparr>)" for x
    using assms(1) by (intro ext_live_frame ext_wf_recovered)
  have note_live: "ext_live d \<Longrightarrow> ext_live (ext_push_event (ProtocolNote n p l) d)" for d n p l
    by (rule ext_wf_push) simp_all
  show ?thesis
  proof (cases "frame_verdict P c raw")
    case (Inr v)
    then have "ext_live (snd v)"
      using live note_live ext_live_frame(7)
      by (auto simp: frame_verdict_def Let_def split: prod.splits sum.splits if_splits)
    then show ?thesis
      using assms(2) Inr apply_responses_left by (auto simp: handle_raw_frame_verdict split: prod.splits)
  next
    case (Inl v)
    then have "ext_wf (snd v)"
      using live note_live
      by (auto simp: frame_verdict_def Let_def split: prod.splits sum.splits if_splits
          intro!: ext_wf_reject_close ext_wf_begin_close ext_live_reject ext_wf_reject note_live)
    then show ?thesis using assms(2) Inl by (auto simp: handle_raw_frame_verdict split: prod.splits)
  qed
qed

lemma handle_raw_frames_left:
  assumes "ext_live c" "handle_raw_frames P c n raws = Some r"
  shows "left_ok r"
  using assms
proof (induction raws arbitrary: c n)
  case (Cons raw raws)
  then show ?case
    using handle_raw_frame_left [OF Cons.prems(1), of P raw] by (auto split: option.splits sum.splits)
qed auto

lemma bytes_logged_live:
  assumes "ext_live c"
  shows "ext_live (bytes_logged bs c\<lparr>ex_decoder := d\<rparr>)"
proof -
  have "ext_live (ext_push_event (BytesReceived (ex_id c) (length bs)) c)"
    using assms by (rule ext_wf_push) simp_all
  then show ?thesis by (simp add: bytes_logged_def Let_def ext_live_frame)
qed

lemma feed_bytes_left:
  assumes "ext_live c" "feed_bytes P bs c = Some (r, c')"
  shows "left_ok (r, c')"
  using assms(2)
proof (cases rule: feed_bytes_cases)
  case (handled fs d)
  show ?thesis by (rule handle_raw_frames_left [OF bytes_logged_live [OF assms(1)] handled(4)])
qed (use assms(1) bytes_logged_live ext_wf_reject_close in \<open>auto simp: ext_live_wf\<close>)


section \<open>No call panics\<close>

definition ext_ctx :: "ext_conn \<Rightarrow> bool" where
  "ext_ctx c \<longleftrightarrow> context_valid (bs_crypto (ss_session (ex_stateful c)))"

text \<open>A server connection in step with an open boundary connection.\<close>

lemma ext_live_in_step:
  assumes "ext_live c" "ext_ctx c"
  obtains t s where "in_step t c s" "conn_ok s"
proof -
  let ?t = "ex_stream c \<noteq> None"
  let ?s = "\<lparr>cn_local = \<lparr>lb_connection_id = ex_id c, lb_stateful = ex_stateful c\<rparr>, cn_decoder = ex_decoder c,
     cn_writes = (case ex_stream c of None \<Rightarrow> [] | Some ws \<Rightarrow> ws),
     cn_sent = (if ?t then ex_written c else ex_outbound c), cn_shutdown = False, cn_traces = []\<rparr>"
  have "in_step ?t c ?s" "conn_ok ?s"
    using assms by (auto simp: in_step_def sent_same_def conn_ok_def ext_ctx_def ext_live_def ext_wf_def)
  then show thesis by (rule that)
qed

lemma feed_bytes_total:
  assumes "aead_ok P" "ext_wf c" "ext_ctx c"
  obtains r c' where "feed_bytes P bs c = Some (r, c')" "ext_wf c'" "ext_ctx c'"
proof (cases "ex_state c = XClosed")
  case True
  then have "feed_bytes P bs c = Some (Inl BeAlreadyClosed, c)" by (simp add: feed_bytes_def)
  then show thesis using assms(2,3) by (rule that)
next
  case False
  then have live: "ext_live c" using assms(2) by (simp add: ext_live_def)
  obtain t s where step: "in_step t c s" "conn_ok s" using ext_live_in_step [OF live assms(3)] .
  obtain r c' where feed: "feed_bytes P bs c = Some (r, c')"
    using feed_bytes_some [OF assms(1) step(2,1)] by blast
  have logged: "ex_stateful (bytes_logged bs c) = ex_stateful c"
    by (simp add: bytes_logged_def Let_def)
  from feed have "ext_ctx c'"
  proof (cases rule: feed_bytes_cases)
    case (handled fs d)
    have "conn_ok (s\<lparr>cn_decoder := d\<rparr>)" using step(2) by (simp add: conn_ok_def)
    then obtain y s1 where pf: "process_frames P (s\<lparr>cn_decoder := d\<rparr>) fs = Some (y, s1)" "conn_ok s1"
      using process_frames_some [OF assms(1)] by blast
    have "same_outcome t (Some (r, c')) (Some (y, s1))"
      using handle_raw_frames_in_step [OF in_step_ready [OF step(1), where bs = bs and d = d], of P 0 fs] handled(4) pf(1)
      by simp
    then show ?thesis
      using pf(2) by (cases r; cases y) (simp_all add: ext_ctx_def conn_ok_def in_step_def)
  qed (use assms(3) logged in \<open>simp_all add: ext_ctx_def\<close>)
  with feed feed_bytes_left [OF live feed] show thesis by (intro that) (auto simp: left_ok_def)
qed

lemma ext_wf_close: "ext_wf c \<Longrightarrow> ext_wf (ext_begin_close r c)"
proof (cases "ex_state c = XClosed")
  case True
  moreover assume "ext_wf c"
  ultimately show ?thesis by (simp add: ext_begin_close_def)
next
  case False
  moreover assume "ext_wf c"
  ultimately show ?thesis by (intro ext_wf_begin_close) (simp add: ext_live_def)
qed

lemma ext_call_total:
  assumes "aead_ok P" "ext_wf c" "ext_ctx c"
  obtains c' where "ext_call P op c = Some c'" "ext_wf c'" "ext_ctx c'"
proof (cases op)
  case (FeedOp bs)
  obtain r c' where "feed_bytes P bs c = Some (r, c')" "ext_wf c'" "ext_ctx c'"
    using feed_bytes_total [OF assms] .
  then show thesis using FeedOp by (intro that) simp_all
next
  case (CloseOp r)
  show thesis
    by (rule that [of "ext_begin_close r c"]) (use assms(2,3) CloseOp ext_wf_close in \<open>simp_all add: ext_close_def ext_ctx_def\<close>)
next
  case EofOp
  show thesis
    by (rule that [of "ext_begin_close ''eof'' c"]) (use assms(2,3) EofOp ext_wf_close in \<open>simp_all add: notify_eof_def ext_ctx_def\<close>)
next
  case (AttachOp ws)
  show thesis
    by (rule that [of "attach_stream ws c"]) (use assms(2,3) AttachOp in \<open>simp_all add: attach_stream_def ext_ctx_def ext_wf_def ext_protocol_state_def limit_hit_def\<close>)
next
  case TakeOp
  show thesis
    by (rule that [of "snd (take_outbound c)"]) (use assms(2,3) TakeOp in \<open>simp_all add: take_outbound_def ext_ctx_def ext_wf_def ext_protocol_state_def limit_hit_def\<close>)
qed

lemma ext_run_total:
  assumes "aead_ok P" "ext_wf c" "ext_ctx c"
  shows "\<exists>c'. ext_run P ops c = Some c' \<and> ext_wf c'"
  using assms(2,3)
proof (induction ops arbitrary: c)
  case (Cons op ops)
  obtain c1 where c1: "ext_call P op c = Some c1" "ext_wf c1" "ext_ctx c1"
    using ext_call_total [OF assms(1) Cons.prems] .
  then show ?case using Cons.IH [OF c1(2,3)] by simp
qed simp

lemma ext_with_material_wf:
  assumes "ext_with_material i mat = Inr c"
  shows "ext_wf c" "ext_ctx c"
proof -
  note ok = ext_with_material_ok [OF assms]
  show "ext_wf c" using ok by (simp add: ext_wf_def limit_hit_def)
  have "bap_session_new (sm_key mat) (sm_nonce mat) = Inr (ss_session (ex_stateful c))"
    using with_material_ok [OF ok(8)] by simp
  then have "context_valid (bs_crypto (ss_session (ex_stateful c)))" by (rule bap_session_new_valid)
  then show "ext_ctx c" by (simp add: ext_ctx_def)
qed

section \<open>Properties\<close>

text \<open>
  C7. A boundary connection survives whatever its owner does: for every sequence of fed bytes,
  closings, end-of-file notices, attached streams and drained replies no call panics, and after
  it the log opens with the acceptance, the recovered frames are numbered without a gap, the
  connection is never left half closed, and it is closed exactly when the log reports one
  closing, with the protocol at its end and the decoder emptied.
\<close>

theorem boundary_lifecycle:
  assumes "aead_ok P" "ext_with_material i mat = Inr c"
  shows "\<exists>c'. ext_run P ops c = Some c' \<and> ext_wf c'"
  by (rule ext_run_total [OF assms(1) ext_with_material_wf [OF assms(2)]])


lemma synthetic_boundary: "\<exists>c. ext_new_synthetic i = Inr c"
  using context_new_ok [of SYNTHETIC_SESSION_KEY SYNTHETIC_SESSION_NONCE]
  by (auto simp: ext_new_synthetic_def ext_with_material_def with_material_def bap_session_new_def Let_def
      SYNTHETIC_SESSION_KEY_def SYNTHETIC_SESSION_NONCE_def)

theorem boundary_lifecycle_witness:
  "\<exists>c c'. ext_new_synthetic 7 = Inr c
     \<and> ext_run demo_aead [FeedOp [0xDE, 0x10], AttachOp [None], FeedOp [0xFF], EofOp, FeedOp [1]] c = Some c'
     \<and> ext_wf c'"
proof -
  obtain c where c: "ext_new_synthetic 7 = Inr c" using synthetic_boundary by blast
  from boundary_lifecycle [OF demo_aead_ok this [unfolded ext_new_synthetic_def]] c show ?thesis by blast
qed

text \<open>
  C6. The boundary is the local server with limits: given the same bytes in the same pieces and
  the same failures of the socket, both return, the boundary ends closed, and what it wrote is
  what the server wrote, all of it unless one of the boundary's own limits stopped it, and the
  beginning of it if one did.
\<close>

theorem boundary_matches_server:
  assumes "aead_ok P"
  shows "\<exists>r s w sink'.
     handle_connection P i stream writes SYNTHETIC_SESSION_KEY SYNTHETIC_SESSION_NONCE [] = Some (Inr (r, s))
     \<and> run_connection_worker P i stream writes sink = Some (Some w, sink') \<and> served_same (bw_conn w) s"
  using assms by (rule worker_serves_same)

theorem boundary_matches_server_witness:
  "\<exists>r s w sink'.
     handle_connection demo_aead 3 [IoData [0xDE, 0xC0], IoData [1, 2, 3], IoError WouldBlock ''late''] [None]
       SYNTHETIC_SESSION_KEY SYNTHETIC_SESSION_NONCE [] = Some (Inr (r, s))
     \<and> run_connection_worker demo_aead 3 [IoData [0xDE, 0xC0], IoData [1, 2, 3], IoError WouldBlock ''late''] [None] []
         = Some (Some w, sink') \<and> served_same (bw_conn w) s"
  by (rule boundary_matches_server [OF demo_aead_ok])

section \<open>Only this machine\<close>

text \<open>
  The listener binds to a loopback address or not at all. \<open>localhost\<close> and \<open>::1\<close> pass the name
  check and then fail to parse as the host of a socket address.
\<close>

lemma listener_local:
  assumes "listener_bind config os = Inr bound"
  shows "el_host config = ''127.0.0.1''" "os = Inr bound"
    "sa_ip bound = IPv4 127 0 0 1 \<or> sa_ip bound = IPv6 [0, 0, 0, 0, 0, 0, 0, 1]"
  using assms by (auto simp: listener_bind_def assert_localhost_bind_def split: if_splits sum.splits ip_addr.splits)

lemma listener_names_refused:
  "el_host config \<in> set [''localhost'', ''::1''] \<Longrightarrow>
     listener_bind config os = Inl (BeBind ''invalid socket address syntax'')"
  by (auto simp: listener_bind_def)

end
