(* ===== verification/Ordered_Map.thy ===== *)
theory Ordered_Map
  imports Prelude "HOL-Library.List_Lexorder" "HOL-Library.Char_ord" "HOL-Library.Multiset"
begin

text \<open>
  What the offline analyses use of \<open>BTreeMap\<close> and \<open>BTreeSet\<close>: an ordered map with the entry
  operation and iteration by ascending key, as a locale, and association lists in key order
  as the model. Strings are ordered by their bytes.
\<close>

section \<open>The contract\<close>

locale ordered_map =
  fixes empty :: 'm
    and get :: "'m \<Rightarrow> 'k::linorder \<Rightarrow> 'v option"
    and entry :: "'k \<Rightarrow> 'v \<Rightarrow> ('v \<Rightarrow> 'v) \<Rightarrow> 'm \<Rightarrow> 'm"
    and entries :: "'m \<Rightarrow> ('k \<times> 'v) list"
    and ok :: "'m \<Rightarrow> bool"
  assumes ok_empty: "ok empty"
    and get_empty: "get empty k = None"
    and ok_entry: "ok m \<Longrightarrow> ok (entry k d f m)"
    and get_entry: "ok m \<Longrightarrow> get (entry k d f m) = (get m)(k \<mapsto> f (case get m k of None \<Rightarrow> d | Some v \<Rightarrow> v))"
    and entries_sorted: "ok m \<Longrightarrow> sorted_wrt (<) (map fst (entries m))"
    and entries_get: "ok m \<Longrightarrow> (k, v) \<in> set (entries m) \<longleftrightarrow> get m k = Some v"
begin

lemma keys_set: "ok m \<Longrightarrow> fst ` set (entries m) = dom (get m)"
  using entries_get by force

lemma keys_exact:
  assumes "ok m"
  shows "finite (dom (get m))" "map fst (entries m) = sorted_list_of_set (dom (get m))"
proof -
  show "finite (dom (get m))" by (simp flip: keys_set [OF assms])
  have s: "sorted (map fst (entries m)) \<and> distinct (map fst (entries m))"
    using entries_sorted [OF assms] by (simp add: strict_sorted_iff)
  have "set (map fst (entries m)) = dom (get m)" using keys_set [OF assms] by simp
  with s show "map fst (entries m) = sorted_list_of_set (dom (get m))"
    by (metis sorted_list_of_set.idem_if_sorted_distinct)
qed

lemma entries_exact:
  assumes "ok m"
  shows "entries m = map (\<lambda>k. (k, the (get m k))) (sorted_list_of_set (dom (get m)))"
proof -
  have "map (\<lambda>k. (k, the (get m k))) (map fst (entries m)) = map (\<lambda>x. x) (entries m)"
    unfolding map_map comp_def using entries_get [OF assms] by (intro map_cong) force+
  then show ?thesis by (simp add: keys_exact(2) [OF assms])
qed

text \<open>Equal look-ups give equal maps as far as anything iterating over them can tell.\<close>

lemma entries_determined: "ok m \<Longrightarrow> ok n \<Longrightarrow> get m = get n \<Longrightarrow> entries m = entries n"
  by (simp add: entries_exact)

text \<open>Filling a map from a sequence: a key sees the elements that have it, in order.\<close>

lemma fill:
  assumes "ok m"
  shows "ok (foldl (\<lambda>m x. entry (key x) (d x) (f x) m) m xs)"
    "get (foldl (\<lambda>m x. entry (key x) (d x) (f x) m) m xs) k =
       (case filter (\<lambda>x. key x = k) xs of [] \<Rightarrow> get m k
        | x # ys \<Rightarrow> Some (foldl (\<lambda>v x. f x v) (case get m k of None \<Rightarrow> d x | Some v \<Rightarrow> v) (x # ys)))"
  using assms
  by (induction xs arbitrary: m) (auto simp: ok_entry get_entry split: list.split option.splits)

lemma fill_dom: "dom (get (foldl (\<lambda>m x. entry (key x) (d x) (f x) m) empty xs)) = key ` set xs"
proof -
  have "get (foldl (\<lambda>m x. entry (key x) (d x) (f x) m) empty xs) k \<noteq> None \<longleftrightarrow> filter (\<lambda>x. key x = k) xs \<noteq> []" for k
    by (simp add: fill [OF ok_empty] get_empty split: list.split)
  then show ?thesis by (auto simp: dom_def filter_empty_conv)
qed

lemma fill_keys:
  "map fst (entries (foldl (\<lambda>m x. entry (key x) (d x) (f x) m) empty xs)) = sorted_list_of_set (key ` set xs)"
  by (simp add: keys_exact(2) fill(1) [OF ok_empty] fill_dom)

end

section \<open>Association lists in key order\<close>

type_synonym ('k, 'v) btree = "('k \<times> 'v) list"

fun bt_get :: "('k::linorder, 'v) btree \<Rightarrow> 'k \<Rightarrow> 'v option" where
  "bt_get [] k = None"
| "bt_get ((a, v) # m) k = (if k = a then Some v else if k < a then None else bt_get m k)"

text \<open>\<open>entry(k).or_insert(d)\<close>, with \<open>f\<close> applied to the value in place.\<close>

fun bt_entry :: "'k::linorder \<Rightarrow> 'v \<Rightarrow> ('v \<Rightarrow> 'v) \<Rightarrow> ('k, 'v) btree \<Rightarrow> ('k, 'v) btree" where
  "bt_entry k d f [] = [(k, f d)]"
| "bt_entry k d f ((a, v) # m) =
     (if k = a then (a, f v) # m else if k < a then (k, f d) # (a, v) # m else (a, v) # bt_entry k d f m)"

definition bt_insert :: "'k::linorder \<Rightarrow> 'v \<Rightarrow> ('k, 'v) btree \<Rightarrow> ('k, 'v) btree" where
  "bt_insert k v m = bt_entry k v (\<lambda>_. v) m"

text \<open>\<open>*m.entry(k).or_insert(0) += 1\<close>\<close>

definition bt_count :: "'k::linorder \<Rightarrow> ('k, u32) btree \<Rightarrow> ('k, u32) btree" where
  "bt_count k m = bt_entry k 0 (\<lambda>n. n + 1) m"

text \<open>The same with 64-bit counters.\<close>

definition bt_count64 :: "'k::linorder \<Rightarrow> ('k, u64) btree \<Rightarrow> ('k, u64) btree" where
  "bt_count64 k m = bt_entry k 0 (\<lambda>n. n + 1) m"

definition bt_keys :: "('k, 'v) btree \<Rightarrow> 'k list" where "bt_keys m = map fst m"
definition bt_vals :: "('k, 'v) btree \<Rightarrow> 'v list" where "bt_vals m = map snd m"

definition bt_ok :: "('k::linorder, 'v) btree \<Rightarrow> bool" where
  "bt_ok m \<longleftrightarrow> sorted_wrt (<) (map fst m)"

definition bs_insert :: "'k::linorder \<Rightarrow> 'k list \<Rightarrow> 'k list" where
  "bs_insert x s = insort_insert x s"

lemma bt_entry_keys: "fst ` set (bt_entry k d f m) = insert k (fst ` set m)"
  by (induction k d f m rule: bt_entry.induct) auto

lemma bt_ok_entry: "bt_ok m \<Longrightarrow> bt_ok (bt_entry k d f m)"
  unfolding bt_ok_def
proof (induction k d f m rule: bt_entry.induct)
  case (2 k d f a v m)
  then show ?case using bt_entry_keys [of k d f m] by (auto simp: image_iff)
qed simp

lemma bt_get_map_of: "bt_ok m \<Longrightarrow> bt_get m k = map_of m k"
  unfolding bt_ok_def
proof (induction m k rule: bt_get.induct)
  case (2 a v m k)
  have "map_of m k = None" if "k < a"
    using 2(2) that by (simp add: map_of_eq_None_iff) fastforce
  with 2 show ?case by simp
qed simp

lemma bt_get_entry:
  "bt_ok m \<Longrightarrow> bt_get (bt_entry k d f m) = (bt_get m)(k \<mapsto> f (case bt_get m k of None \<Rightarrow> d | Some v \<Rightarrow> v))"
  unfolding bt_ok_def
proof (induction k d f m rule: bt_entry.induct)
  case (2 k d f a v m)
  then show ?case by (auto simp: fun_eq_iff)
qed auto

interpretation bt: ordered_map "[]" bt_get bt_entry id bt_ok
proof
  fix m :: "('a, 'b) btree" and k v
  assume ok: "bt_ok m"
  then show "sorted_wrt (<) (map fst (id m))" by (simp add: bt_ok_def)
  have "distinct (map fst m)" using ok by (simp add: bt_ok_def strict_sorted_iff)
  then show "((k, v) \<in> set (id m)) = (bt_get m k = Some v)" by (simp add: bt_get_map_of [OF ok])
qed (simp_all add: bt_ok_entry bt_get_entry, simp add: bt_ok_def)


section \<open>Counting\<close>

text \<open>How often each key occurs, by ascending key.\<close>

definition tally :: "('a \<Rightarrow> 'k::linorder) \<Rightarrow> 'a list \<Rightarrow> ('k, u32) btree" where
  "tally key xs = map (\<lambda>k. (k, of_nat (length (filter (\<lambda>x. key x = k) xs)))) (sorted_list_of_set (key ` set xs))"

lemma foldl_inc: "foldl (\<lambda>n x. n + 1) (c :: u32) xs = c + of_nat (length xs)"
  by (induction xs arbitrary: c) (simp_all add: algebra_simps)

lemma count_tally: "foldl (\<lambda>m x. bt_count (key x) m) [] xs = tally key xs"
proof -
  let ?m = "foldl (\<lambda>m x. bt_entry (key x) (0 :: u32) (\<lambda>n. n + 1) m) [] xs"
  have get: "bt_get ?m k = (case filter (\<lambda>x. key x = k) xs of [] \<Rightarrow> None
      | ys \<Rightarrow> Some (of_nat (length ys)))" for k
    by (subst bt.fill(2) [OF bt.ok_empty]) (simp add: foldl_inc split: list.split)
  have ok: "bt_ok ?m" by (rule bt.fill(1) [OF bt.ok_empty])
  have dom: "dom (bt_get ?m) = key ` set xs"
    by (rule bt.fill_dom)
  have "the (bt_get ?m k) = of_nat (length (filter (\<lambda>x. key x = k) xs))" if "k \<in> key ` set xs" for k
    using that by (auto simp: get filter_empty_conv split: list.split)
  then have "map (\<lambda>k. (k, the (bt_get ?m k))) (sorted_list_of_set (key ` set xs)) = tally key xs"
    unfolding tally_def by (intro map_cong) simp_all
  then have "?m = tally key xs"
    using bt.entries_exact [OF ok] by (simp only: dom id_apply)
  then show ?thesis by (simp add: bt_count_def)
qed

lemma bs_insert_set: "finite A \<Longrightarrow> bs_insert x (sorted_list_of_set A) = sorted_list_of_set (insert x A)"
  by (cases "x \<in> A") (simp_all add: bs_insert_def insort_insert_key_def insert_absorb)

lemma bs_insert_fold:
  "finite A \<Longrightarrow> foldl (\<lambda>s x. bs_insert (key x) s) (sorted_list_of_set A) xs = sorted_list_of_set (A \<union> key ` set xs)"
proof (induction xs arbitrary: A)
  case (Cons x xs)
  then show ?case
    using Cons.IH [of "insert (key x) A"] by (simp add: bs_insert_set del: sorted_list_of_set_insert_remove)
qed simp

lemma length_by_key: "sum_list (map (\<lambda>k. length (filter (\<lambda>x. key x = k) xs)) (sorted_list_of_set (key ` set xs))) = length xs"
proof -
  have "sum_list (map (\<lambda>k. length (filter (\<lambda>x. key x = k) xs)) (sorted_list_of_set (key ` set xs)))
      = (\<Sum>k \<in> key ` set xs. count_list (map key xs) k)"
    by (simp add: sum_list_distinct_conv_sum_set count_list_eq_length_filter filter_map comp_def eq_commute)
  also have "\<dots> = length (map key xs)" by (rule sum_count_set) simp_all
  finally show ?thesis by simp
qed


text \<open>The groups of a sequence by key hold every element once.\<close>

lemma mset_by_key:
  assumes "finite I" "key ` set xs \<subseteq> I"
  shows "mset (concat (map (\<lambda>i. filter (\<lambda>x. key x = i) xs) (sorted_list_of_set I))) = mset xs"
proof (rule multiset_eqI)
  fix x
  have "count (mset (concat (map (\<lambda>i. filter (\<lambda>x. key x = i) xs) (sorted_list_of_set I)))) x
      = (\<Sum>i \<in> I. if i = key x then count (mset xs) x else 0)"
    using assms(1)
    by (simp add: mset_concat comp_def sum_list_distinct_conv_sum_set count_sum eq_commute cong: if_cong)
  also have "\<dots> = count (mset xs) x"
    using assms by (auto simp: sum.delta count_eq_zero_iff)
  finally show "count (mset (concat (map (\<lambda>i. filter (\<lambda>x. key x = i) xs) (sorted_list_of_set I)))) x = count (mset xs) x" .
qed

text \<open>A quantity every entry operation adds to is conserved.\<close>

lemma bt_sum_entry:
  fixes g :: "'v \<Rightarrow> 'a::comm_monoid_add"
  assumes "\<And>v. g (f v) = g v + c" "g d = 0"
  shows "sum_list (map g (bt_vals (bt_entry k d f m))) = sum_list (map g (bt_vals m)) + c"
proof (induction m)
  case (Cons e m)
  then show ?case by (cases e) (simp add: bt_vals_def assms ac_simps)
qed (simp add: bt_vals_def assms)

lemma bt_sum_fill:
  fixes g :: "'v \<Rightarrow> 'a::comm_monoid_add"
  assumes "\<And>x v. g (f x v) = g v + c x" "\<And>x. g (d x) = 0"
  shows "sum_list (map g (bt_vals (foldl (\<lambda>m x. bt_entry (key x) (d x) (f x) m) [] xs))) = sum_list (map c xs)"
proof -
  have "sum_list (map g (bt_vals (foldl (\<lambda>m x. bt_entry (key x) (d x) (f x) m) m xs)))
      = sum_list (map g (bt_vals m)) + sum_list (map c xs)" for m
    by (induction xs arbitrary: m) (simp_all add: bt_sum_entry [OF assms] ac_simps)
  from this [of "[]"] show ?thesis by (simp add: bt_vals_def)
qed

end
