(* ===== verification/Json_Value.thy ===== *)
theory Json_Value
  imports Ordered_Map
begin

text \<open>
  The values \<open>serde_json::Value\<close> has, as far as the code matches on them: objects are maps
  iterated by ascending key, a number is kept as its text. With them the tests on key names the
  evidence readers share, and where in a document a key stands.
\<close>

datatype json =
    JNull
  | JBool bool
  | JNumber string
  | JString string
  | JArray "json list"
  | JObject "(string \<times> json) list"

section \<open>Tests on texts\<close>

fun str_contains :: "string \<Rightarrow> string \<Rightarrow> bool" where
  "str_contains needle [] = (needle = [])"
| "str_contains needle (c # cs) = (is_prefix needle (c # cs) \<or> str_contains needle cs)"

definition str_ends_with :: "string \<Rightarrow> string \<Rightarrow> bool" where
  "str_ends_with s e = is_prefix (rev e) (rev s)"

definition ascii_lower :: "char \<Rightarrow> char" where
  "ascii_lower c = (let k = of_char c :: nat in if 65 \<le> k \<and> k \<le> 90 then char_of (k + 32) else c)"

definition to_ascii_lowercase :: "string \<Rightarrow> string" where
  "to_ascii_lowercase = map ascii_lower"

lemma infix_Cons:
  "(\<exists>u v. c # cs = u @ xs @ v) \<longleftrightarrow> (\<exists>v. c # cs = xs @ v) \<or> (\<exists>u v. cs = u @ xs @ v)"
proof
  assume "\<exists>u v. c # cs = u @ xs @ v"
  then obtain u v where "c # cs = u @ xs @ v" by blast
  then show "(\<exists>v. c # cs = xs @ v) \<or> (\<exists>u v. cs = u @ xs @ v)" by (cases u) auto
next
  assume "(\<exists>v. c # cs = xs @ v) \<or> (\<exists>u v. cs = u @ xs @ v)"
  then show "\<exists>u v. c # cs = u @ xs @ v"
  proof (elim disjE exE)
    fix v
    assume "c # cs = xs @ v"
    then show ?thesis by (intro exI [of _ "[]"] exI [of _ v]) simp
  next
    fix u v
    assume "cs = u @ xs @ v"
    then show ?thesis by (intro exI [of _ "c # u"] exI [of _ v]) simp
  qed
qed

lemma str_contains_iff: "str_contains needle s \<longleftrightarrow> (\<exists>u v. s = u @ needle @ v)"
  by (induction s) (simp_all only: str_contains.simps is_prefix_iff infix_Cons, simp)

section \<open>The keys of a document\<close>

fun json_keys :: "json \<Rightarrow> string list"
  and entries_keys :: "(string \<times> json) list \<Rightarrow> string list"
  and items_keys :: "json list \<Rightarrow> string list" where
  "json_keys (JObject m) = entries_keys m"
| "json_keys (JArray xs) = items_keys xs"
| "json_keys JNull = []"
| "json_keys (JBool b) = []"
| "json_keys (JNumber n) = []"
| "json_keys (JString s) = []"
| "entries_keys [] = []"
| "entries_keys ((k, v) # m) = k # json_keys v @ entries_keys m"
| "items_keys [] = []"
| "items_keys (v # vs) = json_keys v @ items_keys vs"

end
