(* ===== verification/Boundary_Harness.thy ===== *)
theory Boundary_Harness
  imports Boundary_Lifecycle Accept_Loop Json_Value
begin

text \<open>
  The harness of \<open>network/src/external_client_boundary.rs\<close>: its accept thread beside the worker
  threads and the caller who asks it to stop, with the counter of active connections, the ids and
  the event collector they share; the test client; and the check of a safe trace file. Every
  atomic access is a step of its own. A worker that panics never gives its slot back: the model
  has that phase, and the theory shows that it is not reached.
\<close>

section \<open>State\<close>

text \<open>
  A thread is spawned, serves its connection round by round, has returned, or is gone (its slot
  given back). The worker it serves is there from its start on.
\<close>

datatype harness_phase = HpSpawned | HpServing | HpReturned | HpGone | HpPanicked

record harness_thread =
  ht_id :: u64
  ht_peer :: socket_addr
  ht_stream :: tcp_stream
  ht_writes :: "string option list"
  ht_worker :: "boundary_worker option"
  ht_phase :: harness_phase

text \<open>The socket accepted last, carried by the accept thread until it is handed to a worker.\<close>

record harness_socket =
  hs_peer :: socket_addr
  hs_stream :: tcp_stream
  hs_writes :: "string option list"

datatype harness_pc =
    HaLoop
  | HaAccept
  | HaLocal harness_socket
  | HaAdmitted harness_socket
  | HaCounted harness_socket
  | HaNumbered u64 harness_socket
  | HaEnded

record harness_state =
  hn_pc :: harness_pc
  hn_stop :: bool
  hn_next_id :: u64
  hn_active :: u64
  hn_threads :: "harness_thread list"
  hn_sink :: "boundary_event list"

definition harness_init :: harness_state where
  "harness_init =
     \<lparr>hn_pc = HaLoop, hn_stop = False, hn_next_id = 1, hn_active = 0, hn_threads = [], hn_sink = []\<rparr>"

text \<open>\<open>start\<close>: the listener is bound first; then the accept thread runs.\<close>

definition harness_start :: "ext_listener_config \<Rightarrow> string + socket_addr \<Rightarrow> boundary_error + socket_addr \<times> harness_state" where
  "harness_start config os = map_sum id (\<lambda>addr. (addr, harness_init)) (listener_bind config os)"

definition harness_events :: "harness_state \<Rightarrow> boundary_event list" where
  "harness_events s = hn_sink s"

definition active_connections :: "harness_state \<Rightarrow> u64" where
  "active_connections s = hn_active s"

section \<open>Steps\<close>

datatype harness_event =
    HeTop
  | HeAccept harness_socket
  | HeWouldBlock
  | HeAcceptError
  | HeCheck
  | HeCount
  | HeTakeId
  | HeSpawn
  | HeStart nat
  | HeRound nat
  | HeRelease nat
  | HeStop

fun accept_harness :: "nat \<Rightarrow> harness_event \<Rightarrow> harness_state \<Rightarrow> harness_state option" where
  "accept_harness max_conn HeTop s =
     (if hn_pc s = HaLoop then Some (s\<lparr>hn_pc := if hn_stop s then HaEnded else HaAccept\<rparr>) else None)"
| "accept_harness max_conn (HeAccept sock) s =
     (if hn_pc s = HaAccept
      then Some (s\<lparr>hn_pc := if is_ok (assert_localhost_bind (hs_peer sock)) then HaLocal sock else HaLoop\<rparr>)
      else None)"
| "accept_harness max_conn HeWouldBlock s =
     (if hn_pc s = HaAccept then Some (s\<lparr>hn_pc := HaLoop\<rparr>) else None)"
| "accept_harness max_conn HeAcceptError s =
     (if hn_pc s = HaAccept then Some (s\<lparr>hn_pc := HaEnded\<rparr>) else None)"
| "accept_harness max_conn HeCheck s =
     (case hn_pc s of
        HaLocal sock \<Rightarrow>
          Some (s\<lparr>hn_pc := if unat (hn_active s) \<ge> max_conn then HaLoop else HaAdmitted sock\<rparr>)
      | _ \<Rightarrow> None)"
| "accept_harness max_conn HeCount s =
     (case hn_pc s of
        HaAdmitted sock \<Rightarrow> Some (s\<lparr>hn_pc := HaCounted sock, hn_active := hn_active s + 1\<rparr>)
      | _ \<Rightarrow> None)"
| "accept_harness max_conn HeTakeId s =
     (case hn_pc s of
        HaCounted sock \<Rightarrow> Some (s\<lparr>hn_pc := HaNumbered (hn_next_id s) sock, hn_next_id := hn_next_id s + 1\<rparr>)
      | _ \<Rightarrow> None)"
| "accept_harness max_conn HeSpawn s =
     (case hn_pc s of
        HaNumbered i sock \<Rightarrow>
          Some (s\<lparr>hn_pc := HaLoop,
                  hn_threads := hn_threads s @
                    [\<lparr>ht_id = i, ht_peer = hs_peer sock, ht_stream = hs_stream sock, ht_writes = hs_writes sock,
                      ht_worker = None, ht_phase = HpSpawned\<rparr>]\<rparr>)
      | _ \<Rightarrow> None)"
| "accept_harness max_conn (HeStart k) s = None"
| "accept_harness max_conn (HeRound k) s = None"
| "accept_harness max_conn (HeRelease k) s = None"
| "accept_harness max_conn HeStop s = None"

text \<open>\<open>run_connection_worker\<close> step by step: up to the first flush, then one round of the loop.\<close>

definition thread_start :: "harness_thread \<Rightarrow> boundary_event list \<Rightarrow> harness_thread \<times> boundary_event list" where
  "thread_start t sink =
     (case worker_start (ht_id t) (ht_stream t) (ht_writes t) sink of
        None \<Rightarrow> (t\<lparr>ht_phase := HpReturned\<rparr>, sink)
      | Some (w, sink') \<Rightarrow> (t\<lparr>ht_worker := Some w, ht_phase := HpServing\<rparr>, sink'))"

definition thread_round ::
  "aead_prims \<Rightarrow> harness_thread \<Rightarrow> boundary_event list \<Rightarrow> harness_thread \<times> boundary_event list" where
  "thread_round P t sink =
     (case ht_worker t of
        None \<Rightarrow> (t, sink)
      | Some w \<Rightarrow>
          (case worker_iter P w sink of
             None \<Rightarrow> (t\<lparr>ht_phase := HpPanicked\<rparr>, sink)
           | Some (w', sink') \<Rightarrow>
               (t\<lparr>ht_worker := Some w', ht_phase := if bw_done w' then HpReturned else HpServing\<rparr>, sink')))"

definition set_thread :: "nat \<Rightarrow> harness_thread \<times> boundary_event list \<Rightarrow> harness_state \<Rightarrow> harness_state" where
  "set_thread k ts s = s\<lparr>hn_threads := (hn_threads s)[k := fst ts], hn_sink := snd ts\<rparr>"

fun harness_step :: "aead_prims \<Rightarrow> nat \<Rightarrow> harness_event \<Rightarrow> harness_state \<Rightarrow> harness_state option" where
  "harness_step P max_conn (HeStart k) s =
     (if k < length (hn_threads s) \<and> ht_phase (hn_threads s ! k) = HpSpawned
      then Some (set_thread k (thread_start (hn_threads s ! k) (hn_sink s)) s) else None)"
| "harness_step P max_conn (HeRound k) s =
     (if k < length (hn_threads s) \<and> ht_phase (hn_threads s ! k) = HpServing
      then Some (set_thread k (thread_round P (hn_threads s ! k) (hn_sink s)) s) else None)"
| "harness_step P max_conn (HeRelease k) s =
     (if k < length (hn_threads s) \<and> ht_phase (hn_threads s ! k) = HpReturned
      then Some ((set_thread k ((hn_threads s ! k)\<lparr>ht_phase := HpGone\<rparr>, hn_sink s) s)\<lparr>hn_active := hn_active s - 1\<rparr>)
      else None)"
| "harness_step P max_conn HeStop s = Some (s\<lparr>hn_stop := True\<rparr>)"
| "harness_step P max_conn e s = accept_harness max_conn e s"

inductive harness_reachable :: "aead_prims \<Rightarrow> nat \<Rightarrow> harness_state \<Rightarrow> bool" for P max_conn where
  harness_begin: "harness_reachable P max_conn harness_init"
| harness_next: "harness_reachable P max_conn s \<Longrightarrow> harness_step P max_conn e s = Some t \<Longrightarrow> harness_reachable P max_conn t"

fun harness_run :: "aead_prims \<Rightarrow> nat \<Rightarrow> harness_event list \<Rightarrow> harness_state \<Rightarrow> harness_state option" where
  "harness_run P max_conn [] s = Some s"
| "harness_run P max_conn (e # es) s =
     (case harness_step P max_conn e s of None \<Rightarrow> None | Some t \<Rightarrow> harness_run P max_conn es t)"

text \<open>
  \<open>accept_one\<close> of the listener, for callers that have no harness: the next id is taken when the
  peer is of this machine.
\<close>

definition accept_one :: "u64 \<Rightarrow> string + socket_addr \<Rightarrow> (boundary_error + u64) \<times> u64" where
  "accept_one next_id os =
     (case os of
        Inl msg \<Rightarrow> (Inl (BeAccept msg), next_id)
      | Inr peer \<Rightarrow>
          (case assert_localhost_bind peer of
             Inl e \<Rightarrow> (Inl e, next_id)
           | Inr _ \<Rightarrow> (Inr next_id, next_id + 1)))"

definition open_connection_synthetic :: "u64 \<Rightarrow> boundary_error + ext_conn" where
  "open_connection_synthetic connection_id = ext_new_synthetic connection_id"

section \<open>The test client\<close>

text \<open>An open stream is what the next writes and reads report.\<close>

record boundary_client =
  bc_stream :: "(string option list \<times> tcp_stream) option"
  bc_written :: "bytes list"
  bc_session :: bap_session

definition bc_with_keys :: "bytes \<Rightarrow> bytes \<Rightarrow> boundary_error + boundary_client" where
  "bc_with_keys key nonce =
     (case bap_session_new key nonce of
        Inl e \<Rightarrow> Inl (BeCrypto (show_bap_session_error e))
      | Inr s \<Rightarrow> Inr \<lparr>bc_stream = None, bc_written = [], bc_session = s\<rparr>)"

definition bc_with_synthetic :: "boundary_error + boundary_client" where
  "bc_with_synthetic = bc_with_keys SYNTHETIC_SESSION_KEY SYNTHETIC_SESSION_NONCE"

definition bc_connect ::
  "socket_addr \<Rightarrow> string + string option list \<times> tcp_stream \<Rightarrow> boundary_client
   \<Rightarrow> (boundary_error + unit) \<times> boundary_client" where
  "bc_connect addr os c =
     (case assert_localhost_bind addr of
        Inl e \<Rightarrow> (Inl e, c)
      | Inr _ \<Rightarrow>
          (case os of
             Inl msg \<Rightarrow> (Inl (BeIo msg), c)
           | Inr s \<Rightarrow> (Inr (), c\<lparr>bc_stream := Some s\<rparr>)))"

definition bc_send_raw :: "bytes \<Rightarrow> boundary_client \<Rightarrow> (boundary_error + unit) \<times> boundary_client" where
  "bc_send_raw bs c =
     (case bc_stream c of
        None \<Rightarrow> (Inl BeNotConnected, c)
      | Some (Some msg # writes, reads) \<Rightarrow> (Inl (BeIo msg), c\<lparr>bc_stream := Some (writes, reads)\<rparr>)
      | Some (writes, reads) \<Rightarrow>
          (Inr (), c\<lparr>bc_stream := Some (tl writes, reads), bc_written := bc_written c @ [bs]\<rparr>))"

definition bc_send_clear :: "u16 \<Rightarrow> bytes \<Rightarrow> boundary_client \<Rightarrow> ((boundary_error + unit) \<times> boundary_client) option" where
  "bc_send_clear mid payload c = map_option (\<lambda>bs. bc_send_raw bs c) (encode_clear mid 1 payload)"

definition bc_send_encrypted ::
  "aead_prims \<Rightarrow> u16 \<Rightarrow> bytes \<Rightarrow> boundary_client \<Rightarrow> ((boundary_error + unit) \<times> boundary_client) option" where
  "bc_send_encrypted P mid payload c =
     (case encode_encrypted P (bc_session c) ClientToServer mid 1 payload of
        None \<Rightarrow> None
      | Some (Inl e, s) \<Rightarrow> Some (Inl (BeCrypto (show_bap_session_error e)), c\<lparr>bc_session := s\<rparr>)
      | Some (Inr bs, s) \<Rightarrow> Some (bc_send_raw bs (c\<lparr>bc_session := s\<rparr>)))"

fun bc_send_parts :: "bytes list \<Rightarrow> boundary_client \<Rightarrow> (boundary_error + unit) \<times> boundary_client" where
  "bc_send_parts [] c = (Inr (), c)"
| "bc_send_parts (p # ps) c =
     (case bc_send_raw p c of (Inl e, c') \<Rightarrow> (Inl e, c') | (Inr _, c') \<Rightarrow> bc_send_parts ps c')"

text \<open>\<open>bytes.chunks(chunk)\<close> cuts at one size, never zero.\<close>

definition bc_send_fragmented :: "bytes \<Rightarrow> nat \<Rightarrow> boundary_client \<Rightarrow> (boundary_error + unit) \<times> boundary_client" where
  "bc_send_fragmented bs chunk c = bc_send_parts (chunk_loop [max chunk 1] 0 bs) c"

definition bc_send_multiple :: "bytes list \<Rightarrow> boundary_client \<Rightarrow> (boundary_error + unit) \<times> boundary_client" where
  "bc_send_multiple frames c = bc_send_raw (concat frames) c"

definition bc_read_some :: "nat \<Rightarrow> boundary_client \<Rightarrow> (boundary_error + bytes) \<times> boundary_client" where
  "bc_read_some n c =
     (case bc_stream c of
        None \<Rightarrow> (Inl BeNotConnected, c)
      | Some (writes, reads) \<Rightarrow>
          (case stream_read n reads of
             (Inl (kind, msg), reads') \<Rightarrow> (Inl (BeIo msg), c\<lparr>bc_stream := Some (writes, reads')\<rparr>)
           | (Inr bs, reads') \<Rightarrow> (Inr bs, c\<lparr>bc_stream := Some (writes, reads')\<rparr>)))"

definition bc_close :: "boundary_client \<Rightarrow> boundary_client" where
  "bc_close c = c\<lparr>bc_stream := None\<rparr>"

section \<open>Safe trace files\<close>

record safe_trace_event =
  te_connection_id :: u64
  te_event :: string
  te_frame_index :: "u64 option"
  te_direction :: "string option"
  te_kind :: "u8 option"
  te_body_len :: "nat option"
  te_protocol_state :: "string option"
  te_result :: "string option"

record safe_trace_file =
  tf_name :: string
  tf_notes :: "string list"
  tf_expected_result :: string
  tf_events :: "safe_trace_event list"

definition unsafe_words :: "string list" where
  "unsafe_words = [''payload'', ''ciphertext'', ''plaintext'', ''hmac'', ''token'', ''credential'']"

text \<open>The encoder serde derives is a parameter, \<open>None\<close> an event it cannot write.\<close>

definition validate_safe_trace :: "(safe_trace_event \<Rightarrow> string option) \<Rightarrow> safe_trace_file \<Rightarrow> boundary_error + unit" where
  "validate_safe_trace encode trace =
     (if \<exists>e \<in> set (tf_events trace).
           (let blob = (case encode e of None \<Rightarrow> [] | Some t \<Rightarrow> t) in \<exists>w \<in> set unsafe_words. str_contains w blob)
      then Inl (BeProtocol ''unsafe_trace_field'') else Inr ())"

section \<open>Slots, ids and peers\<close>

definition thread_live :: "harness_thread \<Rightarrow> bool" where
  "thread_live t \<longleftrightarrow> ht_phase t \<noteq> HpGone"

definition live_count :: "harness_state \<Rightarrow> nat" where
  "live_count s = length (filter thread_live (hn_threads s))"

fun ha_counted :: "harness_pc \<Rightarrow> nat" where
  "ha_counted (HaCounted k) = 1"
| "ha_counted (HaNumbered i k) = 1"
| "ha_counted (HaAdmitted k) = 0"
| "ha_counted (HaLocal k) = 0"
| "ha_counted HaLoop = 0"
| "ha_counted HaAccept = 0"
| "ha_counted HaEnded = 0"

fun ha_pending :: "harness_pc \<Rightarrow> nat" where
  "ha_pending (HaAdmitted k) = 1"
| "ha_pending (HaCounted k) = 1"
| "ha_pending (HaNumbered i k) = 1"
| "ha_pending (HaLocal k) = 0"
| "ha_pending HaLoop = 0"
| "ha_pending HaAccept = 0"
| "ha_pending HaEnded = 0"

fun ha_ids :: "harness_pc \<Rightarrow> u64 list" where
  "ha_ids (HaNumbered i k) = [i]"
| "ha_ids (HaCounted k) = []"
| "ha_ids (HaAdmitted k) = []"
| "ha_ids (HaLocal k) = []"
| "ha_ids HaLoop = []"
| "ha_ids HaAccept = []"
| "ha_ids HaEnded = []"

fun ha_local :: "harness_pc \<Rightarrow> bool" where
  "ha_local (HaNumbered i k) = is_ok (assert_localhost_bind (hs_peer k))"
| "ha_local (HaCounted k) = is_ok (assert_localhost_bind (hs_peer k))"
| "ha_local (HaAdmitted k) = is_ok (assert_localhost_bind (hs_peer k))"
| "ha_local (HaLocal k) = is_ok (assert_localhost_bind (hs_peer k))"
| "ha_local HaLoop = True"
| "ha_local HaAccept = True"
| "ha_local HaEnded = True"

definition thread_ok :: "harness_thread \<Rightarrow> bool" where
  "thread_ok t \<longleftrightarrow> ht_phase t \<noteq> HpPanicked \<and> is_ok (assert_localhost_bind (ht_peer t))
     \<and> (ht_phase t = HpSpawned \<longrightarrow> ht_worker t = None)
     \<and> (ht_phase t = HpServing \<longrightarrow> (\<exists>w. ht_worker t = Some w \<and> ext_wf (bw_conn w) \<and> ext_ctx (bw_conn w)))
     \<and> (\<forall>w. ht_worker t = Some w \<longrightarrow> ex_id (bw_conn w) = ht_id t)"

text \<open>What the accept thread and the counters keep among themselves, whatever the workers do.\<close>

definition slots_inv :: "nat \<Rightarrow> harness_state \<Rightarrow> bool" where
  "slots_inv max_conn s \<longleftrightarrow>
     unat (hn_active s) = live_count s + ha_counted (hn_pc s)
     \<and> live_count s + ha_pending (hn_pc s) \<le> max_conn
     \<and> ha_local (hn_pc s)
     \<and> map ht_id (hn_threads s) @ ha_ids (hn_pc s) = ids_from 1 (length (hn_threads s) + length (ha_ids (hn_pc s)))
     \<and> hn_next_id s = 1 + of_nat (length (hn_threads s) + length (ha_ids (hn_pc s)))"

lemma ha_counted_pending: "ha_counted p \<le> ha_pending p"
  by (cases p) simp_all

lemma accept_harness_slots:
  assumes "accept_harness max_conn e s = Some t" "slots_inv max_conn s" "max_conn < 2 ^ 64"
  shows "slots_inv max_conn t"
proof (cases e)
  case HeCheck
  then show ?thesis using assms
    by (auto simp: slots_inv_def live_count_def split: harness_pc.splits if_splits)
next
  case HeCount
  with assms obtain k where pc: "hn_pc s = HaAdmitted k"
      "t = s\<lparr>hn_pc := HaCounted k, hn_active := hn_active s + 1\<rparr>"
    by (auto split: harness_pc.splits)
  then have "unat (hn_active s) + 1 < 2 ^ 64" using assms(2,3) by (simp add: slots_inv_def)
  then have "unat (hn_active s + 1) = unat (hn_active s) + 1"
    by (simp add: unat_word_ariths mod_less)
  then show ?thesis using pc assms(2) by (simp add: slots_inv_def live_count_def)
next
  case HeTakeId
  then show ?thesis using assms
    by (auto simp: slots_inv_def live_count_def ids_from_Suc split: harness_pc.splits)
next
  case HeSpawn
  then show ?thesis using assms
    by (auto simp: slots_inv_def live_count_def thread_live_def split: harness_pc.splits)
qed (use assms in \<open>auto simp: slots_inv_def live_count_def split: if_splits\<close>)

text \<open>A thread that steps keeps its id and, unless it is released, its slot.\<close>

lemma thread_start_frame:
  "ht_id (fst (thread_start t sink)) = ht_id t" "ht_peer (fst (thread_start t sink)) = ht_peer t"
  "thread_live (fst (thread_start t sink))"
  by (auto simp: thread_start_def thread_live_def split: option.splits)

lemma thread_round_frame:
  "ht_id (fst (thread_round P t sink)) = ht_id t" "ht_peer (fst (thread_round P t sink)) = ht_peer t"
  "ht_phase t = HpServing \<Longrightarrow> thread_live (fst (thread_round P t sink))"
  by (auto simp: thread_round_def thread_live_def split: option.splits)

lemma map_update_same: "k < length xs \<Longrightarrow> f y = f (xs ! k) \<Longrightarrow> map f (xs[k := y]) = map f xs"
  by (simp add: map_update list_update_same_conv)

lemma filter_update_same:
  "k < length xs \<Longrightarrow> p y = p (xs ! k) \<Longrightarrow> length (filter p (xs[k := y])) = length (filter p xs)"
proof (induction xs arbitrary: k)
  case (Cons x xs)
  then show ?case by (cases k) auto
qed simp

lemma filter_update_less:
  "k < length xs \<Longrightarrow> \<not> p y \<Longrightarrow> p (xs ! k) \<Longrightarrow> Suc (length (filter p (xs[k := y]))) = length (filter p xs)"
proof (induction xs arbitrary: k)
  case (Cons x xs)
  then show ?case by (cases k) auto
qed simp

lemma set_thread_slots:
  assumes "k < length (hn_threads s)" "ht_id (fst ts) = ht_id (hn_threads s ! k)"
    "thread_live (fst ts) = thread_live (hn_threads s ! k)" "slots_inv max_conn s"
  shows "slots_inv max_conn (set_thread k ts s)"
  using assms map_update_same [of k "hn_threads s" ht_id "fst ts"]
    filter_update_same [of k "hn_threads s" thread_live "fst ts"]
  by (simp add: slots_inv_def set_thread_def live_count_def)

lemma release_slots:
  assumes "k < length (hn_threads s)" "ht_phase (hn_threads s ! k) = HpReturned" "slots_inv max_conn s"
  shows "slots_inv max_conn ((set_thread k ((hn_threads s ! k)\<lparr>ht_phase := HpGone\<rparr>, x) s)\<lparr>hn_active := hn_active s - 1\<rparr>)"
proof -
  let ?t = "(hn_threads s ! k)\<lparr>ht_phase := HpGone\<rparr>"
  have ids: "map ht_id ((hn_threads s)[k := ?t]) = map ht_id (hn_threads s)"
    using assms(1) by (intro map_update_same) simp_all
  have less: "Suc (length (filter thread_live ((hn_threads s)[k := ?t]))) = length (filter thread_live (hn_threads s))"
    using assms(1,2) by (intro filter_update_less) (simp_all add: thread_live_def)
  have "0 < length (filter thread_live (hn_threads s))" using less by linarith
  then have "unat (hn_active s) \<noteq> 0" using assms(3) unfolding slots_inv_def live_count_def by linarith
  then have "unat (hn_active s - 1) = unat (hn_active s) - 1"
    by (metis unat_0 unat_minus_one)
  then show ?thesis
    using assms(3) ids less by (auto simp: slots_inv_def set_thread_def live_count_def)
qed

lemma harness_step_slots:
  assumes "harness_step P max_conn e s = Some t" "slots_inv max_conn s" "max_conn < 2 ^ 64"
  shows "slots_inv max_conn t"
proof -
  have th: "slots_inv max_conn t" if "harness_step P max_conn e s = accept_harness max_conn e s"
    using accept_harness_slots [of max_conn e s t] assms that by simp
  show ?thesis
  proof (cases e)
    case (HeStart k)
    with assms(1) have k: "k < length (hn_threads s)" "ht_phase (hn_threads s ! k) = HpSpawned"
        "t = set_thread k (thread_start (hn_threads s ! k) (hn_sink s)) s"
      by (auto split: if_splits)
    show ?thesis
      unfolding k(3) using k(1,2) assms(2) thread_start_frame
      by (intro set_thread_slots) (auto simp: thread_live_def)
  next
    case (HeRound k)
    with assms(1) have k: "k < length (hn_threads s)" "ht_phase (hn_threads s ! k) = HpServing"
        "t = set_thread k (thread_round P (hn_threads s ! k) (hn_sink s)) s"
      by (auto split: if_splits)
    have "thread_live (hn_threads s ! k)" using k(2) by (simp add: thread_live_def)
    then show ?thesis
      unfolding k(3) using k(1,2) assms(2) thread_round_frame
      by (intro set_thread_slots) auto
  next
    case (HeRelease k)
    with assms(1,2) show ?thesis by (auto split: if_splits intro: release_slots)
  next
    case HeStop
    with assms(1,2) show ?thesis by (auto simp: slots_inv_def live_count_def)
  qed (rule th, simp)+
qed

section \<open>The workers and the collector\<close>

definition events_of :: "u64 \<Rightarrow> boundary_event list \<Rightarrow> boundary_event list" where
  "events_of i sink = filter (\<lambda>e. event_id e = i) sink"

definition thread_log :: "harness_thread \<Rightarrow> boundary_event list" where
  "thread_log t = (case ht_worker t of None \<Rightarrow> [] | Some w \<Rightarrow> ex_events (bw_conn w))"

text \<open>The collector holds for every thread exactly what it logged, and nothing else.\<close>

definition collector_ok :: "harness_thread list \<Rightarrow> boundary_event list \<Rightarrow> bool" where
  "collector_ok ths sink \<longleftrightarrow> (\<forall>t \<in> set ths. events_of (ht_id t) sink = thread_log t)
     \<and> event_id ` set sink \<subseteq> ht_id ` set ths"

text \<open>A step of one thread: its own part of the collector follows its log, the others are untouched.\<close>

definition own_step :: "harness_thread \<Rightarrow> boundary_event list \<Rightarrow> harness_thread \<times> boundary_event list \<Rightarrow> bool" where
  "own_step t sink ts \<longleftrightarrow> ht_id (fst ts) = ht_id t \<and> thread_ok (fst ts)
     \<and> (events_of (ht_id t) sink = thread_log t \<longrightarrow>
          events_of (ht_id t) (snd ts) = thread_log (fst ts)
        \<and> event_id ` set (snd ts) \<subseteq> insert (ht_id t) (event_id ` set sink)
        \<and> (\<forall>i. i \<noteq> ht_id t \<longrightarrow> events_of i (snd ts) = events_of i sink))"

lemma flush_events_of:
  assumes "events_of (ex_id c) sink = ex_events c" "ext_extends c c'"
  shows "events_of (ex_id c) (flush_events sink c') = ex_events c'"
    "event_id ` set (flush_events sink c') \<subseteq> insert (ex_id c) (event_id ` set sink)"
    "i \<noteq> ex_id c \<Longrightarrow> events_of i (flush_events sink c') = events_of i sink"
proof -
  have own: "own_events sink c = ex_events c" using assms(1) by (simp add: own_events_def events_of_def)
  have id: "ex_id c' = ex_id c" using assms(2) by (simp add: ext_extends_def)
  show "events_of (ex_id c) (flush_events sink c') = ex_events c'"
    using flush_own(1) [OF own assms(2)] id by (simp add: own_events_def events_of_def)
  show "event_id ` set (flush_events sink c') \<subseteq> insert (ex_id c) (event_id ` set sink)"
    using flush_own(2) [OF own assms(2)] .
  assume "i \<noteq> ex_id c"
  then show "events_of i (flush_events sink c') = events_of i sink"
    using flush_own(3) [OF own assms(2), of "c\<lparr>ex_id := i\<rparr>"] by (simp add: own_events_def events_of_def)
qed

lemma start_own_step:
  assumes "thread_ok t" "ht_phase t = HpSpawned"
  shows "own_step t sink (thread_start t sink)"
proof -
  obtain c where c: "ext_new_synthetic (ht_id t) = Inr c" using synthetic_boundary by blast
  note ok = ext_with_material_ok [OF c [unfolded ext_new_synthetic_def]]
  note wf = ext_with_material_wf [OF c [unfolded ext_new_synthetic_def]]
  let ?c = "attach_stream (ht_writes t) c"
  have st: "thread_start t sink = (t\<lparr>ht_worker := Some \<lparr>bw_conn = ?c, bw_stream = ht_stream t, bw_done = False\<rparr>,
      ht_phase := HpServing\<rparr>, flush_events sink ?c)"
    by (simp add: thread_start_def worker_start_def c Let_def)
  have "ext_live c" using wf(1) ok(3) by (simp add: ext_live_def)
  then have "ext_wf ?c" using ext_live_frame(3) ext_live_wf by (auto simp: attach_stream_def)
  moreover have "ext_ctx ?c" using wf(2) by (simp add: attach_stream_def ext_ctx_def)
  ultimately have "thread_ok (fst (thread_start t sink))"
    using assms ok(1) by (simp add: thread_ok_def st attach_stream_def)
  moreover have "events_of (ht_id t) (snd (thread_start t sink)) = thread_log (fst (thread_start t sink))
      \<and> event_id ` set (snd (thread_start t sink)) \<subseteq> insert (ht_id t) (event_id ` set sink)
      \<and> (\<forall>i. i \<noteq> ht_id t \<longrightarrow> events_of i (snd (thread_start t sink)) = events_of i sink)"
    if own: "events_of (ht_id t) sink = thread_log t"
  proof -
    have id: "ex_id (?c\<lparr>ex_events := []\<rparr>) = ht_id t" using ok(1) by (simp add: attach_stream_def)
    have e: "events_of (ex_id (?c\<lparr>ex_events := []\<rparr>)) sink = ex_events (?c\<lparr>ex_events := []\<rparr>)"
      using own assms unfolding id by (simp add: thread_ok_def thread_log_def)
    have x: "ext_extends (?c\<lparr>ex_events := []\<rparr>) ?c" using ok(1,2) by (simp add: ext_extends_def attach_stream_def)
    show ?thesis
      using flush_events_of [OF e x] unfolding id st by (auto simp: thread_log_def)
  qed
  ultimately show ?thesis using thread_start_frame(1) by (simp add: own_step_def)
qed

text \<open>A round of a well formed connection never panics; the connection stays well formed while it lasts.\<close>

lemma worker_iter_total:
  assumes "aead_ok P" "ext_wf (bw_conn w)" "ext_ctx (bw_conn w)"
  obtains w' sink' where "worker_iter P w sink = Some (w', sink')"
    "bw_done w' \<or> ext_wf (bw_conn w') \<and> ext_ctx (bw_conn w')"
proof -
  obtain r stream where rd: "stream_read DEFAULT_MAX_READ_CHUNK (bw_stream w) = (r, stream)" by fastforce
  have "\<exists>w' sink'. worker_iter P w sink = Some (w', sink') \<and> (bw_done w' \<or> ext_wf (bw_conn w') \<and> ext_ctx (bw_conn w'))"
  proof (cases r)
    case (Inl e)
    then show ?thesis using rd by (cases e) (simp add: worker_iter_def worker_finish_def)
  next
    case (Inr bs)
    obtain q c where "feed_bytes P bs (bw_conn w) = Some (q, c)" "ext_wf c" "ext_ctx c"
      using feed_bytes_total [OF assms] .
    then show ?thesis using Inr rd by (cases q) (simp_all add: worker_iter_def worker_finish_def)
  qed
  then show thesis using that by blast
qed

lemma round_own_step:
  assumes "thread_ok t" "ht_phase t = HpServing" "aead_ok P"
  shows "own_step t sink (thread_round P t sink)"
proof -
  obtain w where w: "ht_worker t = Some w" "ext_wf (bw_conn w)" "ext_ctx (bw_conn w)" "ex_id (bw_conn w) = ht_id t"
    using assms(1,2) by (auto simp: thread_ok_def)
  obtain w' sink' where it: "worker_iter P w sink = Some (w', sink')"
      "bw_done w' \<or> ext_wf (bw_conn w') \<and> ext_ctx (bw_conn w')"
    using worker_iter_total [OF assms(3) w(2,3)] .
  note ext = worker_iter_extends [OF it(1)]
  have id: "ex_id (bw_conn w') = ht_id t" using ext w(4) by (simp add: ext_extends_def)
  have st: "thread_round P t sink =
      (t\<lparr>ht_worker := Some w', ht_phase := if bw_done w' then HpReturned else HpServing\<rparr>, sink')"
    by (simp add: thread_round_def w(1) it(1))
  have "thread_ok (fst (thread_round P t sink))"
    using assms(1) it(2) id by (auto simp: thread_ok_def st)
  moreover have "events_of (ht_id t) sink' = ex_events (bw_conn w')
      \<and> event_id ` set sink' \<subseteq> insert (ht_id t) (event_id ` set sink)
      \<and> (\<forall>i. i \<noteq> ht_id t \<longrightarrow> events_of i sink' = events_of i sink)"
    if "events_of (ht_id t) sink = thread_log t"
  proof -
    have own: "events_of (ex_id (bw_conn w)) sink = ex_events (bw_conn w)"
      using that w(1,4) by (simp add: thread_log_def)
    show ?thesis
      using ext flush_events_of [OF own, of "bw_conn w'"] own unfolding w(4) by auto
  qed
  ultimately show ?thesis
    using thread_round_frame(1) by (simp add: own_step_def) (simp add: st thread_log_def)
qed

definition serving_inv :: "harness_state \<Rightarrow> bool" where
  "serving_inv s \<longleftrightarrow> (\<forall>t \<in> set (hn_threads s). thread_ok t)
     \<and> (distinct (map ht_id (hn_threads s)) \<longrightarrow> collector_ok (hn_threads s) (hn_sink s))"

lemma set_thread_serving:
  assumes "serving_inv s" "k < length (hn_threads s)" "own_step (hn_threads s ! k) (hn_sink s) ts"
  shows "serving_inv (set_thread k ts s)"
proof -
  let ?ths = "hn_threads s" and ?t = "hn_threads s ! k"
  have id: "ht_id (fst ts) = ht_id ?t" and ok: "thread_ok (fst ts)" using assms(3) by (simp_all add: own_step_def)
  have ids: "map ht_id (?ths[k := fst ts]) = map ht_id ?ths" using assms(2) id by (intro map_update_same)
  then have idset: "ht_id ` set (?ths[k := fst ts]) = ht_id ` set ?ths" by (metis list.set_map)
  have "\<forall>t \<in> set (?ths[k := fst ts]). thread_ok t"
    using assms(1) ok set_update_subset_insert [of ?ths k "fst ts"] by (auto simp: serving_inv_def)
  moreover have "collector_ok (?ths[k := fst ts]) (snd ts)" if dist: "distinct (map ht_id ?ths)"
  proof -
    have log: "collector_ok ?ths (hn_sink s)" using assms(1) dist by (simp add: serving_inv_def)
    then have own: "events_of (ht_id ?t) (hn_sink s) = thread_log ?t" using assms(2) by (simp add: collector_ok_def)
    with assms(3) have st: "events_of (ht_id ?t) (snd ts) = thread_log (fst ts)"
        "event_id ` set (snd ts) \<subseteq> insert (ht_id ?t) (event_id ` set (hn_sink s))"
        "\<And>i. i \<noteq> ht_id ?t \<Longrightarrow> events_of i (snd ts) = events_of i (hn_sink s)"
      by (simp_all add: own_step_def)
    have "events_of (ht_id t) (snd ts) = thread_log t" if "t \<in> set (?ths[k := fst ts])" for t
    proof -
      from that obtain j where j: "j < length ?ths" "t = ?ths[k := fst ts] ! j" by (metis in_set_conv_nth length_list_update)
      show ?thesis
      proof (cases "j = k")
        case True
        then show ?thesis using j(2) assms(2) st(1) id by simp
      next
        case False
        then have "ht_id (?ths ! j) \<noteq> ht_id ?t" using dist j(1) assms(2) by (auto simp: distinct_conv_nth)
        then show ?thesis using False j st(3) log by (simp add: collector_ok_def)
      qed
    qed
    moreover have "event_id ` set (snd ts) \<subseteq> ht_id ` set ?ths"
    proof (rule order_trans [OF st(2)])
      show "insert (ht_id ?t) (event_id ` set (hn_sink s)) \<subseteq> ht_id ` set ?ths"
        using log assms(2) by (simp add: collector_ok_def)
    qed
    ultimately show ?thesis by (simp add: collector_ok_def idset)
  qed
  ultimately show ?thesis by (simp add: serving_inv_def set_thread_def ids)
qed

lemma spawned_serving:
  assumes "serving_inv s" "is_ok (assert_localhost_bind (hs_peer k))"
  shows "serving_inv (s\<lparr>hn_pc := pc, hn_threads := hn_threads s @
     [\<lparr>ht_id = i, ht_peer = hs_peer k, ht_stream = x, ht_writes = y, ht_worker = None, ht_phase = HpSpawned\<rparr>]\<rparr>)"
proof -
  have "events_of i (hn_sink s) = []" if "collector_ok (hn_threads s) (hn_sink s)" "i \<notin> ht_id ` set (hn_threads s)"
    using that by (auto simp: events_of_def collector_ok_def filter_empty_conv)
  then show ?thesis
    using assms by (auto simp: serving_inv_def thread_ok_def collector_ok_def thread_log_def)
qed

lemma harness_step_serving:
  assumes "harness_step P max_conn e s = Some t" "slots_inv max_conn s" "serving_inv s" "aead_ok P"
  shows "serving_inv t"
proof -
  have th: "serving_inv u" if "accept_harness max_conn e s = Some u" for u
  proof (cases "e = HeSpawn")
    case True
    with that obtain i k where "hn_pc s = HaNumbered i k" "u = s\<lparr>hn_pc := HaLoop, hn_threads := hn_threads s @
        [\<lparr>ht_id = i, ht_peer = hs_peer k, ht_stream = hs_stream k, ht_writes = hs_writes k,
          ht_worker = None, ht_phase = HpSpawned\<rparr>]\<rparr>"
      by (auto split: harness_pc.splits)
    then show ?thesis using assms(2) by (simp add: slots_inv_def spawned_serving [OF assms(3)])
  next
    case False
    with that have "hn_threads u = hn_threads s" "hn_sink u = hn_sink s"
      by (cases e; auto split: if_splits harness_pc.splits)+
    then show ?thesis using assms(3) by (simp add: serving_inv_def)
  qed
  have ok: "thread_ok (hn_threads s ! k)" if "k < length (hn_threads s)" for k
    using that assms(3) by (simp add: serving_inv_def)
  show ?thesis
  proof (cases e)
    case (HeStart k)
    with assms(1,3) ok start_own_step show ?thesis
      by (auto split: if_splits intro: set_thread_serving)
  next
    case (HeRound k)
    with assms(1,3,4) ok round_own_step show ?thesis
      by (auto split: if_splits intro: set_thread_serving)
  next
    case (HeRelease k)
    with assms(1) have k: "k < length (hn_threads s)" "ht_phase (hn_threads s ! k) = HpReturned"
        "t = (set_thread k ((hn_threads s ! k)\<lparr>ht_phase := HpGone\<rparr>, hn_sink s) s)\<lparr>hn_active := hn_active s - 1\<rparr>"
      by (auto split: if_splits)
    have "own_step (hn_threads s ! k) (hn_sink s) ((hn_threads s ! k)\<lparr>ht_phase := HpGone\<rparr>, hn_sink s)"
      using ok [OF k(1)] by (auto simp: own_step_def thread_ok_def thread_log_def split: option.split)
    from set_thread_serving [OF assms(3) k(1) this] show ?thesis by (simp add: k(3) serving_inv_def)
  next
    case HeStop
    with assms(1,3) show ?thesis by (auto simp: serving_inv_def)
  qed (use assms(1) th in simp_all)
qed

lemma harness_reachable_inv:
  assumes "harness_reachable P max_conn s" "max_conn < 2 ^ 64" "aead_ok P"
  shows "slots_inv max_conn s" "serving_inv s"
proof -
  have "slots_inv max_conn s \<and> serving_inv s"
    using assms(1)
  proof induction
    case harness_begin
    show ?case
      by (simp add: slots_inv_def serving_inv_def harness_init_def live_count_def ids_from_def collector_ok_def)
  next
    case (harness_next s e t)
    then show ?case using harness_step_slots assms(2) harness_step_serving [OF _ _ _ assms(3)] by blast
  qed
  then show "slots_inv max_conn s" "serving_inv s" by simp_all
qed

lemma harness_run_reachable:
  "harness_run P m es s = Some t \<Longrightarrow> harness_reachable P m s \<Longrightarrow> harness_reachable P m t"
  by (induction es arbitrary: s) (auto split: option.splits intro: harness_next)

section \<open>Stopping\<close>

text \<open>How many more threads the accept thread can spawn once it was asked to stop: at most one.\<close>

fun ha_may_spawn :: "harness_pc \<Rightarrow> nat" where
  "ha_may_spawn (HaNumbered i k) = 1"
| "ha_may_spawn (HaCounted k) = 1"
| "ha_may_spawn (HaAdmitted k) = 1"
| "ha_may_spawn (HaLocal k) = 1"
| "ha_may_spawn HaLoop = 0"
| "ha_may_spawn HaAccept = 1"
| "ha_may_spawn HaEnded = 0"

lemma accept_harness_stopped:
  "accept_harness max_conn e s = Some t \<Longrightarrow> hn_stop s \<Longrightarrow> hn_stop t
     \<and> length (hn_threads t) + ha_may_spawn (hn_pc t) \<le> length (hn_threads s) + ha_may_spawn (hn_pc s)"
  by (cases e) (auto split: if_splits harness_pc.splits)

lemma harness_step_stopped:
  "harness_step P max_conn e s = Some t \<Longrightarrow> hn_stop s \<Longrightarrow> hn_stop t
     \<and> length (hn_threads t) + ha_may_spawn (hn_pc t) \<le> length (hn_threads s) + ha_may_spawn (hn_pc s)"
  using accept_harness_stopped [of max_conn e s t]
  by (cases e) (auto simp: set_thread_def split: if_splits)

lemma stop_ends_accepting:
  assumes "harness_run P max_conn es s = Some t" "hn_stop s"
  shows "length (hn_threads t) \<le> Suc (length (hn_threads s))"
proof -
  have "length (hn_threads t) + ha_may_spawn (hn_pc t) \<le> length (hn_threads s) + ha_may_spawn (hn_pc s)"
    using assms
  proof (induction es arbitrary: s)
    case (Cons e es)
    from Cons.prems(1) obtain u where u: "harness_step P max_conn e s = Some u" "harness_run P max_conn es u = Some t"
      by (auto split: option.splits)
    show ?case using Cons.IH [OF u(2)] harness_step_stopped [OF u(1) Cons.prems(2)] by simp
  qed simp
  moreover have "ha_may_spawn (hn_pc s) \<le> 1" by (cases "hn_pc s") simp_all
  ultimately show ?thesis by simp
qed

section \<open>The test client and the trace check\<close>

text \<open>Fragments are pieces: what a client without write errors sends is the text it was given.\<close>

lemma send_parts_written:
  assumes "bc_stream c = Some ([], reads)"
  shows "bc_send_parts ps c = (Inr (), c\<lparr>bc_written := bc_written c @ ps\<rparr>)"
  using assms
proof (induction ps arbitrary: c)
  case (Cons p ps)
  have "bc_send_raw p c = (Inr (), c\<lparr>bc_written := bc_written c @ [p]\<rparr>)"
    using Cons.prems by (simp add: bc_send_raw_def)
  then show ?case using Cons.IH [of "c\<lparr>bc_written := bc_written c @ [p]\<rparr>"] Cons.prems by simp
qed simp

lemma fragments_complete:
  assumes "bc_stream c = Some ([], reads)"
  shows "fst (bc_send_fragmented bs n c) = Inr ()
    \<and> concat (bc_written (snd (bc_send_fragmented bs n c))) = concat (bc_written c) @ bs"
  using chunk_loop_concat [of "[max n 1]" 0 bs]
  by (simp add: bc_send_fragmented_def send_parts_written [OF assms])

lemma safe_trace_exact:
  "validate_safe_trace encode trace = Inr () \<longleftrightarrow>
     (\<forall>e \<in> set (tf_events trace). \<forall>t. encode e = Some t \<longrightarrow>
        (\<forall>w \<in> set unsafe_words. \<nexists>u v. t = u @ w @ v))"
proof -
  have ne: "w \<noteq> []" if "w \<in> set unsafe_words" for w using that by (auto simp: unsafe_words_def)
  have "(let blob = (case encode e of None \<Rightarrow> [] | Some t \<Rightarrow> t) in \<exists>w \<in> set unsafe_words. str_contains w blob)
      \<longleftrightarrow> (\<exists>t. encode e = Some t \<and> (\<exists>w \<in> set unsafe_words. \<exists>u v. t = u @ w @ v))" for e
    using ne by (cases "encode e") (auto simp: str_contains_iff)
  then show ?thesis by (auto simp: validate_safe_trace_def)
qed

section \<open>Property\<close>

text \<open>
  C8. However the accept thread, the workers and the caller interleave, the counter of active
  connections equals the threads whose slot is not given back (plus the one about to be spawned)
  and never exceeds the limit; no worker panics; only peers of this machine are served; and, as
  long as the 64-bit ids have not wrapped around, ids are distinct and the shared collector holds
  for every connection exactly the events it logged, in order and once, and no others.
\<close>

theorem harness_sound:
  assumes "harness_reachable P max_conn s" "max_conn < 2 ^ 64" "aead_ok P"
    and "length (hn_threads s) \<le> 2 ^ 64"
  shows "unat (hn_active s) = live_count s + ha_counted (hn_pc s)
    \<and> unat (hn_active s) \<le> max_conn
    \<and> list_all (\<lambda>t. ht_phase t \<noteq> HpPanicked) (hn_threads s)
    \<and> list_all (\<lambda>t. assert_localhost_bind (ht_peer t) = Inr ()) (hn_threads s)
    \<and> distinct (map ht_id (hn_threads s))
    \<and> list_all (\<lambda>t. events_of (ht_id t) (hn_sink s) = thread_log t) (hn_threads s)
    \<and> event_id ` set (hn_sink s) \<subseteq> ht_id ` set (hn_threads s)"
proof -
  note inv = harness_reachable_inv [OF assms(1-3)]
  have "map ht_id (hn_threads s) = take (length (hn_threads s)) (map ht_id (hn_threads s) @ ha_ids (hn_pc s))"
    by simp
  also have "\<dots> = ids_from 1 (length (hn_threads s))"
    using inv(1) by (simp add: slots_inv_def ids_from_def take_map take_upt)
  finally have d: "distinct (map ht_id (hn_threads s))"
    using ids_from_distinct [OF assms(4), of 1] by simp
  have loc: "assert_localhost_bind (ht_peer t) = Inr ()" if "t \<in> set (hn_threads s)" for t
    using that inv(2) by (cases "assert_localhost_bind (ht_peer t)") (auto simp: serving_inv_def thread_ok_def)
  show ?thesis
    using inv d loc ha_counted_pending [of "hn_pc s"]
    by (auto simp: slots_inv_def serving_inv_def thread_ok_def collector_ok_def list_all_iff)
qed

text \<open>One connection is served to its end while a peer of another machine is turned away.\<close>

theorem harness_sound_witness:
  "let here = \<lparr>hs_peer = \<lparr>sa_ip = IPv4 127 0 0 1, sa_port = 9\<rparr>, hs_stream = [], hs_writes = []\<rparr>;
       there = \<lparr>hs_peer = \<lparr>sa_ip = IPv4 10 0 0 1, sa_port = 9\<rparr>, hs_stream = [], hs_writes = []\<rparr>
   in \<exists>s. harness_run demo_aead 1 [HeTop, HeAccept there, HeTop, HeAccept here, HeCheck, HeCount, HeTakeId, HeSpawn,
          HeStart 0, HeRound 0] harness_init = Some s
     \<and> length (hn_threads s) = 1 \<and> hn_active s = 1
     \<and> list_all (\<lambda>t. ht_phase t \<noteq> HpPanicked) (hn_threads s)
     \<and> list_all (\<lambda>t. events_of (ht_id t) (hn_sink s) = thread_log t) (hn_threads s)"
proof -
  let ?here = "\<lparr>hs_peer = \<lparr>sa_ip = IPv4 127 0 0 1, sa_port = 9\<rparr>, hs_stream = [], hs_writes = []\<rparr>"
  let ?there = "\<lparr>hs_peer = \<lparr>sa_ip = IPv4 10 0 0 1, sa_port = 9\<rparr>, hs_stream = [], hs_writes = []\<rparr>"
  let ?es = "[HeTop, HeAccept ?there, HeTop, HeAccept ?here, HeCheck, HeCount, HeTakeId, HeSpawn, HeStart 0, HeRound 0]"
  obtain c where c: "ext_new_synthetic 1 = Inr c" using synthetic_boundary by blast
  have "\<exists>s. harness_run demo_aead 1 ?es harness_init = Some s \<and> length (hn_threads s) = 1 \<and> hn_active s = 1"
    by (simp add: harness_init_def assert_localhost_bind_def set_thread_def thread_start_def worker_start_def c Let_def)
  then obtain s where s: "harness_run demo_aead 1 ?es harness_init = Some s" "length (hn_threads s) = 1" "hn_active s = 1"
    by blast
  have "harness_reachable demo_aead 1 s" by (rule harness_run_reachable [OF s(1) harness_begin])
  from harness_sound [OF this] s show ?thesis by (simp add: Let_def demo_aead_ok)
qed

end
