(* ===== verification/Compat_Client.thy ===== *)
theory Compat_Client
  imports Replay_Client External_Boundary
begin

text \<open>
  \<open>network/src/compatibility_client.rs\<close>: the client that is tested against the local server. It keeps
  a protocol state and an event log and builds its session on \<open>connect\<close>. What the operating system
  reports for a connection attempt is an argument, the socket a script as in \<open>Replay_Client\<close>,
  \<open>None\<close> a panic. The theory shows that it reads like the replay client, that its state and its log are
  consistent over every sequence of calls, and that the compatibility scenario succeeds against
  the local server.
\<close>

section \<open>Data\<close>

datatype client_state =
    CcDisconnected
  | CcConnected
  | CcServiceHandshakeSent
  | CcServiceHandshakeComplete
  | CcSessionLoginSent
  | CcSessionEstablished
  | CcEncryptedHandshakeSent
  | CcEncryptedChannelEstablished
  | CcActive
  | CcClosing
  | CcClosed

fun client_state_str :: "client_state \<Rightarrow> string" where
  "client_state_str CcDisconnected = ''DISCONNECTED''"
| "client_state_str CcConnected = ''CONNECTED''"
| "client_state_str CcServiceHandshakeSent = ''SERVICE_HANDSHAKE_SENT''"
| "client_state_str CcServiceHandshakeComplete = ''SERVICE_HANDSHAKE_COMPLETE''"
| "client_state_str CcSessionLoginSent = ''SESSION_LOGIN_SENT''"
| "client_state_str CcSessionEstablished = ''SESSION_ESTABLISHED''"
| "client_state_str CcEncryptedHandshakeSent = ''ENCRYPTED_HANDSHAKE_SENT''"
| "client_state_str CcEncryptedChannelEstablished = ''ENCRYPTED_CHANNEL_ESTABLISHED''"
| "client_state_str CcActive = ''ACTIVE''"
| "client_state_str CcClosing = ''CLOSING''"
| "client_state_str CcClosed = ''CLOSED''"

definition client_state_default :: client_state where
  "client_state_default = CcDisconnected"

datatype client_error =
    CcNotConnected
  | CcExternalEndpoint string
  | CcConnect string
  | CcIo string
  | CcFraming string
  | CcCrypto string
  | CcInvalidMessage string
  | CcUnexpectedMessage u16
  | CcInvalidState string
  | CcAlreadyClosed
  | CcEof

fun show_client_error :: "client_error \<Rightarrow> string" where
  "show_client_error CcNotConnected = ''not connected''"
| "show_client_error (CcExternalEndpoint s) = ''external endpoint rejected: '' @ s"
| "show_client_error (CcConnect s) = ''connect failed: '' @ s"
| "show_client_error (CcIo s) = ''io: '' @ s"
| "show_client_error (CcFraming s) = ''framing: '' @ s"
| "show_client_error (CcCrypto s) = ''crypto: '' @ s"
| "show_client_error (CcInvalidMessage s) = ''invalid message: '' @ s"
| "show_client_error (CcUnexpectedMessage i) = ''unexpected message 0x'' @ show_hex_u16 i"
| "show_client_error (CcInvalidState s) = ''invalid state '' @ s"
| "show_client_error CcAlreadyClosed = ''already closed''"
| "show_client_error CcEof = ''eof''"

datatype client_event =
    EvConnected string
  | EvMessageSent u16 string
  | EvMessageReceived u16 string
  | EvDecoded u16 bool
  | EvStateTransition string string
  | EvCryptoEstablished
  | EvMessageRejected u16 string
  | EvDisconnected

fun client_event_label :: "client_event \<Rightarrow> string" where
  "client_event_label (EvConnected addr) = ''Connected addr='' @ addr"
| "client_event_label (EvMessageSent i d) = ''MessageSent id=0x'' @ show_hex_u16 i @ '' dir='' @ d"
| "client_event_label (EvMessageReceived i d) = ''MessageReceived id=0x'' @ show_hex_u16 i @ '' dir='' @ d"
| "client_event_label (EvDecoded i known) = ''Decoded id=0x'' @ show_hex_u16 i @ '' known='' @ show_bool known"
| "client_event_label (EvStateTransition a b) = ''StateTransition '' @ a @ right_arrow @ b"
| "client_event_label EvCryptoEstablished = ''CryptoEstablished''"
| "client_event_label (EvMessageRejected i r) = ''MessageRejected id=0x'' @ show_hex_u16 i @ '' reason='' @ r"
| "client_event_label EvDisconnected = ''Disconnected''"

text \<open>The text of a socket address; an IPv6 address here has no scope id.\<close>

definition show_socket_addr :: "socket_addr \<Rightarrow> string" where
  "show_socket_addr a =
     (case sa_ip a of
        IPv4 _ _ _ _ \<Rightarrow> show_ip (sa_ip a) @ '':'' @ show_nat (unat (sa_port a))
      | IPv6 _ \<Rightarrow> ''['' @ show_ip (sa_ip a) @ '']:'' @ show_nat (unat (sa_port a)))"

definition opaque_message :: "u16 \<Rightarrow> direction \<Rightarrow> bytes \<Rightarrow> bap_message" where
  "opaque_message i dir payload =
     (let o1 = \<lparr>op_context = SIM_CONTEXT, op_direction = dir, op_payload = payload\<rparr> in
      if i = 0x1E then BKnown (DestinyServiceHandshakeRequest o1)
      else if i = 0x1F then BKnown (DestinyServiceHandshakeResponse o1)
      else if i = 0x19 then BKnown (SessionLoginRequest o1)
      else if i = 0x1A then BKnown (SessionLoginResponse SIM_CONTEXT dir None payload)
      else if i = 0x79 then BKnown (EncryptedHandshakeRequest o1)
      else if i = 0x7A then BKnown (EncryptedHandshakeStatus o1)
      else if i = 0x12E then BKnown (Message0x12E o1)
      else if i = 0x12F then BKnown (Message0x12F o1)
      else if i = 0xFA then BKnown (Message0xFA o1)
      else if i = 0xFB then BKnown (Message0xFB o1)
      else BUnknown \<lparr>um_id = i, um_context = SIM_CONTEXT, um_direction = dir, um_payload = payload\<rparr>)"

definition codec_body :: "bap_message \<Rightarrow> client_error + bytes" where
  "codec_body msg =
     (case encode_message msg of
        Inl e \<Rightarrow> Inl (CcInvalidMessage (show_codec_error e))
      | Inr bs \<Rightarrow> Inr bs)"

fun frame_msg_id :: "decoded_frame \<Rightarrow> u16 option" where
  "frame_msg_id (DClear i _ _) = Some i"
| "frame_msg_id (DDecrypted i _ _ _) = i"
| "frame_msg_id (DOpaque _ _) = None"

definition assert_localhost_only :: "socket_addr \<Rightarrow> client_error + unit" where
  "assert_localhost_only addr =
     (case sa_ip addr of
        IPv4 a b c d \<Rightarrow>
          if IPv4 a b c d = IPv4 127 0 0 1 then Inr () else Inl (CcExternalEndpoint (show_ip (IPv4 a b c d)))
      | IPv6 segs \<Rightarrow>
          if segs = [0, 0, 0, 0, 0, 0, 0, 1] then Inr () else Inl (CcExternalEndpoint (show_ip (IPv6 segs))))"

record compat_client =
  cc_stream :: "tcp_stream option"
  cc_writes :: "string option list"
  cc_sent :: "bytes list"
  cc_session :: "bap_session option"
  cc_key :: bytes
  cc_nonce :: bytes
  cc_decoder :: stream_decoder
  cc_state :: client_state
  cc_dispatcher :: dispatcher
  cc_pending :: "decoded_frame list"
  cc_events :: "client_event list"
  cc_crypto_ready :: bool

definition CC_READ_BUF :: nat where "CC_READ_BUF = 4096"

type_synonym 'a compat_result = "(client_error, 'a, compat_client) step_result"

section \<open>Construction and state\<close>

definition cc_with_material :: "bytes \<Rightarrow> bytes \<Rightarrow> compat_client" where
  "cc_with_material key nonce =
     \<lparr>cc_stream = None, cc_writes = [], cc_sent = [], cc_session = None, cc_key = key, cc_nonce = nonce,
      cc_decoder = decoder_new, cc_state = CcDisconnected, cc_dispatcher = dispatcher_new,
      cc_pending = [], cc_events = [], cc_crypto_ready = False\<rparr>"

definition cc_new_synthetic :: compat_client where
  "cc_new_synthetic = cc_with_material SYNTHETIC_SESSION_KEY SYNTHETIC_SESSION_NONCE"

definition cc_counter :: "compat_client \<Rightarrow> nonce_direction \<Rightarrow> u64" where
  "cc_counter c d = (case cc_session c of None \<Rightarrow> 0 | Some s \<Rightarrow> direction_counter (bs_crypto s) d)"

definition cc_event_log :: "compat_client \<Rightarrow> string list" where
  "cc_event_log c = map client_event_label (cc_events c)"

definition cc_push :: "client_event \<Rightarrow> compat_client \<Rightarrow> compat_client" where
  "cc_push e c = c\<lparr>cc_events := cc_events c @ [e]\<rparr>"

definition cc_set_state :: "client_state \<Rightarrow> compat_client \<Rightarrow> compat_client" where
  "cc_set_state to c =
     (let from = cc_state c in
      if from \<noteq> to
      then (cc_push (EvStateTransition (client_state_str from) (client_state_str to)) c)\<lparr>cc_state := to\<rparr>
      else c)"

text \<open>\<open>attempt\<close> is what the connection attempt reports: an error, or the new socket.\<close>

definition cc_connect_timeout ::
  "socket_addr \<Rightarrow> string + tcp_stream \<times> string option list \<Rightarrow> compat_client \<Rightarrow> (client_error + unit) \<times> compat_client" where
  "cc_connect_timeout addr attempt c =
     (case assert_localhost_only addr of
        Inl e \<Rightarrow> (Inl e, c)
      | Inr _ \<Rightarrow>
          if cc_state c = CcClosed \<or> cc_state c = CcClosing then (Inl CcAlreadyClosed, c)
          else (case attempt of
              Inl msg \<Rightarrow> (Inl (CcConnect msg), c)
            | Inr (stream, writes) \<Rightarrow>
                (case bap_session_new (cc_key c) (cc_nonce c) of
                   Inl e \<Rightarrow> (Inl (CcCrypto (show_bap_session_error e)), c)
                 | Inr session \<Rightarrow>
                     let c = c\<lparr>cc_session := Some session, cc_stream := Some stream, cc_writes := writes,
                               cc_sent := [], cc_decoder := decoder_new, cc_pending := [],
                               cc_crypto_ready := False\<rparr>;
                         c = cc_set_state CcConnected c
                     in (Inr (), cc_push (EvConnected (show_socket_addr addr)) c))))"

text \<open>\<open>connect\<close> is \<open>connect_timeout\<close> with two seconds, after which the attempt reports an error.\<close>

definition cc_connect ::
  "socket_addr \<Rightarrow> string + tcp_stream \<times> string option list \<Rightarrow> compat_client \<Rightarrow> (client_error + unit) \<times> compat_client" where
  "cc_connect addr attempt c = cc_connect_timeout addr attempt c"

definition cc_is_connected :: "compat_client \<Rightarrow> bool" where
  "cc_is_connected c \<longleftrightarrow>
     cc_stream c \<noteq> None \<and> \<not> (cc_state c = CcDisconnected \<or> cc_state c = CcClosed \<or> cc_state c = CcClosing)"

section \<open>Sending\<close>

definition cc_send_raw :: "bytes \<Rightarrow> compat_client \<Rightarrow> (client_error + unit) \<times> compat_client" where
  "cc_send_raw bs c =
     (if cc_stream c = None then (Inl CcNotConnected, c)
      else case cc_writes c of
          Some msg # ws \<Rightarrow> (Inl (CcIo msg), c\<lparr>cc_writes := ws\<rparr>)
        | _ \<Rightarrow> (Inr (), c\<lparr>cc_writes := tl (cc_writes c), cc_sent := cc_sent c @ [bs]\<rparr>))"

definition cc_send_logged :: "u16 \<Rightarrow> bytes \<Rightarrow> compat_client \<Rightarrow> unit compat_result" where
  "cc_send_logged i bs c =
     step_then (Some (cc_send_raw bs c)) (\<lambda>_ c. Some (Inr (), cc_push (EvMessageSent i ''C2S'') c))"

definition cc_send_clear :: "u16 \<Rightarrow> bytes \<Rightarrow> compat_client \<Rightarrow> unit compat_result" where
  "cc_send_clear i payload c =
     (case codec_body (opaque_message i DirClientToServer payload) of
        Inl e \<Rightarrow> Some (Inl e, c)
      | Inr body \<Rightarrow>
          (case encode_clear i SIM_CONTEXT body of
             None \<Rightarrow> None
           | Some bs \<Rightarrow> cc_send_logged i bs c))"

definition cc_send_encrypted :: "aead_prims \<Rightarrow> u16 \<Rightarrow> bytes \<Rightarrow> compat_client \<Rightarrow> unit compat_result" where
  "cc_send_encrypted P i payload c =
     (if \<not> cc_crypto_ready c
         \<and> \<not> cc_state c \<in> set [CcSessionEstablished, CcEncryptedHandshakeSent, CcEncryptedChannelEstablished, CcActive]
      then Some (Inl (CcInvalidState ''crypto not established for encrypted send''), c)
      else case codec_body (opaque_message i DirClientToServer payload) of
        Inl e \<Rightarrow> Some (Inl e, c)
      | Inr body \<Rightarrow>
          (case cc_session c of
             None \<Rightarrow> Some (Inl CcNotConnected, c)
           | Some session \<Rightarrow>
               (case encode_encrypted P session ClientToServer i SIM_CONTEXT body of
                  None \<Rightarrow> None
                | Some (Inl e, s) \<Rightarrow>
                    Some (Inl (CcCrypto (show_bap_session_error e)), c\<lparr>cc_session := Some s\<rparr>)
                | Some (Inr bs, s) \<Rightarrow> cc_send_logged i bs (c\<lparr>cc_session := Some s\<rparr>))))"

definition cc_send_unknown :: "u16 \<Rightarrow> bytes \<Rightarrow> compat_client \<Rightarrow> unit compat_result" where
  "cc_send_unknown i payload c = cc_send_clear i payload c"

section \<open>Receiving\<close>

definition cc_map_framing :: "stream_error \<Rightarrow> client_error" where
  "cc_map_framing e = CcFraming (show_stream_error e)"

fun cc_decode_raws ::
  "aead_prims \<Rightarrow> bap_session option \<Rightarrow> raw_frame list \<Rightarrow> (client_error + decoded_frame list) \<times> bap_session option" where
  "cc_decode_raws P session [] = (Inr [], session)"
| "cc_decode_raws P None (raw # raws) = (Inl CcNotConnected, None)"
| "cc_decode_raws P (Some s) (raw # raws) =
     (case decode_frame P s ServerToClient (rf_raw_bytes raw) of
        (Inr d, s) \<Rightarrow>
          (case cc_decode_raws P (Some s) raws of
             (Inl e, t) \<Rightarrow> (Inl e, t)
           | (Inr ds, t) \<Rightarrow> (Inr (d # ds), t))
      | (Inl SDecryptFailed, s) \<Rightarrow> (Inl (CcCrypto ''GCM decrypt failed''), Some s)
      | (Inl e, s) \<Rightarrow> (Inl (CcCrypto (show_bap_session_error e)), Some s))"

definition cc_feed_bytes ::
  "aead_prims \<Rightarrow> bytes \<Rightarrow> compat_client \<Rightarrow> (client_error + decoded_frame list) \<times> compat_client" where
  "cc_feed_bytes P bs c =
     (case decoder_push (cc_decoder c) bs of
        (Inl e, d) \<Rightarrow> (Inl (cc_map_framing e), c\<lparr>cc_decoder := d\<rparr>)
      | (Inr frames, d) \<Rightarrow>
          (case cc_decode_raws P (cc_session c) frames of
             (r, session) \<Rightarrow> (r, c\<lparr>cc_decoder := d, cc_session := session\<rparr>)))"

function cc_read_loop ::
  "aead_prims \<Rightarrow> tcp_stream \<Rightarrow> compat_client \<Rightarrow> (client_error + decoded_frame) \<times> compat_client" where
  "cc_read_loop P stream c =
     (case stream_read CC_READ_BUF stream of
        (Inl (kind, msg), stream') \<Rightarrow>
          (Inl (CcIo (if kind = WouldBlock \<or> kind = TimedOut then ''timeout'' else msg)),
           c\<lparr>cc_stream := Some stream'\<rparr>)
      | (Inr bs, stream') \<Rightarrow>
          let c = c\<lparr>cc_stream := Some stream'\<rparr> in
          if bs = [] then (Inl CcEof, c)
          else (case cc_feed_bytes P bs c of
              (Inl e, c) \<Rightarrow> (Inl e, c)
            | (Inr [], c) \<Rightarrow> cc_read_loop P stream' c
            | (Inr (first # rest), c) \<Rightarrow> (Inr first, c\<lparr>cc_pending := cc_pending c @ rev rest\<rparr>)))"
  by pat_completeness auto
termination
  by (relation "measure (\<lambda>(P, stream, c). stream_size stream)") (simp_all, metis stream_read_smaller)

declare cc_read_loop.simps [simp del]

definition cc_read_frame :: "aead_prims \<Rightarrow> compat_client \<Rightarrow> (client_error + decoded_frame) \<times> compat_client" where
  "cc_read_frame P c =
     (if cc_pending c \<noteq> [] then (Inr (last (cc_pending c)), c\<lparr>cc_pending := butlast (cc_pending c)\<rparr>)
      else case cc_stream c of
          None \<Rightarrow> (Inl CcNotConnected, c)
        | Some stream \<Rightarrow> cc_read_loop P stream c)"

definition expect_inbound ::
  "decoded_frame \<Rightarrow> u16 \<Rightarrow> bool \<Rightarrow> compat_client \<Rightarrow> (client_error + bap_message) \<times> compat_client" where
  "expect_inbound frame expected encrypted c =
     (case frame_msg_id frame of
        None \<Rightarrow> (Inl (CcInvalidMessage ''opaque frame has no message id''), c)
      | Some i \<Rightarrow>
          if i \<noteq> expected
          then (Inl (CcUnexpectedMessage i),
                cc_push (EvMessageRejected i (''expected 0x'' @ show_hex_u16 expected)) c)
          else if (case frame of
                     DClear _ _ _ \<Rightarrow> encrypted
                   | DDecrypted _ _ _ _ \<Rightarrow> \<not> encrypted
                   | DOpaque _ _ \<Rightarrow> True)
          then (Inl (CcInvalidMessage ''clear/encrypted mismatch''), c)
          else (case decode_from_frame frame DirServerToClient of
              Inl e \<Rightarrow> (Inl (CcInvalidMessage (show_codec_error e)), c)
            | Inr msg \<Rightarrow>
                let c = cc_push (EvMessageReceived i ''S2C'') c;
                    c = cc_push (EvDecoded i (msg_is_known msg)) c
                in (Inr msg, c\<lparr>cc_dispatcher := snd (dispatch (cc_dispatcher c) msg)\<rparr>)))"

definition validate_expected_response ::
  "decoded_frame \<Rightarrow> u16 \<Rightarrow> compat_client \<Rightarrow> (client_error + unit) \<times> compat_client" where
  "validate_expected_response frame expected c =
     (let i = (case frame_msg_id frame of None \<Rightarrow> 0 | Some i \<Rightarrow> i) in
      if i \<noteq> expected
      then (Inl (CcUnexpectedMessage i),
            cc_push (EvMessageRejected i (''out of order; expected 0x'' @ show_hex_u16 expected)) c)
      else (Inr (), c))"

section \<open>The protocol\<close>

definition PAYLOAD_12E_OPT :: bytes where "PAYLOAD_12E_OPT = ascii ''SIM_12E''"

definition payload_12e :: bytes where
  "payload_12e = (if PAYLOAD_12E_OPT \<noteq> [] then PAYLOAD_12E_OPT else ascii ''SIM_12E'')"

definition cc_run_handshake :: "aead_prims \<Rightarrow> compat_client \<Rightarrow> unit compat_result" where
  "cc_run_handshake P c =
     (if cc_state c \<noteq> CcConnected then Some (Inl (CcInvalidState ''handshake requires Connected''), c)
      else
        step_then (cc_send_clear MSG_1E PAYLOAD_1E c) (\<lambda>_ c.
        step_then (Some (cc_read_frame P (cc_set_state CcServiceHandshakeSent c))) (\<lambda>f c.
        step_then (Some (expect_inbound f MSG_1F False c)) (\<lambda>_ c.
        step_then (cc_send_clear MSG_19 PAYLOAD_19 (cc_set_state CcServiceHandshakeComplete c)) (\<lambda>_ c.
        step_then (Some (cc_read_frame P (cc_set_state CcSessionLoginSent c))) (\<lambda>f c.
        step_then (Some (expect_inbound f MSG_1A False c)) (\<lambda>msg c.
        if msg_id msg \<noteq> MSG_1A then Some (Inl (CcUnexpectedMessage (msg_id msg)), c)
        else
          let c = (cc_set_state CcSessionEstablished c)\<lparr>cc_crypto_ready := True\<rparr>;
              c = cc_push EvCryptoEstablished c
          in
          step_then (cc_send_encrypted P MSG_79 PAYLOAD_79 c) (\<lambda>_ c.
          step_then (Some (cc_read_frame P (cc_set_state CcEncryptedHandshakeSent c))) (\<lambda>f c.
          step_then (Some (expect_inbound f MSG_7A True c)) (\<lambda>_ c.
          Some (Inr (), cc_set_state CcActive (cc_set_state CcEncryptedChannelEstablished c))))))))))))"

definition cc_send_nat_probe :: "aead_prims \<Rightarrow> compat_client \<Rightarrow> unit compat_result" where
  "cc_send_nat_probe P c =
     (if \<not> (cc_state c = CcEncryptedChannelEstablished \<or> cc_state c = CcActive)
      then Some (Inl (CcInvalidState ''need Active''), c)
      else step_then (cc_send_encrypted P MSG_12E payload_12e c) (\<lambda>_ c. Some (Inr (), cc_set_state CcActive c)))"

definition cc_send_keepalive :: "aead_prims \<Rightarrow> compat_client \<Rightarrow> decoded_frame compat_result" where
  "cc_send_keepalive P c =
     (if cc_state c \<noteq> CcActive \<and> cc_state c \<noteq> CcEncryptedChannelEstablished
      then Some (Inl (CcInvalidState ''need Active''), c)
      else
        step_then (cc_send_clear MSG_FA PAYLOAD_FA c) (\<lambda>_ c.
        step_then (Some (cc_read_frame P c)) (\<lambda>f c.
        step_then (Some (expect_inbound f MSG_FB False c)) (\<lambda>_ c.
        Some (Inr f, cc_set_state CcActive c)))))"

definition cc_close :: "compat_client \<Rightarrow> (client_error + unit) \<times> compat_client" where
  "cc_close c =
     (let c = cc_set_state CcClosing c;
          c = c\<lparr>cc_stream := None\<rparr>;
          c = cc_push EvDisconnected (cc_set_state CcClosed c)
      in (Inr (), c\<lparr>cc_session := None, cc_crypto_ready := False, cc_pending := [],
                    cc_decoder := decoder_new\<rparr>))"

text \<open>\<open>LocalCompatibilityScenario::run\<close>.\<close>

definition scenario_run ::
  "aead_prims \<Rightarrow> socket_addr \<Rightarrow> string + tcp_stream \<times> string option list \<Rightarrow> compat_client \<Rightarrow> unit compat_result" where
  "scenario_run P addr attempt c =
     step_then (Some (cc_connect addr attempt c)) (\<lambda>_ c.
     step_then (cc_run_handshake P c) (\<lambda>_ c.
     step_then (cc_send_nat_probe P c) (\<lambda>_ c.
     step_then (cc_send_keepalive P c) (\<lambda>_ c.
     step_then (cc_send_unknown 0x00AB (ascii ''UNK_AB'') c) (\<lambda>_ c.
     Some (cc_close c))))))"

section \<open>The reads of the replay client\<close>

text \<open>
  The part of the client that the replay client has too, and its update. The replay client's own
  state is not part of it.
\<close>

definition cc_core :: "bap_session \<Rightarrow> compat_client \<Rightarrow> replay_client" where
  "cc_core s c =
     \<lparr>rc_stream = cc_stream c, rc_writes = cc_writes c, rc_sent = cc_sent c, rc_session = s,
      rc_decoder = cc_decoder c, rc_sim_state = SimStart, rc_pending = cc_pending c\<rparr>"

definition cc_put :: "replay_client \<Rightarrow> compat_client \<Rightarrow> compat_client" where
  "cc_put k c =
     c\<lparr>cc_stream := rc_stream k, cc_writes := rc_writes k, cc_sent := rc_sent k,
       cc_session := Some (rc_session k), cc_decoder := rc_decoder k, cc_pending := rc_pending k\<rparr>"

lemma cc_core_sel [simp]:
  "rc_stream (cc_core s c) = cc_stream c" "rc_writes (cc_core s c) = cc_writes c"
  "rc_sent (cc_core s c) = cc_sent c" "rc_session (cc_core s c) = s"
  "rc_decoder (cc_core s c) = cc_decoder c" "rc_pending (cc_core s c) = cc_pending c"
  "rc_sim_state (cc_core s c) = SimStart"
  by (simp_all add: cc_core_def)

lemma cc_put_sel [simp]:
  "cc_session (cc_put k c) = Some (rc_session k)" "cc_state (cc_put k c) = cc_state c"
  "cc_events (cc_put k c) = cc_events c" "cc_crypto_ready (cc_put k c) = cc_crypto_ready c"
  "cc_dispatcher (cc_put k c) = cc_dispatcher c" "cc_key (cc_put k c) = cc_key c"
  "cc_nonce (cc_put k c) = cc_nonce c" "cc_stream (cc_put k c) = rc_stream k"
  "cc_writes (cc_put k c) = rc_writes k" "cc_sent (cc_put k c) = rc_sent k"
  "cc_decoder (cc_put k c) = rc_decoder k" "cc_pending (cc_put k c) = rc_pending k"
  by (simp_all add: cc_put_def)

lemma cc_put_core [simp]:
  "cc_session c = Some s \<Longrightarrow> cc_put (cc_core s c) c = c"
  "cc_core (rc_session k) (cc_put k c) = k\<lparr>rc_sim_state := SimStart\<rparr>"
  by (simp_all add: cc_put_def cc_core_def)

definition same_result :: "'d + 'a \<Rightarrow> 'e + 'a \<Rightarrow> bool" where
  "same_result r q = (case (r, q) of (Inr x, Inr y) \<Rightarrow> x = y | (Inl _, Inl _) \<Rightarrow> True | _ \<Rightarrow> False)"

lemma same_result_simps [simp]:
  "same_result (Inr x) (Inr y) \<longleftrightarrow> x = y" "same_result (Inl d) (Inl e)"
  "\<not> same_result (Inr x) (Inl e)" "\<not> same_result (Inl d) (Inr y)"
  by (simp_all add: same_result_def)

lemma same_result_Inr: "same_result r (Inr y) \<Longrightarrow> r = Inr y"
  by (cases r) simp_all

lemma cc_decode_raws_batch:
  "snd (cc_decode_raws P (Some s) rs) = Some (snd (decode_batch P s rs))
   \<and> same_result (fst (cc_decode_raws P (Some s) rs)) (fst (decode_batch P s rs))"
proof (induction rs arbitrary: s)
  case (Cons r rs)
  obtain q t where q: "decode_frame P s ServerToClient (rf_raw_bytes r) = (q, t)"
    by (cases "decode_frame P s ServerToClient (rf_raw_bytes r)")
  show ?case
  proof (cases q)
    case (Inr d)
    with q Cons.IH [of t] show ?thesis
      by (auto simp: same_result_def split: prod.split sum.split sum.splits)
  next
    case (Inl e)
    with q show ?thesis by (cases e) simp_all
  qed
qed simp

lemma cc_read_loop_core:
  "cc_session c = Some s \<Longrightarrow>
   \<exists>r'. cc_read_loop P stream c = (r', cc_put (snd (read_loop P stream (cc_core s c))) c)
     \<and> same_result r' (fst (read_loop P stream (cc_core s c)))"
proof (induction P stream c arbitrary: s rule: cc_read_loop.induct)
  case (1 P stream c)
  obtain r stream' where rd: "stream_read REPLAY_READ_BUF stream = (r, stream')"
    by (cases "stream_read REPLAY_READ_BUF stream")
  have buf: "CC_READ_BUF = REPLAY_READ_BUF" by (simp add: CC_READ_BUF_def REPLAY_READ_BUF_def)
  let ?c = "c\<lparr>cc_stream := Some stream'\<rparr>"
  show ?case
  proof (cases r)
    case (Inl e)
    with rd 1(2) show ?thesis
      by (simp add: cc_read_loop.simps [of P stream c] read_loop.simps [of P stream "cc_core s c"] buf
          cc_put_def split: prod.split)
  next
    case (Inr bs)
    show ?thesis
    proof (cases "bs = []")
      case True
      with rd 1(2) Inr show ?thesis
        by (simp add: cc_read_loop.simps [of P stream c] read_loop.simps [of P stream "cc_core s c"] buf
            cc_put_def)
    next
      case False
      obtain q d where push: "decoder_push (cc_decoder c) bs = (q, d)" by (cases "decoder_push (cc_decoder c) bs")
      show ?thesis
      proof (cases q)
        case (Inl e)
        with rd 1(2) Inr False push show ?thesis
          by (simp add: cc_read_loop.simps [of P stream c] read_loop.simps [of P stream "cc_core s c"] buf
              cc_feed_bytes_def cc_put_def)
      next
        case frames: (Inr rs)
        obtain b t where b: "decode_batch P s rs = (b, t)" by (cases "decode_batch P s rs")
        obtain b' t' where b': "cc_decode_raws P (Some s) rs = (b', t')" by (cases "cc_decode_raws P (Some s) rs")
        have t': "t' = Some t" and bb: "same_result b' b"
          using cc_decode_raws_batch [of P s rs] b b' by simp_all
        let ?d = "?c\<lparr>cc_decoder := d, cc_session := Some t\<rparr>"
        have feed: "cc_feed_bytes P bs ?c = (b', ?d)"
          using push frames 1(2) b' t' by (simp add: cc_feed_bytes_def)
        have core: "(cc_core s c)\<lparr>rc_stream := Some stream', rc_decoder := d, rc_session := t\<rparr> = cc_core t ?d"
          by (simp add: cc_core_def)
        show ?thesis
        proof (cases b)
          case (Inl e)
          then obtain e' where "b' = Inl e'" using bb by (cases b') simp_all
          with Inl rd 1(2) Inr False push frames b feed show ?thesis
            by (simp add: cc_read_loop.simps [of P stream c] read_loop.simps [of P stream "cc_core s c"] buf
                cc_put_def)
        next
          case (Inr ds)
          then have ds: "b' = Inr ds" using bb by (cases b') simp_all
          show ?thesis
          proof (cases ds)
            case Nil
            have "\<exists>r'. cc_read_loop P stream' ?d = (r', cc_put (snd (read_loop P stream' (cc_core t ?d))) ?d)
                \<and> same_result r' (fst (read_loop P stream' (cc_core t ?d)))"
              by (rule 1(1) [OF rd [folded buf, symmetric] \<open>r = Inr bs\<close> refl False feed [symmetric] ds Nil])
                 simp
            moreover have "read_loop P stream (cc_core s c) = read_loop P stream' (cc_core t ?d)"
              unfolding core [symmetric] using rd \<open>r = Inr bs\<close> False push frames b Nil Inr
              by (simp add: read_loop.simps [of P stream "cc_core s c"])
            moreover have "cc_read_loop P stream c = cc_read_loop P stream' ?d"
              using rd \<open>r = Inr bs\<close> False feed ds Nil by (simp add: cc_read_loop.simps [of P stream c] buf)
            moreover have "cc_put k ?d = cc_put k c" for k by (simp add: cc_put_def)
            ultimately show ?thesis by simp
          next
            case (Cons x xs)
            then show ?thesis
              using rd \<open>r = Inr bs\<close> False push frames b feed ds Inr
              by (simp add: cc_read_loop.simps [of P stream c] read_loop.simps [of P stream "cc_core s c"] buf
                  cc_put_def)
          qed
        qed
      qed
    qed
  qed
qed

lemma cc_read_frame_core:
  assumes "cc_session c = Some s"
  shows "\<exists>r'. cc_read_frame P c = (r', cc_put (snd (read_frame P (cc_core s c))) c)
     \<and> same_result r' (fst (read_frame P (cc_core s c)))"
  using assms cc_read_loop_core [OF assms, of P]
  by (auto simp: cc_read_frame_def read_frame_def cc_put_def split: option.split)

section \<open>The exchange with the server\<close>

text \<open>\<open>cc_at P c x sent fs\<close>: as \<open>client_at\<close> of the replay client, for the part shared with it.\<close>

definition cc_at ::
  "aead_prims \<Rightarrow> compat_client \<Rightarrow> bap_session \<Rightarrow> bytes list \<Rightarrow> decoded_frame list \<Rightarrow> bool" where
  "cc_at P c x sent fs \<longleftrightarrow> (\<exists>s. cc_session c = Some s \<and> client_at P (cc_core s c) x sent fs)"

lemma client_at_sim [simp]: "client_at P (k\<lparr>rc_sim_state := st\<rparr>) x sent fs = client_at P k x sent fs"
  by (simp add: client_at_def)

lemma cc_at_put: "client_at P k x sent fs \<Longrightarrow> cc_at P (cc_put k c) x sent fs"
  by (simp add: cc_at_def)

lemma cc_push_sel [simp]:
  "cc_session (cc_push e c) = cc_session c" "cc_core s (cc_push e c) = cc_core s c"
  "cc_state (cc_push e c) = cc_state c" "cc_events (cc_push e c) = cc_events c @ [e]"
  "cc_crypto_ready (cc_push e c) = cc_crypto_ready c" "cc_sent (cc_push e c) = cc_sent c"
  "cc_stream (cc_push e c) = cc_stream c" "cc_dispatcher (cc_push e c) = cc_dispatcher c"
  "cc_key (cc_push e c) = cc_key c" "cc_nonce (cc_push e c) = cc_nonce c"
  "cc_writes (cc_push e c) = cc_writes c" "cc_pending (cc_push e c) = cc_pending c" "cc_decoder (cc_push e c) = cc_decoder c"
  by (simp_all add: cc_push_def cc_core_def)

text \<open>The event of a change of state, none when it stays.\<close>

definition moved :: "client_state \<Rightarrow> client_state \<Rightarrow> client_event list" where
  "moved from to = (if from = to then [] else [EvStateTransition (client_state_str from) (client_state_str to)])"

lemma cc_set_state_sel [simp]:
  "cc_session (cc_set_state st c) = cc_session c" "cc_core s (cc_set_state st c) = cc_core s c"
  "cc_state (cc_set_state st c) = st" "cc_events (cc_set_state st c) = cc_events c @ moved (cc_state c) st"
  "cc_crypto_ready (cc_set_state st c) = cc_crypto_ready c" "cc_sent (cc_set_state st c) = cc_sent c"
  "cc_stream (cc_set_state st c) = cc_stream c" "cc_dispatcher (cc_set_state st c) = cc_dispatcher c"
  "cc_key (cc_set_state st c) = cc_key c" "cc_nonce (cc_set_state st c) = cc_nonce c"
  "cc_writes (cc_set_state st c) = cc_writes c" "cc_pending (cc_set_state st c) = cc_pending c" "cc_decoder (cc_set_state st c) = cc_decoder c"
  by (simp_all add: cc_set_state_def cc_push_def cc_core_def moved_def Let_def)

lemma cc_at_frame [simp]:
  "cc_at P (cc_push e c) x sent fs = cc_at P c x sent fs"
  "cc_at P (cc_set_state st c) x sent fs = cc_at P c x sent fs"
  "cc_at P (c\<lparr>cc_crypto_ready := b\<rparr>) x sent fs = cc_at P c x sent fs"
  "cc_at P (c\<lparr>cc_dispatcher := di\<rparr>) x sent fs = cc_at P c x sent fs"
  by (simp_all add: cc_at_def) (simp_all add: cc_core_def)

lemma codec_body_opaque [simp]: "codec_body (opaque_message i d p) = Inr p"
  by (simp add: codec_body_def opaque_message_def Let_def)

lemma cc_send_raw_core:
  assumes "cc_session c = Some s" "send_raw bs (cc_core s c) = (Inr (), k)"
  shows "cc_send_logged i bs c = Some (Inr (), cc_push (EvMessageSent i ''C2S'') (cc_put k c))"
proof -
  have "cc_send_raw bs c = (Inr (), cc_put k c)"
    using assms by (auto simp: send_raw_def cc_send_raw_def cc_put_def cc_core_def split: if_splits list.splits option.splits)
  then show ?thesis by (simp add: cc_send_logged_def)
qed

lemma cc_read_delivers:
  assumes "cc_at P c x sent (f # fs)"
  obtains k where "cc_read_frame P c = (Inr f, cc_put k c)" "client_at P k x sent fs"
proof -
  from assms obtain s where s: "cc_session c = Some s" "client_at P (cc_core s c) x sent (f # fs)"
    by (auto simp: cc_at_def)
  from s(2) obtain k where "read_frame P (cc_core s c) = (Inr f, k)" "client_at P k x sent fs"
    by (rule read_frame_delivers)
  then show thesis using that [of k] cc_read_frame_core [OF s(1), of P] by (auto dest: same_result_Inr)
qed

lemma expect_inbound_ok:
  assumes "frame_msg_id f = Some j" "(case f of DClear _ _ _ \<Rightarrow> \<not> enc | DDecrypted _ co _ _ \<Rightarrow> enc \<and> co \<noteq> None | _ \<Rightarrow> False)"
  obtains m where "expect_inbound f j enc c =
      (Inr m, (cc_push (EvDecoded j (has_known_codec j)) (cc_push (EvMessageReceived j ''S2C'') c))
                \<lparr>cc_dispatcher := snd (dispatch (cc_dispatcher c) m)\<rparr>)" "msg_id m = j"
proof -
  have "\<exists>m. decode_from_frame f DirServerToClient = Inr m \<and> msg_id m = j
      \<and> (msg_is_known m \<longleftrightarrow> has_known_codec j)"
  proof (cases f)
    case (DClear i k p)
    then show ?thesis
      using assms(1) decode_message_fields [of "\<lparr>en_id = i, en_context = k, en_direction = DirServerToClient, en_payload = p\<rparr>"]
      by auto
  next
    case (DDecrypted i k p n)
    with assms obtain k' where "k = Some k'" "i = Some j" by auto
    with DDecrypted show ?thesis
      using decode_message_fields [of "\<lparr>en_id = j, en_context = k', en_direction = DirServerToClient, en_payload = p\<rparr>"]
      by auto
  qed (use assms in simp)
  then obtain m where m: "decode_from_frame f DirServerToClient = Inr m" "msg_id m = j"
      "msg_is_known m \<longleftrightarrow> has_known_codec j"
    by blast
  have "expect_inbound f j enc c =
      (Inr m, (cc_push (EvDecoded j (has_known_codec j)) (cc_push (EvMessageReceived j ''S2C'') c))
                \<lparr>cc_dispatcher := snd (dispatch (cc_dispatcher c) m)\<rparr>)"
    using assms m by (cases f) (simp_all add: expect_inbound_def Let_def)
  then show thesis using that m(2) by blast
qed

lemma cc_answer:
  assumes "cc_at P c x sent (f # fs)" "frame_msg_id f = Some j"
    and "(case f of DClear _ _ _ \<Rightarrow> \<not> enc | DDecrypted _ co _ _ \<Rightarrow> enc \<and> co \<noteq> None | _ \<Rightarrow> False)"
  obtains c1 m c2 where "cc_read_frame P c = (Inr f, c1)" "expect_inbound f j enc c1 = (Inr m, c2)" "msg_id m = j"
    "cc_at P c2 x sent fs" "cc_state c2 = cc_state c" "cc_crypto_ready c2 = cc_crypto_ready c"
    "cc_events c2 = cc_events c @ [EvMessageReceived j ''S2C'', EvDecoded j (has_known_codec j)]"
proof -
  from cc_read_delivers [OF assms(1)] obtain k where
    k: "cc_read_frame P c = (Inr f, cc_put k c)" "client_at P k x sent fs"
    by blast
  from expect_inbound_ok [OF assms(2,3), of "cc_put k c"] obtain m where
    m: "expect_inbound f j enc (cc_put k c) =
      (Inr m, (cc_push (EvDecoded j (has_known_codec j)) (cc_push (EvMessageReceived j ''S2C'') (cc_put k c)))
                \<lparr>cc_dispatcher := snd (dispatch (cc_dispatcher (cc_put k c)) m)\<rparr>)" "msg_id m = j"
    by blast
  show thesis
    by (rule that [OF k(1) m]) (use cc_at_put [OF k(2)] in simp_all)
qed

lemma cc_answer_clear:
  assumes "cc_at P c x sent (DClear j k p # fs)"
  shows "\<exists>c1 m c2. cc_read_frame P c = (Inr (DClear j k p), c1) \<and> expect_inbound (DClear j k p) j False c1 = (Inr m, c2)
     \<and> msg_id m = j \<and> cc_at P c2 x sent fs \<and> cc_state c2 = cc_state c \<and> cc_crypto_ready c2 = cc_crypto_ready c
     \<and> cc_events c2 = cc_events c @ [EvMessageReceived j ''S2C'', EvDecoded j (has_known_codec j)]"
  by (rule cc_answer [OF assms, of j False]) (simp, simp, blast)

lemma cc_answer_encrypted:
  assumes "cc_at P c x sent (DDecrypted (Some j) (Some k) p n # fs)"
  shows "\<exists>c1 m c2. cc_read_frame P c = (Inr (DDecrypted (Some j) (Some k) p n), c1)
     \<and> expect_inbound (DDecrypted (Some j) (Some k) p n) j True c1 = (Inr m, c2)
     \<and> msg_id m = j \<and> cc_at P c2 x sent fs \<and> cc_state c2 = cc_state c \<and> cc_crypto_ready c2 = cc_crypto_ready c
     \<and> cc_events c2 = cc_events c @ [EvMessageReceived j ''S2C'', EvDecoded j (has_known_codec j)]"
  by (rule cc_answer [OF assms, of j True]) (simp, simp, blast)

lemma cc_sends_clear:
  assumes "cc_at P c x sent fs" "bap_send P x (sim_out False i p) = Some (w, x')"
  obtains c1 where "cc_send_clear i p c = Some (Inr (), c1)" "cc_at P c1 x' (sent @ [snd w]) fs"
    "cc_state c1 = cc_state c" "cc_crypto_ready c1 = cc_crypto_ready c"
    "cc_events c1 = cc_events c @ [EvMessageSent i ''C2S'']"
proof -
  from assms(1) obtain s where s: "cc_session c = Some s" "client_at P (cc_core s c) x sent fs"
    by (auto simp: cc_at_def)
  from send_clear_delivers [OF s(2) assms(2) [unfolded sim_out_def]] obtain k where
    k: "send_clear i SIM_CONTEXT p (cc_core s c) = Some (Inr (), k)" "client_at P k x' (sent @ [snd w]) fs"
    by blast
  then obtain bs where "encode_clear i SIM_CONTEXT p = Some bs" "send_raw bs (cc_core s c) = (Inr (), k)"
    by (auto simp: send_clear_def split: option.splits)
  then have "cc_send_clear i p c = Some (Inr (), cc_push (EvMessageSent i ''C2S'') (cc_put k c))"
    using cc_send_raw_core [OF s(1)] by (simp add: cc_send_clear_def)
  then show thesis by (rule that) (use cc_at_put [OF k(2)] in simp_all)
qed

lemma cc_sends_encrypted:
  assumes "cc_at P c x sent fs" "bap_send P x (sim_out True i p) = Some (w, x')" "cc_crypto_ready c"
  obtains c1 where "cc_send_encrypted P i p c = Some (Inr (), c1)" "cc_at P c1 x' (sent @ [snd w]) fs"
    "cc_state c1 = cc_state c" "cc_crypto_ready c1"
    "cc_events c1 = cc_events c @ [EvMessageSent i ''C2S'']"
proof -
  from assms(1) obtain s where s: "cc_session c = Some s" "client_at P (cc_core s c) x sent fs"
    by (auto simp: cc_at_def)
  from send_encrypted_delivers [OF s(2) assms(2) [unfolded sim_out_def]] obtain k where
    k: "send_encrypted P i SIM_CONTEXT p (cc_core s c) = Some (Inr (), k)" "client_at P k x' (sent @ [snd w]) fs"
    by blast
  then obtain bs t where bs: "encode_encrypted P s ClientToServer i SIM_CONTEXT p = Some (Inr bs, t)"
      "send_raw bs ((cc_core s c)\<lparr>rc_session := t\<rparr>) = (Inr (), k)"
    by (auto simp: send_encrypted_def split: option.splits prod.splits sum.splits)
  let ?c = "c\<lparr>cc_session := Some t\<rparr>"
  have core: "(cc_core s c)\<lparr>rc_session := t\<rparr> = cc_core t ?c" and put: "cc_put k ?c = cc_put k c"
    by (simp_all add: cc_core_def cc_put_def)
  have "cc_send_logged i bs ?c = Some (Inr (), cc_push (EvMessageSent i ''C2S'') (cc_put k ?c))"
    by (rule cc_send_raw_core [of _ t]) (simp, rule bs(2) [unfolded core])
  then have "cc_send_encrypted P i p c = Some (Inr (), cc_push (EvMessageSent i ''C2S'') (cc_put k c))"
    unfolding put using bs(1) s(1) assms(3) by (simp add: cc_send_encrypted_def)
  then show thesis by (rule that) (use cc_at_put [OF k(2)] assms(3) in simp_all)
qed

definition handshake_events :: "client_event list" where
  "handshake_events =
     [EvMessageSent MSG_1E ''C2S''] @ moved CcConnected CcServiceHandshakeSent
     @ [EvMessageReceived MSG_1F ''S2C'', EvDecoded MSG_1F True]
     @ moved CcServiceHandshakeSent CcServiceHandshakeComplete
     @ [EvMessageSent MSG_19 ''C2S''] @ moved CcServiceHandshakeComplete CcSessionLoginSent
     @ [EvMessageReceived MSG_1A ''S2C'', EvDecoded MSG_1A True]
     @ moved CcSessionLoginSent CcSessionEstablished @ [EvCryptoEstablished]
     @ [EvMessageSent MSG_79 ''C2S''] @ moved CcSessionEstablished CcEncryptedHandshakeSent
     @ [EvMessageReceived MSG_7A ''S2C'', EvDecoded MSG_7A True]
     @ moved CcEncryptedHandshakeSent CcEncryptedChannelEstablished
     @ moved CcEncryptedChannelEstablished CcActive"

lemma known_answers [simp]:
  "has_known_codec MSG_1F" "has_known_codec MSG_1A" "has_known_codec MSG_7A" "has_known_codec MSG_FB"
  by (simp_all add: has_known_codec_def CODEC_KNOWN_IDS_def MSG_1F_def MSG_1A_def MSG_7A_def MSG_FB_def)

lemma cc_handshake_exchange:
  assumes "cc_at P c x sent (DClear MSG_1F k1 p1 # DClear MSG_1A k2 p2 # DDecrypted (Some MSG_7A) (Some k3) p3 n # fs)"
    and "cc_state c = CcConnected"
    and "bap_send P x (sim_out False MSG_1E PAYLOAD_1E) = Some (w1, x1)"
    and "bap_send P x1 (sim_out False MSG_19 PAYLOAD_19) = Some (w2, x2)"
    and "bap_send P x2 (sim_out True MSG_79 PAYLOAD_79) = Some (w3, x3)"
  obtains c' where "cc_run_handshake P c = Some (Inr (), c')" "cc_state c' = CcActive" "cc_crypto_ready c'"
    "cc_at P c' x3 (sent @ [snd w1, snd w2, snd w3]) fs" "cc_events c' = cc_events c @ handshake_events"
proof -
  from cc_sends_clear [OF assms(1,3)] obtain a where
    a: "cc_send_clear MSG_1E PAYLOAD_1E c = Some (Inr (), a)"
      "cc_at P (cc_set_state CcServiceHandshakeSent a) x1 (sent @ [snd w1])
         (DClear MSG_1F k1 p1 # DClear MSG_1A k2 p2 # DDecrypted (Some MSG_7A) (Some k3) p3 n # fs)"
      "cc_state a = CcConnected" "cc_events a = cc_events c @ [EvMessageSent MSG_1E ''C2S'']"
    using assms(2) by auto
  from cc_answer_clear [OF a(2)] obtain a1 m1 a2 where
    a2: "cc_read_frame P (cc_set_state CcServiceHandshakeSent a) = (Inr (DClear MSG_1F k1 p1), a1)"
      "expect_inbound (DClear MSG_1F k1 p1) MSG_1F False a1 = (Inr m1, a2)"
      "cc_at P (cc_set_state CcServiceHandshakeComplete a2) x1 (sent @ [snd w1])
         (DClear MSG_1A k2 p2 # DDecrypted (Some MSG_7A) (Some k3) p3 n # fs)"
      "cc_state a2 = CcServiceHandshakeSent"
      "cc_events a2 = cc_events (cc_set_state CcServiceHandshakeSent a) @ [EvMessageReceived MSG_1F ''S2C'', EvDecoded MSG_1F True]"
    by auto
  from cc_sends_clear [OF a2(3) assms(4)] obtain b where
    b: "cc_send_clear MSG_19 PAYLOAD_19 (cc_set_state CcServiceHandshakeComplete a2) = Some (Inr (), b)"
      "cc_at P (cc_set_state CcSessionLoginSent b) x2 (sent @ [snd w1, snd w2])
         (DClear MSG_1A k2 p2 # DDecrypted (Some MSG_7A) (Some k3) p3 n # fs)"
      "cc_state b = CcServiceHandshakeComplete"
      "cc_events b = cc_events (cc_set_state CcServiceHandshakeComplete a2) @ [EvMessageSent MSG_19 ''C2S'']"
    by auto
  from cc_answer_clear [OF b(2)] obtain b1 m2 b2 where
    b2: "cc_read_frame P (cc_set_state CcSessionLoginSent b) = (Inr (DClear MSG_1A k2 p2), b1)"
      "expect_inbound (DClear MSG_1A k2 p2) MSG_1A False b1 = (Inr m2, b2)" "msg_id m2 = MSG_1A"
      "cc_at P b2 x2 (sent @ [snd w1, snd w2]) (DDecrypted (Some MSG_7A) (Some k3) p3 n # fs)"
      "cc_state b2 = CcSessionLoginSent"
      "cc_events b2 = cc_events (cc_set_state CcSessionLoginSent b) @ [EvMessageReceived MSG_1A ''S2C'', EvDecoded MSG_1A True]"
    by auto
  define e where "e = cc_push EvCryptoEstablished ((cc_set_state CcSessionEstablished b2)\<lparr>cc_crypto_ready := True\<rparr>)"
  have e: "cc_at P e x2 (sent @ [snd w1, snd w2]) (DDecrypted (Some MSG_7A) (Some k3) p3 n # fs)"
      "cc_crypto_ready e" "cc_state e = CcSessionEstablished"
      "cc_events e = cc_events b2 @ moved CcSessionLoginSent CcSessionEstablished @ [EvCryptoEstablished]"
    using b2(4,5) by (simp_all add: e_def)
  from cc_sends_encrypted [OF e(1) assms(5) e(2)] obtain d where
    d: "cc_send_encrypted P MSG_79 PAYLOAD_79 e = Some (Inr (), d)"
      "cc_at P (cc_set_state CcEncryptedHandshakeSent d) x3 (sent @ [snd w1, snd w2, snd w3])
         (DDecrypted (Some MSG_7A) (Some k3) p3 n # fs)"
      "cc_state d = CcSessionEstablished" "cc_crypto_ready d"
      "cc_events d = cc_events e @ [EvMessageSent MSG_79 ''C2S'']"
    using e(3) by auto
  from cc_answer_encrypted [OF d(2)] obtain d1 m3 d2 where
    d2: "cc_read_frame P (cc_set_state CcEncryptedHandshakeSent d) = (Inr (DDecrypted (Some MSG_7A) (Some k3) p3 n), d1)"
      "expect_inbound (DDecrypted (Some MSG_7A) (Some k3) p3 n) MSG_7A True d1 = (Inr m3, d2)"
      "cc_at P d2 x3 (sent @ [snd w1, snd w2, snd w3]) fs" "cc_state d2 = CcEncryptedHandshakeSent" "cc_crypto_ready d2"
      "cc_events d2 = cc_events (cc_set_state CcEncryptedHandshakeSent d) @ [EvMessageReceived MSG_7A ''S2C'', EvDecoded MSG_7A True]"
    using d(4) by auto
  let ?c = "cc_set_state CcActive (cc_set_state CcEncryptedChannelEstablished d2)"
  have "cc_run_handshake P c = Some (Inr (), ?c)"
    using b2(3) by (simp add: cc_run_handshake_def assms(2) a(1) a2(1,2) b(1) b2(1,2) Let_def d2(1,2) flip: e_def)
      (simp add: d(1) d2(1,2))
  moreover have "cc_events ?c = cc_events c @ handshake_events"
    using a(3,4) a2(4,5) b(3,4) b2(5,6) e(3,4) d(3,5) d2(4,6) by (simp add: handshake_events_def)
  ultimately show thesis using that [of ?c] d2(3,5) by simp
qed

text \<open>What the scenario sends, what it hears and what it logs.\<close>

definition scenario_messages :: "bap_out list" where
  "scenario_messages =
     [sim_out False MSG_1E PAYLOAD_1E, sim_out False MSG_19 PAYLOAD_19, sim_out True MSG_79 PAYLOAD_79,
      sim_out True MSG_12E payload_12e, sim_out False MSG_FA PAYLOAD_FA, sim_out False 0x00AB (ascii ''UNK_AB'')]"

definition scenario_replies :: "decoded_frame list" where
  "scenario_replies =
     [DClear MSG_1F SIM_CONTEXT PAYLOAD_1F, DClear MSG_1A SIM_CONTEXT PAYLOAD_1A,
      DDecrypted (Some MSG_7A) (Some SIM_CONTEXT) PAYLOAD_7A (6 + length PAYLOAD_7A),
      DClear MSG_FB SIM_CONTEXT PAYLOAD_FB]"

definition scenario_events :: "socket_addr \<Rightarrow> client_event list" where
  "scenario_events addr =
     moved CcDisconnected CcConnected @ [EvConnected (show_socket_addr addr)] @ handshake_events
     @ [EvMessageSent MSG_12E ''C2S'', EvMessageSent MSG_FA ''C2S'', EvMessageReceived MSG_FB ''S2C'',
        EvDecoded MSG_FB True, EvMessageSent 0x00AB ''C2S'']
     @ moved CcActive CcClosing @ moved CcClosing CcClosed @ [EvDisconnected]"

lemma scenario_policy:
  "\<exists>outs. policy_run response_policy_default WaitingForServiceHandshake (map logical scenario_messages)
      = Some (outs, Active) \<and> map bap_view outs = scenario_replies"
proof -
  have "map_option (\<lambda>(outs, t). (map bap_view outs, t))
      (policy_run response_policy_default WaitingForServiceHandshake (map logical scenario_messages))
      = Some (scenario_replies, Active)"
    by code_simp
  then show ?thesis unfolding map_option_eq_Some by auto
qed

lemma scenario_messages_fit: "\<forall>m \<in> set scenario_messages. bap_fits m \<and> bo_direction m = ClientToServer"
  by (simp add: scenario_messages_def sim_out_def bap_fits_def MAX_BODY_LEN_def payload_consts ascii_def
      payload_12e_def PAYLOAD_12E_OPT_def)

lemma scenario_exchange:
  assumes "cc_at P c x [] scenario_replies" "cc_state c = CcConnected"
    and "send_all (bap_send P) x scenario_messages = Some (ws, x')"
  shows "\<exists>c1 c2 f c3 c4. cc_run_handshake P c = Some (Inr (), c1) \<and> cc_send_nat_probe P c1 = Some (Inr (), c2)
     \<and> cc_send_keepalive P c2 = Some (Inr f, c3) \<and> cc_send_unknown 0x00AB (ascii ''UNK_AB'') c3 = Some (Inr (), c4)
     \<and> cc_state c4 = CcActive \<and> cc_sent c4 = map snd ws
     \<and> cc_events c4 = cc_events c @ handshake_events
         @ [EvMessageSent MSG_12E ''C2S'', EvMessageSent MSG_FA ''C2S'', EvMessageReceived MSG_FB ''S2C'',
            EvDecoded MSG_FB True, EvMessageSent 0x00AB ''C2S'']"
proof -
  from assms(3) obtain w1 x1 w2 x2 w3 x3 w4 x4 w5 x5 w6 where
    s: "bap_send P x (sim_out False MSG_1E PAYLOAD_1E) = Some (w1, x1)"
      "bap_send P x1 (sim_out False MSG_19 PAYLOAD_19) = Some (w2, x2)"
      "bap_send P x2 (sim_out True MSG_79 PAYLOAD_79) = Some (w3, x3)"
      "bap_send P x3 (sim_out True MSG_12E payload_12e) = Some (w4, x4)"
      "bap_send P x4 (sim_out False MSG_FA PAYLOAD_FA) = Some (w5, x5)"
      "bap_send P x5 (sim_out False 0x00AB (ascii ''UNK_AB'')) = Some (w6, x')"
    and ws: "ws = [w1, w2, w3, w4, w5, w6]"
    by (auto simp: scenario_messages_def split: option.splits)
  from cc_handshake_exchange [OF assms(1) [unfolded scenario_replies_def] assms(2) s(1-3)] obtain c1 where
    c1: "cc_run_handshake P c = Some (Inr (), c1)" "cc_state c1 = CcActive" "cc_crypto_ready c1"
      "cc_at P c1 x3 [snd w1, snd w2, snd w3] [DClear MSG_FB SIM_CONTEXT PAYLOAD_FB]"
      "cc_events c1 = cc_events c @ handshake_events"
    by auto
  from cc_sends_encrypted [OF c1(4) s(4) c1(3)] obtain c2 where
    c2: "cc_send_encrypted P MSG_12E payload_12e c1 = Some (Inr (), c2)"
      "cc_at P c2 x4 [snd w1, snd w2, snd w3, snd w4] [DClear MSG_FB SIM_CONTEXT PAYLOAD_FB]"
      "cc_state c2 = CcActive" "cc_events c2 = cc_events c1 @ [EvMessageSent MSG_12E ''C2S'']"
    using c1(2) by auto
  have stay: "cc_set_state CcActive d = d" if "cc_state d = CcActive" for d
    using that by (simp add: cc_set_state_def)
  from cc_sends_clear [OF c2(2) s(5)] obtain d where
    d: "cc_send_clear MSG_FA PAYLOAD_FA c2 = Some (Inr (), d)"
      "cc_at P d x5 [snd w1, snd w2, snd w3, snd w4, snd w5] [DClear MSG_FB SIM_CONTEXT PAYLOAD_FB]"
      "cc_state d = CcActive" "cc_events d = cc_events c2 @ [EvMessageSent MSG_FA ''C2S'']"
    using c2(3) by auto
  from cc_answer_clear [OF d(2)] obtain d1 m c3 where
    c3: "cc_read_frame P d = (Inr (DClear MSG_FB SIM_CONTEXT PAYLOAD_FB), d1)"
      "expect_inbound (DClear MSG_FB SIM_CONTEXT PAYLOAD_FB) MSG_FB False d1 = (Inr m, c3)"
      "cc_at P c3 x5 [snd w1, snd w2, snd w3, snd w4, snd w5] []" "cc_state c3 = CcActive"
      "cc_events c3 = cc_events d @ [EvMessageReceived MSG_FB ''S2C'', EvDecoded MSG_FB True]"
    using d(3) by auto
  from cc_sends_clear [OF c3(3) s(6)] obtain c4 where
    c4: "cc_send_clear 0x00AB (ascii ''UNK_AB'') c3 = Some (Inr (), c4)"
      "cc_at P c4 x' [snd w1, snd w2, snd w3, snd w4, snd w5, snd w6] []" "cc_state c4 = CcActive"
      "cc_events c4 = cc_events c3 @ [EvMessageSent 0x00AB ''C2S'']"
    using c3(4) by auto
  have "cc_sent c4 = map snd ws" using c4(2) by (auto simp: cc_at_def client_at_def ws)
  moreover have "cc_send_nat_probe P c1 = Some (Inr (), c2)"
    using c1(2) c2(1,3) by (simp add: cc_send_nat_probe_def stay)
  moreover have "cc_send_keepalive P c2 = Some (Inr (DClear MSG_FB SIM_CONTEXT PAYLOAD_FB), c3)"
    using c2(3) d(1) c3(1,2,4) by (simp add: cc_send_keepalive_def stay)
  ultimately show ?thesis
    using c1(1,5) c4 c2(4) d(4) c3(5)
    by (intro exI [of _ c1] exI [of _ c2] exI [of _ "DClear MSG_FB SIM_CONTEXT PAYLOAD_FB"] exI [of _ c3] exI [of _ c4])
       (simp add: cc_send_unknown_def)
qed

lemma scenario_exact:
  assumes "aead_ok P" "bap_session_new key nonce = Inr s" "assert_localhost_only addr = Inr ()"
    and "send_all (bap_send P) s scenario_messages = Some (ws, s')"
    and "event_script READ_BUF_LEN srv_stream = map Inr cs" "concat cs = concat (map snd ws)"
  shows "\<exists>conn. handle_connection P i srv_stream [] key nonce traces = Some (Inr (Inr (), conn))
     \<and> (\<forall>stream ds. event_script CC_READ_BUF stream = map Inr ds \<and> concat ds = concat (cn_sent conn) \<longrightarrow>
         (\<exists>c. scenario_run P addr (Inr (stream, [])) (cc_with_material key nonce) = Some (Inr (), c)
            \<and> cc_state c = CcClosed \<and> cc_sent c = map snd ws \<and> cc_events c = scenario_events addr))"
proof -
  define c0 where "c0 = \<lparr>rc_stream = None, rc_writes = [], rc_sent = [], rc_session = s,
                      rc_decoder = decoder_new, rc_sim_state = SimStart, rc_pending = []\<rparr>"
  have c0: "replay_with_keys key nonce = Inr c0" "rc_session c0 = s"
    using assms(2) by (simp_all add: replay_with_keys_def c0_def)
  obtain outs where outs: "policy_run response_policy_default WaitingForServiceHandshake (map logical scenario_messages)
      = Some (outs, Active)" "map bap_view outs = scenario_replies"
    using scenario_policy by blast
  obtain conn x where conn: "handle_connection P i srv_stream [] key nonce traces = Some (Inr (Inr (), conn))"
      "recv_all (bap_recv P) s' (wire_pairs (cn_sent conn)) = (Inr scenario_replies, x)"
      "\<forall>bs \<in> set (cn_sent conn). raw_wf MAX_BODY_LEN (sent_raw bs)"
    using handle_connection_policy [OF assms(1,2) scenario_messages_fit assms(4-6) outs(1), of i traces]
    unfolding outs(2) by blast
  have "\<exists>c. scenario_run P addr (Inr (stream, [])) (cc_with_material key nonce) = Some (Inr (), c)
      \<and> cc_state c = CcClosed \<and> cc_sent c = map snd ws \<and> cc_events c = scenario_events addr"
    if st: "event_script CC_READ_BUF stream = map Inr ds" "concat ds = concat (cn_sent conn)" for stream ds
  proof -
    define c where "c = snd (cc_connect addr (Inr (stream, [])) (cc_with_material key nonce))"
    have c: "cc_connect addr (Inr (stream, [])) (cc_with_material key nonce) = (Inr (), c)"
        "cc_session c = Some s" "cc_core s c = snd (replay_connect (Inr (stream, [])) c0)"
        "cc_state c = CcConnected"
        "cc_events c = moved CcDisconnected CcConnected @ [EvConnected (show_socket_addr addr)]"
      using assms(2,3)
      by (simp_all add: c_def cc_connect_def cc_connect_timeout_def cc_with_material_def Let_def replay_connect_def c0_def
          cc_core_def)
    have "client_at P (snd (replay_connect (Inr (stream, [])) c0)) (rc_session c0) [] scenario_replies"
      by (rule client_at_start [where ds = ds, OF assms(1) c0(1) _ _ conn(2,3)])
         (use assms(4) c0(2) scenario_messages_fit st in \<open>auto simp: CC_READ_BUF_def REPLAY_READ_BUF_def\<close>)
    then have "cc_at P c s [] scenario_replies" using c(2,3) c0(2) by (simp add: cc_at_def)
    from scenario_exchange [OF this c(4) assms(4)] obtain c1 c2 f c3 c4 where
      r: "cc_run_handshake P c = Some (Inr (), c1)" "cc_send_nat_probe P c1 = Some (Inr (), c2)"
        "cc_send_keepalive P c2 = Some (Inr f, c3)" "cc_send_unknown 0x00AB (ascii ''UNK_AB'') c3 = Some (Inr (), c4)"
        "cc_state c4 = CcActive" "cc_sent c4 = map snd ws"
        "cc_events c4 = cc_events c @ handshake_events
         @ [EvMessageSent MSG_12E ''C2S'', EvMessageSent MSG_FA ''C2S'', EvMessageReceived MSG_FB ''S2C'',
            EvDecoded MSG_FB True, EvMessageSent 0x00AB ''C2S'']"
      by blast
    have "scenario_run P addr (Inr (stream, [])) (cc_with_material key nonce) = Some (Inr (), snd (cc_close c4))"
      using c(1) r(1-4) by (simp add: scenario_run_def) (simp add: cc_close_def Let_def)
    moreover have "cc_state (snd (cc_close c4)) = CcClosed" "cc_sent (snd (cc_close c4)) = map snd ws"
        "cc_events (snd (cc_close c4)) = scenario_events addr"
    proof -
      let ?e = "(cc_set_state CcClosing c4)\<lparr>cc_stream := None\<rparr>"
      have e: "cc_state ?e = CcClosing" "cc_events ?e = cc_events c4 @ moved CcActive CcClosing" "cc_sent ?e = map snd ws"
        using r(5,6) by simp_all
      show "cc_state (snd (cc_close c4)) = CcClosed" "cc_sent (snd (cc_close c4)) = map snd ws"
        "cc_events (snd (cc_close c4)) = scenario_events addr"
        using e r(7) c(5) by (simp_all add: cc_close_def Let_def scenario_events_def)
    qed
    ultimately show ?thesis by blast
  qed
  then show ?thesis using conn(1) by blast
qed

section \<open>State and log over every sequence of calls\<close>

text \<open>The calls of the public interface.\<close>

datatype compat_call =
    CallConnect socket_addr "string + tcp_stream \<times> string option list"
  | CallSendClear u16 bytes
  | CallSendEncrypted u16 bytes
  | CallSendUnknown u16 bytes
  | CallFeed bytes
  | CallRead
  | CallValidate decoded_frame u16
  | CallHandshake
  | CallNatProbe
  | CallKeepalive
  | CallClose

definition after_call :: "'a compat_result \<Rightarrow> compat_client option" where
  "after_call r = map_option snd r"

fun cc_call :: "aead_prims \<Rightarrow> compat_client \<Rightarrow> compat_call \<Rightarrow> compat_client option" where
  "cc_call P c (CallConnect addr attempt) = Some (snd (cc_connect addr attempt c))"
| "cc_call P c (CallSendClear i p) = after_call (cc_send_clear i p c)"
| "cc_call P c (CallSendEncrypted i p) = after_call (cc_send_encrypted P i p c)"
| "cc_call P c (CallSendUnknown i p) = after_call (cc_send_unknown i p c)"
| "cc_call P c (CallFeed bs) = Some (snd (cc_feed_bytes P bs c))"
| "cc_call P c CallRead = Some (snd (cc_read_frame P c))"
| "cc_call P c (CallValidate f i) = Some (snd (validate_expected_response f i c))"
| "cc_call P c CallHandshake = after_call (cc_run_handshake P c)"
| "cc_call P c CallNatProbe = after_call (cc_send_nat_probe P c)"
| "cc_call P c CallKeepalive = after_call (cc_send_keepalive P c)"
| "cc_call P c CallClose = Some (snd (cc_close c))"

fun cc_calls :: "aead_prims \<Rightarrow> compat_client \<Rightarrow> compat_call list \<Rightarrow> compat_client option" where
  "cc_calls P c [] = Some c"
| "cc_calls P c (x # xs) = (case cc_call P c x of None \<Rightarrow> None | Some c \<Rightarrow> cc_calls P c xs)"

text \<open>The state a log leads to; \<open>None\<close> when a transition does not start where the last one ended.\<close>

fun log_state :: "string \<Rightarrow> client_event list \<Rightarrow> string option" where
  "log_state s [] = Some s"
| "log_state s (EvStateTransition a b # es) = (if a = s \<and> a \<noteq> b then log_state b es else None)"
| "log_state s (_ # es) = log_state s es"

fun is_transition :: "client_event \<Rightarrow> bool" where
  "is_transition (EvStateTransition a b) = True"
| "is_transition _ = False"

lemma log_state_append: "log_state s (xs @ ys) = (case log_state s xs of None \<Rightarrow> None | Some t \<Rightarrow> log_state t ys)"
  by (induction s xs rule: log_state.induct) auto

lemma log_state_quiet: "\<forall>e \<in> set es. \<not> is_transition e \<Longrightarrow> log_state s es = Some s"
  by (induction es) (simp, metis is_transition.simps(1) list.set_intros log_state.simps(3-9) client_event.exhaust)

lemma client_state_str_inject: "client_state_str a = client_state_str b \<longleftrightarrow> a = b"
  by (cases a; cases b) simp_all

lemma log_state_moved: "log_state (client_state_str a) (moved a b) = Some (client_state_str b)"
  by (simp add: moved_def client_state_str_inject)

definition established_states :: "client_state list" where
  "established_states = [CcSessionEstablished, CcEncryptedHandshakeSent, CcEncryptedChannelEstablished, CcActive]"

definition idle_states :: "client_state list" where
  "idle_states = [CcDisconnected, CcClosed]"

text \<open>
  \<open>cc_live st b c\<close>: connected, in state \<open>st\<close>, with a log that leads there. \<open>cc_ok\<close>: the consistency
  of a client between calls.
\<close>

definition cc_live :: "client_state \<Rightarrow> bool \<Rightarrow> compat_client \<Rightarrow> bool" where
  "cc_live st b c \<longleftrightarrow>
     cc_state c = st \<and> cc_crypto_ready c = b \<and> cc_stream c \<noteq> None \<and> cc_session c \<noteq> None
     \<and> log_state ''DISCONNECTED'' (cc_events c) = Some (client_state_str st)"

definition cc_ok :: "compat_client \<Rightarrow> bool" where
  "cc_ok c \<longleftrightarrow>
     log_state ''DISCONNECTED'' (cc_events c) = Some (client_state_str (cc_state c))
     \<and> (cc_crypto_ready c \<longleftrightarrow> cc_state c \<in> set established_states)
     \<and> cc_state c \<noteq> CcClosing
     \<and> (cc_stream c = None \<longleftrightarrow> cc_state c \<in> set idle_states)
     \<and> (cc_session c = None \<longleftrightarrow> cc_state c \<in> set idle_states)"

text \<open>What sending and receiving leave as it is.\<close>

definition cc_quiet :: "compat_client \<Rightarrow> compat_client \<Rightarrow> bool" where
  "cc_quiet c d \<longleftrightarrow>
     cc_state d = cc_state c \<and> cc_crypto_ready d = cc_crypto_ready c
     \<and> (cc_stream d = None \<longleftrightarrow> cc_stream c = None) \<and> (cc_session d = None \<longleftrightarrow> cc_session c = None)
     \<and> (\<exists>es. cc_events d = cc_events c @ es \<and> (\<forall>e \<in> set es. \<not> is_transition e))"

named_theorems quiet_rules "operations that do not touch the state"

lemma cc_quiet_refl [quiet_rules]: "cc_quiet c c"
  by (simp add: cc_quiet_def)

lemma cc_quiet_trans: "cc_quiet a b \<Longrightarrow> cc_quiet b c \<Longrightarrow> cc_quiet a c"
  unfolding cc_quiet_def by (elim conjE exE) (simp add: ball_Un)

lemma cc_quiet_push [quiet_rules]: "\<not> is_transition e \<Longrightarrow> cc_quiet c (cc_push e c)"
  by (simp add: cc_quiet_def)

lemma cc_quiet_send_raw [quiet_rules]: "cc_quiet c (snd (cc_send_raw bs c))"
  by (auto simp: cc_send_raw_def cc_quiet_def split: list.split option.split)

lemma cc_quiet_logged:
  assumes "cc_send_logged i bs c = Some (r, d)"
  shows "cc_quiet c d"
proof -
  obtain q k where q: "cc_send_raw bs c = (q, k)" by (cases "cc_send_raw bs c")
  then have k: "cc_quiet c k" using cc_quiet_send_raw [of c bs] by simp
  show ?thesis
  proof (cases q)
    case (Inr u)
    with assms q have "d = cc_push (EvMessageSent i ''C2S'') k" by (simp add: cc_send_logged_def)
    with cc_quiet_trans [OF k cc_quiet_push] show ?thesis by simp
  qed (use assms q k in \<open>simp add: cc_send_logged_def\<close>)
qed

lemma cc_quiet_session [quiet_rules]:
  "cc_session c \<noteq> None \<Longrightarrow> cc_quiet c (c\<lparr>cc_session := Some s\<rparr>)"
  by (simp add: cc_quiet_def)

lemma cc_quiet_send_clear:
  "cc_send_clear i p c = Some (r, d) \<Longrightarrow> cc_quiet c d"
  by (auto simp: cc_send_clear_def cc_quiet_refl dest: cc_quiet_logged split: sum.splits option.splits)

lemma cc_quiet_send_encrypted:
  assumes "cc_send_encrypted P i p c = Some (r, d)"
  shows "cc_quiet c d"
proof (cases "cc_session c")
  case None
  with assms show ?thesis by (auto simp: cc_send_encrypted_def cc_quiet_refl split: if_splits sum.splits)
next
  case (Some s)
  then have q: "cc_quiet c (c\<lparr>cc_session := Some t\<rparr>)" for t by (simp add: cc_quiet_session)
  have "d = c \<or> (\<exists>t. d = c\<lparr>cc_session := Some t\<rparr>) \<or> (\<exists>t bs. cc_send_logged i bs (c\<lparr>cc_session := Some t\<rparr>) = Some (r, d))"
    using assms Some by (auto simp: cc_send_encrypted_def split: if_splits sum.splits option.splits prod.splits)
  then show ?thesis using q cc_quiet_refl cc_quiet_trans [OF q cc_quiet_logged] by blast
qed

lemma cc_decode_raws_session: "snd (cc_decode_raws P so rs) = None \<longleftrightarrow> so = None"
  by (cases so) (cases rs, simp_all add: cc_decode_raws_batch)

lemma cc_quiet_feed [quiet_rules]: "cc_quiet c (snd (cc_feed_bytes P bs c))"
  using cc_decode_raws_session [of P "cc_session c"]
  by (auto simp: cc_feed_bytes_def cc_quiet_def split: prod.split sum.split) (metis snd_conv)+

lemma cc_quiet_read_loop: "cc_stream c \<noteq> None \<Longrightarrow> cc_quiet c (snd (cc_read_loop P stream c))"
proof (induction P stream c rule: cc_read_loop.induct)
  case (1 P stream c)
  obtain r stream' where rd: "stream_read CC_READ_BUF stream = (r, stream')"
    by (cases "stream_read CC_READ_BUF stream")
  let ?c = "c\<lparr>cc_stream := Some stream'\<rparr>"
  have c: "cc_quiet c ?c" using 1(2) by (simp add: cc_quiet_def)
  show ?case
  proof (cases r)
    case (Inl e)
    with rd c show ?thesis by (simp add: cc_read_loop.simps [of P stream c] split: prod.split)
  next
    case (Inr bs)
    obtain q d where feed: "cc_feed_bytes P bs ?c = (q, d)" by (cases "cc_feed_bytes P bs ?c")
    have d: "cc_quiet c d" using cc_quiet_trans [OF c cc_quiet_feed] feed by (metis snd_conv)
    show ?thesis
    proof (cases "bs = []")
      case True
      with rd c Inr show ?thesis by (simp add: cc_read_loop.simps [of P stream c])
    next
      case False
      consider e where "q = Inl e" | "q = Inr []" | x xs where "q = Inr (x # xs)"
        by (metis list.exhaust sum.exhaust)
      then show ?thesis
      proof cases
        case 1
        with rd d feed Inr False show ?thesis by (simp add: cc_read_loop.simps [of P stream c])
      next
        case 2
        have "cc_stream d \<noteq> None" using d \<open>cc_stream c \<noteq> None\<close> by (simp add: cc_quiet_def)
        then have "cc_quiet d (snd (cc_read_loop P stream' d))"
          using "1.IH" [OF rd [symmetric] Inr refl False] feed 2 by simp
        with d have "cc_quiet c (snd (cc_read_loop P stream' d))" by (rule cc_quiet_trans)
        with rd feed Inr False 2 show ?thesis by (simp add: cc_read_loop.simps [of P stream c])
      next
        case 3
        have "cc_quiet d (d\<lparr>cc_pending := ps\<rparr>)" for ps by (simp add: cc_quiet_def)
        with cc_quiet_trans [OF d] rd feed Inr False 3 show ?thesis
          by (simp add: cc_read_loop.simps [of P stream c])
      qed
    qed
  qed
qed

lemma cc_quiet_read [quiet_rules]: "cc_quiet c (snd (cc_read_frame P c))"
proof (cases "cc_pending c = []")
  case True
  then show ?thesis using cc_quiet_read_loop [of c P] by (simp add: cc_read_frame_def cc_quiet_refl split: option.split)
qed (simp add: cc_read_frame_def cc_quiet_def)

lemma cc_quiet_expect [quiet_rules]: "cc_quiet c (snd (expect_inbound f i b c))"
  by (simp add: expect_inbound_def cc_quiet_def Let_def split: option.split sum.split)

lemma cc_quiet_validate [quiet_rules]: "cc_quiet c (snd (validate_expected_response f i c))"
  by (simp add: validate_expected_response_def cc_quiet_def Let_def)

text \<open>Every outcome of a composed operation is consistent.\<close>

definition ends_ok :: "'a compat_result \<Rightarrow> bool" where
  "ends_ok r \<longleftrightarrow> (\<forall>q c. r = Some (q, c) \<longrightarrow> cc_ok c)"

definition calm :: "compat_client \<Rightarrow> 'a compat_result \<Rightarrow> bool" where
  "calm c r \<longleftrightarrow> (\<forall>q d. r = Some (q, d) \<longrightarrow> cc_quiet c d)"

lemma calm_rules [intro]:
  "calm c (cc_send_clear i p c)" "calm c (cc_send_encrypted P i p c)" "calm c (Some (cc_read_frame P c))"
  "calm c (Some (expect_inbound f i b c))"
  using cc_quiet_send_clear [of i p c] cc_quiet_send_encrypted [of P i p c] cc_quiet_read [of c P]
    cc_quiet_expect [of c f i b]
  unfolding calm_def by (blast, blast, simp_all add: prod_eq_iff)

lemma cc_live_quiet: "cc_live st b c \<Longrightarrow> cc_quiet c d \<Longrightarrow> cc_live st b d"
  unfolding cc_live_def cc_quiet_def
  by (elim conjE exE) (simp add: log_state_append log_state_quiet)

text \<open>The states between \<open>connect\<close> and \<open>close\<close>, with the flag they have there.\<close>

definition open_state :: "client_state \<Rightarrow> bool \<Rightarrow> bool" where
  "open_state st b \<longleftrightarrow> b = (st \<in> set established_states) \<and> st \<notin> set (CcClosing # idle_states)"

lemma open_states:
  "open_state CcConnected False" "open_state CcServiceHandshakeSent False"
  "open_state CcServiceHandshakeComplete False" "open_state CcSessionLoginSent False"
  "open_state CcSessionEstablished True" "open_state CcEncryptedHandshakeSent True"
  "open_state CcEncryptedChannelEstablished True" "open_state CcActive True"
  by (simp_all add: open_state_def established_states_def idle_states_def)

lemma cc_live_ok: "cc_live st b c \<Longrightarrow> open_state st b \<Longrightarrow> cc_ok c"
  by (simp add: cc_live_def cc_ok_def open_state_def)

lemma cc_live_set: "cc_live st b c \<Longrightarrow> cc_live st' b (cc_set_state st' c)"
  by (simp add: cc_live_def log_state_append log_state_moved)

lemma ends_ok_step:
  assumes "calm c r" "cc_live st b c" "open_state st b"
    and "\<And>x d. r = Some (Inr x, d) \<Longrightarrow> cc_live st b d \<Longrightarrow> ends_ok (k x d)"
  shows "ends_ok (step_then r k)"
proof (cases r)
  case (Some p)
  obtain q d where p: "p = (q, d)" by (cases p)
  have d: "cc_live st b d" using assms(1) Some p cc_live_quiet [OF assms(2)] by (simp add: calm_def)
  show ?thesis
  proof (cases q)
    case (Inl e)
    with Some p cc_live_ok [OF d assms(3)] show ?thesis by (simp add: ends_ok_def)
  next
    case (Inr x)
    with Some p assms(4) [of x d] d show ?thesis by simp
  qed
qed (simp add: ends_ok_def)

lemma ends_ok_return: "cc_live st b c \<Longrightarrow> open_state st b \<Longrightarrow> ends_ok (Some (q, c))"
  using cc_live_ok by (simp add: ends_ok_def)

lemma ends_ok_quiet: "cc_ok c \<Longrightarrow> calm c r \<Longrightarrow> ends_ok r"
  unfolding ends_ok_def calm_def cc_ok_def cc_quiet_def
  by (elim all_forward imp_forward) (auto simp: log_state_append log_state_quiet)

lemmas state_lists = established_states_def idle_states_def

lemma ends_ok_if: "(b \<Longrightarrow> ends_ok x) \<Longrightarrow> (\<not> b \<Longrightarrow> ends_ok y) \<Longrightarrow> ends_ok (if b then x else y)"
  by simp

lemma cc_live_crypto:
  "cc_live st b c \<Longrightarrow> cc_live CcSessionEstablished True
     (cc_push EvCryptoEstablished ((cc_set_state CcSessionEstablished c)\<lparr>cc_crypto_ready := True\<rparr>))"
  by (simp add: cc_live_def log_state_append log_state_moved)

lemmas live_rules = cc_live_crypto cc_live_set

lemma ends_ok_refused: "cc_ok c \<Longrightarrow> ends_ok (Some (q, c))"
  by (simp add: ends_ok_def)

lemma handshake_ends_ok:
  assumes "cc_ok c"
  shows "ends_ok (cc_run_handshake P c)"
proof (cases "cc_state c = CcConnected")
  case False
  with assms show ?thesis by (simp add: cc_run_handshake_def ends_ok_def)
next
  case True
  have "cc_live CcConnected False c" using assms True by (simp add: cc_ok_def cc_live_def state_lists)
  then show ?thesis
    unfolding cc_run_handshake_def Let_def
    by (intro ends_ok_if ends_ok_refused [OF assms])
       (rule ends_ok_step ends_ok_if ends_ok_return calm_rules open_states | assumption
        | (rule live_rules)+, assumption)+
qed

lemma active_live:
  "cc_ok c \<Longrightarrow> cc_state c = CcEncryptedChannelEstablished \<or> cc_state c = CcActive \<Longrightarrow> cc_live (cc_state c) True c"
  by (auto simp: cc_ok_def cc_live_def state_lists)

lemma open_active: "st = CcEncryptedChannelEstablished \<or> st = CcActive \<Longrightarrow> open_state st True"
  using open_states by blast

lemma nat_probe_ends_ok:
  assumes "cc_ok c"
  shows "ends_ok (cc_send_nat_probe P c)"
  unfolding cc_send_nat_probe_def
proof (rule ends_ok_if)
  assume "\<not> \<not> (cc_state c = CcEncryptedChannelEstablished \<or> cc_state c = CcActive)"
  then have st: "cc_state c = CcEncryptedChannelEstablished \<or> cc_state c = CcActive" by simp
  show "ends_ok (step_then (cc_send_encrypted P MSG_12E payload_12e c) (\<lambda>_ c. Some (Inr (), cc_set_state CcActive c)))"
    by (rule ends_ok_step [OF _ active_live [OF assms st] open_active [OF st]])
       (rule ends_ok_return calm_rules open_states | rule live_rules, assumption)+
qed (rule ends_ok_refused [OF assms])

lemma keepalive_ends_ok:
  assumes "cc_ok c"
  shows "ends_ok (cc_send_keepalive P c)"
  unfolding cc_send_keepalive_def
proof (rule ends_ok_if)
  assume "\<not> (cc_state c \<noteq> CcActive \<and> cc_state c \<noteq> CcEncryptedChannelEstablished)"
  then have st: "cc_state c = CcEncryptedChannelEstablished \<or> cc_state c = CcActive" by blast
  show "ends_ok
     (step_then (cc_send_clear MSG_FA PAYLOAD_FA c)
       (\<lambda>_ c. step_then (Some (cc_read_frame P c))
         (\<lambda>f c. step_then (Some (expect_inbound f MSG_FB False c)) (\<lambda>_ c. Some (Inr f, cc_set_state CcActive c)))))"
    by (rule ends_ok_step [OF _ active_live [OF assms st] open_active [OF st]], rule calm_rules,
        rule ends_ok_step [OF _ _ open_active [OF st]], rule calm_rules, assumption,
        rule ends_ok_step [OF _ _ open_active [OF st]], rule calm_rules, assumption,
        rule ends_ok_return, rule cc_live_set, assumption, rule open_states)
qed (rule ends_ok_refused [OF assms])

lemma connect_ok:
  assumes "cc_ok c"
  shows "cc_ok (snd (cc_connect addr attempt c))"
proof (cases "snd (cc_connect addr attempt c) = c")
  case False
  then obtain st wr s where c: "snd (cc_connect addr attempt c)
     = cc_push (EvConnected (show_socket_addr addr)) (cc_set_state CcConnected
        (c\<lparr>cc_session := Some s, cc_stream := Some st, cc_writes := wr, cc_sent := [], cc_decoder := decoder_new,
           cc_pending := [], cc_crypto_ready := False\<rparr>))"
    by (auto simp: cc_connect_def cc_connect_timeout_def Let_def split: sum.splits if_splits)
  have "cc_live CcConnected False (snd (cc_connect addr attempt c))"
    using assms unfolding c by (simp add: cc_live_def cc_ok_def log_state_append log_state_moved)
  then show ?thesis using cc_live_ok open_states(1) by blast
qed (simp add: assms)

lemma close_ok:
  assumes "cc_ok c"
  shows "cc_ok (snd (cc_close c))"
proof -
  let ?e = "(cc_set_state CcClosing c)\<lparr>cc_stream := None\<rparr>"
  have "log_state ''DISCONNECTED'' (cc_events c) = Some (client_state_str (cc_state c))"
    using assms by (simp add: cc_ok_def)
  then have "log_state ''DISCONNECTED'' (cc_events (cc_push EvDisconnected (cc_set_state CcClosed ?e)))
      = Some (client_state_str CcClosed)"
    using log_state_moved [of "cc_state c" CcClosing] log_state_moved [of CcClosing CcClosed]
    by (simp add: log_state_append)
  then show ?thesis by (simp add: cc_close_def Let_def cc_ok_def state_lists)
qed

lemma cc_ok_quiet: "cc_ok c \<Longrightarrow> cc_quiet c d \<Longrightarrow> cc_ok d"
  using ends_ok_quiet [of c "Some (Inr (), d)"] by (simp add: ends_ok_def calm_def)

lemma ends_okD: "ends_ok r \<Longrightarrow> after_call r = Some d \<Longrightarrow> cc_ok d"
  by (auto simp: ends_ok_def after_call_def)

lemma cc_call_ok: "cc_ok c \<Longrightarrow> cc_call P c x = Some d \<Longrightarrow> cc_ok d"
  using ends_ok_quiet calm_rules(1,2)
  by (cases x) (auto simp: connect_ok close_ok cc_send_unknown_def
      intro: cc_ok_quiet quiet_rules ends_okD handshake_ends_ok nat_probe_ends_ok keepalive_ends_ok)

lemma cc_calls_ok: "cc_ok c \<Longrightarrow> cc_calls P c xs = Some d \<Longrightarrow> cc_ok d"
  by (induction xs arbitrary: c) (auto split: option.splits dest: cc_call_ok)

lemma cc_with_material_ok: "cc_ok (cc_with_material key nonce)"
  by (simp add: cc_ok_def cc_with_material_def state_lists)

section \<open>Properties\<close>

text \<open>
  C2. The compatibility scenario: for a loopback address, when the local server reads the bytes that
  the client of the same key and nonce writes in the scenario, cut anywhere, its connection ends
  normally, and the client that reads the server's bytes, cut anywhere, completes
  \<open>LocalCompatibilityScenario::run\<close> without an error: it is closed, has written exactly those
  bytes, and its event log is the expected one.
\<close>

theorem scenario_meets_server:
  assumes "aead_ok P" "bap_session_new key nonce = Inr s" "assert_localhost_only addr = Inr ()"
    and "send_all (bap_send P) s scenario_messages = Some (ws, s')"
    and "event_script READ_BUF_LEN srv_stream = map Inr cs" "concat cs = concat (map snd ws)"
  shows "\<exists>conn. handle_connection P i srv_stream [] key nonce traces = Some (Inr (Inr (), conn))
     \<and> (\<forall>stream ds. event_script CC_READ_BUF stream = map Inr ds \<and> concat ds = concat (cn_sent conn) \<longrightarrow>
         (\<exists>c. scenario_run P addr (Inr (stream, [])) (cc_with_material key nonce) = Some (Inr (), c)
            \<and> cc_state c = CcClosed \<and> cc_sent c = map snd ws \<and> cc_events c = scenario_events addr))"
  by (rule scenario_exact [OF assms])

theorem scenario_meets_server_witness:
  "\<exists>s ws s' conn c. bap_session_new SYNTHETIC_SESSION_KEY SYNTHETIC_SESSION_NONCE = Inr s
     \<and> send_all (bap_send demo_aead) s scenario_messages = Some (ws, s')
     \<and> handle_connection demo_aead 1 (map (\<lambda>b. IoData [b]) (concat (map snd ws))) []
         SYNTHETIC_SESSION_KEY SYNTHETIC_SESSION_NONCE [] = Some (Inr (Inr (), conn))
     \<and> scenario_run demo_aead \<lparr>sa_ip = IPv4 127 0 0 1, sa_port = 9\<rparr>
         (Inr (map (\<lambda>b. IoData [b]) (concat (cn_sent conn)), [])) cc_new_synthetic = Some (Inr (), c)
     \<and> cc_state c = CcClosed"
proof -
  have flat: "concat (map (\<lambda>b. [b]) bs) = bs" for bs :: bytes by (induction bs) simp_all
  have script: "event_script CC_READ_BUF (map (\<lambda>b. IoData [b]) bs) = map Inr (map (\<lambda>b. [b]) bs)" for bs
    using replay_script_bytewise by (simp add: CC_READ_BUF_def REPLAY_READ_BUF_def)
  obtain s where s: "bap_session_new SYNTHETIC_SESSION_KEY SYNTHETIC_SESSION_NONCE = Inr s"
    using context_new_ok [of SYNTHETIC_SESSION_KEY SYNTHETIC_SESSION_NONCE]
    by (auto simp: bap_session_new_def SYNTHETIC_SESSION_KEY_def SYNTHETIC_SESSION_NONCE_def)
  obtain ws s' where ws: "send_all (bap_send demo_aead) s scenario_messages = Some (ws, s')"
    using bap.deliver_all [OF bap_session_new_synced [OF demo_aead_ok s], of scenario_messages]
      scenario_messages_fit bap_fits_sendable by blast
  have "assert_localhost_only \<lparr>sa_ip = IPv4 127 0 0 1, sa_port = 9\<rparr> = Inr ()"
    by (simp add: assert_localhost_only_def)
  from scenario_meets_server [OF demo_aead_ok s this ws event_script_bytewise flat, of 1 "[]"]
  obtain conn where conn: "handle_connection demo_aead 1 (map (\<lambda>b. IoData [b]) (concat (map snd ws))) []
         SYNTHETIC_SESSION_KEY SYNTHETIC_SESSION_NONCE [] = Some (Inr (Inr (), conn))"
    and "\<exists>c. scenario_run demo_aead \<lparr>sa_ip = IPv4 127 0 0 1, sa_port = 9\<rparr>
         (Inr (map (\<lambda>b. IoData [b]) (concat (cn_sent conn)), []))
         (cc_with_material SYNTHETIC_SESSION_KEY SYNTHETIC_SESSION_NONCE) = Some (Inr (), c)
       \<and> cc_state c = CcClosed"
    using script flat by blast
  then show ?thesis using s ws unfolding cc_new_synthetic_def by blast
qed

text \<open>
  C3. Consistency of the compatibility client: after any sequence of calls that does not panic,
  the transitions of its event log form a path from \<open>DISCONNECTED\<close> to its state, the flag
  \<open>crypto_ready\<close> is set exactly in the four established states, it has a stream and a
  session exactly when it is neither disconnected nor closed, and it is never left \<open>CLOSING\<close>.
\<close>

theorem client_consistent:
  "pred_option cc_ok (cc_calls P (cc_with_material key nonce) calls)"
  using cc_calls_ok [OF cc_with_material_ok] by (cases "cc_calls P (cc_with_material key nonce) calls") auto

end
