(* ===== verification/Gcm_Evidence.thy ===== *)
theory Gcm_Evidence
  imports Gcm_Nonce
begin

text \<open>
  The offline AES-GCM verifiers: \<open>network/src/gcm_sequence.rs\<close>, \<open>gcm_first_frame.rs\<close> and
  \<open>gcm_nonce_reconstruct.rs\<close>. The JSON parser of \<open>serde_json\<close> is a parameter from texts to the
  records of the files, \<open>None\<close> a text it refuses; a file is \<open>None\<close> when it does not exist,
  \<open>Some None\<close> when reading it fails. The theory shows what a verified report means, and
  that a genuine sequence is verified.
\<close>

section \<open>Hex fields\<close>

definition hex_nibble :: "char \<Rightarrow> u8 option" where
  "hex_nibble c =
     (let b = of_char c :: nat in
      if 48 \<le> b \<and> b \<le> 57 then Some (of_nat (b - 48))
      else if 97 \<le> b \<and> b \<le> 102 then Some (of_nat (b - 97) + 10)
      else if 65 \<le> b \<and> b \<le> 70 then Some (of_nat (b - 65) + 10)
      else None)"

text \<open>The loop of \<open>decode_hex\<close> over a text of even length; \<open>None\<close>: some byte is no hex digit.\<close>

fun hex_loop :: "string \<Rightarrow> bytes option" where
  "hex_loop (a # b # cs) =
     (case hex_nibble a of
        None \<Rightarrow> None
      | Some hi \<Rightarrow>
          (case hex_nibble b of
             None \<Rightarrow> None
           | Some lo \<Rightarrow> map_option ((#) (push_bit 4 hi OR lo)) (hex_loop cs)))"
| "hex_loop _ = Some []"

text \<open>The three files have this function each, over their own error type.\<close>

definition decode_field :: "(string \<Rightarrow> 'e) \<Rightarrow> (string \<Rightarrow> nat \<Rightarrow> 'e) \<Rightarrow> string \<Rightarrow> string \<Rightarrow> 'e + bytes" where
  "decode_field none bad field s =
     (let t = str_trim s in
      if t = [] then Inl (none field)
      else if length t mod 2 \<noteq> 0 then Inl (bad field (length t))
      else (case hex_loop t of None \<Rightarrow> Inl (bad field (length t)) | Some bs \<Rightarrow> Inr bs))"

definition sized_field :: "(string \<Rightarrow> nat \<Rightarrow> nat \<Rightarrow> 'e) \<Rightarrow> string \<Rightarrow> nat \<Rightarrow> 'e + bytes \<Rightarrow> 'e + bytes" where
  "sized_field wrong field n r =
     (case r of
        Inl e \<Rightarrow> Inl e
      | Inr bs \<Rightarrow> if length bs \<noteq> n then Inl (wrong field (length bs) n) else Inr bs)"

definition success_word :: "bool \<Rightarrow> string" where
  "success_word b = (if b then ''success'' else ''fail'')"

definition opt_text :: "('a \<Rightarrow> string) \<Rightarrow> 'a option \<Rightarrow> string" where
  "opt_text f x = (case x of None \<Rightarrow> ''n/a'' | Some v \<Rightarrow> f v)"

section \<open>The first frame\<close>

datatype first_frame_error =
    FfFileNotFound string
  | FfIo
  | FfBadJson
  | FfBadHex string nat
  | FfBadFieldLen string nat nat
  | FfEmptyField string
  | FfCrypto crypto_error

definition default_expected_pt_len :: nat where "default_expected_pt_len = 6"

record first_frame_file =
  ff_session_key_hex :: string
  ff_nonce_hex :: string
  ff_tag_hex :: string
  ff_ciphertext_hex :: string
  ff_aad_hex :: string
  ff_expected_plaintext_len :: nat

definition ff_decode_hex :: "string \<Rightarrow> string \<Rightarrow> first_frame_error + bytes" where
  "ff_decode_hex = decode_field FfEmptyField FfBadHex"

record first_frame_report =
  fr_key_length :: nat
  fr_nonce_length :: nat
  fr_ciphertext_length :: nat
  fr_tag_length :: nat
  fr_aad_length :: nat
  fr_decrypt_ok :: bool
  fr_plaintext_length :: "nat option"
  fr_expected_plaintext_length :: nat
  fr_plaintext_length_matches_expected :: bool

definition ff_verified :: "first_frame_report \<Rightarrow> bool" where
  "ff_verified r \<longleftrightarrow> fr_decrypt_ok r \<and> fr_plaintext_length_matches_expected r"

definition show_first_frame :: "first_frame_report \<Rightarrow> string" where
  "show_first_frame r =
     concat (map writeln
       [''key_length: '' @ show_nat (fr_key_length r),
        ''nonce_length: '' @ show_nat (fr_nonce_length r),
        ''ciphertext_length: '' @ show_nat (fr_ciphertext_length r),
        ''tag_length: '' @ show_nat (fr_tag_length r),
        ''aad_length: '' @ show_nat (fr_aad_length r),
        ''aes_gcm_decrypt: '' @ success_word (fr_decrypt_ok r),
        ''plaintext_length: '' @ opt_text show_nat (fr_plaintext_length r),
        ''plaintext_expected_length: '' @ show_nat (fr_expected_plaintext_length r),
        ''plaintext_length_matches_expected: '' @ show_bool (fr_plaintext_length_matches_expected r),
        ''result: '' @ (if ff_verified r then ''VERIFIED FOR CAPTURE (lengths only; secrets not printed)''
                        else ''FAILED'')])"

definition ff_verify_file :: "aead_prims \<Rightarrow> first_frame_file \<Rightarrow> first_frame_error + first_frame_report" where
  "ff_verify_file P file =
     bind_res (sized_field FfBadFieldLen ''session_key_hex'' KEY_LEN
       (ff_decode_hex ''session_key_hex'' (ff_session_key_hex file))) (\<lambda>key.
     bind_res (sized_field FfBadFieldLen ''nonce_hex'' NONCE_LEN
       (ff_decode_hex ''nonce_hex'' (ff_nonce_hex file))) (\<lambda>nonce.
     bind_res (sized_field FfBadFieldLen ''tag_hex'' TAG_LEN
       (ff_decode_hex ''tag_hex'' (ff_tag_hex file))) (\<lambda>tag.
     bind_res (ff_decode_hex ''ciphertext_hex'' (ff_ciphertext_hex file)) (\<lambda>ciphertext.
     bind_res (if str_trim (ff_aad_hex file) = [] then Inr [] else ff_decode_hex ''aad_hex'' (ff_aad_hex file)) (\<lambda>aad.
       let expected = ff_expected_plaintext_len file;
           report = \<lparr>fr_key_length = length key, fr_nonce_length = length nonce,
                     fr_ciphertext_length = length ciphertext, fr_tag_length = length tag,
                     fr_aad_length = length aad, fr_decrypt_ok = False, fr_plaintext_length = None,
                     fr_expected_plaintext_length = expected,
                     fr_plaintext_length_matches_expected = False\<rparr>
       in case decrypt_aes_gcm P key nonce ciphertext tag aad of
            Inr plaintext \<Rightarrow>
              Inr (report\<lparr>fr_decrypt_ok := True, fr_plaintext_length := Some (length plaintext),
                          fr_plaintext_length_matches_expected := (length plaintext = expected)\<rparr>)
          | Inl CDecryptFailed \<Rightarrow> Inr report
          | Inl e \<Rightarrow> Inl (FfCrypto e))))))"

definition ff_verify_json ::
  "aead_prims \<Rightarrow> (string \<Rightarrow> first_frame_file option) \<Rightarrow> string \<Rightarrow> first_frame_error + first_frame_report" where
  "ff_verify_json P json text =
     (case json text of None \<Rightarrow> Inl FfBadJson | Some file \<Rightarrow> ff_verify_file P file)"

definition ff_verify_path ::
  "aead_prims \<Rightarrow> (string \<Rightarrow> first_frame_file option) \<Rightarrow> string \<Rightarrow> string option option \<Rightarrow>
   first_frame_error + first_frame_report" where
  "ff_verify_path P json path file =
     (case file of
        None \<Rightarrow> Inl (FfFileNotFound path)
      | Some None \<Rightarrow> Inl FfIo
      | Some (Some text) \<Rightarrow> ff_verify_json P json text)"

section \<open>Reconstruction of a nonce\<close>

datatype nonce_input_error =
    NiFileNotFound string
  | NiIo
  | NiBadJson
  | NiBadHex string nat
  | NiBadFieldLen string nat nat
  | NiEmptyField string
  | NiBadDirection string
  | NiBadTransform string
  | NiCrypto gcm_nonce_error

record nonce_file =
  nf_session_nonce_hex :: string
  nf_direction :: string
  nf_transform :: string
  nf_expected_nonce_hex :: "string option"

definition ni_decode_hex :: "string \<Rightarrow> string \<Rightarrow> nonce_input_error + bytes" where
  "ni_decode_hex = decode_field NiEmptyField NiBadHex"

definition direction_of_text :: "(string \<Rightarrow> 'e) \<Rightarrow> string \<Rightarrow> 'e + nonce_direction" where
  "direction_of_text bad s =
     (let t = str_trim s in
      if t = ''client_to_server'' \<or> t = ''c2s'' then Inr ClientToServer
      else if t = ''server_to_client'' \<or> t = ''s2c'' then Inr ServerToClient
      else Inl (bad t))"

definition ni_parse_direction :: "string \<Rightarrow> nonce_input_error + nonce_direction" where
  "ni_parse_direction = direction_of_text NiBadDirection"

definition parse_transform :: "string \<Rightarrow> nonce_direction \<Rightarrow> nonce_input_error + nonce_transform" where
  "parse_transform s direction =
     (let t = str_trim s in
      if t = ''Identity'' then Inr Identity
      else if t = ''XorLastByte1'' then Inr (XorLastByte 1)
      else if t = ''DefaultForDirection'' then Inr (default_transform_for direction)
      else Inl (NiBadTransform t))"

definition ni_reconstruct_file :: "nonce_file \<Rightarrow> nonce_input_error + nonce_report" where
  "ni_reconstruct_file file =
     bind_res (ni_parse_direction (nf_direction file)) (\<lambda>direction.
     bind_res (parse_transform (nf_transform file) direction) (\<lambda>transform.
     bind_res (sized_field NiBadFieldLen ''session_nonce_hex'' GCM_NONCE_LEN
       (ni_decode_hex ''session_nonce_hex'' (nf_session_nonce_hex file))) (\<lambda>session.
     bind_res
       (case nf_expected_nonce_hex file of
          None \<Rightarrow> Inr None
        | Some h \<Rightarrow>
            if str_trim h = [] then Inr None
            else map_sum id Some (sized_field NiBadFieldLen ''expected_nonce_hex'' GCM_NONCE_LEN
                   (ni_decode_hex ''expected_nonce_hex'' h))) (\<lambda>expected.
     map_sum NiCrypto id (reconstruct_first_frame_nonce session direction transform expected)))))"

definition ni_reconstruct_json ::
  "(string \<Rightarrow> nonce_file option) \<Rightarrow> string \<Rightarrow> nonce_input_error + nonce_report" where
  "ni_reconstruct_json json text =
     (case json text of None \<Rightarrow> Inl NiBadJson | Some file \<Rightarrow> ni_reconstruct_file file)"

definition ni_reconstruct_path ::
  "(string \<Rightarrow> nonce_file option) \<Rightarrow> string \<Rightarrow> string option option \<Rightarrow> nonce_input_error + nonce_report" where
  "ni_reconstruct_path json path file =
     (case file of
        None \<Rightarrow> Inl (NiFileNotFound path)
      | Some None \<Rightarrow> Inl NiIo
      | Some (Some text) \<Rightarrow> ni_reconstruct_json json text)"

section \<open>A sequence of frames\<close>

datatype sequence_error =
    SqFileNotFound string
  | SqIo
  | SqBadJson
  | SqBadHex string nat
  | SqBadFieldLen string nat nat
  | SqEmptyField string
  | SqBadDirection string
  | SqEmptyFrames
  | SqCrypto crypto_error
  | SqContext session_context_error
  | SqNonce gcm_nonce_error

record sequence_frame =
  sf_id_hex :: string
  sf_direction :: string
  sf_frame_offset :: "u64 option"
  sf_frame_order :: "u64 option"
  sf_tag_hex :: string
  sf_ciphertext_hex :: string
  sf_expected_plaintext_len :: "nat option"
  sf_expected_nonce_hex :: "string option"

record sequence_file =
  sq_session_key_hex :: string
  sq_session_nonce_hex :: string
  sq_aad_hex :: string
  sq_frames :: "sequence_frame list"

definition sq_decode_hex :: "string \<Rightarrow> string \<Rightarrow> sequence_error + bytes" where
  "sq_decode_hex = decode_field SqEmptyField SqBadHex"

definition sq_parse_direction :: "string \<Rightarrow> sequence_error + nonce_direction" where
  "sq_parse_direction = direction_of_text SqBadDirection"

record frame_report =
  fp_id_hex :: string
  fp_direction :: string
  fp_frame_offset :: "u64 option"
  fp_frame_order :: "u64 option"
  fp_tag_length :: nat
  fp_ciphertext_length :: nat
  fp_aad_length :: nat
  fp_decrypt_ok :: bool
  fp_plaintext_length :: "nat option"
  fp_plaintext_len_matches :: "bool option"
  fp_nonce_matches :: "bool option"
  fp_ordinal :: u32

record sequence_report =
  sr_key_length :: nat
  sr_session_nonce_length :: nat
  sr_aad_length :: nat
  sr_frames :: "frame_report list"
  sr_c2s_frames :: u32
  sr_s2c_frames :: u32
  sr_nonce_sequence_valid :: bool
  sr_gcm_validation :: bool

definition all_verified :: "sequence_report \<Rightarrow> bool" where
  "all_verified r \<longleftrightarrow> sr_nonce_sequence_valid r \<and> sr_gcm_validation r \<and> sr_frames r \<noteq> []"

definition show_frame_report :: "nat \<Rightarrow> frame_report \<Rightarrow> string" where
  "show_frame_report i fr =
     concat (map writeln
       ([''--- frame['' @ show_nat i @ ''] ---'',
         ''id_hex: '' @ fp_id_hex fr,
         ''direction: '' @ fp_direction fr]
        @ (case fp_frame_offset fr of None \<Rightarrow> [] | Some x \<Rightarrow> [''frame_offset: '' @ show_nat (unat x)])
        @ (case fp_frame_order fr of None \<Rightarrow> [] | Some x \<Rightarrow> [''frame_order: '' @ show_nat (unat x)])
        @ [''direction_enc_ordinal: '' @ show_nat (unat (fp_ordinal fr)),
           ''tag_length: '' @ show_nat (fp_tag_length fr),
           ''ciphertext_length: '' @ show_nat (fp_ciphertext_length fr),
           ''aes_gcm_decrypt: '' @ success_word (fp_decrypt_ok fr),
           ''plaintext_length: '' @ opt_text show_nat (fp_plaintext_length fr),
           ''plaintext_len_matches_expected: '' @ opt_text show_bool (fp_plaintext_len_matches fr),
           ''nonce_matches_expected: '' @ opt_text show_bool (fp_nonce_matches fr)]))"

definition show_sequence_report :: "sequence_report \<Rightarrow> string" where
  "show_sequence_report r =
     concat (map writeln
       [''SESSION CRYPTO CONTEXT'',
        ''frames_checked: '' @ show_nat (length (sr_frames r)),
        ''client_to_server_frames: '' @ show_nat (unat (sr_c2s_frames r)),
        ''server_to_client_frames: '' @ show_nat (unat (sr_s2c_frames r)),
        ''nonce_sequence_valid: '' @ show_bool (sr_nonce_sequence_valid r),
        ''gcm_validation: '' @ show_bool (sr_gcm_validation r),
        ''key_length: '' @ show_nat (sr_key_length r),
        ''session_nonce_length: '' @ show_nat (sr_session_nonce_length r),
        ''aad_length: '' @ show_nat (sr_aad_length r)])
     @ concat (map (\<lambda>(i, fr). show_frame_report i fr) (enumerate 0 (sr_frames r)))
     @ writeln (''result: '' @ (if all_verified r then ''VERIFIED'' else ''FAILED''))"

text \<open>The variables of the loop over the frames.\<close>

record seq_state =
  ss_ctx :: session_context
  ss_c2s :: u32
  ss_s2c :: u32
  ss_nonce_ok :: bool
  ss_gcm_ok :: bool
  ss_reports :: "frame_report list"

fun seq_ordinal :: "seq_state \<Rightarrow> nonce_direction \<Rightarrow> u32" where
  "seq_ordinal st ClientToServer = ss_c2s st"
| "seq_ordinal st ServerToClient = ss_s2c st"

fun seq_count :: "nonce_direction \<Rightarrow> seq_state \<Rightarrow> seq_state" where
  "seq_count ClientToServer st = st\<lparr>ss_c2s := ss_c2s st + 1\<rparr>"
| "seq_count ServerToClient st = st\<lparr>ss_s2c := ss_s2c st + 1\<rparr>"

definition nonce_check :: "sequence_frame \<Rightarrow> bytes \<Rightarrow> sequence_error + bool option" where
  "nonce_check fr nonce =
     (case sf_expected_nonce_hex fr of
        None \<Rightarrow> Inr None
      | Some h \<Rightarrow>
          if str_trim h = [] then Inr None
          else
            bind_res (sized_field SqBadFieldLen ''expected_nonce_hex'' NONCE_LEN
              (sq_decode_hex ''expected_nonce_hex'' h)) (\<lambda>exp.
            map_sum SqNonce Some (nonces_equal nonce exp)))"

definition seq_step ::
  "aead_prims \<Rightarrow> bytes \<Rightarrow> sequence_frame \<Rightarrow> seq_state \<Rightarrow> sequence_error + seq_state" where
  "seq_step P aad fr st =
     bind_res (sq_parse_direction (sf_direction fr)) (\<lambda>direction.
     bind_res (sized_field SqBadFieldLen ''tag_hex'' TAG_LEN (sq_decode_hex ''tag_hex'' (sf_tag_hex fr))) (\<lambda>tag.
     bind_res (sq_decode_hex ''ciphertext_hex'' (sf_ciphertext_hex fr)) (\<lambda>ciphertext.
       let ord = seq_ordinal st direction;
           drawn = next_nonce (ss_ctx st) direction;
           nonce = fst drawn;
           st = st\<lparr>ss_ctx := snd drawn\<rparr>
       in
     bind_res (nonce_check fr nonce) (\<lambda>nonce_matches.
       let st = st\<lparr>ss_nonce_ok := ss_nonce_ok st \<and> nonce_matches \<noteq> Some False\<rparr>;
           report = \<lparr>fp_id_hex = sf_id_hex fr, fp_direction = direction_name direction,
                     fp_frame_offset = sf_frame_offset fr, fp_frame_order = sf_frame_order fr,
                     fp_tag_length = length tag, fp_ciphertext_length = length ciphertext,
                     fp_aad_length = length aad, fp_decrypt_ok = False, fp_plaintext_length = None,
                     fp_plaintext_len_matches = map_option (\<lambda>_. False) (sf_expected_plaintext_len fr),
                     fp_nonce_matches = nonce_matches, fp_ordinal = ord\<rparr>
       in case decrypt_aes_gcm P (sc_key (ss_ctx st)) nonce ciphertext tag aad of
            Inr plaintext \<Rightarrow>
              let matches = map_option (\<lambda>exp. length plaintext = exp) (sf_expected_plaintext_len fr);
                  report = report\<lparr>fp_decrypt_ok := True, fp_plaintext_length := Some (length plaintext),
                                  fp_plaintext_len_matches := matches\<rparr>;
                  st = st\<lparr>ss_gcm_ok := ss_gcm_ok st \<and> matches \<noteq> Some False\<rparr>
              in Inr (seq_count direction (st\<lparr>ss_reports := ss_reports st @ [report]\<rparr>))
          | Inl CDecryptFailed \<Rightarrow>
              Inr (seq_count direction (st\<lparr>ss_gcm_ok := False, ss_reports := ss_reports st @ [report]\<rparr>))
          | Inl e \<Rightarrow> Inl (SqCrypto e)))))"

fun seq_loop ::
  "aead_prims \<Rightarrow> bytes \<Rightarrow> sequence_frame list \<Rightarrow> seq_state \<Rightarrow> sequence_error + seq_state" where
  "seq_loop P aad [] st = Inr st"
| "seq_loop P aad (fr # frs) st = bind_res (seq_step P aad fr st) (seq_loop P aad frs)"

definition seq_start :: "session_context \<Rightarrow> seq_state" where
  "seq_start ctx = \<lparr>ss_ctx = ctx, ss_c2s = 0, ss_s2c = 0, ss_nonce_ok = True, ss_gcm_ok = True, ss_reports = []\<rparr>"

definition sq_verify_file :: "aead_prims \<Rightarrow> sequence_file \<Rightarrow> sequence_error + sequence_report" where
  "sq_verify_file P file =
     (if sq_frames file = [] then Inl SqEmptyFrames
      else
        bind_res (sized_field SqBadFieldLen ''session_key_hex'' KEY_LEN
          (sq_decode_hex ''session_key_hex'' (sq_session_key_hex file))) (\<lambda>key.
        bind_res (sized_field SqBadFieldLen ''session_nonce_hex'' NONCE_LEN
          (sq_decode_hex ''session_nonce_hex'' (sq_session_nonce_hex file))) (\<lambda>session_nonce.
        bind_res (if str_trim (sq_aad_hex file) = [] then Inr [] else sq_decode_hex ''aad_hex'' (sq_aad_hex file)) (\<lambda>aad.
        bind_res (map_sum SqContext id (context_new key session_nonce)) (\<lambda>ctx.
        bind_res (seq_loop P aad (sq_frames file) (seq_start ctx)) (\<lambda>st.
        Inr \<lparr>sr_key_length = length key, sr_session_nonce_length = length session_nonce,
             sr_aad_length = length aad, sr_frames = ss_reports st, sr_c2s_frames = ss_c2s st,
             sr_s2c_frames = ss_s2c st,
             sr_nonce_sequence_valid = (ss_nonce_ok st \<and> sc_nonce (ss_ctx st) = sc_nonce ctx),
             sr_gcm_validation = ss_gcm_ok st\<rparr>))))))"

definition sq_verify_json ::
  "aead_prims \<Rightarrow> (string \<Rightarrow> sequence_file option) \<Rightarrow> string \<Rightarrow> sequence_error + sequence_report" where
  "sq_verify_json P json text =
     (case json text of None \<Rightarrow> Inl SqBadJson | Some file \<Rightarrow> sq_verify_file P file)"

definition sq_verify_path ::
  "aead_prims \<Rightarrow> (string \<Rightarrow> sequence_file option) \<Rightarrow> string \<Rightarrow> string option option \<Rightarrow>
   sequence_error + sequence_report" where
  "sq_verify_path P json path file =
     (case file of
        None \<Rightarrow> Inl (SqFileNotFound path)
      | Some None \<Rightarrow> Inl SqIo
      | Some (Some text) \<Rightarrow> sq_verify_json P json text)"

section \<open>Hex fields and their texts\<close>

lemma of_nat_hex_digit: "k < 16 \<Longrightarrow> hex_nibble (hex_char k) = Some (of_nat k)"
  by (auto simp: hex_nibble_def Let_def of_char_hex_char of_nat_diff)

lemma nibbles_join: "push_bit 4 (of_nat (unat b div 16)) OR of_nat (unat b mod 16) = (b :: u8)"
proof -
  have "of_nat (unat b div 16) = b div 16" "of_nat (unat b mod 16) = b mod 16"
    by (simp_all add: word_arith_nat_div word_arith_nat_mod)
  then have "of_nat (unat b div 16) = drop_bit 4 b" "of_nat (unat b mod 16) = take_bit 4 b"
    by (simp_all add: drop_bit_eq_div take_bit_eq_mod)
  moreover have "push_bit 4 (drop_bit 4 b) OR take_bit 4 b = b"
    by (rule bit_word_eqI) (auto simp: bit_simps)
  ultimately show ?thesis by simp
qed

lemma hex_loop_encode: "hex_loop (hex_encode bs) = Some bs"
proof (induction bs)
  case (Cons b bs)
  have "unat b div 16 < 16" "unat b mod 16 < 16"
    using unat_u8_lt [of b] by (auto simp del: unat_u8_lt)
  with Cons show ?case
    by (simp add: hex_encode_def show_hex_u8_eq of_nat_hex_digit nibbles_join)
qed (simp add: hex_encode_def)

lemma hex_encode_Nil_iff [simp]: "hex_encode bs = [] \<longleftrightarrow> bs = []"
  using length_hex_encode [of bs] by (cases bs) (simp_all add: hex_encode_def show_hex_u8_eq)

lemma decode_field_encode:
  "bs \<noteq> [] \<Longrightarrow> decode_field none bad field (hex_encode bs) = Inr bs"
  by (simp add: decode_field_def Let_def visible_hex_encode hex_loop_encode)

lemma sized_field_ok: "sized_field wrong field n r = Inr bs \<longleftrightarrow> r = Inr bs \<and> length bs = n"
  by (cases r) (auto simp: sized_field_def)

lemma direction_of_name: "direction_of_text bad (direction_name d) = Inr d"
proof -
  have "visible_ascii (direction_name d)" by (cases d) (simp_all add: visible_ascii_def)
  then show ?thesis by (cases d) (simp_all add: direction_of_text_def Let_def)
qed

section \<open>What a report says\<close>

text \<open>
  The frame decrypts under this nonce to a plaintext of the expected length, if one is given,
  and the nonce is the expected one, if one is given.
\<close>

definition frame_verified :: "aead_prims \<Rightarrow> bytes \<Rightarrow> bytes \<Rightarrow> bytes \<Rightarrow> sequence_frame \<Rightarrow> bool" where
  "frame_verified P key aad nonce fr \<longleftrightarrow>
     (\<exists>tag ct pt. sq_decode_hex ''tag_hex'' (sf_tag_hex fr) = Inr tag
        \<and> sq_decode_hex ''ciphertext_hex'' (sf_ciphertext_hex fr) = Inr ct
        \<and> decrypt_aes_gcm P key nonce ct tag aad = Inr pt
        \<and> sf_expected_plaintext_len fr \<in> {None, Some (length pt)}
        \<and> (case sf_expected_nonce_hex fr of
             None \<Rightarrow> True
           | Some h \<Rightarrow> str_trim h = [] \<or> sq_decode_hex ''expected_nonce_hex'' h = Inr nonce))"

lemma nonce_check_ok:
  assumes "nonce_check fr nonce = Inr m"
  shows "m \<noteq> Some False \<longleftrightarrow>
     (case sf_expected_nonce_hex fr of
        None \<Rightarrow> True
      | Some h \<Rightarrow> str_trim h = [] \<or> sq_decode_hex ''expected_nonce_hex'' h = Inr nonce)"
proof (cases "sf_expected_nonce_hex fr")
  case (Some h)
  show ?thesis
  proof (cases "str_trim h = []")
    case False
    with assms Some obtain exp where "sq_decode_hex ''expected_nonce_hex'' h = Inr exp"
        "map_sum SqNonce Some (nonces_equal nonce exp) = Inr m"
      by (auto simp: nonce_check_def bind_res_ok sized_field_ok)
    with Some False show ?thesis by (auto simp: nonces_equal_def split: if_splits)
  qed (use assms Some in \<open>auto simp: nonce_check_def\<close>)
qed (use assms in \<open>simp add: nonce_check_def\<close>)

text \<open>One frame: what it needs, and what it leaves.\<close>

lemma seq_step_outcome:
  assumes "seq_step P aad fr st = Inr st'"
  obtains d where "sq_parse_direction (sf_direction fr) = Inr d" "ss_ctx st' = snd (next_nonce (ss_ctx st) d)"
    "ss_nonce_ok st' \<and> ss_gcm_ok st' \<longleftrightarrow>
       ss_nonce_ok st \<and> ss_gcm_ok st \<and> frame_verified P (sc_key (ss_ctx st)) aad (peek_nonce (ss_ctx st) d) fr"
    "ss_c2s st' = ss_c2s st + (if d = ClientToServer then 1 else 0)"
    "ss_s2c st' = ss_s2c st + (if d = ServerToClient then 1 else 0)"
    "\<exists>rep. ss_reports st' = ss_reports st @ [rep]"
proof -
  from assms obtain d tag ct m where
    d: "sq_parse_direction (sf_direction fr) = Inr d"
      "sq_decode_hex ''tag_hex'' (sf_tag_hex fr) = Inr tag"
      "sq_decode_hex ''ciphertext_hex'' (sf_ciphertext_hex fr) = Inr ct"
      "nonce_check fr (peek_nonce (ss_ctx st) d) = Inr m"
    by (auto simp: seq_step_def bind_res_ok sized_field_ok Let_def)
  note m = nonce_check_ok [OF d(4)]
  show thesis
  proof (cases "decrypt_aes_gcm P (sc_key (ss_ctx st)) (peek_nonce (ss_ctx st) d) ct tag aad")
    case (Inl e)
    with assms d have "e = CDecryptFailed"
      by (cases e) (auto simp: seq_step_def bind_res_ok sized_field_ok Let_def)
    with assms d Inl show thesis
      by (intro that [of d]; cases d)
         (auto simp: seq_step_def bind_res_ok sized_field_ok Let_def frame_verified_def)
  next
    case (Inr pt)
    have v: "frame_verified P (sc_key (ss_ctx st)) aad (peek_nonce (ss_ctx st) d) fr \<longleftrightarrow>
        map_option (\<lambda>exp. length pt = exp) (sf_expected_plaintext_len fr) \<noteq> Some False \<and> m \<noteq> Some False"
      unfolding m frame_verified_def using d Inr
      by (cases "sf_expected_plaintext_len fr") (auto split: option.split)
    show thesis
      by (rule that [of d]; cases d)
         (use assms d Inr v in \<open>auto simp: seq_step_def bind_res_ok sized_field_ok Let_def\<close>)
  qed
qed

lemma seq_loop_outcome:
  "seq_loop P aad frs st = Inr st' \<Longrightarrow>
   \<exists>ds. map (sq_parse_direction \<circ> sf_direction) frs = map Inr ds
     \<and> ss_ctx st' = snd (draw_nonces (ss_ctx st) ds)
     \<and> (ss_nonce_ok st' \<and> ss_gcm_ok st' \<longleftrightarrow> ss_nonce_ok st \<and> ss_gcm_ok st
          \<and> list_all2 (frame_verified P (sc_key (ss_ctx st)) aad) (fst (draw_nonces (ss_ctx st) ds)) frs)
     \<and> ss_c2s st' = ss_c2s st + of_nat (count_list ds ClientToServer)
     \<and> ss_s2c st' = ss_s2c st + of_nat (count_list ds ServerToClient)
     \<and> (\<exists>reps. ss_reports st' = ss_reports st @ reps \<and> length reps = length frs)"
proof (induction frs arbitrary: st)
  case Nil
  then show ?case by (auto intro: exI [of _ "[]"])
next
  case (Cons fr frs)
  then obtain s1 where s1: "seq_step P aad fr st = Inr s1" "seq_loop P aad frs s1 = Inr st'"
    by (auto simp: bind_res_ok)
  from seq_step_outcome [OF s1(1)] obtain d where
    d: "sq_parse_direction (sf_direction fr) = Inr d" "ss_ctx s1 = snd (next_nonce (ss_ctx st) d)"
      "ss_nonce_ok s1 \<and> ss_gcm_ok s1 \<longleftrightarrow>
        ss_nonce_ok st \<and> ss_gcm_ok st \<and> frame_verified P (sc_key (ss_ctx st)) aad (peek_nonce (ss_ctx st) d) fr"
      "ss_c2s s1 = ss_c2s st + (if d = ClientToServer then 1 else 0)"
      "ss_s2c s1 = ss_s2c st + (if d = ServerToClient then 1 else 0)"
      "\<exists>rep. ss_reports s1 = ss_reports st @ [rep]"
    by blast
  from Cons.IH [OF s1(2)] obtain ds where
    ds: "map (sq_parse_direction \<circ> sf_direction) frs = map Inr ds" "ss_ctx st' = snd (draw_nonces (ss_ctx s1) ds)"
      "ss_nonce_ok st' \<and> ss_gcm_ok st' \<longleftrightarrow> ss_nonce_ok s1 \<and> ss_gcm_ok s1
          \<and> list_all2 (frame_verified P (sc_key (ss_ctx s1)) aad) (fst (draw_nonces (ss_ctx s1) ds)) frs"
      "ss_c2s st' = ss_c2s s1 + of_nat (count_list ds ClientToServer)"
      "ss_s2c st' = ss_s2c s1 + of_nat (count_list ds ServerToClient)"
      "\<exists>reps. ss_reports st' = ss_reports s1 @ reps \<and> length reps = length frs"
    by blast
  have key: "sc_key (ss_ctx s1) = sc_key (ss_ctx st)" using d(2) by simp
  let ?ds = "d # ds"
  have "map (sq_parse_direction \<circ> sf_direction) (fr # frs) = map Inr ?ds" using d(1) ds(1) by simp
  moreover have "ss_ctx st' = snd (draw_nonces (ss_ctx st) ?ds)" using d(2) ds(2) by (simp add: draw_nonces_Cons)
  moreover have "ss_nonce_ok st' \<and> ss_gcm_ok st' \<longleftrightarrow> ss_nonce_ok st \<and> ss_gcm_ok st
      \<and> list_all2 (frame_verified P (sc_key (ss_ctx st)) aad) (fst (draw_nonces (ss_ctx st) ?ds)) (fr # frs)"
    unfolding ds(3) [unfolded key] draw_nonces_Cons fst_conv list_all2_Cons d(2) [symmetric] using d(3) by blast
  moreover have "ss_c2s st' = ss_c2s st + of_nat (count_list ?ds ClientToServer)"
    "ss_s2c st' = ss_s2c st + of_nat (count_list ?ds ServerToClient)"
    using d(4,5) ds(4,5) by simp_all
  moreover have "\<exists>reps. ss_reports st' = ss_reports st @ reps \<and> length reps = length (fr # frs)"
    using d(6) ds(6) by auto
  ultimately show ?case by blast
qed

section \<open>Genuine sequences\<close>

text \<open>The frames a peer records that seals messages under its session, in order.\<close>

fun sealed_frames ::
  "aead_prims \<Rightarrow> bytes \<Rightarrow> session_context \<Rightarrow> (nonce_direction \<times> bytes) list \<Rightarrow> sequence_frame list option" where
  "sealed_frames P aad ctx [] = Some []"
| "sealed_frames P aad ctx ((d, msg) # ms) =
     (case encrypt_aes_gcm P (sc_key ctx) (peek_nonce ctx d) msg aad of
        Inl e \<Rightarrow> None
      | Inr b \<Rightarrow>
          map_option ((#) \<lparr>sf_id_hex = [], sf_direction = direction_name d, sf_frame_offset = None,
            sf_frame_order = None, sf_tag_hex = hex_encode (gb_tag b),
            sf_ciphertext_hex = hex_encode (gb_ciphertext b), sf_expected_plaintext_len = Some (length msg),
            sf_expected_nonce_hex = Some (hex_encode (peek_nonce ctx d))\<rparr>)
            (sealed_frames P aad (snd (next_nonce ctx d)) ms))"

definition sealable :: "nonce_direction \<times> bytes \<Rightarrow> bool" where
  "sealable m \<longleftrightarrow> snd m \<noteq> [] \<and> length (snd m) \<le> 2 ^ 36"

definition ctx_lengths :: "session_context \<Rightarrow> bool" where
  "ctx_lengths ctx \<longleftrightarrow> length (sc_key ctx) = 16 \<and> (\<forall>d. length (peek_nonce ctx d) = 12)"

lemma ctx_lengths_next: "ctx_lengths ctx \<Longrightarrow> ctx_lengths (snd (next_nonce ctx d))"
  by (simp add: ctx_lengths_def peek_after_next)

lemma initial_direction_nonce_length: "initial_direction_nonce n d = Inr m \<Longrightarrow> length m = 12"
  by (auto simp: initial_direction_nonce_def apply_nonce_transform_def GCM_NONCE_LEN_def
      split: if_splits nonce_transform.splits)

lemma ctx_lengths_new: "context_new key n = Inr ctx \<Longrightarrow> ctx_lengths ctx"
  using context_newD(1,3,5,6) [of key n ctx] initial_direction_nonce_length
  unfolding ctx_lengths_def by (metis nonce_direction.exhaust)

lemma map_sum_ok [simp]: "map_sum f id r = Inr x \<longleftrightarrow> r = Inr x"
  by (cases r) simp_all

lemma sealed_frames_verify:
  assumes "aead_ok P" "length aad \<le> 2 ^ 36" "ctx_lengths ctx" "\<forall>m \<in> set ms. sealable m"
  shows "\<exists>frames. sealed_frames P aad ctx ms = Some frames \<and> length frames = length ms
     \<and> (\<forall>st. ss_ctx st = ctx \<longrightarrow> (\<exists>st'. seq_loop P aad frames st = Inr st'))
     \<and> map (sq_parse_direction \<circ> sf_direction) frames = map Inr (map fst ms)
     \<and> list_all2 (frame_verified P (sc_key ctx) aad) (fst (draw_nonces ctx (map fst ms))) frames"
  using assms(3,4)
proof (induction ms arbitrary: ctx)
  case (Cons m ms)
  obtain d msg where m: "m = (d, msg)" by (cases m)
  have msg: "msg \<noteq> []" "length msg \<le> 2 ^ 36" using Cons.prems(2) m by (simp_all add: sealable_def)
  let ?n = "peek_nonce ctx d" and ?ctx = "snd (next_nonce ctx d)"
  have len: "length (sc_key ctx) = 16" "length ?n = 12" using Cons.prems(1) by (simp_all add: ctx_lengths_def)
  from encrypt_aes_gcm_ok [OF assms(1) len assms(2) msg(2)] obtain b where
    b: "encrypt_aes_gcm P (sc_key ctx) ?n msg aad = Inr b" "length (gb_tag b) = 16"
      "length (gb_ciphertext b) = length msg"
      "decrypt_aes_gcm P (sc_key ctx) ?n (gb_ciphertext b) (gb_tag b) aad = Inr msg"
    by blast
  have ne: "gb_tag b \<noteq> []" "gb_ciphertext b \<noteq> []" "?n \<noteq> []" using b(2,3) len(2) msg(1) by auto
  have "\<forall>m \<in> set ms. sealable m" using Cons.prems(2) by simp
  from Cons.IH [OF ctx_lengths_next [OF Cons.prems(1), of d] this] obtain frames where
    fs: "sealed_frames P aad ?ctx ms = Some frames" "length frames = length ms"
      "\<forall>st. ss_ctx st = ?ctx \<longrightarrow> (\<exists>st'. seq_loop P aad frames st = Inr st')"
      "map (sq_parse_direction \<circ> sf_direction) frames = map Inr (map fst ms)"
      "list_all2 (frame_verified P (sc_key ?ctx) aad) (fst (draw_nonces ?ctx (map fst ms))) frames"
    by blast
  let ?f = "\<lparr>sf_id_hex = [], sf_direction = direction_name d, sf_frame_offset = None,
            sf_frame_order = None, sf_tag_hex = hex_encode (gb_tag b),
            sf_ciphertext_hex = hex_encode (gb_ciphertext b), sf_expected_plaintext_len = Some (length msg),
            sf_expected_nonce_hex = Some (hex_encode ?n)\<rparr>"
  have dir: "sq_parse_direction (sf_direction ?f) = Inr d" by (simp add: sq_parse_direction_def direction_of_name)
  have dec: "sq_decode_hex fld (hex_encode (gb_tag b)) = Inr (gb_tag b)"
      "sq_decode_hex fld (hex_encode (gb_ciphertext b)) = Inr (gb_ciphertext b)"
      "sq_decode_hex fld (hex_encode ?n) = Inr ?n" for fld
    using ne by (simp_all add: sq_decode_hex_def decode_field_encode)
  have chk: "nonce_check ?f ?n = Inr (Some True)"
    using len(2) ne(3) by (simp add: nonce_check_def dec sized_field_def NONCE_LEN_def visible_hex_encode
        nonces_equal_def GCM_NONCE_LEN_def)
  have step: "\<exists>s1. seq_step P aad ?f st = Inr s1" if "ss_ctx st = ctx" for st
    using that b(2,4) chk unfolding seq_step_def dir Let_def bind_res_simps
    by (simp add: dec sized_field_def TAG_LEN_def)
  have ctx1: "ss_ctx s1 = ?ctx" if "ss_ctx st = ctx" "seq_step P aad ?f st = Inr s1" for st s1
    by (rule seq_step_outcome [OF that(2)]) (use dir that(1) in simp)
  have loop: "\<exists>st'. seq_loop P aad (?f # frames) st = Inr st'" if "ss_ctx st = ctx" for st
    using step [OF that] ctx1 [OF that] fs(3) by (metis bind_res_simps(2) seq_loop.simps(2))
  have "frame_verified P (sc_key ctx) aad ?n ?f"
    unfolding frame_verified_def using b(4) by (simp add: dec)
  then show ?case
    using m b(1) fs(1,2,4,5) dir loop by (intro exI [of _ "?f # frames"]) (simp add: draw_nonces_Cons comp_def)
qed simp

lemma genuine_accepted:
  assumes "aead_ok P" "context_new key n = Inr ctx" "length aad \<le> 2 ^ 36" "ms \<noteq> []" "\<forall>m \<in> set ms. sealable m"
  shows "\<exists>frames r. sealed_frames P aad ctx ms = Some frames
     \<and> sq_verify_file P \<lparr>sq_session_key_hex = hex_encode key, sq_session_nonce_hex = hex_encode n,
          sq_aad_hex = hex_encode aad, sq_frames = frames\<rparr> = Inr r
     \<and> all_verified r"
proof -
  have lens: "length key = 16" "length n = 12" and key: "sc_key ctx = key"
    using context_newD(1-3) [OF assms(2)] by simp_all
  from sealed_frames_verify [OF assms(1,3) ctx_lengths_new [OF assms(2)] assms(5)] obtain frames where
    fs: "sealed_frames P aad ctx ms = Some frames" "length frames = length ms"
      "\<forall>st. ss_ctx st = ctx \<longrightarrow> (\<exists>st'. seq_loop P aad frames st = Inr st')"
      "map (sq_parse_direction \<circ> sf_direction) frames = map Inr (map fst ms)"
      "list_all2 (frame_verified P key aad) (fst (draw_nonces ctx (map fst ms))) frames"
    unfolding key by blast
  have "ss_ctx (seq_start ctx) = ctx" by (simp add: seq_start_def)
  then obtain st where st: "seq_loop P aad frames (seq_start ctx) = Inr st" using fs(3) by blast
  from seq_loop_outcome [OF st] obtain ds reps where
    ds: "map (sq_parse_direction \<circ> sf_direction) frames = map Inr ds" "ss_ctx st = snd (draw_nonces ctx ds)"
      "ss_nonce_ok st \<and> ss_gcm_ok st \<longleftrightarrow> list_all2 (frame_verified P key aad) (fst (draw_nonces ctx ds)) frames"
      "ss_reports st = reps" "length reps = length frames"
    by (auto simp: seq_start_def key)
  have "map Inr ds = (map Inr (map fst ms) :: (sequence_error + nonce_direction) list)" using fs(4) ds(1) by simp
  then have "ds = map fst ms" by (metis inj_map_eq_map sum.inject(2) injI)
  then have ok: "ss_nonce_ok st" "ss_gcm_ok st" using ds(3) fs(5) by simp_all
  have nonce: "sc_nonce (ss_ctx st) = sc_nonce ctx" unfolding ds(2) using draw_nonces_state by blast
  have ne: "key \<noteq> []" "n \<noteq> []" using lens by auto
  have dec: "bs \<noteq> [] \<Longrightarrow> sq_decode_hex fld (hex_encode bs) = Inr bs" for bs fld
    by (simp add: sq_decode_hex_def decode_field_encode)
  have fne: "frames \<noteq> []" "reps \<noteq> []" using fs(2) ds(5) assms(4) by auto
  show ?thesis
    using fs(1) st lens assms(2) ok nonce fne ds(4)
    by (cases "aad = []") (simp_all add: sq_verify_file_def dec visible_hex_encode ne sized_field_def KEY_LEN_def
        NONCE_LEN_def all_verified_def)
qed

section \<open>Properties\<close>

text \<open>
  C13. What \<open>VERIFIED\<close> means: when the verifier returns a report, there are a key, a nonce, associated
  data and directions decoded from the file, the nonces are those a new session of them
  draws in the order of the frames, and the report is verified exactly when every frame
  decrypts under its nonce with the expected length and the expected nonce, where given. The
  report has one entry per frame and counts the frames of both directions.
\<close>

theorem sequence_verdict_exact:
  assumes "sq_verify_file P file = Inr r"
  shows "\<exists>key n aad ctx ds.
     sq_decode_hex ''session_key_hex'' (sq_session_key_hex file) = Inr key
     \<and> sq_decode_hex ''session_nonce_hex'' (sq_session_nonce_hex file) = Inr n
     \<and> (if str_trim (sq_aad_hex file) = [] then aad = [] else sq_decode_hex ''aad_hex'' (sq_aad_hex file) = Inr aad)
     \<and> context_new key n = Inr ctx
     \<and> map (sq_parse_direction \<circ> sf_direction) (sq_frames file) = map Inr ds
     \<and> (all_verified r \<longleftrightarrow>
          list_all2 (frame_verified P key aad) (fst (draw_nonces ctx ds)) (sq_frames file))
     \<and> length (sr_frames r) = length (sq_frames file)
     \<and> sr_c2s_frames r = of_nat (count_list ds ClientToServer)
     \<and> sr_s2c_frames r = of_nat (count_list ds ServerToClient)"
proof -
  from assms obtain key n aad ctx st where
    f: "sq_frames file \<noteq> []" "sq_decode_hex ''session_key_hex'' (sq_session_key_hex file) = Inr key"
      "sq_decode_hex ''session_nonce_hex'' (sq_session_nonce_hex file) = Inr n"
      "(if str_trim (sq_aad_hex file) = [] then Inr [] else sq_decode_hex ''aad_hex'' (sq_aad_hex file)) = Inr aad"
      "context_new key n = Inr ctx" "seq_loop P aad (sq_frames file) (seq_start ctx) = Inr st"
    and r: "sr_frames r = ss_reports st" "sr_c2s_frames r = ss_c2s st" "sr_s2c_frames r = ss_s2c st"
      "sr_nonce_sequence_valid r \<longleftrightarrow> ss_nonce_ok st \<and> sc_nonce (ss_ctx st) = sc_nonce ctx"
      "sr_gcm_validation r = ss_gcm_ok st"
    unfolding sq_verify_file_def
    by (auto simp: bind_res_ok sized_field_ok simp del: if_split split: if_split_asm [where Q = "sq_frames file = []"])
  have key: "sc_key ctx = key" using context_newD(3) [OF f(5)] .
  from seq_loop_outcome [OF f(6)] obtain ds reps where
    ds: "map (sq_parse_direction \<circ> sf_direction) (sq_frames file) = map Inr ds"
      "ss_ctx st = snd (draw_nonces ctx ds)"
      "ss_nonce_ok st \<and> ss_gcm_ok st \<longleftrightarrow> list_all2 (frame_verified P key aad) (fst (draw_nonces ctx ds)) (sq_frames file)"
      "ss_c2s st = of_nat (count_list ds ClientToServer)" "ss_s2c st = of_nat (count_list ds ServerToClient)"
      "ss_reports st = reps" "length reps = length (sq_frames file)"
    by (auto simp: seq_start_def key)
  have "sc_nonce (ss_ctx st) = sc_nonce ctx" unfolding ds(2) using draw_nonces_state by blast
  then have "all_verified r \<longleftrightarrow> list_all2 (frame_verified P key aad) (fst (draw_nonces ctx ds)) (sq_frames file)"
    using r ds(3,6,7) f(1) by (auto simp: all_verified_def)
  then show ?thesis
    using f ds r by (intro exI [of _ key] exI [of _ n] exI [of _ aad] exI [of _ ctx] exI [of _ ds]) (simp split: if_splits)
qed

text \<open>A session of three messages in both directions.\<close>

definition sample_messages :: "(nonce_direction \<times> bytes) list" where
  "sample_messages = [(ClientToServer, [1, 2]), (ServerToClient, [3]), (ClientToServer, [4])]"

lemma sample_context: "\<exists>ctx. context_new (replicate 16 7) (replicate 12 1) = Inr ctx"
  by (rule context_new_ok) simp_all

lemma sample_sealable: "sample_messages \<noteq> []" "\<forall>m \<in> set sample_messages. sealable m" "length [9 :: u8] \<le> 2 ^ 36"
  by (simp_all add: sample_messages_def sealable_def)

theorem sequence_verdict_exact_witness:
  "\<exists>frames r. sq_verify_file demo_aead \<lparr>sq_session_key_hex = hex_encode (replicate 16 7),
          sq_session_nonce_hex = hex_encode (replicate 12 1), sq_aad_hex = hex_encode [9], sq_frames = frames\<rparr> = Inr r
     \<and> all_verified r \<and> length (sr_frames r) = length frames"
proof -
  obtain ctx where ctx: "context_new (replicate 16 7) (replicate 12 1) = Inr ctx" using sample_context by blast
  obtain frames r where r: "sq_verify_file demo_aead \<lparr>sq_session_key_hex = hex_encode (replicate 16 7),
          sq_session_nonce_hex = hex_encode (replicate 12 1), sq_aad_hex = hex_encode [9], sq_frames = frames\<rparr> = Inr r"
      "all_verified r"
    using genuine_accepted [OF demo_aead_ok ctx sample_sealable(3,1,2)] by blast
  have "length (sr_frames r) = length frames" using sequence_verdict_exact [OF r(1)] by auto
  with r show ?thesis by blast
qed

end
