(* ===== verification/Session_Verify.thy ===== *)
theory Session_Verify
  imports Gcm_Evidence Bap_Pipeline Cbc_Hmac
begin

text \<open>
  The offline verifiers of whole sessions: \<open>network/src/bap_session_verify.rs\<close>,
  \<open>stream_framing_verify.rs\<close>, \<open>bap_pipeline_verify.rs\<close> and \<open>session_crypto_verify.rs\<close>. As for the
  GCM verifiers the JSON parser is a parameter from texts to the records of the files, and a file is
  \<open>None\<close> when it does not exist, \<open>Some None\<close> when reading it fails. The theory shows that a genuine
  session is verified under every schedule of chunks, that the schedule does not show in a report,
  and that one of the checks can never fail.
\<close>

section \<open>What the four files share\<close>

record wire_frame =
  wr_direction :: string
  wr_hex :: "string option"

record wire_file =
  wi_capture :: "string option"
  wi_key_hex :: string
  wi_nonce_hex :: string
  wi_frames :: "wire_frame list"

definition hex_or_empty :: "string option \<Rightarrow> string" where
  "hex_or_empty h = str_trim (case h of None \<Rightarrow> [] | Some t \<Rightarrow> t)"

definition capture_or_unknown :: "string option \<Rightarrow> string" where
  "capture_or_unknown c = (case c of None \<Rightarrow> ''unknown'' | Some t \<Rightarrow> t)"

text \<open>The frames that have wire material: their directions and their bytes on end.\<close>

fun collect_wire ::
  "(string \<Rightarrow> string \<Rightarrow> 'e + bytes) \<Rightarrow> (string \<Rightarrow> 'e + nonce_direction) \<Rightarrow> wire_frame list
   \<Rightarrow> 'e + nonce_direction list \<times> bytes" where
  "collect_wire decode direction [] = Inr ([], [])"
| "collect_wire decode direction (f # fs) =
     (let hex = hex_or_empty (wr_hex f) in
      if hex = [] then collect_wire decode direction fs
      else bind_res (decode ''frame_hex'' hex) (\<lambda>raw.
           bind_res (direction (wr_direction f)) (\<lambda>d.
             map_sum id (\<lambda>(ds, stream). (d # ds, raw @ stream)) (collect_wire decode direction fs))))"

text \<open>\<open>match dir\<close> on the two expected counters.\<close>

definition count_direction :: "nonce_direction \<Rightarrow> u64 \<times> u64 \<Rightarrow> u64 \<times> u64" where
  "count_direction d e =
     (case d of ClientToServer \<Rightarrow> (fst e + 1, snd e) | ServerToClient \<Rightarrow> (fst e, snd e + 1))"

definition session_counters :: "bap_session \<Rightarrow> u64 \<times> u64" where
  "session_counters s = (sc_c2s_counter (bs_crypto s), sc_s2c_counter (bs_crypto s))"

definition load_text :: "(string \<Rightarrow> 'e) \<Rightarrow> 'e \<Rightarrow> string \<Rightarrow> string option option \<Rightarrow> 'e + string" where
  "load_text not_found io path file =
     (case file of None \<Rightarrow> Inl (not_found path) | Some None \<Rightarrow> Inl io | Some (Some text) \<Rightarrow> Inr text)"

definition from_json :: "'e \<Rightarrow> (string \<Rightarrow> 'f option) \<Rightarrow> string \<Rightarrow> 'e + 'f" where
  "from_json bad json text = (case json text of None \<Rightarrow> Inl bad | Some f \<Rightarrow> Inr f)"

definition result_word :: "bool \<Rightarrow> string" where
  "result_word b = (if b then ''VERIFIED'' else ''FAILED'')"

section \<open>\<open>stream_framing_verify.rs\<close>\<close>

datatype stream_verify_error =
    SvFileNotFound string
  | SvIo
  | SvBadJson
  | SvBadHex string nat
  | SvEmptyField string
  | SvBadFieldLen string nat nat
  | SvBadDirection string
  | SvEmptyWire
  | SvStream stream_error
  | SvSession bap_session_error
  | SvFrameCountMismatch nat nat

definition DEFAULT_CHUNK_SIZES :: "nat list" where
  "DEFAULT_CHUNK_SIZES = [1, 7, 13, 31, 64, 17, 3, 128]"

record stream_verify_report =
  sv_capture :: string
  sv_stream_bytes :: nat
  sv_chunks :: u32
  sv_recovered :: u32
  sv_expected :: u32
  sv_clear :: u32
  sv_encrypted :: u32
  sv_success :: u32
  sv_failed :: u32
  sv_framing_ok :: bool
  sv_nonce_valid :: bool
  sv_buffer_empty :: bool

definition sv_verified :: "stream_verify_report \<Rightarrow> bool" where
  "sv_verified r \<longleftrightarrow> sv_framing_ok r \<and> sv_buffer_empty r \<and> sv_recovered r = sv_expected r \<and> sv_failed r = 0
     \<and> sv_nonce_valid r \<and> sv_recovered r > 0"

definition show_stream_verify :: "stream_verify_report \<Rightarrow> string" where
  "show_stream_verify r =
     concat (map writeln
       [''BAP STREAM FRAMING VERIFY'', [],
        ''capture: '' @ sv_capture r, [],
        ''stream_bytes: '' @ show_nat (sv_stream_bytes r),
        ''chunks_pushed: '' @ show_nat (unat (sv_chunks r)),
        ''frames_expected: '' @ show_nat (unat (sv_expected r)),
        ''frames_recovered: '' @ show_nat (unat (sv_recovered r)), [],
        ''clear_frames: '' @ show_nat (unat (sv_clear r)),
        ''encrypted_frames: '' @ show_nat (unat (sv_encrypted r)),
        ''encrypted_decrypt_success: '' @ show_nat (unat (sv_success r)),
        ''encrypted_decrypt_failed: '' @ show_nat (unat (sv_failed r)), [],
        ''stream_framing_ok: '' @ show_bool (sv_framing_ok r),
        ''buffer_empty_at_end: '' @ show_bool (sv_buffer_empty r),
        ''nonce_state_valid: '' @ show_bool (sv_nonce_valid r), [],
        ''result: '' @ result_word (sv_verified r)])"

definition sv_decode_hex :: "string \<Rightarrow> string \<Rightarrow> stream_verify_error + bytes" where
  "sv_decode_hex = decode_field SvEmptyField SvBadHex"

definition sv_parse_direction :: "string \<Rightarrow> stream_verify_error + nonce_direction" where
  "sv_parse_direction = direction_of_text SvBadDirection"

definition sv_sizes :: "nat list \<Rightarrow> nat list" where
  "sv_sizes chunk_sizes =
     (let sizes = (if chunk_sizes = [] then DEFAULT_CHUNK_SIZES else filter (\<lambda>n. n > 0) chunk_sizes)
      in if sizes = [] then [1] else sizes)"

text \<open>One recovered frame: the session, the report and the two expected counters.\<close>

definition sv_step ::
  "aead_prims \<Rightarrow> bap_session \<times> stream_verify_report \<times> u64 \<times> u64 \<Rightarrow> raw_frame \<times> nonce_direction
   \<Rightarrow> bap_session \<times> stream_verify_report \<times> u64 \<times> u64" where
  "sv_step P st rd =
     (case (st, rd) of ((session, report, e), (raw, dir)) \<Rightarrow>
        (case decode_frame P session dir (rf_raw_bytes raw) of
           (Inr (DClear _ _ _), s) \<Rightarrow> (s, report\<lparr>sv_clear := sv_clear report + 1\<rparr>, e)
         | (Inr (DDecrypted _ _ _ _), s) \<Rightarrow>
             (s, report\<lparr>sv_encrypted := sv_encrypted report + 1, sv_success := sv_success report + 1\<rparr>, count_direction dir e)
         | (Inr (DOpaque _ _), s) \<Rightarrow> (s, report\<lparr>sv_framing_ok := False\<rparr>, e)
         | (Inl SDecryptFailed, s) \<Rightarrow>
             (s, report\<lparr>sv_encrypted := sv_encrypted report + 1, sv_failed := sv_failed report + 1\<rparr>, count_direction dir e)
         | (Inl _, s) \<Rightarrow> (s, report\<lparr>sv_framing_ok := False\<rparr>, e)))"

definition sv_verify_file :: "aead_prims \<Rightarrow> wire_file \<Rightarrow> nat list \<Rightarrow> stream_verify_error + stream_verify_report" where
  "sv_verify_file P file chunk_sizes =
     bind_res (sized_field SvBadFieldLen ''session_key_hex'' 16 (sv_decode_hex ''session_key_hex'' (wi_key_hex file))) (\<lambda>key.
     bind_res (sized_field SvBadFieldLen ''session_nonce_hex'' 12
       (sv_decode_hex ''session_nonce_hex'' (wi_nonce_hex file))) (\<lambda>sn.
     bind_res (collect_wire sv_decode_hex sv_parse_direction (wi_frames file)) (\<lambda>(directions, stream).
       if directions = [] then Inl SvEmptyWire
       else (let chunks = chunk_loop (sv_sizes chunk_sizes) 0 stream
             in case feed_all decoder_push decoder_new chunks of
                  (Inl e, _) \<Rightarrow> Inl (SvStream e)
                | (Inr recovered, decoder) \<Rightarrow>
                    (let buffer_empty = decoder_buffered_len decoder = 0 in
                     case decoder_finish decoder of
                       Inl e \<Rightarrow> Inl (SvStream e)
                     | Inr _ \<Rightarrow>
                         if length recovered \<noteq> length directions
                         then Inl (SvFrameCountMismatch (length recovered) (length directions))
                         else (let framing_ok = concat (map rf_raw_bytes recovered) = stream in
                           case bap_session_new key sn of
                             Inl e \<Rightarrow> Inl (SvSession e)
                           | Inr session \<Rightarrow>
                               (let report = \<lparr>sv_capture = capture_or_unknown (wi_capture file),
                                      sv_stream_bytes = length stream, sv_chunks = of_nat (length chunks),
                                      sv_recovered = of_nat (length recovered), sv_expected = of_nat (length directions),
                                      sv_clear = 0, sv_encrypted = 0, sv_success = 0, sv_failed = 0,
                                      sv_framing_ok = framing_ok, sv_nonce_valid = True, sv_buffer_empty = buffer_empty\<rparr>;
                                    (s, r, e) = foldl (sv_step P) (session, report, 0, 0) (zip recovered directions)
                                in Inr (if session_counters s \<noteq> e then r\<lparr>sv_nonce_valid := False\<rparr> else r))))))))"

definition sv_verify_path ::
  "aead_prims \<Rightarrow> (string \<Rightarrow> wire_file option) \<Rightarrow> string \<Rightarrow> string option option \<Rightarrow> nat list
   \<Rightarrow> stream_verify_error + stream_verify_report" where
  "sv_verify_path P json path file chunk_sizes =
     bind_res (load_text SvFileNotFound SvIo path file) (\<lambda>text.
     bind_res (from_json SvBadJson json text) (\<lambda>f. sv_verify_file P f chunk_sizes))"

section \<open>\<open>bap_session_verify.rs\<close>\<close>

datatype bap_verify_error =
    BvFileNotFound string
  | BvIo
  | BvBadJson
  | BvBadHex string nat
  | BvEmptyField string
  | BvBadFieldLen string nat nat
  | BvBadDirection string
  | BvEmptyFrames
  | BvSession bap_session_error

record bap_verify_frame =
  bw_direction :: string
  bw_hex :: "string option"
  bw_kind :: "u8 option"
  bw_msg_id :: "u16 option"
  bw_plaintext_len :: "nat option"

record bap_verify_file =
  bw_capture :: "string option"
  bw_key_hex :: string
  bw_nonce_hex :: string
  bw_frames :: "bap_verify_frame list"

record bap_verify_report =
  bv_capture :: string
  bv_seen :: u32
  bv_clear :: u32
  bv_encrypted :: u32
  bv_opaque :: u32
  bv_framing_valid :: bool
  bv_with_wire :: u32
  bv_unavailable :: u32
  bv_success :: u32
  bv_failed :: u32
  bv_clear_ok :: u32
  bv_nonce_valid :: bool

definition bv_verified :: "bap_verify_report \<Rightarrow> bool" where
  "bv_verified r \<longleftrightarrow> bv_framing_valid r \<and> bv_nonce_valid r \<and> bv_failed r = 0 \<and> bv_seen r > 0"

definition show_bap_verify :: "bap_verify_report \<Rightarrow> string" where
  "show_bap_verify r =
     concat (map writeln
       [''BAP SESSION VERIFY'', [],
        ''capture: '' @ bv_capture r, [],
        ''frames_seen: '' @ show_nat (unat (bv_seen r)),
        ''clear_frames: '' @ show_nat (unat (bv_clear r)),
        ''encrypted_frames: '' @ show_nat (unat (bv_encrypted r)),
        ''opaque_frames: '' @ show_nat (unat (bv_opaque r)), [],
        ''framing_valid: '' @ show_bool (bv_framing_valid r),
        ''encrypted_frames_with_wire_material: '' @ show_nat (unat (bv_with_wire r)),
        ''wire_material_unavailable: '' @ show_nat (unat (bv_unavailable r)),
        ''encrypted_decrypt_success: '' @ show_nat (unat (bv_success r)),
        ''encrypted_decrypt_failed: '' @ show_nat (unat (bv_failed r)),
        ''clear_parse_ok: '' @ show_nat (unat (bv_clear_ok r)), [],
        ''nonce_state_valid: '' @ show_bool (bv_nonce_valid r), [],
        ''result: '' @ result_word (bv_verified r)])"

definition bv_decode_hex :: "string \<Rightarrow> string \<Rightarrow> bap_verify_error + bytes" where
  "bv_decode_hex = decode_field BvEmptyField BvBadHex"

definition bv_parse_direction :: "string \<Rightarrow> bap_verify_error + nonce_direction" where
  "bv_parse_direction = direction_of_text BvBadDirection"

text \<open>\<open>if let Some(exp) = expected\<close>: an expectation that differs.\<close>

definition unexpected :: "'a option \<Rightarrow> 'a \<Rightarrow> bool" where
  "unexpected expected got \<longleftrightarrow> (case expected of None \<Rightarrow> False | Some x \<Rightarrow> x \<noteq> got)"

type_synonym bap_verify_state = "bap_session \<times> bap_verify_report \<times> u64 \<times> u64"

definition bv_frame ::
  "aead_prims \<Rightarrow> bap_verify_frame \<Rightarrow> nonce_direction \<Rightarrow> bytes \<Rightarrow> bap_verify_state \<Rightarrow> bap_verify_error + bap_verify_state" where
  "bv_frame P fr direction raw st =
     (case st of (session, r, e) \<Rightarrow>
        (case decode_frame P session direction raw of
           (Inr (DClear msg_id _ _), s) \<Rightarrow>
             (let r = r\<lparr>bv_clear := bv_clear r + 1, bv_clear_ok := bv_clear_ok r + 1\<rparr>;
                  r = (if unexpected (bw_msg_id fr) msg_id then r\<lparr>bv_framing_valid := False\<rparr> else r);
                  r = (if unexpected (bw_kind fr) 2 then r\<lparr>bv_framing_valid := False\<rparr> else r)
              in Inr (s, r, e))
         | (Inr (DDecrypted msg_id _ _ plaintext_len), s) \<Rightarrow>
             (let r = r\<lparr>bv_encrypted := bv_encrypted r + 1, bv_with_wire := bv_with_wire r + 1,
                        bv_success := bv_success r + 1\<rparr>;
                  r = (if unexpected (bw_plaintext_len fr) plaintext_len
                       then r\<lparr>bv_failed := bv_failed r + 1,
                              bv_success := (if bv_success r = 0 then 0 else bv_success r - 1)\<rparr> else r);
                  r = (case msg_id of None \<Rightarrow> r
                       | Some got \<Rightarrow> if unexpected (bw_msg_id fr) got then r\<lparr>bv_framing_valid := False\<rparr> else r)
              in Inr (s, r, count_direction direction e))
         | (Inr (DOpaque _ _), s) \<Rightarrow> Inr (s, r\<lparr>bv_opaque := bv_opaque r + 1\<rparr>, e)
         | (Inl SDecryptFailed, s) \<Rightarrow>
             Inr (s, r\<lparr>bv_encrypted := bv_encrypted r + 1, bv_with_wire := bv_with_wire r + 1,
                       bv_failed := bv_failed r + 1\<rparr>, count_direction direction e)
         | (Inl (SFraming _), s) \<Rightarrow> Inr (s, r\<lparr>bv_framing_valid := False\<rparr>, e)
         | (Inl STrailingBytes, s) \<Rightarrow> Inr (s, r\<lparr>bv_framing_valid := False\<rparr>, e)
         | (Inl SEmptyCiphertext, s) \<Rightarrow>
             Inr (s, r\<lparr>bv_encrypted := bv_encrypted r + 1, bv_with_wire := bv_with_wire r + 1,
                       bv_failed := bv_failed r + 1\<rparr>, e)
         | (Inl err, s) \<Rightarrow> Inl (BvSession err)))"

definition bv_step :: "aead_prims \<Rightarrow> bap_verify_frame \<Rightarrow> bap_verify_state \<Rightarrow> bap_verify_error + bap_verify_state" where
  "bv_step P fr st =
     (case st of (session, r, e) \<Rightarrow>
        let r = r\<lparr>bv_seen := bv_seen r + 1\<rparr> in
        bind_res (bv_parse_direction (bw_direction fr)) (\<lambda>direction.
          let hex = hex_or_empty (bw_hex fr) in
          if hex = [] then
            Inr (session,
                 if bw_kind fr = Some 1 then r\<lparr>bv_encrypted := bv_encrypted r + 1, bv_unavailable := bv_unavailable r + 1\<rparr>
                 else if bw_kind fr = Some 2 then r\<lparr>bv_clear := bv_clear r + 1, bv_unavailable := bv_unavailable r + 1\<rparr>
                 else r, e)
          else bind_res (bv_decode_hex ''frame_hex'' hex) (\<lambda>raw. bv_frame P fr direction raw (session, r, e))))"

fun bv_loop ::
  "aead_prims \<Rightarrow> bap_verify_frame list \<Rightarrow> bap_verify_state \<Rightarrow> bap_verify_error + bap_verify_state" where
  "bv_loop P [] st = Inr st"
| "bv_loop P (fr # frs) st = bind_res (bv_step P fr st) (bv_loop P frs)"

definition bv_verify_file :: "aead_prims \<Rightarrow> bap_verify_file \<Rightarrow> bap_verify_error + bap_verify_report" where
  "bv_verify_file P file =
     (if bw_frames file = [] then Inl BvEmptyFrames
      else bind_res (sized_field BvBadFieldLen ''session_key_hex'' 16
             (bv_decode_hex ''session_key_hex'' (bw_key_hex file))) (\<lambda>key.
           bind_res (sized_field BvBadFieldLen ''session_nonce_hex'' 12
             (bv_decode_hex ''session_nonce_hex'' (bw_nonce_hex file))) (\<lambda>sn.
           bind_res (map_sum BvSession id (bap_session_new key sn)) (\<lambda>session.
             let report = \<lparr>bv_capture = capture_or_unknown (bw_capture file), bv_seen = 0, bv_clear = 0, bv_encrypted = 0,
                   bv_opaque = 0, bv_framing_valid = True, bv_with_wire = 0, bv_unavailable = 0, bv_success = 0,
                   bv_failed = 0, bv_clear_ok = 0, bv_nonce_valid = True\<rparr>
             in map_sum id (\<lambda>(s, r, e). if session_counters s \<noteq> e then r\<lparr>bv_nonce_valid := False\<rparr> else r)
                  (bv_loop P (bw_frames file) (session, report, 0, 0))))))"

definition bv_verify_path ::
  "aead_prims \<Rightarrow> (string \<Rightarrow> bap_verify_file option) \<Rightarrow> string \<Rightarrow> string option option
   \<Rightarrow> bap_verify_error + bap_verify_report" where
  "bv_verify_path P json path file =
     bind_res (load_text BvFileNotFound BvIo path file) (\<lambda>text.
     bind_res (from_json BvBadJson json text) (bv_verify_file P))"

section \<open>\<open>bap_pipeline_verify.rs\<close>\<close>

datatype pipeline_verify_error =
    PvFileNotFound string
  | PvIo
  | PvBadJson
  | PvBadHex string nat
  | PvEmptyField string
  | PvBadFieldLen string nat nat
  | PvBadDirection string
  | PvEmptyWire
  | PvPipeline pipeline_error

record pipeline_verify_report =
  pv_capture :: string
  pv_seen :: u32
  pv_clear :: u32
  pv_encrypted :: u32
  pv_success :: u32
  pv_failed :: u32
  pv_chunks :: u32
  pv_nonce_valid :: bool

definition pv_verified :: "pipeline_verify_report \<Rightarrow> bool" where
  "pv_verified r \<longleftrightarrow> pv_seen r > 0 \<and> pv_failed r = 0 \<and> pv_nonce_valid r \<and> pv_encrypted r = pv_success r"

definition show_pipeline_verify :: "pipeline_verify_report \<Rightarrow> string" where
  "show_pipeline_verify r =
     concat (map writeln
       [''BAP PIPELINE VERIFY'', [],
        ''capture: '' @ pv_capture r, [],
        ''frames_seen: '' @ show_nat (unat (pv_seen r)),
        ''clear_frames: '' @ show_nat (unat (pv_clear r)),
        ''encrypted_frames: '' @ show_nat (unat (pv_encrypted r)),
        ''decrypt_success: '' @ show_nat (unat (pv_success r)),
        ''decrypt_failed: '' @ show_nat (unat (pv_failed r)),
        ''chunks_fed: '' @ show_nat (unat (pv_chunks r)),
        ''nonce_state_valid: '' @ show_bool (pv_nonce_valid r), [],
        ''result: '' @ result_word (pv_verified r)])"

definition pv_decode_hex :: "string \<Rightarrow> string \<Rightarrow> pipeline_verify_error + bytes" where
  "pv_decode_hex = decode_field PvEmptyField PvBadHex"

definition pv_parse_direction :: "string \<Rightarrow> pipeline_verify_error + nonce_direction" where
  "pv_parse_direction = direction_of_text PvBadDirection"

text \<open>What is read from the file before the pipeline is built.\<close>

definition pv_inputs :: "wire_file \<Rightarrow> pipeline_verify_error + bytes \<times> bytes \<times> nonce_direction list \<times> bytes" where
  "pv_inputs file =
     bind_res (sized_field PvBadFieldLen ''session_key_hex'' 16 (pv_decode_hex ''session_key_hex'' (wi_key_hex file))) (\<lambda>key.
     bind_res (sized_field PvBadFieldLen ''session_nonce_hex'' 12
       (pv_decode_hex ''session_nonce_hex'' (wi_nonce_hex file))) (\<lambda>sn.
     bind_res (collect_wire pv_decode_hex pv_parse_direction (wi_frames file)) (\<lambda>(directions, stream).
       if directions = [] then Inl PvEmptyWire else Inr (key, sn, directions, stream))))"

definition pv_count ::
  "pipeline_verify_report \<times> u64 \<times> u64 \<Rightarrow> decoded_frame \<times> nonce_direction \<Rightarrow> pipeline_verify_report \<times> u64 \<times> u64" where
  "pv_count re fd =
     (case (re, fd) of ((r, e), (frame, dir)) \<Rightarrow>
        (case frame of
           DClear _ _ _ \<Rightarrow> (r\<lparr>pv_clear := pv_clear r + 1\<rparr>, e)
         | DDecrypted _ _ _ _ \<Rightarrow>
             (r\<lparr>pv_encrypted := pv_encrypted r + 1, pv_success := pv_success r + 1\<rparr>, count_direction dir e)
         | DOpaque _ _ \<Rightarrow> (r\<lparr>pv_nonce_valid := False\<rparr>, e)))"

text \<open>\<open>None\<close>: the pipeline does not return; the mock source always ends, so this does not happen.\<close>

definition pv_verify_file ::
  "aead_prims \<Rightarrow> wire_file \<Rightarrow> nat list \<Rightarrow> (pipeline_verify_error + pipeline_verify_report) option" where
  "pv_verify_file P file chunk_sizes =
     (case pv_inputs file of
        Inl e \<Rightarrow> Some (Inl e)
      | Inr (key, sn, directions, stream) \<Rightarrow>
          let sizes = (if chunk_sizes = [] then DEFAULT_PIPELINE_CHUNK_SIZES else chunk_sizes);
              chunks = chunk_stream stream sizes
          in (case pipeline_new key sn of
                Inl e \<Rightarrow> Some (Inl (PvPipeline e))
              | Inr p \<Rightarrow>
                  (case run_directed P mock_read p (mock_new chunks) directions of
                     None \<Rightarrow> None
                   | Some (Inl e, _, _) \<Rightarrow> Some (Inl (PvPipeline e))
                   | Some (Inr decoded, p, _) \<Rightarrow>
                       (let report = \<lparr>pv_capture = capture_or_unknown (wi_capture file), pv_seen = of_nat (length decoded),
                              pv_clear = 0, pv_encrypted = 0, pv_success = 0, pv_failed = 0,
                              pv_chunks = of_nat (length chunks), pv_nonce_valid = True\<rparr>;
                            (r, e) = foldl pv_count (report, 0, 0) (zip decoded directions)
                        in Some (Inr (if session_counters (pl_session p) \<noteq> e then r\<lparr>pv_nonce_valid := False\<rparr> else r))))))"

definition pv_verify_path ::
  "aead_prims \<Rightarrow> (string \<Rightarrow> wire_file option) \<Rightarrow> string \<Rightarrow> string option option \<Rightarrow> nat list
   \<Rightarrow> (pipeline_verify_error + pipeline_verify_report) option" where
  "pv_verify_path P json path file chunk_sizes =
     (case bind_res (load_text PvFileNotFound PvIo path file) (from_json PvBadJson json) of
        Inl e \<Rightarrow> Some (Inl e)
      | Inr f \<Rightarrow> pv_verify_file P f chunk_sizes)"

section \<open>\<open>session_crypto_verify.rs\<close>\<close>

definition EXPECTED_RECORD_LEN :: u32 where "EXPECTED_RECORD_LEN = 80"
definition EXPECTED_CIPHERTEXT_LEN :: nat where "EXPECTED_CIPHERTEXT_LEN = 32"
definition EXPECTED_HMAC_KEY_MIN_LEN :: nat where "EXPECTED_HMAC_KEY_MIN_LEN = 16"

datatype verify_input_error =
    LvFileNotFound string
  | LvIo
  | LvBadJson
  | LvBadHex string nat
  | LvBadFieldLen string nat nat
  | LvBadRecordLen u32
  | LvBadCiphertextLen nat
  | LvEmptyField string
  | LvBadHmacKeyLen nat
  | LvUnsupportedHmacKind string
  | LvCrypto cbc_hmac_error

record crypto_verify_file =
  lf_hmac_message_kind :: string
  lf_record_len :: u32
  lf_iv_hex :: string
  lf_ciphertext_hex :: string
  lf_hmac_hex :: string
  lf_aes_key_hex :: string
  lf_hmac_key_hex :: string

definition lv_decode_hex :: "string \<Rightarrow> string \<Rightarrow> verify_input_error + bytes" where
  "lv_decode_hex = decode_field LvEmptyField LvBadHex"

definition lv_parse_kind :: "string \<Rightarrow> verify_input_error + hmac_message_kind" where
  "lv_parse_kind s =
     (let t = str_trim s in
      if t = ''LengthIvCiphertext'' then Inr LengthIvCiphertext else Inl (LvUnsupportedHmacKind t))"

definition lv_verify_file :: "cbc_prims \<Rightarrow> crypto_verify_file \<Rightarrow> verify_input_error + verify_report" where
  "lv_verify_file P file =
     bind_res (lv_parse_kind (lf_hmac_message_kind file)) (\<lambda>kind.
     if lf_record_len file \<noteq> EXPECTED_RECORD_LEN then Inl (LvBadRecordLen (lf_record_len file)) else
     bind_res (sized_field LvBadFieldLen ''iv_hex'' IV_LEN (lv_decode_hex ''iv_hex'' (lf_iv_hex file))) (\<lambda>iv.
     bind_res (lv_decode_hex ''ciphertext_hex'' (lf_ciphertext_hex file)) (\<lambda>ciphertext.
     if length ciphertext \<noteq> EXPECTED_CIPHERTEXT_LEN then Inl (LvBadCiphertextLen (length ciphertext)) else
     bind_res (sized_field LvBadFieldLen ''hmac_hex'' HMAC_SHA256_LEN (lv_decode_hex ''hmac_hex'' (lf_hmac_hex file))) (\<lambda>hmac_tag.
     bind_res (sized_field LvBadFieldLen ''aes_key_hex'' AES128_KEY_LEN
       (lv_decode_hex ''aes_key_hex'' (lf_aes_key_hex file))) (\<lambda>aes_key.
     bind_res (lv_decode_hex ''hmac_key_hex'' (lf_hmac_key_hex file)) (\<lambda>hmac_key.
     if length hmac_key < EXPECTED_HMAC_KEY_MIN_LEN then Inl (LvBadHmacKeyLen (length hmac_key)) else
     map_sum LvCrypto id (verify_session_record P kind (lf_record_len file) iv ciphertext hmac_tag aes_key hmac_key)))))))"

definition lv_verify_path ::
  "cbc_prims \<Rightarrow> (string \<Rightarrow> crypto_verify_file option) \<Rightarrow> string \<Rightarrow> string option option
   \<Rightarrow> verify_input_error + verify_report" where
  "lv_verify_path P json path file =
     bind_res (load_text LvFileNotFound LvIo path file) (\<lambda>text.
     bind_res (from_json LvBadJson json text) (lv_verify_file P))"

section \<open>The counters of a session\<close>


text \<open>
  A nonce is consumed exactly by a frame that was decrypted or failed to; the counter moves with
  it. It saturates, so the verifiers' expected count agrees below \<open>2 ^ 64\<close> frames.
\<close>

definition consumes :: "bap_session_error + decoded_frame \<Rightarrow> bool" where
  "consumes res \<longleftrightarrow> (case res of Inl e \<Rightarrow> e = SDecryptFailed | Inr f \<Rightarrow> decoded_is_decrypted f)"

lemma consumes_simps [simp]:
  "consumes (Inr (DDecrypted m c p n))" "\<not> consumes (Inr (DClear i j q))" "\<not> consumes (Inr (DOpaque k l))"
  "consumes (Inl e) \<longleftrightarrow> e = SDecryptFailed"
  by (simp_all add: consumes_def)

lemma decode_encrypted_state:
  "decode_encrypted P s d enc = (res, s') \<Longrightarrow> s' = (if consumes res then advance s d else s)"
  by (auto simp: decode_encrypted_def decode_plaintext_def Let_def
      split: if_splits sum.splits crypto_error.splits prod.splits)

lemma decode_frame_state:
  "decode_frame P s d raw = (res, s') \<Longrightarrow> s' = (if consumes res then advance s d else s)"
  by (auto simp: decode_frame_def decode_parsed_def
      split: sum.splits if_splits prod.splits frame_body.splits dest: decode_encrypted_state)

definition counters_at :: "nat \<Rightarrow> bap_session \<Rightarrow> u64 \<times> u64 \<Rightarrow> bool" where
  "counters_at k s e \<longleftrightarrow> session_counters s = e \<and> unat (fst e) \<le> k \<and> unat (snd e) \<le> k"

lemma counters_at_Suc: "counters_at k s e \<Longrightarrow> counters_at (Suc k) s e"
  by (simp add: counters_at_def)

lemma succ_below:
  "unat c \<le> k \<Longrightarrow> k < 2 ^ 64 - 1 \<Longrightarrow> saturating_succ_u64 c = c + 1 \<and> unat (c + 1) \<le> Suc k"
proof -
  assume k: "unat c \<le> k" "k < 2 ^ 64 - 1"
  then have "unat c \<noteq> unat (- 1 :: u64)" by (simp add: unsigned_minus_1_eq_mask mask_eq_exp_minus_1)
  then have "saturating_succ_u64 c = c + 1" by (auto simp: saturating_succ_u64_def)
  with unat_saturating_succ [of c] k show ?thesis by (simp add: min_def split: if_splits)
qed

lemma counters_at_advance:
  "counters_at k s e \<Longrightarrow> k < 2 ^ 64 - 1 \<Longrightarrow> counters_at (Suc k) (advance s d) (count_direction d e)"
  using succ_below [of "fst e" k] succ_below [of "snd e" k]
  by (cases d) (auto simp: counters_at_def session_counters_def count_direction_def)

lemma counters_at_new: "bap_session_new key n = Inr s \<Longrightarrow> counters_at 0 s (0, 0)"
  by (auto simp: bap_session_new_def counters_at_def session_counters_def context_new_def
      split: sum.splits if_splits)

section \<open>\<open>stream_framing_verify\<close>: checks that cannot fail, schedules that do not show\<close>

text \<open>The fields of a report that the loop over the frames does not write.\<close>

definition sv_frame_rel :: "stream_verify_report \<Rightarrow> stream_verify_report \<Rightarrow> bool" where
  "sv_frame_rel r r' \<longleftrightarrow> sv_nonce_valid r' = sv_nonce_valid r \<and> sv_buffer_empty r' = sv_buffer_empty r
     \<and> sv_recovered r' = sv_recovered r \<and> sv_expected r' = sv_expected r \<and> sv_chunks r' = sv_chunks r"

lemma sv_step_outcome:
  assumes "sv_step P (s, r, e) rd = (s', r', e')"
  shows "sv_frame_rel r r'
     \<and> (counters_at k s e \<longrightarrow> k < 2 ^ 64 - 1 \<longrightarrow> counters_at (Suc k) s' e')"
proof -
  obtain raw dir where rd: "rd = (raw, dir)" by (cases rd)
  obtain res s1 where d: "decode_frame P s dir (rf_raw_bytes raw) = (res, s1)" by fastforce
  note st = decode_frame_state [OF d]
  show ?thesis
    using assms d st counters_at_Suc [of k s e] counters_at_advance [of k s e dir] unfolding rd
    by (auto simp: sv_step_def sv_frame_rel_def split: sum.splits decoded_frame.splits bap_session_error.splits)
qed

lemma sv_loop_outcome:
  assumes "foldl (sv_step P) (s, r, e) rds = (s', r', e')"
  shows "sv_frame_rel r r'
     \<and> (counters_at k s e \<longrightarrow> k + length rds < 2 ^ 64 \<longrightarrow> counters_at (k + length rds) s' e')"
  using assms
proof (induction rds arbitrary: s r e k)
  case (Cons rd rds)
  obtain s1 r1 e1 where st: "sv_step P (s, r, e) rd = (s1, r1, e1)" using prod_cases3 by blast
  have "foldl (sv_step P) (s1, r1, e1) rds = (s', r', e')" using Cons.prems st by simp
  from Cons.IH [OF this, of "Suc k"] sv_step_outcome [OF st, of k] show ?case
    by (auto simp: sv_frame_rel_def)
qed (simp add: sv_frame_rel_def)

text \<open>The decoder takes in a whole stream: nothing is left over and nothing is refused.\<close>

lemma feed_all_whole:
  "feed_all decoder_push decoder_new cs = (Inr fs, d) \<and> sd_buf d = [] \<longleftrightarrow>
   d = decoder_new \<and> decoder_push decoder_new (concat cs) = (Inr fs, decoder_new)"
proof
  assume l: "feed_all decoder_push decoder_new cs = (Inr fs, d) \<and> sd_buf d = []"
  then have p: "decoder_push decoder_new (concat cs) = (Inr fs, d)"
    using stream.feed_all_concat_ok [of decoder_new cs fs d] by simp
  then have "sd_max_body_len d = sd_max_body_len decoder_new"
    using decoder_push_max [of decoder_new "concat cs"] by simp
  then have "d = decoder_new" using l by (simp add: decoder_new_def)
  then show "d = decoder_new \<and> decoder_push decoder_new (concat cs) = (Inr fs, decoder_new)" using p by simp
next
  assume r: "d = decoder_new \<and> decoder_push decoder_new (concat cs) = (Inr fs, decoder_new)"
  then have "feed_all decoder_push decoder_new [concat cs] = (Inr fs, decoder_new)" by simp
  then have "feed_all decoder_push decoder_new cs = (Inr fs, decoder_new)"
    by (rule stream.feed_all_state [rotated]) simp_all
  then show "feed_all decoder_push decoder_new cs = (Inr fs, d) \<and> sd_buf d = []"
    using r by (simp add: decoder_new_def)
qed

lemma whole_conserves:
  assumes "decoder_push decoder_new stream = (Inr fs, decoder_new)"
  shows "concat (map rf_raw_bytes fs) = stream" "\<forall>f \<in> set fs. raw_wf MAX_BODY_LEN f"
proof -
  have "drain_loop MAX_BODY_LEN stream = (Inr fs, [])"
    using assms by (auto simp: decoder_push_eq decoder_new_def prod_eq_iff)
  from drain_conserves [OF this] show "concat (map rf_raw_bytes fs) = stream" "\<forall>f \<in> set fs. raw_wf MAX_BODY_LEN f"
    by simp_all
qed

lemma sv_sizes_positive: "\<forall>n \<in> set (sv_sizes cs). 0 < n" "sv_sizes cs \<noteq> []"
  by (auto simp: sv_sizes_def Let_def DEFAULT_CHUNK_SIZES_def)

definition sv_chunks_of :: "nat list \<Rightarrow> bytes \<Rightarrow> bytes list" where
  "sv_chunks_of cs stream = chunk_loop (sv_sizes cs) 0 stream"

lemma concat_sv_chunks [simp]: "concat (sv_chunks_of cs stream) = stream"
  using chunk_loop_concat [OF sv_sizes_positive] by (simp add: sv_chunks_of_def)

text \<open>The report before the loop over the frames, once the framing is known to be sound.\<close>

definition sv_initial :: "wire_file \<Rightarrow> bytes \<Rightarrow> nat \<Rightarrow> nat \<Rightarrow> nat \<Rightarrow> stream_verify_report" where
  "sv_initial file stream chunks recovered expected =
     \<lparr>sv_capture = capture_or_unknown (wi_capture file), sv_stream_bytes = length stream, sv_chunks = of_nat chunks,
      sv_recovered = of_nat recovered, sv_expected = of_nat expected, sv_clear = 0, sv_encrypted = 0, sv_success = 0,
      sv_failed = 0, sv_framing_ok = True, sv_nonce_valid = True, sv_buffer_empty = True\<rparr>"

definition sv_settle :: "bap_session \<times> stream_verify_report \<times> u64 \<times> u64 \<Rightarrow> stream_verify_report" where
  "sv_settle = (\<lambda>(s, r, e). if session_counters s \<noteq> e then r\<lparr>sv_nonce_valid := False\<rparr> else r)"

definition sv_inputs_ok ::
  "wire_file \<Rightarrow> bytes \<Rightarrow> bytes \<Rightarrow> nonce_direction list \<Rightarrow> bytes \<Rightarrow> raw_frame list \<Rightarrow> bap_session \<Rightarrow> bool" where
  "sv_inputs_ok file key sn dirs stream recovered session \<longleftrightarrow>
     sv_decode_hex ''session_key_hex'' (wi_key_hex file) = Inr key \<and> length key = 16
   \<and> sv_decode_hex ''session_nonce_hex'' (wi_nonce_hex file) = Inr sn \<and> length sn = 12
   \<and> collect_wire sv_decode_hex sv_parse_direction (wi_frames file) = Inr (dirs, stream) \<and> dirs \<noteq> []
   \<and> decoder_push decoder_new stream = (Inr recovered, decoder_new) \<and> length recovered = length dirs
   \<and> bap_session_new key sn = Inr session"

lemma sv_verify_file_eq:
  assumes "sv_inputs_ok file key sn dirs stream recovered session"
  shows "sv_verify_file P file cs =
    Inr (sv_settle (foldl (sv_step P)
       (session, sv_initial file stream (length (sv_chunks_of cs stream)) (length recovered) (length dirs), 0, 0)
       (zip recovered dirs)))"
proof -
  note a = assms [unfolded sv_inputs_ok_def]
  have fed: "feed_all decoder_push decoder_new (sv_chunks_of cs stream) = (Inr recovered, decoder_new)"
    using feed_all_whole [of "sv_chunks_of cs stream" recovered decoder_new] a by simp
  have fin: "decoder_buffered_len decoder_new = 0" "decoder_finish decoder_new = Inr ()"
    by (simp_all add: decoder_buffered_len_def decoder_finish_def decoder_new_def)
  have cat: "concat (map rf_raw_bytes recovered) = stream" using whole_conserves(1) a by blast
  show ?thesis
    using a
    by (simp add: sv_verify_file_def sized_field_def Let_def fed [unfolded sv_chunks_of_def] fin cat sv_settle_def
        sv_initial_def sv_chunks_of_def split: prod.split)
qed

lemma sv_verify_fileE:
  assumes "sv_verify_file P file cs = Inr r"
  obtains key sn dirs stream recovered session where "sv_inputs_ok file key sn dirs stream recovered session"
proof -
  from assms obtain key sn dirs stream where
    f: "sv_decode_hex ''session_key_hex'' (wi_key_hex file) = Inr key" "length key = 16"
      "sv_decode_hex ''session_nonce_hex'' (wi_nonce_hex file) = Inr sn" "length sn = 12"
      "collect_wire sv_decode_hex sv_parse_direction (wi_frames file) = Inr (dirs, stream)" "dirs \<noteq> []"
    by (auto simp: sv_verify_file_def bind_res_ok sized_field_ok split: if_splits)
  obtain fed d where fed: "feed_all decoder_push decoder_new (chunk_loop (sv_sizes cs) 0 stream) = (fed, d)" by fastforce
  from assms f fed obtain recovered where
    g: "fed = Inr recovered" "decoder_finish d = Inr ()" "length recovered = length dirs"
    by (auto simp: sv_verify_file_def sized_field_def Let_def split: sum.splits if_splits)
  then have "decoder_push decoder_new stream = (Inr recovered, decoder_new)"
    using feed_all_whole [of "sv_chunks_of cs stream" recovered d] fed
    by (simp add: sv_chunks_of_def [symmetric] decoder_finish_def split: if_splits)
  moreover from assms f fed g obtain session where "bap_session_new key sn = Inr session"
    by (auto simp: sv_verify_file_def sized_field_def Let_def split: sum.splits if_splits)
  ultimately show thesis using f g by (intro that) (simp add: sv_inputs_ok_def)
qed

text \<open>The number of chunks passes through the loop.\<close>

lemma sv_step_chunks:
  "sv_step P (s, r\<lparr>sv_chunks := n\<rparr>, e) rd = (case sv_step P (s, r, e) rd of (s', r', e') \<Rightarrow> (s', r'\<lparr>sv_chunks := n\<rparr>, e'))"
  by (auto simp: sv_step_def split: prod.splits sum.splits decoded_frame.splits bap_session_error.splits)

lemma sv_loop_chunks:
  "foldl (sv_step P) (s, r\<lparr>sv_chunks := n\<rparr>, e) rds =
     (case foldl (sv_step P) (s, r, e) rds of (s', r', e') \<Rightarrow> (s', r'\<lparr>sv_chunks := n\<rparr>, e'))"
proof (induction rds arbitrary: s r e)
  case (Cons rd rds)
  obtain s1 r1 e1 where "sv_step P (s, r, e) rd = (s1, r1, e1)" using prod_cases3 by blast
  then show ?case using Cons.IH by (simp add: sv_step_chunks)
qed simp

lemma sv_settle_chunks: "sv_settle (s, r\<lparr>sv_chunks := n\<rparr>, e) = (sv_settle (s, r, e))\<lparr>sv_chunks := n\<rparr>"
  by (simp add: sv_settle_def)

lemma sv_initial_chunks: "sv_initial f st n a b = (sv_initial f st m a b)\<lparr>sv_chunks := of_nat n\<rparr>"
  by (simp add: sv_initial_def)

text \<open>
  The schedule of chunks does not show: a file accepted under one schedule is accepted under every
  other, and the reports differ only in how many chunks were pushed. Three of the checks of an
  accepted file cannot fail: the buffer is empty, the recovered frames are as many as expected, and,
  below \<open>2 ^ 64\<close> frames, the nonce counters agree.
\<close>

lemma stream_report_schedule:
  assumes "sv_verify_file P file cs = Inr r"
  shows "\<exists>n. sv_verify_file P file cs' = Inr (r\<lparr>sv_chunks := n\<rparr>)"
proof -
  from assms obtain key sn dirs stream recovered session where
    ok: "sv_inputs_ok file key sn dirs stream recovered session" by (rule sv_verify_fileE)
  let ?rds = "zip recovered dirs"
  let ?i = "sv_initial file stream (length (sv_chunks_of cs stream)) (length recovered) (length dirs)"
  obtain s r0 e where l: "foldl (sv_step P) (session, ?i, 0, 0) ?rds = (s, r0, e)" using prod_cases3 by blast
  have r: "r = sv_settle (s, r0, e)" using assms sv_verify_file_eq [OF ok, of P cs] l by simp
  show ?thesis
    unfolding sv_verify_file_eq [OF ok, of P cs'] r
    by (subst sv_initial_chunks [where m = "length (sv_chunks_of cs stream)"])
       (auto simp: sv_loop_chunks l sv_settle_chunks)
qed

lemma collect_wire_length:
  "collect_wire decode direction fs = Inr (ds, stream) \<Longrightarrow> length ds \<le> length fs"
proof (induction fs arbitrary: ds stream)
  case (Cons f fs)
  show ?case
  proof (cases "hex_or_empty (wr_hex f) = []")
    case True
    then show ?thesis using Cons by (simp add: le_SucI)
  next
    case False
    have "\<exists>p. collect_wire decode direction fs = Inr p \<and> length ds = Suc (length (fst p))"
    proof (cases "collect_wire decode direction fs")
      case (Inl e)
      then show ?thesis using Cons.prems False by (auto simp: Let_def bind_res_ok)
    next
      case (Inr p)
      then show ?thesis using Cons.prems False by (cases p) (auto simp: Let_def bind_res_ok)
    qed
    then obtain ds' st' where "collect_wire decode direction fs = Inr (ds', st')" "length ds = Suc (length ds')"
      by auto
    then show ?thesis using Cons.IH by simp
  qed
qed simp

lemma stream_report_checks:
  assumes "sv_verify_file P file cs = Inr r" and "length (wi_frames file) < 2 ^ 64"
  shows "sv_nonce_valid r \<and> sv_buffer_empty r \<and> sv_recovered r = sv_expected r"
proof -
  from assms(1) obtain key sn dirs stream recovered session where
    ok: "sv_inputs_ok file key sn dirs stream recovered session" by (rule sv_verify_fileE)
  let ?rds = "zip recovered dirs"
  let ?i = "sv_initial file stream (length (sv_chunks_of cs stream)) (length recovered) (length dirs)"
  have n: "length ?rds < 2 ^ 64"
    using ok assms(2) collect_wire_length [of sv_decode_hex sv_parse_direction "wi_frames file" dirs stream]
    by (simp add: sv_inputs_ok_def)
  obtain s r0 e where l: "foldl (sv_step P) (session, ?i, 0, 0) ?rds = (s, r0, e)" using prod_cases3 by blast
  have "counters_at 0 session (0, 0)" using ok counters_at_new by (auto simp: sv_inputs_ok_def)
  with sv_loop_outcome [OF l, of 0] n have o: "sv_frame_rel ?i r0" "session_counters s = e"
    by (simp_all add: counters_at_def)
  have "r = r0" using assms(1) sv_verify_file_eq [OF ok, of P cs] l o(2) by (simp add: sv_settle_def)
  then show ?thesis
    using o(1) ok by (simp add: sv_frame_rel_def sv_initial_def sv_inputs_ok_def)
qed

section \<open>A genuine session is verified\<close>

definition wire_of :: "nonce_direction \<times> bytes \<Rightarrow> wire_frame" where
  "wire_of w = \<lparr>wr_direction = direction_name (fst w), wr_hex = Some (hex_encode (snd w))\<rparr>"

lemma collect_wire_of:
  assumes "\<forall>w \<in> set ws. snd w \<noteq> []"
  shows "collect_wire (decode_field none bad) (direction_of_text wrong) (map wire_of ws)
     = Inr (map fst ws, concat (map snd ws))"
  using assms
  by (induction ws) (simp_all add: wire_of_def hex_or_empty_def visible_hex_encode decode_field_encode
      direction_of_name Let_def)

text \<open>One message of the peer, as the verifier's session sees it.\<close>

lemma sent_step:
  assumes "session_synced P a b" "bap_fits m" "bap_send P a m = Some (w, a')"
  obtains b' where "decode_frame P b (fst w) (snd w) = (Inr (bap_view m), b')" "session_synced P a' b'"
proof -
  from bap_deliver [OF assms(1) bap_fits_sendable [OF assms(2)]] assms(3) show thesis
    by (auto simp: bap_recv_def intro: that)
qed

lemma sv_sent_loop:
  assumes "session_synced P a b" "\<forall>m \<in> set ms. bap_fits m" "send_all (bap_send P) a ms = Some (ws, a')"
  shows "\<exists>s e. foldl (sv_step P) (b, r, e0) (map (\<lambda>w. (sent_raw (snd w), fst w)) ws) =
     (s, r\<lparr>sv_clear := sv_clear r + of_nat (length (filter (\<lambda>m. \<not> bo_encrypted m) ms)),
           sv_encrypted := sv_encrypted r + of_nat (length (filter bo_encrypted ms)),
           sv_success := sv_success r + of_nat (length (filter bo_encrypted ms))\<rparr>, e)"
  using assms
proof (induction ms arbitrary: a b ws r e0)
  case (Cons m ms)
  from Cons.prems(3) obtain w s1 vs where w: "bap_send P a m = Some (w, s1)"
      "send_all (bap_send P) s1 ms = Some (vs, a')" "ws = w # vs"
    by (auto split: option.splits)
  from sent_step [OF Cons.prems(1) _ w(1)] Cons.prems(2) obtain b' where
    b: "decode_frame P b (fst w) (snd w) = (Inr (bap_view m), b')" "session_synced P s1 b'" by auto
  let ?r = "if bo_encrypted m then r\<lparr>sv_encrypted := sv_encrypted r + 1, sv_success := sv_success r + 1\<rparr>
            else r\<lparr>sv_clear := sv_clear r + 1\<rparr>"
  obtain e1 where "sv_step P (b, r, e0) (sent_raw (snd w), fst w) = (b', ?r, e1)"
    using b(1) by (cases "bo_encrypted m") (auto simp: sv_step_def sent_raw_def bap_view_def)
  then show ?case
    using Cons.IH [OF b(2) _ w(2), of ?r e1] Cons.prems(2)
    by (cases "bo_encrypted m") (simp_all add: w(3) algebra_simps)
qed simp

text \<open>The counters after the messages of the peer: one for each sealed message, by direction.\<close>

definition expect_counters :: "u64 \<times> u64 \<Rightarrow> bap_out list \<Rightarrow> u64 \<times> u64" where
  "expect_counters = foldl (\<lambda>e m. if bo_encrypted m then count_direction (bo_direction m) e else e)"

lemma expect_counters_simps [simp]:
  "expect_counters e [] = e"
  "expect_counters e (m # ms) = expect_counters (if bo_encrypted m then count_direction (bo_direction m) e else e) ms"
  by (simp_all add: expect_counters_def)

lemma sent_counters:
  assumes "session_synced P a b" "\<forall>m \<in> set ms. bap_fits m" "send_all (bap_send P) a ms = Some (ws, a')"
    "counters_at k a e" "k + length ms < 2 ^ 64"
  shows "session_counters a' = expect_counters e ms"
  using assms
proof (induction ms arbitrary: a b ws k e)
  case (Cons m ms)
  from Cons.prems(3) obtain w s1 vs where w: "bap_send P a m = Some (w, s1)"
      "send_all (bap_send P) s1 ms = Some (vs, a')"
    by (auto split: option.splits)
  from sent_step [OF Cons.prems(1) _ w(1)] Cons.prems(2) obtain b' where b: "session_synced P s1 b'" by auto
  have "aead_ok P" "context_valid (bs_crypto a)" "bap_sendable m"
    using Cons.prems(1,2) bap_fits_sendable by (auto simp: session_synced_def)
  then obtain raw where
    "bap_send P a m = Some ((bo_direction m, raw), if bo_encrypted m then advance a (bo_direction m) else a)"
    by (rule bap_step [OF _ _ _ refl])
  then have s1: "s1 = (if bo_encrypted m then advance a (bo_direction m) else a)" using w(1) by simp
  have "k < 2 ^ 64 - 1" using Cons.prems(5) by simp
  then have "counters_at (Suc k) s1 (if bo_encrypted m then count_direction (bo_direction m) e else e)"
    unfolding s1 using counters_at_Suc [OF Cons.prems(4)] counters_at_advance [OF Cons.prems(4)] by simp
  then show ?case
    using Cons.IH [OF b _ w(2), of "Suc k"] Cons.prems(2,5) by simp
qed (simp add: counters_at_def)

lemma pv_count_step:
  "pv_count (r, e) (bap_view m, d) =
     (if bo_encrypted m
      then (r\<lparr>pv_encrypted := pv_encrypted r + 1, pv_success := pv_success r + 1\<rparr>, count_direction d e)
      else (r\<lparr>pv_clear := pv_clear r + 1\<rparr>, e))"
  by (simp add: pv_count_def bap_view_def)

lemma pv_count_views:
  "foldl pv_count (r, e) (zip (map bap_view ms) (map bo_direction ms)) =
     (r\<lparr>pv_clear := pv_clear r + of_nat (length (filter (\<lambda>m. \<not> bo_encrypted m) ms)),
        pv_encrypted := pv_encrypted r + of_nat (length (filter bo_encrypted ms)),
        pv_success := pv_success r + of_nat (length (filter bo_encrypted ms))\<rparr>, expect_counters e ms)"
proof (induction ms arbitrary: r e)
  case (Cons m ms)
  then show ?case
    unfolding list.map zip_Cons_Cons foldl_Cons pv_count_step
    by (cases "bo_encrypted m") (simp_all add: algebra_simps)
qed simp

text \<open>The record of a frame with every expectation filled in.\<close>

definition bap_frame_of :: "bap_out \<Rightarrow> nonce_direction \<times> bytes \<Rightarrow> bap_verify_frame" where
  "bap_frame_of m w =
     \<lparr>bw_direction = direction_name (fst w), bw_hex = Some (hex_encode (snd w)),
      bw_kind = Some (if bo_encrypted m then 1 else 2), bw_msg_id = Some (bo_msg_id m),
      bw_plaintext_len = Some (6 + length (bo_payload m))\<rparr>"

lemma bv_sent_step:
  assumes "decode_frame P b (fst w) (snd w) = (Inr (bap_view m), b')" "snd w \<noteq> []" "fst w = bo_direction m"
  shows "bv_step P (bap_frame_of m w) (b, r, e) = Inr (b',
     (if bo_encrypted m
      then r\<lparr>bv_seen := bv_seen r + 1, bv_encrypted := bv_encrypted r + 1, bv_with_wire := bv_with_wire r + 1,
             bv_success := bv_success r + 1\<rparr>
      else r\<lparr>bv_seen := bv_seen r + 1, bv_clear := bv_clear r + 1, bv_clear_ok := bv_clear_ok r + 1\<rparr>),
     if bo_encrypted m then count_direction (bo_direction m) e else e)"
proof -
  have hex: "hex_or_empty (Some (hex_encode (snd w))) = hex_encode (snd w)"
    by (simp add: hex_or_empty_def visible_hex_encode)
  show ?thesis
    using assms
    by (cases "bo_encrypted m")
       (simp_all add: bv_step_def bap_frame_of_def hex bv_parse_direction_def direction_of_name bv_decode_hex_def
         decode_field_encode bv_frame_def bap_view_def unexpected_def Let_def)
qed

lemma bv_sent_loop:
  assumes "session_synced P a b" "\<forall>m \<in> set ms. bap_fits m" "send_all (bap_send P) a ms = Some (ws, a')"
    and "\<forall>w \<in> set ws. snd w \<noteq> []" "map fst ws = map bo_direction ms"
  shows "\<exists>s r'. bv_loop P (map2 bap_frame_of ms ws) (b, r, e) = Inr (s, r', expect_counters e ms)
     \<and> session_synced P a' s \<and> bv_seen r' = bv_seen r + of_nat (length ms)
     \<and> bv_clear r' = bv_clear r + of_nat (length (filter (\<lambda>m. \<not> bo_encrypted m) ms))
     \<and> bv_success r' = bv_success r + of_nat (length (filter bo_encrypted ms))
     \<and> bv_framing_valid r' = bv_framing_valid r \<and> bv_nonce_valid r' = bv_nonce_valid r \<and> bv_failed r' = bv_failed r"
  using assms
proof (induction ms arbitrary: a b ws r e)
  case (Cons m ms)
  from Cons.prems(3) obtain w s1 vs where w: "bap_send P a m = Some (w, s1)"
      "send_all (bap_send P) s1 ms = Some (vs, a')" "ws = w # vs"
    by (auto split: option.splits)
  from sent_step [OF Cons.prems(1) _ w(1)] Cons.prems(2) obtain b' where
    b: "decode_frame P b (fst w) (snd w) = (Inr (bap_view m), b')" "session_synced P s1 b'" by auto
  have "snd w \<noteq> []" "fst w = bo_direction m" using Cons.prems(4,5) w(3) by auto
  note st = bv_sent_step [OF b(1) this, of r e]
  let ?e = "if bo_encrypted m then count_direction (bo_direction m) e else e"
  obtain r1 where r1: "bv_step P (bap_frame_of m w) (b, r, e) = Inr (b', r1, ?e)"
      "bv_seen r1 = bv_seen r + 1" "bv_framing_valid r1 = bv_framing_valid r"
      "bv_nonce_valid r1 = bv_nonce_valid r" "bv_failed r1 = bv_failed r"
      "bv_clear r1 = bv_clear r + (if bo_encrypted m then 0 else 1)"
      "bv_success r1 = bv_success r + (if bo_encrypted m then 1 else 0)"
    using st by (cases "bo_encrypted m") simp_all
  from Cons.IH [OF b(2) _ w(2), of r1 ?e] Cons.prems(2,4,5) w(3) obtain s r' where
    "bv_loop P (map2 bap_frame_of ms vs) (b', r1, ?e) = Inr (s, r', expect_counters ?e ms)"
    "session_synced P a' s" "bv_seen r' = bv_seen r1 + of_nat (length ms)"
    "bv_clear r' = bv_clear r1 + of_nat (length (filter (\<lambda>m. \<not> bo_encrypted m) ms))"
    "bv_success r' = bv_success r1 + of_nat (length (filter bo_encrypted ms))"
    "bv_framing_valid r' = bv_framing_valid r1 \<and> bv_nonce_valid r' = bv_nonce_valid r1 \<and> bv_failed r' = bv_failed r1"
    by auto
  then show ?case
    using r1 by (simp add: w(3))
qed simp

definition session_file :: "string option \<Rightarrow> bytes \<Rightarrow> bytes \<Rightarrow> (nonce_direction \<times> bytes) list \<Rightarrow> wire_file" where
  "session_file c key nonce ws =
     \<lparr>wi_capture = c, wi_key_hex = hex_encode key, wi_nonce_hex = hex_encode nonce, wi_frames = map wire_of ws\<rparr>"

definition expecting_file ::
  "string option \<Rightarrow> bytes \<Rightarrow> bytes \<Rightarrow> bap_out list \<Rightarrow> (nonce_direction \<times> bytes) list \<Rightarrow> bap_verify_file" where
  "expecting_file c key nonce ms ws =
     \<lparr>bw_capture = c, bw_key_hex = hex_encode key, bw_nonce_hex = hex_encode nonce, bw_frames = map2 bap_frame_of ms ws\<rparr>"

lemma session_lengths:
  "bap_session_new key nonce = Inr s \<Longrightarrow> length key = 16 \<and> length nonce = 12"
  by (auto simp: bap_session_new_def context_new_def KEY_LEN_def GCM_NONCE_LEN_def split: if_splits sum.splits)

lemma decode_key_nonce:
  assumes "bap_session_new key nonce = Inr s"
  shows "decode_field none bad f (hex_encode key) = Inr key" "decode_field none bad f (hex_encode nonce) = Inr nonce"
  using session_lengths [OF assms] by (auto intro!: decode_field_encode)

text \<open>What the peer sent, as the stream decoder and the verifiers of frames need it.\<close>

lemma sent_stream:
  assumes "aead_ok P" "bap_session_new key nonce = Inr peer" "\<forall>m \<in> set ms. bap_fits m"
    and "send_all (bap_send P) peer ms = Some (ws, peer')"
  shows "map fst ws = map bo_direction ms" "\<forall>w \<in> set ws. snd w \<noteq> []"
    "decoder_push decoder_new (concat (map snd ws)) = (Inr (map (sent_raw \<circ> snd) ws), decoder_new)"
proof -
  note wf = send_all_raw_wf [OF bap_session_new_synced [OF assms(1,2)] assms(3,4)]
  then show "map fst ws = map bo_direction ms" by simp
  show "\<forall>w \<in> set ws. snd w \<noteq> []"
    using wf by (auto simp: sent_raw_def dest!: bspec raw_nonempty)
  have raws: "map rf_raw_bytes (map (sent_raw \<circ> snd) ws) = map snd ws" by (simp add: sent_raw_def)
  have "drain_loop MAX_BODY_LEN (concat (map rf_raw_bytes (map (sent_raw \<circ> snd) ws))) = (Inr (map (sent_raw \<circ> snd) ws), [])"
    using drain_raws [of "map (sent_raw \<circ> snd) ws" MAX_BODY_LEN "[]"] wf by (simp add: head_of_def)
  then show "decoder_push decoder_new (concat (map snd ws)) = (Inr (map (sent_raw \<circ> snd) ws), decoder_new)"
    unfolding raws by (simp add: decoder_push_eq decoder_new_def)
qed

lemma stream_accepts:
  assumes "aead_ok P" "bap_session_new key nonce = Inr peer" "\<forall>m \<in> set ms. bap_fits m"
    and "send_all (bap_send P) peer ms = Some (ws, peer')" "ms \<noteq> []" "length ms < 2 ^ 32"
  shows "\<exists>r. sv_verify_file P (session_file c key nonce ws) cs = Inr r \<and> sv_verified r
     \<and> sv_clear r = of_nat (length (filter (\<lambda>m. \<not> bo_encrypted m) ms))
     \<and> sv_success r = of_nat (length (filter bo_encrypted ms))"
proof -
  note ss = sent_stream [OF assms(1-4)]
  have len: "length ws = length ms" using ss(1) by (metis length_map)
  let ?recovered = "map (sent_raw \<circ> snd) ws"
  have ok: "sv_inputs_ok (session_file c key nonce ws) key nonce (map fst ws) (concat (map snd ws)) ?recovered peer"
    using decode_key_nonce [OF assms(2)] session_lengths [OF assms(2)] ss assms(2,5) len
    by (auto simp: sv_inputs_ok_def session_file_def sv_decode_hex_def sv_parse_direction_def collect_wire_of)
  let ?i = "sv_initial (session_file c key nonce ws) (concat (map snd ws))
     (length (sv_chunks_of cs (concat (map snd ws)))) (length ?recovered) (length (map fst ws))"
  have z: "zip ?recovered (map fst ws) = map (\<lambda>w. (sent_raw (snd w), fst w)) ws"
    by (simp add: zip_map_map zip_same_conv_map)
  from sv_sent_loop [OF bap_session_new_synced [OF assms(1,2)] assms(3,4), of ?i "(0, 0)"] obtain s e where
    l: "foldl (sv_step P) (peer, ?i, 0, 0) (zip ?recovered (map fst ws)) =
     (s, ?i\<lparr>sv_clear := sv_clear ?i + of_nat (length (filter (\<lambda>m. \<not> bo_encrypted m) ms)),
           sv_encrypted := sv_encrypted ?i + of_nat (length (filter bo_encrypted ms)),
           sv_success := sv_success ?i + of_nat (length (filter bo_encrypted ms))\<rparr>, e)"
    unfolding z by blast
  define r where "r = sv_settle (foldl (sv_step P) (peer, ?i, 0, 0) (zip ?recovered (map fst ws)))"
  have r: "sv_verify_file P (session_file c key nonce ws) cs = Inr r"
    unfolding r_def by (rule sv_verify_file_eq [OF ok])
  have "length (wi_frames (session_file c key nonce ws)) < 2 ^ 64"
    using assms(6) len by (simp add: session_file_def)
  note checks = stream_report_checks [OF r this]
  have pos: "(of_nat (length ms) :: u32) > 0"
    using assms(5,6) by (simp add: word_greater_zero_iff word_of_nat_eq_0_iff nat_dvd_not_less)
  have flds: "sv_framing_ok r" "sv_failed r = 0" "sv_recovered r = of_nat (length ms)"
    "sv_clear r = of_nat (length (filter (\<lambda>m. \<not> bo_encrypted m) ms))" "sv_success r = of_nat (length (filter bo_encrypted ms))"
    unfolding r_def l by (simp_all add: sv_settle_def sv_initial_def len)
  then show ?thesis using r checks pos by (auto simp: sv_verified_def)
qed

lemma pipeline_accepts:
  assumes "aead_ok P" "bap_session_new key nonce = Inr peer" "\<forall>m \<in> set ms. bap_fits m"
    and "send_all (bap_send P) peer ms = Some (ws, peer')" "ms \<noteq> []" "length ms < 2 ^ 32"
  shows "\<exists>r. pv_verify_file P (session_file c key nonce ws) cs = Some (Inr r) \<and> pv_verified r
     \<and> pv_clear r = of_nat (length (filter (\<lambda>m. \<not> bo_encrypted m) ms))
     \<and> pv_success r = of_nat (length (filter bo_encrypted ms))"
proof -
  note ss = sent_stream [OF assms(1-4)]
  obtain p where p: "pipeline_new key nonce = Inr p" "pl_session p = peer"
    using assms(2) by (auto simp: pipeline_new_def)
  let ?stream = "concat (map snd ws)"
  let ?chunks = "chunk_stream ?stream (if cs = [] then DEFAULT_PIPELINE_CHUNK_SIZES else cs)"
  have "ws \<noteq> []" using ss(1) assms(5) by auto
  then have inputs: "pv_inputs (session_file c key nonce ws) = Inr (key, nonce, map bo_direction ms, ?stream)"
    using session_lengths [OF assms(2)] ss(1,2) assms(5)
    by (simp add: decode_key_nonce [OF assms(2)] pv_inputs_def session_file_def sized_field_def pv_decode_hex_def pv_parse_direction_def collect_wire_of)
  obtain p' q where run: "run_directed P mock_read p (mock_new ?chunks) (map bo_direction ms) = Some (Inr (map bap_view ms), p', q)"
    "bs_crypto (pl_session p') = bs_crypto peer'"
    using pipeline_delivers [OF assms(1) p(1) assms(2,3,4), of ?chunks] by auto
  have "length ms < 2 ^ 64" using assms(6) by simp
  then have "session_counters peer' = expect_counters (0, 0) ms"
    using sent_counters [OF bap_session_new_synced [OF assms(1,2)] assms(3,4) counters_at_new [OF assms(2)]] by simp
  then have cnt: "session_counters (pl_session p') = expect_counters (0, 0) ms"
    using run(2) by (simp add: session_counters_def)
  have pos: "(of_nat (length ms) :: u32) > 0"
    using assms(5,6) by (simp add: word_greater_zero_iff word_of_nat_eq_0_iff nat_dvd_not_less)
  show ?thesis
    using pos by (simp add: pv_verify_file_def inputs p(1) run(1) Let_def pv_count_views cnt pv_verified_def)
qed

lemma session_accepts:
  assumes "aead_ok P" "bap_session_new key nonce = Inr peer" "\<forall>m \<in> set ms. bap_fits m"
    and "send_all (bap_send P) peer ms = Some (ws, peer')" "ms \<noteq> []" "length ms < 2 ^ 32"
  shows "\<exists>r. bv_verify_file P (expecting_file c key nonce ms ws) = Inr r \<and> bv_verified r
     \<and> bv_clear r = of_nat (length (filter (\<lambda>m. \<not> bo_encrypted m) ms))
     \<and> bv_success r = of_nat (length (filter bo_encrypted ms))"
proof -
  note ss = sent_stream [OF assms(1-4)]
  note sy = bap_session_new_synced [OF assms(1,2)]
  let ?r = "\<lparr>bv_capture = capture_or_unknown c, bv_seen = 0, bv_clear = 0, bv_encrypted = 0,
     bv_opaque = 0, bv_framing_valid = True, bv_with_wire = 0, bv_unavailable = 0, bv_success = 0,
     bv_failed = 0, bv_clear_ok = 0, bv_nonce_valid = True\<rparr>"
  from bv_sent_loop [OF sy assms(3,4) ss(2,1), of ?r "(0, 0)"] obtain s r where
    l: "bv_loop P (map2 bap_frame_of ms ws) (peer, ?r, 0, 0) = Inr (s, r, expect_counters (0, 0) ms)"
    "session_synced P peer' s" and r: "bv_seen r = of_nat (length ms)"
    "bv_clear r = of_nat (length (filter (\<lambda>m. \<not> bo_encrypted m) ms))"
    "bv_success r = of_nat (length (filter bo_encrypted ms))"
    "bv_framing_valid r" "bv_nonce_valid r" "bv_failed r = 0"
    by auto
  have "length ms < 2 ^ 64" using assms(6) by simp
  then have "session_counters peer' = expect_counters (0, 0) ms"
    using sent_counters [OF sy assms(3,4) counters_at_new [OF assms(2)]] by simp
  then have cnt: "session_counters s = expect_counters (0, 0) ms"
    using l(2) by (simp add: session_synced_def session_counters_def)
  have pos: "(of_nat (length ms) :: u32) > 0"
    using assms(5,6) by (simp add: word_greater_zero_iff word_of_nat_eq_0_iff nat_dvd_not_less)
  have ne: "map2 bap_frame_of ms ws \<noteq> []" using ss(1) assms(5) by (cases ms; cases ws) auto
  have "bv_verify_file P (expecting_file c key nonce ms ws) = Inr r"
    using session_lengths [OF assms(2)] assms(2) ne
    by (simp add: decode_key_nonce [OF assms(2)] bv_verify_file_def expecting_file_def sized_field_def bv_decode_hex_def l(1) cnt)
  then show ?thesis using r pos by (auto simp: bv_verified_def)
qed

text \<open>
  The layout checks of \<open>session_crypto_verify\<close> dominate those of the crypto: once they passed, the
  only way to fail left is a report that is not verified.
\<close>

lemma session_record_no_error:
  assumes "cbc_ok P" "length iv = IV_LEN" "length tag = HMAC_SHA256_LEN" "hmac_key \<noteq> []"
  shows "\<exists>r. verify_session_record P kind n iv ct tag aes_key hmac_key = Inr r"
proof -
  obtain msg where m: "build_hmac_message kind n iv ct = Inr msg"
    using assms(2) by (cases kind) (auto simp: build_hmac_message_def)
  obtain t where "cp_hmac P hmac_key msg = Some t" using assms(1,4) unfolding cbc_ok_def by blast
  then have "verify_hmac_sha256 P hmac_key msg tag = Inr (t = tag)"
    using assms(3,4) by (simp add: verify_hmac_sha256_def)
  with m show ?thesis
    by (simp add: verify_session_record_def Let_def split: sum.split)
qed

lemma layout_checks_dominate:
  assumes "cbc_ok P" "lv_parse_kind (lf_hmac_message_kind file) = Inr kind" "lf_record_len file = 80"
    and "lv_decode_hex ''iv_hex'' (lf_iv_hex file) = Inr iv" "length iv = 16"
    and "lv_decode_hex ''ciphertext_hex'' (lf_ciphertext_hex file) = Inr ct" "length ct = 32"
    and "lv_decode_hex ''hmac_hex'' (lf_hmac_hex file) = Inr tag" "length tag = 32"
    and "lv_decode_hex ''aes_key_hex'' (lf_aes_key_hex file) = Inr aes_key" "length aes_key = 16"
    and "lv_decode_hex ''hmac_key_hex'' (lf_hmac_key_hex file) = Inr hmac_key" "16 \<le> length hmac_key"
  shows "\<exists>r. lv_verify_file P file = Inr r \<and> verify_session_record P kind 80 iv ct tag aes_key hmac_key = Inr r"
proof -
  have "hmac_key \<noteq> []" using assms(13) by auto
  then obtain r where r: "verify_session_record P kind 80 iv ct tag aes_key hmac_key = Inr r"
    using session_record_no_error [OF assms(1), of iv tag hmac_key kind 80 ct aes_key] assms(5,9)
    by (auto simp: cbc_consts)
  then have "lv_verify_file P file = Inr r"
    using assms by (simp add: lv_verify_file_def sized_field_def EXPECTED_RECORD_LEN_def EXPECTED_CIPHERTEXT_LEN_def
        EXPECTED_HMAC_KEY_MIN_LEN_def cbc_consts)
  with r show ?thesis by simp
qed

section \<open>Property\<close>

text \<open>
  C14. A genuine session is verified by all three verifiers: whatever sequence of clear and sealed
  messages a peer sends in both directions, the files made of the key, the nonce and the frames in
  hex are accepted by \<open>stream_framing_verify\<close> and \<open>bap_pipeline_verify\<close> under every list of chunk
  sizes, zeroes and the empty list included, and by \<open>bap_session_verify\<close> with every expectation
  filled in; each report is verified and counts exactly the clear and the sealed messages.
\<close>

theorem genuine_session_verified:
  assumes "aead_ok P" and "bap_session_new key nonce = Inr peer"
    and "\<forall>m \<in> set ms. bap_fits m" and "send_all (bap_send P) peer ms = Some (ws, peer')"
    and "ms \<noteq> []" and "length ms < 2 ^ 32"
  shows "(\<exists>r. sv_verify_file P (session_file c key nonce ws) cs = Inr r \<and> sv_verified r
       \<and> sv_clear r = of_nat (length (filter (\<lambda>m. \<not> bo_encrypted m) ms))
       \<and> sv_success r = of_nat (length (filter bo_encrypted ms)))
   \<and> (\<exists>r. pv_verify_file P (session_file c key nonce ws) cs = Some (Inr r) \<and> pv_verified r
       \<and> pv_clear r = of_nat (length (filter (\<lambda>m. \<not> bo_encrypted m) ms))
       \<and> pv_success r = of_nat (length (filter bo_encrypted ms)))
   \<and> (\<exists>r. bv_verify_file P (expecting_file c key nonce ms ws) = Inr r \<and> bv_verified r
       \<and> bv_clear r = of_nat (length (filter (\<lambda>m. \<not> bo_encrypted m) ms))
       \<and> bv_success r = of_nat (length (filter bo_encrypted ms)))"
  using stream_accepts [OF assms] pipeline_accepts [OF assms] session_accepts [OF assms] by blast

theorem genuine_session_verified_witness:
  "\<exists>peer ws peer' r. bap_session_new (replicate 16 1) (replicate 12 2) = Inr peer
     \<and> send_all (bap_send demo_aead) peer
         [\<lparr>bo_encrypted = True, bo_direction = ClientToServer, bo_msg_id = 30, bo_context = 1, bo_payload = [5]\<rparr>,
          \<lparr>bo_encrypted = False, bo_direction = ServerToClient, bo_msg_id = 31, bo_context = 1, bo_payload = []\<rparr>]
         = Some (ws, peer')
     \<and> sv_verify_file demo_aead (session_file None (replicate 16 1) (replicate 12 2) ws) [3, 0, 1] = Inr r
     \<and> sv_verified r \<and> sv_clear r = 1 \<and> sv_success r = 1"
proof -
  let ?ms = "[\<lparr>bo_encrypted = True, bo_direction = ClientToServer, bo_msg_id = 30, bo_context = 1, bo_payload = [5]\<rparr>,
          \<lparr>bo_encrypted = False, bo_direction = ServerToClient, bo_msg_id = 31, bo_context = 1, bo_payload = []\<rparr>]"
  obtain s where s: "bap_session_new (replicate 16 1) (replicate 12 2) = Inr s"
    using context_new_ok [of "replicate 16 1" "replicate 12 2"] by (auto simp: bap_session_new_def)
  have fits: "\<forall>m \<in> set ?ms. bap_fits m" by (simp add: bap_fits_def MAX_BODY_LEN_def)
  obtain ws s' where ws: "send_all (bap_send demo_aead) s ?ms = Some (ws, s')"
    using bap.deliver_all [OF bap_session_new_synced [OF demo_aead_ok s], of ?ms] fits bap_fits_sendable
    by blast
  have "?ms \<noteq> []" "length ?ms < 2 ^ 32" by simp_all
  from genuine_session_verified [OF demo_aead_ok s fits ws this, of None "[3, 0, 1]"] show ?thesis
    using s ws by auto
qed

end
