(* ===== verification/Multi_Capture.thy ===== *)
theory Multi_Capture
  imports Ordered_Map
begin

text \<open>
  \<open>network/src/multi_capture.rs\<close>: validation reports of several captures, the classification
  of each invariant over them, the verdict, and the text of the summary. Repeated reports of
  one capture count once, the first one. How the standard library prints a string for
  debugging, which depends on its Unicode tables, is a parameter.
\<close>

section \<open>Reports\<close>

datatype invariant_class = IcStable | IcCaptureSpecific | IcDivergent | IcObserved | IcUnknown

fun invariant_class_str :: "invariant_class \<Rightarrow> string" where
  "invariant_class_str IcStable = ''STABLE''"
| "invariant_class_str IcCaptureSpecific = ''CAPTURE_SPECIFIC''"
| "invariant_class_str IcDivergent = ''DIVERGENT''"
| "invariant_class_str IcObserved = ''OBSERVED''"
| "invariant_class_str IcUnknown = ''UNKNOWN''"

datatype multi_status = VerifiedMultiCapture | ReadyForExternalCapture | CaptureBlocked

fun multi_status_str :: "multi_status \<Rightarrow> string" where
  "multi_status_str VerifiedMultiCapture = ''VERIFIED_MULTI_CAPTURE''"
| "multi_status_str ReadyForExternalCapture = ''READY_FOR_EXTERNAL_CAPTURE''"
| "multi_status_str CaptureBlocked = ''BLOCKED''"

record validation_report =
  vr_capture_id :: string
  vr_independent :: bool
  vr_frames :: u32
  vr_clear :: u32
  vr_encrypted :: u32
  vr_success :: u32
  vr_failed :: u32
  vr_framing :: bool
  vr_nonce_state :: bool
  vr_gcm :: bool
  vr_message_ids :: "u16 list"
  vr_startup :: "u16 list"
  vr_client_frames :: u32
  vr_server_frames :: u32
  vr_aad_empty :: "bool option"
  vr_body_lengths :: "nat list"
  vr_unknown_ids :: "u16 list"
  vr_fa_count :: u32
  vr_fb_count :: u32
  vr_record_ok :: "bool option"
  vr_c2s_xor :: "bool option"
  vr_s2c_identity :: "bool option"

definition pipeline_ok :: "validation_report \<Rightarrow> bool" where
  "pipeline_ok r \<longleftrightarrow> vr_framing r \<and> vr_nonce_state r \<and> vr_gcm r \<and> vr_failed r = 0 \<and> vr_frames r > 0
     \<and> vr_encrypted r = vr_success r"

record invariant_row =
  ir_name :: string
  ir_class :: invariant_class
  ir_detail :: string
  ir_captures :: u32

record multi_summary =
  ms_status :: multi_status
  ms_count :: u32
  ms_reports :: "validation_report list"
  ms_rows :: "invariant_row list"
  ms_notes :: "string list"

definition verified_multi_capture :: "multi_summary \<Rightarrow> bool" where
  "verified_multi_capture s \<longleftrightarrow> ms_status s = VerifiedMultiCapture"

section \<open>Debug texts\<close>

definition debug_list :: "('a \<Rightarrow> string) \<Rightarrow> 'a list \<Rightarrow> string" where
  "debug_list d xs = ''['' @ join_with '', '' (map d xs) @ '']''"

definition debug_ids :: "u16 list \<Rightarrow> string" where
  "debug_ids = debug_list (\<lambda>i. show_nat (unat i))"

definition debug_pair :: "(string \<Rightarrow> string) \<Rightarrow> ('a \<Rightarrow> string) \<Rightarrow> string \<times> 'a \<Rightarrow> string" where
  "debug_pair dbg d p = ''('' @ dbg (fst p) @ '', '' @ d (snd p) @ '')''"

section \<open>Classification\<close>

definition measured :: "('r \<Rightarrow> string) \<Rightarrow> ('r \<Rightarrow> 'v option) \<Rightarrow> 'r list \<Rightarrow> (string \<times> 'v) list" where
  "measured name f reports = List.map_filter (\<lambda>r. map_option (\<lambda>v. (name r, v)) (f r)) reports"

definition classify_bool ::
  "(string \<Rightarrow> string) \<Rightarrow> string \<Rightarrow> validation_report list \<Rightarrow> (validation_report \<Rightarrow> bool option) \<Rightarrow> u32 \<Rightarrow>
   invariant_row" where
  "classify_bool dbg name reports f n =
     (let vs = measured vr_capture_id f reports;
          contributing = of_nat (length vs) :: u32
      in if vs = [] then
           \<lparr>ir_name = name, ir_class = IcUnknown, ir_detail = ''not measured'', ir_captures = 0\<rparr>
         else if n \<le> 1 then
           \<lparr>ir_name = name, ir_class = IcObserved,
            ir_detail = ''value='' @ show_bool (snd (vs ! 0)) @ '' (single capture; CONFIRMED_FOR_CAPTURE only)'',
            ir_captures = contributing\<rparr>
         else
           (let s = foldl (\<lambda>s p. bs_insert (snd p) s) [] vs
            in if length s = 1 then
                 (let v = s ! 0
                  in if contributing = n then
                       \<lparr>ir_name = name, ir_class = IcStable, ir_detail = ''value='' @ show_bool v,
                        ir_captures = contributing\<rparr>
                     else
                       \<lparr>ir_name = name, ir_class = IcCaptureSpecific,
                        ir_detail = ''value='' @ show_bool v @ '' measured in '' @ show_nat (unat contributing)
                          @ ''/'' @ show_nat (unat n) @ '' captures'',
                        ir_captures = contributing\<rparr>)
               else
                 \<lparr>ir_name = name, ir_class = IcDivergent,
                  ir_detail = ''values differ across captures: '' @ debug_list (debug_pair dbg show_bool) vs,
                  ir_captures = contributing\<rparr>))"

definition classify_sequence ::
  "(string \<Rightarrow> string) \<Rightarrow> string \<Rightarrow> validation_report list \<Rightarrow> (validation_report \<Rightarrow> u16 list option) \<Rightarrow> u32 \<Rightarrow>
   invariant_row" where
  "classify_sequence dbg name reports f n =
     (let vs = measured vr_capture_id f reports;
          contributing = of_nat (length vs) :: u32
      in if vs = [] then
           \<lparr>ir_name = name, ir_class = IcUnknown, ir_detail = ''not measured'', ir_captures = 0\<rparr>
         else if n \<le> 1 then
           \<lparr>ir_name = name, ir_class = IcObserved, ir_detail = ''seq='' @ debug_ids (snd (vs ! 0)),
            ir_captures = contributing\<rparr>
         else
           (let first = snd (vs ! 0);
                all_eq = list_all (\<lambda>p. snd p = first) vs
            in if all_eq \<and> contributing = n then
                 \<lparr>ir_name = name, ir_class = IcStable, ir_detail = ''seq='' @ debug_ids first,
                  ir_captures = contributing\<rparr>
               else if all_eq then
                 \<lparr>ir_name = name, ir_class = IcCaptureSpecific,
                  ir_detail = ''seq='' @ debug_ids first @ '' in '' @ show_nat (unat contributing) @ ''/''
                    @ show_nat (unat n),
                  ir_captures = contributing\<rparr>
               else
                 \<lparr>ir_name = name, ir_class = IcDivergent,
                  ir_detail = ''sequences differ: '' @ debug_list (debug_pair dbg debug_ids) vs,
                  ir_captures = contributing\<rparr>))"

section \<open>The comparison\<close>

definition timing_row :: invariant_row where
  "timing_row =
     \<lparr>ir_name = ''keepalive timing (~interval)'', ir_class = IcUnknown,
      ir_detail = ''timing not compared in M2.9; interval remains capture-local OBSERVED if documented elsewhere'',
      ir_captures = 0\<rparr>"

definition invariant_rows :: "(string \<Rightarrow> string) \<Rightarrow> validation_report list \<Rightarrow> u32 \<Rightarrow> invariant_row list" where
  "invariant_rows dbg uniq n =
     [classify_bool dbg ''BAP framing valid'' uniq (\<lambda>r. Some (vr_framing r)) n,
      classify_bool dbg ''AES-GCM decrypt (all encrypted frames)'' uniq
        (\<lambda>r. Some (vr_gcm r \<and> vr_failed r = 0 \<and> vr_encrypted r = vr_success r)) n,
      classify_bool dbg ''nonce state / direction counters'' uniq (\<lambda>r. Some (vr_nonce_state r)) n,
      classify_bool dbg ''AAD empty (GCM)'' uniq vr_aad_empty n,
      classify_bool dbg ''C->S nonce base XOR-last-1'' uniq vr_c2s_xor n,
      classify_bool dbg ''S->C nonce base Identity'' uniq vr_s2c_identity n,
      classify_bool dbg ''0x1A AES-CBC/HMAC session record'' uniq vr_record_ok n,
      classify_sequence dbg ''startup sequence (msg_id prefix)'' uniq
        (\<lambda>r. if vr_startup r = [] then None else Some (vr_startup r)) n,
      classify_bool dbg ''keepalive 0xFA present'' uniq (\<lambda>r. Some (vr_fa_count r > 0)) n,
      classify_bool dbg ''keepalive 0xFB present'' uniq (\<lambda>r. Some (vr_fb_count r > 0)) n,
      timing_row]"

definition critical_stable :: "invariant_row list \<Rightarrow> bool" where
  "critical_stable rows \<longleftrightarrow>
     list_ex (\<lambda>i. is_prefix ''BAP framing'' (ir_name i) \<and> ir_class i = IcStable) rows
     \<and> list_ex (\<lambda>i. is_prefix ''AES-GCM'' (ir_name i) \<and> ir_class i = IcStable) rows"

text \<open>The sign for \<open>greater or equal\<close> in UTF-8.\<close>

definition at_least_sign :: string where
  "at_least_sign = [CHR 0xE2, CHR 0x89, CHR 0xA5]"

definition status_and_note :: "validation_report list \<Rightarrow> u32 \<Rightarrow> invariant_row list \<Rightarrow> multi_status \<times> string list" where
  "status_and_note uniq n rows =
     (let all_ok = list_all pipeline_ok uniq
      in if n = 0 then (CaptureBlocked, [''no independent captures''])
         else if n = 1 then
           (if all_ok then ReadyForExternalCapture else CaptureBlocked,
            [''only one independent pipeline-ready capture; cannot claim multi-capture stability''])
         else if all_ok then
           (if critical_stable rows then (VerifiedMultiCapture, [])
            else (CaptureBlocked,
                  [at_least_sign @ ''2 captures present but critical framing/GCM invariants are not STABLE'']))
         else (CaptureBlocked, [''one or more captures failed pipeline validation'']))"

definition first_per_id :: "validation_report list \<Rightarrow> (string, validation_report) btree" where
  "first_per_id independent = foldl (\<lambda>m r. bt_entry (vr_capture_id r) r (\<lambda>v. v) m) [] independent"

definition mc_compare_captures :: "(string \<Rightarrow> string) \<Rightarrow> validation_report list \<Rightarrow> multi_summary" where
  "mc_compare_captures dbg reports =
     (let independent = filter vr_independent reports
      in if reports = [] then
           \<lparr>ms_status = CaptureBlocked, ms_count = 0, ms_reports = [], ms_rows = [],
            ms_notes = [''no capture reports supplied'']\<rparr>
         else
           (let unique_ids = foldl (\<lambda>s r. bs_insert (vr_capture_id r) s) [] independent;
                n_unique = of_nat (length unique_ids) :: u32;
                notes = (if length independent > length unique_ids
                  then [''duplicate independent=true reports with the same capture_id were collapsed for stability claims'']
                  else []);
                uniq = bt_vals (first_per_id independent);
                n = of_nat (length uniq) :: u32;
                rows = invariant_rows dbg uniq n;
                (status, more) = status_and_note uniq n rows
            in \<lparr>ms_status = status, ms_count = max n_unique n, ms_reports = reports, ms_rows = rows,
                ms_notes = notes @ more\<rparr>))"

section \<open>Display\<close>

definition valid_text :: "bool \<Rightarrow> string" where
  "valid_text b = (if b then ''VALID'' else ''INVALID'')"

text \<open>\<open>0x{id:02x}\<close>\<close>

definition short_id :: "u16 \<Rightarrow> string" where
  "short_id i = ''0x'' @ (if unat i < 16 then ''0'' else []) @ hex_lower (unat i)"

definition show_validation :: "validation_report \<Rightarrow> string" where
  "show_validation r =
     writeln (''capture: '' @ vr_capture_id r @ '' ('' @ (if vr_independent r then ''independent'' else ''repeat-run'') @ '')'')
     @ writeln (''  frames: '' @ show_nat (unat (vr_frames r)))
     @ writeln (''  clear: '' @ show_nat (unat (vr_clear r)))
     @ writeln (''  encrypted: '' @ show_nat (unat (vr_encrypted r)))
     @ writeln (''  decrypt success: '' @ show_nat (unat (vr_success r)))
     @ writeln (''  decrypt failed: '' @ show_nat (unat (vr_failed r)))
     @ writeln (''  framing: '' @ valid_text (vr_framing r))
     @ writeln (''  nonce state: '' @ valid_text (vr_nonce_state r))
     @ writeln (''  gcm: '' @ valid_text (vr_gcm r))
     @ (if vr_startup r \<noteq> [] then writeln (''  startup: '' @ join_with ('' '' @ right_arrow @ '' '') (map short_id (vr_startup r))) else [])
     @ writeln []"

definition show_invariant :: "invariant_row \<Rightarrow> string" where
  "show_invariant i =
     writeln (ir_name i @ '':'') @ writeln (''  status: '' @ invariant_class_str (ir_class i))
     @ writeln (''  captures: '' @ show_nat (unat (ir_captures i))) @ writeln (''  detail: '' @ ir_detail i)
     @ writeln []"

definition show_multi_summary :: "multi_summary \<Rightarrow> string" where
  "show_multi_summary s =
     writeln ''M2.9 MULTI-CAPTURE STABILITY'' @ writeln []
     @ writeln (''captures: '' @ show_nat (unat (ms_count s))) @ writeln []
     @ concat (map show_validation (ms_reports s))
     @ writeln ''INVARIANTS'' @ writeln []
     @ concat (map show_invariant (ms_rows s))
     @ concat (map (\<lambda>n. writeln (''note: '' @ n)) (ms_notes s))
     @ (if ms_notes s \<noteq> [] then writeln [] else [])
     @ writeln ''RESULT:'' @ writeln (''  '' @ multi_status_str (ms_status s))"

section \<open>Start-up sequence\<close>

definition EXPECTED_STARTUP_HINT :: "u16 list" where
  "EXPECTED_STARTUP_HINT = [0x1e, 0x1f, 0x19, 0x1a, 0x79, 0x7a]"

fun startup_match :: "u16 list \<Rightarrow> nat \<Rightarrow> u16 list \<Rightarrow> u16 list \<Rightarrow> u16 list" where
  "startup_match ids i [] matched = matched"
| "startup_match ids i (e # es) matched =
     (if i < length ids \<and> ids ! i = e then startup_match ids (i + 1) es (matched @ [ids ! i]) else matched)"

definition extract_startup_sequence :: "u16 list \<Rightarrow> u16 list" where
  "extract_startup_sequence ids =
     (let matched = startup_match ids 0 EXPECTED_STARTUP_HINT []
      in if matched \<noteq> [] then matched else take 6 ids)"

section \<open>One report per capture\<close>

definition capture_ids :: "validation_report list \<Rightarrow> string set" where
  "capture_ids reports = vr_capture_id ` set (filter vr_independent reports)"

text \<open>The report that speaks for a capture.\<close>

definition report_of :: "validation_report list \<Rightarrow> string \<Rightarrow> validation_report" where
  "report_of reports c = hd (filter (\<lambda>r. vr_capture_id r = c) (filter vr_independent reports))"

lemma finite_capture_ids [simp]: "finite (capture_ids reports)"
  by (simp add: capture_ids_def)

lemma report_of_filter:
  "c \<in> capture_ids reports \<Longrightarrow> filter (\<lambda>r. vr_capture_id r = c) (filter vr_independent reports) \<noteq> []"
  unfolding capture_ids_def by (auto simp: filter_empty_conv)

lemma report_of_in:
  assumes "c \<in> capture_ids reports"
  shows "report_of reports c \<in> set reports" "vr_capture_id (report_of reports c) = c"
  using hd_in_set [OF report_of_filter [OF assms]] by (auto simp: report_of_def)

lemma first_reports:
  "bt_vals (first_per_id (filter vr_independent reports))
     = map (report_of reports) (sorted_list_of_set (capture_ids reports))"
proof -
  let ?m = "first_per_id (filter vr_independent reports)"
  have ok: "bt_ok ?m" unfolding first_per_id_def by (rule bt.fill(1) [OF bt.ok_empty])
  have dom: "dom (bt_get ?m) = capture_ids reports" unfolding first_per_id_def capture_ids_def by (rule bt.fill_dom)
  have keep: "foldl (\<lambda>v x. v) y ys = y" for y :: validation_report and ys :: "validation_report list"
    by (induction ys) simp_all
  have get: "bt_get ?m c = Some (report_of reports c)" if "c \<in> capture_ids reports" for c
    using report_of_filter [OF that] unfolding first_per_id_def
    by (subst bt.fill(2) [OF bt.ok_empty]) (auto simp: report_of_def keep split: list.split)
  have "?m = map (\<lambda>c. (c, the (bt_get ?m c))) (sorted_list_of_set (capture_ids reports))"
    using bt.entries_exact [OF ok] by (simp add: dom)
  also have "\<dots> = map (\<lambda>c. (c, report_of reports c)) (sorted_list_of_set (capture_ids reports))"
    by (intro map_cong) (simp_all add: get)
  finally show ?thesis by (simp add: bt_vals_def comp_def)
qed

lemma unique_ids_fold:
  "foldl (\<lambda>s r. bs_insert (vr_capture_id r) s) [] (filter vr_independent reports)
     = sorted_list_of_set (capture_ids reports)"
  using bs_insert_fold [of "{}" vr_capture_id "filter vr_independent reports"] by (simp add: capture_ids_def)

section \<open>The class of a measured truth value\<close>

text \<open>When every report measures, the class depends on the number of captures and the set of values.\<close>

lemma measured_all: "measured name (\<lambda>r. Some (f r)) rs = map (\<lambda>r. (name r, f r)) rs"
  by (induction rs) (simp_all add: measured_def)

lemma bool_values: "foldl (\<lambda>s p. bs_insert (snd p) s) [] ps = sorted_list_of_set (snd ` set ps)"
  using bs_insert_fold [of "{}" snd ps] by simp

lemma classify_bool_class:
  assumes "of_nat (length rs) = n"
  shows "ir_class (classify_bool dbg name rs (\<lambda>r. Some (f r)) n) =
    (if rs = [] then IcUnknown else if n \<le> 1 then IcObserved
     else if f ` set rs = {True} \<or> f ` set rs = {False} then IcStable else IcDivergent)"
proof -
  have "card (f ` set rs) = 1 \<longleftrightarrow> f ` set rs = {True} \<or> f ` set rs = {False}"
    by (auto simp: card_1_singleton_iff)
  then show ?thesis
    using assms by (simp add: classify_bool_def measured_all bool_values image_image Let_def)
qed

lemma classify_bool_name: "ir_name (classify_bool dbg name rs f n) = name"
  by (simp add: classify_bool_def Let_def)

lemma all_ok_critical:
  assumes "list_all pipeline_ok uniq" "of_nat (length uniq) = n" "1 < n"
  shows "critical_stable (invariant_rows dbg uniq n)"
proof -
  have "uniq \<noteq> []" using assms by auto
  then have "(\<lambda>r. vr_framing r) ` set uniq = {True}"
    "(\<lambda>r. vr_gcm r \<and> vr_failed r = 0 \<and> vr_encrypted r = vr_success r) ` set uniq = {True}"
    using assms(1) by (auto simp: list_all_iff pipeline_ok_def image_iff neq_Nil_conv)
  then have "ir_class (classify_bool dbg nm uniq (\<lambda>r. Some (vr_framing r)) n) = IcStable"
    "ir_class (classify_bool dbg nm uniq (\<lambda>r. Some (vr_gcm r \<and> vr_failed r = 0 \<and> vr_encrypted r = vr_success r)) n) = IcStable"
    for nm using assms(3) \<open>uniq \<noteq> []\<close> unfolding classify_bool_class [OF assms(2)] by (simp_all add: not_le)
  then show ?thesis
    by (simp add: critical_stable_def invariant_rows_def classify_bool_name)
qed

section \<open>The verdict\<close>

lemma u32_count:
  assumes "m < 2 ^ 32"
  shows "(of_nat m :: u32) = 0 \<longleftrightarrow> m = 0" "(of_nat m :: u32) = 1 \<longleftrightarrow> m = 1"
    "(1 :: u32) < of_nat m \<longleftrightarrow> 1 < m"
  using u32_of_nat_inject [OF assms, of 0] u32_of_nat_inject [OF assms, of 1] assms
  by (simp_all add: word_less_nat_alt unat_of_nat)

lemma card_capture_ids: "card (capture_ids reports) \<le> length reports"
  unfolding capture_ids_def
  by (metis card_image_le card_length filter_is_subset finite_set image_mono le_trans card_mono set_filter
      length_filter_le)

lemma status_exact:
  "fst (status_and_note uniq n rows) =
     (if n = 0 \<or> \<not> list_all pipeline_ok uniq then CaptureBlocked
      else if n = 1 then ReadyForExternalCapture
      else if critical_stable rows then VerifiedMultiCapture else CaptureBlocked)"
  by (simp add: status_and_note_def)

text \<open>The verdict and the count, from the set of the independent captures.\<close>

lemma verdict_exact:
  assumes "length reports < 2 ^ 32"
  shows "let s = mc_compare_captures dbg reports; ids = capture_ids reports;
             all_ok = list_all (\<lambda>c. pipeline_ok (report_of reports c)) (sorted_list_of_set ids)
         in unat (ms_count s) = card ids
          \<and> ms_status s = (if ids = {} \<or> \<not> all_ok then CaptureBlocked
                           else if card ids = 1 then ReadyForExternalCapture
                           else VerifiedMultiCapture)"
proof -
  let ?ids = "capture_ids reports"
  let ?uniq = "map (report_of reports) (sorted_list_of_set ?ids)"
  have small: "card ?ids < 2 ^ 32" using card_capture_ids [of reports] assms by simp
  then have n: "unat (of_nat (card ?ids) :: u32) = card ?ids" by (simp add: unat_of_nat)
  note c = u32_count [OF small]
  show ?thesis
  proof (cases "reports = []")
    case False
    then have s: "ms_status (mc_compare_captures dbg reports) =
        fst (status_and_note ?uniq (of_nat (card ?ids)) (invariant_rows dbg ?uniq (of_nat (card ?ids))))"
      "ms_count (mc_compare_captures dbg reports) = of_nat (card ?ids)"
      by (simp_all add: mc_compare_captures_def Let_def first_reports unique_ids_fold split_beta)
    have crit: "critical_stable (invariant_rows dbg ?uniq (of_nat (card ?ids)))"
      if "list_all pipeline_ok ?uniq" "1 < card ?ids"
      by (rule all_ok_critical [OF that(1)]) (use that(2) c in simp_all)
    have all: "list_all pipeline_ok ?uniq = list_all (\<lambda>c. pipeline_ok (report_of reports c)) (sorted_list_of_set ?ids)"
      by (simp add: list.pred_map comp_def)
    consider "card ?ids = 0" | "card ?ids = 1" | "1 < card ?ids" by linarith
    then show ?thesis
    proof cases
      case 1
      then show ?thesis unfolding Let_def s status_exact c n all by simp
    next
      case 2
      then have "?ids \<noteq> {}" by auto
      with 2 show ?thesis unfolding Let_def s status_exact c n all by simp
    next
      case 3
      then show ?thesis using crit unfolding Let_def s status_exact c n all by auto
    qed
  qed (simp add: mc_compare_captures_def capture_ids_def)
qed

text \<open>
  C22. The verdict on any number of reports, repeats included: verified exactly when at least two
  captures are independent and the first report of each passed the whole pipeline, ready when
  there is one such capture, blocked otherwise; and the count is the number of independent
  captures.
\<close>

theorem multi_capture_verdict:
  assumes "length reports < 2 ^ 32"
  shows "let s = mc_compare_captures dbg reports; ids = capture_ids reports;
             all_ok = list_all (\<lambda>c. pipeline_ok (report_of reports c)) (sorted_list_of_set ids)
         in unat (ms_count s) = card ids
          \<and> ms_status s = (if ids = {} \<or> \<not> all_ok then CaptureBlocked
                           else if card ids = 1 then ReadyForExternalCapture
                           else VerifiedMultiCapture)"
  using assms by (rule verdict_exact)

definition demo_report :: "string \<Rightarrow> bool \<Rightarrow> validation_report" where
  "demo_report c ok =
     \<lparr>vr_capture_id = c, vr_independent = True, vr_frames = 9, vr_clear = 6, vr_encrypted = 3, vr_success = 3,
      vr_failed = 0, vr_framing = True, vr_nonce_state = ok, vr_gcm = True, vr_message_ids = [0x1e, 0x1f],
      vr_startup = [0x1e, 0x1f], vr_client_frames = 5, vr_server_frames = 4, vr_aad_empty = Some True,
      vr_body_lengths = [], vr_unknown_ids = [], vr_fa_count = 1, vr_fb_count = 0, vr_record_ok = None,
      vr_c2s_xor = None, vr_s2c_identity = None\<rparr>"

lemma multi_capture_witness:
  "ms_status (mc_compare_captures id [demo_report ''a'' True, demo_report ''b'' True, demo_report ''a'' False])
     = VerifiedMultiCapture"
proof -
  let ?rs = "[demo_report ''a'' True, demo_report ''b'' True, demo_report ''a'' False]"
  have ids: "capture_ids ?rs = {''a'', ''b''}" by (auto simp: capture_ids_def demo_report_def)
  have "pipeline_ok (report_of ?rs ''a'')" "pipeline_ok (report_of ?rs ''b'')"
    by (simp_all add: report_of_def demo_report_def pipeline_ok_def)
  then have "list_all (\<lambda>c. pipeline_ok (report_of ?rs c)) (sorted_list_of_set {''a'', ''b''})"
    by (simp add: list_all_iff del: sorted_list_of_set_insert_remove)
  then show ?thesis
    using multi_capture_verdict [of ?rs id] by (simp add: Let_def ids del: sorted_list_of_set_insert_remove)
qed

end
