(* ===== verification/Message_Inventory.thy ===== *)
theory Message_Inventory
  imports Bap_Session Messages Ordered_Map
begin

text \<open>
  \<open>network/src/message_inventory.rs\<close>: the observations of a capture, grouped by message id with
  counters in ordered maps, the summary of a capture, and the comparison of two captures.
  SHA-256 is a parameter. Counters are 32 bits wide and wrap.
\<close>

section \<open>Observations\<close>

datatype evidence_label = LObserved | LCrossCaptureStable | LDivergent | LUnknown | LExternalReference

fun evidence_label_str :: "evidence_label \<Rightarrow> string" where
  "evidence_label_str LObserved = ''OBSERVED''"
| "evidence_label_str LCrossCaptureStable = ''CROSS_CAPTURE_STABLE''"
| "evidence_label_str LDivergent = ''DIVERGENT''"
| "evidence_label_str LUnknown = ''UNKNOWN''"
| "evidence_label_str LExternalReference = ''EXTERNAL_REFERENCE''"

record message_observation =
  mo_capture_id :: string
  mo_frame_index :: u32
  mo_direction :: string
  mo_frame_kind :: u8
  mo_message_id :: u16
  mo_context :: u32
  mo_payload_len :: nat
  mo_payload :: bytes
  mo_payload_sha256 :: string
  mo_frame_offset :: "u64 option"
  mo_frame_order :: "u64 option"
  mo_evidence :: evidence_label

definition payload_fingerprint :: "(bytes \<Rightarrow> bytes) \<Rightarrow> bytes \<Rightarrow> string" where
  "payload_fingerprint sha payload = hex_encode (sha payload)"

definition from_decoded ::
  "(bytes \<Rightarrow> bytes) \<Rightarrow> string \<Rightarrow> u32 \<Rightarrow> nonce_direction \<Rightarrow> decoded_frame \<Rightarrow> u64 option \<Rightarrow> u64 option \<Rightarrow>
   message_observation option" where
  "from_decoded sha capture_id frame_index direction frame offset order =
     (let dir = (case direction of ClientToServer \<Rightarrow> ''client_to_server'' | ServerToClient \<Rightarrow> ''server_to_client'');
          parts = (case frame of
              DClear i context payload \<Rightarrow> Some (2, i, context, payload)
            | DDecrypted i context payload n \<Rightarrow>
                (case i of
                   None \<Rightarrow> None
                 | Some i \<Rightarrow> Some (1, i, (case context of None \<Rightarrow> 0 | Some x \<Rightarrow> x), payload))
            | DOpaque k n \<Rightarrow> None)
      in case parts of
           None \<Rightarrow> None
         | Some (kind, i, context, payload) \<Rightarrow>
             Some \<lparr>mo_capture_id = capture_id, mo_frame_index = frame_index, mo_direction = dir,
                   mo_frame_kind = kind, mo_message_id = i, mo_context = context,
                   mo_payload_len = length payload, mo_payload = payload,
                   mo_payload_sha256 = payload_fingerprint sha payload,
                   mo_frame_offset = offset, mo_frame_order = order, mo_evidence = LObserved\<rparr>)"

section \<open>Payload differences\<close>

record payload_diff =
  pd_length_a :: nat
  pd_length_b :: nat
  pd_prefix :: nat
  pd_first :: "nat option"
  pd_different :: nat

function diff_prefix :: "bytes \<Rightarrow> bytes \<Rightarrow> nat \<Rightarrow> nat" where
  "diff_prefix a b p =
     (if p < min (length a) (length b) \<and> a ! p = b ! p then diff_prefix a b (p + 1) else p)"
  by pat_completeness auto
termination by (relation "measure (\<lambda>(a, b, p). length a - p)") auto

declare diff_prefix.simps [simp del]

definition payload_byte_diff :: "bytes \<Rightarrow> bytes \<Rightarrow> payload_diff" where
  "payload_byte_diff a b =
     (let min_len = min (length a) (length b);
          p = diff_prefix a b 0;
          first = (if p < length a \<or> p < length b then Some p else None);
          different = (length a - length b) + (length b - length a);
          different = foldl (\<lambda>n i. if a ! i \<noteq> b ! i then n + 1 else n) different [p..<min_len]
      in \<lparr>pd_length_a = length a, pd_length_b = length b, pd_prefix = p, pd_first = first,
          pd_different = different\<rparr>)"

section \<open>Groups\<close>

record id_group =
  mg_message_id :: u16
  mg_total :: u32
  mg_captures :: "string list"
  mg_directions :: "(string, u32) btree"
  mg_contexts :: "(u32, u32) btree"
  mg_lengths :: "(nat, u32) btree"
  mg_hashes :: "(string, u32) btree"
  mg_first :: "u32 option"
  mg_last :: "u32 option"
  mg_observations :: "message_observation list"

definition group_new :: "u16 \<Rightarrow> id_group" where
  "group_new i =
     \<lparr>mg_message_id = i, mg_total = 0, mg_captures = [], mg_directions = [], mg_contexts = [],
      mg_lengths = [], mg_hashes = [], mg_first = None, mg_last = None, mg_observations = []\<rparr>"

definition group_push :: "message_observation \<Rightarrow> id_group \<Rightarrow> id_group" where
  "group_push obs g =
     g\<lparr>mg_total := mg_total g + 1,
       mg_captures := bs_insert (mo_capture_id obs) (mg_captures g),
       mg_directions := bt_count (mo_direction obs) (mg_directions g),
       mg_contexts := bt_count (mo_context obs) (mg_contexts g),
       mg_lengths := bt_count (mo_payload_len obs) (mg_lengths g),
       mg_hashes := bt_count (mo_payload_sha256 obs) (mg_hashes g),
       mg_first := Some (case mg_first g of None \<Rightarrow> mo_frame_index obs | Some f \<Rightarrow> min f (mo_frame_index obs)),
       mg_last := Some (case mg_last g of None \<Rightarrow> mo_frame_index obs | Some f \<Rightarrow> max f (mo_frame_index obs)),
       mg_observations := mg_observations g @ [obs]\<rparr>"

type_synonym inventory = "(u16, id_group) btree"

definition inventory_add :: "message_observation \<Rightarrow> inventory \<Rightarrow> inventory" where
  "inventory_add obs groups = bt_entry (mo_message_id obs) (group_new (mo_message_id obs)) (group_push obs) groups"

definition unique_ids :: "inventory \<Rightarrow> u16 list" where
  "unique_ids groups = bt_keys groups"

definition total_observations :: "inventory \<Rightarrow> u32" where
  "total_observations groups = foldl (+) 0 (map mg_total (bt_vals groups))"

record message_summary =
  cs_message_id :: u16
  cs_occurrences :: u32
  cs_directions :: "(string, u32) btree"
  cs_contexts :: "(u32, u32) btree"
  cs_lengths :: "(nat, u32) btree"
  cs_external_name :: "string option"
  cs_external_label :: evidence_label

record capture_inventory =
  ci_capture_id :: string
  ci_total_frames :: u32
  ci_message_count :: u32
  ci_unique :: "u16 list"
  ci_startup :: "u16 list"
  ci_messages :: "message_summary list"
  ci_inventory :: inventory

text \<open>The loop of \<open>from_observations\<close>, with \<open>startup\<close> and \<open>inventory\<close>.\<close>

definition observe_step :: "u16 list \<times> inventory \<Rightarrow> message_observation \<Rightarrow> u16 list \<times> inventory" where
  "observe_step s obs =
     (case s of (startup, groups) \<Rightarrow>
        ((if length startup < 8 then startup @ [mo_message_id obs] else startup), inventory_add obs groups))"

definition summary_of :: "u16 \<Rightarrow> id_group \<Rightarrow> message_summary" where
  "summary_of i g =
     (let ext = lookup_name i in
      \<lparr>cs_message_id = i, cs_occurrences = mg_total g, cs_directions = mg_directions g,
       cs_contexts = mg_contexts g, cs_lengths = mg_lengths g, cs_external_name = ext,
       cs_external_label = (if ext \<noteq> None then LExternalReference else LUnknown)\<rparr>)"

text \<open>\<open>None\<close>: the indexing \<open>inventory.groups[id]\<close> panics.\<close>

definition from_observations :: "string \<Rightarrow> message_observation list \<Rightarrow> capture_inventory option" where
  "from_observations capture_id observations =
     (case foldl observe_step ([], []) observations of (startup, inventory) \<Rightarrow>
        let unique = unique_ids inventory in
        (case those (map (\<lambda>i. map_option (summary_of i) (bt_get inventory i)) unique) of
           None \<Rightarrow> None
         | Some messages \<Rightarrow>
             Some \<lparr>ci_capture_id = capture_id, ci_total_frames = of_nat (length observations),
                   ci_message_count = total_observations inventory, ci_unique = unique,
                   ci_startup = startup, ci_messages = messages, ci_inventory = inventory\<rparr>))"


section \<open>The comparison of two captures\<close>

datatype presence = PresentBoth | AOnly | BOnly

fun presence_str :: "presence \<Rightarrow> string" where
  "presence_str PresentBoth = ''both''"
| "presence_str AOnly = ''A_only''"
| "presence_str BOnly = ''B_only''"

record comparison_row =
  cr_message_id :: u16
  cr_presence :: presence
  cr_directions_a :: "(string, u32) btree"
  cr_directions_b :: "(string, u32) btree"
  cr_contexts_a :: "(u32, u32) btree"
  cr_contexts_b :: "(u32, u32) btree"
  cr_lengths_a :: "(nat, u32) btree"
  cr_lengths_b :: "(nat, u32) btree"
  cr_direction_status :: evidence_label
  cr_context_status :: evidence_label
  cr_length_status :: evidence_label
  cr_external_name :: "string option"

record sequence_pair =
  sp_first_id :: u16
  sp_second_id :: u16
  sp_first_direction :: string
  sp_second_direction :: string
  sp_label :: evidence_label

record capture_comparison =
  cc_capture_a :: string
  cc_capture_b :: string
  cc_rows :: "comparison_row list"
  cc_startup_a :: "u16 list"
  cc_startup_b :: "u16 list"
  cc_startup_status :: evidence_label
  cc_pairs :: "sequence_pair list"
  cc_sample_diffs :: "(u16 \<times> payload_diff) list"

definition compare_key_sets :: "('k::linorder, u32) btree \<Rightarrow> ('k, u32) btree \<Rightarrow> evidence_label" where
  "compare_key_sets a b = (if bt_keys a = bt_keys b then LCrossCaptureStable else LDivergent)"

text \<open>\<open>windows(2)\<close>\<close>

definition observe_sequence_pairs :: "'a list \<Rightarrow> ('a \<times> 'a) list" where
  "observe_sequence_pairs xs = zip xs (tl xs)"

text \<open>\<open>None\<close>: the \<open>unreachable!\<close>.\<close>

definition row_presence :: "id_group option \<Rightarrow> id_group option \<Rightarrow> presence option" where
  "row_presence ga gb =
     (case (ga, gb) of
        (Some _, Some _) \<Rightarrow> Some PresentBoth
      | (Some _, None) \<Rightarrow> Some AOnly
      | (None, Some _) \<Rightarrow> Some BOnly
      | (None, None) \<Rightarrow> None)"

definition or_empty :: "(id_group \<Rightarrow> 'm list) \<Rightarrow> id_group option \<Rightarrow> 'm list" where
  "or_empty f g = (case g of None \<Rightarrow> [] | Some g \<Rightarrow> f g)"

definition compare_row ::
  "u16 \<Rightarrow> id_group option \<Rightarrow> id_group option \<Rightarrow> (comparison_row \<times> (u16 \<times> payload_diff) list) option" where
  "compare_row i ga gb =
     (case row_presence ga gb of
        None \<Rightarrow> None
      | Some presence \<Rightarrow>
          let dirs_a = or_empty mg_directions ga; dirs_b = or_empty mg_directions gb;
              ctx_a = or_empty mg_contexts ga; ctx_b = or_empty mg_contexts gb;
              len_a = or_empty mg_lengths ga; len_b = or_empty mg_lengths gb;
              status = (if presence = PresentBoth
                then (compare_key_sets dirs_a dirs_b, compare_key_sets ctx_a ctx_b, compare_key_sets len_a len_b)
                else (LUnknown, LUnknown, LUnknown));
              diffs = (case (ga, gb) of
                  (Some ga, Some gb) \<Rightarrow>
                    (case (mg_observations ga, mg_observations gb) of
                       (oa # _, ob # _) \<Rightarrow> [(i, payload_byte_diff (mo_payload oa) (mo_payload ob))]
                     | _ \<Rightarrow> [])
                | _ \<Rightarrow> [])
          in Some (\<lparr>cr_message_id = i, cr_presence = presence, cr_directions_a = dirs_a, cr_directions_b = dirs_b,
                   cr_contexts_a = ctx_a, cr_contexts_b = ctx_b, cr_lengths_a = len_a, cr_lengths_b = len_b,
                   cr_direction_status = fst status, cr_context_status = fst (snd status),
                   cr_length_status = snd (snd status), cr_external_name = lookup_name i\<rparr>, diffs))"

fun new_pairs :: "(u16 \<times> u16) list \<Rightarrow> (u16 \<times> u16) list \<Rightarrow> (u16 \<times> u16) list" where
  "new_pairs seen [] = []"
| "new_pairs seen (p # ps) = (if p \<in> set seen then new_pairs seen ps else p # new_pairs (p # seen) ps)"

definition by_frame_index :: "capture_inventory \<Rightarrow> message_observation list" where
  "by_frame_index a =
     bt_vals (foldl (\<lambda>m g. foldl (\<lambda>m o1. bt_insert (mo_frame_index o1) o1 m) m (mg_observations g)) []
       (bt_vals (ci_inventory a)))"

definition enrich_pairs_with_dirs :: "sequence_pair list \<Rightarrow> capture_inventory \<Rightarrow> sequence_pair list" where
  "enrich_pairs_with_dirs pairs a =
     (let ordered = by_frame_index a in
      map (\<lambda>p. case List.find (\<lambda>w. mo_message_id (fst w) = sp_first_id p \<and> mo_message_id (snd w) = sp_second_id p)
                    (observe_sequence_pairs ordered) of
                 None \<Rightarrow> p
               | Some w \<Rightarrow> p\<lparr>sp_first_direction := mo_direction (fst w),
                             sp_second_direction := mo_direction (snd w), sp_label := LObserved\<rparr>) pairs)"

definition sequence_pairs_of :: "capture_inventory \<Rightarrow> capture_inventory \<Rightarrow> sequence_pair list" where
  "sequence_pairs_of a b =
     enrich_pairs_with_dirs
       (map (\<lambda>(f, s). \<lparr>sp_first_id = f, sp_second_id = s, sp_first_direction = ''unknown'',
                       sp_second_direction = ''unknown'', sp_label = LObserved\<rparr>)
          (new_pairs [] (observe_sequence_pairs (ci_startup a) @ observe_sequence_pairs (ci_startup b)))) a"

definition compare_captures :: "capture_inventory \<Rightarrow> capture_inventory \<Rightarrow> capture_comparison option" where
  "compare_captures a b =
     (let ids_a = foldl (\<lambda>s i. bs_insert i s) [] (ci_unique a);
          ids_b = foldl (\<lambda>s i. bs_insert i s) [] (ci_unique b);
          everything = foldl (\<lambda>s i. bs_insert i s) ids_a ids_b
      in case those (map (\<lambda>i. compare_row i (bt_get (ci_inventory a) i) (bt_get (ci_inventory b) i)) everything) of
           None \<Rightarrow> None
         | Some rows \<Rightarrow>
             Some \<lparr>cc_capture_a = ci_capture_id a, cc_capture_b = ci_capture_id b, cc_rows = map fst rows,
                   cc_startup_a = ci_startup a, cc_startup_b = ci_startup b,
                   cc_startup_status = (if ci_startup a = ci_startup b then LCrossCaptureStable else LDivergent),
                   cc_pairs = sequence_pairs_of a b, cc_sample_diffs = concat (map snd rows)\<rparr>)"

definition ids_with :: "presence \<Rightarrow> capture_comparison \<Rightarrow> u16 list" where
  "ids_with p cmp = map cr_message_id (filter (\<lambda>r. cr_presence r = p) (cc_rows cmp))"

definition both_ids :: "capture_comparison \<Rightarrow> u16 list" where "both_ids cmp = ids_with PresentBoth cmp"
definition a_only_ids :: "capture_comparison \<Rightarrow> u16 list" where "a_only_ids cmp = ids_with AOnly cmp"
definition b_only_ids :: "capture_comparison \<Rightarrow> u16 list" where "b_only_ids cmp = ids_with BOnly cmp"


section \<open>The safe export\<close>

record safe_message =
  sm_message_id :: string
  sm_occurrences :: u32
  sm_directions :: "(string, u32) btree"
  sm_contexts :: "(string, u32) btree"
  sm_lengths :: "(string, u32) btree"
  sm_external_name :: "string option"
  sm_external_label :: string

record safe_capture =
  sc_capture_id :: string
  sc_total_frames :: u32
  sc_unique :: "string list"
  sc_startup :: "string list"
  sc_messages :: "safe_message list"

record safe_row =
  sr_message_id :: string
  sr_presence :: string
  sr_direction_status :: string
  sr_context_status :: string
  sr_length_status :: string
  sr_external_name :: "string option"

record safe_comparison =
  so_capture_a :: string
  so_capture_b :: string
  so_startup_a :: "string list"
  so_startup_b :: "string list"
  so_startup_status :: string
  so_rows :: "safe_row list"

text \<open>\<open>0x{:02X}\<close>: at least two digits.\<close>

definition hex_upper_char :: "nat \<Rightarrow> char" where
  "hex_upper_char k = char_of (if k < 10 then 48 + k else 55 + k)"

definition fmt_msg_id :: "u16 \<Rightarrow> string" where
  "fmt_msg_id i =
     (let n = unat i; ds = [n div 4096, n div 256 mod 16, n div 16 mod 16, n mod 16]
      in ''0x'' @ map hex_upper_char (if n < 256 then drop 2 ds else if n < 4096 then drop 1 ds else ds))"

lemma hex_upper_char_code: "k < 16 \<Longrightarrow> of_char (hex_upper_char k) = (if k < 10 then 48 + k else 55 + k)"
  by (simp add: hex_upper_char_def)

lemma hex_upper_char_inject: "j < 16 \<Longrightarrow> k < 16 \<Longrightarrow> hex_upper_char j = hex_upper_char k \<longleftrightarrow> j = k"
proof
  assume a: "j < 16" "k < 16" "hex_upper_char j = hex_upper_char k"
  then have "(if j < 10 then 48 + j else 55 + j) = (if k < 10 then 48 + k else 55 + k)"
    using hex_upper_char_code [of j] hex_upper_char_code [of k] by metis
  then show "j = k" using a(1,2) by (simp split: if_splits)
qed simp

definition id_digits :: "nat \<Rightarrow> nat list" where
  "id_digits n =
     (let ds = [n div 4096, n div 256 mod 16, n div 16 mod 16, n mod 16]
      in if n < 256 then drop 2 ds else if n < 4096 then drop 1 ds else ds)"

lemma fmt_msg_id_digits: "fmt_msg_id i = ''0x'' @ map hex_upper_char (id_digits (unat i))"
  by (simp add: fmt_msg_id_def id_digits_def Let_def)

lemma id_digits_small: "n < 65536 \<Longrightarrow> d \<in> set (id_digits n) \<Longrightarrow> d < 16"
  by (auto simp: id_digits_def Let_def less_mult_imp_div_less split: if_splits)

definition digits_number :: "nat list \<Rightarrow> nat" where
  "digits_number ds = foldl (\<lambda>a d. 16 * a + d) 0 ds"

lemma id_digits_number: "digits_number (id_digits n) = n"
proof -
  have d1: "16 * (n div 16) + n mod 16 = n" by simp
  have d2: "16 * (n div 256) + n div 16 mod 16 = n div 16"
    using div_mult_mod_eq [of "n div 16" 16] by (simp add: div_mult2_eq [of n 16 16, simplified])
  have d3: "16 * (n div 4096) + n div 256 mod 16 = n div 256"
    using div_mult_mod_eq [of "n div 256" 16] by (simp add: div_mult2_eq [of n 256 16, simplified])
  have "n < 256 \<Longrightarrow> n div 16 mod 16 = n div 16" "n < 4096 \<Longrightarrow> n div 256 mod 16 = n div 256"
    by (simp_all add: less_mult_imp_div_less)
  with d1 d2 d3 show ?thesis
    by (cases "n < 256"; cases "n < 4096") (simp_all add: digits_number_def id_digits_def Let_def)
qed

text \<open>The text of an id determines it and contains nothing but digits and the prefix.\<close>

lemma fmt_msg_id_inject: "fmt_msg_id i = fmt_msg_id j \<longleftrightarrow> i = j"
proof
  assume "fmt_msg_id i = fmt_msg_id j"
  then have "map hex_upper_char (id_digits (unat i)) = map hex_upper_char (id_digits (unat j))"
    by (simp add: fmt_msg_id_digits)
  moreover have "inj_on hex_upper_char (set (id_digits (unat i)) \<union> set (id_digits (unat j)))"
    using id_digits_small [of "unat i"] id_digits_small [of "unat j"] by (intro inj_onI) (auto simp: hex_upper_char_inject)
  ultimately have "id_digits (unat i) = id_digits (unat j)" by (rule map_inj_on)
  then show "i = j" by (metis id_digits_number unsigned_word_eqI)
qed simp

lemma fmt_msg_id_chars:
  assumes "c \<in> set (fmt_msg_id i)"
  shows "of_char c < (128 :: nat)"
proof -
  have "of_char (hex_upper_char k) < (128 :: nat)" if "k < 16" for k
    using hex_upper_char_code [OF that] that by (cases "k < 10") simp_all
  then show ?thesis using assms id_digits_small [of "unat i"] by (auto simp: fmt_msg_id_digits)
qed

text \<open>The counters keyed by the decimal text of their keys, hence in the order of the texts.\<close>

definition text_keys :: "('k \<Rightarrow> nat) \<Rightarrow> ('k, u32) btree \<Rightarrow> (string, u32) btree" where
  "text_keys val m = foldl (\<lambda>t (k, n). bt_insert (show_nat (val k)) n t) [] m"

definition safe_message_of :: "message_summary \<Rightarrow> safe_message" where
  "safe_message_of m =
     \<lparr>sm_message_id = fmt_msg_id (cs_message_id m), sm_occurrences = cs_occurrences m,
      sm_directions = cs_directions m, sm_contexts = text_keys unat (cs_contexts m),
      sm_lengths = text_keys id (cs_lengths m), sm_external_name = cs_external_name m,
      sm_external_label = evidence_label_str (cs_external_label m)\<rparr>"

definition safe_capture_of :: "capture_inventory \<Rightarrow> safe_capture" where
  "safe_capture_of c =
     \<lparr>sc_capture_id = ci_capture_id c, sc_total_frames = ci_total_frames c,
      sc_unique = map fmt_msg_id (ci_unique c), sc_startup = map fmt_msg_id (ci_startup c),
      sc_messages = map safe_message_of (ci_messages c)\<rparr>"

definition safe_row_of :: "comparison_row \<Rightarrow> safe_row" where
  "safe_row_of r =
     \<lparr>sr_message_id = fmt_msg_id (cr_message_id r), sr_presence = presence_str (cr_presence r),
      sr_direction_status = evidence_label_str (cr_direction_status r),
      sr_context_status = evidence_label_str (cr_context_status r),
      sr_length_status = evidence_label_str (cr_length_status r), sr_external_name = cr_external_name r\<rparr>"

definition inventory_safe_export ::
  "capture_inventory list \<Rightarrow> capture_comparison option \<Rightarrow> safe_capture list \<times> safe_comparison option" where
  "inventory_safe_export captures comparison =
     (map safe_capture_of captures,
      map_option (\<lambda>cmp.
        \<lparr>so_capture_a = cc_capture_a cmp, so_capture_b = cc_capture_b cmp,
         so_startup_a = map fmt_msg_id (cc_startup_a cmp), so_startup_b = map fmt_msg_id (cc_startup_b cmp),
         so_startup_status = evidence_label_str (cc_startup_status cmp),
         so_rows = map safe_row_of (cc_rows cmp)\<rparr>) comparison)"

text \<open>Distinct keys stay distinct as texts, so no counter is lost.\<close>

lemma text_keys_get:
  assumes "bt_ok m" "inj val"
  shows "bt_get (text_keys val m) (show_nat (val k)) = bt_get m k"
proof -
  let ?t = "foldl (\<lambda>t x. bt_entry (show_nat (val (fst x))) (snd x) (\<lambda>_. snd x) t) [] m"
  have t: "text_keys val m = ?t"
    by (simp add: text_keys_def bt_insert_def case_prod_unfold)
  have key: "show_nat (val a) = show_nat (val b) \<longleftrightarrow> a = b" for a b
    using assms(2) by (auto simp: show_nat_inject dest: injD)
  have "distinct (map fst m)" using assms(1) by (simp add: bt_ok_def strict_sorted_iff)
  then have "filter (\<lambda>x. fst x = k) m = (case map_of m k of None \<Rightarrow> [] | Some v \<Rightarrow> [(k, v)])"
    by (induction m) (auto simp: filter_empty_conv image_iff split: option.splits)
  then show ?thesis
    unfolding t bt_get_map_of [OF assms(1)]
    by (subst bt.fill(2) [OF bt.ok_empty]) (simp add: key split: option.split)
qed

section \<open>What a group holds\<close>

text \<open>The group of the observations with one id, said without a loop.\<close>

definition group_of :: "u16 \<Rightarrow> message_observation list \<Rightarrow> id_group" where
  "group_of i xs =
     \<lparr>mg_message_id = i, mg_total = of_nat (length xs),
      mg_captures = sorted_list_of_set (mo_capture_id ` set xs),
      mg_directions = tally mo_direction xs, mg_contexts = tally mo_context xs,
      mg_lengths = tally mo_payload_len xs, mg_hashes = tally mo_payload_sha256 xs,
      mg_first = (if xs = [] then None else Some (Min (mo_frame_index ` set xs))),
      mg_last = (if xs = [] then None else Some (Max (mo_frame_index ` set xs))),
      mg_observations = xs\<rparr>"

definition with_id :: "u16 \<Rightarrow> message_observation list \<Rightarrow> message_observation list" where
  "with_id i obs = filter (\<lambda>x. mo_message_id x = i) obs"

lemma group_fill: "foldl (\<lambda>g x. group_push x g) (group_new i) xs = group_of i xs"
proof (induction xs rule: rev_induct)
  case Nil
  then show ?case by (simp add: group_new_def group_of_def tally_def)
next
  case (snoc x xs)
  have t: "bt_count (key x) (tally key xs) = tally key (xs @ [x])" for key :: "message_observation \<Rightarrow> 'k::linorder"
    using count_tally [of key "xs @ [x]"] count_tally [of key xs] by simp
  have "insert (mo_frame_index x) (mo_frame_index ` set xs) = mo_frame_index ` set (xs @ [x])" by simp
  then show ?case
    using snoc by (simp add: group_push_def group_of_def t bs_insert_set min.commute max.commute
        del: sorted_list_of_set_insert_remove)
qed

lemma inventory_fold:
  "bt_ok (foldl (\<lambda>m x. inventory_add x m) [] obs)"
  "bt_get (foldl (\<lambda>m x. inventory_add x m) [] obs) i =
     (if with_id i obs = [] then None else Some (group_of i (with_id i obs)))"
  "unique_ids (foldl (\<lambda>m x. inventory_add x m) [] obs) = sorted_list_of_set (mo_message_id ` set obs)"
proof -
  let ?m = "foldl (\<lambda>m x. bt_entry (mo_message_id x) (group_new (mo_message_id x)) (group_push x) m) [] obs"
  have eq: "foldl (\<lambda>m x. inventory_add x m) [] obs = ?m" by (simp add: inventory_add_def)
  show "bt_ok (foldl (\<lambda>m x. inventory_add x m) [] obs)"
    unfolding eq by (rule bt.fill(1) [OF bt.ok_empty])
  show "unique_ids (foldl (\<lambda>m x. inventory_add x m) [] obs) = sorted_list_of_set (mo_message_id ` set obs)"
    unfolding eq unique_ids_def bt_keys_def
    using bt.fill_keys [where key = mo_message_id and d = "\<lambda>x. group_new (mo_message_id x)" and f = group_push and xs = obs]
    by simp
  show "bt_get (foldl (\<lambda>m x. inventory_add x m) [] obs) i =
      (if with_id i obs = [] then None else Some (group_of i (with_id i obs)))"
  proof (cases "with_id i obs")
    case Nil
    then show ?thesis
      unfolding eq by (subst bt.fill(2) [OF bt.ok_empty]) (simp add: with_id_def)
  next
    case (Cons x ys)
    have "x \<in> set (with_id i obs)" using Cons by simp
    then have "mo_message_id x = i" by (simp add: with_id_def)
    with Cons show ?thesis
      unfolding eq using group_fill [of i "x # ys"]
      by (subst bt.fill(2) [OF bt.ok_empty]) (simp add: with_id_def)
  qed
qed

lemma observe_fold:
  "foldl observe_step (st, m) obs = (st @ take (8 - length st) (map mo_message_id obs), foldl (\<lambda>m x. inventory_add x m) m obs)"
proof (induction obs arbitrary: st m)
  case (Cons x obs)
  have "take (8 - length st) (y # ys) = (if length st < 8 then y # take (7 - length st) ys else [])"
    for y :: u16 and ys
    by (simp add: take_Cons')
  then show ?case using Cons by (auto simp: observe_step_def)
qed simp

lemma sum_words: "foldl (+) (a :: u32) (map (\<lambda>k. of_nat (f k)) ks) = a + of_nat (sum_list (map f ks))"
  by (induction ks arbitrary: a) (simp_all add: algebra_simps)

lemma those_map_some: "(\<And>x. x \<in> set xs \<Longrightarrow> f x = Some (g x)) \<Longrightarrow> those (map f xs) = Some (map g xs)"
  by (induction xs) simp_all

text \<open>\<open>from_observations\<close>, exactly.\<close>

lemma from_observations_exact:
  obtains groups where
    "from_observations cid obs = Some
       \<lparr>ci_capture_id = cid, ci_total_frames = of_nat (length obs), ci_message_count = of_nat (length obs),
        ci_unique = sorted_list_of_set (mo_message_id ` set obs), ci_startup = take 8 (map mo_message_id obs),
        ci_messages = map (\<lambda>i. summary_of i (group_of i (with_id i obs))) (sorted_list_of_set (mo_message_id ` set obs)),
        ci_inventory = groups\<rparr>"
    "bt_ok groups"
    "\<And>i. bt_get groups i = (if with_id i obs = [] then None else Some (group_of i (with_id i obs)))"
    "groups = map (\<lambda>i. (i, group_of i (with_id i obs))) (sorted_list_of_set (mo_message_id ` set obs))"
proof -
  let ?g = "foldl (\<lambda>m x. inventory_add x m) [] obs" and ?ids = "sorted_list_of_set (mo_message_id ` set obs)"
  note inventory = inventory_fold [of obs]
  have some: "bt_get ?g i = Some (group_of i (with_id i obs))" if "i \<in> set ?ids" for i
    using that by (auto simp: inventory(2) with_id_def filter_empty_conv)
  have "dom (bt_get ?g) = mo_message_id ` set obs"
    by (auto simp: inventory(2) with_id_def dom_def filter_empty_conv)
  with bt.entries_exact [OF inventory(1)] have "?g = map (\<lambda>i. (i, the (bt_get ?g i))) ?ids" by simp
  also have "\<dots> = map (\<lambda>i. (i, group_of i (with_id i obs))) ?ids"
    using some by (intro map_cong) simp_all
  finally have shape: "?g = map (\<lambda>i. (i, group_of i (with_id i obs))) ?ids" .
  have "total_observations ?g = of_nat (length obs)"
    unfolding total_observations_def bt_vals_def
    using sum_words [of 0 "\<lambda>i. length (with_id i obs)" ?ids] length_by_key [of mo_message_id obs]
    by (subst shape) (simp add: comp_def group_of_def with_id_def)
  moreover have "those (map (\<lambda>i. map_option (summary_of i) (bt_get ?g i)) ?ids)
      = Some (map (\<lambda>i. summary_of i (group_of i (with_id i obs))) ?ids)"
    using some by (intro those_map_some) simp
  ultimately show thesis
    using inventory(3) shape inventory(1,2)
    by (intro that [of ?g]) (simp_all add: from_observations_def observe_fold)
qed


section \<open>Byte differences\<close>

definition differs_at :: "bytes \<Rightarrow> bytes \<Rightarrow> nat \<Rightarrow> bool" where
  "differs_at a b i \<longleftrightarrow> i < max (length a) (length b) \<and> (length a \<le> i \<or> length b \<le> i \<or> a ! i \<noteq> b ! i)"

lemma diff_prefix_exact:
  assumes "q \<le> min (length a) (length b)" "take q a = take q b"
  defines "p \<equiv> diff_prefix a b q"
  shows "q \<le> p \<and> p \<le> min (length a) (length b) \<and> take p a = take p b \<and> (p = min (length a) (length b) \<or> a ! p \<noteq> b ! p)"
  unfolding p_def using assms(1,2)
proof (induction a b q rule: diff_prefix.induct)
  case (1 a b q)
  show ?case
  proof (cases "q < min (length a) (length b) \<and> a ! q = b ! q")
    case True
    then have "take (q + 1) a = take (q + 1) b" using 1(3) by (simp add: take_Suc_conv_app_nth)
    moreover have "diff_prefix a b q = diff_prefix a b (q + 1)" using True by (subst diff_prefix.simps) simp
    ultimately show ?thesis using 1(1) True by simp
  next
    case False
    then have "diff_prefix a b q = q" by (subst diff_prefix.simps) (rule if_not_P)
    with False 1(2,3) show ?thesis by auto
  qed
qed

lemma foldl_count: "foldl (\<lambda>n i. if P i then n + 1 else n) (c :: nat) xs = c + length (filter P xs)"
  by (induction xs arbitrary: c) auto

text \<open>
  The byte difference of two payloads counts exactly the positions where they differ, the
  tail of the longer one included; it names the first such position with everything before it
  equal, and names none exactly when the payloads are equal.
\<close>

lemma payload_diff_exact:
  "let d = payload_byte_diff a b in
     pd_different d = card {i. differs_at a b i}
     \<and> (case pd_first d of None \<Rightarrow> a = b
        | Some p \<Rightarrow> p = pd_prefix d \<and> differs_at a b p \<and> take p a = take p b)"
proof -
  let ?m = "min (length a) (length b)" and ?M = "max (length a) (length b)"
  define p where "p = diff_prefix a b 0"
  have p: "p \<le> ?m" "take p a = take p b" "p = ?m \<or> a ! p \<noteq> b ! p"
    using diff_prefix_exact [of 0 a b] by (simp_all add: p_def)
  have same: "a ! i = b ! i" if "i < p" for i using p(2) that by (metis nth_take)
  let ?D = "set (filter (\<lambda>i. a ! i \<noteq> b ! i) [p..<?m])"
  have split: "{i. differs_at a b i} = ?D \<union> {?m..<?M}"
    using same p(1) by (fastforce simp: differs_at_def not_less)
  have "card {i. differs_at a b i} = card ?D + card {?m..<?M}"
    unfolding split by (rule card_Un_disjoint) auto
  also have "card ?D = length (filter (\<lambda>i. a ! i \<noteq> b ! i) [p..<?m])"
    by (rule distinct_card) simp
  also have "card {?m..<?M} = (length a - length b) + (length b - length a)" by (simp add: max_def min_def)
  finally have count: "pd_different (payload_byte_diff a b) = card {i. differs_at a b i}"
    by (simp add: payload_byte_diff_def Let_def foldl_count flip: p_def)
  have "a = b" if "\<not> p < length a" "\<not> p < length b"
    using p(1,2) that by simp
  moreover have "differs_at a b p" if "p < length a \<or> p < length b"
    using p(1,3) that by (auto simp: differs_at_def min_def split: if_splits)
  ultimately show ?thesis
    using count p(2) by (simp add: payload_byte_diff_def Let_def flip: p_def)
qed

section \<open>What a comparison says\<close>

definition ids_in :: "message_observation list \<Rightarrow> u16 set" where
  "ids_in obs = mo_message_id ` set obs"

definition same_keys :: "(message_observation \<Rightarrow> 'k) \<Rightarrow> message_observation list \<Rightarrow> message_observation list \<Rightarrow> evidence_label" where
  "same_keys key xs ys = (if key ` set xs = key ` set ys then LCrossCaptureStable else LDivergent)"

text \<open>The row of an id, from the observations with that id in both captures.\<close>

definition expected_row :: "u16 \<Rightarrow> message_observation list \<Rightarrow> message_observation list \<Rightarrow> comparison_row" where
  "expected_row i xs ys =
     \<lparr>cr_message_id = i,
      cr_presence = (if xs \<noteq> [] \<and> ys \<noteq> [] then PresentBoth else if xs \<noteq> [] then AOnly else BOnly),
      cr_directions_a = tally mo_direction xs, cr_directions_b = tally mo_direction ys,
      cr_contexts_a = tally mo_context xs, cr_contexts_b = tally mo_context ys,
      cr_lengths_a = tally mo_payload_len xs, cr_lengths_b = tally mo_payload_len ys,
      cr_direction_status = (if xs \<noteq> [] \<and> ys \<noteq> [] then same_keys mo_direction xs ys else LUnknown),
      cr_context_status = (if xs \<noteq> [] \<and> ys \<noteq> [] then same_keys mo_context xs ys else LUnknown),
      cr_length_status = (if xs \<noteq> [] \<and> ys \<noteq> [] then same_keys mo_payload_len xs ys else LUnknown),
      cr_external_name = lookup_name i\<rparr>"

lemma tally_keys: "bt_keys (tally key xs) = sorted_list_of_set (key ` set xs)"
  by (simp add: bt_keys_def tally_def comp_def)

lemma compare_key_sets_tally: "compare_key_sets (tally key xs) (tally key ys) =
    (if key ` set xs = key ` set ys then LCrossCaptureStable else LDivergent)"
  using sorted_list_of_set_inject [of "key ` set xs" "key ` set ys"] by (auto simp: compare_key_sets_def tally_keys)

lemma tally_Nil [simp]: "tally key [] = []"
  by (simp add: tally_def)

lemma compare_row_expected:
  assumes "xs \<noteq> [] \<or> ys \<noteq> []"
  shows "compare_row i (if xs = [] then None else Some (group_of i xs)) (if ys = [] then None else Some (group_of i ys))
    = Some (expected_row i xs ys,
        if xs \<noteq> [] \<and> ys \<noteq> [] then [(i, payload_byte_diff (mo_payload (hd xs)) (mo_payload (hd ys)))] else [])"
  using assms
  by (cases xs; cases ys)
     (simp_all add: compare_row_def row_presence_def or_empty_def expected_row_def group_of_def same_keys_def
        compare_key_sets_tally Let_def)

lemma new_pairs_exact: "distinct (new_pairs seen ps) \<and> set (new_pairs seen ps) = set ps - set seen"
  by (induction seen ps rule: new_pairs.induct) auto

lemma enrich_ids: "map (\<lambda>p. (sp_first_id p, sp_second_id p)) (enrich_pairs_with_dirs ps a)
    = map (\<lambda>p. (sp_first_id p, sp_second_id p)) ps"
  by (simp add: enrich_pairs_with_dirs_def Let_def split: option.split)

lemma sequence_pair_ids:
  "map (\<lambda>p. (sp_first_id p, sp_second_id p)) (sequence_pairs_of a b)
     = new_pairs [] (observe_sequence_pairs (ci_startup a) @ observe_sequence_pairs (ci_startup b))"
  unfolding sequence_pairs_of_def enrich_ids by (simp add: comp_def case_prod_unfold)

lemma filter_sorted_set: "finite A \<Longrightarrow> filter P (sorted_list_of_set A) = sorted_list_of_set {x \<in> A. P x}"
  by (intro sorted_distinct_set_unique) (auto intro: sorted_wrt_filter)


lemma from_observations_fields:
  assumes "from_observations cid obs = Some A"
  shows "ci_unique A = sorted_list_of_set (ids_in obs)" "ci_startup A = take 8 (map mo_message_id obs)"
    "ci_total_frames A = of_nat (length obs)" "ci_message_count A = of_nat (length obs)"
    "ci_messages A = map (\<lambda>i. summary_of i (group_of i (with_id i obs))) (sorted_list_of_set (ids_in obs))"
    "ci_inventory A = map (\<lambda>i. (i, group_of i (with_id i obs))) (sorted_list_of_set (ids_in obs))"
    "bt_get (ci_inventory A) i = (if with_id i obs = [] then None else Some (group_of i (with_id i obs)))"
    "ci_capture_id A = cid"
proof -
  obtain g where g: "from_observations cid obs = Some
       \<lparr>ci_capture_id = cid, ci_total_frames = of_nat (length obs), ci_message_count = of_nat (length obs),
        ci_unique = sorted_list_of_set (mo_message_id ` set obs), ci_startup = take 8 (map mo_message_id obs),
        ci_messages = map (\<lambda>i. summary_of i (group_of i (with_id i obs))) (sorted_list_of_set (mo_message_id ` set obs)),
        ci_inventory = g\<rparr>"
    and "bt_ok g"
    and get: "\<And>i. bt_get g i = (if with_id i obs = [] then None else Some (group_of i (with_id i obs)))"
    and shape: "g = map (\<lambda>i. (i, group_of i (with_id i obs))) (sorted_list_of_set (mo_message_id ` set obs))"
    by (rule from_observations_exact [of cid obs], rule that)
  from g assms have A: "A = \<lparr>ci_capture_id = cid, ci_total_frames = of_nat (length obs), ci_message_count = of_nat (length obs),
        ci_unique = sorted_list_of_set (mo_message_id ` set obs), ci_startup = take 8 (map mo_message_id obs),
        ci_messages = map (\<lambda>i. summary_of i (group_of i (with_id i obs))) (sorted_list_of_set (mo_message_id ` set obs)),
        ci_inventory = g\<rparr>" by simp
  show "ci_unique A = sorted_list_of_set (ids_in obs)" "ci_startup A = take 8 (map mo_message_id obs)"
    "ci_total_frames A = of_nat (length obs)" "ci_message_count A = of_nat (length obs)"
    "ci_messages A = map (\<lambda>i. summary_of i (group_of i (with_id i obs))) (sorted_list_of_set (ids_in obs))"
    "ci_capture_id A = cid"
    by (simp_all add: A ids_in_def)
  show "ci_inventory A = map (\<lambda>i. (i, group_of i (with_id i obs))) (sorted_list_of_set (ids_in obs))"
    using shape by (simp add: A ids_in_def)
  show "bt_get (ci_inventory A) i = (if with_id i obs = [] then None else Some (group_of i (with_id i obs)))"
    using get by (simp add: A)
qed

lemma comparison_holds:
  assumes "from_observations ca xs = Some A" "from_observations cb ys = Some B"
  shows "\<exists>cmp. compare_captures A B = Some cmp
     \<and> cc_rows cmp = map (\<lambda>i. expected_row i (with_id i xs) (with_id i ys)) (sorted_list_of_set (ids_in xs \<union> ids_in ys))
     \<and> cc_sample_diffs cmp =
         map (\<lambda>i. (i, payload_byte_diff (mo_payload (hd (with_id i xs))) (mo_payload (hd (with_id i ys)))))
           (sorted_list_of_set (ids_in xs \<inter> ids_in ys))
     \<and> both_ids cmp = sorted_list_of_set (ids_in xs \<inter> ids_in ys)
     \<and> a_only_ids cmp = sorted_list_of_set (ids_in xs - ids_in ys)
     \<and> b_only_ids cmp = sorted_list_of_set (ids_in ys - ids_in xs)
     \<and> (cc_startup_status cmp = LCrossCaptureStable \<longleftrightarrow> take 8 (map mo_message_id xs) = take 8 (map mo_message_id ys))
     \<and> map (\<lambda>p. (sp_first_id p, sp_second_id p)) (cc_pairs cmp)
         = new_pairs [] (observe_sequence_pairs (take 8 (map mo_message_id xs))
             @ observe_sequence_pairs (take 8 (map mo_message_id ys)))"
proof -
  note ga = from_observations_fields(1,2,7) [OF assms(1)] and gb = from_observations_fields(1,2,7) [OF assms(2)]
  let ?ids = "sorted_list_of_set (ids_in xs \<union> ids_in ys)"
  have none: "with_id i obs = [] \<longleftrightarrow> i \<notin> ids_in obs" for i obs
    by (auto simp: with_id_def ids_in_def filter_empty_conv)
  have fin: "finite (ids_in obs)" for obs by (simp add: ids_in_def)
  have set_of: "foldl (\<lambda>s i. bs_insert i s) [] (sorted_list_of_set (ids_in obs)) = sorted_list_of_set (ids_in obs)" for obs
    using bs_insert_fold [of "{}" "\<lambda>i. i" "sorted_list_of_set (ids_in obs)"] fin by simp
  have union: "foldl (\<lambda>s i. bs_insert i s) (sorted_list_of_set (ids_in xs)) (sorted_list_of_set (ids_in ys)) = ?ids"
    using bs_insert_fold [of "ids_in xs" "\<lambda>i. i" "sorted_list_of_set (ids_in ys)"] fin by simp
  let ?row = "\<lambda>i. expected_row i (with_id i xs) (with_id i ys)"
  let ?diff = "\<lambda>i. (i, payload_byte_diff (mo_payload (hd (with_id i xs))) (mo_payload (hd (with_id i ys))))"
  let ?diffs = "\<lambda>i. if with_id i xs \<noteq> [] \<and> with_id i ys \<noteq> [] then [?diff i] else []"
  have rows: "those (map (\<lambda>i. compare_row i (bt_get (ci_inventory A) i) (bt_get (ci_inventory B) i)) ?ids)
      = Some (map (\<lambda>i. (?row i, ?diffs i)) ?ids)"
  proof (rule those_map_some)
    fix i
    assume "i \<in> set ?ids"
    then have "with_id i xs \<noteq> [] \<or> with_id i ys \<noteq> []" using fin none by simp
    then show "compare_row i (bt_get (ci_inventory A) i) (bt_get (ci_inventory B) i) = Some (?row i, ?diffs i)"
      unfolding ga(3) gb(3) by (rule compare_row_expected)
  qed
  have diffs: "concat (map ?diffs is) = map ?diff (filter (\<lambda>i. i \<in> ids_in xs \<and> i \<in> ids_in ys) is)" for "is"
    by (induction "is") (simp_all add: none)
  have sel: "map cr_message_id (filter (\<lambda>r. cr_presence r = p) (map ?row is))
      = filter (\<lambda>i. cr_presence (?row i) = p) is" for p "is"
    by (induction "is") (simp_all add: expected_row_def)
  obtain cmp where cmp: "compare_captures A B = Some cmp" "cc_rows cmp = map ?row ?ids"
      "cc_sample_diffs cmp = concat (map ?diffs ?ids)" "cc_pairs cmp = sequence_pairs_of A B"
      "cc_startup_status cmp = (if ci_startup A = ci_startup B then LCrossCaptureStable else LDivergent)"
    using rows unfolding compare_captures_def Let_def ga(1) gb(1) set_of union
    by (simp only: option.case map_map comp_def fst_conv snd_conv) simp
  have pres: "cr_presence (?row i) = (if i \<in> ids_in xs \<and> i \<in> ids_in ys then PresentBoth else if i \<in> ids_in xs then AOnly else BOnly)" for i
    by (simp add: expected_row_def none)
  have "{i \<in> ids_in xs \<union> ids_in ys. i \<in> ids_in xs \<and> i \<in> ids_in ys} = ids_in xs \<inter> ids_in ys"
    "{i \<in> ids_in xs \<union> ids_in ys. cr_presence (?row i) = PresentBoth} = ids_in xs \<inter> ids_in ys"
    "{i \<in> ids_in xs \<union> ids_in ys. cr_presence (?row i) = AOnly} = ids_in xs - ids_in ys"
    "{i \<in> ids_in xs \<union> ids_in ys. cr_presence (?row i) = BOnly} = ids_in ys - ids_in xs"
    unfolding pres by auto
  note sets = this
  show ?thesis
    using cmp(1) by (intro exI [of _ cmp] conjI)
      (simp_all only: cmp both_ids_def a_only_ids_def b_only_ids_def ids_with_def sel diffs filter_sorted_set fin
         finite_Un sets sequence_pair_ids ga(2) gb(2), simp)
qed


section \<open>Properties\<close>

text \<open>
  C28. The inventory of a capture is exact: building it never panics, it has one group per
  message id in ascending order, and a group holds precisely the observations with that id in
  capture order, with their number, the sorted set of captures, a counter per direction,
  context, length and hash, and the smallest and largest frame index.
\<close>

theorem inventory_exact:
  "case from_observations cid obs of
     None \<Rightarrow> False
   | Some A \<Rightarrow>
       ci_inventory A = map (\<lambda>i. (i, group_of i (with_id i obs))) (sorted_list_of_set (ids_in obs))
       \<and> ci_messages A = map (\<lambda>i. summary_of i (group_of i (with_id i obs))) (sorted_list_of_set (ids_in obs))
       \<and> ci_total_frames A = of_nat (length obs) \<and> ci_message_count A = of_nat (length obs)
       \<and> ci_startup A = take 8 (map mo_message_id obs)"
proof -
  obtain A where "from_observations cid obs = Some A"
    by (rule from_observations_exact [of cid obs], rule that)
  then show ?thesis using from_observations_fields(2-6) by simp
qed

text \<open>
  The comparison of two captures is exact: it never panics, its rows are the ids of either
  capture in ascending order with the presence, counters and verdicts of the observations they
  have, the three id lists are intersection and differences, a sample difference is given for
  every shared id, and every pair of neighbours in a startup sequence is listed once.
\<close>

lemma comparison_exact:
  "\<exists>A B cmp. from_observations ca xs = Some A \<and> from_observations cb ys = Some B
     \<and> compare_captures A B = Some cmp
     \<and> cc_rows cmp = map (\<lambda>i. expected_row i (with_id i xs) (with_id i ys)) (sorted_list_of_set (ids_in xs \<union> ids_in ys))
     \<and> cc_sample_diffs cmp =
         map (\<lambda>i. (i, payload_byte_diff (mo_payload (hd (with_id i xs))) (mo_payload (hd (with_id i ys)))))
           (sorted_list_of_set (ids_in xs \<inter> ids_in ys))
     \<and> both_ids cmp = sorted_list_of_set (ids_in xs \<inter> ids_in ys)
     \<and> a_only_ids cmp = sorted_list_of_set (ids_in xs - ids_in ys)
     \<and> b_only_ids cmp = sorted_list_of_set (ids_in ys - ids_in xs)
     \<and> (cc_startup_status cmp = LCrossCaptureStable \<longleftrightarrow> take 8 (map mo_message_id xs) = take 8 (map mo_message_id ys))
     \<and> distinct (map (\<lambda>p. (sp_first_id p, sp_second_id p)) (cc_pairs cmp))
     \<and> (\<lambda>p. (sp_first_id p, sp_second_id p)) ` set (cc_pairs cmp)
         = set (observe_sequence_pairs (take 8 (map mo_message_id xs)))
           \<union> set (observe_sequence_pairs (take 8 (map mo_message_id ys)))"
proof -
  obtain A where A: "from_observations ca xs = Some A"
    by (rule from_observations_exact [of ca xs], rule that)
  obtain B where B: "from_observations cb ys = Some B"
    by (rule from_observations_exact [of cb ys], rule that)
  from comparison_holds [OF A B] obtain cmp where cmp: "compare_captures A B = Some cmp"
      "cc_rows cmp = map (\<lambda>i. expected_row i (with_id i xs) (with_id i ys)) (sorted_list_of_set (ids_in xs \<union> ids_in ys))"
      "cc_sample_diffs cmp =
         map (\<lambda>i. (i, payload_byte_diff (mo_payload (hd (with_id i xs))) (mo_payload (hd (with_id i ys)))))
           (sorted_list_of_set (ids_in xs \<inter> ids_in ys))"
      "both_ids cmp = sorted_list_of_set (ids_in xs \<inter> ids_in ys)"
      "a_only_ids cmp = sorted_list_of_set (ids_in xs - ids_in ys)"
      "b_only_ids cmp = sorted_list_of_set (ids_in ys - ids_in xs)"
      "cc_startup_status cmp = LCrossCaptureStable \<longleftrightarrow> take 8 (map mo_message_id xs) = take 8 (map mo_message_id ys)"
      "map (\<lambda>p. (sp_first_id p, sp_second_id p)) (cc_pairs cmp)
         = new_pairs [] (observe_sequence_pairs (take 8 (map mo_message_id xs))
             @ observe_sequence_pairs (take 8 (map mo_message_id ys)))"
    by (elim exE conjE)
  let ?ps = "observe_sequence_pairs (take 8 (map mo_message_id xs)) @ observe_sequence_pairs (take 8 (map mo_message_id ys))"
  have "set (map (\<lambda>p. (sp_first_id p, sp_second_id p)) (cc_pairs cmp)) = set ?ps"
    using new_pairs_exact [of "[]" ?ps] by (simp only: cmp(8)) simp
  then have "(\<lambda>p. (sp_first_id p, sp_second_id p)) ` set (cc_pairs cmp) = set ?ps" by simp
  with A B cmp new_pairs_exact [of "[]" ?ps] show ?thesis
    by (intro exI [of _ A] exI [of _ B] exI [of _ cmp] conjI) (simp_all only: cmp(8) set_append)
qed

end
