(* ===== verification/Fixture_Loader.thy ===== *)
theory Fixture_Loader
  imports Session_Verify Multi_Capture Message_Inventory
begin

text \<open>
  From fixture files to reports: \<open>network/src/multi_capture_verify.rs\<close> and
  \<open>message_inventory_verify.rs\<close>. A fixture has the key, the nonce and the frames of a session; it is
  run through the offline pipeline, and the decoded frames become a validation report or an
  inventory. A manifest lists captures. The JSON parsers, the files by their path (\<open>None\<close>: there is
  none; \<open>Some None\<close>: reading it fails), \<open>Path::parent\<close> and SHA-256 are parameters. An outer \<open>None\<close> is a
  panic or a pipeline that does not return. The theory shows what a report on a genuine session
  says, and which of its statements no input can change.
\<close>

section \<open>Paths and the pipeline\<close>

text \<open>\<open>base.join(p)\<close> on Unix; an absolute path replaces the base.\<close>

definition resolve_path :: "string \<Rightarrow> string \<Rightarrow> string" where
  "resolve_path base p =
     (if is_prefix ''/'' p then p
      else if base = [] then p
      else if last base = CHR ''/'' then base @ p else base @ ''/'' @ p)"

definition parent_or_dot :: "(string \<Rightarrow> string option) \<Rightarrow> string \<Rightarrow> string" where
  "parent_or_dot parent path = (case parent path of None \<Rightarrow> ''.'' | Some p \<Rightarrow> p)"

text \<open>A fresh pipeline over the whole stream in the default chunks.\<close>

definition run_whole_fixture ::
  "aead_prims \<Rightarrow> (pipeline_error \<Rightarrow> 'e) \<Rightarrow> bytes \<Rightarrow> bytes \<Rightarrow> bytes \<Rightarrow> nonce_direction list
   \<Rightarrow> ('e + decoded_frame list \<times> pipeline) option" where
  "run_whole_fixture P wrap key sn stream directions =
     (case pipeline_new key sn of
        Inl e \<Rightarrow> Some (Inl (wrap e))
      | Inr p \<Rightarrow>
          (case run_directed P mock_read p (mock_new (chunk_stream stream DEFAULT_PIPELINE_CHUNK_SIZES)) directions of
             None \<Rightarrow> None
           | Some (Inl e, _, _) \<Rightarrow> Some (Inl (wrap e))
           | Some (Inr decoded, p, _) \<Rightarrow> Some (Inr (decoded, p))))"

section \<open>\<open>multi_capture_verify.rs\<close>\<close>

datatype capture_verify_error =
    XvFileNotFound string
  | XvIo
  | XvBadJson
  | XvBadHex string nat
  | XvEmptyField string
  | XvBadFieldLen string nat nat
  | XvBadDirection string
  | XvEmptyWire
  | XvPipeline pipeline_error
  | XvMissingFixture string

record manifest_capture =
  mf_capture_id :: string
  mf_status :: string
  mf_pipeline_fixture :: "string option"
  mf_independent :: "bool option"
  mf_notes :: "string option"

record manifest_file =
  mn_notes :: "string option"
  mn_captures :: "manifest_capture list"

record fixture_frame =
  xf_direction :: string
  xf_hex :: "string option"
  xf_expected_msg_id :: "u16 option"
  xf_id_hex :: "string option"

record fixture_file =
  xi_capture :: "string option"
  xi_key_hex :: string
  xi_nonce_hex :: string
  xi_frames :: "fixture_frame list"

definition xv_decode_hex :: "string \<Rightarrow> string \<Rightarrow> capture_verify_error + bytes" where
  "xv_decode_hex = decode_field XvEmptyField XvBadHex"

definition xv_parse_direction :: "string \<Rightarrow> capture_verify_error + nonce_direction" where
  "xv_parse_direction = direction_of_text XvBadDirection"

definition parse_id_hex :: "string \<Rightarrow> u16 option" where
  "parse_id_hex s =
     (let t = strip_leading [''0X''] (strip_leading [''0x''] (str_trim s))
      in case parse_uint 16 65535 t of Inl _ \<Rightarrow> None | Inr n \<Rightarrow> Some (of_nat n))"

text \<open>The body length of a frame that says it is encrypted.\<close>

definition encrypted_body_len :: "bytes \<Rightarrow> nat list" where
  "encrypted_body_len raw =
     (if length raw \<ge> 6 \<and> raw ! 0 = 1 \<and> raw ! 1 = 1 then [unat (u32_from_be_bytes (slice_of 2 6 raw))] else [])"

text \<open>Directions, stream, encrypted body lengths and id hints of the frames with wire material.\<close>

fun xv_collect ::
  "fixture_frame list \<Rightarrow> capture_verify_error + nonce_direction list \<times> bytes \<times> nat list \<times> u16 option list" where
  "xv_collect [] = Inr ([], [], [], [])"
| "xv_collect (f # fs) =
     (let hex = hex_or_empty (xf_hex f) in
      if hex = [] then xv_collect fs
      else bind_res (xv_decode_hex ''frame_hex'' hex) (\<lambda>raw.
           bind_res (xv_parse_direction (xf_direction f)) (\<lambda>d.
             let hint = (case xf_expected_msg_id f of
                   Some i \<Rightarrow> Some i
                 | None \<Rightarrow> (case xf_id_hex f of None \<Rightarrow> None | Some t \<Rightarrow> parse_id_hex t))
             in map_sum id (\<lambda>(ds, stream, lens, hints).
                  (d # ds, raw @ stream, encrypted_body_len raw @ lens, hint # hints)) (xv_collect fs))))"

text \<open>What a message id adds to the report.\<close>

definition note_message_id :: "u16 \<Rightarrow> validation_report \<Rightarrow> validation_report" where
  "note_message_id i r =
     (let r = r\<lparr>vr_message_ids := vr_message_ids r @ [i]\<rparr>;
          r = (if class_name (classify i) = None then r\<lparr>vr_unknown_ids := vr_unknown_ids r @ [i]\<rparr> else r)
      in if i = 0xFA then r\<lparr>vr_fa_count := vr_fa_count r + 1\<rparr>
         else if i = 0xFB then r\<lparr>vr_fb_count := vr_fb_count r + 1\<rparr> else r)"

definition xv_frame :: "validation_report \<Rightarrow> decoded_frame \<times> nonce_direction \<times> u16 option \<Rightarrow> validation_report" where
  "xv_frame r x =
     (case x of (frame, dir, hint) \<Rightarrow>
        let r = (case dir of
              ClientToServer \<Rightarrow> r\<lparr>vr_client_frames := vr_client_frames r + 1\<rparr>
            | ServerToClient \<Rightarrow> r\<lparr>vr_server_frames := vr_server_frames r + 1\<rparr>)
        in case frame of
             DClear i _ _ \<Rightarrow> note_message_id i (r\<lparr>vr_clear := vr_clear r + 1\<rparr>)
           | DDecrypted i _ _ _ \<Rightarrow>
               (let r = r\<lparr>vr_encrypted := vr_encrypted r + 1, vr_success := vr_success r + 1\<rparr>
                in case (case i of Some j \<Rightarrow> Some j | None \<Rightarrow> hint) of None \<Rightarrow> r | Some j \<Rightarrow> note_message_id j r)
           | DOpaque _ _ \<Rightarrow> r\<lparr>vr_framing := False, vr_gcm := False\<rparr>)"

definition decrypted_in :: "nonce_direction \<Rightarrow> (nonce_direction \<times> decoded_frame) list \<Rightarrow> nat" where
  "decrypted_in d xs = length (filter (\<lambda>(e, f). e = d \<and> decoded_is_decrypted f) xs)"

text \<open>The variables before the loop. The last three statements and that on associated data are constants.\<close>

definition xv_start :: "string \<Rightarrow> bool \<Rightarrow> nat list \<Rightarrow> nat \<Rightarrow> validation_report" where
  "xv_start capture independent lens n =
     \<lparr>vr_capture_id = capture, vr_independent = independent, vr_frames = of_nat n, vr_clear = 0,
      vr_encrypted = 0, vr_success = 0, vr_failed = 0, vr_framing = True, vr_nonce_state = True, vr_gcm = True,
      vr_message_ids = [], vr_startup = [], vr_client_frames = 0, vr_server_frames = 0, vr_aad_empty = Some True,
      vr_body_lengths = lens, vr_unknown_ids = [], vr_fa_count = 0, vr_fb_count = 0, vr_record_ok = Some True,
      vr_c2s_xor = Some True, vr_s2c_identity = Some True\<rparr>"

text \<open>
  The report. Whether decryption failed is asked after the loop, which counts both in one step.
\<close>

definition xv_report ::
  "string \<Rightarrow> bool \<Rightarrow> nat list \<Rightarrow> (decoded_frame \<times> nonce_direction \<times> u16 option) list \<Rightarrow> u64 \<times> u64 \<Rightarrow> validation_report" where
  "xv_report capture independent lens xs counters =
     (let r = foldl xv_frame (xv_start capture independent lens (length xs)) xs;
          r = (if vr_success r \<noteq> vr_encrypted r
               then r\<lparr>vr_failed := (if vr_encrypted r < vr_success r then 0 else vr_encrypted r - vr_success r),
                      vr_gcm := False\<rparr> else r);
          seen = map (\<lambda>(f, d, h). (d, f)) xs
      in r\<lparr>vr_nonce_state := (fst counters = of_nat (decrypted_in ClientToServer seen)
              \<and> snd counters = of_nat (decrypted_in ServerToClient seen)),
           vr_startup := extract_startup_sequence (vr_message_ids r),
           vr_unknown_ids := remdups_adj (sort (vr_unknown_ids r)),
           vr_gcm := (vr_gcm r \<and> vr_failed r = 0 \<and> vr_encrypted r > 0)\<rparr>)"

definition xv_report_of_file ::
  "aead_prims \<Rightarrow> fixture_file \<Rightarrow> bool \<Rightarrow> (capture_verify_error + validation_report) option" where
  "xv_report_of_file P file independent =
     (case bind_res (sized_field XvBadFieldLen ''session_key_hex'' 16 (xv_decode_hex ''session_key_hex'' (xi_key_hex file))) (\<lambda>key.
           bind_res (sized_field XvBadFieldLen ''session_nonce_hex'' 12
             (xv_decode_hex ''session_nonce_hex'' (xi_nonce_hex file))) (\<lambda>sn.
           bind_res (xv_collect (xi_frames file)) (\<lambda>(directions, stream, lens, hints).
             if directions = [] then Inl XvEmptyWire else Inr (key, sn, directions, stream, lens, hints)))) of
        Inl e \<Rightarrow> Some (Inl e)
      | Inr (key, sn, directions, stream, lens, hints) \<Rightarrow>
          map_option (map_sum id (\<lambda>(decoded, p).
            xv_report (capture_or_unknown (xi_capture file)) independent lens
              (zip decoded (zip directions hints)) (session_counters (pl_session p))))
            (run_whole_fixture P XvPipeline key sn stream directions))"

definition xv_report_of_path ::
  "aead_prims \<Rightarrow> (string \<Rightarrow> fixture_file option) \<Rightarrow> (string \<Rightarrow> string option option) \<Rightarrow> string \<Rightarrow> bool
   \<Rightarrow> (capture_verify_error + validation_report) option" where
  "xv_report_of_path P json files path independent =
     (case bind_res (load_text XvFileNotFound XvIo path (files path)) (from_json XvBadJson json) of
        Inl e \<Rightarrow> Some (Inl e)
      | Inr f \<Rightarrow> xv_report_of_file P f independent)"

text \<open>The dash of the notes, U+2014 in UTF-8.\<close>

definition note_dash :: string where
  "note_dash = [CHR 0xE2, CHR 0x80, CHR 0x94]"

text \<open>One entry of the manifest: the reports and the notes so far.\<close>

definition xv_entry ::
  "aead_prims \<Rightarrow> (string \<Rightarrow> fixture_file option) \<Rightarrow> (string \<Rightarrow> string option option) \<Rightarrow> string
   \<Rightarrow> validation_report list \<times> string list \<Rightarrow> manifest_capture
   \<Rightarrow> (capture_verify_error + validation_report list \<times> string list) option" where
  "xv_entry P json files base s entry =
     (case s of (reports, notes) \<Rightarrow>
        if mf_status entry = ''pipeline_ready'' then
          (case mf_pipeline_fixture entry of
             None \<Rightarrow> Some (Inl (XvMissingFixture (mf_capture_id entry)))
           | Some rel \<Rightarrow>
               let path = resolve_path base rel in
               if files path = None
               then Some (Inr (reports, notes @ [''capture '' @ mf_capture_id entry
                      @ '' listed pipeline_ready but fixture missing at '' @ path]))
               else map_option (map_sum id (\<lambda>report.
                      (reports @ [if vr_capture_id report = ''unknown''
                         then report\<lparr>vr_capture_id := mf_capture_id entry\<rparr> else report], notes)))
                    (xv_report_of_path P json files path
                       (case mf_independent entry of None \<Rightarrow> True | Some b \<Rightarrow> b)))
        else if mf_status entry = ''awaiting_fixture'' \<or> mf_status entry = ''catalog_only'' then
          Some (Inr (reports, notes @ [''capture '' @ mf_capture_id entry @ '' status='' @ mf_status entry
            @ '' '' @ note_dash @ '' not pipeline-ready''
            @ (case mf_notes entry of None \<Rightarrow> [] | Some n \<Rightarrow> '' ('' @ n @ '')'')]))
        else
          Some (Inr (reports, notes @ [''capture '' @ mf_capture_id entry @ '' has unknown status '' @ [CHR 0x27]
            @ mf_status entry @ [CHR 0x27]])))"

fun xv_entries ::
  "aead_prims \<Rightarrow> (string \<Rightarrow> fixture_file option) \<Rightarrow> (string \<Rightarrow> string option option) \<Rightarrow> string
   \<Rightarrow> validation_report list \<times> string list \<Rightarrow> manifest_capture list
   \<Rightarrow> (capture_verify_error + validation_report list \<times> string list) option" where
  "xv_entries P json files base s [] = Some (Inr s)"
| "xv_entries P json files base s (entry # entries) =
     (case xv_entry P json files base s entry of
        None \<Rightarrow> None
      | Some (Inl e) \<Rightarrow> Some (Inl e)
      | Some (Inr s') \<Rightarrow> xv_entries P json files base s' entries)"

definition xv_summary ::
  "(string \<Rightarrow> string) \<Rightarrow> validation_report list \<times> string list \<Rightarrow> multi_summary" where
  "xv_summary dbg s =
     (case s of (reports, notes) \<Rightarrow>
        let summary = mc_compare_captures dbg reports;
            summary = summary\<lparr>ms_notes := ms_notes summary @ notes\<rparr>
        in if ms_count summary < 2 \<and> ms_status summary = VerifiedMultiCapture
           then summary\<lparr>ms_status := ReadyForExternalCapture\<rparr> else summary)"

definition xv_verify_manifest ::
  "aead_prims \<Rightarrow> (string \<Rightarrow> string) \<Rightarrow> (string \<Rightarrow> fixture_file option) \<Rightarrow> (string \<Rightarrow> string option option) \<Rightarrow> string
   \<Rightarrow> manifest_file \<Rightarrow> (capture_verify_error + multi_summary) option" where
  "xv_verify_manifest P dbg json files base manifest =
     map_option (map_sum id (xv_summary dbg))
       (xv_entries P json files base ([], case mn_notes manifest of None \<Rightarrow> [] | Some n \<Rightarrow> [n]) (mn_captures manifest))"

definition xv_verify_path ::
  "aead_prims \<Rightarrow> (string \<Rightarrow> string) \<Rightarrow> (string \<Rightarrow> manifest_file option) \<Rightarrow> (string \<Rightarrow> fixture_file option)
   \<Rightarrow> (string \<Rightarrow> string option) \<Rightarrow> (string \<Rightarrow> string option option) \<Rightarrow> string \<Rightarrow> (capture_verify_error + multi_summary) option" where
  "xv_verify_path P dbg manifest_json json parent files path =
     (case bind_res (load_text XvFileNotFound XvIo path (files path)) (from_json XvBadJson manifest_json) of
        Inl e \<Rightarrow> Some (Inl e)
      | Inr m \<Rightarrow> xv_verify_manifest P dbg json files (parent_or_dot parent path) m)"

definition xv_verify_single ::
  "aead_prims \<Rightarrow> (string \<Rightarrow> string) \<Rightarrow> (string \<Rightarrow> fixture_file option) \<Rightarrow> (string \<Rightarrow> string option option) \<Rightarrow> string
   \<Rightarrow> (capture_verify_error + multi_summary) option" where
  "xv_verify_single P dbg json files path =
     map_option (map_sum id (\<lambda>r. mc_compare_captures dbg [r])) (xv_report_of_path P json files path True)"

section \<open>\<open>message_inventory_verify.rs\<close>\<close>

datatype inventory_verify_error =
    IvFileNotFound string
  | IvIo
  | IvBadJson
  | IvBadHex string nat
  | IvEmptyField string
  | IvBadFieldLen string nat nat
  | IvBadDirection string
  | IvEmptyWire
  | IvPipeline pipeline_error
  | IvNeedTwoCaptures

record inventory_manifest_capture =
  im_capture_id :: string
  im_status :: string
  im_pipeline_fixture :: "string option"

record inventory_fixture_frame =
  if_direction :: string
  if_hex :: "string option"
  if_offset :: "u64 option"
  if_order :: "u64 option"
  if_expected_msg_id :: "u16 option"

record inventory_fixture_file =
  ix_capture :: "string option"
  ix_key_hex :: string
  ix_nonce_hex :: string
  ix_frames :: "inventory_fixture_frame list"

definition iv_decode_hex :: "string \<Rightarrow> string \<Rightarrow> inventory_verify_error + bytes" where
  "iv_decode_hex = decode_field IvEmptyField IvBadHex"

definition iv_parse_direction :: "string \<Rightarrow> inventory_verify_error + nonce_direction" where
  "iv_parse_direction = direction_of_text IvBadDirection"

fun iv_collect ::
  "inventory_fixture_frame list
   \<Rightarrow> inventory_verify_error + nonce_direction list \<times> bytes \<times> (u64 option \<times> u64 option \<times> u16 option) list" where
  "iv_collect [] = Inr ([], [], [])"
| "iv_collect (f # fs) =
     (let hex = hex_or_empty (if_hex f) in
      if hex = [] then iv_collect fs
      else bind_res (iv_decode_hex ''frame_hex'' hex) (\<lambda>raw.
           bind_res (iv_parse_direction (if_direction f)) (\<lambda>d.
             map_sum id (\<lambda>(ds, stream, meta).
                (d # ds, raw @ stream, (if_offset f, if_order f, if_expected_msg_id f) # meta)) (iv_collect fs))))"

definition iv_observations ::
  "(bytes \<Rightarrow> bytes) \<Rightarrow> string \<Rightarrow> ((decoded_frame \<times> nonce_direction) \<times> u64 option \<times> u64 option \<times> u16 option) list
   \<Rightarrow> message_observation list" where
  "iv_observations sha capture xs =
     List.map_filter (\<lambda>(i, (frame, dir), off, order, hint). from_decoded sha capture (of_nat i) dir frame off order)
       (zip [0..<length xs] xs)"

definition iv_inventory_of_file ::
  "aead_prims \<Rightarrow> (bytes \<Rightarrow> bytes) \<Rightarrow> inventory_fixture_file \<Rightarrow> (inventory_verify_error + capture_inventory) option" where
  "iv_inventory_of_file P sha file =
     (case bind_res (sized_field IvBadFieldLen ''session_key_hex'' 16 (iv_decode_hex ''session_key_hex'' (ix_key_hex file))) (\<lambda>key.
           bind_res (sized_field IvBadFieldLen ''session_nonce_hex'' 12
             (iv_decode_hex ''session_nonce_hex'' (ix_nonce_hex file))) (\<lambda>sn.
           bind_res (iv_collect (ix_frames file)) (\<lambda>(directions, stream, meta).
             if directions = [] then Inl IvEmptyWire else Inr (key, sn, directions, stream, meta)))) of
        Inl e \<Rightarrow> Some (Inl e)
      | Inr (key, sn, directions, stream, meta) \<Rightarrow>
          (case run_whole_fixture P IvPipeline key sn stream directions of
             None \<Rightarrow> None
           | Some (Inl e) \<Rightarrow> Some (Inl e)
           | Some (Inr (decoded, p)) \<Rightarrow>
               (let capture = capture_or_unknown (ix_capture file)
                in map_option Inr (from_observations capture
                     (iv_observations sha capture (zip (zip decoded directions) meta))))))"

definition iv_inventory_of_path ::
  "aead_prims \<Rightarrow> (bytes \<Rightarrow> bytes) \<Rightarrow> (string \<Rightarrow> inventory_fixture_file option) \<Rightarrow> (string \<Rightarrow> string option option) \<Rightarrow> string
   \<Rightarrow> (inventory_verify_error + capture_inventory) option" where
  "iv_inventory_of_path P sha json files path =
     (case bind_res (load_text IvFileNotFound IvIo path (files path)) (from_json IvBadJson json) of
        Inl e \<Rightarrow> Some (Inl e)
      | Inr f \<Rightarrow> iv_inventory_of_file P sha f)"

fun iv_captures ::
  "aead_prims \<Rightarrow> (bytes \<Rightarrow> bytes) \<Rightarrow> (string \<Rightarrow> inventory_fixture_file option) \<Rightarrow> (string \<Rightarrow> string option option) \<Rightarrow> string
   \<Rightarrow> capture_inventory list \<Rightarrow> inventory_manifest_capture list
   \<Rightarrow> (inventory_verify_error + capture_inventory list) option" where
  "iv_captures P sha json files base acc [] = Some (Inr acc)"
| "iv_captures P sha json files base acc (entry # entries) =
     (if im_status entry \<noteq> ''pipeline_ready'' then iv_captures P sha json files base acc entries
      else case im_pipeline_fixture entry of
          None \<Rightarrow> Some (Inl (IvFileNotFound (im_capture_id entry)))
        | Some rel \<Rightarrow>
            (case iv_inventory_of_path P sha json files (resolve_path base rel) of
               None \<Rightarrow> None
             | Some (Inl e) \<Rightarrow> Some (Inl e)
             | Some (Inr cap) \<Rightarrow>
                 iv_captures P sha json files base
                   (acc @ [if ci_capture_id cap = ''unknown'' then cap\<lparr>ci_capture_id := im_capture_id entry\<rparr> else cap])
                   entries))"

record inventory_run =
  iw_captures :: "capture_inventory list"
  iw_comparison :: capture_comparison
  iw_safe_export :: "safe_capture list \<times> safe_comparison option"

definition iv_run_of_captures :: "capture_inventory list \<Rightarrow> (inventory_verify_error + inventory_run) option" where
  "iv_run_of_captures captures =
     (if length captures < 2 then Some (Inl IvNeedTwoCaptures)
      else map_option (\<lambda>cmp. Inr \<lparr>iw_captures = captures, iw_comparison = cmp,
             iw_safe_export = inventory_safe_export captures (Some cmp)\<rparr>)
           (compare_captures (captures ! 0) (captures ! 1)))"

definition iv_run_from_manifest ::
  "aead_prims \<Rightarrow> (bytes \<Rightarrow> bytes) \<Rightarrow> (string \<Rightarrow> inventory_manifest_capture list option)
   \<Rightarrow> (string \<Rightarrow> inventory_fixture_file option) \<Rightarrow> (string \<Rightarrow> string option) \<Rightarrow> (string \<Rightarrow> string option option) \<Rightarrow> string
   \<Rightarrow> (inventory_verify_error + inventory_run) option" where
  "iv_run_from_manifest P sha manifest_json json parent files path =
     (case bind_res (load_text IvFileNotFound IvIo path (files path)) (from_json IvBadJson manifest_json) of
        Inl e \<Rightarrow> Some (Inl e)
      | Inr entries \<Rightarrow>
          (case iv_captures P sha json files (parent_or_dot parent path) [] entries of
             None \<Rightarrow> None
           | Some (Inl e) \<Rightarrow> Some (Inl e)
           | Some (Inr captures) \<Rightarrow> iv_run_of_captures captures))"

section \<open>The text of an inventory run\<close>

text \<open>\<open>{:<n}\<close> counts characters, \<open>truncate\<close> counts bytes and panics inside a character.\<close>

definition pad_right :: "nat \<Rightarrow> string \<Rightarrow> string" where
  "pad_right n s = s @ replicate (n - length (str_chars s)) CHR '' ''"

definition truncate_text :: "string \<Rightarrow> nat \<Rightarrow> string option" where
  "truncate_text s n =
     (if length s \<le> n then Some s
      else if is_continuation (s ! (n - 1)) then None
      else Some (take (n - 1) s @ [CHR 0xE2, CHR 0x80, CHR 0xA6]))"

definition format_id_list :: "u16 list \<Rightarrow> string" where
  "format_id_list ids = (if ids = [] then ''(none)'' else join_with '', '' (map fmt_msg_id ids))"

definition short_dir :: "string \<Rightarrow> string" where
  "short_dir d =
     (if d = ''client_to_server'' then ''C'' @ right_arrow @ ''S''
      else if d = ''server_to_client'' then ''S'' @ right_arrow @ ''C'' else d)"

definition format_dirs :: "(string, u32) btree \<Rightarrow> (string, u32) btree \<Rightarrow> presence \<Rightarrow> string" where
  "format_dirs a b p =
     (let da = join_with '','' (map short_dir (bt_keys a)); db = join_with '','' (map short_dir (bt_keys b))
      in case p of
           PresentBoth \<Rightarrow> if set (bt_keys a) = set (bt_keys b) then da else ''A:'' @ da @ ''|B:'' @ db
         | AOnly \<Rightarrow> da
         | BOnly \<Rightarrow> db)"

text \<open>\<open>format_ctx\<close> and \<open>format_lens\<close>, over the type of the keys.\<close>

definition format_keys :: "('k \<Rightarrow> nat) \<Rightarrow> ('k, u32) btree \<Rightarrow> ('k, u32) btree \<Rightarrow> presence \<Rightarrow> string" where
  "format_keys num a b p =
     (let ka = join_with '','' (map (\<lambda>k. show_nat (num k)) (bt_keys a));
          kb = join_with '','' (map (\<lambda>k. show_nat (num k)) (bt_keys b))
      in case p of
           PresentBoth \<Rightarrow> if set (bt_keys a) = set (bt_keys b) then ka else ''div''
         | AOnly \<Rightarrow> ka
         | BOnly \<Rightarrow> kb)"

definition yes_no :: "bool \<Rightarrow> string" where
  "yes_no b = (if b then ''yes'' else ''no'')"

definition table_line :: "string \<Rightarrow> string \<Rightarrow> string \<Rightarrow> string \<Rightarrow> string \<Rightarrow> string \<Rightarrow> string \<Rightarrow> string" where
  "table_line i a b dirs ctxs lens status =
     writeln (pad_right 8 i @ '' '' @ pad_right 5 a @ '' '' @ pad_right 5 b @ '' '' @ pad_right 22 dirs @ '' ''
       @ pad_right 14 ctxs @ '' '' @ pad_right 14 lens @ '' '' @ status)"

definition row_status :: "presence \<Rightarrow> evidence_label \<Rightarrow> string" where
  "row_status p l = (if p = PresentBoth then evidence_label_str l else ''n/a'')"

definition show_row :: "comparison_row \<Rightarrow> string option" where
  "show_row r =
     (let p = cr_presence r in
      case truncate_text (format_dirs (cr_directions_a r) (cr_directions_b r) p) 22 of
        None \<Rightarrow> None
      | Some dirs \<Rightarrow>
          (case truncate_text (format_keys unat (cr_contexts_a r) (cr_contexts_b r) p) 14 of
             None \<Rightarrow> None
           | Some ctxs \<Rightarrow>
               (case truncate_text (format_keys id (cr_lengths_a r) (cr_lengths_b r) p) 14 of
                  None \<Rightarrow> None
                | Some lens \<Rightarrow>
                    Some (table_line (fmt_msg_id (cr_message_id r))
                      (yes_no (p = PresentBoth \<or> p = AOnly)) (yes_no (p = PresentBoth \<or> p = BOnly))
                      dirs ctxs lens
                      (row_status p (cr_direction_status r) @ ''/'' @ row_status p (cr_context_status r) @ ''/''
                        @ row_status p (cr_length_status r))))))"

definition stable_row :: "comparison_row \<Rightarrow> bool" where
  "stable_row r \<longleftrightarrow> cr_presence r = PresentBoth \<and> cr_direction_status r = LCrossCaptureStable
     \<and> cr_context_status r = LCrossCaptureStable \<and> cr_length_status r = LCrossCaptureStable"

definition ids_where :: "(comparison_row \<Rightarrow> bool) \<Rightarrow> capture_comparison \<Rightarrow> u16 list" where
  "ids_where p cmp = map cr_message_id (filter p (cc_rows cmp))"

definition startup_text :: "u16 list \<Rightarrow> string" where
  "startup_text ids = ''  '' @ join_with ('' '' @ right_arrow @ '' '') (map fmt_msg_id ids)"

definition pair_text :: "sequence_pair \<Rightarrow> string" where
  "pair_text p =
     ''  '' @ fmt_msg_id (sp_first_id p) @ '' ('' @ sp_first_direction p @ '') '' @ right_arrow @ '' ''
     @ fmt_msg_id (sp_second_id p) @ '' ('' @ sp_second_direction p @ '')  ['' @ evidence_label_str (sp_label p) @ '']''"

definition name_lines :: "comparison_row \<Rightarrow> string" where
  "name_lines r =
     (case cr_external_name r of
        None \<Rightarrow> []
      | Some name \<Rightarrow> writeln (''  '' @ fmt_msg_id (cr_message_id r) @ '' '' @ right_arrow @ '' '' @ name @ '' [''
          @ evidence_label_str LExternalReference @ '']''))"

definition show_inventory_run :: "inventory_run \<Rightarrow> string option" where
  "show_inventory_run w =
     (let cmp = iw_comparison w;
          all_ids = foldl (\<lambda>s r. bs_insert (cr_message_id r) s) [] (cc_rows cmp)
      in map_option (\<lambda>rows.
           concat (map writeln
             ([''M3.1 MESSAGE INVENTORY'', [], ''captures:'']
              @ map (\<lambda>c. ''  '' @ ci_capture_id c) (iw_captures w)
              @ [[], ''captures_processed: '' @ show_nat (length (iw_captures w)),
                 ''total unique message IDs: '' @ show_nat (length all_ids), []]))
           @ table_line ''ID'' ''A'' ''B'' ''directions'' ''contexts'' ''lengths'' ''status''
           @ concat rows
           @ concat (map writeln
               [[], ''CROSS-CAPTURE SUMMARY'', [],
                ''stable IDs (both, dir+ctx+len stable): '' @ format_id_list (ids_where stable_row cmp),
                ''A-only IDs: '' @ format_id_list (a_only_ids cmp),
                ''B-only IDs: '' @ format_id_list (b_only_ids cmp),
                ''direction divergent: '' @ format_id_list (ids_where (\<lambda>r. cr_direction_status r = LDivergent) cmp),
                ''context divergent: '' @ format_id_list (ids_where (\<lambda>r. cr_context_status r = LDivergent) cmp),
                ''length divergent: '' @ format_id_list (ids_where (\<lambda>r. cr_length_status r = LDivergent) cmp),
                [], ''STARTUP SEQUENCES'', [], ''A:'', startup_text (cc_startup_a cmp),
                ''B:'', startup_text (cc_startup_b cmp), [], ''status:'',
                ''  '' @ evidence_label_str (cc_startup_status cmp), []])
           @ (if cc_pairs cmp = [] then []
              else concat (map writeln (''OBSERVED_SEQUENCE_PAIR (startup windows):'' # map pair_text (cc_pairs cmp) @ [[]])))
           @ writeln ''EXTERNAL_REFERENCE names from docs matrix (not semantic proof):''
           @ concat (map name_lines (cc_rows cmp)))
         (those (map show_row (cc_rows cmp))))"

text \<open>\<open>write_safe_export\<close>: what is written, with a last line end; encoder and disk are parameters.\<close>

definition iv_write_safe_export ::
  "(safe_capture list \<times> safe_comparison option \<Rightarrow> string option) \<Rightarrow> (string \<Rightarrow> bool)
   \<Rightarrow> safe_capture list \<times> safe_comparison option \<Rightarrow> inventory_verify_error + string" where
  "iv_write_safe_export encode write_ok export =
     (case encode export of
        None \<Rightarrow> Inl IvBadJson
      | Some json \<Rightarrow> if write_ok (writeln json) then Inr (writeln json) else Inl IvIo)"

section \<open>A genuine session as a fixture\<close>

definition fixture_of :: "string option \<Rightarrow> bytes \<Rightarrow> bytes \<Rightarrow> (nonce_direction \<times> bytes) list \<Rightarrow> fixture_file" where
  "fixture_of c key nonce ws =
     \<lparr>xi_capture = c, xi_key_hex = hex_encode key, xi_nonce_hex = hex_encode nonce,
      xi_frames = map (\<lambda>w. \<lparr>xf_direction = direction_name (fst w), xf_hex = Some (hex_encode (snd w)),
                          xf_expected_msg_id = None, xf_id_hex = None\<rparr>) ws\<rparr>"

lemma xv_collect_of:
  assumes "\<forall>w \<in> set ws. snd w \<noteq> []"
  shows "xv_collect (xi_frames (fixture_of c key nonce ws))
     = Inr (map fst ws, concat (map snd ws), concat (map (encrypted_body_len \<circ> snd) ws), replicate (length ws) None)"
  using assms
  by (induction ws) (simp_all add: fixture_of_def hex_or_empty_def visible_hex_encode decode_field_encode
      direction_of_name xv_decode_hex_def xv_parse_direction_def Let_def)

lemma fixture_run_sent:
  assumes "aead_ok P" "bap_session_new key nonce = Inr peer" "\<forall>m \<in> set ms. bap_fits m"
    and "send_all (bap_send P) peer ms = Some (ws, peer')" "length ms < 2 ^ 32"
  obtains p where "run_whole_fixture P wrap key nonce (concat (map snd ws)) (map bo_direction ms) = Some (Inr (map bap_view ms, p))"
    "session_counters (pl_session p) = expect_counters (0, 0) ms"
proof -
  obtain q where q: "pipeline_new key nonce = Inr q" using assms(2) by (auto simp: pipeline_new_def)
  let ?chunks = "chunk_stream (concat (map snd ws)) DEFAULT_PIPELINE_CHUNK_SIZES"
  obtain p x where p: "run_directed P mock_read q (mock_new ?chunks) (map bo_direction ms) = Some (Inr (map bap_view ms), p, x)"
    "bs_crypto (pl_session p) = bs_crypto peer'"
    using pipeline_delivers [OF assms(1) q assms(2,3,4), of ?chunks] by auto
  have "length ms < 2 ^ 64" using assms(5) by simp
  then have "session_counters peer' = expect_counters (0, 0) ms"
    using sent_counters [OF bap_session_new_synced [OF assms(1,2)] assms(3,4) counters_at_new [OF assms(2)]] by simp
  then have "session_counters (pl_session p) = expect_counters (0, 0) ms"
    using p(2) by (simp add: session_counters_def)
  with p(1) q show thesis by (intro that) (simp_all add: run_whole_fixture_def)
qed

section \<open>What the report says\<close>

lemma map_sum_Inr: "map_sum f g r = Inr y \<longleftrightarrow> (\<exists>x. r = Inr x \<and> y = g x)"
  by (cases r) auto

lemma note_message_id_fields:
  "vr_message_ids (note_message_id i r) = vr_message_ids r @ [i]" "vr_framing (note_message_id i r) = vr_framing r"
  "vr_gcm (note_message_id i r) = vr_gcm r" "vr_failed (note_message_id i r) = vr_failed r" "vr_frames (note_message_id i r) = vr_frames r"
  "vr_clear (note_message_id i r) = vr_clear r" "vr_encrypted (note_message_id i r) = vr_encrypted r"
  "vr_success (note_message_id i r) = vr_success r" "vr_capture_id (note_message_id i r) = vr_capture_id r"
  "vr_independent (note_message_id i r) = vr_independent r" "vr_record_ok (note_message_id i r) = vr_record_ok r"
  "vr_c2s_xor (note_message_id i r) = vr_c2s_xor r" "vr_s2c_identity (note_message_id i r) = vr_s2c_identity r"
  "vr_aad_empty (note_message_id i r) = vr_aad_empty r"
  by (simp_all add: note_message_id_def Let_def)

text \<open>What no frame changes.\<close>

definition same_frame_fields :: "validation_report \<Rightarrow> validation_report \<Rightarrow> bool" where
  "same_frame_fields r r' \<longleftrightarrow> vr_frames r' = vr_frames r \<and> vr_failed r' = vr_failed r
     \<and> vr_capture_id r' = vr_capture_id r \<and> vr_independent r' = vr_independent r \<and> vr_record_ok r' = vr_record_ok r
     \<and> vr_c2s_xor r' = vr_c2s_xor r \<and> vr_s2c_identity r' = vr_s2c_identity r \<and> vr_aad_empty r' = vr_aad_empty r"

lemma xv_frame_keeps: "same_frame_fields r (xv_frame r x)"
  by (cases x)
     (simp add: xv_frame_def Let_def same_frame_fields_def note_message_id_fields
       split: nonce_direction.split decoded_frame.split option.split)

lemma xv_frames_keep: "same_frame_fields r (foldl xv_frame r xs)"
proof (induction xs arbitrary: r)
  case (Cons x xs)
  then show ?case using Cons.IH [of "xv_frame r x"] xv_frame_keeps [of r x] by (simp add: same_frame_fields_def)
qed (simp add: same_frame_fields_def)

text \<open>Encrypted and decrypted frames are counted in one step, so the test for failures never holds.\<close>

lemma xv_frames_equal:
  "vr_success r = vr_encrypted r \<Longrightarrow> vr_success (foldl xv_frame r xs) = vr_encrypted (foldl xv_frame r xs)"
proof (induction xs arbitrary: r)
  case (Cons x xs)
  have "vr_success (xv_frame r x) = vr_encrypted (xv_frame r x)"
    using Cons.prems
    by (cases x) (simp add: xv_frame_def Let_def note_message_id_fields split: nonce_direction.split decoded_frame.split option.split)
  then show ?case using Cons.IH by simp
qed simp

text \<open>
  Four statements of a report are constants: the start of the XOR nonce, the identity nonce, the empty
  associated data and the session record are reported as confirmed for every fixture, whatever
  its frames; and no report has a failed decryption.
\<close>

lemma fixture_report_constants:
  assumes "xv_report_of_file P file independent = Some (Inr r)"
  shows "vr_record_ok r = Some True" "vr_c2s_xor r = Some True" "vr_s2c_identity r = Some True"
    "vr_aad_empty r = Some True" "vr_failed r = 0"
proof -
  have "vr_record_ok (xv_report c i lens xs k) = Some True \<and> vr_c2s_xor (xv_report c i lens xs k) = Some True
      \<and> vr_s2c_identity (xv_report c i lens xs k) = Some True \<and> vr_aad_empty (xv_report c i lens xs k) = Some True
      \<and> vr_failed (xv_report c i lens xs k) = 0" for c i lens xs k
    using xv_frames_keep [of "xv_start c i lens (length xs)" xs]
      xv_frames_equal [of "xv_start c i lens (length xs)" xs]
    by (simp add: xv_report_def Let_def same_frame_fields_def xv_start_def)
  note const = this
  have "vr_record_ok r = Some True \<and> vr_c2s_xor r = Some True \<and> vr_s2c_identity r = Some True
      \<and> vr_aad_empty r = Some True \<and> vr_failed r = 0"
    using assms by (auto simp: xv_report_of_file_def map_sum_Inr const split: sum.splits prod.splits)
  then show "vr_record_ok r = Some True" "vr_c2s_xor r = Some True" "vr_s2c_identity r = Some True"
    "vr_aad_empty r = Some True" "vr_failed r = 0"
    by simp_all
qed

text \<open>The loop over the frames of a genuine session.\<close>

lemma xv_frame_view:
  "vr_message_ids (xv_frame r (bap_view m, d, h)) = vr_message_ids r @ [bo_msg_id m]"
  "vr_framing (xv_frame r (bap_view m, d, h)) = vr_framing r" "vr_gcm (xv_frame r (bap_view m, d, h)) = vr_gcm r"
  "vr_clear (xv_frame r (bap_view m, d, h)) = vr_clear r + (if bo_encrypted m then 0 else 1)"
  "vr_encrypted (xv_frame r (bap_view m, d, h)) = vr_encrypted r + (if bo_encrypted m then 1 else 0)"
  by (cases d; simp add: xv_frame_def bap_view_def Let_def note_message_id_fields)+

lemma xv_frames_view:
  assumes "length ds = length ms"
  shows "let r' = foldl xv_frame r (zip (map bap_view ms) ds) in
     vr_message_ids r' = vr_message_ids r @ map bo_msg_id ms \<and> vr_framing r' = vr_framing r \<and> vr_gcm r' = vr_gcm r
   \<and> vr_clear r' = vr_clear r + of_nat (length (filter (\<lambda>m. \<not> bo_encrypted m) ms))
   \<and> vr_encrypted r' = vr_encrypted r + of_nat (length (filter bo_encrypted ms))"
  using assms
proof (induction ms arbitrary: r ds)
  case (Cons m ms)
  then obtain d h ds' where "ds = (d, h) # ds'" "length ds' = length ms" by (cases ds) auto
  then show ?case
    using Cons.IH [of ds' "xv_frame r (bap_view m, d, h)"] by (auto simp: Let_def xv_frame_view)
qed simp

lemma expect_counters_decrypted:
  "expect_counters e ms = (fst e + of_nat (decrypted_in ClientToServer (zip (map bo_direction ms) (map bap_view ms))),
     snd e + of_nat (decrypted_in ServerToClient (zip (map bo_direction ms) (map bap_view ms))))"
proof (induction ms arbitrary: e)
  case (Cons m ms)
  show ?case
    by (cases "bo_encrypted m"; cases "bo_direction m")
       (simp_all add: Cons.IH decrypted_in_def bap_view_def count_direction_def algebra_simps)
qed (simp add: decrypted_in_def)

text \<open>
  The report on a genuine session: it is accepted, the ids are those of the messages in their order,
  and it counts as a sound capture exactly when some message was sealed.
\<close>

lemma genuine_fixture_report:
  assumes "aead_ok P" "bap_session_new key nonce = Inr peer" "\<forall>m \<in> set ms. bap_fits m"
    and "send_all (bap_send P) peer ms = Some (ws, peer')" "ms \<noteq> []" "length ms < 2 ^ 32"
  obtains r where "xv_report_of_file P (fixture_of c key nonce ws) independent = Some (Inr r)"
    "vr_message_ids r = map bo_msg_id ms" "vr_startup r = extract_startup_sequence (map bo_msg_id ms)"
    "vr_capture_id r = capture_or_unknown c" "vr_independent r = independent"
    "pipeline_ok r \<longleftrightarrow> (\<exists>m \<in> set ms. bo_encrypted m)"
proof -
  note ss = sent_stream [OF assms(1-4)]
  have len: "length ws = length ms" using ss(1) by (metis length_map)
  let ?file = "fixture_of c key nonce ws" and ?lens = "concat (map (encrypted_body_len \<circ> snd) ws)"
  let ?xs = "zip (map bap_view ms) (zip (map bo_direction ms) (replicate (length ws) (None :: u16 option)))"
  obtain p where run: "run_whole_fixture P XvPipeline key nonce (concat (map snd ws)) (map bo_direction ms) = Some (Inr (map bap_view ms, p))"
    and cnt: "session_counters (pl_session p) = expect_counters (0, 0) ms"
    using fixture_run_sent [OF assms(1-4,6)] .
  define r where "r = xv_report (capture_or_unknown c) independent ?lens ?xs (session_counters (pl_session p))"
  have keys: "xv_decode_hex f (xi_key_hex ?file) = Inr key" "xv_decode_hex f (xi_nonce_hex ?file) = Inr nonce" for f
    by (simp_all add: xv_decode_hex_def fixture_of_def decode_key_nonce [OF assms(2)])
  have cap: "xi_capture ?file = c" by (simp add: fixture_of_def)
  have acc: "xv_report_of_file P ?file independent = Some (Inr r)"
    using session_lengths [OF assms(2)] ss(1) assms(5)
    by (simp add: xv_report_of_file_def keys cap sized_field_def xv_collect_of [OF ss(2)] run r_def)
  have xl: "length ?xs = length ms" using len by simp
  have seen: "map (\<lambda>(f, d, h). (d, f)) ?xs = zip (map bo_direction ms) (map bap_view ms)"
    by (rule nth_equalityI) (simp_all add: len)
  let ?s = "xv_start (capture_or_unknown c) independent ?lens (length ms)"
  have zl: "length (zip (map bo_direction ms) (replicate (length ws) (None :: u16 option))) = length ms" using len by simp
  define R where "R = foldl xv_frame ?s ?xs"
  have R: "vr_message_ids R = map bo_msg_id ms" "vr_framing R" "vr_gcm R" "vr_encrypted R = of_nat (length (filter bo_encrypted ms))"
    using xv_frames_view [OF zl, of ?s] by (simp_all add: R_def Let_def xv_start_def)
  have K: "vr_failed R = 0" "vr_frames R = of_nat (length ms)" "vr_capture_id R = capture_or_unknown c"
    "vr_independent R = independent"
    using xv_frames_keep [of ?s ?xs] by (simp_all add: R_def same_frame_fields_def xv_start_def)
  have E: "vr_success R = vr_encrypted R"
    unfolding R_def by (rule xv_frames_equal) (simp add: xv_start_def)
  have r: "r = R\<lparr>vr_nonce_state := True, vr_startup := extract_startup_sequence (map bo_msg_id ms),
      vr_unknown_ids := remdups_adj (sort (vr_unknown_ids R)), vr_gcm := vr_encrypted R > 0\<rparr>"
    unfolding r_def xv_report_def xl unfolding R_def [symmetric] seen cnt expect_counters_decrypted
    using E R K(1) by (simp add: Let_def)
  have nz: "(of_nat k :: u32) = 0 \<longleftrightarrow> k = 0" if "k \<le> length ms" for k
    using that assms(6) by (simp add: word_of_nat_eq_0_iff nat_dvd_not_less) (metis dvd_0_right nat_dvd_not_less not_gr_zero order_le_less_trans)
  have flds: "vr_message_ids r = map bo_msg_id ms" "vr_startup r = extract_startup_sequence (map bo_msg_id ms)"
    "vr_capture_id r = capture_or_unknown c" "vr_independent r = independent"
    "vr_framing r" "vr_nonce_state r" "vr_failed r = 0" "vr_frames r = of_nat (length ms)" "vr_encrypted r = vr_success r"
    "vr_encrypted r = of_nat (length (filter bo_encrypted ms))" "vr_gcm r \<longleftrightarrow> vr_encrypted r > 0"
    using R K E by (simp_all add: r)
  have "(vr_frames r > 0) \<longleftrightarrow> ms \<noteq> []" "(vr_encrypted r > 0) \<longleftrightarrow> filter bo_encrypted ms \<noteq> []"
    using nz [of "length ms"] nz [of "length (filter bo_encrypted ms)"] by (simp_all add: flds(8,10) word_greater_zero_iff)
  then have "pipeline_ok r \<longleftrightarrow> (\<exists>m \<in> set ms. bo_encrypted m)"
    using flds(5-7,9,11) assms(5) by (auto simp: pipeline_ok_def filter_empty_conv)
  then show thesis using acc flds(1-4) that by blast
qed

section \<open>Manifests\<close>

text \<open>The last guard of \<open>verify_from_manifest_str\<close> never acts: the verdict has made sure of it.\<close>

lemma manifest_guard_idle:
  assumes "length reports < 2 ^ 32"
  shows "ms_status (xv_summary dbg (reports, notes)) = ms_status (mc_compare_captures dbg reports)"
proof -
  let ?m = "mc_compare_captures dbg reports"
  note v = verdict_exact [OF assms, of dbg, unfolded Let_def]
  have "unat (ms_count ?m) \<ge> 2" if "ms_status ?m = VerifiedMultiCapture"
  proof -
    have "capture_ids reports \<noteq> {}" "card (capture_ids reports) \<noteq> 1"
      using v that by (auto split: if_splits)
    moreover from this(1) have "card (capture_ids reports) > 0" by (simp add: card_gt_0_iff)
    ultimately show ?thesis using v by linarith
  qed
  then have "\<not> (ms_count ?m < 2 \<and> ms_status ?m = VerifiedMultiCapture)"
    by (auto simp: word_less_nat_alt)
  then show ?thesis by (simp add: xv_summary_def Let_def)
qed

text \<open>An entry that is ready, with a fixture at its place.\<close>

definition ready_entry :: "string \<Rightarrow> string \<Rightarrow> manifest_capture" where
  "ready_entry c fixture =
     \<lparr>mf_capture_id = c, mf_status = ''pipeline_ready'', mf_pipeline_fixture = Some fixture, mf_independent = None,
      mf_notes = None\<rparr>"

lemma ready_entry_report:
  assumes "files (resolve_path base fixture) = Some (Some t)" "json t = Some f"
    and "xv_report_of_file P f True = Some (Inr r)"
  shows "xv_entry P json files base (reports, notes) (ready_entry c fixture) =
    Some (Inr (reports @ [if vr_capture_id r = ''unknown'' then r\<lparr>vr_capture_id := c\<rparr> else r], notes))"
  using assms by (simp add: xv_entry_def ready_entry_def xv_report_of_path_def load_text_def from_json_def Let_def)

text \<open>
  Any number of sound captures: the manifest is accepted, and with two different capture ids among
  them its verdict is the verified one.
\<close>

lemma ready_entries_reports:
  assumes "\<forall>x \<in> set xs. case x of (c, fixture, t, f, r) \<Rightarrow> files (resolve_path base fixture) = Some (Some t)
     \<and> json t = Some f \<and> xv_report_of_file P f True = Some (Inr r) \<and> vr_capture_id r \<noteq> ''unknown''"
  shows "xv_entries P json files base (reports, notes) (map (\<lambda>(c, fixture, t, f, r). ready_entry c fixture) xs)
    = Some (Inr (reports @ map (\<lambda>(c, fixture, t, f, r). r) xs, notes))"
  using assms
proof (induction xs arbitrary: reports)
  case (Cons x xs)
  obtain c fixture t f r where x: "x = (c, fixture, t, f, r)" by (cases x)
  with Cons.prems have a: "files (resolve_path base fixture) = Some (Some t)" "json t = Some f"
      "xv_report_of_file P f True = Some (Inr r)" "vr_capture_id r \<noteq> ''unknown''"
    by auto
  show ?case
    using Cons.IH [of "reports @ [r]"] Cons.prems a(4)
    by (simp add: x ready_entry_report [where files = files and base = base and json = json, OF a(1-3)])
qed simp

lemma sound_captures_verified:
  assumes "\<forall>x \<in> set xs. case x of (c, fixture, t, f, r) \<Rightarrow> files (resolve_path base fixture) = Some (Some t)
     \<and> json t = Some f \<and> xv_report_of_file P f True = Some (Inr r) \<and> vr_capture_id r \<noteq> ''unknown''
     \<and> vr_independent r \<and> pipeline_ok r"
    and "length xs < 2 ^ 32" and "2 \<le> card ((\<lambda>(c, fixture, t, f, r). vr_capture_id r) ` set xs)"
  shows "\<exists>s. xv_verify_manifest P dbg json files base
      \<lparr>mn_notes = notes, mn_captures = map (\<lambda>(c, fixture, t, f, r). ready_entry c fixture) xs\<rparr> = Some (Inr s)
    \<and> ms_status s = VerifiedMultiCapture"
proof -
  let ?reports = "map (\<lambda>(c, fixture, t, f, r). r) xs"
  let ?notes = "case notes of None \<Rightarrow> [] | Some n \<Rightarrow> [n]"
  have "\<forall>x \<in> set xs. case x of (c, fixture, t, f, r) \<Rightarrow> files (resolve_path base fixture) = Some (Some t)
     \<and> json t = Some f \<and> xv_report_of_file P f True = Some (Inr r) \<and> vr_capture_id r \<noteq> ''unknown''"
    using assms(1) by fastforce
  note run = ready_entries_reports [OF this, of "[]" ?notes]
  have all: "\<forall>r \<in> set ?reports. vr_independent r \<and> pipeline_ok r" using assms(1) by fastforce
  then have "filter vr_independent ?reports = ?reports" by (simp add: filter_id_conv)
  then have ids: "capture_ids ?reports = (\<lambda>(c, fixture, t, f, r). vr_capture_id r) ` set xs"
    by (auto simp: capture_ids_def image_image split_beta)
  have ok: "pipeline_ok (report_of ?reports c)" if "c \<in> capture_ids ?reports" for c
    using all report_of_in(1) [OF that] by blast
  have "list_all (\<lambda>c. pipeline_ok (report_of ?reports c)) (sorted_list_of_set (capture_ids ?reports))"
    by (simp add: list_all_iff ok)
  moreover have "capture_ids ?reports \<noteq> {}" "card (capture_ids ?reports) \<noteq> 1"
    using assms(3) unfolding ids by auto
  ultimately have "ms_status (mc_compare_captures dbg ?reports) = VerifiedMultiCapture"
    using verdict_exact [of ?reports dbg, unfolded Let_def] assms(2) by simp
  then have "ms_status (xv_summary dbg (?reports, ?notes)) = VerifiedMultiCapture"
    using manifest_guard_idle [of ?reports dbg ?notes] assms(2) by simp
  with run show ?thesis by (simp add: xv_verify_manifest_def)
qed

lemma measured_cong:
  "(\<And>r. r \<in> set rs \<Longrightarrow> f r = g r) \<Longrightarrow> measured nm f rs = measured nm g rs"
  by (induction rs) (simp_all add: measured_def map_filter_simps split: option.split)

text \<open>
  With the constants of the loader, the summary of any two captures calls the session record stable,
  though no record was looked at.
\<close>

lemma session_record_claimed:
  assumes "\<forall>r \<in> set reports. vr_record_ok r = Some True" "length reports < 2 ^ 32" "2 \<le> card (capture_ids reports)"
  shows "list_ex (\<lambda>i. ir_name i = ''0x1A AES-CBC/HMAC session record'' \<and> ir_class i = IcStable)
     (ms_rows (mc_compare_captures dbg reports))"
proof -
  let ?ids = "capture_ids reports"
  let ?uniq = "map (report_of reports) (sorted_list_of_set ?ids)"
  let ?n = "of_nat (card ?ids) :: u32"
  have ne: "reports \<noteq> []" using assms(3) by (auto simp: capture_ids_def)
  then have rows: "ms_rows (mc_compare_captures dbg reports) = invariant_rows dbg ?uniq ?n"
    by (simp add: mc_compare_captures_def Let_def first_reports split_beta)
  have small: "card ?ids < 2 ^ 32" using card_capture_ids [of reports] assms(2) by simp
  have all: "vr_record_ok r = Some True" if "r \<in> set ?uniq" for r
    using that assms(1) report_of_in(1) by auto
  then have "measured vr_capture_id vr_record_ok ?uniq = measured vr_capture_id (\<lambda>r. Some True) ?uniq"
    by (rule measured_cong)
  then have "classify_bool dbg nm ?uniq vr_record_ok ?n = classify_bool dbg nm ?uniq (\<lambda>r. Some True) ?n" for nm
    by (simp add: classify_bool_def)
  moreover have "ir_class (classify_bool dbg nm ?uniq (\<lambda>r. Some True) ?n) = IcStable" for nm
  proof -
    have "1 < ?n" using u32_count [OF small] assms(3) by (simp add: word_less_nat_alt)
    moreover have "?uniq \<noteq> []" using assms(3) by auto
    moreover have "(\<lambda>r. True) ` set ?uniq = {True}" using \<open>?uniq \<noteq> []\<close> by (simp add: image_constant_conv)
    ultimately show ?thesis
      using classify_bool_class [of ?uniq ?n dbg nm "\<lambda>r. True"] by (simp del: set_map)
  qed
  ultimately show ?thesis
    unfolding rows invariant_rows_def by (simp add: classify_bool_name)
qed

section \<open>The inventory of a genuine session\<close>

definition inventory_fixture_of :: "string option \<Rightarrow> bytes \<Rightarrow> bytes \<Rightarrow> (nonce_direction \<times> bytes) list \<Rightarrow> inventory_fixture_file" where
  "inventory_fixture_of c key nonce ws =
     \<lparr>ix_capture = c, ix_key_hex = hex_encode key, ix_nonce_hex = hex_encode nonce,
      ix_frames = map (\<lambda>w. \<lparr>if_direction = direction_name (fst w), if_hex = Some (hex_encode (snd w)),
                          if_offset = None, if_order = None, if_expected_msg_id = None\<rparr>) ws\<rparr>"

lemma iv_collect_of:
  assumes "\<forall>w \<in> set ws. snd w \<noteq> []"
  shows "iv_collect (ix_frames (inventory_fixture_of c key nonce ws))
     = Inr (map fst ws, concat (map snd ws), replicate (length ws) (None, None, None))"
  using assms
  by (induction ws) (simp_all add: inventory_fixture_of_def hex_or_empty_def visible_hex_encode decode_field_encode
      direction_of_name iv_decode_hex_def iv_parse_direction_def Let_def)

lemma map_of_map_filter:
  assumes "\<And>x. x \<in> set xs \<Longrightarrow> \<exists>y. f x = Some y \<and> g y = h x"
  shows "map g (List.map_filter f xs) = map h xs"
  using assms by (induction xs) (force simp: map_filter_simps)+

lemma observed_ids:
  assumes "length ds = length ms" "length meta = length ms"
  shows "map mo_message_id (iv_observations sha c (zip (zip (map bap_view ms) ds) meta)) = map bo_msg_id ms"
proof -
  let ?xs = "zip (zip (map bap_view ms) ds) meta"
  have "map mo_message_id (iv_observations sha c ?xs) = map (\<lambda>(i, x). bo_msg_id (ms ! i)) (zip [0..<length ?xs] ?xs)"
    unfolding iv_observations_def
  proof (rule map_of_map_filter)
    fix x
    assume "x \<in> set (zip [0..<length ?xs] ?xs)"
    then obtain i where i: "i < length ms" "x = (i, ?xs ! i)"
      using assms by (auto simp: set_zip)
    obtain off order hint where "meta ! i = (off, order, hint)" using prod_cases3 by blast
    then have "x = (i, (bap_view (ms ! i), ds ! i), off, order, hint)" using i assms by simp
    then show "\<exists>y. (\<lambda>(i, (frame, dir), off, order, hint). from_decoded sha c (of_nat i) dir frame off order) x = Some y
        \<and> mo_message_id y = (\<lambda>(i, x). bo_msg_id (ms ! i)) x"
      by (cases "bo_encrypted (ms ! i)") (simp_all add: from_decoded_def bap_view_def Let_def)
  qed
  also have "\<dots> = map bo_msg_id ms"
    by (rule nth_equalityI) (simp_all add: assms)
  finally show ?thesis .
qed

text \<open>The fixture of a genuine session never panics, and its inventory lists the messages that were sent.\<close>

lemma genuine_fixture_inventory:
  assumes "aead_ok P" "bap_session_new key nonce = Inr peer" "\<forall>m \<in> set ms. bap_fits m"
    and "send_all (bap_send P) peer ms = Some (ws, peer')" "ms \<noteq> []" "length ms < 2 ^ 32"
  shows "\<exists>cap. iv_inventory_of_file P sha (inventory_fixture_of c key nonce ws) = Some (Inr cap)
    \<and> ci_capture_id cap = capture_or_unknown c \<and> ci_total_frames cap = of_nat (length ms)
    \<and> ci_unique cap = sorted_list_of_set (bo_msg_id ` set ms) \<and> ci_startup cap = take 8 (map bo_msg_id ms)"
proof -
  note ss = sent_stream [OF assms(1-4)]
  have len: "length ws = length ms" using ss(1) by (metis length_map)
  let ?file = "inventory_fixture_of c key nonce ws" and ?c = "capture_or_unknown c"
  obtain p where run: "run_whole_fixture P IvPipeline key nonce (concat (map snd ws)) (map bo_direction ms) = Some (Inr (map bap_view ms, p))"
    using fixture_run_sent [OF assms(1-4,6)] by blast
  let ?obs = "iv_observations sha ?c (zip (zip (map bap_view ms) (map bo_direction ms)) (replicate (length ws) (None, None, None)))"
  have ids: "map mo_message_id ?obs = map bo_msg_id ms" using len by (intro observed_ids) simp_all
  then have oset: "mo_message_id ` set ?obs = bo_msg_id ` set ms" "length ?obs = length ms"
    by (metis list.set_map, metis length_map)
  obtain groups where f: "from_observations ?c ?obs = Some
       \<lparr>ci_capture_id = ?c, ci_total_frames = of_nat (length ?obs), ci_message_count = of_nat (length ?obs),
        ci_unique = sorted_list_of_set (mo_message_id ` set ?obs), ci_startup = take 8 (map mo_message_id ?obs),
        ci_messages = map (\<lambda>i. summary_of i (group_of i (with_id i ?obs))) (sorted_list_of_set (mo_message_id ` set ?obs)),
        ci_inventory = groups\<rparr>"
    by (rule from_observations_exact)
  have keys: "iv_decode_hex n (ix_key_hex ?file) = Inr key" "iv_decode_hex n (ix_nonce_hex ?file) = Inr nonce" for n
    by (simp_all add: iv_decode_hex_def inventory_fixture_of_def decode_key_nonce [OF assms(2)])
  have cap: "ix_capture ?file = c" by (simp add: inventory_fixture_of_def)
  have "iv_inventory_of_file P sha ?file = map_option Inr (from_observations ?c ?obs)"
    using session_lengths [OF assms(2)] ss(1) assms(5)
    by (simp add: iv_inventory_of_file_def keys cap sized_field_def iv_collect_of [OF ss(2)] run Let_def)
  then show ?thesis unfolding f ids oset by simp
qed

end
