(* ===== verification/Evidence.thy ===== *)
theory Evidence
  imports Messages Framing "HOL-Library.Multiset" "HOL-Library.Product_Lexorder"
begin

text \<open>
  Evidence files: the project's records (\<open>network/src/jsonl.rs\<close>), the adapter from the records of
  the external decryptor (\<open>evidence_adapter.rs\<close>) and the timeline made from them
  (\<open>timeline.rs\<close>). The JSON parser is a parameter, and so is the reading of a floating-point time
  stamp as milliseconds. \<open>None\<close> is a panic: slicing a text inside a character.
\<close>

section \<open>Texts\<close>

definition carriage_return :: char where "carriage_return = CHR 0x0D"
definition line_feed :: char where "line_feed = CHR 0x0A"

text \<open>\<open>str::lines\<close>: the line ends with LF or CR LF, the last line with the text.\<close>

definition drop_cr :: "string \<Rightarrow> string" where
  "drop_cr l = (if l \<noteq> [] \<and> last l = carriage_return then butlast l else l)"

function str_lines :: "string \<Rightarrow> string list" where
  "str_lines s =
     (if s = [] then []
      else let l = takeWhile (\<lambda>c. c \<noteq> line_feed) s; rest = dropWhile (\<lambda>c. c \<noteq> line_feed) s in
        if rest = [] then [l] else drop_cr l # str_lines (tl rest))"
  by pat_completeness auto
termination
proof (relation "measure length")
  fix s l rest
  assume s: "s \<noteq> ([] :: string)" "rest = dropWhile (\<lambda>c. c \<noteq> line_feed) s" "rest \<noteq> []"
  have "length rest \<le> length s" unfolding s(2) by (rule length_dropWhile_le)
  then show "(tl rest, s) \<in> measure length" using s(3) by (cases rest) auto
qed simp

declare str_lines.simps [simp del]

definition skipped_line :: "string \<Rightarrow> bool" where
  "skipped_line l \<longleftrightarrow> l = [] \<or> hd l = CHR ''#''"

definition zero_padded :: "nat \<Rightarrow> nat \<Rightarrow> string" where
  "zero_padded w n = (let s = show_nat n in replicate (w - length s) (CHR ''0'') @ s)"

text \<open>\<open>?\<close> where the call may also panic.\<close>

definition try_bind :: "('e + 'a) option \<Rightarrow> ('a \<Rightarrow> ('e + 'b) option) \<Rightarrow> ('e + 'b) option" where
  "try_bind r k = (case r of None \<Rightarrow> None | Some (Inl e) \<Rightarrow> Some (Inl e) | Some (Inr x) \<Rightarrow> k x)"

lemma try_bind_simps [simp]:
  "try_bind None k = None" "try_bind (Some (Inl e)) k = Some (Inl e)" "try_bind (Some (Inr x)) k = k x"
  by (simp_all add: try_bind_def)

text \<open>
  The hex loop of both files: slices of two bytes, each read by \<open>u8::from_str_radix\<close> (which accepts
  a leading plus sign). A slice that ends inside a character panics.
\<close>

fun hex_slices :: "(string \<Rightarrow> 'e) \<Rightarrow> string \<Rightarrow> ('e + bytes) option" where
  "hex_slices bad (a # b # cs) =
     (if cs \<noteq> [] \<and> is_continuation (hd cs) then None
      else case parse_uint 16 255 [a, b] of
        Inl _ \<Rightarrow> Some (Inl (bad [a, b]))
      | Inr v \<Rightarrow> try_bind (hex_slices bad cs) (\<lambda>bs. Some (Inr (of_nat v # bs))))"
| "hex_slices bad _ = Some (Inr [])"

definition decode_hex_text :: "(string \<Rightarrow> 'e) \<Rightarrow> string \<Rightarrow> ('e + bytes) option" where
  "decode_hex_text bad s =
     (let s = str_trim s in
      if s = [] then Some (Inr [])
      else if length s mod 2 \<noteq> 0 then Some (Inl (bad (''odd length: '' @ s)))
      else hex_slices bad s)"

section \<open>The project's records\<close>

datatype 'j jsonl_error =
    JlIo string
  | JlJson nat 'j
  | JlBadDirection string
  | JlBadHex string
  | JlIncompleteRecord
  | JlFraming framing_error
  | JlBadTagLength

fun direction_short :: "direction \<Rightarrow> string" where
  "direction_short DirClientToServer = ''C '' @ right_arrow @ '' S''"
| "direction_short DirServerToClient = ''S '' @ right_arrow @ '' C''"

definition direction_parse :: "string \<Rightarrow> 'j jsonl_error + direction" where
  "direction_parse raw =
     (if raw = ''client_to_server'' \<or> raw = ''c2s'' \<or> raw = ''C'' @ right_arrow @ ''S'' \<or> raw = ''C -> S''
      then Inr DirClientToServer
      else if raw = ''server_to_client'' \<or> raw = ''s2c'' \<or> raw = ''S'' @ right_arrow @ ''C'' \<or> raw = ''S -> C''
      then Inr DirServerToClient
      else Inl (JlBadDirection raw))"

record evidence_record =
  er_timestamp_ms :: u64
  er_direction :: direction
  er_frame :: bap_frame

record raw_record =
  rr_timestamp_ms :: u64
  rr_direction :: string
  rr_frame_hex :: "string option"
  rr_kind :: "u8 option"
  rr_message_id :: "u16 option"
  rr_context :: "u32 option"
  rr_payload_hex :: "string option"
  rr_tag_hex :: "string option"
  rr_ciphertext_hex :: "string option"

definition jl_decode_hex :: "string \<Rightarrow> ('j jsonl_error + bytes) option" where
  "jl_decode_hex = decode_hex_text JlBadHex"

definition optional_hex :: "string option \<Rightarrow> ('j jsonl_error + bytes) option" where
  "optional_hex h = (case h of None \<Rightarrow> Some (Inr []) | Some h \<Rightarrow> jl_decode_hex h)"

definition structured_frame :: "raw_record \<Rightarrow> ('j jsonl_error + bap_frame) option" where
  "structured_frame raw =
     (case rr_kind raw of
        None \<Rightarrow> Some (Inl JlIncompleteRecord)
      | Some kind_byte \<Rightarrow>
          (case kind_from_u8 kind_byte of
             KClear \<Rightarrow>
               (case rr_message_id raw of
                  None \<Rightarrow> Some (Inl JlIncompleteRecord)
                | Some i \<Rightarrow>
                    let context = (case rr_context raw of None \<Rightarrow> 0 | Some c \<Rightarrow> c) in
                    try_bind (optional_hex (rr_payload_hex raw)) (\<lambda>payload.
                    Some (Inr \<lparr>bf_kind = KClear,
                               bf_body = BClear \<lparr>cb_msg_id = i, cb_context = context, cb_payload = payload\<rparr>\<rparr>)))
           | KEncrypted \<Rightarrow>
               try_bind (jl_decode_hex (case rr_tag_hex raw of None \<Rightarrow> [] | Some h \<Rightarrow> h)) (\<lambda>tag.
               if length tag \<noteq> 16 then Some (Inl JlBadTagLength)
               else
                 try_bind (optional_hex (rr_ciphertext_hex raw)) (\<lambda>ciphertext.
                 Some (Inr \<lparr>bf_kind = KEncrypted,
                            bf_body = BEncrypted \<lparr>eb_tag = tag, eb_ciphertext = ciphertext\<rparr>\<rparr>)))
           | KOther k \<Rightarrow>
               try_bind (optional_hex (rr_payload_hex raw)) (\<lambda>body.
               Some (Inr \<lparr>bf_kind = KOther k, bf_body = BOpaque body\<rparr>))))"

definition record_from_raw :: "raw_record \<Rightarrow> ('j jsonl_error + evidence_record) option" where
  "record_from_raw raw =
     (case direction_parse (rr_direction raw) of
        Inl e \<Rightarrow> Some (Inl e)
      | Inr direction \<Rightarrow>
          try_bind
            (case rr_frame_hex raw of
               Some hex \<Rightarrow>
                 try_bind (jl_decode_hex hex) (\<lambda>bs.
                 Some (case frame_parse bs of Inl e \<Rightarrow> Inl (JlFraming e) | Inr (f, n) \<Rightarrow> Inr f))
             | None \<Rightarrow> structured_frame raw)
            (\<lambda>frame. Some (Inr \<lparr>er_timestamp_ms = rr_timestamp_ms raw, er_direction = direction,
                                er_frame = frame\<rparr>)))"

definition record_from_json ::
  "(string \<Rightarrow> 'j + raw_record) \<Rightarrow> string \<Rightarrow> ('j jsonl_error + evidence_record) option" where
  "record_from_json json l =
     (case json l of Inl e \<Rightarrow> Some (Inl (JlJson 0 e)) | Inr raw \<Rightarrow> record_from_raw raw)"

fun jsonl_loop ::
  "(string \<Rightarrow> 'j + raw_record) \<Rightarrow> nat \<Rightarrow> string list \<Rightarrow> ('j jsonl_error + evidence_record list) option" where
  "jsonl_loop json idx [] = Some (Inr [])"
| "jsonl_loop json idx (l # ls) =
     (let l = str_trim l in
      if skipped_line l then jsonl_loop json (idx + 1) ls
      else case json l of
          Inl e \<Rightarrow> Some (Inl (JlJson (idx + 1) e))
        | Inr raw \<Rightarrow>
            try_bind (record_from_raw raw) (\<lambda>rec.
            try_bind (jsonl_loop json (idx + 1) ls) (\<lambda>recs. Some (Inr (rec # recs)))))"

definition parse_jsonl_str ::
  "(string \<Rightarrow> 'j + raw_record) \<Rightarrow> string \<Rightarrow> ('j jsonl_error + evidence_record list) option" where
  "parse_jsonl_str json input = jsonl_loop json 0 (str_lines input)"

definition parse_jsonl_path ::
  "(string \<Rightarrow> 'j + raw_record) \<Rightarrow> string + string \<Rightarrow> ('j jsonl_error + evidence_record list) option" where
  "parse_jsonl_path json content =
     (case content of Inl e \<Rightarrow> Some (Inl (JlIo e)) | Inr text \<Rightarrow> parse_jsonl_str json text)"

definition encode_hex :: "bytes \<Rightarrow> string" where
  "encode_hex bs = concat (map show_hex_u8 bs)"

definition kind_clear :: u8 where "kind_clear = KIND_CLEAR"
definition kind_encrypted :: u8 where "kind_encrypted = KIND_ENCRYPTED"

section \<open>The external records\<close>

datatype 'j adapter_error =
    AdIo string
  | AdJson nat 'j
  | AdBadDirection string
  | AdBadHex string
  | AdMissingMessageId

record 'f external_line =
  xl_kind :: string
  xl_direction :: "string option"
  xl_frame_kind :: "u8 option"
  xl_frame_index :: "u64 option"
  xl_frame_ts :: "'f option"
  xl_id :: "u64 option"
  xl_context :: "u64 option"
  xl_payload_hex :: "string option"
  xl_error :: "string option"

definition ad_decode_hex :: "string \<Rightarrow> ('j adapter_error + bytes) option" where
  "ad_decode_hex = decode_hex_text AdBadHex"

text \<open>
  \<open>to_ms ts\<close> is \<open>None\<close> for a time stamp that is not finite or negative, and otherwise
  \<open>(ts * 1000.0).floor() as u64\<close>.
\<close>

definition timestamp_ms_from_external :: "('f \<Rightarrow> u64 option) \<Rightarrow> 'f option \<Rightarrow> u64 option \<Rightarrow> u64" where
  "timestamp_ms_from_external to_ms frame_ts frame_index =
     (case (case frame_ts of None \<Rightarrow> None | Some ts \<Rightarrow> to_ms ts) of
        Some ms \<Rightarrow> ms
      | None \<Rightarrow> (case frame_index of None \<Rightarrow> 0 | Some i \<Rightarrow> i))"

definition adapt_bap_frame ::
  "('f \<Rightarrow> u64 option) \<Rightarrow> 'f external_line \<Rightarrow> ('j adapter_error + evidence_record) option" where
  "adapt_bap_frame to_ms raw =
     (case xl_direction raw of
        None \<Rightarrow> Some (Inl (AdBadDirection ''<missing>''))
      | Some direction_raw \<Rightarrow>
          (case direction_parse direction_raw of
             Inl (e :: unit jsonl_error) \<Rightarrow> Some (Inl (AdBadDirection direction_raw))
           | Inr direction \<Rightarrow>
               (case xl_id raw of
                  None \<Rightarrow> Some (Inl AdMissingMessageId)
                | Some i \<Rightarrow>
                    if i \<le> 65535 then
                      (let context = ucast (case xl_context raw of None \<Rightarrow> 0 | Some c \<Rightarrow> c) :: u32 in
                       try_bind (case xl_payload_hex raw of Some h \<Rightarrow> ad_decode_hex h | None \<Rightarrow> Some (Inr [])) (\<lambda>payload.
                       Some (Inr \<lparr>er_timestamp_ms = timestamp_ms_from_external to_ms (xl_frame_ts raw) (xl_frame_index raw),
                                  er_direction = direction,
                                  er_frame = clear_frame (ucast i) context payload\<rparr>)))
                    else Some (Inl AdMissingMessageId))))"

definition adapt_parsed ::
  "('f \<Rightarrow> u64 option) \<Rightarrow> 'f external_line \<Rightarrow> ('j adapter_error + evidence_record option) option" where
  "adapt_parsed to_ms raw =
     (if xl_kind raw = ''bap_connection'' then Some (Inr None)
      else if xl_kind raw = ''bap_frame''
        then try_bind (adapt_bap_frame to_ms raw) (\<lambda>rec. Some (Inr (Some rec)))
      else Some (Inr None))"

definition adapt_line ::
  "('f \<Rightarrow> u64 option) \<Rightarrow> (string \<Rightarrow> 'j + 'f external_line) \<Rightarrow> string \<Rightarrow>
   ('j adapter_error + evidence_record option) option" where
  "adapt_line to_ms json l =
     (let l = str_trim l in
      if skipped_line l then Some (Inr None)
      else case json l of Inl e \<Rightarrow> Some (Inl (AdJson 0 e)) | Inr raw \<Rightarrow> adapt_parsed to_ms raw)"

fun map_line :: "'j adapter_error \<Rightarrow> nat \<Rightarrow> 'j adapter_error" where
  "map_line (AdJson n e) line_no = AdJson line_no e"
| "map_line (AdIo e) line_no = AdIo e"
| "map_line (AdBadDirection d) line_no = AdBadDirection d"
| "map_line (AdBadHex h) line_no = AdBadHex h"
| "map_line AdMissingMessageId line_no = AdMissingMessageId"

text \<open>Parsing goes through a JSON value: \<open>json\<close> first, then \<open>from_value\<close>.\<close>

fun adapt_loop ::
  "('f \<Rightarrow> u64 option) \<Rightarrow> (string \<Rightarrow> 'j + 'v) \<Rightarrow> ('v \<Rightarrow> 'j + 'f external_line) \<Rightarrow> nat \<Rightarrow> string list \<Rightarrow>
   ('j adapter_error + evidence_record list) option" where
  "adapt_loop to_ms json from_value idx [] = Some (Inr [])"
| "adapt_loop to_ms json from_value idx (l # ls) =
     (let l = str_trim l; rest = adapt_loop to_ms json from_value (idx + 1) ls in
      if skipped_line l then rest
      else case json l of
          Inl e \<Rightarrow> Some (Inl (AdJson (idx + 1) e))
        | Inr v \<Rightarrow>
            (case from_value v of
               Inl e \<Rightarrow> Some (Inl (AdJson (idx + 1) e))
             | Inr raw \<Rightarrow>
                 (case adapt_parsed to_ms raw of
                    None \<Rightarrow> None
                  | Some (Inr (Some rec)) \<Rightarrow> try_bind rest (\<lambda>recs. Some (Inr (rec # recs)))
                  | Some (Inr None) \<Rightarrow> rest
                  | Some (Inl AdMissingMessageId) \<Rightarrow> rest
                  | Some (Inl e) \<Rightarrow> Some (Inl (map_line e (idx + 1))))))"

definition adapt_jsonl_str ::
  "('f \<Rightarrow> u64 option) \<Rightarrow> (string \<Rightarrow> 'j + 'v) \<Rightarrow> ('v \<Rightarrow> 'j + 'f external_line) \<Rightarrow> string \<Rightarrow>
   ('j adapter_error + evidence_record list) option" where
  "adapt_jsonl_str to_ms json from_value input = adapt_loop to_ms json from_value 0 (str_lines input)"

definition adapt_jsonl_path ::
  "('f \<Rightarrow> u64 option) \<Rightarrow> (string \<Rightarrow> 'j + 'v) \<Rightarrow> ('v \<Rightarrow> 'j + 'f external_line) \<Rightarrow> string + string \<Rightarrow>
   ('j adapter_error + evidence_record list) option" where
  "adapt_jsonl_path to_ms json from_value content =
     (case content of
        Inl e \<Rightarrow> Some (Inl (AdIo e)) | Inr text \<Rightarrow> adapt_jsonl_str to_ms json from_value text)"

section \<open>The timeline\<close>

record timeline_entry =
  te_timestamp_ms :: u64
  te_direction :: direction
  te_kind :: frame_kind
  te_message_id :: "u16 option"
  te_message_name :: "string option"
  te_message_class :: "message_class option"
  te_context :: "u32 option"
  te_payload_length :: nat

definition entry_from_parts :: "u64 \<Rightarrow> direction \<Rightarrow> bap_frame \<Rightarrow> timeline_entry" where
  "entry_from_parts ts direction frame =
     (let (i, context, n) =
        (case bf_body frame of
           BClear c \<Rightarrow> (Some (cb_msg_id c), Some (cb_context c), length (cb_payload c))
         | BEncrypted e \<Rightarrow> (None, None, 16 + length (eb_ciphertext e))
         | BOpaque b \<Rightarrow> (None, None, length b));
          (cls, name) =
        (case i of
           Some i \<Rightarrow> (Some (classify i), class_name (classify i))
         | None \<Rightarrow> (None, None))
      in \<lparr>te_timestamp_ms = ts, te_direction = direction, te_kind = bf_kind frame, te_message_id = i,
          te_message_name = name, te_message_class = cls, te_context = context, te_payload_length = n\<rparr>)"

definition entry_from_evidence :: "evidence_record \<Rightarrow> timeline_entry" where
  "entry_from_evidence r = entry_from_parts (er_timestamp_ms r) (er_direction r) (er_frame r)"

definition format_timestamp_ms :: "u64 \<Rightarrow> string" where
  "format_timestamp_ms ms =
     (let total_secs = unat ms div 1000; millis = unat ms mod 1000;
          mins = total_secs div 60; secs = total_secs mod 60
      in zero_padded 2 mins @ '':'' @ zero_padded 2 secs @ ''.'' @ zero_padded 3 millis)"

definition format_line :: "timeline_entry \<Rightarrow> string" where
  "format_line e =
     (let ts = format_timestamp_ms (te_timestamp_ms e);
          dir = direction_short (te_direction e);
          i = (case te_message_id e of
                 Some i \<Rightarrow> ''0x'' @ hex_lower (unat i)
               | None \<Rightarrow>
                   (case te_kind e of
                      KEncrypted \<Rightarrow> ''encrypted''
                    | KOther k \<Rightarrow> ''kind=0x'' @ show_hex_u8 k
                    | KClear \<Rightarrow> ''clear?''));
          name = (case te_message_name e of None \<Rightarrow> [] | Some n \<Rightarrow> n)
      in if name = [] then ts @ ''  '' @ dir @ ''  '' @ i
         else ts @ ''  '' @ dir @ ''  '' @ i @ ''  '' @ name)"

type_synonym timeline = "timeline_entry list"

definition timeline_new :: timeline where "timeline_new = []"

fun direction_order :: "direction \<Rightarrow> u8" where
  "direction_order DirClientToServer = 0"
| "direction_order DirServerToClient = 1"

definition entry_key :: "timeline_entry \<Rightarrow> u64 \<times> u8" where
  "entry_key e = (te_timestamp_ms e, direction_order (te_direction e))"

definition timeline_sort :: "timeline \<Rightarrow> timeline" where
  "timeline_sort t = sort_key entry_key t"

definition timeline_from_evidence :: "evidence_record list \<Rightarrow> timeline" where
  "timeline_from_evidence records = sort_key entry_key (map entry_from_evidence records)"

definition timeline_push :: "timeline_entry \<Rightarrow> timeline \<Rightarrow> timeline" where
  "timeline_push e t = t @ [e]"

definition format_lines :: "timeline \<Rightarrow> string list" where
  "format_lines t = map format_line t"

section \<open>Hex\<close>

lemma encode_hex_eq: "encode_hex = hex_encode"
  by (simp add: fun_eq_iff encode_hex_def hex_encode_def)

lemma hex_char_plain: "k < 16 \<Longrightarrow> \<not> is_continuation (hex_char k)"
  by (simp add: is_continuation_def of_char_hex_char)

lemma hex_encode_Cons: "hex_encode (b # bs) = hex_char (unat b div 16) # hex_char (unat b mod 16) # hex_encode bs"
  by (simp add: hex_encode_def show_hex_u8_eq)

lemma hex_encode_Nil [simp]: "hex_encode [] = []"
  by (simp add: hex_encode_def)

lemma hex_encode_plain: "hex_encode bs = [] \<or> \<not> is_continuation (hd (hex_encode bs))"
proof (cases bs)
  case (Cons b cs)
  have "unat b div 16 < 16" using unat_u8_lt [of b] by (simp del: unat_u8_lt)
  with Cons show ?thesis by (simp add: hex_encode_Cons hex_char_plain)
qed simp

lemma hex_slices_encode: "hex_slices bad (hex_encode bs) = Some (Inr bs)"
proof (induction bs)
  case (Cons b bs)
  have "parse_uint 16 255 [hex_char (unat b div 16), hex_char (unat b mod 16)] = Inr (unat b)"
    using parse_uint_hex_u8 [of b] unfolding show_hex_u8_eq .
  with Cons hex_encode_plain [of bs] show ?case by (auto simp: hex_encode_Cons)
qed simp

lemma decode_hex_text_encode: "decode_hex_text bad (encode_hex bs) = Some (Inr bs)"
proof (cases bs)
  case (Cons b cs)
  have "length (hex_encode bs) mod 2 = 0" "hex_encode bs \<noteq> []" by (simp_all add: Cons hex_encode_Cons)
  then show ?thesis
    by (simp add: encode_hex_eq decode_hex_text_def Let_def visible_hex_encode hex_slices_encode)
qed (simp add: encode_hex_eq decode_hex_text_def)

text \<open>
  A text of even length panics when a character ends in the middle of a pair (a euro sign before a
  digit), and a sign counts as a hex digit.
\<close>

lemma decode_hex_text_panics: "decode_hex_text bad (map char_of [0xE2 :: nat, 0x82, 0xAC, 0x31]) = None"
proof -
  have "str_trim (map char_of [0xE2 :: nat, 0x82, 0xAC, 0x31]) = map char_of [0xE2 :: nat, 0x82, 0xAC, 0x31]"
    by code_simp
  moreover have "is_continuation (char_of (0xAC :: nat))" by code_simp
  ultimately show ?thesis by (simp add: decode_hex_text_def Let_def)
qed

lemma decode_hex_text_sign: "decode_hex_text bad ''+f'' = Some (Inr [15])"
  by (simp add: decode_hex_text_def Let_def visible_ascii_def parse_uint_def to_digit_def)

text \<open>The text that \<open>short\<close> writes is not among the texts that \<open>parse\<close> reads.\<close>

lemma direction_short_not_parsed: "direction_parse (direction_short d) = Inl (JlBadDirection (direction_short d))"
  by (cases d) (simp_all add: direction_parse_def right_arrow_def)

lemma direction_parse_str [simp]: "direction_parse (direction_str d) = Inr d"
  by (cases d) (simp_all add: direction_parse_def)

section \<open>Documents\<close>

lemma str_lines_join:
  "\<forall>l \<in> set ls. line_feed \<notin> set l \<and> carriage_return \<notin> set l \<Longrightarrow>
   str_lines (concat (map (\<lambda>l. l @ [line_feed]) ls)) = ls"
proof (induction ls)
  case Nil
  then show ?case by (simp add: str_lines.simps)
next
  case (Cons l ls)
  let ?rest = "concat (map (\<lambda>l. l @ [line_feed]) ls)"
  have l: "\<forall>c \<in> set l. c \<noteq> line_feed" "drop_cr l = l"
    using Cons.prems by (auto, metis drop_cr_def last_in_set)
  have "takeWhile (\<lambda>c. c \<noteq> line_feed) (l @ line_feed # ?rest) = l"
    "dropWhile (\<lambda>c. c \<noteq> line_feed) (l @ line_feed # ?rest) = line_feed # ?rest"
    using l(1) by (simp_all add: takeWhile_append dropWhile_append)
  then show ?case
    using Cons l(2) by (simp add: str_lines.simps [of "l @ line_feed # ?rest"] Let_def)
qed

text \<open>The raw record of an evidence record with its frame in hex.\<close>

definition raw_of :: "evidence_record \<Rightarrow> raw_record" where
  "raw_of r =
     \<lparr>rr_timestamp_ms = er_timestamp_ms r, rr_direction = direction_str (er_direction r),
      rr_frame_hex = Some (case frame_serialize (er_frame r) of Inl _ \<Rightarrow> [] | Inr bs \<Rightarrow> encode_hex bs),
      rr_kind = None, rr_message_id = None, rr_context = None, rr_payload_hex = None, rr_tag_hex = None,
      rr_ciphertext_hex = None\<rparr>"

lemma record_from_raw_of:
  assumes "frame_wf (er_frame r)"
  shows "record_from_raw (raw_of r) = Some (Inr r)"
proof -
  obtain bs where "frame_serialize (er_frame r) = Inr bs" "frame_parse (bs @ []) = Inr (er_frame r, length bs)"
    using frame_parse_serialize_append [OF assms] frame_serialize_ok [OF assms] by metis
  then show ?thesis
    by (simp add: record_from_raw_def raw_of_def jl_decode_hex_def decode_hex_text_encode)
qed

lemma jsonl_loop_records:
  assumes "map str_trim (filter (\<lambda>l. \<not> skipped_line (str_trim l)) ls) = map written rs"
    and "\<forall>r \<in> set rs. frame_wf (er_frame r) \<and> json (written r) = Inr (raw_of r)"
  shows "jsonl_loop json idx ls = Some (Inr rs)"
  using assms
proof (induction ls arbitrary: rs idx)
  case (Cons l ls)
  show ?case
  proof (cases "skipped_line (str_trim l)")
    case False
    with Cons.prems(1) obtain r rs' where "rs = r # rs'" "str_trim l = written r"
        "map str_trim (filter (\<lambda>l. \<not> skipped_line (str_trim l)) ls) = map written rs'"
      by (cases rs) auto
    with Cons False show ?thesis by (simp add: Let_def record_from_raw_of)
  qed (use Cons in simp)
qed simp

text \<open>The adapter skips what has no message id; it never reports it.\<close>

lemma adapt_loop_error:
  "adapt_loop to_ms json from_value idx ls = Some (Inl e) \<Longrightarrow> e \<noteq> AdMissingMessageId"
  by (induction ls arbitrary: idx)
    (auto simp: Let_def try_bind_def split: if_splits sum.splits option.splits adapter_error.splits)

section \<open>The order of a timeline\<close>

lemma timeline_stable:
  "filter (\<lambda>e. entry_key e = k) (sort_key entry_key t) = filter (\<lambda>e. entry_key e = k) t"
  by (metis (mono_tags, lifting) filter_cong sort_key_stable)

lemma push_all: "foldl (\<lambda>t r. timeline_push (f r) t) t rs = t @ map f rs"
  by (induction rs arbitrary: t) (simp_all add: timeline_push_def)

text \<open>
  The timeline of a list of records is its stable sort: it has one entry per record, is
  ordered by time stamp and then client before server, keeps the order of the records where both
  agree, and is what pushing the entries one by one and sorting gives; sorting again changes nothing.
\<close>

lemma timeline_is_stable_sort:
  "mset (timeline_from_evidence rs) = mset (map entry_from_evidence rs)
   \<and> sorted (map entry_key (timeline_from_evidence rs))
   \<and> (\<forall>k. filter (\<lambda>e. entry_key e = k) (timeline_from_evidence rs)
         = filter (\<lambda>e. entry_key e = k) (map entry_from_evidence rs))
   \<and> timeline_sort (foldl (\<lambda>t r. timeline_push (entry_from_evidence r) t) timeline_new rs) = timeline_from_evidence rs
   \<and> timeline_sort (timeline_from_evidence rs) = timeline_from_evidence rs"
  by (simp add: timeline_from_evidence_def timeline_sort_def timeline_stable push_all timeline_new_def
      sort_key_id_if_sorted)

section \<open>Properties\<close>

text \<open>
  C36. Documents round-trip: a document has one record per line, with blank lines, comment lines
  and surrounding white space anywhere. When the JSON parser reads each record's text as the
  raw record with the frame serialized in hex, \<open>parse_jsonl_str\<close> returns exactly those
  records in order, without a panic.
\<close>

theorem evidence_document_roundtrip:
  assumes "\<forall>l \<in> set ls. line_feed \<notin> set l \<and> carriage_return \<notin> set l"
    and "map str_trim (filter (\<lambda>l. \<not> skipped_line (str_trim l)) ls) = map written rs"
    and "\<forall>r \<in> set rs. frame_wf (er_frame r) \<and> json (written r) = Inr (raw_of r)"
  shows "parse_jsonl_str json (concat (map (\<lambda>l. l @ [line_feed]) ls)) = Some (Inr rs)"
  using jsonl_loop_records [OF assms(2,3)] by (simp add: parse_jsonl_str_def str_lines_join [OF assms(1)])

definition sample_record :: evidence_record where
  "sample_record = \<lparr>er_timestamp_ms = 87, er_direction = DirServerToClient, er_frame = clear_frame 0x1A 1 [7]\<rparr>"

theorem evidence_document_roundtrip_witness:
  "parse_jsonl_str (\<lambda>l. if l = ''{}'' then Inr (raw_of sample_record) else Inl ())
     (concat (map (\<lambda>l. l @ [line_feed]) [''#c'', '' {}'', [], ''{}''])) = Some (Inr [sample_record, sample_record])"
proof (rule evidence_document_roundtrip [where written = "\<lambda>_. ''{}''"])
  show "\<forall>l \<in> set [''#c'', '' {}'', [], ''{}'']. line_feed \<notin> set l \<and> carriage_return \<notin> set l"
    by (simp add: line_feed_def carriage_return_def)
  have "str_trim '' {}'' = ''{}''" by code_simp
  then show "map str_trim (filter (\<lambda>l. \<not> skipped_line (str_trim l)) [''#c'', '' {}'', [], ''{}''])
      = map (\<lambda>_. ''{}'') [sample_record, sample_record]"
    by (simp add: visible_ascii_def skipped_line_def)
qed (simp add: sample_record_def)

end
