(* ===== verification/Correlation.thy ===== *)
theory Correlation
  imports Prelude Message_Codec "HOL-Library.Sublist"
begin

text \<open>
  The sequence algorithms of \<open>network/src/message_correlation.rs\<close>: the dynamic program for the
  longest common subsequence of two captures, the alignment that walks along it, the common
  pre and suf, n-grams and the search for equal payload windows. The theory shows that
  the table is optimal and that the alignment loses nothing of either capture.
\<close>

section \<open>Longest common subsequence\<close>

text \<open>The table \<open>dp\<close>, filled cell by cell as the two nested loops do.\<close>

definition dp_cell :: "u16 list \<Rightarrow> u16 list \<Rightarrow> nat \<Rightarrow> nat list list \<Rightarrow> nat \<Rightarrow> nat list list" where
  "dp_cell a b i dp j =
     dp[i := (dp ! i)[j :=
        (if a ! (i - 1) = b ! (j - 1) then dp ! (i - 1) ! (j - 1) + 1
         else max (dp ! (i - 1) ! j) (dp ! i ! (j - 1)))]]"

definition dp_row :: "u16 list \<Rightarrow> u16 list \<Rightarrow> nat list list \<Rightarrow> nat \<Rightarrow> nat list list" where
  "dp_row a b dp i = foldl (dp_cell a b i) dp [1..<length b + 1]"

definition dp_table :: "u16 list \<Rightarrow> u16 list \<Rightarrow> nat list list" where
  "dp_table a b =
     foldl (dp_row a b) (replicate (length a + 1) (replicate (length b + 1) 0)) [1..<length a + 1]"

text \<open>The walk back, which pushes the ids in reverse order.\<close>

function lcs_walk :: "u16 list \<Rightarrow> u16 list \<Rightarrow> nat list list \<Rightarrow> nat \<Rightarrow> nat \<Rightarrow> u16 list \<Rightarrow> u16 list" where
  "lcs_walk a b dp i j out =
     (if i > 0 \<and> j > 0 then
        (if a ! (i - 1) = b ! (j - 1) then lcs_walk a b dp (i - 1) (j - 1) (out @ [a ! (i - 1)])
         else if dp ! (i - 1) ! j \<ge> dp ! i ! (j - 1) then lcs_walk a b dp (i - 1) j out
         else lcs_walk a b dp i (j - 1) out)
      else out)"
  by pat_completeness auto
termination
  by (relation "measure (\<lambda>(a, b, dp, i, j, out). i + j)") auto

declare lcs_walk.simps [simp del]

definition lcs_ids :: "u16 list \<Rightarrow> u16 list \<Rightarrow> u16 list" where
  "lcs_ids a b = rev (lcs_walk a b (dp_table a b) (length a) (length b) [])"

section \<open>Alignment\<close>

datatype segment_kind = SegCommon | SegAOnly | SegBOnly

fun segment_kind_str :: "segment_kind \<Rightarrow> string" where
  "segment_kind_str SegCommon = ''COMMON''"
| "segment_kind_str SegAOnly = ''A_ONLY''"
| "segment_kind_str SegBOnly = ''B_ONLY''"

record alignment_segment =
  sg_kind :: segment_kind
  sg_ids :: "u16 list"

definition push_segment ::
  "alignment_segment list \<Rightarrow> segment_kind \<Rightarrow> u16 list \<Rightarrow> alignment_segment list" where
  "push_segment segs kind ids =
     (if ids = [] then segs
      else if segs \<noteq> [] \<and> sg_kind (last segs) = kind
      then butlast segs @ [(last segs)\<lparr>sg_ids := sg_ids (last segs) @ ids\<rparr>]
      else segs @ [\<lparr>sg_kind = kind, sg_ids = ids\<rparr>])"

text \<open>
  The loop over the targets \<open>lcs[li]\<close>; \<open>a\<close> and \<open>b\<close> are what is left from \<open>ia\<close> and \<open>ib\<close> on.
\<close>

fun align_loop ::
  "u16 list \<Rightarrow> u16 list \<Rightarrow> u16 list \<Rightarrow> alignment_segment list \<Rightarrow>
   alignment_segment list \<times> u16 list \<times> u16 list" where
  "align_loop [] a b segs = (segs, a, b)"
| "align_loop (target # lcs) a b segs =
     (let a_only = takeWhile (\<lambda>x. x \<noteq> target) a; a = dropWhile (\<lambda>x. x \<noteq> target) a;
          segs = push_segment segs SegAOnly a_only;
          b_only = takeWhile (\<lambda>x. x \<noteq> target) b; b = dropWhile (\<lambda>x. x \<noteq> target) b;
          segs = push_segment segs SegBOnly b_only
      in if a \<noteq> [] \<and> b \<noteq> [] \<and> hd a = target \<and> hd b = target
         then align_loop lcs (tl a) (tl b) (push_segment segs SegCommon [target])
         else (segs, a, b))"

definition align_sequences :: "u16 list \<Rightarrow> u16 list \<Rightarrow> alignment_segment list" where
  "align_sequences a b =
     (case align_loop (lcs_ids a b) a b [] of
        (segs, a', b') \<Rightarrow>
          let segs = (if a' \<noteq> [] then push_segment segs SegAOnly a' else segs)
          in if b' \<noteq> [] then push_segment segs SegBOnly b' else segs)"

section \<open>Divergence\<close>

function prefix_loop :: "u16 list \<Rightarrow> u16 list \<Rightarrow> nat \<Rightarrow> nat" where
  "prefix_loop a b pre =
     (if pre < length a \<and> pre < length b \<and> a ! pre = b ! pre
      then prefix_loop a b (pre + 1) else pre)"
  by pat_completeness auto
termination by (relation "measure (\<lambda>(a, b, p). length a - p)") auto

function suffix_loop :: "u16 list \<Rightarrow> u16 list \<Rightarrow> nat \<Rightarrow> nat \<Rightarrow> nat" where
  "suffix_loop a b pre suf =
     (if suf < length a - pre \<and> suf < length b - pre
         \<and> a ! (length a - 1 - suf) = b ! (length b - 1 - suf)
      then suffix_loop a b pre (suf + 1) else suf)"
  by pat_completeness auto
termination by (relation "measure (\<lambda>(a, b, p, s). length a - s)") auto

declare prefix_loop.simps [simp del] suffix_loop.simps [simp del]

datatype correlation_label =
    LbObserved | LbStructuralHypothesis | LbCorrelation | LbExternalReference | LbUnknown

fun correlation_label_str :: "correlation_label \<Rightarrow> string" where
  "correlation_label_str LbObserved = ''OBSERVED''"
| "correlation_label_str LbStructuralHypothesis = ''STRUCTURAL_HYPOTHESIS''"
| "correlation_label_str LbCorrelation = ''CORRELATION''"
| "correlation_label_str LbExternalReference = ''EXTERNAL_REFERENCE''"
| "correlation_label_str LbUnknown = ''UNKNOWN''"

record sequence_divergence =
  dv_common_prefix_length :: nat
  dv_common_suffix_length :: nat
  dv_divergence_index :: "nat option"
  dv_capture_a_message :: "u16 option"
  dv_capture_b_message :: "u16 option"
  dv_label :: correlation_label

definition compute_sequence_divergence :: "u16 list \<Rightarrow> u16 list \<Rightarrow> sequence_divergence" where
  "compute_sequence_divergence a b =
     (let pre = prefix_loop a b 0; suf = suffix_loop a b pre 0;
          diverges = (pre < length a \<or> pre < length b)
      in \<lparr>dv_common_prefix_length = pre, dv_common_suffix_length = suf,
          dv_divergence_index = (if diverges then Some pre else None),
          dv_capture_a_message = (if diverges \<and> pre < length a then Some (a ! pre) else None),
          dv_capture_b_message = (if diverges \<and> pre < length b then Some (b ! pre) else None),
          dv_label = LbObserved\<rparr>)"

section \<open>The table is optimal\<close>

text \<open>The specification of a cell, on the reversed prefixes.\<close>

fun lcs_len :: "'a list \<Rightarrow> 'a list \<Rightarrow> nat" where
  "lcs_len [] ys = 0"
| "lcs_len (x # xs) [] = 0"
| "lcs_len (x # xs) (y # ys) =
     (if x = y then Suc (lcs_len xs ys) else max (lcs_len xs (y # ys)) (lcs_len (x # xs) ys))"

lemma lcs_len_Nil [simp]: "lcs_len xs [] = 0" by (cases xs) simp_all

lemma lcs_len_upper: "subseq zs xs \<Longrightarrow> subseq zs ys \<Longrightarrow> length zs \<le> lcs_len xs ys"
proof (induction xs ys arbitrary: zs rule: lcs_len.induct)
  case (3 x xs y ys)
  show ?case
  proof (cases zs)
    case (Cons z zs')
    consider "x = y" "z = x" | "x = y" "z \<noteq> x" | "x \<noteq> y" "z \<noteq> x" | "x \<noteq> y" "z \<noteq> y" by metis
    then show ?thesis
    proof cases
      case 1
      then show ?thesis using 3 Cons by simp
    next
      case 2
      then have "length zs \<le> lcs_len xs ys" using "3.IH"(1) [of zs] "3.prems" Cons by simp
      then show ?thesis using 2 by simp
    next
      case 3
      then have "length zs \<le> lcs_len xs (y # ys)" using "3.IH"(2) [of zs] "3.prems" Cons by simp
      then show ?thesis using 3 by simp
    next
      case 4
      then have "length zs \<le> lcs_len (x # xs) ys" using "3.IH"(3) [of zs] "3.prems" Cons by simp
      then show ?thesis using 4 by simp
    qed
  qed simp
qed simp_all

lemma subseq_rev: "subseq xs ys \<Longrightarrow> subseq (rev xs) (rev ys)"
  by (induction rule: list_emb.induct) (simp_all add: subseq_rev_drop_many)

abbreviation cell_spec :: "u16 list \<Rightarrow> u16 list \<Rightarrow> nat \<Rightarrow> nat \<Rightarrow> nat" where
  "cell_spec a b i j \<equiv> lcs_len (rev (take i a)) (rev (take j b))"

lemma rev_take_Suc: "i < length a \<Longrightarrow> rev (take (Suc i) a) = a ! i # rev (take i a)"
  by (simp add: take_Suc_conv_app_nth)

lemma cell_spec_Suc:
  "i < length a \<Longrightarrow> j < length b \<Longrightarrow> cell_spec a b (Suc i) (Suc j) =
     (if a ! i = b ! j then Suc (cell_spec a b i j)
      else max (cell_spec a b i (Suc j)) (cell_spec a b (Suc i) j))"
  by (simp add: rev_take_Suc)

text \<open>\<open>filled\<close>: rows before \<open>i\<close> are done, row \<open>i\<close> is done before column \<open>j\<close>.\<close>

definition filled :: "u16 list \<Rightarrow> u16 list \<Rightarrow> nat \<Rightarrow> nat \<Rightarrow> nat list list \<Rightarrow> bool" where
  "filled a b i j dp \<longleftrightarrow> length dp = length a + 1
     \<and> (\<forall>x \<le> length a. length (dp ! x) = length b + 1
          \<and> (\<forall>y \<le> length b. x < i \<or> x = i \<and> y < j \<or> y = 0 \<longrightarrow> dp ! x ! y = cell_spec a b x y))"

lemma filledD:
  assumes "filled a b i j dp" "x \<le> length a"
  shows "length dp = length a + 1" "length (dp ! x) = length b + 1"
    "y \<le> length b \<Longrightarrow> x < i \<or> x = i \<and> y < j \<or> y = 0 \<Longrightarrow> dp ! x ! y = cell_spec a b x y"
  using assms unfolding filled_def by blast+

lemma filled_cell:
  assumes "filled a b (Suc i) (Suc j) dp" "i < length a" "j < length b"
  shows "filled a b (Suc i) (Suc (Suc j)) (dp_cell a b (Suc i) dp (Suc j))"
proof -
  let ?v = "cell_spec a b (Suc i) (Suc j)"
  have "dp ! i ! j = cell_spec a b i j" "dp ! i ! Suc j = cell_spec a b i (Suc j)"
    "dp ! Suc i ! j = cell_spec a b (Suc i) j"
    using assms(2,3) by (intro filledD(3) [OF assms(1)]; simp)+
  then have dp: "dp_cell a b (Suc i) dp (Suc j) = dp[Suc i := (dp ! Suc i)[Suc j := ?v]]"
    using cell_spec_Suc [OF assms(2,3)] by (simp add: dp_cell_def)
  show ?thesis
    unfolding dp filled_def
  proof (intro conjI allI impI)
    show "length (dp[Suc i := (dp ! Suc i)[Suc j := ?v]]) = length a + 1"
      using filledD(1) [OF assms(1), of 0] by simp
    fix x assume x: "x \<le> length a"
    show "length (dp[Suc i := (dp ! Suc i)[Suc j := ?v]] ! x) = length b + 1"
      using filledD(1,2) [OF assms(1) x] assms(2) by (simp add: nth_list_update)
    fix y assume y: "y \<le> length b" "x < Suc i \<or> x = Suc i \<and> y < Suc (Suc j) \<or> y = 0"
    show "dp[Suc i := (dp ! Suc i)[Suc j := ?v]] ! x ! y = cell_spec a b x y"
    proof (cases "x = Suc i \<and> y = Suc j")
      case True
      then show ?thesis using filledD(1,2) [OF assms(1) x] assms(2,3) by simp
    next
      case False
      then have "dp[Suc i := (dp ! Suc i)[Suc j := ?v]] ! x ! y = dp ! x ! y"
        using filledD(1) [OF assms(1) x] x by (cases "x = Suc i") (auto simp: nth_list_update)
      then show ?thesis using filledD(3) [OF assms(1) x y(1)] y(2) False by auto
    qed
  qed
qed

lemma filled_row:
  assumes "filled a b (Suc i) (Suc 0) dp" "i < length a"
  shows "filled a b (Suc (Suc i)) (Suc 0) (dp_row a b dp (Suc i))"
proof -
  have cells: "filled a b (Suc i) (Suc k) (foldl (dp_cell a b (Suc i)) dp [1..<Suc k])" if "k \<le> length b" for k
    using that
  proof (induction k)
    case (Suc k)
    then show ?case using filled_cell [of a b i k] assms(2) by simp
  qed (use assms in simp)
  have "filled a b (Suc i) (Suc (length b)) (dp_row a b dp (Suc i))"
    using cells [of "length b"] by (simp add: dp_row_def)
  then show ?thesis
    unfolding filled_def by (auto simp: less_Suc_eq_le le_Suc_eq)
qed

lemma dp_table_cells:
  assumes "i \<le> length a" "j \<le> length b"
  shows "dp_table a b ! i ! j = cell_spec a b i j"
proof -
  let ?z = "replicate (length a + 1) (replicate (length b + 1) (0 :: nat))"
  have rows: "filled a b (Suc k) (Suc 0) (foldl (dp_row a b) ?z [1..<Suc k])" if "k \<le> length a" for k
    using that
  proof (induction k)
    case 0
    have "?z ! x = replicate (length b + 1) 0" if "x \<le> length a" for x
      using that by (intro nth_replicate) simp
    moreover have "replicate (length b + 1) (0 :: nat) ! y = 0" if "y \<le> length b" for y
      using that by (intro nth_replicate) simp
    ultimately show ?case by (auto simp: filled_def simp del: replicate_Suc)
  next
    case (Suc k)
    then show ?case using filled_row [of a b k] by simp
  qed
  have "filled a b (Suc (length a)) (Suc 0) (dp_table a b)"
    using rows [of "length a"] by (simp add: dp_table_def)
  then show ?thesis using assms by (intro filledD(3) [of a b "Suc (length a)" "Suc 0"]) simp_all
qed

text \<open>The walk back collects a common subsequence of exactly the length in the cell.\<close>

lemma lcs_walk_correct:
  assumes "\<And>x y. x \<le> length a \<Longrightarrow> y \<le> length b \<Longrightarrow> dp ! x ! y = cell_spec a b x y"
    and "i \<le> length a" "j \<le> length b"
  obtains zs where "lcs_walk a b dp i j out = out @ rev zs" "subseq zs (take i a)" "subseq zs (take j b)"
    "length zs = cell_spec a b i j"
proof -
  have "\<exists>zs. lcs_walk a b dp i j out = out @ rev zs \<and> subseq zs (take i a) \<and> subseq zs (take j b)
      \<and> length zs = cell_spec a b i j"
    using assms(2,3)
  proof (induction "i + j" arbitrary: i j out rule: less_induct)
    case less
    show ?case
    proof (cases "i > 0 \<and> j > 0")
      case False
      then show ?thesis by (intro exI [of _ "[]"]) (auto simp: lcs_walk.simps [of a b dp i j])
    next
      case True
      then obtain p q where pq: "i = Suc p" "j = Suc q" by (metis gr0_implies_Suc)
      have p: "p < length a" and q: "q < length b" using pq less.prems by simp_all
      have sub: "subseq zs (take p a) \<Longrightarrow> subseq zs (take i a)" "subseq zs (take q b) \<Longrightarrow> subseq zs (take j b)" for zs
        using p q pq by (simp_all add: take_Suc_conv_app_nth subseq_rev_drop_many)
      show ?thesis
      proof (cases "a ! p = b ! q")
        case eq: True
        obtain zs where zs: "lcs_walk a b dp p q (out @ [a ! p]) = (out @ [a ! p]) @ rev zs"
            "subseq zs (take p a)" "subseq zs (take q b)" "length zs = cell_spec a b p q"
          using less.hyps [of p q "out @ [a ! p]"] pq p q by auto
        have "subseq (zs @ [a ! p]) (take i a)" "subseq (zs @ [a ! p]) (take j b)"
          using zs(2,3) eq pq p q by (simp_all add: take_Suc_conv_app_nth)
        moreover have "lcs_walk a b dp i j out = out @ rev (zs @ [a ! p])"
          using zs(1) eq pq by (subst lcs_walk.simps) simp
        moreover have "length (zs @ [a ! p]) = cell_spec a b i j"
          using zs(4) eq pq cell_spec_Suc [OF p q] by simp
        ultimately show ?thesis by blast
      next
        case ne: False
        note c = cell_spec_Suc [OF p q]
        have d: "dp ! p ! j = cell_spec a b p j" "dp ! i ! q = cell_spec a b i q"
          using assms(1) pq p q by simp_all
        show ?thesis
        proof (cases "dp ! p ! j \<ge> dp ! i ! q")
          case ge: True
          obtain zs where "lcs_walk a b dp p j out = out @ rev zs" "subseq zs (take p a)"
              "subseq zs (take j b)" "length zs = cell_spec a b p j"
            using less.hyps [of p j out] pq p less.prems by auto
          moreover have "lcs_walk a b dp i j out = lcs_walk a b dp p j out"
            using pq ne ge by (subst lcs_walk.simps) simp
          ultimately show ?thesis using sub(1) c ne ge d pq by (intro exI [of _ zs]) simp
        next
          case lt: False
          obtain zs where "lcs_walk a b dp i q out = out @ rev zs" "subseq zs (take i a)"
              "subseq zs (take q b)" "length zs = cell_spec a b i q"
            using less.hyps [of i q out] pq q less.prems by auto
          moreover have "lcs_walk a b dp i j out = lcs_walk a b dp i q out"
            using pq ne lt by (subst lcs_walk.simps) simp
          ultimately show ?thesis using sub(2) c ne lt d pq by (intro exI [of _ zs]) simp
        qed
      qed
    qed
  qed
  then show thesis using that by blast
qed

lemma lcs_ids_correct:
  "subseq (lcs_ids a b) a" "subseq (lcs_ids a b) b" "length (lcs_ids a b) = lcs_len (rev a) (rev b)"
proof -
  obtain zs where zs: "lcs_walk a b (dp_table a b) (length a) (length b) [] = [] @ rev zs"
      "subseq zs (take (length a) a)" "subseq zs (take (length b) b)"
      "length zs = cell_spec a b (length a) (length b)"
    using lcs_walk_correct [of a b "dp_table a b" "length a" "length b" "[]"] dp_table_cells by blast
  then have "lcs_ids a b = zs" by (simp add: lcs_ids_def)
  with zs show "subseq (lcs_ids a b) a" "subseq (lcs_ids a b) b"
      "length (lcs_ids a b) = lcs_len (rev a) (rev b)"
    by simp_all
qed

section \<open>The alignment\<close>

definition seg_ids :: "segment_kind set \<Rightarrow> alignment_segment list \<Rightarrow> u16 list" where
  "seg_ids K segs = concat (map sg_ids (filter (\<lambda>g. sg_kind g \<in> K) segs))"

definition segs_ok :: "alignment_segment list \<Rightarrow> bool" where
  "segs_ok segs \<longleftrightarrow> list_all (\<lambda>g. sg_ids g \<noteq> []) segs \<and> distinct_adj (map sg_kind segs)"

lemma seg_ids_Nil [simp]: "seg_ids K [] = []" by (simp add: seg_ids_def)

lemma seg_ids_append [simp]: "seg_ids K (xs @ ys) = seg_ids K xs @ seg_ids K ys"
  by (simp add: seg_ids_def)

lemma push_segment_ids [simp]:
  "seg_ids K (push_segment segs k ids) = seg_ids K segs @ (if k \<in> K then ids else [])"
proof (cases "ids \<noteq> [] \<and> segs \<noteq> [] \<and> sg_kind (last segs) = k")
  case True
  then obtain init l where segs: "segs = init @ [l]" "sg_kind l = k" by (cases segs rule: rev_cases) auto
  then show ?thesis using True by (simp add: push_segment_def seg_ids_def)
qed (auto simp: push_segment_def seg_ids_def)

lemma push_segment_ok: "segs_ok segs \<Longrightarrow> segs_ok (push_segment segs k ids)"
  by (cases segs rule: rev_cases) (auto simp: push_segment_def segs_ok_def distinct_adj_append_iff)

lemma subseq_first_match:
  "subseq (t # l) a \<Longrightarrow> \<exists>rest. dropWhile (\<lambda>x. x \<noteq> t) a = t # rest \<and> subseq l rest
     \<and> a = takeWhile (\<lambda>x. x \<noteq> t) a @ t # rest"
  by (induction a) (auto split: if_splits)

lemma align_loop_ids:
  assumes "subseq lcs a" "subseq lcs b" "align_loop lcs a b segs = (segs', a', b')" "segs_ok segs"
  shows "segs_ok segs'" "seg_ids {SegCommon} segs' = seg_ids {SegCommon} segs @ lcs"
    "seg_ids {SegCommon, SegAOnly} segs' @ a' = seg_ids {SegCommon, SegAOnly} segs @ a"
    "seg_ids {SegCommon, SegBOnly} segs' @ b' = seg_ids {SegCommon, SegBOnly} segs @ b"
proof -
  have "segs_ok segs' \<and> seg_ids {SegCommon} segs' = seg_ids {SegCommon} segs @ lcs
    \<and> seg_ids {SegCommon, SegAOnly} segs' @ a' = seg_ids {SegCommon, SegAOnly} segs @ a
    \<and> seg_ids {SegCommon, SegBOnly} segs' @ b' = seg_ids {SegCommon, SegBOnly} segs @ b"
    using assms
  proof (induction lcs arbitrary: a b segs)
    case (Cons t lcs)
    let ?ne = "\<lambda>x. x \<noteq> t"
    obtain ra where ra: "dropWhile ?ne a = t # ra" "subseq lcs ra" "a = takeWhile ?ne a @ t # ra"
      using subseq_first_match [OF Cons.prems(1)] by blast
    obtain rb where rb: "dropWhile ?ne b = t # rb" "subseq lcs rb" "b = takeWhile ?ne b @ t # rb"
      using subseq_first_match [OF Cons.prems(2)] by blast
    define segs1 where "segs1 = push_segment (push_segment (push_segment segs SegAOnly (takeWhile ?ne a))
        SegBOnly (takeWhile ?ne b)) SegCommon [t]"
    have ok: "segs_ok segs1" using Cons.prems(4) push_segment_ok by (simp add: segs1_def)
    have "align_loop lcs ra rb segs1 = (segs', a', b')"
      using Cons.prems(3) ra(1) rb(1) by (simp add: segs1_def Let_def)
    note ih = Cons.IH [OF ra(2) rb(2) this ok]
    have "seg_ids {SegCommon, SegAOnly} segs1 @ ra
        = seg_ids {SegCommon, SegAOnly} segs @ takeWhile ?ne a @ t # ra"
      "seg_ids {SegCommon, SegBOnly} segs1 @ rb
        = seg_ids {SegCommon, SegBOnly} segs @ takeWhile ?ne b @ t # rb"
      "seg_ids {SegCommon} segs1 = seg_ids {SegCommon} segs @ [t]"
      by (simp_all add: segs1_def)
    note segs1 = this(1,2) [folded ra(3) rb(3)] this(3)
    show ?case using ih segs1 by simp
  qed simp
  then show "segs_ok segs'" "seg_ids {SegCommon} segs' = seg_ids {SegCommon} segs @ lcs"
    "seg_ids {SegCommon, SegAOnly} segs' @ a' = seg_ids {SegCommon, SegAOnly} segs @ a"
    "seg_ids {SegCommon, SegBOnly} segs' @ b' = seg_ids {SegCommon, SegBOnly} segs @ b"
    by simp_all
qed

section \<open>The common prefix and suffix\<close>

lemma prefix_loop_spec:
  assumes "take p a = take p b" "p \<le> length a" "p \<le> length b"
  shows "let r = prefix_loop a b p in take r a = take r b \<and> r \<le> length a \<and> r \<le> length b
     \<and> \<not> (r < length a \<and> r < length b \<and> a ! r = b ! r)"
  using assms
proof (induction a b p rule: prefix_loop.induct)
  case (1 a b p)
  then show ?case
    by (subst prefix_loop.simps) (auto simp: Let_def take_Suc_conv_app_nth)
qed

lemma drop_back:
  assumes "s < length a"
  shows "drop (length a - (s + 1)) a = a ! (length a - 1 - s) # drop (length a - s) a"
proof -
  have "Suc (length a - 1 - s) = length a - s" "length a - (s + 1) = length a - 1 - s"
    using assms by simp_all
  then show ?thesis using assms Cons_nth_drop_Suc [of "length a - 1 - s" a] by simp
qed

lemma suffix_loop_spec:
  assumes "drop (length a - s) a = drop (length b - s) b" "s \<le> length a - p" "s \<le> length b - p"
  shows "let r = suffix_loop a b p s in drop (length a - r) a = drop (length b - r) b
     \<and> r \<le> length a - p \<and> r \<le> length b - p
     \<and> \<not> (r < length a - p \<and> r < length b - p \<and> a ! (length a - 1 - r) = b ! (length b - 1 - r))"
  using assms
proof (induction a b p s rule: suffix_loop.induct)
  case (1 a b p s)
  show ?case
  proof (cases "s < length a - p \<and> s < length b - p \<and> a ! (length a - 1 - s) = b ! (length b - 1 - s)")
    case True
    have "drop (length a - (s + 1)) a = a ! (length a - 1 - s) # drop (length a - s) a"
      "drop (length b - (s + 1)) b = b ! (length b - 1 - s) # drop (length b - s) b"
      using True by (intro drop_back; linarith)+
    then have "drop (length a - (s + 1)) a = drop (length b - (s + 1)) b"
      using True "1.prems"(1) by simp
    then show ?thesis using 1 True by (subst suffix_loop.simps) simp
  qed (use 1 in \<open>subst suffix_loop.simps, auto simp: Let_def\<close>)
qed

section \<open>Properties\<close>

text \<open>
  C35. \<open>lcs_ids\<close> returns a longest common subsequence: it occurs in order in both captures and
  no common subsequence is longer.
\<close>

theorem lcs_optimal:
  "subseq (lcs_ids a b) a \<and> subseq (lcs_ids a b) b
   \<and> (\<forall>zs. subseq zs a \<and> subseq zs b \<longrightarrow> length zs \<le> length (lcs_ids a b))"
proof (intro conjI allI impI)
  fix zs assume "subseq zs a \<and> subseq zs b"
  then have "subseq (rev zs) (rev a)" "subseq (rev zs) (rev b)"
    using subseq_rev by blast+
  from lcs_len_upper [OF this] show "length zs \<le> length (lcs_ids a b)"
    by (simp add: lcs_ids_correct(3))
qed (rule lcs_ids_correct)+

text \<open>In these two captures nothing longer than the handshake is common.\<close>

theorem lcs_optimal_witness:
  "lcs_ids [0x1E, 0x30, 0x19, 0x79] [0x1E, 0x19, 0x31, 0x79] = [0x1E, 0x19, 0x79]
   \<and> length [0x19, 0x79 :: u16] \<le> length (lcs_ids [0x1E, 0x30, 0x19, 0x79] [0x1E, 0x19, 0x31, 0x79])"
proof
  show "lcs_ids [0x1E, 0x30, 0x19, 0x79] [0x1E, 0x19, 0x31, 0x79] = [0x1E, 0x19, 0x79]" by code_simp
  have "subseq [0x19, 0x79 :: u16] [0x1E, 0x30, 0x19, 0x79]" "subseq [0x19, 0x79 :: u16] [0x1E, 0x19, 0x31, 0x79]"
    by simp_all
  then show "length [0x19, 0x79 :: u16] \<le> length (lcs_ids [0x1E, 0x30, 0x19, 0x79] [0x1E, 0x19, 0x31, 0x79])"
    using lcs_optimal [of "[0x1E, 0x30, 0x19, 0x79]" "[0x1E, 0x19, 0x31, 0x79]"] by blast
qed

text \<open>
  \<open>align_sequences\<close> loses nothing and invents nothing: the common and the A-only segments
  put together are the first capture, the common and the B-only segments the second, the
  common segments a longest common subsequence; no segment is empty and neighbours differ.
\<close>

lemma alignment_faithful:
  "seg_ids {SegCommon, SegAOnly} (align_sequences a b) = a
   \<and> seg_ids {SegCommon, SegBOnly} (align_sequences a b) = b
   \<and> seg_ids {SegCommon} (align_sequences a b) = lcs_ids a b
   \<and> list_all (\<lambda>g. sg_ids g \<noteq> []) (align_sequences a b)
   \<and> distinct_adj (map sg_kind (align_sequences a b))"
proof -
  obtain segs a' b' where l: "align_loop (lcs_ids a b) a b [] = (segs, a', b')"
    by (cases "align_loop (lcs_ids a b) a b []") auto
  have ok: "segs_ok []" by (simp add: segs_ok_def)
  note al = align_loop_ids [OF lcs_ids_correct(1,2) l ok]
  have segs: "align_sequences a b = push_segment (push_segment segs SegAOnly a') SegBOnly b'"
    using l by (simp add: align_sequences_def Let_def push_segment_def)
  have "segs_ok (align_sequences a b)" unfolding segs using al(1) by (intro push_segment_ok)
  then show ?thesis using al(2-4) by (simp add: segs segs_ok_def)
qed

text \<open>
  \<open>compute_sequence_divergence\<close> finds the longest common prefix and then the longest common
  suffix of what is left, the two do not overlap, and it reports a divergence exactly when the
  captures differ.
\<close>

lemma divergence_exact:
  "let d = compute_sequence_divergence a b;
       p = dv_common_prefix_length d; s = dv_common_suffix_length d
   in take p a = take p b \<and> drop (length a - s) a = drop (length b - s) b
      \<and> p + s \<le> min (length a) (length b)
      \<and> \<not> (p < length a \<and> p < length b \<and> a ! p = b ! p)
      \<and> \<not> (p + s < min (length a) (length b) \<and> a ! (length a - 1 - s) = b ! (length b - 1 - s))
      \<and> dv_divergence_index d = (if a = b then None else Some p)"
proof -
  define p where "p = prefix_loop a b 0"
  define s where "s = suffix_loop a b p 0"
  have p: "take p a = take p b \<and> p \<le> length a \<and> p \<le> length b \<and> \<not> (p < length a \<and> p < length b \<and> a ! p = b ! p)"
    using prefix_loop_spec [of 0 a b] by (simp add: p_def Let_def)
  have s: "drop (length a - s) a = drop (length b - s) b \<and> s \<le> length a - p \<and> s \<le> length b - p
     \<and> \<not> (s < length a - p \<and> s < length b - p \<and> a ! (length a - 1 - s) = b ! (length b - 1 - s))"
    using suffix_loop_spec [of a 0 b p] by (simp add: s_def Let_def)
  have ab: "(p < length a \<or> p < length b) \<longleftrightarrow> a \<noteq> b"
    using p by (metis le_antisym linorder_not_le take_all_iff)
  have "p + s < min (length a) (length b) \<longleftrightarrow> s < length a - p \<and> s < length b - p" by auto
  moreover have "p + s \<le> min (length a) (length b)" using p s by auto
  ultimately show ?thesis
    using p s ab
    by (simp add: compute_sequence_divergence_def Let_def flip: p_def s_def)
qed

end
