(* ===== verification/Sequence_Analysis.thy ===== *)
theory Sequence_Analysis
  imports Message_Inventory Correlation "HOL-Library.Product_Lexorder" "HOL-Library.Multiset"
begin

text \<open>
  The rest of \<open>network/src/message_correlation.rs\<close>: the ordered sequence of a capture, n-grams
  and the sequences stable across two captures, transitions, edges, request-response
  candidates, context and payload facts, and value windows shared by neighbours. Mean, median
  and jitter (\<open>f64\<close>) are in \<open>Correlation_Report\<close>. The theory shows that the sequence is the
  capture and that the stable sequences are exactly the shared windows.
\<close>

section \<open>The sequence of a capture\<close>

record corr_obs =
  co_capture_id :: string
  co_frame_index :: u32
  co_frame_order :: "u64 option"
  co_timestamp :: "u64 option"
  co_timing_basis :: string
  co_direction :: string
  co_message_id :: u16
  co_context :: u32
  co_payload_len :: nat
  co_fingerprint :: string

definition from_message_observation :: "message_observation \<Rightarrow> corr_obs" where
  "from_message_observation o1 =
     (let (timestamp, basis) = (case mo_frame_order o1 of
            Some ord \<Rightarrow> (Some ord, ''frame_order'') | None \<Rightarrow> (None, ''unknown''))
      in \<lparr>co_capture_id = mo_capture_id o1, co_frame_index = mo_frame_index o1,
          co_frame_order = mo_frame_order o1, co_timestamp = timestamp, co_timing_basis = basis,
          co_direction = mo_direction o1, co_message_id = mo_message_id o1, co_context = mo_context o1,
          co_payload_len = mo_payload_len o1, co_fingerprint = mo_payload_sha256 o1\<rparr>)"

record message_sequence =
  ms_capture_id :: string
  ms_message_ids :: "u16 list"
  ms_length :: nat
  ms_unique :: "u16 list"
  ms_direction_changes :: u32
  ms_context_changes :: u32
  ms_observations :: "corr_obs list"

text \<open>A stable sort by index and then order, a missing order counting as 0.\<close>

definition order_key :: "message_observation \<Rightarrow> u32 \<times> u64" where
  "order_key o1 = (mo_frame_index o1, case mo_frame_order o1 of None \<Rightarrow> 0 | Some n \<Rightarrow> n)"

definition ordered_observations :: "capture_inventory \<Rightarrow> message_observation list" where
  "ordered_observations c = sort_key order_key (concat (map mg_observations (bt_vals (ci_inventory c))))"

definition count_changes :: "('a \<Rightarrow> 'b) \<Rightarrow> 'a list \<Rightarrow> u32" where
  "count_changes f xs = foldl (\<lambda>n w. if f (fst w) \<noteq> f (snd w) then n + 1 else n) 0 (observe_sequence_pairs xs)"

definition build_sequence :: "capture_inventory \<Rightarrow> message_sequence" where
  "build_sequence c =
     (let corr = map from_message_observation (ordered_observations c);
          ids = map co_message_id corr
      in \<lparr>ms_capture_id = ci_capture_id c, ms_message_ids = ids, ms_length = length ids,
          ms_unique = foldl (\<lambda>s i. bs_insert i s) [] ids,
          ms_direction_changes = count_changes co_direction corr,
          ms_context_changes = count_changes co_context corr, ms_observations = corr\<rparr>)"

section \<open>n-grams\<close>

definition sequence_key :: "u16 list \<Rightarrow> string" where
  "sequence_key ids = join_with right_arrow (map fmt_msg_id ids)"

definition dir_short :: "string \<Rightarrow> string" where
  "dir_short d = (if d = ''client_to_server'' then ''C2S'' else if d = ''server_to_client'' then ''S2C'' else d)"

definition opposite_dir :: "string \<Rightarrow> string \<Rightarrow> bool" where
  "opposite_dir a b \<longleftrightarrow>
     a = ''client_to_server'' \<and> b = ''server_to_client'' \<or> a = ''server_to_client'' \<and> b = ''client_to_server''"

text \<open>\<open>windows(n)\<close> for a positive \<open>n\<close>.\<close>

definition windows :: "nat \<Rightarrow> 'a list \<Rightarrow> 'a list list" where
  "windows n xs = map (\<lambda>i. take n (drop i xs)) [0..<Suc (length xs) - n]"

definition ngrams_for_observations :: "corr_obs list \<Rightarrow> nat \<Rightarrow> (u16 list \<times> string \<times> string) list" where
  "ngrams_for_observations obs n =
     (if n = 0 \<or> length obs < n then []
      else map (\<lambda>w. (map co_message_id w, join_with right_arrow (map (dir_short \<circ> co_direction) w),
                     join_with right_arrow (map (\<lambda>o1. show_nat (unat (co_context o1))) w)))
             (windows n obs))"

datatype sequence_stability = StableSequence | PartiallyStable | CaptureSpecific | StabilityUnknown

fun stability_str :: "sequence_stability \<Rightarrow> string" where
  "stability_str StableSequence = ''STABLE_SEQUENCE''"
| "stability_str PartiallyStable = ''PARTIALLY_STABLE''"
| "stability_str CaptureSpecific = ''CAPTURE_SPECIFIC''"
| "stability_str StabilityUnknown = ''UNKNOWN''"

record ngram_record =
  ng_n :: u8
  ng_sequence :: "u16 list"
  ng_key :: string
  ng_occurrences :: u32
  ng_captures :: "string list"
  ng_directions :: string
  ng_contexts :: string
  ng_class :: sequence_stability

type_synonym ngram_map = "(u8 \<times> string, ngram_record) btree"

definition ngram_step ::
  "string \<Rightarrow> u8 \<Rightarrow> ngram_map \<Rightarrow> u16 list \<times> string \<times> string \<Rightarrow> ngram_map" where
  "ngram_step cap n m w =
     (case w of (ids, dirs, ctxs) \<Rightarrow>
        let key = sequence_key ids in
        bt_entry (n, key)
          \<lparr>ng_n = n, ng_sequence = ids, ng_key = key, ng_occurrences = 0, ng_captures = [],
           ng_directions = dirs, ng_contexts = ctxs, ng_class = StabilityUnknown\<rparr>
          (\<lambda>e. e\<lparr>ng_occurrences := ng_occurrences e + 1, ng_captures := bs_insert cap (ng_captures e),
                 ng_directions := (if ng_directions e = [] then dirs else ng_directions e),
                 ng_contexts := (if ng_contexts e = [] then ctxs else ng_contexts e)\<rparr>) m)"

definition ngram_map_of :: "message_sequence list \<Rightarrow> ngram_map" where
  "ngram_map_of seqs =
     foldl (\<lambda>m seq. foldl (\<lambda>m n. foldl (ngram_step (ms_capture_id seq) n) m
                             (ngrams_for_observations (ms_observations seq) (unat n)))
              m [1, 2, 3, 4]) [] seqs"

definition classify_ngram :: "ngram_record \<Rightarrow> ngram_record" where
  "classify_ngram g =
     g\<lparr>ng_class :=
        (if length (ng_captures g) = 2 then (if ng_n g \<ge> 2 then StableSequence else PartiallyStable)
         else if length (ng_captures g) = 1 then CaptureSpecific else StabilityUnknown)\<rparr>"

text \<open>\<open>sort_by\<close>: longer first, then more frequent, then by key; the sort is stable.\<close>

definition ngram_list :: "message_sequence list \<Rightarrow> ngram_record list" where
  "ngram_list seqs =
     sort_key (\<lambda>g. (- int (unat (ng_n g)), - int (unat (ng_occurrences g)), ng_key g))
       (map classify_ngram (bt_vals (ngram_map_of seqs)))"

definition count_subsequence :: "u16 list \<Rightarrow> u16 list \<Rightarrow> u32" where
  "count_subsequence hay needle =
     (if needle = [] \<or> length hay < length needle then 0
      else foldl (\<lambda>c w. if w = needle then c + 1 else c) 0 (windows (length needle) hay))"

record stable_subsequence =
  sq_sequence :: "u16 list"
  sq_key :: string
  sq_occurrences_a :: u32
  sq_occurrences_b :: u32
  sq_len :: nat
  sq_class :: sequence_stability

definition stable_of :: "message_sequence \<Rightarrow> message_sequence \<Rightarrow> ngram_record \<Rightarrow> stable_subsequence" where
  "stable_of a b g =
     \<lparr>sq_sequence = ng_sequence g, sq_key = ng_key g,
      sq_occurrences_a = count_subsequence (ms_message_ids a) (ng_sequence g),
      sq_occurrences_b = count_subsequence (ms_message_ids b) (ng_sequence g),
      sq_len = length (ng_sequence g), sq_class = StableSequence\<rparr>"

text \<open>\<open>dedup_by\<close>: an element goes when the one kept before it has the same key.\<close>

fun dedup_by :: "('a \<Rightarrow> 'a \<Rightarrow> bool) \<Rightarrow> 'a list \<Rightarrow> 'a list" where
  "dedup_by same [] = []"
| "dedup_by same [x] = [x]"
| "dedup_by same (x # y # xs) = (if same y x then dedup_by same (x # xs) else x # dedup_by same (y # xs))"

definition stable_sequences_of :: "message_sequence \<Rightarrow> message_sequence \<Rightarrow> stable_subsequence list" where
  "stable_sequences_of a b =
     dedup_by (\<lambda>x y. sq_key x = sq_key y)
       (sort_key (\<lambda>s. (- int (sq_len s), sq_key s))
         (map (stable_of a b)
           (filter (\<lambda>g. ng_n g \<ge> 2 \<and> length (ng_captures g) = 2) (ngram_list [a, b]))))"


section \<open>Transitions and edges\<close>

text \<open>The neighbours of all sequences with the capture they were seen in.\<close>

definition neighbours :: "message_sequence list \<Rightarrow> (string \<times> corr_obs \<times> corr_obs) list" where
  "neighbours seqs =
     concat (map (\<lambda>q. map (Pair (ms_capture_id q)) (observe_sequence_pairs (ms_observations q))) seqs)"

definition delta_between :: "corr_obs \<Rightarrow> corr_obs \<Rightarrow> u64 option" where
  "delta_between a b =
     (case (co_timestamp a, co_timestamp b) of
        (Some x, Some y) \<Rightarrow> if y \<ge> x then Some (y - x) else None
      | _ \<Rightarrow> None)"

record direction_transition =
  dt_from_id :: u16
  dt_to_id :: u16
  dt_from_direction :: string
  dt_to_direction :: string
  dt_count :: u32
  dt_captures :: "string list"
  dt_label :: correlation_label

definition direction_map ::
  "(string \<times> corr_obs \<times> corr_obs) list \<Rightarrow> (u16 \<times> u16 \<times> string \<times> string, direction_transition) btree" where
  "direction_map ps =
     foldl (\<lambda>m (cap, f, t).
         bt_entry (co_message_id f, co_message_id t, co_direction f, co_direction t)
           \<lparr>dt_from_id = co_message_id f, dt_to_id = co_message_id t, dt_from_direction = co_direction f,
            dt_to_direction = co_direction t, dt_count = 0, dt_captures = [], dt_label = LbCorrelation\<rparr>
           (\<lambda>e. e\<lparr>dt_count := dt_count e + 1, dt_captures := bs_insert cap (dt_captures e)\<rparr>) m) [] ps"

definition direction_transitions_of :: "message_sequence list \<Rightarrow> direction_transition list" where
  "direction_transitions_of seqs =
     sort_key (\<lambda>t. - int (unat (dt_count t))) (bt_vals (direction_map (neighbours seqs)))"

definition edge_deltas ::
  "(string \<times> corr_obs \<times> corr_obs) list \<Rightarrow> (u16 \<times> u16, u64 list) btree" where
  "edge_deltas ps =
     foldl (\<lambda>m (cap, f, t).
         case delta_between f t of
           None \<Rightarrow> m
         | Some d \<Rightarrow> bt_entry (co_message_id f, co_message_id t) [] (\<lambda>ds. ds @ [d]) m) [] ps"

type_synonym edge_meta = "string list \<times> (string, u32) btree \<times> (string, u32) btree"

definition edge_meta_map ::
  "(string \<times> corr_obs \<times> corr_obs) list \<Rightarrow> (u16 \<times> u16, edge_meta) btree" where
  "edge_meta_map ps =
     foldl (\<lambda>m (cap, f, t).
         bt_entry (co_message_id f, co_message_id t) ([], [], [])
           (\<lambda>(caps, dirs, ctxs).
              (bs_insert cap caps,
               bt_count (dir_short (co_direction f) @ right_arrow @ dir_short (co_direction t)) dirs,
               bt_count (show_nat (unat (co_context f)) @ right_arrow @ show_nat (unat (co_context t))) ctxs)) m) [] ps"

text \<open>\<open>max_by_key\<close> over a map returns the last of the greatest.\<close>

definition max_by_count :: "('k, u32) btree \<Rightarrow> 'k option" where
  "max_by_count m =
     map_option fst (foldl (\<lambda>best x. case best of
         None \<Rightarrow> Some x
       | Some b \<Rightarrow> if snd x \<ge> snd b then Some x else Some b) None m)"

definition majority_dir_pair :: "message_sequence \<Rightarrow> u16 \<Rightarrow> u16 \<Rightarrow> (string \<times> string) option" where
  "majority_dir_pair q from_id to_id =
     max_by_count (foldl (\<lambda>m w.
         if co_message_id (fst w) = from_id \<and> co_message_id (snd w) = to_id
         then bt_count (co_direction (fst w), co_direction (snd w)) m else m) []
       (observe_sequence_pairs (ms_observations q)))"

datatype edge_class = StableEdge | CaptureSpecificEdge | DivergentEdge

fun edge_class_str :: "edge_class \<Rightarrow> string" where
  "edge_class_str StableEdge = ''STABLE_EDGE''"
| "edge_class_str CaptureSpecificEdge = ''CAPTURE_SPECIFIC_EDGE''"
| "edge_class_str DivergentEdge = ''DIVERGENT_EDGE''"

definition classify_edge ::
  "u16 \<Rightarrow> u16 \<Rightarrow> message_sequence \<Rightarrow> message_sequence \<Rightarrow> bool \<Rightarrow> bool \<Rightarrow> edge_class" where
  "classify_edge from_id to_id a b in_a in_b =
     (if in_a \<and> in_b then
        (case (majority_dir_pair a from_id to_id, majority_dir_pair b from_id to_id) of
           (Some da, Some db) \<Rightarrow> if da = db then StableEdge else DivergentEdge
         | _ \<Rightarrow> StableEdge)
      else CaptureSpecificEdge)"

text \<open>\<open>ed_deltas\<close> is what the median of the code is taken of.\<close>

record transition_edge =
  ed_from_id :: u16
  ed_to_id :: u16
  ed_count :: u32
  ed_captures :: "string list"
  ed_direction_transition :: string
  ed_context_transition :: string
  ed_deltas :: "u64 list"
  ed_class :: edge_class

definition or_default :: "string option \<Rightarrow> string" where
  "or_default x = (case x of None \<Rightarrow> [] | Some y \<Rightarrow> y)"

definition transition_edges_of :: "message_sequence \<Rightarrow> message_sequence \<Rightarrow> transition_edge list" where
  "transition_edges_of a b =
     (let ps = neighbours [a, b]; deltas = edge_deltas ps in
      sort_key (\<lambda>e. (- int (unat (ed_count e)), ed_from_id e))
        (map (\<lambda>((f, t), caps, dirs, ctxs).
            \<lparr>ed_from_id = f, ed_to_id = t, ed_count = foldl (+) 0 (bt_vals dirs), ed_captures = caps,
             ed_direction_transition = or_default (max_by_count dirs),
             ed_context_transition = or_default (max_by_count ctxs),
             ed_deltas = (case bt_get deltas (f, t) of None \<Rightarrow> [] | Some ds \<Rightarrow> ds),
             ed_class = classify_edge f t a b (ms_capture_id a \<in> set caps) (ms_capture_id b \<in> set caps)\<rparr>)
          (edge_meta_map ps)))"

section \<open>Request-response candidates\<close>

definition consecutive_same_context :: "message_sequence \<Rightarrow> u16 \<Rightarrow> u16 \<Rightarrow> bool" where
  "consecutive_same_context q from_id to_id =
     list_ex (\<lambda>w. co_message_id (fst w) = from_id \<and> co_message_id (snd w) = to_id
                  \<and> co_context (fst w) = co_context (snd w)) (observe_sequence_pairs (ms_observations q))"

definition length_consistent :: "message_sequence \<Rightarrow> u16 \<Rightarrow> bool" where
  "length_consistent q i =
     (length (foldl (\<lambda>s l. bs_insert l s) []
        (map co_payload_len (filter (\<lambda>o1. co_message_id o1 = i) (ms_observations q)))) \<le> 1)"

record rr_candidate =
  rr_request_id :: u16
  rr_response_id :: u16
  rr_request_direction :: string
  rr_response_direction :: string
  rr_occurrences :: u32
  rr_captures :: "string list"
  rr_signals :: "string list"
  rr_type :: string
  rr_confidence :: correlation_label
  rr_semantic :: correlation_label

definition rr_signals_of ::
  "transition_edge list \<Rightarrow> message_sequence \<Rightarrow> message_sequence \<Rightarrow> direction_transition \<Rightarrow> string list" where
  "rr_signals_of edges a b t =
     (let f = dt_from_id t; i = dt_to_id t in
      [''opposite_direction'']
      @ (if (if f \<ge> i then f - i else i - f) = 1 then [''consecutive_ids''] else [])
      @ (if length (dt_captures t) = 2 then [''stable_across_captures''] else [])
      @ (if dt_count t \<ge> 2 then [''repeated''] else [])
      @ (if consecutive_same_context a f i \<or> consecutive_same_context b f i then [''compatible_context''] else [])
      @ (if length_consistent a i \<and> length_consistent b i then [''consistent_lengths''] else [])
      @ (case List.find (\<lambda>e. ed_from_id e = f \<and> ed_to_id e = i) edges of
           None \<Rightarrow> [] | Some e \<Rightarrow> if ed_class e = StableEdge then [''stable_edge''] else []))"

definition build_rr_candidates ::
  "direction_transition list \<Rightarrow> transition_edge list \<Rightarrow> message_sequence \<Rightarrow> message_sequence \<Rightarrow> rr_candidate list" where
  "build_rr_candidates transitions edges a b =
     dedup_by (\<lambda>x y. rr_request_id x = rr_request_id y \<and> rr_response_id x = rr_response_id y)
       (sort_key (\<lambda>c. - int (unat (rr_occurrences c)))
         (concat (map (\<lambda>t.
            if \<not> opposite_dir (dt_from_direction t) (dt_to_direction t) then []
            else let signals = rr_signals_of edges a b t in
              if length signals < 3 then []
              else [\<lparr>rr_request_id = dt_from_id t, rr_response_id = dt_to_id t,
                     rr_request_direction = dt_from_direction t, rr_response_direction = dt_to_direction t,
                     rr_occurrences = dt_count t, rr_captures = dt_captures t, rr_signals = signals,
                     rr_type = ''REQUEST_RESPONSE_CANDIDATE'', rr_confidence = LbStructuralHypothesis,
                     rr_semantic = LbUnknown\<rparr>]) transitions)))"


section \<open>Contexts\<close>

record context_bucket =
  cb_context :: u32
  cb_captures :: "string list"
  cb_directions :: "(string, u32) btree"
  cb_lengths :: "(nat, u32) btree"
  cb_count :: u32

record context_correlation =
  cx_message_id :: u16
  cx_contexts :: "u32 list"
  cx_by_context :: "context_bucket list"
  cx_class :: correlation_label

text \<open>The observations of all sequences with the id of their capture.\<close>

definition sightings :: "message_sequence list \<Rightarrow> (string \<times> corr_obs) list" where
  "sightings seqs = concat (map (\<lambda>q. map (Pair (ms_capture_id q)) (ms_observations q)) seqs)"

definition bucket_map :: "(string \<times> corr_obs) list \<Rightarrow> (u16 \<times> u32, context_bucket) btree" where
  "bucket_map xs =
     foldl (\<lambda>m (cap, o1).
         bt_entry (co_message_id o1, co_context o1)
           \<lparr>cb_context = co_context o1, cb_captures = [], cb_directions = [], cb_lengths = [], cb_count = 0\<rparr>
           (\<lambda>e. e\<lparr>cb_captures := bs_insert cap (cb_captures e),
                  cb_directions := bt_count (co_direction o1) (cb_directions e),
                  cb_lengths := bt_count (co_payload_len o1) (cb_lengths e),
                  cb_count := cb_count e + 1\<rparr>) m) [] xs"

definition build_context_correlations :: "message_sequence \<Rightarrow> message_sequence \<Rightarrow> context_correlation list" where
  "build_context_correlations a b =
     map (\<lambda>(i, buckets). \<lparr>cx_message_id = i, cx_contexts = foldl (\<lambda>s e. bs_insert (cb_context e) s) [] buckets,
                          cx_by_context = buckets, cx_class = LbObserved\<rparr>)
       (foldl (\<lambda>m ((i, x), bucket). bt_entry i [] (\<lambda>bs. bs @ [bucket]) m) [] (bucket_map (sightings [a, b])))"

record context_transition =
  ct_before :: u32
  ct_message_id :: u16
  ct_after :: u32
  ct_count :: u32
  ct_captures :: "string list"
  ct_label :: correlation_label

definition context_map ::
  "(string \<times> corr_obs \<times> corr_obs) list \<Rightarrow> (u32 \<times> u16 \<times> u32, context_transition) btree" where
  "context_map ps =
     foldl (\<lambda>m (cap, f, t).
         if co_context f = co_context t then m
         else bt_entry (co_context f, co_message_id t, co_context t)
                \<lparr>ct_before = co_context f, ct_message_id = co_message_id t, ct_after = co_context t,
                 ct_count = 0, ct_captures = [], ct_label = LbStructuralHypothesis\<rparr>
                (\<lambda>e. e\<lparr>ct_count := ct_count e + 1, ct_captures := bs_insert cap (ct_captures e)\<rparr>) m) [] ps"

definition build_context_transitions :: "message_sequence \<Rightarrow> message_sequence \<Rightarrow> context_transition list" where
  "build_context_transitions a b =
     take 128 (sort_key (\<lambda>t. - int (unat (ct_count t))) (bt_vals (context_map (neighbours [a, b]))))"

section \<open>Payload facts\<close>

record fingerprint_repeat =
  fr_message_id :: u16
  fr_direction :: string
  fr_context :: u32
  fr_fingerprint :: string
  fr_count :: u32
  fr_positions :: "u32 list"
  fr_captures :: "string list"
  fr_label :: correlation_label

record payload_variation =
  pv_message_id :: u16
  pv_direction :: string
  pv_context :: u32
  pv_distinct :: nat
  pv_captures :: "string list"
  pv_label :: correlation_label

definition fingerprint_map ::
  "(string \<times> corr_obs) list \<Rightarrow> (u16 \<times> string \<times> u32 \<times> string, fingerprint_repeat) btree" where
  "fingerprint_map xs =
     foldl (\<lambda>m (cap, o1).
         bt_entry (co_message_id o1, co_direction o1, co_context o1, co_fingerprint o1)
           \<lparr>fr_message_id = co_message_id o1, fr_direction = co_direction o1, fr_context = co_context o1,
            fr_fingerprint = co_fingerprint o1, fr_count = 0, fr_positions = [], fr_captures = [],
            fr_label = LbObserved\<rparr>
           (\<lambda>e. e\<lparr>fr_count := fr_count e + 1, fr_positions := fr_positions e @ [co_frame_index o1],
                  fr_captures := bs_insert cap (fr_captures e)\<rparr>) m) [] xs"

text \<open>The set of values \<open>f\<close> has for each id, direction and context.\<close>

definition set_map ::
  "(string \<times> corr_obs \<Rightarrow> string) \<Rightarrow> (string \<times> corr_obs) list \<Rightarrow> (u16 \<times> string \<times> u32, string list) btree" where
  "set_map f xs =
     foldl (\<lambda>m x. bt_entry (co_message_id (snd x), co_direction (snd x), co_context (snd x)) []
                    (\<lambda>s. bs_insert (f x) s) m) [] xs"

definition build_fingerprint_facts ::
  "message_sequence \<Rightarrow> message_sequence \<Rightarrow> fingerprint_repeat list \<times> payload_variation list" where
  "build_fingerprint_facts a b =
     (let xs = sightings [a, b];
          repeats = take 64 (sort_key (\<lambda>r. - int (unat (fr_count r)))
                      (filter (\<lambda>r. fr_count r \<ge> 2) (bt_vals (fingerprint_map xs))));
          var_caps = set_map fst xs;
          variations = concat (map (\<lambda>((i, direction, context), fps).
              if length fps > 1
              then [\<lparr>pv_message_id = i, pv_direction = direction, pv_context = context,
                     pv_distinct = length fps,
                     pv_captures = (case bt_get var_caps (i, direction, context) of None \<Rightarrow> [] | Some cs \<Rightarrow> cs),
                     pv_label = LbObserved\<rparr>]
              else []) (set_map (\<lambda>x. co_fingerprint (snd x)) xs))
      in (repeats, take 64 (sort_key (\<lambda>v. - int (pv_distinct v)) variations)))"

section \<open>Value windows shared by neighbours\<close>

type_synonym window_key = "u16 \<times> u16 \<times> nat \<times> nat \<times> nat"

definition window_hits :: "message_observation \<Rightarrow> message_observation \<Rightarrow> window_key list" where
  "window_hits a b =
     (let pa = mo_payload a; pb = mo_payload b; max_w = min (min 4 (length pa)) (length pb) in
      if pa = [] \<or> pb = [] then []
      else concat (map (\<lambda>width.
          if width > max_w then []
          else concat (map (\<lambda>oa.
              if oa + width > length pa then []
              else concat (map (\<lambda>ob.
                  if ob + width > length pb then []
                  else if slice_of oa (oa + width) pa = slice_of ob (ob + width) pb
                  then [(mo_message_id a, mo_message_id b, oa, ob, width)] else [])
                [0, (length pb - width) div 2]))
            [0, (length pa - width) div 2]))
        [2, 4])
       @ (if mo_payload_len a = mo_payload_len b \<and> pa = pb \<and> mo_payload_len a \<ge> 2
          then [(mo_message_id a, mo_message_id b, 0, 0, min (mo_payload_len a) 8)] else []))"

record value_correlation =
  vc_from_id :: u16
  vc_to_id :: u16
  vc_from_offset :: nat
  vc_to_offset :: nat
  vc_width :: nat
  vc_matching :: u32
  vc_candidate :: bool
  vc_meaning :: string
  vc_label :: correlation_label

definition cross_message_value_correlations ::
  "(message_observation \<times> message_observation) list \<Rightarrow> value_correlation list" where
  "cross_message_value_correlations pairs =
     map (\<lambda>((f, t, oa, ob, w), c). \<lparr>vc_from_id = f, vc_to_id = t, vc_from_offset = oa, vc_to_offset = ob,
            vc_width = w, vc_matching = c, vc_candidate = True, vc_meaning = ''UNKNOWN'', vc_label = LbCorrelation\<rparr>)
       (filter (\<lambda>e. snd e \<ge> 2)
         (foldl (\<lambda>m p. foldl (\<lambda>m k. bt_count k m) m (window_hits (fst p) (snd p))) [] pairs))"

definition cross_correlations_of :: "capture_inventory \<Rightarrow> capture_inventory \<Rightarrow> value_correlation list" where
  "cross_correlations_of a b =
     take 64 (sort_key (\<lambda>c. - int (unat (vc_matching c)))
       (cross_message_value_correlations
         (concat (map (\<lambda>c. observe_sequence_pairs (ordered_observations c)) [a, b]))))"

section \<open>Clusters of a repeated pair\<close>

text \<open>The inner loop: how often the pair follows itself.\<close>

fun pair_run :: "u16 \<Rightarrow> u16 \<Rightarrow> u16 list \<Rightarrow> nat" where
  "pair_run x y (p # q # rest) = (if p = x \<and> q = y then Suc (pair_run x y rest) else 0)"
| "pair_run x y _ = 0"

text \<open>The outer loop on what is left of the ids from \<open>i\<close> on.\<close>

function cluster_loop :: "u16 list \<Rightarrow> (u16 \<times> u16 \<times> nat) list" where
  "cluster_loop ids =
     (if length ids < 4 then []
      else let x = ids ! 0; y = ids ! 1 in
        if x = y then cluster_loop (drop 1 ids)
        else let count = pair_run x y ids in
          if count \<ge> 3 then (x, y, count) # cluster_loop (drop (2 * count) ids)
          else cluster_loop (drop 1 ids))"
  by pat_completeness auto
termination by (relation "measure length") auto

declare cluster_loop.simps [simp del]

record temporal_cluster =
  tc_message_ids :: "u16 list"
  tc_size :: nat
  tc_pattern :: string
  tc_captures :: "string list"
  tc_label :: correlation_label

definition build_temporal_clusters :: "message_sequence \<Rightarrow> message_sequence \<Rightarrow> temporal_cluster list" where
  "build_temporal_clusters a b =
     bt_vals (foldl (\<lambda>m (cap, x, y, n).
         let key = sequence_key [x, y] in
         bt_entry key \<lparr>tc_message_ids = [x, y], tc_size = 0, tc_pattern = key, tc_captures = [], tc_label = LbObserved\<rparr>
           (\<lambda>e. e\<lparr>tc_size := tc_size e + n, tc_captures := bs_insert cap (tc_captures e)\<rparr>) m) []
       (concat (map (\<lambda>q. map (Pair (ms_capture_id q)) (cluster_loop (ms_message_ids q))) [a, b])))"


section \<open>Grouping and sorting back\<close>

lemma sort_key_distinct:
  assumes "mset ys = mset xs" "distinct (map f xs)"
  shows "sort_key f ys = sort_key f xs"
proof (rule properties_for_sort_key)
  show "mset (sort_key f xs) = mset ys" using assms(1) by simp
  show "sorted (map f (sort_key f xs))" by simp
  fix k
  assume "k \<in> set (sort_key f xs)"
  have d: "distinct (map f zs)" if "mset zs = mset xs" for zs
    using assms(2) mset_eq_imp_distinct_iff [of "map f zs" "map f xs"] that by simp
  have one: "filter (\<lambda>x. f k = f x) zs = [k]" if "mset zs = mset xs" for zs
  proof -
    have k: "k \<in> set zs" using \<open>k \<in> set (sort_key f xs)\<close> mset_eq_setD [OF that] by simp
    with d [OF that] show ?thesis
    proof (induction zs)
      case (Cons z zs)
      then show ?case by (cases "k = z") (auto simp: filter_empty_conv image_iff)
    qed simp
  qed
  show "filter (\<lambda>x. f k = f x) (sort_key f xs) = filter (\<lambda>x. f k = f x) ys"
    using one [of "sort_key f xs"] one [OF assms(1)] by simp
qed

lemma ordered_observations_eq:
  assumes "from_observations cid obs = Some c"
  shows "mset (ordered_observations c) = mset obs" "sorted (map order_key (ordered_observations c))"
    "distinct (map order_key obs) \<Longrightarrow> ordered_observations c = sort_key order_key obs"
proof -
  let ?os = "concat (map mg_observations (bt_vals (ci_inventory c)))"
  have "?os = concat (map (\<lambda>i. with_id i obs) (sorted_list_of_set (ids_in obs)))"
    using from_observations_fields(6) [OF assms] by (simp add: bt_vals_def comp_def group_of_def)
  then have os: "mset ?os = mset obs"
    using mset_by_key [of "ids_in obs" mo_message_id obs] by (simp add: with_id_def ids_in_def)
  then show "mset (ordered_observations c) = mset obs" "sorted (map order_key (ordered_observations c))"
    by (simp_all add: ordered_observations_def)
  show "ordered_observations c = sort_key order_key obs" if "distinct (map order_key obs)"
    unfolding ordered_observations_def by (rule sort_key_distinct [OF os that])
qed

lemma ordered_observations_capture:
  assumes "from_observations cid obs = Some c" "sorted_wrt (<) (map order_key obs)"
  shows "ordered_observations c = obs"
  using ordered_observations_eq(3) [OF assms(1)] assms(2) by (simp add: strict_sorted_iff sort_key_id_if_sorted)

section \<open>Keys of sequences\<close>

lemma take_to_arrow:
  assumes "\<forall>c \<in> set t. of_char c < (128 :: nat)"
  shows "takeWhile (\<lambda>c. c \<noteq> hd right_arrow) (t @ right_arrow @ r) = t"
    "dropWhile (\<lambda>c. c \<noteq> hd right_arrow) (t @ right_arrow @ r) = right_arrow @ r"
    "takeWhile (\<lambda>c. c \<noteq> hd right_arrow) t = t"
proof -
  have "of_char (hd right_arrow) = (226 :: nat)" by (simp add: right_arrow_def)
  then have "\<forall>c \<in> set t. c \<noteq> hd right_arrow" using assms by auto
  then show "takeWhile (\<lambda>c. c \<noteq> hd right_arrow) (t @ right_arrow @ r) = t"
    "dropWhile (\<lambda>c. c \<noteq> hd right_arrow) (t @ right_arrow @ r) = right_arrow @ r"
    "takeWhile (\<lambda>c. c \<noteq> hd right_arrow) t = t"
    by (simp_all add: takeWhile_append2 dropWhile_append2 right_arrow_def)
qed

lemma join_arrow_inject:
  assumes "join_with right_arrow xs = join_with right_arrow ys" "[] \<notin> set xs" "[] \<notin> set ys"
    "\<forall>t \<in> set xs \<union> set ys. \<forall>c \<in> set t. of_char c < (128 :: nat)"
  shows "xs = ys"
  using assms
proof (induction xs arbitrary: ys rule: induct_list012)
  case 1
  then show ?case by (cases "(right_arrow, ys)" rule: join_with.cases) (auto simp: right_arrow_def)
next
  case (2 x)
  show ?case
  proof (cases "(right_arrow, ys)" rule: join_with.cases)
    case (3 sep y z zs)
    have "x = y @ right_arrow @ join_with right_arrow (z # zs)" using 2(1) 3 by simp
    with 2(4) 3 take_to_arrow(3) [of x] take_to_arrow(1) [of y "join_with right_arrow (z # zs)"]
    have "x = y" by auto
    with \<open>x = y @ _\<close> show ?thesis by (simp add: right_arrow_def)
  qed (use 2 in auto)
next
  case (3 x x' xs)
  show ?case
  proof (cases "(right_arrow, ys)" rule: join_with.cases)
    case (1 sep)
    then show ?thesis using 3(3,4) by (simp add: right_arrow_def)
  next
    case (2 sep y)
    have "y = x @ right_arrow @ join_with right_arrow (x' # xs)" using 3(3) 2 by simp
    with 3(6) 2 take_to_arrow(3) [of y] take_to_arrow(1) [of x "join_with right_arrow (x' # xs)"]
    have "x = y" by auto
    with \<open>y = x @ _\<close> show ?thesis by (simp add: right_arrow_def)
  next
    case ys: (3 sep y z zs)
    have eq: "x @ right_arrow @ join_with right_arrow (x' # xs) = y @ right_arrow @ join_with right_arrow (z # zs)"
      using 3(3) ys by simp
    have small: "\<forall>c \<in> set x. of_char c < (128 :: nat)" "\<forall>c \<in> set y. of_char c < (128 :: nat)"
      using 3(6) ys by simp_all
    have "x = y" using take_to_arrow(1) [OF small(1)] take_to_arrow(1) [OF small(2)] eq by metis
    with eq have "join_with right_arrow (x' # xs) = join_with right_arrow (z # zs)" by simp
    with 3(2) [of "z # zs"] 3(4-6) ys \<open>x = y\<close> show ?thesis by simp
  qed
qed

lemma sequence_key_inject: "sequence_key xs = sequence_key ys \<longleftrightarrow> xs = ys"
proof
  assume "sequence_key xs = sequence_key ys"
  then have "map fmt_msg_id xs = map fmt_msg_id ys"
    unfolding sequence_key_def
    by (rule join_arrow_inject) (auto simp: fmt_msg_id_digits intro: fmt_msg_id_chars [unfolded fmt_msg_id_digits])
  then show "xs = ys" by (rule map_injective) (simp add: inj_def fmt_msg_id_inject)
qed simp


section \<open>The stable sequences\<close>

lemma windows_set:
  assumes "0 < n"
  shows "set (windows n xs) = {w. length w = n \<and> sublist w xs}"
proof (intro set_eqI iffI)
  fix w
  assume "w \<in> set (windows n xs)"
  then obtain i where i: "i < Suc (length xs) - n" "w = take n (drop i xs)" by (auto simp: windows_def)
  have "xs = take i xs @ w @ drop n (drop i xs)"
    using i(2) append_take_drop_id [of i xs] append_take_drop_id [of n "drop i xs"] by metis
  then have "sublist w xs" by (metis sublist_appendI)
  then show "w \<in> {w. length w = n \<and> sublist w xs}" using i assms by simp
next
  fix w
  assume "w \<in> {w. length w = n \<and> sublist w xs}"
  then obtain ps ss where w: "length w = n" "xs = ps @ w @ ss" by (auto simp: sublist_def)
  then have "w = take n (drop (length ps) xs)" "length ps < Suc (length xs) - n" using assms by auto
  then show "w \<in> set (windows n xs)" unfolding windows_def by (intro image_eqI [of _ _ "length ps", simplified] | simp)+
qed

lemma ngram_ids:
  assumes "0 < n"
  shows "fst ` set (ngrams_for_observations obs n) = {s. length s = n \<and> sublist s (map co_message_id obs)}"
proof -
  have "fst ` set (ngrams_for_observations obs n) = set (map (map co_message_id) (windows n obs))"
    using assms by (auto simp: ngrams_for_observations_def windows_def image_image)
  also have "map (map co_message_id) (windows n obs) = windows n (map co_message_id obs)"
    by (simp add: windows_def take_map drop_map)
  also have "set \<dots> = {s. length s = n \<and> sublist s (map co_message_id obs)}" by (rule windows_set [OF assms])
  finally show ?thesis .
qed

definition occurrences :: "u16 list \<Rightarrow> u16 list \<Rightarrow> nat" where
  "occurrences hay needle = card {i. i + length needle \<le> length hay \<and> take (length needle) (drop i hay) = needle}"

lemma count_subsequence_exact:
  assumes "needle \<noteq> []"
  shows "count_subsequence hay needle = of_nat (occurrences hay needle)"
proof -
  let ?n = "length needle"
  have fold: "foldl (\<lambda>c w. if w = needle then c + 1 else c) (c :: u32) ws = c + of_nat (length (filter (\<lambda>w. w = needle) ws))" for c ws
    by (induction ws arbitrary: c) (auto simp: algebra_simps)
  show ?thesis
  proof (cases "length hay < ?n")
    case True
    then have "{i. i + ?n \<le> length hay \<and> take ?n (drop i hay) = needle} = {}" by auto
    with True show ?thesis unfolding occurrences_def by (simp add: count_subsequence_def)
  next
    case False
    have "length (filter (\<lambda>w. w = needle) (windows ?n hay))
        = length (filter (\<lambda>i. take ?n (drop i hay) = needle) [0..<Suc (length hay) - ?n])"
      by (simp add: windows_def filter_map comp_def)
    also have "\<dots> = card (set (filter (\<lambda>i. take ?n (drop i hay) = needle) [0..<Suc (length hay) - ?n]))"
      by (rule distinct_card [symmetric]) simp
    also have "set (filter (\<lambda>i. take ?n (drop i hay) = needle) [0..<Suc (length hay) - ?n])
        = {i. i + ?n \<le> length hay \<and> take ?n (drop i hay) = needle}"
      using False by auto
    finally show ?thesis using False assms by (simp add: count_subsequence_def fold occurrences_def)
  qed
qed

lemma foldl_nested:
  "foldl (\<lambda>m a. foldl (f a) m (h a)) m as = foldl (\<lambda>m x. f (fst x) m (snd x)) m (concat (map (\<lambda>a. map (Pair a) (h a)) as))"
  by (induction "as" arbitrary: m) (simp_all add: foldl_map)

type_synonym ngram_event = "message_sequence \<times> u8 \<times> u16 list \<times> string \<times> string"

definition ngram_events :: "message_sequence list \<Rightarrow> ngram_event list" where
  "ngram_events seqs =
     concat (map (\<lambda>q. map (Pair q)
       (concat (map (\<lambda>n. map (Pair n) (ngrams_for_observations (ms_observations q) (unat n))) [1, 2, 3, 4]))) seqs)"

definition event_ids :: "ngram_event \<Rightarrow> u16 list" where "event_ids x = fst (snd (snd x))"
definition event_key :: "ngram_event \<Rightarrow> u8 \<times> string" where "event_key x = (fst (snd x), sequence_key (event_ids x))"

definition event_new :: "ngram_event \<Rightarrow> ngram_record" where
  "event_new x =
     \<lparr>ng_n = fst (snd x), ng_sequence = event_ids x, ng_key = sequence_key (event_ids x), ng_occurrences = 0,
      ng_captures = [], ng_directions = fst (snd (snd (snd x))), ng_contexts = snd (snd (snd (snd x))),
      ng_class = StabilityUnknown\<rparr>"

definition event_add :: "ngram_event \<Rightarrow> ngram_record \<Rightarrow> ngram_record" where
  "event_add x e =
     e\<lparr>ng_occurrences := ng_occurrences e + 1, ng_captures := bs_insert (ms_capture_id (fst x)) (ng_captures e),
       ng_directions := (if ng_directions e = [] then fst (snd (snd (snd x))) else ng_directions e),
       ng_contexts := (if ng_contexts e = [] then snd (snd (snd (snd x))) else ng_contexts e)\<rparr>"

lemma ngram_map_events:
  "ngram_map_of seqs = foldl (\<lambda>m x. bt_entry (event_key x) (event_new x) (event_add x) m) [] (ngram_events seqs)"
proof -
  have step: "ngram_step (ms_capture_id q) n m w = bt_entry (event_key (q, n, w)) (event_new (q, n, w)) (event_add (q, n, w)) m"
    for q n m w
    by (cases w) (simp add: ngram_step_def event_key_def event_new_def event_add_def [abs_def] event_ids_def Let_def
        cong del: if_weak_cong)
  show ?thesis
    unfolding ngram_map_of_def ngram_events_def
    by (simp only: foldl_nested [of "\<lambda>n. ngram_step _ n"] foldl_nested step) simp
qed


lemma event_fill_fields:
  "ng_n (foldl (\<lambda>v x. event_add x v) e xs) = ng_n e"
  "ng_sequence (foldl (\<lambda>v x. event_add x v) e xs) = ng_sequence e"
  "ng_key (foldl (\<lambda>v x. event_add x v) e xs) = ng_key e"
  "ng_captures (foldl (\<lambda>v x. event_add x v) e xs) = foldl (\<lambda>s x. bs_insert (ms_capture_id (fst x)) s) (ng_captures e) xs"
  "ng_occurrences (foldl (\<lambda>v x. event_add x v) e xs) = ng_occurrences e + of_nat (length xs)"
  by (induction xs arbitrary: e) (simp_all add: event_add_def algebra_simps)

lemma paired_mem: "(a, b) \<in> set (concat (map (\<lambda>a. map (Pair a) (h a)) as)) \<longleftrightarrow> a \<in> set as \<and> b \<in> set (h a)"
  by auto

lemma ngram_events_mem: "(q, n, w) \<in> set (ngram_events seqs) \<longleftrightarrow>
    q \<in> set seqs \<and> n \<in> {1, 2, 3, 4} \<and> w \<in> set (ngrams_for_observations (ms_observations q) (unat n))"
  unfolding ngram_events_def paired_mem by simp

lemma ngram_events_set:
  assumes "n \<in> {1, 2, 3, 4}"
  shows "(\<exists>x \<in> set (ngram_events seqs). fst x = q \<and> event_key x = (n, sequence_key s))
    \<longleftrightarrow> q \<in> set seqs \<and> length s = unat n \<and> sublist s (map co_message_id (ms_observations q))"
proof -
  have pos: "0 < unat n" using assms by auto
  have "(\<exists>x \<in> set (ngram_events seqs). fst x = q \<and> event_key x = (n, sequence_key s))
      \<longleftrightarrow> (\<exists>w. (q, n, w) \<in> set (ngram_events seqs) \<and> fst w = s)"
    by (force simp: event_key_def event_ids_def sequence_key_inject)
  also have "\<dots> \<longleftrightarrow> q \<in> set seqs \<and> (\<exists>w \<in> set (ngrams_for_observations (ms_observations q) (unat n)). fst w = s)"
    unfolding ngram_events_mem using assms by blast
  also have "\<dots> \<longleftrightarrow> q \<in> set seqs \<and> s \<in> fst ` set (ngrams_for_observations (ms_observations q) (unat n))"
    by blast
  finally show ?thesis using ngram_ids [OF pos] by simp
qed

lemma ngram_events_n: "x \<in> set (ngram_events seqs) \<Longrightarrow> fst (snd x) \<in> {1, 2, 3, 4} \<and> fst x \<in> set seqs"
  using ngram_events_mem [of "fst x" "fst (snd x)" "snd (snd x)"] by simp

text \<open>What the n-gram map holds: one record per window, with the captures it occurs in.\<close>

definition seen_in :: "message_sequence list \<Rightarrow> u16 list \<Rightarrow> string set" where
  "seen_in seqs s = ms_capture_id ` {q \<in> set seqs. sublist s (map co_message_id (ms_observations q))}"

lemma ngram_map_ok: "bt_ok (ngram_map_of seqs)"
  unfolding ngram_map_events by (rule bt.fill(1) [OF bt.ok_empty])

lemma ngram_map_get:
  assumes "bt_get (ngram_map_of seqs) k = Some g"
  shows "k = (ng_n g, sequence_key (ng_sequence g))" "ng_key g = sequence_key (ng_sequence g)"
    "ng_n g \<in> {1, 2, 3, 4}" "length (ng_sequence g) = unat (ng_n g)"
    "ng_captures g = sorted_list_of_set (seen_in seqs (ng_sequence g))"
proof -
  let ?F = "filter (\<lambda>x. event_key x = k) (ngram_events seqs)"
  have "bt_get (ngram_map_of seqs) k = (case ?F of [] \<Rightarrow> None
      | x # ys \<Rightarrow> Some (foldl (\<lambda>v x. event_add x v) (event_new x) (x # ys)))"
    unfolding ngram_map_events by (subst bt.fill(2) [OF bt.ok_empty]) (simp split: list.split)
  with assms obtain x ys where F: "?F = x # ys" "g = foldl (\<lambda>v x. event_add x v) (event_new x) (x # ys)"
    by (auto split: list.splits)
  have "x \<in> set ?F" using F(1) by simp
  then have x: "x \<in> set (ngram_events seqs)" "event_key x = k" by auto
  have fields: "ng_n g = fst (snd x)" "ng_sequence g = event_ids x" "ng_key g = sequence_key (event_ids x)"
    "ng_captures g = foldl (\<lambda>s x. bs_insert (ms_capture_id (fst x)) s) [] (x # ys)"
    unfolding F(2) event_fill_fields by (simp_all add: event_new_def)
  show k: "k = (ng_n g, sequence_key (ng_sequence g))" using x(2) fields by (simp add: event_key_def)
  show "ng_key g = sequence_key (ng_sequence g)" using fields by simp
  show n: "ng_n g \<in> {1, 2, 3, 4}" using ngram_events_n [OF x(1)] fields(1) by simp
  note events = ngram_events_set [OF n, of seqs _ "ng_sequence g", folded k]
  show len: "length (ng_sequence g) = unat (ng_n g)" using events [of "fst x"] x by blast
  have "ng_captures g = sorted_list_of_set ((ms_capture_id \<circ> fst) ` set ?F)"
    unfolding fields(4) F(1) using bs_insert_fold [of "{}" "ms_capture_id \<circ> fst" "x # ys"] by simp
  also have "(ms_capture_id \<circ> fst) ` set ?F = seen_in seqs (ng_sequence g)"
  proof (intro set_eqI iffI)
    fix c
    assume "c \<in> (ms_capture_id \<circ> fst) ` set ?F"
    then obtain y where "y \<in> set (ngram_events seqs)" "event_key y = k" "c = ms_capture_id (fst y)" by auto
    with events [of "fst y"] show "c \<in> seen_in seqs (ng_sequence g)" by (auto simp: seen_in_def)
  next
    fix c
    assume "c \<in> seen_in seqs (ng_sequence g)"
    then obtain q where q: "q \<in> set seqs" "sublist (ng_sequence g) (map co_message_id (ms_observations q))" "c = ms_capture_id q"
      by (auto simp: seen_in_def)
    with events [of q] len obtain y where "y \<in> set (ngram_events seqs)" "fst y = q" "event_key y = k" by auto
    with q(3) show "c \<in> (ms_capture_id \<circ> fst) ` set ?F" by (intro image_eqI [of _ _ y]) simp_all
  qed
  finally show "ng_captures g = sorted_list_of_set (seen_in seqs (ng_sequence g))" .
qed

lemma ngram_map_has:
  assumes "n \<in> {1, 2, 3, 4}" "length s = unat n" "q \<in> set seqs" "sublist s (map co_message_id (ms_observations q))"
  shows "\<exists>g. bt_get (ngram_map_of seqs) (n, sequence_key s) = Some g"
proof -
  have "dom (bt_get (ngram_map_of seqs)) = event_key ` set (ngram_events seqs)"
    unfolding ngram_map_events by (rule bt.fill_dom)
  moreover have "(n, sequence_key s) \<in> event_key ` set (ngram_events seqs)"
    using ngram_events_set [OF assms(1), of seqs q s] assms(2-4) by force
  ultimately show ?thesis by (metis domD)
qed


lemma dedup_by_distinct: "distinct (map f xs) \<Longrightarrow> dedup_by (\<lambda>x y. f x = f y) xs = xs"
  by (induction "\<lambda>x y. f x = f y" xs rule: dedup_by.induct) auto

lemma distinct_sort_key: "distinct (map f xs) \<Longrightarrow> distinct (map f (sort_key k xs))"
  using mset_eq_imp_distinct_iff [of "map f (sort_key k xs)" "map f xs"] by simp

lemma ngram_list_keys: "distinct (map ng_key (ngram_list seqs))"
proof -
  let ?es = "ngram_map_of seqs"
  have get: "bt_get ?es (fst e) = Some (snd e)" if "e \<in> set ?es" for e
    using bt.entries_get [OF ngram_map_ok [of seqs], of "fst e" "snd e"] that by simp
  have key: "ng_key (snd e) = snd (fst e)" if "e \<in> set ?es" for e
    using ngram_map_get(1,2) [OF get [OF that]] by simp
  have inj: "inj_on snd (set (map fst ?es))"
  proof (rule inj_onI)
    fix k j
    assume "k \<in> set (map fst ?es)" "j \<in> set (map fst ?es)" and eq: "snd k = snd j"
    then obtain e d where e: "e \<in> set ?es" "k = fst e" "d \<in> set ?es" "j = fst d" by auto
    note ke = ngram_map_get [OF get [OF e(1)]] and kd = ngram_map_get [OF get [OF e(3)]]
    have "ng_sequence (snd e) = ng_sequence (snd d)"
      using eq ke(1) kd(1) e(2,4) by (metis sequence_key_inject snd_conv)
    then have "ng_n (snd e) = ng_n (snd d)" using ke(4) kd(4) by (metis unsigned_word_eqI)
    then show "k = j" using ke(1) kd(1) e(2,4) \<open>ng_sequence (snd e) = ng_sequence (snd d)\<close> by metis
  qed
  have "distinct (map fst ?es)"
    using bt.entries_sorted [OF ngram_map_ok [of seqs]] by (simp add: strict_sorted_iff)
  then have "distinct (map snd (map fst ?es))" using inj by (rule distinct_map [THEN iffD2, OF conjI])
  moreover have "map ng_key (map classify_ngram (bt_vals ?es)) = map snd (map fst ?es)"
    using key by (simp add: bt_vals_def classify_ngram_def)
  ultimately show ?thesis unfolding ngram_list_def by (intro distinct_sort_key) simp
qed

lemma ngram_list_mem:
  "g \<in> set (ngram_list seqs) \<longleftrightarrow> (\<exists>k h. bt_get (ngram_map_of seqs) k = Some h \<and> g = classify_ngram h)"
proof -
  have "h \<in> set (bt_vals (ngram_map_of seqs)) \<longleftrightarrow> (\<exists>k. bt_get (ngram_map_of seqs) k = Some h)" for h
    using bt.entries_get [OF ngram_map_ok [of seqs], of _ h] by (force simp: bt_vals_def)
  moreover have "g \<in> set (ngram_list seqs) \<longleftrightarrow> (\<exists>h \<in> set (bt_vals (ngram_map_of seqs)). g = classify_ngram h)"
    by (auto simp: ngram_list_def)
  ultimately show ?thesis by metis
qed

lemma classify_ngram_fields [simp]:
  "ng_n (classify_ngram g) = ng_n g" "ng_sequence (classify_ngram g) = ng_sequence g"
  "ng_key (classify_ngram g) = ng_key g" "ng_captures (classify_ngram g) = ng_captures g"
  by (simp_all add: classify_ngram_def)

lemma seen_in_two:
  assumes "ms_capture_id a \<noteq> ms_capture_id b"
  shows "card (seen_in [a, b] s) = 2 \<longleftrightarrow>
    sublist s (map co_message_id (ms_observations a)) \<and> sublist s (map co_message_id (ms_observations b))"
proof -
  let ?A = "sublist s (map co_message_id (ms_observations a))" and ?B = "sublist s (map co_message_id (ms_observations b))"
  have "seen_in [a, b] s = (if ?A then {ms_capture_id a} else {}) \<union> (if ?B then {ms_capture_id b} else {})"
    by (auto simp: seen_in_def)
  then show ?thesis using assms by auto
qed

definition seq_ok :: "message_sequence \<Rightarrow> bool" where
  "seq_ok q \<longleftrightarrow> ms_message_ids q = map co_message_id (ms_observations q)"

lemma build_sequence_ok: "seq_ok (build_sequence c)"
  by (simp add: seq_ok_def build_sequence_def Let_def)

text \<open>The entry of a shared window.\<close>

definition stable_entry :: "message_sequence \<Rightarrow> message_sequence \<Rightarrow> u16 list \<Rightarrow> stable_subsequence" where
  "stable_entry a b s =
     \<lparr>sq_sequence = s, sq_key = sequence_key s,
      sq_occurrences_a = of_nat (occurrences (ms_message_ids a) s),
      sq_occurrences_b = of_nat (occurrences (ms_message_ids b) s),
      sq_len = length s, sq_class = StableSequence\<rparr>"

definition shared_windows :: "message_sequence \<Rightarrow> message_sequence \<Rightarrow> u16 list set" where
  "shared_windows a b =
     {s. length s \<in> {2, 3, 4} \<and> sublist s (ms_message_ids a) \<and> sublist s (ms_message_ids b)}"

lemma stable_of_classify [simp]: "stable_of a b (classify_ngram g) = stable_of a b g"
  by (simp add: stable_of_def)

lemma stable_sequences_sorted:
  "stable_sequences_of a b = sort_key (\<lambda>s. (- int (sq_len s), sq_key s)) (map (stable_of a b)
      (filter (\<lambda>g. ng_n g \<ge> 2 \<and> length (ng_captures g) = 2) (ngram_list [a, b])))"
  "distinct (map sq_key (stable_sequences_of a b))"
proof -
  let ?gs = "filter (\<lambda>g. ng_n g \<ge> 2 \<and> length (ng_captures g) = 2) (ngram_list [a, b])"
  have "distinct (map sq_key (map (stable_of a b) ?gs))"
    using distinct_map_filter [OF ngram_list_keys [of "[a, b]"]] by (simp add: comp_def stable_of_def)
  then have keys: "distinct (map sq_key (sort_key (\<lambda>s. (- int (sq_len s), sq_key s)) (map (stable_of a b) ?gs)))"
    by (rule distinct_sort_key)
  then show "stable_sequences_of a b = sort_key (\<lambda>s. (- int (sq_len s), sq_key s)) (map (stable_of a b) ?gs)"
    unfolding stable_sequences_of_def by (rule dedup_by_distinct)
  with keys show "distinct (map sq_key (stable_sequences_of a b))" by simp
qed

lemma stable_sequences_mem:
  "r \<in> set (stable_sequences_of a b) \<longleftrightarrow> (\<exists>k h. bt_get (ngram_map_of [a, b]) k = Some h
      \<and> ng_n h \<ge> 2 \<and> length (ng_captures h) = 2 \<and> r = stable_of a b h)"
proof -
  have "r \<in> set (stable_sequences_of a b) \<longleftrightarrow> (\<exists>g. g \<in> set (ngram_list [a, b]) \<and> ng_n g \<ge> 2
      \<and> length (ng_captures g) = 2 \<and> r = stable_of a b g)"
    unfolding stable_sequences_sorted(1) set_sort set_map set_filter by blast
  also have "\<dots> \<longleftrightarrow> (\<exists>k h. bt_get (ngram_map_of [a, b]) k = Some h \<and> ng_n (classify_ngram h) \<ge> 2
      \<and> length (ng_captures (classify_ngram h)) = 2 \<and> r = stable_of a b (classify_ngram h))"
    unfolding ngram_list_mem by blast
  finally show ?thesis by (simp only: classify_ngram_fields stable_of_classify)
qed

lemma stable_of_shared:
  assumes "ms_capture_id a \<noteq> ms_capture_id b" "seq_ok a" "seq_ok b"
    "bt_get (ngram_map_of [a, b]) k = Some h" "ng_n h \<ge> 2" "length (ng_captures h) = 2"
  shows "ng_sequence h \<in> shared_windows a b" "stable_of a b h = stable_entry a b (ng_sequence h)"
proof -
  note g = ngram_map_get [OF assms(4)]
  have len: "length (ng_sequence h) \<in> {2, 3, 4}"
    using g(3,4) assms(5) by (auto simp: word_le_nat_alt)
  have "card (seen_in [a, b] (ng_sequence h)) = 2" using assms(6) g(5) by simp
  then show "ng_sequence h \<in> shared_windows a b"
    using seen_in_two [OF assms(1)] assms(2,3) len by (simp add: seq_ok_def shared_windows_def)
  have "ng_sequence h \<noteq> []" using len by auto
  then show "stable_of a b h = stable_entry a b (ng_sequence h)"
    using g(2) by (simp add: stable_of_def stable_entry_def count_subsequence_exact)
qed

lemma shared_found:
  assumes "ms_capture_id a \<noteq> ms_capture_id b" "seq_ok a" "seq_ok b" "s \<in> shared_windows a b"
  shows "\<exists>k h. bt_get (ngram_map_of [a, b]) k = Some h \<and> ng_n h \<ge> 2 \<and> length (ng_captures h) = 2 \<and> ng_sequence h = s"
proof -
  have s: "length s \<in> {2, 3, 4}" "sublist s (ms_message_ids a)" "sublist s (ms_message_ids b)"
    using assms(4) by (simp_all add: shared_windows_def)
  define n :: u8 where "n = of_nat (length s)"
  have n: "n \<in> {1, 2, 3, 4}" "length s = unat n" "n \<ge> 2" using s(1) by (auto simp: n_def word_le_nat_alt)
  obtain h where h: "bt_get (ngram_map_of [a, b]) (n, sequence_key s) = Some h"
    using ngram_map_has [OF n(1,2), of a "[a, b]"] s(2) assms(2) by (auto simp: seq_ok_def)
  note g = ngram_map_get [OF h]
  have hs: "ng_sequence h = s" "ng_n h = n" using g(1) by (simp_all add: sequence_key_inject)
  have "card (seen_in [a, b] s) = 2"
    using seen_in_two [OF assms(1)] s(2,3) assms(2,3) by (simp add: seq_ok_def)
  then have "length (ng_captures h) = 2" using g(5) hs by simp
  with h hs n(3) show ?thesis by blast
qed

lemma stable_sequences_shared:
  assumes "ms_capture_id a \<noteq> ms_capture_id b" "seq_ok a" "seq_ok b"
  shows "set (stable_sequences_of a b) = stable_entry a b ` shared_windows a b"
    "distinct (map sq_sequence (stable_sequences_of a b))"
proof -
  show eq: "set (stable_sequences_of a b) = stable_entry a b ` shared_windows a b"
  proof (intro set_eqI iffI)
    fix r
    assume "r \<in> set (stable_sequences_of a b)"
    then show "r \<in> stable_entry a b ` shared_windows a b"
      unfolding stable_sequences_mem using stable_of_shared [OF assms] by blast
  next
    fix r
    assume "r \<in> stable_entry a b ` shared_windows a b"
    then obtain s where s: "s \<in> shared_windows a b" "r = stable_entry a b s" by blast
    from shared_found [OF assms s(1)] obtain k h where h: "bt_get (ngram_map_of [a, b]) k = Some h"
      "ng_n h \<ge> 2" "length (ng_captures h) = 2" "ng_sequence h = s" by blast
    have "r = stable_of a b h" using stable_of_shared(2) [OF assms h(1-3)] s(2) h(4) by simp
    with h(1-3) show "r \<in> set (stable_sequences_of a b)" unfolding stable_sequences_mem by blast
  qed
  have "map sq_key (stable_sequences_of a b) = map sequence_key (map sq_sequence (stable_sequences_of a b))"
    using eq by (auto simp: stable_entry_def)
  then have "distinct (map sequence_key (map sq_sequence (stable_sequences_of a b)))"
    using stable_sequences_sorted(2) by metis
  then show "distinct (map sq_sequence (stable_sequences_of a b))" by (rule distinct_map [THEN iffD1, THEN conjunct1])
qed


lemma from_message_observation_id [simp]: "co_message_id (from_message_observation x) = mo_message_id x"
  by (simp add: from_message_observation_def Let_def split: prod.split)

text \<open>A capture of the given ids, for the witnesses.\<close>

definition sample_capture :: "string \<Rightarrow> u16 list \<Rightarrow> message_observation list" where
  "sample_capture cap ids =
     map (\<lambda>(n, i). \<lparr>mo_capture_id = cap, mo_frame_index = of_nat n,
            mo_direction = (if even n then ''client_to_server'' else ''server_to_client''), mo_frame_kind = 2,
            mo_message_id = i, mo_context = 1, mo_payload_len = 0, mo_payload = [], mo_payload_sha256 = [],
            mo_frame_offset = None, mo_frame_order = Some (of_nat n), mo_evidence = LObserved\<rparr>)
       (zip [0..<length ids] ids)"

section \<open>One pair of neighbours is enough\<close>

text \<open>
  A correlation needs two matching pairs, but for payloads as long as the window both start
  positions coincide, so one pair of equal two-byte payloads counts five times.
\<close>

lemma single_pair_correlates:
  assumes "mo_payload a = [x, y]" "mo_payload b = [x, y]" "mo_payload_len a = 2" "mo_payload_len b = 2"
  shows "map vc_matching (cross_message_value_correlations [(a, b)]) = [5]"
  using assms
  by (simp add: cross_message_value_correlations_def window_hits_def slice_of_def bt_count_def Let_def)

section \<open>Properties\<close>

text \<open>
  Grouping a capture by message id and sorting it back loses nothing: when the frames were
  indexed in ascending order, the ordered observations are the capture itself, and its
  sequence has the ids as they were observed.
\<close>

lemma sequence_is_capture:
  assumes "sorted_wrt (<) (map order_key obs)"
  shows "\<exists>c. from_observations cid obs = Some c \<and> ordered_observations c = obs
     \<and> ms_message_ids (build_sequence c) = map mo_message_id obs
     \<and> ms_unique (build_sequence c) = sorted_list_of_set (ids_in obs)
     \<and> ms_capture_id (build_sequence c) = cid"
proof -
  obtain c where c: "from_observations cid obs = Some c"
    by (rule from_observations_exact [of cid obs], rule that)
  have "foldl (\<lambda>s i. bs_insert i s) [] (map mo_message_id obs) = sorted_list_of_set (ids_in obs)"
    using bs_insert_fold [of "{}" "\<lambda>i. i" "map mo_message_id obs"] by (simp add: ids_in_def)
  with ordered_observations_capture [OF c assms] c show ?thesis
    using from_observations_fields(8) [OF c]
    by (intro exI [of _ c]) (simp add: build_sequence_def Let_def comp_def)
qed

theorem sequence_is_capture_witness:
  "\<exists>c. from_observations ''a'' (sample_capture ''a'' [0x1E, 0x1F, 0x19, 0x1A]) = Some c
     \<and> ms_message_ids (build_sequence c) = [0x1E, 0x1F, 0x19, 0x1A]"
proof -
  have "sorted_wrt (<) (map order_key (sample_capture ''a'' [0x1E, 0x1F, 0x19, 0x1A]))"
    by (simp add: sample_capture_def order_key_def)
  from sequence_is_capture [OF this, of "''a''"] show ?thesis by (auto simp: sample_capture_def)
qed

text \<open>
  The stable sequences of two differently named captures are exact: they are precisely the
  windows of two to four ids that occur in both, each listed once, with the number of places
  where it occurs in the one and in the other.
\<close>

lemma stable_sequences_exact:
  assumes "from_observations ca xs = Some A" "from_observations cb ys = Some B" "ca \<noteq> cb"
    "sorted_wrt (<) (map order_key xs)" "sorted_wrt (<) (map order_key ys)"
  shows "sq_sequence ` set (stable_sequences_of (build_sequence A) (build_sequence B))
      = {s. length s \<in> {2, 3, 4} \<and> sublist s (map mo_message_id xs) \<and> sublist s (map mo_message_id ys)}
    \<and> distinct (map sq_sequence (stable_sequences_of (build_sequence A) (build_sequence B)))
    \<and> (\<forall>r \<in> set (stable_sequences_of (build_sequence A) (build_sequence B)).
         sq_occurrences_a r = of_nat (occurrences (map mo_message_id xs) (sq_sequence r))
         \<and> sq_occurrences_b r = of_nat (occurrences (map mo_message_id ys) (sq_sequence r)))"
proof -
  let ?a = "build_sequence A" and ?b = "build_sequence B"
  have ids: "ms_message_ids ?a = map mo_message_id xs" "ms_message_ids ?b = map mo_message_id ys"
    using ordered_observations_capture [OF assms(1,4)] ordered_observations_capture [OF assms(2,5)]
    by (simp_all add: build_sequence_def Let_def comp_def)
  have "ms_capture_id ?a \<noteq> ms_capture_id ?b"
    using assms(3) from_observations_fields(8) [OF assms(1)] from_observations_fields(8) [OF assms(2)]
    by (simp add: build_sequence_def Let_def)
  note shared = stable_sequences_shared [OF this build_sequence_ok build_sequence_ok]
  have "sq_sequence ` set (stable_sequences_of ?a ?b) = shared_windows ?a ?b"
    unfolding shared(1) image_image by (simp add: stable_entry_def)
  then show ?thesis using shared ids by (auto simp: stable_entry_def shared_windows_def)
qed

theorem stable_sequences_exact_witness:
  "\<exists>A B. from_observations ''a'' (sample_capture ''a'' [0x1E, 0x1F, 0xFA]) = Some A
     \<and> from_observations ''b'' (sample_capture ''b'' [0x79, 0x1E, 0x1F]) = Some B
     \<and> sq_sequence ` set (stable_sequences_of (build_sequence A) (build_sequence B))
         = {s. length s \<in> {2, 3, 4} \<and> sublist s [0x1E, 0x1F, 0xFA] \<and> sublist s [0x79, 0x1E, 0x1F]}"
proof -
  let ?xs = "sample_capture ''a'' [0x1E, 0x1F, 0xFA]" and ?ys = "sample_capture ''b'' [0x79, 0x1E, 0x1F]"
  obtain A where A: "from_observations ''a'' ?xs = Some A"
    by (rule from_observations_exact [of "''a''" ?xs], rule that)
  obtain B where B: "from_observations ''b'' ?ys = Some B"
    by (rule from_observations_exact [of "''b''" ?ys], rule that)
  have "sorted_wrt (<) (map order_key ?xs)" "sorted_wrt (<) (map order_key ?ys)"
    by (simp_all add: sample_capture_def order_key_def)
  from stable_sequences_exact [OF A B _ this] A B show ?thesis by (simp add: sample_capture_def)
qed

end
