(* ===== verification/State_Trace.thy ===== *)
theory State_Trace
  imports Sequence_Analysis
begin

text \<open>
  \<open>network/src/state_machine.rs\<close>: the state machine that is read off two captures. States are
  named by strings; a trace assigns every frame the state before and after it; transitions are
  collected per capture and merged. Whether 0xFA is approximately periodic (\<open>f64\<close>) is an
  argument here and computed in \<open>Correlation_Report\<close>. The theory
  gives the trace in closed form over positions and shows what every state and transition counts.
\<close>

section \<open>Data\<close>

definition STABLE_STARTUP_SEQUENCE :: "u16 list" where
  "STABLE_STARTUP_SEQUENCE = [0x1E, 0x1F, 0x19, 0x1A, 0x79, 0x7A, 0x12E, 0x12F]"

definition STATE_START :: string where "STATE_START = ''START''"
definition STATE_STARTUP_SEQUENCE :: string where "STATE_STARTUP_SEQUENCE = ''STARTUP_SEQUENCE''"
definition STATE_POST_STARTUP :: string where "STATE_POST_STARTUP = ''POST_STARTUP''"
definition STATE_REPEATING_CLUSTER_01 :: string where "STATE_REPEATING_CLUSTER_01 = ''REPEATING_CLUSTER_01''"
definition STATE_BRANCH_A :: string where "STATE_BRANCH_A = ''BRANCH_CAPTURE_A_01''"
definition STATE_BRANCH_B :: string where "STATE_BRANCH_B = ''BRANCH_CAPTURE_B_01''"

lemmas state_names = STATE_START_def STATE_STARTUP_SEQUENCE_def STATE_POST_STARTUP_def
  STATE_REPEATING_CLUSTER_01_def STATE_BRANCH_A_def STATE_BRANCH_B_def

datatype state_class =
  StObserved | StStructuralHypothesis | StExternalReference | StUnknown | StStableCrossCapture
  | StCaptureSpecific | StDivergent

fun state_class_str :: "state_class \<Rightarrow> string" where
  "state_class_str StObserved = ''OBSERVED''"
| "state_class_str StStructuralHypothesis = ''STRUCTURAL_HYPOTHESIS''"
| "state_class_str StExternalReference = ''EXTERNAL_REFERENCE''"
| "state_class_str StUnknown = ''UNKNOWN''"
| "state_class_str StStableCrossCapture = ''STABLE_CROSS_CAPTURE''"
| "state_class_str StCaptureSpecific = ''CAPTURE_SPECIFIC''"
| "state_class_str StDivergent = ''DIVERGENT''"

record state_observation =
  so_capture_id :: string
  so_state_id :: string
  so_first_frame :: u32
  so_last_frame :: u32
  so_message_count :: u32
  so_repeating :: bool
  so_periodicity :: string
  so_class :: state_class

record state_transition =
  st_from :: string
  st_to :: string
  st_message_id :: u16
  st_direction :: string
  st_context :: u32
  st_occurrences :: u32
  st_captures :: "string list"
  st_class :: state_class
  st_rr :: bool
  st_semantic :: state_class

record trace_entry =
  tr_frame_index :: u32
  tr_message_id :: u16
  tr_direction :: string
  tr_context :: u32
  tr_from :: string
  tr_to :: string

section \<open>The trace of a capture\<close>

fun prefix_from :: "u16 list \<Rightarrow> u16 list \<Rightarrow> nat" where
  "prefix_from (s # ss) (i # is) = (if i = s then Suc (prefix_from ss is) else 0)"
| "prefix_from _ _ = 0"

text \<open>The loop counts equal ids from the front.\<close>

definition startup_prefix_len :: "u16 list \<Rightarrow> nat" where
  "startup_prefix_len ids = prefix_from STABLE_STARTUP_SEQUENCE ids"

definition is_cluster_member :: "u16 \<Rightarrow> bool" where
  "is_cluster_member i \<longleftrightarrow> i = 0xFA \<or> i = 0xFB"

definition next_state :: "nat \<Rightarrow> u16 \<Rightarrow> string \<Rightarrow> nat \<Rightarrow> (nat \<times> string) option \<Rightarrow> string" where
  "next_state index mid current startup_len branch_after =
     (if index < startup_len then STATE_STARTUP_SEQUENCE
      else if is_cluster_member mid then STATE_REPEATING_CLUSTER_01
      else if current = STATE_REPEATING_CLUSTER_01 \<and> \<not> is_cluster_member mid then
        (case branch_after of
           Some (div_at, branch) \<Rightarrow> if index \<ge> div_at then branch else STATE_POST_STARTUP
         | None \<Rightarrow> STATE_POST_STARTUP)
      else let rest = (if current = STATE_STARTUP_SEQUENCE \<or> current = STATE_START then STATE_POST_STARTUP else current)
        in (case branch_after of
              Some (div_at, branch) \<Rightarrow> if index \<ge> div_at then branch else rest
            | None \<Rightarrow> rest))"

fun replay_loop ::
  "nat \<Rightarrow> string \<Rightarrow> nat \<Rightarrow> (nat \<times> string) option \<Rightarrow> message_observation list \<Rightarrow> trace_entry list" where
  "replay_loop i current startup_len branch_after [] = []"
| "replay_loop i current startup_len branch_after (o1 # os) =
     (let to = next_state i (mo_message_id o1) current startup_len branch_after in
      \<lparr>tr_frame_index = mo_frame_index o1, tr_message_id = mo_message_id o1, tr_direction = mo_direction o1,
       tr_context = mo_context o1, tr_from = current, tr_to = to\<rparr>
      # replay_loop (i + 1) to startup_len branch_after os)"

definition replay_state_trace :: "message_observation list \<Rightarrow> (nat \<times> string) option \<Rightarrow> trace_entry list" where
  "replay_state_trace observations branch_after =
     replay_loop 0 STATE_START (startup_prefix_len (map mo_message_id observations)) branch_after observations"

section \<open>States and transitions\<close>

definition aggregate_states :: "string \<Rightarrow> trace_entry list \<Rightarrow> state_observation list" where
  "aggregate_states capture_id trace =
     map (\<lambda>(state, first, last, count).
         let repeating = (state = STATE_REPEATING_CLUSTER_01) in
         \<lparr>so_capture_id = capture_id, so_state_id = state, so_first_frame = first, so_last_frame = last,
          so_message_count = count, so_repeating = repeating,
          so_periodicity = (if repeating then ''UNKNOWN'' else ''n/a''), so_class = StObserved\<rparr>)
       (foldl (\<lambda>m e. bt_entry (tr_to e) (tr_frame_index e, tr_frame_index e, 0 :: u32)
          (\<lambda>(f, l, n). (min f (tr_frame_index e), max l (tr_frame_index e), n + 1)) m) [] trace)"

type_synonym rr_pairs = "(u16 \<times> u16) list"

definition collect_transitions :: "string \<Rightarrow> trace_entry list \<Rightarrow> rr_pairs \<Rightarrow> state_transition list" where
  "collect_transitions capture_id trace pairs =
     bt_vals (foldl (\<lambda>m e.
         bt_entry (tr_from e, tr_to e, tr_message_id e, tr_direction e, tr_context e)
           \<lparr>st_from = tr_from e, st_to = tr_to e, st_message_id = tr_message_id e, st_direction = tr_direction e,
            st_context = tr_context e, st_occurrences = 0, st_captures = [], st_class = StObserved, st_rr = False,
            st_semantic = StUnknown\<rparr>
           (\<lambda>t. t\<lparr>st_occurrences := st_occurrences t + 1, st_captures := bs_insert capture_id (st_captures t),
                  st_rr := list_ex (\<lambda>(q, r). tr_message_id e = q \<or> tr_message_id e = r) pairs,
                  st_semantic := StUnknown\<rparr>) m) [] trace)"

definition classify_transition :: "state_transition \<Rightarrow> state_transition" where
  "classify_transition t =
     t\<lparr>st_class := (if length (st_captures t) = 2 then StStableCrossCapture
                    else if length (st_captures t) = 1 then StCaptureSpecific else StUnknown)\<rparr>"

definition merge_map ::
  "state_transition list \<Rightarrow> (string \<times> string \<times> u16 \<times> string, state_transition) btree" where
  "merge_map edges =
     foldl (\<lambda>m e.
         bt_entry (st_from e, st_to e, st_message_id e, st_direction e)
           \<lparr>st_from = st_from e, st_to = st_to e, st_message_id = st_message_id e, st_direction = st_direction e,
            st_context = st_context e, st_occurrences = 0, st_captures = [], st_class = st_class e,
            st_rr = st_rr e, st_semantic = StUnknown\<rparr>
           (\<lambda>t. t\<lparr>st_occurrences := st_occurrences t + st_occurrences e,
                  st_captures := foldl (\<lambda>s c. bs_insert c s) (st_captures t) (st_captures e),
                  st_rr := (st_rr t \<or> st_rr e)\<rparr>) m) [] edges"

definition merge_transitions :: "state_transition list \<Rightarrow> state_transition list" where
  "merge_transitions edges =
     sort_key (\<lambda>t. (- int (unat (st_occurrences t)), st_from t, st_message_id t))
       (map classify_transition (bt_vals (merge_map edges)))"


section \<open>The machine of two captures\<close>

record startup_evidence =
  se_sequence :: "u16 list"
  se_key :: string
  se_a_observed :: bool
  se_b_observed :: bool
  se_common_prefix :: bool
  se_prefix_a :: nat
  se_prefix_b :: nat
  se_class :: state_class
  se_label :: string

definition startup_evidence_of :: "u16 list \<Rightarrow> u16 list \<Rightarrow> startup_evidence" where
  "startup_evidence_of ids_a ids_b =
     (let pa = startup_prefix_len ids_a; pb = startup_prefix_len ids_b; full = length STABLE_STARTUP_SEQUENCE in
      \<lparr>se_sequence = STABLE_STARTUP_SEQUENCE, se_key = sequence_key STABLE_STARTUP_SEQUENCE,
       se_a_observed = (pa = full), se_b_observed = (pb = full), se_common_prefix = (min pa pb > 0),
       se_prefix_a = pa, se_prefix_b = pb,
       se_class = (if pa = full \<and> pb = full then StObserved
                   else if min pa pb > 0 then StStructuralHypothesis else StUnknown),
       se_label = ''STABLE_STARTUP_SEQUENCE''\<rparr>)"

record branch_evidence =
  be_index :: "nat option"
  be_message_a :: "u16 option"
  be_message_b :: "u16 option"
  be_state_a :: string
  be_state_b :: string
  be_class :: state_class

definition branch_evidence_of :: "sequence_divergence \<Rightarrow> branch_evidence" where
  "branch_evidence_of d =
     \<lparr>be_index = dv_divergence_index d, be_message_a = dv_capture_a_message d, be_message_b = dv_capture_b_message d,
      be_state_a = STATE_BRANCH_A, be_state_b = STATE_BRANCH_B,
      be_class = (if dv_divergence_index d \<noteq> None then StObserved else StUnknown)\<rparr>"

record cluster_evidence =
  ce_state_id :: string
  ce_message_ids :: "u16 list"
  ce_repeating :: bool
  ce_periodicity :: string
  ce_captures :: "string list"
  ce_class :: state_class
  ce_external :: "string option"
  ce_source :: "string option"

definition cluster_evidence_of ::
  "bool \<Rightarrow> string \<Rightarrow> trace_entry list \<Rightarrow> string \<Rightarrow> trace_entry list \<Rightarrow> cluster_evidence" where
  "cluster_evidence_of approx a trace_a b trace_b =
     (let in_cluster = list_ex (\<lambda>e. tr_to e = STATE_REPEATING_CLUSTER_01);
          caps = (if in_cluster trace_a then bs_insert a [] else []);
          caps = (if in_cluster trace_b then bs_insert b caps else caps);
          ext = lookup_name 0xFA
      in \<lparr>ce_state_id = STATE_REPEATING_CLUSTER_01, ce_message_ids = [0xFA, 0xFB], ce_repeating = True,
          ce_periodicity = (if approx then ''APPROXIMATE'' else ''UNKNOWN''), ce_captures = caps,
          ce_class = StObserved, ce_external = ext, ce_source = map_option (\<lambda>_. ''messages.rs'') ext\<rparr>)"

record semantic_row =
  sw_message_id :: string
  sw_observed :: string
  sw_structural :: string
  sw_external :: "string option"
  sw_confidence :: state_class
  sw_unknowns :: string

definition build_semantic_matrix ::
  "u16 list \<Rightarrow> corr_obs list \<Rightarrow> u16 list \<Rightarrow> semantic_row list" where
  "build_semantic_matrix unique observations startup_ids =
     map (\<lambda>i.
         let ext = lookup_name i;
             dirs = foldl (\<lambda>s d. bs_insert d s) []
               (map (dir_short \<circ> co_direction) (filter (\<lambda>o1. co_message_id o1 = i) observations))
         in \<lparr>sw_message_id = fmt_msg_id i, sw_observed = ''dirs='' @ join_with '','' dirs,
             sw_structural = (if i \<in> set startup_ids then ''startup sequence member''
                else if i = 0xFA \<or> i = 0xFB then ''repeating cluster member''
                else ''post-startup / branch activity''),
             sw_external = ext, sw_confidence = (if ext \<noteq> None then StExternalReference else StUnknown),
             sw_unknowns = ''exact payload semantics''\<rparr>) unique"

record context_note =
  cn_before :: u32
  cn_message_id :: u16
  cn_after :: u32
  cn_count :: u32
  cn_class :: state_class

record rr_note =
  rn_request_id :: u16
  rn_response_id :: u16
  rn_candidate :: bool
  rn_confidence :: string
  rn_semantic :: state_class

record external_semantic =
  xs_message_id :: string
  xs_name :: string
  xs_source :: string
  xs_label :: state_class

text \<open>The references of all ids with a name, by ascending id.\<close>

definition external_semantics_of :: "u16 list \<Rightarrow> external_semantic list" where
  "external_semantics_of unique =
     concat (map (\<lambda>i. case lookup_name i of
         None \<Rightarrow> []
       | Some name \<Rightarrow> [\<lparr>xs_message_id = fmt_msg_id i, xs_name = name, xs_source = ''messages.rs'',
                         xs_label = StExternalReference\<rparr>]) unique)"

definition STATE_UNKNOWNS :: "string list" where
  "STATE_UNKNOWNS =
     [''exact payload field semantics'', ''authenticated / login semantic confirmation'',
      ''keepalive wall-clock period'', ''meaning of context values'',
      ''gameplay / activity / inventory role of post-startup messages'']"

record state_machine =
  sm_capture_a :: string
  sm_capture_b :: string
  sm_states :: "state_observation list"
  sm_nodes :: "string list"
  sm_edges :: "state_transition list"
  sm_startup :: startup_evidence
  sm_branches :: branch_evidence
  sm_cluster :: cluster_evidence
  sm_context_notes :: "context_note list"
  sm_rr_notes :: "rr_note list"
  sm_semantic :: "semantic_row list"
  sm_external :: "external_semantic list"
  sm_traces :: "(string, trace_entry list) btree"
  sm_unknowns :: "string list"

definition graph_nodes :: "state_transition list \<Rightarrow> string list" where
  "graph_nodes edges =
     foldl (\<lambda>s e. bs_insert (st_to e) (bs_insert (st_from e) s))
       (foldl (\<lambda>s n. bs_insert n s) []
          [STATE_START, STATE_STARTUP_SEQUENCE, STATE_POST_STARTUP, STATE_REPEATING_CLUSTER_01,
           STATE_BRANCH_A, STATE_BRANCH_B]) edges"

definition build_state_machine :: "bool \<Rightarrow> capture_inventory \<Rightarrow> capture_inventory \<Rightarrow> state_machine" where
  "build_state_machine approx a b =
     (let seq_a = build_sequence a; seq_b = build_sequence b;
          obs_a = ordered_observations a; obs_b = ordered_observations b;
          ids_a = map mo_message_id obs_a; ids_b = map mo_message_id obs_b;
          d = compute_sequence_divergence (ms_message_ids seq_a) (ms_message_ids seq_b);
          candidates = build_rr_candidates (direction_transitions_of [seq_a, seq_b])
                         (transition_edges_of seq_a seq_b) seq_a seq_b;
          pairs = foldl (\<lambda>s c. bs_insert (rr_request_id c, rr_response_id c) s) [] candidates;
          trace_a = replay_state_trace obs_a (map_option (\<lambda>i. (i, STATE_BRANCH_A)) (dv_divergence_index d));
          trace_b = replay_state_trace obs_b (map_option (\<lambda>i. (i, STATE_BRANCH_B)) (dv_divergence_index d));
          edges = merge_transitions (collect_transitions (ci_capture_id a) trace_a pairs
                                     @ collect_transitions (ci_capture_id b) trace_b pairs);
          unique = foldl (\<lambda>s i. bs_insert i s) [] (ms_unique seq_a @ ms_unique seq_b)
      in \<lparr>sm_capture_a = ci_capture_id a, sm_capture_b = ci_capture_id b,
          sm_states = aggregate_states (ci_capture_id a) trace_a @ aggregate_states (ci_capture_id b) trace_b,
          sm_nodes = graph_nodes edges, sm_edges = edges, sm_startup = startup_evidence_of ids_a ids_b,
          sm_branches = branch_evidence_of d,
          sm_cluster = cluster_evidence_of approx (ci_capture_id a) trace_a (ci_capture_id b) trace_b,
          sm_context_notes = map (\<lambda>t. \<lparr>cn_before = ct_before t, cn_message_id = ct_message_id t, cn_after = ct_after t,
              cn_count = ct_count t, cn_class = StStructuralHypothesis\<rparr>) (take 64 (build_context_transitions seq_a seq_b)),
          sm_rr_notes = map (\<lambda>r. \<lparr>rn_request_id = rr_request_id r, rn_response_id = rr_response_id r,
              rn_candidate = True, rn_confidence = correlation_label_str (rr_confidence r),
              rn_semantic = StUnknown\<rparr>) candidates,
          sm_semantic = build_semantic_matrix unique (ms_observations seq_a @ ms_observations seq_b) STABLE_STARTUP_SEQUENCE,
          sm_external = external_semantics_of unique,
          sm_traces = bt_insert (ci_capture_id b) trace_b (bt_insert (ci_capture_id a) trace_a []),
          sm_unknowns = STATE_UNKNOWNS\<rparr>)"

section \<open>The trace in closed form\<close>

text \<open>The state after frame \<open>i\<close>, without the state before it.\<close>

definition state_after :: "nat \<Rightarrow> (nat \<times> string) option \<Rightarrow> nat \<Rightarrow> u16 \<Rightarrow> string" where
  "state_after startup_len branch_after i mid =
     (if i < startup_len then STATE_STARTUP_SEQUENCE
      else if is_cluster_member mid then STATE_REPEATING_CLUSTER_01
      else case branch_after of
          Some (d, branch) \<Rightarrow> if i \<ge> d then branch else STATE_POST_STARTUP
        | None \<Rightarrow> STATE_POST_STARTUP)"

definition quiet_states :: "string set" where
  "quiet_states = {STATE_START, STATE_STARTUP_SEQUENCE, STATE_POST_STARTUP, STATE_REPEATING_CLUSTER_01}"

definition before_branch :: "nat \<Rightarrow> (nat \<times> string) option \<Rightarrow> string \<Rightarrow> bool" where
  "before_branch i branch_after current \<longleftrightarrow>
     (case branch_after of None \<Rightarrow> current \<in> quiet_states | Some (d, branch) \<Rightarrow> i \<ge> d \<or> current \<in> quiet_states)"

lemma next_state_closed:
  assumes "before_branch i branch_after current"
  shows "next_state i mid current startup_len branch_after = state_after startup_len branch_after i mid"
    "before_branch (Suc i) branch_after (state_after startup_len branch_after i mid)"
  using assms
  by (auto simp: next_state_def state_after_def before_branch_def quiet_states_def Let_def state_names
      split: option.splits if_splits)

definition trace_expected ::
  "nat \<Rightarrow> (nat \<times> string) option \<Rightarrow> nat \<Rightarrow> string \<Rightarrow> message_observation list \<Rightarrow> trace_entry list" where
  "trace_expected startup_len branch_after i start os =
     (let tos = map (\<lambda>(j, o1). state_after startup_len branch_after j (mo_message_id o1)) (zip [i..<i + length os] os) in
      map (\<lambda>(o1, from, to). \<lparr>tr_frame_index = mo_frame_index o1, tr_message_id = mo_message_id o1,
              tr_direction = mo_direction o1, tr_context = mo_context o1, tr_from = from, tr_to = to\<rparr>)
        (zip os (zip (start # tos) tos)))"

lemma trace_expected_Cons:
  "trace_expected sl br i start (o1 # os) =
     (let to = state_after sl br i (mo_message_id o1) in
      \<lparr>tr_frame_index = mo_frame_index o1, tr_message_id = mo_message_id o1, tr_direction = mo_direction o1,
       tr_context = mo_context o1, tr_from = start, tr_to = to\<rparr> # trace_expected sl br (Suc i) to os)"
  by (simp add: trace_expected_def Let_def upt_conv_Cons del: upt_Suc)

lemma replay_loop_closed:
  assumes "before_branch i br current"
  shows "replay_loop i current sl br os = trace_expected sl br i current os"
  using assms
proof (induction os arbitrary: i current)
  case Nil
  then show ?case by (simp add: trace_expected_def)
next
  case (Cons o1 os)
  then show ?case
    using next_state_closed [OF Cons.prems, where mid = "mo_message_id o1" and startup_len = sl] by (simp add: trace_expected_Cons Let_def)
qed

lemma replay_state_trace_closed:
  "replay_state_trace os br = trace_expected (startup_prefix_len (map mo_message_id os)) br 0 STATE_START os"
  unfolding replay_state_trace_def
  by (rule replay_loop_closed) (auto simp: before_branch_def quiet_states_def split: option.split)

lemma prefix_from_exact:
  "take (prefix_from ss is) is = take (prefix_from ss is) ss \<and> prefix_from ss is \<le> min (length ss) (length is)
   \<and> (prefix_from ss is = min (length ss) (length is) \<or> is ! prefix_from ss is \<noteq> ss ! prefix_from ss is)"
  by (induction ss "is" rule: prefix_from.induct) auto


section \<open>The graph counts every frame once\<close>

lemma sum_sort_key: "sum_list (map g (sort_key k xs)) = (sum_list (map g xs) :: u32)"
  by (simp flip: sum_mset_sum_list add: mset_map)

lemma collect_occurrences:
  "sum_list (map st_occurrences (collect_transitions cid trace pairs)) = of_nat (length trace)"
  unfolding collect_transitions_def
  by (subst bt_sum_fill [where c = "\<lambda>_. 1"]) (simp_all add: sum_list_triv)

lemma merge_occurrences:
  "sum_list (map st_occurrences (merge_transitions edges)) = sum_list (map st_occurrences edges)"
proof -
  have "sum_list (map st_occurrences (bt_vals (merge_map edges))) = sum_list (map st_occurrences edges)"
    unfolding merge_map_def by (subst bt_sum_fill [where c = st_occurrences]) simp_all
  then show ?thesis
    unfolding merge_transitions_def sum_sort_key by (simp add: comp_def classify_transition_def)
qed

lemma aggregate_occurrences:
  "sum_list (map so_message_count (aggregate_states cid trace)) = of_nat (length trace)"
proof -
  let ?m = "foldl (\<lambda>m e. bt_entry (tr_to e) (tr_frame_index e, tr_frame_index e, 0 :: u32)
      (\<lambda>(f, l, n). (min f (tr_frame_index e), max l (tr_frame_index e), n + 1)) m) [] trace"
  have "sum_list (map (snd \<circ> snd) (bt_vals ?m)) = of_nat (length trace)"
    by (subst bt_sum_fill [where c = "\<lambda>_. 1"]) (auto simp: sum_list_triv)
  then show ?thesis
    by (simp add: aggregate_states_def bt_vals_def comp_def case_prod_unfold Let_def)
qed

lemma length_replay [simp]: "length (replay_state_trace os br) = length os"
  by (simp add: replay_state_trace_closed trace_expected_def Let_def)


lemma graph_nodes_set:
  "graph_nodes edges = sorted_list_of_set ({STATE_START, STATE_STARTUP_SEQUENCE, STATE_POST_STARTUP,
     STATE_REPEATING_CLUSTER_01, STATE_BRANCH_A, STATE_BRANCH_B} \<union> st_from ` set edges \<union> st_to ` set edges)"
proof -
  have more: "foldl (\<lambda>s e. bs_insert (st_to e) (bs_insert (st_from e) s)) (sorted_list_of_set A) es
      = sorted_list_of_set (A \<union> st_from ` set es \<union> st_to ` set es)" if "finite A" for A es
    using that
  proof (induction es arbitrary: A)
    case (Cons e es)
    then show ?case
      using Cons.IH [of "insert (st_to e) (insert (st_from e) A)"]
      by (simp add: bs_insert_set insert_commute del: sorted_list_of_set_insert_remove)
  qed simp
  have "foldl (\<lambda>s n. bs_insert n s) [] [STATE_START, STATE_STARTUP_SEQUENCE, STATE_POST_STARTUP,
      STATE_REPEATING_CLUSTER_01, STATE_BRANCH_A, STATE_BRANCH_B]
    = sorted_list_of_set (set [STATE_START, STATE_STARTUP_SEQUENCE, STATE_POST_STARTUP,
      STATE_REPEATING_CLUSTER_01, STATE_BRANCH_A, STATE_BRANCH_B])"
    using bs_insert_fold [of "{}" "\<lambda>n. n" "[STATE_START, STATE_STARTUP_SEQUENCE, STATE_POST_STARTUP,
      STATE_REPEATING_CLUSTER_01, STATE_BRANCH_A, STATE_BRANCH_B]"]
    by (simp only: sorted_list_of_set_empty Un_empty_left image_ident finite.emptyI)
  then show ?thesis unfolding graph_nodes_def by (simp only: list.set) (rule more, simp)
qed

lemma graph_nodes_mem: "st_from ` set edges \<union> st_to ` set edges \<subseteq> set (graph_nodes edges)"
  unfolding graph_nodes_set by (subst set_sorted_list_of_set) auto

section \<open>What a merged transition counts\<close>

type_synonym move_key = "string \<times> string \<times> u16 \<times> string"

definition tr_key :: "trace_entry \<Rightarrow> move_key" where
  "tr_key e = (tr_from e, tr_to e, tr_message_id e, tr_direction e)"

definition st_key :: "state_transition \<Rightarrow> move_key" where
  "st_key t = (st_from t, st_to t, st_message_id t, st_direction t)"

definition moves_in :: "move_key \<Rightarrow> trace_entry list \<Rightarrow> trace_entry list" where
  "moves_in k trace = filter (\<lambda>e. tr_key e = k) trace"

lemma bt_entry_all:
  "\<forall>(a, v) \<in> set m. Q a v \<Longrightarrow> Q k (f d) \<Longrightarrow> (\<And>v. Q k v \<Longrightarrow> Q k (f v)) \<Longrightarrow> \<forall>(a, v) \<in> set (bt_entry k d f m). Q a v"
  by (induction k d f m rule: bt_entry.induct) auto

lemma bt_fill_all:
  assumes "\<And>x. x \<in> set xs \<Longrightarrow> Q (key x) (f x (d x))" "\<And>x v. x \<in> set xs \<Longrightarrow> Q (key x) v \<Longrightarrow> Q (key x) (f x v)"
  shows "\<forall>(k, v) \<in> set (foldl (\<lambda>m x. bt_entry (key x) (d x) (f x) m) [] xs). Q k v"
  using assms
proof (induction xs rule: rev_induct)
  case (snoc x xs)
  then show ?case by (simp del: split_paired_All) (rule bt_entry_all, simp_all)
qed simp

lemma bt_sum_keyed:
  fixes g :: "'k::linorder \<Rightarrow> 'v \<Rightarrow> 'a::comm_monoid_add"
  assumes "\<And>x v. g (key x) (f x v) = g (key x) v + c x" "\<And>x. g (key x) (d x) = 0"
  shows "sum_list (map (\<lambda>(k, v). g k v) (foldl (\<lambda>m x. bt_entry (key x) (d x) (f x) m) [] xs)) = sum_list (map c xs)"
proof -
  have entry: "sum_list (map (\<lambda>(k, v). g k v) (bt_entry (key x) (d x) (f x) m)) = sum_list (map (\<lambda>(k, v). g k v) m) + c x"
    for x m by (induction m) (auto simp: assms ac_simps)
  have "sum_list (map (\<lambda>(k, v). g k v) (foldl (\<lambda>m x. bt_entry (key x) (d x) (f x) m) m xs))
      = sum_list (map (\<lambda>(k, v). g k v) m) + sum_list (map c xs)" for m
    by (induction xs arbitrary: m) (simp_all add: entry ac_simps)
  from this [of "[]"] show ?thesis by simp
qed

text \<open>The transitions of one capture: one per move and context, counting its frames.\<close>

lemma collect_edges:
  "\<forall>e \<in> set (collect_transitions cid trace pairs). st_captures e = [cid] \<and> (\<exists>t \<in> set trace. tr_key t = st_key e)"
  "sum_list (map st_occurrences (filter (\<lambda>e. st_key e = k) (collect_transitions cid trace pairs)))
     = of_nat (length (moves_in k trace))"
  "st_key ` set (collect_transitions cid trace pairs) = tr_key ` set trace"
proof -
  let ?key = "\<lambda>e. (tr_from e, tr_to e, tr_message_id e, tr_direction e, tr_context e)"
  let ?d = "\<lambda>e. \<lparr>st_from = tr_from e, st_to = tr_to e, st_message_id = tr_message_id e, st_direction = tr_direction e,
            st_context = tr_context e, st_occurrences = 0, st_captures = [], st_class = StObserved, st_rr = False,
            st_semantic = StUnknown\<rparr>"
  let ?f = "\<lambda>e t. t\<lparr>st_occurrences := st_occurrences t + 1, st_captures := bs_insert cid (st_captures t),
                  st_rr := list_ex (\<lambda>(q, r). tr_message_id e = q \<or> tr_message_id e = r) pairs,
                  st_semantic := StUnknown\<rparr>"
  let ?m = "foldl (\<lambda>m e. bt_entry (?key e) (?d e) (?f e) m) [] trace"
  let ?pr = "\<lambda>(f, t, i, d, c). (f, t, i, d) :: move_key"
  have all: "\<forall>(k, v) \<in> set ?m. st_key v = ?pr k \<and> st_captures v = [cid] \<and> (\<exists>t \<in> set trace. tr_key t = ?pr k)"
    by (rule bt_fill_all) (auto simp: st_key_def tr_key_def bs_insert_def insort_insert_key_def)
  then show "\<forall>e \<in> set (collect_transitions cid trace pairs). st_captures e = [cid] \<and> (\<exists>t \<in> set trace. tr_key t = st_key e)"
    by (fastforce simp: collect_transitions_def bt_vals_def)
  have ok: "bt_ok ?m" by (rule bt.fill(1) [OF bt.ok_empty])
  have "fst ` set ?m = ?key ` set trace"
    using bt.keys_set [OF ok] unfolding bt.fill_dom by simp
  then have "?pr ` fst ` set ?m = tr_key ` set trace" by (simp add: image_image tr_key_def)
  moreover have "st_key ` set (collect_transitions cid trace pairs) = ?pr ` fst ` set ?m"
    unfolding collect_transitions_def bt_vals_def set_map image_image using all by (intro image_cong) auto
  ultimately show "st_key ` set (collect_transitions cid trace pairs) = tr_key ` set trace" by simp
  have "sum_list (map (\<lambda>(k5, v). if ?pr k5 = k then st_occurrences v else 0) ?m)
      = sum_list (map (\<lambda>e. if tr_key e = k then 1 else 0) trace)"
    by (rule bt_sum_keyed) (simp_all add: tr_key_def)
  also have "\<dots> = of_nat (length (moves_in k trace))"
    by (induction trace) (simp_all add: moves_in_def)
  also have "map (\<lambda>(k5, v). if ?pr k5 = k then st_occurrences v else 0) ?m
      = map (\<lambda>v. if st_key v = k then st_occurrences v else 0) (bt_vals ?m)"
    using all by (auto simp: bt_vals_def)
  also have "sum_list \<dots> = sum_list (map st_occurrences (filter (\<lambda>e. st_key e = k) (bt_vals ?m)))"
    by (simp add: sum_list_map_filter')
  finally show "sum_list (map st_occurrences (filter (\<lambda>e. st_key e = k) (collect_transitions cid trace pairs)))
     = of_nat (length (moves_in k trace))"
    by (simp add: collect_transitions_def)
qed

text \<open>Merging: one transition per move, with the sum of the counts and all the captures.\<close>

definition merge_into :: "state_transition \<Rightarrow> state_transition \<Rightarrow> state_transition" where
  "merge_into e t =
     t\<lparr>st_occurrences := st_occurrences t + st_occurrences e,
       st_captures := foldl (\<lambda>s c. bs_insert c s) (st_captures t) (st_captures e),
       st_rr := (st_rr t \<or> st_rr e)\<rparr>"

lemma merge_fold:
  "st_key (foldl (\<lambda>t e. merge_into e t) t es) = st_key t"
  "st_occurrences (foldl (\<lambda>t e. merge_into e t) t es) = st_occurrences t + sum_list (map st_occurrences es)"
  "finite A \<Longrightarrow> st_captures t = sorted_list_of_set A \<Longrightarrow>
     st_captures (foldl (\<lambda>t e. merge_into e t) t es) = sorted_list_of_set (A \<union> (\<Union>e \<in> set es. set (st_captures e)))"
proof -
  show "st_key (foldl (\<lambda>t e. merge_into e t) t es) = st_key t"
    by (induction es arbitrary: t) (simp_all add: merge_into_def st_key_def)
  show "st_occurrences (foldl (\<lambda>t e. merge_into e t) t es) = st_occurrences t + sum_list (map st_occurrences es)"
    by (induction es arbitrary: t) (simp_all add: merge_into_def ac_simps)
  show "finite A \<Longrightarrow> st_captures t = sorted_list_of_set A \<Longrightarrow>
     st_captures (foldl (\<lambda>t e. merge_into e t) t es) = sorted_list_of_set (A \<union> (\<Union>e \<in> set es. set (st_captures e)))"
  proof (induction es arbitrary: t A)
    case (Cons e es)
    have "st_captures (merge_into e t) = sorted_list_of_set (A \<union> set (st_captures e))"
      using bs_insert_fold [OF Cons.prems(1), of "\<lambda>c. c" "st_captures e"] Cons.prems(2) by (simp add: merge_into_def)
    with Cons.IH [of "A \<union> set (st_captures e)" "merge_into e t"] Cons.prems(1) show ?case by (simp add: Un_assoc)
  qed simp
qed

lemma merge_map_get:
  "bt_ok (merge_map edges)"
  "fst ` set (merge_map edges) = st_key ` set edges"
  "(k, t) \<in> set (merge_map edges) \<Longrightarrow>
     (let es = filter (\<lambda>e. st_key e = k) edges in
      st_key t = k \<and> st_occurrences t = sum_list (map st_occurrences es)
      \<and> st_captures t = sorted_list_of_set (\<Union>e \<in> set es. set (st_captures e)))"
proof -
  let ?d = "\<lambda>e. \<lparr>st_from = st_from e, st_to = st_to e, st_message_id = st_message_id e, st_direction = st_direction e,
            st_context = st_context e, st_occurrences = 0, st_captures = [], st_class = st_class e,
            st_rr = st_rr e, st_semantic = StUnknown\<rparr>"
  have m: "merge_map edges = foldl (\<lambda>m e. bt_entry (st_key e) (?d e) (merge_into e) m) [] edges"
    by (simp add: merge_map_def st_key_def merge_into_def [abs_def])
  show ok: "bt_ok (merge_map edges)" unfolding m by (rule bt.fill(1) [OF bt.ok_empty])
  show "fst ` set (merge_map edges) = st_key ` set edges"
    using bt.keys_set [OF ok] unfolding m bt.fill_dom by simp
  let ?es = "filter (\<lambda>e. st_key e = k) edges"
  assume "(k, t) \<in> set (merge_map edges)"
  then have "bt_get (merge_map edges) k = Some t" using bt.entries_get [OF ok] by simp
  then obtain e where t: "t = foldl (\<lambda>t e. merge_into e t) (?d e) ?es" "st_key e = k"
    unfolding m bt.fill(2) [OF bt.ok_empty] by (fastforce split: list.splits dest: filter_eq_ConsD)
  have "st_key (?d e) = k" using t(2) by (simp add: st_key_def)
  then show "let es = ?es in st_key t = k \<and> st_occurrences t = sum_list (map st_occurrences es)
      \<and> st_captures t = sorted_list_of_set (\<Union>e \<in> set es. set (st_captures e))"
    using merge_fold(1,2) [of "?d e" ?es] merge_fold(3) [where A = "{}" and t = "?d e" and es = ?es] unfolding t(1) Let_def by simp
qed

lemma merged_edges:
  "distinct (map st_key (merge_transitions edges))"
  "st_key ` set (merge_transitions edges) = st_key ` set edges"
  "t \<in> set (merge_transitions edges) \<Longrightarrow>
     (let es = filter (\<lambda>e. st_key e = st_key t) edges in
      st_occurrences t = sum_list (map st_occurrences es)
      \<and> st_captures t = sorted_list_of_set (\<Union>e \<in> set es. set (st_captures e)))"
  "t \<in> set (merge_transitions edges) \<Longrightarrow> st_class t =
     (if length (st_captures t) = 2 then StStableCrossCapture
      else if length (st_captures t) = 1 then StCaptureSpecific else StUnknown)"
proof -
  let ?m = "merge_map edges"
  have cl: "st_key (classify_transition t) = st_key t" "st_occurrences (classify_transition t) = st_occurrences t"
      "st_captures (classify_transition t) = st_captures t" for t
    by (simp_all add: classify_transition_def st_key_def)
  have keys: "map st_key (bt_vals ?m) = map fst ?m"
    using merge_map_get(3) by (auto simp: bt_vals_def Let_def)
  have "mset (map st_key (sort_key f xs)) = mset (map st_key xs)" for f :: "state_transition \<Rightarrow> int \<times> string \<times> u16" and xs
    by (simp add: mset_map)
  then have "mset (map st_key (merge_transitions edges)) = mset (map fst ?m)"
    by (simp add: merge_transitions_def comp_def cl flip: keys del: mset_map)
  moreover have "distinct (map fst ?m)" using merge_map_get(1) [of edges] by (simp add: bt_ok_def strict_sorted_iff)
  ultimately show "distinct (map st_key (merge_transitions edges))" by (metis mset_eq_imp_distinct_iff)
  have set: "set (merge_transitions edges) = classify_transition ` snd ` set ?m"
    by (simp add: merge_transitions_def bt_vals_def image_image)
  have "st_key ` set (merge_transitions edges) = st_key ` set (bt_vals ?m)"
    unfolding set by (simp add: image_image cl bt_vals_def)
  also have "\<dots> = fst ` set ?m" using arg_cong [OF keys, of set] by simp
  finally show "st_key ` set (merge_transitions edges) = st_key ` set edges" by (simp add: merge_map_get(2))
  assume "t \<in> set (merge_transitions edges)"
  then obtain k u where u: "(k, u) \<in> set ?m" "t = classify_transition u" unfolding set by auto
  show "let es = filter (\<lambda>e. st_key e = st_key t) edges in
      st_occurrences t = sum_list (map st_occurrences es)
      \<and> st_captures t = sorted_list_of_set (\<Union>e \<in> set es. set (st_captures e))"
    using merge_map_get(3) [OF u(1)] by (simp add: u(2) cl Let_def)
  show "st_class t = (if length (st_captures t) = 2 then StStableCrossCapture
      else if length (st_captures t) = 1 then StCaptureSpecific else StUnknown)"
    by (simp add: u(2) classify_transition_def)
qed

text \<open>The merged transitions of two traces.\<close>

definition edges_of :: "string \<Rightarrow> trace_entry list \<Rightarrow> string \<Rightarrow> trace_entry list \<Rightarrow> rr_pairs \<Rightarrow> state_transition list" where
  "edges_of ca ta cb tb pairs =
     merge_transitions (collect_transitions ca ta pairs @ collect_transitions cb tb pairs)"

lemma edges_of_moves:
  assumes "t \<in> set (edges_of ca ta cb tb pairs)"
  shows "st_occurrences t = of_nat (length (moves_in (st_key t) (ta @ tb)))"
    "st_captures t = sorted_list_of_set
       ((if moves_in (st_key t) ta \<noteq> [] then {ca} else {}) \<union> (if moves_in (st_key t) tb \<noteq> [] then {cb} else {}))"
proof -
  let ?k = "st_key t" and ?A = "collect_transitions ca ta pairs" and ?B = "collect_transitions cb tb pairs"
  note merged = merged_edges(3) [OF assms [unfolded edges_of_def], unfolded Let_def]
  show "st_occurrences t = of_nat (length (moves_in ?k (ta @ tb)))"
    using merged collect_edges(2) [of ?k] by (simp add: moves_in_def)
  have caps: "(\<Union>e \<in> {e \<in> set (collect_transitions c tr pairs). st_key e = ?k}. set (st_captures e))
      = (if moves_in ?k tr \<noteq> [] then {c} else {})" for c tr
  proof -
    have "moves_in ?k tr = [] \<longleftrightarrow> ?k \<notin> st_key ` set (collect_transitions c tr pairs)"
      unfolding collect_edges(3) by (force simp: moves_in_def filter_empty_conv)
    moreover have "(\<Union>e \<in> {e \<in> set (collect_transitions c tr pairs). st_key e = ?k}. set (st_captures e))
        = (\<Union>e \<in> {e \<in> set (collect_transitions c tr pairs). st_key e = ?k}. {c})"
      using collect_edges(1) [of c tr pairs] by (intro SUP_cong) auto
    ultimately show ?thesis by (auto simp: image_iff)
  qed
  have "(\<Union>e \<in> set (filter (\<lambda>e. st_key e = ?k) (?A @ ?B)). set (st_captures e))
      = (\<Union>e \<in> {e \<in> set ?A. st_key e = ?k}. set (st_captures e)) \<union> (\<Union>e \<in> {e \<in> set ?B. st_key e = ?k}. set (st_captures e))"
    by auto
  then show "st_captures t = sorted_list_of_set
       ((if moves_in ?k ta \<noteq> [] then {ca} else {}) \<union> (if moves_in ?k tb \<noteq> [] then {cb} else {}))"
    using merged by (simp only: caps)
qed

text \<open>The states of one capture: how many frames reached each, from which to which frame.\<close>

lemma span_fold:
  "foldl (\<lambda>v e. case v of (f, l, n) \<Rightarrow> (min f (tr_frame_index e), max l (tr_frame_index e), n + 1)) (f, l, n :: u32) es
     = (Min (insert f (tr_frame_index ` set es)), Max (insert l (tr_frame_index ` set es)), n + of_nat (length es))"
proof (induction es arbitrary: f l n)
  case (Cons e es)
  have "Min (insert (min a b) S) = Min (insert a (insert b S))" "Max (insert (max a b) S) = Max (insert a (insert b S))"
    if "finite S" for a b :: u32 and S
    using that by (cases "S = {}"; simp add: min.assoc max.assoc)+
  then show ?case using Cons.IH [of "min f (tr_frame_index e)" "max l (tr_frame_index e)" "n + 1"]
    by (simp add: ac_simps del: Min_insert Max_insert)
qed simp

lemma aggregate_exact:
  "map so_state_id (aggregate_states cid trace) = sorted_list_of_set (tr_to ` set trace)"
  "s \<in> set (aggregate_states cid trace) \<Longrightarrow> so_capture_id s = cid
     \<and> so_message_count s = of_nat (length (filter (\<lambda>e. tr_to e = so_state_id s) trace))
     \<and> so_first_frame s = Min (tr_frame_index ` set (filter (\<lambda>e. tr_to e = so_state_id s) trace))
     \<and> so_last_frame s = Max (tr_frame_index ` set (filter (\<lambda>e. tr_to e = so_state_id s) trace))"
proof -
  let ?d = "\<lambda>e. (tr_frame_index e, tr_frame_index e, 0 :: u32)"
  let ?f = "\<lambda>e (f, l, n). (min f (tr_frame_index e), max l (tr_frame_index e), n + 1)"
  let ?m = "foldl (\<lambda>m e. bt_entry (tr_to e) (?d e) (?f e) m) [] trace"
  have "map so_state_id (aggregate_states cid trace) = map fst ?m"
    by (simp add: aggregate_states_def Let_def case_prod_unfold comp_def)
  then show "map so_state_id (aggregate_states cid trace) = sorted_list_of_set (tr_to ` set trace)"
    using bt.fill_keys [of tr_to ?d ?f trace] by simp
  assume "s \<in> set (aggregate_states cid trace)"
  then obtain k f l n where e: "(k, f, l, n) \<in> set ?m" "so_state_id s = k" "so_capture_id s = cid"
      "so_first_frame s = f" "so_last_frame s = l" "so_message_count s = n"
    by (auto simp: aggregate_states_def Let_def)
  have ok: "bt_ok ?m" by (rule bt.fill(1) [OF bt.ok_empty])
  have "bt_get ?m k = Some (f, l, n)" using e(1) bt.entries_get [OF ok] by simp
  then obtain x xs where sl: "filter (\<lambda>e. tr_to e = k) trace = x # xs"
      "foldl (\<lambda>v e. ?f e v) (?d x) (x # xs) = (f, l, n)"
    unfolding bt.fill(2) [OF bt.ok_empty] by (auto split: list.splits)
  then show "so_capture_id s = cid
     \<and> so_message_count s = of_nat (length (filter (\<lambda>e. tr_to e = so_state_id s) trace))
     \<and> so_first_frame s = Min (tr_frame_index ` set (filter (\<lambda>e. tr_to e = so_state_id s) trace))
     \<and> so_last_frame s = Max (tr_frame_index ` set (filter (\<lambda>e. tr_to e = so_state_id s) trace))"
    using e span_fold [of "tr_frame_index x" "tr_frame_index x" 0 "x # xs"] by simp
qed

text \<open>A trace has one entry per frame, in order, and every entry starts where the one before ended.\<close>

definition trace_follows :: "message_observation list \<Rightarrow> trace_entry list \<Rightarrow> bool" where
  "trace_follows os trace \<longleftrightarrow>
     map (\<lambda>e. (tr_frame_index e, tr_message_id e, tr_direction e, tr_context e)) trace
       = map (\<lambda>o1. (mo_frame_index o1, mo_message_id o1, mo_direction o1, mo_context o1)) os
     \<and> map tr_from trace = butlast (STATE_START # map tr_to trace)"

lemma replay_follows: "trace_follows os (replay_state_trace os branch_after)"
proof -
  have "map (\<lambda>e. (tr_frame_index e, tr_message_id e, tr_direction e, tr_context e)) (replay_loop i c sl br os)
      = map (\<lambda>o1. (mo_frame_index o1, mo_message_id o1, mo_direction o1, mo_context o1)) os
     \<and> map tr_from (replay_loop i c sl br os) = butlast (c # map tr_to (replay_loop i c sl br os))" for i c sl br
    by (induction os arbitrary: i c) (auto simp: Let_def)
  then show ?thesis by (simp add: trace_follows_def replay_state_trace_def)
qed

definition state_counts :: "string \<Rightarrow> trace_entry list \<Rightarrow> (string \<times> string \<times> u32) list" where
  "state_counts cid trace =
     map (\<lambda>k. (cid, k, of_nat (length (filter (\<lambda>e. tr_to e = k) trace)))) (sorted_list_of_set (tr_to ` set trace))"

lemma aggregate_counts:
  "map (\<lambda>s. (so_capture_id s, so_state_id s, so_message_count s)) (aggregate_states cid trace) = state_counts cid trace"
proof -
  have "map (\<lambda>s. (so_capture_id s, so_state_id s, so_message_count s)) (aggregate_states cid trace)
      = map (\<lambda>k. (cid, k, of_nat (length (filter (\<lambda>e. tr_to e = k) trace)))) (map so_state_id (aggregate_states cid trace))"
    using aggregate_exact(2) [of _ cid trace] by simp
  then show ?thesis by (simp only: aggregate_exact(1) state_counts_def)
qed

lemma edge_classes:
  assumes "ca \<noteq> cb" "t \<in> set (edges_of ca ta cb tb pairs)"
  shows "st_class t = (if moves_in (st_key t) ta \<noteq> [] \<and> moves_in (st_key t) tb \<noteq> []
     then StStableCrossCapture else StCaptureSpecific)"
proof -
  have "tr_key ` set (ta @ tb) = st_key ` set (edges_of ca ta cb tb pairs)"
    by (simp add: edges_of_def merged_edges(2) collect_edges(3) image_Un)
  then have "moves_in (st_key t) ta \<noteq> [] \<or> moves_in (st_key t) tb \<noteq> []"
    using assms(2) by (force simp: moves_in_def filter_empty_conv)
  then show ?thesis
    using merged_edges(4) [OF assms(2) [unfolded edges_of_def]] edges_of_moves(2) [OF assms(2)] assms(1) by auto
qed

section \<open>Properties\<close>

text \<open>
  C29. The state machine of two captures counts every frame exactly once. Each capture's trace has
  one entry per frame of its inventory, in order, and every entry starts in the state the one
  before it ended in. The states of the machine are the states the traces reach, each with the
  number of frames that reached it in that capture. There is exactly one merged transition per move
  (from, to, message id, direction) that a trace makes: its occurrences are the frames of both
  captures that make it, and it is stable across captures exactly when both do. Every end of a
  transition is a node.
\<close>

theorem machine_counts_frames:
  assumes "from_observations ca xs = Some A" "from_observations cb ys = Some B" "ca \<noteq> cb"
  shows "let m = build_state_machine approx A B;
      ta = the (bt_get (sm_traces m) ca); tb = the (bt_get (sm_traces m) cb) in
    mset (ordered_observations A) = mset xs \<and> trace_follows (ordered_observations A) ta
    \<and> mset (ordered_observations B) = mset ys \<and> trace_follows (ordered_observations B) tb
    \<and> map (\<lambda>s. (so_capture_id s, so_state_id s, so_message_count s)) (sm_states m)
        = state_counts ca ta @ state_counts cb tb
    \<and> distinct (map st_key (sm_edges m)) \<and> st_key ` set (sm_edges m) = tr_key ` set (ta @ tb)
    \<and> (\<forall>e \<in> set (sm_edges m).
         st_occurrences e = of_nat (length (moves_in (st_key e) (ta @ tb)))
         \<and> st_class e = (if moves_in (st_key e) ta \<noteq> [] \<and> moves_in (st_key e) tb \<noteq> []
              then StStableCrossCapture else StCaptureSpecific))
    \<and> st_from ` set (sm_edges m) \<union> st_to ` set (sm_edges m) \<subseteq> set (sm_nodes m)"
proof -
  let ?m = "build_state_machine approx A B"
  have ids: "ci_capture_id A = ca" "ci_capture_id B = cb"
    using from_observations_fields(8) assms(1,2) by blast+
  obtain ba bb pairs where m: "sm_traces ?m
        = bt_insert cb (replay_state_trace (ordered_observations B) bb)
            (bt_insert ca (replay_state_trace (ordered_observations A) ba) [])"
      "sm_states ?m = aggregate_states ca (replay_state_trace (ordered_observations A) ba)
         @ aggregate_states cb (replay_state_trace (ordered_observations B) bb)"
      "sm_edges ?m = edges_of ca (replay_state_trace (ordered_observations A) ba)
         cb (replay_state_trace (ordered_observations B) bb) pairs"
      "sm_nodes ?m = graph_nodes (sm_edges ?m)"
    by (simp add: build_state_machine_def edges_of_def Let_def ids)
  let ?ta = "replay_state_trace (ordered_observations A) ba" and ?tb = "replay_state_trace (ordered_observations B) bb"
  have traces: "the (bt_get (sm_traces ?m) ca) = ?ta" "the (bt_get (sm_traces ?m) cb) = ?tb"
    using assms(3) by (auto simp: m(1) bt_insert_def)
  have "st_key ` set (sm_edges ?m) = tr_key ` set (?ta @ ?tb)"
    by (simp add: m(3) edges_of_def merged_edges(2) collect_edges(3) image_Un)
  moreover have "distinct (map st_key (sm_edges ?m))"
    unfolding m(3) edges_of_def by (rule merged_edges(1))
  moreover have "st_from ` set (sm_edges ?m) \<union> st_to ` set (sm_edges ?m) \<subseteq> set (sm_nodes ?m)"
    unfolding m(4) by (rule graph_nodes_mem)
  moreover have "\<forall>e \<in> set (sm_edges ?m). st_occurrences e = of_nat (length (moves_in (st_key e) (?ta @ ?tb)))
         \<and> st_class e = (if moves_in (st_key e) ?ta \<noteq> [] \<and> moves_in (st_key e) ?tb \<noteq> []
              then StStableCrossCapture else StCaptureSpecific)"
    unfolding m(3) using edges_of_moves(1) edge_classes [OF assms(3)] by blast
  moreover have "map (\<lambda>s. (so_capture_id s, so_state_id s, so_message_count s)) (sm_states ?m)
        = state_counts ca ?ta @ state_counts cb ?tb"
    unfolding m(2) map_append aggregate_counts ..
  ultimately show ?thesis
    unfolding Let_def traces
    by (intro conjI replay_follows ordered_observations_eq(1) [OF assms(1)] ordered_observations_eq(1) [OF assms(2)])
qed

text \<open>Two captures of one frame each: what each move counts, whatever the context.\<close>

theorem machine_counts_frames_witness:
  "let fr = (\<lambda>cid x. \<lparr>mo_capture_id = cid, mo_frame_index = 0, mo_direction = ''client_to_server'', mo_frame_kind = 1,
        mo_message_id = 0x1E, mo_context = x, mo_payload_len = 0, mo_payload = [], mo_payload_sha256 = [],
        mo_frame_offset = None, mo_frame_order = None, mo_evidence = LUnknown\<rparr>)
   in \<exists>A B. from_observations ''a'' [fr ''a'' 1] = Some A \<and> from_observations ''b'' [fr ''b'' 2] = Some B
     \<and> distinct (map st_key (sm_edges (build_state_machine False A B)))
     \<and> ordered_observations A = [fr ''a'' 1]"
proof -
  let ?fr = "\<lambda>cid x. \<lparr>mo_capture_id = cid, mo_frame_index = 0, mo_direction = ''client_to_server'', mo_frame_kind = 1,
        mo_message_id = 0x1E, mo_context = x, mo_payload_len = 0, mo_payload = [], mo_payload_sha256 = [],
        mo_frame_offset = None, mo_frame_order = None, mo_evidence = LUnknown\<rparr>"
  obtain A where A: "from_observations ''a'' [?fr ''a'' 1] = Some A"
    by (rule from_observations_exact [of "''a''" "[?fr ''a'' 1]"], rule that)
  obtain B where B: "from_observations ''b'' [?fr ''b'' 2] = Some B"
    by (rule from_observations_exact [of "''b''" "[?fr ''b'' 2]"], rule that)
  have "''a'' \<noteq> ''b''" by simp
  note counts = machine_counts_frames [OF A B this, where approx = False, unfolded Let_def]
  have "mset (ordered_observations A) = mset [?fr ''a'' 1]" by (rule conjunct1 [OF counts])
  then have "ordered_observations A = [?fr ''a'' 1]" by simp
  moreover have "distinct (map st_key (sm_edges (build_state_machine False A B)))"
    using counts by blast
  ultimately show ?thesis unfolding Let_def using A B by blast
qed

end
