(* ===== verification/Payload_Structure.thy ===== *)
theory Payload_Structure
  imports Message_Inventory
begin

text \<open>
  \<open>network/src/payload_structure.rs\<close>: what varies and what does not in the payloads of one
  message id over two captures. Each offset is classified within and across the captures, runs
  of equal offsets become regions, and a region carries integer readings, bit and text
  statistics. Counters are 32 bits wide and wrap. The theory shows that the regions are the
  maximal runs, that the readings are the numbers the bytes stand for, and what the bit
  statistics and the correlated pairs mean.
\<close>

unbundle bit_operations_syntax

section \<open>Classifications\<close>

datatype structural_class =
  PsObserved | PsHypothesis | PsStable | PsDivergent | PsCaptureSpecific | PsUnknown

fun structural_class_str :: "structural_class \<Rightarrow> string" where
  "structural_class_str PsObserved = ''OBSERVED''"
| "structural_class_str PsHypothesis = ''STRUCTURAL_HYPOTHESIS''"
| "structural_class_str PsStable = ''STRUCTURAL_STABLE''"
| "structural_class_str PsDivergent = ''STRUCTURAL_DIVERGENT''"
| "structural_class_str PsCaptureSpecific = ''CAPTURE_SPECIFIC''"
| "structural_class_str PsUnknown = ''UNKNOWN''"

datatype offset_class = OConstant | OVariable | OUnobserved | OLengthDependent

fun offset_class_str :: "offset_class \<Rightarrow> string" where
  "offset_class_str OConstant = ''CONSTANT''"
| "offset_class_str OVariable = ''VARIABLE''"
| "offset_class_str OUnobserved = ''UNOBSERVED''"
| "offset_class_str OLengthDependent = ''LENGTH_DEPENDENT''"

datatype length_class = FixedLength | VariableLength | CrossLengthStable | CrossLengthDivergent

fun length_class_str :: "length_class \<Rightarrow> string" where
  "length_class_str FixedLength = ''FIXED_LENGTH''"
| "length_class_str VariableLength = ''VARIABLE_LENGTH''"
| "length_class_str CrossLengthStable = ''CROSS_CAPTURE_LENGTH_STABLE''"
| "length_class_str CrossLengthDivergent = ''CROSS_CAPTURE_LENGTH_DIVERGENT''"

record numeric_candidate =
  nc_width :: u8
  nc_endian :: string
  nc_distinct :: nat
  nc_samples :: "u64 list"
  nc_monotonic :: bool
  nc_class :: structural_class
  nc_meaning :: string

record bit_variation =
  bv_offset :: nat
  bv_values :: "u8 list"
  bv_or :: u8
  bv_and :: u8
  bv_variable :: "u8 list"
  bv_constant :: "u8 list"
  bv_class :: structural_class

record text_candidate =
  tc_offset :: nat
  tc_width :: nat
  tc_ratio :: u32
  tc_class :: structural_class

record candidate_region =
  cr_start :: nat
  cr_end :: nat
  cr_within :: offset_class
  cr_cross :: offset_class
  cr_status :: structural_class
  cr_numeric :: "numeric_candidate list"
  cr_bits :: "bit_variation option"
  cr_text :: "text_candidate option"

record offset_analysis =
  oa_offset :: nat
  oa_within_a :: offset_class
  oa_within_b :: offset_class
  oa_cross :: offset_class

record structure_report =
  sr_message_id :: u16
  sr_count :: u32
  sr_captures :: "string list"
  sr_lengths_a :: "(nat, u32) btree"
  sr_lengths_b :: "(nat, u32) btree"
  sr_length_class :: length_class
  sr_fingerprints :: "(string, u32) btree"
  sr_offsets :: "offset_analysis list"
  sr_regions :: "candidate_region list"
  sr_pairs :: "(nat \<times> nat \<times> nat \<times> nat) list"

definition PRIORITY_MESSAGE_IDS :: "u16 list" where
  "PRIORITY_MESSAGE_IDS =
     [0x19, 0x1A, 0x1E, 0x1F, 0x79, 0x7A, 0x12E, 0x12F, 0xFA, 0xFB, 0x0A, 0x0B, 0x0C, 0x0D, 0x12,
      0x13, 0x15, 0x16, 0x17, 0x18, 0x20, 0x21, 0x7B, 0xAB, 0x10, 0x11, 0x2A, 0x2B]"

section \<open>Lengths and offsets\<close>

type_synonym observations = "message_observation list"

definition count_lengths :: "observations \<Rightarrow> (nat, u32) btree" where
  "count_lengths obs = foldl (\<lambda>m x. bt_count (mo_payload_len x) m) [] obs"

definition classify_lengths :: "(nat, u32) btree \<Rightarrow> (nat, u32) btree \<Rightarrow> bool \<Rightarrow> bool \<Rightarrow> length_class" where
  "classify_lengths a b has_a has_b =
     (if \<not> has_a \<or> \<not> has_b then
        (let only = if has_a then a else b
         in if length only \<le> 1 then FixedLength else VariableLength)
      else
        (let ka = foldl (\<lambda>s k. bs_insert k s) [] (bt_keys a);
             kb = foldl (\<lambda>s k. bs_insert k s) [] (bt_keys b)
         in if ka = kb then (if length ka \<le> 1 then CrossLengthStable else CrossLengthStable)
            else CrossLengthDivergent))"

text \<open>The values a slice of observations has at an offset, as an ordered set.\<close>

definition values_at :: "nat \<Rightarrow> observations \<Rightarrow> u8 list" where
  "values_at off obs =
     foldl (\<lambda>vs x. if off < length (mo_payload x) then bs_insert (mo_payload x ! off) vs else vs) [] obs"

definition offset_stability :: "observations \<Rightarrow> nat \<Rightarrow> offset_class" where
  "offset_stability obs off =
     (let (vs, seen, missing) =
        foldl (\<lambda>(vs, seen, missing) x.
            if off < length (mo_payload x) then (bs_insert (mo_payload x ! off) vs, seen + 1, missing)
            else (vs, seen, missing + 1)) ([], 0 :: u32, 0 :: u32) obs
      in if seen = 0 then OUnobserved
         else if missing > 0 \<and> length vs \<le> 1 then OLengthDependent
         else if length vs \<le> 1 then OConstant
         else OVariable)"

definition cross_offset_stability ::
  "observations \<Rightarrow> observations \<Rightarrow> nat \<Rightarrow> offset_class \<Rightarrow> offset_class \<Rightarrow> offset_class" where
  "cross_offset_stability a b off within_a within_b =
     (if a = [] \<or> b = [] then OUnobserved
      else if within_a \<in> {OUnobserved, OLengthDependent} \<or> within_b \<in> {OUnobserved, OLengthDependent}
        then OLengthDependent
      else if length (values_at off (a @ b)) \<le> 1 then OConstant
      else if within_a = OConstant \<and> within_b = OConstant then OVariable
      else OVariable)"

section \<open>Readings\<close>

text \<open>The widths the callers pass are 1, 2, 4 and 8, for which no shift exceeds the word.\<close>

definition read_int :: "bytes \<Rightarrow> nat \<Rightarrow> u8 \<Rightarrow> bool \<Rightarrow> u64 option" where
  "read_int payload offset width be =
     (let w = unat width
      in if offset + w > length payload then None
         else
           (let slice = slice_of offset (offset + w) payload
            in Some (if be then foldl (\<lambda>v b. push_bit 8 v OR ucast b) 0 slice
                     else foldl (\<lambda>v (i, b). v OR push_bit (8 * i) (ucast b)) 0 (enumerate 0 slice))))"

definition is_monotonic :: "u64 list \<Rightarrow> bool" where
  "is_monotonic vs =
     (if length vs < 3 then False
      else
        (let (inc, dec) =
           foldl (\<lambda>(inc, dec) (x, y). (if y < x then False else inc, if y > x then False else dec))
             (True, True) (zip vs (tl vs))
         in (inc \<or> dec) \<and> length (foldl (\<lambda>s x. bs_insert x s) [] vs) \<ge> 3))"

definition numeric_candidates :: "nat \<Rightarrow> u8 \<Rightarrow> observations \<Rightarrow> observations \<Rightarrow> numeric_candidate list" where
  "numeric_candidates offset width obs_a obs_b =
     foldl (\<lambda>out (endian, be).
        if width = 1 \<and> endian = ''LE'' then out
        else
          (let vs = List.map_filter (\<lambda>x. read_int (mo_payload x) offset width be) (obs_a @ obs_b)
           in if vs = [] then out
              else
                (let distinct = foldl (\<lambda>s x. bs_insert x s) [] vs
                 in out @ [\<lparr>nc_width = width, nc_endian = endian, nc_distinct = length distinct,
                            nc_samples = sort (take 8 distinct), nc_monotonic = is_monotonic vs,
                            nc_class = PsHypothesis, nc_meaning = ''UNKNOWN''\<rparr>])))
       [] [(''BE'', True), (''LE'', False)]"

definition bit_variation_at :: "nat \<Rightarrow> observations \<Rightarrow> observations \<Rightarrow> bit_variation" where
  "bit_variation_at offset obs_a obs_b =
     (let vs = values_at offset (obs_a @ obs_b);
          (bor, band) = foldl (\<lambda>(bor, band) v. (bor OR v, band AND v)) (0, 0xff) vs;
          band = (if vs = [] then 0 else band);
          (var, con) =
            foldl (\<lambda>(var, con) bit.
               if (bor XOR band) AND push_bit (unat bit) 1 \<noteq> 0 then (var @ [bit], con)
               else (var, con @ [bit])) ([], []) (map of_nat [0..<8])
      in \<lparr>bv_offset = offset, bv_values = vs, bv_or = bor, bv_and = band, bv_variable = var,
          bv_constant = con, bv_class = PsHypothesis\<rparr>)"

text \<open>
  The average divides by the number of ratios as a 32-bit value. It is zero, and the code
  panics, only when that number is a positive multiple of \<open>2 ^ 32\<close>.
\<close>

definition text_candidate_at :: "nat \<Rightarrow> nat \<Rightarrow> observations \<Rightarrow> observations \<Rightarrow> text_candidate option" where
  "text_candidate_at offset width obs_a obs_b =
     (if width < 3 then None
      else
        (let ratios =
           foldl (\<lambda>rs x.
              if offset + width > length (mo_payload x) then rs
              else
                (let slice = slice_of offset (offset + width) (mo_payload x);
                     printable = length (filter (\<lambda>b. b \<ge> 0x20 \<and> b \<le> 0x7e) slice)
                 in rs @ [of_nat (printable * 100 div width) :: u32])) [] (obs_a @ obs_b)
         in if ratios = [] then None
            else
              (let avg = foldl (+) 0 ratios div of_nat (length ratios)
               in if avg < 80 then None
                  else Some \<lparr>tc_offset = offset, tc_width = width, tc_ratio = avg,
                             tc_class = PsHypothesis\<rparr>)))"

section \<open>Regions\<close>

fun region_status :: "offset_class \<Rightarrow> structural_class" where
  "region_status OConstant = PsStable"
| "region_status OVariable = PsDivergent"
| "region_status OLengthDependent = PsCaptureSpecific"
| "region_status OUnobserved = PsUnknown"

definition region_numeric ::
  "nat \<Rightarrow> nat \<Rightarrow> offset_class \<Rightarrow> nat \<Rightarrow> observations \<Rightarrow> observations \<Rightarrow> numeric_candidate list" where
  "region_numeric start width cur n obs_a obs_b =
     (if cur = OUnobserved then []
      else
        (let numeric = (if width \<in> {1, 2, 4, 8} then numeric_candidates start (of_nat width) obs_a obs_b else []);
             allow_span = width > 1 \<or> cur = OConstant
         in if \<not> allow_span then numeric
            else foldl (\<lambda>ns w. if unat w = width then ns
                               else if start + unat w \<le> n then ns @ numeric_candidates start w obs_a obs_b
                               else ns) numeric [2, 4, 8]))"

text \<open>A region that ends before \<open>i\<close>, and the loop over the ends.\<close>

definition make_region ::
  "offset_analysis list \<Rightarrow> observations \<Rightarrow> observations \<Rightarrow> nat \<Rightarrow> offset_class \<Rightarrow> nat \<Rightarrow> candidate_region" where
  "make_region offsets obs_a obs_b start cur i =
     (let within = (if oa_within_a (offsets ! start) = oa_within_b (offsets ! start)
                    then oa_within_a (offsets ! start) else OVariable);
          width = i - start
      in \<lparr>cr_start = start, cr_end = i, cr_within = within, cr_cross = cur,
          cr_status = region_status cur,
          cr_numeric = region_numeric start width cur (length offsets) obs_a obs_b,
          cr_bits = (if width = 1 then Some (bit_variation_at start obs_a obs_b) else None),
          cr_text = text_candidate_at start width obs_a obs_b\<rparr>)"

definition region_step ::
  "offset_analysis list \<Rightarrow> observations \<Rightarrow> observations \<Rightarrow>
   candidate_region list \<times> nat \<times> offset_class \<Rightarrow> nat \<Rightarrow> candidate_region list \<times> nat \<times> offset_class" where
  "region_step offsets obs_a obs_b s i =
     (case s of (regions, start, cur) \<Rightarrow>
       if i = length offsets \<or> oa_cross (offsets ! i) \<noteq> cur then
         (let regions = regions @ [make_region offsets obs_a obs_b start cur i]
          in if i < length offsets then (regions, i, oa_cross (offsets ! i)) else (regions, start, cur))
       else s)"

definition build_regions :: "offset_analysis list \<Rightarrow> observations \<Rightarrow> observations \<Rightarrow> candidate_region list" where
  "build_regions offsets obs_a obs_b =
     (if offsets = [] then []
      else fst (foldl (region_step offsets obs_a obs_b) ([], 0, oa_cross (offsets ! 0))
                  [1..<Suc (length offsets)]))"

section \<open>Regions that change together\<close>

definition slice_differs :: "message_observation \<Rightarrow> message_observation \<Rightarrow> nat \<Rightarrow> nat \<Rightarrow> bool" where
  "slice_differs a b start end' =
     (let la = length (mo_payload a); lb = length (mo_payload b);
          wa = min end' la - min start la;
          wb = min end' lb - min start lb
      in if wa \<noteq> wb \<or> start \<ge> la \<or> start \<ge> lb then mo_payload_len a \<noteq> mo_payload_len b
         else slice_of start (start + wa) (mo_payload a) \<noteq> slice_of start (start + wb) (mo_payload b))"

definition regions_change_together ::
  "observations \<Rightarrow> observations \<Rightarrow> candidate_region \<Rightarrow> candidate_region \<Rightarrow> bool" where
  "regions_change_together obs_a obs_b ra rb =
     (case obs_a @ obs_b of
        [] \<Rightarrow> False
      | [x] \<Rightarrow> False
      | base # rest \<Rightarrow>
          (let (linked, considered) =
             foldl (\<lambda>(linked, considered) x.
                let da = slice_differs base x (cr_start ra) (cr_end ra);
                    db = slice_differs base x (cr_start rb) (cr_end rb)
                in if da \<or> db then (if da = db then linked + 1 else linked, considered + 1)
                   else (linked, considered)) (0 :: u32, 0 :: u32) rest
           in considered \<ge> 2 \<and> linked = considered))"

type_synonym region_pair = "nat \<times> nat \<times> nat \<times> nat"

definition pair_of :: "candidate_region \<Rightarrow> candidate_region \<Rightarrow> region_pair" where
  "pair_of ra rb = (cr_start ra, cr_end ra, cr_start rb, cr_end rb)"

text \<open>The two loops; \<open>Inl\<close> is the return from inside them.\<close>

fun pairs_inner ::
  "(candidate_region \<Rightarrow> candidate_region \<Rightarrow> bool) \<Rightarrow> candidate_region \<Rightarrow> candidate_region list \<Rightarrow>
   region_pair list \<Rightarrow> region_pair list + region_pair list" where
  "pairs_inner together ra [] pairs = Inr pairs"
| "pairs_inner together ra (rb # rbs) pairs =
     (if together ra rb then
        (let pairs = pairs @ [pair_of ra rb]
         in if length pairs \<ge> 32 then Inl pairs else pairs_inner together ra rbs pairs)
      else pairs_inner together ra rbs pairs)"

fun pairs_outer ::
  "(candidate_region \<Rightarrow> candidate_region \<Rightarrow> bool) \<Rightarrow> candidate_region list \<Rightarrow> region_pair list \<Rightarrow> region_pair list" where
  "pairs_outer together [] pairs = pairs"
| "pairs_outer together (ra # rest) pairs =
     (case pairs_inner together ra rest pairs of
        Inl pairs \<Rightarrow> pairs
      | Inr pairs \<Rightarrow> pairs_outer together rest pairs)"

definition find_correlations :: "observations \<Rightarrow> observations \<Rightarrow> candidate_region list \<Rightarrow> region_pair list" where
  "find_correlations obs_a obs_b regions =
     (let variable = take 48 (filter (\<lambda>r. cr_cross r = OVariable) regions)
      in pairs_outer (regions_change_together obs_a obs_b) variable [])"

section \<open>The report\<close>

definition analyze_message_id :: "u16 \<Rightarrow> observations \<Rightarrow> string \<Rightarrow> string \<Rightarrow> structure_report" where
  "analyze_message_id i observations capture_a capture_b =
     (let obs_a = filter (\<lambda>x. mo_capture_id x = capture_a \<and> mo_message_id x = i) observations;
          obs_b = filter (\<lambda>x. mo_capture_id x = capture_b \<and> mo_message_id x = i) observations;
          seen = (if obs_a \<noteq> [] then bs_insert capture_a [] else []);
          seen = (if obs_b \<noteq> [] then bs_insert capture_b seen else seen);
          lengths_a = count_lengths obs_a;
          lengths_b = count_lengths obs_b;
          fingerprints = foldl (\<lambda>m x. bt_count (mo_payload_sha256 x) m) [] (obs_a @ obs_b);
          max_len = fold max (map mo_payload_len (filter (\<lambda>x. mo_message_id x = i) observations)) 0;
          offsets = map (\<lambda>off.
             let within_a = offset_stability obs_a off;
                 within_b = offset_stability obs_b off
             in \<lparr>oa_offset = off, oa_within_a = within_a, oa_within_b = within_b,
                 oa_cross = cross_offset_stability obs_a obs_b off within_a within_b\<rparr>) [0..<max_len];
          regions = build_regions offsets obs_a obs_b
      in \<lparr>sr_message_id = i, sr_count = of_nat (length obs_a + length obs_b), sr_captures = seen,
          sr_lengths_a = lengths_a, sr_lengths_b = lengths_b,
          sr_length_class = classify_lengths lengths_a lengths_b (obs_a \<noteq> []) (obs_b \<noteq> []),
          sr_fingerprints = fingerprints, sr_offsets = offsets, sr_regions = regions,
          sr_pairs = find_correlations obs_a obs_b regions\<rparr>)"

section \<open>The export without payload bytes\<close>

record safe_numeric =
  sn_width :: u8
  sn_endian :: string
  sn_distinct :: nat
  sn_samples :: "u64 list"
  sn_monotonic :: bool
  sn_class :: string
  sn_meaning :: string

record safe_bits =
  sb_offset :: nat
  sb_values :: "u8 list"
  sb_variable :: "u8 list"
  sb_constant :: "u8 list"
  sb_class :: string

record safe_text =
  st_offset :: nat
  st_width :: nat
  st_ratio :: u32
  st_class :: string

record safe_region =
  sg_start :: nat
  sg_end :: nat
  sg_within :: string
  sg_cross :: string
  sg_status :: string
  sg_numeric :: "safe_numeric list"
  sg_bits :: "safe_bits option"
  sg_text :: "safe_text option"

record safe_structure =
  se_message_id :: string
  se_count :: u32
  se_captures :: "string list"
  se_lengths_a :: "(string, u32) btree"
  se_lengths_b :: "(string, u32) btree"
  se_length_class :: string
  se_fingerprints :: "(string, u32) btree"
  se_regions_total :: nat
  se_regions_exported :: nat
  se_stable :: nat
  se_variable :: nat
  se_regions :: "safe_region list"
  se_pairs :: "string list"

definition SAFE_EXPORT_REGION_LIMIT :: nat where "SAFE_EXPORT_REGION_LIMIT = 64"

definition export_numeric :: "numeric_candidate \<Rightarrow> safe_numeric" where
  "export_numeric n =
     \<lparr>sn_width = nc_width n, sn_endian = nc_endian n, sn_distinct = nc_distinct n,
      sn_samples = nc_samples n, sn_monotonic = nc_monotonic n,
      sn_class = structural_class_str (nc_class n), sn_meaning = nc_meaning n\<rparr>"

definition export_bits :: "bit_variation \<Rightarrow> safe_bits" where
  "export_bits b =
     \<lparr>sb_offset = bv_offset b, sb_values = bv_values b, sb_variable = bv_variable b,
      sb_constant = bv_constant b, sb_class = structural_class_str (bv_class b)\<rparr>"

definition export_text :: "text_candidate \<Rightarrow> safe_text" where
  "export_text t =
     \<lparr>st_offset = tc_offset t, st_width = tc_width t, st_ratio = tc_ratio t,
      st_class = structural_class_str (tc_class t)\<rparr>"

definition export_region :: "candidate_region \<Rightarrow> safe_region" where
  "export_region r =
     \<lparr>sg_start = cr_start r, sg_end = cr_end r, sg_within = offset_class_str (cr_within r),
      sg_cross = offset_class_str (cr_cross r), sg_status = structural_class_str (cr_status r),
      sg_numeric = map export_numeric (take 8 (cr_numeric r)),
      sg_bits = map_option export_bits (cr_bits r), sg_text = map_option export_text (cr_text r)\<rparr>"

definition export_order :: "candidate_region list \<Rightarrow> candidate_region list" where
  "export_order regions =
     take SAFE_EXPORT_REGION_LIMIT
       (filter (\<lambda>r. cr_cross r \<noteq> OVariable) regions
        @ take SAFE_EXPORT_REGION_LIMIT (filter (\<lambda>r. cr_cross r = OVariable) regions))"

definition show_pair :: "region_pair \<Rightarrow> string" where
  "show_pair p = (case p of (a0, a1, b0, b1) \<Rightarrow>
     show_nat a0 @ ''..'' @ show_nat a1 @ ''<->'' @ show_nat b0 @ ''..'' @ show_nat b1)"

definition to_safe_report :: "structure_report \<Rightarrow> safe_structure" where
  "to_safe_report r =
     (let ordered = export_order (sr_regions r)
      in \<lparr>se_message_id = fmt_msg_id (sr_message_id r), se_count = sr_count r,
          se_captures = sr_captures r,
          se_lengths_a = foldl (\<lambda>m (k, v). bt_insert (show_nat k) v m) [] (sr_lengths_a r),
          se_lengths_b = foldl (\<lambda>m (k, v). bt_insert (show_nat k) v m) [] (sr_lengths_b r),
          se_length_class = length_class_str (sr_length_class r),
          se_fingerprints = foldl (\<lambda>m (k, v). bt_insert k v m) [] (take 32 (sr_fingerprints r)),
          se_regions_total = length (sr_regions r), se_regions_exported = length ordered,
          se_stable = length (filter (\<lambda>x. cr_cross x = OConstant) (sr_regions r)),
          se_variable = length (filter (\<lambda>x. cr_cross x = OVariable) (sr_regions r)),
          se_regions = map export_region ordered,
          se_pairs = map show_pair (take 32 (sr_pairs r))\<rparr>)"

definition flatten_observations :: "inventory \<Rightarrow> observations" where
  "flatten_observations groups = foldl (\<lambda>out g. out @ mg_observations g) [] (bt_vals groups)"

definition external_name_label :: "u16 \<Rightarrow> (string \<times> evidence_label) option" where
  "external_name_label i = map_option (\<lambda>n. (n, LExternalReference)) (lookup_name i)"

section \<open>What the values at an offset are\<close>

definition value_set :: "nat \<Rightarrow> observations \<Rightarrow> u8 set" where
  "value_set off obs = (\<lambda>x. mo_payload x ! off) ` set (filter (\<lambda>x. off < length (mo_payload x)) obs)"

lemma finite_value_set [simp]: "finite (value_set off obs)"
  by (simp add: value_set_def)

lemma foldl_filter: "foldl (\<lambda>s x. if P x then f s x else s) s xs = foldl f s (filter P xs)"
  by (induction xs arbitrary: s) simp_all

lemma values_at_sorted: "values_at off obs = sorted_list_of_set (value_set off obs)"
  using bs_insert_fold [of "{}" "\<lambda>x. mo_payload x ! off" "filter (\<lambda>x. off < length (mo_payload x)) obs"]
  by (simp add: values_at_def foldl_filter [of _ "\<lambda>vs x. bs_insert (mo_payload x ! off) vs"] value_set_def)

lemma set_values_at [simp]: "set (values_at off obs) = value_set off obs"
  by (simp add: values_at_sorted)

lemma values_at_counted:
  "foldl (\<lambda>(vs, seen, missing) x.
      if off < length (mo_payload x) then (bs_insert (mo_payload x ! off) vs, seen + 1, missing)
      else (vs, seen, missing + 1)) (vs, s, m) obs =
   (foldl (\<lambda>vs x. if off < length (mo_payload x) then bs_insert (mo_payload x ! off) vs else vs) vs obs,
    s + of_nat (length (filter (\<lambda>x. off < length (mo_payload x)) obs)),
    m + (of_nat (length (filter (\<lambda>x. \<not> off < length (mo_payload x)) obs)) :: u32))"
  for s :: u32
  by (induction obs arbitrary: vs s m) (simp_all add: algebra_simps)

lemma offset_stability_exact:
  assumes "length obs < 2 ^ 32"
  shows "offset_stability obs off =
     (let vs = value_set off obs; short = (\<exists>x \<in> set obs. length (mo_payload x) \<le> off)
      in if vs = {} then OUnobserved
         else if card vs \<le> 1 then (if short then OLengthDependent else OConstant)
         else OVariable)"
proof -
  have z: "(of_nat (length (filter P obs)) :: u32) = 0 \<longleftrightarrow> filter P obs = []" for P
    using u32_of_nat_inject [of "length (filter P obs)" 0] le_less_trans [OF length_filter_le assms] by simp
  have m: "(0 :: u32) < of_nat (length (filter (\<lambda>x. \<not> off < length (mo_payload x)) obs)) \<longleftrightarrow>
      (\<exists>x \<in> set obs. length (mo_payload x) \<le> off)"
    by (auto simp: word_gt_0 z filter_empty_conv not_less)
  have s: "(of_nat (length (filter (\<lambda>x. off < length (mo_payload x)) obs)) :: u32) = 0 \<longleftrightarrow> value_set off obs = {}"
    by (auto simp: z value_set_def filter_empty_conv)
  show ?thesis
    unfolding offset_stability_def values_at_counted values_at_def [symmetric]
    by (simp add: s m values_at_sorted Let_def)
qed

text \<open>Across the captures an offset is constant exactly when every payload of both has the same byte there.\<close>

definition same_byte :: "nat \<Rightarrow> observations \<Rightarrow> u8 \<Rightarrow> bool" where
  "same_byte off obs v \<longleftrightarrow> (\<forall>x \<in> set obs. off < length (mo_payload x) \<and> mo_payload x ! off = v)"

lemma stable_iff_same_byte:
  assumes "length obs < 2 ^ 32" "obs \<noteq> []"
  shows "offset_stability obs off \<notin> {OUnobserved, OLengthDependent} \<and> value_set off obs \<subseteq> {v}
     \<longleftrightarrow> same_byte off obs v"
proof
  assume l: "offset_stability obs off \<notin> {OUnobserved, OLengthDependent} \<and> value_set off obs \<subseteq> {v}"
  then have "card (value_set off obs) \<le> 1" by (metis card_mono finite.emptyI finite_insert is_singletonI is_singleton_altdef)
  with l have "\<not> (\<exists>x \<in> set obs. length (mo_payload x) \<le> off)"
    by (auto simp: offset_stability_exact [OF assms(1)] Let_def split: if_splits)
  with l show "same_byte off obs v" by (auto simp: same_byte_def value_set_def not_le)
next
  assume r: "same_byte off obs v"
  then have "value_set off obs = {v}" using assms(2) by (auto simp: same_byte_def value_set_def image_iff neq_Nil_conv)
  with r show "offset_stability obs off \<notin> {OUnobserved, OLengthDependent} \<and> value_set off obs \<subseteq> {v}"
    by (auto simp: offset_stability_exact [OF assms(1)] Let_def same_byte_def)
qed

lemma small_set: "finite S \<Longrightarrow> card S \<le> 1 \<longleftrightarrow> (\<exists>v. S \<subseteq> {v})"
  by (metis card_1_singletonE card_eq_0_iff empty_subsetI finite.emptyI finite_insert card_mono
      is_singletonI is_singleton_altdef le_antisym less_one not_le order_refl)

lemma value_set_append [simp]: "value_set off (a @ b) = value_set off a \<union> value_set off b"
  by (auto simp: value_set_def)

lemma cross_constant_iff:
  assumes "length a < 2 ^ 32" "length b < 2 ^ 32"
  shows "cross_offset_stability a b off (offset_stability a off) (offset_stability b off) = OConstant \<longleftrightarrow>
     a \<noteq> [] \<and> b \<noteq> [] \<and> (\<exists>v. same_byte off (a @ b) v)"
proof (cases "a = [] \<or> b = []")
  case False
  have "length (values_at off (a @ b)) \<le> 1 \<longleftrightarrow> (\<exists>v. value_set off a \<subseteq> {v} \<and> value_set off b \<subseteq> {v})"
    using small_set [of "value_set off (a @ b)"] by (simp add: values_at_sorted)
  moreover have "same_byte off (a @ b) v \<longleftrightarrow> same_byte off a v \<and> same_byte off b v" for v
    by (auto simp: same_byte_def)
  ultimately show ?thesis
    using False stable_iff_same_byte [OF assms(1), of off] stable_iff_same_byte [OF assms(2), of off]
    unfolding cross_offset_stability_def by (auto split: if_splits)
qed (auto simp: cross_offset_stability_def)

section \<open>Regions are the maximal runs\<close>

text \<open>The regions lie end to end from one offset to another, none of them empty.\<close>

fun tiles :: "nat \<Rightarrow> candidate_region list \<Rightarrow> nat \<Rightarrow> bool" where
  "tiles s [] e \<longleftrightarrow> s = e"
| "tiles s (r # rs) e \<longleftrightarrow> cr_start r = s \<and> s < cr_end r \<and> tiles (cr_end r) rs e"

definition expand_regions :: "candidate_region list \<Rightarrow> offset_class list" where
  "expand_regions rs = concat (map (\<lambda>r. replicate (cr_end r - cr_start r) (cr_cross r)) rs)"

lemma tiles_snoc: "tiles s (rs @ [r]) e \<longleftrightarrow> tiles s rs (cr_start r) \<and> cr_start r < cr_end r \<and> cr_end r = e"
  by (induction rs arbitrary: s) auto

lemma make_region_simps [simp]:
  "cr_start (make_region offsets a b s c i) = s" "cr_end (make_region offsets a b s c i) = i"
  "cr_cross (make_region offsets a b s c i) = c"
  by (simp_all add: make_region_def Let_def)

text \<open>
  After the ends up to \<open>k\<close>: the regions tile the offsets before \<open>start\<close> and spell out their
  classes, and the run that is open from \<open>start\<close> on has class \<open>cur\<close>.
\<close>

definition runs_upto ::
  "offset_class list \<Rightarrow> nat \<Rightarrow> candidate_region list \<times> nat \<times> offset_class \<Rightarrow> bool" where
  "runs_upto cs k s \<longleftrightarrow> (case s of (rs, start, cur) \<Rightarrow>
     tiles 0 rs start \<and> start \<le> k \<and> expand_regions rs @ replicate (Suc k - start) cur = take (Suc k) cs
     \<and> successively (\<lambda>x y. cr_cross x \<noteq> cr_cross y) rs \<and> (rs \<noteq> [] \<longrightarrow> cr_cross (last rs) \<noteq> cur))"

lemma runs_upto_step:
  assumes "runs_upto (map oa_cross offsets) k s" "Suc k < length offsets"
  shows "runs_upto (map oa_cross offsets) (Suc k) (region_step offsets a b s (Suc k))"
proof (cases s)
  case (fields rs start cur)
  have t: "take (Suc (Suc k)) (map oa_cross offsets) = take (Suc k) (map oa_cross offsets) @ [oa_cross (offsets ! Suc k)]"
    using assms(2) by (simp add: take_Suc_conv_app_nth)
  have r: "replicate (Suc k - start) cur @ [cur] = replicate (Suc (Suc k) - start) cur" if "start \<le> k"
    using that by (simp add: Suc_diff_le replicate_append_same)
  show ?thesis
  proof (cases "oa_cross (offsets ! Suc k) = cur")
    case True
    then have "region_step offsets a b s (Suc k) = s"
      using assms(2) by (simp add: region_step_def fields)
    moreover have "expand_regions rs @ replicate (Suc (Suc k) - start) cur
        = (expand_regions rs @ replicate (Suc k - start) cur) @ [cur]" if "start \<le> k"
      using r [OF that] by simp
    ultimately show ?thesis
      using True assms(1) unfolding runs_upto_def fields t by (auto simp del: replicate_Suc)
  next
    case False
    then have "region_step offsets a b s (Suc k) =
        (rs @ [make_region offsets a b start cur (Suc k)], Suc k, oa_cross (offsets ! Suc k))"
      using assms(2) by (simp add: region_step_def fields)
    with False assms(1) show ?thesis
      unfolding runs_upto_def fields t
      by (auto simp: tiles_snoc expand_regions_def successively_append_iff)
  qed
qed

lemma runs_upto_loop:
  assumes "k < length offsets"
  shows "runs_upto (map oa_cross offsets) k
     (foldl (region_step offsets a b) ([], 0, oa_cross (offsets ! 0)) [1..<Suc k])"
  using assms
proof (induction k)
  case 0
  then show ?case by (cases offsets) (simp_all add: runs_upto_def expand_regions_def)
next
  case (Suc k)
  then show ?case using runs_upto_step [of offsets k] by simp
qed

lemma regions_runs:
  "tiles 0 (build_regions offsets a b) (length offsets)"
  "expand_regions (build_regions offsets a b) = map oa_cross offsets"
  "successively (\<lambda>x y. cr_cross x \<noteq> cr_cross y) (build_regions offsets a b)"
proof -
  have "tiles 0 (build_regions offsets a b) (length offsets)
     \<and> expand_regions (build_regions offsets a b) = map oa_cross offsets
     \<and> successively (\<lambda>x y. cr_cross x \<noteq> cr_cross y) (build_regions offsets a b)"
  proof (cases offsets)
    case (Cons c cs)
    define k where "k = length cs"
    obtain rs start cur where s: "foldl (region_step offsets a b) ([], 0, oa_cross (offsets ! 0)) [1..<Suc k] = (rs, start, cur)"
      by (metis prod_cases3)
    have i: "runs_upto (map oa_cross offsets) k (rs, start, cur)"
      using runs_upto_loop [of k offsets a b] unfolding s by (simp add: k_def Cons)
    have len: "length offsets = Suc k" by (simp add: Cons k_def)
    have "build_regions offsets a b = rs @ [make_region offsets a b start cur (Suc k)]"
      using s len by (simp add: build_regions_def region_step_def Cons)
    then show ?thesis
      using i len by (auto simp: runs_upto_def tiles_snoc expand_regions_def successively_append_iff)
  qed (simp add: build_regions_def expand_regions_def)
  then show "tiles 0 (build_regions offsets a b) (length offsets)"
    "expand_regions (build_regions offsets a b) = map oa_cross offsets"
    "successively (\<lambda>x y. cr_cross x \<noteq> cr_cross y) (build_regions offsets a b)" by simp_all
qed

section \<open>Integer readings are the numbers of the bytes\<close>

lemma or_push_nat:
  fixes a b :: nat
  assumes "a < 2 ^ k"
  shows "a OR push_bit k b = a + b * 2 ^ k"
proof -
  have "take_bit k a AND push_bit k b = 0" by (rule bit_eqI) (auto simp: bit_simps)
  then have "a AND push_bit k b = 0" using assms by (simp add: take_bit_nat_eq_self)
  then show ?thesis by (simp add: disjunctive_add_eq_or [symmetric] push_bit_eq_mult)
qed

lemma or_push_u64:
  fixes v w :: u64
  assumes "unat v < 2 ^ k" "unat w < 2 ^ m" "k + m \<le> 64"
  shows "unat (v OR push_bit k w) = unat v + unat w * 2 ^ k"
proof -
  have "unat w * 2 ^ k < 2 ^ m * 2 ^ k" using assms(2) by simp
  also have "\<dots> \<le> (2 :: nat) ^ 64" 
    using power_increasing [OF assms(3), of "2 :: nat"] by (simp add: power_add mult.commute)
  finally have "unat (push_bit k w) = push_bit k (unat w)"
    unfolding unsigned_push_bit_eq by (simp add: push_bit_eq_mult take_bit_nat_eq_self)
  then show ?thesis using or_push_nat [OF assms(1)] unfolding unsigned_or_eq by (simp add: push_bit_eq_mult)
qed

lemma unat_ucast_u8_u64 [simp]: "unat (ucast (b :: u8) :: u64) = unat b"
  by (simp add: unsigned_ucast_eq take_bit_nat_eq_self less_trans [OF unat_u8_lt])

lemma read_be:
  assumes "length bs \<le> 8"
  shows "unat (foldl (\<lambda>v b. push_bit 8 v OR ucast b) (0 :: u64) bs) = be_nat bs"
  using assms
proof (induction bs rule: rev_induct)
  case (snoc b bs)
  let ?v = "foldl (\<lambda>v b. push_bit 8 v OR ucast b) (0 :: u64) bs"
  have "unat ?v < 2 ^ (8 * length bs)"
    using snoc be_nat_bound [of bs] by (simp add: power_mult)
  then have "unat (ucast b OR push_bit 8 ?v) = unat b + unat ?v * 2 ^ 8"
    using snoc.prems unat_u8_lt [of b] by (subst or_push_u64 [where m = "8 * length bs"]) simp_all
  then show ?case using snoc by (simp add: or.commute)
qed simp

lemma read_le:
  assumes "unat v < 256 ^ i" "i + length bs \<le> 8"
  shows "unat (foldl (\<lambda>v (i, b). v OR push_bit (8 * i) (ucast b)) (v :: u64) (enumerate i bs))
     = unat v + 256 ^ i * le_nat bs"
  using assms
proof (induction bs arbitrary: v i)
  case (Cons b bs)
  have s: "unat (v OR push_bit (8 * i) (ucast b) :: u64) = unat v + unat b * 256 ^ i"
    using Cons.prems by (subst or_push_u64 [where m = 8]) (simp_all add: power_mult)
  moreover have "unat v + unat b * 256 ^ i < 256 ^ Suc i"
  proof -
    have "unat v + unat b * 256 ^ i < (unat b + 1) * 256 ^ i" using Cons.prems(1) by simp
    also have "\<dots> \<le> 256 * 256 ^ i" using unat_u8_lt [of b] by (intro mult_right_mono) linarith+
    finally show ?thesis by simp
  qed
  ultimately show ?case
    using Cons.IH [of "v OR push_bit (8 * i) (ucast b)" "Suc i"] Cons.prems(2) by (simp add: algebra_simps)
qed simp

lemma read_int_exact:
  assumes "unat w \<le> 8" "offset + unat w \<le> length payload"
  shows "\<exists>v. read_int payload offset w be = Some v
     \<and> unat v = (if be then be_nat else le_nat) (slice_of offset (offset + unat w) payload)"
  using assms read_be [of "slice_of offset (offset + unat w) payload"]
    read_le [of 0 0 "slice_of offset (offset + unat w) payload"]
  by (simp add: read_int_def Let_def)

section \<open>Bit statistics\<close>

lemma bit_folds:
  "foldl (\<lambda>(bor, band) v. (bor OR v, band AND v)) (o0, a0) vs = (foldl (OR) o0 vs, foldl (AND) a0 vs)"
  for vs :: "u8 list"
  by (induction vs arbitrary: o0 a0) simp_all

lemma bit_foldl_or: "bit (foldl (OR) v vs) n \<longleftrightarrow> bit v n \<or> (\<exists>x \<in> set vs. bit x n)" for vs :: "u8 list"
  by (induction vs arbitrary: v) (auto simp: bit_or_iff)

lemma bit_foldl_and: "bit (foldl (AND) v vs) n \<longleftrightarrow> bit v n \<and> (\<forall>x \<in> set vs. bit x n)" for vs :: "u8 list"
  by (induction vs arbitrary: v) (auto simp: bit_and_iff)

lemma and_mask_bit: "(v AND push_bit n 1 \<noteq> 0) = bit v n" for v :: u8
proof -
  have "v AND push_bit n 1 = (if bit v n then push_bit n 1 else 0)"
    by (rule bit_eqI) (auto simp: bit_simps)
  then show ?thesis by (auto dest: bit_imp_le_length simp: push_bit_eq_mult)
qed

lemma partition_loop:
  "foldl (\<lambda>(p, q) x. if P x then (p @ [x], q) else (p, q @ [x])) (us, ws) xs
     = (us @ filter P xs, ws @ filter (\<lambda>x. \<not> P x) xs)"
  by (induction xs arbitrary: us ws) simp_all

definition bit_numbers :: "u8 list" where "bit_numbers = map of_nat [0..<8]"

lemma bit_variation_exact:
  fixes off a b
  defines "V \<equiv> value_set off (a @ b)"
  defines "differ \<equiv> \<lambda>n :: u8. \<exists>x \<in> V. \<exists>y \<in> V. bit x (unat n) \<noteq> bit y (unat n)"
  shows "bv_values (bit_variation_at off a b) = sorted_list_of_set V"
    "bv_variable (bit_variation_at off a b) = filter differ bit_numbers"
    "bv_constant (bit_variation_at off a b) = filter (\<lambda>n. \<not> differ n) bit_numbers"
proof -
  define vs where "vs = values_at off (a @ b)"
  have V: "set vs = V" "vs = sorted_list_of_set V" by (simp_all add: vs_def V_def values_at_sorted)
  define band where "band = (if vs = [] then 0 else foldl (AND) 0xff vs)"
  have d: "((foldl (OR) 0 vs XOR band) AND push_bit (unat n) 1 \<noteq> 0) = differ n" if "n \<in> set bit_numbers" for n :: u8
  proof -
    have "bit (0xff :: u8) (unat n)" using that unfolding bit_numbers_def by (auto simp: upt_rec)
    then show ?thesis
      unfolding and_mask_bit differ_def V(1) [symmetric] band_def
      by (cases vs) (auto simp: bit_xor_iff bit_foldl_or bit_foldl_and bit_and_iff)
  qed
  have f: "filter (\<lambda>n. (foldl (OR) 0 vs XOR band) AND push_bit (unat n) 1 \<noteq> 0) bit_numbers = filter differ bit_numbers"
    "filter (\<lambda>n. \<not> (foldl (OR) 0 vs XOR band) AND push_bit (unat n) 1 \<noteq> 0) bit_numbers = filter (\<lambda>n. \<not> differ n) bit_numbers"
    using d by (auto intro!: filter_cong)
  show "bv_values (bit_variation_at off a b) = sorted_list_of_set V"
    "bv_variable (bit_variation_at off a b) = filter differ bit_numbers"
    "bv_constant (bit_variation_at off a b) = filter (\<lambda>n. \<not> differ n) bit_numbers"
    unfolding bit_variation_at_def vs_def [symmetric] bit_folds Let_def prod.case band_def [symmetric]
      bit_numbers_def [symmetric] partition_loop
    using f by (simp_all add: V)
qed

section \<open>Pairs that change together\<close>

lemma together_counts:
  "foldl (\<lambda>(linked, considered) x.
      let da = P x; db = Q x
      in if da \<or> db then (if da = db then linked + 1 else linked, considered + 1) else (linked, considered))
    (l, c) xs
   = (l + of_nat (length (filter (\<lambda>x. P x \<and> Q x) xs)), c + (of_nat (length (filter (\<lambda>x. P x \<or> Q x) xs)) :: u32))"
  for l :: u32
  by (induction xs arbitrary: l c) (auto simp: Let_def algebra_simps)

lemma filter_or_and:
  "length (filter (\<lambda>x. P x \<and> Q x) xs) = length (filter (\<lambda>x. P x \<or> Q x) xs) \<longleftrightarrow> (\<forall>x \<in> set xs. P x = Q x)"
proof (induction xs)
  case (Cons x xs)
  have "length (filter (\<lambda>x. P x \<and> Q x) xs) \<le> length (filter (\<lambda>x. P x \<or> Q x) xs)"
    by (induction xs) auto
  with Cons show ?case by auto
qed simp

lemma change_together_counts:
  fixes ra rb base
  defines "P \<equiv> \<lambda>x. slice_differs base x (cr_start ra) (cr_end ra)"
  defines "Q \<equiv> \<lambda>x. slice_differs base x (cr_start rb) (cr_end rb)"
  assumes "a @ b = base # y # ys"
  shows "regions_change_together a b ra rb \<longleftrightarrow>
     (2 :: u32) \<le> of_nat (length (filter (\<lambda>x. P x \<or> Q x) (y # ys)))
     \<and> (of_nat (length (filter (\<lambda>x. P x \<and> Q x) (y # ys))) :: u32) = of_nat (length (filter (\<lambda>x. P x \<or> Q x) (y # ys)))"
  unfolding regions_change_together_def assms(3) list.case together_counts P_def Q_def
  by (simp only: Let_def prod.case add_0)

lemma change_together_iff:
  assumes "length (a @ b) < 2 ^ 32"
  shows "regions_change_together a b ra rb \<longleftrightarrow>
    (\<exists>base rest. a @ b = base # rest
       \<and> (\<forall>x \<in> set rest. slice_differs base x (cr_start ra) (cr_end ra) = slice_differs base x (cr_start rb) (cr_end rb))
       \<and> 2 \<le> length (filter (\<lambda>x. slice_differs base x (cr_start ra) (cr_end ra)) rest))"
proof (cases "a @ b")
  case (Cons base rest)
  define P where "P = (\<lambda>x. slice_differs base x (cr_start ra) (cr_end ra))"
  define Q where "Q = (\<lambda>x. slice_differs base x (cr_start rb) (cr_end rb))"
  have small: "length (filter R rest) < 2 ^ 32" for R
    using assms le_less_trans [OF length_filter_le [of R rest]] by (simp add: Cons)
  have "regions_change_together a b ra rb \<longleftrightarrow>
      rest \<noteq> [] \<and> (2 :: u32) \<le> of_nat (length (filter (\<lambda>x. P x \<or> Q x) rest))
      \<and> (of_nat (length (filter (\<lambda>x. P x \<and> Q x) rest)) :: u32) = of_nat (length (filter (\<lambda>x. P x \<or> Q x) rest))"
  proof (cases rest)
    case (Cons y ys)
    then have "a @ b = base # y # ys" using \<open>a @ b = base # rest\<close> by simp
    from change_together_counts [OF this, of ra rb] show ?thesis
      unfolding P_def Q_def Cons by blast
  qed (simp add: regions_change_together_def Cons)
  also have "(2 :: u32) \<le> of_nat (length (filter (\<lambda>x. P x \<or> Q x) rest)) \<longleftrightarrow> 2 \<le> length (filter (\<lambda>x. P x \<or> Q x) rest)"
    using small by (simp add: word_le_nat_alt unat_of_nat)
  also have "(of_nat (length (filter (\<lambda>x. P x \<and> Q x) rest)) :: u32) = of_nat (length (filter (\<lambda>x. P x \<or> Q x) rest))
      \<longleftrightarrow> (\<forall>x \<in> set rest. P x = Q x)"
    unfolding u32_of_nat_inject [OF small small] by (rule filter_or_and)
  finally have "regions_change_together a b ra rb \<longleftrightarrow>
      rest \<noteq> [] \<and> 2 \<le> length (filter (\<lambda>x. P x \<or> Q x) rest) \<and> (\<forall>x \<in> set rest. P x = Q x)" .
  moreover have "length (filter (\<lambda>x. P x \<or> Q x) rest) = length (filter P rest)" if "\<forall>x \<in> set rest. P x = Q x"
    using that by (metis (mono_tags, lifting) filter_cong)
  ultimately have "regions_change_together a b ra rb \<longleftrightarrow> 2 \<le> length (filter P rest) \<and> (\<forall>x \<in> set rest. P x = Q x)"
    by (metis filter.simps(1) list.size(3) not_numeral_le_zero)
  then show ?thesis by (auto simp: Cons P_def Q_def)
qed (simp add: regions_change_together_def)

text \<open>Every pair of positions \<open>i < j\<close>, in the order of the loops.\<close>

fun ordered_pairs :: "'a list \<Rightarrow> ('a \<times> 'a) list" where
  "ordered_pairs [] = []"
| "ordered_pairs (x # xs) = map (Pair x) xs @ ordered_pairs xs"

definition together_pairs ::
  "(candidate_region \<Rightarrow> candidate_region \<Rightarrow> bool) \<Rightarrow> (candidate_region \<times> candidate_region) list \<Rightarrow> region_pair list" where
  "together_pairs t ps = map (\<lambda>(ra, rb). pair_of ra rb) (filter (\<lambda>(ra, rb). t ra rb) ps)"

lemma together_pairs_append [simp]: "together_pairs t (ps @ qs) = together_pairs t ps @ together_pairs t qs"
  by (simp add: together_pairs_def)

lemma pairs_inner_exact:
  assumes "length pairs < 32"
  shows "pairs_inner t ra rbs pairs =
    (let all = pairs @ together_pairs t (map (Pair ra) rbs)
     in if length all \<ge> 32 then Inl (take 32 all) else Inr all)"
  using assms
proof (induction rbs arbitrary: pairs)
  case (Cons rb rbs)
  show ?case
  proof (cases "t ra rb")
    case True
    show ?thesis
    proof (cases "length pairs = 31")
      case False
      with True Cons.prems Cons.IH [of "pairs @ [pair_of ra rb]"] show ?thesis
        by (simp add: together_pairs_def Let_def)
    qed (use True in \<open>simp add: together_pairs_def Let_def\<close>)
  next
    case False
    with Cons show ?thesis by (simp add: together_pairs_def)
  qed
qed (simp add: together_pairs_def)

lemma pairs_outer_exact:
  "length pairs < 32 \<Longrightarrow> pairs_outer t rs pairs = take 32 (pairs @ together_pairs t (ordered_pairs rs))"
proof (induction rs arbitrary: pairs)
  case (Cons ra rs)
  let ?all = "pairs @ together_pairs t (map (Pair ra) rs)"
  show ?case
    using Cons.IH [of ?all] Cons.prems by (auto simp: pairs_inner_exact Let_def)
qed (simp add: together_pairs_def)

lemma find_correlations_exact:
  "find_correlations a b regions =
     take 32 (together_pairs (regions_change_together a b)
       (ordered_pairs (take 48 (filter (\<lambda>r. cr_cross r = OVariable) regions))))"
  by (simp add: find_correlations_def pairs_outer_exact)

section \<open>What a report says\<close>

definition observed_in :: "u16 \<Rightarrow> string \<Rightarrow> observations \<Rightarrow> observations" where
  "observed_in i c obs = filter (\<lambda>x. mo_capture_id x = c \<and> mo_message_id x = i) obs"

text \<open>
  Two regions are linked when, against the first payload, every other payload differs in both or
  in neither, and at least two differ.
\<close>

definition linked_regions :: "observations \<Rightarrow> candidate_region \<Rightarrow> candidate_region \<Rightarrow> bool" where
  "linked_regions obs ra rb =
     (case obs of [] \<Rightarrow> False
      | base # rest \<Rightarrow>
          (\<forall>x \<in> set rest. slice_differs base x (cr_start ra) (cr_end ra) = slice_differs base x (cr_start rb) (cr_end rb))
          \<and> 2 \<le> length (filter (\<lambda>x. slice_differs base x (cr_start ra) (cr_end ra)) rest))"

lemma linked_iff: "length (a @ b) < 2 ^ 32 \<Longrightarrow> regions_change_together a b ra rb = linked_regions (a @ b) ra rb"
  unfolding change_together_iff linked_regions_def by (cases "a @ b") simp_all

definition report_offset :: "observations \<Rightarrow> observations \<Rightarrow> nat \<Rightarrow> offset_analysis" where
  "report_offset a b off =
     \<lparr>oa_offset = off, oa_within_a = offset_stability a off, oa_within_b = offset_stability b off,
      oa_cross = cross_offset_stability a b off (offset_stability a off) (offset_stability b off)\<rparr>"

lemma report_parts:
  fixes i ca cb obs
  defines "a \<equiv> observed_in i ca obs" and "b \<equiv> observed_in i cb obs"
  defines "n \<equiv> fold max (map mo_payload_len (filter (\<lambda>x. mo_message_id x = i) obs)) 0"
  shows "sr_offsets (analyze_message_id i obs ca cb) = map (report_offset a b) [0..<n]"
    "sr_regions (analyze_message_id i obs ca cb) = build_regions (map (report_offset a b) [0..<n]) a b"
    "sr_pairs (analyze_message_id i obs ca cb) = find_correlations a b (sr_regions (analyze_message_id i obs ca cb))"
  by (simp_all add: analyze_message_id_def Let_def a_def b_def n_def observed_in_def report_offset_def [abs_def])

lemma observed_small: "length obs < n \<Longrightarrow> length (observed_in i c obs) < n"
  unfolding observed_in_def by (rule le_less_trans [OF length_filter_le])

definition demo_structure :: "observations" where
  "demo_structure = map (\<lambda>(c, p). \<lparr>mo_capture_id = c, mo_frame_index = 0, mo_direction = ''client_to_server'',
      mo_frame_kind = 2, mo_message_id = 0x1E, mo_context = 0, mo_payload_len = length p, mo_payload = p,
      mo_payload_sha256 = ''00'', mo_frame_offset = None, mo_frame_order = None, mo_evidence = LObserved\<rparr>)
     [(''a'', [1, 9, 7]), (''a'', [2, 9, 8]), (''b'', [3, 9, 9])]"

lemma demo_observed:
  "observed_in 0x1E ''a'' demo_structure = take 2 demo_structure"
  "observed_in 0x1E ''b'' demo_structure = drop 2 demo_structure"
  "length demo_structure = 3"
  "fold max (map mo_payload_len (filter (\<lambda>x. mo_message_id x = 0x1E) demo_structure)) 0 = 3"
  by (simp_all add: observed_in_def demo_structure_def)

lemma demo_offsets:
  "map oa_cross (map (report_offset (take 2 demo_structure) (drop 2 demo_structure)) [0..<3])
     = [OVariable, OConstant, OVariable]"
  by code_simp

lemma demo_regions:
  fixes offs
  defines "offs \<equiv> map (report_offset (take 2 demo_structure) (drop 2 demo_structure)) [0..<3]"
  defines "region \<equiv> make_region offs (take 2 demo_structure) (drop 2 demo_structure)"
  shows "sr_regions (analyze_message_id 0x1E demo_structure ''a'' ''b'')
     = [region 0 OVariable 1, region 1 OConstant 2, region 2 OVariable 3]"
  using demo_offsets
  by (simp add: report_parts demo_observed build_regions_def region_step_def offs_def region_def upt_rec
      eval_nat_numeral)

lemma demo_linked:
  assumes "cr_start ra = 0" "cr_end ra = 1" "cr_start rb = 2" "cr_end rb = 3"
  shows "linked_regions demo_structure ra rb"
proof -
  have "list_all (\<lambda>x. slice_differs (hd demo_structure) x 0 1 \<and> slice_differs (hd demo_structure) x 2 3)
      (tl demo_structure)" by code_simp
  then have "\<forall>x \<in> set (tl demo_structure). slice_differs (hd demo_structure) x 0 1 \<and> slice_differs (hd demo_structure) x 2 3"
    by (simp add: list_all_iff)
  moreover have "demo_structure \<noteq> []" "length (tl demo_structure) = 2"
    by (simp_all add: demo_structure_def)
  ultimately have "linked_regions (hd demo_structure # tl demo_structure) ra rb"
    unfolding linked_regions_def by (simp add: assms del: list.collapse)
  with \<open>demo_structure \<noteq> []\<close> show ?thesis by simp
qed

text \<open>
  C21. In a structure report the regions lie end to end over all offsets up to the longest
  payload, neighbouring regions have different classes, and an offset lies in a constant region
  exactly when both captures have the message and all payloads of both are longer than the
  offset and have the same byte there.
\<close>

theorem structure_regions_exact:
  assumes "length obs < 2 ^ 32"
  shows "let r = analyze_message_id i obs ca cb; a = observed_in i ca obs; b = observed_in i cb obs;
             n = length (sr_offsets r)
         in n = fold max (map mo_payload_len (filter (\<lambda>x. mo_message_id x = i) obs)) 0
          \<and> tiles 0 (sr_regions r) n
          \<and> successively (\<lambda>x y. cr_cross x \<noteq> cr_cross y) (sr_regions r)
          \<and> (\<forall>off < n. expand_regions (sr_regions r) ! off = OConstant \<longleftrightarrow>
               a \<noteq> [] \<and> b \<noteq> [] \<and> (\<exists>v. same_byte off (a @ b) v))"
proof -
  let ?a = "observed_in i ca obs" and ?b = "observed_in i cb obs"
  let ?n = "fold max (map mo_payload_len (filter (\<lambda>x. mo_message_id x = i) obs)) 0"
  let ?rs = "build_regions (map (report_offset ?a ?b) [0..<?n]) ?a ?b"
  have "tiles 0 ?rs ?n"
    using regions_runs(1) [of "map (report_offset ?a ?b) [0..<?n]" ?a ?b] by simp
  moreover have "expand_regions ?rs ! off = OConstant \<longleftrightarrow> ?a \<noteq> [] \<and> ?b \<noteq> [] \<and> (\<exists>v. same_byte off (?a @ ?b) v)"
    if "off < ?n" for off
    using that cross_constant_iff [OF observed_small [OF assms] observed_small [OF assms], of i ca i cb off]
    by (simp add: regions_runs(2) report_offset_def)
  ultimately show ?thesis
    using regions_runs(3) by (simp add: Let_def report_parts)
qed

lemma structure_regions_witness:
  "map (\<lambda>r. (cr_start r, cr_end r, cr_cross r)) (sr_regions (analyze_message_id 0x1E demo_structure ''a'' ''b''))
     = [(0, 1, OVariable), (1, 2, OConstant), (2, 3, OVariable)]
   \<and> tiles 0 (sr_regions (analyze_message_id 0x1E demo_structure ''a'' ''b'')) 3"
  using structure_regions_exact [of demo_structure "0x1E" "''a''" "''b''"]
  unfolding Let_def demo_observed by (simp add: demo_regions)

text \<open>
  The correlated pairs of a report are the first 32, in the order of the regions, of the
  pairs of linked regions among the first 48 variable ones.
\<close>

lemma correlated_pairs_exact:
  assumes "length (observed_in i ca obs @ observed_in i cb obs) < 2 ^ 32"
  shows "let r = analyze_message_id i obs ca cb
         in sr_pairs r = take 32 (map (\<lambda>(ra, rb). pair_of ra rb)
              (filter (\<lambda>(ra, rb). linked_regions (observed_in i ca obs @ observed_in i cb obs) ra rb)
                (ordered_pairs (take 48 (filter (\<lambda>x. cr_cross x = OVariable) (sr_regions r))))))"
  using assms by (simp add: Let_def report_parts(3) find_correlations_exact together_pairs_def linked_iff del: length_append)

lemma correlated_pairs_witness:
  "sr_pairs (analyze_message_id 0x1E demo_structure ''a'' ''b'') = [(0, 1, 2, 3)]"
proof -
  have "length (observed_in 0x1E ''a'' demo_structure @ observed_in 0x1E ''b'' demo_structure) < 2 ^ 32"
    by (simp add: demo_observed)
  from correlated_pairs_exact [OF this] show ?thesis
    unfolding Let_def demo_regions demo_observed
    by (simp add: demo_linked pair_of_def)
qed

end
