(* ===== verification/Observation.thy ===== *)
theory Observation
  imports External_Boundary Message_Registry Message_Inventory Json_Value
begin

text \<open>
  \<open>network/src/observation.rs\<close> and \<open>observation_trace.rs\<close>: what the observation harness keeps
  of a connection (no payload, no key), how it is derived from the events of the boundary, and
  the reader of trace files, which refuses a document with a sensitive key anywhere in it. The
  decoders \<open>serde\<close> derives, the JSON parser, file contents and SHA-256 are parameters.
\<close>

section \<open>Events\<close>

definition TRACE_VERSION :: string where "TRACE_VERSION = ''1''"

definition safe_fingerprint :: "(bytes \<Rightarrow> bytes) \<Rightarrow> bytes \<Rightarrow> string" where
  "safe_fingerprint sha bs = hex_encode (take 16 (sha (map of_char ''destiny1-obs-fp-v1|'' @ bs)))"

record observed_frame =
  ob_connection :: u64
  ob_index :: u64
  ob_direction :: string
  ob_kind :: u8
  ob_body_len :: nat
  ob_message_id :: "u16 option"
  ob_state :: "string option"
  ob_time_ms :: "u64 option"
  ob_fingerprint :: "string option"

datatype observation_event =
    ObsStarted u64
  | ObsFrame observed_frame
  | ObsState u64 string
  | ObsMismatch u64 string
  | ObsClosed u64 string
  | ObsError "u64 option" string

datatype observation_error =
    SensitiveField string
  | InvalidTrace string
  | TraceIo string
  | TraceJson string

fun show_observation_error :: "observation_error \<Rightarrow> string" where
  "show_observation_error (SensitiveField s) = ''sensitive field rejected: '' @ s"
| "show_observation_error (InvalidTrace s) = ''invalid trace: '' @ s"
| "show_observation_error (TraceIo s) = ''io: '' @ s"
| "show_observation_error (TraceJson s) = ''json: '' @ s"

definition SENSITIVE_FIELD_NAMES :: "string list" where
  "SENSITIVE_FIELD_NAMES =
     [''key'', ''session_key'', ''session_key_hex'', ''token'', ''credential'', ''credentials'',
      ''password'', ''authorization'', ''private_key'', ''secret'', ''hmac'', ''ciphertext'',
      ''plaintext'', ''payload'', ''payload_hex'', ''nonce'', ''session_nonce'', ''session_nonce_hex'']"

definition is_sensitive_key :: "string \<Rightarrow> bool" where
  "is_sensitive_key key =
     (let k = to_ascii_lowercase key
      in list_ex (\<lambda>s. k = s \<or> str_contains s k) SENSITIVE_FIELD_NAMES)"

section \<open>Events of the boundary\<close>

fun observe_boundary_event :: "boundary_event \<Rightarrow> observation_event list" where
  "observe_boundary_event (ConnectionAccepted c) = [ObsStarted c]"
| "observe_boundary_event (FrameRecovered c i d k n) =
     [ObsFrame \<lparr>ob_connection = c, ob_index = i, ob_direction = d, ob_kind = k, ob_body_len = n,
        ob_message_id = None, ob_state = None, ob_time_ms = None, ob_fingerprint = None\<rparr>]"
| "observe_boundary_event (ProtocolNote c state label) =
     ObsState c state
     # (if str_contains ''Rejected'' label \<or> str_contains ''Mismatch'' label then [ObsMismatch c label] else [])"
| "observe_boundary_event (ConnectionClosed c reason) = [ObsClosed c reason]"
| "observe_boundary_event (FrameRejected c category detail) = [ObsError (Some c) (category @ '':'' @ detail)]"
| "observe_boundary_event (ConnectionError c category detail) = [ObsError (Some c) (category @ '':'' @ detail)]"
| "observe_boundary_event (BytesReceived c n) = []"

definition boundary_events_to_observation :: "boundary_event list \<Rightarrow> observation_event list" where
  "boundary_events_to_observation events = foldl (\<lambda>out e. out @ observe_boundary_event e) [] events"

text \<open>\<open>0x{:04X}\<close>\<close>

definition message_id_label :: "u16 \<Rightarrow> string" where
  "message_id_label i =
     (let n = unat i
      in ''0x'' @ map hex_upper_char [n div 4096, n div 256 mod 16, n div 16 mod 16, n mod 16])"

definition is_registry_id :: "u16 \<Rightarrow> bool" where
  "is_registry_id i \<longleftrightarrow> i \<in> set EXPECTED_MESSAGE_IDS"

definition is_known_codec_id :: "u16 \<Rightarrow> bool" where
  "is_known_codec_id i = has_known_codec i"

definition obs_external_name :: "u16 \<Rightarrow> string option" where
  "obs_external_name i = lookup_name i"

section \<open>Traces\<close>

record observation_trace =
  tr_version :: string
  tr_capture_id :: "string option"
  tr_notes :: "string list"
  tr_events :: "observation_event list"

definition trace_new :: "observation_event list \<Rightarrow> observation_trace" where
  "trace_new events = \<lparr>tr_version = TRACE_VERSION, tr_capture_id = None, tr_notes = [], tr_events = events\<rparr>"

definition trace_frames :: "observation_trace \<Rightarrow> observed_frame list" where
  "trace_frames t = List.map_filter (\<lambda>e. case e of ObsFrame f \<Rightarrow> Some f | _ \<Rightarrow> None) (tr_events t)"

definition message_id_sequence :: "observation_trace \<Rightarrow> u16 list" where
  "message_id_sequence t = List.map_filter ob_message_id (trace_frames t)"

record trace_row =
  tf_connection :: u64
  tf_index :: u64
  tf_direction :: string
  tf_kind :: u8
  tf_message_id :: "string option"
  tf_body_len :: nat
  tf_state :: "string option"
  tf_time_ms :: "u64 option"
  tf_fingerprint :: "string option"
  tf_event :: "string option"

record trace_file =
  tx_version :: "string option"
  tx_capture_id :: "string option"
  tx_notes :: "string list"
  tx_events :: "json list"
  tx_frames :: "json list"

definition obs_parse_msg_id :: "string \<Rightarrow> u16 option" where
  "obs_parse_msg_id s =
     (let t = strip_leading [''0X''] (strip_leading [''0x''] (str_trim s))
      in case parse_uint 16 65535 t of Inl e \<Rightarrow> None | Inr n \<Rightarrow> Some (of_nat n))"

fun reject_sensitive :: "json \<Rightarrow> observation_error + unit"
  and reject_entries :: "(string \<times> json) list \<Rightarrow> observation_error + unit"
  and reject_items :: "json list \<Rightarrow> observation_error + unit" where
  "reject_sensitive (JObject m) = reject_entries m"
| "reject_sensitive (JArray xs) = reject_items xs"
| "reject_sensitive JNull = Inr ()"
| "reject_sensitive (JBool b) = Inr ()"
| "reject_sensitive (JNumber n) = Inr ()"
| "reject_sensitive (JString s) = Inr ()"
| "reject_entries [] = Inr ()"
| "reject_entries ((k, v) # m) =
     (if is_sensitive_key k then Inl (SensitiveField k)
      else bind_res (reject_sensitive v) (\<lambda>_. reject_entries m))"
| "reject_items [] = Inr ()"
| "reject_items (v # vs) = bind_res (reject_sensitive v) (\<lambda>_. reject_items vs)"

fun strip_sensitive :: "json \<Rightarrow> json"
  and strip_entries :: "(string \<times> json) list \<Rightarrow> (string \<times> json) list"
  and strip_items :: "json list \<Rightarrow> json list" where
  "strip_sensitive (JObject m) = JObject (strip_entries m)"
| "strip_sensitive (JArray xs) = JArray (strip_items xs)"
| "strip_sensitive JNull = JNull"
| "strip_sensitive (JBool b) = JBool b"
| "strip_sensitive (JNumber n) = JNumber n"
| "strip_sensitive (JString s) = JString s"
| "strip_entries [] = []"
| "strip_entries ((k, v) # m) =
     (if is_sensitive_key k then strip_entries m else (k, strip_sensitive v) # strip_entries m)"
| "strip_items [] = []"
| "strip_items (v # vs) = strip_sensitive v # strip_items vs"

definition row_to_event :: "trace_row \<Rightarrow> observation_event" where
  "row_to_event row =
     ObsFrame \<lparr>ob_connection = tf_connection row, ob_index = tf_index row, ob_direction = tf_direction row,
       ob_kind = tf_kind row, ob_body_len = tf_body_len row,
       ob_message_id = (case tf_message_id row of None \<Rightarrow> None | Some s \<Rightarrow> obs_parse_msg_id s),
       ob_state = tf_state row, ob_time_ms = tf_time_ms row, ob_fingerprint = tf_fingerprint row\<rparr>"

text \<open>\<open>serde_json\<close> on these types: the parser, and the three derived decoders.\<close>

record trace_serde =
  ts_parse :: "string \<Rightarrow> string + json"
  ts_file :: "json \<Rightarrow> string + trace_file"
  ts_event :: "json \<Rightarrow> string + observation_event"
  ts_row :: "json \<Rightarrow> string + trace_row"

definition map_json_err :: "string + 'a \<Rightarrow> observation_error + 'a" where
  "map_json_err r = (case r of Inl e \<Rightarrow> Inl (TraceJson e) | Inr x \<Rightarrow> Inr x)"

definition value_to_event :: "trace_serde \<Rightarrow> json \<Rightarrow> observation_error + observation_event" where
  "value_to_event sd v =
     bind_res (reject_sensitive v) (\<lambda>_.
       let v = strip_sensitive v
       in case ts_event sd v of
            Inr ev \<Rightarrow> Inr ev
          | Inl _ \<Rightarrow> bind_res (map_json_err (ts_row sd v)) (\<lambda>row. Inr (row_to_event row)))"

fun values_to_events :: "trace_serde \<Rightarrow> json list \<Rightarrow> observation_event list \<Rightarrow> observation_error + observation_event list" where
  "values_to_events sd [] events = Inr events"
| "values_to_events sd (v # vs) events =
     bind_res (value_to_event sd v) (\<lambda>ev. values_to_events sd vs (events @ [ev]))"

definition trace_from_json :: "trace_serde \<Rightarrow> string \<Rightarrow> observation_error + observation_trace" where
  "trace_from_json sd text =
     bind_res (map_json_err (ts_parse sd text)) (\<lambda>root.
     bind_res (reject_sensitive root) (\<lambda>_.
     let root = strip_sensitive root
     in bind_res (map_json_err (ts_file sd root)) (\<lambda>raw.
        bind_res (values_to_events sd (tx_events raw) []) (\<lambda>events.
        bind_res (values_to_events sd (tx_frames raw) events) (\<lambda>events.
        Inr \<lparr>tr_version = (case tx_version raw of None \<Rightarrow> TRACE_VERSION | Some v \<Rightarrow> v),
             tr_capture_id = tx_capture_id raw, tr_notes = tx_notes raw, tr_events = events\<rparr>)))))"

definition trace_from_path ::
  "trace_serde \<Rightarrow> (string \<Rightarrow> string + string) \<Rightarrow> string \<Rightarrow> observation_error + observation_trace" where
  "trace_from_path sd read path =
     (case read path of Inl e \<Rightarrow> Inl (TraceIo e) | Inr text \<Rightarrow> trace_from_json sd text)"

section \<open>No sensitive key gets in\<close>

lemma is_sensitive_key_iff:
  "is_sensitive_key k \<longleftrightarrow> (\<exists>s \<in> set SENSITIVE_FIELD_NAMES. \<exists>u v. to_ascii_lowercase k = u @ s @ v)"
proof -
  have "k = s \<or> str_contains s k \<longleftrightarrow> str_contains s k" for k s :: string
    unfolding str_contains_iff by (metis append_Nil append_Nil2)
  then show ?thesis unfolding is_sensitive_key_def Let_def list_ex_iff str_contains_iff by simp
qed

definition rejection :: "string list \<Rightarrow> observation_error + unit" where
  "rejection keys = (case List.find is_sensitive_key keys of None \<Rightarrow> Inr () | Some k \<Rightarrow> Inl (SensitiveField k))"

lemma rejection_simps [simp]:
  "rejection [] = Inr ()"
  "rejection (k # ks) = (if is_sensitive_key k then Inl (SensitiveField k) else rejection ks)"
  by (simp_all add: rejection_def)

lemma rejection_append [simp]: "rejection (xs @ ys) = bind_res (rejection xs) (\<lambda>_. rejection ys)"
  by (induction xs) simp_all

lemma reject_keys:
  "reject_sensitive v = rejection (json_keys v)"
  "reject_entries m = rejection (entries_keys m)"
  "reject_items vs = rejection (items_keys vs)"
  by (induction v and m and vs rule: reject_sensitive_reject_entries_reject_items.induct) simp_all

lemma rejection_ok: "rejection keys = Inr () \<longleftrightarrow> (\<forall>k \<in> set keys. \<not> is_sensitive_key k)"
  by (induction keys) simp_all

lemma strip_clean:
  "\<forall>k \<in> set (json_keys v). \<not> is_sensitive_key k \<Longrightarrow> strip_sensitive v = v"
  "\<forall>k \<in> set (entries_keys m). \<not> is_sensitive_key k \<Longrightarrow> strip_entries m = m"
  "\<forall>k \<in> set (items_keys vs). \<not> is_sensitive_key k \<Longrightarrow> strip_items vs = vs"
  by (induction v and m and vs rule: strip_sensitive_strip_entries_strip_items.induct) simp_all

lemma strip_removes:
  "json_keys (strip_sensitive v) = filter (\<lambda>k. \<not> is_sensitive_key k) (json_keys (strip_sensitive v))"
  "entries_keys (strip_entries m) = filter (\<lambda>k. \<not> is_sensitive_key k) (entries_keys (strip_entries m))"
  "items_keys (strip_items vs) = filter (\<lambda>k. \<not> is_sensitive_key k) (items_keys (strip_items vs))"
  by (induction v and m and vs rule: strip_sensitive_strip_entries_strip_items.induct) simp_all

definition clean :: "json \<Rightarrow> bool" where
  "clean v \<longleftrightarrow> (\<forall>k \<in> set (json_keys v). \<not> is_sensitive_key k)"

lemma clean_find: "clean v \<longleftrightarrow> List.find is_sensitive_key (json_keys v) = None"
  by (auto simp: clean_def find_None_iff)

lemma reject_clean: "reject_sensitive v = Inr () \<longleftrightarrow> clean v"
  by (simp add: reject_keys rejection_ok clean_def)

lemma strip_is_clean [simp]: "clean (strip_sensitive v)"
  unfolding clean_def by (subst strip_removes) auto

text \<open>What one event or frame decodes to, without the steps that look for sensitive keys.\<close>

definition decode_event :: "trace_serde \<Rightarrow> json \<Rightarrow> observation_error + observation_event" where
  "decode_event sd v =
     (case ts_event sd v of
        Inr ev \<Rightarrow> Inr ev
      | Inl _ \<Rightarrow> bind_res (map_json_err (ts_row sd v)) (\<lambda>row. Inr (row_to_event row)))"

lemma reject_unclean: "\<not> clean v \<Longrightarrow> \<exists>k. reject_sensitive v = Inl (SensitiveField k)"
  unfolding reject_clean [symmetric] reject_keys by (auto simp: rejection_def split: option.splits)

lemma value_to_event_exact: "value_to_event sd v = Inr e \<longleftrightarrow> clean v \<and> decode_event sd v = Inr e"
proof (cases "clean v")
  case True
  then show ?thesis
    using reject_clean [of v] strip_clean(1) [of v] by (simp add: value_to_event_def decode_event_def Let_def clean_def)
next
  case False
  with reject_unclean [OF False] show ?thesis by (auto simp: value_to_event_def)
qed

lemma values_to_events_exact:
  "values_to_events sd vs events = Inr out \<longleftrightarrow>
     (\<exists>es. out = events @ es \<and> list_all2 (\<lambda>v e. clean v \<and> decode_event sd v = Inr e) vs es)"
proof (induction vs arbitrary: events)
  case (Cons v vs)
  show ?case
    unfolding values_to_events.simps bind_res_ok value_to_event_exact Cons.IH
    by (auto simp: list_all2_Cons1)
qed auto

lemma list_all2_split:
  "list_all2 P (xs @ ys) zs \<longleftrightarrow> (\<exists>us vs. zs = us @ vs \<and> list_all2 P xs us \<and> list_all2 P ys vs)"
  unfolding list_all2_append1 by (metis list_all2_lengthD)

definition trace_of :: "trace_file \<Rightarrow> observation_event list \<Rightarrow> observation_trace" where
  "trace_of raw events =
     \<lparr>tr_version = (case tx_version raw of None \<Rightarrow> TRACE_VERSION | Some v \<Rightarrow> v),
      tr_capture_id = tx_capture_id raw, tr_notes = tx_notes raw, tr_events = events\<rparr>"

lemma trace_from_json_ok:
  "trace_from_json sd text = Inr t \<longleftrightarrow>
     (\<exists>root raw events. ts_parse sd text = Inr root \<and> clean root \<and> ts_file sd root = Inr raw
        \<and> list_all2 (\<lambda>v e. clean v \<and> decode_event sd v = Inr e) (tx_events raw @ tx_frames raw) events
        \<and> t = trace_of raw events)"
proof (cases "ts_parse sd text")
  case (Inr root)
  show ?thesis
  proof (cases "clean root")
    case True
    have "trace_from_json sd text = Inr t \<longleftrightarrow> (\<exists>raw. ts_file sd root = Inr raw \<and>
        (\<exists>events. values_to_events sd (tx_events raw) [] = Inr events \<and>
          (\<exists>out. values_to_events sd (tx_frames raw) events = Inr out \<and> t = trace_of raw out)))"
      using True Inr reject_clean [of root] strip_clean(1) [of root]
      by (auto simp: trace_from_json_def map_json_err_def bind_res_ok Let_def clean_def trace_of_def split: sum.splits)
    also have "\<dots> \<longleftrightarrow> (\<exists>raw events. ts_file sd root = Inr raw
        \<and> list_all2 (\<lambda>v e. clean v \<and> decode_event sd v = Inr e) (tx_events raw @ tx_frames raw) events
        \<and> t = trace_of raw events)"
      unfolding values_to_events_exact list_all2_split append_Nil by blast
    finally show ?thesis using Inr True by simp
  next
    case False
    with reject_unclean [OF False] Inr show ?thesis by (auto simp: trace_from_json_def map_json_err_def)
  qed
qed (simp add: trace_from_json_def map_json_err_def)

text \<open>
  C23. The trace reader accepts no sensitive key: a document with such a key anywhere is refused,
  naming the first one, and a trace that is read comes from a document and events with no such
  key, decoded as they stand (removing sensitive keys, as the code also does, never changes
  anything).
\<close>

theorem trace_refuses_secrets:
  "(\<forall>root. ts_parse sd text = Inr root \<and> \<not> clean root \<longrightarrow>
      trace_from_json sd text = Inl (SensitiveField (the (List.find is_sensitive_key (json_keys root)))))
   \<and> (\<forall>t. trace_from_json sd text = Inr t \<longleftrightarrow>
      (\<exists>root raw events. ts_parse sd text = Inr root \<and> clean root \<and> ts_file sd root = Inr raw
        \<and> list_all2 (\<lambda>v e. clean v \<and> decode_event sd v = Inr e) (tx_events raw @ tx_frames raw) events
        \<and> t = trace_of raw events))"
proof (intro conjI allI impI)
  fix root
  assume a: "ts_parse sd text = Inr root \<and> \<not> clean root"
  then obtain k where "List.find is_sensitive_key (json_keys root) = Some k"
    by (auto simp: clean_find)
  then show "trace_from_json sd text = Inl (SensitiveField (the (List.find is_sensitive_key (json_keys root))))"
    using a by (simp add: trace_from_json_def map_json_err_def reject_keys rejection_def)
qed (rule trace_from_json_ok)

definition demo_serde :: trace_serde where
  "demo_serde =
     \<lparr>ts_parse = (\<lambda>s. Inr (if s = ''leak''
        then JObject [(''frames'', JArray [JObject [(''kind'', JNumber ''1''), (''Session_Key_hex'', JString ''00'')]])]
        else JObject [(''frames'', JArray [JObject [(''kind'', JNumber ''1'')]])])),
      ts_file = (\<lambda>v. Inr \<lparr>tx_version = None, tx_capture_id = None, tx_notes = [], tx_events = [],
        tx_frames = [JObject [(''kind'', JNumber ''1'')]]\<rparr>),
      ts_event = (\<lambda>v. Inl ''no event''),
      ts_row = (\<lambda>v. Inr \<lparr>tf_connection = 1, tf_index = 0, tf_direction = ''C2S'', tf_kind = 1,
        tf_message_id = Some ''0x1E'', tf_body_len = 4, tf_state = None, tf_time_ms = None,
        tf_fingerprint = None, tf_event = None\<rparr>)\<rparr>"

lemma trace_refuses_secrets_witness:
  "trace_from_json demo_serde ''leak'' = Inl (SensitiveField ''Session_Key_hex'')"
proof -
  let ?v = "JObject [(''frames'', JArray [JObject [(''kind'', JNumber ''1''), (''Session_Key_hex'', JString ''00'')]])]"
  have p: "ts_parse demo_serde ''leak'' = Inr ?v" by (simp add: demo_serde_def)
  have f: "List.find is_sensitive_key (json_keys ?v) = Some ''Session_Key_hex''" by code_simp
  then have "\<not> clean ?v" unfolding clean_find by simp
  with p f show ?thesis
    using trace_refuses_secrets [of demo_serde "''leak''", THEN conjunct1, rule_format, of ?v] by simp
qed

lemma trace_demo_read: "map_option (map ob_message_id) (case trace_from_json demo_serde ''ok'' of
    Inr t \<Rightarrow> Some (trace_frames t) | Inl e \<Rightarrow> None) = Some [Some 0x1E]"
  by code_simp

end
