(* ===== verification/Observation_Diff.thy ===== *)
theory Observation_Diff
  imports Observation State_Trace
begin

text \<open>
  \<open>network/src/observation_scenarios.rs\<close>, \<open>protocol_observation.rs\<close>, \<open>observation_diff.rs\<close> and
  \<open>observation_analyze.rs\<close>: the reference scenarios, the classification of observed frames and
  id sequences, the difference of two id sequences, and the report on a trace. The main result
  is that a difference is an edit script: its entries, with the ids both sides share, turn the
  expected sequence into the observed one.
\<close>

section \<open>Scenarios\<close>

datatype scenario_kind =
  ScStartup | ScSessionEstablishment | ScEncryptedHandshake | ScActiveKeepalive | ScUnknownMessage

fun scenario_kind_str :: "scenario_kind \<Rightarrow> string" where
  "scenario_kind_str ScStartup = ''startup''"
| "scenario_kind_str ScSessionEstablishment = ''session_establishment''"
| "scenario_kind_str ScEncryptedHandshake = ''encrypted_handshake''"
| "scenario_kind_str ScActiveKeepalive = ''active_keepalive''"
| "scenario_kind_str ScUnknownMessage = ''unknown_message''"

record reference_scenario =
  rs_kind :: scenario_kind
  rs_name :: string
  rs_expected :: "u16 list"
  rs_notes :: "string list"

definition confirmed_startup_ids :: "u16 list" where
  "confirmed_startup_ids = STABLE_STARTUP_SEQUENCE"

text \<open>The dash of the notes, U+2014 in UTF-8.\<close>

definition em_dash :: string where
  "em_dash = [CHR 0xE2, CHR 0x80, CHR 0x94]"

definition scenario_startup :: reference_scenario where
  "scenario_startup =
     \<lparr>rs_kind = ScStartup, rs_name = ''startup'', rs_expected = confirmed_startup_ids,
      rs_notes = [''STABLE_STARTUP_SEQUENCE from M2.9/M3.4 '' @ em_dash @ '' local reference only.'',
                  ''Divergence does not automatically mean client error.'']\<rparr>"

definition scenario_session_establishment :: reference_scenario where
  "scenario_session_establishment =
     \<lparr>rs_kind = ScSessionEstablishment, rs_name = ''session_establishment'',
      rs_expected = [0x1E, 0x1F, 0x19, 0x1A],
      rs_notes = [''Clear handshake portion of confirmed startup.'']\<rparr>"

definition scenario_encrypted_handshake :: reference_scenario where
  "scenario_encrypted_handshake =
     \<lparr>rs_kind = ScEncryptedHandshake, rs_name = ''encrypted_handshake'', rs_expected = [0x79, 0x7A],
      rs_notes = [''Encrypted handshake IDs from confirmed evidence.'']\<rparr>"

definition scenario_active_keepalive :: reference_scenario where
  "scenario_active_keepalive =
     \<lparr>rs_kind = ScActiveKeepalive, rs_name = ''active_keepalive'', rs_expected = [0xFA, 0xFB],
      rs_notes = [''0xFA/0xFB observed; intervals are observational only '' @ em_dash @ '' not universal.'']\<rparr>"

definition scenario_unknown_message :: reference_scenario where
  "scenario_unknown_message =
     \<lparr>rs_kind = ScUnknownMessage, rs_name = ''unknown_message'', rs_expected = [],
      rs_notes = [''Any non-registry ID remains Unknown '' @ em_dash @ '' no invented semantics.'']\<rparr>"

definition all_scenarios :: "reference_scenario list" where
  "all_scenarios =
     [scenario_startup, scenario_session_establishment, scenario_encrypted_handshake,
      scenario_active_keepalive, scenario_unknown_message]"

section \<open>Classification\<close>

datatype observation_class = OcObserved | OcStructural | OcHypothesis | OcConfirmed | OcUnknown

fun observation_class_str :: "observation_class \<Rightarrow> string" where
  "observation_class_str OcObserved = ''Observed''"
| "observation_class_str OcStructural = ''Structural''"
| "observation_class_str OcHypothesis = ''Hypothesis''"
| "observation_class_str OcConfirmed = ''Confirmed''"
| "observation_class_str OcUnknown = ''Unknown''"

record classified_observation =
  co_index :: u64
  co_message_id :: "u16 option"
  co_class :: observation_class
  co_rationale :: string

definition classify_frame :: "observed_frame \<Rightarrow> classified_observation" where
  "classify_frame frame =
     (let result = (\<lambda>c why. \<lparr>co_index = ob_index frame, co_message_id = ob_message_id frame,
                               co_class = c, co_rationale = why\<rparr>)
      in case ob_message_id frame of
           None \<Rightarrow> result OcStructural (''frame without message_id '' @ em_dash @ '' structural only'')
         | Some i \<Rightarrow>
             if i \<in> set STABLE_STARTUP_SEQUENCE \<or> i = 0xFA \<or> i = 0xFB then
               result OcConfirmed ''message ID confirmed in project evidence registry/startup''
             else if is_known_codec_id i then result OcStructural ''known codec ID; semantics not invented''
             else if is_registry_id i then result OcObserved ''registry ID observed; meaning UNKNOWN''
             else result OcUnknown (''ID not in registry '' @ em_dash @ '' remains Unknown''))"

definition ob_classify_sequence :: "u16 list \<Rightarrow> scenario_kind \<Rightarrow> observation_class" where
  "ob_classify_sequence ids scenario =
     (case scenario of
        ScStartup \<Rightarrow>
          (let expected = confirmed_startup_ids
           in if ids = expected then OcConfirmed
              else if list_all (\<lambda>i. i \<in> set expected \<or> i = 0xFA \<or> i = 0xFB) ids then OcStructural
              else if list_ex (\<lambda>i. \<not> is_registry_id i \<and> \<not> is_known_codec_id i) ids then OcUnknown
              else OcHypothesis)
      | ScActiveKeepalive \<Rightarrow> if list_all (\<lambda>i. i = 0xFA \<or> i = 0xFB) ids then OcConfirmed else OcHypothesis
      | ScUnknownMessage \<Rightarrow> OcUnknown
      | _ \<Rightarrow> OcObserved)"

section \<open>Differences\<close>

datatype diff_category =
    DcMissingFrame | DcUnexpectedFrame | DcDirectionMismatch | DcLengthMismatch | DcOrderMismatch
  | DcStateMismatch | DcUnexpectedClose | DcUnknownMessage | DcCryptoFailure

fun diff_category_str :: "diff_category \<Rightarrow> string" where
  "diff_category_str DcMissingFrame = ''MissingFrame''"
| "diff_category_str DcUnexpectedFrame = ''UnexpectedFrame''"
| "diff_category_str DcDirectionMismatch = ''DirectionMismatch''"
| "diff_category_str DcLengthMismatch = ''LengthMismatch''"
| "diff_category_str DcOrderMismatch = ''OrderMismatch''"
| "diff_category_str DcStateMismatch = ''StateMismatch''"
| "diff_category_str DcUnexpectedClose = ''UnexpectedClose''"
| "diff_category_str DcUnknownMessage = ''UnknownMessage''"
| "diff_category_str DcCryptoFailure = ''CryptoProcessingFailure''"

record diff_entry =
  de_category :: diff_category
  de_detail :: string
  de_expected :: "string option"
  de_observed :: "string option"

record observation_diff =
  od_expected_label :: string
  od_observed_label :: string
  od_expected :: "string list"
  od_observed :: "string list"
  od_entries :: "diff_entry list"

definition diff_is_empty :: "observation_diff \<Rightarrow> bool" where
  "diff_is_empty d \<longleftrightarrow> od_entries d = []"

definition format_summary :: "observation_diff \<Rightarrow> string" where
  "format_summary d =
     (let arrow = '' '' @ right_arrow @ '' '';
          lines = [''EXPECTED: '' @ join_with arrow (od_expected d), ''OBSERVED: '' @ join_with arrow (od_observed d)];
          lines = (if od_entries d = [] then lines @ [''DIFF: (none)'']
                   else lines @ map (\<lambda>e. ''DIFF: '' @ diff_category_str (de_category e) @ '' '' @ em_dash @ '' ''
                                          @ de_detail e) (od_entries d))
      in join_with newline lines)"

text \<open>\<open>iter().position\<close>\<close>

fun position :: "'a \<Rightarrow> 'a list \<Rightarrow> nat option" where
  "position x [] = None"
| "position x (y # ys) = (if y = x then Some 0 else map_option Suc (position x ys))"

definition missing_entry :: "u16 \<Rightarrow> diff_entry" where
  "missing_entry m =
     \<lparr>de_category = DcMissingFrame, de_detail = ''missing frame '' @ message_id_label m,
      de_expected = Some (message_id_label m), de_observed = None\<rparr>"

definition additional_entry :: "u16 \<Rightarrow> diff_entry" where
  "additional_entry u =
     \<lparr>de_category = DcUnexpectedFrame, de_detail = ''additional frame '' @ message_id_label u,
      de_expected = None, de_observed = Some (message_id_label u)\<rparr>"

definition order_entry :: "u16 \<Rightarrow> u16 \<Rightarrow> diff_entry" where
  "order_entry e b =
     \<lparr>de_category = DcOrderMismatch,
      de_detail = ''unexpected transition '' @ message_id_label e @ '' '' @ right_arrow @ '' '' @ message_id_label b,
      de_expected = Some (message_id_label e), de_observed = Some (message_id_label b)\<rparr>"

lemma position_Some: "position x ys = Some p \<Longrightarrow> p < length ys \<and> ys ! p = x \<and> x \<notin> set (take p ys)"
proof (induction ys arbitrary: p)
  case (Cons y ys)
  then show ?case by (cases p) (auto split: if_splits)
qed simp

lemma position_step: "position x (y # ys) = Some p \<Longrightarrow> x \<noteq> y \<Longrightarrow> 0 < p"
  by (auto split: if_splits)

text \<open>
  The three loops over both sequences, which are read from the two positions on: the arguments
  are the rests \<open>expected[ei..]\<close> and \<open>observed[oi..]\<close>.
\<close>

function diff_loop :: "u16 list \<Rightarrow> u16 list \<Rightarrow> diff_entry list \<Rightarrow> diff_entry list" where
  "diff_loop (e # es) (b # bs) entries =
     (if e = b then diff_loop es bs entries
      else case position e (b # bs) of
             Some pos \<Rightarrow>
               diff_loop (e # es) (drop pos (b # bs)) (entries @ map additional_entry (take pos (b # bs)))
           | None \<Rightarrow>
               (case position b (e # es) of
                  Some pos \<Rightarrow>
                    diff_loop (drop pos (e # es)) (b # bs) (entries @ map missing_entry (take pos (e # es)))
                | None \<Rightarrow> diff_loop es bs (entries @ [order_entry e b])))"
| "diff_loop [] bs entries = entries @ map additional_entry bs"
| "diff_loop (e # es) [] entries = entries @ map missing_entry (e # es)"
  by pat_completeness auto
termination
  by (relation "measure (\<lambda>(es, bs, _). length es + length bs)") (auto dest: position_Some split: if_splits)

declare diff_loop.simps(1) [simp del]

definition diff_id_sequences :: "u16 list \<Rightarrow> u16 list \<Rightarrow> observation_diff" where
  "diff_id_sequences expected observed =
     \<lparr>od_expected_label = ''EXPECTED'', od_observed_label = ''OBSERVED'',
      od_expected = map message_id_label expected, od_observed = map message_id_label observed,
      od_entries = diff_loop expected observed []\<rparr>"

definition push_entry :: "diff_entry \<Rightarrow> observation_diff \<Rightarrow> observation_diff" where
  "push_entry e d = d\<lparr>od_entries := od_entries d @ [e]\<rparr>"

definition push_state :: "string \<Rightarrow> observation_diff \<Rightarrow> observation_diff" where
  "push_state detail =
     push_entry \<lparr>de_category = DcStateMismatch, de_detail = detail, de_expected = None, de_observed = None\<rparr>"

definition unknown_entry :: "u16 \<Rightarrow> diff_entry" where
  "unknown_entry i =
     \<lparr>de_category = DcUnknownMessage, de_detail = ''unknown message '' @ message_id_label i,
      de_expected = None, de_observed = Some (message_id_label i)\<rparr>"

definition diff_against_scenario :: "reference_scenario \<Rightarrow> observation_trace \<Rightarrow> observation_diff" where
  "diff_against_scenario scenario observed =
     (let obs_ids = message_id_sequence observed;
          diff = (diff_id_sequences (rs_expected scenario) obs_ids)\<lparr>od_expected_label := rs_name scenario\<rparr>;
          frames = trace_frames observed;
          diff = foldl (\<lambda>diff (i, exp_id).
             if i < length frames then
               (let f = frames ! i in
                if (case ob_message_id f of Some mid \<Rightarrow> mid \<noteq> exp_id | None \<Rightarrow> False) then diff
                else if ob_state f = Some [] then push_state ''empty state'' diff
                else diff)
             else diff) diff (enumerate 0 (rs_expected scenario))
      in foldl (\<lambda>diff f.
             case ob_message_id f of
               None \<Rightarrow> diff
             | Some i \<Rightarrow> if \<not> is_registry_id i \<and> \<not> is_known_codec_id i then push_entry (unknown_entry i) diff
                         else diff) diff frames)"

definition diff_directions :: "(u16 \<times> string) list \<Rightarrow> observation_trace \<Rightarrow> diff_entry list" where
  "diff_directions expected_dirs observed =
     (let frames = trace_frames observed
      in foldl (\<lambda>out (i, mid, dir).
           if i < length frames then
             (let f = frames ! i in
              if ob_message_id f = Some mid \<and> ob_direction f \<noteq> dir then
                out @ [\<lparr>de_category = DcDirectionMismatch,
                        de_detail = ''id '' @ message_id_label mid @ '' expected dir '' @ dir @ '' got '' @ ob_direction f,
                        de_expected = Some dir, de_observed = Some (ob_direction f)\<rparr>]
              else out)
           else out) [] (enumerate 0 expected_dirs))"

definition diff_lengths :: "(u16 \<times> nat) list \<Rightarrow> observation_trace \<Rightarrow> diff_entry list" where
  "diff_lengths expected_lens observed =
     foldl (\<lambda>out f.
        case ob_message_id f of
          None \<Rightarrow> out
        | Some i \<Rightarrow>
            (case List.find (\<lambda>(j, _). j = i) expected_lens of
               None \<Rightarrow> out
             | Some (_, elen) \<Rightarrow>
                 if ob_body_len f \<noteq> elen then
                   out @ [\<lparr>de_category = DcLengthMismatch,
                           de_detail = ''id '' @ message_id_label i @ '' expected len '' @ show_nat elen
                             @ '' got '' @ show_nat (ob_body_len f),
                           de_expected = Some (show_nat elen), de_observed = Some (show_nat (ob_body_len f))\<rparr>]
                 else out)) [] (trace_frames observed)"

section \<open>The report\<close>

record observation_report =
  or_total :: u64
  or_directions :: "(string, u64) btree"
  or_kinds :: "(u8, u64) btree"
  or_message_ids :: "string list"
  or_lengths :: "(string, nat list) btree"
  or_order :: "string list"
  or_transitions :: "string list"
  or_states :: "string list"
  or_unknown :: "string list"
  or_classes :: "(string, u64) btree"
  or_diffs :: "string list"
  or_notes :: "string list"

record analyzer_state =
  za_directions :: "(string, u64) btree"
  za_kinds :: "(u8, u64) btree"
  za_lengths :: "(string, nat list) btree"
  za_order :: "string list"
  za_states :: "string list"
  za_unknown :: "string list"
  za_classes :: "(string, u64) btree"
  za_prev :: "u16 option"
  za_transitions :: "string list"
  za_ids :: "(u16, unit) btree"

definition analyzer_init :: analyzer_state where
  "analyzer_init =
     \<lparr>za_directions = [], za_kinds = [], za_lengths = [], za_order = [], za_states = [], za_unknown = [],
      za_classes = [], za_prev = None, za_transitions = [], za_ids = []\<rparr>"

definition push_new :: "'a \<Rightarrow> 'a list \<Rightarrow> 'a list" where
  "push_new x xs = (if x \<in> set xs then xs else xs @ [x])"

definition analyze_frame :: "analyzer_state \<Rightarrow> observed_frame \<Rightarrow> analyzer_state" where
  "analyze_frame z f =
     (let z = z\<lparr>za_directions := bt_count64 (ob_direction f) (za_directions z),
                za_kinds := bt_count64 (ob_kind f) (za_kinds z),
                za_classes := bt_count64 (observation_class_str (co_class (classify_frame f))) (za_classes z)\<rparr>;
          z = (case ob_message_id f of
                 Some i \<Rightarrow>
                   (let label = message_id_label i
                    in z\<lparr>za_ids := bt_insert i () (za_ids z), za_order := za_order z @ [label],
                         za_lengths := bt_entry label [] (\<lambda>ls. ls @ [ob_body_len f]) (za_lengths z),
                         za_unknown := (if \<not> is_registry_id i \<and> \<not> is_known_codec_id i
                                        then za_unknown z @ [label] else za_unknown z),
                         za_transitions := (case za_prev z of
                              None \<Rightarrow> za_transitions z
                            | Some p \<Rightarrow> za_transitions z @ [message_id_label p @ right_arrow @ label]),
                         za_prev := Some i\<rparr>)
               | None \<Rightarrow> z\<lparr>za_order := za_order z @ [''kind='' @ show_nat (unat (ob_kind f))]\<rparr>)
      in case ob_state f of None \<Rightarrow> z | Some s \<Rightarrow> z\<lparr>za_states := push_new s (za_states z)\<rparr>)"

definition analyze_trace :: "observation_trace \<Rightarrow> observation_report" where
  "analyze_trace t =
     (let frames = trace_frames t;
          z = foldl analyze_frame analyzer_init frames;
          states = foldl (\<lambda>states e. case e of ObsState c s \<Rightarrow> push_new s states | _ \<Rightarrow> states)
                     (za_states z) (tr_events t);
          diff = diff_against_scenario scenario_startup t
      in \<lparr>or_total = of_nat (length frames), or_directions = za_directions z, or_kinds = za_kinds z,
          or_message_ids = map message_id_label (bt_keys (za_ids z)), or_lengths = za_lengths z,
          or_order = za_order z, or_transitions = za_transitions z, or_states = states,
          or_unknown = za_unknown z, or_classes = za_classes z,
          or_diffs = (if diff_is_empty diff then [] else [format_summary diff]),
          or_notes = [''Classification never auto-promotes Hypothesis'' @ right_arrow @ ''Confirmed.'',
                      ''Unknown IDs remain Unknown '' @ em_dash @ '' no invented semantics.''] @ tr_notes t\<rparr>)"

text \<open>A source of events is what \<open>events()\<close> returns: a fixture, or the log of a boundary connection.\<close>

definition fixture_source :: "observation_event list \<Rightarrow> observation_error + observation_event list" where
  "fixture_source events = Inr events"

definition boundary_source :: "boundary_event list \<Rightarrow> observation_error + observation_event list" where
  "boundary_source events = Inr (boundary_events_to_observation events)"

definition analyze_source ::
  "observation_error + observation_event list \<Rightarrow> observation_error + observation_trace \<times> observation_report" where
  "analyze_source source =
     bind_res source (\<lambda>events. let trace = trace_new events in Inr (trace, analyze_trace trace))"

definition diff_startup :: "observation_trace \<Rightarrow> observation_diff" where
  "diff_startup t = diff_against_scenario scenario_startup t"

definition show_observation_report :: "observation_report \<Rightarrow> string" where
  "show_observation_report r =
     writeln ''M4.8 OBSERVATION REPORT'' @ writeln (''total_frames: '' @ show_nat (unat (or_total r)))
     @ writeln (''message_ids: '' @ join_with '', '' (or_message_ids r))
     @ writeln (''appearance_order: '' @ join_with ('' '' @ right_arrow @ '' '') (or_order r))
     @ writeln (''unknown_frames: '' @ join_with '', '' (or_unknown r))
     @ writeln ''classification_counts:''
     @ concat (map (\<lambda>(k, v). writeln (''  '' @ k @ '': '' @ show_nat (unat v))) (or_classes r))
     @ concat (map writeln (or_diffs r))"

section \<open>A difference is an edit script\<close>

datatype edit_op = Keep u16 | Add u16 | Omit u16 | Change u16 u16

fun op_source :: "edit_op \<Rightarrow> u16 list" where
  "op_source (Keep x) = [x]" | "op_source (Add b) = []" | "op_source (Omit e) = [e]" | "op_source (Change e b) = [e]"

fun op_target :: "edit_op \<Rightarrow> u16 list" where
  "op_target (Keep x) = [x]" | "op_target (Add b) = [b]" | "op_target (Omit e) = []" | "op_target (Change e b) = [b]"

fun op_entry :: "edit_op \<Rightarrow> diff_entry list" where
  "op_entry (Keep x) = []"
| "op_entry (Add b) = [additional_entry b]"
| "op_entry (Omit e) = [missing_entry e]"
| "op_entry (Change e b) = [order_entry e b]"

definition edits :: "u16 list \<Rightarrow> u16 list \<Rightarrow> diff_entry list \<Rightarrow> edit_op list \<Rightarrow> bool" where
  "edits es bs out ops \<longleftrightarrow>
     concat (map op_source ops) = es \<and> concat (map op_target ops) = bs \<and> concat (map op_entry ops) = out"

lemma edits_append: "edits es bs out ops \<Longrightarrow> edits fs cs out2 rest \<Longrightarrow> edits (es @ fs) (bs @ cs) (out @ out2) (ops @ rest)"
  by (simp add: edits_def)

lemma edits_only:
  "edits [] bs (map additional_entry bs) (map Add bs)"
  "edits es [] (map missing_entry es) (map Omit es)"
  "edits [x] [x] [] [Keep x]" "edits [e] [b] [order_entry e b] [Change e b]"
  by (simp_all add: edits_def comp_def)

lemma diff_loop_edits: "\<exists>ops out. diff_loop es bs entries = entries @ out \<and> edits es bs out ops"
proof (induction es bs entries rule: diff_loop.induct)
  case (1 e es b bs entries)
  consider "e = b" | pos where "e \<noteq> b" "position e (b # bs) = Some pos"
    | pos where "e \<noteq> b" "position e (b # bs) = None" "position b (e # es) = Some pos"
    | "e \<noteq> b" "position e (b # bs) = None" "position b (e # es) = None"
    by (cases "e = b"; cases "position e (b # bs)"; cases "position b (e # es)") auto
  then show ?case
  proof cases
    case 1
    with "1.IH"(1) obtain ops out where i: "diff_loop es bs entries = entries @ out" "edits es bs out ops" by blast
    from edits_append [OF edits_only(3) [of b] i(2)] 1 i(1) show ?thesis
      by (auto simp: diff_loop.simps(1))
  next
    case 2
    with "1.IH"(4) obtain ops out where i: "diff_loop (e # es) (drop pos (b # bs))
        (entries @ map additional_entry (take pos (b # bs))) = (entries @ map additional_entry (take pos (b # bs))) @ out"
      "edits (e # es) (drop pos (b # bs)) out ops" by blast
    from edits_append [OF edits_only(1) [of "take pos (b # bs)"] i(2)]
    have "edits (e # es) (b # bs) (map additional_entry (take pos (b # bs)) @ out) (map Add (take pos (b # bs)) @ ops)"
      by (simp only: append_Nil append_take_drop_id)
    then show ?thesis using 2 i(1) by (auto simp: diff_loop.simps(1) simp del: take_Cons drop_Cons)
  next
    case 3
    with "1.IH"(3) obtain ops out where i: "diff_loop (drop pos (e # es)) (b # bs)
        (entries @ map missing_entry (take pos (e # es))) = (entries @ map missing_entry (take pos (e # es))) @ out"
      "edits (drop pos (e # es)) (b # bs) out ops" by blast
    from edits_append [OF edits_only(2) [of "take pos (e # es)"] i(2)]
    have "edits (e # es) (b # bs) (map missing_entry (take pos (e # es)) @ out) (map Omit (take pos (e # es)) @ ops)"
      by (simp only: append_Nil append_take_drop_id)
    then show ?thesis using 3 i(1) by (auto simp: diff_loop.simps(1))
  next
    case 4
    with "1.IH"(2) obtain ops out where i: "diff_loop es bs (entries @ [order_entry e b]) = (entries @ [order_entry e b]) @ out"
      "edits es bs out ops" by blast
    from edits_append [OF edits_only(4) [of e b] i(2)] 4 i(1) show ?thesis
      by (auto simp: diff_loop.simps(1))
  qed
next
  case (2 bs entries)
  show ?case using edits_only(1) by auto
next
  case (3 e es entries)
  show ?case using edits_only(2) [of "e # es"] by auto
qed

lemma edits_silent: "edits es bs [] ops \<Longrightarrow> es = bs"
proof (induction ops arbitrary: es bs)
  case (Cons p ops)
  then show ?case by (cases p) (auto simp: edits_def)
qed (simp add: edits_def)

lemma diff_loop_same: "diff_loop es es entries = entries"
  by (induction es) (simp_all add: diff_loop.simps(1))

lemma push_entries:
  "od_entries (foldl (\<lambda>d x. if P x then push_entry (e x) d else d) d xs) = od_entries d @ map e (filter P xs)"
  by (induction xs arbitrary: d) (simp_all add: push_entry_def)

definition unknown_id :: "u16 \<Rightarrow> bool" where
  "unknown_id i \<longleftrightarrow> \<not> is_registry_id i \<and> \<not> is_known_codec_id i"

lemma unknown_entries:
  "od_entries (foldl (\<lambda>diff f. case ob_message_id f of None \<Rightarrow> diff
      | Some i \<Rightarrow> if \<not> is_registry_id i \<and> \<not> is_known_codec_id i then push_entry (unknown_entry i) diff else diff) d fs)
   = od_entries d @ map unknown_entry (filter unknown_id (List.map_filter ob_message_id fs))"
  by (induction fs arbitrary: d) (auto simp: push_entry_def unknown_id_def List.map_filter_simps split: option.split)

text \<open>A frame at the place of an expected id that has this id, or none, and an empty state text.\<close>

definition empty_state_at :: "observed_frame list \<Rightarrow> nat \<times> u16 \<Rightarrow> bool" where
  "empty_state_at frames p \<longleftrightarrow>
     fst p < length frames \<and> ob_message_id (frames ! fst p) \<in> {None, Some (snd p)} \<and> ob_state (frames ! fst p) = Some []"

definition state_entry :: diff_entry where
  "state_entry = \<lparr>de_category = DcStateMismatch, de_detail = ''empty state'', de_expected = None, de_observed = None\<rparr>"

lemma scenario_entries:
  "od_entries (diff_against_scenario sc t) =
     od_entries (diff_id_sequences (rs_expected sc) (message_id_sequence t))
     @ map (\<lambda>_. state_entry) (filter (empty_state_at (trace_frames t)) (enumerate 0 (rs_expected sc)))
     @ map unknown_entry (filter unknown_id (message_id_sequence t))"
proof -
  have step: "(\<lambda>diff (i, exp_id).
             if i < length frames then
               (if (case ob_message_id (frames ! i) of Some mid \<Rightarrow> mid \<noteq> exp_id | None \<Rightarrow> False) then diff
                else if ob_state (frames ! i) = Some [] then push_state ''empty state'' diff
                else diff)
             else diff) =
     (\<lambda>diff p. if empty_state_at frames p then push_entry state_entry diff else diff)" for frames
    by (auto simp: fun_eq_iff empty_state_at_def state_entry_def push_state_def Let_def split: option.splits)
  show ?thesis
    unfolding diff_against_scenario_def Let_def step unknown_entries push_entries
    by (simp add: message_id_sequence_def)
qed

text \<open>
  C24. The difference of a trace from a scenario: an edit script turns the expected ids into the
  observed ones, and the entries are those of its additions, omissions and changes, followed by
  one entry for each empty state text and one for each observed id the project does not know.
\<close>

theorem scenario_diff_exact:
  "\<exists>ops. concat (map op_source ops) = rs_expected sc
     \<and> concat (map op_target ops) = message_id_sequence t
     \<and> od_entries (diff_against_scenario sc t) =
         concat (map op_entry ops)
         @ map (\<lambda>_. state_entry) (filter (empty_state_at (trace_frames t)) (enumerate 0 (rs_expected sc)))
         @ map unknown_entry (filter unknown_id (message_id_sequence t))"
  using diff_loop_edits [of "rs_expected sc" "message_id_sequence t" "[]"]
  by (auto simp: scenario_entries diff_id_sequences_def edits_def)

lemma id_diff_empty: "diff_is_empty (diff_id_sequences es bs) \<longleftrightarrow> es = bs"
proof
  assume "diff_is_empty (diff_id_sequences es bs)"
  then have "diff_loop es bs [] = []" by (simp add: diff_is_empty_def diff_id_sequences_def)
  then show "es = bs" using diff_loop_edits [of es bs "[]"] edits_silent by auto
qed (simp add: diff_is_empty_def diff_id_sequences_def diff_loop_same)

lemma startup_ids_known: "i \<in> set STABLE_STARTUP_SEQUENCE \<Longrightarrow> \<not> unknown_id i"
  unfolding STABLE_STARTUP_SEQUENCE_def
  by (auto simp: unknown_id_def is_registry_id_def EXPECTED_MESSAGE_IDS_def)

lemma startup_diff_empty:
  "diff_is_empty (diff_startup t) \<longleftrightarrow>
     message_id_sequence t = STABLE_STARTUP_SEQUENCE
     \<and> (\<forall>p \<in> set (enumerate 0 STABLE_STARTUP_SEQUENCE). \<not> empty_state_at (trace_frames t) p)"
proof -
  have "filter unknown_id STABLE_STARTUP_SEQUENCE = []"
    using startup_ids_known by (simp add: filter_empty_conv)
  then show ?thesis
    using id_diff_empty [of STABLE_STARTUP_SEQUENCE "message_id_sequence t"]
    unfolding diff_is_empty_def diff_startup_def scenario_entries
    by (auto simp: scenario_startup_def confirmed_startup_ids_def filter_empty_conv)
qed

section \<open>A trace from the boundary\<close>

fun recovered :: "boundary_event \<Rightarrow> bool" where
  "recovered (FrameRecovered c i d k n) = True"
| "recovered _ = False"

lemma boundary_observation: "boundary_events_to_observation events = concat (map observe_boundary_event events)"
proof -
  have "foldl (\<lambda>out e. out @ observe_boundary_event e) xs events = xs @ concat (map observe_boundary_event events)" for xs
    by (induction events arbitrary: xs) simp_all
  then show ?thesis by (simp add: boundary_events_to_observation_def)
qed

lemma map_filter_append: "List.map_filter f (xs @ ys) = List.map_filter f xs @ List.map_filter f ys"
  by (simp add: List.map_filter_def)

lemma boundary_frames:
  "length (trace_frames (trace_new (boundary_events_to_observation events))) = length (filter recovered events)"
  "message_id_sequence (trace_new (boundary_events_to_observation events)) = []"
proof -
  let ?f = "List.map_filter (\<lambda>e. case e of ObsFrame f \<Rightarrow> Some f | _ \<Rightarrow> None)"
  have "length (?f (observe_boundary_event e)) = (if recovered e then 1 else 0)
     \<and> List.map_filter ob_message_id (?f (observe_boundary_event e)) = []" for e
    by (cases e) (simp_all add: List.map_filter_simps)
  then have "length (?f (concat (map observe_boundary_event events))) = length (filter recovered events)
     \<and> List.map_filter ob_message_id (?f (concat (map observe_boundary_event events))) = []"
    by (induction events) (simp_all add: map_filter_append List.map_filter_simps)
  then show "length (trace_frames (trace_new (boundary_events_to_observation events))) = length (filter recovered events)"
    "message_id_sequence (trace_new (boundary_events_to_observation events)) = []"
    by (simp_all add: boundary_observation trace_frames_def message_id_sequence_def trace_new_def)
qed

text \<open>
  The events of the boundary carry no message id, so the report on them lists every start-up id
  as missing, whatever the connection did.
\<close>

lemma boundary_startup_diff:
  "\<exists>states. od_entries (diff_startup (trace_new (boundary_events_to_observation events)))
     = map missing_entry STABLE_STARTUP_SEQUENCE @ states \<and> set states \<subseteq> {state_entry}"
  unfolding diff_startup_def scenario_entries boundary_frames(2)
  by (auto simp: diff_id_sequences_def scenario_startup_def confirmed_startup_ids_def STABLE_STARTUP_SEQUENCE_def)

section \<open>The report counts every frame\<close>

lemma analyze_frame_projections [simp]:
  "za_directions (analyze_frame z f) = bt_count64 (ob_direction f) (za_directions z)"
  "za_kinds (analyze_frame z f) = bt_count64 (ob_kind f) (za_kinds z)"
  "za_classes (analyze_frame z f) = bt_count64 (observation_class_str (co_class (classify_frame f))) (za_classes z)"
  "za_ids (analyze_frame z f) = (case ob_message_id f of None \<Rightarrow> za_ids z | Some i \<Rightarrow> bt_insert i () (za_ids z))"
  "length (za_order (analyze_frame z f)) = Suc (length (za_order z))"
  "za_unknown (analyze_frame z f) = za_unknown z
     @ (case ob_message_id f of None \<Rightarrow> [] | Some i \<Rightarrow> if unknown_id i then [message_id_label i] else [])"
  by (auto simp: analyze_frame_def Let_def unknown_id_def split: option.split)

lemma count64_sum:
  "sum_list (map snd (foldl (\<lambda>m x. bt_count64 (key x) m) [] xs)) = of_nat (length xs)"
  using bt_sum_fill [of "\<lambda>n. n" "\<lambda>_ n. n + 1" "\<lambda>_. 1 :: u64" "\<lambda>_. 0" key xs]
  by (simp add: bt_count64_def bt_vals_def sum_list_triv)

lemma analyze_folds:
  "za_directions (foldl analyze_frame z fs) = foldl (\<lambda>m f. bt_count64 (ob_direction f) m) (za_directions z) fs"
  "za_kinds (foldl analyze_frame z fs) = foldl (\<lambda>m f. bt_count64 (ob_kind f) m) (za_kinds z) fs"
  "za_classes (foldl analyze_frame z fs) =
     foldl (\<lambda>m f. bt_count64 (observation_class_str (co_class (classify_frame f))) m) (za_classes z) fs"
  "length (za_order (foldl analyze_frame z fs)) = length (za_order z) + length fs"
  "za_unknown (foldl analyze_frame z fs) =
     za_unknown z @ map message_id_label (filter unknown_id (List.map_filter ob_message_id fs))"
  by (induction fs arbitrary: z) (simp_all add: List.map_filter_simps split: option.split)

lemma report_counts:
  fixes t
  defines "n \<equiv> length (trace_frames t)"
  shows "or_total (analyze_trace t) = of_nat n" "length (or_order (analyze_trace t)) = n"
    "sum_list (map snd (or_directions (analyze_trace t))) = of_nat n"
    "sum_list (map snd (or_kinds (analyze_trace t))) = of_nat n"
    "sum_list (map snd (or_classes (analyze_trace t))) = of_nat n"
    "or_unknown (analyze_trace t) = map message_id_label (filter unknown_id (message_id_sequence t))"
    "or_diffs (analyze_trace t) = [] \<longleftrightarrow> diff_is_empty (diff_startup t)"
  by (simp_all add: n_def analyze_trace_def Let_def analyze_folds analyzer_init_def count64_sum
      message_id_sequence_def diff_startup_def)

text \<open>An id is confirmed only when the start-up sequence or the keep-alives have it.\<close>

lemma confirmed_iff:
  "co_class (classify_frame f) = OcConfirmed \<longleftrightarrow>
     (\<exists>i. ob_message_id f = Some i \<and> i \<in> set STABLE_STARTUP_SEQUENCE \<union> {0xFA, 0xFB})"
  by (auto simp: classify_frame_def Let_def split: option.split)

end
