(* ===== verification/Signon.thy ===== *)
theory Signon
  imports Local_Protocol Json_Value
begin

text \<open>
  \<open>network/src/signon.rs\<close>, \<open>signon_boundary.rs\<close>, \<open>signon_analysis.rs\<close> and \<open>signon_spec.rs\<close>:
  what the project keeps about the sign-on service, without any secret value; the reader of
  evidence files, which refuses values under secret-looking keys; the check of session material
  metadata; and the providers that hand session material to the BAP cryptography. The JSON
  parser, the decoder and encoder \<open>serde\<close> derives and file contents are parameters.
\<close>

section \<open>Classes, names and errors\<close>

definition SIGNON_PATH_OBSERVED :: string where "SIGNON_PATH_OBSERVED = ''/SignOn''"
definition SIGNON_PLATFORM_QUERY_OBSERVED :: string where "SIGNON_PLATFORM_QUERY_OBSERVED = ''ps3_ppu''"
definition EXPECTED_AES_KEY_LEN :: nat where "EXPECTED_AES_KEY_LEN = 16"
definition EXPECTED_SESSION_NONCE_LEN :: nat where "EXPECTED_SESSION_NONCE_LEN = 12"
definition EXPECTED_MAC_KEY_MIN_LEN :: nat where "EXPECTED_MAC_KEY_MIN_LEN = 16"
definition SYNTHETIC_TEST_ONLY_LABEL :: string where "SYNTHETIC_TEST_ONLY_LABEL = ''SYNTHETIC_TEST_ONLY''"

datatype field_class = FcPublic | FcIdentifier | FcSessionSecret | FcAuthSecret | FcUnknown | FcSecretMaterial

fun field_class_str :: "field_class \<Rightarrow> string" where
  "field_class_str FcPublic = ''PUBLIC''"
| "field_class_str FcIdentifier = ''IDENTIFIER''"
| "field_class_str FcSessionSecret = ''SESSION_SECRET''"
| "field_class_str FcAuthSecret = ''AUTH_SECRET''"
| "field_class_str FcUnknown = ''UNKNOWN''"
| "field_class_str FcSecretMaterial = ''SECRET_MATERIAL''"

definition is_secret :: "field_class \<Rightarrow> bool" where
  "is_secret c \<longleftrightarrow> c \<in> {FcSessionSecret, FcAuthSecret, FcSecretMaterial}"

datatype signon_class = SoConfirmed | SoObserved | SoStructural | SoHypothesis | SoUnknown

fun signon_class_str :: "signon_class \<Rightarrow> string" where
  "signon_class_str SoConfirmed = ''CONFIRMED''"
| "signon_class_str SoObserved = ''OBSERVED''"
| "signon_class_str SoStructural = ''STRUCTURAL''"
| "signon_class_str SoHypothesis = ''HYPOTHESIS''"
| "signon_class_str SoUnknown = ''UNKNOWN''"

definition SIGNON_SENSITIVE_VALUE_KEYS :: "string list" where
  "SIGNON_SENSITIVE_VALUE_KEYS =
     [''token'', ''session_key'', ''session_key_hex'', ''mac_key'', ''mac_key_hex'', ''aes_key'',
      ''aes_key_hex'', ''hmac_key'', ''hmac_key_hex'', ''password'', ''authorization'',
      ''authorization_header'', ''cookie'', ''bearer'', ''bearer_token'', ''private_key'', ''credential'',
      ''credentials'', ''secret'', ''value'', ''value_hex'', ''body'', ''body_hex'', ''payload'', ''payload_hex'']"

definition is_signon_sensitive_key :: "string \<Rightarrow> bool" where
  "is_signon_sensitive_key key =
     (let k = to_ascii_lowercase key
      in list_ex (\<lambda>s. k = s) SIGNON_SENSITIVE_VALUE_KEYS
         \<or> str_contains ''password'' k
         \<or> str_contains ''credential'' k
         \<or> (str_ends_with k ''_hex'' \<and> (str_contains ''key'' k \<or> str_contains ''token'' k \<or> str_contains ''secret'' k)))"

datatype signon_error =
    SensitiveValue string
  | InvalidMaterial string
  | SignonParse string
  | SignonIo string

fun show_signon_error :: "signon_error \<Rightarrow> string" where
  "show_signon_error (SensitiveValue s) = ''sensitive value field rejected: '' @ s"
| "show_signon_error (InvalidMaterial s) = ''invalid session material: '' @ s"
| "show_signon_error (SignonParse s) = ''parse: '' @ s"
| "show_signon_error (SignonIo s) = ''io: '' @ s"

record signon_field =
  sf_name :: string
  sf_type :: string
  sf_length :: "nat option"
  sf_class :: field_class
  sf_required :: bool
  sf_status :: signon_class
  sf_present :: bool

record signon_evidence =
  sv_capture_id :: string
  sv_transport :: string
  sv_request :: bool
  sv_response :: bool
  sv_status_code :: "u16 option"
  sv_field_names :: "string list"
  sv_field_lengths :: "(string, nat) btree"
  sv_field_classes :: "(string, field_class) btree"
  sv_fields :: "signon_field list"
  sv_source :: string
  sv_class :: signon_class
  sv_notes :: "string list"
  sv_path :: "string option"
  sv_platform :: "string option"

section \<open>Reading evidence\<close>

definition name_container :: "string \<Rightarrow> bool" where
  "name_container path \<longleftrightarrow> str_ends_with path ''field_classifications'' \<or> str_ends_with path ''field_lengths''
     \<or> str_ends_with path ''field_names''"

definition METADATA_KEYS :: "string list" where
  "METADATA_KEYS =
     [''present'', ''length'', ''classification'', ''type'', ''required'', ''evidence_status'', ''field_type'']"

fun metadata_error :: "string \<Rightarrow> string list \<Rightarrow> signon_error option" where
  "metadata_error at [] = None"
| "metadata_error at (mk # mks) =
     (if mk \<notin> set METADATA_KEYS then Some (SensitiveValue (at @ ''.'' @ mk)) else metadata_error at mks)"

definition value_error :: "string \<Rightarrow> json \<Rightarrow> signon_error option" where
  "value_error at child =
     (case child of
        JNull \<Rightarrow> None
      | JObject meta \<Rightarrow>
          (case metadata_error at (map fst meta) of
             Some e \<Rightarrow> Some e
           | None \<Rightarrow>
               if ''value'' \<in> fst ` set meta \<or> ''value_hex'' \<in> fst ` set meta \<or> ''hex'' \<in> fst ` set meta
               then Some (SensitiveValue (at @ '' nested value'')) else None)
      | _ \<Rightarrow> Some (SensitiveValue at))"

text \<open>What the walk checks at one entry, before it descends.\<close>

definition entry_error :: "string \<Rightarrow> string \<Rightarrow> json \<Rightarrow> signon_error option" where
  "entry_error path k child =
     (let at = path @ ''/'' @ k
      in case (if \<not> name_container path \<and> is_signon_sensitive_key k then value_error at child else None) of
           Some e \<Rightarrow> Some e
         | None \<Rightarrow>
             if (str_contains ''/fields['' path \<or> str_ends_with path ''/fields'')
                \<and> k \<in> {''value'', ''value_hex'', ''hex'', ''bytes_hex''}
             then Some (SensitiveValue at) else None)"

fun walk_reject :: "json \<Rightarrow> string \<Rightarrow> signon_error + unit"
  and walk_entries :: "(string \<times> json) list \<Rightarrow> string \<Rightarrow> signon_error + unit"
  and walk_items :: "json list \<Rightarrow> string \<Rightarrow> nat \<Rightarrow> signon_error + unit" where
  "walk_reject (JObject m) path = walk_entries m path"
| "walk_reject (JArray xs) path = walk_items xs path 0"
| "walk_reject JNull path = Inr ()"
| "walk_reject (JBool b) path = Inr ()"
| "walk_reject (JNumber n) path = Inr ()"
| "walk_reject (JString s) path = Inr ()"
| "walk_entries [] path = Inr ()"
| "walk_entries ((k, child) # m) path =
     (case entry_error path k child of
        Some e \<Rightarrow> Inl e
      | None \<Rightarrow> bind_res (walk_reject child (path @ ''/'' @ k)) (\<lambda>_. walk_entries m path))"
| "walk_items [] path i = Inr ()"
| "walk_items (child # xs) path i =
     bind_res (walk_reject child (path @ ''['' @ show_nat i @ '']'')) (\<lambda>_. walk_items xs path (i + 1))"

definition sanitize_field :: "signon_field \<Rightarrow> signon_field" where
  "sanitize_field f =
     (let f = (if is_signon_sensitive_key (sf_name f) \<and> \<not> is_secret (sf_class f)
               then f\<lparr>sf_class := FcSecretMaterial\<rparr> else f)
      in f\<lparr>sf_present := sf_present f \<or> sf_length f \<noteq> None\<rparr>)"

definition sanitize_evidence :: "signon_evidence \<Rightarrow> signon_evidence" where
  "sanitize_evidence ev = ev\<lparr>sv_fields := map sanitize_field (sv_fields ev)\<rparr>"

definition reject_sensitive_json :: "(string \<Rightarrow> string + json) \<Rightarrow> string \<Rightarrow> signon_error + unit" where
  "reject_sensitive_json parse text =
     (case parse text of Inl e \<Rightarrow> Inl (SignonParse e) | Inr v \<Rightarrow> walk_reject v [])"

definition evidence_from_json ::
  "(string \<Rightarrow> string + json) \<Rightarrow> (string \<Rightarrow> string + signon_evidence) \<Rightarrow> string \<Rightarrow> signon_error + signon_evidence" where
  "evidence_from_json parse decode text =
     bind_res (reject_sensitive_json parse text) (\<lambda>_.
       case decode text of Inl e \<Rightarrow> Inl (SignonParse e) | Inr ev \<Rightarrow> Inr (sanitize_evidence ev))"

definition evidence_from_path ::
  "(string \<Rightarrow> string + json) \<Rightarrow> (string \<Rightarrow> string + signon_evidence) \<Rightarrow> (string \<Rightarrow> string + string) \<Rightarrow> string \<Rightarrow>
   signon_error + signon_evidence" where
  "evidence_from_path parse decode read path =
     (case read path of Inl e \<Rightarrow> Inl (SignonIo e) | Inr text \<Rightarrow> evidence_from_json parse decode text)"

section \<open>Session material\<close>

record signon_material =
  sm_key_present :: bool
  sm_key_length :: "nat option"
  sm_nonce_present :: bool
  sm_nonce_length :: "nat option"
  sm_mac_present :: bool
  sm_mac_length :: "nat option"
  sm_source :: string
  sm_class :: signon_class
  sm_synthetic :: bool

definition synthetic_expected :: signon_material where
  "synthetic_expected =
     \<lparr>sm_key_present = True, sm_key_length = Some EXPECTED_AES_KEY_LEN, sm_nonce_present = True,
      sm_nonce_length = Some EXPECTED_SESSION_NONCE_LEN, sm_mac_present = False, sm_mac_length = None,
      sm_source = SYNTHETIC_TEST_ONLY_LABEL, sm_class = SoConfirmed, sm_synthetic = True\<rparr>"

definition from_evidence_docs :: signon_material where
  "from_evidence_docs =
     \<lparr>sm_key_present = True, sm_key_length = Some EXPECTED_AES_KEY_LEN, sm_nonce_present = True,
      sm_nonce_length = Some EXPECTED_SESSION_NONCE_LEN, sm_mac_present = True,
      sm_mac_length = Some EXPECTED_MAC_KEY_MIN_LEN, sm_source = ''offline_evidence_metadata'',
      sm_class = SoConfirmed, sm_synthetic = False\<rparr>"

definition length_check :: "string \<Rightarrow> nat \<Rightarrow> bool \<Rightarrow> nat option \<Rightarrow> signon_error + unit" where
  "length_check name n present len =
     (if \<not> present then Inr ()
      else case len of
             Some l \<Rightarrow> if l = n then Inr ()
                       else Inl (InvalidMaterial (name @ ''_length must be '' @ show_nat n @ '', got '' @ show_nat l))
           | None \<Rightarrow> Inl (InvalidMaterial (name @ ''_present but length missing'')))"

text \<open>\<open>encode\<close> is \<open>serde_json::to_string\<close>.\<close>

definition validate_session_material ::
  "(signon_material \<Rightarrow> string + string) \<Rightarrow> signon_material \<Rightarrow> signon_error + unit" where
  "validate_session_material encode m =
     bind_res (length_check ''session_key'' EXPECTED_AES_KEY_LEN (sm_key_present m) (sm_key_length m)) (\<lambda>_.
     bind_res (length_check ''session_nonce'' EXPECTED_SESSION_NONCE_LEN (sm_nonce_present m) (sm_nonce_length m)) (\<lambda>_.
     if str_trim (sm_source m) = [] then Inl (InvalidMaterial ''source required'')
     else if sm_synthetic m \<and> sm_source m \<noteq> SYNTHETIC_TEST_ONLY_LABEL then
       Inl (InvalidMaterial ''synthetic material must declare SYNTHETIC_TEST_ONLY source'')
     else
       (case encode m of
          Inl e \<Rightarrow> Inl (SignonParse e)
        | Inr j \<Rightarrow>
            if str_contains ''session_key_hex'' j \<or> str_contains ''\"token\"'' j \<or> str_contains ''password'' j then
              Inl (SensitiveValue ''session material serialization leaked secret-shaped keys'')
            else Inr ())))"

section \<open>The boundary to the BAP cryptography\<close>

datatype signon_boundary_error =
    SbSignOn signon_error
  | SbContext session_context_error
  | SbProvider string
  | SbRealNotImplemented

record provided_material =
  pm_key :: bytes
  pm_nonce :: bytes
  pm_metadata :: signon_material

definition pm_key_len :: "provided_material \<Rightarrow> nat" where "pm_key_len p = length (pm_key p)"
definition pm_nonce_len :: "provided_material \<Rightarrow> nat" where "pm_nonce_len p = length (pm_nonce p)"

definition to_session_crypto_context :: "provided_material \<Rightarrow> signon_boundary_error + session_context" where
  "to_session_crypto_context p =
     (case context_new (pm_key p) (pm_nonce p) of Inl e \<Rightarrow> Inl (SbContext e) | Inr c \<Rightarrow> Inr c)"

text \<open>A provider is what \<open>provide\<close> returns and its kind.\<close>

record material_provider =
  mp_provide :: "signon_boundary_error + provided_material"
  mp_kind :: string

definition offline_provider :: "(signon_material \<Rightarrow> string + string) \<Rightarrow> material_provider" where
  "offline_provider encode =
     \<lparr>mp_provide =
        (let metadata = synthetic_expected
         in case validate_session_material encode metadata of
              Inl e \<Rightarrow> Inl (SbSignOn e)
            | Inr _ \<Rightarrow> Inr \<lparr>pm_key = SYNTHETIC_SESSION_KEY, pm_nonce = SYNTHETIC_SESSION_NONCE,
                            pm_metadata = metadata\<rparr>),
      mp_kind = SYNTHETIC_TEST_ONLY_LABEL\<rparr>"

definition real_provider :: material_provider where
  "real_provider = \<lparr>mp_provide = Inl SbRealNotImplemented, mp_kind = ''REAL_SIGNON_NOT_IMPLEMENTED''\<rparr>"

definition initialize_from_provider :: "material_provider \<Rightarrow> signon_boundary_error + session_context" where
  "initialize_from_provider p =
     bind_res (mp_provide p) (\<lambda>material.
       if mp_kind p = SYNTHETIC_TEST_ONLY_LABEL \<and> \<not> sm_synthetic (pm_metadata material) then
         Inl (SbProvider ''synthetic provider must mark SYNTHETIC_TEST_ONLY'')
       else to_session_crypto_context material)"

section \<open>No value under a secret name\<close>

text \<open>Every entry of a document, with the path of its object, in the order of the walk.\<close>

fun json_entries :: "json \<Rightarrow> string \<Rightarrow> (string \<times> string \<times> json) list"
  and object_entries :: "(string \<times> json) list \<Rightarrow> string \<Rightarrow> (string \<times> string \<times> json) list"
  and array_entries :: "json list \<Rightarrow> string \<Rightarrow> nat \<Rightarrow> (string \<times> string \<times> json) list" where
  "json_entries (JObject m) path = object_entries m path"
| "json_entries (JArray xs) path = array_entries xs path 0"
| "json_entries JNull path = []"
| "json_entries (JBool b) path = []"
| "json_entries (JNumber n) path = []"
| "json_entries (JString s) path = []"
| "object_entries [] path = []"
| "object_entries ((k, child) # m) path =
     (path, k, child) # json_entries child (path @ ''/'' @ k) @ object_entries m path"
| "array_entries [] path i = []"
| "array_entries (child # xs) path i =
     json_entries child (path @ ''['' @ show_nat i @ '']'') @ array_entries xs path (i + 1)"

fun first_error :: "(string \<times> string \<times> json) list \<Rightarrow> signon_error + unit" where
  "first_error [] = Inr ()"
| "first_error ((p, k, c) # es) = (case entry_error p k c of Some e \<Rightarrow> Inl e | None \<Rightarrow> first_error es)"

lemma first_error_append [simp]: "first_error (xs @ ys) = bind_res (first_error xs) (\<lambda>_. first_error ys)"
  by (induction xs rule: first_error.induct) (simp_all split: option.split)

lemma walk_first_error:
  "walk_reject v path = first_error (json_entries v path)"
  "walk_entries m path = first_error (object_entries m path)"
  "walk_items xs path i = first_error (array_entries xs path i)"
  by (induction v path and m path and xs path i rule: walk_reject_walk_entries_walk_items.induct)
    (simp_all split: option.split)

lemma first_error_ok: "first_error es = Inr () \<longleftrightarrow> (\<forall>(p, k, c) \<in> set es. entry_error p k c = None)"
  by (induction es rule: first_error.induct) (auto split: option.split)

text \<open>
  What an accepted entry looks like: a secret-looking key outside the maps from names to lengths
  and classes has the value null or an object with nothing but metadata keys, and no entry of a
  field descriptor is called a value.
\<close>

definition carries_no_value :: "json \<Rightarrow> bool" where
  "carries_no_value c \<longleftrightarrow> c = JNull \<or> (\<exists>meta. c = JObject meta \<and> fst ` set meta \<subseteq> set METADATA_KEYS)"

definition entry_fine :: "string \<Rightarrow> string \<Rightarrow> json \<Rightarrow> bool" where
  "entry_fine path k c \<longleftrightarrow>
     (is_signon_sensitive_key k \<longrightarrow> name_container path \<or> carries_no_value c)
     \<and> (str_contains ''/fields['' path \<or> str_ends_with path ''/fields''
        \<longrightarrow> k \<notin> {''value'', ''value_hex'', ''hex'', ''bytes_hex''})"

lemma metadata_error_none: "metadata_error at ks = None \<longleftrightarrow> set ks \<subseteq> set METADATA_KEYS"
  by (induction ks) auto

lemma value_error_none: "value_error at c = None \<longleftrightarrow> carries_no_value c"
proof (cases c)
  case (JObject meta)
  have "''value'' \<notin> set METADATA_KEYS" "''value_hex'' \<notin> set METADATA_KEYS" "''hex'' \<notin> set METADATA_KEYS"
    by (simp_all add: METADATA_KEYS_def)
  then show ?thesis
    using metadata_error_none [of at "map fst meta"]
    by (auto simp: value_error_def carries_no_value_def JObject split: option.split)
qed (simp_all add: value_error_def carries_no_value_def)

lemma entry_error_none: "entry_error path k c = None \<longleftrightarrow> entry_fine path k c"
  using value_error_none [of "path @ ''/'' @ k" c]
  by (auto simp: entry_error_def entry_fine_def Let_def split: option.split)

lemma walk_reject_exact: "walk_reject v path = Inr () \<longleftrightarrow> (\<forall>(p, k, c) \<in> set (json_entries v path). entry_fine p k c)"
  unfolding walk_first_error first_error_ok entry_error_none ..

lemma sanitize_field_secret:
  "is_signon_sensitive_key (sf_name (sanitize_field f)) \<Longrightarrow> is_secret (sf_class (sanitize_field f))"
  "sf_length (sanitize_field f) \<noteq> None \<Longrightarrow> sf_present (sanitize_field f)"
  by (auto simp: sanitize_field_def Let_def is_secret_def)

text \<open>
  An entry the reader has to refuse: outside the maps from field names to lengths and classes, a
  secret-looking key with a string, a number, a truth value, an array, or an object with a key that
  is not metadata; or an entry of a field descriptor that is called a value.
\<close>

fun value_under :: "json \<Rightarrow> bool" where
  "value_under JNull = False"
| "value_under (JObject meta) = list_ex (\<lambda>mk. mk \<notin> set METADATA_KEYS) (map fst meta)"
| "value_under (JArray xs) = True"
| "value_under (JBool b) = True"
| "value_under (JNumber n) = True"
| "value_under (JString s) = True"

definition secret_value :: "string \<Rightarrow> string \<Rightarrow> json \<Rightarrow> bool" where
  "secret_value path k c \<longleftrightarrow>
     is_signon_sensitive_key k \<and> \<not> name_container path \<and> value_under c
     \<or> (str_contains ''/fields['' path \<or> str_ends_with path ''/fields'')
        \<and> k \<in> {''value'', ''value_hex'', ''hex'', ''bytes_hex''}"

text \<open>
  An entry as the evidence files have it: a secret-looking key in one of those maps has a number or
  a class, and elsewhere it has null or a descriptor made of lengths, flags and labels.
\<close>

definition metadata_value :: "string \<Rightarrow> json \<Rightarrow> bool" where
  "metadata_value k v =
     (case v of
        JNumber n \<Rightarrow> k = ''length''
      | JNull \<Rightarrow> k = ''length''
      | JBool b \<Rightarrow> k \<in> {''present'', ''required''}
      | JString s \<Rightarrow> k \<in> {''classification'', ''type'', ''evidence_status'', ''field_type''}
      | _ \<Rightarrow> False)"

definition metadata_only :: "string \<Rightarrow> string \<Rightarrow> json \<Rightarrow> bool" where
  "metadata_only path k c \<longleftrightarrow>
     (is_signon_sensitive_key k \<longrightarrow>
        (case c of
           JNull \<Rightarrow> True
         | JNumber n \<Rightarrow> str_ends_with path ''field_lengths''
         | JString s \<Rightarrow> str_ends_with path ''field_classifications''
         | JObject meta \<Rightarrow> list_all (\<lambda>(mk, mv). metadata_value mk mv) meta
         | _ \<Rightarrow> False))
     \<and> (str_contains ''/fields['' path \<or> str_ends_with path ''/fields''
        \<longrightarrow> k \<notin> {''value'', ''value_hex'', ''hex'', ''bytes_hex''})"

lemma value_under_iff: "value_under c \<longleftrightarrow> \<not> carries_no_value c"
  by (cases c) (auto simp: carries_no_value_def list_ex_iff)

lemma secret_value_iff: "secret_value path k c \<longleftrightarrow> \<not> entry_fine path k c"
  by (auto simp: secret_value_def entry_fine_def value_under_iff)

lemma metadata_value_key: "metadata_value k v \<Longrightarrow> k \<in> set METADATA_KEYS"
  by (auto simp: metadata_value_def METADATA_KEYS_def split: json.splits)

lemma metadata_only_fine: "metadata_only path k c \<Longrightarrow> entry_fine path k c"
  by (cases c)
     (auto simp: metadata_only_def entry_fine_def carries_no_value_def name_container_def list_all_iff
       dest!: metadata_value_key)

lemma metadata_error_at: "metadata_error at ks = Some e \<Longrightarrow> \<exists>rest. e = SensitiveValue (at @ rest)"
  by (induction ks) (auto split: if_splits)

lemma entry_error_at: "entry_error path k c = Some e \<Longrightarrow> \<exists>rest. e = SensitiveValue (path @ ''/'' @ k @ rest)"
  by (auto simp: entry_error_def value_error_def Let_def split: option.splits if_splits json.splits
    dest!: metadata_error_at)

lemma first_error_split:
  assumes "es = xs @ (p, k, c) # ys" "\<not> entry_fine p k c" "\<forall>(p, k, c) \<in> set xs. entry_fine p k c"
  shows "\<exists>rest. first_error es = Inl (SensitiveValue (p @ ''/'' @ k @ rest))"
proof -
  have "first_error xs = Inr ()" using assms(3) by (simp add: first_error_ok entry_error_none)
  moreover obtain e where "entry_error p k c = Some e" using assms(2) entry_error_none [of p k c] by auto
  ultimately show ?thesis using assms(1) entry_error_at [of p k c] by (auto simp: bind_res_def)
qed

text \<open>
  C25. The reader refuses secret values. At the first entry of the document, at any depth, that has
  a value under a secret-looking name (outside the maps from names to lengths and classes), or a
  value in a field descriptor, it stops with an error that names the entry, and no evidence is made.
  A document whose secret-looking entries hold only lengths, flags and labels is read as decoded,
  and in evidence that was read every field with a secret-looking name has a secret class, whatever
  class the document gave it.
\<close>

theorem evidence_refuses_secret_values:
  assumes "parse text = Inr root"
  shows "(\<forall>xs p k c ys. json_entries root [] = xs @ (p, k, c) # ys \<and> secret_value p k c
        \<and> (\<forall>(p, k, c) \<in> set xs. \<not> secret_value p k c)
      \<longrightarrow> (\<exists>rest. evidence_from_json parse decode text = Inl (SensitiveValue (p @ ''/'' @ k @ rest))))
    \<and> ((\<forall>(p, k, c) \<in> set (json_entries root []). metadata_only p k c)
      \<longrightarrow> evidence_from_json parse decode text
          = (case decode text of Inl e \<Rightarrow> Inl (SignonParse e) | Inr ev \<Rightarrow> Inr (sanitize_evidence ev)))
    \<and> (\<forall>ev. evidence_from_json parse decode text = Inr ev
      \<longrightarrow> (\<forall>f \<in> set (sv_fields ev). (is_signon_sensitive_key (sf_name f) \<longrightarrow> is_secret (sf_class f))
             \<and> (sf_length f \<noteq> None \<longrightarrow> sf_present f)))"
proof (intro conjI allI impI)
  have read: "evidence_from_json parse decode text = bind_res (first_error (json_entries root [])) (\<lambda>_.
      case decode text of Inl e \<Rightarrow> Inl (SignonParse e) | Inr ev \<Rightarrow> Inr (sanitize_evidence ev))"
    by (simp add: evidence_from_json_def reject_sensitive_json_def assms walk_first_error)
  {
    fix xs p k c ys
    assume "json_entries root [] = xs @ (p, k, c) # ys \<and> secret_value p k c
        \<and> (\<forall>(p, k, c) \<in> set xs. \<not> secret_value p k c)"
    then show "\<exists>rest. evidence_from_json parse decode text = Inl (SensitiveValue (p @ ''/'' @ k @ rest))"
      using first_error_split [of "json_entries root []" xs p k c ys]
      by (auto simp: read secret_value_iff bind_res_def)
  next
    assume "\<forall>(p, k, c) \<in> set (json_entries root []). metadata_only p k c"
    then have "first_error (json_entries root []) = Inr ()"
      using metadata_only_fine by (fastforce simp: first_error_ok entry_error_none)
    then show "evidence_from_json parse decode text
          = (case decode text of Inl e \<Rightarrow> Inl (SignonParse e) | Inr ev \<Rightarrow> Inr (sanitize_evidence ev))"
      by (simp add: read)
  next
    fix ev
    assume "evidence_from_json parse decode text = Inr ev"
    then obtain raw where "ev = sanitize_evidence raw" by (auto simp: read bind_res_ok split: sum.splits)
    then show "\<forall>f \<in> set (sv_fields ev). (is_signon_sensitive_key (sf_name f) \<longrightarrow> is_secret (sf_class f))
             \<and> (sf_length f \<noteq> None \<longrightarrow> sf_present f)"
      using sanitize_field_secret by (auto simp: sanitize_evidence_def)
  }
qed

definition demo_evidence :: signon_evidence where
  "demo_evidence =
     \<lparr>sv_capture_id = ''c'', sv_transport = ''HTTPS'', sv_request = True, sv_response = True, sv_status_code = None,
      sv_field_names = [''aes_key''], sv_field_lengths = [], sv_field_classes = [],
      sv_fields = [\<lparr>sf_name = ''aes_key'', sf_type = ''bytes'', sf_length = Some 16, sf_class = FcPublic,
                    sf_required = True, sf_status = SoObserved, sf_present = False\<rparr>],
      sv_source = ''doc'', sv_class = SoObserved, sv_notes = [], sv_path = None, sv_platform = None\<rparr>"

definition demo_evidence_json :: json where
  "demo_evidence_json =
     JObject [(''fields'', JArray [JObject [(''length'', JNumber ''16''), (''name'', JString ''aes_key'')]]),
              (''session_key'', JObject [(''length'', JNumber ''16''), (''present'', JBool True)])]"

text \<open>A descriptor of a key is read and gets its class; a key is refused.\<close>

lemma evidence_refuses_secret_values_witness:
  "evidence_from_json (\<lambda>_. Inr demo_evidence_json) (\<lambda>_. Inr demo_evidence) [] = Inr (sanitize_evidence demo_evidence)
   \<and> is_secret (sf_class (sv_fields (sanitize_evidence demo_evidence) ! 0))
   \<and> (\<exists>rest. evidence_from_json (\<lambda>_. Inr (JArray [JObject [(''MAC_KEY'', JString ''00'')]])) (\<lambda>_. Inr demo_evidence) []
        = Inl (SensitiveValue (''[0]/MAC_KEY'' @ rest)))"
proof -
  let ?leak = "JArray [JObject [(''MAC_KEY'', JString ''00'')]]"
  note clean = evidence_refuses_secret_values
    [of "\<lambda>_. Inr demo_evidence_json" "[]" demo_evidence_json "\<lambda>_. Inr demo_evidence", OF refl]
  note leak = evidence_refuses_secret_values [of "\<lambda>_. Inr ?leak" "[]" ?leak "\<lambda>_. Inr demo_evidence", OF refl]
  have "list_all (\<lambda>(p, k, c). metadata_only p k c) (json_entries demo_evidence_json [])" by code_simp
  then have read: "evidence_from_json (\<lambda>_. Inr demo_evidence_json) (\<lambda>_. Inr demo_evidence) [] = Inr (sanitize_evidence demo_evidence)"
    using clean by (simp add: list_all_iff)
  have "is_signon_sensitive_key ''aes_key''" by code_simp
  moreover have "sv_fields (sanitize_evidence demo_evidence) ! 0 \<in> set (sv_fields (sanitize_evidence demo_evidence))"
    "sf_name (sv_fields (sanitize_evidence demo_evidence) ! 0) = ''aes_key''"
    by (simp_all add: sanitize_evidence_def demo_evidence_def sanitize_field_def Let_def)
  ultimately have "is_secret (sf_class (sv_fields (sanitize_evidence demo_evidence) ! 0))"
    using clean read by metis
  moreover have "json_entries ?leak [] = [] @ (''[0]'', ''MAC_KEY'', JString ''00'') # []" by code_simp
  moreover have "secret_value ''[0]'' ''MAC_KEY'' (JString ''00'')" by code_simp
  ultimately show ?thesis using leak read by fastforce
qed

lemma evidence_refuses_value:
  "evidence_from_json (\<lambda>_. Inr (JObject [(''session_key'', JString ''00'')])) decode text
     = Inl (SensitiveValue ''/session_key'')"
proof -
  have "walk_reject (JObject [(''session_key'', JString ''00'')]) [] = Inl (SensitiveValue ''/session_key'')" by code_simp
  then show ?thesis by (simp add: evidence_from_json_def reject_sensitive_json_def)
qed

text \<open>
  The content of a metadata key is not looked at: a string under \<open>length\<close> passes the walk.
\<close>

lemma metadata_content_unchecked:
  "walk_reject (JObject [(''session_key'', JObject [(''length'', JString ''00112233445566778899aabbccddeeff'')])]) [] = Inr ()"
  by code_simp

lemma offline_context:
  assumes "encode synthetic_expected = Inr j" "\<not> str_contains ''session_key_hex'' j"
    "\<not> str_contains ''\"token\"'' j" "\<not> str_contains ''password'' j"
  shows "\<exists>c. initialize_from_provider (offline_provider encode) = Inr c
     \<and> context_new SYNTHETIC_SESSION_KEY SYNTHETIC_SESSION_NONCE = Inr c"
proof -
  have "str_trim SYNTHETIC_TEST_ONLY_LABEL \<noteq> []"
    by (subst str_trim_visible) (simp_all add: SYNTHETIC_TEST_ONLY_LABEL_def visible_ascii_def)
  then have v: "validate_session_material encode synthetic_expected = Inr ()"
    using assms by (simp add: validate_session_material_def length_check_def synthetic_expected_def)
  have "is_ok (context_new SYNTHETIC_SESSION_KEY SYNTHETIC_SESSION_NONCE)" by code_simp
  then have "\<exists>c. context_new SYNTHETIC_SESSION_KEY SYNTHETIC_SESSION_NONCE = Inr c" by (simp add: is_ok_iff)
  moreover have "sm_synthetic synthetic_expected" by (simp add: synthetic_expected_def)
  ultimately show ?thesis
    by (auto simp: initialize_from_provider_def offline_provider_def Let_def v to_session_crypto_context_def)
qed

lemma real_provider_refuses: "initialize_from_provider real_provider = Inl SbRealNotImplemented"
  by (simp add: initialize_from_provider_def real_provider_def)

end
