(* ===== verification/Signon_Spec.thy ===== *)
theory Signon_Spec
  imports Signon
begin

text \<open>
  The rest of the sign-on files: the evidence the documents of the project give
  (\<open>canonical_signon_evidence\<close>), its analysis and report (\<open>signon_analysis.rs\<close>), and the
  machine-readable specification (\<open>signon_spec.rs\<close>), with what ties the tables together.
\<close>

section \<open>Canonical evidence\<close>

definition field_of ::
  "string \<Rightarrow> string \<Rightarrow> nat option \<Rightarrow> field_class \<Rightarrow> bool \<Rightarrow> signon_class \<Rightarrow> bool \<Rightarrow> signon_field" where
  "field_of name type len c required status present =
     \<lparr>sf_name = name, sf_type = type, sf_length = len, sf_class = c, sf_required = required,
      sf_status = status, sf_present = present\<rparr>"

definition platform_field :: signon_field where
  "platform_field = field_of ''platform'' ''query_string'' (Some (length SIGNON_PLATFORM_QUERY_OBSERVED))
     FcIdentifier True SoConfirmed True"

definition build_field :: signon_field where
  "build_field = field_of ''build'' ''query_string'' None FcIdentifier True SoObserved True"

definition aes_key_field :: signon_field where
  "aes_key_field = field_of ''aes_key'' ''bytes'' (Some EXPECTED_AES_KEY_LEN) FcSecretMaterial True SoConfirmed True"

definition mac_key_field :: signon_field where
  "mac_key_field = field_of ''mac_key'' ''bytes'' (Some EXPECTED_MAC_KEY_MIN_LEN) FcSecretMaterial True SoConfirmed True"

definition canonical_fields :: "signon_field list" where
  "canonical_fields =
     [platform_field, build_field, aes_key_field, mac_key_field,
      field_of ''bap_endpoint_ip'' ''varint_packed_ipv4'' None FcPublic False SoConfirmed True,
      field_of ''bap_endpoint_port'' ''varint'' None FcPublic False SoConfirmed True,
      field_of ''response_wire_schema'' ''unknown'' None FcUnknown False SoUnknown False]"

definition bt_of_list :: "('k::linorder \<times> 'v) list \<Rightarrow> ('k, 'v) btree" where
  "bt_of_list xs = foldl (\<lambda>m (k, v). bt_insert k v m) [] xs"

definition canonical_signon_evidence :: signon_evidence where
  "canonical_signon_evidence =
     \<lparr>sv_capture_id = ''20260529-003132'', sv_transport = ''HTTPS'', sv_request = True, sv_response = True,
      sv_status_code = None, sv_field_names = map sf_name canonical_fields,
      sv_field_lengths = bt_of_list
        [(''aes_key'', EXPECTED_AES_KEY_LEN), (''mac_key'', EXPECTED_MAC_KEY_MIN_LEN),
         (''platform'', length SIGNON_PLATFORM_QUERY_OBSERVED), (''build'', 0)],
      sv_field_classes = bt_of_list
        [(''aes_key'', FcSecretMaterial), (''mac_key'', FcSecretMaterial), (''platform'', FcIdentifier),
         (''build'', FcIdentifier), (''bap_endpoint_ip'', FcPublic), (''bap_endpoint_port'', FcPublic)],
      sv_fields = canonical_fields,
      sv_source = ''docs/networking/signon-https.md + d1-re workflow (offline)'', sv_class = SoConfirmed,
      sv_notes = [''SignOn analysis is offline.'', ''Real SignOn is not implemented.'',
                  ''No credentials or session secrets stored.'',
                  ''Host remains undocumented here; path /SignOn CONFIRMED for PS3 evidence.''],
      sv_path = Some SIGNON_PATH_OBSERVED, sv_platform = Some SIGNON_PLATFORM_QUERY_OBSERVED\<rparr>"

section \<open>Analysis\<close>

record signon_report =
  sx_fields :: "string list"
  sx_secret_present :: u64
  sx_secret_stored :: u64
  sx_material :: signon_material
  sx_counts :: "(string, u64) btree"
  sx_unknown :: "string list"
  sx_sources :: "string list"
  sx_limitations :: "string list"
  sx_transport :: string
  sx_path :: "string option"
  sx_request :: bool
  sx_response :: bool
  sx_status_code :: "u16 option"

definition LIMITATIONS :: "string list" where
  "LIMITATIONS =
     [''SignOn analysis is offline.'', ''Real SignOn is not implemented.'',
      ''No external authentication is performed.'', ''No credentials are stored.'',
      ''No session secrets are stored.'', ''Session material values are never serialized.'',
      ''Complete SignOn wire schema remains UNKNOWN.'', ''Real-client compatibility remains unverified.'',
      ''Real-server compatibility remains unverified.'']"

text \<open>Counts, secret fields, names observed and names unknown, field by field.\<close>

type_synonym field_scan = "(string, u64) btree \<times> u64 \<times> string list \<times> string list"

definition scan_field :: "field_scan \<Rightarrow> signon_field \<Rightarrow> field_scan" where
  "scan_field s f =
     (case s of (counts, secrets, observed, unknown) \<Rightarrow>
       (bt_count64 (signon_class_str (sf_status f)) counts,
        (if is_secret (sf_class f) then secrets + 1 else secrets),
        (if sf_present f \<or> sf_status f \<noteq> SoUnknown then observed @ [sf_name f] else observed),
        (if sf_class f = FcUnknown \<or> sf_status f = SoUnknown then
           (if sf_name f \<notin> set unknown then unknown @ [sf_name f] else unknown)
         else unknown)))"

definition signon_analyze :: "signon_evidence \<Rightarrow> signon_report" where
  "signon_analyze ev =
     (let (counts, secrets, observed, unknown) = foldl scan_field ([], 0, [], []) (sv_fields ev)
      in \<lparr>sx_fields = remdups_adj (sort observed), sx_secret_present = secrets, sx_secret_stored = 0,
          sx_material = from_evidence_docs, sx_counts = counts, sx_unknown = sort unknown,
          sx_sources = [sv_source ev, sv_capture_id ev], sx_limitations = LIMITATIONS @ sv_notes ev,
          sx_transport = sv_transport ev, sx_path = sv_path ev, sx_request = sv_request ev,
          sx_response = sv_response ev, sx_status_code = sv_status_code ev\<rparr>)"

definition present_text :: "bool \<Rightarrow> string" where
  "present_text b = (if b then ''PRESENT IN EVIDENCE'' else ''ABSENT'')"

definition show_signon_report :: "signon_report \<Rightarrow> string" where
  "show_signon_report r =
     (let sm = sx_material r
      in writeln ''SignOn Protocol'' @ writeln (''Transport: '' @ sx_transport r)
         @ writeln ''Evidence: OBSERVED/CONFIRMED (offline docs)'' @ writeln ''Real connection: NOT_IMPLEMENTED''
         @ (case sx_path r of None \<Rightarrow> [] | Some p \<Rightarrow> writeln (''Path observed: '' @ p))
         @ writeln [] @ writeln ''Session material:''
         @ writeln (''  AES key: '' @ present_text (sm_key_present sm) @ '' / VALUE NOT STORED'')
         @ (case sm_key_length sm of None \<Rightarrow> [] | Some n \<Rightarrow> writeln (''  Key length: '' @ show_nat n))
         @ writeln (''  Nonce: '' @ present_text (sm_nonce_present sm) @ '' / VALUE NOT STORED'')
         @ (case sm_nonce_length sm of None \<Rightarrow> [] | Some n \<Rightarrow> writeln (''  Nonce length: '' @ show_nat n))
         @ writeln (''  MAC material: '' @ present_text (sm_mac_present sm) @ '' / VALUE NOT STORED'')
         @ writeln [] @ writeln ''BAP integration:'' @ writeln ''  SessionCryptoContext: READY_FOR_PROVIDER''
         @ writeln ''  Real SignOn provider: NOT_IMPLEMENTED''
         @ writeln (''secret_values_stored: '' @ show_nat (unat (sx_secret_stored r))))"

section \<open>Specification\<close>

text \<open>The dash U+2014 in UTF-8.\<close>

definition long_dash :: string where "long_dash = [CHR 0xE2, CHR 0x80, CHR 0x94]"

record transport_spec =
  ts_scheme :: string
  ts_status :: signon_class
  ts_notes :: "string list"

record endpoint_spec =
  ep_path :: "string option"
  ep_host :: "string option"
  ep_method :: "string option"
  ep_platform :: "string option"
  ep_status :: signon_class
  ep_notes :: "string list"

record signon_message_spec =
  mq_observed :: bool
  mq_status :: signon_class
  mq_notes :: "string list"

record material_spec =
  ml_aes_key_length :: nat
  ml_nonce_length :: nat
  ml_mac_min_length :: nat
  ml_values_stored :: bool
  ml_status :: signon_class
  ml_notes :: "string list"

record signon_spec =
  sp_version :: string
  sp_transport :: transport_spec
  sp_endpoint :: endpoint_spec
  sp_request :: signon_message_spec
  sp_response :: signon_message_spec
  sp_fields :: "signon_field list"
  sp_material :: material_spec
  sp_evidence :: "string list"
  sp_unknowns :: "string list"

definition get_signon_protocol_spec :: signon_spec where
  "get_signon_protocol_spec =
     \<lparr>sp_version = ''0.1'',
      sp_transport = \<lparr>ts_scheme = ''HTTPS'', ts_status = SoConfirmed,
        ts_notes = [''TLS over TCP; MITM plaintext log used by d1-re decryptor workflow'',
                    ''This project does not perform TLS or HTTP.'']\<rparr>,
      sp_endpoint = \<lparr>ep_path = Some SIGNON_PATH_OBSERVED, ep_host = None, ep_method = Some ''POST'',
        ep_platform = Some SIGNON_PLATFORM_QUERY_OBSERVED, ep_status = SoConfirmed,
        ep_notes = [''Path /SignOn with platform=ps3_ppu CONFIRMED for PS3 evidence'',
                    ''Exact SignOn host not stored in this repo '' @ long_dash @ '' UNKNOWN/omitted'',
                    ''No invented endpoints.'']\<rparr>,
      sp_request = \<lparr>mq_observed = True, mq_status = SoObserved,
        mq_notes = [''Request observed in PS3 capture workflow; body schema UNKNOWN'']\<rparr>,
      sp_response = \<lparr>mq_observed = True, mq_status = SoObserved,
        mq_notes = [''Response supplies AES/MAC token pairs and optional BAP endpoints'',
                    ''Wire schema (protobuf-like) not fully specified '' @ long_dash @ '' UNKNOWN'']\<rparr>,
      sp_fields = [platform_field, build_field, aes_key_field, mac_key_field,
        field_of ''bap_endpoints'' ''ip_port_candidates'' None FcPublic False SoConfirmed True],
      sp_material = \<lparr>ml_aes_key_length = EXPECTED_AES_KEY_LEN, ml_nonce_length = EXPECTED_SESSION_NONCE_LEN,
        ml_mac_min_length = EXPECTED_MAC_KEY_MIN_LEN, ml_values_stored = False, ml_status = SoConfirmed,
        ml_notes = [''AES key 16 B and MAC key from SignOn response (existence CONFIRMED)'',
                    ''Session key+nonce for GCM are derived after 0x1A decrypt '' @ long_dash @ '' values not stored'',
                    ''Offline synthetic material uses SYNTHETIC_TEST_ONLY constants only'']\<rparr>,
      sp_evidence = [''docs/networking/signon-https.md'', ''docs/networking/session-crypto-key-material.md'',
                     ''capture:20260529-003132 (workflow reference)'',
                     ''kallsyms/d1-re collect_signon_secrets / derive_bap_session (external ref)''],
      sp_unknowns = [''Complete SignOn request/response wire schema'', ''Exhaustive field list and types'',
                     ''Platform auth tickets (PSN) byte layout'', ''PS4/Xbox SignOn path/host/schema equivalence'',
                     ''Exact SignOn host for this repository (intentionally omitted)'',
                     ''MAC key length variant always used by Destiny'']\<rparr>"

section \<open>Analysis in closed form\<close>

lemma scan_projections:
  "fst (foldl scan_field s fs) = foldl (\<lambda>m f. bt_count64 (signon_class_str (sf_status f)) m) (fst s) fs"
  "fst (snd (foldl scan_field s fs)) = fst (snd s) + of_nat (length (filter (\<lambda>f. is_secret (sf_class f)) fs))"
  "fst (snd (snd (foldl scan_field s fs))) = fst (snd (snd s))
     @ map sf_name (filter (\<lambda>f. sf_present f \<or> sf_status f \<noteq> SoUnknown) fs)"
  "set (snd (snd (snd (foldl scan_field s fs)))) = set (snd (snd (snd s)))
     \<union> sf_name ` set (filter (\<lambda>f. sf_class f = FcUnknown \<or> sf_status f = SoUnknown) fs)"
  by (induction fs arbitrary: s) (auto simp: scan_field_def algebra_simps split: prod.split)

lemma scan_distinct: "distinct (snd (snd (snd s))) \<Longrightarrow> distinct (snd (snd (snd (foldl scan_field s fs))))"
  by (induction fs arbitrary: s) (auto simp: scan_field_def split: prod.split)

lemma sorted_of_set: "distinct xs \<Longrightarrow> sort xs = sorted_list_of_set (set xs)"
  by (simp add: sorted_list_of_set_sort_remdups distinct_remdups_id)

lemma remdups_adj_strict: "sorted xs \<Longrightarrow> sorted_wrt (<) (remdups_adj xs)"
  by (induction xs rule: remdups_adj.induct) fastforce+

lemma remdups_adj_sort: "remdups_adj (sort xs) = sorted_list_of_set (set xs)"
  using remdups_adj_strict [of "sort xs"]
  by (metis remdups_adj_set set_sort sorted_list_of_set.idem_if_sorted_distinct sorted_sort strict_sorted_iff)

lemma signon_analysis_exact:
  "sx_secret_present (signon_analyze ev) = of_nat (length (filter (\<lambda>f. is_secret (sf_class f)) (sv_fields ev)))"
  "sx_fields (signon_analyze ev) =
     sorted_list_of_set (sf_name ` set (filter (\<lambda>f. sf_present f \<or> sf_status f \<noteq> SoUnknown) (sv_fields ev)))"
  "sx_unknown (signon_analyze ev) =
     sorted_list_of_set (sf_name ` set (filter (\<lambda>f. sf_class f = FcUnknown \<or> sf_status f = SoUnknown) (sv_fields ev)))"
  "sx_secret_stored (signon_analyze ev) = 0"
proof -
  let ?s = "foldl scan_field ([], 0, [], []) (sv_fields ev)"
  have a: "sx_secret_present (signon_analyze ev) = fst (snd ?s)"
    "sx_fields (signon_analyze ev) = remdups_adj (sort (fst (snd (snd ?s))))"
    "sx_unknown (signon_analyze ev) = sort (snd (snd (snd ?s)))"
    by (simp_all add: signon_analyze_def split_beta)
  show "sx_secret_present (signon_analyze ev) = of_nat (length (filter (\<lambda>f. is_secret (sf_class f)) (sv_fields ev)))"
    unfolding a scan_projections by simp
  show "sx_fields (signon_analyze ev) =
     sorted_list_of_set (sf_name ` set (filter (\<lambda>f. sf_present f \<or> sf_status f \<noteq> SoUnknown) (sv_fields ev)))"
    unfolding a scan_projections remdups_adj_sort by simp
  have "distinct (snd (snd (snd ?s)))" by (rule scan_distinct) simp
  then show "sx_unknown (signon_analyze ev) =
     sorted_list_of_set (sf_name ` set (filter (\<lambda>f. sf_class f = FcUnknown \<or> sf_status f = SoUnknown) (sv_fields ev)))"
    unfolding a using scan_projections(4) [of "([], 0, [], [])" "sv_fields ev"]
    by (simp add: sorted_of_set)
  show "sx_secret_stored (signon_analyze ev) = 0" by (simp add: signon_analyze_def split_beta)
qed

text \<open>The tables agree: every key the specification names is secret in it, and the evidence is already sanitized.\<close>

lemma tables_agree:
  "list_all (\<lambda>f. is_signon_sensitive_key (sf_name f) \<longrightarrow> is_secret (sf_class f)) (sp_fields get_signon_protocol_spec)"
  "sv_fields (sanitize_evidence canonical_signon_evidence) = sv_fields canonical_signon_evidence"
  "list_all (\<lambda>(k, c). list_ex (\<lambda>f. sf_name f = k \<and> sf_class f = c) canonical_fields) (sv_field_classes canonical_signon_evidence)"
  by code_simp+

end
