(* ===== verification/Protocol_Spec.thy ===== *)
theory Protocol_Spec
  imports State_Trace Message_Registry Json_Value Cbc_Hmac Stream_Framing
begin

text \<open>
  \<open>network/src/protocol_spec.rs\<close>: the protocol specification that is generated from two captures
  and the code's own constants, its safe export and its validation. The encoder of the specification
  (\<open>serde_json::to_string\<close>) and \<open>str::to_lowercase\<close> are arguments of the validation. The theory gives
  the row of a message in closed form, shows that what the builder makes always has the structure
  that the validator asks for, and ties the numbers of the tables to the constants of the code.
\<close>

section \<open>Data\<close>

datatype sp_class = SpConfirmed | SpObserved | SpStructuralHypothesis | SpExternalReference | SpUnknown

fun sp_class_str :: "sp_class \<Rightarrow> string" where
  "sp_class_str SpConfirmed = ''CONFIRMED''"
| "sp_class_str SpObserved = ''OBSERVED''"
| "sp_class_str SpStructuralHypothesis = ''STRUCTURAL_HYPOTHESIS''"
| "sp_class_str SpExternalReference = ''EXTERNAL_REFERENCE''"
| "sp_class_str SpUnknown = ''UNKNOWN''"

datatype impl_status = ImDocumented | ImOfflineImplemented | ImPartiallyUnderstood | ImUnknown

fun impl_status_str :: "impl_status \<Rightarrow> string" where
  "impl_status_str ImDocumented = ''DOCUMENTED''"
| "impl_status_str ImOfflineImplemented = ''OFFLINE_IMPLEMENTED''"
| "impl_status_str ImPartiallyUnderstood = ''PARTIALLY_UNDERSTOOD''"
| "impl_status_str ImUnknown = ''UNKNOWN''"

datatype readiness = RdReadyOffline | RdReadyForLocalTest | RdPartiallyReady | RdBlocked | RdUnknown

fun readiness_str :: "readiness \<Rightarrow> string" where
  "readiness_str RdReadyOffline = ''READY_OFFLINE''"
| "readiness_str RdReadyForLocalTest = ''READY_FOR_LOCAL_TEST''"
| "readiness_str RdPartiallyReady = ''PARTIALLY_READY''"
| "readiness_str RdBlocked = ''BLOCKED''"
| "readiness_str RdUnknown = ''UNKNOWN''"

datatype unknown_priority = UpHigh | UpMedium | UpLow

fun unknown_priority_str :: "unknown_priority \<Rightarrow> string" where
  "unknown_priority_str UpHigh = ''HIGH''"
| "unknown_priority_str UpMedium = ''MEDIUM''"
| "unknown_priority_str UpLow = ''LOW''"

record protocol_evidence =
  pe_source :: string
  pe_capture_id :: "string option"
  pe_message_id :: "string option"
  pe_direction :: "string option"
  pe_context :: "u32 option"
  pe_wire_length :: "nat option"
  pe_payload_length :: "nat option"
  pe_observation :: string
  pe_classification :: sp_class
  pe_confidence :: sp_class

record message_specification =
  mp_message_id :: string
  mp_directions :: "string list"
  mp_contexts :: "u32 list"
  mp_lengths :: "nat list"
  mp_fixed :: bool
  mp_present :: string
  mp_known :: "string list"
  mp_unknown_regions :: "string list"
  mp_positions :: "string list"
  mp_external :: "string option"
  mp_status :: impl_status
  mp_confidence :: sp_class
  mp_understanding :: string
  mp_unknowns :: "string list"

record implementation_readiness =
  ip_component :: string
  ip_evidence :: sp_class
  ip_offline :: impl_status
  ip_readiness :: readiness
  ip_understood :: string
  ip_implementable :: string
  ip_server :: string
  ip_blocked :: "string list"
  ip_unknowns :: "string list"

record unknown_item =
  un_id :: string
  un_description :: string
  un_priority :: unknown_priority
  un_blocks :: string

record framing_spec =
  fs_magic :: string
  fs_kind_encrypted :: u8
  fs_kind_clear :: u8
  fs_body_len_endian :: string
  fs_clear_layout :: string
  fs_encrypted_note :: string
  fs_max_body_len_impl :: nat
  fs_max_body_len_class :: string
  fs_classification :: sp_class

record session_login_spec =
  sl_direction :: string
  sl_kind :: u8
  sl_context :: u32
  sl_payload_len :: nat
  sl_prefix_u16_be :: u16
  sl_record_len_u32_be :: u32
  sl_iv_len :: nat
  sl_ciphertext_len :: nat
  sl_hmac_len :: nat
  sl_cipher :: string
  sl_hmac :: string
  sl_hmac_input :: string
  sl_validated :: string
  sl_nonce_key_layout :: string
  sl_nonce_key_layout_class :: sp_class
  sl_classification :: sp_class

record session_ctx_spec =
  cx_session_key_len :: nat
  cx_session_nonce_len :: nat
  cx_c2s_base :: string
  cx_s2c_base :: string
  cx_counters :: string
  cx_classification :: string

record aes_gcm_spec =
  ag_algorithm :: string
  ag_key :: string
  ag_nonce_len :: nat
  ag_aad_in_verified_captures :: string
  ag_aad_general :: string
  ag_first_frames :: string
  ag_channel_validation :: string
  ag_classification :: sp_class

record nonce_spec =
  nm_model :: string
  nm_classification :: string
  nm_not_universal :: string

record crypto_spec =
  cy_session_login_0x1a :: session_login_spec
  cy_session_crypto_context :: session_ctx_spec
  cy_aes_gcm :: aes_gcm_spec
  cy_nonce_model :: nonce_spec

record machine_summary =
  su_nodes :: "string list"
  su_startup_label :: string
  su_divergence :: "nat option"
  su_cluster :: string
  su_class :: sp_class

record protocol_specification =
  ps_version :: string
  ps_policy :: string
  ps_captures :: "string list"
  ps_framing :: framing_spec
  ps_crypto :: crypto_spec
  ps_startup :: "string list"
  ps_machine :: machine_summary
  ps_messages :: "message_specification list"
  ps_evidence :: "protocol_evidence list"
  ps_readiness :: "implementation_readiness list"
  ps_unknowns :: "unknown_item list"
  ps_note :: string

record safe_protocol_export =
  sv_version :: string
  sv_policy :: string
  sv_captures :: "string list"
  sv_framing :: framing_spec
  sv_crypto :: crypto_spec
  sv_startup :: "string list"
  sv_machine :: machine_summary
  sv_messages :: "message_specification list"
  sv_readiness :: "implementation_readiness list"
  sv_unknowns :: "unknown_item list"
  sv_note :: string
  sv_message_count :: nat

definition SPEC_VERSION :: string where "SPEC_VERSION = ''0.1''"

section \<open>One message\<close>

definition collect_for_id :: "message_observation list \<Rightarrow> u16 \<Rightarrow> message_observation list" where
  "collect_for_id obs i = filter (\<lambda>x. mo_message_id x = i) obs"

definition state_positions_for_id :: "state_machine \<Rightarrow> u16 \<Rightarrow> string list" where
  "state_positions_for_id sm i =
     foldl (\<lambda>s trace. foldl (\<lambda>s e. if tr_message_id e = i
         then bs_insert (tr_from e @ '' '' @ right_arrow @ '' '' @ tr_to e) s else s) s trace) []
       (bt_vals (sm_traces sm))"

definition impl_status_for_id :: "u16 \<Rightarrow> impl_status" where
  "impl_status_for_id i =
     (if i \<in> {0x1A, 0x19, 0x1E, 0x1F} then ImOfflineImplemented
      else if i \<in> {0x79, 0x7A, 0x12E, 0x12F, 0xFA, 0xFB} then ImOfflineImplemented
      else if i \<in> {0x0A, 0x0B, 0x0C, 0x0D} then ImPartiallyUnderstood
      else ImPartiallyUnderstood)"

definition confidence_for_id :: "u16 \<Rightarrow> bool \<Rightarrow> sp_class" where
  "confidence_for_id i both =
     (if both
      then (if i \<in> {0x1A, 0x19, 0x1E, 0x1F, 0x79, 0x7A, 0x12E, 0x12F, 0xFA, 0xFB} then SpObserved
            else SpObserved)
      else SpObserved)"

definition known_fields_for_id :: "u16 \<Rightarrow> string list" where
  "known_fields_for_id i =
     (if i = 0x1A then
        [''u16 BE prefix=200 (OBSERVED)'', ''u32 BE record_len=80 (OBSERVED)'',
         ''IV[16] || ciphertext[32] || HMAC[32] (OBSERVED)'']
      else if i \<in> {0x1E, 0x1F} then [''clear body layout via framing (OBSERVED)'']
      else [])"

definition message_spec ::
  "u16 \<Rightarrow> message_observation list \<Rightarrow> message_observation list \<Rightarrow> state_machine \<Rightarrow> message_specification" where
  "message_spec i all_a all_b sm =
     (let oa = collect_for_id all_a i;
          ob = collect_for_id all_b i;
          both = oa \<noteq> [] \<and> ob \<noteq> [];
          a_only = oa \<noteq> [] \<and> ob = [];
          b_only = oa = [] \<and> ob \<noteq> [];
          present = (if both then ''both'' else if a_only then ''A_only'' else if b_only then ''B_only'' else ''absent'');
          sets = foldl (\<lambda>(dirs, ctxs, lens) x.
                     (bs_insert (mo_direction x) dirs, bs_insert (mo_context x) ctxs, bs_insert (mo_payload_len x) lens))
                   ([], [], []) (oa @ ob);
          dirs = fst sets; ctxs = fst (snd sets); lens = snd (snd sets);
          fixed = length lens \<le> 1;
          positions = state_positions_for_id sm i;
          understanding =
            (if i = 0x1A then
               ''structure + CBC/HMAC offline validated; nonce/key split STRUCTURAL_HYPOTHESIS''
             else if i \<in> {0x79, 0x7A, 0x12E, 0x12F, 0xFA, 0xFB} then
               ''encrypted/clear observed; GCM path offline for encrypted after session''
             else if \<exists>p\<in>set positions. str_contains STATE_STARTUP_SEQUENCE p then
               ''startup sequence member; payload fields largely UNKNOWN''
             else ''lengths/directions OBSERVED; payload semantics UNKNOWN'');
          unknowns = [''exact payload field semantics'']
                     @ (if \<not> fixed then [''variable length structure''] else [])
      in \<lparr>mp_message_id = fmt_msg_id i, mp_directions = dirs, mp_contexts = ctxs, mp_lengths = lens,
          mp_fixed = fixed, mp_present = present, mp_known = known_fields_for_id i,
          mp_unknown_regions = (if known_fields_for_id i = [] then [''entire payload'']
                                else [''unparsed residual / semantic meaning'']),
          mp_positions = positions, mp_external = lookup_name i, mp_status = impl_status_for_id i,
          mp_confidence = confidence_for_id i both, mp_understanding = understanding,
          mp_unknowns = unknowns\<rparr>)"

section \<open>The tables\<close>

text \<open>The dash U+2013 of \<open>readiness_table\<close>, three bytes in UTF-8.\<close>

definition en_dash :: string where
  "en_dash = [CHR 0xE2, CHR 0x80, CHR 0x93]"

definition readiness_table :: "implementation_readiness list" where
  "readiness_table =
     [\<lparr>ip_component = ''BAP framing'', ip_evidence = SpConfirmed, ip_offline =
       ImOfflineImplemented, ip_readiness = RdReadyOffline, ip_understood = ''HIGH'', ip_implementable =
       ''YES'', ip_server = ''NOT YET VERIFIED'', ip_blocked = [], ip_unknowns =
       [''kinds beyond 1/2'']\<rparr>,
      \<lparr>ip_component = ''clear messages'', ip_evidence = SpObserved, ip_offline =
       ImOfflineImplemented, ip_readiness = RdReadyOffline, ip_understood = ''MEDIUM'', ip_implementable
       = ''YES'', ip_server = ''NOT YET VERIFIED'', ip_blocked = [''payload schemas''], ip_unknowns =
       [''most clear payload fields'']\<rparr>,
      \<lparr>ip_component = ''session-login crypto'', ip_evidence = SpConfirmed, ip_offline =
       ImOfflineImplemented, ip_readiness = RdReadyOffline, ip_understood =
       ''HIGH (capture-validated)'', ip_implementable = ''YES'', ip_server = ''NOT YET VERIFIED'',
       ip_blocked = [''SignOn key acquisition in-repo''], ip_unknowns =
       [''nonce/key layout semantic confirmation'']\<rparr>,
      \<lparr>ip_component = ''GCM channel'', ip_evidence = SpConfirmed, ip_offline =
       ImOfflineImplemented, ip_readiness = RdReadyOffline, ip_understood = ''HIGH'', ip_implementable =
       ''YES'', ip_server = ''NOT YET VERIFIED'', ip_blocked = [], ip_unknowns =
       [''AAD beyond verified empty'']\<rparr>,
      \<lparr>ip_component = ''nonce handling'', ip_evidence = SpConfirmed, ip_offline =
       ImOfflineImplemented, ip_readiness = RdReadyOffline, ip_understood =
       ''HIGH for verified captures'', ip_implementable = ''YES'', ip_server = ''NOT YET VERIFIED'',
       ip_blocked = [], ip_unknowns = [''rekey / other platforms'']\<rparr>,
      \<lparr>ip_component = ''stream decoder'', ip_evidence = SpConfirmed, ip_offline =
       ImOfflineImplemented, ip_readiness = RdReadyOffline, ip_understood = ''HIGH'', ip_implementable =
       ''YES'', ip_server = ''N/A (local)'', ip_blocked = [], ip_unknowns =
       [''MAX_BODY_LEN is IMPLEMENTATION_LIMIT'']\<rparr>,
      \<lparr>ip_component = ''TCP byte source'', ip_evidence = SpObserved, ip_offline =
       ImOfflineImplemented, ip_readiness = RdReadyForLocalTest, ip_understood = ''MEDIUM'',
       ip_implementable = ''YES (local loopback)'', ip_server =
       ''NOT IMPLEMENTED (no Bungie endpoint)'', ip_blocked = [''no write path'',
       ''no live endpoints''], ip_unknowns = [''production TCP endpoint/port'']\<rparr>,
      \<lparr>ip_component = ''startup state machine'', ip_evidence = SpObserved, ip_offline =
       ImOfflineImplemented, ip_readiness = RdReadyOffline, ip_understood = ''MEDIUM'', ip_implementable
       = ''YES'', ip_server = ''NOT YET VERIFIED'', ip_blocked = [], ip_unknowns =
       [''semantic names for states'']\<rparr>,
      \<lparr>ip_component = ''message dispatch'', ip_evidence = SpObserved, ip_offline =
       ImPartiallyUnderstood, ip_readiness = RdPartiallyReady, ip_understood = ''LOW'' @ en_dash @
       ''MEDIUM'', ip_implementable = ''PARTIAL'', ip_server = ''NO'', ip_blocked =
       [''payload semantics''], ip_unknowns = [''handlers for post-startup IDs'']\<rparr>,
      \<lparr>ip_component = ''SignOn'', ip_evidence = SpExternalReference, ip_offline = ImDocumented,
       ip_readiness = RdBlocked, ip_understood = ''DOCUMENTED'', ip_implementable =
       ''NO (client not implemented)'', ip_server = ''NOT IMPLEMENTED'', ip_blocked =
       [''production SignOn client''], ip_unknowns = [''token formats beyond docs'']\<rparr>,
      \<lparr>ip_component = ''authentication'', ip_evidence = SpUnknown, ip_offline = ImUnknown,
       ip_readiness = RdBlocked, ip_understood = ''LOW'', ip_implementable = ''NO'', ip_server = ''NO'',
       ip_blocked = [''SignOn'', ''account services''], ip_unknowns = [''auth flow semantics'']\<rparr>,
      \<lparr>ip_component = ''UDP'', ip_evidence = SpUnknown, ip_offline = ImUnknown, ip_readiness =
       RdBlocked, ip_understood = ''LOW'', ip_implementable = ''NO'', ip_server = ''NO'', ip_blocked =
       [''no UDP evidence pipeline''], ip_unknowns = [''gameplay transport'']\<rparr>,
      \<lparr>ip_component = ''gameplay'', ip_evidence = SpUnknown, ip_offline = ImUnknown, ip_readiness
       = RdBlocked, ip_understood = ''LOW'', ip_implementable = ''NO'', ip_server = ''NO'', ip_blocked =
       [''UDP'', ''world state''], ip_unknowns = [''activity/world messages'']\<rparr>]"

definition unknown_registry :: "unknown_item list" where
  "unknown_registry =
     [\<lparr>un_id = ''UNK-UDP'', un_description = ''UDP/gameplay transport mechanics'', un_priority =
       UpHigh, un_blocks = ''gameplay / multiplayer''\<rparr>,
      \<lparr>un_id = ''UNK-PAYLOAD'', un_description =
       ''Payload field semantics for critical post-session messages'', un_priority = UpHigh, un_blocks =
       ''message dispatch / local server responses''\<rparr>,
      \<lparr>un_id = ''UNK-SERVER-STATE'', un_description =
       ''Server-side state expectations after startup'', un_priority = UpHigh, un_blocks =
       ''interoperable local server''\<rparr>,
      \<lparr>un_id = ''UNK-CONTEXT'', un_description = ''Meaning of BAP context u32'', un_priority =
       UpMedium, un_blocks = ''correct request correlation''\<rparr>,
      \<lparr>un_id = ''UNK-KEEPALIVE-MS'', un_description =
       ''Keepalive wall-clock period (frame_order only today)'', un_priority = UpMedium, un_blocks =
       ''timing-accurate keepalive emulation''\<rparr>,
      \<lparr>un_id = ''UNK-AAD'', un_description = ''AAD behavior beyond empty-in-verified-captures'',
       un_priority = UpMedium, un_blocks = ''general GCM claims''\<rparr>,
      \<lparr>un_id = ''UNK-VARIABLE'', un_description =
       ''Variable-length payload structures (e.g. 0x7B, 0xAB)'', un_priority = UpMedium, un_blocks =
       ''full payload parsers''\<rparr>,
      \<lparr>un_id = ''UNK-CAPTURE-SPECIFIC'', un_description =
       ''Capture-specific IDs (0x10/0x11/0x2A/0x2B) roles'', un_priority = UpLow, un_blocks =
       ''complete message coverage''\<rparr>,
      \<lparr>un_id = ''UNK-PLATFORM'', un_description = ''PS4/Xbox/PC protocol equivalence'',
       un_priority = UpHigh, un_blocks = ''cross-platform claims''\<rparr>,
      \<lparr>un_id = ''UNK-REKEY'', un_description = ''AES-GCM rekey / resync rules'', un_priority =
       UpMedium, un_blocks = ''long-lived sessions''\<rparr>]"

definition evidence_samples_of :: "string \<Rightarrow> protocol_evidence list" where
  "evidence_samples_of key =
     [\<lparr>pe_source = ''framing-bap.md / stream_framing.rs'', pe_capture_id = None, pe_message_id =
       None, pe_direction = None, pe_context = None, pe_wire_length = None, pe_payload_length = None,
       pe_observation = ''BAP [0x01][kind][body_len BE][body]'', pe_classification = SpConfirmed,
       pe_confidence = SpConfirmed\<rparr>,
      \<lparr>pe_source = ''session-login-response.md'', pe_capture_id = Some ''20260529-003132'',
       pe_message_id = Some ''0x1A'', pe_direction = Some ''server_to_client'', pe_context = Some 1,
       pe_wire_length = None, pe_payload_length = Some 86, pe_observation =
       ''CBC+HMAC validate; plaintext 28 unpadded'', pe_classification = SpConfirmed, pe_confidence =
       SpConfirmed\<rparr>,
      \<lparr>pe_source = ''gcm-channel-validation.md / multi-capture'', pe_capture_id = Some
       ''20260529-003132+20260608-231100'', pe_message_id = None, pe_direction = None, pe_context =
       None, pe_wire_length = None, pe_payload_length = None, pe_observation =
       ''124/124 and 122/122 encrypted decrypt VERIFIED cross-capture'', pe_classification =
       SpConfirmed, pe_confidence = SpConfirmed\<rparr>,
      \<lparr>pe_source = ''state-machine.md'', pe_capture_id = None, pe_message_id = None, pe_direction
       = None, pe_context = None, pe_wire_length = None, pe_payload_length = None, pe_observation =
       ''startup '' @ key @ '' OBSERVED both captures'', pe_classification = SpObserved, pe_confidence =
       SpObserved\<rparr>]"

definition framing_table :: framing_spec where
  "framing_table =
     \<lparr>fs_magic = ''0x01'', fs_kind_encrypted = 1, fs_kind_clear = 2, fs_body_len_endian =
      ''big-endian u32'', fs_clear_layout = ''[msg_id:u16 BE][context:u32 BE][payload...]'',
      fs_encrypted_note =
      ''kind=1 body opaque on wire; offline decrypt via SessionCryptoContext+AES-GCM after session material available'',
      fs_max_body_len_impl = MAX_BODY_LEN, fs_max_body_len_class = ''IMPLEMENTATION_LIMIT'',
      fs_classification = SpConfirmed\<rparr>"

definition crypto_table :: crypto_spec where
  "crypto_table =
     \<lparr>cy_session_login_0x1a = \<lparr>sl_direction = ''S2C'', sl_kind = 2, sl_context = 1,
      sl_payload_len = 86, sl_prefix_u16_be = 200, sl_record_len_u32_be = 80, sl_iv_len = 16,
      sl_ciphertext_len = 32, sl_hmac_len = 32, sl_cipher = ''AES-CBC PKCS#7'', sl_hmac =
      ''HMAC-SHA256'', sl_hmac_input = ''u32_be(record_len)||IV||ciphertext'', sl_validated =
      ''HMAC valid; AES-CBC decrypt ok; padding ok; plaintext 32; unpadded 28'', sl_nonce_key_layout =
      ''nonce[12]||session_key[16] candidate split'', sl_nonce_key_layout_class =
      SpStructuralHypothesis, sl_classification = SpConfirmed\<rparr>, cy_session_crypto_context =
      \<lparr>cx_session_key_len = 16, cx_session_nonce_len = 12, cx_c2s_base =
      ''session_nonce with last byte XOR 1'', cx_s2c_base = ''session_nonce identity'', cx_counters =
      ''independent C2S and S2C counters; first=base then increment'', cx_classification =
      ''CONFIRMED_FOR_VERIFIED_CAPTURES''\<rparr>, cy_aes_gcm = \<lparr>ag_algorithm = ''AES-128-GCM'',
      ag_key = ''session key'', ag_nonce_len = 12, ag_aad_in_verified_captures = ''empty'',
      ag_aad_general =
      ''AAD was empty in all currently verified frames. General AAD behavior remains UNKNOWN.'',
      ag_first_frames = ''0x79 body_len=22 (tag16+ct6); 0x7A body_len=24 (tag16+ct8)'',
      ag_channel_validation = ''8-frame startup GCM ok; full sessions 124/124 and 122/122 VERIFIED'',
      ag_classification = SpConfirmed\<rparr>, cy_nonce_model = \<lparr>nm_model =
      ''per-direction base + independent counters'', nm_classification =
      ''CONFIRMED_FOR_VERIFIED_CAPTURES'', nm_not_universal =
      ''Not elevated to UNIVERSAL_PROTOCOL_RULE (platforms/rekey UNKNOWN)''\<rparr>\<rparr>"

definition POLICY_TEXT :: string where
  "POLICY_TEXT =
     ''v0.1 engineering spec from observed evidence; not an official Bungie specification.''
     @ '' CONFIRMED/OBSERVED only for validated facts; STRUCTURAL_HYPOTHESIS and EXTERNAL_REFERENCE kept separate;''
     @ '' UNKNOWN remains UNKNOWN.''"

definition REFERENCE_NOTE :: string where
  "REFERENCE_NOTE =
     ''Names from messages.rs / message-matrix.md / d1-re docs are EXTERNAL_REFERENCE only.''"

section \<open>The specification\<close>

definition build_protocol_spec :: "bool \<Rightarrow> capture_inventory \<Rightarrow> capture_inventory \<Rightarrow> protocol_specification" where
  "build_protocol_spec approx a b =
     (let sm = build_state_machine approx a b;
          oa = ordered_observations a;
          ob = ordered_observations b
      in \<lparr>ps_version = SPEC_VERSION, ps_policy = POLICY_TEXT, ps_captures = [ci_capture_id a, ci_capture_id b],
          ps_framing = framing_table, ps_crypto = crypto_table, ps_startup = map fmt_msg_id STABLE_STARTUP_SEQUENCE,
          ps_machine = \<lparr>su_nodes = sm_nodes sm, su_startup_label = se_label (sm_startup sm),
            su_divergence = be_index (sm_branches sm), su_cluster = ce_state_id (sm_cluster sm),
            su_class = SpObserved\<rparr>,
          ps_messages = map (\<lambda>i. message_spec i oa ob sm) EXPECTED_MESSAGE_IDS,
          ps_evidence = evidence_samples_of (se_key (sm_startup sm)),
          ps_readiness = readiness_table, ps_unknowns = unknown_registry, ps_note = REFERENCE_NOTE\<rparr>)"

definition spec_safe_export :: "protocol_specification \<Rightarrow> safe_protocol_export" where
  "spec_safe_export spec =
     \<lparr>sv_version = ps_version spec, sv_policy = ps_policy spec, sv_captures = ps_captures spec,
      sv_framing = ps_framing spec, sv_crypto = ps_crypto spec, sv_startup = ps_startup spec,
      sv_machine = ps_machine spec, sv_messages = ps_messages spec, sv_readiness = ps_readiness spec,
      sv_unknowns = ps_unknowns spec, sv_note = ps_note spec, sv_message_count = length (ps_messages spec)\<rparr>"

section \<open>Validation\<close>

definition SECRET_NEEDLES :: "string list" where
  "SECRET_NEEDLES = [''session_key_hex'', ''mac_key'', ''signon_token'', ''password'']"

definition find_secret :: "string \<Rightarrow> string option" where
  "find_secret text = List.find (\<lambda>needle. str_contains needle text) SECRET_NEEDLES"

definition validate_spec ::
  "(protocol_specification \<Rightarrow> string + string) \<Rightarrow> (string \<Rightarrow> string) \<Rightarrow> protocol_specification \<Rightarrow> string + unit" where
  "validate_spec encode lower spec =
     (if ps_version spec \<noteq> SPEC_VERSION then Inl (''version mismatch '' @ ps_version spec)
      else if length (ps_captures spec) \<noteq> 2 then Inl ''expected 2 captures''
      else if length (ps_messages spec) \<noteq> length EXPECTED_MESSAGE_IDS then
        Inl (''expected '' @ show_nat (length EXPECTED_MESSAGE_IDS) @ '' messages, got ''
             @ show_nat (length (ps_messages spec)))
      else (let ids = foldl (\<lambda>s m. bs_insert (mp_message_id m) s) [] (ps_messages spec)
            in case List.find (\<lambda>i. fmt_msg_id i \<notin> set ids) EXPECTED_MESSAGE_IDS of
                 Some i \<Rightarrow> Inl (''missing message '' @ fmt_msg_id i)
               | None \<Rightarrow>
                   if length (ps_startup spec) \<noteq> length STABLE_STARTUP_SEQUENCE then Inl ''startup sequence length''
                   else if \<exists>k\<in>set [0..<length STABLE_STARTUP_SEQUENCE].
                             ps_startup spec ! k \<noteq> fmt_msg_id (STABLE_STARTUP_SEQUENCE ! k)
                     then Inl ''startup sequence mismatch''
                   else if str_contains ''always empty'' (ag_aad_general (cy_aes_gcm (ps_crypto spec)))
                     then Inl ''AAD must not claim always empty''
                   else if \<not> str_contains ''UNKNOWN'' (ag_aad_general (cy_aes_gcm (ps_crypto spec)))
                     then Inl ''AAD general must remain UNKNOWN''
                   else if sl_nonce_key_layout_class (cy_session_login_0x1a (ps_crypto spec)) \<noteq> SpStructuralHypothesis
                     then Inl ''0x1A nonce/key layout must stay STRUCTURAL_HYPOTHESIS''
                   else if ps_unknowns spec = [] then Inl ''unknown registry empty''
                   else if ps_readiness spec = [] then Inl ''readiness empty''
                   else bind_res (encode spec) (\<lambda>blob.
                          case find_secret (lower blob) of
                            Some needle \<Rightarrow> Inl (''possible secret field '' @ needle)
                          | None \<Rightarrow> Inr ())))"

section \<open>The row of a message\<close>

text \<open>What a capture says of an id, over the set of its observations.\<close>

definition seen_as :: "(message_observation \<Rightarrow> 'k::linorder) \<Rightarrow> u16 \<Rightarrow> message_observation list \<Rightarrow> 'k list" where
  "seen_as f i obs = sorted_list_of_set (f ` {x \<in> set obs. mo_message_id x = i})"

definition presence_of :: "bool \<Rightarrow> bool \<Rightarrow> string" where
  "presence_of in_a in_b =
     (if in_a \<and> in_b then ''both'' else if in_a then ''A_only'' else if in_b then ''B_only'' else ''absent'')"

lemma collect_three_sets:
  assumes "finite A" "finite B" "finite C"
  shows "foldl (\<lambda>(dirs, ctxs, lens) x. (bs_insert (f x) dirs, bs_insert (g x) ctxs, bs_insert (h x) lens))
           (sorted_list_of_set A, sorted_list_of_set B, sorted_list_of_set C) xs
         = (sorted_list_of_set (A \<union> f ` set xs), sorted_list_of_set (B \<union> g ` set xs), sorted_list_of_set (C \<union> h ` set xs))"
  using assms
proof (induction xs arbitrary: A B C)
  case (Cons x xs)
  then show ?case using Cons.IH [of "insert (f x) A" "insert (g x) B" "insert (h x) C"]
    by (simp add: bs_insert_set del: sorted_list_of_set_insert_remove)
qed simp

lemma presence_cases:
  "(if p \<and> q then x else if p \<and> \<not> q then y else if \<not> p \<and> q then z else w)
     = (if p \<and> q then x else if p then y else if q then z else w)"
  by (cases p; cases q) simp_all

lemma message_spec_observed:
  "mp_message_id (message_spec i oa ob sm) = fmt_msg_id i"
  "mp_directions (message_spec i oa ob sm) = seen_as mo_direction i (oa @ ob)"
  "mp_contexts (message_spec i oa ob sm) = seen_as mo_context i (oa @ ob)"
  "mp_lengths (message_spec i oa ob sm) = seen_as mo_payload_len i (oa @ ob)"
  "mp_present (message_spec i oa ob sm) = presence_of (i \<in> ids_in oa) (i \<in> ids_in ob)"
  "mp_fixed (message_spec i oa ob sm) \<longleftrightarrow> card (mo_payload_len ` {x \<in> set (oa @ ob). mo_message_id x = i}) \<le> 1"
proof -
  have sets: "foldl (\<lambda>(dirs, ctxs, lens) x.
        (bs_insert (mo_direction x) dirs, bs_insert (mo_context x) ctxs, bs_insert (mo_payload_len x) lens))
      ([], [], []) (collect_for_id oa i @ collect_for_id ob i)
      = (seen_as mo_direction i (oa @ ob), seen_as mo_context i (oa @ ob), seen_as mo_payload_len i (oa @ ob))"
    using collect_three_sets [of "{}" "{}" "{}" mo_direction mo_context mo_payload_len
        "collect_for_id oa i @ collect_for_id ob i"]
    by (simp add: collect_for_id_def seen_as_def Collect_disj_eq conj_disj_distribR image_Un)
  have none: "collect_for_id xs i = [] \<longleftrightarrow> i \<notin> ids_in xs" for xs
    by (auto simp: collect_for_id_def filter_empty_conv ids_in_def)
  note field = message_specification.select_convs
  show "mp_message_id (message_spec i oa ob sm) = fmt_msg_id i"
    unfolding message_spec_def Let_def field ..
  show "mp_directions (message_spec i oa ob sm) = seen_as mo_direction i (oa @ ob)"
    unfolding message_spec_def Let_def field sets fst_conv ..
  show "mp_contexts (message_spec i oa ob sm) = seen_as mo_context i (oa @ ob)"
    unfolding message_spec_def Let_def field sets fst_conv snd_conv ..
  show "mp_lengths (message_spec i oa ob sm) = seen_as mo_payload_len i (oa @ ob)"
    unfolding message_spec_def Let_def field sets snd_conv ..
  show "mp_present (message_spec i oa ob sm) = presence_of (i \<in> ids_in oa) (i \<in> ids_in ob)"
    unfolding message_spec_def Let_def field none presence_of_def not_not by (rule presence_cases)
  show "mp_fixed (message_spec i oa ob sm) \<longleftrightarrow> card (mo_payload_len ` {x \<in> set (oa @ ob). mo_message_id x = i}) \<le> 1"
    unfolding message_spec_def Let_def field sets snd_conv seen_as_def length_sorted_list_of_set ..
qed

text \<open>The positions are the steps of the traces that the id labels.\<close>

lemma positions_inner:
  assumes "finite A"
  shows "foldl (\<lambda>s e. if P e then bs_insert (f e) s else s) (sorted_list_of_set A) xs
         = sorted_list_of_set (A \<union> f ` {e \<in> set xs. P e})"
  using assms
proof (induction xs arbitrary: A)
  case (Cons x xs)
  have "{e. (e = x \<or> e \<in> set xs) \<and> P e} = (if P x then insert x {e \<in> set xs. P e} else {e \<in> set xs. P e})"
    by auto
  then show ?case using Cons.IH [of "insert (f x) A"] Cons.IH [of A] Cons.prems
    by (simp add: bs_insert_set del: sorted_list_of_set_insert_remove)
qed simp

lemma positions_exact:
  "state_positions_for_id sm i =
     sorted_list_of_set ((\<lambda>e. tr_from e @ '' '' @ right_arrow @ '' '' @ tr_to e) `
       {e \<in> \<Union> (set ` set (bt_vals (sm_traces sm))). tr_message_id e = i})"
proof -
  let ?f = "\<lambda>e. tr_from e @ '' '' @ right_arrow @ '' '' @ tr_to e"
  have "foldl (\<lambda>s trace. foldl (\<lambda>s e. if tr_message_id e = i then bs_insert (?f e) s else s) s trace)
          (sorted_list_of_set A) ts
        = sorted_list_of_set (A \<union> ?f ` {e \<in> \<Union> (set ` set ts). tr_message_id e = i})" if "finite A" for A ts
    using that
  proof (induction ts arbitrary: A)
    case (Cons t ts)
    have "{e. (e \<in> set t \<or> (\<exists>x\<in>set ts. e \<in> set x)) \<and> tr_message_id e = i}
        = {e \<in> set t. tr_message_id e = i} \<union> {e \<in> \<Union> (set ` set ts). tr_message_id e = i}" by auto
    then show ?case using Cons by (simp add: positions_inner image_Un Un_assoc)
  qed simp
  from this [of "{}" "bt_vals (sm_traces sm)"] show ?thesis by (simp add: state_positions_for_id_def)
qed

section \<open>The tables and the code\<close>

text \<open>
  The numbers in the tables are the constants that the codecs and the session code use, and the
  lengths of the login record add up.
\<close>

lemma tables_agree_with_code:
  "fs_kind_encrypted framing_table = KIND_ENCRYPTED"
  "fs_kind_clear framing_table = KIND_CLEAR"
  "fs_max_body_len_impl framing_table = MAX_BODY_LEN"
  "cx_session_key_len (cy_session_crypto_context crypto_table) = SESSION_KEY_LEN"
  "cx_session_nonce_len (cy_session_crypto_context crypto_table) = SESSION_NONCE_LEN"
  "ag_nonce_len (cy_aes_gcm crypto_table) = GCM_NONCE_LEN"
  "sl_iv_len (cy_session_login_0x1a crypto_table) = IV_LEN"
  "sl_kind (cy_session_login_0x1a crypto_table) = KIND_CLEAR"
  "unat (sl_record_len_u32_be (cy_session_login_0x1a crypto_table))
     = sl_iv_len (cy_session_login_0x1a crypto_table) + sl_ciphertext_len (cy_session_login_0x1a crypto_table)
       + sl_hmac_len (cy_session_login_0x1a crypto_table)"
  "sl_payload_len (cy_session_login_0x1a crypto_table)
     = 2 + 4 + unat (sl_record_len_u32_be (cy_session_login_0x1a crypto_table))"
  by (simp_all add: framing_table_def crypto_table_def KIND_ENCRYPTED_def KIND_CLEAR_def MAX_BODY_LEN_def
      SESSION_KEY_LEN_def SESSION_NONCE_LEN_def GCM_NONCE_LEN_def IV_LEN_def)

lemma readiness_ready_backed:
  "\<forall>r \<in> set readiness_table. ip_readiness r = RdReadyOffline \<longrightarrow>
      ip_offline r = ImOfflineImplemented \<and> ip_evidence r \<in> {SpConfirmed, SpObserved} \<and> ip_implementable r = ''YES''"
  by (simp add: readiness_table_def)

section \<open>Validation of what is built\<close>

lemma aad_text: "\<not> str_contains ''always empty'' (ag_aad_general (cy_aes_gcm crypto_table))"
    "str_contains ''UNKNOWN'' (ag_aad_general (cy_aes_gcm crypto_table))"
  by code_simp+

lemma built_fields:
  "ps_version (build_protocol_spec approx a b) = SPEC_VERSION"
  "ps_captures (build_protocol_spec approx a b) = [ci_capture_id a, ci_capture_id b]"
  "ps_crypto (build_protocol_spec approx a b) = crypto_table"
  "ps_startup (build_protocol_spec approx a b) = map fmt_msg_id STABLE_STARTUP_SEQUENCE"
  "ps_messages (build_protocol_spec approx a b) =
     map (\<lambda>i. message_spec i (ordered_observations a) (ordered_observations b) (build_state_machine approx a b))
       EXPECTED_MESSAGE_IDS"
  "ps_unknowns (build_protocol_spec approx a b) = unknown_registry"
  "ps_readiness (build_protocol_spec approx a b) = readiness_table"
  by (simp_all add: build_protocol_spec_def Let_def)

lemma built_ids: "set (foldl (\<lambda>s m. bs_insert (mp_message_id m) s) [] (ps_messages (build_protocol_spec approx a b)))
    = fmt_msg_id ` set EXPECTED_MESSAGE_IDS"
  using bs_insert_fold [of "{}" mp_message_id "ps_messages (build_protocol_spec approx a b)"]
  by (simp add: built_fields message_spec_observed image_image)

lemma validate_built:
  "validate_spec encode lower (build_protocol_spec approx a b) =
     bind_res (encode (build_protocol_spec approx a b)) (\<lambda>blob.
       case find_secret (lower blob) of Some needle \<Rightarrow> Inl (''possible secret field '' @ needle) | None \<Rightarrow> Inr ())"
proof -
  have ids: "List.find (\<lambda>i. fmt_msg_id i \<notin> fmt_msg_id ` set EXPECTED_MESSAGE_IDS) EXPECTED_MESSAGE_IDS = None"
    by (simp add: find_None_iff)
  have layout: "sl_nonce_key_layout_class (cy_session_login_0x1a crypto_table) = SpStructuralHypothesis"
    by (simp add: crypto_table_def)
  have tables: "unknown_registry \<noteq> []" "readiness_table \<noteq> []"
    by (simp_all add: unknown_registry_def readiness_table_def)
  show ?thesis
    unfolding validate_spec_def built_ids Let_def ids
    by (simp add: built_fields aad_text layout tables)
qed

text \<open>
  C37. The specification that is built from two captures says what the captures contain and passes
  its own validation. For every list of observations and every outcome of the periodicity test, the
  rows are the expected ids in their order, each with the set of directions, contexts and payload
  lengths of the observations of either capture in ascending order, marked fixed exactly when one
  length at most was seen, and with the presence of the id in the two captures; the validator then
  reports nothing but a failing encoder or a secret's name in the encoded text.
\<close>

theorem protocol_spec_exact:
  "\<exists>A B. from_observations ca xs = Some A \<and> from_observations cb ys = Some B
     \<and> (let s = build_protocol_spec approx A B in
          ps_captures s = [ca, cb]
          \<and> map mp_message_id (ps_messages s) = map fmt_msg_id EXPECTED_MESSAGE_IDS
          \<and> map mp_directions (ps_messages s) = map (\<lambda>i. seen_as mo_direction i (xs @ ys)) EXPECTED_MESSAGE_IDS
          \<and> map mp_contexts (ps_messages s) = map (\<lambda>i. seen_as mo_context i (xs @ ys)) EXPECTED_MESSAGE_IDS
          \<and> map mp_lengths (ps_messages s) = map (\<lambda>i. seen_as mo_payload_len i (xs @ ys)) EXPECTED_MESSAGE_IDS
          \<and> map mp_fixed (ps_messages s)
             = map (\<lambda>i. card (mo_payload_len ` {x \<in> set (xs @ ys). mo_message_id x = i}) \<le> 1) EXPECTED_MESSAGE_IDS
          \<and> map mp_present (ps_messages s) = map (\<lambda>i. presence_of (i \<in> ids_in xs) (i \<in> ids_in ys)) EXPECTED_MESSAGE_IDS
          \<and> validate_spec encode lower s
             = bind_res (encode s) (\<lambda>blob. case find_secret (lower blob) of
                 Some needle \<Rightarrow> Inl (''possible secret field '' @ needle) | None \<Rightarrow> Inr ()))"
proof -
  obtain A where A: "from_observations ca xs = Some A"
    by (rule from_observations_exact [of ca xs], rule that)
  obtain B where B: "from_observations cb ys = Some B"
    by (rule from_observations_exact [of cb ys], rule that)
  have m: "mset (ordered_observations A) = mset xs" "mset (ordered_observations B) = mset ys"
    using ordered_observations_eq(1) A B by blast+
  then have s: "set (ordered_observations A) = set xs" "set (ordered_observations B) = set ys"
    by (auto dest: mset_eq_setD)
  have ids: "ci_capture_id A = ca" "ci_capture_id B = cb"
    using from_observations_fields(8) A B by blast+
  show ?thesis
    using A B by (intro exI [where x = A] exI [where x = B])
      (simp add: Let_def validate_built built_fields message_spec_observed seen_as_def s ids comp_def ids_in_def)
qed


end
