(* ===== verification/Float_Ops.thy ===== *)
theory Float_Ops
  imports Prelude
begin

text \<open>
  Floating point numbers: an arbitrary type with the operations of \<open>f64\<close> that the code uses, as a
  record that the definitions take as an argument, and an instance in fixed point for concrete
  inputs. No theorem assumes anything of the operations.
\<close>

text \<open>
  \<open>fl_of_nat\<close> is \<open>as f64\<close> of an unsigned integer, \<open>fl_lit m k\<close> the literal \<open>m \<sqdot> 10^-k\<close>,
  \<open>fl_total_le\<close> the order of \<open>total_cmp\<close>, \<open>fl_sum_start\<close> the start value of \<open>Iterator::sum\<close> and
  \<open>fl_show6\<close> the format \<open>{:.6}\<close>.
\<close>

record 'f float_ops =
  fl_of_nat :: "nat \<Rightarrow> 'f"
  fl_lit :: "nat \<Rightarrow> nat \<Rightarrow> 'f"
  fl_add :: "'f \<Rightarrow> 'f \<Rightarrow> 'f"
  fl_sub :: "'f \<Rightarrow> 'f \<Rightarrow> 'f"
  fl_mul :: "'f \<Rightarrow> 'f \<Rightarrow> 'f"
  fl_div :: "'f \<Rightarrow> 'f \<Rightarrow> 'f"
  fl_abs :: "'f \<Rightarrow> 'f"
  fl_log2 :: "'f \<Rightarrow> 'f"
  fl_min :: "'f \<Rightarrow> 'f \<Rightarrow> 'f"
  fl_max :: "'f \<Rightarrow> 'f \<Rightarrow> 'f"
  fl_less :: "'f \<Rightarrow> 'f \<Rightarrow> bool"
  fl_le :: "'f \<Rightarrow> 'f \<Rightarrow> bool"
  fl_total_le :: "'f \<Rightarrow> 'f \<Rightarrow> bool"
  fl_infinity :: 'f
  fl_neg_infinity :: 'f
  fl_is_finite :: "'f \<Rightarrow> bool"
  fl_sum_start :: 'f
  fl_show6 :: "'f \<Rightarrow> string"

text \<open>An instance of the operations in fixed point, six decimal places, for concrete files.\<close>

definition fixed_point :: "int float_ops" where
  "fixed_point =
     \<lparr>fl_of_nat = (\<lambda>n. int n * 1000000), fl_lit = (\<lambda>m k. int m * 1000000 div 10 ^ k), fl_add = (+), fl_sub = (-),
      fl_mul = (\<lambda>a b. a * b div 1000000), fl_div = (\<lambda>a b. a * 1000000 div b), fl_abs = abs, fl_log2 = id,
      fl_min = min, fl_max = max, fl_less = (<), fl_le = (\<le>), fl_total_le = (\<le>),
      fl_infinity = 10 ^ 30, fl_neg_infinity = - (10 ^ 30), fl_is_finite = (\<lambda>a. \<bar>a\<bar> < 10 ^ 30), fl_sum_start = 0,
      fl_show6 = (\<lambda>a. show_nat (nat a))\<rparr>"

end
