(* ===== verification/Udp_Evidence.thy ===== *)
theory Udp_Evidence
  imports Ordered_Map Float_Ops
begin

text \<open>
  \<open>network/src/udp_evidence.rs\<close>: datagram records, payload fingerprints and the reader of classic
  pcap files. Floating point numbers are an arbitrary type with the operations of \<open>f64\<close> that the
  code uses, as a record \<open>float_ops\<close>, and SHA-256 is a function argument: nothing that is proved
  depends on them. The theory shows that the reader gives back exactly the datagrams that a
  well-formed file holds, in both byte orders.
\<close>

section \<open>Data\<close>

datatype udp_class =
  UdObserved | UdStructuralHypothesis | UdStructuralObservation | UdExternalReference
  | UdTemporalCorrelationCandidate | UdPossibleSequenceCandidate | UdUnknown | UdNotObservedInCapture

fun udp_class_str :: "udp_class \<Rightarrow> string" where
  "udp_class_str UdObserved = ''OBSERVED''"
| "udp_class_str UdStructuralHypothesis = ''STRUCTURAL_HYPOTHESIS''"
| "udp_class_str UdStructuralObservation = ''STRUCTURAL_OBSERVATION''"
| "udp_class_str UdExternalReference = ''EXTERNAL_REFERENCE''"
| "udp_class_str UdTemporalCorrelationCandidate = ''TEMPORAL_CORRELATION_CANDIDATE''"
| "udp_class_str UdPossibleSequenceCandidate = ''POSSIBLE_SEQUENCE_CANDIDATE''"
| "udp_class_str UdUnknown = ''UNKNOWN''"
| "udp_class_str UdNotObservedInCapture = ''UDP_NOT_OBSERVED_IN_CAPTURE''"

datatype udp_direction = UdpC2S | UdpS2C | UdpDirectionUnknown

fun udp_direction_str :: "udp_direction \<Rightarrow> string" where
  "udp_direction_str UdpC2S = ''C2S''"
| "udp_direction_str UdpS2C = ''S2C''"
| "udp_direction_str UdpDirectionUnknown = ''UNKNOWN''"

datatype session_relation = BeforeSession | DuringStartup | PostStartup | RelationUnknown

fun session_relation_str :: "session_relation \<Rightarrow> string" where
  "session_relation_str BeforeSession = ''BEFORE_SESSION''"
| "session_relation_str DuringStartup = ''DURING_STARTUP''"
| "session_relation_str PostStartup = ''POST_STARTUP''"
| "session_relation_str RelationUnknown = ''UNKNOWN''"

datatype timing_pattern = TpBurst | TpIdle | TpRepeatedBurst | TpIrregular | TpUnknown

fun timing_pattern_str :: "timing_pattern \<Rightarrow> string" where
  "timing_pattern_str TpBurst = ''BURST''"
| "timing_pattern_str TpIdle = ''IDLE''"
| "timing_pattern_str TpRepeatedBurst = ''REPEATED_BURST''"
| "timing_pattern_str TpIrregular = ''IRREGULAR''"
| "timing_pattern_str TpUnknown = ''UNKNOWN''"

record 'f udp_record =
  ur_index :: u64
  ur_timestamp :: 'f
  ur_direction :: udp_direction
  ur_length :: u32
  ur_source_port :: u16
  ur_destination_port :: u16
  ur_payload_length :: nat
  ur_payload :: bytes
  ur_source :: string
  ur_destination :: string

record 'f packet_observation =
  po_index :: u64
  po_timestamp :: 'f
  po_direction :: string
  po_source_port :: u16
  po_destination_port :: u16
  po_payload_length :: nat
  po_sha256 :: string
  po_prefix :: string

record 'f udp_flow =
  uf_id :: string
  uf_first :: 'f
  uf_last :: 'f
  uf_packets :: u64
  uf_bytes :: u64
  uf_direction :: string
  uf_port_pair :: string
  uf_relation :: string
  uf_class :: string

record 'f length_stats =
  ls_count :: u64
  ls_min :: u64
  ls_max :: u64
  ls_mean :: 'f
  ls_median :: 'f
  ls_unique :: "u64 list"
  ls_distribution :: "(u64, u64) btree"
  ls_observation :: string

record 'f timing_stats =
  ti_deltas :: "'f list"
  ti_mean :: "'f option"
  ti_median :: "'f option"
  ti_burst :: u64
  ti_pattern :: string

record 'f udp_fingerprint =
  fp_sha256 :: string
  fp_length :: nat
  fp_prefix :: string
  fp_suffix :: string
  fp_entropy :: 'f

record 'f transport_inventory =
  tv_capture_id :: string
  tv_tcp_flows :: u64
  tv_udp_flows :: u64
  tv_udp_packets :: u64
  tv_udp_bytes :: u64
  tv_source_ports :: "u16 list"
  tv_destination_ports :: "u16 list"
  tv_range :: "('f \<times> 'f) option"
  tv_related :: string
  tv_observed :: bool
  tv_external_address :: string
  tv_notes :: "string list"

record transport_observation =
  tb_label :: string
  tb_observed :: bool
  tb_note :: string

record 'f bap_timeline_event =
  te_msg_id :: u16
  te_timestamp :: 'f
  te_direction :: string

record 'f correlation_record =
  ur_capture_id :: string
  ur_kind :: string
  ur_bap_id :: "u16 option"
  ur_flow_id :: "string option"
  ur_delta :: "'f option"
  ur_class :: string
  ur_note :: string

section \<open>Fingerprints\<close>

definition payload_sha256 :: "(bytes \<Rightarrow> bytes) \<Rightarrow> bytes \<Rightarrow> string" where
  "payload_sha256 sha payload = hex_encode (sha payload)"

definition prefix_hex :: "bytes \<Rightarrow> nat \<Rightarrow> string" where
  "prefix_hex payload n = hex_encode (take (min (length payload) n) payload)"

definition suffix_hex :: "bytes \<Rightarrow> nat \<Rightarrow> string" where
  "suffix_hex payload n =
     (if payload = [] then [] else (let start = length payload - n in hex_encode (drop start payload)))"

definition byte_counts :: "bytes \<Rightarrow> u64 list" where
  "byte_counts payload = foldl (\<lambda>counts b. counts[unat b := counts ! unat b + 1]) (replicate 256 0) payload"

definition byte_entropy :: "'f float_ops \<Rightarrow> bytes \<Rightarrow> 'f" where
  "byte_entropy F payload =
     (if payload = [] then fl_lit F 0 0
      else (let counts = byte_counts payload;
                n = fl_of_nat F (length payload)
            in foldl (\<lambda>h c. if c = 0 then h
                       else (let p = fl_div F (fl_of_nat F (unat c)) n
                             in fl_sub F h (fl_mul F p (fl_log2 F p)))) (fl_lit F 0 0) counts))"

definition to_packet_observation :: "(bytes \<Rightarrow> bytes) \<Rightarrow> 'f udp_record \<Rightarrow> 'f packet_observation" where
  "to_packet_observation sha r =
     \<lparr>po_index = ur_index r, po_timestamp = ur_timestamp r, po_direction = udp_direction_str (ur_direction r),
      po_source_port = ur_source_port r, po_destination_port = ur_destination_port r,
      po_payload_length = ur_payload_length r, po_sha256 = payload_sha256 sha (ur_payload r),
      po_prefix = prefix_hex (ur_payload r) 8\<rparr>"

definition fingerprint :: "'f float_ops \<Rightarrow> (bytes \<Rightarrow> bytes) \<Rightarrow> bytes \<Rightarrow> 'f udp_fingerprint" where
  "fingerprint F sha payload =
     \<lparr>fp_sha256 = payload_sha256 sha payload, fp_length = length payload, fp_prefix = prefix_hex payload 8,
      fp_suffix = suffix_hex payload 4, fp_entropy = byte_entropy F payload\<rparr>"

section \<open>The pcap reader\<close>

definition u32_from_le_bytes :: "bytes \<Rightarrow> u32" where
  "u32_from_le_bytes bs = u32_from_be_bytes (rev bs)"

text \<open>\<open>u32::from_le_bytes\<close> or \<open>u32::from_be_bytes\<close>, as the file says.\<close>

definition pcap_u32 :: "bool \<Rightarrow> bytes \<Rightarrow> u32" where
  "pcap_u32 le bs = (if le then u32_from_le_bytes bs else u32_from_be_bytes bs)"

definition ip_text :: "bytes \<Rightarrow> nat \<Rightarrow> string" where
  "ip_text ip k =
     show_nat (unat (ip ! k)) @ ''.'' @ show_nat (unat (ip ! (k + 1))) @ ''.''
     @ show_nat (unat (ip ! (k + 2))) @ ''.'' @ show_nat (unat (ip ! (k + 3)))"

definition extract_udp_from_ethernet :: "u64 \<Rightarrow> 'f \<Rightarrow> bytes \<Rightarrow> 'f udp_record list" where
  "extract_udp_from_ethernet packet_index timestamp pkt =
     (if length pkt < 14 then []
      else (let ethertype = u16_from_be_bytes [pkt ! 12, pkt ! 13] in
        if ethertype \<noteq> 0x0800 then []
        else (let ip = drop 14 pkt in
          if length ip < 20 then []
          else (let version = drop_bit 4 (ip ! 0);
                    ihl = unat (and (ip ! 0) 0x0f) * 4 in
            if version \<noteq> 4 \<or> length ip < ihl then []
            else if ip ! 9 \<noteq> 17 then []
            else (let src = ip_text ip 12; dst = ip_text ip 16; udp = drop ihl ip in
              if length udp < 8 then []
              else (let sport = u16_from_be_bytes [udp ! 0, udp ! 1];
                        dport = u16_from_be_bytes [udp ! 2, udp ! 3];
                        ulen = unat (u16_from_be_bytes [udp ! 4, udp ! 5]);
                        payload = (if ulen \<ge> 8 then slice_of 8 (min ulen (length udp)) udp else drop 8 udp)
                    in [\<lparr>ur_index = packet_index, ur_timestamp = timestamp, ur_direction = UdpDirectionUnknown,
                         ur_length = of_nat (8 + length payload), ur_source_port = sport,
                         ur_destination_port = dport, ur_payload_length = length payload, ur_payload = payload,
                         ur_source = src, ur_destination = dst\<rparr>]))))))"

text \<open>The loop over the packets. It ends because every step moves the offset.\<close>

function pcap_loop ::
  "'f float_ops \<Rightarrow> bool \<Rightarrow> bytes \<Rightarrow> nat \<Rightarrow> u64 \<Rightarrow> 'f udp_record list \<Rightarrow> 'f udp_record list" where
  "pcap_loop F le bytes off idx acc =
     (if off + 16 \<le> length bytes then
        (let ts_sec = pcap_u32 le (slice_of off (off + 4) bytes);
             ts_usec = pcap_u32 le (slice_of (off + 4) (off + 8) bytes);
             incl_len = pcap_u32 le (slice_of (off + 8) (off + 12) bytes);
             off' = off + 16;
             last = off' + unat incl_len
         in if last > length bytes then acc
            else (let pkt = slice_of off' last bytes;
                      ts = fl_add F (fl_of_nat F (unat ts_sec))
                             (fl_div F (fl_of_nat F (unat ts_usec)) (fl_lit F 1000000 0))
                  in pcap_loop F le bytes last (idx + 1) (acc @ extract_udp_from_ethernet (idx + 1) ts pkt)))
      else acc)"
  by pat_completeness auto
termination by (relation "measure (\<lambda>(_, _, bytes, off, _). Suc (length bytes) - off)") (auto simp: Let_def)

declare pcap_loop.simps [simp del]

text \<open>\<open>{:02x?}\<close> of a byte slice.\<close>

definition show_hex_slice :: "bytes \<Rightarrow> string" where
  "show_hex_slice bs = ''['' @ join_with '', '' (map (\<lambda>b. hex_encode [b]) bs) @ '']''"

definition parse_classic_pcap_udp :: "'f float_ops \<Rightarrow> bytes \<Rightarrow> string + 'f udp_record list" where
  "parse_classic_pcap_udp F bytes =
     (if length bytes < 24 then Inl ''pcap too short''
      else (let magic = slice_of 0 4 bytes;
                le = magic = [0xd4, 0xc3, 0xb2, 0xa1] \<or> magic = [0x4d, 0x3c, 0xb2, 0xa1];
                be = magic = [0xa1, 0xb2, 0xc3, 0xd4] \<or> magic = [0xa1, 0xb2, 0x3c, 0x4d]
            in if \<not> le \<and> \<not> be then Inl (''unsupported pcap magic '' @ show_hex_slice magic)
               else (let linktype = pcap_u32 le (slice_of 20 24 bytes)
                     in if linktype \<noteq> 1
                        then Inl (''unsupported linktype '' @ show_nat (unat linktype) @ '' (need Ethernet=1)'')
                        else Inr (pcap_loop F le bytes 24 0 []))))"

definition classify_udp_direction :: "'f udp_record \<Rightarrow> string option \<Rightarrow> u16 list \<Rightarrow> 'f udp_record" where
  "classify_udp_direction r client_ip server_hint_ports =
     (case client_ip of
        Some cip \<Rightarrow>
          if ur_source r = cip then r\<lparr>ur_direction := UdpC2S\<rparr>
          else if ur_destination r = cip then r\<lparr>ur_direction := UdpS2C\<rparr>
          else r\<lparr>ur_direction := UdpDirectionUnknown\<rparr>
      | None \<Rightarrow> r\<lparr>ur_direction := UdpDirectionUnknown\<rparr>)"

section \<open>Files and datagrams\<close>

text \<open>A UDP datagram in an Ethernet frame, by the fields of RFC 791 and RFC 768, with padding after it.\<close>

record datagram =
  dg_macs :: bytes
  dg_ip_head :: bytes
  dg_ip_checksum :: bytes
  dg_source :: bytes
  dg_destination :: bytes
  dg_options :: bytes
  dg_source_port :: u16
  dg_destination_port :: u16
  dg_checksum :: bytes
  dg_payload :: bytes
  dg_padding :: bytes

definition datagram_ok :: "datagram \<Rightarrow> bool" where
  "datagram_ok d \<longleftrightarrow>
     length (dg_macs d) = 12 \<and> length (dg_ip_head d) = 8 \<and> length (dg_ip_checksum d) = 2
     \<and> length (dg_source d) = 4 \<and> length (dg_destination d) = 4 \<and> length (dg_checksum d) = 2
     \<and> length (dg_options d) \<le> 40 \<and> length (dg_options d) mod 4 = 0
     \<and> 8 + length (dg_payload d) < 65536 \<and> length (dg_padding d) < 65536"

definition ip_header :: "datagram \<Rightarrow> bytes" where
  "ip_header d =
     [0x40 + of_nat (5 + length (dg_options d) div 4)] @ dg_ip_head d @ [17] @ dg_ip_checksum d
     @ dg_source d @ dg_destination d @ dg_options d"

definition udp_part :: "datagram \<Rightarrow> bytes" where
  "udp_part d =
     u16_to_be_bytes (dg_source_port d) @ u16_to_be_bytes (dg_destination_port d)
     @ u16_to_be_bytes (of_nat (8 + length (dg_payload d))) @ dg_checksum d @ dg_payload d @ dg_padding d"

definition frame_of :: "datagram \<Rightarrow> bytes" where
  "frame_of d = dg_macs d @ [0x08, 0x00] @ ip_header d @ udp_part d"

definition dotted :: "bytes \<Rightarrow> string" where
  "dotted bs = join_with ''.'' (map (\<lambda>b. show_nat (unat b)) bs)"

definition record_of :: "u64 \<Rightarrow> 'f \<Rightarrow> datagram \<Rightarrow> 'f udp_record" where
  "record_of i t d =
     \<lparr>ur_index = i, ur_timestamp = t, ur_direction = UdpDirectionUnknown,
      ur_length = of_nat (8 + length (dg_payload d)), ur_source_port = dg_source_port d,
      ur_destination_port = dg_destination_port d, ur_payload_length = length (dg_payload d),
      ur_payload = dg_payload d, ur_source = dotted (dg_source d), ur_destination = dotted (dg_destination d)\<rparr>"

lemma version_bytes:
  "list_all (\<lambda>k. drop_bit 4 (0x40 + of_nat k :: u8) = 4 \<and> unat (and (0x40 + of_nat k :: u8) 0x0f) = k) [0..<16]"
  by code_simp

lemma version_byte:
  assumes "k < 16"
  shows "drop_bit 4 (0x40 + of_nat k :: u8) = 4" "unat (and (0x40 + of_nat k :: u8) 0x0f) = k"
  using version_bytes assms unfolding list_all_iff by auto

lemma two_bytes: "length bs = 2 \<Longrightarrow> [bs ! 0, bs ! 1] = bs"
  by (cases bs; cases "tl bs") (auto simp: length_Suc_conv)

lemma ip_text_dotted:
  assumes "length a = k" "length b = 4"
  shows "ip_text (a @ b @ c) k = dotted b"
proof -
  obtain p q r s where "b = [p, q, r, s]"
    using assms(2) by (auto simp: length_Suc_conv numeral_eq_Suc)
  then show ?thesis using assms(1) by (simp add: ip_text_def dotted_def nth_append)
qed


text \<open>The reader takes a datagram out of its frame.\<close>

lemma extract_frame:
  assumes "datagram_ok d"
  shows "extract_udp_from_ethernet i t (frame_of d) = [record_of i t d]"
proof -
  from assms have ok: "length (dg_macs d) = 12" "length (dg_ip_head d) = 8" "length (dg_ip_checksum d) = 2"
      "length (dg_source d) = 4" "length (dg_destination d) = 4" "length (dg_checksum d) = 2"
      "length (dg_options d) \<le> 40" "length (dg_options d) mod 4 = 0" "8 + length (dg_payload d) < 65536"
    by (simp_all add: datagram_ok_def)
  let ?k = "5 + length (dg_options d) div 4" and ?ip = "ip_header d @ udp_part d"
  have k: "?k < 16" "?k * 4 = 20 + length (dg_options d)" using ok(7,8) by auto
  have len_ip: "length (ip_header d) = 20 + length (dg_options d)"
    using ok by (simp add: ip_header_def)
  have type: "[frame_of d ! 12, frame_of d ! 13] = [8, 0]"
    using ok(1) by (simp add: frame_of_def nth_append)
  have rest: "drop 14 (frame_of d) = ?ip"
    using ok(1) by (simp add: frame_of_def)
  have first: "?ip ! 0 = 0x40 + of_nat ?k" by (simp add: ip_header_def)
  have proto: "?ip ! 9 = 17" using ok(2) by (simp add: ip_header_def nth_append)
  have src: "ip_text ?ip 12 = dotted (dg_source d)"
    using ip_text_dotted [of "[0x40 + of_nat ?k] @ dg_ip_head d @ [17] @ dg_ip_checksum d" 12 "dg_source d"
        "dg_destination d @ dg_options d @ udp_part d"] ok by (simp add: ip_header_def)
  have dst: "ip_text ?ip 16 = dotted (dg_destination d)"
    using ip_text_dotted [of "[0x40 + of_nat ?k] @ dg_ip_head d @ [17] @ dg_ip_checksum d @ dg_source d" 16
        "dg_destination d" "dg_options d @ udp_part d"] ok by (simp add: ip_header_def)
  have udp: "drop (unat (and (?ip ! 0) 0x0f) * 4) ?ip = udp_part d"
    unfolding first version_byte(2) [OF k(1)] k(2) using len_ip by simp
  let ?s = "u16_to_be_bytes (dg_source_port d)" and ?d = "u16_to_be_bytes (dg_destination_port d)"
    and ?n = "u16_to_be_bytes (of_nat (8 + length (dg_payload d)))"
  have ports: "[udp_part d ! 0, udp_part d ! 1] = ?s" "[udp_part d ! 2, udp_part d ! 3] = ?d"
      "[udp_part d ! 4, udp_part d ! 5] = ?n"
    using two_bytes [of ?s] two_bytes [of ?d] two_bytes [of ?n] by (simp_all add: udp_part_def nth_append)
  have n: "unat (u16_from_be_bytes ?n) = 8 + length (dg_payload d)"
    using ok(9) by (simp only: u16_from_to_be unat_of_nat) simp
  have len_udp: "length (udp_part d) = 8 + length (dg_payload d) + length (dg_padding d)"
    using ok by (simp add: udp_part_def)
  have payload: "slice_of 8 (min (8 + length (dg_payload d)) (length (udp_part d))) (udp_part d) = dg_payload d"
    using ok by (simp add: len_udp slice_of_def udp_part_def)
  have "u16_from_be_bytes [8, 0] = 0x0800" by (simp add: u16_from_be_bytes_def be_nat_def)
  then show ?thesis
    unfolding extract_udp_from_ethernet_def Let_def rest type udp src dst
    unfolding ports n payload proto first version_byte [OF k(1)] k(2)
    using ok(1) len_ip len_udp by (simp add: frame_of_def record_of_def)
qed

section \<open>Reading a file\<close>

definition pcap_bytes :: "bool \<Rightarrow> u32 \<Rightarrow> bytes" where
  "pcap_bytes le v = (if le then rev (u32_to_be_bytes v) else u32_to_be_bytes v)"

record packet =
  pk_sec :: u32
  pk_usec :: u32
  pk_original :: u32
  pk_frame :: bytes

definition packet_bytes :: "bool \<Rightarrow> packet \<Rightarrow> bytes" where
  "packet_bytes le p =
     pcap_bytes le (pk_sec p) @ pcap_bytes le (pk_usec p) @ pcap_bytes le (of_nat (length (pk_frame p)))
     @ pcap_bytes le (pk_original p) @ pk_frame p"

text \<open>The magic number says the byte order and whether the times have nanoseconds.\<close>

definition pcap_magic :: "bool \<Rightarrow> bool \<Rightarrow> bytes" where
  "pcap_magic le nano = (if le then rev else id) [0xa1, 0xb2, if nano then 0x3c else 0xc3, if nano then 0x4d else 0xd4]"

definition pcap_header :: "bool \<Rightarrow> bool \<Rightarrow> bytes \<Rightarrow> bytes" where
  "pcap_header le nano info = pcap_magic le nano @ info @ pcap_bytes le 1"

definition packet_time :: "'f float_ops \<Rightarrow> packet \<Rightarrow> 'f" where
  "packet_time F p = fl_add F (fl_of_nat F (unat (pk_sec p))) (fl_div F (fl_of_nat F (unat (pk_usec p))) (fl_lit F 1000000 0))"

text \<open>The records of the packets, numbered from the one after \<open>i\<close>.\<close>

fun records_from :: "'f float_ops \<Rightarrow> u64 \<Rightarrow> packet list \<Rightarrow> 'f udp_record list" where
  "records_from F i [] = []"
| "records_from F i (p # ps) = extract_udp_from_ethernet (i + 1) (packet_time F p) (pk_frame p) @ records_from F (i + 1) ps"

lemma length_pcap_bytes [simp]: "length (pcap_bytes le v) = 4"
  by (simp add: pcap_bytes_def)

lemma pcap_u32_bytes [simp]: "pcap_u32 le (pcap_bytes le v) = v"
  by (simp add: pcap_u32_def pcap_bytes_def u32_from_le_bytes_def)

lemma length_packet_bytes [simp]: "length (packet_bytes le p) = 16 + length (pk_frame p)"
  by (simp add: packet_bytes_def)

lemma slice_append: "length a = x \<Longrightarrow> length b = y - x \<Longrightarrow> slice_of x y (a @ b @ c) = b"
  by (simp add: slice_of_def)

lemma packet_fields:
  assumes "length pre = off"
  shows "slice_of off (off + 4) (pre @ packet_bytes le p @ post) = pcap_bytes le (pk_sec p)"
    "slice_of (off + 4) (off + 8) (pre @ packet_bytes le p @ post) = pcap_bytes le (pk_usec p)"
    "slice_of (off + 8) (off + 12) (pre @ packet_bytes le p @ post) = pcap_bytes le (of_nat (length (pk_frame p)))"
    "slice_of (off + 16) (off + 16 + length (pk_frame p)) (pre @ packet_bytes le p @ post) = pk_frame p"
  using assms by (simp_all add: packet_bytes_def slice_of_def)

lemma pcap_loop_packet:
  assumes "length (pk_frame p) < 2 ^ 32"
  shows "pcap_loop F le (pre @ packet_bytes le p @ post) (length pre) i acc
       = pcap_loop F le (pre @ packet_bytes le p @ post) (length (pre @ packet_bytes le p)) (i + 1)
           (acc @ extract_udp_from_ethernet (i + 1) (packet_time F p) (pk_frame p))"
proof -
  have n: "unat (of_nat (length (pk_frame p)) :: u32) = length (pk_frame p)"
    using assms by (simp add: unat_of_nat)
  show ?thesis
    unfolding packet_time_def
    by (subst pcap_loop.simps) (simp add: Let_def packet_fields n add.assoc [symmetric])
qed

lemma pcap_loop_cut:
  assumes "length (pk_frame p) < 2 ^ 32" "n < length (packet_bytes le p)"
  shows "pcap_loop F le (pre @ take n (packet_bytes le p)) (length pre) i acc = acc"
proof (cases "n < 16")
  case True
  then show ?thesis by (subst pcap_loop.simps) simp
next
  case False
  have "slice_of (length pre + 8) (length pre + 12) (pre @ take n (packet_bytes le p))
      = slice_of 8 12 (take n (packet_bytes le p))" by (simp add: slice_of_def)
  also have "\<dots> = slice_of 8 12 (packet_bytes le p)"
    using False by (simp add: slice_of_def drop_take)
  also have "\<dots> = pcap_bytes le (of_nat (length (pk_frame p)))"
    using packet_fields(3) [of "[]" 0 le p "[]"] by simp
  finally have field: "slice_of (length pre + 8) (length pre + 12) (pre @ take n (packet_bytes le p))
      = pcap_bytes le (of_nat (length (pk_frame p)))" .
  have "unat (of_nat (length (pk_frame p)) :: u32) = length (pk_frame p)"
    using assms by (simp add: unat_of_nat)
  then show ?thesis using assms False
    by (subst pcap_loop.simps) (simp add: Let_def field)
qed

lemma pcap_loop_packets:
  assumes "\<forall>p \<in> set ps. length (pk_frame p) < 2 ^ 32"
  shows "pcap_loop F le (pre @ concat (map (packet_bytes le) ps) @ post) (length pre) i acc
       = pcap_loop F le (pre @ concat (map (packet_bytes le) ps) @ post)
           (length (pre @ concat (map (packet_bytes le) ps))) (i + of_nat (length ps)) (acc @ records_from F i ps)"
  using assms
proof (induction ps arbitrary: pre i acc)
  case (Cons p ps)
  then show ?case
    using pcap_loop_packet [of p F le pre "concat (map (packet_bytes le) ps) @ post" i acc]
      Cons.IH [of "pre @ packet_bytes le p" "i + 1" "acc @ extract_udp_from_ethernet (i + 1) (packet_time F p) (pk_frame p)"]
    by (simp add: algebra_simps)
qed simp

text \<open>A packet of a datagram, and the record it is read back as.\<close>

definition packet_of :: "u32 \<times> u32 \<times> datagram \<Rightarrow> packet" where
  "packet_of = (\<lambda>(sec, usec, d). \<lparr>pk_sec = sec, pk_usec = usec, pk_original = of_nat (length (frame_of d)), pk_frame = frame_of d\<rparr>)"

fun datagram_records :: "'f float_ops \<Rightarrow> u64 \<Rightarrow> (u32 \<times> u32 \<times> datagram) list \<Rightarrow> 'f udp_record list" where
  "datagram_records F i [] = []"
| "datagram_records F i (x # xs) =
     record_of (i + 1) (packet_time F (packet_of x)) (snd (snd x)) # datagram_records F (i + 1) xs"

lemma frame_small:
  assumes "datagram_ok d"
  shows "length (frame_of d) < 2 ^ 32"
proof -
  have "length (frame_of d) \<le> 14 + 60 + 65536 + 65536"
    using assms by (auto simp: datagram_ok_def frame_of_def ip_header_def udp_part_def)
  then show ?thesis by simp
qed

lemma records_of_datagrams:
  "\<forall>x \<in> set xs. datagram_ok (snd (snd x)) \<Longrightarrow> records_from F i (map packet_of xs) = datagram_records F i xs"
proof (induction xs arbitrary: i)
  case (Cons x xs)
  then show ?case by (cases x) (simp add: packet_of_def extract_frame)
qed simp

lemma parse_pcap_header:
  assumes "length info = 16"
  shows "parse_classic_pcap_udp F (pcap_header le nano info @ body) = Inr (pcap_loop F le (pcap_header le nano info @ body) 24 0 [])"
proof -
  let ?b = "pcap_header le nano info @ body"
  have type: "slice_of 20 24 ?b = pcap_bytes le 1"
    using assms by (simp add: pcap_header_def slice_of_def pcap_magic_def)
  have "slice_of 0 4 ?b = pcap_magic le nano"
    by (simp add: pcap_header_def slice_of_def pcap_magic_def)
  then have le: "(slice_of 0 4 ?b = [0xd4, 0xc3, 0xb2, 0xa1] \<or> slice_of 0 4 ?b = [0x4d, 0x3c, 0xb2, 0xa1]) = le"
    and be: "le \<or> slice_of 0 4 ?b = [0xa1, 0xb2, 0xc3, 0xd4] \<or> slice_of 0 4 ?b = [0xa1, 0xb2, 0x3c, 0x4d]"
    by (auto simp: pcap_magic_def)
  have "length ?b \<ge> 24" using assms by (simp add: pcap_header_def pcap_magic_def)
  then show ?thesis
    unfolding parse_classic_pcap_udp_def Let_def le type using be by auto
qed

text \<open>
  C38. Reading a capture file gives back its datagrams. For every file in either byte order that
  holds UDP datagrams in Ethernet frames, with any addresses, ports, IP options, payloads and
  trailing padding, and whose last packet may be cut off anywhere, the reader returns one record
  for each complete datagram, in order and numbered from one, with exactly its ports, payload and
  addresses in dotted form; the cut packet is dropped without an error. The second half of the time
  stamp counts as microseconds under all four magic numbers, the two of nanosecond files included.
\<close>

theorem pcap_reads_back:
  assumes "length info = 16" "\<forall>x \<in> set xs. datagram_ok (snd (snd x))"
    and "datagram_ok (snd (snd z))" "n < length (packet_bytes le (packet_of z))"
  shows "parse_classic_pcap_udp F
           (pcap_header le nano info @ concat (map (\<lambda>x. packet_bytes le (packet_of x)) xs)
             @ take n (packet_bytes le (packet_of z)))
         = Inr (datagram_records F 0 xs)"
proof -
  let ?h = "pcap_header le nano info" and ?tail = "take n (packet_bytes le (packet_of z))"
  have len: "length ?h = 24" using assms(1) by (simp add: pcap_header_def pcap_magic_def)
  have small: "\<forall>p \<in> set (map packet_of xs). length (pk_frame p) < 2 ^ 32"
    using assms(2) frame_small by (auto simp: packet_of_def)
  have "pcap_loop F le (?h @ concat (map (packet_bytes le) (map packet_of xs)) @ ?tail) (length ?h) 0 []
      = records_from F 0 (map packet_of xs)"
    unfolding pcap_loop_packets [OF small]
    using pcap_loop_cut [of "packet_of z" n le F "?h @ concat (map (packet_bytes le) (map packet_of xs))"]
      assms(3,4) frame_small [OF assms(3)] by (simp add: packet_of_def split_beta)
  then show ?thesis
    unfolding parse_pcap_header [OF assms(1)] using records_of_datagrams [OF assms(2)]
    by (simp add: len comp_def)
qed

text \<open>A little-endian file with one datagram of three bytes and the first twenty bytes of another one.\<close>

definition demo_datagram :: datagram where
  "demo_datagram =
     \<lparr>dg_macs = replicate 12 0, dg_ip_head = replicate 8 0, dg_ip_checksum = [0, 0], dg_source = [10, 0, 0, 2],
      dg_destination = [8, 8, 4, 4], dg_options = [], dg_source_port = 3074, dg_destination_port = 53,
      dg_checksum = [0, 0], dg_payload = [1, 2, 3], dg_padding = [0]\<rparr>"

lemma pcap_reads_back_witness:
  "parse_classic_pcap_udp fixed_point
     (pcap_header True False (replicate 16 0) @ concat (map (\<lambda>x. packet_bytes True (packet_of x)) [(7, 9, demo_datagram)])
       @ take 20 (packet_bytes True (packet_of (8, 0, demo_datagram))))
   = Inr [record_of 1 7000009 demo_datagram]"
proof -
  have ok: "datagram_ok demo_datagram" by (simp add: datagram_ok_def demo_datagram_def)
  have time: "packet_time fixed_point (packet_of (7, 9, demo_datagram)) = 7000009"
    by (simp add: packet_time_def packet_of_def fixed_point_def)
  have "20 < length (packet_bytes True (packet_of (8, 0, demo_datagram)))"
    using ok by (simp add: packet_of_def frame_of_def datagram_ok_def)
  with ok show ?thesis
    using pcap_reads_back [of "replicate 16 0" "[(7, 9, demo_datagram)]" "(8, 0, demo_datagram)" 20 True fixed_point False]
    by (simp add: time)
qed

text \<open>
  What the reader accepts beyond that: an IPv4 header whose length field is below five words is not
  refused, so that the ports are read out of the IP header itself.
\<close>

lemma short_ip_header_accepted:
  "extract_udp_from_ethernet i t ([0, 0, 0, 0, 0, 0, 0, 0, 0, 0, 0, 0, 8, 0,
      0x40, 0, 0, 0, 0, 0, 0, 0, 0, 17, 0, 0, 1, 2, 3, 4, 5, 6, 7, 8]) \<noteq> []"
  by (simp add: extract_udp_from_ethernet_def Let_def u16_from_be_bytes_def be_nat_def)

end
