(* ===== verification/Udp_Analysis.thy ===== *)
theory Udp_Analysis
  imports Udp_Evidence Json_Value
begin

text \<open>
  \<open>network/src/udp_analysis.rs\<close>: flows by port pair, length and timing statistics, prefixes,
  sequence candidates, the correlation with the BAP time line, the comparison of two captures and
  the export. As in the theory of the records, \<open>f64\<close> is a type with the operations of a record
  \<open>float_ops\<close> and SHA-256 an argument; sums of payload lengths are 64-bit words. The theory shows
  that the flows of a capture partition its datagrams by the unordered pair of ports and count
  each of them once.
\<close>

section \<open>Data\<close>

record sequence_candidate =
  sc_offset :: nat
  sc_width :: u8
  sc_endian :: string
  sc_values :: "u64 list"
  sc_class :: string

record 'f flow_analysis =
  fa_flow :: "'f udp_flow"
  fa_lengths :: "'f length_stats"
  fa_timing :: "'f timing_stats"
  fa_fingerprints :: "'f udp_fingerprint list"
  fa_prefix_notes :: "string list"
  fa_candidates :: "sequence_candidate list"

record 'f capture_udp =
  cu_inventory :: "'f transport_inventory"
  cu_flows :: "'f flow_analysis list"
  cu_correlations :: "'f correlation_record list"
  cu_observations :: "transport_observation list"
  cu_hypotheses :: "string list"
  cu_unknowns :: "string list"

record cross_property =
  cx_name :: string
  cx_present_a :: string
  cx_present_b :: string
  cx_stability :: string
  cx_note :: string

record udp_comparison =
  uc_capture_a :: string
  uc_capture_b :: string
  uc_properties :: "cross_property list"

record 'f safe_udp_export =
  su_version :: string
  su_captures :: "'f transport_inventory list"
  su_flows :: "'f udp_flow list"
  su_correlations :: "'f correlation_record list"
  su_hypotheses :: "string list"
  su_unknowns :: "string list"
  su_cross :: udp_comparison
  su_observed_any :: bool

definition UDP_SAFE_VERSION :: string where "UDP_SAFE_VERSION = ''0.1''"

section \<open>Flows\<close>

definition port_pair_key :: "u16 \<Rightarrow> u16 \<Rightarrow> string" where
  "port_pair_key sport dport =
     (let (a, b) = if sport \<le> dport then (sport, dport) else (dport, sport)
      in show_nat (unat a) @ ''/'' @ show_nat (unat b))"

text \<open>\<open>{:02}\<close>\<close>

definition show_two :: "nat \<Rightarrow> string" where
  "show_two n = (let s = show_nat n in replicate (2 - length s) CHR ''0'' @ s)"

definition flow_of :: "'f float_ops \<Rightarrow> nat \<Rightarrow> string \<Rightarrow> 'f udp_record list \<Rightarrow> 'f udp_flow" where
  "flow_of F i pair pkts =
     (let first = foldl (fl_min F) (fl_infinity F) (map ur_timestamp pkts);
          final = foldl (fl_max F) (fl_neg_infinity F) (map ur_timestamp pkts);
          dirs = foldl (\<lambda>s p. bs_insert (udp_direction_str (ur_direction p)) s) [] pkts
      in \<lparr>uf_id = ''UDP_FLOW_'' @ show_two (i + 1),
          uf_first = (if fl_is_finite F first then first else fl_lit F 0 0),
          uf_last = (if fl_is_finite F final then final else fl_lit F 0 0),
          uf_packets = of_nat (length pkts), uf_bytes = sum_list (map (\<lambda>p. of_nat (ur_payload_length p)) pkts),
          uf_direction = (if length dirs = 1 then hd dirs else ''MIXED_OR_UNKNOWN''),
          uf_port_pair = pair, uf_relation = session_relation_str RelationUnknown,
          uf_class = udp_class_str UdObserved\<rparr>)"

definition analyze_flows :: "'f float_ops \<Rightarrow> 'f udp_record list \<Rightarrow> 'f udp_flow list" where
  "analyze_flows F records =
     (let groups = foldl (\<lambda>m r. bt_entry (port_pair_key (ur_source_port r) (ur_destination_port r)) []
                                  (\<lambda>l. l @ [r]) m) [] records
      in map (\<lambda>(i, pair, pkts). flow_of F i pair pkts) (enumerate 0 groups))"

section \<open>Lengths and times\<close>

definition analyze_lengths :: "'f float_ops \<Rightarrow> 'f udp_record list \<Rightarrow> 'f length_stats" where
  "analyze_lengths F records =
     (let lengths = sort (map (\<lambda>r. of_nat (ur_payload_length r) :: u64) records);
          count = length lengths
      in if count = 0 then
           \<lparr>ls_count = 0, ls_min = 0, ls_max = 0, ls_mean = fl_lit F 0 0, ls_median = fl_lit F 0 0, ls_unique = [],
            ls_distribution = [], ls_observation = udp_class_str UdNotObservedInCapture\<rparr>
         else (let low = hd lengths; high = last lengths;
                   s = sum_list lengths;
                   mean = fl_div F (fl_of_nat F (unat s)) (fl_of_nat F count);
                   median = (if count mod 2 = 1 then fl_of_nat F (unat (lengths ! (count div 2)))
                             else (let i = count div 2
                                   in fl_div F (fl_of_nat F (unat (lengths ! (i - 1) + lengths ! i))) (fl_lit F 2 0)));
                   distribution = foldl (\<lambda>m l. bt_count64 l m) [] lengths;
                   unique = bt_keys distribution;
                   observation = (if length unique = 1 then ''STRUCTURAL_OBSERVATION:fixed-size''
                                  else if high - low \<le> 16 then ''STRUCTURAL_OBSERVATION:small_variation''
                                  else ''STRUCTURAL_OBSERVATION:high_variation'')
               in \<lparr>ls_count = of_nat count, ls_min = low, ls_max = high, ls_mean = mean, ls_median = median,
                   ls_unique = unique, ls_distribution = distribution, ls_observation = observation\<rparr>))"

text \<open>The stable \<open>sort_by\<close> with the order of \<open>total_cmp\<close>.\<close>

fun total_insert :: "'f float_ops \<Rightarrow> 'f \<Rightarrow> 'f list \<Rightarrow> 'f list" where
  "total_insert F x [] = [x]"
| "total_insert F x (y # ys) = (if fl_total_le F x y then x # y # ys else y # total_insert F x ys)"

definition total_sort :: "'f float_ops \<Rightarrow> 'f list \<Rightarrow> 'f list" where
  "total_sort F xs = foldr (total_insert F) xs []"

definition windows2 :: "'a list \<Rightarrow> ('a \<times> 'a) list" where
  "windows2 xs = zip xs (tl xs)"

definition burst_of :: "'f float_ops \<Rightarrow> 'f list \<Rightarrow> u64" where
  "burst_of F deltas =
     snd (foldl (\<lambda>(burst, best) d. if fl_less F d (fl_lit F 5 2) then (burst + 1, max best (burst + 1)) else (1, best))
            (1, 1) deltas)"

definition analyze_timing :: "'f float_ops \<Rightarrow> 'f udp_record list \<Rightarrow> 'f timing_stats" where
  "analyze_timing F records =
     (let ts = total_sort F (map ur_timestamp records);
          deltas = map (\<lambda>(a, b). fl_sub F b a) (windows2 ts);
          means = (if deltas = [] then (None, None)
                   else (let mean = fl_div F (foldl (fl_add F) (fl_sum_start F) deltas) (fl_of_nat F (length deltas));
                             sorted_deltas = total_sort F deltas; n = length sorted_deltas;
                             med = (if n mod 2 = 1 then sorted_deltas ! (n div 2)
                                    else fl_div F (fl_add F (sorted_deltas ! (n div 2 - 1)) (sorted_deltas ! (n div 2)))
                                           (fl_lit F 2 0))
                         in (Some mean, Some med)));
          best = burst_of F deltas;
          pattern = (if deltas = [] then TpUnknown
                     else if best \<ge> 3 then TpBurst
                     else if (case fst means of Some m \<Rightarrow> fl_less F (fl_lit F 1 0) m | None \<Rightarrow> False) then TpIdle
                     else TpIrregular)
      in \<lparr>ti_deltas = deltas, ti_mean = fst means, ti_median = snd means, ti_burst = best,
          ti_pattern = timing_pattern_str pattern\<rparr>)"

section \<open>Prefixes and counters\<close>

definition analyze_prefixes :: "'f udp_record list \<Rightarrow> string list" where
  "analyze_prefixes records =
     (if records = [] then []
      else (let prefixes = map (\<lambda>r. prefix_hex (ur_payload r) 4) records;
                unique = foldl (\<lambda>s p. bs_insert p s) [] prefixes;
                first_bytes = foldl (\<lambda>s r. case ur_payload r of [] \<Rightarrow> s | b # _ \<Rightarrow> bs_insert b s) [] records
            in (if length unique = 1 then [''STRUCTURAL_HYPOTHESIS: constant 4-byte prefix '' @ hd unique]
                else [''STRUCTURAL_HYPOTHESIS: variable 4-byte prefixes ('' @ show_nat (length unique) @ '' distinct)''])
               @ (if length first_bytes > 1
                  then [''STRUCTURAL_HYPOTHESIS: first-byte variation ('' @ show_nat (length first_bytes) @ '' values)'']
                  else [])))"

text \<open>The values at an offset; \<open>None\<close> when a payload is too short (\<open>ok = false\<close> in the code).\<close>

fun candidate_values :: "nat \<Rightarrow> nat \<Rightarrow> bool \<Rightarrow> 'f udp_record list \<Rightarrow> u64 list option" where
  "candidate_values offset width be [] = Some []"
| "candidate_values offset width be (r # rs) =
     (if length (ur_payload r) < offset + width then None
      else (let slice = slice_of offset (offset + width) (ur_payload r);
                v = (if be then of_nat (be_nat slice) else of_nat (be_nat (rev slice)))
            in map_option ((#) v) (candidate_values offset width be rs)))"

definition detect_sequence_candidates :: "'f udp_record list \<Rightarrow> sequence_candidate list" where
  "detect_sequence_candidates records =
     (if length records < 3 then []
      else concat (map (\<lambda>(offset, width, be).
        case candidate_values offset width be records of
          None \<Rightarrow> []
        | Some vs \<Rightarrow>
            if length vs < 3 then []
            else (let monotonic = list_all (\<lambda>(a, b). b \<ge> a) (windows2 vs);
                      steps = length (filter (\<lambda>(a, b). b = a + 1) (windows2 vs))
                  in if monotonic \<and> steps \<ge> 1
                     then [\<lparr>sc_offset = offset, sc_width = of_nat width, sc_endian = (if be then ''BE'' else ''LE''),
                            sc_values = vs, sc_class = udp_class_str UdPossibleSequenceCandidate\<rparr>]
                     else []))
        [(0, 2, True), (2, 2, True), (0, 4, True)]))"

section \<open>The BAP time line\<close>

definition relate_to_session ::
  "'f float_ops \<Rightarrow> 'f udp_flow \<Rightarrow> 'f bap_timeline_event list \<Rightarrow> session_relation \<times> 'f udp_flow" where
  "relate_to_session F flow bap =
     (let startup_end = foldl (\<lambda>acc t. Some (case acc of None \<Rightarrow> t | Some a \<Rightarrow> fl_max F a t)) None
            (map te_timestamp (filter (\<lambda>e. te_msg_id e \<in> {0x1E, 0x1F, 0x19, 0x1A, 0x79, 0x7A}) bap));
          session_start = map_option te_timestamp (List.find (\<lambda>e. te_msg_id e = 0x1E) bap);
          rel = (case (session_start, startup_end) of
                   (Some start, Some fin) \<Rightarrow>
                     if fl_less F (uf_last flow) start then BeforeSession
                     else if fl_le F (uf_first flow) fin then DuringStartup
                     else PostStartup
                 | _ \<Rightarrow> RelationUnknown)
      in (rel, flow\<lparr>uf_relation := session_relation_str rel\<rparr>))"

definition nearest_record ::
  "'f float_ops \<Rightarrow> 'f bap_timeline_event \<Rightarrow> 'f udp_record list \<Rightarrow> ('f udp_record \<times> 'f) option" where
  "nearest_record F ev records =
     foldl (\<lambda>best r. (let d = fl_abs F (fl_sub F (ur_timestamp r) (te_timestamp ev))
                      in case best of None \<Rightarrow> Some (r, d)
                         | Some (b, bd) \<Rightarrow> if fl_less F d bd then Some (r, d) else best)) None records"

definition not_equal_sign :: string where
  "not_equal_sign = [CHR 0xE2, CHR 0x89, CHR 0xA0]"

definition bap_correlation ::
  "'f float_ops \<Rightarrow> string \<Rightarrow> 'f udp_flow list \<Rightarrow> 'f udp_record list \<Rightarrow> u16 \<Rightarrow> 'f bap_timeline_event \<Rightarrow> 'f correlation_record" where
  "bap_correlation F capture_id flows records mid ev =
     (let kind = (if mid \<in> {0x12E, 0x12F} then ''NAT_TEMPORAL'' else ''BAP_TEMPORAL'')
      in case nearest_record F ev records of
           Some (r, d) \<Rightarrow>
             \<lparr>ur_capture_id = capture_id, ur_kind = kind, ur_bap_id = Some mid,
              ur_flow_id = map_option uf_id
                (List.find (\<lambda>f. uf_port_pair f = port_pair_key (ur_source_port r) (ur_destination_port r)) flows),
              ur_delta = Some d,
              ur_class = udp_class_str (if fl_le F d (fl_lit F 5 1) then UdTemporalCorrelationCandidate else UdUnknown),
              ur_note = ''nearest UDP ports '' @ show_nat (unat (ur_source_port r)) @ right_arrow
                @ show_nat (unat (ur_destination_port r)) @ '' delta_s='' @ fl_show6 F d @ ''; correlation''
                @ not_equal_sign @ ''causality''\<rparr>
         | None \<Rightarrow>
             \<lparr>ur_capture_id = capture_id, ur_kind = kind, ur_bap_id = Some mid, ur_flow_id = None, ur_delta = None,
              ur_class = udp_class_str UdNotObservedInCapture, ur_note = ''no UDP packets in capture to correlate''\<rparr>)"

definition correlate_with_bap ::
  "'f float_ops \<Rightarrow> string \<Rightarrow> 'f udp_flow list \<Rightarrow> 'f udp_record list \<Rightarrow> 'f bap_timeline_event list \<Rightarrow> 'f correlation_record list" where
  "correlate_with_bap F capture_id flows records bap =
     concat (map (\<lambda>mid. map (bap_correlation F capture_id flows records mid) (filter (\<lambda>e. te_msg_id e = mid) bap))
       [0x12E, 0x12F, 0x12D, 0x0A, 0x0B, 0x0C, 0x0D, 0xFA, 0xFB])
     @ map (\<lambda>f. \<lparr>ur_capture_id = capture_id, ur_kind = ''TCP_SESSION_RELATION'', ur_bap_id = None,
          ur_flow_id = Some (uf_id f), ur_delta = None, ur_class = uf_relation f,
          ur_note = ''flow '' @ uf_id f @ '' ports '' @ uf_port_pair f\<rparr>) flows"

section \<open>A capture\<close>

definition build_inventory ::
  "'f float_ops \<Rightarrow> string \<Rightarrow> 'f udp_record list \<Rightarrow> 'f udp_flow list \<Rightarrow> u64 \<Rightarrow> 'f transport_inventory" where
  "build_inventory F capture_id records flows tcp_flows =
     (let (sports, dports, bytes) = foldl (\<lambda>(s, d, n) r.
            (bs_insert (ur_source_port r) s, bs_insert (ur_destination_port r) d, n + of_nat (ur_payload_length r)))
            ([], [], 0) records
      in \<lparr>tv_capture_id = capture_id, tv_tcp_flows = tcp_flows, tv_udp_flows = of_nat (length flows),
          tv_udp_packets = of_nat (length records), tv_udp_bytes = bytes, tv_source_ports = sports,
          tv_destination_ports = dports,
          tv_range = (if records = [] then None
                      else Some (foldl (fl_min F) (fl_infinity F) (map ur_timestamp records),
                                 foldl (fl_max F) (fl_neg_infinity F) (map ur_timestamp records))),
          tv_related = ''UNKNOWN'', tv_observed = records \<noteq> [], tv_external_address = ''REDACTED'',
          tv_notes = (if records = [] then [udp_class_str UdNotObservedInCapture] else [])\<rparr>)"

definition flow_analysis_of ::
  "'f float_ops \<Rightarrow> (bytes \<Rightarrow> bytes) \<Rightarrow> 'f udp_record list \<Rightarrow> 'f udp_flow \<Rightarrow> 'f flow_analysis" where
  "flow_analysis_of F sha records f =
     (let owned = filter (\<lambda>r. port_pair_key (ur_source_port r) (ur_destination_port r) = uf_port_pair f) records
      in \<lparr>fa_flow = f, fa_lengths = analyze_lengths F owned, fa_timing = analyze_timing F owned,
          fa_fingerprints = map (\<lambda>r. fingerprint F sha (ur_payload r)) owned,
          fa_prefix_notes = analyze_prefixes owned, fa_candidates = detect_sequence_candidates owned\<rparr>)"

text \<open>\<open>{:?}\<close> of a vector of integers.\<close>

definition show_u64_list :: "u64 list \<Rightarrow> string" where
  "show_u64_list vs = ''['' @ join_with '', '' (map (\<lambda>v. show_nat (unat v)) vs) @ '']''"

definition hypotheses_of :: "'f flow_analysis \<Rightarrow> string list" where
  "hypotheses_of fa =
     fa_prefix_notes fa
     @ map (\<lambda>c. ''POSSIBLE_SEQUENCE_CANDIDATE offset='' @ show_nat (sc_offset c) @ '' width='' @ show_nat (unat (sc_width c))
              @ '' values='' @ show_u64_list (sc_values c)) (fa_candidates fa)"

definition UDP_UNKNOWNS :: "string list" where
  "UDP_UNKNOWNS =
     [''UNK-UDP-TRANSPORT'', ''UNK-UDP-FRAMING'', ''UNK-UDP-SESSION-BINDING'', ''UNK-UDP-PAYLOAD'',
      ''UNK-UDP-SEQUENCING'', ''UNK-UDP-LOSS'', ''UNK-UDP-REORDERING'', ''UNK-UDP-NAT'']"

definition analyze_capture ::
  "'f float_ops \<Rightarrow> (bytes \<Rightarrow> bytes) \<Rightarrow> string \<Rightarrow> 'f udp_record list \<Rightarrow> 'f bap_timeline_event list \<Rightarrow> u64 \<Rightarrow> 'f capture_udp" where
  "analyze_capture F sha capture_id records bap tcp_flows =
     (let flows = map (\<lambda>f. snd (relate_to_session F f bap)) (analyze_flows F records);
          analyses = map (flow_analysis_of F sha records) flows;
          any_post = \<exists>f\<in>set flows. uf_relation f = session_relation_str PostStartup;
          any_before = \<exists>f\<in>set flows. uf_relation f = session_relation_str BeforeSession
      in \<lparr>cu_inventory = build_inventory F capture_id records flows tcp_flows, cu_flows = analyses,
          cu_correlations = correlate_with_bap F capture_id flows records bap,
          cu_observations =
            (if any_post then [\<lparr>tb_label = ''POST_STARTUP'', tb_observed = True,
                 tb_note = ''UDP observed after startup window (temporal only; not gameplay)''\<rparr>] else [])
            @ (if any_before then [\<lparr>tb_label = ''BEFORE_SESSION'', tb_observed = True,
                 tb_note = ''UDP observed before BAP 0x1E''\<rparr>] else [])
            @ (if records = [] then [\<lparr>tb_label = ''CAPTURE'', tb_observed = False,
                 tb_note = udp_class_str UdNotObservedInCapture\<rparr>] else []),
          cu_hypotheses = concat (map hypotheses_of analyses), cu_unknowns = UDP_UNKNOWNS\<rparr>)"

section \<open>Two captures\<close>

definition yes_no :: "bool \<Rightarrow> string" where
  "yes_no b = (if b then ''yes'' else ''no'')"

definition has_port :: "u16 \<Rightarrow> 'f capture_udp \<Rightarrow> bool" where
  "has_port p c \<longleftrightarrow> p \<in> set (tv_source_ports (cu_inventory c)) \<or> p \<in> set (tv_destination_ports (cu_inventory c))"

definition cross_capture_compare :: "'f capture_udp \<Rightarrow> 'f capture_udp \<Rightarrow> udp_comparison" where
  "cross_capture_compare a b =
     (let post = (\<lambda>c. \<exists>t\<in>set (cu_observations c). tb_label t = ''POST_STARTUP'' \<and> tb_observed t);
          a_obs = tv_observed (cu_inventory a); b_obs = tv_observed (cu_inventory b);
          a_3074 = has_port 3074 a; b_3074 = has_port 3074 b;
          a_dns = has_port 53 a; b_dns = has_port 53 b;
          a_post = post a; b_post = post b
      in \<lparr>uc_capture_a = tv_capture_id (cu_inventory a), uc_capture_b = tv_capture_id (cu_inventory b),
          uc_properties =
            [\<lparr>cx_name = ''UDP observed'', cx_present_a = yes_no a_obs, cx_present_b = yes_no b_obs,
              cx_stability = (if a_obs = b_obs then ''stable'' else ''divergent''),
              cx_note = ''Presence of any UDP datagrams''\<rparr>,
             \<lparr>cx_name = ''UDP port 3074'', cx_present_a = yes_no a_3074, cx_present_b = yes_no b_3074,
              cx_stability = (if a_3074 = b_3074 then (if a_3074 then ''stable'' else ''unknown'') else ''capture-specific''),
              cx_note = ''Port number alone is not a Destiny protocol claim''\<rparr>,
             \<lparr>cx_name = ''UDP DNS (53)'', cx_present_a = yes_no a_dns, cx_present_b = yes_no b_dns,
              cx_stability = (if a_dns \<and> b_dns then ''stable'' else ''divergent''),
              cx_note = ''DNS is ambient; not BAP''\<rparr>,
             \<lparr>cx_name = ''UDP during/after BAP session'', cx_present_a = yes_no a_post, cx_present_b = yes_no b_post,
              cx_stability = (if a_post = b_post then ''stable'' else ''divergent''),
              cx_note = ''Based on timestamps vs 0x1E startup window only''\<rparr>]\<rparr>)"

definition udp_safe_export :: "'f capture_udp list \<Rightarrow> udp_comparison \<Rightarrow> 'f safe_udp_export" where
  "udp_safe_export analyses cross =
     (let hypotheses = foldl (\<lambda>s h. bs_insert h s) [] (concat (map cu_hypotheses analyses));
          unknowns = foldl (\<lambda>s u. bs_insert u s) [] (concat (map cu_unknowns analyses))
      in \<lparr>su_version = UDP_SAFE_VERSION, su_captures = map cu_inventory analyses,
          su_flows = concat (map (\<lambda>a. map fa_flow (cu_flows a)) analyses),
          su_correlations = concat (map cu_correlations analyses),
          su_hypotheses = filter (\<lambda>s. \<not> str_contains ''192.'' s \<and> \<not> str_contains ''172.'' s) hypotheses,
          su_unknowns = unknowns, su_cross = cross,
          su_observed_any = foldl (\<lambda>any a. any \<or> tv_observed (cu_inventory a)) False analyses\<rparr>)"

definition synth_record ::
  "u64 \<Rightarrow> 'f \<Rightarrow> u16 \<Rightarrow> u16 \<Rightarrow> bytes \<Rightarrow> udp_direction \<Rightarrow> 'f udp_record" where
  "synth_record idx ts sport dport payload direction =
     \<lparr>ur_index = idx, ur_timestamp = ts, ur_direction = direction, ur_length = of_nat (8 + length payload),
      ur_source_port = sport, ur_destination_port = dport, ur_payload_length = length payload, ur_payload = payload,
      ur_source = ''REDACTED'', ur_destination = ''REDACTED''\<rparr>"

section \<open>Flows partition the datagrams\<close>

abbreviation pair_of :: "'f udp_record \<Rightarrow> string" where
  "pair_of r \<equiv> port_pair_key (ur_source_port r) (ur_destination_port r)"

lemma port_pair_symmetric: "port_pair_key p q = port_pair_key q p"
  by (simp add: port_pair_key_def Let_def split: if_splits) (use order_antisym linear in blast)

lemma flow_groups:
  "foldl (\<lambda>m r. bt_entry (pair_of r) [] (\<lambda>l. l @ [r]) m) [] rs
     = map (\<lambda>k. (k, filter (\<lambda>r. pair_of r = k) rs)) (sorted_list_of_set (pair_of ` set rs))"
proof -
  let ?m = "foldl (\<lambda>m r. bt_entry (pair_of r) [] (\<lambda>l. l @ [r]) m) [] rs"
  have push: "foldl (\<lambda>l r. l @ [r]) acc ys = acc @ ys" for acc ys :: "'a udp_record list"
    by (induction ys arbitrary: acc) simp_all
  have get: "bt_get ?m k = (case filter (\<lambda>r. pair_of r = k) rs of [] \<Rightarrow> None | ys \<Rightarrow> Some ys)" for k
    by (subst bt.fill(2) [OF bt.ok_empty]) (simp add: push split: list.split)
  have ok: "bt_ok ?m" by (rule bt.fill(1) [OF bt.ok_empty])
  have dom: "dom (bt_get ?m) = pair_of ` set rs" by (rule bt.fill_dom)
  have "the (bt_get ?m k) = filter (\<lambda>r. pair_of r = k) rs" if "k \<in> pair_of ` set rs" for k
    using that by (auto simp: get filter_empty_conv split: list.split)
  then have "map (\<lambda>k. (k, the (bt_get ?m k))) (sorted_list_of_set (pair_of ` set rs))
      = map (\<lambda>k. (k, filter (\<lambda>r. pair_of r = k) rs)) (sorted_list_of_set (pair_of ` set rs))"
    by (intro map_cong) simp_all
  then show ?thesis using bt.entries_exact [OF ok] by (simp only: dom id_apply)
qed

lemma flows_exact:
  "analyze_flows F rs =
     map (\<lambda>(i, k). flow_of F i k (filter (\<lambda>r. pair_of r = k) rs)) (enumerate 0 (sorted_list_of_set (pair_of ` set rs)))"
  unfolding analyze_flows_def Let_def flow_groups
  by (simp add: enumerate_eq_zip zip_map2 split_beta comp_def)

lemma flows_count_packets:
  "sum_list (map uf_packets (analyze_flows F rs)) = of_nat (length rs)"
  "length (analyze_flows F rs) = card (pair_of ` set rs)"
proof -
  have packets: "uf_packets (flow_of F i k ps) = of_nat (length ps)" for i k ps
    by (simp add: flow_of_def Let_def)
  have drop_index: "map (\<lambda>(i, k). g k) (enumerate n ks) = map g ks" for g :: "string \<Rightarrow> u64" and n ks
    by (induction ks arbitrary: n) simp_all
  have "map uf_packets (analyze_flows F rs)
      = map (\<lambda>(i, k). of_nat (length (filter (\<lambda>r. pair_of r = k) rs)))
          (enumerate 0 (sorted_list_of_set (pair_of ` set rs)))"
    unfolding flows_exact map_map by (rule map_cong) (auto simp: packets)
  also have "\<dots> = map of_nat (map (\<lambda>k. length (filter (\<lambda>r. pair_of r = k) rs)) (sorted_list_of_set (pair_of ` set rs)))"
    unfolding drop_index by simp
  finally have "map uf_packets (analyze_flows F rs)
      = map of_nat (map (\<lambda>k. length (filter (\<lambda>r. pair_of r = k) rs)) (sorted_list_of_set (pair_of ` set rs)))" .
  then show "sum_list (map uf_packets (analyze_flows F rs)) = of_nat (length rs)"
    by (simp only: sum_list_of_nat length_by_key)
  show "length (analyze_flows F rs) = card (pair_of ` set rs)"
    by (simp add: flows_exact)
qed

section \<open>What the export reveals\<close>

text \<open>A datagram without its addresses and without its payload after the first four bytes.\<close>

definition view :: "'f udp_record \<Rightarrow> 'f udp_record" where
  "view r = r\<lparr>ur_payload := take 4 (ur_payload r), ur_source := [], ur_destination := []\<rparr>"

lemma view_fields [simp]:
  "ur_timestamp (view r) = ur_timestamp r" "ur_direction (view r) = ur_direction r"
  "ur_source_port (view r) = ur_source_port r" "ur_destination_port (view r) = ur_destination_port r"
  "ur_payload_length (view r) = ur_payload_length r" "ur_payload (view r) = take 4 (ur_payload r)"
  by (simp_all add: view_def)

lemma filter_view: "filter (\<lambda>r. pair_of r = k) (map view rs) = map view (filter (\<lambda>r. pair_of r = k) rs)"
  by (simp add: filter_map comp_def)

lemma flow_view: "flow_of F i k (map view ps) = flow_of F i k ps"
  by (simp add: flow_of_def foldl_map comp_def)

lemma flows_view: "analyze_flows F (map view rs) = analyze_flows F rs"
  by (simp add: flows_exact filter_view flow_view image_image split_beta)

lemma prefixes_view: "analyze_prefixes (map view rs) = analyze_prefixes rs"
proof -
  have p: "prefix_hex (take 4 bs) 4 = prefix_hex bs 4" for bs
    by (simp add: prefix_hex_def min_def)
  have b: "(case take 4 bs of [] \<Rightarrow> x | b # _ \<Rightarrow> f b) = (case bs of [] \<Rightarrow> x | b # _ \<Rightarrow> f b)" for bs :: bytes and x :: "u8 list" and f
    by (cases bs) simp_all
  show ?thesis by (simp add: analyze_prefixes_def foldl_map comp_def p b)
qed

lemma candidates_view: "detect_sequence_candidates (map view rs) = detect_sequence_candidates rs"
proof -
  have "candidate_values n w be (map view rs) = candidate_values n w be rs" if "n + w \<le> 4" for n w be
  proof (induction rs)
    case (Cons r rs)
    have "slice_of n (n + w) (take 4 (ur_payload r)) = slice_of n (n + w) (ur_payload r)"
      using that by (simp add: slice_of_def drop_take min_def)
    then show ?case using Cons that by (simp add: min_def)
  qed simp
  then show ?thesis by (simp add: detect_sequence_candidates_def)
qed

lemma nearest_view: "nearest_record F ev (map view rs) = map_option (apfst view) (nearest_record F ev rs)"
proof -
  let ?step = "\<lambda>best r. (let d = fl_abs F (fl_sub F (ur_timestamp r) (te_timestamp ev))
                      in case best of None \<Rightarrow> Some (r, d) | Some (b, bd) \<Rightarrow> if fl_less F d bd then Some (r, d) else best)"
  have "foldl ?step (map_option (apfst view) best) (map view rs) = map_option (apfst view) (foldl ?step best rs)" for best
  proof (induction rs arbitrary: best)
    case (Cons r rs)
    have "?step (map_option (apfst view) best) (view r) = map_option (apfst view) (?step best r)"
      by (cases best) (auto simp: Let_def split_beta)
    then show ?case using Cons.IH by simp
  qed simp
  from this [of None] show ?thesis by (simp add: nearest_record_def)
qed

lemma correlations_view: "correlate_with_bap F c fs (map view rs) bap = correlate_with_bap F c fs rs bap"
proof -
  have "bap_correlation F c fs (map view rs) mid ev = bap_correlation F c fs rs mid ev" for mid ev
    by (cases "nearest_record F ev rs") (auto simp: bap_correlation_def Let_def nearest_view)
  then have "bap_correlation F c fs (map view rs) = bap_correlation F c fs rs" by (intro ext)
  then show ?thesis by (simp add: correlate_with_bap_def)
qed

lemma inventory_view: "build_inventory F c (map view rs) fs n = build_inventory F c rs fs n"
proof -
  have step: "(\<lambda>a x. (case a of (s, d, m) \<Rightarrow> \<lambda>r. (bs_insert (ur_source_port r) s, bs_insert (ur_destination_port r) d,
        m + (of_nat (ur_payload_length r) :: u64))) (view x))
      = (\<lambda>(s, d, m) r. (bs_insert (ur_source_port r) s, bs_insert (ur_destination_port r) d,
        m + of_nat (ur_payload_length r)))"
    by (intro ext) (simp add: split_beta)
  show ?thesis unfolding build_inventory_def foldl_map step by (simp add: comp_def foldl_map)
qed

lemma hypotheses_view: "hypotheses_of (flow_analysis_of F sha' (map view rs) f) = hypotheses_of (flow_analysis_of F sha rs f)"
  by (simp add: hypotheses_of_def flow_analysis_of_def Let_def filter_view prefixes_view candidates_view)

lemma capture_view:
  "cu_inventory (analyze_capture F sha' c (map view rs) bap n) = cu_inventory (analyze_capture F sha c rs bap n)"
  "map fa_flow (cu_flows (analyze_capture F sha' c (map view rs) bap n)) = map fa_flow (cu_flows (analyze_capture F sha c rs bap n))"
  "cu_correlations (analyze_capture F sha' c (map view rs) bap n) = cu_correlations (analyze_capture F sha c rs bap n)"
  "cu_observations (analyze_capture F sha' c (map view rs) bap n) = cu_observations (analyze_capture F sha c rs bap n)"
  "cu_hypotheses (analyze_capture F sha' c (map view rs) bap n) = cu_hypotheses (analyze_capture F sha c rs bap n)"
  "cu_unknowns (analyze_capture F sha' c (map view rs) bap n) = cu_unknowns (analyze_capture F sha c rs bap n)"
proof -
  have flow: "fa_flow (flow_analysis_of F s xs f) = f" for s xs f
    by (simp add: flow_analysis_of_def Let_def)
  show "cu_inventory (analyze_capture F sha' c (map view rs) bap n) = cu_inventory (analyze_capture F sha c rs bap n)"
    "map fa_flow (cu_flows (analyze_capture F sha' c (map view rs) bap n)) = map fa_flow (cu_flows (analyze_capture F sha c rs bap n))"
    "cu_correlations (analyze_capture F sha' c (map view rs) bap n) = cu_correlations (analyze_capture F sha c rs bap n)"
    "cu_observations (analyze_capture F sha' c (map view rs) bap n) = cu_observations (analyze_capture F sha c rs bap n)"
    "cu_hypotheses (analyze_capture F sha' c (map view rs) bap n) = cu_hypotheses (analyze_capture F sha c rs bap n)"
    "cu_unknowns (analyze_capture F sha' c (map view rs) bap n) = cu_unknowns (analyze_capture F sha c rs bap n)"
    by (simp_all add: analyze_capture_def Let_def flows_view inventory_view correlations_view flow comp_def
        hypotheses_view [of F sha' rs _ sha])
qed

text \<open>So the export depends on no address, and on a payload through its first four bytes only.\<close>

lemma export_view:
  "udp_safe_export (map (\<lambda>(c, rs, bap, n). analyze_capture F sha' c (map view rs) bap n) captures)
     (cross_capture_compare (analyze_capture F sha' ca (map view xs) bap_a na) (analyze_capture F sha' cb (map view ys) bap_b nb))
   = udp_safe_export (map (\<lambda>(c, rs, bap, n). analyze_capture F sha c rs bap n) captures)
     (cross_capture_compare (analyze_capture F sha ca xs bap_a na) (analyze_capture F sha cb ys bap_b nb))"
proof -
  have cross: "cross_capture_compare (analyze_capture F sha' ca (map view xs) bap_a na) (analyze_capture F sha' cb (map view ys) bap_b nb)
      = cross_capture_compare (analyze_capture F sha ca xs bap_a na) (analyze_capture F sha cb ys bap_b nb)"
    unfolding cross_capture_compare_def has_port_def
    by (simp add: capture_view(1) [of F sha' _ _ _ _ sha] capture_view(4) [of F sha' _ _ _ _ sha])
  show ?thesis
    unfolding cross udp_safe_export_def Let_def
    by (simp add: comp_def split_beta foldl_map capture_view [of F sha' _ _ _ _ sha])
qed

section \<open>The flows of a capture\<close>

lemma show_nat_digits: "c \<in> set (show_nat n) \<Longrightarrow> 48 \<le> (of_char c :: nat) \<and> (of_char c :: nat) \<le> 57"
proof (induction n rule: show_nat.induct)
  case (1 n)
  have "n mod 10 \<le> 9" using mod_less_divisor [of 10 n] by linarith
  with 1 show ?case
    by (cases "n < 10") (auto simp: show_nat.simps [of n] of_char_of take_bit_nat_eq_self)
qed

lemma split_at_slash:
  "a @ c # b = a' @ c # b' \<Longrightarrow> c \<notin> set a \<Longrightarrow> c \<notin> set a' \<Longrightarrow> a = a' \<and> b = b'"
  by (induction a arbitrary: a') (auto simp: Cons_eq_append_conv append_eq_Cons_conv)

lemma port_pair_exact: "port_pair_key p q = port_pair_key p' q' \<longleftrightarrow> {p, q} = {p', q'}"
proof -
  have slash: "CHR ''/'' \<notin> set (show_nat n)" for n
    using show_nat_digits [of "CHR ''/''" n] by auto
  have key: "port_pair_key a b = show_nat (unat (min a b)) @ CHR ''/'' # show_nat (unat (max a b))" for a b
    by (auto simp: port_pair_key_def Let_def min_def max_def)
  have "port_pair_key p q = port_pair_key p' q' \<longleftrightarrow> min p q = min p' q' \<and> max p q = max p' q'"
    using split_at_slash [of "show_nat (unat (min p q))" "CHR ''/''" "show_nat (unat (max p q))"
        "show_nat (unat (min p' q'))" "show_nat (unat (max p' q'))"] slash
    by (auto simp: key show_nat_inject word_unat_eq_iff)
  also have "\<dots> \<longleftrightarrow> {p, q} = {p', q'}"
    by (auto simp: min_def max_def doubleton_eq_iff split: if_splits)
  finally show ?thesis .
qed

definition datagrams_of :: "'f udp_record list \<Rightarrow> 'f udp_flow \<Rightarrow> 'f udp_record list" where
  "datagrams_of rs f = filter (\<lambda>r. pair_of r = uf_port_pair f) rs"

lemma flow_of_fields:
  "uf_id (flow_of F i k ps) = ''UDP_FLOW_'' @ show_two (i + 1)" "uf_port_pair (flow_of F i k ps) = k"
  "uf_packets (flow_of F i k ps) = of_nat (length ps)"
  "uf_bytes (flow_of F i k ps) = sum_list (map (\<lambda>p. of_nat (ur_payload_length p)) ps)"
  "uf_direction (flow_of F i k ps) =
     (case remdups (map (udp_direction_str \<circ> ur_direction) ps) of [d] \<Rightarrow> d | _ \<Rightarrow> ''MIXED_OR_UNKNOWN'')"
proof -
  let ?ds = "map (udp_direction_str \<circ> ur_direction) ps"
  have dirs: "foldl (\<lambda>s p. bs_insert (udp_direction_str (ur_direction p)) s) [] ps = sorted_list_of_set (set ?ds)"
    using bs_insert_fold [of "{}" "udp_direction_str \<circ> ur_direction" ps] by (simp add: comp_def)
  have len: "length (sorted_list_of_set (set ?ds)) = length (remdups ?ds)"
    by (simp only: length_sorted_list_of_set length_remdups_card_conv)
  show "uf_direction (flow_of F i k ps) =
     (case remdups ?ds of [d] \<Rightarrow> d | _ \<Rightarrow> ''MIXED_OR_UNKNOWN'')"
  proof (cases "length (remdups ?ds) = 1")
    case True
    then obtain d where d: "remdups ?ds = [d]" by (metis One_nat_def length_0_conv length_Suc_conv)
    then have "set ?ds = {d}" using set_remdups [of ?ds] by simp
    then show ?thesis using d len by (simp add: flow_of_def Let_def dirs del: set_map)
  next
    case False
    then show ?thesis using len
      by (auto simp: flow_of_def Let_def dirs simp del: set_map split: list.splits)
  qed
qed (simp_all add: flow_of_def Let_def)

lemma flows_by_key:
  assumes "\<And>i k. g (flow_of F i k (filter (\<lambda>r. pair_of r = k) rs)) = h k"
  shows "map g (analyze_flows F rs) = map h (sorted_list_of_set (pair_of ` set rs))"
proof -
  have "map g (analyze_flows F rs) = map h (map snd (enumerate 0 (sorted_list_of_set (pair_of ` set rs))))"
    unfolding flows_exact map_map by (rule map_cong) (auto simp: assms)
  then show ?thesis by simp
qed

lemma flows_fields:
  "map uf_id (analyze_flows F rs) = map (\<lambda>i. ''UDP_FLOW_'' @ show_two (i + 1)) [0..<length (analyze_flows F rs)]"
  "map uf_port_pair (analyze_flows F rs) = sorted_list_of_set (pair_of ` set rs)"
  "map uf_packets (analyze_flows F rs)
     = map (\<lambda>k. of_nat (length (filter (\<lambda>r. pair_of r = k) rs))) (sorted_list_of_set (pair_of ` set rs))"
  "map uf_bytes (analyze_flows F rs)
     = map (\<lambda>k. sum_list (map (\<lambda>r. of_nat (ur_payload_length r)) (filter (\<lambda>r. pair_of r = k) rs)))
         (sorted_list_of_set (pair_of ` set rs))"
  "map uf_direction (analyze_flows F rs)
     = map (\<lambda>k. case remdups (map (udp_direction_str \<circ> ur_direction) (filter (\<lambda>r. pair_of r = k) rs)) of
          [d] \<Rightarrow> d | _ \<Rightarrow> ''MIXED_OR_UNKNOWN'') (sorted_list_of_set (pair_of ` set rs))"
proof -
  let ?ks = "sorted_list_of_set (pair_of ` set rs)"
  have "map uf_id (analyze_flows F rs) = map (\<lambda>i. ''UDP_FLOW_'' @ show_two (i + 1)) (map fst (enumerate 0 ?ks))"
    unfolding flows_exact map_map by (rule map_cong) (auto simp: flow_of_fields)
  then show "map uf_id (analyze_flows F rs) = map (\<lambda>i. ''UDP_FLOW_'' @ show_two (i + 1)) [0..<length (analyze_flows F rs)]"
    by (simp add: flows_exact)
  show "map uf_port_pair (analyze_flows F rs) = ?ks"
    using flows_by_key [of uf_port_pair F rs "\<lambda>k. k"] by (simp add: flow_of_fields(2))
qed (rule flows_by_key, rule flow_of_fields)+

lemma inventory_totals:
  "tv_udp_flows (build_inventory F c rs fs n) = of_nat (length fs)"
  "tv_udp_packets (build_inventory F c rs fs n) = of_nat (length rs)"
  "tv_udp_bytes (build_inventory F c rs fs n) = sum_list (map (\<lambda>r. of_nat (ur_payload_length r)) rs)"
proof -
  have "snd (snd (foldl (\<lambda>(s, d, n) r. (bs_insert (ur_source_port r) s, bs_insert (ur_destination_port r) d,
      n + of_nat (ur_payload_length r))) (s, d, n) rs)) = n + sum_list (map (\<lambda>r. of_nat (ur_payload_length r)) rs)"
    for s d and n :: u64
    by (induction rs arbitrary: s d n) (simp_all add: ac_simps)
  from this [of "[]" "[]" 0]
  show "tv_udp_bytes (build_inventory F c rs fs n) = sum_list (map (\<lambda>r. of_nat (ur_payload_length r)) rs)"
    by (simp add: build_inventory_def split_beta)
qed (simp_all add: build_inventory_def split_beta)

lemma datagrams_by_key:
  "map (\<lambda>f. g (datagrams_of rs f)) fs = map (\<lambda>k. g (filter (\<lambda>r. pair_of r = k) rs)) (map uf_port_pair fs)"
  by (simp add: datagrams_of_def)

lemma sum_of_parts:
  "sum_list (map (\<lambda>f. of_nat (length (part f)) :: u64) fs) = of_nat (length (concat (map part fs)))"
  "sum_list (map (\<lambda>f. sum_list (map g (part f)) :: u64) fs) = sum_list (map g (concat (map part fs)))"
  by (induction fs) simp_all

lemma sum_list_mset: "mset xs = mset ys \<Longrightarrow> sum_list (map g xs) = (sum_list (map g ys) :: u64)"
  by (metis mset_map sum_mset_sum_list)

text \<open>
  C39. The flows of an analysed capture partition its datagrams. Two datagrams are in one flow
  exactly when they use the same two ports, in whatever direction; there is one flow per such pair,
  in the order of the keys and numbered from one; each has the number, the bytes and the common
  direction of exactly its own datagrams, every datagram is in one of them, and the totals of the
  inventory are the sums over the flows.
\<close>

theorem capture_flows_exact:
  "let c = analyze_capture F sha cid rs bap n; fs = map fa_flow (cu_flows c) in
    (pair_of r1 = pair_of r2
       \<longleftrightarrow> {ur_source_port r1, ur_destination_port r1} = {ur_source_port r2, ur_destination_port r2})
    \<and> map uf_port_pair fs = sorted_list_of_set (pair_of ` set rs)
    \<and> map uf_id fs = map (\<lambda>i. ''UDP_FLOW_'' @ show_two (i + 1)) [0..<length fs]
    \<and> mset (concat (map (datagrams_of rs) fs)) = mset rs
    \<and> map uf_packets fs = map (\<lambda>f. of_nat (length (datagrams_of rs f))) fs
    \<and> map uf_bytes fs = map (\<lambda>f. sum_list (map (\<lambda>r. of_nat (ur_payload_length r)) (datagrams_of rs f))) fs
    \<and> map uf_direction fs = map (\<lambda>f. case remdups (map (udp_direction_str \<circ> ur_direction) (datagrams_of rs f)) of
          [d] \<Rightarrow> d | _ \<Rightarrow> ''MIXED_OR_UNKNOWN'') fs
    \<and> tv_udp_flows (cu_inventory c) = of_nat (length fs)
    \<and> tv_udp_packets (cu_inventory c) = sum_list (map uf_packets fs)
    \<and> tv_udp_bytes (cu_inventory c) = sum_list (map uf_bytes fs)"
proof -
  let ?c = "analyze_capture F sha cid rs bap n" and ?ks = "sorted_list_of_set (pair_of ` set rs)"
  let ?fs = "map fa_flow (cu_flows ?c)"
  have fs: "?fs = map (\<lambda>f. snd (relate_to_session F f bap)) (analyze_flows F rs)"
    by (simp add: analyze_capture_def flow_analysis_of_def Let_def comp_def)
  have keep: "map uf_port_pair ?fs = map uf_port_pair (analyze_flows F rs)"
      "map uf_id ?fs = map uf_id (analyze_flows F rs)" "map uf_packets ?fs = map uf_packets (analyze_flows F rs)"
      "map uf_bytes ?fs = map uf_bytes (analyze_flows F rs)" "map uf_direction ?fs = map uf_direction (analyze_flows F rs)"
    unfolding fs by (simp_all add: relate_to_session_def Let_def)
  note flows = keep(1,3-5) [unfolded flows_fields(2-5)]
  have ids: "map uf_id ?fs = map (\<lambda>i. ''UDP_FLOW_'' @ show_two (i + 1)) [0..<length ?fs]"
    using keep(2) flows_fields(1) [of F rs] by (simp add: fs)
  have own: "map (datagrams_of rs) ?fs = map (\<lambda>k. filter (\<lambda>r. pair_of r = k) rs) ?ks"
    using datagrams_by_key [of "\<lambda>ps. ps" rs ?fs] unfolding flows(1) by simp
  have all: "mset (concat (map (datagrams_of rs) ?fs)) = mset rs"
    unfolding own by (rule mset_by_key) simp_all
  have inv: "cu_inventory ?c = build_inventory F cid rs ?fs n"
    unfolding fs by (simp add: analyze_capture_def Let_def)
  have packets: "map uf_packets ?fs = map (\<lambda>f. of_nat (length (datagrams_of rs f))) ?fs"
    unfolding datagrams_by_key [of "\<lambda>ps. of_nat (length ps) :: u64"] flows(1) by (rule flows(2))
  have bytes: "map uf_bytes ?fs = map (\<lambda>f. sum_list (map (\<lambda>r. of_nat (ur_payload_length r)) (datagrams_of rs f))) ?fs"
    unfolding datagrams_by_key [of "\<lambda>ps. sum_list (map (\<lambda>r. of_nat (ur_payload_length r)) ps) :: u64"] flows(1) by (rule flows(3))
  have directions: "map uf_direction ?fs = map (\<lambda>f. case remdups (map (udp_direction_str \<circ> ur_direction) (datagrams_of rs f)) of
          [d] \<Rightarrow> d | _ \<Rightarrow> ''MIXED_OR_UNKNOWN'') ?fs"
    unfolding datagrams_by_key [of "\<lambda>ps. case remdups (map (udp_direction_str \<circ> ur_direction) ps) of
          [d] \<Rightarrow> d | _ \<Rightarrow> ''MIXED_OR_UNKNOWN''"] flows(1) by (rule flows(4))
  have "sum_list (map uf_packets ?fs) = of_nat (length rs)"
    unfolding packets sum_of_parts(1) mset_eq_length [OF all] ..
  moreover have "sum_list (map uf_bytes ?fs) = sum_list (map (\<lambda>r. of_nat (ur_payload_length r)) rs)"
    unfolding bytes sum_of_parts(2) by (rule sum_list_mset [OF all])
  ultimately show ?thesis
    unfolding Let_def using port_pair_exact flows(1) ids all packets bytes directions
    by (simp only: inv inventory_totals)
qed

text \<open>Three datagrams, a reply among them: two flows.\<close>

lemma demo_flows:
  "let r = (\<lambda>p q d n. synth_record 0 0 p q (replicate n 0) d);
       rs = [r 3074 53 UdpC2S 4, r 3074 3075 UdpC2S 2, r 53 3074 UdpS2C 3];
       fs = map fa_flow (cu_flows (analyze_capture fixed_point id ''c'' rs [] 0))
   in map uf_id fs = [''UDP_FLOW_01'', ''UDP_FLOW_02''] \<and> map uf_port_pair fs = [''3074/3075'', ''53/3074'']
     \<and> map uf_packets fs = [1, 2] \<and> map uf_bytes fs = [2, 7] \<and> map uf_direction fs = [''C2S'', ''MIXED_OR_UNKNOWN'']"
  by code_simp

end
