(* ===== verification/Compat_Matrix.thy ===== *)
theory Compat_Matrix
  imports Message_Registry Ordered_Map
begin

text \<open>
  \<open>network/src/compatibility_matrix.rs\<close>: the compatibility matrix, its validation, the refused
  promotions, the metrics and the report. The JSON form of the matrix is serde's. The theory gives
  the exact condition under which a matrix is valid and what follows for the metrics: no validated
  matrix counts anything as verified against a real client or server.
\<close>

section \<open>Data\<close>

definition MATRIX_VERSION :: string where "MATRIX_VERSION = ''1.0''"
definition CAPTURE_A :: string where "CAPTURE_A = ''20260529-003132''"
definition CAPTURE_B :: string where "CAPTURE_B = ''20260608-231100''"

datatype compat_area =
  ArBapFraming | ArTcpStream | ArServiceHandshake | ArSessionLogin | ArSessionCrypto |
   ArEncryptedHandshake | ArNatReporting | ArKeepalive | ArMessageCodec | ArMessageDispatch |
   ArProtocolState | ArLocalServer | ArCompatibilityClient | ArExternalClientBoundary |
   ArObservationHarness | ArUdpTransport | ArGameplayNetworking | ArSignon | ArRealDestinyClient |
   ArRealDestinyServer

fun compat_area_str :: "compat_area \<Rightarrow> string" where
  "compat_area_str ArBapFraming = ''BAP_FRAMING''"
| "compat_area_str ArTcpStream = ''TCP_STREAM''"
| "compat_area_str ArServiceHandshake = ''SERVICE_HANDSHAKE''"
| "compat_area_str ArSessionLogin = ''SESSION_LOGIN''"
| "compat_area_str ArSessionCrypto = ''SESSION_CRYPTO''"
| "compat_area_str ArEncryptedHandshake = ''ENCRYPTED_HANDSHAKE''"
| "compat_area_str ArNatReporting = ''NAT_REPORTING''"
| "compat_area_str ArKeepalive = ''KEEPALIVE''"
| "compat_area_str ArMessageCodec = ''MESSAGE_CODEC''"
| "compat_area_str ArMessageDispatch = ''MESSAGE_DISPATCH''"
| "compat_area_str ArProtocolState = ''PROTOCOL_STATE''"
| "compat_area_str ArLocalServer = ''LOCAL_SERVER''"
| "compat_area_str ArCompatibilityClient = ''COMPATIBILITY_CLIENT''"
| "compat_area_str ArExternalClientBoundary = ''EXTERNAL_CLIENT_BOUNDARY''"
| "compat_area_str ArObservationHarness = ''OBSERVATION_HARNESS''"
| "compat_area_str ArUdpTransport = ''UDP_TRANSPORT''"
| "compat_area_str ArGameplayNetworking = ''GAMEPLAY_NETWORKING''"
| "compat_area_str ArSignon = ''SIGNON''"
| "compat_area_str ArRealDestinyClient = ''REAL_DESTINY_CLIENT''"
| "compat_area_str ArRealDestinyServer = ''REAL_DESTINY_SERVER''"

definition all_areas :: "compat_area list" where
  "all_areas =
     [ArBapFraming, ArTcpStream, ArServiceHandshake, ArSessionLogin, ArSessionCrypto,
      ArEncryptedHandshake, ArNatReporting, ArKeepalive, ArMessageCodec, ArMessageDispatch,
      ArProtocolState, ArLocalServer, ArCompatibilityClient, ArExternalClientBoundary,
      ArObservationHarness, ArUdpTransport, ArGameplayNetworking, ArSignon, ArRealDestinyClient,
      ArRealDestinyServer]"

text \<open>The order that is derived for the type is the one of its constructors.\<close>

fun index_in :: "'a \<Rightarrow> 'a list \<Rightarrow> nat" where
  "index_in x [] = 0"
| "index_in x (y # ys) = (if x = y then 0 else Suc (index_in x ys))"

lemma area_listed: "a \<in> set all_areas"
  by (cases a) (simp_all add: all_areas_def)

lemma index_in_inject: "x \<in> set xs \<Longrightarrow> y \<in> set xs \<Longrightarrow> index_in x xs = index_in y xs \<longleftrightarrow> x = y"
  by (induction xs) auto

instantiation compat_area :: linorder
begin

definition less_eq_compat_area :: "compat_area \<Rightarrow> compat_area \<Rightarrow> bool" where
  "less_eq_compat_area a b \<longleftrightarrow> index_in a all_areas \<le> index_in b all_areas"

definition less_compat_area :: "compat_area \<Rightarrow> compat_area \<Rightarrow> bool" where
  "less_compat_area a b \<longleftrightarrow> index_in a all_areas < index_in b all_areas"

instance
  by standard (auto simp: less_eq_compat_area_def less_compat_area_def index_in_inject area_listed)

end

datatype ev_status =
  EvConfirmed | EvObserved | EvStructural | EvHypothesis | EvUnknown | EvBlocked

fun ev_status_str :: "ev_status \<Rightarrow> string" where
  "ev_status_str EvConfirmed = ''CONFIRMED''"
| "ev_status_str EvObserved = ''OBSERVED''"
| "ev_status_str EvStructural = ''STRUCTURAL''"
| "ev_status_str EvHypothesis = ''HYPOTHESIS''"
| "ev_status_str EvUnknown = ''UNKNOWN''"
| "ev_status_str EvBlocked = ''BLOCKED''"

datatype is_status =
  IsImplemented | IsPartial | IsNotImplemented | IsBlocked

fun is_status_str :: "is_status \<Rightarrow> string" where
  "is_status_str IsImplemented = ''IMPLEMENTED''"
| "is_status_str IsPartial = ''PARTIAL''"
| "is_status_str IsNotImplemented = ''NOT_IMPLEMENTED''"
| "is_status_str IsBlocked = ''BLOCKED''"

datatype vs_status =
  VsVerified | VsNotVerified | VsBlocked

fun vs_status_str :: "vs_status \<Rightarrow> string" where
  "vs_status_str VsVerified = ''VERIFIED''"
| "vs_status_str VsNotVerified = ''NOT_VERIFIED''"
| "vs_status_str VsBlocked = ''BLOCKED''"

datatype compat_scope =
  ScOfflineCapture | ScSyntheticLocal | ScLocalTcp | ScExternalBoundary | ScRealClient | ScRealServer

fun compat_scope_str :: "compat_scope \<Rightarrow> string" where
  "compat_scope_str ScOfflineCapture = ''OFFLINE_CAPTURE''"
| "compat_scope_str ScSyntheticLocal = ''SYNTHETIC_LOCAL''"
| "compat_scope_str ScLocalTcp = ''LOCAL_TCP''"
| "compat_scope_str ScExternalBoundary = ''EXTERNAL_BOUNDARY''"
| "compat_scope_str ScRealClient = ''REAL_CLIENT''"
| "compat_scope_str ScRealServer = ''REAL_SERVER''"

datatype real_world =
  RwNotProven | RwProven

fun real_world_str :: "real_world \<Rightarrow> string" where
  "real_world_str RwNotProven = ''NOT_PROVEN''"
| "real_world_str RwProven = ''PROVEN''"

definition is_real_world :: "compat_scope \<Rightarrow> bool" where
  "is_real_world s \<longleftrightarrow> s \<in> {ScRealClient, ScRealServer}"

record compat_entry =
  ma_id :: string
  ma_area :: compat_area
  ma_name :: string
  ma_evidence :: ev_status
  ma_implementation :: is_status
  ma_verification :: vs_status
  ma_scopes :: "compat_scope list"
  ma_evidence_refs :: "string list"
  ma_verification_refs :: "string list"
  ma_dependencies :: "string list"
  ma_notes :: "string list"
  ma_blocking_reason :: "string option"
  ma_semantic_claim :: "string option"
  ma_real_client :: real_world
  ma_real_server :: real_world
  ma_message_id :: "u16 option"

record compat_matrix =
  mx_version :: string
  mx_entries :: "compat_entry list"
  mx_sources :: "string list"
  mx_notes :: "string list"

record matrix_metrics =
  mm_entries :: u64
  mm_confirmed :: u64
  mm_observed :: u64
  mm_structural :: u64
  mm_hypothesis :: u64
  mm_implemented :: u64
  mm_verified :: u64
  mm_blocked :: u64
  mm_unknown :: u64
  mm_offline_verified :: u64
  mm_real_client_verified :: u64
  mm_real_server_verified :: u64

datatype matrix_error =
  DuplicateId string | VerifiedWithoutEvidence string | ConfirmedWithoutEvidence string
  | VerifiedRealClient string | VerifiedRealServer string | BlockedWithoutReason string
  | UnknownWithSemantics string | IncompatibleStatuses string | ImpossibleScope string
  | RealWorldProven string | PromotionRefused string | MissingArea string | MissingMessageId u16
  | MatrixOther string

fun show_matrix_error :: "matrix_error \<Rightarrow> string" where
  "show_matrix_error (DuplicateId s) = ''duplicate entry id: '' @ s"
| "show_matrix_error (VerifiedWithoutEvidence s) = ''VERIFIED without verification_refs: '' @ s"
| "show_matrix_error (ConfirmedWithoutEvidence s) = ''CONFIRMED without evidence_refs: '' @ s"
| "show_matrix_error (VerifiedRealClient s) = ''VERIFIED REAL_CLIENT without real-client evidence: '' @ s"
| "show_matrix_error (VerifiedRealServer s) = ''VERIFIED REAL_SERVER without real-server evidence: '' @ s"
| "show_matrix_error (BlockedWithoutReason s) = ''BLOCKED without blocking_reason: '' @ s"
| "show_matrix_error (UnknownWithSemantics s) = ''UNKNOWN with invented semantic_claim: '' @ s"
| "show_matrix_error (IncompatibleStatuses s) = ''incompatible statuses: '' @ s"
| "show_matrix_error (ImpossibleScope s) = ''impossible scope combination: '' @ s"
| "show_matrix_error (RealWorldProven s) = ''real-world claim Proven without evidence: '' @ s"
| "show_matrix_error (PromotionRefused s) = ''promotion refused: '' @ s"
| "show_matrix_error (MissingArea s) = ''missing required area: '' @ s"
| "show_matrix_error (MissingMessageId i) = ''missing message id entry: 0x'' @ show_hex_u16 i"
| "show_matrix_error (MatrixOther s) = ''matrix: '' @ s"

section \<open>The matrix\<close>

text \<open>The dash U+2014 of some notes, three bytes in UTF-8.\<close>

definition em_dash :: string where
  "em_dash = [CHR 0xE2, CHR 0x80, CHR 0x94]"

definition src_captures :: "string list" where
  "src_captures = [''capture:'' @ CAPTURE_A, ''capture:'' @ CAPTURE_B]"

definition src_local :: "string list" where
  "src_local = src_captures @ [''local_synthetic_tests''] @ [''local_replay'']"

definition entry_of ::
  "string \<Rightarrow> compat_area \<Rightarrow> string \<Rightarrow> ev_status \<Rightarrow> is_status \<Rightarrow> vs_status \<Rightarrow> compat_scope list \<Rightarrow> string list
   \<Rightarrow> string list \<Rightarrow> string list \<Rightarrow> string option \<Rightarrow> u16 option \<Rightarrow> compat_entry" where
  "entry_of eid area name evidence implementation verification scopes evidence_refs verification_refs notes
     blocking_reason message_id =
     \<lparr>ma_id = eid, ma_area = area, ma_name = name, ma_evidence = evidence, ma_implementation = implementation,
      ma_verification = verification, ma_scopes = scopes, ma_evidence_refs = evidence_refs,
      ma_verification_refs = verification_refs, ma_dependencies = [], ma_notes = notes,
      ma_blocking_reason = blocking_reason, ma_semantic_claim = None, ma_real_client = RwNotProven,
      ma_real_server = RwNotProven, ma_message_id = message_id\<rparr>"

definition message_entry_of ::
  "u16 \<Rightarrow> compat_area \<Rightarrow> ev_status \<Rightarrow> is_status \<Rightarrow> vs_status \<Rightarrow> compat_scope list \<Rightarrow> string list
   \<Rightarrow> string list \<Rightarrow> string list \<Rightarrow> compat_entry" where
  "message_entry_of i area evidence implementation verification scopes evidence_refs verification_refs notes =
     (let hex = ''0x'' @ show_hex_u16 i
      in entry_of (''msg_'' @ hex) area (''Message '' @ hex) evidence implementation verification scopes
           evidence_refs verification_refs notes None (Some i))"

definition protocol_entries :: "compat_entry list" where
  "protocol_entries =
     [entry_of ''bap_framing'' ArBapFraming ''BAP framing [0x01][kind][body_len BE][body]'' EvConfirmed
       IsImplemented VsVerified [ScOfflineCapture, ScSyntheticLocal, ScLocalTcp] src_local
       [''bap-session-verify'', ''bap-stream-verify'', ''framing tests'']
       [''kind 1 = encrypted; kind 2 = clear'', ''BapStreamDecoder implemented and capture-validated'',
       ''Local compatibility is not real-client compatibility.''] None None,
      entry_of ''tcp_stream'' ArTcpStream ''TCP stream byte source + fragmentation'' EvConfirmed
       IsImplemented VsVerified [ScSyntheticLocal, ScLocalTcp] [''local_synthetic_tests'',
       ''TcpByteSource'', ''local_replay''] [''tcp_byte_source tests'', ''local-server-e2e'',
       ''bap-stream-verify'']
       [''TcpByteSource; fragmentation; multiple frames per read; EOF/incomplete'',
       ''No external network connections'', ''LOCAL_TCP does not imply REAL_SERVER.''] None None,
      entry_of ''service_handshake_pair'' ArServiceHandshake ''0x1E/0x1F service handshake'' EvConfirmed
       IsImplemented VsVerified [ScOfflineCapture, ScSyntheticLocal, ScLocalTcp] src_local
       [''local-replay'', ''stateful-server-verify'', ''compatibility-client-verify'']
       [''Observed + codec + stateful server + local replay verified'',
       ''Real server compatibility NOT_PROVEN''] None None,
      entry_of ''session_login_pair'' ArSessionLogin ''0x19/0x1A session login'' EvConfirmed
       IsImplemented VsVerified [ScOfflineCapture, ScSyntheticLocal, ScLocalTcp] src_local
       [''session-crypto-verify'', ''local-replay'', ''bap-session-verify'']
       [''Session login structure observed; CBC/HMAC validated for existing captures'',
       ''Record layout validated; full content semantics still limited'',
       ''Capture validation is not server compatibility.''] None None,
      entry_of ''session_crypto_context'' ArSessionCrypto ''SessionCryptoContext AES-GCM'' EvConfirmed
       IsImplemented VsVerified [ScOfflineCapture, ScSyntheticLocal, ScLocalTcp] src_local
       [''gcm-sequence-verify'', ''session_context tests'', ''bap-session-verify'']
       [''AES-GCM; key 16; nonce 12'', ''C2S base = session_nonce XOR last_byte(1); S2C = identity'',
       ''Independent per-direction counters'', ''Scope limited to available capture evidence '' @
       em_dash @ '' not universal Destiny rules''] None None]"

definition layer_entries :: "compat_entry list" where
  "layer_entries =
     [entry_of ''encrypted_handshake_pair'' ArEncryptedHandshake ''0x79/0x7A encrypted handshake''
       EvConfirmed IsImplemented VsVerified [ScOfflineCapture, ScSyntheticLocal, ScLocalTcp] src_local
       [''gcm-first-frame-verify'', ''gcm-sequence-verify'', ''local-replay'']
       [''AES-GCM decrypt validated; AAD empty compatible with verified captures'',
       ''Real-client compatibility NOT_PROVEN''] None None,
      entry_of ''nat_reporting_pair'' ArNatReporting ''0x12E/0x12F NAT reporting candidates'' EvObserved
       IsImplemented VsVerified [ScOfflineCapture, ScSyntheticLocal, ScLocalTcp] src_captures
       [''message-correlation-verify'', ''stateful-server-verify'', ''message-codec-verify'']
       [''Observed; structure/correlation available; dispatch implemented'',
       ''Full semantics still limited '' @ em_dash @ '' Observed does not mean understood.''] None None,
      entry_of ''keepalive_pair'' ArKeepalive ''0xFA/0xFB keepalive candidates'' EvConfirmed
       IsImplemented VsVerified [ScOfflineCapture, ScSyntheticLocal, ScLocalTcp] src_local
       [''state-machine-verify'', ''stateful-server-verify'', ''observation-verify'']
       [''Request/response candidate; local response policy; keepalive model'',
       ''Universal timing NOT confirmed '' @ em_dash @ '' temporal intervals observational only''] None
       None,
      entry_of ''message_codec_layer'' ArMessageCodec ''Message codec + registry'' EvConfirmed
       IsImplemented VsVerified [ScOfflineCapture, ScSyntheticLocal] src_local
       [''message-codec-verify''] [''Registry reuses EXPECTED_MESSAGE_IDS; opaque IDs preserve raw'']
       None None,
      entry_of ''message_dispatch_layer'' ArMessageDispatch ''Message dispatcher (observational)''
       EvConfirmed IsImplemented VsVerified [ScSyntheticLocal, ScLocalTcp] [''local_synthetic_tests'']
       [''message_dispatcher tests'', ''stateful-server-verify'']
       [''Does not invent handlers for unknown IDs''] None None,
      entry_of ''protocol_state_layer'' ArProtocolState ''ProtocolState + observational SM'' EvConfirmed
       IsImplemented VsVerified [ScOfflineCapture, ScSyntheticLocal, ScLocalTcp] src_local
       [''state-machine-verify'', ''stateful-server-verify'']
       [''M3.4 observational SM separate from M4.5 local ProtocolState'',
       ''Implemented does not mean compatible.''] None None]"

definition boundary_entries :: "compat_entry list" where
  "boundary_entries =
     [entry_of ''local_server_layer'' ArLocalServer ''LocalBapServer + replay'' EvConfirmed
       IsImplemented VsVerified [ScSyntheticLocal, ScLocalTcp] [''local_synthetic_tests'',
       ''local_replay''] [''local-server-verify'', ''local-replay'', ''local-server-e2e'']
       [''SIMULATED_HANDSHAKE only; localhost'',
       ''Synthetic tests do not prove Destiny client interoperability.''] None None,
      entry_of ''compatibility_client_layer'' ArCompatibilityClient ''BapCompatibilityClient''
       EvConfirmed IsImplemented VsVerified [ScSyntheticLocal, ScLocalTcp] [''local_synthetic_tests'']
       [''compatibility-client-verify''] [''Localhost only; SYNTHETIC_TEST_ONLY crypto''] None None,
      entry_of ''external_boundary_layer'' ArExternalClientBoundary ''ExternalClientBoundary''
       EvConfirmed IsImplemented VsVerified [ScSyntheticLocal, ScLocalTcp, ScExternalBoundary]
       [''local_synthetic_tests'', ''external_boundary''] [''external-boundary-verify'']
       [''Localhost ingress only; safe events; reuses StatefulBapSession'',
       ''Does not prove real Destiny client attachment''] None None,
      entry_of ''observation_harness_layer'' ArObservationHarness ''Observation harness (M4.8)''
       EvConfirmed IsImplemented VsVerified [ScSyntheticLocal, ScExternalBoundary]
       [''observation_harness'', ''local_synthetic_tests''] [''observation-verify'']
       [''Metadata-only traces; no auto-promotion of hypotheses''] None None,
      entry_of ''udp_transport_layer'' ArUdpTransport ''UDP transport evidence'' EvObserved
       IsNotImplemented VsVerified [ScOfflineCapture] src_captures [''udp-evidence-verify'']
       [''Ambient UDP observed in captures; session gameplay UDP not confirmed'',
       ''Capture A had 3074/3075 traffic before session; Capture B showed no session UDP'',
       ''Ports 3074/3075 are NOT asserted as Destiny gameplay transport'',
       ''Unknown remains unknown until evidence changes it.''] None None,
      entry_of ''gameplay_networking_layer'' ArGameplayNetworking ''Gameplay networking / UDP gameplay''
       EvUnknown IsBlocked VsBlocked [ScOfflineCapture] [] [] [''Gameplay UDP remains UNKNOWN/BLOCKED'']
       (Some (''No confirmed session gameplay UDP protocol; no implementation without evidence'')) None,
      entry_of ''signon_layer'' ArSignon ''SignOn HTTPS offline analysis + session material boundary''
       EvConfirmed IsPartial VsVerified [ScOfflineCapture, ScSyntheticLocal]
       [''docs/networking/signon-https.md'', ''capture:20260529-003132'', ''signon-verify'']
       [''signon-verify'', ''signon tests'']
       [''Offline SignOn analysis VERIFIED; metadata-only; no secret values stored'',
       ''SessionMaterialProvider boundary + OfflineSessionMaterialProvider (SYNTHETIC_TEST_ONLY)'',
       ''Real SignOn / live auth remains NOT_IMPLEMENTED / BLOCKED'',
       ''Offline SignOn analysis is not real SignOn compatibility.''] (Some
       (''Real SignOn HTTP/auth not implemented; live Bungie/Destiny connection forbidden'')) None]"

definition real_world_entries :: "compat_entry list" where
  "real_world_entries =
     [entry_of ''signon_real_provider'' ArSignon ''Real SignOn provider / live authentication''
       EvBlocked IsBlocked VsBlocked [ScRealServer] [] []
       [''No real SignOn implementation; no live auth; no credentials''] (Some
       (''No real SignOn implementation or live Destiny/Bungie connection'')) None,
      entry_of ''real_destiny_client'' ArRealDestinyClient ''Real Destiny client compatibility''
       EvUnknown IsBlocked VsNotVerified [ScRealClient] [] [] [''NOT_PROVEN '' @ em_dash @
       '' local/synthetic success is not real-client proof'',
       ''Local compatibility is not real-client compatibility.''] (Some
       (''no real-client compatibility evidence'')) None,
      entry_of ''real_destiny_server'' ArRealDestinyServer ''Real Destiny server compatibility''
       EvUnknown IsBlocked VsNotVerified [ScRealServer] [] [] [''NOT_PROVEN '' @ em_dash @
       '' local TCP is not real-server proof'', ''Capture validation is not server compatibility.'']
       (Some (''no real-server compatibility evidence'')) None]"

text \<open>The entry of a message id: the five pairs of the start-up and keep-alive, and the others.\<close>

definition other_message_capability :: "u16 \<Rightarrow> compat_entry" where
  "other_message_capability i =
     (if i \<in> {0x10, 0x11, 0x2A, 0x2B} then
          message_entry_of i ArMessageCodec EvObserved IsPartial VsVerified [ScOfflineCapture,
           ScSyntheticLocal] src_captures [''message-inventory'', ''message-codec-verify'',
           ''multi-capture-verify'']
           [''Present in inventory; opaque codec; semantics remain limited/unknown'',
           ''Do not invent request/response/gameplay meaning'']
      else if i \<in> {0x7B, 0xAB} then
          message_entry_of i ArMessageCodec EvObserved IsPartial VsVerified [ScOfflineCapture,
           ScSyntheticLocal] src_captures [''payload-structure-verify'', ''message-codec-verify'']
           [''Variable-length payloads observed; semantics remain limited/unknown'',
           ''Unknown remains unknown until evidence changes it.'']
      else
          message_entry_of i ArMessageCodec EvObserved IsPartial VsVerified [ScOfflineCapture,
           ScSyntheticLocal] src_captures [''message-inventory'', ''message-codec-verify'',
           ''multi-capture-verify''] [''Inventory/registry presence; opaque or structural only'',
           ''Semantics not invented '' @ em_dash @ '' Observed does not mean understood.''])"

definition message_capability :: "u16 \<Rightarrow> compat_entry" where
  "message_capability i =
     (if i \<in> {0x1E, 0x1F} then
          message_entry_of i ArServiceHandshake EvConfirmed IsImplemented VsVerified [ScOfflineCapture,
           ScSyntheticLocal, ScLocalTcp] src_local [''local-replay'', ''message-codec-verify'',
           ''stateful-server-verify'']
           [''Observed; codec implemented; stateful server; local replay verified'',
           ''Real server compatibility NOT_PROVEN'']
      else if i \<in> {0x19, 0x1A} then
          message_entry_of i ArSessionLogin EvConfirmed IsImplemented VsVerified [ScOfflineCapture,
           ScSyntheticLocal, ScLocalTcp] src_local [''session-crypto-verify'', ''bap-session-verify'',
           ''local-replay''] [''Structure observed; CBC/HMAC (0x1A path) capture-validated'',
           ''Full payload semantics still limited'']
      else if i \<in> {0x79, 0x7A} then
          message_entry_of i ArEncryptedHandshake EvConfirmed IsImplemented VsVerified
           [ScOfflineCapture, ScSyntheticLocal, ScLocalTcp] src_local [''gcm-sequence-verify'',
           ''gcm-first-frame-verify'', ''local-replay'']
           [''Encrypted handshake; AES-GCM validated; AAD empty on verified captures'',
           ''Real-client compatibility NOT_PROVEN'']
      else if i \<in> {0x12E, 0x12F} then
          message_entry_of i ArNatReporting EvObserved IsImplemented VsVerified [ScOfflineCapture,
           ScSyntheticLocal, ScLocalTcp] src_captures [''message-correlation-verify'',
           ''message-codec-verify'']
           [''Observed; correlation/structure available; dispatch implemented'',
           ''Complete semantics still limited'']
      else if i \<in> {0xFA, 0xFB} then
          message_entry_of i ArKeepalive EvConfirmed IsImplemented VsVerified [ScOfflineCapture,
           ScSyntheticLocal, ScLocalTcp] src_local [''state-machine-verify'',
           ''stateful-server-verify''] [''Keepalive candidate; local response policy'',
           ''Universal timing NOT confirmed'']
      else other_message_capability i)"

definition get_compatibility_matrix :: compat_matrix where
  "get_compatibility_matrix =
     \<lparr>mx_version = MATRIX_VERSION,
      mx_entries = protocol_entries @ layer_entries @ boundary_entries @ real_world_entries
                   @ map message_capability EXPECTED_MESSAGE_IDS,
      mx_sources = [''capture:'' @ CAPTURE_A, ''capture:'' @ CAPTURE_B, ''local_synthetic_tests'', ''local_replay'',
        ''external_boundary'', ''observation_harness''],
      mx_notes = [''Local compatibility is not real-client compatibility.'',
        ''Capture validation is not server compatibility.'',
        ''Synthetic tests do not prove Destiny client interoperability.'',
        ''Observed does not mean understood.'',
        ''Implemented does not mean compatible.'',
        ''Unknown remains unknown until evidence changes it.'']\<rparr>"

section \<open>Validation\<close>

definition blank :: "string option \<Rightarrow> bool" where
  "blank s \<longleftrightarrow> (case s of Some r \<Rightarrow> str_trim r = [] | None \<Rightarrow> True)"

definition validate_entry :: "compat_entry \<Rightarrow> matrix_error + unit" where
  "validate_entry e =
     (let blocked = ma_evidence e = EvBlocked \<or> ma_implementation e = IsBlocked \<or> ma_verification e = VsBlocked in
      if blocked \<and> blank (ma_blocking_reason e) then Inl (BlockedWithoutReason (ma_id e))
      else if ma_evidence e = EvConfirmed \<and> ma_evidence_refs e = [] then Inl (ConfirmedWithoutEvidence (ma_id e))
      else if ma_verification e = VsVerified \<and> ma_verification_refs e = [] then Inl (VerifiedWithoutEvidence (ma_id e))
      else if ma_evidence e = EvUnknown \<and> \<not> blank (ma_semantic_claim e) then Inl (UnknownWithSemantics (ma_id e))
      else if ma_real_client e = RwProven then Inl (RealWorldProven (ma_id e @ '' real_client''))
      else if ma_real_server e = RwProven then Inl (RealWorldProven (ma_id e @ '' real_server''))
      else if ma_verification e = VsVerified \<and> ScRealClient \<in> set (ma_scopes e) then Inl (VerifiedRealClient (ma_id e))
      else if ma_verification e = VsVerified \<and> ScRealServer \<in> set (ma_scopes e) then Inl (VerifiedRealServer (ma_id e))
      else if (\<exists>s\<in>set (ma_scopes e). is_real_world s) \<and> ma_verification e = VsVerified
        then Inl (ImpossibleScope (ma_id e))
      else if ma_evidence e = EvHypothesis \<and> ma_verification e = VsVerified \<and> ma_semantic_claim e \<noteq> None
        then Inl (IncompatibleStatuses (ma_id e @ '': HYPOTHESIS cannot be VERIFIED with semantic claim''))
      else if ma_scopes e = [] then Inl (ImpossibleScope (ma_id e @ '': empty scopes''))
      else Inr ())"

fun validate_entries :: "string list \<Rightarrow> compat_entry list \<Rightarrow> matrix_error + unit" where
  "validate_entries seen [] = Inr ()"
| "validate_entries seen (e # es) =
     (if ma_id e \<in> set seen then Inl (DuplicateId (ma_id e))
      else bind_res (validate_entry e) (\<lambda>_. validate_entries (bs_insert (ma_id e) seen) es))"

definition validate_matrix :: "compat_matrix \<Rightarrow> matrix_error + unit" where
  "validate_matrix m =
     bind_res (validate_entries [] (mx_entries m)) (\<lambda>_.
       let areas = foldl (\<lambda>s e. bs_insert (ma_area e) s) [] (mx_entries m)
       in case List.find (\<lambda>a. a \<notin> set areas) all_areas of
            Some a \<Rightarrow> Inl (MissingArea (compat_area_str a))
          | None \<Rightarrow>
              (let msg_ids = foldl (\<lambda>s i. bs_insert i s) [] (List.map_filter ma_message_id (mx_entries m))
               in case List.find (\<lambda>i. i \<notin> set msg_ids) EXPECTED_MESSAGE_IDS of
                    Some i \<Rightarrow> Inl (MissingMessageId i)
                  | None \<Rightarrow> Inr ()))"

text \<open>No status is promoted to another one.\<close>

definition refuse_promote_hypothesis_to_confirmed :: "ev_status \<Rightarrow> matrix_error + ev_status" where
  "refuse_promote_hypothesis_to_confirmed status = Inl (PromotionRefused ''HYPOTHESIS must not auto-promote to CONFIRMED'')"

definition refuse_promote_observed_to_implemented :: "ev_status \<Rightarrow> matrix_error + is_status" where
  "refuse_promote_observed_to_implemented status = Inl (PromotionRefused ''OBSERVED must not auto-promote to IMPLEMENTED'')"

definition refuse_promote_implemented_to_real_client :: "is_status \<Rightarrow> matrix_error + real_world" where
  "refuse_promote_implemented_to_real_client status =
     Inl (PromotionRefused ''IMPLEMENTED must not auto-promote to REAL_CLIENT'')"

definition refuse_promote_local_tcp_to_real_server :: "compat_scope \<Rightarrow> matrix_error + real_world" where
  "refuse_promote_local_tcp_to_real_server scope = Inl (PromotionRefused ''LOCAL_TCP must not auto-promote to REAL_SERVER'')"

section \<open>Metrics and report\<close>

definition metrics_step :: "matrix_metrics \<Rightarrow> compat_entry \<Rightarrow> matrix_metrics" where
  "metrics_step m e =
     (let m = (case ma_evidence e of
                 EvConfirmed \<Rightarrow> m\<lparr>mm_confirmed := mm_confirmed m + 1\<rparr>
               | EvObserved \<Rightarrow> m\<lparr>mm_observed := mm_observed m + 1\<rparr>
               | EvStructural \<Rightarrow> m\<lparr>mm_structural := mm_structural m + 1\<rparr>
               | EvHypothesis \<Rightarrow> m\<lparr>mm_hypothesis := mm_hypothesis m + 1\<rparr>
               | EvUnknown \<Rightarrow> m\<lparr>mm_unknown := mm_unknown m + 1\<rparr>
               | EvBlocked \<Rightarrow> m\<lparr>mm_blocked := mm_blocked m + 1\<rparr>);
          m = (if ma_implementation e = IsImplemented then m\<lparr>mm_implemented := mm_implemented m + 1\<rparr> else m);
          m = (if (ma_implementation e = IsBlocked \<or> ma_verification e = VsBlocked)
                  \<and> ma_implementation e = IsBlocked \<and> ma_evidence e \<noteq> EvBlocked
               then m\<lparr>mm_blocked := mm_blocked m + 1\<rparr> else m)
      in if ma_verification e = VsVerified then
           (let m = m\<lparr>mm_verified := mm_verified m + 1\<rparr>;
                offline = (\<exists>s\<in>set (ma_scopes e). s \<in> {ScOfflineCapture, ScSyntheticLocal, ScLocalTcp, ScExternalBoundary});
                m = (if offline then m\<lparr>mm_offline_verified := mm_offline_verified m + 1\<rparr> else m);
                m = (if ScRealClient \<in> set (ma_scopes e) \<and> ma_real_client e = RwProven
                     then m\<lparr>mm_real_client_verified := mm_real_client_verified m + 1\<rparr> else m)
            in if ScRealServer \<in> set (ma_scopes e) \<and> ma_real_server e = RwProven
               then m\<lparr>mm_real_server_verified := mm_real_server_verified m + 1\<rparr> else m)
         else m)"

definition compute_metrics :: "compat_matrix \<Rightarrow> matrix_metrics" where
  "compute_metrics matrix =
     foldl metrics_step
       \<lparr>mm_entries = of_nat (length (mx_entries matrix)), mm_confirmed = 0, mm_observed = 0, mm_structural = 0,
        mm_hypothesis = 0, mm_implemented = 0, mm_verified = 0, mm_blocked = 0, mm_unknown = 0,
        mm_offline_verified = 0, mm_real_client_verified = 0, mm_real_server_verified = 0\<rparr> (mx_entries matrix)"

definition report_area :: "compat_area \<Rightarrow> compat_entry list \<Rightarrow> string" where
  "report_area area es =
     (let primary = (case List.find (\<lambda>e. ma_message_id e = None) es of Some e \<Rightarrow> e | None \<Rightarrow> es ! 0)
      in writeln (compat_area_str area)
         @ writeln (''Evidence: '' @ ev_status_str (ma_evidence primary))
         @ writeln (''Implementation: '' @ is_status_str (ma_implementation primary))
         @ writeln (''Verification: '' @ vs_status_str (ma_verification primary))
         @ writeln (''Scope: '' @ join_with '' / '' (map compat_scope_str (ma_scopes primary)))
         @ (case ma_blocking_reason primary of Some r \<Rightarrow> writeln (''Reason: '' @ r) | None \<Rightarrow> [])
         @ writeln (''Real client: '' @ real_world_str (ma_real_client primary))
         @ writeln (''Real server: '' @ real_world_str (ma_real_server primary))
         @ concat (map (\<lambda>note. writeln (''  - '' @ note)) (ma_notes primary))
         @ newline)"

definition format_report :: "compat_matrix \<Rightarrow> string" where
  "format_report matrix =
     (let by_area = foldl (\<lambda>m e. bt_entry (ma_area e) [] (\<lambda>l. l @ [e]) m) [] (mx_entries matrix)
      in writeln ''M4.9 PROTOCOL COMPATIBILITY MATRIX REPORT''
         @ writeln (''matrix_version: '' @ mx_version matrix) @ newline
         @ concat (map (\<lambda>area. case bt_get by_area area of None \<Rightarrow> [] | Some es \<Rightarrow> report_area area es) all_areas)
         @ concat (map (\<lambda>n. writeln (''NOTE: '' @ n)) (mx_notes matrix)))"

section \<open>What a valid matrix is\<close>

text \<open>
  The rules an entry has to keep: a blocked one says why, a confirmed one names its evidence, a
  verified one names its checks and claims no real-world scope, an unknown one claims no meaning,
  none claims compatibility with a real client or server, and every one has a scope.
\<close>

definition entry_ok :: "compat_entry \<Rightarrow> bool" where
  "entry_ok e \<longleftrightarrow>
     (ma_evidence e \<noteq> EvBlocked \<and> ma_implementation e \<noteq> IsBlocked \<and> ma_verification e \<noteq> VsBlocked
        \<or> \<not> blank (ma_blocking_reason e))
     \<and> (ma_evidence e \<noteq> EvConfirmed \<or> ma_evidence_refs e \<noteq> [])
     \<and> (ma_evidence e \<noteq> EvUnknown \<or> blank (ma_semantic_claim e))
     \<and> ma_real_client e = RwNotProven \<and> ma_real_server e = RwNotProven
     \<and> (ma_verification e \<noteq> VsVerified
        \<or> ma_verification_refs e \<noteq> [] \<and> ScRealClient \<notin> set (ma_scopes e) \<and> ScRealServer \<notin> set (ma_scopes e)
          \<and> (ma_evidence e \<noteq> EvHypothesis \<or> ma_semantic_claim e = None))
     \<and> ma_scopes e \<noteq> []"

definition matrix_ok :: "compat_matrix \<Rightarrow> bool" where
  "matrix_ok m \<longleftrightarrow>
     distinct (map ma_id (mx_entries m)) \<and> list_all entry_ok (mx_entries m)
     \<and> ma_area ` set (mx_entries m) = UNIV
     \<and> Some ` set EXPECTED_MESSAGE_IDS \<subseteq> ma_message_id ` set (mx_entries m)"

lemma not_proven: "r \<noteq> RwProven \<longleftrightarrow> r = RwNotProven" "r = RwProven \<longleftrightarrow> r \<noteq> RwNotProven"
  by (cases r; simp)+

lemma validate_entry_iff: "validate_entry e = Inr () \<longleftrightarrow> entry_ok e"
  unfolding validate_entry_def entry_ok_def Let_def is_real_world_def by (auto simp: not_proven)

lemma set_bs_insert: "set (bs_insert x s) = insert x (set s)"
  by (simp add: bs_insert_def set_insort_insert)

lemma validate_entries_iff:
  "validate_entries seen es = Inr () \<longleftrightarrow>
     distinct (map ma_id es) \<and> set seen \<inter> ma_id ` set es = {} \<and> list_all entry_ok es"
proof (induction es arbitrary: seen)
  case (Cons e es)
  show ?case
  proof (cases "validate_entry e")
    case (Inl err)
    then have "\<not> entry_ok e" using validate_entry_iff [of e] by simp
    then show ?thesis using Inl by (simp add: bind_res_def)
  next
    case (Inr u)
    then have "entry_ok e" using validate_entry_iff [of e] by simp
    then show ?thesis using Inr Cons.IH [of "bs_insert (ma_id e) seen"]
      by (auto simp: bind_res_def set_bs_insert)
  qed
qed simp

lemma find_missing: "List.find (\<lambda>x. x \<notin> A) xs = None \<longleftrightarrow> set xs \<subseteq> A"
  by (auto simp: find_None_iff)

lemma areas_all: "set all_areas = UNIV"
  using area_listed by auto

lemma map_filter_mem: "y \<in> set (List.map_filter f xs) \<longleftrightarrow> Some y \<in> f ` set xs"
  by (induction xs) (auto simp: map_filter_simps split: option.splits)

lemma validate_matrix_iff: "validate_matrix m = Inr () \<longleftrightarrow> matrix_ok m"
proof -
  let ?es = "mx_entries m"
  have areas: "set (foldl (\<lambda>s e. bs_insert (ma_area e) s) [] ?es) = ma_area ` set ?es"
    using bs_insert_fold [of "{}" ma_area ?es] by simp
  have mem: "i \<in> set (List.map_filter ma_message_id ?es) \<longleftrightarrow> Some i \<in> ma_message_id ` set ?es" for i
    by (rule map_filter_mem)
  have ids: "set (foldl (\<lambda>s i. bs_insert i s) [] (List.map_filter ma_message_id ?es)) = set (List.map_filter ma_message_id ?es)"
    using bs_insert_fold [of "{}" "\<lambda>i. i" "List.map_filter ma_message_id ?es"] by simp
  have found: "(case List.find (\<lambda>x. x \<notin> A) xs of Some x \<Rightarrow> Inl (f x) | None \<Rightarrow> r) = Inr () \<longleftrightarrow> set xs \<subseteq> A \<and> r = Inr ()"
    for A :: "'x set" and xs and f :: "'x \<Rightarrow> matrix_error" and r :: "matrix_error + unit"
    using find_missing [of A xs] by (cases "List.find (\<lambda>x. x \<notin> A) xs") auto
  have "validate_matrix m = Inr () \<longleftrightarrow>
      validate_entries [] ?es = Inr () \<and> set all_areas \<subseteq> ma_area ` set ?es
      \<and> set EXPECTED_MESSAGE_IDS \<subseteq> set (List.map_filter ma_message_id ?es)"
    unfolding validate_matrix_def Let_def areas ids
    by (cases "validate_entries [] ?es") (auto simp: bind_res_def found)
  then show ?thesis
    unfolding matrix_ok_def validate_entries_iff areas_all by (auto simp: mem subset_eq)
qed

section \<open>The metrics of a valid matrix\<close>

lemma verified_entry_local:
  assumes "entry_ok e" "ma_verification e = VsVerified"
  shows "\<exists>s\<in>set (ma_scopes e). s \<in> {ScOfflineCapture, ScSyntheticLocal, ScLocalTcp, ScExternalBoundary}"
proof -
  obtain s where s: "s \<in> set (ma_scopes e)"
    using assms(1) by (cases "ma_scopes e") (auto simp: entry_ok_def)
  have "ScRealClient \<notin> set (ma_scopes e)" "ScRealServer \<notin> set (ma_scopes e)"
    using assms by (auto simp: entry_ok_def)
  with s have "s \<in> {ScOfflineCapture, ScSyntheticLocal, ScLocalTcp, ScExternalBoundary}"
    by (cases s rule: compat_scope.exhaust) auto
  with s show ?thesis by blast
qed

lemma metrics_fold:
  assumes "list_all entry_ok es"
  shows "mm_real_client_verified (foldl metrics_step m es) = mm_real_client_verified m"
    "mm_real_server_verified (foldl metrics_step m es) = mm_real_server_verified m"
    "mm_offline_verified (foldl metrics_step m es)
       = mm_offline_verified m + of_nat (length (filter (\<lambda>e. ma_verification e = VsVerified) es))"
    "mm_entries (foldl metrics_step m es) = mm_entries m"
    "mm_verified (foldl metrics_step m es) = mm_verified m + of_nat (length (filter (\<lambda>e. ma_verification e = VsVerified) es))"
proof -
  have step: "mm_real_client_verified (metrics_step m e) = mm_real_client_verified m
      \<and> mm_real_server_verified (metrics_step m e) = mm_real_server_verified m
      \<and> mm_offline_verified (metrics_step m e) = mm_offline_verified m + (if ma_verification e = VsVerified then 1 else 0)
      \<and> mm_entries (metrics_step m e) = mm_entries m
      \<and> mm_verified (metrics_step m e) = mm_verified m + (if ma_verification e = VsVerified then 1 else 0)"
    if "entry_ok e" for m e
    using verified_entry_local [OF that] that
    by (cases "ma_evidence e") (auto simp: metrics_step_def Let_def entry_ok_def)
  from assms show "mm_real_client_verified (foldl metrics_step m es) = mm_real_client_verified m"
    by (induction es arbitrary: m) (simp_all add: step)
  from assms show "mm_real_server_verified (foldl metrics_step m es) = mm_real_server_verified m"
    by (induction es arbitrary: m) (simp_all add: step)
  from assms show "mm_offline_verified (foldl metrics_step m es)
       = mm_offline_verified m + of_nat (length (filter (\<lambda>e. ma_verification e = VsVerified) es))"
    by (induction es arbitrary: m) (simp_all add: step algebra_simps)
  from assms show "mm_entries (foldl metrics_step m es) = mm_entries m"
    by (induction es arbitrary: m) (simp_all add: step)
  from assms show "mm_verified (foldl metrics_step m es)
      = mm_verified m + of_nat (length (filter (\<lambda>e. ma_verification e = VsVerified) es))"
    by (induction es arbitrary: m) (simp_all add: step algebra_simps)
qed

lemma metrics_of_valid:
  assumes "matrix_ok m"
  shows "mm_real_client_verified (compute_metrics m) = 0" "mm_real_server_verified (compute_metrics m) = 0"
    "mm_offline_verified (compute_metrics m) = mm_verified (compute_metrics m)"
    "mm_verified (compute_metrics m) = of_nat (length (filter (\<lambda>e. ma_verification e = VsVerified) (mx_entries m)))"
proof -
  have ok: "list_all entry_ok (mx_entries m)" using assms by (simp add: matrix_ok_def)
  show "mm_real_client_verified (compute_metrics m) = 0" "mm_real_server_verified (compute_metrics m) = 0"
    "mm_verified (compute_metrics m) = of_nat (length (filter (\<lambda>e. ma_verification e = VsVerified) (mx_entries m)))"
    unfolding compute_metrics_def by (simp_all add: metrics_fold(1,2,5) [OF ok])
  show "mm_offline_verified (compute_metrics m) = mm_verified (compute_metrics m)"
    unfolding compute_metrics_def by (simp add: metrics_fold(3,5) [OF ok])
qed

section \<open>The matrix of the repository\<close>

lemma repository_matrix_ok: "matrix_ok get_compatibility_matrix"
proof -
  let ?es = "mx_entries get_compatibility_matrix"
  have "distinct (map ma_id ?es)" by code_simp
  moreover have "list_all entry_ok ?es" by code_simp
  moreover have "ma_area ` set ?es = UNIV"
  proof -
    have "list_all (\<lambda>a. a \<in> set (map ma_area ?es)) all_areas" by code_simp
    then have "set all_areas \<subseteq> ma_area ` set ?es" by (auto simp: list_all_iff)
    then show ?thesis using areas_all by auto
  qed
  moreover have "Some ` set EXPECTED_MESSAGE_IDS \<subseteq> ma_message_id ` set ?es"
  proof -
    have "list_all (\<lambda>i. Some i \<in> set (map ma_message_id ?es)) EXPECTED_MESSAGE_IDS" by code_simp
    then show ?thesis by (auto simp: list_all_iff)
  qed
  ultimately show ?thesis by (simp add: matrix_ok_def)
qed

text \<open>
  The rules as the comments of the validator state them, for matrices whose entries all have a
  scope: a blocked entry says why, a confirmed one names its evidence, a verified one names its
  checks, claims no real-world scope and no meaning on a hypothesis, an unknown one claims no
  meaning, and none claims compatibility with a real client or server.
\<close>

definition entry_rules :: "compat_entry \<Rightarrow> bool" where
  "entry_rules e \<longleftrightarrow>
     (ma_evidence e = EvBlocked \<or> ma_implementation e = IsBlocked \<or> ma_verification e = VsBlocked
        \<longrightarrow> \<not> blank (ma_blocking_reason e))
     \<and> (ma_evidence e = EvConfirmed \<longrightarrow> ma_evidence_refs e \<noteq> [])
     \<and> (ma_verification e = VsVerified \<longrightarrow> ma_verification_refs e \<noteq> [] \<and> \<not> list_ex is_real_world (ma_scopes e))
     \<and> (ma_evidence e = EvUnknown \<longrightarrow> blank (ma_semantic_claim e))
     \<and> \<not> (ma_evidence e = EvHypothesis \<and> ma_verification e = VsVerified \<and> ma_semantic_claim e \<noteq> None)
     \<and> ma_real_client e = RwNotProven \<and> ma_real_server e = RwNotProven"

definition matrix_rules :: "compat_matrix \<Rightarrow> bool" where
  "matrix_rules m \<longleftrightarrow>
     distinct (map ma_id (mx_entries m)) \<and> list_all entry_rules (mx_entries m)
     \<and> ma_area ` set (mx_entries m) = UNIV
     \<and> Some ` set EXPECTED_MESSAGE_IDS \<subseteq> ma_message_id ` set (mx_entries m)"

lemma entry_rules_ok: "ma_scopes e \<noteq> [] \<Longrightarrow> entry_ok e \<longleftrightarrow> entry_rules e"
  unfolding entry_ok_def entry_rules_def list_ex_iff is_real_world_def by auto

lemma matrix_rules_ok:
  assumes "list_all (\<lambda>e. ma_scopes e \<noteq> []) (mx_entries m)"
  shows "matrix_ok m \<longleftrightarrow> matrix_rules m"
proof -
  have "list_all entry_ok (mx_entries m) \<longleftrightarrow> list_all entry_rules (mx_entries m)"
    using assms entry_rules_ok by (auto simp: list_all_iff)
  then show ?thesis by (simp add: matrix_ok_def matrix_rules_def)
qed

lemma repository_scopes: "list_all (\<lambda>e. ma_scopes e \<noteq> []) (mx_entries get_compatibility_matrix)"
  by code_simp

text \<open>
  C40. Validation accepts exactly the matrices that keep the rules: among the matrices whose entries
  all have a scope, those with distinct ids, with every area and every expected message id present,
  and with every entry within the rules of its statuses. The metrics of such a matrix count as
  verified exactly the entries marked so, all of them in a local scope, and nothing against a real
  client or server. The matrix of the repository is accepted.
\<close>

theorem validation_exact:
  assumes "list_all (\<lambda>e. ma_scopes e \<noteq> []) (mx_entries m)"
  shows "(validate_matrix m = Inr () \<longleftrightarrow> matrix_rules m)
     \<and> (matrix_rules m \<longrightarrow>
          mm_verified (compute_metrics m) = of_nat (length (filter (\<lambda>e. ma_verification e = VsVerified) (mx_entries m)))
          \<and> mm_offline_verified (compute_metrics m) = mm_verified (compute_metrics m)
          \<and> mm_real_client_verified (compute_metrics m) = 0 \<and> mm_real_server_verified (compute_metrics m) = 0)
     \<and> validate_matrix get_compatibility_matrix = Inr ()"
  using validate_matrix_iff [of m] matrix_rules_ok [OF assms] metrics_of_valid [of m]
    validate_matrix_iff [of get_compatibility_matrix] repository_matrix_ok by metis

text \<open>
  The matrix of the repository keeps the rules, all that it verifies is local, and with a claim
  against the real client in its first entry it is refused.
\<close>

lemma validation_exact_witness:
  "let m = get_compatibility_matrix;
       e = hd (mx_entries m);
       bad = m\<lparr>mx_entries := e\<lparr>ma_real_client := RwProven\<rparr> # tl (mx_entries m)\<rparr>
   in matrix_rules m \<and> mm_offline_verified (compute_metrics m) = mm_verified (compute_metrics m)
    \<and> validate_matrix bad \<noteq> Inr ()"
proof -
  let ?m = get_compatibility_matrix
  let ?bad = "?m\<lparr>mx_entries := (hd (mx_entries ?m))\<lparr>ma_real_client := RwProven\<rparr> # tl (mx_entries ?m)\<rparr>"
  have "list_all (\<lambda>e. ma_scopes e \<noteq> []) (mx_entries ?bad)" by code_simp
  moreover have "\<not> matrix_rules ?bad" by (simp add: matrix_rules_def entry_rules_def)
  ultimately have "validate_matrix ?bad \<noteq> Inr ()" using validation_exact [of ?bad] by simp
  moreover have "matrix_rules ?m" "mm_offline_verified (compute_metrics ?m) = mm_verified (compute_metrics ?m)"
    using validation_exact [OF repository_scopes] by blast+
  ultimately show ?thesis unfolding Let_def by blast
qed

text \<open>45 of the 49 entries of the repository's matrix are verified.\<close>

lemma repository_counts:
  "length (mx_entries get_compatibility_matrix) = 49"
  "length (filter (\<lambda>e. ma_verification e = VsVerified) (mx_entries get_compatibility_matrix)) = 45"
  by code_simp+

text \<open>
  Two details that the comments tell differently: an entry that is blocked in its verification only
  is not counted as blocked, and an entry without scopes is refused whatever its statuses are.
\<close>

lemma blocked_verification_not_counted:
  assumes "ma_evidence e \<noteq> EvBlocked" "ma_implementation e \<noteq> IsBlocked"
  shows "mm_blocked (metrics_step m e) = mm_blocked m"
  using assms by (cases "ma_evidence e") (auto simp: metrics_step_def Let_def)

lemma empty_scopes_refused: "ma_scopes e = [] \<Longrightarrow> validate_entry e \<noteq> Inr ()"
  by (simp add: validate_entry_iff entry_ok_def)

end
