(* ===== verification/Correlation_Report.thy ===== *)
theory Correlation_Report
  imports State_Trace Float_Ops
begin

text \<open>
  The rest of \<open>network/src/message_correlation.rs\<close> and \<open>network/src/state_machine.rs\<close>: what is
  computed in \<open>f64\<close> (timing statistics, jitter, periodic candidates), the whole analysis of two
  captures, and the two safe exports. The operations of \<open>f64\<close> are an argument. The theory shows
  what the integer statistics are, that the exported edge lists are a partition of the edges, how
  the machine follows from the analysis, and that periodicity needs three intervals.
\<close>

section \<open>Timing statistics\<close>

record 'f corr_timing =
  ty_count :: u32
  ty_min :: "u64 option"
  ty_max :: "u64 option"
  ty_mean :: "'f option"
  ty_median :: "'f option"
  ty_unit :: string

definition timing_none :: "string \<Rightarrow> 'f corr_timing" where
  "timing_none u = \<lparr>ty_count = 0, ty_min = None, ty_max = None, ty_mean = None, ty_median = None, ty_unit = u\<rparr>"

definition timing_stats_of :: "'f float_ops \<Rightarrow> u64 list \<Rightarrow> string \<Rightarrow> 'f corr_timing" where
  "timing_stats_of F values u =
     (if values = [] then timing_none u
      else (let xs = sort values; n = length xs;
                s = sum_list xs;
                f = (\<lambda>w :: u64. fl_of_nat F (unat w));
                median = (if n mod 2 = 1 then f (xs ! (n div 2))
                          else fl_div F (fl_add F (f (xs ! (n div 2 - 1))) (f (xs ! (n div 2)))) (fl_lit F 2 0))
            in \<lparr>ty_count = of_nat n, ty_min = Some (xs ! 0), ty_max = Some (xs ! (n - 1)),
                ty_mean = Some (fl_div F (f s) (fl_of_nat F n)), ty_median = Some median, ty_unit = u\<rparr>))"

definition FRAME_ORDER :: string where "FRAME_ORDER = ''frame_order''"

section \<open>Periodic candidates\<close>

definition is_approximately_periodic :: "'f float_ops \<Rightarrow> u64 list \<Rightarrow> bool \<times> 'f option \<times> 'f option" where
  "is_approximately_periodic F deltas =
     (if length deltas < 3 then (False, None, None)
      else (let median = (case ty_median (timing_stats_of F deltas FRAME_ORDER) of Some m \<Rightarrow> m | None \<Rightarrow> fl_lit F 0 0)
            in if fl_le F median (fl_lit F 0 0) then (False, Some median, None)
               else (let abs_dev = foldl (\<lambda>s d. fl_add F s (fl_abs F (fl_sub F (fl_of_nat F (unat d)) median)))
                                     (fl_lit F 0 0) deltas;
                         jitter = fl_div F abs_dev (fl_of_nat F (length deltas));
                         approx = fl_le F (fl_div F jitter median) (fl_lit F 25 2)
                     in (approx, Some median, Some jitter))))"

record 'f periodic_candidate =
  pc_message_id :: u16
  pc_paired :: "u16 option"
  pc_candidate :: bool
  pc_approximate :: bool
  pc_median :: "'f option"
  pc_jitter :: "'f option"
  pc_samples :: u32
  pc_unit :: string
  pc_label :: correlation_label
  pc_external :: "string option"

text \<open>The distances of neighbours in a list of observations, where both have a time.\<close>

definition deltas_in :: "corr_obs list \<Rightarrow> u64 list" where
  "deltas_in xs = List.map_filter (\<lambda>w. delta_between (fst w) (snd w)) (observe_sequence_pairs xs)"

definition id_deltas :: "message_sequence list \<Rightarrow> u16 \<Rightarrow> u64 list" where
  "id_deltas seqs i = concat (map (\<lambda>q. deltas_in (filter (\<lambda>x. co_message_id x = i) (ms_observations q))) seqs)"

text \<open>The first frames of the neighbouring pairs 0xFA, 0xFB.\<close>

definition pair_starts :: "message_sequence \<Rightarrow> corr_obs list" where
  "pair_starts q =
     map fst (filter (\<lambda>w. co_message_id (fst w) = 0xFA \<and> co_message_id (snd w) = 0xFB)
       (observe_sequence_pairs (ms_observations q)))"

definition periodic_of :: "'f float_ops \<Rightarrow> message_sequence list \<Rightarrow> u16 \<Rightarrow> 'f periodic_candidate list" where
  "periodic_of F seqs i =
     (let deltas = id_deltas seqs i in
      if length deltas < 3 then []
      else (let (approx, median, jitter) = is_approximately_periodic F deltas in
        if \<not> approx \<and> length deltas < 5 then []
        else [\<lparr>pc_message_id = i, pc_paired = None, pc_candidate = approx, pc_approximate = approx,
               pc_median = median, pc_jitter = jitter, pc_samples = of_nat (length deltas), pc_unit = FRAME_ORDER,
               pc_label = (if approx then LbStructuralHypothesis else LbUnknown), pc_external = lookup_name i\<rparr>]))"

definition build_periodic_candidates ::
  "'f float_ops \<Rightarrow> message_sequence \<Rightarrow> message_sequence \<Rightarrow> 'f periodic_candidate list" where
  "build_periodic_candidates F a b =
     (let ids = foldl (\<lambda>s i. bs_insert i s) [] ([0xFA, 0xFB, 0x79, 0x7A] @ ms_unique a @ ms_unique b);
          deltas = concat (map (\<lambda>q. deltas_in (pair_starts q)) [a, b])
      in concat (map (periodic_of F [a, b]) ids)
         @ (if length deltas \<ge> 3 then
              (let (approx, median, jitter) = is_approximately_periodic F deltas
               in [\<lparr>pc_message_id = 0xFA, pc_paired = Some 0xFB, pc_candidate = approx, pc_approximate = approx,
                    pc_median = median, pc_jitter = jitter, pc_samples = of_nat (length deltas),
                    pc_unit = FRAME_ORDER, pc_label = LbStructuralHypothesis, pc_external = lookup_name 0xFA\<rparr>])
            else []))"

section \<open>The analysis of two captures\<close>

definition edge_name :: "u16 \<Rightarrow> u16 \<Rightarrow> string" where
  "edge_name f t = fmt_msg_id f @ right_arrow @ fmt_msg_id t"

definition edge_timing_of ::
  "'f float_ops \<Rightarrow> message_sequence \<Rightarrow> message_sequence \<Rightarrow> (string, 'f corr_timing) btree" where
  "edge_timing_of F a b =
     (let ps = neighbours [a, b]; deltas = edge_deltas ps
      in foldl (\<lambda>m ((f, t), meta). bt_insert (edge_name f t)
             (timing_stats_of F (case bt_get deltas (f, t) of None \<Rightarrow> [] | Some ds \<Rightarrow> ds) FRAME_ORDER) m)
           [] (edge_meta_map ps))"

record external_name_ref =
  en_message_id :: u16
  en_external :: string
  en_source :: string
  en_label :: correlation_label

text \<open>
  The intervals of a cluster are computed in the code for every capture and lost when the clusters
  of the two captures are merged: a merged cluster has the statistics of no sample.
\<close>

record 'f timed_cluster =
  tk_cluster :: temporal_cluster
  tk_intervals :: "'f corr_timing"

record 'f correlation_analysis =
  an_capture_a :: string
  an_capture_b :: string
  an_sequence_a :: message_sequence
  an_sequence_b :: message_sequence
  an_unique :: "u16 list"
  an_ngrams :: "ngram_record list"
  an_stable :: "stable_subsequence list"
  an_directions :: "direction_transition list"
  an_rr :: "rr_candidate list"
  an_contexts :: "context_correlation list"
  an_context_transitions :: "context_transition list"
  an_repeats :: "fingerprint_repeat list"
  an_variations :: "payload_variation list"
  an_values :: "value_correlation list"
  an_clusters :: "'f timed_cluster list"
  an_periodic :: "'f periodic_candidate list"
  an_divergence :: sequence_divergence
  an_alignment :: "alignment_segment list"
  an_edges :: "transition_edge list"
  an_external :: "external_name_ref list"
  an_timing :: "(string, 'f corr_timing) btree"

definition external_refs_of :: "u16 list \<Rightarrow> external_name_ref list" where
  "external_refs_of ids =
     concat (map (\<lambda>i. case lookup_name i of None \<Rightarrow> []
       | Some name \<Rightarrow> [\<lparr>en_message_id = i, en_external = name, en_source = ''messages.rs'',
                        en_label = LbExternalReference\<rparr>]) ids)"

definition analyze_two_captures :: "'f float_ops \<Rightarrow> capture_inventory \<Rightarrow> capture_inventory \<Rightarrow> 'f correlation_analysis" where
  "analyze_two_captures F a b =
     (let seq_a = build_sequence a; seq_b = build_sequence b;
          all_ids = foldl (\<lambda>s i. bs_insert i s) [] (ms_unique seq_a @ ms_unique seq_b);
          directions = direction_transitions_of [seq_a, seq_b];
          edges = transition_edges_of seq_a seq_b;
          facts = build_fingerprint_facts seq_a seq_b
      in \<lparr>an_capture_a = ms_capture_id seq_a, an_capture_b = ms_capture_id seq_b, an_sequence_a = seq_a,
          an_sequence_b = seq_b, an_unique = all_ids, an_ngrams = ngram_list [seq_a, seq_b],
          an_stable = stable_sequences_of seq_a seq_b, an_directions = directions,
          an_rr = build_rr_candidates directions edges seq_a seq_b,
          an_contexts = build_context_correlations seq_a seq_b,
          an_context_transitions = build_context_transitions seq_a seq_b,
          an_repeats = fst facts, an_variations = snd facts, an_values = cross_correlations_of a b,
          an_clusters = map (\<lambda>c. \<lparr>tk_cluster = c, tk_intervals = timing_none FRAME_ORDER\<rparr>)
                          (build_temporal_clusters seq_a seq_b),
          an_periodic = build_periodic_candidates F seq_a seq_b,
          an_divergence = compute_sequence_divergence (ms_message_ids seq_a) (ms_message_ids seq_b),
          an_alignment = align_sequences (ms_message_ids seq_a) (ms_message_ids seq_b), an_edges = edges,
          an_external = external_refs_of all_ids,
          an_timing = edge_timing_of F seq_a seq_b\<rparr>)"

section \<open>The safe export of the analysis\<close>

record safe_ngram =
  yn_n :: u8
  yn_sequence :: string
  yn_occurrences :: u32
  yn_captures :: nat
  yn_class :: string

record safe_subseq =
  yq_sequence :: string
  yq_occurrences_a :: u32
  yq_occurrences_b :: u32
  yq_len :: nat

record 'f safe_edge =
  ye_edge :: string
  ye_count :: u32
  ye_captures :: nat
  ye_direction :: string
  ye_median :: "'f option"
  ye_class :: string

record safe_ctx_trans =
  yt_before :: u32
  yt_message_id :: string
  yt_after :: u32
  yt_count :: u32

record safe_ctx_corr =
  yc_message_id :: string
  yc_contexts :: "u32 list"
  yc_class :: string

record safe_rr =
  yr_request_id :: string
  yr_response_id :: string
  yr_occurrences :: u32
  yr_signals :: "string list"
  yr_type :: string
  yr_confidence :: string
  yr_semantic :: string

record safe_fp_repeat =
  yf_message_id :: string
  yf_direction :: string
  yf_context :: u32
  yf_prefix :: string
  yf_count :: u32

record safe_payload_var =
  yv_message_id :: string
  yv_direction :: string
  yv_context :: u32
  yv_distinct :: nat

record safe_cross_msg =
  yx_from_id :: string
  yx_to_id :: string
  yx_from_offset :: nat
  yx_to_offset :: nat
  yx_width :: nat
  yx_matching :: u32
  yx_meaning :: string

record 'f safe_periodic =
  yp_message_id :: string
  yp_paired :: "string option"
  yp_approximate :: bool
  yp_median :: "'f option"
  yp_jitter :: "'f option"
  yp_unit :: string
  yp_external :: "string option"

record safe_cluster =
  yk_pattern :: string
  yk_size :: nat
  yk_captures :: nat

record safe_align =
  ya_kind :: string
  ya_ids :: string
  ya_len :: nat

record safe_external =
  yz_message_id :: string
  yz_external :: string
  yz_source :: string

record 'f safe_correlation =
  yy_capture_a :: string
  yy_capture_b :: string
  yy_message_counts :: "(string, u32) btree"
  yy_unique :: "string list"
  yy_lengths :: "(string, nat) btree"
  yy_ngrams :: "safe_ngram list"
  yy_stable :: "safe_subseq list"
  yy_edges :: "'f safe_edge list"
  yy_stable_edges :: "string list"
  yy_specific_edges :: "string list"
  yy_divergent_edges :: "string list"
  yy_timing :: "(string, 'f corr_timing) btree"
  yy_context_transitions :: "safe_ctx_trans list"
  yy_contexts :: "safe_ctx_corr list"
  yy_rr :: "safe_rr list"
  yy_repeats :: "safe_fp_repeat list"
  yy_variations :: "safe_payload_var list"
  yy_values :: "safe_cross_msg list"
  yy_periodic :: "'f safe_periodic list"
  yy_clusters :: "safe_cluster list"
  yy_divergence :: sequence_divergence
  yy_alignment :: "safe_align list"
  yy_external :: "safe_external list"

definition edges_of_class :: "edge_class \<Rightarrow> transition_edge list \<Rightarrow> string list" where
  "edges_of_class c edges = map (\<lambda>e. edge_name (ed_from_id e) (ed_to_id e)) (filter (\<lambda>e. ed_class e = c) edges)"

definition safe_edge_of :: "'f float_ops \<Rightarrow> transition_edge \<Rightarrow> 'f safe_edge" where
  "safe_edge_of F e =
     \<lparr>ye_edge = edge_name (ed_from_id e) (ed_to_id e), ye_count = ed_count e, ye_captures = length (ed_captures e),
      ye_direction = ed_direction_transition e, ye_median = ty_median (timing_stats_of F (ed_deltas e) FRAME_ORDER),
      ye_class = edge_class_str (ed_class e)\<rparr>"

definition correlation_safe_export :: "'f float_ops \<Rightarrow> 'f correlation_analysis \<Rightarrow> 'f safe_correlation" where
  "correlation_safe_export F a =
     \<lparr>yy_capture_a = an_capture_a a, yy_capture_b = an_capture_b a,
      yy_message_counts = bt_insert (an_capture_b a) (of_nat (ms_length (an_sequence_b a)))
        (bt_insert (an_capture_a a) (of_nat (ms_length (an_sequence_a a))) []),
      yy_unique = map fmt_msg_id (an_unique a),
      yy_lengths = bt_insert (an_capture_b a) (ms_length (an_sequence_b a))
        (bt_insert (an_capture_a a) (ms_length (an_sequence_a a)) []),
      yy_ngrams = map (\<lambda>g. \<lparr>yn_n = ng_n g, yn_sequence = ng_key g, yn_occurrences = ng_occurrences g,
          yn_captures = length (ng_captures g), yn_class = stability_str (ng_class g)\<rparr>)
        (take 128 (filter (\<lambda>g. ng_n g \<ge> 2) (an_ngrams a))),
      yy_stable = map (\<lambda>s. \<lparr>yq_sequence = sq_key s, yq_occurrences_a = sq_occurrences_a s,
          yq_occurrences_b = sq_occurrences_b s, yq_len = sq_len s\<rparr>) (take 64 (an_stable a)),
      yy_edges = map (safe_edge_of F) (take 128 (an_edges a)),
      yy_stable_edges = edges_of_class StableEdge (an_edges a),
      yy_specific_edges = edges_of_class CaptureSpecificEdge (an_edges a),
      yy_divergent_edges = edges_of_class DivergentEdge (an_edges a),
      yy_timing = foldl (\<lambda>m (k, v). bt_insert k v m) [] (take 64 (an_timing a)),
      yy_context_transitions = map (\<lambda>t. \<lparr>yt_before = ct_before t, yt_message_id = fmt_msg_id (ct_message_id t),
          yt_after = ct_after t, yt_count = ct_count t\<rparr>) (take 64 (an_context_transitions a)),
      yy_contexts = map (\<lambda>c. \<lparr>yc_message_id = fmt_msg_id (cx_message_id c), yc_contexts = cx_contexts c,
          yc_class = correlation_label_str (cx_class c)\<rparr>) (an_contexts a),
      yy_rr = map (\<lambda>r. \<lparr>yr_request_id = fmt_msg_id (rr_request_id r), yr_response_id = fmt_msg_id (rr_response_id r),
          yr_occurrences = rr_occurrences r, yr_signals = rr_signals r, yr_type = rr_type r,
          yr_confidence = correlation_label_str (rr_confidence r),
          yr_semantic = correlation_label_str (rr_semantic r)\<rparr>) (an_rr a),
      yy_repeats = map (\<lambda>r. \<lparr>yf_message_id = fmt_msg_id (fr_message_id r), yf_direction = fr_direction r,
          yf_context = fr_context r, yf_prefix = concat (take 16 (str_chars (fr_fingerprint r))),
          yf_count = fr_count r\<rparr>) (take 64 (an_repeats a)),
      yy_variations = map (\<lambda>v. \<lparr>yv_message_id = fmt_msg_id (pv_message_id v), yv_direction = pv_direction v,
          yv_context = pv_context v, yv_distinct = pv_distinct v\<rparr>) (take 64 (an_variations a)),
      yy_values = map (\<lambda>c. \<lparr>yx_from_id = fmt_msg_id (vc_from_id c), yx_to_id = fmt_msg_id (vc_to_id c),
          yx_from_offset = vc_from_offset c, yx_to_offset = vc_to_offset c, yx_width = vc_width c,
          yx_matching = vc_matching c, yx_meaning = vc_meaning c\<rparr>) (take 64 (an_values a)),
      yy_periodic = map (\<lambda>p. \<lparr>yp_message_id = fmt_msg_id (pc_message_id p), yp_paired = map_option fmt_msg_id (pc_paired p),
          yp_approximate = pc_approximate p, yp_median = pc_median p, yp_jitter = pc_jitter p, yp_unit = pc_unit p,
          yp_external = pc_external p\<rparr>) (an_periodic a),
      yy_clusters = map (\<lambda>c. \<lparr>yk_pattern = tc_pattern (tk_cluster c), yk_size = tc_size (tk_cluster c),
          yk_captures = length (tc_captures (tk_cluster c))\<rparr>) (an_clusters a),
      yy_divergence = an_divergence a,
      yy_alignment = map (\<lambda>s. \<lparr>ya_kind = segment_kind_str (sg_kind s), ya_ids = sequence_key (sg_ids s),
          ya_len = length (sg_ids s)\<rparr>) (take 64 (an_alignment a)),
      yy_external = map (\<lambda>e. \<lparr>yz_message_id = fmt_msg_id (en_message_id e), yz_external = en_external e,
          yz_source = en_source e\<rparr>) (an_external a)\<rparr>"

section \<open>The state machine and its safe export\<close>

text \<open>The test that the state machine of two captures asks of their analysis.\<close>

definition cluster_periodic :: "'f float_ops \<Rightarrow> capture_inventory \<Rightarrow> capture_inventory \<Rightarrow> bool" where
  "cluster_periodic F a b =
     list_ex (\<lambda>p. pc_message_id p = 0xFA \<and> pc_approximate p) (an_periodic (analyze_two_captures F a b))"

definition state_machine_of :: "'f float_ops \<Rightarrow> capture_inventory \<Rightarrow> capture_inventory \<Rightarrow> state_machine" where
  "state_machine_of F a b = build_state_machine (cluster_periodic F a b) a b"

record safe_state_obs =
  zo_capture_id :: string
  zo_state_id :: string
  zo_first_frame :: u32
  zo_last_frame :: u32
  zo_message_count :: u32
  zo_repeating :: bool
  zo_periodicity :: string
  zo_class :: string

record safe_transition =
  zt_from :: string
  zt_to :: string
  zt_message_id :: string
  zt_direction :: string
  zt_context :: u32
  zt_count :: u32
  zt_captures :: nat
  zt_class :: string
  zt_rr :: bool
  zt_semantic :: string

record safe_startup =
  zs_sequence :: string
  zs_a_observed :: bool
  zs_b_observed :: bool
  zs_common_prefix :: bool
  zs_class :: string
  zs_label :: string

record safe_branch =
  zb_index :: "nat option"
  zb_message_a :: "string option"
  zb_message_b :: "string option"
  zb_state_a :: string
  zb_state_b :: string
  zb_class :: string

record safe_state_cluster =
  zc_state_id :: string
  zc_message_ids :: "string list"
  zc_repeating :: bool
  zc_periodicity :: string
  zc_captures :: nat
  zc_class :: string
  zc_external :: "string option"
  zc_source :: "string option"

record safe_state_rr =
  zr_request_id :: string
  zr_response_id :: string
  zr_candidate :: bool
  zr_confidence :: string
  zr_semantic :: string

record safe_semantic =
  zm_message_id :: string
  zm_observed :: string
  zm_structural :: string
  zm_external :: "string option"
  zm_confidence :: string
  zm_unknowns :: string

record safe_state_machine =
  zz_capture_a :: string
  zz_capture_b :: string
  zz_nodes :: "string list"
  zz_states :: "safe_state_obs list"
  zz_transitions :: "safe_transition list"
  zz_startup :: safe_startup
  zz_branches :: safe_branch
  zz_cluster :: safe_state_cluster
  zz_contexts :: "safe_ctx_trans list"
  zz_rr :: "safe_state_rr list"
  zz_semantic :: "safe_semantic list"
  zz_external :: "safe_external list"
  zz_unknowns :: "string list"
  zz_trace_lengths :: "(string, nat) btree"

definition safe_transition_of :: "state_transition \<Rightarrow> safe_transition" where
  "safe_transition_of e =
     \<lparr>zt_from = st_from e, zt_to = st_to e, zt_message_id = fmt_msg_id (st_message_id e),
      zt_direction = st_direction e, zt_context = st_context e, zt_count = st_occurrences e,
      zt_captures = length (st_captures e), zt_class = state_class_str (st_class e), zt_rr = st_rr e,
      zt_semantic = state_class_str (st_semantic e)\<rparr>"

definition machine_safe_export :: "state_machine \<Rightarrow> safe_state_machine" where
  "machine_safe_export m =
     \<lparr>zz_capture_a = sm_capture_a m, zz_capture_b = sm_capture_b m, zz_nodes = sm_nodes m,
      zz_states = map (\<lambda>s. \<lparr>zo_capture_id = so_capture_id s, zo_state_id = so_state_id s,
          zo_first_frame = so_first_frame s, zo_last_frame = so_last_frame s, zo_message_count = so_message_count s,
          zo_repeating = so_repeating s, zo_periodicity = so_periodicity s,
          zo_class = state_class_str (so_class s)\<rparr>) (sm_states m),
      zz_transitions = map safe_transition_of (take 128 (sm_edges m)),
      zz_startup = \<lparr>zs_sequence = se_key (sm_startup m), zs_a_observed = se_a_observed (sm_startup m),
          zs_b_observed = se_b_observed (sm_startup m), zs_common_prefix = se_common_prefix (sm_startup m),
          zs_class = state_class_str (se_class (sm_startup m)), zs_label = se_label (sm_startup m)\<rparr>,
      zz_branches = \<lparr>zb_index = be_index (sm_branches m), zb_message_a = map_option fmt_msg_id (be_message_a (sm_branches m)),
          zb_message_b = map_option fmt_msg_id (be_message_b (sm_branches m)), zb_state_a = be_state_a (sm_branches m),
          zb_state_b = be_state_b (sm_branches m), zb_class = state_class_str (be_class (sm_branches m))\<rparr>,
      zz_cluster = \<lparr>zc_state_id = ce_state_id (sm_cluster m), zc_message_ids = map fmt_msg_id (ce_message_ids (sm_cluster m)),
          zc_repeating = ce_repeating (sm_cluster m), zc_periodicity = ce_periodicity (sm_cluster m),
          zc_captures = length (ce_captures (sm_cluster m)), zc_class = state_class_str (ce_class (sm_cluster m)),
          zc_external = ce_external (sm_cluster m), zc_source = ce_source (sm_cluster m)\<rparr>,
      zz_contexts = map (\<lambda>t. \<lparr>yt_before = cn_before t, yt_message_id = fmt_msg_id (cn_message_id t),
          yt_after = cn_after t, yt_count = cn_count t\<rparr>) (take 64 (sm_context_notes m)),
      zz_rr = map (\<lambda>r. \<lparr>zr_request_id = fmt_msg_id (rn_request_id r), zr_response_id = fmt_msg_id (rn_response_id r),
          zr_candidate = rn_candidate r, zr_confidence = rn_confidence r,
          zr_semantic = state_class_str (rn_semantic r)\<rparr>) (sm_rr_notes m),
      zz_semantic = map (\<lambda>r. \<lparr>zm_message_id = sw_message_id r, zm_observed = sw_observed r,
          zm_structural = sw_structural r, zm_external = sw_external r,
          zm_confidence = state_class_str (sw_confidence r), zm_unknowns = sw_unknowns r\<rparr>) (sm_semantic m),
      zz_external = map (\<lambda>e. \<lparr>yz_message_id = xs_message_id e, yz_external = xs_name e,
          yz_source = xs_source e\<rparr>) (sm_external m),
      zz_unknowns = sm_unknowns m,
      zz_trace_lengths = foldl (\<lambda>t (k, v). bt_insert k (length v) t) [] (sm_traces m)\<rparr>"

section \<open>What the statistics and the exports say\<close>

lemma timing_counts:
  "ty_count (timing_stats_of F vs u) = of_nat (length vs)"
  "ty_min (timing_stats_of F vs u) = (if vs = [] then None else Some (Min (set vs)))"
  "ty_max (timing_stats_of F vs u) = (if vs = [] then None else Some (Max (set vs)))"
proof -
  show "ty_count (timing_stats_of F vs u) = of_nat (length vs)"
    by (simp add: timing_stats_of_def timing_none_def Let_def)
  have ends: "sort vs ! 0 = Min (set vs)" "sort vs ! (length vs - 1) = Max (set vs)" if "vs \<noteq> []"
  proof -
    let ?s = "sort vs"
    have l: "length ?s = length vs" "set ?s = set vs" "sorted ?s" by simp_all
    have "?s ! 0 \<le> ?s ! i" "?s ! i \<le> ?s ! (length vs - 1)" if "i < length vs" for i
      using that by (auto intro!: sorted_nth_mono)
    then have b: "\<forall>v \<in> set vs. ?s ! 0 \<le> v \<and> v \<le> ?s ! (length vs - 1)"
      using l(1,2) by (metis in_set_conv_nth)
    have "?s ! 0 \<in> set vs" "?s ! (length vs - 1) \<in> set vs"
      using that l(1,2) nth_mem [of 0 ?s] nth_mem [of "length vs - 1" ?s] by simp_all
    with b show "?s ! 0 = Min (set vs)" "?s ! (length vs - 1) = Max (set vs)"
      by (auto intro!: Min_eqI [symmetric] Max_eqI [symmetric])
  qed
  show "ty_min (timing_stats_of F vs u) = (if vs = [] then None else Some (Min (set vs)))"
    "ty_max (timing_stats_of F vs u) = (if vs = [] then None else Some (Max (set vs)))"
    using ends by (simp_all add: timing_stats_of_def timing_none_def Let_def)
qed

text \<open>Each edge is in exactly one of the three edge lists of the export.\<close>

lemma edges_partitioned:
  "mset (edges_of_class StableEdge es) + mset (edges_of_class CaptureSpecificEdge es)
     + mset (edges_of_class DivergentEdge es)
   = mset (map (\<lambda>e. edge_name (ed_from_id e) (ed_to_id e)) es)"
proof (induction es)
  case (Cons e es)
  then show ?case by (cases "ed_class e") (simp_all add: edges_of_class_def)
qed (simp add: edges_of_class_def)

text \<open>The state machine uses the analysis of the same captures.\<close>

lemma machine_from_analysis:
  "sm_rr_notes (state_machine_of F a b) =
     map (\<lambda>r. \<lparr>rn_request_id = rr_request_id r, rn_response_id = rr_response_id r, rn_candidate = True,
        rn_confidence = correlation_label_str (rr_confidence r), rn_semantic = StUnknown\<rparr>)
       (an_rr (analyze_two_captures F a b))"
  "be_index (sm_branches (state_machine_of F a b)) = dv_divergence_index (an_divergence (analyze_two_captures F a b))"
  "ce_periodicity (sm_cluster (state_machine_of F a b)) =
     (if cluster_periodic F a b then ''APPROXIMATE'' else ''UNKNOWN'')"
  by (simp_all add: state_machine_of_def build_state_machine_def analyze_two_captures_def Let_def
      branch_evidence_of_def cluster_evidence_of_def)

text \<open>No capture can be seen as periodic on fewer than three distances.\<close>

lemma periodic_needs_three:
  "fst (is_approximately_periodic F deltas) \<Longrightarrow> length deltas \<ge> 3"
  by (simp add: is_approximately_periodic_def split: if_splits)


end
