(* ===== verification/Spec2Isabelle.thy ===== *)
theory Spec2Isabelle
  imports Cbc_Hmac Message_Registry Checked_Connection Accept_Loop Replay_Client Boundary_Harness Compat_Client Gcm_Evidence Session_Verify Fixture_Loader Evidence State_Trace Payload_Structure Multi_Capture Observation_Diff Signon_Spec Protocol_Spec Udp_Analysis Compat_Matrix Correlation_Report
begin

text \<open>
  Verification library of the networking crate (\<open>network/\<close>) of the Destiny 1 PC project.

  \<^bold>\<open>The program.\<close> The crate implements the BAP protocol that a console client and its servers speak
  over TCP, an offline local server for it, clients to test the server with, and the analyses of
  captured traffic from which the protocol was reconstructed. A byte stream is cut into frames
  (\<open>stream_framing.rs\<close>, \<open>framing.rs\<close>); an encrypted frame is an AES-GCM blob whose nonce comes from
  a counter per direction (\<open>crypto/\<close>, \<open>bap_session.rs\<close>, \<open>bap_pipeline.rs\<close>); the content of a frame
  is a message with an id, a context and a payload (\<open>message_codec.rs\<close>, \<open>messages.rs\<close>,
  \<open>message_registry.rs\<close>, \<open>message_dispatcher.rs\<close>); a protocol state machine with a response policy
  decides on the answers (\<open>protocol_state.rs\<close>, \<open>response_policy.rs\<close>, \<open>local_protocol.rs\<close>,
  \<open>stateful_bap_session.rs\<close>); the local server and the external boundary run it per connection in
  threads (\<open>local_server.rs\<close>, \<open>external_client_boundary.rs\<close>), and the clients drive it
  (\<open>replay_client.rs\<close>, \<open>compatibility_client.rs\<close>). The inventory, correlation and state trace of
  captures are \<open>message_inventory.rs\<close>, \<open>message_correlation.rs\<close> and \<open>state_machine.rs\<close>; beside them
  stand the structure of payloads, the comparison of several captures, UDP evidence, the sign-on
  evidence, the observation harness (\<open>observation*.rs\<close>, \<open>protocol_observation.rs\<close>), the offline
  verifiers of sessions and records, and the tables the project publishes (\<open>protocol_spec.rs\<close>,
  \<open>signon_spec.rs\<close>, \<open>compatibility_matrix.rs\<close>).

  \<^bold>\<open>Conventions.\<close> A struct is a record, an enum a datatype with the source's variants, an integer a
  word of its width (counters that wrap in a release build wrap; where the code saturates or checks
  the model does). \<open>Result\<close> is a sum with the error on the left, a possible panic is an \<open>option\<close>
  around it with \<open>None\<close> the panic. On the path from a socket of the local server to its replies every
  panic is explicit, also those of an index, a range, \<open>try_into().unwrap()\<close>, \<open>copy_from_slice\<close> and
  \<open>usize\<close> arithmetic (\<open>Checked_Codec\<close>, \<open>Checked_Connection\<close>); elsewhere slices are total functions used
  under the guards of the code, and \<open>None\<close> stands for the failing \<open>expect\<close> or slice of a text that the
  theory names. Methods on \<open>&mut self\<close> take the state last and return it. Text is
  its UTF-8 bytes. \<open>BTreeMap\<close> is an association list in key order (\<open>Ordered_Map\<close>), \<open>BTreeSet\<close> a
  sorted list, \<open>sort_by\<close> the stable \<open>sort_key\<close>. A socket is the script of what its reads will report
  and the list of what its writes will report, so that every cutting of a stream into reads, every
  time-out and every failing write is an input of the theorems; the peers of the accept loop are endless
  streams of such reports. Threads that share a counter or an
  event list are step relations over all interleavings.

  \<^bold>\<open>Parameters.\<close> Code outside the repository is an argument: the AES-GCM cipher (\<open>aead_prims\<close> with the
  hypothesis \<open>aead_ok\<close>: decryption inverts encryption up to 2^36 bytes, the limit of the standard),
  AES-CBC and HMAC (\<open>cbc_prims\<close>, \<open>cbc_ok\<close>), SHA-256, and what the operating system reports.
  \<open>demo_aead\<close> and \<open>demo_cbc\<close> satisfy the hypotheses and make the witnesses concrete. The JSON parser is
  a function from texts to values of \<open>json\<close> or straight to the records of a file, the decoders and
  encoders that \<open>serde\<close> derives are functions likewise; a file is \<open>None\<close> when it does not exist and
  \<open>Some None\<close> when reading it fails. \<open>f64\<close> is an arbitrary type with the operations of the record
  \<open>float_ops\<close>, of which nothing is assumed. The Debug text of a string and \<open>to_lowercase\<close>, which depend
  on the Unicode tables of the standard library, are functions too.

  \<^bold>\<open>Theories, bottom up.\<close>
  \<^item> \<open>Prelude\<close>: the machine integers, big-endian bytes, formatted text and number parsing shared by all.
  \<^item> \<open>Interfaces\<close>: the contracts between components as locales: an exact codec, a chunk decoder whose
    result does not depend on the cutting, a byte source determined by a script, a secure channel.
  \<^item> \<open>Framing\<close>, \<open>Stream_Framing\<close>: the frame parser and the stream decoder; round trip, canonicity and
    the exact conditions of the errors; invariance under chunking, conservation of bytes.
  \<^item> \<open>Gcm_Nonce\<close>, \<open>Aead\<close>, \<open>Cbc_Hmac\<close>: nonces per direction and their distinctness, AES-GCM blobs,
    padding and the verdicts on session records.
  \<^item> \<open>Bap_Session\<close>, \<open>Byte_Source\<close>, \<open>Bap_Pipeline\<close>: encoding and decoding of frames, sources of bytes
    (TCP and mock, interpretations of \<open>byte_source\<close>), and the pipeline over them: delivery of every message
    sequence, exact nonce consumption, termination of the collecting loop (a \<open>partial_function (option)\<close>,
    because a source may never end).
  \<^item> \<open>Messages\<close>, \<open>Message_Codec\<close>, \<open>Message_Registry\<close>, \<open>Message_Dispatcher\<close>: losslessness of the codec,
    the 0x1A record as an \<open>exact_codec\<close>, consistency of the registry.
  \<^item> \<open>Protocol_State\<close>, \<open>Local_Protocol\<close>, \<open>Response_Policy\<close>, \<open>Stateful_Session\<close>: the state machine as a
    refinement of a life-cycle relation (save for a message without a rule on the established channel,
    which activates it), order of the handshake, the session as a run of the
    machine and its event log.
  \<^item> \<open>Local_Server\<close>: one connection as a loop (measure: the size of the socket script), as a refinement of
    the abstract policy.
  \<^item> \<open>Checked_Codec\<close>, \<open>Checked_Connection\<close>: the same operations from the frame to the connection with
    every panic written out; each equals its total counterpart (the collection \<open>never_panics\<close>), so a
    connection never panics. A pass of the read loop is an operation of its own here.
  \<^item> \<open>Accept_Loop\<close>: the accept thread beside connection threads that run pass by pass on peers that may
    send for ever; the accounting of slots, and that a peer which goes quiet loses its slot.
  \<^item> \<open>Replay_Client\<close>, \<open>Compat_Client\<close>: the clients; they meet the server over any cutting of both streams,
    and the state and log of the second are consistent over every sequence of calls.
  \<^item> \<open>External_Boundary\<close>, \<open>Boundary_Equivalence\<close>, \<open>Boundary_Lifecycle\<close>, \<open>Boundary_Harness\<close>: the boundary
    worker with its limits, its agreement with the local server, its life cycle, and the harness
    that runs accept thread and workers beside each other: slots, ids, peers and the shared event
    collector over all interleavings; the test client and the check of trace files.
  \<^item> \<open>Gcm_Evidence\<close>, \<open>Session_Verify\<close>: the offline verifiers. What a verified report means, that what a
    session sealed is verified, and that the schedule of chunks does not show in a report.
  \<^item> \<open>Evidence\<close>: the record formats and the timeline, with the panics of slicing a text; a round trip.
  \<^item> \<open>Ordered_Map\<close>, \<open>Correlation\<close>, \<open>Message_Inventory\<close>, \<open>Sequence_Analysis\<close>, \<open>State_Trace\<close>: the analyses;
    longest common subsequences and alignments, inventories and comparisons of captures,
    stable sequences, the inferred state machine with what each of its states and transitions counts.
  \<^item> \<open>Float_Ops\<close>, \<open>Correlation_Report\<close>: the operations of \<open>f64\<close>, and with them the rest of the
    correlation and state machine files: statistics, periodic candidates, whole analyses, exports.
  \<^item> \<open>Payload_Structure\<close>, \<open>Multi_Capture\<close>: regions as the maximal runs of equal classes, the verdict over
    several captures from the classification of each invariant.
  \<^item> \<open>Fixture_Loader\<close>: from fixtures and manifests to reports and inventories: what they say of a genuine
    session, when a manifest of sound captures is verified, and which statements are constants.
  \<^item> \<open>Udp_Evidence\<close>, \<open>Udp_Analysis\<close>: the pcap reader gives back what a file holds; flows partition
    the datagrams of a capture; on what parts of a datagram the export depends.
  \<^item> \<open>Json_Value\<close>, \<open>Observation\<close>, \<open>Observation_Diff\<close>: traces with a sensitive key are refused wherever it
    stands; a difference is an edit script from the expected to the observed sequence.
  \<^item> \<open>Signon\<close>, \<open>Signon_Spec\<close>: what the reader of evidence refuses (values under secret-looking names,
    outside name maps and the allowed metadata of a descriptor), and the tables made from evidence.
  \<^item> \<open>Protocol_Spec\<close>, \<open>Compat_Matrix\<close>: the published tables in closed form, their validation and what it
    guarantees.

  \<^bold>\<open>Bounds.\<close> No definition uses fuel: loops over sockets and texts decrease the size of what is left to
  read, and the one loop over any source is a partial function shown to return; connection threads on
  endless peers are stepped, and their steps bounded by the wait of the peer for its next quiet read. Theorems about slots
  assume a limit below 2^64, the range of \<open>usize\<close>; distinct ids need at most 2^64 connections; a session needs fewer than 2^88 frames for its nonces to stay apart, the
  verifiers fewer than 2^32 frames, the range of their counters. In the text statistics of a payload
  the average divides by the number of ratios as a 32-bit value, zero only at multiples of 2^32 of them.

  \<^bold>\<open>Not modelled.\<close> Command-line parsing (\<open>cli.rs\<close>) and the verification commands (the other
  \<open>*_verify.rs\<close> files): they read capture files, build from them the input of the analyses modelled
  here and print what those return. The system calls of binding, joining a thread and setting
  time-outs, the stop handshake of the local server and its status banner; a time-out is what a read
  reports. The JSON forms that \<open>serde\<close> derives, and the Debug texts that redact secrets.
\<close>

end
